(* ===== verification/Prelude.thy ===== *)
theory Prelude
  imports Main "HOL-Library.Word"
begin

unbundle bit_operations_syntax

text \<open>
  What the components of the development share: the names of the C integer types, the
  big-endian (network order) layout of 16 and 32 bit integers in a byte buffer, integers as
  hash keys, a list with an element replaced or removed at a position, circular arrays, runs
  that an assertion may end, and the named collections that carry the automation of the component theories.
\<close>

section \<open>Machine types\<close>

type_synonym byte = "8 word"
type_synonym u8 = "8 word"
type_synonym u16 = "16 word"
type_synonym u32 = "32 word"
type_synonym u64 = "64 word"
type_synonym bytes = "byte list"

text \<open>Laws of the wire codecs and facts on buffer lengths.\<close>
named_theorems codec_simps
text \<open>Introduction rules for the invariants of the components.\<close>
named_theorems inv_intros

section \<open>Network byte order\<close>

definition be16 :: "u16 \<Rightarrow> bytes" where
  "be16 w = [ucast (drop_bit 8 w), ucast w]"

text \<open>An integer used as the key of a hash table: its bytes in host (little endian) order.\<close>

definition key32 :: "u32 \<Rightarrow> bytes" where
  "key32 w = [ucast w, ucast (drop_bit 8 w), ucast (drop_bit 16 w), ucast (drop_bit 24 w)]"

definition key64 :: "u64 \<Rightarrow> bytes" where
  "key64 w = key32 (ucast w) @ key32 (ucast (drop_bit 32 w))"

definition be32 :: "u32 \<Rightarrow> bytes" where
  "be32 w = [ucast (drop_bit 24 w), ucast (drop_bit 16 w), ucast (drop_bit 8 w), ucast w]"

definition of_be16 :: "byte \<Rightarrow> byte \<Rightarrow> u16" where
  "of_be16 a b = push_bit 8 (ucast a) OR ucast b"

definition of_be32 :: "byte \<Rightarrow> byte \<Rightarrow> byte \<Rightarrow> byte \<Rightarrow> u32" where
  "of_be32 a b c d =
     push_bit 24 (ucast a) OR push_bit 16 (ucast b) OR push_bit 8 (ucast c) OR ucast d"

text \<open>
  Reading at an offset of a buffer. The callers have checked the length, as the C code has
  (or has not: the components that read past the end say so in their result).
\<close>

definition rd8 :: "bytes \<Rightarrow> nat \<Rightarrow> byte" where
  "rd8 bs i = (if i < length bs then bs ! i else 0)"

definition rd16 :: "bytes \<Rightarrow> nat \<Rightarrow> u16" where
  "rd16 bs i = of_be16 (rd8 bs i) (rd8 bs (i + 1))"

definition rd32 :: "bytes \<Rightarrow> nat \<Rightarrow> u32" where
  "rd32 bs i = of_be32 (rd8 bs i) (rd8 bs (i + 1)) (rd8 bs (i + 2)) (rd8 bs (i + 3))"

lemma length_be16 [simp]: "length (be16 w) = 2"
  by (simp add: be16_def)

lemma length_be32 [simp]: "length (be32 w) = 4"
  by (simp add: be32_def)

lemma of_be16_split [codec_simps]: "of_be16 (ucast (drop_bit 8 w)) (ucast w) = w"
  unfolding of_be16_def by (rule bit_word_eqI) (auto simp: bit_simps)

lemma of_be32_split [codec_simps]:
  "of_be32 (ucast (drop_bit 24 w)) (ucast (drop_bit 16 w)) (ucast (drop_bit 8 w)) (ucast w) = w"
proof (rule bit_word_eqI)
  fix n
  assume "n < LENGTH(32)"
  then show "bit (of_be32 (ucast (drop_bit 24 w)) (ucast (drop_bit 16 w))
      (ucast (drop_bit 8 w)) (ucast w)) n = bit w n"
    by (cases "n < 8"; cases "n < 16"; cases "n < 24") (auto simp: of_be32_def bit_simps)
qed

lemma key32_not_Nil [simp]: "key32 w \<noteq> []"
  by (simp add: key32_def)

lemma key32_inject [simp]: "key32 v = key32 w \<longleftrightarrow> v = w"
proof
  assume "key32 v = key32 w"
  then have "of_be32 (ucast (drop_bit 24 v)) (ucast (drop_bit 16 v)) (ucast (drop_bit 8 v)) (ucast v)
      = of_be32 (ucast (drop_bit 24 w)) (ucast (drop_bit 16 w)) (ucast (drop_bit 8 w)) (ucast w)"
    by (simp add: key32_def)
  then show "v = w" by (simp add: of_be32_split)
qed simp

lemma length_key32 [simp]: "length (key32 w) = 4"
  by (simp add: key32_def)

lemma key64_not_Nil [simp]: "key64 w \<noteq> []"
  by (simp add: key64_def)

lemma u64_halves_inject:
  fixes v w :: u64
  assumes "(ucast v :: u32) = ucast w" "(ucast (drop_bit 32 v) :: u32) = ucast (drop_bit 32 w)"
  shows "v = w"
proof (rule bit_word_eqI)
  fix n
  assume n: "n < LENGTH(64)"
  show "bit v n = bit w n"
  proof (cases "n < 32")
    case True
    then have "bit v n = bit (ucast v :: u32) n" "bit w n = bit (ucast w :: u32) n"
      by (simp_all add: bit_ucast_iff)
    with assms(1) show ?thesis by simp
  next
    case False
    with n have "n - 32 < 32" by simp
    with n False have "bit v n = bit (ucast (drop_bit 32 v) :: u32) (n - 32)"
      "bit w n = bit (ucast (drop_bit 32 w) :: u32) (n - 32)"
      by (simp_all add: bit_ucast_iff bit_drop_bit_eq)
    with assms(2) show ?thesis by simp
  qed
qed

lemma key64_inject [simp]: "key64 v = key64 w \<longleftrightarrow> v = w"
  by (auto simp: key64_def intro: u64_halves_inject)

lemma rd32_be32_append [codec_simps]: "rd32 (be32 w @ bs) 0 = w"
  by (simp add: rd32_def rd8_def be32_def of_be32_split)

lemma rd16_be16_append [codec_simps]: "rd16 (be16 w @ bs) 0 = w"
  by (simp add: rd16_def rd8_def be16_def of_be16_split)

lemma rd8_append [simp]:
  "rd8 (xs @ ys) i = (if i < length xs then rd8 xs i else rd8 ys (i - length xs))"
  by (auto simp: rd8_def nth_append)

section \<open>Lists changed at a position\<close>

definition remove_nth :: "nat \<Rightarrow> 'a list \<Rightarrow> 'a list" where
  "remove_nth i xs = take i xs @ drop (Suc i) xs"

lemma length_remove_nth [simp]:
  "i < length xs \<Longrightarrow> length (remove_nth i xs) = length xs - 1"
  by (simp add: remove_nth_def)

lemma set_remove_nth_subset: "set (remove_nth i xs) \<subseteq> set xs"
  by (auto simp: remove_nth_def dest: in_set_takeD in_set_dropD)

lemma remove_nth_map: "remove_nth i (map f xs) = map f (remove_nth i xs)"
  by (simp add: remove_nth_def take_map drop_map)

lemma distinct_remove_nth: "distinct xs \<Longrightarrow> distinct (remove_nth i xs)"
  using set_take_disj_set_drop_if_distinct [of xs i "Suc i"]
  by (auto simp: remove_nth_def)

lemma set_remove_nth_distinct:
  assumes "distinct xs" "i < length xs"
  shows "set (remove_nth i xs) = set xs - {xs ! i}"
proof -
  have "xs = take i xs @ xs ! i # drop (Suc i) xs"
    using assms(2) by (simp add: id_take_nth_drop)
  with assms(1) show ?thesis
    unfolding remove_nth_def
    by (metis Diff_insert_absorb Un_insert_right distinct.simps(2) distinct_append
        list.set(2) not_distinct_conv_prefix set_append Un_iff)
qed

lemma map_of_list_update:
  assumes "distinct (map fst xs)" "p < length xs" "fst x = fst (xs ! p)"
  shows "map_of (xs[p := x]) = (map_of xs)(fst x \<mapsto> snd x)"
  using assms
proof (induction xs arbitrary: p)
  case (Cons y ys)
  show ?case
  proof (cases p)
    case 0
    with Cons.prems show ?thesis by (cases x) (auto simp: fun_eq_iff)
  next
    case (Suc q)
    with Cons.prems nth_mem [of q ys] have "fst y \<noteq> fst x"
      by (metis distinct.simps(2) fst_conv image_eqI length_Cons list.set_map list.simps(9)
          not_less_eq nth_Cons_Suc Suc_less_eq)
    moreover have "map_of (ys[q := x]) = (map_of ys)(fst x \<mapsto> snd x)"
      using Cons.prems Suc by (intro Cons.IH) auto
    ultimately show ?thesis using Suc by (cases y) (auto simp: fun_eq_iff)
  qed
qed simp

lemma map_of_remove_nth:
  assumes "distinct (map fst xs)" "p < length xs"
  shows "map_of (remove_nth p xs) = (map_of xs)(fst (xs ! p) := None)"
  using assms
proof (induction xs arbitrary: p)
  case (Cons y ys)
  show ?case
  proof (cases p)
    case 0
    have "map_of ys (fst y) = None" using Cons.prems by (auto simp: map_of_eq_None_iff)
    with 0 show ?thesis by (cases y) (auto simp: fun_eq_iff remove_nth_def)
  next
    case (Suc q)
    with Cons.prems nth_mem [of q ys] have "fst y \<noteq> fst (ys ! q)"
      by (metis distinct.simps(2) image_eqI length_Cons list.set_map list.simps(9) Suc_less_eq)
    moreover have "map_of (remove_nth q ys) = (map_of ys)(fst (ys ! q) := None)"
      using Cons.prems Suc by (intro Cons.IH) auto
    moreover have "remove_nth p (y # ys) = y # remove_nth q ys"
      by (simp add: Suc remove_nth_def)
    ultimately show ?thesis using Suc by (cases y) (auto simp: fun_eq_iff)
  qed
qed simp

lemma map_of_snoc:
  "k \<notin> fst ` set xs \<Longrightarrow> map_of (xs @ [(k, v)]) = (map_of xs)(k \<mapsto> v)"
  by (induction xs) (auto simp: fun_eq_iff)

lemma length_concat_update:
  "b < length xss \<Longrightarrow>
     length (concat (xss[b := ys])) + length (xss ! b) = length (concat xss) + length ys"
  by (induction xss arbitrary: b) (auto split: nat.splits)

section \<open>Ring buffers\<close>

text \<open>
  The \<open>n\<close> slots of a circular array from slot \<open>h\<close> on: the free list of a pool and the
  contents of a queue.
\<close>

definition ring :: "'a list \<Rightarrow> nat \<Rightarrow> nat \<Rightarrow> 'a list" where
  "ring xs h n = map (\<lambda>i. xs ! ((h + i) mod length xs)) [0..<n]"

lemma length_ring [simp]: "length (ring xs h n) = n"
  by (simp add: ring_def)

lemma ring_0 [simp]: "ring xs h 0 = []"
  by (simp add: ring_def)

lemma mod_add_inj:
  fixes h i j s :: nat
  assumes "i < s" "j < s" "(h + i) mod s = (h + j) mod s"
  shows "i = j"
proof (rule ccontr)
  assume ne: "i \<noteq> j"
  have "int s dvd int (h + i) - int (h + j)"
    using assms(3) by (metis mod_eq_dvd_iff zmod_int)
  then have "int s dvd int i - int j" by simp
  then have "int s \<le> \<bar>int i - int j\<bar>"
    using ne by (intro zdvd_imp_le) auto
  with assms(1,2) show False by linarith
qed

lemma ring_pop:
  assumes "0 < n" "h < length xs"
  shows "ring xs h n = xs ! h # ring xs ((h + 1) mod length xs) (n - 1)"
proof -
  obtain m where m: "n = Suc m" using assms(1) by (cases n) auto
  have "xs ! ((h + Suc i) mod length xs) = xs ! (((h + 1) mod length xs + i) mod length xs)" for i
    by (simp add: mod_add_left_eq)
  with assms m show ?thesis
    by (simp add: ring_def upt_conv_Cons map_Suc_upt [symmetric] comp_def del: upt_Suc)
qed

lemma ring_update_outside:
  assumes "t < length xs" "\<forall>i < n. (h + i) mod length xs \<noteq> t"
  shows "ring (xs[t := x]) h n = ring xs h n"
  using assms by (auto simp: ring_def nth_list_update)

lemma ring_push:
  assumes "n < length xs" "h < length xs"
  shows "ring (xs[(h + n) mod length xs := x]) h (Suc n) = ring xs h n @ [x]"
proof -
  have "\<forall>i < n. (h + i) mod length xs \<noteq> (h + n) mod length xs"
    using assms mod_add_inj [of _ "length xs" n h] by (metis less_trans nat_less_le)
  moreover have lt: "(h + n) mod length xs < length xs" using assms by (intro mod_less_divisor) linarith
  ultimately have "ring (xs[(h + n) mod length xs := x]) h n = ring xs h n"
    by (intro ring_update_outside) auto
  moreover note lt
  ultimately show ?thesis by (simp add: ring_def)
qed

section \<open>Runs that may abort\<close>

text \<open>
  \<^verbatim>\<open>ogs_assert\<close> ends the process. A function of the code with an assertion that its input can
  violate returns \<open>Abort\<close> on such an input.
\<close>

datatype 'a exec = Abort | Ret 'a

fun exec_bind :: "'a exec \<Rightarrow> ('a \<Rightarrow> 'b exec) \<Rightarrow> 'b exec" where
  "exec_bind Abort f = Abort"
| "exec_bind (Ret x) f = f x"

lemma exec_bind_eq_Ret [simp]: "exec_bind m f = Ret y \<longleftrightarrow> (\<exists>x. m = Ret x \<and> f x = Ret y)"
  by (cases m) auto

lemma exec_bind_eq_Abort [simp]:
  "exec_bind m f = Abort \<longleftrightarrow> m = Abort \<or> (\<exists>x. m = Ret x \<and> f x = Abort)"
  by (cases m) auto

end
