(* ===== verification/Ogs_Hash.thy ===== *)
theory Ogs_Hash
  imports Prelude
begin

text \<open>
  The hash table of \<^verbatim>\<open>lib/core/ogs-hash.c\<close>: chained buckets over byte keys, an array
  that doubles when the number of entries passes its size, a list of recycled entries and an
  iterator. The contract its users rely on is the locale \<open>key_store\<close>, interpreted at the end
  of the theory on the operations of the table.

  An entry holds the bytes its \<^verbatim>\<open>key\<close> pointer designates (\<^verbatim>\<open>klen\<close> is their
  number), and a null value is \<open>None\<close>. The counters \<^verbatim>\<open>count\<close> and \<^verbatim>\<open>max\<close> are
  \<open>nat\<close>: they are \<^verbatim>\<open>unsigned int\<close> in the code and stay far below its range, as a
  table holds at most one entry per element of a pool.
\<close>

section \<open>State\<close>

record 'v hash_entry =
  he_hash :: u32
  he_key :: bytes
  he_val :: 'v

record 'v ogs_hash =
  ht_array :: "'v hash_entry list list"
  ht_count :: nat
  ht_max :: nat
  ht_seed :: u32
  ht_hash_func :: "(bytes \<Rightarrow> int \<Rightarrow> u32 \<times> int) option"
  ht_free :: "'v hash_entry list"

record 'v hash_index =
  hi_this :: "'v hash_entry"
  hi_next :: "'v hash_entry list"
  hi_index :: nat

section \<open>Operations\<close>

definition alloc_array :: "nat \<Rightarrow> 'v hash_entry list list" where
  "alloc_array m = replicate (Suc m) []"

text \<open>The seed comes from the clock and from addresses: it is an argument.\<close>

definition ogs_hash_make :: "u32 \<Rightarrow> 'v ogs_hash" where
  "ogs_hash_make seed =
     \<lparr>ht_array = alloc_array 15, ht_count = 0, ht_max = 15, ht_seed = seed,
      ht_hash_func = None, ht_free = []\<rparr>"

definition ogs_hash_make_custom ::
  "(bytes \<Rightarrow> int \<Rightarrow> u32 \<times> int) \<Rightarrow> u32 \<Rightarrow> 'v ogs_hash" where
  "ogs_hash_make_custom f seed = (ogs_hash_make seed)\<lparr>ht_hash_func := Some f\<rparr>"

text \<open>
  \<^verbatim>\<open>ogs_hash_next\<close>: the chain cached in the iterator first, then the buckets from its
  index on. \<open>scan_buckets\<close> is the \<^verbatim>\<open>while (!hi->this)\<close> loop.
\<close>

function scan_buckets ::
  "'v ogs_hash \<Rightarrow> 'v hash_entry list \<Rightarrow> nat \<Rightarrow> 'v hash_index option" where
  "scan_buckets ht (e # es) i = Some \<lparr>hi_this = e, hi_next = es, hi_index = i\<rparr>"
| "scan_buckets ht [] i =
     (if i > ht_max ht then None else scan_buckets ht (ht_array ht ! i) (Suc i))"
  by pat_completeness auto
termination
  by (relation "measure (\<lambda>(ht, es, i). Suc (ht_max ht) - i)") auto

declare scan_buckets.simps(2) [simp del]

definition ogs_hash_next :: "'v ogs_hash \<Rightarrow> 'v hash_index \<Rightarrow> 'v hash_index option" where
  "ogs_hash_next ht hi = scan_buckets ht (hi_next hi) (hi_index hi)"

definition ogs_hash_first :: "'v ogs_hash \<Rightarrow> 'v hash_index option" where
  "ogs_hash_first ht = scan_buckets ht [] 0"

definition iter_left :: "'v ogs_hash \<Rightarrow> 'v hash_index option \<Rightarrow> nat \<times> nat" where
  "iter_left ht hio = (case hio of None \<Rightarrow> (0, 0)
     | Some hi \<Rightarrow> (Suc (Suc (ht_max ht)) - hi_index hi, Suc (length (hi_next hi))))"

lemma scan_buckets_index:
  "scan_buckets ht es i = Some hi \<Longrightarrow>
     (i \<le> hi_index hi \<and> hi_index hi \<le> max i (Suc (ht_max ht))) \<and>
     (hi_index hi = i \<longrightarrow> length es = Suc (length (hi_next hi)))"
proof (induction ht es i rule: scan_buckets.induct)
  case (2 ht i)
  then show ?case by (auto simp: scan_buckets.simps(2) split: if_splits)
qed auto

lemma iter_left_next:
  "(iter_left ht (ogs_hash_next ht hi), iter_left ht (Some hi)) \<in> less_than <*lex*> less_than"
proof (cases "ogs_hash_next ht hi")
  case None
  then show ?thesis by (cases "hi_index hi \<le> Suc (ht_max ht)") (auto simp: iter_left_def)
next
  case (Some hj)
  then have "scan_buckets ht (hi_next hi) (hi_index hi) = Some hj"
    by (simp add: ogs_hash_next_def)
  from scan_buckets_index [OF this] show ?thesis
    by (auto simp: iter_left_def Some)
qed

text \<open>
  The loop \<^verbatim>\<open>for (hi = ogs_hash_first(ht); hi; hi = ogs_hash_next(hi))\<close> over a table its
  body does not change: the entries it visits, in order.
\<close>

function visit_from :: "'v ogs_hash \<Rightarrow> 'v hash_index option \<Rightarrow> 'v hash_entry list" where
  "visit_from ht hio = (case hio of None \<Rightarrow> []
     | Some hi \<Rightarrow> hi_this hi # visit_from ht (ogs_hash_next ht hi))"
  by pat_completeness auto
termination
  by (relation "inv_image (less_than <*lex*> less_than) (\<lambda>(ht, hio). iter_left ht hio)")
     (auto simp: iter_left_next wf_lex_prod wf_inv_image)

declare visit_from.simps [simp del]

definition expand_array :: "'v ogs_hash \<Rightarrow> 'v ogs_hash" where
  "expand_array ht =
     (let new_max = ht_max ht * 2 + 1;
          new_array = fold (\<lambda>e arr. let i = unat (he_hash e AND of_nat new_max)
                                    in arr[i := e # arr ! i])
                        (visit_from ht (ogs_hash_first ht)) (alloc_array new_max)
      in ht\<lparr>ht_array := new_array, ht_max := new_max\<rparr>)"

text \<open>
  \<^verbatim>\<open>klen == -1\<close> is \<^verbatim>\<open>OGS_HASH_KEY_STRING\<close>: the key ends at its first zero byte and
  \<^verbatim>\<open>klen\<close> is set to its length.
\<close>

definition times33 :: "u32 \<Rightarrow> bytes \<Rightarrow> u32" where
  "times33 h key = foldl (\<lambda>h p. h * 33 + ucast p) h key"

definition hashfunc_default :: "bytes \<Rightarrow> int \<Rightarrow> u32 \<Rightarrow> u32 \<times> int" where
  "hashfunc_default key klen h =
     (if klen = -1
      then (let s = takeWhile (\<lambda>p. p \<noteq> 0) key in (times33 h s, int (length s)))
      else (times33 h (take (nat klen) key), klen))"

definition ogs_hashfunc_default :: "bytes \<Rightarrow> int \<Rightarrow> u32 \<times> int" where
  "ogs_hashfunc_default key klen = hashfunc_default key klen 0"

text \<open>The scan of a chain stops at the position of the match, or at its end.\<close>

fun chain_pos :: "u32 \<Rightarrow> bytes \<Rightarrow> 'v hash_entry list \<Rightarrow> nat" where
  "chain_pos h k [] = 0"
| "chain_pos h k (e # es) =
     (if he_hash e = h \<and> he_key e = k then 0 else Suc (chain_pos h k es))"

text \<open>
  \<^verbatim>\<open>find_entry\<close> returns a pointer to a link of a chain: the bucket and the position in its
  chain. The link is null when the position is the length of the chain.
\<close>

definition find_entry ::
  "'v ogs_hash \<Rightarrow> bytes \<Rightarrow> int \<Rightarrow> 'v option \<Rightarrow> 'v ogs_hash \<times> nat \<times> nat" where
  "find_entry ht key klen val =
     (let (h, klen') = (case ht_hash_func ht of Some f \<Rightarrow> f key klen
                        | None \<Rightarrow> hashfunc_default key klen (ht_seed ht));
          k = take (nat klen') key;
          b = unat (h AND of_nat (ht_max ht));
          chain = ht_array ht ! b;
          p = chain_pos h k chain
      in case val of
           None \<Rightarrow> (ht, b, p)
         | Some v \<Rightarrow>
             if p < length chain then (ht, b, p)
             else (ht\<lparr>ht_array := (ht_array ht)
                        [b := chain @ [\<lparr>he_hash = h, he_key = k, he_val = v\<rparr>]],
                      ht_free := tl (ht_free ht),
                      ht_count := ht_count ht + 1\<rparr>, b, p))"

definition ogs_hash_get_debug :: "'v ogs_hash \<Rightarrow> bytes \<Rightarrow> int \<Rightarrow> 'v option exec" where
  "ogs_hash_get_debug ht key klen =
     (if klen = 0 then Abort
      else let (ht', b, p) = find_entry ht key klen None; chain = ht_array ht' ! b
           in Ret (if p < length chain then Some (he_val (chain ! p)) else None))"

definition ogs_hash_set_debug ::
  "'v ogs_hash \<Rightarrow> bytes \<Rightarrow> int \<Rightarrow> 'v option \<Rightarrow> 'v ogs_hash exec" where
  "ogs_hash_set_debug ht key klen val =
     (if klen = 0 then Abort
      else let (ht', b, p) = find_entry ht key klen val; chain = ht_array ht' ! b
           in Ret (if p < length chain
                   then (case val of
                       None \<Rightarrow> ht'\<lparr>ht_array := (ht_array ht')[b := remove_nth p chain],
                                  ht_free := chain ! p # ht_free ht',
                                  ht_count := ht_count ht' - 1\<rparr>
                     | Some v \<Rightarrow>
                         (let ht'' = ht'\<lparr>ht_array := (ht_array ht')
                                           [b := chain[p := (chain ! p)\<lparr>he_val := v\<rparr>]]\<rparr>
                          in if ht_count ht'' > ht_max ht'' then expand_array ht'' else ht''))
                   else ht'))"

definition ogs_hash_get_or_set_debug ::
  "'v ogs_hash \<Rightarrow> bytes \<Rightarrow> int \<Rightarrow> 'v option \<Rightarrow> ('v ogs_hash \<times> 'v option) exec" where
  "ogs_hash_get_or_set_debug ht key klen val =
     (if klen = 0 then Abort
      else let (ht', b, p) = find_entry ht key klen val; chain = ht_array ht' ! b
           in Ret (if p < length chain
                   then (if ht_count ht' > ht_max ht' then expand_array ht' else ht',
                         Some (he_val (chain ! p)))
                   else (ht', None)))"

text \<open>
  The macros \<^verbatim>\<open>ogs_hash_get\<close> and \<^verbatim>\<open>ogs_hash_set\<close> at a call site that passes the
  whole of a key that is not empty, where the assertion holds.
\<close>

definition hash_get :: "'v ogs_hash \<Rightarrow> bytes \<Rightarrow> 'v option" where
  "hash_get ht key = (case ogs_hash_get_debug ht key (int (length key)) of
     Ret r \<Rightarrow> r | Abort \<Rightarrow> None)"

definition hash_set :: "'v ogs_hash \<Rightarrow> bytes \<Rightarrow> 'v option \<Rightarrow> 'v ogs_hash" where
  "hash_set ht key val = (case ogs_hash_set_debug ht key (int (length key)) val of
     Ret r \<Rightarrow> r | Abort \<Rightarrow> ht)"

text \<open>
  \<^verbatim>\<open>ogs_hash_clear\<close> deletes the entry the iterator is on and moves on; the chain cached in
  the iterator is not affected by the deletion.
\<close>

lemma ht_max_delete: "ht_max (hash_set ht key None) = ht_max ht"
  by (auto simp: hash_set_def ogs_hash_set_debug_def find_entry_def Let_def
      split: exec.splits if_splits prod.splits)

lemma iter_left_max: "ht_max ht' = ht_max ht \<Longrightarrow> iter_left ht' hio = iter_left ht hio"
  by (simp add: iter_left_def split: option.splits)

function clear_loop :: "'v ogs_hash \<Rightarrow> 'v hash_index option \<Rightarrow> 'v ogs_hash" where
  "clear_loop ht hio = (case hio of None \<Rightarrow> ht
     | Some hi \<Rightarrow> (let ht' = hash_set ht (he_key (hi_this hi)) None
                  in clear_loop ht' (ogs_hash_next ht' hi)))"
  by pat_completeness auto
termination
proof (relation "inv_image (less_than <*lex*> less_than) (\<lambda>(ht, hio). iter_left ht hio)")
  show "wf (inv_image (less_than <*lex*> less_than) (\<lambda>(ht, hio). iter_left ht hio))"
    by (simp add: wf_lex_prod wf_inv_image)
next
  fix ht :: "'v ogs_hash" and hio :: "'v hash_index option" and hi ht'
  assume "hio = Some hi" "ht' = hash_set ht (he_key (hi_this hi)) None"
  then show "((ht', ogs_hash_next ht' hi), ht, hio)
      \<in> inv_image (less_than <*lex*> less_than) (\<lambda>(ht, hio). iter_left ht hio)"
    using iter_left_next [of ht' hi] iter_left_max [of ht' ht "Some hi"]
    by (simp add: ht_max_delete)
qed

declare clear_loop.simps [simp del]

definition ogs_hash_clear :: "'v ogs_hash \<Rightarrow> 'v ogs_hash" where
  "ogs_hash_clear ht = clear_loop ht (ogs_hash_first ht)"

definition ogs_hash_count :: "'v ogs_hash \<Rightarrow> nat" where
  "ogs_hash_count ht = ht_count ht"

text \<open>
  \<^verbatim>\<open>ogs_hash_do\<close>: the callback runs on the entries in order until it returns false; the
  result is whether it never did.
\<close>

definition ogs_hash_do ::
  "('r \<Rightarrow> bytes \<Rightarrow> 'v \<Rightarrow> 'r \<times> bool) \<Rightarrow> 'r \<Rightarrow> 'v ogs_hash \<Rightarrow> 'r \<times> bool" where
  "ogs_hash_do cb r0 ht =
     foldl (\<lambda>(r, go) e. if go then cb r (he_key e) (he_val e) else (r, False))
       (r0, True) (visit_from ht (ogs_hash_first ht))"

section \<open>Invariant\<close>

definition hash_fn :: "'v ogs_hash \<Rightarrow> bytes \<Rightarrow> u32" where
  "hash_fn ht k = fst (case ht_hash_func ht of Some f \<Rightarrow> f k (int (length k))
     | None \<Rightarrow> hashfunc_default k (int (length k)) (ht_seed ht))"

definition bucket_of :: "nat \<Rightarrow> u32 \<Rightarrow> nat" where
  "bucket_of m h = unat (h AND of_nat m)"

definition entries :: "'v ogs_hash \<Rightarrow> 'v hash_entry list" where
  "entries ht = concat (ht_array ht)"

text \<open>
  Every entry is in the bucket of its hash, which is the hash of its key; no bucket holds a
  key twice; the count is the number of entries; a custom hash function leaves the length of a
  key that has one alone.
\<close>

definition entry_ok :: "'v ogs_hash \<Rightarrow> nat \<Rightarrow> 'v hash_entry \<Rightarrow> bool" where
  "entry_ok ht b e \<longleftrightarrow> he_key e \<noteq> [] \<and> he_hash e = hash_fn ht (he_key e) \<and>
     bucket_of (ht_max ht) (he_hash e) = b"

definition hash_ok :: "'v ogs_hash \<Rightarrow> bool" where
  "hash_ok ht \<longleftrightarrow>
     length (ht_array ht) = Suc (ht_max ht) \<and>
     (\<forall>f k. ht_hash_func ht = Some f \<longrightarrow> snd (f k (int (length k))) = int (length k)) \<and>
     (\<forall>b < length (ht_array ht). (\<forall>e \<in> set (ht_array ht ! b). entry_ok ht b e) \<and>
        distinct (map he_key (ht_array ht ! b))) \<and>
     ht_count ht = length (entries ht)"

text \<open>The finite map a table stands for.\<close>

definition hash_map :: "'v ogs_hash \<Rightarrow> bytes \<Rightarrow> 'v option" where
  "hash_map ht = map_of (map (\<lambda>e. (he_key e, he_val e)) (entries ht))"

lemma bucket_of_le: "bucket_of m h \<le> m"
proof -
  have "unat (h AND of_nat m) \<le> unat (of_nat m :: u32)"
    using word_and_le1 [of h "of_nat m"] by (simp add: word_le_nat_alt)
  also have "\<dots> \<le> m" by (simp add: unat_of_nat)
  finally show ?thesis by (simp add: bucket_of_def)
qed

lemma chain_pos_takeWhile:
  assumes "\<forall>e \<in> set es. he_hash e = f (he_key e)"
  shows "chain_pos (f k) k es = length (takeWhile (\<lambda>e. he_key e \<noteq> k) es)"
  using assms by (induction es) auto

lemma chain_pos_less:
  assumes "\<forall>e \<in> set es. he_hash e = f (he_key e)"
  shows "chain_pos (f k) k es < length es \<longleftrightarrow> k \<in> he_key ` set es"
  using assms by (induction es) auto

lemma chain_pos_key:
  assumes "\<forall>e \<in> set es. he_hash e = f (he_key e)" "chain_pos (f k) k es < length es"
  shows "he_key (es ! chain_pos (f k) k es) = k"
  using assms by (induction es) (auto split: if_splits)

subsection \<open>The entries as a whole\<close>

lemma distinct_concat_nth:
  assumes "\<forall>b < length xss. distinct (map f (xss ! b))"
    and "\<forall>b < length xss. \<forall>x \<in> set (xss ! b). g (f x) = b"
  shows "distinct (map f (concat xss))"
proof -
  have "distinct (map f (concat xss)) \<and> (\<forall>x \<in> set (concat xss). g (f x) < length xss)"
    using assms
  proof (induction xss rule: rev_induct)
    case Nil
    then show ?case by simp
  next
    case (snoc ys yss)
    have a: "\<forall>b < length yss. distinct (map f (yss ! b))"
      using snoc.prems(1) by (metis length_append_singleton less_SucI nth_append)
    have b: "\<forall>b < length yss. \<forall>x \<in> set (yss ! b). g (f x) = b"
      using snoc.prems(2) by (metis length_append_singleton less_SucI nth_append)
    from snoc.IH [OF a b] have ih: "distinct (map f (concat yss))"
      "\<forall>x \<in> set (concat yss). g (f x) < length yss" by auto
    have c: "distinct (map f ys)" "\<forall>x \<in> set ys. g (f x) = length yss"
      using snoc.prems by auto
    have "f x \<noteq> f y" if "x \<in> set (concat yss)" "y \<in> set ys" for x y
      using ih(2) c(2) that by (metis less_irrefl)
    with ih c show ?case by (force simp: less_Suc_eq)
  qed
  then show ?thesis by blast
qed

lemma hash_ok_length: "hash_ok ht \<Longrightarrow> length (ht_array ht) = Suc (ht_max ht)"
  by (simp add: hash_ok_def)

lemma hash_ok_entry:
  assumes "hash_ok ht" "b \<le> ht_max ht" "e \<in> set (ht_array ht ! b)"
  shows "he_key e \<noteq> []" "he_hash e = hash_fn ht (he_key e)"
    "bucket_of (ht_max ht) (hash_fn ht (he_key e)) = b"
proof -
  have "entry_ok ht b e"
    using assms by (auto simp: hash_ok_def less_Suc_eq_le)
  then show "he_key e \<noteq> []" "he_hash e = hash_fn ht (he_key e)"
    "bucket_of (ht_max ht) (hash_fn ht (he_key e)) = b"
    by (auto simp: entry_ok_def)
qed

lemma hash_ok_bucket_distinct:
  "hash_ok ht \<Longrightarrow> b \<le> ht_max ht \<Longrightarrow> distinct (map he_key (ht_array ht ! b))"
  by (simp add: hash_ok_def less_Suc_eq_le)

lemma hash_ok_distinct:
  assumes "hash_ok ht"
  shows "distinct (map he_key (entries ht))"
  unfolding entries_def
proof (rule distinct_concat_nth [where g = "\<lambda>k. bucket_of (ht_max ht) (hash_fn ht k)"])
  show "\<forall>b < length (ht_array ht). distinct (map he_key (ht_array ht ! b))"
    using assms by (simp add: hash_ok_def)
  show "\<forall>b < length (ht_array ht). \<forall>x \<in> set (ht_array ht ! b).
      bucket_of (ht_max ht) (hash_fn ht (he_key x)) = b"
    using hash_ok_entry(3) [OF assms] hash_ok_length [OF assms] by (simp add: less_Suc_eq_le)
qed

lemma mem_entries:
  assumes "hash_ok ht"
  shows "e \<in> set (entries ht) \<longleftrightarrow>
    e \<in> set (ht_array ht ! bucket_of (ht_max ht) (hash_fn ht (he_key e)))"
proof -
  have len: "length (ht_array ht) = Suc (ht_max ht)" using assms by (simp add: hash_ok_def)
  have b: "e \<in> set (ht_array ht ! b) \<Longrightarrow> b < Suc (ht_max ht) \<Longrightarrow>
      b = bucket_of (ht_max ht) (hash_fn ht (he_key e))" for b
    using hash_ok_entry(3) [OF assms] by (simp add: less_Suc_eq_le)
  have lt: "bucket_of (ht_max ht) (hash_fn ht (he_key e)) < length (ht_array ht)"
    using bucket_of_le len by (simp add: less_Suc_eq_le)
  show ?thesis
  proof
    assume "e \<in> set (entries ht)"
    then obtain b' where "b' < length (ht_array ht)" "e \<in> set (ht_array ht ! b')"
      by (auto simp: entries_def in_set_conv_nth [of _ "ht_array ht"])
    with b [of b'] len show "e \<in> set (ht_array ht ! bucket_of (ht_max ht) (hash_fn ht (he_key e)))"
      by simp
  next
    assume "e \<in> set (ht_array ht ! bucket_of (ht_max ht) (hash_fn ht (he_key e)))"
    with nth_mem [OF lt] show "e \<in> set (entries ht)" by (auto simp: entries_def)
  qed
qed

lemma hash_map_Some:
  assumes "hash_ok ht"
  shows "hash_map ht k = Some v \<longleftrightarrow> (\<exists>e \<in> set (entries ht). he_key e = k \<and> he_val e = v)"
  using hash_ok_distinct [OF assms]
  by (auto simp: hash_map_def map_of_eq_Some_iff comp_def)

lemma hash_map_eqI:
  assumes "hash_ok ht"
    and "\<And>v. f k = Some v \<longleftrightarrow> (\<exists>e \<in> set (entries ht). he_key e = k \<and> he_val e = v)"
  shows "hash_map ht k = f k"
  using hash_map_Some [OF assms(1), of k] assms(2) by (metis option.exhaust)

lemma hash_map_chain:
  assumes "hash_ok ht"
  shows "hash_map ht k = map_of (map (\<lambda>e. (he_key e, he_val e))
           (ht_array ht ! bucket_of (ht_max ht) (hash_fn ht k))) k"
proof (rule hash_map_eqI [OF assms])
  fix v
  have "distinct (map he_key (ht_array ht ! bucket_of (ht_max ht) (hash_fn ht k)))"
    by (rule hash_ok_bucket_distinct [OF assms bucket_of_le])
  then show "(map_of (map (\<lambda>e. (he_key e, he_val e))
        (ht_array ht ! bucket_of (ht_max ht) (hash_fn ht k))) k = Some v) =
      (\<exists>e \<in> set (entries ht). he_key e = k \<and> he_val e = v)"
    using mem_entries [OF assms] by (auto simp: map_of_eq_Some_iff comp_def)
qed

subsection \<open>The iterator visits every entry once\<close>

lemma visit_scan:
  assumes "length (ht_array ht) = Suc (ht_max ht)"
  shows "visit_from ht (scan_buckets ht es i) = es @ concat (drop i (ht_array ht))"
proof (induction "Suc (ht_max ht) - i" arbitrary: es i)
  case 0
  have *: "visit_from ht (scan_buckets ht es i) = es"
  proof (induction es)
    case Nil
    with 0 show ?case by (simp add: scan_buckets.simps(2) visit_from.simps)
  next
    case (Cons e es)
    then show ?case by (simp add: visit_from.simps [of ht "Some _"] ogs_hash_next_def)
  qed
  with 0 assms show ?case by simp
next
  case (Suc n)
  then have i: "i \<le> ht_max ht" and n: "n = Suc (ht_max ht) - Suc i" by auto
  have d: "concat (drop i (ht_array ht)) = ht_array ht ! i @ concat (drop (Suc i) (ht_array ht))"
    using i assms by (simp add: Cons_nth_drop_Suc [symmetric])
  show ?case
  proof (induction es)
    case Nil
    with i Suc.hyps(1) [OF n] d show ?case by (simp add: scan_buckets.simps(2))
  next
    case (Cons e es)
    then show ?case by (simp add: visit_from.simps [of ht "Some _"] ogs_hash_next_def)
  qed
qed

lemma visit_first:
  "hash_ok ht \<Longrightarrow> visit_from ht (ogs_hash_first ht) = entries ht"
  by (simp add: ogs_hash_first_def visit_scan hash_ok_length entries_def)

subsection \<open>Expansion\<close>

lemma fold_insert_length:
  "length (fold (\<lambda>e arr. let i = g e in arr[i := e # arr ! i]) es arr) = length arr"
  by (induction es arbitrary: arr) (auto simp: Let_def)

lemma fold_insert_nth:
  assumes "\<forall>e \<in> set es. g e < length arr" "b < length arr"
  shows "fold (\<lambda>e arr. let i = g e in arr[i := e # arr ! i]) es arr ! b =
         rev (filter (\<lambda>e. g e = b) es) @ arr ! b"
  using assms by (induction es arbitrary: arr) (auto simp: Let_def nth_list_update)

lemma length_alloc_array: "length (alloc_array m) = Suc m"
  by (simp add: alloc_array_def)

lemma alloc_array_nth: "b \<le> m \<Longrightarrow> alloc_array m ! b = []"
  by (simp add: alloc_array_def del: replicate_Suc)

lemma length_concat_filter:
  fixes n :: nat
  assumes "\<forall>e \<in> set es. g e < n"
  shows "(\<Sum>b<n. length (filter (\<lambda>e. g e = b) es)) = length es"
  using assms
proof (induction es)
  case (Cons e es)
  have "(\<Sum>b<n. length (filter (\<lambda>x. g x = b) (e # es))) =
        (\<Sum>b<n. (if g e = b then 1 else 0) + length (filter (\<lambda>x. g x = b) es))"
    by (rule sum.cong) auto
  also have "\<dots> = 1 + length es"
    using Cons sum.delta' [OF finite_lessThan, of n "\<lambda>_. 1 :: nat" "g e"]
    by (simp add: sum.distrib)
  finally show ?case by simp
qed simp

lemma expand_array_props:
  assumes "hash_ok ht"
  shows "hash_ok (expand_array ht)" "set (entries (expand_array ht)) = set (entries ht)"
proof -
  define m where "m = ht_max ht * 2 + 1"
  define g where "g = (\<lambda>e :: 'a hash_entry. bucket_of m (he_hash e))"
  define arr where "arr = fold (\<lambda>e arr. let i = g e in arr[i := e # arr ! i]) (entries ht) (alloc_array m)"
  have ex: "expand_array ht = ht\<lparr>ht_array := arr, ht_max := m\<rparr>"
    by (simp add: expand_array_def visit_first [OF assms] bucket_of_def Let_def arr_def g_def m_def)
  have len: "length arr = Suc m" by (simp add: arr_def fold_insert_length length_alloc_array)
  have g: "\<forall>e \<in> set (entries ht). g e < Suc m"
    using bucket_of_le by (auto simp: less_Suc_eq_le g_def)
  have nth: "arr ! b = rev (filter (\<lambda>e. g e = b) (entries ht))" if "b < Suc m" for b
    using fold_insert_nth [of "entries ht" g "alloc_array m" b] g that alloc_array_nth [of b m]
    by (simp add: less_Suc_eq_le length_alloc_array arr_def)
  have ent: "e \<in> set (entries ht) \<Longrightarrow> he_key e \<noteq> [] \<and> he_hash e = hash_fn ht (he_key e)" for e
    using mem_entries [OF assms, of e] hash_ok_entry [OF assms bucket_of_le] by blast
  have fn: "hash_fn (expand_array ht) = hash_fn ht"
    by (simp add: ex hash_fn_def fun_eq_iff split: option.split)
  have "length (concat arr) = (\<Sum>b<Suc m. length (arr ! b))"
    by (simp add: length_concat sum_list_sum_nth len atLeast0LessThan del: sum.lessThan_Suc)
  also have "\<dots> = (\<Sum>b<Suc m. length (filter (\<lambda>e. g e = b) (entries ht)))"
    by (rule sum.cong) (simp_all add: nth)
  also have "\<dots> = length (entries ht)" by (rule length_concat_filter [OF g])
  finally have cnt: "length (concat arr) = length (entries ht)" .
  have dist: "distinct (map he_key (arr ! b))" if "b < Suc m" for b
    using hash_ok_distinct [OF assms] that
    by (auto simp: nth rev_map [symmetric] distinct_map intro: inj_on_subset)
  have ok_b: "entry_ok (expand_array ht) b e" if "b < Suc m" "e \<in> set (arr ! b)" for b e
    using that nth [of b] ent [of e] by (auto simp: entry_ok_def fn [unfolded ex] ex g_def)
  show ok: "hash_ok (expand_array ht)"
    unfolding hash_ok_def using assms len cnt dist ok_b
    by (auto simp: ex entries_def hash_ok_def)
  have "e \<in> set (entries (expand_array ht)) \<longleftrightarrow> e \<in> set (entries ht)" for e
    unfolding mem_entries [OF ok] fn using nth [of "bucket_of m (hash_fn ht (he_key e))"] ent [of e]
      bucket_of_le [of m "hash_fn ht (he_key e)"]
    by (auto simp: ex less_Suc_eq_le g_def)
  then show "set (entries (expand_array ht)) = set (entries ht)" by blast
qed

lemma expand_array_map: "hash_ok ht \<Longrightarrow> hash_map (expand_array ht) = hash_map ht"
  by (rule ext, rule hash_map_eqI)
     (simp_all add: expand_array_props hash_map_Some)

subsection \<open>Look-up and update\<close>

lemma find_entry_eq:
  assumes "hash_ok ht"
  shows "find_entry ht k (int (length k)) val =
     (let b = bucket_of (ht_max ht) (hash_fn ht k); chain = ht_array ht ! b;
          p = chain_pos (hash_fn ht k) k chain
      in case val of
           None \<Rightarrow> (ht, b, p)
         | Some v \<Rightarrow>
             if p < length chain then (ht, b, p)
             else (ht\<lparr>ht_array := (ht_array ht)
                        [b := chain @ [\<lparr>he_hash = hash_fn ht k, he_key = k, he_val = v\<rparr>]],
                      ht_free := tl (ht_free ht),
                      ht_count := ht_count ht + 1\<rparr>, b, p))"
proof (cases "ht_hash_func ht")
  case None
  then show ?thesis
    by (simp add: find_entry_def hash_fn_def hashfunc_default_def bucket_of_def Let_def
        split: option.split)
next
  case (Some f)
  then have "snd (f k (int (length k))) = int (length k)"
    using assms by (simp add: hash_ok_def)
  with Some show ?thesis
    by (cases "f k (int (length k))")
       (simp add: find_entry_def hash_fn_def bucket_of_def Let_def split: option.split)
qed

text \<open>A chain replaced by one that is in order leaves a table that is in order.\<close>

lemma hash_ok_update:
  fixes fr :: "'v hash_entry list"
  assumes ok: "hash_ok ht" and b: "b \<le> ht_max ht"
    and es: "\<forall>e \<in> set es. entry_ok ht b e" "distinct (map he_key es)"
    and c: "c + length (ht_array ht ! b) = ht_count ht + length es"
  defines "ht' \<equiv> ht\<lparr>ht_array := (ht_array ht)[b := es], ht_free := fr, ht_count := c\<rparr>"
  shows "hash_ok ht'"
    and "hash_map ht' k = (if bucket_of (ht_max ht) (hash_fn ht k) = b
           then map_of (map (\<lambda>e. (he_key e, he_val e)) es) k else hash_map ht k)"
proof -
  have fn: "hash_fn ht' = hash_fn ht"
    by (simp add: ht'_def hash_fn_def fun_eq_iff split: option.split)
  have len: "length (ht_array ht) = Suc (ht_max ht)" by (rule hash_ok_length [OF ok])
  have cnt: "c = length (entries ht')"
    using length_concat_update [of b "ht_array ht" es] b len c ok
    by (simp add: ht'_def entries_def hash_ok_def)
  have old: "entry_ok ht b' e" if "b' \<le> ht_max ht" "e \<in> set (ht_array ht ! b')" for b' e
    using hash_ok_entry [OF ok that] by (simp add: entry_ok_def)
  have eok: "entry_ok ht' b' e"
    if "b' < Suc (ht_max ht)" "e \<in> set ((ht_array ht)[b := es] ! b')" for b' e
  proof -
    have "entry_ok ht b' e"
      using that es(1) old len by (cases "b' = b") (auto simp: nth_list_update)
    moreover have "ht_max ht' = ht_max ht" by (simp add: ht'_def)
    ultimately show ?thesis by (auto simp: entry_ok_def fn)
  qed
  have dk: "distinct (map he_key ((ht_array ht)[b := es] ! b'))" if "b' < Suc (ht_max ht)" for b'
    using es(2) hash_ok_bucket_distinct [OF ok, of b'] that len
    by (cases "b' = b") (auto simp: nth_list_update)
  show ok': "hash_ok ht'"
    unfolding hash_ok_def using ok len dk cnt eok
    by (auto simp: ht'_def hash_ok_def)
  show "hash_map ht' k = (if bucket_of (ht_max ht) (hash_fn ht k) = b
           then map_of (map (\<lambda>e. (he_key e, he_val e)) es) k else hash_map ht k)"
    unfolding hash_map_chain [OF ok'] hash_map_chain [OF ok] fn using b len
    by (simp add: ht'_def nth_list_update)
qed

lemma hash_get_map:
  assumes "hash_ok ht" "k \<noteq> []"
  shows "hash_get ht k = hash_map ht k"
proof -
  define chain where "chain = ht_array ht ! bucket_of (ht_max ht) (hash_fn ht k)"
  define p where "p = chain_pos (hash_fn ht k) k chain"
  have h: "\<forall>e \<in> set chain. he_hash e = hash_fn ht (he_key e)"
    using hash_ok_entry(2) [OF assms(1) bucket_of_le] by (simp add: chain_def)
  have d: "distinct (map he_key chain)"
    unfolding chain_def by (rule hash_ok_bucket_distinct [OF assms(1) bucket_of_le])
  have "hash_get ht k = (if p < length chain then Some (he_val (chain ! p)) else None)"
    using assms(2)
    by (simp add: hash_get_def ogs_hash_get_debug_def find_entry_eq [OF assms(1)] Let_def
        p_def chain_def)
  also have "\<dots> = map_of (map (\<lambda>e. (he_key e, he_val e)) chain) k"
  proof (cases "p < length chain")
    case True
    then have "chain ! p \<in> set chain" "he_key (chain ! p) = k"
      using chain_pos_key [OF h] by (simp_all add: p_def)
    with True d show ?thesis
      by (auto simp: map_of_eq_Some_iff comp_def intro!: image_eqI [of _ _ "chain ! p"]
          intro: sym)
  next
    case False
    with chain_pos_less [OF h] show ?thesis
      by (auto simp: p_def map_of_eq_None_iff image_image eq_commute [of None])
  qed
  finally show ?thesis by (simp add: hash_map_chain [OF assms(1)] chain_def)
qed

lemma map_kv_update:
  "map (\<lambda>e. (he_key e, he_val e)) (chain[p := (chain ! p)\<lparr>he_val := v\<rparr>]) =
     (map (\<lambda>e. (he_key e, he_val e)) chain)[p := (he_key (chain ! p), v)]"
  by (simp add: map_update)

lemma chain_pos_le: "chain_pos h k es \<le> length es"
  by (induction es) auto

lemma expand_if:
  assumes "hash_ok ht"
  shows "hash_ok (if c then expand_array ht else ht)"
    "hash_map (if c then expand_array ht else ht) = hash_map ht"
  using assms by (simp_all add: expand_array_props expand_array_map)

text \<open>The three ways a chain changes: an entry removed, replaced or appended.\<close>

lemma hash_set_absent_None:
  assumes "hash_ok ht" "k \<noteq> []"
    and "\<not> chain_pos (hash_fn ht k) k (ht_array ht ! bucket_of (ht_max ht) (hash_fn ht k))
           < length (ht_array ht ! bucket_of (ht_max ht) (hash_fn ht k))"
  shows "hash_set ht k None = ht"
  using assms
  by (simp add: hash_set_def ogs_hash_set_debug_def find_entry_eq Let_def)

lemma hash_set_correct:
  assumes ok: "hash_ok ht" and k: "k \<noteq> []"
  shows "hash_ok (hash_set ht k val)"
    and "hash_map (hash_set ht k val) = (hash_map ht)(k := val)"
proof -
  define b where "b = bucket_of (ht_max ht) (hash_fn ht k)"
  define chain where "chain = ht_array ht ! b"
  define p where "p = chain_pos (hash_fn ht k) k chain"
  have b: "b \<le> ht_max ht" by (simp add: b_def bucket_of_le)
  have len: "b < length (ht_array ht)" using b hash_ok_length [OF ok] by simp
  have ent: "entry_ok ht b e" if "e \<in> set chain" for e
    using ok b that by (auto simp: hash_ok_def chain_def less_Suc_eq_le)
  have h: "\<forall>e \<in> set chain. he_hash e = hash_fn ht (he_key e)" using ent by (simp add: entry_ok_def)
  have d: "distinct (map he_key chain)"
    using hash_ok_bucket_distinct [OF ok b] by (simp add: chain_def)
  have d': "distinct (map fst (map (\<lambda>e. (he_key e, he_val e)) chain))" using d by (simp add: comp_def)
  have key: "he_key (chain ! p) = k" if "p < length chain"
    using chain_pos_key [OF h] that by (simp add: p_def)
  have mem: "k \<in> he_key ` set chain \<longleftrightarrow> p < length chain"
    using chain_pos_less [OF h] by (simp add: p_def)
  have map0: "hash_map ht k' = map_of (map (\<lambda>e. (he_key e, he_val e)) chain) k'"
    if "bucket_of (ht_max ht) (hash_fn ht k') = b" for k'
    using hash_map_chain [OF ok, of k'] that by (simp add: chain_def)
  have "hash_ok (hash_set ht k val) \<and>
    (\<forall>k'. hash_map (hash_set ht k val) k' = ((hash_map ht)(k := val)) k')"
  proof (cases val)
    case None
    show ?thesis
    proof (cases "p < length chain")
      case True
      let ?es = "remove_nth p chain"
      have eq: "hash_set ht k val = ht\<lparr>ht_array := (ht_array ht)[b := ?es],
          ht_free := chain ! p # ht_free ht, ht_count := ht_count ht - 1\<rparr>"
        using True k None
        by (simp add: hash_set_def ogs_hash_set_debug_def find_entry_eq [OF ok] Let_def
            b_def [symmetric] chain_def [symmetric] p_def [symmetric])
      have es: "\<forall>e \<in> set ?es. entry_ok ht b e" "distinct (map he_key ?es)"
        using ent set_remove_nth_subset [of p chain] distinct_remove_nth [OF d, of p]
        by (auto simp: remove_nth_map)
      have pos: "0 < ht_count ht"
      proof -
        have "chain ! p \<in> set (entries ht)"
          using nth_mem [OF len] nth_mem [OF True]
          by (auto simp: entries_def chain_def intro!: bexI [of _ "ht_array ht ! b"])
        with ok show ?thesis by (auto simp: hash_ok_def)
      qed
      have c: "(ht_count ht - 1) + length (ht_array ht ! b) = ht_count ht + length ?es"
        using True pos by (simp add: chain_def [symmetric])
      note u = hash_ok_update [OF ok b es c, of "chain ! p # ht_free ht", folded eq]
      have "map_of (map (\<lambda>e. (he_key e, he_val e)) ?es) =
          (map_of (map (\<lambda>e. (he_key e, he_val e)) chain))(k := None)"
        using map_of_remove_nth [OF d', of p] True key by (simp add: remove_nth_map)
      with u map0 None show ?thesis by (auto simp: b_def)
    next
      case False
      then have "hash_set ht k val = ht"
        using hash_set_absent_None [OF ok k] None by (simp add: p_def chain_def b_def)
      moreover have "hash_map ht k = None"
        using map0 [of k] mem False by (simp add: b_def map_of_eq_None_iff image_image)
      ultimately show ?thesis using ok None by auto
    qed
  next
    case (Some v)
    show ?thesis
    proof (cases "p < length chain")
      case True
      let ?es = "chain[p := (chain ! p)\<lparr>he_val := v\<rparr>]"
      let ?ht = "ht\<lparr>ht_array := (ht_array ht)[b := ?es], ht_free := ht_free ht,
          ht_count := ht_count ht\<rparr>"
      have eq: "hash_set ht k val = (if ht_max ?ht < ht_count ?ht then expand_array ?ht else ?ht)"
        using True k Some
        by (simp add: hash_set_def ogs_hash_set_debug_def find_entry_eq [OF ok] Let_def
            b_def [symmetric] chain_def [symmetric] p_def [symmetric])
      have "map he_key ?es = map he_key chain"
        by (metis (no_types, lifting) hash_entry.select_convs(2) hash_entry.surjective
            hash_entry.update_convs(3) list_update_id map_update)
      with d have dk: "distinct (map he_key ?es)" by simp
      have "entry_ok ht b ((chain ! p)\<lparr>he_val := v\<rparr>)"
        using ent [OF nth_mem [OF True]] by (auto simp: entry_ok_def)
      then have en: "\<forall>e \<in> set ?es. entry_ok ht b e"
        using ent set_update_subset_insert [of chain p "(chain ! p)\<lparr>he_val := v\<rparr>"] by blast
      have c: "ht_count ht + length (ht_array ht ! b) = ht_count ht + length ?es"
        by (simp add: chain_def [symmetric])
      note u = hash_ok_update [OF ok b en dk c, of "ht_free ht"]
      have "map_of (map (\<lambda>e. (he_key e, he_val e)) ?es) =
          (map_of (map (\<lambda>e. (he_key e, he_val e)) chain))(k := Some v)"
        unfolding map_kv_update
        using map_of_list_update [OF d', of p "(he_key (chain ! p), v)"] True key by simp
      with u map0 Some show ?thesis unfolding eq by (auto simp: expand_if b_def)
    next
      case False
      then have p: "p = length chain"
        using chain_pos_le [of "hash_fn ht k" k chain] by (simp add: p_def)
      let ?e = "\<lparr>he_hash = hash_fn ht k, he_key = k, he_val = v\<rparr>"
      let ?es = "chain @ [?e]"
      let ?ht = "ht\<lparr>ht_array := (ht_array ht)[b := ?es], ht_free := tl (ht_free ht),
          ht_count := ht_count ht + 1\<rparr>"
      have eq: "hash_set ht k val = (if ht_max ?ht < ht_count ?ht then expand_array ?ht else ?ht)"
        using False k Some len
        by (simp add: hash_set_def ogs_hash_set_debug_def find_entry_eq [OF ok] Let_def
            b_def [symmetric] chain_def [symmetric] p_def [symmetric] p)
           (auto intro: arg_cong [where f = expand_array])
      have "entry_ok ht b ?e" using k by (simp add: entry_ok_def b_def)
      then have en: "\<forall>e \<in> set ?es. entry_ok ht b e" using ent by auto
      have dk: "distinct (map he_key ?es)" using d mem False by simp
      have c: "(ht_count ht + 1) + length (ht_array ht ! b) = ht_count ht + length ?es"
        by (simp add: chain_def [symmetric])
      note u = hash_ok_update [OF ok b en dk c, of "tl (ht_free ht)"]
      have "k \<notin> fst ` set (map (\<lambda>e. (he_key e, he_val e)) chain)"
        using mem False by (simp add: image_image)
      then have "map_of (map (\<lambda>e. (he_key e, he_val e)) ?es) =
          (map_of (map (\<lambda>e. (he_key e, he_val e)) chain))(k := Some v)"
        using map_of_snoc [of k "map (\<lambda>e. (he_key e, he_val e)) chain" v] by simp
      with u map0 Some show ?thesis unfolding eq by (auto simp: expand_if b_def)
    qed
  qed
  then show "hash_ok (hash_set ht k val)" "hash_map (hash_set ht k val) = (hash_map ht)(k := val)"
    by auto
qed

section \<open>The contract\<close>

text \<open>
  What a client of a table relies on: after a store the key holds the value and every other
  key what it held; storing the absent value deletes.
\<close>

locale key_store =
  fixes empty_store :: "'s"
    and look :: "'s \<Rightarrow> 'k \<Rightarrow> 'v option"
    and store :: "'s \<Rightarrow> 'k \<Rightarrow> 'v option \<Rightarrow> 's"
    and valid :: "'s \<Rightarrow> bool"
    and key_ok :: "'k \<Rightarrow> bool"
  assumes valid_empty: "valid empty_store"
    and look_empty: "key_ok k \<Longrightarrow> look empty_store k = None"
    and valid_store: "valid s \<Longrightarrow> key_ok k \<Longrightarrow> valid (store s k v)"
    and look_store: "valid s \<Longrightarrow> key_ok k \<Longrightarrow> key_ok k' \<Longrightarrow>
      look (store s k v) k' = (if k' = k then v else look s k')"
begin

lemma look_store_same: "valid s \<Longrightarrow> key_ok k \<Longrightarrow> look (store s k v) k = v"
  by (simp add: look_store)

lemma look_store_other:
  "valid s \<Longrightarrow> key_ok k \<Longrightarrow> key_ok k' \<Longrightarrow> k' \<noteq> k \<Longrightarrow> look (store s k v) k' = look s k'"
  by (simp add: look_store)

lemma store_commute:
  assumes "valid s" "key_ok k" "key_ok l" "key_ok m" "k \<noteq> l"
  shows "look (store (store s k v) l w) m = look (store (store s l w) k v) m"
  using assms by (auto simp: look_store valid_store)

text \<open>An index: every object of a collection is found under its own key.\<close>

lemma index_store:
  assumes "valid s" "key_ok k" "\<forall>x \<in> X. key_ok (key x) \<and> look s (key x) = Some (val x)"
    and "\<forall>x \<in> X. key x \<noteq> k"
  shows "\<forall>x \<in> X. look (store s k v) (key x) = Some (val x)"
  using assms by (auto simp: look_store)

end

lemma hash_ok_make: "hash_ok (ogs_hash_make seed)"
  by (auto simp: hash_ok_def ogs_hash_make_def alloc_array_def entries_def
      simp del: replicate_Suc)

interpretation ht: key_store "ogs_hash_make seed :: 'a ogs_hash" hash_get hash_set hash_ok "\<lambda>k. k \<noteq> []"
proof
  show "hash_ok (ogs_hash_make seed :: 'a ogs_hash)" by (rule hash_ok_make)
next
  fix k :: bytes
  assume "k \<noteq> []"
  moreover have "entries (ogs_hash_make seed :: 'a ogs_hash) = []"
    by (simp add: entries_def ogs_hash_make_def alloc_array_def del: replicate_Suc)
  ultimately show "hash_get (ogs_hash_make seed :: 'a ogs_hash) k = None"
    by (simp add: hash_get_map hash_ok_make hash_map_def)
next
  fix s :: "'a ogs_hash" and k :: bytes and v
  assume "hash_ok s" "k \<noteq> []"
  then show "hash_ok (hash_set s k v)" by (rule hash_set_correct)
next
  fix s :: "'a ogs_hash" and k k' :: bytes and v
  assume "hash_ok s" "k \<noteq> []" "k' \<noteq> []"
  then show "hash_get (hash_set s k v) k' = (if k' = k then v else hash_get s k')"
    using hash_set_correct [of s k v] by (simp add: hash_get_map)
qed

text \<open>The laws in the form the simplifier uses in the clients.\<close>

lemmas hash_laws [simp] = ht.valid_store ht.look_store

section \<open>Clearing and counting\<close>

lemma hash_delete_head:
  assumes ok: "hash_ok ht" and b: "b \<le> ht_max ht" and es: "ht_array ht ! b = e # es"
  shows "ht_array (hash_set ht (he_key e) None) = (ht_array ht)[b := es]"
proof -
  have e: "he_key e \<noteq> []" "he_hash e = hash_fn ht (he_key e)"
    "bucket_of (ht_max ht) (hash_fn ht (he_key e)) = b"
    using hash_ok_entry [OF ok b, of e] es by auto
  then show ?thesis
    by (simp add: hash_set_def ogs_hash_set_debug_def find_entry_eq [OF ok] Let_def es
        remove_nth_def)
qed

lemma clear_step:
  assumes pre: "Suc (ht_max ht) - i = n" "hash_ok ht" "i \<le> Suc (ht_max ht)"
    "\<forall>b < i. ht_array ht ! b = (if Suc b = i then e # es else [])" "i = 0 \<longrightarrow> e # es = []"
    and rec: "\<And>ht. Suc (ht_max ht) - i = n \<Longrightarrow> hash_ok ht \<Longrightarrow> i \<le> Suc (ht_max ht) \<Longrightarrow>
      \<forall>b < i. ht_array ht ! b = (if Suc b = i then es else []) \<Longrightarrow> i = 0 \<longrightarrow> es = [] \<Longrightarrow>
      hash_ok (clear_loop ht (scan_buckets ht es i)) \<and>
      entries (clear_loop ht (scan_buckets ht es i)) = []"
  shows "hash_ok (clear_loop ht (scan_buckets ht (e # es) i)) \<and>
         entries (clear_loop ht (scan_buckets ht (e # es) i)) = []"
proof -
  from pre(5) obtain b where b: "i = Suc b" by (cases i) auto
  define ht' where "ht' = hash_set ht (he_key e) None"
  have bm: "b \<le> ht_max ht" "ht_array ht ! b = e # es" using pre(3,4) b by auto
  have arr: "ht_array ht' = (ht_array ht)[b := es]"
    unfolding ht'_def by (rule hash_delete_head [OF pre(2) bm])
  have ne: "he_key e \<noteq> []" using hash_ok_entry(1) [OF pre(2) bm(1), of e] bm by simp
  have ok': "hash_ok ht'" unfolding ht'_def by (rule hash_set_correct(1) [OF pre(2) ne])
  have mx: "ht_max ht' = ht_max ht" by (simp add: ht'_def ht_max_delete)
  have "b < length (ht_array ht)" using bm(1) hash_ok_length [OF pre(2)] by simp
  then have "\<forall>c < i. ht_array ht' ! c = (if Suc c = i then es else [])"
    using pre(4) b by (auto simp: arr nth_list_update)
  then have "hash_ok (clear_loop ht' (scan_buckets ht' es i)) \<and>
        entries (clear_loop ht' (scan_buckets ht' es i)) = []"
    by (intro rec) (use pre ok' mx b in auto)
  then show ?thesis
    by (simp add: clear_loop.simps [of ht "Some _"] ogs_hash_next_def ht'_def Let_def)
qed

lemma clear_scan:
  assumes "Suc (ht_max ht) - i = n" "hash_ok ht" "i \<le> Suc (ht_max ht)"
    and "\<forall>b < i. ht_array ht ! b = (if Suc b = i then es else [])" "i = 0 \<longrightarrow> es = []"
  shows "hash_ok (clear_loop ht (scan_buckets ht es i)) \<and>
         entries (clear_loop ht (scan_buckets ht es i)) = []"
  using assms
proof (induction n arbitrary: ht es i)
  case n: 0
  from n.prems show ?case
  proof (induction es arbitrary: ht)
    case Nil
    then have i: "i = Suc (ht_max ht)" by simp
    with Nil have "\<forall>b < length (ht_array ht). ht_array ht ! b = []"
      by (auto simp: hash_ok_length)
    then have "entries ht = []" by (auto simp: entries_def in_set_conv_nth)
    with Nil i show ?case by (simp add: scan_buckets.simps(2) clear_loop.simps)
  next
    case (Cons e es)
    show ?case by (rule clear_step [OF Cons.prems Cons.IH])
  qed
next
  case n: (Suc n)
  from n.prems show ?case
  proof (induction es arbitrary: ht)
    case Nil
    then have i: "i \<le> ht_max ht" by simp
    have "hash_ok (clear_loop ht (scan_buckets ht (ht_array ht ! i) (Suc i))) \<and>
        entries (clear_loop ht (scan_buckets ht (ht_array ht ! i) (Suc i))) = []"
      by (rule n.IH) (use Nil i in \<open>auto simp: less_Suc_eq split: if_splits\<close>)
    with i show ?case by (simp add: scan_buckets.simps(2))
  next
    case (Cons e es)
    show ?case by (rule clear_step [OF Cons.prems Cons.IH])
  qed
qed

lemma clear_correct:
  "hash_ok ht \<Longrightarrow> hash_ok (ogs_hash_clear ht) \<and> entries (ogs_hash_clear ht) = []"
  unfolding ogs_hash_clear_def ogs_hash_first_def by (rule clear_scan) auto

lemma hash_ok_empty_iff: "hash_ok ht \<Longrightarrow> ogs_hash_count ht = 0 \<longleftrightarrow> entries ht = []"
  by (simp add: ogs_hash_count_def hash_ok_def)

section \<open>Properties\<close>

text \<open>
  A store through \<^verbatim>\<open>ogs_hash_set\<close> keeps the table well formed, also when it makes the
  array double, and changes the map the table stands for at its key only; a look-up reads that
  map.
\<close>

theorem hash_store_look:
  assumes "hash_ok ht" "k \<noteq> []"
  shows "hash_ok (hash_set ht k v) \<and> hash_map (hash_set ht k v) = (hash_map ht)(k := v) \<and>
    (\<forall>k'. k' \<noteq> [] \<longrightarrow> hash_get (hash_set ht k v) k' = (if k' = k then v else hash_get ht k'))"
  using assms by (simp add: hash_set_correct)

theorem hash_store_look_witness:
  "hash_get (hash_set (hash_set (ogs_hash_make 7) [1, 2] (Some True)) [3] (Some False)) [1, 2] = Some True"
  using hash_store_look [of "hash_set (ogs_hash_make 7) [1, 2] (Some True)" "[3]" "Some False"]
  by (simp add: hash_ok_make)

text \<open>
  The loop over \<^verbatim>\<open>ogs_hash_first\<close> and \<^verbatim>\<open>ogs_hash_next\<close> visits every binding of
  the table exactly once, and their number is what \<^verbatim>\<open>ogs_hash_count\<close> returns;
  \<^verbatim>\<open>ogs_hash_clear\<close>, which deletes while it iterates, leaves a table with nothing to
  visit.
\<close>

theorem hash_iteration_complete:
  assumes "hash_ok ht"
  shows "distinct (map he_key (visit_from ht (ogs_hash_first ht))) \<and>
    hash_map ht = map_of (map (\<lambda>e. (he_key e, he_val e)) (visit_from ht (ogs_hash_first ht))) \<and>
    length (visit_from ht (ogs_hash_first ht)) = ogs_hash_count ht \<and>
    (let ht' = ogs_hash_clear ht in
       hash_ok ht' \<and> ogs_hash_count ht' = 0 \<and> visit_from ht' (ogs_hash_first ht') = [])"
  using assms clear_correct [OF assms]
  by (simp add: visit_first hash_ok_distinct hash_map_def Let_def hash_ok_empty_iff)
     (simp add: ogs_hash_count_def hash_ok_def)

theorem hash_iteration_complete_witness:
  "ogs_hash_count (ogs_hash_clear (hash_set (ogs_hash_make 7) [1] (Some True))) = 0"
  using hash_iteration_complete [of "hash_set (ogs_hash_make 7) [1] (Some True)"]
  by (simp add: hash_ok_make Let_def)

end
