(* ===== verification/Ogs_Pool.thy ===== *)
theory Ogs_Pool
  imports Ogs_Hash "HOL-Library.Multiset"
begin

text \<open>
  The fixed-size allocator of \<^verbatim>\<open>lib/core/ogs-pool.h\<close>: an array of nodes, a circular list of
  the free ones, an index of the allocated ones, and the table from identifiers to nodes that
  the \<^verbatim>\<open>_id_\<close> macros keep. A node is named by its position in \<^verbatim>\<open>pool->array\<close>; what a
  node holds belongs to the component that owns the pool.
\<close>

section \<open>State\<close>

record ogs_pool =
  pool_head :: nat
  pool_tail :: nat
  pool_size :: nat
  pool_avail :: nat
  pool_free :: "nat option list"
  pool_index :: "nat option list"
  pool_id_hash :: "nat ogs_hash"
  pool_id :: u32

definition OGS_MAX_POOL_ID :: u32 where
  "OGS_MAX_POOL_ID = 0x7fffffff"

section \<open>Operations\<close>

definition ogs_pool_init :: "nat \<Rightarrow> u32 \<Rightarrow> ogs_pool" where
  "ogs_pool_init sz seed =
     \<lparr>pool_head = 0, pool_tail = 0, pool_size = sz, pool_avail = sz,
      pool_free = map Some [0..<sz], pool_index = replicate sz None,
      pool_id_hash = ogs_hash_make seed, pool_id = 0\<rparr>"

definition ogs_pool_alloc :: "ogs_pool \<Rightarrow> ogs_pool \<times> nat option" where
  "ogs_pool_alloc p =
     (if pool_avail p > 0
      then (let node = pool_free p ! pool_head p
            in (p\<lparr>pool_avail := pool_avail p - 1,
                  pool_free := (pool_free p)[pool_head p := None],
                  pool_head := (pool_head p + 1) mod pool_size p,
                  pool_index := (case node of None \<Rightarrow> pool_index p
                                 | Some n \<Rightarrow> (pool_index p)[n := Some n])\<rparr>, node))
      else (p, None))"

definition ogs_pool_free :: "ogs_pool \<Rightarrow> nat \<Rightarrow> ogs_pool" where
  "ogs_pool_free p n =
     (if pool_avail p < pool_size p
      then p\<lparr>pool_avail := pool_avail p + 1,
             pool_free := (pool_free p)[pool_tail p := Some n],
             pool_tail := (pool_tail p + 1) mod pool_size p,
             pool_index := (pool_index p)[n := None]\<rparr>
      else p)"

text \<open>\<^verbatim>\<open>ogs_pool_find\<close> takes a position counted from 1.\<close>

definition ogs_pool_find :: "ogs_pool \<Rightarrow> int \<Rightarrow> nat option" where
  "ogs_pool_find p i =
     (if i > 0 \<and> i \<le> int (pool_size p) then pool_index p ! nat (i - 1) else None)"

text \<open>\<^verbatim>\<open>OGS_NEXT_ID(id, 1, OGS_MAX_POOL_ID)\<close>.\<close>

definition ogs_next_pool_id :: "u32 \<Rightarrow> u32" where
  "ogs_next_pool_id i = (if i = OGS_MAX_POOL_ID then 1 else i + 1)"

definition ogs_pool_id_calloc :: "ogs_pool \<Rightarrow> ogs_pool \<times> (nat \<times> u32) option" where
  "ogs_pool_id_calloc p =
     (case ogs_pool_alloc p of
        (p', None) \<Rightarrow> (p', None)
      | (p', Some n) \<Rightarrow>
          (let i = ogs_next_pool_id (pool_id p')
           in (p'\<lparr>pool_id := i, pool_id_hash := hash_set (pool_id_hash p') (key32 i) (Some n)\<rparr>,
               Some (n, i))))"

text \<open>The identifier is read from the node, so the owner of the pool passes it.\<close>

definition ogs_pool_id_free :: "ogs_pool \<Rightarrow> nat \<Rightarrow> u32 \<Rightarrow> ogs_pool exec" where
  "ogs_pool_id_free p n i =
     (if 1 \<le> i \<and> i \<le> OGS_MAX_POOL_ID
      then Ret (ogs_pool_free (p\<lparr>pool_id_hash := hash_set (pool_id_hash p) (key32 i) None\<rparr>) n)
      else Abort)"

definition ogs_pool_find_by_id :: "ogs_pool \<Rightarrow> u32 \<Rightarrow> nat option" where
  "ogs_pool_find_by_id p i = hash_get (pool_id_hash p) (key32 i)"

text \<open>
  \<^verbatim>\<open>ogs_pool_random_id_generate\<close>: the nodes of a pool of identifiers hold the numbers from 1,
  shuffled; \<open>r i\<close> is the random number drawn when the loop is at \<open>i\<close>.
\<close>

definition swap_at :: "nat \<Rightarrow> nat \<Rightarrow> 'a list \<Rightarrow> 'a list" where
  "swap_at i j xs = xs[i := xs ! j, j := xs ! i]"

definition ogs_pool_random_id_generate :: "nat \<Rightarrow> (nat \<Rightarrow> u32) \<Rightarrow> u32 list" where
  "ogs_pool_random_id_generate n r =
     foldl (\<lambda>xs i. swap_at i (unat (r i) mod (i + 1)) xs) (map (\<lambda>i. of_nat (i + 1)) [0..<n])
       (rev [1..<n])"

section \<open>Invariant\<close>

definition allocated :: "ogs_pool \<Rightarrow> nat set" where
  "allocated p = {n. n < pool_size p \<and> pool_index p ! n \<noteq> None}"

text \<open>
  The free slots of the ring hold, each once, the nodes whose index entry is empty; the tail is
  where the free slots end.
\<close>

definition pool_ok :: "ogs_pool \<Rightarrow> bool" where
  "pool_ok p \<longleftrightarrow>
     length (pool_free p) = pool_size p \<and> length (pool_index p) = pool_size p \<and>
     pool_avail p \<le> pool_size p \<and>
     (0 < pool_size p \<longrightarrow> pool_head p < pool_size p \<and>
        pool_tail p = (pool_head p + pool_avail p) mod pool_size p) \<and>
     (\<exists>ns. ring (pool_free p) (pool_head p) (pool_avail p) = map Some ns \<and> distinct ns \<and>
        set ns = {n. n < pool_size p \<and> pool_index p ! n = None}) \<and>
     (\<forall>n < pool_size p. pool_index p ! n = None \<or> pool_index p ! n = Some n)"

lemma pool_ok_index:
  "pool_ok p \<Longrightarrow> n < pool_size p \<Longrightarrow> pool_index p ! n = None \<or> pool_index p ! n = Some n"
  by (simp add: pool_ok_def)

lemma pool_ok_init: "pool_ok (ogs_pool_init n seed)"
proof -
  have "ring (map Some [0..<n]) 0 n = map Some [0..<n]"
    by (auto simp: ring_def intro!: nth_equalityI)
  then show ?thesis
    by (auto simp: pool_ok_def ogs_pool_init_def intro!: exI [of _ "[0..<n]"])
qed

lemma allocated_init: "allocated (ogs_pool_init n seed) = {}"
  by (auto simp: allocated_def ogs_pool_init_def)

lemma finite_allocated [simp]: "finite (allocated p)"
  by (simp add: allocated_def)

lemma card_allocated:
  assumes "pool_ok p"
  shows "card (allocated p) + pool_avail p = pool_size p"
proof -
  obtain ns where ns: "ring (pool_free p) (pool_head p) (pool_avail p) = map Some ns" "distinct ns"
    "set ns = {n. n < pool_size p \<and> pool_index p ! n = None}"
    using assms by (auto simp: pool_ok_def)
  have "pool_avail p = length ns"
    using ns(1) length_ring by (metis length_map)
  also have "\<dots> = card {n. n < pool_size p \<and> pool_index p ! n = None}"
    using ns(2,3) distinct_card by metis
  finally have a: "pool_avail p = card {n. n < pool_size p \<and> pool_index p ! n = None}" .
  define X where "X = {n. n < pool_size p \<and> pool_index p ! n = None}"
  have "{..<pool_size p} = allocated p \<union> X" by (auto simp: allocated_def X_def)
  moreover have "allocated p \<inter> X = {}" "finite X" by (auto simp: allocated_def X_def)
  ultimately have "card {..<pool_size p} = card (allocated p) + card X"
    by (simp add: card_Un_disjoint)
  then show ?thesis by (simp add: a X_def)
qed

lemma alloc_Some:
  assumes ok: "pool_ok p" and av: "0 < pool_avail p"
  obtains p' n where "ogs_pool_alloc p = (p', Some n)" "n < pool_size p" "n \<notin> allocated p"
    "allocated p' = insert n (allocated p)" "pool_ok p'"
    "pool_size p' = pool_size p" "pool_id_hash p' = pool_id_hash p" "pool_id p' = pool_id p"
proof -
  obtain ns where ns: "ring (pool_free p) (pool_head p) (pool_avail p) = map Some ns" "distinct ns"
    "set ns = {n. n < pool_size p \<and> pool_index p ! n = None}"
    using ok by (auto simp: pool_ok_def)
  have len: "length (pool_free p) = pool_size p" "length (pool_index p) = pool_size p"
    "pool_avail p \<le> pool_size p" and hd: "pool_head p < pool_size p"
    "pool_tail p = (pool_head p + pool_avail p) mod pool_size p"
    using ok av by (auto simp: pool_ok_def)
  have pop: "map Some ns = pool_free p ! pool_head p #
      ring (pool_free p) ((pool_head p + 1) mod pool_size p) (pool_avail p - 1)"
    using ring_pop [OF av, of "pool_head p" "pool_free p"] hd len ns(1) by simp
  then obtain n ms where nms: "ns = n # ms" "pool_free p ! pool_head p = Some n"
    "ring (pool_free p) ((pool_head p + 1) mod pool_size p) (pool_avail p - 1) = map Some ms"
    by (cases ns) auto
  define p' where "p' = fst (ogs_pool_alloc p)"
  have p': "p' = p\<lparr>pool_avail := pool_avail p - 1,
                  pool_free := (pool_free p)[pool_head p := None],
                  pool_head := (pool_head p + 1) mod pool_size p,
                  pool_index := (pool_index p)[n := Some n]\<rparr>"
    using av nms by (simp add: p'_def ogs_pool_alloc_def Let_def)
  have n: "n < pool_size p" "pool_index p ! n = None" "n \<notin> set ms" "distinct ms"
    using ns nms by auto
  have "\<forall>i < pool_avail p - 1. ((pool_head p + 1) mod pool_size p + i) mod pool_size p \<noteq> pool_head p"
  proof (intro allI impI notI)
    fix i
    assume i: "i < pool_avail p - 1"
      and e: "((pool_head p + 1) mod pool_size p + i) mod pool_size p = pool_head p"
    have "(pool_head p + Suc i) mod pool_size p = (pool_head p + 0) mod pool_size p"
      using e hd(1) by (simp add: mod_add_left_eq)
    moreover have "Suc i < pool_size p" using i len by linarith
    ultimately show False
      using mod_add_inj [of "Suc i" "pool_size p" 0 "pool_head p"] hd(1) by simp
  qed
  then have r: "ring (pool_free p') (pool_head p') (pool_avail p') = map Some ms"
    using nms(3) len hd ring_update_outside [of "pool_head p" "pool_free p"] by (simp add: p')
  have t: "pool_tail p' = (pool_head p' + pool_avail p') mod pool_size p'"
  proof -
    obtain a where "pool_avail p = Suc a" using av by (cases "pool_avail p") auto
    then show ?thesis using hd by (simp add: p' mod_add_left_eq)
  qed
  have s: "set ms = {m. m < pool_size p' \<and> pool_index p' ! m = None}"
  proof -
    have "set ms = set ns - {n}" using nms(1) n(3) by auto
    also have "\<dots> = {m. m < pool_size p' \<and> pool_index p' ! m = None}"
      unfolding ns(3) using len(2) n(1) by (auto simp: p' nth_list_update split: if_splits)
    finally show ?thesis .
  qed
  have ix: "\<forall>m < pool_size p'. pool_index p' ! m = None \<or> pool_index p' ! m = Some m"
    using pool_ok_index [OF ok] len n(1) by (auto simp: p' nth_list_update)
  have "length (pool_free p') = pool_size p'" "length (pool_index p') = pool_size p'"
    "pool_avail p' \<le> pool_size p'" "pool_head p' < pool_size p'"
    using len hd by (simp_all add: p')
  with r t s n(4) ix have "pool_ok p'" unfolding pool_ok_def by blast
  moreover have "allocated p' = insert n (allocated p)"
    using n len by (auto simp: allocated_def p' nth_list_update)
  moreover have "ogs_pool_alloc p = (p', Some n)"
    using av nms(2) by (simp add: p'_def ogs_pool_alloc_def Let_def)
  ultimately show thesis using n that by (auto simp: allocated_def p')
qed

lemma alloc_None:
  assumes "pool_avail p = 0"
  shows "ogs_pool_alloc p = (p, None)"
  using assms by (simp add: ogs_pool_alloc_def)

lemma free_allocated:
  assumes ok: "pool_ok p" and n: "n \<in> allocated p"
  shows "pool_ok (ogs_pool_free p n)" "allocated (ogs_pool_free p n) = allocated p - {n}"
    "pool_size (ogs_pool_free p n) = pool_size p"
    "pool_id_hash (ogs_pool_free p n) = pool_id_hash p"
proof -
  obtain ns where ns: "ring (pool_free p) (pool_head p) (pool_avail p) = map Some ns" "distinct ns"
    "set ns = {n. n < pool_size p \<and> pool_index p ! n = None}"
    using ok by (auto simp: pool_ok_def)
  have nn: "n < pool_size p" "pool_index p ! n \<noteq> None" using n by (auto simp: allocated_def)
  have "0 < card (allocated p)" using n card_gt_0_iff by fastforce
  then have av: "pool_avail p < pool_size p" using card_allocated [OF ok] by simp
  have len: "length (pool_free p) = pool_size p" "length (pool_index p) = pool_size p"
    and hd: "pool_head p < pool_size p"
      "pool_tail p = (pool_head p + pool_avail p) mod pool_size p"
    using ok av by (auto simp: pool_ok_def)
  define p' where "p' = p\<lparr>pool_avail := pool_avail p + 1,
             pool_free := (pool_free p)[pool_tail p := Some n],
             pool_tail := (pool_tail p + 1) mod pool_size p,
             pool_index := (pool_index p)[n := None]\<rparr>"
  have eq: "ogs_pool_free p n = p'" using av by (simp add: ogs_pool_free_def p'_def)
  have r: "ring (pool_free p') (pool_head p') (pool_avail p') = map Some (ns @ [n])"
    using ring_push [of "pool_avail p" "pool_free p" "pool_head p" "Some n"] av len hd ns(1)
    by (simp add: p'_def)
  have t: "pool_tail p' = (pool_head p' + pool_avail p') mod pool_size p'"
    using hd by (simp add: p'_def mod_Suc_eq)
  have s: "set (ns @ [n]) = {m. m < pool_size p' \<and> pool_index p' ! m = None}"
    using ns(3) nn len by (auto simp: p'_def nth_list_update split: if_splits)
  have d: "distinct (ns @ [n])" using ns nn by auto
  have ix: "\<forall>m < pool_size p'. pool_index p' ! m = None \<or> pool_index p' ! m = Some m"
    using pool_ok_index [OF ok] len nn(1) by (auto simp: p'_def nth_list_update)
  have "length (pool_free p') = pool_size p'" "length (pool_index p') = pool_size p'"
    "pool_avail p' \<le> pool_size p'" "pool_head p' < pool_size p'"
    using len hd av by (simp_all add: p'_def)
  with r t s d ix have "pool_ok p'" unfolding pool_ok_def by blast
  then show "pool_ok (ogs_pool_free p n)" by (simp add: eq)
  show "allocated (ogs_pool_free p n) = allocated p - {n}"
    using nn len by (auto simp: eq allocated_def p'_def nth_list_update)
  show "pool_size (ogs_pool_free p n) = pool_size p"
    "pool_id_hash (ogs_pool_free p n) = pool_id_hash p" by (simp_all add: eq p'_def)
qed

section \<open>The contract\<close>

text \<open>
  What the owner of a pool relies on: a node that is handed out was not in use, a request fails
  only when every node is in use, and a node given back is free again.
\<close>

locale allocator =
  fixes acquire :: "'p \<Rightarrow> 'p \<times> 'n option"
    and release :: "'p \<Rightarrow> 'n \<Rightarrow> 'p"
    and in_use :: "'p \<Rightarrow> 'n set"
    and capacity :: "'p \<Rightarrow> nat"
    and valid :: "'p \<Rightarrow> bool"
  assumes acquire_Some: "valid p \<Longrightarrow> acquire p = (p', Some n) \<Longrightarrow>
      valid p' \<and> n \<notin> in_use p \<and> in_use p' = insert n (in_use p) \<and> capacity p' = capacity p"
    and acquire_None: "valid p \<Longrightarrow> acquire p = (p', None) \<Longrightarrow>
      p' = p \<and> card (in_use p) = capacity p"
    and release_ok: "valid p \<Longrightarrow> n \<in> in_use p \<Longrightarrow>
      valid (release p n) \<and> in_use (release p n) = in_use p - {n} \<and>
      capacity (release p n) = capacity p"
    and bounded: "valid p \<Longrightarrow> finite (in_use p) \<and> card (in_use p) \<le> capacity p"
begin

lemma acquire_release:
  assumes "valid p" "acquire p = (p', Some n)"
  shows "in_use (release p' n) = in_use p"
  using acquire_Some [OF assms] release_ok [of p' n] by auto

lemma acquire_succeeds:
  assumes "valid p" "card (in_use p) < capacity p"
  obtains p' n where "acquire p = (p', Some n)"
  using assms acquire_None [of p] by (cases "acquire p") (metis nat_neq_iff option.exhaust prod.exhaust)

text \<open>A run of requests that all succeed hands out pairwise different nodes.\<close>

fun acquire_n :: "nat \<Rightarrow> 'p \<Rightarrow> 'p \<times> 'n option list" where
  "acquire_n 0 p = (p, [])"
| "acquire_n (Suc k) p =
     (let (p', n) = acquire p; (p'', ns) = acquire_n k p' in (p'', n # ns))"

lemma acquire_n_distinct:
  assumes "valid p" "acquire_n k p = (p', map Some ns)"
  shows "distinct ns \<and> set ns \<inter> in_use p = {} \<and> in_use p' = in_use p \<union> set ns \<and> valid p'"
  using assms
proof (induction k arbitrary: p ns)
  case 0
  then show ?case by auto
next
  case (Suc k)
  obtain p1 m where a: "acquire p = (p1, m)" by (cases "acquire p")
  obtain p2 os where b: "acquire_n k p1 = (p2, os)" by (cases "acquire_n k p1")
  from Suc.prems(2) a b obtain n ms where m: "ns = n # ms" "m = Some n" "os = map Some ms" "p2 = p'"
    by (cases ns) auto
  have n: "valid p1 \<and> n \<notin> in_use p \<and> in_use p1 = insert n (in_use p) \<and> capacity p1 = capacity p"
    using acquire_Some [OF Suc.prems(1)] a m by simp
  have "distinct ms \<and> set ms \<inter> in_use p1 = {} \<and> in_use p' = in_use p1 \<union> set ms \<and> valid p'"
    using Suc.IH [of p1 ms] n b m by simp
  with n m show ?case by auto
qed

end

interpretation pool: allocator ogs_pool_alloc ogs_pool_free allocated pool_size pool_ok
proof
  fix p p' n
  assume "pool_ok p" "ogs_pool_alloc p = (p', Some n)"
  then show "pool_ok p' \<and> n \<notin> allocated p \<and> allocated p' = insert n (allocated p) \<and>
      pool_size p' = pool_size p"
    using alloc_Some [of p] alloc_None [of p]
    by (metis gr0I option.distinct(1) option.inject prod.inject)
next
  fix p p'
  assume "pool_ok p" "ogs_pool_alloc p = (p', None)"
  then show "p' = p \<and> card (allocated p) = pool_size p"
    using alloc_Some [of p] alloc_None [of p] card_allocated [of p]
    by (metis add.right_neutral gr0I option.distinct(1) prod.inject)
next
  fix p n
  assume "pool_ok p" "n \<in> allocated p"
  then show "pool_ok (ogs_pool_free p n) \<and> allocated (ogs_pool_free p n) = allocated p - {n} \<and>
      pool_size (ogs_pool_free p n) = pool_size p"
    by (simp add: free_allocated)
next
  fix p
  assume "pool_ok p"
  then show "finite (allocated p) \<and> card (allocated p) \<le> pool_size p"
    using card_allocated [of p] by simp
qed

section \<open>Properties\<close>

lemma swap_at_mset: "i < length xs \<Longrightarrow> j < length xs \<Longrightarrow> mset (swap_at i j xs) = mset xs"
  by (simp add: swap_at_def mset_swap)

lemma length_swap_at [simp]: "length (swap_at i j xs) = length xs"
  by (simp add: swap_at_def)

lemma swap_fold_mset:
  assumes "\<forall>i \<in> set is. i < length xs"
  shows "mset (foldl (\<lambda>xs i. swap_at i (f i mod (i + 1)) xs) xs is) = mset xs"
  using assms
proof (induction "is" arbitrary: xs)
  case (Cons i "is")
  then have "i < length xs" by simp
  moreover have "f i mod (i + 1) < i + 1" by simp
  ultimately have "f i mod (i + 1) < length xs" by linarith
  with \<open>i < length xs\<close> have "mset (swap_at i (f i mod (i + 1)) xs) = mset xs" by (simp add: swap_at_mset)
  with Cons show ?case by simp
qed simp

lemma distinct_word_numbers:
  assumes "n < 2 ^ 32"
  shows "distinct (map (\<lambda>i. of_nat (i + 1) :: u32) [0..<n])"
proof -
  have "inj_on (\<lambda>i. of_nat (i + 1) :: u32) {0..<n}"
  proof (rule inj_onI)
    fix i j
    assume b: "i \<in> {0..<n}" "j \<in> {0..<n}" and e: "(of_nat (i + 1) :: u32) = of_nat (j + 1)"
    have "unat (of_nat (i + 1) :: u32) = i + 1" "unat (of_nat (j + 1) :: u32) = j + 1"
      using b assms by (auto simp only: unat_of_nat intro!: mod_less) simp_all
    with e show "i = j" by simp
  qed
  then show ?thesis by (simp add: distinct_map)
qed

text \<open>The shuffle hands every number from 1 to \<open>n\<close> to one node.\<close>

lemma random_ids_permute:
  assumes "n < 2 ^ 32"
  shows "length (ogs_pool_random_id_generate n r) = n" "distinct (ogs_pool_random_id_generate n r)"
    "set (ogs_pool_random_id_generate n r) = of_nat ` {1..n}"
proof -
  have m: "mset (ogs_pool_random_id_generate n r) = mset (map (\<lambda>i. of_nat (i + 1)) [0..<n])"
    unfolding ogs_pool_random_id_generate_def by (rule swap_fold_mset) auto
  then show "length (ogs_pool_random_id_generate n r) = n"
    by (metis length_map length_upt minus_nat.diff_0 size_mset)
  show "distinct (ogs_pool_random_id_generate n r)"
    using distinct_word_numbers [OF assms] m by (metis mset_eq_imp_distinct_iff)
  have "set (ogs_pool_random_id_generate n r) = (\<lambda>i. of_nat (i + 1)) ` {0..<n}"
    using m by (metis atLeastLessThan_upt list.set_map set_mset_mset)
  also have "\<dots> = of_nat ` Suc ` {0..<n}" by (simp only: image_image Suc_eq_plus1)
  also have "Suc ` {0..<n} = {1..n}" by (simp add: image_Suc_atLeastLessThan atLeastLessThanSuc_atLeastAtMost)
  finally show "set (ogs_pool_random_id_generate n r) = of_nat ` {1..n}" .
qed

lemma find_calloc:
  assumes "hash_ok (pool_id_hash p)" "pool_id_hash q = pool_id_hash p"
  shows "ogs_pool_find_by_id (q\<lparr>pool_id := i, pool_id_hash := hash_set (pool_id_hash q) (key32 i) v\<rparr>) j =
    (if j = i then v else ogs_pool_find_by_id p j)"
  using assms by (simp add: ogs_pool_find_by_id_def)

lemma alloc_None_iff:
  assumes "pool_ok p"
  shows "snd (ogs_pool_alloc p) = None \<longleftrightarrow> pool_avail p = 0"
  using alloc_Some [OF assms] alloc_None [of p] by (metis gr0I option.distinct(1) snd_conv)

text \<open>
  A pool of \<open>n\<close> nodes serves \<open>n\<close> outstanding requests and no more: an allocation fails
  exactly when every node is in use, one that succeeds hands out a node nobody holds, and
  returning a node in use makes just that node available.
\<close>

theorem pool_exclusive:
  assumes "pool_ok p"
  shows "(snd (ogs_pool_alloc p) = None \<longleftrightarrow> card (allocated p) = pool_size p) \<and>
    (\<forall>n. snd (ogs_pool_alloc p) = Some n \<longrightarrow> n < pool_size p \<and> n \<notin> allocated p \<and>
        allocated (fst (ogs_pool_alloc p)) = insert n (allocated p)) \<and>
    pool_ok (fst (ogs_pool_alloc p)) \<and>
    (\<forall>n \<in> allocated p. pool_ok (ogs_pool_free p n) \<and> allocated (ogs_pool_free p n) = allocated p - {n})"
proof (cases "pool_avail p = 0")
  case True
  with assms show ?thesis
    using card_allocated [OF assms] by (simp add: alloc_None free_allocated)
next
  case False
  then obtain p' n where "ogs_pool_alloc p = (p', Some n)" "n < pool_size p" "n \<notin> allocated p"
    "allocated p' = insert n (allocated p)" "pool_ok p'"
    using alloc_Some [OF assms] by blast
  with False assms show ?thesis
    using card_allocated [OF assms] by (auto simp: free_allocated)
qed

theorem pool_exclusive_witness:
  "pool_ok (ogs_pool_init 128 1) \<and> snd (ogs_pool_alloc (ogs_pool_init 128 1)) \<noteq> None"
  using pool_exclusive [OF pool_ok_init [of 128 1]]
  by (simp add: pool_ok_init allocated_init) (simp add: ogs_pool_init_def)

lemma next_pool_id_range:
  assumes "i \<le> OGS_MAX_POOL_ID"
  shows "1 \<le> ogs_next_pool_id i \<and> ogs_next_pool_id i \<le> OGS_MAX_POOL_ID"
proof (cases "i = OGS_MAX_POOL_ID")
  case False
  with assms have "i < OGS_MAX_POOL_ID" by simp
  then have "unat i < 2147483647" by (simp add: OGS_MAX_POOL_ID_def word_less_nat_alt)
  then have "unat (i + 1) = Suc (unat i)" by (simp add: unat_word_ariths)
  with False \<open>unat i < 2147483647\<close> show ?thesis
    by (simp add: ogs_next_pool_id_def OGS_MAX_POOL_ID_def word_le_nat_alt)
qed (simp add: ogs_next_pool_id_def OGS_MAX_POOL_ID_def word_le_nat_alt)

text \<open>
  An object allocated with \<^verbatim>\<open>ogs_pool_id_calloc\<close> is found under the identifier it was
  given, until \<^verbatim>\<open>ogs_pool_id_free\<close> returns it, which does not trip its assertion; what the
  other identifiers designate does not change, and the node is free again.
\<close>

theorem pool_id_lifecycle:
  assumes "pool_ok p" "hash_ok (pool_id_hash p)" "pool_id p \<le> OGS_MAX_POOL_ID"
    and "ogs_pool_id_calloc p = (p', Some (n, i))"
  shows "(\<forall>j. ogs_pool_find_by_id p' j = (if j = i then Some n else ogs_pool_find_by_id p j)) \<and>
    pool_id p' \<le> OGS_MAX_POOL_ID \<and>
    (\<exists>p''. ogs_pool_id_free p' n i = Ret p'' \<and> allocated p'' = allocated p \<and>
       (\<forall>j. ogs_pool_find_by_id p'' j = (if j = i then None else ogs_pool_find_by_id p j)))"
proof -
  obtain q where q: "ogs_pool_alloc p = (q, Some n)" and i: "i = ogs_next_pool_id (pool_id q)"
    and p': "p' = q\<lparr>pool_id := i, pool_id_hash := hash_set (pool_id_hash q) (key32 i) (Some n)\<rparr>"
    using assms(4) by (auto simp: ogs_pool_id_calloc_def Let_def split: prod.splits option.splits)
  have av: "0 < pool_avail p" using q by (auto simp: ogs_pool_alloc_def split: if_splits)
  from alloc_Some [OF assms(1) av] q have
    Q: "n \<notin> allocated p" "allocated q = insert n (allocated p)" "pool_ok q"
      "pool_id_hash q = pool_id_hash p" "pool_id q = pool_id p" by auto
  have rng: "1 \<le> i \<and> i \<le> OGS_MAX_POOL_ID"
    unfolding i Q(5) by (rule next_pool_id_range [OF assms(3)])
  define r where "r = p'\<lparr>pool_id_hash := hash_set (pool_id_hash p') (key32 i) None\<rparr>"
  have fr: "ogs_pool_id_free p' n i = Ret (ogs_pool_free r n)"
    using rng by (simp add: ogs_pool_id_free_def r_def)
  have ok: "pool_ok r" "allocated r = allocated q"
    using Q(3) by (simp_all add: r_def p' pool_ok_def allocated_def)
  then have n: "n \<in> allocated r" using Q(2) by simp
  note f = free_allocated [OF ok(1) n]
  have h: "pool_id_hash r = hash_set (pool_id_hash p') (key32 i) None" by (simp add: r_def)
  have "allocated (ogs_pool_free r n) = allocated p"
    using f(2) ok(2) Q(1,2) by simp
  moreover have "ogs_pool_find_by_id p' j = (if j = i then Some n else ogs_pool_find_by_id p j)" for j
    unfolding p' by (rule find_calloc [OF assms(2) Q(4)])
  moreover have "ogs_pool_find_by_id (ogs_pool_free r n) j =
      (if j = i then None else ogs_pool_find_by_id p j)" for j
    using assms(2) Q(4) by (simp add: ogs_pool_find_by_id_def f(4) h p')
  moreover have "pool_id p' \<le> OGS_MAX_POOL_ID" using rng by (simp add: p')
  ultimately show ?thesis using fr by blast
qed

theorem pool_id_lifecycle_witness:
  "\<exists>p'. ogs_pool_id_calloc (ogs_pool_init 2 9) = (p', Some (0, 1)) \<and> ogs_pool_find_by_id p' 1 = Some 0"
proof -
  define p' where "p' = fst (ogs_pool_id_calloc (ogs_pool_init 2 9))"
  have "ogs_pool_id_calloc (ogs_pool_init 2 9) = (p', Some (0, 1))"
    by (simp add: p'_def ogs_pool_id_calloc_def ogs_pool_alloc_def ogs_pool_init_def Let_def
        ogs_next_pool_id_def OGS_MAX_POOL_ID_def upt_rec)
  moreover have "hash_ok (pool_id_hash (ogs_pool_init 2 9))" "pool_id (ogs_pool_init 2 9) = 0"
    by (simp_all add: ogs_pool_init_def hash_ok_make)
  ultimately show ?thesis
    using pool_id_lifecycle [OF pool_ok_init, of 2 9 p' 0 1] by auto
qed

end
