(* ===== verification/Ogs_List.thy ===== *)
theory Ogs_List
  imports Prelude
begin

text \<open>
  The intrusive doubly linked lists of \<^verbatim>\<open>lib/core/ogs-list.h\<close> on a store of links, and the sequence
  of nodes that such a list stands for. The components above use the sequences; the transactions
  of PFCP, which remove nodes that were never added, use the links.
\<close>

section \<open>Links\<close>

text \<open>The head of a list has the same two pointers: to the last and to the first node.\<close>

record ogs_lnode =
  ln_prev :: "nat option"
  ln_next :: "nat option"

type_synonym links = "nat \<Rightarrow> ogs_lnode"

type_synonym ogs_list = "ogs_lnode \<times> links"

definition null_links :: ogs_lnode where
  "null_links = \<lparr>ln_prev = None, ln_next = None\<rparr>"

definition ogs_list_init :: "ogs_list \<Rightarrow> ogs_list" where
  "ogs_list_init s = (null_links, snd s)"

text \<open>The assignment to a link of a node if there is one, else to that of the head.\<close>

definition put_next :: "nat option \<Rightarrow> nat option \<Rightarrow> ogs_list \<Rightarrow> ogs_list" where
  "put_next p v s = (case (p, s) of
     (Some x, h, L) \<Rightarrow> (h, L(x := (L x)\<lparr>ln_next := v\<rparr>)) | (None, h, L) \<Rightarrow> (h\<lparr>ln_next := v\<rparr>, L))"

definition put_prev :: "nat option \<Rightarrow> nat option \<Rightarrow> ogs_list \<Rightarrow> ogs_list" where
  "put_prev q v s = (case (q, s) of
     (Some x, h, L) \<Rightarrow> (h, L(x := (L x)\<lparr>ln_prev := v\<rparr>)) | (None, h, L) \<Rightarrow> (h\<lparr>ln_prev := v\<rparr>, L))"

definition put_links :: "nat \<Rightarrow> nat option \<Rightarrow> nat option \<Rightarrow> ogs_list \<Rightarrow> ogs_list" where
  "put_links n p q s = (fst s, (snd s)(n := \<lparr>ln_prev = p, ln_next = q\<rparr>))"

section \<open>Operations\<close>

definition ogs_list_add :: "nat \<Rightarrow> ogs_list \<Rightarrow> ogs_list" where
  "ogs_list_add n s =
     (let p = ln_prev (fst s)
      in put_prev None (Some n) (put_next p (Some n) (put_links n p None s)))"

definition ogs_list_prepend :: "nat \<Rightarrow> ogs_list \<Rightarrow> ogs_list" where
  "ogs_list_prepend n s =
     (let q = ln_next (fst s)
      in put_next None (Some n) (put_prev q (Some n) (put_links n None q s)))"

definition ogs_list_remove :: "nat \<Rightarrow> ogs_list \<Rightarrow> ogs_list" where
  "ogs_list_remove n s =
     (let p = ln_prev (snd s n); q = ln_next (snd s n) in put_prev q p (put_next p q s))"

definition ogs_list_insert_prev :: "nat \<Rightarrow> nat \<Rightarrow> ogs_list \<Rightarrow> ogs_list" where
  "ogs_list_insert_prev m n s =
     (let p = ln_prev (snd s m)
      in put_prev (Some m) (Some n) (put_next p (Some n) (put_links n p (Some m) s)))"

definition ogs_list_insert_next :: "nat \<Rightarrow> nat \<Rightarrow> ogs_list \<Rightarrow> ogs_list" where
  "ogs_list_insert_next m n s =
     (let q = ln_next (snd s m)
      in put_next (Some m) (Some n) (put_prev q (Some n) (put_links n (Some m) q s)))"

text \<open>
  The loops: over all nodes, and until the first that satisfies a condition. A loop over links
  in a circle does not end: \<open>None\<close>.
\<close>

partial_function (option) ogs_list_for_each :: "links \<Rightarrow> nat option \<Rightarrow> nat list option" where
  "ogs_list_for_each L c =
     (case c of None \<Rightarrow> Some []
      | Some x \<Rightarrow> Option.bind (ogs_list_for_each L (ln_next (L x))) (\<lambda>xs. Some (x # xs)))"

partial_function (option) list_find :: "(nat \<Rightarrow> bool) \<Rightarrow> links \<Rightarrow> nat option \<Rightarrow> nat option option" where
  "list_find P L c =
     (case c of None \<Rightarrow> Some None
      | Some x \<Rightarrow> if P x then Some (Some x) else list_find P L (ln_next (L x)))"

definition ogs_list_count :: "ogs_list \<Rightarrow> nat option" where
  "ogs_list_count s = map_option length (ogs_list_for_each (snd s) (ln_next (fst s)))"

definition ogs_list_exists :: "nat \<Rightarrow> ogs_list \<Rightarrow> bool option" where
  "ogs_list_exists n s = map_option (\<lambda>r. r \<noteq> None) (list_find (\<lambda>x. n = x) (snd s) (ln_next (fst s)))"

definition list_insert_sorted :: "(nat \<Rightarrow> nat \<Rightarrow> int) \<Rightarrow> nat \<Rightarrow> ogs_list \<Rightarrow> ogs_list option" where
  "list_insert_sorted compare n s =
     map_option (\<lambda>r. case r of Some i \<Rightarrow> ogs_list_insert_prev i n s | None \<Rightarrow> ogs_list_add n s)
       (list_find (\<lambda>i. compare n i < 0) (snd s) (ln_next (fst s)))"

section \<open>The sequence of a list\<close>

definition first_of :: "nat list \<Rightarrow> nat option \<Rightarrow> nat option" where
  "first_of xs q = (case xs of [] \<Rightarrow> q | x # _ \<Rightarrow> Some x)"

definition last_of :: "nat option \<Rightarrow> nat list \<Rightarrow> nat option" where
  "last_of p xs = (if xs = [] then p else Some (last xs))"

text \<open>The nodes \<open>xs\<close> are linked to each other, the first to \<open>p\<close> and the last to \<open>q\<close>.\<close>

fun linked :: "links \<Rightarrow> nat option \<Rightarrow> nat list \<Rightarrow> nat option \<Rightarrow> bool" where
  "linked L p [] q = True"
| "linked L p (x # xs) q \<longleftrightarrow> L x = \<lparr>ln_prev = p, ln_next = first_of xs q\<rparr> \<and> linked L (Some x) xs q"

definition list_at :: "ogs_list \<Rightarrow> nat list \<Rightarrow> bool" where
  "list_at s xs \<longleftrightarrow> distinct xs \<and> ln_next (fst s) = first_of xs None \<and> ln_prev (fst s) = last_of None xs \<and>
     linked (snd s) None xs None"

lemma first_of_simps [simp]: "first_of [] q = q" "first_of (x # xs) q = Some x"
  by (simp_all add: first_of_def)

lemma first_of_append: "first_of (xs @ ys) q = first_of xs (first_of ys q)"
  by (cases xs) simp_all

lemma last_of_simps [simp]: "last_of p [] = p" "last_of p (xs @ [x]) = Some x" "last_of p (x # xs) = last_of (Some x) xs"
  by (simp_all add: last_of_def)

lemma last_of_append: "last_of p (xs @ ys) = last_of (last_of p xs) ys"
  by (simp add: last_of_def)

lemma linked_append: "linked L p (xs @ ys) q \<longleftrightarrow> linked L p xs (first_of ys q) \<and> linked L (last_of p xs) ys q"
  by (induction xs arbitrary: p) (auto simp: first_of_append)

lemma linked_cong: "\<forall>x \<in> set xs. L x = M x \<Longrightarrow> linked L p xs q = linked M p xs q"
  by (induction xs arbitrary: p) auto

lemma linked_upd [simp]: "x \<notin> set xs \<Longrightarrow> linked (L(x := v)) p xs q = linked L p xs q"
  by (rule linked_cong) auto

lemmas link_defs = put_next_def put_prev_def put_links_def Let_def

lemma list_at_init: "list_at (ogs_list_init s) []"
  by (simp add: list_at_def ogs_list_init_def null_links_def)

lemma add_list_at:
  assumes "list_at s xs" "n \<notin> set xs"
  shows "list_at (ogs_list_add n s) (xs @ [n])"
  using assms by (cases s; cases xs rule: rev_cases)
    (auto simp: list_at_def ogs_list_add_def link_defs linked_append first_of_append last_of_append)

lemma prepend_list_at:
  assumes "list_at s xs" "n \<notin> set xs"
  shows "list_at (ogs_list_prepend n s) (n # xs)"
  using assms by (cases s; cases xs)
    (auto simp: list_at_def ogs_list_prepend_def link_defs)

lemma remove_list_at:
  assumes "list_at s xs" "n \<in> set xs"
  shows "list_at (ogs_list_remove n s) (remove1 n xs)"
proof -
  obtain as bs where xs: "xs = as @ n # bs" by (meson assms(2) split_list)
  then have "n \<notin> set as" using assms(1) by (simp add: list_at_def)
  then have "remove1 n xs = as @ bs" by (simp add: xs remove1_append)
  with assms(1) show ?thesis unfolding xs by (cases s; cases as rule: rev_cases; cases bs)
    (auto simp: list_at_def ogs_list_remove_def link_defs linked_append first_of_append last_of_append)
qed

lemma insert_prev_list_at:
  assumes "list_at s (as @ m # bs)" "n \<notin> set (as @ m # bs)"
  shows "list_at (ogs_list_insert_prev m n s) (as @ n # m # bs)"
  using assms by (cases s; cases as rule: rev_cases)
    (auto simp: list_at_def ogs_list_insert_prev_def link_defs linked_append first_of_append last_of_append)

lemma insert_next_list_at:
  assumes "list_at s (as @ m # bs)" "n \<notin> set (as @ m # bs)"
  shows "list_at (ogs_list_insert_next m n s) (as @ m # n # bs)"
  using assms by (cases s; cases bs)
    (auto simp: list_at_def ogs_list_insert_next_def link_defs linked_append first_of_append last_of_append)

text \<open>An operation writes the links of its own list and of the node it is given, no others.\<close>

lemma last_of_mem: "last_of None xs = Some x \<Longrightarrow> x \<in> set xs"
  by (auto simp: last_of_def split: if_splits)

lemma first_of_mem: "first_of xs None = Some x \<Longrightarrow> x \<in> set xs"
  by (cases xs) simp_all

lemma add_frame:
  assumes "list_at s xs" "x \<notin> insert n (set xs)"
  shows "snd (ogs_list_add n s) x = snd s x"
  using assms last_of_mem [of xs]
  by (cases s) (auto simp: list_at_def ogs_list_add_def link_defs split: option.splits)

lemma linked_at: "linked L p (as @ n # bs) q \<Longrightarrow> L n = \<lparr>ln_prev = last_of p as, ln_next = first_of bs q\<rparr>"
  by (simp add: linked_append)

lemma remove_frame:
  assumes "list_at s xs" "n \<in> set xs" "x \<notin> set xs"
  shows "snd (ogs_list_remove n s) x = snd s x"
proof -
  obtain as bs where xs: "xs = as @ n # bs" by (meson assms(2) split_list)
  have "snd s n = \<lparr>ln_prev = last_of None as, ln_next = first_of bs None\<rparr>"
    using assms(1) linked_at unfolding xs list_at_def by blast
  then show ?thesis using assms(3) last_of_mem [of as] first_of_mem [of bs] unfolding xs
    by (cases s) (auto simp: ogs_list_remove_def link_defs split: option.splits)
qed

lemma list_at_frame: "list_at (h, L) xs \<Longrightarrow> \<forall>x \<in> set xs. M x = L x \<Longrightarrow> list_at (h, M) xs"
  using linked_cong [of xs M L] by (auto simp: list_at_def)

text \<open>The loops on a list end, and see its nodes in order.\<close>

lemma for_each_linked: "linked L p xs None \<Longrightarrow> ogs_list_for_each L (first_of xs None) = Some xs"
proof (induction xs arbitrary: p)
  case (Cons x xs)
  then show ?case by (subst ogs_list_for_each.simps) auto
qed (simp add: ogs_list_for_each.simps)

lemma find_linked: "linked L p xs None \<Longrightarrow> list_find P L (first_of xs None) = Some (List.find P xs)"
proof (induction xs arbitrary: p)
  case (Cons x xs)
  then show ?case by (subst list_find.simps) auto
qed (simp add: list_find.simps)

lemma find_list_at: "list_at s xs \<Longrightarrow> list_find P (snd s) (ln_next (fst s)) = Some (List.find P xs)"
  using find_linked by (auto simp: list_at_def)

text \<open>The sorted insertion on sequences: before the first element that compares greater, else at the end.\<close>

fun ogs_list_insert_sorted :: "('a \<Rightarrow> 'a \<Rightarrow> int) \<Rightarrow> 'a \<Rightarrow> 'a list \<Rightarrow> 'a list" where
  "ogs_list_insert_sorted compare x [] = [x]"
| "ogs_list_insert_sorted compare x (y # ys) =
     (if compare x y < 0 then x # y # ys else y # ogs_list_insert_sorted compare x ys)"

lemma insert_sorted_find:
  "case List.find (\<lambda>y. compare x y < 0) xs of
     None \<Rightarrow> ogs_list_insert_sorted compare x xs = xs @ [x]
   | Some y \<Rightarrow> \<exists>as bs. xs = as @ y # bs \<and> ogs_list_insert_sorted compare x xs = as @ x # y # bs"
proof (induction xs)
  case (Cons z zs)
  show ?case
  proof (cases "compare x z < 0")
    case False
    with Cons show ?thesis by (auto split: option.splits) (metis append_Cons)
  qed (auto intro: exI [of _ "[]"])
qed simp

lemma insert_sorted_list_at:
  assumes "list_at s xs" "n \<notin> set xs"
  shows "\<exists>s'. list_insert_sorted compare n s = Some s' \<and> list_at s' (ogs_list_insert_sorted compare n xs)"
proof (cases "List.find (\<lambda>i. compare n i < 0) xs")
  case None
  then show ?thesis using insert_sorted_find [of compare n xs] add_list_at [OF assms]
    by (simp add: list_insert_sorted_def find_list_at [OF assms(1)])
next
  case (Some i)
  then obtain as bs where "xs = as @ i # bs" "ogs_list_insert_sorted compare n xs = as @ n # i # bs"
    using insert_sorted_find [of compare n xs] by auto
  then show ?thesis using Some insert_prev_list_at [of s as i bs n] assms
    by (simp add: list_insert_sorted_def find_list_at [OF assms(1)])
qed

section \<open>The contract\<close>

text \<open>What the users of a list rely on.\<close>

locale node_list =
  fixes add remove :: "'n \<Rightarrow> 's \<Rightarrow> 's"
    and elems :: "'s \<Rightarrow> 'n list"
    and valid :: "'s \<Rightarrow> bool"
  assumes add_law: "valid s \<Longrightarrow> n \<notin> set (elems s) \<Longrightarrow> valid (add n s) \<and> elems (add n s) = elems s @ [n]"
    and remove_law: "valid s \<Longrightarrow> n \<in> set (elems s) \<Longrightarrow> valid (remove n s) \<and> elems (remove n s) = remove1 n (elems s)"
    and distinct_law: "valid s \<Longrightarrow> distinct (elems s)"
begin

lemma add_remove:
  assumes "valid s" "n \<notin> set (elems s)"
  shows "valid (remove n (add n s)) \<and> elems (remove n (add n s)) = elems s"
  using add_law [OF assms] remove_law [of "add n s" n] assms(2) by (simp add: remove1_append)

lemma add_all:
  assumes "valid s" "distinct ns" "set ns \<inter> set (elems s) = {}"
  shows "valid (fold add ns s) \<and> elems (fold add ns s) = elems s @ ns"
  using assms
proof (induction ns arbitrary: s)
  case (Cons n ns)
  from add_law [OF Cons.prems(1), of n] Cons.prems Cons.IH [of "add n s"] show ?case by auto
qed simp

lemma remove_all:
  assumes "valid s" "elems s = ns"
  shows "valid (fold remove ns s) \<and> elems (fold remove ns s) = []"
  using assms
proof (induction ns arbitrary: s)
  case (Cons n ns)
  from remove_law [OF Cons.prems(1), of n] Cons.prems Cons.IH [of "remove n s"] show ?case by auto
qed simp

end

definition nodes :: "ogs_list \<Rightarrow> nat list" where
  "nodes s = (case ogs_list_for_each (snd s) (ln_next (fst s)) of Some xs \<Rightarrow> xs | None \<Rightarrow> [])"

definition list_ok :: "ogs_list \<Rightarrow> bool" where
  "list_ok s \<longleftrightarrow> list_at s (nodes s)"

lemma for_each_list_at: "list_at s xs \<Longrightarrow> ogs_list_for_each (snd s) (ln_next (fst s)) = Some xs"
  using for_each_linked by (auto simp: list_at_def)

lemma list_at_nodes: "list_at s xs \<Longrightarrow> nodes s = xs \<and> list_ok s"
  by (simp add: nodes_def list_ok_def for_each_list_at)

interpretation lst: node_list ogs_list_add ogs_list_remove nodes list_ok
proof
  fix s n
  assume s: "list_ok s"
  then have l: "list_at s (nodes s)" by (simp add: list_ok_def)
  show "n \<notin> set (nodes s) \<Longrightarrow> list_ok (ogs_list_add n s) \<and> nodes (ogs_list_add n s) = nodes s @ [n]"
    using list_at_nodes [OF add_list_at [OF l]] by blast
  show "n \<in> set (nodes s) \<Longrightarrow> list_ok (ogs_list_remove n s) \<and> nodes (ogs_list_remove n s) = remove1 n (nodes s)"
    using list_at_nodes [OF remove_list_at [OF l]] by blast
  show "distinct (nodes s)" using l by (simp add: list_at_def)
qed

section \<open>Properties\<close>

text \<open>
  C31: A list behaves as the sequence of its nodes: adding and prepending put a new node at an end,
  insertion puts it where the order wants it, removal takes out the one node, counting and searching
  see each node once and in order, and every loop over the list ends.
\<close>

theorem list_refines_sequence:
  assumes "list_at s xs" "n \<notin> set xs"
  shows "list_at (ogs_list_add n s) (xs @ [n]) \<and> list_at (ogs_list_prepend n s) (n # xs) \<and>
    (\<exists>s'. list_insert_sorted compare n s = Some s' \<and> list_at s' (ogs_list_insert_sorted compare n xs)) \<and>
    (\<forall>m \<in> set xs. list_at (ogs_list_remove m s) (remove1 m xs) \<and>
       (\<exists>as bs. xs = as @ m # bs \<and> list_at (ogs_list_insert_prev m n s) (as @ n # m # bs) \<and>
          list_at (ogs_list_insert_next m n s) (as @ m # n # bs))) \<and>
    ogs_list_for_each (snd s) (ln_next (fst s)) = Some xs \<and> ogs_list_count s = Some (length xs) \<and>
    ogs_list_exists m s = Some (m \<in> set xs)"
proof -
  have "\<exists>as bs. xs = as @ m # bs \<and> list_at (ogs_list_insert_prev m n s) (as @ n # m # bs) \<and>
      list_at (ogs_list_insert_next m n s) (as @ m # n # bs)" if "m \<in> set xs" for m
    using that assms insert_prev_list_at insert_next_list_at by (metis split_list)
  moreover have "ogs_list_exists m s = Some (m \<in> set xs)"
    by (simp add: ogs_list_exists_def find_list_at [OF assms(1)] find_None_iff del: not_None_eq)
  moreover note insert_sorted_list_at [OF assms, of compare]
  ultimately show ?thesis using assms
    by (simp add: add_list_at prepend_list_at remove_list_at for_each_list_at ogs_list_count_def del: split_paired_Ex)
qed

theorem list_refines_sequence_witness:
  "list_at (ogs_list_add 2 (ogs_list_add 5 (ogs_list_init (null_links, \<lambda>_. null_links)))) [5, 2] \<and>
   ogs_list_count (ogs_list_init (null_links, \<lambda>_. null_links)) = Some 0"
  using list_refines_sequence [OF list_at_init, where n = 5 and s1 = "(null_links, \<lambda>_. null_links)"]
    add_list_at [of "ogs_list_add 5 (ogs_list_init (null_links, \<lambda>_. null_links))" "[5]" 2] by auto

text \<open>
  The removal of a node that is in no list is not harmless: with links that are null it empties the
  list it is told to remove the node from.
\<close>

lemma remove_unlisted_empties:
  assumes "snd s n = null_links"
  shows "list_at (ogs_list_remove n s) []"
  using assms by (cases s) (simp add: list_at_def ogs_list_remove_def link_defs null_links_def)

end
