(* ===== verification/Ogs_Rbtree.thy ===== *)
theory Ogs_Rbtree
  imports Prelude
begin

text \<open>
  The red-black trees of \<^verbatim>\<open>lib/core/ogs-rbtree.c\<close>. The nodes of the code have a parent
  pointer, and its loops climb along it: a pointer to a node is modelled by the subtree at the
  node and the path from it to the root, a list of frames whose head is the parent. A null
  pointer is a \<open>Leaf\<close> on its path, which is the link that would hold it. The colour of a node
  stays with the node when the tree is rotated, as in the code.
\<close>

section \<open>State\<close>

datatype rb_color = Black | Red

datatype 'a rbtree = Leaf | Nd (rcolor: rb_color) (rleft: "'a rbtree") 'a (rright: "'a rbtree")
  where "rcolor Leaf = Black" | "rleft Leaf = Leaf" | "rright Leaf = Leaf"

text \<open>
  \<open>LeftOf c p s\<close>: the node is the left child of \<open>p\<close>, whose colour is \<open>c\<close> and whose right
  subtree is \<open>s\<close>.
\<close>

datatype 'a frame = LeftOf (fcolor: rb_color) 'a "'a rbtree" | RightOf (fcolor: rb_color) "'a rbtree" 'a

type_synonym 'a path = "'a frame list"

fun attach :: "'a rbtree \<Rightarrow> 'a frame \<Rightarrow> 'a rbtree" where
  "attach t (LeftOf c p s) = Nd c t p s"
| "attach t (RightOf c s p) = Nd c s p t"

definition plug :: "'a rbtree \<Rightarrow> 'a path \<Rightarrow> 'a rbtree" where
  "plug t fs = foldl attach t fs"

fun paint :: "rb_color \<Rightarrow> 'a rbtree \<Rightarrow> 'a rbtree" where
  "paint c Leaf = Leaf"
| "paint c (Nd c' l x r) = Nd c l x r"

definition rb_is_black :: "'a rbtree \<Rightarrow> bool" where
  "rb_is_black t \<longleftrightarrow> t = Leaf \<or> rcolor t = Black"

section \<open>Operations\<close>

text \<open>The rotations at a node, as a function on the subtree of the node.\<close>

fun rb_rotate_left :: "'a rbtree \<Rightarrow> 'a rbtree" where
  "rb_rotate_left (Nd c a x (Nd c' b y d)) = Nd c' (Nd c a x b) y d"
| "rb_rotate_left t = t"

fun rb_rotate_right :: "'a rbtree \<Rightarrow> 'a rbtree" where
  "rb_rotate_right (Nd c (Nd c' a x b) y d) = Nd c' a x (Nd c b y d)"
| "rb_rotate_right t = t"

definition ogs_rbtree_link_node :: "'a \<Rightarrow> 'a rbtree" where
  "ogs_rbtree_link_node x = Nd Red Leaf x Leaf"

text \<open>
  The loop of \<^verbatim>\<open>ogs_rbtree_insert_color\<close>: the arguments are the node and its path. A red
  parent without a parent of its own trips the assertion. The result is the whole tree.
\<close>

fun insert_color_loop :: "'a rbtree \<Rightarrow> 'a path \<Rightarrow> 'a rbtree exec" where
  "insert_color_loop n [] = Ret n"
| "insert_color_loop n [p] = (if fcolor p = Red then Abort else Ret (plug n [p]))"
| "insert_color_loop n (p # LeftOf gc g u # fs) =
     (if fcolor p = Red
      then (if u \<noteq> Leaf \<and> rcolor u = Red
            then insert_color_loop (Nd Red (paint Black (attach n p)) g (paint Black u)) fs
            else (let parent = (case p of RightOf _ _ _ \<Rightarrow> rb_rotate_left (attach n p)
                                | LeftOf _ _ _ \<Rightarrow> attach n p)
                  in Ret (plug (rb_rotate_right (Nd Red (paint Black parent) g u)) fs)))
      else Ret (plug n (p # LeftOf gc g u # fs)))"
| "insert_color_loop n (p # RightOf gc u g # fs) =
     (if fcolor p = Red
      then (if u \<noteq> Leaf \<and> rcolor u = Red
            then insert_color_loop (Nd Red (paint Black u) g (paint Black (attach n p))) fs
            else (let parent = (case p of LeftOf _ _ _ \<Rightarrow> rb_rotate_right (attach n p)
                                | RightOf _ _ _ \<Rightarrow> attach n p)
                  in Ret (plug (rb_rotate_left (Nd Red u g (paint Black parent))) fs)))
      else Ret (plug n (p # RightOf gc u g # fs)))"

definition ogs_rbtree_insert_color :: "'a rbtree \<Rightarrow> 'a path \<Rightarrow> 'a rbtree exec" where
  "ogs_rbtree_insert_color n fs = exec_bind (insert_color_loop n fs) (\<lambda>root. Ret (paint Black root))"

text \<open>
  \<^verbatim>\<open>rb_delete_color\<close>: cases 2 to 4 of the code at a parent of colour \<open>c\<close> with a sibling
  that is not red, which the two sides of the loop share up to the direction. Case 2 goes on
  with the parent; the others leave the loop with \<^verbatim>\<open>node = tree->root\<close>. A null sibling, or a
  null child of it that the code dereferences, ends the run.
\<close>

datatype 'a fixup = Crash | Climb "'a rbtree" | Finish "'a rbtree"

fun case4_left :: "'a rbtree \<Rightarrow> rb_color \<Rightarrow> 'a \<Rightarrow> 'a rbtree \<Rightarrow> 'a fixup" where
  "case4_left n c p (Nd _ sl s (Nd _ a x b)) =
     Finish (rb_rotate_left (Nd Black n p (Nd c sl s (Nd Black a x b))))"
| "case4_left n c p _ = Crash"

fun delete_left_cases :: "'a rbtree \<Rightarrow> rb_color \<Rightarrow> 'a \<Rightarrow> 'a rbtree \<Rightarrow> 'a fixup" where
  "delete_left_cases n c p Leaf = Crash"
| "delete_left_cases n c p (Nd sc sl s sr) =
     (if rb_is_black sl \<and> rb_is_black sr then Climb (Nd c n p (Nd Red sl s sr))
      else case4_left n c p
             (if rb_is_black sr then rb_rotate_right (Nd Red (paint Black sl) s sr)
              else Nd sc sl s sr))"

fun case4_right :: "'a rbtree \<Rightarrow> rb_color \<Rightarrow> 'a \<Rightarrow> 'a rbtree \<Rightarrow> 'a fixup" where
  "case4_right n c p (Nd _ (Nd _ a x b) s sr) =
     Finish (rb_rotate_right (Nd Black (Nd c (Nd Black a x b) s sr) p n))"
| "case4_right n c p _ = Crash"

fun delete_right_cases :: "'a rbtree \<Rightarrow> rb_color \<Rightarrow> 'a \<Rightarrow> 'a rbtree \<Rightarrow> 'a fixup" where
  "delete_right_cases n c p Leaf = Crash"
| "delete_right_cases n c p (Nd sc sl s sr) =
     (if rb_is_black sl \<and> rb_is_black sr then Climb (Nd c (Nd Red sl s sr) p n)
      else case4_right n c p
             (if rb_is_black sl then rb_rotate_left (Nd Red sl s (paint Black sr))
              else Nd sc sl s sr))"

text \<open>
  Case 1, a red sibling, first rotates at the parent: the parent becomes red and the old
  sibling one more frame of the path. The loop ends at the root or at a red node, and the node
  it ends at is painted black.
\<close>

fun case1_left :: "rb_color \<Rightarrow> 'a rbtree \<Rightarrow> 'a path \<Rightarrow> rb_color \<times> 'a rbtree \<times> 'a path" where
  "case1_left c (Nd Red sl s sr) fs = (Red, sl, LeftOf Black s sr # fs)"
| "case1_left c s fs = (c, s, fs)"

fun case1_right :: "rb_color \<Rightarrow> 'a rbtree \<Rightarrow> 'a path \<Rightarrow> rb_color \<times> 'a rbtree \<times> 'a path" where
  "case1_right c (Nd Red sl s sr) fs = (Red, sr, RightOf Black sl s # fs)"
| "case1_right c s fs = (c, s, fs)"

lemma climb_left: "delete_left_cases n c p s = Climb t \<Longrightarrow> rcolor t = c \<and> t \<noteq> Leaf"
  by (cases "(n, c, p, s)" rule: delete_left_cases.cases)
     (auto split: if_splits elim: case4_left.elims)

lemma climb_right: "delete_right_cases n c p s = Climb t \<Longrightarrow> rcolor t = c \<and> t \<noteq> Leaf"
  by (cases "(n, c, p, s)" rule: delete_right_cases.cases)
     (auto split: if_splits elim: case4_right.elims)

function delete_color_loop :: "'a rbtree \<Rightarrow> 'a path \<Rightarrow> 'a rbtree exec" where
  "delete_color_loop n [] = Ret (paint Black n)"
| "delete_color_loop n (LeftOf c p s # fs) =
     (if \<not> rb_is_black n then Ret (plug (paint Black n) (LeftOf c p s # fs))
      else let (c', s', fs') = case1_left c s fs
           in case delete_left_cases n c' p s' of
                Crash \<Rightarrow> Abort
              | Climb t \<Rightarrow> delete_color_loop t fs'
              | Finish t \<Rightarrow> Ret (paint Black (plug t fs')))"
| "delete_color_loop n (RightOf c s p # fs) =
     (if \<not> rb_is_black n then Ret (plug (paint Black n) (RightOf c s p # fs))
      else let (c', s', fs') = case1_right c s fs
           in case delete_right_cases n c' p s' of
                Crash \<Rightarrow> Abort
              | Climb t \<Rightarrow> delete_color_loop t fs'
              | Finish t \<Rightarrow> Ret (paint Black (plug t fs')))"
  by pat_completeness auto
termination
proof (relation "measure (\<lambda>(n, fs). 2 * length fs + (if rb_is_black n then 1 else 0))")
  fix n :: "'a rbtree" and c p s fs r c' q s' fs' t
  assume a: "\<not> \<not> rb_is_black n" "r = case1_left c s fs" "(c', q) = r" "(s', fs') = q"
    "delete_left_cases n c' p s' = Climb t"
  then show "((t, fs'), n, LeftOf c p s # fs)
      \<in> measure (\<lambda>(n, fs). 2 * length fs + (if rb_is_black n then 1 else 0))"
    using climb_left [OF a(5)]
    by (cases "(c, s, fs)" rule: case1_left.cases) (auto simp: rb_is_black_def)
next
  fix n :: "'a rbtree" and c p s fs r c' q s' fs' t
  assume a: "\<not> \<not> rb_is_black n" "r = case1_right c s fs" "(c', q) = r" "(s', fs') = q"
    "delete_right_cases n c' p s' = Climb t"
  then show "((t, fs'), n, RightOf c s p # fs)
      \<in> measure (\<lambda>(n, fs). 2 * length fs + (if rb_is_black n then 1 else 0))"
    using climb_right [OF a(5)]
    by (cases "(c, s, fs)" rule: case1_right.cases) (auto simp: rb_is_black_def)
qed simp

text \<open>\<^verbatim>\<open>ogs_rbtree_min\<close> of a subtree that is not null, as a path down to the node.\<close>

fun ogs_rbtree_min :: "'a rbtree \<Rightarrow> 'a path \<Rightarrow> 'a rbtree \<times> 'a path" where
  "ogs_rbtree_min (Nd c (Nd c' a y b) x r) fs = ogs_rbtree_min (Nd c' a y b) (LeftOf c x r # fs)"
| "ogs_rbtree_min t fs = (t, fs)"

fun ogs_rbtree_max :: "'a rbtree \<Rightarrow> 'a path \<Rightarrow> 'a rbtree \<times> 'a path" where
  "ogs_rbtree_max (Nd c l x (Nd c' a y b)) fs = ogs_rbtree_max (Nd c' a y b) (RightOf c l x # fs)"
| "ogs_rbtree_max t fs = (t, fs)"

text \<open>
  \<^verbatim>\<open>ogs_rbtree_delete\<close> of the node at a path: a node with two children is replaced by its
  successor, which takes over its colour, and the fix-up starts where the successor was.
\<close>

fun ogs_rbtree_delete :: "'a rbtree \<Rightarrow> 'a path \<Rightarrow> 'a rbtree exec" where
  "ogs_rbtree_delete Leaf fs = Abort"
| "ogs_rbtree_delete (Nd c Leaf x r) fs =
     (if c = Black then delete_color_loop r fs else Ret (plug r fs))"
| "ogs_rbtree_delete (Nd c l x Leaf) fs =
     (if c = Black then delete_color_loop l fs else Ret (plug l fs))"
| "ogs_rbtree_delete (Nd c l x r) fs =
     (case ogs_rbtree_min r [] of
        (Nd nc _ y child, down) \<Rightarrow>
          (if nc = Black then delete_color_loop child (down @ RightOf c l y # fs)
           else Ret (plug child (down @ RightOf c l y # fs)))
      | (Leaf, down) \<Rightarrow> Abort)"

definition ogs_rbtree_first :: "'a rbtree \<Rightarrow> ('a rbtree \<times> 'a path) option" where
  "ogs_rbtree_first root = (if root = Leaf then None else Some (ogs_rbtree_min root []))"

definition ogs_rbtree_last :: "'a rbtree \<Rightarrow> ('a rbtree \<times> 'a path) option" where
  "ogs_rbtree_last root = (if root = Leaf then None else Some (ogs_rbtree_max root []))"

fun climb_right_links :: "'a rbtree \<Rightarrow> 'a path \<Rightarrow> ('a rbtree \<times> 'a path) option" where
  "climb_right_links t [] = None"
| "climb_right_links t (LeftOf c p s # fs) = Some (Nd c t p s, fs)"
| "climb_right_links t (RightOf c s p # fs) = climb_right_links (Nd c s p t) fs"

definition ogs_rbtree_next :: "'a rbtree \<times> 'a path \<Rightarrow> ('a rbtree \<times> 'a path) option" where
  "ogs_rbtree_next = (\<lambda>(t, fs). case t of
     Nd c l x r \<Rightarrow> (if r \<noteq> Leaf then Some (ogs_rbtree_min r (RightOf c l x # fs))
                   else climb_right_links t fs)
   | Leaf \<Rightarrow> None)"

fun climb_left_links :: "'a rbtree \<Rightarrow> 'a path \<Rightarrow> ('a rbtree \<times> 'a path) option" where
  "climb_left_links t [] = None"
| "climb_left_links t (RightOf c s p # fs) = Some (Nd c s p t, fs)"
| "climb_left_links t (LeftOf c p s # fs) = climb_left_links (Nd c t p s) fs"

definition ogs_rbtree_prev :: "'a rbtree \<times> 'a path \<Rightarrow> ('a rbtree \<times> 'a path) option" where
  "ogs_rbtree_prev = (\<lambda>(t, fs). case t of
     Nd c l x r \<Rightarrow> (if l \<noteq> Leaf then Some (ogs_rbtree_max l (LeftOf c x r # fs))
                   else climb_left_links t fs)
   | Leaf \<Rightarrow> None)"

section \<open>In-order contents\<close>

fun inorder :: "'a rbtree \<Rightarrow> 'a list" where
  "inorder Leaf = []"
| "inorder (Nd c l x r) = inorder l @ x # inorder r"

fun before :: "'a path \<Rightarrow> 'a list" where
  "before [] = []"
| "before (LeftOf c p s # fs) = before fs"
| "before (RightOf c s p # fs) = before fs @ inorder s @ [p]"

fun after :: "'a path \<Rightarrow> 'a list" where
  "after [] = []"
| "after (LeftOf c p s # fs) = p # inorder s @ after fs"
| "after (RightOf c s p # fs) = after fs"

lemma plug_simps [simp]:
  "plug t [] = t" "plug t (f # fs) = plug (attach t f) fs" "plug t (fs @ gs) = plug (plug t fs) gs"
  by (simp_all add: plug_def)

lemma inorder_plug [simp]: "inorder (plug t fs) = before fs @ inorder t @ after fs"
proof (induction fs arbitrary: t)
  case (Cons f fs)
  then show ?case by (cases f) simp_all
qed simp

lemma inorder_paint [simp]: "inorder (paint c t) = inorder t"
  by (cases t) auto

lemma inorder_rotate [simp]:
  "inorder (rb_rotate_left t) = inorder t" "inorder (rb_rotate_right t) = inorder t"
  by (cases t rule: rb_rotate_left.cases; simp) (cases t rule: rb_rotate_right.cases; simp)

lemma before_after_append [simp]:
  "before (fs @ gs) = before gs @ before fs" "after (fs @ gs) = after fs @ after gs"
  by (induction fs rule: before.induct) auto

lemma inorder_insert_color_loop:
  "insert_color_loop n fs = Ret t \<Longrightarrow> inorder t = inorder (plug n fs)"
  by (induction n fs rule: insert_color_loop.induct)
     (auto simp: Let_def split: if_splits frame.splits)

lemma inorder_case4:
  "case4_left n c p s = Finish t \<Longrightarrow> inorder t = inorder n @ p # inorder s"
  "case4_right n c p s = Finish t \<Longrightarrow> inorder t = inorder s @ p # inorder n"
  by (auto elim!: case4_left.elims case4_right.elims)

lemma inorder_left_cases:
  "delete_left_cases n c p s = Climb t \<Longrightarrow> inorder t = inorder n @ p # inorder s"
  "delete_left_cases n c p s = Finish t \<Longrightarrow> inorder t = inorder n @ p # inorder s"
  by (cases s; auto split: if_splits dest!: inorder_case4 elim: case4_left.elims)+

lemma inorder_right_cases:
  "delete_right_cases n c p s = Climb t \<Longrightarrow> inorder t = inorder s @ p # inorder n"
  "delete_right_cases n c p s = Finish t \<Longrightarrow> inorder t = inorder s @ p # inorder n"
  by (cases s; auto split: if_splits dest!: inorder_case4 elim: case4_right.elims)+

lemma inorder_case1:
  "case1_left c s fs = (c', s', fs') \<Longrightarrow>
     inorder (plug (Nd c' n p s') fs') = inorder (plug (Nd c n p s) fs)"
  "case1_right c s fs = (c', s', fs') \<Longrightarrow>
     inorder (plug (Nd c' s' p n) fs') = inorder (plug (Nd c s p n) fs)"
  by (cases "(c, s, fs)" rule: case1_left.cases; auto)
     (cases "(c, s, fs)" rule: case1_right.cases; auto)

lemma inorder_delete_color_loop:
  "delete_color_loop n fs = Ret t \<Longrightarrow> inorder t = inorder (plug n fs)"
proof (induction n fs arbitrary: t rule: delete_color_loop.induct)
  case (2 n c p s fs)
  obtain c' s' fs' where c1: "case1_left c s fs = (c', s', fs')"
    by (cases "case1_left c s fs") auto
  note io = inorder_case1(1) [OF c1, of n p]
  show ?case
  proof (cases "delete_left_cases n c' p s'")
    case Crash
    with 2 c1 show ?thesis by (auto split: if_splits)
  next
    case (Climb u)
    show ?thesis
    proof (cases "rb_is_black n")
      case True
      with 2 c1 Climb have "inorder t = inorder (plug u fs')" by (auto split: if_splits)
      with inorder_left_cases(1) [OF Climb] io show ?thesis by simp
    qed (use 2 in auto)
  next
    case (Finish u)
    with 2 c1 inorder_left_cases(2) [OF Finish] io show ?thesis by (auto split: if_splits)
  qed
next
  case (3 n c s p fs)
  obtain c' s' fs' where c1: "case1_right c s fs = (c', s', fs')"
    by (cases "case1_right c s fs") auto
  note io = inorder_case1(2) [OF c1, of p n]
  show ?case
  proof (cases "delete_right_cases n c' p s'")
    case Crash
    with 3 c1 show ?thesis by (auto split: if_splits)
  next
    case (Climb u)
    show ?thesis
    proof (cases "rb_is_black n")
      case True
      with 3 c1 Climb have "inorder t = inorder (plug u fs')" by (auto split: if_splits)
      with inorder_right_cases(1) [OF Climb] io show ?thesis by simp
    qed (use 3 in auto)
  next
    case (Finish u)
    with 3 c1 inorder_right_cases(2) [OF Finish] io show ?thesis by (auto split: if_splits)
  qed
qed auto

section \<open>Balance\<close>

text \<open>
  \<open>rb t n\<close>: no red node of \<open>t\<close> has a red child and every path down has \<open>n\<close> black nodes.
  \<open>hole fs n\<close>: the path fits around such a subtree.
\<close>

fun rb :: "'a rbtree \<Rightarrow> nat \<Rightarrow> bool" where
  "rb Leaf n \<longleftrightarrow> n = 0"
| "rb (Nd Black l x r) n \<longleftrightarrow> n > 0 \<and> rb l (n - 1) \<and> rb r (n - 1)"
| "rb (Nd Red l x r) n \<longleftrightarrow> rb l n \<and> rb r n \<and> rcolor l = Black \<and> rcolor r = Black"

definition red_parent :: "'a path \<Rightarrow> bool" where
  "red_parent fs \<longleftrightarrow> fs \<noteq> [] \<and> fcolor (hd fs) = Red"

fun sib :: "'a frame \<Rightarrow> 'a rbtree" where
  "sib (LeftOf c p s) = s"
| "sib (RightOf c s p) = s"

fun hole :: "'a path \<Rightarrow> nat \<Rightarrow> bool" where
  "hole [] n \<longleftrightarrow> True"
| "hole (f # fs) n \<longleftrightarrow> rb (sib f) n \<and>
     (if fcolor f = Red then rcolor (sib f) = Black \<and> fs \<noteq> [] \<and> \<not> red_parent fs \<and> hole fs n
      else hole fs (Suc n))"

definition rb_tree :: "'a rbtree \<Rightarrow> bool" where
  "rb_tree t \<longleftrightarrow> (\<exists>n. rb t n) \<and> rcolor t = Black"

lemma red_parent_simps [simp]: "\<not> red_parent []" "red_parent (f # fs) \<longleftrightarrow> fcolor f = Red"
  by (simp_all add: red_parent_def)

lemma rb_is_black_color [simp]: "rb_is_black t \<longleftrightarrow> rcolor t = Black"
  by (cases t) (auto simp: rb_is_black_def)

lemma not_Black [simp]: "c \<noteq> Black \<longleftrightarrow> c = Red" "c \<noteq> Red \<longleftrightarrow> c = Black"
  by (cases c; simp)+

lemma rcolor_paint [simp]: "rcolor (paint Black t) = Black"
  by (cases t) auto

lemma rb_attach:
  assumes "hole (f # fs) n" "rb t n" "rcolor t = Red \<longrightarrow> fcolor f = Black"
  shows "\<exists>m. rb (attach t f) m \<and> hole fs m \<and> (rcolor (attach t f) = Red \<longrightarrow> \<not> red_parent fs \<and> fs \<noteq> [])"
  using assms by (cases f; cases "fcolor f"; cases "rcolor t") auto

lemma rb_plug:
  "hole fs n \<Longrightarrow> rb t n \<Longrightarrow> rcolor t = Red \<longrightarrow> \<not> red_parent fs \<Longrightarrow>
     (\<exists>m. rb (plug t fs) m) \<and> (rcolor (plug t fs) = Red \<longrightarrow> fs = [] \<and> rcolor t = Red)"
proof (induction fs arbitrary: t n)
  case (Cons f fs)
  then obtain m where m: "rb (attach t f) m" "hole fs m"
    "rcolor (attach t f) = Red \<longrightarrow> \<not> red_parent fs \<and> fs \<noteq> []"
    using rb_attach [OF Cons.prems(1,2)] by auto
  then show ?case using Cons.IH [OF m(2,1)] by auto
qed auto

lemma rb_paint_Black: "rb t n \<Longrightarrow> rb (paint Black t) (if rcolor t = Red then Suc n else n)"
  by (cases "(t, n)" rule: rb.cases) auto

lemma rb_tree_paint: "rb t n \<Longrightarrow> rb_tree (paint Black t)"
  using rb_paint_Black by (fastforce simp: rb_tree_def)

lemma rb_tree_plug:
  "hole fs n \<Longrightarrow> rb t n \<Longrightarrow> rcolor t = Red \<longrightarrow> \<not> red_parent fs \<Longrightarrow> rb_tree (paint Black (plug t fs))"
  using rb_plug rb_tree_paint by blast

subsection \<open>Insertion\<close>

lemma insert_color_loop_rb:
  assumes "rb n h" "rcolor n = Red" "hole fs h"
  shows "\<exists>t m. insert_color_loop n fs = Ret t \<and> rb t m"
  using assms
proof (induction n fs arbitrary: h rule: insert_color_loop.induct)
  case (1 n)
  then show ?case by auto
next
  case (2 n p)
  then have b: "fcolor p = Black" by (auto split: if_splits)
  from rb_plug [OF 2(3,1)] b show ?case by (auto simp del: plug_simps)
next
  case (3 n p gc g u fs)
  show ?case
  proof (cases "fcolor p = Red")
    case False
    with rb_plug [OF 3(4,2)] show ?thesis by (auto simp del: plug_simps)
  next
    case R: True
    with 3 have F: "rb (sib p) h" "rcolor (sib p) = Black" "gc = Black" "rb u h" "hole fs (Suc h)"
      by (auto simp: red_parent_def)
    show ?thesis
    proof (cases "u \<noteq> Leaf \<and> rcolor u = Red")
      case True
      have "rb (paint Black (attach n p)) (Suc h)" using F 3 R by (cases p) auto
      moreover have "rb (paint Black u) (Suc h)" using rb_paint_Black [OF F(4)] True by simp
      ultimately show ?thesis using 3(1) [OF R True, of "Suc h"] F R True by auto
    next
      case False
      then have u: "rcolor u = Black" by (cases u) auto
      define q where "q = (case p of RightOf _ _ _ \<Rightarrow> rb_rotate_left (attach n p) | LeftOf _ _ _ \<Rightarrow> attach n p)"
      have "\<exists>a x b. q = Nd Red a x b \<and> rb a h \<and> rb b h \<and> rcolor b = Black \<and> (a = n \<or> rcolor a = Red)"
      proof (cases p)
        case (LeftOf c p' s)
        then show ?thesis using F R 3 by (auto simp: q_def)
      next
        case (RightOf c s p')
        moreover obtain nl nx nr where "n = Nd Red nl nx nr" using 3 by (cases n) auto
        ultimately show ?thesis using F R 3 by (auto simp: q_def)
      qed
      then obtain a x b where q: "q = Nd Red a x b" "rb a h" "rb b h" "rcolor b = Black" by blast
      have "rb (rb_rotate_right (Nd Red (paint Black q) g u)) (Suc h)"
        "rcolor (rb_rotate_right (Nd Red (paint Black q) g u)) = Black"
        using q F u by simp_all
      from rb_plug [OF F(5) this(1)] this(2) show ?thesis
        using R False by (auto simp: q_def [symmetric])
    qed
  qed
next
  case (4 n p gc u g fs)
  show ?case
  proof (cases "fcolor p = Red")
    case False
    with rb_plug [OF 4(4,2)] show ?thesis by (auto simp del: plug_simps)
  next
    case R: True
    with 4 have F: "rb (sib p) h" "rcolor (sib p) = Black" "gc = Black" "rb u h" "hole fs (Suc h)"
      by (auto simp: red_parent_def)
    show ?thesis
    proof (cases "u \<noteq> Leaf \<and> rcolor u = Red")
      case True
      have "rb (paint Black (attach n p)) (Suc h)" using F 4 R by (cases p) auto
      moreover have "rb (paint Black u) (Suc h)" using rb_paint_Black [OF F(4)] True by simp
      ultimately show ?thesis using 4(1) [OF R True, of "Suc h"] F R True by auto
    next
      case False
      then have u: "rcolor u = Black" by (cases u) auto
      define q where "q = (case p of LeftOf _ _ _ \<Rightarrow> rb_rotate_right (attach n p) | RightOf _ _ _ \<Rightarrow> attach n p)"
      have "\<exists>a x b. q = Nd Red a x b \<and> rb a h \<and> rb b h \<and> rcolor a = Black"
      proof (cases p)
        case (RightOf c s p')
        then show ?thesis using F R 4 by (auto simp: q_def)
      next
        case (LeftOf c p' s)
        moreover obtain nl nx nr where "n = Nd Red nl nx nr" using 4 by (cases n) auto
        ultimately show ?thesis using F R 4 by (auto simp: q_def)
      qed
      then obtain a x b where q: "q = Nd Red a x b" "rb a h" "rb b h" "rcolor a = Black" by blast
      have "rb (rb_rotate_left (Nd Red u g (paint Black q))) (Suc h)"
        "rcolor (rb_rotate_left (Nd Red u g (paint Black q))) = Black"
        using q F u by simp_all
      from rb_plug [OF F(5) this(1)] this(2) show ?thesis
        using R False by (auto simp: q_def [symmetric])
    qed
  qed
qed

lemma insert_color_rb:
  assumes "rb n h" "rcolor n = Red" "hole fs h"
  shows "\<exists>t. ogs_rbtree_insert_color n fs = Ret t \<and> rb_tree t \<and> inorder t = before fs @ inorder n @ after fs"
  using insert_color_loop_rb [OF assms] inorder_insert_color_loop [of n fs] rb_tree_paint
  by (fastforce simp: ogs_rbtree_insert_color_def)

subsection \<open>Deletion\<close>

definition above_ok :: "rb_color \<Rightarrow> 'a path \<Rightarrow> nat \<Rightarrow> bool" where
  "above_ok c fs h \<longleftrightarrow> (if c = Red then fs \<noteq> [] \<and> \<not> red_parent fs \<and> hole fs (Suc h)
     else hole fs (Suc (Suc h)))"

lemma case1_left_ok:
  assumes "hole (LeftOf c p s # fs) (Suc h)" "case1_left c s fs = (c', s', fs')"
  shows "rb s' (Suc h) \<and> rcolor s' = Black \<and> s' \<noteq> Leaf \<and> above_ok c' fs' h"
  using assms
  by (cases "(c, s, fs)" rule: case1_left.cases; cases s) (auto simp: above_ok_def split: if_splits)

lemma case1_right_ok:
  assumes "hole (RightOf c s p # fs) (Suc h)" "case1_right c s fs = (c', s', fs')"
  shows "rb s' (Suc h) \<and> rcolor s' = Black \<and> s' \<noteq> Leaf \<and> above_ok c' fs' h"
  using assms
  by (cases "(c, s, fs)" rule: case1_right.cases; cases s) (auto simp: above_ok_def split: if_splits)

definition fix_ok :: "'a fixup \<Rightarrow> rb_color \<Rightarrow> nat \<Rightarrow> bool" where
  "fix_ok x c h \<longleftrightarrow> (case x of Crash \<Rightarrow> False
     | Climb t \<Rightarrow> rcolor t = c \<and> rb (paint Black t) (Suc h)
     | Finish t \<Rightarrow> rcolor t = c \<and> rb t (if c = Red then Suc h else Suc (Suc h)))"

lemma left_cases_ok:
  assumes "rb n h" "rcolor n = Black" "rb s (Suc h)" "rcolor s = Black" "s \<noteq> Leaf"
  shows "fix_ok (delete_left_cases n c p s) c h"
proof -
  obtain sl x sr where s: "s = Nd Black sl x sr" using assms(4,5) by (cases s) auto
  show ?thesis
  proof (cases "rcolor sl = Black \<and> rcolor sr = Black")
    case True
    with assms s show ?thesis by (cases c) (auto simp: fix_ok_def)
  next
    case F: False
    show ?thesis
    proof (cases "rcolor sr = Black")
      case True
      with F obtain a y b where "sl = Nd Red a y b" by (cases sl) auto
      with assms s True show ?thesis by (cases c) (auto simp: fix_ok_def)
    next
      case False
      then obtain a y b where "sr = Nd Red a y b" by (cases sr) auto
      with assms s show ?thesis by (cases c) (auto simp: fix_ok_def)
    qed
  qed
qed

lemma right_cases_ok:
  assumes "rb n h" "rcolor n = Black" "rb s (Suc h)" "rcolor s = Black" "s \<noteq> Leaf"
  shows "fix_ok (delete_right_cases n c p s) c h"
proof -
  obtain sl x sr where s: "s = Nd Black sl x sr" using assms(4,5) by (cases s) auto
  show ?thesis
  proof (cases "rcolor sl = Black \<and> rcolor sr = Black")
    case True
    with assms s show ?thesis by (cases c) (auto simp: fix_ok_def)
  next
    case F: False
    show ?thesis
    proof (cases "rcolor sl = Black")
      case True
      with F obtain a y b where "sr = Nd Red a y b" by (cases sr) auto
      with assms s True show ?thesis by (cases c) (auto simp: fix_ok_def)
    next
      case False
      then obtain a y b where "sl = Nd Red a y b" by (cases sl) auto
      with assms s show ?thesis by (cases c) (auto simp: fix_ok_def)
    qed
  qed
qed

text \<open>The node lacks one black node, or is red and about to be painted black.\<close>

definition short :: "'a rbtree \<Rightarrow> nat \<Rightarrow> bool" where
  "short n h \<longleftrightarrow> (if rcolor n = Black then rb n h else rb (paint Black n) (Suc h))"

lemma short_Climb:
  assumes "fix_ok (Climb t) c h" "above_ok c fs h"
  shows "\<exists>h'. short t h' \<and> hole fs (Suc h')"
proof (cases c)
  case Black
  with assms show ?thesis
    by (intro exI [of _ "Suc h"]) (cases t; auto simp: fix_ok_def short_def above_ok_def)
next
  case Red
  with assms show ?thesis
    by (intro exI [of _ h]) (auto simp: fix_ok_def short_def above_ok_def)
qed

lemma rb_tree_Finish:
  "fix_ok (Finish t) c h \<Longrightarrow> above_ok c fs h \<Longrightarrow> rb_tree (paint Black (plug t fs))"
  by (rule rb_tree_plug [of fs "if c = Red then Suc h else Suc (Suc h)"])
     (auto simp: fix_ok_def above_ok_def split: if_splits)

lemma short_red:
  assumes "short n h" "hole fs (Suc h)" "rcolor n = Red"
  shows "rb_tree (plug (paint Black n) fs)"
  using rb_plug [OF assms(2), of "paint Black n"] assms(1,3)
  by (auto simp: short_def rb_tree_def)

lemma delete_color_loop_rb:
  "short n h \<Longrightarrow> hole fs (Suc h) \<Longrightarrow> \<exists>t. delete_color_loop n fs = Ret t \<and> rb_tree t"
proof (induction n fs arbitrary: h rule: delete_color_loop.induct)
  case (1 n)
  then show ?case using rb_tree_paint [of n h] by (auto simp: short_def rb_tree_def split: if_splits)
next
  case (2 n c p s fs)
  show ?case
  proof (cases "rcolor n = Black")
    case False
    with short_red [OF 2(2,3)] show ?thesis by (auto simp del: plug_simps)
  next
    case B: True
    obtain c' s' fs' where c1: "case1_left c s fs = (c', s', fs')"
      by (cases "case1_left c s fs") auto
    note a = case1_left_ok [OF 2(3) c1]
    have f: "fix_ok (delete_left_cases n c' p s') c' h"
      using 2(2) B a by (intro left_cases_ok) (auto simp: short_def)
    show ?thesis
    proof (cases "delete_left_cases n c' p s'")
      case Crash
      with f show ?thesis by (simp add: fix_ok_def)
    next
      case (Climb t)
      then obtain h' where h': "short t h'" "hole fs' (Suc h')"
        using short_Climb f a by metis
      have "\<exists>u. delete_color_loop t fs' = Ret u \<and> rb_tree u"
        by (rule "2.IH" [OF _ c1 [symmetric] refl refl Climb h']) (simp add: B)
      with B c1 Climb show ?thesis by simp
    next
      case (Finish t)
      with rb_tree_Finish [of t c' h fs'] f a B c1 show ?thesis by simp
    qed
  qed
next
  case (3 n c s p fs)
  show ?case
  proof (cases "rcolor n = Black")
    case False
    with short_red [OF 3(2,3)] show ?thesis by (auto simp del: plug_simps)
  next
    case B: True
    obtain c' s' fs' where c1: "case1_right c s fs = (c', s', fs')"
      by (cases "case1_right c s fs") auto
    note a = case1_right_ok [OF 3(3) c1]
    have f: "fix_ok (delete_right_cases n c' p s') c' h"
      using 3(2) B a by (intro right_cases_ok) (auto simp: short_def)
    show ?thesis
    proof (cases "delete_right_cases n c' p s'")
      case Crash
      with f show ?thesis by (simp add: fix_ok_def)
    next
      case (Climb t)
      then obtain h' where h': "short t h'" "hole fs' (Suc h')"
        using short_Climb f a by metis
      have "\<exists>u. delete_color_loop t fs' = Ret u \<and> rb_tree u"
        by (rule "3.IH" [OF _ c1 [symmetric] refl refl Climb h']) (simp add: B)
      with B c1 Climb show ?thesis by simp
    next
      case (Finish t)
      with rb_tree_Finish [of t c' h fs'] f a B c1 show ?thesis by simp
    qed
  qed
qed

text \<open>The minimum of a subtree, and the path down to it.\<close>

lemma min_props:
  assumes "ogs_rbtree_min t fs = (m, gs)" "t \<noteq> Leaf"
  shows "plug m gs = plug t fs \<and> (\<exists>c x r. m = Nd c Leaf x r) \<and> before gs = before fs"
  using assms by (induction t fs rule: ogs_rbtree_min.induct) auto

lemma max_props:
  assumes "ogs_rbtree_max t fs = (m, gs)" "t \<noteq> Leaf"
  shows "plug m gs = plug t fs \<and> (\<exists>c l x. m = Nd c l x Leaf) \<and> after gs = after fs"
  using assms by (induction t fs rule: ogs_rbtree_max.induct) auto

lemma min_append:
  "ogs_rbtree_min t (fs @ gs) = (let (m, hs) = ogs_rbtree_min t fs in (m, hs @ gs))"
proof (induction t fs rule: ogs_rbtree_min.induct)
  case (1 c c' a y b x r fs)
  then show ?case by simp
qed auto

lemma hole_of_plug:
  "rb (plug t fs) m \<Longrightarrow> rcolor (plug t fs) = Black \<Longrightarrow>
     \<exists>h. rb t h \<and> hole fs h \<and> (rcolor t = Red \<longrightarrow> fs \<noteq> [] \<and> \<not> red_parent fs)"
proof (induction fs arbitrary: t)
  case (Cons f fs)
  then obtain h where h: "rb (attach t f) h" "hole fs h" "rcolor (attach t f) = Red \<longrightarrow> fs \<noteq> [] \<and> \<not> red_parent fs"
    by (metis plug_simps(2))
  show ?case
  proof (cases "fcolor f")
    case Black
    with h show ?thesis by (cases f) (auto intro!: exI [of _ "h - 1"])
  next
    case Red
    with h show ?thesis by (cases f) (auto intro!: exI [of _ h])
  qed
qed auto

lemma remove_ok:
  assumes "rb t k" "if c = Black then hole fs (Suc k) else hole fs k \<and> rcolor t = Black"
  shows "\<exists>u. (if c = Black then delete_color_loop t fs else Ret (plug t fs)) = Ret u \<and> rb_tree u \<and>
    inorder u = before fs @ inorder t @ after fs"
proof (cases c)
  case Black
  moreover have "short t k"
    using assms(1) rb_paint_Black [OF assms(1)] by (auto simp: short_def split: if_splits)
  ultimately obtain u where "delete_color_loop t fs = Ret u" "rb_tree u"
    using assms(2) delete_color_loop_rb [of t k fs] by auto
  with Black inorder_delete_color_loop [of t fs u] show ?thesis by simp
next
  case Red
  with assms rb_plug [of fs k t] show ?thesis by (auto simp: rb_tree_def)
qed

lemma hole_elem: "hole (down @ RightOf c l y # fs) n = hole (down @ RightOf c l x # fs) n"
proof (induction down arbitrary: n)
  case (Cons f down)
  then show ?case by (cases down) auto
qed simp

text \<open>
  The fix-up never meets a null sibling: deleting a node of a red-black tree returns a
  red-black tree with the in-order sequence less that node.
\<close>

lemma rbtree_delete_ok:
  assumes "rb_tree (plug (Nd c l x r) fs)"
  shows "\<exists>u. ogs_rbtree_delete (Nd c l x r) fs = Ret u \<and> rb_tree u \<and>
    inorder u = before fs @ inorder l @ inorder r @ after fs"
proof -
  obtain h where h: "rb (Nd c l x r) h" "hole fs h"
    using assms hole_of_plug [of "Nd c l x r" fs] by (auto simp: rb_tree_def simp del: plug_simps)
  have one: "\<exists>k. rb t k \<and> (if c = Black then hole fs (Suc k) else hole fs k \<and> rcolor t = Black)"
    if "t = l \<or> t = r" for t
  proof (cases c)
    case Black
    with h that show ?thesis by (auto intro!: exI [of _ "h - 1"])
  next
    case Red
    with h that show ?thesis by (auto intro!: exI [of _ h])
  qed
  consider "l = Leaf" | "l \<noteq> Leaf" "r = Leaf" | "l \<noteq> Leaf" "r \<noteq> Leaf" by auto
  then show ?thesis
  proof cases
    case 1
    with one [of r] remove_ok [of r _ c fs] show ?thesis by fastforce
  next
    case 2
    then obtain lc ll lx lr where l: "l = Nd lc ll lx lr" by (cases l) auto
    from one [of l] remove_ok [of l _ c fs] 2(2) show ?thesis by (fastforce simp: l)
  next
    case 3
    obtain m down where m: "ogs_rbtree_min r [] = (m, down)" by (cases "ogs_rbtree_min r []") auto
    then obtain nc y ch where mn: "m = Nd nc Leaf y ch" "plug m down = r" "before down = []"
      using min_props [OF m 3(2)] by auto
    have "plug (Nd c l x r) fs = plug m (down @ RightOf c l x # fs)" using mn by simp
    with assms obtain k where k: "rb m k" "hole (down @ RightOf c l x # fs) k"
      using hole_of_plug [of m "down @ RightOf c l x # fs"]
      by (auto simp: rb_tree_def simp del: plug_simps)
    then have k': "hole (down @ RightOf c l y # fs) k" using hole_elem by metis
    have ch: "\<exists>k. rb ch k \<and> (if nc = Black then hole (down @ RightOf c l y # fs) (Suc k)
        else hole (down @ RightOf c l y # fs) k \<and> rcolor ch = Black)"
    proof (cases nc)
      case Black
      with k obtain j where "k = Suc j" by (cases k) (auto simp: mn)
      with Black k k' show ?thesis by (auto simp: mn intro!: exI [of _ j])
    next
      case Red
      with k k' show ?thesis by (auto simp: mn intro!: exI [of _ k])
    qed
    obtain u where u: "(if nc = Black then delete_color_loop ch (down @ RightOf c l y # fs)
        else Ret (plug ch (down @ RightOf c l y # fs))) = Ret u" "rb_tree u"
      "inorder u = before (down @ RightOf c l y # fs) @ inorder ch @ after (down @ RightOf c l y # fs)"
      using ch remove_ok [of ch _ nc "down @ RightOf c l y # fs"] by blast
    have "ogs_rbtree_delete (Nd c l x r) fs = (if nc = Black then delete_color_loop ch (down @ RightOf c l y # fs)
        else Ret (plug ch (down @ RightOf c l y # fs)))"
      using 3 m mn(1) by (cases l; cases r) (auto simp: m [simplified])
    moreover have "inorder r = y # inorder ch @ after down"
      using arg_cong [OF mn(2), of inorder] mn(3) by (simp add: mn)
    ultimately show ?thesis using u mn(3) by auto
  qed
qed

section \<open>Traversal\<close>

text \<open>The node of a location and what follows it in order.\<close>

definition node_elem :: "'a rbtree \<times> 'a path \<Rightarrow> 'a list" where
  "node_elem = (\<lambda>(t, fs). case t of Nd c l x r \<Rightarrow> [x] | Leaf \<Rightarrow> [])"

definition following :: "'a rbtree \<times> 'a path \<Rightarrow> 'a list" where
  "following = (\<lambda>(t, fs). inorder (rright t) @ after fs)"

fun from_loc :: "('a rbtree \<times> 'a path) option \<Rightarrow> 'a list" where
  "from_loc None = []"
| "from_loc (Some loc) = node_elem loc @ following loc"

lemma from_min: "t \<noteq> Leaf \<Longrightarrow> from_loc (Some (ogs_rbtree_min t fs)) = inorder t @ after fs"
  by (induction t fs rule: ogs_rbtree_min.induct) (auto simp: node_elem_def following_def)

lemma from_climb: "from_loc (climb_right_links t fs) = after fs"
  by (induction t fs rule: climb_right_links.induct) (auto simp: node_elem_def following_def)

lemma next_follows: "from_loc (ogs_rbtree_next loc) = (if fst loc = Leaf then [] else following loc)"
proof -
  obtain t fs where l: "loc = (t, fs)" by (cases loc)
  show ?thesis
  proof (cases t)
    case (Nd c a x b)
    with l show ?thesis
      using from_min [of b "RightOf c a x # fs"] from_climb [of t fs]
      by (auto simp: ogs_rbtree_next_def following_def simp del: from_loc.simps(2))
  qed (simp add: l ogs_rbtree_next_def)
qed

lemma first_all: "from_loc (ogs_rbtree_first t) = inorder t"
  using from_min [of t "[]"] by (auto simp: ogs_rbtree_first_def simp del: from_loc.simps(2))

lemma min_not_Leaf: "fst (ogs_rbtree_min t fs) = Leaf \<longleftrightarrow> t = Leaf"
  by (induction t fs rule: ogs_rbtree_min.induct) auto

lemma climb_not_Leaf: "climb_right_links t fs = Some loc \<Longrightarrow> fst loc \<noteq> Leaf"
  by (induction t fs rule: climb_right_links.induct) auto

lemma next_not_Leaf: "ogs_rbtree_next loc = Some loc' \<Longrightarrow> fst loc' \<noteq> Leaf"
  by (cases loc) (auto simp: ogs_rbtree_next_def min_not_Leaf split: rbtree.splits if_splits dest: climb_not_Leaf)

text \<open>The loop \<^verbatim>\<open>ogs_rbtree_for_each\<close>.\<close>

function for_each_from :: "('a rbtree \<times> 'a path) option \<Rightarrow> 'a list" where
  "for_each_from None = []"
| "for_each_from (Some loc) = node_elem loc @ for_each_from (ogs_rbtree_next loc)"
  by pat_completeness auto
termination
proof (relation "measure (\<lambda>lo. case lo of None \<Rightarrow> 0 | Some loc \<Rightarrow> Suc (length (from_loc (Some loc))))")
  fix loc :: "'a rbtree \<times> 'a path"
  show "(ogs_rbtree_next loc, Some loc)
      \<in> measure (\<lambda>lo. case lo of None \<Rightarrow> 0 | Some loc \<Rightarrow> Suc (length (from_loc (Some loc))))"
  proof (cases "ogs_rbtree_next loc")
    case (Some loc')
    have ne: "fst loc \<noteq> Leaf" using Some by (cases loc) (auto simp: ogs_rbtree_next_def)
    then have "length (node_elem loc) = 1" by (cases loc) (auto simp: node_elem_def split: rbtree.splits)
    with next_follows [of loc] Some ne show ?thesis by (simp del: from_loc.simps add: from_loc.simps(2) [of loc])
  qed simp
qed simp

lemma for_each_from_loc:
  "(\<forall>loc. lo = Some loc \<longrightarrow> fst loc \<noteq> Leaf) \<Longrightarrow> for_each_from lo = from_loc lo"
proof (induction lo rule: for_each_from.induct)
  case (2 loc)
  then have "for_each_from (ogs_rbtree_next loc) = from_loc (ogs_rbtree_next loc)"
    using next_not_Leaf by blast
  with 2 next_follows [of loc] show ?case by simp
qed simp

definition ogs_rbtree_for_each :: "'a rbtree \<Rightarrow> 'a list" where
  "ogs_rbtree_for_each root = for_each_from (ogs_rbtree_first root)"

lemma for_each_inorder: "ogs_rbtree_for_each t = inorder t"
proof -
  have "\<forall>loc. ogs_rbtree_first t = Some loc \<longrightarrow> fst loc \<noteq> Leaf"
    using min_not_Leaf [of t "[]"] by (auto simp: ogs_rbtree_first_def split: if_splits)
  then show ?thesis
    by (simp add: ogs_rbtree_for_each_def for_each_from_loc first_all)
qed

section \<open>Properties\<close>

text \<open>
  C38: The fix-up loops of the red-black tree never dereference a null sibling and never trip an
  assertion: linking and colouring a node at a free link, and deleting any node, return a
  balanced tree (black root, no red node with a red child, the same number of black nodes on
  every path) whose traversal is the old one with the node added at that place, or without it.
\<close>

theorem rbtree_update_correct:
  assumes "rb_tree (plug t fs)"
  shows "(t = Leaf \<longrightarrow> (\<exists>u. ogs_rbtree_insert_color (ogs_rbtree_link_node x) fs = Ret u \<and> rb_tree u \<and>
           ogs_rbtree_for_each u = before fs @ x # after fs)) \<and>
    (\<forall>c l y r. t = Nd c l y r \<longrightarrow> (\<exists>u. ogs_rbtree_delete t fs = Ret u \<and> rb_tree u \<and>
           ogs_rbtree_for_each u = before fs @ inorder l @ inorder r @ after fs))"
proof (intro conjI impI allI)
  assume t: "t = Leaf"
  with assms have "hole fs 0" using hole_of_plug [of Leaf fs] by (auto simp: rb_tree_def)
  from insert_color_rb [OF _ _ this, of "ogs_rbtree_link_node x"]
  show "\<exists>u. ogs_rbtree_insert_color (ogs_rbtree_link_node x) fs = Ret u \<and> rb_tree u \<and>
      ogs_rbtree_for_each u = before fs @ x # after fs"
    by (simp add: ogs_rbtree_link_node_def for_each_inorder)
next
  fix c l y r
  assume "t = Nd c l y r"
  with assms rbtree_delete_ok [of c l y r fs]
  show "\<exists>u. ogs_rbtree_delete t fs = Ret u \<and> rb_tree u \<and>
      ogs_rbtree_for_each u = before fs @ inorder l @ inorder r @ after fs"
    by (simp add: for_each_inorder)
qed

theorem rbtree_update_correct_witness:
  "\<exists>u. ogs_rbtree_insert_color (ogs_rbtree_link_node 5)
       [RightOf Red Leaf 4, RightOf Black (Nd Red Leaf (1 :: nat) Leaf) 3] = Ret u \<and>
     ogs_rbtree_for_each u = [1, 3, 4, 5]"
proof -
  have "rb_tree (plug Leaf [RightOf Red Leaf 4, RightOf Black (Nd Red Leaf (1 :: nat) Leaf) 3])"
    by (auto simp: rb_tree_def intro!: exI [of _ 1])
  from rbtree_update_correct [OF this, of 5] show ?thesis by auto
qed

end
