(* ===== verification/Ogs_Timer.thy ===== *)
theory Ogs_Timer
  imports Ogs_Pool Ogs_Rbtree
begin

text \<open>
  The timers of \<^verbatim>\<open>lib/core/ogs-timer.c\<close>: a pool of timers and a red-black tree of the
  running ones, ordered by the time they expire. A timer is named by its node of the pool; what
  a timer holds is in \<open>tm_timers\<close>. The monotonic clock is read once per call and passed as an
  argument; times are microseconds far below \<open>2 ^ 63\<close> and are integers here.
\<close>

section \<open>State\<close>

record 'c ogs_timer =
  tmr_cb :: "'c option"
  tmr_running :: bool
  tmr_timeout :: int

record 'c timer_mgr =
  tm_pool :: ogs_pool
  tm_timers :: "nat \<Rightarrow> 'c ogs_timer"
  tm_tree :: "nat rbtree"

definition OGS_NO_WAIT_TIME :: int where "OGS_NO_WAIT_TIME = 0"

definition OGS_INFINITE_TIME :: int where "OGS_INFINITE_TIME = -1"

section \<open>Operations\<close>

text \<open>The \<^verbatim>\<open>while (*new)\<close> loop of \<^verbatim>\<open>add_timer_node\<close>: the link it ends at.\<close>

fun descend :: "(nat \<Rightarrow> int) \<Rightarrow> int \<Rightarrow> nat rbtree \<Rightarrow> nat path \<Rightarrow> nat path" where
  "descend timeout k Leaf fs = fs"
| "descend timeout k (Nd c l x r) fs =
     (if k < timeout x then descend timeout k l (LeftOf c x r # fs)
      else descend timeout k r (RightOf c l x # fs))"

definition add_timer_node :: "int \<Rightarrow> 'c timer_mgr \<Rightarrow> nat \<Rightarrow> int \<Rightarrow> 'c timer_mgr exec" where
  "add_timer_node now m t duration =
     (let timers = (tm_timers m)(t := (tm_timers m t)\<lparr>tmr_timeout := now + duration\<rparr>);
          fs = descend (\<lambda>x. tmr_timeout (timers x)) (now + duration) (tm_tree m) []
      in exec_bind (ogs_rbtree_insert_color (ogs_rbtree_link_node t) fs)
           (\<lambda>tree. Ret (m\<lparr>tm_timers := timers, tm_tree := tree\<rparr>)))"

definition ogs_timer_mgr_create :: "nat \<Rightarrow> u32 \<Rightarrow> 'c timer_mgr" where
  "ogs_timer_mgr_create capacity seed =
     \<lparr>tm_pool = ogs_pool_init capacity seed,
      tm_timers = (\<lambda>_. \<lparr>tmr_cb = None, tmr_running = False, tmr_timeout = 0\<rparr>), tm_tree = Leaf\<rparr>"

definition ogs_timer_add :: "'c timer_mgr \<Rightarrow> 'c \<Rightarrow> 'c timer_mgr \<times> nat option" where
  "ogs_timer_add m cb =
     (case ogs_pool_alloc (tm_pool m) of
        (p, None) \<Rightarrow> (m\<lparr>tm_pool := p\<rparr>, None)
      | (p, Some t) \<Rightarrow>
          (m\<lparr>tm_pool := p,
             tm_timers := (tm_timers m)(t := \<lparr>tmr_cb = Some cb, tmr_running = False, tmr_timeout = 0\<rparr>)\<rparr>,
           Some t))"

text \<open>A pointer to a node of the tree is the location of the node.\<close>

fun locate :: "'a \<Rightarrow> 'a rbtree \<Rightarrow> 'a path \<Rightarrow> ('a rbtree \<times> 'a path) option" where
  "locate x Leaf fs = None"
| "locate x (Nd c l y r) fs =
     (if x = y then Some (Nd c l y r, fs)
      else case locate x l (LeftOf c y r # fs) of
             Some loc \<Rightarrow> Some loc
           | None \<Rightarrow> locate x r (RightOf c l y # fs))"

definition rbtree_delete_node :: "'a rbtree \<Rightarrow> 'a \<Rightarrow> 'a rbtree exec" where
  "rbtree_delete_node tree x =
     (case locate x tree [] of Some (n, fs) \<Rightarrow> ogs_rbtree_delete n fs | None \<Rightarrow> Abort)"

definition ogs_timer_stop :: "'c timer_mgr \<Rightarrow> nat \<Rightarrow> 'c timer_mgr exec" where
  "ogs_timer_stop m t =
     (if \<not> tmr_running (tm_timers m t) then Ret m
      else exec_bind (rbtree_delete_node (tm_tree m) t)
             (\<lambda>tree. Ret (m\<lparr>tm_timers := (tm_timers m)(t := (tm_timers m t)\<lparr>tmr_running := False\<rparr>),
                           tm_tree := tree\<rparr>)))"

definition ogs_timer_delete :: "'c timer_mgr \<Rightarrow> nat \<Rightarrow> 'c timer_mgr exec" where
  "ogs_timer_delete m t =
     exec_bind (ogs_timer_stop m t) (\<lambda>m. Ret (m\<lparr>tm_pool := ogs_pool_free (tm_pool m) t\<rparr>))"

definition ogs_timer_start :: "int \<Rightarrow> 'c timer_mgr \<Rightarrow> nat \<Rightarrow> int \<Rightarrow> 'c timer_mgr exec" where
  "ogs_timer_start now m t duration =
     (if duration = 0 then Abort
      else exec_bind (if tmr_running (tm_timers m t) then rbtree_delete_node (tm_tree m) t
                      else Ret (tm_tree m))
             (\<lambda>tree. add_timer_node now
                (m\<lparr>tm_tree := tree,
                   tm_timers := (tm_timers m)(t := (tm_timers m t)\<lparr>tmr_running := True\<rparr>)\<rparr>)
                t duration))"

definition ogs_timer_mgr_next :: "int \<Rightarrow> 'c timer_mgr \<Rightarrow> int" where
  "ogs_timer_mgr_next current m =
     (case ogs_rbtree_first (tm_tree m) of
        Some (Nd c l t r, fs) \<Rightarrow>
          (if tmr_timeout (tm_timers m t) > current then tmr_timeout (tm_timers m t) - current
           else OGS_NO_WAIT_TIME)
      | _ \<Rightarrow> OGS_INFINITE_TIME)"

text \<open>
  \<^verbatim>\<open>ogs_timer_mgr_expire\<close>: the first loop collects the timers that are due, the second
  stops each and runs its callback. The callback is an argument that changes the manager and
  the rest \<open>'w\<close> of the state; by the comment in the code it deletes no timer.
\<close>

definition due_timers :: "int \<Rightarrow> 'c timer_mgr \<Rightarrow> nat list" where
  "due_timers current m =
     takeWhile (\<lambda>t. \<not> tmr_timeout (tm_timers m t) > current) (ogs_rbtree_for_each (tm_tree m))"

fun expire_loop ::
  "('c \<Rightarrow> 'c timer_mgr \<Rightarrow> 'w \<Rightarrow> ('c timer_mgr \<times> 'w) exec) \<Rightarrow> nat list \<Rightarrow>
     'c timer_mgr \<Rightarrow> 'w \<Rightarrow> ('c timer_mgr \<times> 'w) exec" where
  "expire_loop call [] m w = Ret (m, w)"
| "expire_loop call (t # ts) m w =
     exec_bind (ogs_timer_stop m t) (\<lambda>m.
       exec_bind (case tmr_cb (tm_timers m t) of None \<Rightarrow> Ret (m, w) | Some cb \<Rightarrow> call cb m w)
         (\<lambda>(m, w). expire_loop call ts m w))"

definition ogs_timer_mgr_expire ::
  "('c \<Rightarrow> 'c timer_mgr \<Rightarrow> 'w \<Rightarrow> ('c timer_mgr \<times> 'w) exec) \<Rightarrow> int \<Rightarrow>
     'c timer_mgr \<Rightarrow> 'w \<Rightarrow> ('c timer_mgr \<times> 'w) exec" where
  "ogs_timer_mgr_expire call current m w = expire_loop call (due_timers current m) m w"

section \<open>Invariant\<close>

abbreviation pending :: "'c timer_mgr \<Rightarrow> nat list" where
  "pending m \<equiv> inorder (tm_tree m)"

abbreviation deadline :: "'c timer_mgr \<Rightarrow> nat \<Rightarrow> int" where
  "deadline m t \<equiv> tmr_timeout (tm_timers m t)"

text \<open>
  The tree is a red-black tree in order of the deadlines that holds exactly the running timers,
  each once, all of them allocated.
\<close>

definition timers_ok :: "'c timer_mgr \<Rightarrow> bool" where
  "timers_ok m \<longleftrightarrow> pool_ok (tm_pool m) \<and> rb_tree (tm_tree m) \<and> distinct (pending m) \<and>
     sorted (map (deadline m) (pending m)) \<and>
     set (pending m) \<subseteq> allocated (tm_pool m) \<and>
     (\<forall>t \<in> allocated (tm_pool m). tmr_running (tm_timers m t) \<longleftrightarrow> t \<in> set (pending m))"

text \<open>Where a timer goes: behind every timer that expires no later.\<close>

definition enqueue_at :: "('a \<Rightarrow> int) \<Rightarrow> int \<Rightarrow> 'a \<Rightarrow> 'a list \<Rightarrow> 'a list" where
  "enqueue_at f k x xs = takeWhile (\<lambda>y. f y \<le> k) xs @ x # dropWhile (\<lambda>y. f y \<le> k) xs"

lemma descend_plug: "plug Leaf (descend f k t fs) = plug t fs"
  by (induction f k t fs rule: descend.induct) auto

lemma descend_split:
  "sorted (map f (inorder t)) \<Longrightarrow>
     before (descend f k t fs) = before fs @ takeWhile (\<lambda>y. f y \<le> k) (inorder t) \<and>
     after (descend f k t fs) = dropWhile (\<lambda>y. f y \<le> k) (inorder t) @ after fs"
proof (induction f k t fs rule: descend.induct)
  case (2 f k c l x r fs)
  then have s: "sorted (map f (inorder l))" "sorted (map f (inorder r))"
    "\<forall>y \<in> set (inorder l). f y \<le> f x"
    by (auto simp: sorted_append)
  show ?case
  proof (cases "k < f x")
    case True
    with 2 s show ?thesis by (simp add: takeWhile_append dropWhile_append takeWhile_eq_all_conv)
  next
    case False
    with s(3) have all: "\<And>y. y \<in> set (inorder l) \<Longrightarrow> f y \<le> k" by auto
    with False 2 s show ?thesis by (simp add: takeWhile_append2 dropWhile_append2)
  qed
qed simp

lemma enqueue_split:
  obtains A B where "xs = A @ B" "enqueue_at f k x xs = A @ x # B" "\<forall>y \<in> set A. f y \<le> k"
    "sorted (map f xs) \<longrightarrow> (\<forall>y \<in> set B. k \<le> f y)"
proof
  show "xs = takeWhile (\<lambda>y. f y \<le> k) xs @ dropWhile (\<lambda>y. f y \<le> k) xs" by simp
  show "enqueue_at f k x xs = takeWhile (\<lambda>y. f y \<le> k) xs @ x # dropWhile (\<lambda>y. f y \<le> k) xs"
    by (simp add: enqueue_at_def)
  show "\<forall>y \<in> set (takeWhile (\<lambda>y. f y \<le> k) xs). f y \<le> k" by (auto dest: set_takeWhileD)
  show "sorted (map f xs) \<longrightarrow> (\<forall>y \<in> set (dropWhile (\<lambda>y. f y \<le> k) xs). k \<le> f y)"
  proof (induction xs)
    case (Cons a xs)
    then show ?case by (cases "f a \<le> k") (auto intro: order_trans [of k "f a"])
  qed simp
qed

lemma set_enqueue_at [simp]: "set (enqueue_at f k x xs) = insert x (set xs)"
  by (rule enqueue_split [of xs f k x]) auto

lemma distinct_enqueue_at: "distinct xs \<Longrightarrow> x \<notin> set xs \<Longrightarrow> distinct (enqueue_at f k x xs)"
  by (rule enqueue_split [of xs f k x]) auto

lemma sorted_enqueue_at:
  assumes "sorted (map f xs)" "f x = k"
  shows "sorted (map f (enqueue_at f k x xs))"
  by (rule enqueue_split [of xs f k x]) (use assms in \<open>auto simp: sorted_append\<close>)

lemma locate_mem: "locate x t fs = Some loc \<Longrightarrow> x \<in> set (inorder t)"
  by (induction x t fs rule: locate.induct) (auto split: if_splits option.splits)

lemma locate_Some:
  "x \<in> set (inorder t) \<Longrightarrow>
     \<exists>c l r gs. locate x t fs = Some (Nd c l x r, gs) \<and> plug (Nd c l x r) gs = plug t fs"
proof (induction x t fs rule: locate.induct)
  case (2 x c l y r fs)
  show ?case
  proof (cases "x = y")
    case False
    show ?thesis
    proof (cases "locate x l (LeftOf c y r # fs)")
      case None
      with 2 False show ?thesis by fastforce
    next
      case (Some loc)
      then have "x \<in> set (inorder l)" 
        by (metis locate_mem)
      with 2 False show ?thesis by fastforce
    qed
  qed auto
qed simp

lemma add_timer_node_ok:
  assumes t: "rb_tree (tm_tree m)" and s: "sorted (map (deadline m) (pending m))"
    and n: "t \<notin> set (pending m)"
  shows "\<exists>tree. add_timer_node now m t d =
      Ret (m\<lparr>tm_timers := (tm_timers m)(t := (tm_timers m t)\<lparr>tmr_timeout := now + d\<rparr>), tm_tree := tree\<rparr>) \<and>
    rb_tree tree \<and> inorder tree = enqueue_at (deadline m) (now + d) t (pending m)"
proof -
  define f where "f = (\<lambda>x. tmr_timeout (((tm_timers m)(t := (tm_timers m t)\<lparr>tmr_timeout := now + d\<rparr>)) x))"
  define fs where "fs = descend f (now + d) (tm_tree m) []"
  have f: "x \<in> set (pending m) \<Longrightarrow> f x = deadline m x" for x using n by (auto simp: f_def)
  then have s': "sorted (map f (pending m))" using s by (metis map_cong)
  have p: "plug Leaf fs = tm_tree m" by (simp add: fs_def descend_plug)
  then have h: "hole fs 0"
    using t hole_of_plug [of Leaf fs] by (auto simp: rb_tree_def)
  have "takeWhile (\<lambda>y. f y \<le> now + d) (pending m) = takeWhile (\<lambda>y. deadline m y \<le> now + d) (pending m)"
    "dropWhile (\<lambda>y. f y \<le> now + d) (pending m) = dropWhile (\<lambda>y. deadline m y \<le> now + d) (pending m)"
    using f by (auto intro: takeWhile_cong dropWhile_cong)
  then have io: "before fs @ [t] @ after fs = enqueue_at (deadline m) (now + d) t (pending m)"
    using descend_split [OF s', of "now + d" "[]"] by (simp add: fs_def enqueue_at_def)
  have l: "rb (ogs_rbtree_link_node t) 0" "rcolor (ogs_rbtree_link_node t) = Red"
    by (simp_all add: ogs_rbtree_link_node_def)
  obtain tree where "ogs_rbtree_insert_color (ogs_rbtree_link_node t) fs = Ret tree" "rb_tree tree"
    "inorder tree = before fs @ inorder (ogs_rbtree_link_node t) @ after fs"
    using insert_color_rb [OF l h] by blast
  moreover have "add_timer_node now m t d = exec_bind (ogs_rbtree_insert_color (ogs_rbtree_link_node t) fs)
      (\<lambda>tree. Ret (m\<lparr>tm_timers := (tm_timers m)(t := (tm_timers m t)\<lparr>tmr_timeout := now + d\<rparr>),
                    tm_tree := tree\<rparr>))"
    by (simp add: add_timer_node_def Let_def fs_def f_def)
  ultimately show ?thesis using io by (intro exI [of _ tree]) (simp add: ogs_rbtree_link_node_def)
qed

lemma rbtree_delete_node_ok:
  assumes "rb_tree t" "x \<in> set (inorder t)" "distinct (inorder t)"
  shows "\<exists>u. rbtree_delete_node t x = Ret u \<and> rb_tree u \<and> inorder u = remove1 x (inorder t)"
proof -
  obtain c l r fs where loc: "locate x t [] = Some (Nd c l x r, fs)" "plug (Nd c l x r) fs = t"
    using locate_Some [OF assms(2), of "[]"] by auto
  with assms(1) obtain u where u: "ogs_rbtree_delete (Nd c l x r) fs = Ret u" "rb_tree u"
    "inorder u = before fs @ inorder l @ inorder r @ after fs"
    using rbtree_delete_ok [of c l x r fs] by auto
  moreover have "inorder t = before fs @ inorder l @ x # inorder r @ after fs"
    using loc(2) by (metis inorder_plug inorder.simps(2) append.assoc append_Cons)
  ultimately show ?thesis
    using loc(1) assms(3) by (auto simp: rbtree_delete_node_def remove1_append)
qed

lemma sorted_remove1_map: "sorted (map f xs) \<Longrightarrow> sorted (map f (remove1 x xs))"
  by (induction xs) (auto dest: notin_set_remove1)

lemma timers_ok_create: "timers_ok (ogs_timer_mgr_create n seed)"
  by (simp add: timers_ok_def ogs_timer_mgr_create_def pool_ok_init rb_tree_def allocated_init)

lemma stop_ok:
  assumes ok: "timers_ok m" and t: "t \<in> allocated (tm_pool m)"
  shows "\<exists>m'. ogs_timer_stop m t = Ret m' \<and> timers_ok m' \<and> pending m' = remove1 t (pending m) \<and>
    deadline m' = deadline m \<and> tm_pool m' = tm_pool m \<and>
    (\<forall>x. tmr_cb (tm_timers m' x) = tmr_cb (tm_timers m x)) \<and> \<not> tmr_running (tm_timers m' t)"
proof (cases "tmr_running (tm_timers m t)")
  case False
  then have "t \<notin> set (pending m)" using ok t by (auto simp: timers_ok_def)
  with False ok show ?thesis by (auto simp: ogs_timer_stop_def remove1_idem)
next
  case True
  then have mem: "t \<in> set (pending m)" using ok t by (auto simp: timers_ok_def)
  obtain u where u: "rbtree_delete_node (tm_tree m) t = Ret u" "rb_tree u"
    "inorder u = remove1 t (pending m)"
    using rbtree_delete_node_ok [of "tm_tree m" t] ok mem by (auto simp: timers_ok_def)
  define m' where "m' = m\<lparr>tm_timers := (tm_timers m)(t := (tm_timers m t)\<lparr>tmr_running := False\<rparr>),
                           tm_tree := u\<rparr>"
  have d: "deadline m' = deadline m" by (auto simp: m'_def)
  have "timers_ok m'"
    using ok u(2) sorted_remove1_map [of "deadline m" "pending m" t] unfolding timers_ok_def d
    by (auto simp: m'_def u(3))
  moreover have "ogs_timer_stop m t = Ret m'" using True u(1) by (simp add: ogs_timer_stop_def m'_def)
  ultimately show ?thesis using d u(3) by (auto simp: m'_def)
qed

lemma start_ok:
  assumes ok: "timers_ok m" and t: "t \<in> allocated (tm_pool m)" and d: "d \<noteq> 0"
  shows "\<exists>m'. ogs_timer_start now m t d = Ret m' \<and> timers_ok m' \<and>
    pending m' = enqueue_at (deadline m) (now + d) t (remove1 t (pending m)) \<and>
    deadline m' = (deadline m)(t := now + d) \<and> tm_pool m' = tm_pool m"
proof -
  obtain u where u: "(if tmr_running (tm_timers m t) then rbtree_delete_node (tm_tree m) t
      else Ret (tm_tree m)) = Ret u" "rb_tree u" "inorder u = remove1 t (pending m)"
    using rbtree_delete_node_ok [of "tm_tree m" t] ok t
    by (cases "tmr_running (tm_timers m t)") (auto simp: timers_ok_def remove1_idem)
  define q where "q = m\<lparr>tm_tree := u,
      tm_timers := (tm_timers m)(t := (tm_timers m t)\<lparr>tmr_running := True\<rparr>)\<rparr>"
  have dq: "deadline q = deadline m" by (auto simp: q_def)
  have tq: "tm_tree q = u" by (simp add: q_def)
  have sq: "sorted (map (deadline q) (pending q))" "t \<notin> set (pending q)"
    using ok sorted_remove1_map [of "deadline m" "pending m" t] unfolding dq
    by (auto simp: tq u(3) timers_ok_def)
  obtain tree where tr: "add_timer_node now q t d =
      Ret (q\<lparr>tm_timers := (tm_timers q)(t := (tm_timers q t)\<lparr>tmr_timeout := now + d\<rparr>), tm_tree := tree\<rparr>)"
    "rb_tree tree" "inorder tree = enqueue_at (deadline m) (now + d) t (remove1 t (pending m))"
    using add_timer_node_ok [OF _ sq, of now d] u dq by (auto simp: tq)
  define m' where "m' = q\<lparr>tm_timers := (tm_timers q)(t := (tm_timers q t)\<lparr>tmr_timeout := now + d\<rparr>),
      tm_tree := tree\<rparr>"
  have st: "ogs_timer_start now m t d = Ret m'"
    using d u(1) tr(1) by (simp add: ogs_timer_start_def q_def m'_def)
  have dm: "deadline m' = (deadline m)(t := now + d)" by (auto simp: m'_def q_def)
  have "sorted (map ((deadline m)(t := now + d)) (remove1 t (pending m)))"
    using sq ok by (simp add: dq tq u(3) timers_ok_def)
  then have "sorted (map ((deadline m)(t := now + d))
      (enqueue_at ((deadline m)(t := now + d)) (now + d) t (remove1 t (pending m))))"
    by (rule sorted_enqueue_at) simp
  moreover have "enqueue_at ((deadline m)(t := now + d)) (now + d) t (remove1 t (pending m)) =
      enqueue_at (deadline m) (now + d) t (remove1 t (pending m))"
    using sq(2) unfolding enqueue_at_def tq u(3)
    by (intro arg_cong2 [where f = append] arg_cong2 [where f = Cons] refl takeWhile_cong dropWhile_cong) auto
  ultimately have "sorted (map (deadline m') (pending m'))"
    by (simp add: dm) (simp add: m'_def tr(3))
  moreover have "distinct (enqueue_at (deadline m) (now + d) t (remove1 t (pending m)))"
    using ok by (intro distinct_enqueue_at) (auto simp: timers_ok_def)
  ultimately have "timers_ok m'"
    using ok t tr unfolding timers_ok_def dm by (auto simp: m'_def q_def dest: notin_set_remove1)
  with st tr(3) dm show ?thesis by (auto simp: m'_def q_def)
qed

lemma add_ok:
  assumes ok: "timers_ok m" and a: "ogs_timer_add m cb = (m', Some t)"
  shows "timers_ok m' \<and> t \<notin> allocated (tm_pool m) \<and> allocated (tm_pool m') = insert t (allocated (tm_pool m)) \<and>
    pending m' = pending m \<and> tmr_cb (tm_timers m' t) = Some cb \<and> t \<notin> set (pending m')"
proof -
  obtain p where p: "ogs_pool_alloc (tm_pool m) = (p, Some t)"
    and m': "m' = m\<lparr>tm_pool := p,
       tm_timers := (tm_timers m)(t := \<lparr>tmr_cb = Some cb, tmr_running = False, tmr_timeout = 0\<rparr>)\<rparr>"
    using a by (auto simp: ogs_timer_add_def split: prod.splits option.splits)
  have P: "pool_ok p" "t \<notin> allocated (tm_pool m)" "allocated p = insert t (allocated (tm_pool m))"
    using pool.acquire_Some [OF _ p] ok by (auto simp: timers_ok_def)
  have n: "t \<notin> set (pending m)" using P(2) ok by (auto simp: timers_ok_def)
  have d: "map (deadline m') (pending m') = map (deadline m) (pending m)"
    using n by (auto simp: m')
  show ?thesis
    using ok P n unfolding timers_ok_def d by (auto simp: m')
qed

lemma delete_ok:
  assumes ok: "timers_ok m" and t: "t \<in> allocated (tm_pool m)"
  shows "\<exists>m'. ogs_timer_delete m t = Ret m' \<and> timers_ok m' \<and> pending m' = remove1 t (pending m) \<and>
    allocated (tm_pool m') = allocated (tm_pool m) - {t}"
proof -
  obtain m1 where m1: "ogs_timer_stop m t = Ret m1" "timers_ok m1" "pending m1 = remove1 t (pending m)"
    "tm_pool m1 = tm_pool m" "\<not> tmr_running (tm_timers m1 t)"
    using stop_ok [OF assms] by blast
  have "distinct (pending m)" using ok by (simp add: timers_ok_def)
  then have n: "t \<notin> set (pending m1)" by (simp add: m1(3))
  have ok1: "pool_ok (tm_pool m1)" "t \<in> allocated (tm_pool m1)"
    using m1(2,4) t by (auto simp: timers_ok_def)
  have "timers_ok (m1\<lparr>tm_pool := ogs_pool_free (tm_pool m1) t\<rparr>)"
    using m1(2) n free_allocated(1,2) [OF ok1] by (auto simp: timers_ok_def)
  with m1 free_allocated(2) [OF ok1] show ?thesis by (simp add: ogs_timer_delete_def)
qed

lemma first_inorder:
  "ogs_rbtree_first t = (case inorder t of [] \<Rightarrow> None | x # xs \<Rightarrow> ogs_rbtree_first t) \<and>
   (inorder t \<noteq> [] \<longrightarrow> (\<exists>c l r fs. ogs_rbtree_first t = Some (Nd c l (hd (inorder t)) r, fs)))"
proof (cases t)
  case (Nd c l x r)
  obtain m fs where m: "ogs_rbtree_min t [] = (m, fs)" by (cases "ogs_rbtree_min t []") auto
  obtain c' y r' where mn: "m = Nd c' Leaf y r'" "before fs = []" "plug m fs = t"
    using min_props [OF m] Nd by auto
  have "hd (inorder t) = y" using arg_cong [OF mn(3), of inorder] mn by (metis inorder_plug append_Nil inorder.simps list.sel(1) append_Cons)
  with m mn Nd show ?thesis by (auto simp: ogs_rbtree_first_def split: list.splits)
qed (simp add: ogs_rbtree_first_def)

lemma mgr_next_eq:
  "ogs_timer_mgr_next now m = (case pending m of [] \<Rightarrow> OGS_INFINITE_TIME
     | t # ts \<Rightarrow> max 0 (deadline m t - now))"
  using first_inorder [of "tm_tree m"]
  by (auto simp: ogs_timer_mgr_next_def OGS_NO_WAIT_TIME_def split: list.splits option.splits)

lemma due_filter:
  assumes "timers_ok m"
  shows "due_timers now m = filter (\<lambda>t. deadline m t \<le> now) (pending m)"
proof -
  have "sorted (map f xs) \<Longrightarrow> takeWhile (\<lambda>t. \<not> now < f t) xs = filter (\<lambda>t. f t \<le> now) xs"
    for f :: "nat \<Rightarrow> int" and xs
  proof (induction xs)
    case (Cons a xs)
    then show ?case
      by (cases "f a \<le> now") (auto simp: not_le intro!: filter_False [symmetric] dest: less_le_trans)
  qed simp
  with assms show ?thesis by (simp add: due_timers_def for_each_inorder timers_ok_def)
qed

section \<open>The contract\<close>

definition armed :: "'c timer_mgr \<Rightarrow> nat \<Rightarrow> int option" where
  "armed m t = (if t \<in> set (pending m) then Some (deadline m t) else None)"

locale timer_service =
  fixes start :: "int \<Rightarrow> 'm \<Rightarrow> 't \<Rightarrow> int \<Rightarrow> 'm exec"
    and stop :: "'m \<Rightarrow> 't \<Rightarrow> 'm exec"
    and alarm :: "'m \<Rightarrow> 't \<Rightarrow> int option"
    and timers :: "'m \<Rightarrow> 't set"
    and valid :: "'m \<Rightarrow> bool"
  assumes start_law: "valid m \<Longrightarrow> t \<in> timers m \<Longrightarrow> d \<noteq> 0 \<Longrightarrow>
      \<exists>m'. start now m t d = Ret m' \<and> valid m' \<and> timers m' = timers m \<and> alarm m' = (alarm m)(t \<mapsto> now + d)"
    and stop_law: "valid m \<Longrightarrow> t \<in> timers m \<Longrightarrow>
      \<exists>m'. stop m t = Ret m' \<and> valid m' \<and> timers m' = timers m \<and> alarm m' = (alarm m)(t := None)"
begin

lemma restart:
  assumes "valid m" "t \<in> timers m" "d \<noteq> 0" "e \<noteq> 0"
  shows "\<exists>m1 m2. start now m t d = Ret m1 \<and> start now' m1 t e = Ret m2 \<and> valid m2 \<and>
    timers m2 = timers m \<and> alarm m2 = (alarm m)(t \<mapsto> now' + e)"
  using start_law [OF assms(1-3), of now] start_law [of _ t e now'] assms(2,4) by fastforce

lemma start_stop:
  assumes "valid m" "t \<in> timers m" "d \<noteq> 0" "alarm m t = None"
  shows "\<exists>m1 m2. start now m t d = Ret m1 \<and> stop m1 t = Ret m2 \<and> valid m2 \<and>
    timers m2 = timers m \<and> alarm m2 = alarm m"
  using start_law [OF assms(1-3), of now] stop_law [of _ t] assms(2,4)
  by (fastforce simp: fun_upd_idem)

text \<open>Starting a group of timers arms each of them and touches no other.\<close>

fun start_all :: "int \<Rightarrow> 'm \<Rightarrow> ('t \<times> int) list \<Rightarrow> 'm exec" where
  "start_all now m [] = Ret m"
| "start_all now m ((t, d) # ts) = exec_bind (start now m t d) (\<lambda>m. start_all now m ts)"

lemma start_all_alarms:
  assumes "valid m" "\<forall>(t, d) \<in> set ts. t \<in> timers m \<and> d \<noteq> 0" "distinct (map fst ts)"
  shows "\<exists>m'. start_all now m ts = Ret m' \<and> valid m' \<and> timers m' = timers m \<and>
    (\<forall>t. alarm m' t = (case map_of ts t of Some d \<Rightarrow> Some (now + d) | None \<Rightarrow> alarm m t))"
  using assms
proof (induction ts arbitrary: m)
  case (Cons x ts)
  obtain t d where x: "x = (t, d)" by (cases x)
  obtain m1 where m1: "start now m t d = Ret m1" "valid m1" "timers m1 = timers m"
    "alarm m1 = (alarm m)(t \<mapsto> now + d)"
    using start_law [OF Cons.prems(1), of t d now] Cons.prems(2) x by auto
  obtain m2 where m2: "start_all now m1 ts = Ret m2" "valid m2" "timers m2 = timers m1"
    "\<forall>t. alarm m2 t = (case map_of ts t of Some d \<Rightarrow> Some (now + d) | None \<Rightarrow> alarm m1 t)"
    using Cons.IH [OF m1(2)] Cons.prems(2,3) m1(3) x by auto
  moreover have "map_of ts t = None" using Cons.prems(3) x by (auto simp: map_of_eq_None_iff)
  ultimately show ?case using m1 x by (auto split: option.splits)
qed simp

end

interpretation tmr: timer_service ogs_timer_start ogs_timer_stop armed
  "\<lambda>m. allocated (tm_pool m)" timers_ok
proof
  fix m :: "'a timer_mgr" and t :: nat and d now :: int
  assume "timers_ok m" "t \<in> allocated (tm_pool m)" "d \<noteq> 0"
  from start_ok [OF this, of now] obtain m' where "ogs_timer_start now m t d = Ret m'" "timers_ok m'"
    "pending m' = enqueue_at (deadline m) (now + d) t (remove1 t (pending m))"
    "deadline m' = (deadline m)(t := now + d)" "tm_pool m' = tm_pool m" by blast
  moreover have "distinct (pending m)" using \<open>timers_ok m\<close> by (simp add: timers_ok_def)
  ultimately show "\<exists>m'. ogs_timer_start now m t d = Ret m' \<and> timers_ok m' \<and>
      allocated (tm_pool m') = allocated (tm_pool m) \<and> armed m' = (armed m)(t \<mapsto> now + d)"
    by (auto simp: armed_def fun_eq_iff)
next
  fix m :: "'a timer_mgr" and t :: nat
  assume "timers_ok m" "t \<in> allocated (tm_pool m)"
  from stop_ok [OF this] obtain m' where "ogs_timer_stop m t = Ret m'" "timers_ok m'"
    "pending m' = remove1 t (pending m)" "deadline m' = deadline m" "tm_pool m' = tm_pool m" by blast
  moreover have "distinct (pending m)" using \<open>timers_ok m\<close> by (simp add: timers_ok_def)
  ultimately show "\<exists>m'. ogs_timer_stop m t = Ret m' \<and> timers_ok m' \<and>
      allocated (tm_pool m') = allocated (tm_pool m) \<and> armed m' = (armed m)(t := None)"
    by (auto simp: armed_def fun_eq_iff)
qed

lemma remove1_filter: "distinct xs \<Longrightarrow> remove1 x xs = filter (\<lambda>y. y \<noteq> x) xs"
  by (induction xs) (auto intro: filter_True [symmetric])

lemma expire_loop_passive:
  fixes f :: "'c \<Rightarrow> 'w \<Rightarrow> 'w"
  assumes call: "\<forall>cb m w. call cb m w = Ret (m, f cb w)"
  shows "timers_ok m \<Longrightarrow> set ts \<subseteq> set (pending m) \<Longrightarrow> distinct ts \<Longrightarrow>
    \<exists>m'. expire_loop call ts m w =
        Ret (m', fold (\<lambda>t. case tmr_cb (tm_timers m t) of None \<Rightarrow> id | Some cb \<Rightarrow> f cb) ts w) \<and>
      timers_ok m' \<and> pending m' = filter (\<lambda>x. x \<notin> set ts) (pending m) \<and> deadline m' = deadline m"
proof (induction ts arbitrary: m w)
  case Nil
  then show ?case by auto
next
  case (Cons t ts)
  then have "t \<in> allocated (tm_pool m)" by (auto simp: timers_ok_def)
  then obtain m1 where m1: "ogs_timer_stop m t = Ret m1" "timers_ok m1" "pending m1 = remove1 t (pending m)"
    "deadline m1 = deadline m" "\<forall>x. tmr_cb (tm_timers m1 x) = tmr_cb (tm_timers m x)"
    using stop_ok [OF Cons.prems(1)] by blast
  have p1: "pending m1 = filter (\<lambda>y. y \<noteq> t) (pending m)"
    using Cons.prems(1) m1(3) by (simp add: timers_ok_def remove1_filter)
  define w1 where "w1 = (case tmr_cb (tm_timers m t) of None \<Rightarrow> id | Some cb \<Rightarrow> f cb) w"
  obtain m2 where m2: "expire_loop call ts m1 w1 =
      Ret (m2, fold (\<lambda>t. case tmr_cb (tm_timers m1 t) of None \<Rightarrow> id | Some cb \<Rightarrow> f cb) ts w1)"
    "timers_ok m2" "pending m2 = filter (\<lambda>x. x \<notin> set ts) (pending m1)" "deadline m2 = deadline m1"
    using Cons.IH [OF m1(2), of w1] Cons.prems(2,3) p1 by auto
  have "expire_loop call (t # ts) m w = expire_loop call ts m1 w1"
    using call m1(1,5) by (auto simp: w1_def split: option.splits)
  with m2 m1 show ?case
    by (auto simp: p1 w1_def intro: filter_cong)
qed

lemma expire_loop_invariant:
  assumes call: "\<And>cb m w. timers_ok m \<Longrightarrow>
      \<exists>m' w'. call cb m w = Ret (m', w') \<and> timers_ok m' \<and> allocated (tm_pool m) \<subseteq> allocated (tm_pool m')"
  shows "timers_ok m \<Longrightarrow> set ts \<subseteq> allocated (tm_pool m) \<Longrightarrow>
    \<exists>m' w'. expire_loop call ts m w = Ret (m', w') \<and> timers_ok m'"
proof (induction ts arbitrary: m w)
  case (Cons t ts)
  then obtain m1 where m1: "ogs_timer_stop m t = Ret m1" "timers_ok m1" "tm_pool m1 = tm_pool m"
    using stop_ok [OF Cons.prems(1), of t] by auto
  obtain m2 w2 where m2: "(case tmr_cb (tm_timers m1 t) of None \<Rightarrow> Ret (m1, w) | Some cb \<Rightarrow> call cb m1 w) = Ret (m2, w2)"
    "timers_ok m2" "allocated (tm_pool m1) \<subseteq> allocated (tm_pool m2)"
    using call [OF m1(2)] m1(2) by (cases "tmr_cb (tm_timers m1 t)") fastforce+
  have "set ts \<subseteq> allocated (tm_pool m2)" using Cons.prems(2) m1(3) m2(3) by auto
  with Cons.IH [OF m2(2)] m1(1) m2(1) show ?case by auto
qed auto

section \<open>Properties\<close>

text \<open>
  Starting a timer arms it at the current time plus the duration and moves no other timer:
  it goes behind every running timer that expires no later, so timers with equal deadlines fire
  in the order they were started; stopping one disarms just that one. Neither can abort on an
  allocated timer and a non-zero duration, and both keep the tree consistent with the timers.
\<close>

theorem timer_start_stop_order:
  assumes "timers_ok m" "t \<in> allocated (tm_pool m)" "d \<noteq> 0"
  shows "(\<exists>m'. ogs_timer_start now m t d = Ret m' \<and> timers_ok m' \<and>
      armed m' = (armed m)(t \<mapsto> now + d) \<and>
      pending m' = enqueue_at (deadline m) (now + d) t (remove1 t (pending m))) \<and>
    (\<exists>m'. ogs_timer_stop m t = Ret m' \<and> timers_ok m' \<and> armed m' = (armed m)(t := None))"
  using start_ok [OF assms, of now] tmr.start_law [OF assms, of now] tmr.stop_law [OF assms(1,2)]
  by (metis exec.inject)

theorem timer_start_stop_order_witness:
  "\<exists>m t m'. ogs_timer_add (ogs_timer_mgr_create 4 9) () = (m, Some t) \<and>
     ogs_timer_start 100 m t 50 = Ret m' \<and> armed m' t = Some 150"
proof -
  obtain m t where a: "ogs_timer_add (ogs_timer_mgr_create 4 9) () = (m, Some t)"
    by (simp add: ogs_timer_add_def ogs_timer_mgr_create_def ogs_pool_alloc_def ogs_pool_init_def Let_def)
  from add_ok [OF timers_ok_create a] have "timers_ok m" "t \<in> allocated (tm_pool m)" by auto
  from timer_start_stop_order [OF this, of 50 100] a show ?thesis by fastforce
qed

text \<open>
  When the clock reads \<open>now\<close>, \<^verbatim>\<open>ogs_timer_mgr_expire\<close> runs the callbacks of exactly the
  timers whose deadline has passed, each once and in the order of the deadlines, and leaves the
  others running with their deadlines; afterwards \<^verbatim>\<open>ogs_timer_mgr_next\<close> returns the time to
  the earliest of them, which is positive, or infinity. The callbacks here do not touch timers.
\<close>

theorem timer_expire_due:
  assumes "timers_ok m" "\<forall>cb m w. call cb m w = Ret (m, f cb w)"
  shows "\<exists>m'. ogs_timer_mgr_expire call now m w =
      Ret (m', fold (\<lambda>t. case tmr_cb (tm_timers m t) of None \<Rightarrow> id | Some cb \<Rightarrow> f cb)
                 (filter (\<lambda>t. deadline m t \<le> now) (pending m)) w) \<and>
    timers_ok m' \<and> pending m' = filter (\<lambda>t. deadline m t > now) (pending m) \<and>
    deadline m' = deadline m \<and>
    ogs_timer_mgr_next now m' = (if pending m' = [] then OGS_INFINITE_TIME else deadline m (hd (pending m')) - now) \<and>
    (\<forall>t \<in> set (pending m'). deadline m t > now)"
proof -
  have "set (due_timers now m) \<subseteq> set (pending m)" "distinct (due_timers now m)"
    using assms(1) by (auto simp: due_filter timers_ok_def)
  from expire_loop_passive [OF assms(2,1) this, of w] obtain m' where m':
    "ogs_timer_mgr_expire call now m w =
      Ret (m', fold (\<lambda>t. case tmr_cb (tm_timers m t) of None \<Rightarrow> id | Some cb \<Rightarrow> f cb)
                 (filter (\<lambda>t. deadline m t \<le> now) (pending m)) w)"
    "timers_ok m'" "pending m' = filter (\<lambda>x. x \<notin> set (due_timers now m)) (pending m)"
    "deadline m' = deadline m"
    unfolding ogs_timer_mgr_expire_def by (auto simp: due_filter [OF assms(1)])
  have p: "pending m' = filter (\<lambda>t. deadline m t > now) (pending m)"
    unfolding m'(3) due_filter [OF assms(1)] by (rule filter_cong) auto
  then have g: "\<forall>t \<in> set (pending m'). deadline m t > now" by simp
  then have "ogs_timer_mgr_next now m' = (if pending m' = [] then OGS_INFINITE_TIME else deadline m (hd (pending m')) - now)"
    using fun_cong [OF m'(4)] by (cases "pending m'") (auto simp: mgr_next_eq)
  with m' p g show ?thesis by blast
qed

theorem timer_expire_due_witness:
  "\<exists>m'. ogs_timer_mgr_expire (\<lambda>(cb :: nat) m w. Ret (m, cb # w)) 7 (ogs_timer_mgr_create 4 9) [] = Ret (m', []) \<and>
     timers_ok m'"
  using timer_expire_due [OF timers_ok_create, of "\<lambda>(cb :: nat) m w. Ret (m, cb # w)" "(#)" 7 4 9 "[]"]
  by (auto simp: ogs_timer_mgr_create_def)

end
