(* ===== verification/Ogs_Queue.thy ===== *)
theory Ogs_Queue
  imports Prelude
begin

text \<open>
  The event queue of \<^verbatim>\<open>lib/core/ogs-queue.c\<close>: a circular array shared by threads under one
  mutex. A call is split at the points where other threads can run: the unlocked test of
  \<^verbatim>\<open>terminated\<close>, the critical section up to the wait on a condition variable, and the
  critical section after it. The steps of all threads interleave in a transition system whose
  ghost fields record what has been pushed and popped.
\<close>

section \<open>State\<close>

datatype rc = OGS_OK | OGS_ERROR | OGS_RETRY | OGS_TIMEUP | OGS_DONE

record 'a ogs_queue =
  q_data :: "'a option list"
  q_nelts :: nat
  q_in :: nat
  q_out :: nat
  q_bounds :: nat
  q_full_waiters :: nat
  q_empty_waiters :: nat
  q_terminated :: bool

section \<open>Operations\<close>

definition ogs_queue_create :: "nat \<Rightarrow> 'a ogs_queue" where
  "ogs_queue_create capacity =
     \<lparr>q_data = replicate capacity None, q_nelts = 0, q_in = 0, q_out = 0, q_bounds = capacity,
      q_full_waiters = 0, q_empty_waiters = 0, q_terminated = False\<rparr>"

definition ogs_queue_full :: "'a ogs_queue \<Rightarrow> bool" where
  "ogs_queue_full q \<longleftrightarrow> q_nelts q = q_bounds q"

definition ogs_queue_empty :: "'a ogs_queue \<Rightarrow> bool" where
  "ogs_queue_empty q \<longleftrightarrow> q_nelts q = 0"

definition queue_store :: "'a ogs_queue \<Rightarrow> 'a \<Rightarrow> 'a ogs_queue" where
  "queue_store q x =
     (let i = q_in q + 1
      in q\<lparr>q_data := (q_data q)[q_in q := Some x],
           q_in := (if i \<ge> q_bounds q then i - q_bounds q else i),
           q_nelts := q_nelts q + 1\<rparr>)"

definition queue_fetch :: "'a ogs_queue \<Rightarrow> 'a ogs_queue \<times> 'a option" where
  "queue_fetch q =
     (let o' = q_out q + 1
      in (q\<lparr>q_nelts := q_nelts q - 1,
            q_out := (if o' \<ge> q_bounds q then o' - q_bounds q else o')\<rparr>,
          q_data q ! q_out q))"

text \<open>
  \<^verbatim>\<open>queue_push\<close> and \<^verbatim>\<open>queue_pop\<close> up to the wait; the result \<open>None\<close> is a thread that
  waits. A negative timeout waits for ever.
\<close>

definition push_enter :: "'a ogs_queue \<Rightarrow> 'a \<Rightarrow> int \<Rightarrow> 'a ogs_queue \<times> rc option" where
  "push_enter q x timeout =
     (if ogs_queue_full q
      then (if timeout = 0 then (q, Some OGS_RETRY)
            else if \<not> q_terminated q then (q\<lparr>q_full_waiters := q_full_waiters q + 1\<rparr>, None)
            else (q, Some OGS_DONE))
      else (queue_store q x, Some OGS_OK))"

definition pop_enter :: "'a ogs_queue \<Rightarrow> int \<Rightarrow> 'a ogs_queue \<times> (rc \<times> 'a option) option" where
  "pop_enter q timeout =
     (if ogs_queue_empty q
      then (if timeout = 0 then (q, Some (OGS_RETRY, None))
            else if \<not> q_terminated q then (q\<lparr>q_empty_waiters := q_empty_waiters q + 1\<rparr>, None)
            else (q, Some (OGS_DONE, None)))
      else (case queue_fetch q of (q', x) \<Rightarrow> (q', Some (OGS_OK, x))))"

text \<open>After the wait, which returned \<open>rv\<close>.\<close>

definition push_resume :: "'a ogs_queue \<Rightarrow> 'a \<Rightarrow> rc \<Rightarrow> 'a ogs_queue \<times> rc" where
  "push_resume q x rv =
     (let q = q\<lparr>q_full_waiters := q_full_waiters q - 1\<rparr>
      in if rv \<noteq> OGS_OK then (q, rv)
         else if ogs_queue_full q then (q, if q_terminated q then OGS_DONE else OGS_ERROR)
         else (queue_store q x, OGS_OK))"

definition pop_resume :: "'a ogs_queue \<Rightarrow> rc \<Rightarrow> 'a ogs_queue \<times> rc \<times> 'a option" where
  "pop_resume q rv =
     (let q = q\<lparr>q_empty_waiters := q_empty_waiters q - 1\<rparr>
      in if rv \<noteq> OGS_OK then (q, rv, None)
         else if ogs_queue_empty q then (q, if q_terminated q then OGS_DONE else OGS_ERROR, None)
         else (case queue_fetch q of (q', x) \<Rightarrow> (q', OGS_OK, x)))"

text \<open>The calls that do not wait, run without interference.\<close>

definition ogs_queue_trypush :: "'a ogs_queue \<Rightarrow> 'a \<Rightarrow> 'a ogs_queue \<times> rc" where
  "ogs_queue_trypush q x =
     (if q_terminated q then (q, OGS_DONE)
      else case push_enter q x 0 of (q', Some r) \<Rightarrow> (q', r) | (q', None) \<Rightarrow> (q', OGS_RETRY))"

definition ogs_queue_trypop :: "'a ogs_queue \<Rightarrow> 'a ogs_queue \<times> rc \<times> 'a option" where
  "ogs_queue_trypop q =
     (if q_terminated q then (q, OGS_DONE, None)
      else case pop_enter q 0 of (q', Some r) \<Rightarrow> (q', r) | (q', None) \<Rightarrow> (q', OGS_RETRY, None))"

definition ogs_queue_size :: "'a ogs_queue \<Rightarrow> nat" where
  "ogs_queue_size q = q_nelts q"

definition queue_term :: "'a ogs_queue \<Rightarrow> 'a ogs_queue" where
  "queue_term q = q\<lparr>q_terminated := True\<rparr>"

section \<open>Threads\<close>

datatype 'a pc =
    Idle
  | Pushing 'a int | PushWaiting 'a int | Pushed rc
  | Popping int | PopWaiting int | Popped rc "'a option"

record 'a system =
  sys_queue :: "'a ogs_queue"
  sys_pc :: "nat \<Rightarrow> 'a pc"
  log_in :: "'a list"
  log_out :: "'a list"

text \<open>
  A thread calls push or pop with a timeout, enters the critical section, wakes up with the
  result of the wait, or returns; another terminates the queue. A wait can end at any time, as
  POSIX allows, with \<open>OGS_TIMEUP\<close> only for a positive timeout.
\<close>

datatype 'a action =
    CallPush nat 'a int | EnterPush nat | WakePush nat rc
  | CallPop nat int | EnterPop nat | WakePop nat rc
  | Return nat | Term

definition wait_result :: "int \<Rightarrow> rc \<Rightarrow> bool" where
  "wait_result timeout rv \<longleftrightarrow> rv = OGS_OK \<or> rv = OGS_ERROR \<or> (rv = OGS_TIMEUP \<and> timeout > 0)"

definition after_push :: "'a system \<Rightarrow> nat \<Rightarrow> 'a \<Rightarrow> 'a ogs_queue \<Rightarrow> rc \<Rightarrow> 'a system" where
  "after_push s t x q r = s\<lparr>sys_queue := q, sys_pc := (sys_pc s)(t := Pushed r),
     log_in := (if r = OGS_OK then log_in s @ [x] else log_in s)\<rparr>"

definition after_pop :: "'a system \<Rightarrow> nat \<Rightarrow> 'a ogs_queue \<Rightarrow> rc \<Rightarrow> 'a option \<Rightarrow> 'a system" where
  "after_pop s t q r xo = s\<lparr>sys_queue := q, sys_pc := (sys_pc s)(t := Popped r xo),
     log_out := (case xo of Some x \<Rightarrow> log_out s @ [x] | None \<Rightarrow> log_out s)\<rparr>"

fun perform :: "'a action \<Rightarrow> 'a system \<Rightarrow> 'a system option" where
  "perform (CallPush t x timeout) s =
     (case sys_pc s t of
        Idle \<Rightarrow> Some (if q_terminated (sys_queue s)
                      then s\<lparr>sys_pc := (sys_pc s)(t := Pushed OGS_DONE)\<rparr>
                      else s\<lparr>sys_pc := (sys_pc s)(t := Pushing x timeout)\<rparr>)
      | _ \<Rightarrow> None)"
| "perform (EnterPush t) s =
     (case sys_pc s t of
        Pushing x timeout \<Rightarrow>
          (case push_enter (sys_queue s) x timeout of
             (q, None) \<Rightarrow> Some (s\<lparr>sys_queue := q, sys_pc := (sys_pc s)(t := PushWaiting x timeout)\<rparr>)
           | (q, Some r) \<Rightarrow> Some (after_push s t x q r))
      | _ \<Rightarrow> None)"
| "perform (WakePush t rv) s =
     (case sys_pc s t of
        PushWaiting x timeout \<Rightarrow>
          (if wait_result timeout rv
           then (case push_resume (sys_queue s) x rv of (q, r) \<Rightarrow> Some (after_push s t x q r))
           else None)
      | _ \<Rightarrow> None)"
| "perform (CallPop t timeout) s =
     (case sys_pc s t of
        Idle \<Rightarrow> Some (if q_terminated (sys_queue s)
                      then s\<lparr>sys_pc := (sys_pc s)(t := Popped OGS_DONE None)\<rparr>
                      else s\<lparr>sys_pc := (sys_pc s)(t := Popping timeout)\<rparr>)
      | _ \<Rightarrow> None)"
| "perform (EnterPop t) s =
     (case sys_pc s t of
        Popping timeout \<Rightarrow>
          (case pop_enter (sys_queue s) timeout of
             (q, None) \<Rightarrow> Some (s\<lparr>sys_queue := q, sys_pc := (sys_pc s)(t := PopWaiting timeout)\<rparr>)
           | (q, Some (r, xo)) \<Rightarrow> Some (after_pop s t q r xo))
      | _ \<Rightarrow> None)"
| "perform (WakePop t rv) s =
     (case sys_pc s t of
        PopWaiting timeout \<Rightarrow>
          (if wait_result timeout rv
           then (case pop_resume (sys_queue s) rv of (q, r, xo) \<Rightarrow> Some (after_pop s t q r xo))
           else None)
      | _ \<Rightarrow> None)"
| "perform (Return t) s =
     (case sys_pc s t of
        Pushed r \<Rightarrow> Some (s\<lparr>sys_pc := (sys_pc s)(t := Idle)\<rparr>)
      | Popped r xo \<Rightarrow> Some (s\<lparr>sys_pc := (sys_pc s)(t := Idle)\<rparr>)
      | _ \<Rightarrow> None)"
| "perform Term s = Some (s\<lparr>sys_queue := queue_term (sys_queue s)\<rparr>)"

definition init_system :: "nat \<Rightarrow> 'a system" where
  "init_system capacity =
     \<lparr>sys_queue = ogs_queue_create capacity, sys_pc = (\<lambda>_. Idle), log_in = [], log_out = []\<rparr>"

inductive reachable :: "nat \<Rightarrow> 'a system \<Rightarrow> bool" for capacity where
  start: "reachable capacity (init_system capacity)"
| step: "reachable capacity s \<Longrightarrow> perform a s = Some s' \<Longrightarrow> reachable capacity s'"

fun perform_all :: "'a action list \<Rightarrow> 'a system \<Rightarrow> 'a system option" where
  "perform_all [] s = Some s"
| "perform_all (a # as) s = (case perform a s of None \<Rightarrow> None | Some s' \<Rightarrow> perform_all as s')"

lemma reachable_all:
  "reachable n s \<Longrightarrow> perform_all as s = Some s' \<Longrightarrow> reachable n s'"
  by (induction as s rule: perform_all.induct) (auto split: option.splits intro: reachable.step)

section \<open>Invariant\<close>

text \<open>The elements of a queue, oldest first.\<close>

definition queue_contents :: "'a ogs_queue \<Rightarrow> 'a list" where
  "queue_contents q = map the (ring (q_data q) (q_out q) (q_nelts q))"

definition queue_ok :: "'a ogs_queue \<Rightarrow> bool" where
  "queue_ok q \<longleftrightarrow> length (q_data q) = q_bounds q \<and> q_out q < q_bounds q \<and>
     q_nelts q \<le> q_bounds q \<and> q_in q = (q_out q + q_nelts q) mod q_bounds q \<and>
     ring (q_data q) (q_out q) (q_nelts q) = map Some (queue_contents q)"

lemma length_contents [simp]: "length (queue_contents q) = q_nelts q"
  by (simp add: queue_contents_def)

lemma wrap_next: "i < n \<Longrightarrow> (if n \<le> i + 1 then i + 1 - n else i + 1) = Suc i mod (n :: nat)"
  by (auto simp: mod_if)

lemma queue_store_eq:
  "q_in q < q_bounds q \<Longrightarrow> queue_store q x = q\<lparr>q_data := (q_data q)[q_in q := Some x],
     q_in := Suc (q_in q) mod q_bounds q, q_nelts := q_nelts q + 1\<rparr>"
  unfolding queue_store_def Let_def wrap_next by simp

lemma queue_fetch_eq:
  "q_out q < q_bounds q \<Longrightarrow> queue_fetch q =
     (q\<lparr>q_nelts := q_nelts q - 1, q_out := Suc (q_out q) mod q_bounds q\<rparr>, q_data q ! q_out q)"
  unfolding queue_fetch_def Let_def wrap_next by simp

lemma store_ok:
  assumes "queue_ok q" "\<not> ogs_queue_full q"
  shows "queue_ok (queue_store q x)" "queue_contents (queue_store q x) = queue_contents q @ [x]"
    "q_terminated (queue_store q x) = q_terminated q" "q_bounds (queue_store q x) = q_bounds q"
proof -
  have q: "length (q_data q) = q_bounds q" "q_out q < q_bounds q" "q_nelts q < q_bounds q"
    "q_in q = (q_out q + q_nelts q) mod q_bounds q"
    "ring (q_data q) (q_out q) (q_nelts q) = map Some (queue_contents q)"
    using assms by (auto simp: queue_ok_def ogs_queue_full_def)
  have r: "ring ((q_data q)[q_in q := Some x]) (q_out q) (Suc (q_nelts q)) =
      map Some (queue_contents q @ [x])"
    using ring_push [of "q_nelts q" "q_data q" "q_out q" "Some x"] q by simp
  have lt: "q_in q < q_bounds q" using q by simp
  have i: "Suc (q_in q) mod q_bounds q = (q_out q + Suc (q_nelts q)) mod q_bounds q"
    unfolding q(4) by (simp add: mod_Suc_eq)
  have c: "queue_contents (queue_store q x) = queue_contents q @ [x]"
    by (simp add: queue_contents_def queue_store_eq [OF lt] r [unfolded queue_contents_def])
  then show "queue_contents (queue_store q x) = queue_contents q @ [x]" .
  show "queue_ok (queue_store q x)"
    unfolding queue_ok_def c by (use q(1-3) r i in \<open>simp add: queue_store_eq [OF lt]\<close>)
  show "q_terminated (queue_store q x) = q_terminated q" "q_bounds (queue_store q x) = q_bounds q"
    by (simp_all add: queue_store_def Let_def)
qed

lemma fetch_ok:
  assumes "queue_ok q" "\<not> ogs_queue_empty q"
  obtains q' x where "queue_fetch q = (q', Some x)" "queue_contents q = x # queue_contents q'" "queue_ok q'"
    "q_terminated q' = q_terminated q" "q_bounds q' = q_bounds q"
proof -
  define q' where "q' = fst (queue_fetch q)"
  have q: "length (q_data q) = q_bounds q" "q_out q < q_bounds q" "0 < q_nelts q" "q_nelts q \<le> q_bounds q"
    "q_in q = (q_out q + q_nelts q) mod q_bounds q"
    "ring (q_data q) (q_out q) (q_nelts q) = map Some (queue_contents q)"
    using assms by (auto simp: queue_ok_def ogs_queue_empty_def)
  have r: "ring (q_data q) (q_out q) (q_nelts q) =
      q_data q ! q_out q # ring (q_data q) (Suc (q_out q) mod q_bounds q) (q_nelts q - 1)"
    using ring_pop [of "q_nelts q" "q_out q" "q_data q"] q by simp
  have q': "q_data q' = q_data q" "q_out q' = Suc (q_out q) mod q_bounds q" "q_nelts q' = q_nelts q - 1"
    "q_bounds q' = q_bounds q" "q_in q' = q_in q" "q_terminated q' = q_terminated q"
    by (simp_all add: q'_def queue_fetch_eq [OF q(2)])
  have c': "queue_contents q' = map the (ring (q_data q) (Suc (q_out q) mod q_bounds q) (q_nelts q - 1))"
    by (simp add: queue_contents_def q')
  have "map Some (queue_contents q) =
      q_data q ! q_out q # ring (q_data q) (Suc (q_out q) mod q_bounds q) (q_nelts q - 1)"
    using q(6) r by (rule subst)
  then obtain x xs where x': "queue_contents q = x # xs" "Some x = q_data q ! q_out q"
    "map Some xs = ring (q_data q) (Suc (q_out q) mod q_bounds q) (q_nelts q - 1)"
    by (auto simp: map_eq_Cons_conv)
  have "xs = map the (map Some xs)" by (simp add: comp_def)
  then have x: "q_data q ! q_out q = Some x" "queue_contents q = x # queue_contents q'"
    using x' c' by simp_all
  have m: "q_in q = (Suc (q_out q) mod q_bounds q + (q_nelts q - 1)) mod q_bounds q"
  proof -
    have "(Suc (q_out q) mod q_bounds q + (q_nelts q - 1)) mod q_bounds q =
        (Suc (q_out q) + (q_nelts q - 1)) mod q_bounds q" by (rule mod_add_left_eq)
    also have "Suc (q_out q) + (q_nelts q - 1) = q_out q + q_nelts q" using q(3) by simp
    finally show ?thesis by (simp only: q(5))
  qed
  have "ring (q_data q') (q_out q') (q_nelts q') = map Some (queue_contents q')"
    using q(6) r x by (simp add: q')
  moreover have "Suc (q_out q) mod q_bounds q < q_bounds q" using q(2) by simp
  ultimately have "queue_ok q'"
    unfolding queue_ok_def using q(1,4) m by (simp add: q' del: mod_add_left_eq)
  moreover have "queue_fetch q = (q', Some x)"
    using x by (simp add: q'_def queue_fetch_eq [OF q(2)])
  ultimately show ?thesis using that x(2) q' by blast
qed

lemma queue_ok_waiters [simp]:
  "queue_ok (q\<lparr>q_full_waiters := n\<rparr>) = queue_ok q" "queue_ok (q\<lparr>q_empty_waiters := n\<rparr>) = queue_ok q"
  "queue_ok (q\<lparr>q_terminated := b\<rparr>) = queue_ok q"
  "queue_contents (q\<lparr>q_full_waiters := n\<rparr>) = queue_contents q"
  "queue_contents (q\<lparr>q_empty_waiters := n\<rparr>) = queue_contents q"
  "queue_contents (q\<lparr>q_terminated := b\<rparr>) = queue_contents q"
  "ogs_queue_full (q\<lparr>q_full_waiters := n\<rparr>) = ogs_queue_full q"
  "ogs_queue_empty (q\<lparr>q_empty_waiters := n\<rparr>) = ogs_queue_empty q"
  by (simp_all add: queue_ok_def queue_contents_def ogs_queue_full_def ogs_queue_empty_def)

lemma create_ok: "0 < n \<Longrightarrow> queue_ok (ogs_queue_create n :: 'a ogs_queue) \<and> queue_contents (ogs_queue_create n :: 'a ogs_queue) = []"
  by (simp add: queue_ok_def ogs_queue_create_def queue_contents_def)

section \<open>The contract\<close>

text \<open>A bounded queue, as its sequential users see it.\<close>

locale bounded_queue =
  fixes put :: "'q \<Rightarrow> 'a \<Rightarrow> 'q \<times> rc"
    and take_out :: "'q \<Rightarrow> 'q \<times> rc \<times> 'a option"
    and contents :: "'q \<Rightarrow> 'a list"
    and bound :: "'q \<Rightarrow> nat"
    and usable :: "'q \<Rightarrow> bool"
  assumes put_law: "usable q \<Longrightarrow> (if length (contents q) < bound q
      then \<exists>q'. put q x = (q', OGS_OK) \<and> usable q' \<and> contents q' = contents q @ [x] \<and> bound q' = bound q
      else put q x = (q, OGS_RETRY))"
    and take_law: "usable q \<Longrightarrow> (case contents q of
        [] \<Rightarrow> take_out q = (q, OGS_RETRY, None)
      | x # xs \<Rightarrow> \<exists>q'. take_out q = (q', OGS_OK, Some x) \<and> usable q' \<and> contents q' = xs \<and> bound q' = bound q)"
begin

fun put_all :: "'q \<Rightarrow> 'a list \<Rightarrow> 'q" where
  "put_all q [] = q"
| "put_all q (x # xs) = put_all (fst (put q x)) xs"

fun take_n :: "nat \<Rightarrow> 'q \<Rightarrow> 'q \<times> 'a list" where
  "take_n 0 q = (q, [])"
| "take_n (Suc n) q = (case take_out q of
     (q', r, Some x) \<Rightarrow> (let (q'', xs) = take_n n q' in (q'', x # xs))
   | (q', r, None) \<Rightarrow> (q', []))"

lemma put_all_contents:
  "usable q \<Longrightarrow> length (contents q) + length xs \<le> bound q \<Longrightarrow>
     usable (put_all q xs) \<and> contents (put_all q xs) = contents q @ xs \<and> bound (put_all q xs) = bound q"
proof (induction xs arbitrary: q)
  case (Cons x xs)
  then obtain q' where "put q x = (q', OGS_OK)" "usable q'" "contents q' = contents q @ [x]" "bound q' = bound q"
    using put_law [OF Cons.prems(1), of x] by auto
  with Cons show ?case by auto
qed simp

lemma take_n_contents:
  "usable q \<Longrightarrow> n \<le> length (contents q) \<Longrightarrow>
     (\<exists>q'. take_n n q = (q', take n (contents q)) \<and> usable q' \<and> contents q' = drop n (contents q))"
proof (induction n arbitrary: q)
  case (Suc n)
  then obtain x xs where c: "contents q = x # xs" by (cases "contents q") auto
  with take_law [OF Suc.prems(1)] obtain q' where "take_out q = (q', OGS_OK, Some x)" "usable q'" "contents q' = xs"
    by auto
  with Suc c show ?case using Suc.IH [of q'] by auto
qed simp

text \<open>What has been put comes out in the same order.\<close>

lemma fifo:
  assumes "usable q" "contents q = []" "length xs \<le> bound q"
  shows "snd (take_n (length xs) (put_all q xs)) = xs"
  using put_all_contents [OF assms(1)] assms take_n_contents [of "put_all q xs" "length xs"] by auto

end

interpretation eq: bounded_queue ogs_queue_trypush ogs_queue_trypop queue_contents q_bounds
  "\<lambda>q. queue_ok q \<and> \<not> q_terminated q"
proof
  fix q :: "'a ogs_queue" and x
  assume q: "queue_ok q \<and> \<not> q_terminated q"
  show "if length (queue_contents q) < q_bounds q
      then \<exists>q'. ogs_queue_trypush q x = (q', OGS_OK) \<and> (queue_ok q' \<and> \<not> q_terminated q') \<and>
        queue_contents q' = queue_contents q @ [x] \<and> q_bounds q' = q_bounds q
      else ogs_queue_trypush q x = (q, OGS_RETRY)"
  proof (cases "ogs_queue_full q")
    case True
    with q show ?thesis by (simp add: ogs_queue_trypush_def push_enter_def) (simp add: ogs_queue_full_def)
  next
    case False
    then have "q_nelts q < q_bounds q" using q by (auto simp: ogs_queue_full_def queue_ok_def)
    with q False store_ok [of q x] show ?thesis by (simp add: ogs_queue_trypush_def push_enter_def)
  qed
next
  fix q :: "'a ogs_queue"
  assume q: "queue_ok q \<and> \<not> q_terminated q"
  show "case queue_contents q of [] \<Rightarrow> ogs_queue_trypop q = (q, OGS_RETRY, None)
      | x # xs \<Rightarrow> \<exists>q'. ogs_queue_trypop q = (q', OGS_OK, Some x) \<and> (queue_ok q' \<and> \<not> q_terminated q') \<and>
          queue_contents q' = xs \<and> q_bounds q' = q_bounds q"
  proof (cases "ogs_queue_empty q")
    case True
    then have "queue_contents q = []" by (simp add: ogs_queue_empty_def flip: length_0_conv)
    with q True show ?thesis by (simp add: ogs_queue_trypop_def pop_enter_def)
  next
    case False
    with q obtain q' x where "queue_fetch q = (q', Some x)" "queue_contents q = x # queue_contents q'"
      "queue_ok q'" "q_terminated q' = q_terminated q" "q_bounds q' = q_bounds q"
      using fetch_ok by blast
    with q False show ?thesis by (simp add: ogs_queue_trypop_def pop_enter_def)
  qed
qed

section \<open>The transition system\<close>

definition sys_ok :: "nat \<Rightarrow> 'a system \<Rightarrow> bool" where
  "sys_ok n s \<longleftrightarrow> queue_ok (sys_queue s) \<and> q_bounds (sys_queue s) = n \<and>
     log_in s = log_out s @ queue_contents (sys_queue s)"

lemma sys_ok_store:
  "sys_ok n s \<Longrightarrow> queue_ok q \<Longrightarrow> queue_contents q = queue_contents (sys_queue s) \<Longrightarrow> q_bounds q = n \<Longrightarrow>
     \<not> ogs_queue_full q \<Longrightarrow> sys_ok n (after_push s t x (queue_store q x) OGS_OK)"
  by (simp add: sys_ok_def after_push_def store_ok)

lemma sys_ok_fetch:
  assumes "sys_ok n s" "queue_ok q" "queue_contents q = queue_contents (sys_queue s)" "q_bounds q = n"
    "\<not> ogs_queue_empty q" "queue_fetch q = (q', xo)"
  shows "sys_ok n (after_pop s t q' OGS_OK xo)"
proof -
  obtain q1 x where "queue_fetch q = (q1, Some x)" "queue_contents q = x # queue_contents q1" "queue_ok q1"
    "q_bounds q1 = q_bounds q"
    using fetch_ok [OF assms(2,5)] by blast
  with assms show ?thesis by (auto simp: sys_ok_def after_pop_def)
qed

lemma perform_ok:
  assumes "sys_ok n s" "perform a s = Some s'"
  shows "sys_ok n s'"
proof (cases a)
  case (CallPush t x to)
  with assms show ?thesis by (auto simp: sys_ok_def split: pc.splits)
next
  case (EnterPush t)
  with assms(2) obtain x to where p: "sys_pc s t = Pushing x to" by (auto split: pc.splits)
  with assms EnterPush show ?thesis
    using sys_ok_store [OF assms(1), of "sys_queue s" t x]
    by (auto simp: push_enter_def split: if_splits)
       (auto simp: sys_ok_def after_push_def)
next
  case (WakePush t rv)
  with assms(2) obtain x to where p: "sys_pc s t = PushWaiting x to" by (auto split: pc.splits)
  with assms WakePush show ?thesis
    using sys_ok_store [OF assms(1), of "(sys_queue s)\<lparr>q_full_waiters := q_full_waiters (sys_queue s) - 1\<rparr>" t x]
    by (auto simp: push_resume_def Let_def split: if_splits)
       (auto simp: sys_ok_def after_push_def)
next
  case (CallPop t to)
  with assms show ?thesis by (auto simp: sys_ok_def split: pc.splits)
next
  case (EnterPop t)
  with assms(2) obtain to where p: "sys_pc s t = Popping to" by (auto split: pc.splits)
  with assms EnterPop show ?thesis
    using sys_ok_fetch [OF assms(1), of "sys_queue s"]
    by (auto simp: pop_enter_def split: if_splits prod.splits)
       (auto simp: sys_ok_def after_pop_def)
next
  case (WakePop t rv)
  with assms(2) obtain to where p: "sys_pc s t = PopWaiting to" by (auto split: pc.splits)
  with assms WakePop show ?thesis
    using sys_ok_fetch [OF assms(1), of "(sys_queue s)\<lparr>q_empty_waiters := q_empty_waiters (sys_queue s) - 1\<rparr>"]
    by (auto simp: pop_resume_def Let_def split: if_splits prod.splits)
       (auto simp: sys_ok_def after_pop_def)
next
  case (Return t)
  with assms show ?thesis by (auto simp: sys_ok_def split: pc.splits)
next
  case Term
  with assms show ?thesis by (auto simp: sys_ok_def queue_term_def)
qed

lemma sys_ok_init: "0 < n \<Longrightarrow> sys_ok n (init_system n :: 'a system)"
  using create_ok [where 'a = 'a, of n] by (auto simp: sys_ok_def init_system_def ogs_queue_create_def)

lemma reachable_ok: "reachable n s \<Longrightarrow> 0 < n \<Longrightarrow> sys_ok n s"
  by (induction rule: reachable.induct) (auto intro: sys_ok_init perform_ok)

section \<open>Properties\<close>

text \<open>
  C39: However the steps of any number of pushing, popping, waiting and terminating threads
  interleave, no event is lost, duplicated or reordered: what has been pushed is what has been
  popped followed by what is in the queue, which never holds more than its bound.
\<close>

theorem queue_fifo_interleaved:
  assumes "reachable n s" "0 < n"
  shows "log_in s = log_out s @ queue_contents (sys_queue s) \<and>
    ogs_queue_size (sys_queue s) \<le> n \<and> length (queue_contents (sys_queue s)) = ogs_queue_size (sys_queue s)"
  using reachable_ok [OF assms] by (simp add: sys_ok_def queue_ok_def ogs_queue_size_def)

theorem queue_fifo_interleaved_witness:
  "\<exists>s. perform_all [CallPush 1 (7 :: nat) (-1), EnterPush 1, CallPush 2 8 (-1), EnterPush 2, CallPop 3 0,
      EnterPop 3, WakePush 2 OGS_OK] (init_system 1) = Some s \<and>
    [7, 8] = log_out s @ queue_contents (sys_queue s)"
proof -
  define acts where "acts = [CallPush 1 (7 :: nat) (-1), EnterPush 1, CallPush 2 8 (-1), EnterPush 2,
    CallPop 3 0, EnterPop 3, WakePush 2 OGS_OK]"
  obtain s where s: "perform_all acts (init_system 1) = Some s" "log_in s = [7, 8]"
    by (simp add: acts_def init_system_def ogs_queue_create_def push_enter_def ogs_queue_full_def
        queue_store_def after_push_def pop_enter_def ogs_queue_empty_def queue_fetch_def after_pop_def
        wait_result_def push_resume_def)
  from queue_fifo_interleaved [OF reachable_all [OF reachable.start s(1)]] s show ?thesis
    by (auto simp: acts_def)
qed

text \<open>
  A comment of \<^verbatim>\<open>queue_pop\<close> says it keeps waiting until it wakes up and finds the queue
  not empty. It waits once: in a run where the wait of a thread with no time limit ends because
  an event was pushed, and another thread takes the event first, the call returns
  \<^verbatim>\<open>OGS_ERROR\<close> although nobody terminated the queue.
\<close>

theorem queue_pop_stolen_wakeup:
  "\<exists>s. perform_all [CallPop 1 (- 1), EnterPop 1, CallPush 2 (7 :: nat) 0, EnterPush 2, CallPop 3 0,
      EnterPop 3, WakePop 1 OGS_OK] (init_system 4) = Some s \<and>
    \<not> q_terminated (sys_queue s) \<and> sys_pc s 3 = Popped OGS_OK (Some 7) \<and>
    sys_pc s 1 = Popped OGS_ERROR None"
  by (simp add: init_system_def ogs_queue_create_def push_enter_def ogs_queue_full_def
      queue_store_def after_push_def pop_enter_def ogs_queue_empty_def queue_fetch_def after_pop_def
      wait_result_def pop_resume_def)

end
