(* ===== verification/Upf_Urr.thy ===== *)
theory Upf_Urr
  imports Ogs_Timer
begin

text \<open>
  Usage accounting of a session (\<^verbatim>\<open>src/upf/context.c\<close>, the \<^verbatim>\<open>upf_sess_urr_acc_\<close>
  functions, and the session deletion report of \<^verbatim>\<open>src/upf/n4-build.c\<close>): per usage reporting
  rule (URR) the octets and packets of the two directions, a snapshot of them at the last
  report, and three timers. The readings of the clocks are arguments: \<open>now\<close> is
  \<^verbatim>\<open>ogs_time_now()\<close> in microseconds since 1970 and \<open>mclk\<close> the monotonic clock of the
  timers. Whether \<^verbatim>\<open>upf_pfcp_send_session_report_request\<close> succeeds is an argument too.
\<close>

section \<open>State\<close>

definition OGS_MAX_NUM_OF_URR :: nat where "OGS_MAX_NUM_OF_URR = 16"

definition OGS_USEC_PER_SEC :: int where "OGS_USEC_PER_SEC = 1000000"

definition OGS_1970_1900_SEC_DIFF :: u32 where "OGS_1970_1900_SEC_DIFF = 2208988800"

record reporting_triggers =
  rt_volume_quota :: bool
  rt_volume_threshold :: bool
  rt_quota_validity_time :: bool
  rt_time_quota :: bool
  rt_time_threshold :: bool

record volume_limit =
  vl_tovol :: bool
  vl_total_volume :: u64

record ogs_pfcp_urr =
  urr_id :: nat
  urr_rep_triggers :: reporting_triggers
  urr_vol_threshold :: volume_limit
  urr_vol_quota :: volume_limit
  urr_time_threshold :: u32
  urr_time_quota :: u32
  urr_quota_validity_time :: u32

text \<open>The six counters, which a snapshot copies.\<close>

record counters =
  total_octets :: u64
  ul_octets :: u64
  dl_octets :: u64
  total_pkts :: u64
  ul_pkts :: u64
  dl_pkts :: u64

record urr_acc =
  reporting_enabled :: bool
  t_validity_time :: "nat option"
  t_time_quota :: "nat option"
  t_time_threshold :: "nat option"
  time_start :: u32
  report_seqn :: u32
  acc_now :: counters
  time_of_first_packet :: int
  time_of_last_packet :: int
  last_report :: counters
  last_timestamp :: int

record usage_report_trigger =
  tr_quota_validity_time :: bool
  tr_time_quota :: bool
  tr_time_threshold :: bool
  tr_volume_quota :: bool
  tr_volume_threshold :: bool
  tr_termination_report :: bool

record volume_measurement =
  vm_flags :: u8
  vm_total_volume :: u64
  vm_uplink_volume :: u64
  vm_downlink_volume :: u64
  vm_total_n_packets :: u64
  vm_uplink_n_packets :: u64
  vm_downlink_n_packets :: u64

record usage_report =
  ur_id :: nat
  ur_seqn :: u32
  ur_trigger :: usage_report_trigger
  ur_start_time :: u32
  ur_end_time :: u32
  ur_vol :: volume_measurement
  ur_dur :: u32
  ur_time_of_first_packet :: u32
  ur_time_of_last_packet :: u32

record user_plane_report =
  rp_type_usage_report :: bool
  rp_usage_report :: "usage_report list"
  rp_num_of_usage_report :: nat

definition zero_usage_report :: usage_report where
  "zero_usage_report =
     \<lparr>ur_id = 0, ur_seqn = 0,
      ur_trigger = \<lparr>tr_quota_validity_time = False, tr_time_quota = False, tr_time_threshold = False,
        tr_volume_quota = False, tr_volume_threshold = False, tr_termination_report = False\<rparr>,
      ur_start_time = 0, ur_end_time = 0,
      ur_vol = \<lparr>vm_flags = 0, vm_total_volume = 0, vm_uplink_volume = 0, vm_downlink_volume = 0,
        vm_total_n_packets = 0, vm_uplink_n_packets = 0, vm_downlink_n_packets = 0\<rparr>,
      ur_dur = 0, ur_time_of_first_packet = 0, ur_time_of_last_packet = 0\<rparr>"

text \<open>\<^verbatim>\<open>memset(&report, 0, sizeof(report))\<close>.\<close>

definition zero_report :: user_plane_report where
  "zero_report = \<lparr>rp_type_usage_report = False,
     rp_usage_report = replicate OGS_MAX_NUM_OF_URR zero_usage_report, rp_num_of_usage_report = 0\<rparr>"

text \<open>The accumulators of a session with the timer manager of the process.\<close>

record 'c urr_state =
  us_acc :: "urr_acc list"
  us_mgr :: "'c timer_mgr"

section \<open>Operations\<close>

definition ogs_time_from_sec :: "u32 \<Rightarrow> int" where
  "ogs_time_from_sec s = uint s * OGS_USEC_PER_SEC"

definition ogs_time_from_ntp32 :: "u32 \<Rightarrow> int" where
  "ogs_time_from_ntp32 t =
     (if t < OGS_1970_1900_SEC_DIFF then 0 else ogs_time_from_sec (t - OGS_1970_1900_SEC_DIFF))"

definition ogs_time_to_ntp32 :: "int \<Rightarrow> u32" where
  "ogs_time_to_ntp32 t = word_of_int (t div OGS_USEC_PER_SEC + uint OGS_1970_1900_SEC_DIFF)"

definition urr_id_ok :: "ogs_pfcp_urr \<Rightarrow> bool" where
  "urr_id_ok u \<longleftrightarrow> urr_id u > 0 \<and> urr_id u \<le> OGS_MAX_NUM_OF_URR"

definition acc_of :: "urr_acc list \<Rightarrow> ogs_pfcp_urr \<Rightarrow> urr_acc" where
  "acc_of accs u = accs ! (urr_id u - 1)"

definition set_acc :: "urr_acc list \<Rightarrow> ogs_pfcp_urr \<Rightarrow> urr_acc \<Rightarrow> urr_acc list" where
  "set_acc accs u a = accs[urr_id u - 1 := a]"

definition count_packet :: "counters \<Rightarrow> u64 \<Rightarrow> bool \<Rightarrow> counters" where
  "count_packet c sz is_uplink =
     (let c = c\<lparr>total_octets := total_octets c + sz, total_pkts := total_pkts c + 1\<rparr>
      in if is_uplink then c\<lparr>ul_octets := ul_octets c + sz, ul_pkts := ul_pkts c + 1\<rparr>
         else c\<lparr>dl_octets := dl_octets c + sz, dl_pkts := dl_pkts c + 1\<rparr>)"

definition volume_reached :: "bool \<Rightarrow> volume_limit \<Rightarrow> u64 \<Rightarrow> bool" where
  "volume_reached enabled l vol \<longleftrightarrow> enabled \<and> vl_tovol l \<and> vol \<ge> vl_total_volume l"

definition volume_since :: "counters \<Rightarrow> counters \<Rightarrow> volume_measurement" where
  "volume_since c l =
     \<lparr>vm_flags = 0x3f, vm_total_volume = total_octets c - total_octets l,
      vm_uplink_volume = ul_octets c - ul_octets l, vm_downlink_volume = dl_octets c - dl_octets l,
      vm_total_n_packets = total_pkts c - total_pkts l, vm_uplink_n_packets = ul_pkts c - ul_pkts l,
      vm_downlink_n_packets = dl_pkts c - dl_pkts l\<rparr>"

text \<open>\<^verbatim>\<open>upf_sess_urr_acc_fill_usage_report\<close>, on the entry \<open>r\<close> of the report.\<close>

definition fill_entry :: "int \<Rightarrow> ogs_pfcp_urr \<Rightarrow> urr_acc \<Rightarrow> usage_report \<Rightarrow> usage_report" where
  "fill_entry now u a r =
     (let last_ts = (if last_timestamp a \<noteq> 0 then last_timestamp a else ogs_time_from_ntp32 (time_start a));
          vol = volume_since (acc_now a) (last_report a);
          dur = (if now \<ge> last_ts
                 then word_of_int ((now - last_ts + OGS_USEC_PER_SEC div 2) div OGS_USEC_PER_SEC)
                 else ur_dur r);
          t = ur_trigger r;
          t = (if urr_quota_validity_time u > 0 \<and> dur \<ge> urr_quota_validity_time u
               then t\<lparr>tr_quota_validity_time := True\<rparr> else t);
          t = (if urr_time_quota u > 0 \<and> dur \<ge> urr_time_quota u then t\<lparr>tr_time_quota := True\<rparr> else t);
          t = (if urr_time_threshold u > 0 \<and> dur \<ge> urr_time_threshold u
               then t\<lparr>tr_time_threshold := True\<rparr> else t);
          t = (if volume_reached (rt_volume_quota (urr_rep_triggers u)) (urr_vol_quota u) (vm_total_volume vol)
               then t\<lparr>tr_volume_quota := True\<rparr> else t);
          t = (if volume_reached (rt_volume_threshold (urr_rep_triggers u)) (urr_vol_threshold u) (vm_total_volume vol)
               then t\<lparr>tr_volume_threshold := True\<rparr> else t)
      in r\<lparr>ur_id := urr_id u, ur_seqn := report_seqn a, ur_start_time := time_start a,
           ur_end_time := ogs_time_to_ntp32 now, ur_vol := vol, ur_dur := dur,
           ur_time_of_first_packet := ogs_time_to_ntp32 (time_of_first_packet a),
           ur_time_of_last_packet := ogs_time_to_ntp32 (time_of_last_packet a), ur_trigger := t\<rparr>)"

definition upf_sess_urr_acc_fill_usage_report ::
  "int \<Rightarrow> urr_acc list \<Rightarrow> ogs_pfcp_urr \<Rightarrow> user_plane_report \<Rightarrow> nat \<Rightarrow> (urr_acc list \<times> user_plane_report) exec" where
  "upf_sess_urr_acc_fill_usage_report now accs u rep idx =
     (if \<not> urr_id_ok u then Abort
      else let a = acc_of accs u
           in Ret (set_acc accs u (a\<lparr>report_seqn := report_seqn a + 1\<rparr>),
                   rep\<lparr>rp_type_usage_report := True,
                       rp_usage_report := (rp_usage_report rep)
                         [idx := fill_entry now u a (rp_usage_report rep ! idx)]\<rparr>))"

definition upf_sess_urr_acc_snapshot :: "int \<Rightarrow> urr_acc list \<Rightarrow> ogs_pfcp_urr \<Rightarrow> urr_acc list exec" where
  "upf_sess_urr_acc_snapshot now accs u =
     (if \<not> urr_id_ok u then Abort
      else let a = acc_of accs u
           in Ret (set_acc accs u (a\<lparr>last_report := acc_now a, last_timestamp := now\<rparr>)))"

text \<open>
  The three timers. Each is added to the manager on first use and then (re)started; an
  exhausted pool of timers makes \<^verbatim>\<open>ogs_timer_start\<close> assert. The data of the callback is
  \<open>cb\<close>.
\<close>

definition use_timer :: "'c timer_mgr \<Rightarrow> 'c \<Rightarrow> nat option \<Rightarrow> 'c timer_mgr \<times> nat option" where
  "use_timer mgr cb t = (case t of None \<Rightarrow> ogs_timer_add mgr cb | Some n \<Rightarrow> (mgr, Some n))"

definition start_timer :: "int \<Rightarrow> 'c timer_mgr \<Rightarrow> nat option \<Rightarrow> u32 \<Rightarrow> 'c timer_mgr exec" where
  "start_timer mclk mgr t secs =
     (case t of None \<Rightarrow> Abort | Some n \<Rightarrow> ogs_timer_start mclk mgr n (ogs_time_from_sec secs))"

definition validity_time_setup :: "int \<Rightarrow> 'c \<Rightarrow> 'c urr_state \<Rightarrow> ogs_pfcp_urr \<Rightarrow> 'c urr_state exec" where
  "validity_time_setup mclk cb s u =
     (if \<not> urr_id_ok u then Abort
      else let a = acc_of (us_acc s) u; (mgr, t) = use_timer (us_mgr s) cb (t_validity_time a)
           in exec_bind (start_timer mclk mgr t (urr_quota_validity_time u))
                (\<lambda>mgr. Ret (s\<lparr>us_mgr := mgr,
                   us_acc := set_acc (us_acc s) u (a\<lparr>reporting_enabled := True, t_validity_time := t\<rparr>)\<rparr>)))"

definition time_quota_setup :: "int \<Rightarrow> 'c \<Rightarrow> 'c urr_state \<Rightarrow> ogs_pfcp_urr \<Rightarrow> 'c urr_state exec" where
  "time_quota_setup mclk cb s u =
     (if \<not> urr_id_ok u then Abort
      else let a = acc_of (us_acc s) u; (mgr, t) = use_timer (us_mgr s) cb (t_time_quota a)
           in exec_bind (start_timer mclk mgr t (urr_time_quota u))
                (\<lambda>mgr. Ret (s\<lparr>us_mgr := mgr,
                   us_acc := set_acc (us_acc s) u (a\<lparr>reporting_enabled := True, t_time_quota := t\<rparr>)\<rparr>)))"

definition time_threshold_setup :: "int \<Rightarrow> 'c \<Rightarrow> 'c urr_state \<Rightarrow> ogs_pfcp_urr \<Rightarrow> 'c urr_state exec" where
  "time_threshold_setup mclk cb s u =
     (if \<not> urr_id_ok u then Abort
      else let a = acc_of (us_acc s) u; (mgr, t) = use_timer (us_mgr s) cb (t_time_threshold a)
           in exec_bind (start_timer mclk mgr t (urr_time_threshold u))
                (\<lambda>mgr. Ret (s\<lparr>us_mgr := mgr,
                   us_acc := set_acc (us_acc s) u (a\<lparr>reporting_enabled := True, t_time_threshold := t\<rparr>)\<rparr>)))"

definition upf_sess_urr_acc_timers_setup ::
  "int \<Rightarrow> int \<Rightarrow> 'c \<Rightarrow> 'c urr_state \<Rightarrow> ogs_pfcp_urr \<Rightarrow> 'c urr_state exec" where
  "upf_sess_urr_acc_timers_setup now mclk cb s u =
     (if \<not> urr_id_ok u then Abort
      else let s = s\<lparr>us_acc := set_acc (us_acc s) u ((acc_of (us_acc s) u)\<lparr>time_start := ogs_time_to_ntp32 now\<rparr>)\<rparr>;
               tr = urr_rep_triggers u
           in exec_bind (if rt_quota_validity_time tr \<and> urr_quota_validity_time u > 0
                         then validity_time_setup mclk cb s u else Ret s) (\<lambda>s.
              exec_bind (if rt_time_quota tr \<and> urr_time_quota u > 0
                         then time_quota_setup mclk cb s u else Ret s) (\<lambda>s.
              if rt_time_threshold tr \<and> urr_time_threshold u > 0
              then time_threshold_setup mclk cb s u else Ret s)))"

text \<open>A report of one URR: fill, count, snapshot, send.\<close>

definition report_urr ::
  "int \<Rightarrow> bool \<Rightarrow> urr_acc list \<Rightarrow> ogs_pfcp_urr \<Rightarrow> (urr_acc list \<times> user_plane_report) exec" where
  "report_urr now send_ok accs u =
     exec_bind (upf_sess_urr_acc_fill_usage_report now accs u zero_report 0) (\<lambda>(accs, rep).
     exec_bind (upf_sess_urr_acc_snapshot now accs u) (\<lambda>accs.
     if send_ok then Ret (accs, rep\<lparr>rp_num_of_usage_report := 1\<rparr>) else Abort))"

definition counted :: "int \<Rightarrow> urr_acc \<Rightarrow> u64 \<Rightarrow> bool \<Rightarrow> urr_acc" where
  "counted now a sz is_uplink =
     a\<lparr>acc_now := count_packet (acc_now a) sz is_uplink, time_of_last_packet := now,
       time_of_first_packet := (if time_of_first_packet a = 0 then now else time_of_first_packet a)\<rparr>"

definition upf_sess_urr_acc_add ::
  "int \<Rightarrow> int \<Rightarrow> 'c \<Rightarrow> bool \<Rightarrow> 'c urr_state \<Rightarrow> ogs_pfcp_urr \<Rightarrow> u64 \<Rightarrow> bool \<Rightarrow>
     ('c urr_state \<times> user_plane_report option) exec" where
  "upf_sess_urr_acc_add now mclk cb send_ok s u sz is_uplink =
     (if \<not> urr_id_ok u then Abort
      else let a = counted now (acc_of (us_acc s) u) sz is_uplink;
               s = s\<lparr>us_acc := set_acc (us_acc s) u a\<rparr>;
               vol = total_octets (acc_now a) - total_octets (last_report a)
           in if volume_reached (rt_volume_quota (urr_rep_triggers u)) (urr_vol_quota u) vol \<or>
                 volume_reached (rt_volume_threshold (urr_rep_triggers u)) (urr_vol_threshold u) vol
              then exec_bind (report_urr now send_ok (us_acc s) u) (\<lambda>(accs, rep).
                   exec_bind (upf_sess_urr_acc_timers_setup now mclk cb (s\<lparr>us_acc := accs\<rparr>) u)
                     (\<lambda>s. Ret (s, Some rep)))
              else Ret (s, None))"

definition upf_sess_urr_acc_timers_cb ::
  "int \<Rightarrow> int \<Rightarrow> 'c \<Rightarrow> bool \<Rightarrow> 'c urr_state \<Rightarrow> ogs_pfcp_urr \<Rightarrow> ('c urr_state \<times> user_plane_report option) exec" where
  "upf_sess_urr_acc_timers_cb now mclk cb send_ok s u =
     (let tr = urr_rep_triggers u
      in exec_bind (if rt_quota_validity_time tr \<or> rt_time_quota tr \<or> rt_time_threshold tr
                    then exec_bind (report_urr now send_ok (us_acc s) u)
                           (\<lambda>(accs, rep). Ret (s\<lparr>us_acc := accs\<rparr>, Some rep))
                    else Ret (s, None)) (\<lambda>(s, rep).
         exec_bind (upf_sess_urr_acc_timers_setup now mclk cb s u) (\<lambda>s. Ret (s, rep))))"

definition drop_timer :: "'c timer_mgr \<Rightarrow> nat option \<Rightarrow> 'c timer_mgr exec" where
  "drop_timer mgr t = (case t of None \<Rightarrow> Ret mgr | Some n \<Rightarrow> ogs_timer_delete mgr n)"

fun remove_accs :: "'c timer_mgr \<Rightarrow> urr_acc list \<Rightarrow> ('c timer_mgr \<times> urr_acc list) exec" where
  "remove_accs mgr [] = Ret (mgr, [])"
| "remove_accs mgr (a # as) =
     exec_bind (drop_timer mgr (t_time_threshold a)) (\<lambda>mgr.
     exec_bind (drop_timer mgr (t_validity_time a)) (\<lambda>mgr.
     exec_bind (drop_timer mgr (t_time_quota a)) (\<lambda>mgr.
     exec_bind (remove_accs mgr as) (\<lambda>(mgr, as).
       Ret (mgr, a\<lparr>t_time_threshold := None, t_validity_time := None, t_time_quota := None\<rparr> # as)))))"

definition upf_sess_urr_acc_remove_all :: "'c urr_state \<Rightarrow> 'c urr_state exec" where
  "upf_sess_urr_acc_remove_all s =
     exec_bind (remove_accs (us_mgr s) (us_acc s)) (\<lambda>(mgr, as). Ret (s\<lparr>us_mgr := mgr, us_acc := as\<rparr>))"

text \<open>
  The report of \<^verbatim>\<open>upf_n4_build_session_deletion_response\<close>: one entry per URR of the session.
\<close>

fun deletion_entries ::
  "int \<Rightarrow> urr_acc list \<Rightarrow> ogs_pfcp_urr list \<Rightarrow> user_plane_report \<Rightarrow> nat \<Rightarrow>
     (urr_acc list \<times> user_plane_report \<times> nat) exec" where
  "deletion_entries now accs [] rep n = Ret (accs, rep, n)"
| "deletion_entries now accs (u # us) rep n =
     (if \<not> n < length (rp_usage_report rep) then Abort
      else exec_bind (upf_sess_urr_acc_fill_usage_report now accs u rep n) (\<lambda>(accs, rep).
        (let r = rp_usage_report rep ! n;
             rep = rep\<lparr>rp_usage_report := (rp_usage_report rep)
                     [n := r\<lparr>ur_trigger := (ur_trigger r)\<lparr>tr_termination_report := True\<rparr>\<rparr>]\<rparr>
         in exec_bind (upf_sess_urr_acc_snapshot now accs u)
              (\<lambda>accs. deletion_entries now accs us rep (n + 1)))))"

definition deletion_report ::
  "int \<Rightarrow> urr_acc list \<Rightarrow> ogs_pfcp_urr list \<Rightarrow> (urr_acc list \<times> user_plane_report) exec" where
  "deletion_report now accs us =
     exec_bind (deletion_entries now accs us zero_report 0)
       (\<lambda>(accs, rep, n). Ret (accs, rep\<lparr>rp_num_of_usage_report := n\<rparr>))"

section \<open>Counters\<close>

definition balanced :: "counters \<Rightarrow> bool" where
  "balanced c \<longleftrightarrow> total_octets c = ul_octets c + dl_octets c \<and> total_pkts c = ul_pkts c + dl_pkts c"

text \<open>The volume no report has carried yet.\<close>

definition unreported :: "urr_acc \<Rightarrow> u64" where
  "unreported a = total_octets (acc_now a) - total_octets (last_report a)"

definition acc_ok :: "urr_acc \<Rightarrow> bool" where
  "acc_ok a \<longleftrightarrow> balanced (acc_now a) \<and> balanced (last_report a)"

definition accs_ok :: "urr_acc list \<Rightarrow> bool" where
  "accs_ok accs \<longleftrightarrow> length accs = OGS_MAX_NUM_OF_URR \<and> (\<forall>a \<in> set accs. acc_ok a)"

lemma count_packet_balanced: "balanced c \<Longrightarrow> balanced (count_packet c sz up)"
  by (simp add: balanced_def count_packet_def Let_def)

lemma count_packet_total [simp]: "total_octets (count_packet c sz up) = total_octets c + sz"
  by (simp add: count_packet_def Let_def)

lemma volume_since_balanced:
  "balanced c \<Longrightarrow> balanced l \<Longrightarrow>
     vm_uplink_volume (volume_since c l) + vm_downlink_volume (volume_since c l) = vm_total_volume (volume_since c l)"
  by (simp add: balanced_def volume_since_def)

lemma index_ok [simp]: "urr_id_ok u \<Longrightarrow> urr_id u - Suc 0 < OGS_MAX_NUM_OF_URR"
  by (auto simp: urr_id_ok_def)

lemma acc_of_set_acc [simp]:
  "urr_id_ok u \<Longrightarrow> length accs = OGS_MAX_NUM_OF_URR \<Longrightarrow> acc_of (set_acc accs u a) u = a"
  by (simp add: acc_of_def set_acc_def)

lemma acc_of_set_other [simp]:
  "urr_id_ok u \<Longrightarrow> urr_id_ok v \<Longrightarrow> urr_id v \<noteq> urr_id u \<Longrightarrow> acc_of (set_acc accs u a) v = acc_of accs v"
  by (auto simp: acc_of_def set_acc_def urr_id_ok_def nth_list_update)

lemma length_set_acc [simp]: "length (set_acc accs u a) = length accs"
  by (simp add: set_acc_def)

lemma set_acc_set_acc [simp]: "set_acc (set_acc accs u a) u b = set_acc accs u b"
  by (simp add: set_acc_def)

lemma acc_ok_of: "accs_ok accs \<Longrightarrow> urr_id_ok u \<Longrightarrow> acc_ok (acc_of accs u)"
  by (simp add: accs_ok_def acc_of_def)

lemma accs_ok_set: "accs_ok accs \<Longrightarrow> acc_ok a \<Longrightarrow> accs_ok (set_acc accs u a)"
  using set_update_subset_insert [of accs "urr_id u - 1" a] by (auto simp: accs_ok_def set_acc_def)

text \<open>What an accumulator counts, apart from its timers and start time.\<close>

definition same_counts :: "urr_acc \<Rightarrow> urr_acc \<Rightarrow> bool" where
  "same_counts a b \<longleftrightarrow> acc_now a = acc_now b \<and> last_report a = last_report b \<and> report_seqn a = report_seqn b"

lemma same_counts_trans [trans]: "same_counts a b \<Longrightarrow> same_counts b c \<Longrightarrow> same_counts a c"
  by (simp add: same_counts_def)

lemma same_counts_unreported: "same_counts a b \<Longrightarrow> unreported a = unreported b"
  by (simp add: same_counts_def unreported_def)

lemma same_counts_ok: "same_counts a b \<Longrightarrow> acc_ok a = acc_ok b"
  by (simp add: same_counts_def acc_ok_def)

text \<open>The set-up of the timers changes no count.\<close>

definition counts_kept :: "urr_acc list \<Rightarrow> urr_acc list \<Rightarrow> bool" where
  "counts_kept accs accs' \<longleftrightarrow> list_all2 same_counts accs' accs"

lemma counts_kept_refl [simp]: "counts_kept accs accs"
  by (simp add: counts_kept_def list.rel_refl same_counts_def)

lemma counts_kept_trans: "counts_kept a b \<Longrightarrow> counts_kept b c \<Longrightarrow> counts_kept a c"
  unfolding counts_kept_def by (rule list_all2_trans [where ?P1.0 = same_counts]) (auto intro: same_counts_trans)

lemma counts_kept_set:
  assumes "urr_id_ok u" "length accs = OGS_MAX_NUM_OF_URR" "same_counts a (acc_of accs u)"
  shows "counts_kept accs (set_acc accs u a)"
  unfolding counts_kept_def list_all2_conv_all_nth using assms
  by (auto simp: set_acc_def acc_of_def nth_list_update same_counts_def)

lemma counts_kept_of:
  "counts_kept accs accs' \<Longrightarrow> urr_id_ok u \<Longrightarrow> length accs = OGS_MAX_NUM_OF_URR \<Longrightarrow>
     same_counts (acc_of accs' u) (acc_of accs u)"
  by (simp add: counts_kept_def acc_of_def list_all2_conv_all_nth)

lemma counts_kept_length: "counts_kept accs accs' \<Longrightarrow> length accs' = length accs"
  by (simp add: counts_kept_def list_all2_lengthD)

lemma counts_kept_ok: "counts_kept accs accs' \<Longrightarrow> accs_ok accs \<Longrightarrow> accs_ok accs'"
  by (auto simp: counts_kept_def accs_ok_def list_all2_conv_all_nth in_set_conv_nth)
     (metis nth_mem same_counts_ok)

lemma setup_counts:
  assumes "length (us_acc s) = OGS_MAX_NUM_OF_URR"
  shows "validity_time_setup m cb s u = Ret s' \<Longrightarrow> counts_kept (us_acc s) (us_acc s')"
    and "time_quota_setup m cb s u = Ret s' \<Longrightarrow> counts_kept (us_acc s) (us_acc s')"
    and "time_threshold_setup m cb s u = Ret s' \<Longrightarrow> counts_kept (us_acc s) (us_acc s')"
  using assms
  by (auto simp: validity_time_setup_def time_quota_setup_def time_threshold_setup_def Let_def same_counts_def
      split: if_splits prod.splits intro!: counts_kept_set)

lemma timers_setup_counts:
  assumes "upf_sess_urr_acc_timers_setup now m cb s u = Ret s'" "length (us_acc s) = OGS_MAX_NUM_OF_URR"
  shows "counts_kept (us_acc s) (us_acc s')"
proof -
  have u: "urr_id_ok u" using assms(1) by (auto simp: upf_sess_urr_acc_timers_setup_def split: if_splits)
  define s0 where "s0 = s\<lparr>us_acc := set_acc (us_acc s) u ((acc_of (us_acc s) u)\<lparr>time_start := ogs_time_to_ntp32 now\<rparr>)\<rparr>"
  have k0: "counts_kept (us_acc s) (us_acc s0)"
    using u assms(2) by (simp add: s0_def counts_kept_set same_counts_def)
  obtain s1 s2 where
    s1: "(if rt_quota_validity_time (urr_rep_triggers u) \<and> urr_quota_validity_time u > 0
          then validity_time_setup m cb s0 u else Ret s0) = Ret s1"
    and s2: "(if rt_time_quota (urr_rep_triggers u) \<and> urr_time_quota u > 0
          then time_quota_setup m cb s1 u else Ret s1) = Ret s2"
    and s3: "(if rt_time_threshold (urr_rep_triggers u) \<and> urr_time_threshold u > 0
          then time_threshold_setup m cb s2 u else Ret s2) = Ret s'"
    using assms(1) u by (auto simp: upf_sess_urr_acc_timers_setup_def Let_def s0_def [symmetric])
  have l0: "length (us_acc s0) = OGS_MAX_NUM_OF_URR" using counts_kept_length [OF k0] assms(2) by simp
  have k1: "counts_kept (us_acc s0) (us_acc s1)"
    using s1 setup_counts(1) [OF l0] by (auto split: if_splits)
  have l1: "length (us_acc s1) = OGS_MAX_NUM_OF_URR" using counts_kept_length [OF k1] l0 by simp
  have k2: "counts_kept (us_acc s1) (us_acc s2)"
    using s2 setup_counts(2) [OF l1] by (auto split: if_splits)
  have l2: "length (us_acc s2) = OGS_MAX_NUM_OF_URR" using counts_kept_length [OF k2] l1 by simp
  have k3: "counts_kept (us_acc s2) (us_acc s')"
    using s3 setup_counts(3) [OF l2] by (auto split: if_splits)
  from k0 k1 k2 k3 show ?thesis by (blast intro: counts_kept_trans)
qed

section \<open>Reports\<close>

definition volume_trigger :: "ogs_pfcp_urr \<Rightarrow> u64 \<Rightarrow> bool" where
  "volume_trigger u v \<longleftrightarrow>
     volume_reached (rt_volume_quota (urr_rep_triggers u)) (urr_vol_quota u) v \<or>
     volume_reached (rt_volume_threshold (urr_rep_triggers u)) (urr_vol_threshold u) v"

lemma fill_entry_simps [simp]:
  "ur_id (fill_entry now u a r) = urr_id u" "ur_seqn (fill_entry now u a r) = report_seqn a"
  "ur_vol (fill_entry now u a r) = volume_since (acc_now a) (last_report a)"
  by (simp_all add: fill_entry_def Let_def)

lemma fill_entry_volume_triggers:
  assumes "\<not> tr_volume_quota (ur_trigger r)" "\<not> tr_volume_threshold (ur_trigger r)"
  shows "tr_volume_quota (ur_trigger (fill_entry now u a r)) \<longleftrightarrow>
      volume_reached (rt_volume_quota (urr_rep_triggers u)) (urr_vol_quota u) (unreported a)"
    "tr_volume_threshold (ur_trigger (fill_entry now u a r)) \<longleftrightarrow>
      volume_reached (rt_volume_threshold (urr_rep_triggers u)) (urr_vol_threshold u) (unreported a)"
  using assms by (simp_all add: fill_entry_def Let_def unreported_def volume_since_def)

lemma report_urr_Ret:
  assumes u: "urr_id_ok u" and l: "length accs = OGS_MAX_NUM_OF_URR"
  shows "report_urr now send_ok accs u =
    (if send_ok
     then Ret (set_acc accs u ((acc_of accs u)\<lparr>report_seqn := report_seqn (acc_of accs u) + 1,
                  last_report := acc_now (acc_of accs u), last_timestamp := now\<rparr>),
               \<lparr>rp_type_usage_report = True,
                rp_usage_report = (rp_usage_report zero_report)[0 := fill_entry now u (acc_of accs u) zero_usage_report],
                rp_num_of_usage_report = 1\<rparr>)
     else Abort)"
  using u l by (simp add: report_urr_def upf_sess_urr_acc_fill_usage_report_def
      upf_sess_urr_acc_snapshot_def Let_def zero_report_def OGS_MAX_NUM_OF_URR_def)

lemma acc_add_eq:
  assumes "urr_id_ok u"
  shows "upf_sess_urr_acc_add now m cb send_ok s u sz up =
    (let b = counted now (acc_of (us_acc s) u) sz up; s1 = s\<lparr>us_acc := set_acc (us_acc s) u b\<rparr>
     in if volume_trigger u (unreported b)
        then exec_bind (report_urr now send_ok (us_acc s1) u) (\<lambda>(accs, rep).
             exec_bind (upf_sess_urr_acc_timers_setup now m cb (s1\<lparr>us_acc := accs\<rparr>) u) (\<lambda>s. Ret (s, Some rep)))
        else Ret (s1, None))"
  using assms unfolding upf_sess_urr_acc_add_def volume_trigger_def unreported_def Let_def by (simp only: if_False not_not simp_thms)

lemma acc_add_cases:
  assumes r: "upf_sess_urr_acc_add now m cb send_ok s u sz up = Ret (s', rep)"
    and ok: "accs_ok (us_acc s)"
  defines "v \<equiv> unreported (acc_of (us_acc s) u) + sz"
  shows "urr_id_ok u \<and> accs_ok (us_acc s') \<and>
    (\<forall>w. urr_id_ok w \<longrightarrow> urr_id w \<noteq> urr_id u \<longrightarrow> same_counts (acc_of (us_acc s') w) (acc_of (us_acc s) w)) \<and>
    (if volume_trigger u v
     then unreported (acc_of (us_acc s') u) = 0 \<and>
       report_seqn (acc_of (us_acc s') u) = report_seqn (acc_of (us_acc s) u) + 1 \<and>
       (\<exists>q. rep = Some q \<and> rp_num_of_usage_report q = 1 \<and> (let e = rp_usage_report q ! 0 in
          ur_id e = urr_id u \<and> ur_seqn e = report_seqn (acc_of (us_acc s) u) \<and>
          vm_total_volume (ur_vol e) = v \<and>
          vm_uplink_volume (ur_vol e) + vm_downlink_volume (ur_vol e) = v \<and>
          tr_volume_quota (ur_trigger e) = volume_reached (rt_volume_quota (urr_rep_triggers u)) (urr_vol_quota u) v \<and>
          tr_volume_threshold (ur_trigger e) = volume_reached (rt_volume_threshold (urr_rep_triggers u)) (urr_vol_threshold u) v))
     else rep = None \<and> unreported (acc_of (us_acc s') u) = v \<and>
       report_seqn (acc_of (us_acc s') u) = report_seqn (acc_of (us_acc s) u))"
proof -
  have u: "urr_id_ok u" using r by (auto simp: upf_sess_urr_acc_add_def split: if_splits)
  have l: "length (us_acc s) = OGS_MAX_NUM_OF_URR" using ok by (simp add: accs_ok_def)
  define a where "a = acc_of (us_acc s) u"
  define b where "b = counted now a sz up"
  define s1 where "s1 = s\<lparr>us_acc := set_acc (us_acc s) u b\<rparr>"
  have vb: "unreported b = v" by (simp add: b_def v_def unreported_def a_def counted_def)
  have bok: "acc_ok b"
    using acc_ok_of [OF ok u] count_packet_balanced by (auto simp: acc_ok_def b_def a_def counted_def)
  have ok1: "accs_ok (us_acc s1)" using accs_ok_set [OF ok bok] by (simp add: s1_def)
  have l1: "length (us_acc s1) = OGS_MAX_NUM_OF_URR" using l by (simp add: s1_def)
  have b1: "acc_of (us_acc s1) u = b" using u l by (simp add: s1_def)
  have eq: "upf_sess_urr_acc_add now m cb send_ok s u sz up =
      (if volume_trigger u v
       then exec_bind (report_urr now send_ok (us_acc s1) u) (\<lambda>(accs, rep).
            exec_bind (upf_sess_urr_acc_timers_setup now m cb (s1\<lparr>us_acc := accs\<rparr>) u) (\<lambda>s. Ret (s, Some rep)))
       else Ret (s1, None))"
    using acc_add_eq [OF u, of now m cb send_ok s sz up] vb by (simp add: Let_def a_def b_def s1_def)
  show ?thesis
  proof (cases "volume_trigger u v")
    case False
    with r eq have "s' = s1" "rep = None" by simp_all
    with False u l ok1 vb b1 show ?thesis by (auto simp: s1_def same_counts_def b_def a_def counted_def)
  next
    case True
    define c where "c = b\<lparr>report_seqn := report_seqn b + 1, last_report := acc_now b, last_timestamp := now\<rparr>"
    define s2 where "s2 = s1\<lparr>us_acc := set_acc (us_acc s1) u c\<rparr>"
    define q where "q = \<lparr>rp_type_usage_report = True,
                rp_usage_report = (rp_usage_report zero_report)[0 := fill_entry now u b zero_usage_report],
                rp_num_of_usage_report = 1\<rparr>"
    from True r eq report_urr_Ret [OF u l1, of now send_ok] have t:
      "upf_sess_urr_acc_timers_setup now m cb s2 u = Ret s'" "rep = Some q"
      by (auto simp: b1 c_def s2_def q_def split: if_splits)
    have l2: "length (us_acc s2) = OGS_MAX_NUM_OF_URR" using l1 by (simp add: s2_def)
    note k = timers_setup_counts [OF t(1) l2]
    have c2: "acc_of (us_acc s2) u = c" using u l1 by (simp add: s2_def)
    have cok: "acc_ok c" using bok by (simp add: c_def acc_ok_def)
    have ok': "accs_ok (us_acc s')"
      using counts_kept_ok [OF k] accs_ok_set [OF ok1 cok] by (simp add: s2_def)
    have sc: "same_counts (acc_of (us_acc s') u) c" using counts_kept_of [OF k u l2] c2 by simp
    then have fin: "unreported (acc_of (us_acc s') u) = 0" "report_seqn (acc_of (us_acc s') u) = report_seqn a + 1"
      by (simp_all add: same_counts_def unreported_def c_def b_def counted_def)
    have oth: "same_counts (acc_of (us_acc s') w) (acc_of (us_acc s) w)" if "urr_id_ok w" "urr_id w \<noteq> urr_id u" for w
      using counts_kept_of [OF k that(1) l2] that u by (simp add: s2_def s1_def)
    have "rp_usage_report q ! 0 = fill_entry now u b zero_usage_report"
      by (simp add: q_def zero_report_def OGS_MAX_NUM_OF_URR_def)
    then have ent: "let e = rp_usage_report q ! 0 in
          ur_id e = urr_id u \<and> ur_seqn e = report_seqn a \<and> vm_total_volume (ur_vol e) = v \<and>
          vm_uplink_volume (ur_vol e) + vm_downlink_volume (ur_vol e) = v \<and>
          tr_volume_quota (ur_trigger e) = volume_reached (rt_volume_quota (urr_rep_triggers u)) (urr_vol_quota u) v \<and>
          tr_volume_threshold (ur_trigger e) = volume_reached (rt_volume_threshold (urr_rep_triggers u)) (urr_vol_threshold u) v"
      using True volume_since_balanced [of "acc_now b" "last_report b"] bok vb
        fill_entry_volume_triggers [of zero_usage_report now u b]
      by (simp add: Let_def acc_ok_def volume_trigger_def zero_usage_report_def)
         (simp add: volume_since_def unreported_def b_def counted_def)
    have "rp_num_of_usage_report q = 1" by (simp add: q_def)
    with True u ok' fin oth ent t(2) show ?thesis by (simp add: a_def)
  qed
qed

section \<open>Timers\<close>

definition opt_list :: "'a option \<Rightarrow> 'a list" where
  "opt_list x = (case x of None \<Rightarrow> [] | Some y \<Rightarrow> [y])"

lemma opt_list_simps [simp]: "opt_list None = []" "opt_list (Some y) = [y]"
  by (simp_all add: opt_list_def)

lemma in_opt_list [simp]: "y \<in> set (opt_list x) \<longleftrightarrow> x = Some y"
  by (cases x) auto

text \<open>The timers an accumulator owns.\<close>

definition tids :: "urr_acc \<Rightarrow> nat list" where
  "tids a = opt_list (t_time_threshold a) @ opt_list (t_validity_time a) @ opt_list (t_time_quota a)"

lemma add_armed:
  assumes "ogs_timer_add m cb = (m', Some t)" "t \<notin> set (pending m)"
  shows "armed m' = armed m"
  using assms by (auto simp: ogs_timer_add_def armed_def fun_eq_iff split: prod.splits option.splits)

lemma delete_armed:
  assumes "timers_ok m" "t \<in> allocated (tm_pool m)"
  shows "\<exists>m'. ogs_timer_delete m t = Ret m' \<and> timers_ok m' \<and>
    allocated (tm_pool m') = allocated (tm_pool m) - {t} \<and> armed m' = (armed m)(t := None)"
proof -
  obtain m1 where m1: "ogs_timer_stop m t = Ret m1" "armed m1 = (armed m)(t := None)"
    using tmr.stop_law [OF assms] by blast
  obtain m' where m': "ogs_timer_delete m t = Ret m'" "timers_ok m'"
    "allocated (tm_pool m') = allocated (tm_pool m) - {t}"
    using delete_ok [OF assms] by blast
  have "armed m' = armed m1"
    using m'(1) m1(1) by (auto simp: ogs_timer_delete_def armed_def)
  with m' m1(2) show ?thesis by auto
qed

lemma use_start_ok:
  assumes ok: "timers_ok mgr" and t: "\<forall>n. t = Some n \<longrightarrow> n \<in> allocated (tm_pool mgr)"
    and av: "t = None \<longrightarrow> 0 < pool_avail (tm_pool mgr)" and secs: "secs > 0"
  obtains mgr1 n mgr' where "use_timer mgr cb t = (mgr1, Some n)" "start_timer mclk mgr1 (Some n) secs = Ret mgr'"
    "timers_ok mgr'" "allocated (tm_pool mgr') = insert n (allocated (tm_pool mgr))"
    "armed mgr' = (armed mgr)(n \<mapsto> mclk + ogs_time_from_sec secs)"
    "t = Some n \<or> t = None \<and> n \<notin> allocated (tm_pool mgr)"
    "pool_avail (tm_pool mgr) \<le> Suc (pool_avail (tm_pool mgr'))"
proof -
  have d: "ogs_time_from_sec secs \<noteq> 0"
    using secs by (simp add: ogs_time_from_sec_def OGS_USEC_PER_SEC_def word_gt_0 uint_0_iff)
  obtain mgr1 n where u: "use_timer mgr cb t = (mgr1, Some n)" "timers_ok mgr1" "n \<in> allocated (tm_pool mgr1)"
    "allocated (tm_pool mgr1) = insert n (allocated (tm_pool mgr))" "armed mgr1 = armed mgr"
    "t = Some n \<or> t = None \<and> n \<notin> allocated (tm_pool mgr)"
    "pool_avail (tm_pool mgr) \<le> Suc (pool_avail (tm_pool mgr1))"
  proof (cases t)
    case (Some n)
    with ok t that [of mgr n] show ?thesis by (auto simp: use_timer_def insert_absorb)
  next
    case None
    obtain p n where p: "ogs_pool_alloc (tm_pool mgr) = (p, Some n)"
      using alloc_Some [of "tm_pool mgr"] ok av None by (metis timers_ok_def)
    then obtain mgr1 where a: "ogs_timer_add mgr cb = (mgr1, Some n)" and tp: "tm_pool mgr1 = p"
      by (simp add: ogs_timer_add_def)
    note ao = add_ok [OF ok a]
    have "pool_avail (tm_pool mgr) \<le> Suc (pool_avail p)"
      using p by (auto simp: ogs_pool_alloc_def Let_def split: if_splits)
    with that [of mgr1 n] ao add_armed [OF a] a None tp show ?thesis by (auto simp: use_timer_def)
  qed
  obtain mgr' where "ogs_timer_start mclk mgr1 n (ogs_time_from_sec secs) = Ret mgr'" "timers_ok mgr'"
    "tm_pool mgr' = tm_pool mgr1" "armed mgr' = (armed mgr1)(n \<mapsto> mclk + ogs_time_from_sec secs)"
    using start_ok [OF u(2,3) d, of mclk] tmr.start_law [OF u(2,3) d, of mclk] by (metis exec.inject)
  with u that [of mgr1 n mgr'] show ?thesis by (simp add: start_timer_def)
qed

definition setup_inv :: "'c urr_state \<Rightarrow> ogs_pfcp_urr \<Rightarrow> nat \<Rightarrow> bool" where
  "setup_inv s u k \<longleftrightarrow> urr_id_ok u \<and> length (us_acc s) = OGS_MAX_NUM_OF_URR \<and> timers_ok (us_mgr s) \<and>
     set (tids (acc_of (us_acc s) u)) \<subseteq> allocated (tm_pool (us_mgr s)) \<and>
     distinct (tids (acc_of (us_acc s) u)) \<and> k \<le> pool_avail (tm_pool (us_mgr s))"

text \<open>One timer set up: \<open>n\<close> is armed, is the old one or fresh, and nothing else moves.\<close>

definition armed_step :: "int \<Rightarrow> u32 \<Rightarrow> 'c urr_state \<Rightarrow> 'c urr_state \<Rightarrow> ogs_pfcp_urr \<Rightarrow> nat \<Rightarrow> bool" where
  "armed_step mclk secs s s' u n \<longleftrightarrow>
     armed (us_mgr s') = (armed (us_mgr s))(n \<mapsto> mclk + ogs_time_from_sec secs) \<and>
     allocated (tm_pool (us_mgr s')) = insert n (allocated (tm_pool (us_mgr s))) \<and>
     (n \<in> set (tids (acc_of (us_acc s) u)) \<or> n \<notin> allocated (tm_pool (us_mgr s)))"

lemma validity_setup_ok:
  assumes inv: "setup_inv s u (Suc k)" and secs: "urr_quota_validity_time u > 0"
  shows "\<exists>s' n. validity_time_setup mclk cb s u = Ret s' \<and> setup_inv s' u k \<and>
    armed_step mclk (urr_quota_validity_time u) s s' u n \<and>
    (let a = acc_of (us_acc s) u; a' = acc_of (us_acc s') u in t_validity_time a' = Some n \<and> (t_validity_time a = None \<or> t_validity_time a = Some n) \<and>
      t_time_quota a' = t_time_quota a \<and> t_time_threshold a' = t_time_threshold a)"
proof -
  define a where "a = acc_of (us_acc s) u"
  have i: "urr_id_ok u" "length (us_acc s) = OGS_MAX_NUM_OF_URR" "timers_ok (us_mgr s)"
    "set (tids a) \<subseteq> allocated (tm_pool (us_mgr s))" "distinct (tids a)"
    "Suc k \<le> pool_avail (tm_pool (us_mgr s))"
    using inv by (auto simp: setup_inv_def a_def)
  obtain mgr1 n mgr' where m: "use_timer (us_mgr s) cb (t_validity_time a) = (mgr1, Some n)"
    "start_timer mclk mgr1 (Some n) (urr_quota_validity_time u) = Ret mgr'" "timers_ok mgr'"
    "allocated (tm_pool mgr') = insert n (allocated (tm_pool (us_mgr s)))"
    "armed mgr' = (armed (us_mgr s))(n \<mapsto> mclk + ogs_time_from_sec (urr_quota_validity_time u))"
    "t_validity_time a = Some n \<or> t_validity_time a = None \<and> n \<notin> allocated (tm_pool (us_mgr s))"
    "pool_avail (tm_pool (us_mgr s)) \<le> Suc (pool_avail (tm_pool mgr'))"
    by (rule use_start_ok [OF i(3) _ _ secs, of "t_validity_time a" cb mclk])
       (use i in \<open>auto simp: tids_def\<close>)
  define s' where "s' = s\<lparr>us_mgr := mgr',
      us_acc := set_acc (us_acc s) u (a\<lparr>reporting_enabled := True, t_validity_time := Some n\<rparr>)\<rparr>"
  have "validity_time_setup mclk cb s u = Ret s'"
    using i m(1,2) by (simp add: validity_time_setup_def Let_def a_def [symmetric] s'_def)
  moreover have "acc_of (us_acc s') u = a\<lparr>reporting_enabled := True, t_validity_time := Some n\<rparr>"
    using i by (simp add: s'_def)
  ultimately show ?thesis
    using i m by (intro exI [of _ s'] exI [of _ n])
      (auto simp: setup_inv_def armed_step_def Let_def s'_def tids_def a_def [symmetric])
qed

lemma quota_setup_ok:
  assumes inv: "setup_inv s u (Suc k)" and secs: "urr_time_quota u > 0"
  shows "\<exists>s' n. time_quota_setup mclk cb s u = Ret s' \<and> setup_inv s' u k \<and>
    armed_step mclk (urr_time_quota u) s s' u n \<and>
    (let a = acc_of (us_acc s) u; a' = acc_of (us_acc s') u in t_time_quota a' = Some n \<and> (t_time_quota a = None \<or> t_time_quota a = Some n) \<and>
      t_validity_time a' = t_validity_time a \<and> t_time_threshold a' = t_time_threshold a)"
proof -
  define a where "a = acc_of (us_acc s) u"
  have i: "urr_id_ok u" "length (us_acc s) = OGS_MAX_NUM_OF_URR" "timers_ok (us_mgr s)"
    "set (tids a) \<subseteq> allocated (tm_pool (us_mgr s))" "distinct (tids a)"
    "Suc k \<le> pool_avail (tm_pool (us_mgr s))"
    using inv by (auto simp: setup_inv_def a_def)
  obtain mgr1 n mgr' where m: "use_timer (us_mgr s) cb (t_time_quota a) = (mgr1, Some n)"
    "start_timer mclk mgr1 (Some n) (urr_time_quota u) = Ret mgr'" "timers_ok mgr'"
    "allocated (tm_pool mgr') = insert n (allocated (tm_pool (us_mgr s)))"
    "armed mgr' = (armed (us_mgr s))(n \<mapsto> mclk + ogs_time_from_sec (urr_time_quota u))"
    "t_time_quota a = Some n \<or> t_time_quota a = None \<and> n \<notin> allocated (tm_pool (us_mgr s))"
    "pool_avail (tm_pool (us_mgr s)) \<le> Suc (pool_avail (tm_pool mgr'))"
    by (rule use_start_ok [OF i(3) _ _ secs, of "t_time_quota a" cb mclk])
       (use i in \<open>auto simp: tids_def\<close>)
  define s' where "s' = s\<lparr>us_mgr := mgr',
      us_acc := set_acc (us_acc s) u (a\<lparr>reporting_enabled := True, t_time_quota := Some n\<rparr>)\<rparr>"
  have "time_quota_setup mclk cb s u = Ret s'"
    using i m(1,2) by (simp add: time_quota_setup_def Let_def a_def [symmetric] s'_def)
  moreover have "acc_of (us_acc s') u = a\<lparr>reporting_enabled := True, t_time_quota := Some n\<rparr>"
    using i by (simp add: s'_def)
  ultimately show ?thesis
    using i m by (intro exI [of _ s'] exI [of _ n])
      (auto simp: setup_inv_def armed_step_def Let_def s'_def tids_def a_def [symmetric])
qed

lemma threshold_setup_ok:
  assumes inv: "setup_inv s u (Suc k)" and secs: "urr_time_threshold u > 0"
  shows "\<exists>s' n. time_threshold_setup mclk cb s u = Ret s' \<and> setup_inv s' u k \<and>
    armed_step mclk (urr_time_threshold u) s s' u n \<and>
    (let a = acc_of (us_acc s) u; a' = acc_of (us_acc s') u in t_time_threshold a' = Some n \<and> (t_time_threshold a = None \<or> t_time_threshold a = Some n) \<and>
      t_validity_time a' = t_validity_time a \<and> t_time_quota a' = t_time_quota a)"
proof -
  define a where "a = acc_of (us_acc s) u"
  have i: "urr_id_ok u" "length (us_acc s) = OGS_MAX_NUM_OF_URR" "timers_ok (us_mgr s)"
    "set (tids a) \<subseteq> allocated (tm_pool (us_mgr s))" "distinct (tids a)"
    "Suc k \<le> pool_avail (tm_pool (us_mgr s))"
    using inv by (auto simp: setup_inv_def a_def)
  obtain mgr1 n mgr' where m: "use_timer (us_mgr s) cb (t_time_threshold a) = (mgr1, Some n)"
    "start_timer mclk mgr1 (Some n) (urr_time_threshold u) = Ret mgr'" "timers_ok mgr'"
    "allocated (tm_pool mgr') = insert n (allocated (tm_pool (us_mgr s)))"
    "armed mgr' = (armed (us_mgr s))(n \<mapsto> mclk + ogs_time_from_sec (urr_time_threshold u))"
    "t_time_threshold a = Some n \<or> t_time_threshold a = None \<and> n \<notin> allocated (tm_pool (us_mgr s))"
    "pool_avail (tm_pool (us_mgr s)) \<le> Suc (pool_avail (tm_pool mgr'))"
    by (rule use_start_ok [OF i(3) _ _ secs, of "t_time_threshold a" cb mclk])
       (use i in \<open>auto simp: tids_def\<close>)
  define s' where "s' = s\<lparr>us_mgr := mgr',
      us_acc := set_acc (us_acc s) u (a\<lparr>reporting_enabled := True, t_time_threshold := Some n\<rparr>)\<rparr>"
  have "time_threshold_setup mclk cb s u = Ret s'"
    using i m(1,2) by (simp add: time_threshold_setup_def Let_def a_def [symmetric] s'_def)
  moreover have "acc_of (us_acc s') u = a\<lparr>reporting_enabled := True, t_time_threshold := Some n\<rparr>"
    using i by (simp add: s'_def)
  ultimately show ?thesis
    using i m by (intro exI [of _ s'] exI [of _ n])
      (auto simp: setup_inv_def armed_step_def Let_def s'_def tids_def a_def [symmetric])
qed

lemma setup_inv_le: "setup_inv s u k \<Longrightarrow> j \<le> k \<Longrightarrow> setup_inv s u j"
  by (auto simp: setup_inv_def)

definition timer_set :: "bool \<Rightarrow> int \<Rightarrow> u32 \<Rightarrow> nat option \<Rightarrow> nat option \<Rightarrow> 'c timer_mgr \<Rightarrow> bool" where
  "timer_set c mclk secs old new mgr \<longleftrightarrow>
     (if c then (old = None \<or> new = old) \<and> (\<exists>n. new = Some n \<and> armed mgr n = Some (mclk + ogs_time_from_sec secs)) else new = old)"

text \<open>A timer that is set moves no other one and takes no other node of the pool.\<close>

definition only_set :: "bool \<Rightarrow> nat option \<Rightarrow> 'c timer_mgr \<Rightarrow> 'c timer_mgr \<Rightarrow> bool" where
  "only_set c new mgr mgr' \<longleftrightarrow> allocated (tm_pool mgr') \<subseteq> allocated (tm_pool mgr) \<union> set_option new \<and>
     (\<forall>x. (c \<longrightarrow> new \<noteq> Some x) \<longrightarrow> armed mgr' x = armed mgr x)"

definition others_untouched :: "'c urr_state \<Rightarrow> 'c urr_state \<Rightarrow> ogs_pfcp_urr \<Rightarrow> bool" where
  "others_untouched s s' u \<longleftrightarrow>
     allocated (tm_pool (us_mgr s)) \<subseteq> allocated (tm_pool (us_mgr s')) \<and>
     set (tids (acc_of (us_acc s') u)) \<inter> allocated (tm_pool (us_mgr s)) \<subseteq> set (tids (acc_of (us_acc s) u)) \<and>
     (\<forall>x \<in> allocated (tm_pool (us_mgr s)) - set (tids (acc_of (us_acc s) u)).
        armed (us_mgr s') x = armed (us_mgr s) x)"

lemma others_refl [simp]: "others_untouched s s u"
  by (auto simp: others_untouched_def)

lemma others_trans:
  assumes "others_untouched s s1 u" "others_untouched s1 s2 u"
  shows "others_untouched s s2 u"
proof -
  have "armed (us_mgr s2) x = armed (us_mgr s) x"
    if x: "x \<in> allocated (tm_pool (us_mgr s))" "x \<notin> set (tids (acc_of (us_acc s) u))" for x
  proof -
    have "x \<in> allocated (tm_pool (us_mgr s1))" "x \<notin> set (tids (acc_of (us_acc s1) u))"
      using assms(1) x unfolding others_untouched_def by blast+
    with assms x show ?thesis by (simp add: others_untouched_def)
  qed
  with assms show ?thesis unfolding others_untouched_def by blast
qed

lemma others_step:
  assumes "armed_step m secs s s' u n" "set (tids (acc_of (us_acc s') u)) \<subseteq> insert n (set (tids (acc_of (us_acc s) u)))"
  shows "others_untouched s s' u"
  using assms unfolding others_untouched_def armed_step_def by auto

lemma timers_setup_ok:
  assumes inv: "setup_inv s u 3"
  defines "tr \<equiv> urr_rep_triggers u"
  shows "\<exists>s'. upf_sess_urr_acc_timers_setup now m cb s u = Ret s' \<and> setup_inv s' u 0 \<and>
    others_untouched s s' u \<and>
    (let a = acc_of (us_acc s) u; a' = acc_of (us_acc s') u; mgr = us_mgr s' in
      timer_set (rt_quota_validity_time tr \<and> urr_quota_validity_time u > 0) m (urr_quota_validity_time u)
        (t_validity_time a) (t_validity_time a') mgr \<and>
      timer_set (rt_time_quota tr \<and> urr_time_quota u > 0) m (urr_time_quota u) (t_time_quota a) (t_time_quota a') mgr \<and>
      timer_set (rt_time_threshold tr \<and> urr_time_threshold u > 0) m (urr_time_threshold u)
        (t_time_threshold a) (t_time_threshold a') mgr \<and>
      allocated (tm_pool mgr) = allocated (tm_pool (us_mgr s)) \<union> set (tids a') \<and>
      (\<forall>x. (rt_quota_validity_time tr \<and> urr_quota_validity_time u > 0 \<longrightarrow> t_validity_time a' \<noteq> Some x) \<and>
         (rt_time_quota tr \<and> urr_time_quota u > 0 \<longrightarrow> t_time_quota a' \<noteq> Some x) \<and>
         (rt_time_threshold tr \<and> urr_time_threshold u > 0 \<longrightarrow> t_time_threshold a' \<noteq> Some x) \<longrightarrow>
         armed mgr x = armed (us_mgr s) x))"
proof -
  let ?c1 = "rt_quota_validity_time tr \<and> urr_quota_validity_time u > 0"
  let ?c2 = "rt_time_quota tr \<and> urr_time_quota u > 0"
  let ?c3 = "rt_time_threshold tr \<and> urr_time_threshold u > 0"
  have u: "urr_id_ok u" "length (us_acc s) = OGS_MAX_NUM_OF_URR" using inv by (auto simp: setup_inv_def)
  define s0 where "s0 = s\<lparr>us_acc := set_acc (us_acc s) u ((acc_of (us_acc s) u)\<lparr>time_start := ogs_time_to_ntp32 now\<rparr>)\<rparr>"
  have a0: "acc_of (us_acc s0) u = (acc_of (us_acc s) u)\<lparr>time_start := ogs_time_to_ntp32 now\<rparr>" "us_mgr s0 = us_mgr s"
    using u by (simp_all add: s0_def)
  have i0: "setup_inv s0 u 3" using inv a0 u unfolding setup_inv_def by (simp add: tids_def) (simp add: s0_def)
  have o0: "others_untouched s s0 u" using a0 by (auto simp: others_untouched_def tids_def)
  obtain s1 where s1: "(if ?c1 then validity_time_setup m cb s0 u else Ret s0) = Ret s1" "setup_inv s1 u 2"
    "others_untouched s0 s1 u" "timer_set ?c1 m (urr_quota_validity_time u) (t_validity_time (acc_of (us_acc s0) u))
        (t_validity_time (acc_of (us_acc s1) u)) (us_mgr s1)"
    "t_time_quota (acc_of (us_acc s1) u) = t_time_quota (acc_of (us_acc s0) u)"
    "t_time_threshold (acc_of (us_acc s1) u) = t_time_threshold (acc_of (us_acc s0) u)"
    "only_set ?c1 (t_validity_time (acc_of (us_acc s1) u)) (us_mgr s0) (us_mgr s1)"
  proof (cases ?c1)
    case True
    then obtain s1 n where "validity_time_setup m cb s0 u = Ret s1" "setup_inv s1 u 2"
      "armed_step m (urr_quota_validity_time u) s0 s1 u n" "t_validity_time (acc_of (us_acc s1) u) = Some n"
      "t_validity_time (acc_of (us_acc s0) u) = None \<or> t_validity_time (acc_of (us_acc s0) u) = Some n"
      "t_time_quota (acc_of (us_acc s1) u) = t_time_quota (acc_of (us_acc s0) u)"
      "t_time_threshold (acc_of (us_acc s1) u) = t_time_threshold (acc_of (us_acc s0) u)"
      using validity_setup_ok [of s0 u 2 m cb] i0 by (auto simp: Let_def numeral_3_eq_3 numeral_2_eq_2)
    moreover from this have "others_untouched s0 s1 u"
      by (intro others_step) (auto simp: tids_def)
    ultimately show ?thesis using True that [of s1] by (auto simp: timer_set_def armed_step_def only_set_def)
  next
    case False
    with that [of s0] setup_inv_le [OF i0, of 2] show ?thesis by (auto simp: timer_set_def only_set_def)
  qed
  obtain s2 where s2: "(if ?c2 then time_quota_setup m cb s1 u else Ret s1) = Ret s2" "setup_inv s2 u 1"
    "others_untouched s1 s2 u" "timer_set ?c2 m (urr_time_quota u) (t_time_quota (acc_of (us_acc s1) u))
        (t_time_quota (acc_of (us_acc s2) u)) (us_mgr s2)"
    "t_validity_time (acc_of (us_acc s2) u) = t_validity_time (acc_of (us_acc s1) u)"
    "t_time_threshold (acc_of (us_acc s2) u) = t_time_threshold (acc_of (us_acc s1) u)"
    "only_set ?c2 (t_time_quota (acc_of (us_acc s2) u)) (us_mgr s1) (us_mgr s2)"
  proof (cases ?c2)
    case True
    then obtain s2 n where "time_quota_setup m cb s1 u = Ret s2" "setup_inv s2 u 1"
      "armed_step m (urr_time_quota u) s1 s2 u n" "t_time_quota (acc_of (us_acc s2) u) = Some n"
      "t_time_quota (acc_of (us_acc s1) u) = None \<or> t_time_quota (acc_of (us_acc s1) u) = Some n"
      "t_validity_time (acc_of (us_acc s2) u) = t_validity_time (acc_of (us_acc s1) u)"
      "t_time_threshold (acc_of (us_acc s2) u) = t_time_threshold (acc_of (us_acc s1) u)"
      using quota_setup_ok [of s1 u 1 m cb] s1(2) by (auto simp: Let_def numeral_2_eq_2)
    moreover from this have "others_untouched s1 s2 u"
      by (intro others_step) (auto simp: tids_def)
    ultimately show ?thesis using True that [of s2] by (auto simp: timer_set_def armed_step_def only_set_def)
  next
    case False
    with that [of s1] setup_inv_le [OF s1(2), of 1] show ?thesis by (auto simp: timer_set_def only_set_def)
  qed
  obtain s3 where s3: "(if ?c3 then time_threshold_setup m cb s2 u else Ret s2) = Ret s3" "setup_inv s3 u 0"
    "others_untouched s2 s3 u" "timer_set ?c3 m (urr_time_threshold u) (t_time_threshold (acc_of (us_acc s2) u))
        (t_time_threshold (acc_of (us_acc s3) u)) (us_mgr s3)"
    "t_validity_time (acc_of (us_acc s3) u) = t_validity_time (acc_of (us_acc s2) u)"
    "t_time_quota (acc_of (us_acc s3) u) = t_time_quota (acc_of (us_acc s2) u)"
    "only_set ?c3 (t_time_threshold (acc_of (us_acc s3) u)) (us_mgr s2) (us_mgr s3)"
  proof (cases ?c3)
    case True
    then obtain s3 n where "time_threshold_setup m cb s2 u = Ret s3" "setup_inv s3 u 0"
      "armed_step m (urr_time_threshold u) s2 s3 u n" "t_time_threshold (acc_of (us_acc s3) u) = Some n"
      "t_time_threshold (acc_of (us_acc s2) u) = None \<or> t_time_threshold (acc_of (us_acc s2) u) = Some n"
      "t_validity_time (acc_of (us_acc s3) u) = t_validity_time (acc_of (us_acc s2) u)"
      "t_time_quota (acc_of (us_acc s3) u) = t_time_quota (acc_of (us_acc s2) u)"
      using threshold_setup_ok [of s2 u 0 m cb] s2(2) by (auto simp: Let_def)
    moreover from this have "others_untouched s2 s3 u"
      by (intro others_step) (auto simp: tids_def)
    ultimately show ?thesis using True that [of s3] by (auto simp: timer_set_def armed_step_def only_set_def)
  next
    case False
    with that [of s2] setup_inv_le [OF s2(2), of 0] show ?thesis by (auto simp: timer_set_def only_set_def)
  qed
  have run: "upf_sess_urr_acc_timers_setup now m cb s u = Ret s3"
    using u s1(1) s2(1) s3(1)
    by (simp add: upf_sess_urr_acc_timers_setup_def Let_def s0_def [symmetric] tr_def [symmetric])
  have oth: "others_untouched s s3 u"
    using o0 s1(3) s2(3) s3(3) by (blast intro: others_trans)
  have d3: "distinct (tids (acc_of (us_acc s3) u))" "distinct (tids (acc_of (us_acc s2) u))"
    using s3(2) s2(2) by (auto simp: setup_inv_def)
  have v: "timer_set ?c1 m (urr_quota_validity_time u) (t_validity_time (acc_of (us_acc s) u))
        (t_validity_time (acc_of (us_acc s3) u)) (us_mgr s3)"
    using s1(4) s2(5,7) s3(5,7) d3 a0(1) by (auto simp: timer_set_def only_set_def tids_def)
  have q: "timer_set ?c2 m (urr_time_quota u) (t_time_quota (acc_of (us_acc s) u))
        (t_time_quota (acc_of (us_acc s3) u)) (us_mgr s3)"
    using s1(5) s2(4) s3(6,7) d3 a0(1) by (auto simp: timer_set_def only_set_def tids_def)
  have t: "timer_set ?c3 m (urr_time_threshold u) (t_time_threshold (acc_of (us_acc s) u))
        (t_time_threshold (acc_of (us_acc s3) u)) (us_mgr s3)"
    using s1(6) s2(6) s3(4) a0(1) by (simp add: timer_set_def)
  have new: "allocated (tm_pool (us_mgr s3)) \<subseteq> allocated (tm_pool (us_mgr s)) \<union> set (tids (acc_of (us_acc s3) u))"
  proof -
    have "set (tids (acc_of (us_acc s3) u)) = set_option (t_validity_time (acc_of (us_acc s1) u)) \<union>
        set_option (t_time_quota (acc_of (us_acc s2) u)) \<union> set_option (t_time_threshold (acc_of (us_acc s3) u))"
      using s2(5) s3(5,6) by (auto simp: tids_def)
    then show ?thesis using s1(7) s2(7) s3(7) a0(2) unfolding only_set_def by auto
  qed
  have old: "allocated (tm_pool (us_mgr s)) \<subseteq> allocated (tm_pool (us_mgr s3))" "set (tids (acc_of (us_acc s3) u)) \<subseteq> allocated (tm_pool (us_mgr s3))"
    using oth s3(2) by (simp_all add: others_untouched_def setup_inv_def)
  have "armed (us_mgr s3) x = armed (us_mgr s) x" if "?c1 \<longrightarrow> t_validity_time (acc_of (us_acc s3) u) \<noteq> Some x"
    "?c2 \<longrightarrow> t_time_quota (acc_of (us_acc s3) u) \<noteq> Some x" "?c3 \<longrightarrow> t_time_threshold (acc_of (us_acc s3) u) \<noteq> Some x" for x
    using that s1(7) s2(5,7) s3(5-7) a0(2) by (auto simp: only_set_def)
  with run s3(2) oth v q t new old show ?thesis by (auto simp: Let_def)
qed

lemma setup_inv_set_acc:
  "setup_inv s u k \<Longrightarrow> tids a = tids (acc_of (us_acc s) u) \<Longrightarrow>
     setup_inv (s\<lparr>us_acc := set_acc (us_acc s) u a\<rparr>) u k"
  by (simp add: setup_inv_def)

lemma acc_add_total:
  assumes "setup_inv s u 3"
  shows "\<exists>s' rep. upf_sess_urr_acc_add now m cb True s u sz up = Ret (s', rep)"
proof -
  have u: "urr_id_ok u" "length (us_acc s) = OGS_MAX_NUM_OF_URR" using assms by (auto simp: setup_inv_def)
  define a where "a = acc_of (us_acc s) u"
  define b where "b = counted now a sz up"
  define c where "c = b\<lparr>report_seqn := report_seqn b + 1, last_report := acc_now b, last_timestamp := now\<rparr>"
  have "setup_inv (s\<lparr>us_acc := set_acc (us_acc s) u c\<rparr>) u 3"
    by (rule setup_inv_set_acc [OF assms]) (simp add: c_def b_def a_def tids_def counted_def)
  from timers_setup_ok [OF this, of now m cb]
  obtain s' where "upf_sess_urr_acc_timers_setup now m cb (s\<lparr>us_acc := set_acc (us_acc s) u c\<rparr>) u = Ret s'"
    by blast
  moreover have "report_urr now True (set_acc (us_acc s) u b) u = Ret (set_acc (us_acc s) u c,
      \<lparr>rp_type_usage_report = True,
       rp_usage_report = (rp_usage_report zero_report)[0 := fill_entry now u b zero_usage_report],
       rp_num_of_usage_report = 1\<rparr>)"
    using u by (simp add: report_urr_Ret c_def)
  ultimately show ?thesis
    using acc_add_eq [OF u(1), of now m cb True s sz up]
    by (simp add: Let_def a_def [symmetric] b_def [symmetric])
qed

text \<open>The packets of a session that one URR counts, in the order they arrive.\<close>

fun count_all ::
  "'c \<Rightarrow> 'c urr_state \<Rightarrow> ogs_pfcp_urr \<Rightarrow> (int \<times> int \<times> u64 \<times> bool) list \<Rightarrow>
     ('c urr_state \<times> user_plane_report list) exec" where
  "count_all cb s u [] = Ret (s, [])"
| "count_all cb s u ((now, mclk, sz, up) # ps) =
     exec_bind (upf_sess_urr_acc_add now mclk cb True s u sz up) (\<lambda>(s, rep).
     exec_bind (count_all cb s u ps) (\<lambda>(s, reps). Ret (s, opt_list rep @ reps)))"

definition first_entry :: "user_plane_report \<Rightarrow> usage_report" where
  "first_entry q = rp_usage_report q ! 0"

lemma count_all_sum:
  assumes "count_all cb s u ps = Ret (s', reps)" "accs_ok (us_acc s)"
  shows "accs_ok (us_acc s') \<and>
    sum_list (map (\<lambda>q. vm_total_volume (ur_vol (first_entry q))) reps) + unreported (acc_of (us_acc s') u)
      = unreported (acc_of (us_acc s) u) + sum_list (map (\<lambda>(now, mclk, sz, up). sz) ps) \<and>
    map (\<lambda>q. ur_seqn (first_entry q)) reps = map (\<lambda>i. report_seqn (acc_of (us_acc s) u) + of_nat i) [0..<length reps] \<and>
    report_seqn (acc_of (us_acc s') u) = report_seqn (acc_of (us_acc s) u) + of_nat (length reps)"
  using assms
proof (induction cb s u ps arbitrary: s' reps rule: count_all.induct)
  case (2 cb s u now mclk sz up ps)
  obtain s1 rep reps' where a: "upf_sess_urr_acc_add now mclk cb True s u sz up = Ret (s1, rep)"
    "count_all cb s1 u ps = Ret (s', reps')" "reps = opt_list rep @ reps'"
    using "2.prems"(1) by auto
  note c = acc_add_cases [OF a(1) "2.prems"(2)]
  then have ok1: "accs_ok (us_acc s1)" by blast
  note ih = "2.IH" [OF a(2) ok1]
  show ?case
  proof (cases "volume_trigger u (unreported (acc_of (us_acc s) u) + sz)")
    case False
    with c ih a(3) show ?thesis by (simp add: add.assoc)
  next
    case True
    with c obtain q where q: "rep = Some q" "ur_seqn (first_entry q) = report_seqn (acc_of (us_acc s) u)"
      "vm_total_volume (ur_vol (first_entry q)) = unreported (acc_of (us_acc s) u) + sz"
      by (auto simp: Let_def first_entry_def)
    have "map (\<lambda>i. report_seqn (acc_of (us_acc s) u) + of_nat i) [0..<length reps] =
        report_seqn (acc_of (us_acc s) u) # map (\<lambda>i. report_seqn (acc_of (us_acc s) u) + 1 + of_nat i) [0..<length reps']"
      using a(3) q(1) by (simp add: upt_conv_Cons map_Suc_upt [symmetric] comp_def add_ac del: upt_Suc)
    with True c ih a(3) q show ?thesis by (simp add: add_ac)
  qed
qed simp

section \<open>Removal\<close>

lemma drop_timer_ok:
  assumes "timers_ok mgr" "set (opt_list t) \<subseteq> allocated (tm_pool mgr)"
  shows "\<exists>mgr'. drop_timer mgr t = Ret mgr' \<and> timers_ok mgr' \<and>
    allocated (tm_pool mgr') = allocated (tm_pool mgr) - set (opt_list t) \<and>
    armed mgr' = (\<lambda>x. if x \<in> set (opt_list t) then None else armed mgr x)"
proof (cases t)
  case (Some n)
  with assms delete_armed [OF assms(1), of n] show ?thesis
    by (auto simp: drop_timer_def fun_eq_iff)
qed (use assms in \<open>simp add: drop_timer_def\<close>)

lemma remove_accs_ok:
  assumes "timers_ok mgr" "set (concat (map tids as)) \<subseteq> allocated (tm_pool mgr)" "distinct (concat (map tids as))"
  shows "\<exists>mgr' as'. remove_accs mgr as = Ret (mgr', as') \<and> timers_ok mgr' \<and>
    allocated (tm_pool mgr') = allocated (tm_pool mgr) - set (concat (map tids as)) \<and>
    armed mgr' = (\<lambda>x. if x \<in> set (concat (map tids as)) then None else armed mgr x) \<and>
    (\<forall>a \<in> set as'. tids a = []) \<and> length as' = length as"
  using assms
proof (induction as arbitrary: mgr)
  case (Cons a as)
  have d: "distinct (tids a)" "set (tids a) \<subseteq> allocated (tm_pool mgr)" using Cons.prems(2,3) by auto
  have sub: "set (opt_list (t_time_threshold a)) \<subseteq> allocated (tm_pool mgr)"
    "set (opt_list (t_validity_time a)) \<subseteq> allocated (tm_pool mgr) - set (opt_list (t_time_threshold a))"
    "set (opt_list (t_time_quota a)) \<subseteq> allocated (tm_pool mgr) - set (opt_list (t_time_threshold a)) -
       set (opt_list (t_validity_time a))"
    using d unfolding tids_def set_append distinct_append by blast+
  obtain m1 where m1: "drop_timer mgr (t_time_threshold a) = Ret m1" "timers_ok m1"
    "allocated (tm_pool m1) = allocated (tm_pool mgr) - set (opt_list (t_time_threshold a))"
    "armed m1 = (\<lambda>x. if x \<in> set (opt_list (t_time_threshold a)) then None else armed mgr x)"
    using drop_timer_ok [OF Cons.prems(1) sub(1)] by blast
  obtain m2 where m2: "drop_timer m1 (t_validity_time a) = Ret m2" "timers_ok m2"
    "allocated (tm_pool m2) = allocated (tm_pool m1) - set (opt_list (t_validity_time a))"
    "armed m2 = (\<lambda>x. if x \<in> set (opt_list (t_validity_time a)) then None else armed m1 x)"
    using drop_timer_ok [OF m1(2) sub(2) [folded m1(3)]] by blast
  obtain m3 where m3: "drop_timer m2 (t_time_quota a) = Ret m3" "timers_ok m3"
    "allocated (tm_pool m3) = allocated (tm_pool m2) - set (opt_list (t_time_quota a))"
    "armed m3 = (\<lambda>x. if x \<in> set (opt_list (t_time_quota a)) then None else armed m2 x)"
    using drop_timer_ok [OF m2(2) sub(3) [folded m1(3), folded m2(3)]] by blast
  have al: "allocated (tm_pool m3) = allocated (tm_pool mgr) - set (tids a)"
    unfolding m3(3) m2(3) m1(3) by (auto simp: tids_def)
  have ar: "armed m3 = (\<lambda>x. if x \<in> set (tids a) then None else armed mgr x)"
    unfolding m3(4) m2(4) m1(4) by (auto simp: tids_def)
  have rest: "set (concat (map tids as)) \<subseteq> allocated (tm_pool m3)" "distinct (concat (map tids as))"
    using Cons.prems(2,3) unfolding al by (simp_all, blast)
  obtain mgr' as' where r: "remove_accs m3 as = Ret (mgr', as')" "timers_ok mgr'"
    "allocated (tm_pool mgr') = allocated (tm_pool m3) - set (concat (map tids as))"
    "armed mgr' = (\<lambda>x. if x \<in> set (concat (map tids as)) then None else armed m3 x)"
    "\<forall>a \<in> set as'. tids a = []" "length as' = length as"
    using Cons.IH [OF m3(2)] rest by blast
  have "tids (a\<lparr>t_time_threshold := None, t_validity_time := None, t_time_quota := None\<rparr>) = []"
    by (simp add: tids_def)
  moreover have "allocated (tm_pool mgr') = allocated (tm_pool mgr) - set (concat (map tids (a # as)))"
    unfolding r(3) al by auto
  moreover have "armed mgr' = (\<lambda>x. if x \<in> set (concat (map tids (a # as))) then None else armed mgr x)"
    unfolding r(4) ar by auto
  ultimately show ?case using r(1,2,5,6) m1(1) m2(1) m3(1) by simp
qed simp

section \<open>The report of a deleted session\<close>

lemma deletion_entries_ok:
  assumes "\<forall>u \<in> set us. urr_id_ok u" "distinct (map urr_id us)" "accs_ok accs"
    and "n + length us \<le> length (rp_usage_report rep)"
  shows "\<exists>accs' rep'. deletion_entries now accs us rep n = Ret (accs', rep', n + length us) \<and> accs_ok accs' \<and>
    length (rp_usage_report rep') = length (rp_usage_report rep) \<and>
    (\<forall>i < n. rp_usage_report rep' ! i = rp_usage_report rep ! i) \<and>
    (\<forall>i < length us. let e = rp_usage_report rep' ! (n + i); a = acc_of accs (us ! i) in
       ur_id e = urr_id (us ! i) \<and> tr_termination_report (ur_trigger e) \<and> ur_seqn e = report_seqn a \<and>
       vm_total_volume (ur_vol e) = unreported a \<and> unreported (acc_of accs' (us ! i)) = 0) \<and>
    (\<forall>w. urr_id_ok w \<and> urr_id w \<notin> urr_id ` set us \<longrightarrow> acc_of accs' w = acc_of accs w)"
  using assms
proof (induction us arbitrary: accs rep n)
  case Nil
  then show ?case by simp
next
  case (Cons u us)
  have u: "urr_id_ok u" and l: "length accs = OGS_MAX_NUM_OF_URR" using Cons.prems by (auto simp: accs_ok_def)
  define a where "a = acc_of accs u"
  define a' where "a' = a\<lparr>report_seqn := report_seqn a + 1, last_report := acc_now a, last_timestamp := now\<rparr>"
  define accs1 where "accs1 = set_acc accs u a'"
  define e where "e = fill_entry now u a (rp_usage_report rep ! n)"
  define e' where "e' = e\<lparr>ur_trigger := (ur_trigger e)\<lparr>tr_termination_report := True\<rparr>\<rparr>"
  define rep1 where "rep1 = rep\<lparr>rp_type_usage_report := True, rp_usage_report := (rp_usage_report rep)[n := e']\<rparr>"
  have n: "n < length (rp_usage_report rep)" using Cons.prems(4) by simp
  have step: "deletion_entries now accs (u # us) rep n = deletion_entries now accs1 us rep1 (n + 1)"
    using u l n by (simp add: upf_sess_urr_acc_fill_usage_report_def upf_sess_urr_acc_snapshot_def Let_def
        a_def [symmetric] e_def [symmetric] a'_def accs1_def rep1_def e'_def)
  have "acc_ok a'" using acc_ok_of [OF Cons.prems(3) u] by (simp add: a'_def a_def acc_ok_def)
  then have ok1: "accs_ok accs1" by (simp add: accs1_def accs_ok_set [OF Cons.prems(3)])
  obtain accs' rep' where r: "deletion_entries now accs1 us rep1 (n + 1) = Ret (accs', rep', n + 1 + length us)"
    "accs_ok accs'" "length (rp_usage_report rep') = length (rp_usage_report rep1)"
    "\<forall>i < n + 1. rp_usage_report rep' ! i = rp_usage_report rep1 ! i"
    "\<forall>i < length us. let e = rp_usage_report rep' ! (n + 1 + i); a = acc_of accs1 (us ! i) in
       ur_id e = urr_id (us ! i) \<and> tr_termination_report (ur_trigger e) \<and> ur_seqn e = report_seqn a \<and>
       vm_total_volume (ur_vol e) = unreported a \<and> unreported (acc_of accs' (us ! i)) = 0"
    "\<forall>w. urr_id_ok w \<and> urr_id w \<notin> urr_id ` set us \<longrightarrow> acc_of accs' w = acc_of accs1 w"
    using Cons.IH [of accs1 "n + 1" rep1] Cons.prems ok1 by (auto simp: rep1_def)
  have other: "acc_of accs1 w = acc_of accs w" if "urr_id_ok w" "urr_id w \<noteq> urr_id u" for w
    using that u by (simp add: accs1_def)
  have un: "unreported (acc_of accs' u) = 0"
  proof -
    have "acc_of accs' u = a'" using r(6) u Cons.prems(2) l by (simp add: accs1_def)
    then show ?thesis by (simp add: a'_def unreported_def)
  qed
  have en: "rp_usage_report rep' ! n = e'" using r(4) n by (simp add: rep1_def)
  have "let e = rp_usage_report rep' ! (n + i); a = acc_of accs ((u # us) ! i) in
       ur_id e = urr_id ((u # us) ! i) \<and> tr_termination_report (ur_trigger e) \<and> ur_seqn e = report_seqn a \<and>
       vm_total_volume (ur_vol e) = unreported a \<and> unreported (acc_of accs' ((u # us) ! i)) = 0"
    if i: "i < length (u # us)" for i
  proof (cases i)
    case 0
    then show ?thesis using en un
      by (simp add: Let_def e'_def e_def a_def [symmetric]) (simp add: volume_since_def unreported_def)
  next
    case (Suc j)
    then have "j < length us" using i by simp
    moreover from this have mem: "us ! j \<in> set us" by simp
    have "urr_id_ok (us ! j)" using Cons.prems(1) mem by simp
    moreover have "urr_id (us ! j) \<noteq> urr_id u"
      using Cons.prems(2) mem by (metis distinct.simps(2) imageI list.set_map list.simps(9))
    ultimately show ?thesis using r(5) other Suc by (simp add: Let_def)
  qed
  moreover have "\<forall>i < n. rp_usage_report rep' ! i = rp_usage_report rep ! i"
    using r(4) by (simp add: rep1_def)
  moreover have "\<forall>w. urr_id_ok w \<and> urr_id w \<notin> urr_id ` set (u # us) \<longrightarrow> acc_of accs' w = acc_of accs w"
    using r(6) other by simp
  ultimately show ?case using step r(1,2,3) by (auto simp: rep1_def)
qed

section \<open>Properties\<close>

definition zero_counters :: counters where
  "zero_counters = \<lparr>total_octets = 0, ul_octets = 0, dl_octets = 0, total_pkts = 0, ul_pkts = 0, dl_pkts = 0\<rparr>"

text \<open>The accumulators of a new session, which is zeroed memory.\<close>

definition zero_accs :: "urr_acc list" where
  "zero_accs = replicate OGS_MAX_NUM_OF_URR
     \<lparr>reporting_enabled = False, t_validity_time = None, t_time_quota = None, t_time_threshold = None,
      time_start = 0, report_seqn = 0, acc_now = zero_counters, time_of_first_packet = 0,
      time_of_last_packet = 0, last_report = zero_counters, last_timestamp = 0\<rparr>"

definition sample_urr :: ogs_pfcp_urr where
  "sample_urr = \<lparr>urr_id = 3,
     urr_rep_triggers = \<lparr>rt_volume_quota = False, rt_volume_threshold = True, rt_quota_validity_time = True,
       rt_time_quota = False, rt_time_threshold = False\<rparr>,
     urr_vol_threshold = \<lparr>vl_tovol = True, vl_total_volume = 1000\<rparr>,
     urr_vol_quota = \<lparr>vl_tovol = False, vl_total_volume = 0\<rparr>, urr_time_threshold = 0, urr_time_quota = 0,
     urr_quota_validity_time = 60\<rparr>"

definition sample_state :: "unit urr_state" where
  "sample_state = \<lparr>us_acc = zero_accs, us_mgr = ogs_timer_mgr_create 8 1\<rparr>"

lemma zero_accs_ok: "accs_ok zero_accs"
  by (simp add: accs_ok_def zero_accs_def acc_ok_def balanced_def zero_counters_def)

lemma sample_ok: "urr_id_ok sample_urr" "setup_inv sample_state sample_urr 3" "accs_ok (us_acc sample_state)"
proof -
  show u: "urr_id_ok sample_urr" by (simp add: urr_id_ok_def sample_urr_def OGS_MAX_NUM_OF_URR_def)
  have "tids (acc_of zero_accs sample_urr) = []"
    using u by (simp add: acc_of_def zero_accs_def tids_def)
  moreover have "pool_avail (tm_pool (ogs_timer_mgr_create 8 1 :: unit timer_mgr)) = 8"
    by (simp add: ogs_timer_mgr_create_def ogs_pool_init_def)
  ultimately show "setup_inv sample_state sample_urr 3"
    using u timers_ok_create by (simp add: setup_inv_def sample_state_def) (simp add: zero_accs_def)
  show "accs_ok (us_acc sample_state)" by (simp add: sample_state_def zero_accs_ok)
qed

text \<open>
  C22: Counting a packet reports if and only if the volume since the last report, this packet
  included, is at least the total volume of the quota or of the threshold, where the reporting
  trigger for it is set and it has a total volume. The report is for this URR, carries exactly
  that volume, split into uplink and downlink without remainder, takes the next sequence number and
  names the quota, the threshold or both as its trigger, as reached; afterwards nothing is left
  unreported. The accumulators of the other URRs keep their counts.
\<close>

theorem urr_volume_report:
  assumes "upf_sess_urr_acc_add now m cb send_ok s u sz up = Ret (s', rep)" "accs_ok (us_acc s)"
  shows "let a = acc_of (us_acc s) u; a' = acc_of (us_acc s') u; v = unreported a + sz;
      quota = (rt_volume_quota (urr_rep_triggers u) \<and> vl_tovol (urr_vol_quota u) \<and>
        uint (vl_total_volume (urr_vol_quota u)) \<le> uint v);
      threshold = (rt_volume_threshold (urr_rep_triggers u) \<and> vl_tovol (urr_vol_threshold u) \<and>
        uint (vl_total_volume (urr_vol_threshold u)) \<le> uint v) in
    accs_ok (us_acc s') \<and>
    (\<forall>w. urr_id_ok w \<longrightarrow> urr_id w \<noteq> urr_id u \<longrightarrow> same_counts (acc_of (us_acc s') w) (acc_of (us_acc s) w)) \<and>
    (if quota \<or> threshold
     then unreported a' = 0 \<and> report_seqn a' = report_seqn a + 1 \<and>
       (\<exists>q. rep = Some q \<and> rp_num_of_usage_report q = 1 \<and> (let e = rp_usage_report q ! 0 in
          ur_id e = urr_id u \<and> ur_seqn e = report_seqn a \<and> vm_total_volume (ur_vol e) = v \<and>
          vm_uplink_volume (ur_vol e) + vm_downlink_volume (ur_vol e) = v \<and>
          tr_volume_quota (ur_trigger e) = quota \<and> tr_volume_threshold (ur_trigger e) = threshold))
     else rep = None \<and> unreported a' = v \<and> report_seqn a' = report_seqn a)"
  using acc_add_cases [OF assms] unfolding Let_def volume_trigger_def volume_reached_def word_le_def by blast

theorem urr_volume_report_witness:
  "\<exists>s' q. upf_sess_urr_acc_add 5 7 () True sample_state sample_urr 1500 True = Ret (s', Some q) \<and>
     vm_total_volume (ur_vol (rp_usage_report q ! 0)) = 1500"
proof -
  obtain s' rep where a: "upf_sess_urr_acc_add 5 7 () True sample_state sample_urr 1500 True = Ret (s', rep)"
    using acc_add_total [OF sample_ok(2)] by blast
  have "unreported (acc_of (us_acc sample_state) sample_urr) = 0"
    by (simp add: unreported_def acc_of_def sample_state_def sample_urr_def zero_accs_def
        OGS_MAX_NUM_OF_URR_def zero_counters_def)
  moreover have "rt_volume_threshold (urr_rep_triggers sample_urr)" "vl_tovol (urr_vol_threshold sample_urr)"
    "vl_total_volume (urr_vol_threshold sample_urr) = 1000"
    by (simp_all add: sample_urr_def)
  ultimately show ?thesis
    using urr_volume_report [OF a sample_ok(3)] a by (auto simp: Let_def)
qed

text \<open>
  C23: No traffic is lost or charged twice: over any run of packets the volumes of the reports
  sent and the volume still unreported add up to the volume unreported before plus the sizes of
  the packets, and the reports are numbered consecutively. The run cannot abort while the pool
  of timers has three nodes for the URR to take.
\<close>

theorem urr_volume_conserved:
  assumes "count_all cb s u ps = Ret (s', reps)" "accs_ok (us_acc s)"
  shows "sum_list (map (\<lambda>q. vm_total_volume (ur_vol (first_entry q))) reps) + unreported (acc_of (us_acc s') u)
      = unreported (acc_of (us_acc s) u) + sum_list (map (\<lambda>(now, mclk, sz, up). sz) ps) \<and>
    map (\<lambda>q. ur_seqn (first_entry q)) reps =
      map (\<lambda>i. report_seqn (acc_of (us_acc s) u) + of_nat i) [0..<length reps] \<and>
    (setup_inv s u 3 \<longrightarrow> upf_sess_urr_acc_add now m cb True s u sz up \<noteq> Abort)"
  using count_all_sum [OF assms] acc_add_total [of s u now m cb sz up] by auto

theorem urr_volume_conserved_witness:
  "\<exists>s' reps. count_all () sample_state sample_urr [(5, 7, 1500, True)] = Ret (s', reps) \<and>
     sum_list (map (\<lambda>q. vm_total_volume (ur_vol (first_entry q))) reps) +
       unreported (acc_of (us_acc s') sample_urr) = 1500"
proof -
  obtain s' rep where a: "upf_sess_urr_acc_add 5 7 () True sample_state sample_urr 1500 True = Ret (s', rep)"
    using acc_add_total [OF sample_ok(2)] by blast
  then have c: "count_all () sample_state sample_urr [(5, 7, 1500, True)] = Ret (s', opt_list rep)" by simp
  have "unreported (acc_of (us_acc sample_state) sample_urr) = 0"
    by (simp add: unreported_def acc_of_def sample_state_def sample_urr_def zero_accs_def
        OGS_MAX_NUM_OF_URR_def zero_counters_def)
  with urr_volume_conserved [OF c sample_ok(3)] c show ?thesis by auto
qed

text \<open>
  C24: Setting up the timers of a URR arms the ones its reporting triggers ask for with a duration that
  is not zero, each at the monotonic clock plus its duration. A timer the URR already has is
  reused; otherwise a free one is taken, which is all that is allocated. A timer of the URR that is not
  asked for is neither taken nor stopped nor started: it and every timer of anybody else stay as they are.
\<close>

theorem urr_timers_armed:
  assumes "setup_inv s u 3"
  shows "\<exists>s'. upf_sess_urr_acc_timers_setup now m cb s u = Ret s' \<and> setup_inv s' u 0 \<and>
    others_untouched s s' u \<and>
    (let a = acc_of (us_acc s) u; a' = acc_of (us_acc s') u; mgr = us_mgr s'; tr = urr_rep_triggers u in
      timer_set (rt_quota_validity_time tr \<and> urr_quota_validity_time u > 0) m (urr_quota_validity_time u)
        (t_validity_time a) (t_validity_time a') mgr \<and>
      timer_set (rt_time_quota tr \<and> urr_time_quota u > 0) m (urr_time_quota u) (t_time_quota a) (t_time_quota a') mgr \<and>
      timer_set (rt_time_threshold tr \<and> urr_time_threshold u > 0) m (urr_time_threshold u)
        (t_time_threshold a) (t_time_threshold a') mgr \<and>
      allocated (tm_pool mgr) = allocated (tm_pool (us_mgr s)) \<union> set (tids a') \<and>
      (\<forall>x. (rt_quota_validity_time tr \<and> urr_quota_validity_time u > 0 \<longrightarrow> t_validity_time a' \<noteq> Some x) \<and>
         (rt_time_quota tr \<and> urr_time_quota u > 0 \<longrightarrow> t_time_quota a' \<noteq> Some x) \<and>
         (rt_time_threshold tr \<and> urr_time_threshold u > 0 \<longrightarrow> t_time_threshold a' \<noteq> Some x) \<longrightarrow>
         armed mgr x = armed (us_mgr s) x))"
  using timers_setup_ok [OF assms, of now m cb] unfolding Let_def .

theorem urr_timers_armed_witness:
  "\<exists>s' n. upf_sess_urr_acc_timers_setup 5 7 () sample_state sample_urr = Ret s' \<and>
     t_validity_time (acc_of (us_acc s') sample_urr) = Some n \<and> armed (us_mgr s') n = Some (7 + 60 * 1000000)"
proof -
  obtain s' where s': "upf_sess_urr_acc_timers_setup 5 7 () sample_state sample_urr = Ret s'"
    "timer_set True 7 60 (t_validity_time (acc_of (us_acc sample_state) sample_urr))
       (t_validity_time (acc_of (us_acc s') sample_urr)) (us_mgr s')"
    using urr_timers_armed [OF sample_ok(2), of 5 7 "()"] by (auto simp: Let_def sample_urr_def)
  then show ?thesis by (auto simp: timer_set_def ogs_time_from_sec_def OGS_USEC_PER_SEC_def)
qed

text \<open>
  Removing the accounting of a session deletes all of its timers and only those, so no
  callback with a pointer to one of its URRs can fire afterwards, and no other timer moves.
\<close>

theorem urr_remove_all_timers:
  assumes "timers_ok (us_mgr s)" "distinct (concat (map tids (us_acc s)))"
    and "set (concat (map tids (us_acc s))) \<subseteq> allocated (tm_pool (us_mgr s))"
  shows "\<exists>s'. upf_sess_urr_acc_remove_all s = Ret s' \<and> timers_ok (us_mgr s') \<and>
    allocated (tm_pool (us_mgr s')) = allocated (tm_pool (us_mgr s)) - set (concat (map tids (us_acc s))) \<and>
    armed (us_mgr s') = (\<lambda>x. if x \<in> set (concat (map tids (us_acc s))) then None else armed (us_mgr s) x) \<and>
    (\<forall>a \<in> set (us_acc s'). tids a = [])"
  using remove_accs_ok [OF assms(1,3,2)] by (auto simp: upf_sess_urr_acc_remove_all_def)

theorem urr_remove_all_timers_witness:
  "\<exists>s'. upf_sess_urr_acc_remove_all sample_state = Ret s' \<and> timers_ok (us_mgr s')"
proof -
  have t: "\<forall>a \<in> set (us_acc sample_state). tids a = []"
    by (simp add: sample_state_def zero_accs_def tids_def)
  then have c: "concat (map tids (us_acc sample_state)) = []" by simp
  have "timers_ok (us_mgr sample_state)" using sample_ok(2) by (simp add: setup_inv_def)
  from urr_remove_all_timers [OF this] c show ?thesis by auto
qed

text \<open>
  C25: The report of a deleted session has one entry per URR, in the order of the list, each
  with the termination trigger, the next sequence number of the URR and exactly the volume no
  report has carried yet, which is then zero. URR identifiers between 1 and 16 that differ
  always fit the report.
\<close>

theorem deletion_report_complete:
  assumes "\<forall>u \<in> set us. urr_id_ok u" "distinct (map urr_id us)" "accs_ok accs"
  shows "\<exists>accs' rep. deletion_report now accs us = Ret (accs', rep) \<and>
    rp_num_of_usage_report rep = length us \<and> accs_ok accs' \<and>
    (\<forall>i < length us. let e = rp_usage_report rep ! i; a = acc_of accs (us ! i) in
       ur_id e = urr_id (us ! i) \<and> tr_termination_report (ur_trigger e) \<and> ur_seqn e = report_seqn a \<and>
       vm_total_volume (ur_vol e) = unreported a \<and> unreported (acc_of accs' (us ! i)) = 0)"
proof -
  have "urr_id ` set us \<subseteq> {1..OGS_MAX_NUM_OF_URR}" using assms(1) by (auto simp: urr_id_ok_def)
  from card_mono [OF _ this] have "length us \<le> OGS_MAX_NUM_OF_URR"
    using distinct_card [OF assms(2)] by simp
  then have "0 + length us \<le> length (rp_usage_report zero_report)" by (simp add: zero_report_def)
  from deletion_entries_ok [OF assms this, of now] show ?thesis
    by (auto simp: deletion_report_def)
qed

theorem deletion_report_complete_witness:
  "\<exists>accs' rep. deletion_report 9 zero_accs [sample_urr] = Ret (accs', rep) \<and> ur_id (rp_usage_report rep ! 0) = 3"
  using deletion_report_complete [of "[sample_urr]" zero_accs 9] sample_ok(1) zero_accs_ok
  by (auto simp: Let_def sample_urr_def)

end
