(* ===== verification/Quic_Server.thy ===== *)
theory Quic_Server
  imports Ogs_Pool
begin

text \<open>
  The QUIC transport of the N3 interface, \<^verbatim>\<open>src/upf/quic-server.c\<close>: the table and list of
  connected gNBs, the pool of send contexts, the datagram that carries a tunnel identifier and
  an IP packet, and the connection events. The MsQuic library is not under \<^verbatim>\<open>src/\<close>: the
  results of its calls are arguments, a connection handle is a number, and the calls made to it
  are listed in the result. Strings are their bytes up to the terminating zero.
\<close>

section \<open>State\<close>

record quic_client =
  qc_conn :: nat
  qc_ip_address :: bytes

text \<open>Which MsQuic objects are open.\<close>

record quic_context =
  qx_msquic :: bool
  qx_registration :: bool
  qx_configuration :: bool
  qx_listener :: bool

record quic_server =
  qs_ctx :: quic_context
  qs_hash :: "nat ogs_hash option"
  qs_list :: "nat list"
  qs_pool :: ogs_pool
  qs_nodes :: "nat \<Rightarrow> quic_client"
  qs_send_pool :: ogs_pool
  qs_payload :: "nat \<Rightarrow> bytes"

datatype quic_call =
    DatagramSend nat bytes nat
  | ConnectionShutdown nat
  | ConnectionClose nat
  | SendResumptionTicket nat
  | ListenerStop | ListenerClose | ConfigurationClose | RegistrationClose | MsQuicClose

section \<open>Start and stop\<close>

text \<open>The results of the calls of \<^verbatim>\<open>StartQuicServer\<close> in the order they are made.\<close>

record start_results =
  sr_open :: bool
  sr_registration :: bool
  sr_configuration :: bool
  sr_credential :: bool
  sr_listener :: bool
  sr_address :: bool
  sr_start :: bool

definition StartQuicServer :: "start_results \<Rightarrow> quic_context \<Rightarrow> quic_context \<times> bool" where
  "StartQuicServer r ctx =
     (if \<not> sr_open r then (ctx, False)
      else let ctx = ctx\<lparr>qx_msquic := True\<rparr> in
        if \<not> sr_registration r then (ctx, False)
        else let ctx = ctx\<lparr>qx_registration := True\<rparr> in
          if \<not> sr_configuration r then (ctx, False)
          else let ctx = ctx\<lparr>qx_configuration := True\<rparr> in
            if \<not> sr_credential r then (ctx, False)
            else if \<not> sr_listener r then (ctx, False)
              else let ctx = ctx\<lparr>qx_listener := True\<rparr> in
                (ctx, sr_address r \<and> sr_start r))"

definition ogs_quic_server_start ::
  "start_results \<Rightarrow> u32 \<Rightarrow> u32 \<Rightarrow> u32 \<Rightarrow> quic_context \<Rightarrow> quic_server \<times> bool" where
  "ogs_quic_server_start r seed seed1 seed2 ctx =
     (let (ctx', ok) = StartQuicServer r ctx
      in (\<lparr>qs_ctx = ctx', qs_hash = Some (ogs_hash_make seed), qs_list = [],
           qs_pool = ogs_pool_init 128 seed1, qs_nodes = (\<lambda>_. \<lparr>qc_conn = 0, qc_ip_address = []\<rparr>),
           qs_send_pool = ogs_pool_init 4096 seed2, qs_payload = (\<lambda>_. [])\<rparr>, ok))"

definition StopQuicServer :: "quic_server \<Rightarrow> quic_server \<times> quic_call list" where
  "StopQuicServer s =
     (let ctx = qs_ctx s
      in if \<not> qx_msquic ctx then (s, [])
         else (s\<lparr>qs_ctx := ctx\<lparr>qx_configuration := False, qx_registration := False, qx_msquic := False\<rparr>,
                 qs_hash := None\<rparr>,
               (if qx_listener ctx then [ListenerStop] else []) @
               map (\<lambda>n. ConnectionShutdown (qc_conn (qs_nodes s n))) (qs_list s) @
               (if qx_configuration ctx then [ConfigurationClose] else []) @
               (if qx_registration ctx then [RegistrationClose] else []) @ [MsQuicClose]))"

section \<open>Data\<close>

definition quic_header_len :: nat where "quic_header_len = 4"

text \<open>
  \<^verbatim>\<open>quic_server_send_downlink\<close>. A null hash table is dereferenced; the look-up asserts on
  an empty address. \<open>send_ok\<close> is the status of \<^verbatim>\<open>DatagramSend\<close>.
\<close>

definition lookup_conn :: "quic_server \<Rightarrow> bytes \<Rightarrow> nat option exec" where
  "lookup_conn s ip =
     (case qs_hash s of None \<Rightarrow> Abort
      | Some ht \<Rightarrow> exec_bind (ogs_hash_get_debug ht ip (int (length ip)))
          (\<lambda>n. Ret (map_option (\<lambda>n. qc_conn (qs_nodes s n)) n)))"

definition quic_server_send_downlink ::
  "bool \<Rightarrow> quic_server \<Rightarrow> bytes \<Rightarrow> u32 \<Rightarrow> bytes option \<Rightarrow> u16 \<Rightarrow> (quic_server \<times> quic_call list) exec" where
  "quic_server_send_downlink send_ok s dest_ip teid packet packet_len =
     exec_bind (lookup_conn s dest_ip) (\<lambda>conn.
       case conn of
         None \<Rightarrow> Ret (s, [])
       | Some c \<Rightarrow>
          (if \<not> qx_msquic (qs_ctx s) then Ret (s, [])
           else case packet of
               None \<Rightarrow> Ret (s, [])
             | Some data \<Rightarrow>
                (if packet_len = 0 \<or> unat packet_len > 2048 - quic_header_len then Ret (s, [])
                 else case ogs_pool_alloc (qs_send_pool s) of
                     (p, None) \<Rightarrow> Ret (s\<lparr>qs_send_pool := p\<rparr>, [])
                   | (p, Some b) \<Rightarrow>
                      (let frame = be32 teid @ take (unat packet_len) data;
                           s = s\<lparr>qs_send_pool := p, qs_payload := (qs_payload s)(b := frame)\<rparr>
                       in Ret (if send_ok then s else s\<lparr>qs_send_pool := ogs_pool_free (qs_send_pool s) b\<rparr>,
                               [DatagramSend c frame b])))))"

text \<open>
  \<^verbatim>\<open>quic_server_handle_uplink\<close>: the tunnel identifier and packet handed to
  \<^verbatim>\<open>upf_n3_route_uplink\<close>; \<open>alloc_ok\<close> tells whether a packet buffer could be allocated.
\<close>

definition quic_server_handle_uplink :: "bool \<Rightarrow> bytes \<Rightarrow> (u32 \<times> bytes) option" where
  "quic_server_handle_uplink alloc_ok buffer =
     (if length buffer < 4 then None
      else if \<not> alloc_ok then None
      else Some (rd32 buffer 0, drop 4 buffer))"

section \<open>Events\<close>

datatype send_state = SENT | LOST_SUSPECT | LOST_DISCARDED | ACKNOWLEDGED | ACKNOWLEDGED_SPURIOUS | CANCELED

text \<open>The events a connection callback acts on; \<open>OtherEvent\<close> stands for those it only logs.\<close>

datatype quic_event =
    CONNECTED bytes bool
  | SHUTDOWN_COMPLETE
  | DATAGRAM_RECEIVED bytes
  | DATAGRAM_SEND_STATE_CHANGED send_state "nat option"
  | OtherEvent

definition final_send_state :: "send_state \<Rightarrow> bool" where
  "final_send_state st \<longleftrightarrow> st = ACKNOWLEDGED \<or> st = ACKNOWLEDGED_SPURIOUS \<or> st = CANCELED \<or> st = LOST_DISCARDED"

definition connected :: "quic_server \<Rightarrow> nat \<Rightarrow> bytes \<Rightarrow> quic_server exec" where
  "connected s conn ip =
     (case ogs_pool_alloc (qs_pool s) of
        (p, None) \<Rightarrow> Abort
      | (p, Some n) \<Rightarrow>
          (case qs_hash s of None \<Rightarrow> Abort
           | Some ht \<Rightarrow> exec_bind (ogs_hash_set_debug ht ip (int (length ip)) (Some n))
               (\<lambda>ht. Ret (s\<lparr>qs_pool := p, qs_nodes := (qs_nodes s)(n := \<lparr>qc_conn = conn, qc_ip_address = ip\<rparr>),
                           qs_list := qs_list s @ [n], qs_hash := Some ht\<rparr>))))"

text \<open>The loop over the list stops at the first node of the connection.\<close>

fun find_conn :: "(nat \<Rightarrow> quic_client) \<Rightarrow> nat \<Rightarrow> nat list \<Rightarrow> nat option" where
  "find_conn nodes conn [] = None"
| "find_conn nodes conn (n # ns) = (if qc_conn (nodes n) = conn then Some n else find_conn nodes conn ns)"

definition shutdown_complete :: "quic_server \<Rightarrow> nat \<Rightarrow> quic_server exec" where
  "shutdown_complete s conn =
     (case find_conn (qs_nodes s) conn (qs_list s) of
        None \<Rightarrow> Ret s
      | Some n \<Rightarrow>
          (case qs_hash s of None \<Rightarrow> Abort
           | Some ht \<Rightarrow> exec_bind (ogs_hash_set_debug ht (qc_ip_address (qs_nodes s n))
                 (int (length (qc_ip_address (qs_nodes s n)))) None)
               (\<lambda>ht. Ret (s\<lparr>qs_hash := Some ht, qs_list := remove1 n (qs_list s),
                           qs_pool := ogs_pool_free (qs_pool s) n\<rparr>))))"

definition ConnectionCallback ::
  "bool \<Rightarrow> bool \<Rightarrow> quic_server \<Rightarrow> nat \<Rightarrow> quic_event \<Rightarrow>
     (quic_server \<times> quic_call list \<times> (u32 \<times> bytes) option \<times> bool) exec" where
  "ConnectionCallback ticket_ok alloc_ok s conn e =
     (case e of
        CONNECTED ip resumed \<Rightarrow>
          exec_bind (connected s conn ip)
            (\<lambda>s. Ret (s, if resumed then [] else [SendResumptionTicket conn], None, resumed \<or> ticket_ok))
      | SHUTDOWN_COMPLETE \<Rightarrow>
          exec_bind (shutdown_complete s conn) (\<lambda>s. Ret (s, [ConnectionClose conn], None, True))
      | DATAGRAM_RECEIVED buffer \<Rightarrow> Ret (s, [], quic_server_handle_uplink alloc_ok buffer, True)
      | DATAGRAM_SEND_STATE_CHANGED st b \<Rightarrow>
          Ret (if final_send_state st
               then (case b of None \<Rightarrow> s | Some b \<Rightarrow> s\<lparr>qs_send_pool := ogs_pool_free (qs_send_pool s) b\<rparr>)
               else s, [], None, True)
      | OtherEvent \<Rightarrow> Ret (s, [], None, True))"

datatype listener_event = NEW_CONNECTION nat | STOP_COMPLETE | OtherListenerEvent

text \<open>The result tells whether the callback reports success.\<close>

definition ListnerCallback :: "bool \<Rightarrow> quic_server \<Rightarrow> listener_event \<Rightarrow> quic_server \<times> quic_call list \<times> bool" where
  "ListnerCallback config_ok s e =
     (case e of
        NEW_CONNECTION conn \<Rightarrow> (s, [], config_ok)
      | STOP_COMPLETE \<Rightarrow>
          (if qx_listener (qs_ctx s)
           then (s\<lparr>qs_ctx := (qs_ctx s)\<lparr>qx_listener := False\<rparr>\<rparr>, [ListenerClose], True)
           else (s, [], True))
      | OtherListenerEvent \<Rightarrow> (s, [], True))"

section \<open>Invariant\<close>

text \<open>
  The list holds exactly the nodes of the pool in use, each once, and no two for one
  connection. The table maps addresses to nodes of the list with that address.
\<close>

definition quic_ok :: "quic_server \<Rightarrow> bool" where
  "quic_ok s \<longleftrightarrow> pool_ok (qs_pool s) \<and> pool_ok (qs_send_pool s) \<and> distinct (qs_list s) \<and>
     set (qs_list s) = allocated (qs_pool s) \<and>
     inj_on (\<lambda>n. qc_conn (qs_nodes s n)) (set (qs_list s)) \<and>
     (\<forall>n \<in> set (qs_list s). qc_ip_address (qs_nodes s n) \<noteq> []) \<and>
     (\<exists>ht. qs_hash s = Some ht \<and> hash_ok ht \<and>
        (\<forall>ip n. ip \<noteq> [] \<longrightarrow> hash_get ht ip = Some n \<longrightarrow>
            n \<in> set (qs_list s) \<and> qc_ip_address (qs_nodes s n) = ip))"

text \<open>Every connection is found under its address: what fails when two share one.\<close>

definition quic_indexed :: "quic_server \<Rightarrow> bool" where
  "quic_indexed s \<longleftrightarrow> (\<forall>n \<in> set (qs_list s).
     lookup_conn s (qc_ip_address (qs_nodes s n)) = Ret (Some (qc_conn (qs_nodes s n))))"

lemma debug_get: "ip \<noteq> [] \<Longrightarrow> ogs_hash_get_debug ht ip (int (length ip)) = Ret (hash_get ht ip)"
  by (simp add: hash_get_def ogs_hash_get_debug_def Let_def split: prod.splits)

lemma debug_set: "ip \<noteq> [] \<Longrightarrow> ogs_hash_set_debug ht ip (int (length ip)) v = Ret (hash_set ht ip v)"
  by (simp add: hash_set_def ogs_hash_set_debug_def Let_def split: prod.splits)

lemma lookup_conn_eq:
  "qs_hash s = Some ht \<Longrightarrow> ip \<noteq> [] \<Longrightarrow>
     lookup_conn s ip = Ret (map_option (\<lambda>n. qc_conn (qs_nodes s n)) (hash_get ht ip))"
  by (simp add: lookup_conn_def debug_get)

lemma find_conn_Some:
  "find_conn nodes conn ns = Some n \<Longrightarrow> n \<in> set ns \<and> qc_conn (nodes n) = conn"
  by (induction ns) (auto split: if_splits)

lemma find_conn_None: "find_conn nodes conn ns = None \<longleftrightarrow> conn \<notin> (\<lambda>n. qc_conn (nodes n)) ` set ns"
  by (induction ns) auto

lemma find_conn_inj:
  "inj_on (\<lambda>n. qc_conn (nodes n)) (set ns) \<Longrightarrow> n \<in> set ns \<Longrightarrow> find_conn nodes (qc_conn (nodes n)) ns = Some n"
  by (induction ns) (auto simp: inj_on_def)

lemma connected_ok:
  assumes ok: "quic_ok s" and ip: "ip \<noteq> []" and new: "conn \<notin> (\<lambda>n. qc_conn (qs_nodes s n)) ` set (qs_list s)"
    and room: "card (allocated (qs_pool s)) < pool_size (qs_pool s)"
  shows "\<exists>s' n. connected s conn ip = Ret s' \<and> quic_ok s' \<and> n \<notin> set (qs_list s) \<and> qs_list s' = qs_list s @ [n] \<and>
    qs_nodes s' = (qs_nodes s)(n := \<lparr>qc_conn = conn, qc_ip_address = ip\<rparr>) \<and>
    qs_send_pool s' = qs_send_pool s \<and> qs_ctx s' = qs_ctx s \<and>
    lookup_conn s' ip = Ret (Some conn) \<and>
    (\<forall>ip'. ip' \<noteq> [] \<and> ip' \<noteq> ip \<longrightarrow> lookup_conn s' ip' = lookup_conn s ip')"
proof -
  obtain ht where ht: "qs_hash s = Some ht" "hash_ok ht"
    "\<And>ip n. ip \<noteq> [] \<Longrightarrow> hash_get ht ip = Some n \<Longrightarrow> n \<in> set (qs_list s) \<and> qc_ip_address (qs_nodes s n) = ip"
    using ok by (auto simp: quic_ok_def)
  have pool: "pool_ok (qs_pool s)" "set (qs_list s) = allocated (qs_pool s)" using ok by (auto simp: quic_ok_def)
  obtain p n where p: "ogs_pool_alloc (qs_pool s) = (p, Some n)"
    by (rule pool.acquire_succeeds [OF pool(1) room])
  note a = pool.acquire_Some [OF pool(1) p]
  define s' where "s' = s\<lparr>qs_pool := p, qs_nodes := (qs_nodes s)(n := \<lparr>qc_conn = conn, qc_ip_address = ip\<rparr>),
      qs_list := qs_list s @ [n], qs_hash := Some (hash_set ht ip (Some n))\<rparr>"
  have n: "n \<notin> set (qs_list s)" using a pool(2) by simp
  have run: "connected s conn ip = Ret s'"
    using p ht(1) ip by (simp add: connected_def debug_set s'_def)
  have h': "hash_ok (hash_set ht ip (Some n))" "qs_hash s' = Some (hash_set ht ip (Some n))"
    using ht(2) ip by (simp_all add: s'_def)
  have idx: "m \<in> set (qs_list s') \<and> qc_ip_address (qs_nodes s' m) = ip'"
    if "ip' \<noteq> []" "hash_get (hash_set ht ip (Some n)) ip' = Some m" for ip' m
    using that ht(2) ip ht(3) [of ip' m] n by (auto simp: s'_def split: if_splits)
  have "inj_on (\<lambda>m. qc_conn (qs_nodes s' m)) (set (qs_list s'))"
    using ok new n by (auto simp: quic_ok_def s'_def inj_on_def)
  moreover have "\<forall>m \<in> set (qs_list s'). qc_ip_address (qs_nodes s' m) \<noteq> []"
    using ok ip by (auto simp: quic_ok_def s'_def)
  moreover have "pool_ok (qs_pool s')" "pool_ok (qs_send_pool s')" "distinct (qs_list s')"
    "set (qs_list s') = allocated (qs_pool s')"
    using ok a n by (auto simp: quic_ok_def s'_def)
  ultimately have "quic_ok s'" unfolding quic_ok_def using h' idx by blast
  moreover have "lookup_conn s' ip = Ret (Some conn)"
    using lookup_conn_eq [OF h'(2) ip] ht(2) ip by (simp add: s'_def)
  moreover have "lookup_conn s' ip' = lookup_conn s ip'" if "ip' \<noteq> [] \<and> ip' \<noteq> ip" for ip'
    using lookup_conn_eq [OF h'(2), of ip'] lookup_conn_eq [OF ht(1), of ip'] that ht(2) ip n
      ht(3) [of ip'] by (cases "hash_get ht ip'") (auto simp: s'_def)
  ultimately show ?thesis using run n by (auto simp: s'_def)
qed

lemma shutdown_ok:
  assumes ok: "quic_ok s" and n: "n \<in> set (qs_list s)"
  shows "\<exists>s'. shutdown_complete s (qc_conn (qs_nodes s n)) = Ret s' \<and> quic_ok s' \<and>
    qs_list s' = remove1 n (qs_list s) \<and> qs_nodes s' = qs_nodes s \<and>
    qs_send_pool s' = qs_send_pool s \<and> qs_ctx s' = qs_ctx s \<and>
    lookup_conn s' (qc_ip_address (qs_nodes s n)) = Ret None \<and>
    (\<forall>ip'. ip' \<noteq> [] \<and> ip' \<noteq> qc_ip_address (qs_nodes s n) \<longrightarrow> lookup_conn s' ip' = lookup_conn s ip')"
proof -
  obtain ht where ht: "qs_hash s = Some ht" "hash_ok ht"
    "\<And>ip n. ip \<noteq> [] \<Longrightarrow> hash_get ht ip = Some n \<Longrightarrow> n \<in> set (qs_list s) \<and> qc_ip_address (qs_nodes s n) = ip"
    using ok by (auto simp: quic_ok_def)
  define ip where "ip = qc_ip_address (qs_nodes s n)"
  have ip: "ip \<noteq> []" using ok n by (auto simp: quic_ok_def ip_def)
  have pool: "pool_ok (qs_pool s)" "n \<in> allocated (qs_pool s)" using ok n by (auto simp: quic_ok_def)
  have f: "find_conn (qs_nodes s) (qc_conn (qs_nodes s n)) (qs_list s) = Some n"
    using ok n by (intro find_conn_inj) (auto simp: quic_ok_def)
  define s' where "s' = s\<lparr>qs_hash := Some (hash_set ht ip None), qs_list := remove1 n (qs_list s),
      qs_pool := ogs_pool_free (qs_pool s) n\<rparr>"
  have run: "shutdown_complete s (qc_conn (qs_nodes s n)) = Ret s'"
    using ip by (simp add: shutdown_complete_def f ht(1) ip_def [symmetric] debug_set s'_def)
  have h': "hash_ok (hash_set ht ip None)" "qs_hash s' = Some (hash_set ht ip None)"
    using ht(2) ip by (simp_all add: s'_def)
  have d: "distinct (qs_list s)" using ok by (simp add: quic_ok_def)
  have idx: "m \<in> set (qs_list s') \<and> qc_ip_address (qs_nodes s' m) = ip'"
    if "ip' \<noteq> []" "hash_get (hash_set ht ip None) ip' = Some m" for ip' m
    using that ht(2) ip ht(3) [of ip' m] d by (auto simp: s'_def ip_def split: if_splits)
  have "inj_on (\<lambda>m. qc_conn (qs_nodes s' m)) (set (qs_list s'))"
    using ok d by (auto simp: quic_ok_def s'_def inj_on_def)
  moreover have "\<forall>m \<in> set (qs_list s'). qc_ip_address (qs_nodes s' m) \<noteq> []"
    using ok d by (auto simp: quic_ok_def s'_def)
  moreover have "pool_ok (qs_pool s')" "pool_ok (qs_send_pool s')" "distinct (qs_list s')"
    "set (qs_list s') = allocated (qs_pool s')"
    using ok free_allocated(1,2) [OF pool] d by (auto simp: quic_ok_def s'_def)
  ultimately have "quic_ok s'" unfolding quic_ok_def using h' idx by blast
  moreover have "lookup_conn s' ip = Ret None"
    using lookup_conn_eq [OF h'(2) ip] ht(2) ip by simp
  moreover have "lookup_conn s' ip' = lookup_conn s ip'" if "ip' \<noteq> [] \<and> ip' \<noteq> ip" for ip'
    using lookup_conn_eq [OF h'(2), of ip'] lookup_conn_eq [OF ht(1), of ip'] that ht(2) ip
    by (simp add: s'_def)
  ultimately show ?thesis using run by (auto simp: s'_def ip_def)
qed

lemma server_start_ok: "sr_open r \<Longrightarrow> quic_ok (fst (ogs_quic_server_start r a b c ctx))"
  by (auto simp: ogs_quic_server_start_def quic_ok_def pool_ok_init allocated_init hash_ok_make
      ht.look_empty split: prod.splits)

lemma handle_frame [simp]: "quic_server_handle_uplink True (be32 teid @ xs) = Some (teid, xs)"
  by (simp add: quic_server_handle_uplink_def codec_simps)

text \<open>The one way a datagram goes out.\<close>

lemma send_downlink_sent:
  assumes "quic_server_send_downlink send_ok s ip teid packet len = Ret (s', [DatagramSend c frame b])"
  shows "\<exists>p. ogs_pool_alloc (qs_send_pool s) = (p, Some b) \<and>
    s' = (let s = s\<lparr>qs_send_pool := p, qs_payload := (qs_payload s)(b := frame)\<rparr> in
        if send_ok then s else s\<lparr>qs_send_pool := ogs_pool_free p b\<rparr>)"
proof -
  obtain conn where l: "lookup_conn s ip = Ret conn"
    using assms by (cases "lookup_conn s ip") (simp_all add: quic_server_send_downlink_def)
  obtain c0 where c0: "conn = Some c0"
    using assms l by (cases conn) (simp_all add: quic_server_send_downlink_def)
  have m: "qx_msquic (qs_ctx s)"
    using assms l c0 by (cases "qx_msquic (qs_ctx s)") (simp_all add: quic_server_send_downlink_def)
  obtain data where d: "packet = Some data"
    using assms l c0 m by (cases packet) (simp_all add: quic_server_send_downlink_def)
  obtain p x where p: "ogs_pool_alloc (qs_send_pool s) = (p, x)"
    by (cases "ogs_pool_alloc (qs_send_pool s)")
  show ?thesis
    using assms l c0 m d p
    by (cases x) (auto simp: quic_server_send_downlink_def Let_def split: if_splits)
qed

lemma connected_indexed:
  assumes "quic_ok s" "quic_indexed s" "inj_on (\<lambda>n. qc_ip_address (qs_nodes s n)) (set (qs_list s))"
    and a: "ip \<noteq> [] \<and> conn \<notin> (\<lambda>n. qc_conn (qs_nodes s n)) ` set (qs_list s) \<and>
        ip \<notin> (\<lambda>n. qc_ip_address (qs_nodes s n)) ` set (qs_list s) \<and>
        card (allocated (qs_pool s)) < pool_size (qs_pool s)"
  shows "\<exists>s'. connected s conn ip = Ret s' \<and> quic_ok s' \<and> quic_indexed s' \<and>
      inj_on (\<lambda>n. qc_ip_address (qs_nodes s' n)) (set (qs_list s')) \<and> lookup_conn s' ip = Ret (Some conn) \<and>
      (\<exists>n. n \<notin> set (qs_list s) \<and> qs_list s' = qs_list s @ [n] \<and>
         qs_nodes s' = (qs_nodes s)(n := \<lparr>qc_conn = conn, qc_ip_address = ip\<rparr>)) \<and>
      (\<forall>ip'. ip' \<noteq> [] \<and> ip' \<noteq> ip \<longrightarrow> lookup_conn s' ip' = lookup_conn s ip')"
proof -
  from a obtain s' n where s': "connected s conn ip = Ret s'" "quic_ok s'" "n \<notin> set (qs_list s)"
    "qs_list s' = qs_list s @ [n]" "qs_nodes s' = (qs_nodes s)(n := \<lparr>qc_conn = conn, qc_ip_address = ip\<rparr>)"
    "lookup_conn s' ip = Ret (Some conn)"
    "\<And>ip'. ip' \<noteq> [] \<Longrightarrow> ip' \<noteq> ip \<Longrightarrow> lookup_conn s' ip' = lookup_conn s ip'"
    using connected_ok [OF assms(1), of ip conn] by blast
  have "quic_indexed s'"
    unfolding quic_indexed_def
  proof
    fix m assume m: "m \<in> set (qs_list s')"
    show "lookup_conn s' (qc_ip_address (qs_nodes s' m)) = Ret (Some (qc_conn (qs_nodes s' m)))"
    proof (cases "m = n")
      case True
      then show ?thesis using s' by simp
    next
      case False
      then have ml: "m \<in> set (qs_list s)" using m s'(4) by simp
      then have "qc_ip_address (qs_nodes s m) \<noteq> []" "qc_ip_address (qs_nodes s m) \<noteq> ip"
        using assms(1) a by (auto simp: quic_ok_def)
      with False ml s'(5,7) assms(2) show ?thesis by (simp add: quic_indexed_def)
    qed
  qed
  moreover have "inj_on (\<lambda>n. qc_ip_address (qs_nodes s' n)) (set (qs_list s'))"
    using assms(3) a s'(3-5) by (auto simp: inj_on_def)
  ultimately show ?thesis
    using s' by blast
qed

lemma shutdown_indexed:
  assumes "quic_ok s" "quic_indexed s" "inj_on (\<lambda>n. qc_ip_address (qs_nodes s n)) (set (qs_list s))"
    and n: "n \<in> set (qs_list s)"
  shows "\<exists>s'. shutdown_complete s (qc_conn (qs_nodes s n)) = Ret s' \<and> quic_ok s' \<and> quic_indexed s' \<and>
      inj_on (\<lambda>n. qc_ip_address (qs_nodes s' n)) (set (qs_list s')) \<and>
      set (qs_list s') = set (qs_list s) - {n} \<and> qs_nodes s' = qs_nodes s \<and>
      lookup_conn s' (qc_ip_address (qs_nodes s n)) = Ret None \<and>
      (\<forall>ip'. ip' \<noteq> [] \<and> ip' \<noteq> qc_ip_address (qs_nodes s n) \<longrightarrow> lookup_conn s' ip' = lookup_conn s ip')"
proof -
  obtain s' where s': "shutdown_complete s (qc_conn (qs_nodes s n)) = Ret s'" "quic_ok s'"
    "qs_list s' = remove1 n (qs_list s)" "qs_nodes s' = qs_nodes s"
    "lookup_conn s' (qc_ip_address (qs_nodes s n)) = Ret None"
    "\<And>ip'. ip' \<noteq> [] \<Longrightarrow> ip' \<noteq> qc_ip_address (qs_nodes s n) \<Longrightarrow> lookup_conn s' ip' = lookup_conn s ip'"
    using shutdown_ok [OF assms(1) n] by blast
  have l: "set (qs_list s') = set (qs_list s) - {n}" using assms(1) s'(3) by (simp add: quic_ok_def)
  have "quic_indexed s'"
    unfolding quic_indexed_def
  proof
    fix m assume m: "m \<in> set (qs_list s')"
    then have ml: "m \<in> set (qs_list s)" "m \<noteq> n" using l by auto
    then have "qc_ip_address (qs_nodes s m) \<noteq> qc_ip_address (qs_nodes s n)" "qc_ip_address (qs_nodes s m) \<noteq> []"
      using assms(1,3) n by (auto simp: inj_on_def quic_ok_def)
    with ml s'(4,6) assms(2) show "lookup_conn s' (qc_ip_address (qs_nodes s' m)) = Ret (Some (qc_conn (qs_nodes s' m)))"
      by (simp add: quic_indexed_def)
  qed
  moreover have "inj_on (\<lambda>n. qc_ip_address (qs_nodes s' n)) (set (qs_list s'))"
    using assms(3) l s'(4) by (auto simp: inj_on_def)
  ultimately show ?thesis
    using s' l by blast
qed

section \<open>Send contexts\<close>

text \<open>
  What happens to datagrams while gNBs connect and close: they are sent, refused by \<^verbatim>\<open>DatagramSend\<close>
  or dropped, and MsQuic reports their states. It reports on datagrams in flight only, or without
  a context, and after the states \<open>SENT\<close> and \<open>LOST_SUSPECT\<close> another report follows; every other state
  is the last. The map holds the frames in flight under their contexts.
\<close>

inductive send_run :: "quic_server \<Rightarrow> quic_server \<Rightarrow> (nat \<rightharpoonup> bytes) \<Rightarrow> bool" for s where
  start: "send_run s s Map.empty"
| sent: "send_run s s1 F \<Longrightarrow> quic_server_send_downlink True s1 ip teid packet len = Ret (s2, [DatagramSend c frame b]) \<Longrightarrow>
    send_run s s2 (F(b \<mapsto> frame))"
| refused: "send_run s s1 F \<Longrightarrow> quic_server_send_downlink False s1 ip teid packet len = Ret (s2, [DatagramSend c frame b]) \<Longrightarrow>
    send_run s s2 F"
| dropped: "send_run s s1 F \<Longrightarrow> quic_server_send_downlink send_ok s1 ip teid packet len = Ret (s2, []) \<Longrightarrow> send_run s s2 F"
| report: "send_run s s1 F \<Longrightarrow> F b = Some frame \<Longrightarrow>
    ConnectionCallback t a s1 conn (DATAGRAM_SEND_STATE_CHANGED st (Some b)) = Ret (s2, calls, up, ok) \<Longrightarrow>
    send_run s s2 (case st of SENT \<Rightarrow> F | LOST_SUSPECT \<Rightarrow> F | _ \<Rightarrow> F(b := None))"
| other: "send_run s s1 F \<Longrightarrow> (\<And>st b. e \<noteq> DATAGRAM_SEND_STATE_CHANGED st (Some b)) \<Longrightarrow>
    ConnectionCallback t a s1 conn e = Ret (s2, calls, up, ok) \<Longrightarrow> send_run s s2 F"

lemma send_downlink_dropped:
  assumes "quic_server_send_downlink send_ok s ip teid packet len = Ret (s', [])" "pool_ok (qs_send_pool s)"
  shows "s' = s"
proof -
  obtain conn where l: "lookup_conn s ip = Ret conn"
    using assms(1) by (cases "lookup_conn s ip") (simp_all add: quic_server_send_downlink_def)
  obtain p x where p: "ogs_pool_alloc (qs_send_pool s) = (p, x)" by (cases "ogs_pool_alloc (qs_send_pool s)")
  have "p = qs_send_pool s" if "x = None"
    using alloc_None_iff [OF assms(2)] alloc_None [of "qs_send_pool s"] p that by simp
  then show ?thesis using assms(1) l p
    by (cases x) (auto simp: quic_server_send_downlink_def Let_def split: option.splits if_splits)
qed

lemma other_event_keeps_sends:
  assumes "ConnectionCallback t a s conn e = Ret (s', calls, up, ok)" "\<And>st b. e \<noteq> DATAGRAM_SEND_STATE_CHANGED st (Some b)"
  shows "qs_send_pool s' = qs_send_pool s" "qs_payload s' = qs_payload s"
proof -
  have c: "qs_send_pool s1 = qs_send_pool s \<and> qs_payload s1 = qs_payload s" if "connected s conn ip = Ret s1" for s1 ip
    using that by (auto simp: connected_def split: prod.splits option.splits)
  have d: "qs_send_pool s1 = qs_send_pool s \<and> qs_payload s1 = qs_payload s" if "shutdown_complete s conn = Ret s1" for s1
    using that by (auto simp: shutdown_complete_def split: option.splits)
  have "qs_send_pool s' = qs_send_pool s \<and> qs_payload s' = qs_payload s"
  proof (cases e)
    case (CONNECTED ip resumed)
    then show ?thesis using assms(1) c [of ip] by (cases "connected s conn ip") (auto simp: ConnectionCallback_def)
  next
    case SHUTDOWN_COMPLETE
    then show ?thesis using assms(1) d by (cases "shutdown_complete s conn") (auto simp: ConnectionCallback_def)
  next
    case (DATAGRAM_SEND_STATE_CHANGED st b)
    then have "b = None" using assms(2) by (cases b) auto
    then show ?thesis using assms(1) DATAGRAM_SEND_STATE_CHANGED by (auto simp: ConnectionCallback_def)
  qed (use assms(1) in \<open>auto simp: ConnectionCallback_def\<close>)
  then show "qs_send_pool s' = qs_send_pool s" "qs_payload s' = qs_payload s" by simp_all
qed

text \<open>The contexts in use are those of the frames in flight, and hold these frames.\<close>

definition sends_ok :: "quic_server \<Rightarrow> (nat \<rightharpoonup> bytes) \<Rightarrow> bool" where
  "sends_ok s F \<longleftrightarrow> pool_ok (qs_send_pool s) \<and> allocated (qs_send_pool s) = dom F \<and> (\<forall>b frame. F b = Some frame \<longrightarrow> qs_payload s b = frame)"

lemma sends_ok_sent:
  assumes ok: "sends_ok s F" and sent: "quic_server_send_downlink send_ok s ip teid packet len = Ret (s', [DatagramSend c frame b])"
  shows "b \<notin> dom F" "sends_ok s' (if send_ok then F(b \<mapsto> frame) else F)"
proof -
  obtain p where p: "ogs_pool_alloc (qs_send_pool s) = (p, Some b)"
    and s': "s' = (let s = s\<lparr>qs_send_pool := p, qs_payload := (qs_payload s)(b := frame)\<rparr> in
        if send_ok then s else s\<lparr>qs_send_pool := ogs_pool_free p b\<rparr>)"
    using send_downlink_sent [OF sent] by blast
  have "pool_ok (qs_send_pool s)" using ok by (simp add: sends_ok_def)
  note a = pool.acquire_Some [OF this p]
  have "pool_ok (ogs_pool_free p b)" "allocated (ogs_pool_free p b) = allocated (qs_send_pool s)"
    using a free_allocated(1,2) [of p b] by auto
  then show "b \<notin> dom F" "sends_ok s' (if send_ok then F(b \<mapsto> frame) else F)"
    using ok a s' by (auto simp: sends_ok_def Let_def)
qed

lemma sends_ok_report:
  assumes ok: "sends_ok s F" and b: "F b = Some frame"
    and r: "ConnectionCallback t a s conn (DATAGRAM_SEND_STATE_CHANGED st (Some b)) = Ret (s', calls, up, done')"
  shows "sends_ok s' (case st of SENT \<Rightarrow> F | LOST_SUSPECT \<Rightarrow> F | _ \<Rightarrow> F(b := None))"
proof -
  have "b \<in> allocated (qs_send_pool s)" "pool_ok (qs_send_pool s)" using ok b by (auto simp: sends_ok_def)
  note f = free_allocated(1,2) [OF this(2,1)]
  then have "sends_ok (s\<lparr>qs_send_pool := ogs_pool_free (qs_send_pool s) b\<rparr>) (F(b := None))" using ok by (auto simp: sends_ok_def)
  then show ?thesis using ok r by (cases st) (auto simp: ConnectionCallback_def final_send_state_def)
qed

lemma send_run_ok:
  assumes "send_run s s' F" "pool_ok (qs_send_pool s)" "allocated (qs_send_pool s) = {}"
  shows "sends_ok s' F"
  using assms
proof (induction rule: send_run.induct)
  case (sent s1 F ip teid packet len s2 c frame b)
  from sends_ok_sent(2) [OF sent.IH [OF sent.prems] sent.hyps(2)] show ?case by (simp only: if_True)
next
  case (refused s1 F ip teid packet len s2 c frame b)
  from sends_ok_sent(2) [OF refused.IH [OF refused.prems] refused.hyps(2)] show ?case by (simp only: if_False)
next
  case (dropped s1 F send_ok ip teid packet len s2)
  then have ok: "sends_ok s1 F" by simp
  then have "pool_ok (qs_send_pool s1)" by (simp add: sends_ok_def)
  from send_downlink_dropped [OF dropped.hyps(2) this] ok show ?case by simp
next
  case (report s1 F b frame t a conn st s2 calls up ok)
  then show ?case using sends_ok_report by blast
next
  case (other s1 F e t a conn s2 calls up ok)
  then show ?case using other_event_keeps_sends [OF other.hyps(3,2)] by (simp add: sends_ok_def)
qed (simp add: sends_ok_def)

section \<open>Properties\<close>

text \<open>A packet that fits, for a client that is connected, is sent behind the tunnel identifier.\<close>

lemma downlink_frame:
  assumes "lookup_conn s ip = Ret (Some conn)" "pool_ok (qs_send_pool s)" "qx_msquic (qs_ctx s)"
    and "1 \<le> length data" "length data \<le> 2044" "card (allocated (qs_send_pool s)) < pool_size (qs_send_pool s)"
  shows "\<exists>s' frame b. quic_server_send_downlink send_ok s ip teid (Some data) (of_nat (length data)) =
      Ret (s', [DatagramSend conn frame b]) \<and> quic_server_handle_uplink True frame = Some (teid, data)"
proof -
  obtain p b where "ogs_pool_alloc (qs_send_pool s) = (p, Some b)"
    by (rule pool.acquire_succeeds [OF assms(2,6)])
  moreover have n: "unat (of_nat (length data) :: u16) = length data" using assms(5) by (simp add: unat_of_nat)
  moreover from this assms(4) have "(of_nat (length data) :: u16) \<noteq> 0" by (metis not_one_le_zero unat_0)
  ultimately show ?thesis using assms
    by (auto simp: quic_server_send_downlink_def Let_def quic_header_len_def)
qed

text \<open>
  C13: A downlink packet of 1 to 2044 bytes for a connected gNB, while a send context is free,
  goes out as one datagram on the connection of that gNB, and the datagram is the tunnel
  identifier in network order followed by the packet: the uplink handler reads back exactly
  this pair from it. Anything else is dropped without touching the server.
\<close>

theorem quic_downlink_datagram:
  assumes "lookup_conn s ip = Ret conn" "pool_ok (qs_send_pool s)" "unat len \<le> length data"
  shows "let sent = quic_server_send_downlink send_ok s ip teid (Some data) len in
    (if conn \<noteq> None \<and> qx_msquic (qs_ctx s) \<and> 1 \<le> unat len \<and> unat len \<le> 2044 \<and>
        card (allocated (qs_send_pool s)) < pool_size (qs_send_pool s)
     then (\<exists>s' frame b. sent = Ret (s', [DatagramSend (the conn) frame b]) \<and> length frame = 4 + unat len \<and>
       quic_server_handle_uplink True frame = Some (teid, take (unat len) data))
     else sent = Ret (s, []))"
proof -
  have len: "len = 0 \<longleftrightarrow> unat len = 0" by (simp add: unat_eq_0)
  show ?thesis
  proof (cases "card (allocated (qs_send_pool s)) < pool_size (qs_send_pool s)")
    case True
    then obtain p b where "ogs_pool_alloc (qs_send_pool s) = (p, Some b)"
      by (rule pool.acquire_succeeds [OF assms(2)])
    with assms True len show ?thesis
      by (auto simp: quic_server_send_downlink_def Let_def quic_header_len_def not_less Suc_le_eq
          split: option.splits)
  next
    case False
    then have "pool_avail (qs_send_pool s) = 0" using card_allocated [OF assms(2)] by simp
    with assms False show ?thesis
      by (auto simp: quic_server_send_downlink_def alloc_None Let_def split: option.splits)
  qed
qed

lemma connected_server:
  obtains s where "quic_ok s" "lookup_conn s [49] = Ret (Some 5)" "qs_send_pool s = ogs_pool_init 4096 3"
    "qx_msquic (qs_ctx s)" "pool_ok (qs_send_pool s)"
proof -
  define r where "r = \<lparr>sr_open = True, sr_registration = True, sr_configuration = True, sr_credential = True,
     sr_listener = True, sr_address = True, sr_start = True\<rparr>"
  define s0 where "s0 = fst (ogs_quic_server_start r 1 2 3 \<lparr>qx_msquic = False, qx_registration = False,
     qx_configuration = False, qx_listener = False\<rparr>)"
  have ok0: "quic_ok s0" unfolding s0_def by (rule server_start_ok) (simp add: r_def)
  have e0: "qs_list s0 = []" "qx_msquic (qs_ctx s0)" "qs_pool s0 = ogs_pool_init 128 2"
    "qs_send_pool s0 = ogs_pool_init 4096 3"
    by (simp_all add: s0_def ogs_quic_server_start_def StartQuicServer_def r_def)
  obtain s1 where s1: "quic_ok s1" "lookup_conn s1 [49] = Ret (Some 5)" "qs_send_pool s1 = ogs_pool_init 4096 3"
    "qx_msquic (qs_ctx s1)"
    using connected_ok [OF ok0, of "[49]" 5] e0 allocated_init [of 128 2]
    by (auto simp: ogs_pool_init_def)
  moreover have "pool_ok (qs_send_pool s1)" using s1(1) by (simp add: quic_ok_def)
  ultimately show ?thesis by (rule that)
qed

theorem quic_downlink_datagram_witness:
  "\<exists>s s' frame b. quic_server_send_downlink True s [49] 7 (Some [1, 2, 3]) 3 = Ret (s', [DatagramSend 5 frame b]) \<and>
     quic_server_handle_uplink True frame = Some (7, [1, 2, 3])"
proof -
  obtain s1 where s1: "quic_ok s1" "lookup_conn s1 [49] = Ret (Some 5)" "qs_send_pool s1 = ogs_pool_init 4096 3"
    "qx_msquic (qs_ctx s1)" "pool_ok (qs_send_pool s1)" by (rule connected_server)
  from quic_downlink_datagram [OF s1(2,5), of 3 "[1, 2, 3]" True 7] s1(3,4) allocated_init [of 4096 3]
  show ?thesis by (auto simp: ogs_pool_init_def Let_def)
qed

text \<open>
  C14: While no two connected gNBs share an address, every one of them is reachable: a new
  connection from a new address is added to the list, with a node of its own, and is reachable under
  its address; a closed one leaves the list, and its address designates nothing. Both events keep
  the nodes of the other gNBs and what every other address designates, so that all gNBs of the new
  list are reachable again.
\<close>

theorem quic_clients_reachable:
  assumes "quic_ok s" "quic_indexed s" "inj_on (\<lambda>n. qc_ip_address (qs_nodes s n)) (set (qs_list s))"
  shows "(\<forall>conn ip. ip \<noteq> [] \<and> conn \<notin> (\<lambda>n. qc_conn (qs_nodes s n)) ` set (qs_list s) \<and>
        ip \<notin> (\<lambda>n. qc_ip_address (qs_nodes s n)) ` set (qs_list s) \<and>
        card (allocated (qs_pool s)) < pool_size (qs_pool s) \<longrightarrow>
      (\<exists>s'. connected s conn ip = Ret s' \<and> quic_ok s' \<and> quic_indexed s' \<and>
         inj_on (\<lambda>n. qc_ip_address (qs_nodes s' n)) (set (qs_list s')) \<and> lookup_conn s' ip = Ret (Some conn) \<and>
         (\<exists>n. n \<notin> set (qs_list s) \<and> qs_list s' = qs_list s @ [n] \<and>
            qs_nodes s' = (qs_nodes s)(n := \<lparr>qc_conn = conn, qc_ip_address = ip\<rparr>)) \<and>
         (\<forall>ip'. ip' \<noteq> [] \<and> ip' \<noteq> ip \<longrightarrow> lookup_conn s' ip' = lookup_conn s ip'))) \<and>
    (\<forall>n \<in> set (qs_list s).
      (\<exists>s'. shutdown_complete s (qc_conn (qs_nodes s n)) = Ret s' \<and> quic_ok s' \<and> quic_indexed s' \<and>
         inj_on (\<lambda>n. qc_ip_address (qs_nodes s' n)) (set (qs_list s')) \<and>
         set (qs_list s') = set (qs_list s) - {n} \<and> qs_nodes s' = qs_nodes s \<and>
         lookup_conn s' (qc_ip_address (qs_nodes s n)) = Ret None \<and>
         (\<forall>ip'. ip' \<noteq> [] \<and> ip' \<noteq> qc_ip_address (qs_nodes s n) \<longrightarrow> lookup_conn s' ip' = lookup_conn s ip')))"
  using connected_indexed [OF assms] shutdown_indexed [OF assms] by (intro conjI allI impI ballI) simp_all

definition sample_server :: quic_server where
  "sample_server = \<lparr>qs_ctx = \<lparr>qx_msquic = True, qx_registration = True, qx_configuration = True, qx_listener = True\<rparr>,
     qs_hash = Some (ogs_hash_make 1), qs_list = [], qs_pool = ogs_pool_init 128 2,
     qs_nodes = (\<lambda>_. \<lparr>qc_conn = 0, qc_ip_address = []\<rparr>), qs_send_pool = ogs_pool_init 4096 3, qs_payload = (\<lambda>_. [])\<rparr>"

lemma sample_server_ok:
  "quic_ok sample_server" "qs_list sample_server = []"
  "card (allocated (qs_pool sample_server)) < pool_size (qs_pool sample_server)"
  by (simp_all add: sample_server_def quic_ok_def pool_ok_init allocated_init hash_ok_make ht.look_empty)
     (simp add: ogs_pool_init_def)

theorem quic_clients_reachable_witness:
  "\<exists>s'. connected sample_server 5 [49] = Ret s' \<and> lookup_conn s' [49] = Ret (Some 5)"
  using quic_clients_reachable [OF sample_server_ok(1)] sample_server_ok(2,3)
  by (fastforce simp: quic_indexed_def)

text \<open>
  The table is keyed by the address only. When a second connection comes from the address
  of a connected gNB and the first then closes, the second is still in the list but its address
  designates nothing, so every downlink packet for it is dropped.
\<close>

theorem quic_shared_address_lost:
  assumes "quic_ok s" "ip \<noteq> []" "c1 \<noteq> c2" "{c1, c2} \<inter> (\<lambda>n. qc_conn (qs_nodes s n)) ` set (qs_list s) = {}"
    and "Suc (card (allocated (qs_pool s))) < pool_size (qs_pool s)"
  shows "\<exists>s1 s2 s3. connected s c1 ip = Ret s1 \<and> connected s1 c2 ip = Ret s2 \<and> shutdown_complete s2 c1 = Ret s3 \<and>
    c2 \<in> (\<lambda>n. qc_conn (qs_nodes s3 n)) ` set (qs_list s3) \<and> lookup_conn s3 ip = Ret None \<and>
    (\<forall>send_ok teid packet len. quic_server_send_downlink send_ok s3 ip teid packet len = Ret (s3, []))"
proof -
  obtain s1 n1 where s1: "connected s c1 ip = Ret s1" "quic_ok s1" "n1 \<notin> set (qs_list s)" "qs_list s1 = qs_list s @ [n1]"
    "qs_nodes s1 = (qs_nodes s)(n1 := \<lparr>qc_conn = c1, qc_ip_address = ip\<rparr>)"
    using connected_ok [OF assms(1,2), of c1] assms(4,5) by auto
  have q: "set (qs_list s) = allocated (qs_pool s)" "set (qs_list s1) = allocated (qs_pool s1)"
    using assms(1) s1(2) by (auto simp: quic_ok_def)
  have "allocated (qs_pool s1) = insert n1 (allocated (qs_pool s))" using q s1(4) by auto
  moreover have "pool_size (qs_pool s1) = pool_size (qs_pool s)"
    using s1(1) assms(1) pool.acquire_Some [of "qs_pool s"]
    by (auto simp: connected_def quic_ok_def debug_set [OF assms(2)] split: prod.splits option.splits)
  ultimately have r1: "card (allocated (qs_pool s1)) < pool_size (qs_pool s1)"
    using assms(5) s1(3) q(1) by simp
  have new2: "c2 \<notin> (\<lambda>n. qc_conn (qs_nodes s1 n)) ` set (qs_list s1)"
    using assms(3,4) s1(3-5) by auto
  obtain s2 n2 where s2: "connected s1 c2 ip = Ret s2" "quic_ok s2" "n2 \<notin> set (qs_list s1)" "qs_list s2 = qs_list s1 @ [n2]"
    "qs_nodes s2 = (qs_nodes s1)(n2 := \<lparr>qc_conn = c2, qc_ip_address = ip\<rparr>)"
    using connected_ok [OF s1(2) assms(2) new2 r1] by blast
  have n12: "n1 \<noteq> n2" "n1 \<in> set (qs_list s2)" "n2 \<in> set (qs_list s2)"
    "qc_conn (qs_nodes s2 n1) = c1" "qc_conn (qs_nodes s2 n2) = c2" "qc_ip_address (qs_nodes s2 n1) = ip"
    using s1(4,5) s2(3-5) by auto
  obtain s3 where s3: "shutdown_complete s2 c1 = Ret s3" "qs_list s3 = remove1 n1 (qs_list s2)" "qs_nodes s3 = qs_nodes s2"
    "lookup_conn s3 ip = Ret None"
    using shutdown_ok [OF s2(2) n12(2)] n12(4,6) by auto
  have "c2 \<in> (\<lambda>n. qc_conn (qs_nodes s3 n)) ` set (qs_list s3)"
    using n12 s3(2,3) by (auto intro!: image_eqI [of _ _ n2])
  moreover have "quic_server_send_downlink send_ok s3 ip teid packet len = Ret (s3, [])" for send_ok teid packet len
    by (simp add: quic_server_send_downlink_def s3(4))
  ultimately show ?thesis using s1(1) s2(1) s3(1,4) by blast
qed

theorem quic_shared_address_lost_witness:
  "\<exists>s1 s2 s3. connected sample_server 1 [49] = Ret s1 \<and> connected s1 2 [49] = Ret s2 \<and>
     shutdown_complete s2 1 = Ret s3 \<and> lookup_conn s3 [49] = Ret None"
proof -
  have "Suc (card (allocated (qs_pool sample_server))) < pool_size (qs_pool sample_server)"
    by (simp add: sample_server_def allocated_init) (simp add: ogs_pool_init_def)
  from quic_shared_address_lost [OF sample_server_ok(1), of "[49]" 1 2, OF _ _ _ this]
  show ?thesis by (auto simp: sample_server_ok(2))
qed

text \<open>
  The callback does not test the result of the allocation of a client node: with the 128
  nodes of the pool in use, one more connection makes the process dereference a null pointer.
\<close>

theorem quic_client_pool_exhausted:
  assumes "pool_ok (qs_pool s)" "card (allocated (qs_pool s)) = pool_size (qs_pool s)"
  shows "ConnectionCallback ticket_ok alloc_ok s conn (CONNECTED ip resumed) = Abort"
  using card_allocated [OF assms(1)] assms(2) alloc_None [of "qs_pool s"]
  by (simp add: ConnectionCallback_def connected_def)

theorem quic_client_pool_exhausted_witness:
  "ConnectionCallback True True (sample_server\<lparr>qs_pool := ogs_pool_init 0 1\<rparr>) 3 (CONNECTED [49] False) = Abort"
  using quic_client_pool_exhausted [of "sample_server\<lparr>qs_pool := ogs_pool_init 0 1\<rparr>" True True 3 "[49]" False]
  by (simp add: pool_ok_init allocated_init) (simp add: ogs_pool_init_def)

text \<open>
  C15: Send contexts neither leak nor are given back twice, over any run of downlink packets and
  connection events from a server without datagrams in flight: the contexts in use are exactly those
  of the datagrams that MsQuic has taken and not reported a last state for (any state but \<open>SENT\<close> and
  \<open>LOST_SUSPECT\<close> is the last), and each still holds the frame that was sent. A new datagram never
  gets the context of one in flight. Every report returns.
\<close>

theorem quic_send_context_lifecycle:
  assumes "send_run s s' F" "pool_ok (qs_send_pool s)" "allocated (qs_send_pool s) = {}"
  shows "allocated (qs_send_pool s') = dom F \<and> (\<forall>b frame. F b = Some frame \<longrightarrow> qs_payload s' b = frame) \<and>
    (\<forall>send_ok ip teid packet len s2 c frame b.
       quic_server_send_downlink send_ok s' ip teid packet len = Ret (s2, [DatagramSend c frame b]) \<longrightarrow> b \<notin> dom F) \<and>
    (\<forall>t a conn st b. \<exists>s2. ConnectionCallback t a s' conn (DATAGRAM_SEND_STATE_CHANGED st b) = Ret (s2, [], None, True))"
proof -
  have ok: "sends_ok s' F" by (rule send_run_ok [OF assms])
  have "\<exists>s2. ConnectionCallback t a s' conn (DATAGRAM_SEND_STATE_CHANGED st b) = Ret (s2, [], None, True)" for t a conn st b
    by (simp add: ConnectionCallback_def)
  then show ?thesis using ok sends_ok_sent(1) [OF ok] by (simp add: sends_ok_def)
qed

theorem quic_send_context_lifecycle_witness:
  "\<exists>s1 s2 s3 frame b. connected sample_server 5 [49] = Ret s1 \<and>
     quic_server_send_downlink True s1 [49] 7 (Some [1]) 1 = Ret (s2, [DatagramSend 5 frame b]) \<and> allocated (qs_send_pool s2) = {b} \<and>
     ConnectionCallback True True s2 5 (DATAGRAM_SEND_STATE_CHANGED ACKNOWLEDGED (Some b)) = Ret (s3, [], None, True) \<and>
     allocated (qs_send_pool s3) = {}"
proof -
  obtain s1 where s1: "connected sample_server 5 [49] = Ret s1" "quic_ok s1" "lookup_conn s1 [49] = Ret (Some 5)"
    "qs_send_pool s1 = ogs_pool_init 4096 3" "qx_msquic (qs_ctx s1)"
    using connected_ok [OF sample_server_ok(1), of "[49]" 5] sample_server_ok(2,3)
    by (auto simp: sample_server_def)
  have pk: "pool_ok (qs_send_pool s1)" "allocated (qs_send_pool s1) = {}" using s1(2,4) by (simp_all add: quic_ok_def allocated_init)
  obtain p b where "ogs_pool_alloc (qs_send_pool s1) = (p, Some b)"
    by (rule pool.acquire_succeeds [OF pk(1)]) (auto simp: s1(4) allocated_init, simp add: ogs_pool_init_def)
  with s1 obtain s2 frame where s2: "quic_server_send_downlink True s1 [49] 7 (Some [1]) 1 = Ret (s2, [DatagramSend 5 frame b])"
    by (auto simp: quic_server_send_downlink_def Let_def quic_header_len_def)
  note r2 = send_run.sent [OF send_run.start s2]
  note c2 = quic_send_context_lifecycle [OF r2 pk]
  then obtain s3 where s3: "ConnectionCallback True True s2 5 (DATAGRAM_SEND_STATE_CHANGED ACKNOWLEDGED (Some b)) = Ret (s3, [], None, True)"
    by blast
  note r3 = send_run.report [OF r2 _ s3, of frame, simplified]
  have "allocated (qs_send_pool s2) = {b}" "allocated (qs_send_pool s3) = {}"
    using c2 quic_send_context_lifecycle [OF r3 pk] by auto
  then show ?thesis using s1(1) s2 s3 by blast
qed

end
