(* ===== verification/Route_Trie.thy ===== *)
theory Route_Trie
  imports Prelude "HOL-Library.Sublist"
begin

text \<open>
  The framed-route trie of the UPF (\<^verbatim>\<open>src/upf/context.c\<close>: \<^verbatim>\<open>add_framed_route_to_trie\<close>,
  \<^verbatim>\<open>free_framed_route_from_trie\<close> and the walks of \<^verbatim>\<open>upf_sess_find_by_ipv4\<close> and
  \<^verbatim>\<open>upf_sess_find_by_ipv6\<close>): a binary trie over the address bits, most significant first.
  A null pointer is \<open>Null\<close>. Addresses and masks are lists of 32-bit chunks already passed
  through \<^verbatim>\<open>be32toh\<close>.

  The abstract view is the finite map from prefixes to sessions (\<open>trie_map\<close>) with longest
  prefix match (\<open>lpm\<close>); the contract is the locale \<open>route_table\<close>.
\<close>

section \<open>State\<close>

datatype 's trie = Null | Node (tleft: "'s trie") (tright: "'s trie") (tsess: "'s option")

record ipsubnet =
  ip_family :: nat
  ip_sub :: "u32 list"
  ip_mask :: "u32 list"

definition AF_INET :: nat where "AF_INET = 2"

definition AF_INET6 :: nat where "AF_INET6 = 10"

definition route_nbits :: "ipsubnet \<Rightarrow> nat" where
  "route_nbits r = (if ip_family r = AF_INET then 32 else 128)"

text \<open>\<^verbatim>\<open>(1 << bit) & be32toh(x[part])\<close> at step \<open>i\<close> of a walk over \<open>n\<close> bits.\<close>

definition addr_bit :: "nat \<Rightarrow> u32 list \<Rightarrow> nat \<Rightarrow> bool" where
  "addr_bit n xs i = bit (xs ! (i div 32)) ((n - i - 1) mod 32)"

section \<open>Operations\<close>

function trie_add :: "nat \<Rightarrow> (nat \<Rightarrow> bool) \<Rightarrow> (nat \<Rightarrow> bool) \<Rightarrow> 's \<Rightarrow> nat \<Rightarrow> 's trie \<Rightarrow> 's trie" where
  "trie_add n msk sub s i t =
     (let t' = (case t of Null \<Rightarrow> Node Null Null None | Node l r v \<Rightarrow> t) in
      if i \<ge> n \<or> \<not> msk i then Node (tleft t') (tright t') (Some s)
      else if sub i then Node (tleft t') (trie_add n msk sub s (Suc i) (tright t')) (tsess t')
      else Node (trie_add n msk sub s (Suc i) (tleft t')) (tright t') (tsess t'))"
  by pat_completeness auto
termination
  by (relation "measure (\<lambda>(n, msk, sub, s, i, t). n - i)") auto

declare trie_add.simps [simp del]

definition add_framed_route_to_trie :: "ipsubnet \<Rightarrow> 's \<Rightarrow> 's trie \<Rightarrow> 's trie" where
  "add_framed_route_to_trie r s t =
     (let n = route_nbits r
      in trie_add n (addr_bit n (ip_mask r)) (addr_bit n (ip_sub r)) s 0 t)"

text \<open>
  The first loop of the removal: walk down, clear the session where the mask ends, and note the
  depth from which the nodes of the path may be freed. The result is the depth after the last
  node visited, that first depth, and the trie.
\<close>

function trie_walk ::
  "nat \<Rightarrow> (nat \<Rightarrow> bool) \<Rightarrow> (nat \<Rightarrow> bool) \<Rightarrow> nat \<Rightarrow> nat \<Rightarrow> 's trie \<Rightarrow> nat \<times> nat \<times> 's trie" where
  "trie_walk n msk sub i free_from Null = (i, free_from, Null)"
| "trie_walk n msk sub i free_from (Node l r v) =
     (if i \<ge> n \<or> \<not> msk i
      then (Suc i, (if l \<noteq> Null \<or> r \<noteq> Null then Suc i else free_from), Node l r None)
      else if sub i
      then (let (e, f, r') = trie_walk n msk sub (Suc i)
              (if l \<noteq> Null \<or> v \<noteq> None then Suc i else free_from) r
            in (e, f, Node l r' v))
      else (let (e, f, l') = trie_walk n msk sub (Suc i)
              (if r \<noteq> Null \<or> v \<noteq> None then Suc i else free_from) l
            in (e, f, Node l' r v)))"
  by pat_completeness auto
termination
  by (relation "measure (\<lambda>(n, msk, sub, i, f, t). n - i)") auto

text \<open>\<^verbatim>\<open>*to_free_tries[d] = NULL\<close>: the link at depth \<open>d\<close> of the path.\<close>

fun null_link :: "(nat \<Rightarrow> bool) \<Rightarrow> nat \<Rightarrow> nat \<Rightarrow> 's trie \<Rightarrow> 's trie" where
  "null_link sub i 0 t = Null"
| "null_link sub i (Suc d) Null = Null"
| "null_link sub i (Suc d) (Node l r v) =
     (if sub i then Node l (null_link sub (Suc i) d r) v
      else Node (null_link sub (Suc i) d l) r v)"

text \<open>The second loop: \<open>e\<close> is one more than its index \<^verbatim>\<open>i\<close>.\<close>

fun free_path :: "(nat \<Rightarrow> bool) \<Rightarrow> nat \<Rightarrow> nat \<Rightarrow> 's trie \<Rightarrow> 's trie" where
  "free_path sub free_from 0 t = t"
| "free_path sub free_from (Suc e) t =
     (if e \<ge> free_from then free_path sub free_from e (null_link sub 0 e t) else t)"

definition free_framed_route_from_trie :: "ipsubnet \<Rightarrow> 's trie \<Rightarrow> 's trie" where
  "free_framed_route_from_trie r t =
     (let n = route_nbits r; sub = addr_bit n (ip_sub r);
          (e, f, t') = trie_walk n (addr_bit n (ip_mask r)) sub 0 0 t
      in free_path sub f e t')"

text \<open>The walk of a look-up over \<open>n\<close> bits, with the last session passed.\<close>

function trie_find :: "nat \<Rightarrow> (nat \<Rightarrow> bool) \<Rightarrow> nat \<Rightarrow> 's trie \<Rightarrow> 's option \<Rightarrow> 's option" where
  "trie_find n addr i Null ret = ret"
| "trie_find n addr i (Node l r v) ret =
     (let ret' = (if v \<noteq> None then v else ret)
      in if i \<ge> n then ret'
         else trie_find n addr (Suc i) (if addr i then r else l) ret')"
  by pat_completeness auto
termination
  by (relation "measure (\<lambda>(n, addr, i, t, ret). n - i)") auto

text \<open>
  The two look-ups are the same loop over 32 and over 128 bits; the address table that both
  consult first is in \<open>Upf_Context\<close>.
\<close>

definition route_find_ipv4 :: "u32 \<Rightarrow> 's trie \<Rightarrow> 's option" where
  "route_find_ipv4 addr t = trie_find 32 (addr_bit 32 [addr]) 0 t None"

definition route_find_ipv6 :: "u32 list \<Rightarrow> 's trie \<Rightarrow> 's option" where
  "route_find_ipv6 addr6 t = trie_find 128 (addr_bit 128 addr6) 0 t None"

section \<open>Specification\<close>

fun trie_map :: "'s trie \<Rightarrow> bool list \<Rightarrow> 's option" where
  "trie_map Null bs = None"
| "trie_map (Node l r v) [] = v"
| "trie_map (Node l r v) (b # bs) = trie_map (if b then r else l) bs"

text \<open>The prefix a route stands for: its address bits up to the first zero bit of the mask.\<close>

function prefix_from :: "nat \<Rightarrow> (nat \<Rightarrow> bool) \<Rightarrow> (nat \<Rightarrow> bool) \<Rightarrow> nat \<Rightarrow> bool list" where
  "prefix_from n msk sub i =
     (if i \<ge> n \<or> \<not> msk i then [] else sub i # prefix_from n msk sub (Suc i))"
  by pat_completeness auto
termination
  by (relation "measure (\<lambda>(n, msk, sub, i). n - i)") auto

declare prefix_from.simps [simp del]

definition route_prefix :: "ipsubnet \<Rightarrow> bool list" where
  "route_prefix r = (let n = route_nbits r
     in prefix_from n (addr_bit n (ip_mask r)) (addr_bit n (ip_sub r)) 0)"

text \<open>Longest prefix match: the binding of the longest bound prefix of the address bits.\<close>

fun lpm :: "(bool list \<Rightarrow> 's option) \<Rightarrow> bool list \<Rightarrow> 's option" where
  "lpm m [] = m []"
| "lpm m (b # bs) = (case lpm (\<lambda>p. m (b # p)) bs of Some s \<Rightarrow> Some s | None \<Rightarrow> m [])"

text \<open>No node of a trie is useless: below every node there is a session.\<close>

fun trie_ok :: "'s trie \<Rightarrow> bool" where
  "trie_ok Null = True"
| "trie_ok (Node l r v) =
     ((l \<noteq> Null \<or> r \<noteq> Null \<or> v \<noteq> None) \<and> trie_ok l \<and> trie_ok r)"

section \<open>Refinement\<close>

lemma trie_map_add:
  "trie_map (trie_add n msk sub s i t) =
     (trie_map t)(prefix_from n msk sub i := Some s)"
proof (induction n msk sub s i t rule: trie_add.induct)
  case (1 n msk sub s i t)
  define t' where "t' = (case t of Null \<Rightarrow> Node Null Null None | Node l r v \<Rightarrow> t)"
  obtain l r v where t': "t' = Node l r v" by (cases t) (auto simp: t'_def)
  have m: "trie_map t = trie_map t'"
  proof
    fix p show "trie_map t p = trie_map t' p"
      by (cases t; cases p) (auto simp: t'_def)
  qed
  show ?case
  proof (cases "i \<ge> n \<or> \<not> msk i")
    case True
    then have eq: "trie_add n msk sub s i t = Node l r (Some s)" "prefix_from n msk sub i = []"
      by (simp_all add: trie_add.simps t' [unfolded t'_def] prefix_from.simps)
    show ?thesis unfolding eq m t'
    proof
      fix p show "trie_map (Node l r (Some s)) p = ((trie_map (Node l r v))([] := Some s)) p"
        by (cases p) auto
    qed
  next
    case False
    let ?p = "prefix_from n msk sub (Suc i)"
    have pre: "prefix_from n msk sub i = sub i # ?p"
      using False by (simp add: prefix_from.simps [of n msk sub i])
    show ?thesis
    proof (cases "sub i")
      case True
      have ih: "trie_map (trie_add n msk sub s (Suc i) r) = (trie_map r)(?p := Some s)"
        using "1.IH"(1) [OF t'_def False True] by (simp only: t' trie.sel)
      have eq: "trie_add n msk sub s i t = Node l (trie_add n msk sub s (Suc i) r) v"
        using False True by (simp add: trie_add.simps [of n msk sub s i] t' [unfolded t'_def])
      show ?thesis unfolding eq m t' pre
      proof
        fix p show "trie_map (Node l (trie_add n msk sub s (Suc i) r) v) p =
            ((trie_map (Node l r v))(sub i # ?p := Some s)) p"
          using True by (cases p) (auto simp: ih [unfolded fun_eq_iff])
      qed
    next
      case f: False
      have ih: "trie_map (trie_add n msk sub s (Suc i) l) = (trie_map l)(?p := Some s)"
        using "1.IH"(2) [OF t'_def False f] by (simp only: t' trie.sel)
      have eq: "trie_add n msk sub s i t = Node (trie_add n msk sub s (Suc i) l) r v"
        using False f by (simp add: trie_add.simps [of n msk sub s i] t' [unfolded t'_def])
      show ?thesis unfolding eq m t' pre
      proof
        fix p show "trie_map (Node (trie_add n msk sub s (Suc i) l) r v) p =
            ((trie_map (Node l r v))(sub i # ?p := Some s)) p"
          using f by (cases p) (auto simp: ih [unfolded fun_eq_iff])
      qed
    qed
  qed
qed

lemma trie_find_lpm:
  assumes "i \<le> n"
  shows "trie_find n addr i t ret =
    (case lpm (trie_map t) (map addr [i..<n]) of Some s \<Rightarrow> Some s | None \<Rightarrow> ret)"
  using assms
proof (induction "n - i" arbitrary: i t ret)
  case 0
  then show ?case by (cases t) auto
next
  case (Suc k)
  have none: "lpm (\<lambda>p. None) bs = None" for bs :: "bool list" by (induction bs) auto
  have up: "[i..<n] = i # [Suc i..<n]" using Suc.hyps(2) by (simp add: upt_conv_Cons)
  show ?case
  proof (cases t)
    case Null
    then have "trie_map t = (\<lambda>p. None)" by auto
    with Null show ?thesis by (simp add: none)
  next
    case (Node l r v)
    have "(\<lambda>p. trie_map t (addr i # p)) = trie_map (if addr i then r else l)" by (auto simp: Node)
    then show ?thesis
      using Suc.hyps(1) [of "Suc i" "if addr i then r else l" "if v \<noteq> None then v else ret"] Suc.hyps(2)
      by (auto simp: Node up Let_def split: option.splits)
  qed
qed

text \<open>
  The removal in one recursion: clear the binding and drop the nodes of the path that have
  become useless. The two loops of the code compute the same trie.
\<close>

definition mk_node :: "'s trie \<Rightarrow> 's trie \<Rightarrow> 's option \<Rightarrow> 's trie" where
  "mk_node l r v = (if l = Null \<and> r = Null \<and> v = None then Null else Node l r v)"

function trie_del :: "nat \<Rightarrow> (nat \<Rightarrow> bool) \<Rightarrow> (nat \<Rightarrow> bool) \<Rightarrow> nat \<Rightarrow> 's trie \<Rightarrow> 's trie" where
  "trie_del n msk sub i Null = Null"
| "trie_del n msk sub i (Node l r v) =
     (if i \<ge> n \<or> \<not> msk i then mk_node l r None
      else if sub i then mk_node l (trie_del n msk sub (Suc i) r) v
      else mk_node (trie_del n msk sub (Suc i) l) r v)"
  by pat_completeness auto
termination
  by (relation "measure (\<lambda>(n, msk, sub, i, t). n - i)") auto

lemma null_link_absorb:
  "d \<le> d' \<Longrightarrow> null_link sub i d (null_link sub i d' t) = null_link sub i d t"
proof (induction sub i d' t arbitrary: d rule: null_link.induct)
  case (3 sub i d' l r v)
  then show ?case by (cases d) auto
qed auto

lemma free_path_eq:
  "free_path sub f e t = (if f < e then null_link sub 0 f t else t)"
proof (induction e arbitrary: t)
  case (Suc e)
  then show ?case by (cases "f < e"; cases "f = e") (auto simp: null_link_absorb)
qed simp

lemma mk_node_Null [simp]: "mk_node l r v = Null \<longleftrightarrow> l = Null \<and> r = Null \<and> v = None"
  by (simp add: mk_node_def)

lemma trie_walk_del:
  assumes "trie_walk n msk sub i ff t = (e, f, t')" "ff \<le> i"
  shows "i \<le> e \<and> (e = i \<longrightarrow> t' = Null \<and> f = ff) \<and>
    (if f \<le> i then f = ff \<and> trie_del n msk sub i t = Null
     else f \<le> e \<and> trie_del n msk sub i t \<noteq> Null \<and>
          trie_del n msk sub i t = (if f < e then null_link sub i (f - i) t' else t'))"
  using assms
proof (induction n msk sub i ff t arbitrary: e f t' rule: trie_walk.induct)
  case (1 n msk sub i ff)
  then show ?case by simp
next
  case (2 n msk sub i ff l r v)
  show ?case
  proof (cases "i \<ge> n \<or> \<not> msk i")
    case True
    with "2.prems" show ?thesis by (auto simp: mk_node_def split: if_splits)
  next
    case F: False
    show ?thesis
    proof (cases "sub i")
      case S: True
      let ?ff = "if l \<noteq> Null \<or> v \<noteq> None then Suc i else ff"
      obtain r' where w: "trie_walk n msk sub (Suc i) ?ff r = (e, f, r')" and t': "t' = Node l r' v"
        using "2.prems"(1) F S by (auto split: prod.splits)
      have ih: "Suc i \<le> e \<and> (e = Suc i \<longrightarrow> r' = Null \<and> f = ?ff) \<and>
        (if f \<le> Suc i then f = ?ff \<and> trie_del n msk sub (Suc i) r = Null
         else f \<le> e \<and> trie_del n msk sub (Suc i) r \<noteq> Null \<and>
          trie_del n msk sub (Suc i) r = (if f < e then null_link sub (Suc i) (f - Suc i) r' else r'))"
        by (rule "2.IH"(1) [OF F S w]) (use "2.prems"(2) in simp)
      show ?thesis
      proof (cases "f \<le> Suc i")
        case True
        with ih have f: "f = ?ff" "trie_del n msk sub (Suc i) r = Null" by auto
        show ?thesis
        proof (cases "l \<noteq> Null \<or> v \<noteq> None")
          case True
          with f ih F S t' show ?thesis by (auto simp: mk_node_def)
        next
          case False
          with f ih F S t' "2.prems"(2) show ?thesis by (auto simp: mk_node_def)
        qed
      next
        case False
        then obtain d where d: "f - i = Suc d" "f - Suc i = d" by (metis Suc_diff_Suc not_le Suc_lessD)
        from ih [unfolded if_not_P [OF False] d(2)] have ge: "f \<le> e" "trie_del n msk sub (Suc i) r \<noteq> Null"
          "trie_del n msk sub (Suc i) r = (if f < e then null_link sub (Suc i) d r' else r')"
          "Suc i \<le> e"
          by blast+
        have del: "trie_del n msk sub i (Node l r v) = Node l (trie_del n msk sub (Suc i) r) v"
          using F S ge(2) by (simp add: mk_node_def)
        have "(if f < e then null_link sub i (f - i) t' else t') = Node l (trie_del n msk sub (Suc i) r) v"
          using S by (simp add: ge(3) t' d)
        with del ge(1,4) False show ?thesis by simp
      qed
    next
      case S: False
      let ?ff = "if r \<noteq> Null \<or> v \<noteq> None then Suc i else ff"
      obtain l' where w: "trie_walk n msk sub (Suc i) ?ff l = (e, f, l')" and t': "t' = Node l' r v"
        using "2.prems"(1) F S by (auto split: prod.splits)
      have ih: "Suc i \<le> e \<and> (e = Suc i \<longrightarrow> l' = Null \<and> f = ?ff) \<and>
        (if f \<le> Suc i then f = ?ff \<and> trie_del n msk sub (Suc i) l = Null
         else f \<le> e \<and> trie_del n msk sub (Suc i) l \<noteq> Null \<and>
          trie_del n msk sub (Suc i) l = (if f < e then null_link sub (Suc i) (f - Suc i) l' else l'))"
        by (rule "2.IH"(2) [OF F S w]) (use "2.prems"(2) in simp)
      show ?thesis
      proof (cases "f \<le> Suc i")
        case True
        with ih have f: "f = ?ff" "trie_del n msk sub (Suc i) l = Null" by auto
        show ?thesis
        proof (cases "r \<noteq> Null \<or> v \<noteq> None")
          case True
          with f ih F S t' show ?thesis by (auto simp: mk_node_def)
        next
          case False
          with f ih F S t' "2.prems"(2) show ?thesis by (auto simp: mk_node_def)
        qed
      next
        case False
        then obtain d where d: "f - i = Suc d" "f - Suc i = d" by (metis Suc_diff_Suc not_le Suc_lessD)
        from ih [unfolded if_not_P [OF False] d(2)] have ge: "f \<le> e" "trie_del n msk sub (Suc i) l \<noteq> Null"
          "trie_del n msk sub (Suc i) l = (if f < e then null_link sub (Suc i) d l' else l')"
          "Suc i \<le> e"
          by blast+
        have del: "trie_del n msk sub i (Node l r v) = Node (trie_del n msk sub (Suc i) l) r v"
          using F S ge(2) by (simp add: mk_node_def)
        have "(if f < e then null_link sub i (f - i) t' else t') = Node (trie_del n msk sub (Suc i) l) r v"
          using S by (simp add: ge(3) t' d)
        with del ge(1,4) False show ?thesis by simp
      qed
    qed
  qed
qed

lemma free_eq_del:
  "free_framed_route_from_trie r t =
     (let n = route_nbits r in trie_del n (addr_bit n (ip_mask r)) (addr_bit n (ip_sub r)) 0 t)"
proof -
  define n where "n = route_nbits r"
  obtain e f t' where w: "trie_walk n (addr_bit n (ip_mask r)) (addr_bit n (ip_sub r)) 0 0 t = (e, f, t')"
    by (cases "trie_walk n (addr_bit n (ip_mask r)) (addr_bit n (ip_sub r)) 0 0 t") auto
  from trie_walk_del [OF w] have
    "e = 0 \<longrightarrow> t' = Null" "if f = 0 then trie_del n (addr_bit n (ip_mask r)) (addr_bit n (ip_sub r)) 0 t = Null
     else f \<le> e \<and> trie_del n (addr_bit n (ip_mask r)) (addr_bit n (ip_sub r)) 0 t =
       (if f < e then null_link (addr_bit n (ip_sub r)) 0 f t' else t')"
    by (auto split: if_splits)
  with w show ?thesis
    by (auto simp: free_framed_route_from_trie_def Let_def free_path_eq n_def [symmetric] split: if_splits)
qed

lemma trie_map_mk_node: "trie_map (mk_node l r v) = trie_map (Node l r v)"
proof
  fix p show "trie_map (mk_node l r v) p = trie_map (Node l r v) p"
    by (cases p) (auto simp: mk_node_def)
qed

lemma trie_map_del:
  "trie_map (trie_del n msk sub i t) = (trie_map t)(prefix_from n msk sub i := None)"
proof (induction n msk sub i t rule: trie_del.induct)
  case (1 n msk sub i)
  then show ?case by auto
next
  case (2 n msk sub i l r v)
  show ?case
  proof
    fix p
    show "trie_map (trie_del n msk sub i (Node l r v)) p =
        ((trie_map (Node l r v))(prefix_from n msk sub i := None)) p"
      using "2.IH" [unfolded fun_eq_iff]
      by (cases p) (auto simp: trie_map_mk_node prefix_from.simps [of n msk sub i])
  qed
qed

lemma trie_ok_mk_node: "trie_ok l \<Longrightarrow> trie_ok r \<Longrightarrow> trie_ok (mk_node l r v)"
  by (simp add: mk_node_def)

lemma trie_ok_del: "trie_ok t \<Longrightarrow> trie_ok (trie_del n msk sub i t)"
  by (induction n msk sub i t rule: trie_del.induct) (auto intro: trie_ok_mk_node)

lemma trie_add_not_Null: "trie_add n msk sub s i t \<noteq> Null"
  by (subst trie_add.simps) (simp add: Let_def)

lemma trie_ok_add: "trie_ok t \<Longrightarrow> trie_ok (trie_add n msk sub s i t)"
proof (induction n msk sub s i t rule: trie_add.induct)
  case (1 n msk sub s i t)
  then show ?case
    by (cases t) (auto simp: trie_add.simps [of n msk sub s i] trie_add_not_Null Let_def)
qed

lemma trie_ok_bound: "trie_ok t \<Longrightarrow> t \<noteq> Null \<Longrightarrow> \<exists>p. trie_map t p \<noteq> None"
proof (induction t)
  case (Node l r v)
  consider "l \<noteq> Null" | "r \<noteq> Null" | "v \<noteq> None" using Node.prems(1) by auto
  then show ?case
  proof cases
    case 1
    then obtain p where "trie_map l p \<noteq> None" using Node by auto
    then have "trie_map (Node l r v) (False # p) \<noteq> None" by simp
    then show ?thesis ..
  next
    case 2
    then obtain p where "trie_map r p \<noteq> None" using Node by auto
    then have "trie_map (Node l r v) (True # p) \<noteq> None" by simp
    then show ?thesis ..
  next
    case 3
    then have "trie_map (Node l r v) [] \<noteq> None" by simp
    then show ?thesis ..
  qed
qed simp

section \<open>Longest prefix match\<close>

lemma lpm_update_other:
  "\<not> prefix p bs \<Longrightarrow> lpm (m(p := x)) bs = lpm m bs"
proof (induction m bs arbitrary: p rule: lpm.induct)
  case (1 m)
  then show ?case by auto
next
  case (2 m b bs)
  from "2.prems" obtain c p' where p: "p = c # p'" by (cases p) auto
  show ?case
  proof (cases "c = b")
    case True
    with "2.prems" p have "\<not> prefix p' bs" by simp
    then have ih: "lpm ((\<lambda>q. m (b # q))(p' := x)) bs = lpm (\<lambda>q. m (b # q)) bs"
      by (rule "2.IH")
    have "(\<lambda>q. (m(p := x)) (b # q)) = (\<lambda>q. m (b # q))(p' := x)"
      by (auto simp: p True)
    then have "lpm (\<lambda>q. (m(p := x)) (b # q)) bs = lpm (\<lambda>q. m (b # q)) bs"
      using ih by (simp only:)
    then show ?thesis by (simp add: p)
  next
    case False
    then have "(\<lambda>q. (m(p := x)) (b # q)) = (\<lambda>q. m (b # q))" by (auto simp: p)
    then show ?thesis by (simp add: p)
  qed
qed

lemma lpm_None: "lpm m bs = None \<longleftrightarrow> (\<forall>q. prefix q bs \<longrightarrow> m q = None)"
proof (induction m bs rule: lpm.induct)
  case (2 m b bs)
  then show ?case by (auto split: option.splits simp: prefix_Cons)
qed simp

lemma lpm_longest:
  "prefix p bs \<Longrightarrow> m p = Some s \<Longrightarrow> \<forall>q. strict_prefix p q \<and> prefix q bs \<longrightarrow> m q = None \<Longrightarrow>
     lpm m bs = Some s"
proof (induction m bs arbitrary: p rule: lpm.induct)
  case (1 m)
  then show ?case by auto
next
  case (2 m b bs)
  show ?case
  proof (cases p)
    case Nil
    then have "\<forall>q. prefix q bs \<longrightarrow> m (b # q) = None" using "2.prems"(3) by auto
    then have "lpm (\<lambda>p. m (b # p)) bs = None" by (simp add: lpm_None)
    with Nil "2.prems"(2) show ?thesis by simp
  next
    case (Cons c p')
    then have c: "c = b" "prefix p' bs" using "2.prems"(1) by auto
    have "lpm (\<lambda>p. m (b # p)) bs = Some s"
      by (rule "2.IH" [of p']) (use c Cons "2.prems" in auto)
    then show ?thesis by simp
  qed
qed

section \<open>The contract\<close>

locale route_table =
  fixes add :: "'r \<Rightarrow> 's \<Rightarrow> 't \<Rightarrow> 't"
    and del :: "'r \<Rightarrow> 't \<Rightarrow> 't"
    and find :: "'a \<Rightarrow> 't \<Rightarrow> 's option"
    and prefix_of :: "'r \<Rightarrow> bool list"
    and bits_of :: "'a \<Rightarrow> bool list"
    and binds :: "'t \<Rightarrow> bool list \<Rightarrow> 's option"
  assumes binds_add: "binds (add r s t) = (binds t)(prefix_of r := Some s)"
    and binds_del: "binds (del r t) = (binds t)(prefix_of r := None)"
    and find_lpm: "find a t = lpm (binds t) (bits_of a)"
begin

definition covers :: "'r \<Rightarrow> 'a \<Rightarrow> bool" where
  "covers r a \<longleftrightarrow> prefix (prefix_of r) (bits_of a)"

text \<open>No route more specific than \<open>r\<close> applies to the address.\<close>

definition most_specific :: "'r \<Rightarrow> 'a \<Rightarrow> 't \<Rightarrow> bool" where
  "most_specific r a t \<longleftrightarrow>
     (\<forall>q. strict_prefix (prefix_of r) q \<and> prefix q (bits_of a) \<longrightarrow> binds t q = None)"

lemma find_add_covered:
  "covers r a \<Longrightarrow> most_specific r a t \<Longrightarrow> find a (add r s t) = Some s"
  unfolding find_lpm binds_add
  by (rule lpm_longest) (auto simp: covers_def most_specific_def)

lemma find_add_other: "\<not> covers r a \<Longrightarrow> find a (add r s t) = find a t"
  by (simp add: find_lpm binds_add covers_def lpm_update_other)

lemma find_del_other: "\<not> covers r a \<Longrightarrow> find a (del r t) = find a t"
  by (simp add: find_lpm binds_del covers_def lpm_update_other)

lemma find_del_add:
  "binds t (prefix_of r) = None \<Longrightarrow> find a (del r (add r s t)) = find a t"
  by (auto simp: find_lpm binds_add binds_del fun_upd_idem)

text \<open>
  A route bound by a second session hides the first, and its removal by either of them leaves
  neither.
\<close>

lemma find_del_shared:
  "binds (del r (add r s' (add r s t))) = (binds t)(prefix_of r := None)"
  by (simp add: binds_add binds_del)

end

lemma trie_binds_add:
  "trie_map (add_framed_route_to_trie r s t) = (trie_map t)(route_prefix r := Some s)"
  by (simp add: add_framed_route_to_trie_def route_prefix_def Let_def trie_map_add)

lemma trie_binds_del:
  "trie_map (free_framed_route_from_trie r t) = (trie_map t)(route_prefix r := None)"
  by (simp add: free_eq_del route_prefix_def Let_def trie_map_del)

interpretation rt4: route_table add_framed_route_to_trie free_framed_route_from_trie
  route_find_ipv4 route_prefix "\<lambda>a. map (addr_bit 32 [a]) [0..<32]" trie_map
  by unfold_locales
     (simp_all add: trie_binds_add trie_binds_del route_find_ipv4_def trie_find_lpm
       split: option.splits)

interpretation rt6: route_table add_framed_route_to_trie free_framed_route_from_trie
  route_find_ipv6 route_prefix "\<lambda>a. map (addr_bit 128 a) [0..<128]" trie_map
  by unfold_locales
     (simp_all add: trie_binds_add trie_binds_del route_find_ipv6_def trie_find_lpm
       split: option.splits)

section \<open>Properties\<close>

text \<open>
  C34: Removing a framed route with the two loops of the code (walk down noting what may be
  freed, then free upwards) gives the trie of the one-pass deletion that clears the binding
  and drops exactly the nodes of the path left without a session below them.
\<close>

theorem free_framed_route_equiv:
  "free_framed_route_from_trie r t =
     trie_del (route_nbits r) (addr_bit (route_nbits r) (ip_mask r))
       (addr_bit (route_nbits r) (ip_sub r)) 0 t"
  by (simp add: free_eq_del Let_def)

text \<open>
  C27: The IPv4 look-up is longest prefix match over the map of the framed routes, adding a
  route binds its prefix and removing it unbinds it.
\<close>

theorem ipv4_route_refinement:
  "route_find_ipv4 a t = lpm (trie_map t) (map (addr_bit 32 [a]) [0..<32]) \<and>
   trie_map (add_framed_route_to_trie r s t) = (trie_map t)(route_prefix r \<mapsto> s) \<and>
   trie_map (free_framed_route_from_trie r t) = (trie_map t)(route_prefix r := None)"
  by (intro conjI) (rule rt4.find_lpm rt4.binds_add rt4.binds_del)+

text \<open>
  No node leaks: adding and removing routes keeps a session below every node, so a trie
  whose last route has been removed is the null pointer again.
\<close>

theorem route_trie_no_leak:
  assumes "trie_ok t"
  shows "trie_ok (add_framed_route_to_trie r s t) \<and> trie_ok (free_framed_route_from_trie r t) \<and>
    ((\<forall>p. p \<noteq> route_prefix r \<longrightarrow> trie_map t p = None) \<longrightarrow> free_framed_route_from_trie r t = Null)"
proof -
  have ok: "trie_ok (free_framed_route_from_trie r t)"
    using assms by (simp add: free_eq_del Let_def trie_ok_del)
  moreover have "trie_ok (add_framed_route_to_trie r s t)"
    using assms by (simp add: add_framed_route_to_trie_def Let_def trie_ok_add)
  moreover have "(\<forall>p. p \<noteq> route_prefix r \<longrightarrow> trie_map t p = None) \<longrightarrow> free_framed_route_from_trie r t = Null"
    using trie_ok_bound [OF ok] by (auto simp: trie_binds_del split: if_splits) (metis option.distinct(1))
  ultimately show ?thesis by blast
qed

theorem route_trie_no_leak_witness:
  "free_framed_route_from_trie \<lparr>ip_family = AF_INET, ip_sub = [0x0a2d0000], ip_mask = [0xffff0000]\<rparr>
     (Null :: nat trie) = Null"
  using route_trie_no_leak [of "Null :: nat trie"
      "\<lparr>ip_family = AF_INET, ip_sub = [0x0a2d0000], ip_mask = [0xffff0000]\<rparr>" 7]
  by simp

end
