(* ===== verification/Rule_Match.thy ===== *)
theory Rule_Match
  imports Prelude
begin

text \<open>
  Packet classification: \<^verbatim>\<open>lib/pfcp/rule-match.c\<close> walks the extension headers of an IPv6
  packet and looks for the first rule of a PDR that a packet matches. The code takes the length
  of the headers from the packet itself; a read past the end of the buffer, which C leaves
  undefined, is a result of its own here (\<open>Overrun\<close>). The loop over jumbo options may not end:
  it runs on fuel, and \<open>NoReturn\<close> is running out of it. Addresses are lists of 32-bit words in
  the order of the packet, with host values.
\<close>

section \<open>Headers\<close>

definition IPPROTO_HOPOPTS :: u8 where "IPPROTO_HOPOPTS = 0"
definition IPPROTO_TCP :: u8 where "IPPROTO_TCP = 6"
definition IPPROTO_UDP :: u8 where "IPPROTO_UDP = 17"
definition IPPROTO_ROUTING :: u8 where "IPPROTO_ROUTING = 43"
definition IPPROTO_FRAGMENT :: u8 where "IPPROTO_FRAGMENT = 44"
definition IPPROTO_AH :: u8 where "IPPROTO_AH = 51"
definition IPPROTO_DSTOPTS :: u8 where "IPPROTO_DSTOPTS = 60"
definition IP6OPT_JUMBO :: u8 where "IP6OPT_JUMBO = 0xc2"

datatype header_result = NoReturn | Overrun | HeaderError | Header u8 u16

definition skip_header :: "u8 \<Rightarrow> bool" where
  "skip_header nxt \<longleftrightarrow> nxt = IPPROTO_HOPOPTS \<or> nxt = IPPROTO_ROUTING \<or> nxt = IPPROTO_DSTOPTS \<or>
     nxt = 135 \<or> nxt = 139 \<or> nxt = 140 \<or> nxt = 253 \<or> nxt = 254"

text \<open>
  The size of the extension header at \<open>p\<close>, or \<open>None\<close> for the upper layer, where the walk
  stops.
\<close>

definition ext_size :: "bytes \<Rightarrow> nat \<Rightarrow> u8 \<Rightarrow> nat option" where
  "ext_size pkt p nxt =
     (if skip_header nxt then Some (unat (rd8 pkt (p + 1)) * 8 + 8)
      else if nxt = IPPROTO_FRAGMENT then Some 8
      else if nxt = IPPROTO_AH then Some ((unat (rd8 pkt (p + 1)) + 2) * 4)
      else None)"

lemma ext_size_pos: "ext_size pkt p nxt = Some k \<Longrightarrow> 0 < k"
  by (auto simp: ext_size_def split: if_splits)

function ext_loop :: "bytes \<Rightarrow> nat \<Rightarrow> nat \<Rightarrow> u8 \<Rightarrow> header_result" where
  "ext_loop pkt endp p nxt =
     (if p < endp
      then (case ext_size pkt p nxt of
              None \<Rightarrow> Header nxt (of_nat p)
            | Some k \<Rightarrow> if p + (if nxt = IPPROTO_FRAGMENT then 1 else 2) \<le> length pkt
                then ext_loop pkt endp (p + k) (rd8 pkt p) else Overrun)
      else Header nxt (of_nat p))"
  by pat_completeness auto
termination
proof (relation "measure (\<lambda>(pkt, endp, p, nxt). endp - p)")
  fix pkt endp p nxt k
  assume "p < endp" "ext_size pkt p nxt = Some k"
  then show "((pkt, endp, p + k, rd8 pkt p), pkt, endp, p, nxt)
      \<in> measure (\<lambda>(pkt, endp, p, nxt). endp - p)"
    using ext_size_pos [of pkt p nxt k] by simp
qed simp

declare ext_loop.simps [simp del]

text \<open>
  The jumbo loop, for a payload length of zero: \<open>p\<close> is where the payload starts and \<open>jp\<close> the
  option looked at. Its result is the new end of the payload.
\<close>

datatype jumbo_result = JumboNoReturn | JumboOverrun | JumboError | JumboEnd nat

fun jumbo_loop :: "nat \<Rightarrow> bytes \<Rightarrow> u8 \<Rightarrow> nat \<Rightarrow> nat \<Rightarrow> nat \<Rightarrow> jumbo_result" where
  "jumbo_loop 0 pkt nxt p endp jp = (if p = endp then JumboNoReturn else JumboEnd endp)"
| "jumbo_loop (Suc fuel) pkt nxt p endp jp =
     (if p \<noteq> endp then JumboEnd endp
      else if nxt \<noteq> 0 then JumboError
      else if \<not> jp + 6 \<le> length pkt then JumboOverrun
      else (let jp_len = unat (rd32 pkt (jp + 2)); ty = rd8 pkt jp
            in if ty = IP6OPT_JUMBO then jumbo_loop fuel pkt nxt p (p + jp_len) jp
               else if ty = 0 then jumbo_loop fuel pkt nxt p endp (jp + 1)
               else jumbo_loop fuel pkt nxt p endp (jp + (2 + jp_len))))"

definition decode_ipv6_header :: "nat \<Rightarrow> bytes \<Rightarrow> header_result" where
  "decode_ipv6_header fuel pkt =
     (if length pkt < 40 then Overrun
      else let nxt = rd8 pkt 6; p = 40; endp = p + unat (rd16 pkt 4)
           in case jumbo_loop fuel pkt nxt p endp (p + 2) of
                JumboNoReturn \<Rightarrow> NoReturn
              | JumboOverrun \<Rightarrow> Overrun
              | JumboError \<Rightarrow> HeaderError
              | JumboEnd endp' \<Rightarrow> ext_loop pkt endp' p nxt)"

section \<open>Rules\<close>

record port_range =
  pr_low :: u16
  pr_high :: u16

record ipfw_rule =
  fw_proto :: u8
  fw_src_addr :: "u32 list"
  fw_src_mask :: "u32 list"
  fw_dst_addr :: "u32 list"
  fw_dst_mask :: "u32 list"
  fw_src_port :: port_range
  fw_dst_port :: port_range

definition rd_words :: "bytes \<Rightarrow> nat \<Rightarrow> nat \<Rightarrow> u32 list" where
  "rd_words pkt i n = map (\<lambda>k. rd32 pkt (i + 4 * k)) [0..<n]"

text \<open>
  The masked address against the address of the rule, on the words of the packet's family.
  For IPv4 the code also masks three words that follow the address, and ignores the result.
\<close>

definition addr_match :: "u32 list \<Rightarrow> u32 list \<Rightarrow> u32 list \<Rightarrow> bool" where
  "addr_match a msk addr \<longleftrightarrow> map2 (AND) a msk = take (length a) addr"

definition port_match :: "port_range \<Rightarrow> u16 \<Rightarrow> bool" where
  "port_match r port \<longleftrightarrow> \<not> (pr_low r \<noteq> 0 \<and> port < pr_low r) \<and> \<not> (pr_high r \<noteq> 0 \<and> port > pr_high r)"

datatype match_result = Match | NoMatch | MatchOverrun | MatchNoReturn

text \<open>The part of the loop body from the comparison of the addresses on.\<close>

definition rule_match :: "ipfw_rule \<Rightarrow> bytes \<Rightarrow> u32 list \<Rightarrow> u32 list \<Rightarrow> u8 \<Rightarrow> u16 \<Rightarrow> match_result" where
  "rule_match fw pkt src dst proto hlen =
     (if addr_match src (fw_src_mask fw) (fw_src_addr fw) \<and> addr_match dst (fw_dst_mask fw) (fw_dst_addr fw)
      then (if fw_proto fw = 0 then Match
            else if fw_proto fw = proto
              then (if fw_proto fw = IPPROTO_TCP \<or> fw_proto fw = IPPROTO_UDP
                    then (if unat hlen + 4 \<le> length pkt
                          then (if port_match (fw_src_port fw) (rd16 pkt (unat hlen)) \<and>
                                   port_match (fw_dst_port fw) (rd16 pkt (unat hlen + 2))
                                then Match else NoMatch)
                          else MatchOverrun)
                    else Match)
              else NoMatch)
      else NoMatch)"

definition ip_version :: "bytes \<Rightarrow> nat" where
  "ip_version pkt = unat (drop_bit 4 (rd8 pkt 0))"

definition try_rule :: "nat \<Rightarrow> bytes \<Rightarrow> ipfw_rule \<Rightarrow> match_result" where
  "try_rule fuel pkt fw =
     (if ip_version pkt = 4
      then (if length pkt < 20 then MatchOverrun
            else rule_match fw pkt (rd_words pkt 12 1) (rd_words pkt 16 1) (rd8 pkt 9)
                   (of_nat (unat (rd8 pkt 0 AND 0x0f) * 4)))
      else if ip_version pkt = 6
        then (case decode_ipv6_header fuel pkt of
                NoReturn \<Rightarrow> MatchNoReturn
              | Overrun \<Rightarrow> MatchOverrun
              | HeaderError \<Rightarrow> NoMatch
              | Header proto hlen \<Rightarrow> rule_match fw pkt (rd_words pkt 8 4) (rd_words pkt 24 4) proto hlen)
        else NoMatch)"

datatype find_result = Found ipfw_rule | NotFound | FindOverrun | FindNoReturn

fun find_rule :: "nat \<Rightarrow> bytes \<Rightarrow> ipfw_rule list \<Rightarrow> find_result" where
  "find_rule fuel pkt [] = NotFound"
| "find_rule fuel pkt (r # rs) =
     (case try_rule fuel pkt r of
        Match \<Rightarrow> Found r
      | NoMatch \<Rightarrow> find_rule fuel pkt rs
      | MatchOverrun \<Rightarrow> FindOverrun
      | MatchNoReturn \<Rightarrow> FindNoReturn)"

text \<open>\<^verbatim>\<open>ogs_pfcp_pdr_rule_find_by_packet\<close>; an empty packet trips the assertion.\<close>

definition ogs_pfcp_pdr_rule_find_by_packet :: "nat \<Rightarrow> ipfw_rule list \<Rightarrow> bytes \<Rightarrow> find_result exec" where
  "ogs_pfcp_pdr_rule_find_by_packet fuel rules pkt =
     (if pkt = [] then Abort else Ret (find_rule fuel pkt rules))"

section \<open>Extension headers as they are written\<close>

text \<open>
  An extension header by its kind and body; \<open>put_exts\<close> lays out a chain of them, where
  \<open>nxt_of\<close> is the type the header before a chain names.
\<close>

datatype ext_hdr = Skip u8 bytes | Fragment bytes | AH bytes

fun ext_type :: "ext_hdr \<Rightarrow> u8" where
  "ext_type (Skip t b) = t"
| "ext_type (Fragment b) = IPPROTO_FRAGMENT"
| "ext_type (AH b) = IPPROTO_AH"

text \<open>A body that makes the header a size its length field can express.\<close>

fun ext_wf :: "ext_hdr \<Rightarrow> bool" where
  "ext_wf (Skip t b) \<longleftrightarrow> skip_header t \<and> (\<exists>n < 256. length b = 8 * n + 6)"
| "ext_wf (Fragment b) \<longleftrightarrow> length b = 6"
| "ext_wf (AH b) \<longleftrightarrow> (\<exists>n < 256. length b = 4 * n + 6)"

definition nxt_of :: "ext_hdr list \<Rightarrow> u8 \<Rightarrow> u8" where
  "nxt_of es proto = (case es of [] \<Rightarrow> proto | e # _ \<Rightarrow> ext_type e)"

fun put_ext :: "u8 \<Rightarrow> ext_hdr \<Rightarrow> bytes" where
  "put_ext nxt (Skip t b) = nxt # of_nat ((length b - 6) div 8) # b"
| "put_ext nxt (Fragment b) = nxt # 0 # b"
| "put_ext nxt (AH b) = nxt # of_nat ((length b - 6) div 4) # b"

fun put_exts :: "ext_hdr list \<Rightarrow> u8 \<Rightarrow> bytes" where
  "put_exts [] proto = []"
| "put_exts (e # es) proto = put_ext (nxt_of es proto) e @ put_exts es proto"

definition upper_layer :: "u8 \<Rightarrow> bool" where
  "upper_layer proto \<longleftrightarrow> \<not> skip_header proto \<and> proto \<noteq> IPPROTO_FRAGMENT \<and> proto \<noteq> IPPROTO_AH"

lemma skip_not_special:
  "skip_header t \<Longrightarrow> t \<noteq> IPPROTO_FRAGMENT" "skip_header t \<Longrightarrow> t \<noteq> IPPROTO_AH"
  by (auto simp: skip_header_def IPPROTO_HOPOPTS_def IPPROTO_ROUTING_def IPPROTO_DSTOPTS_def
      IPPROTO_FRAGMENT_def IPPROTO_AH_def)

lemma special_not_skip: "\<not> skip_header IPPROTO_FRAGMENT" "\<not> skip_header IPPROTO_AH" "IPPROTO_AH \<noteq> IPPROTO_FRAGMENT"
  by (auto simp: skip_header_def IPPROTO_HOPOPTS_def IPPROTO_ROUTING_def IPPROTO_DSTOPTS_def
      IPPROTO_FRAGMENT_def IPPROTO_AH_def)

lemma rd8_at [simp]: "rd8 (pre @ x # xs) (length pre) = x"
  by simp (simp add: rd8_def)

lemma rd8_after [simp]: "rd8 (pre @ x # y # xs) (Suc (length pre)) = y"
  by simp (simp add: rd8_def)

lemma unat_small: "n < 256 \<Longrightarrow> unat (of_nat n :: u8) = n"
  by (simp add: unat_of_nat)

text \<open>The size the walk computes is the size of the header.\<close>

lemma ext_size_put:
  assumes "ext_wf e"
  shows "ext_size (pre @ put_ext nxt e @ post) (length pre) (ext_type e) = Some (length (put_ext nxt e))"
proof (cases e)
  case (Skip t b)
  with assms obtain n where "n < 256" "length b = 8 * n + 6" "skip_header t" by auto
  with Skip show ?thesis by (simp add: ext_size_def unat_small del: rd8_append)
next
  case (Fragment b)
  with assms show ?thesis by (simp add: ext_size_def special_not_skip)
next
  case (AH b)
  with assms obtain n where "n < 256" "length b = 4 * n + 6" by auto
  with AH show ?thesis by (simp add: ext_size_def unat_small special_not_skip del: rd8_append)
qed

lemma length_put_ext: "ext_wf e \<Longrightarrow> 8 \<le> length (put_ext nxt e)"
  by (cases e) auto

lemma put_ext_hd: "put_ext nxt e = nxt # tl (put_ext nxt e)"
  by (cases e) auto

lemma ext_loop_put:
  "\<forall>e \<in> set es. ext_wf e \<Longrightarrow> upper_layer proto \<Longrightarrow>
     endp = length pre + length (put_exts es proto) + k \<Longrightarrow>
     ext_loop (pre @ put_exts es proto @ post) endp (length pre) (nxt_of es proto) =
       Header proto (of_nat (length pre + length (put_exts es proto)))"
proof (induction es arbitrary: pre)
  case Nil
  then show ?case
    by (simp add: ext_loop.simps nxt_of_def ext_size_def upper_layer_def)
next
  case (Cons e es)
  let ?x = "put_ext (nxt_of es proto) e"
  let ?pkt = "pre @ ?x @ put_exts es proto @ post"
  have wf: "ext_wf e" using Cons.prems(1) by simp
  have lt: "length pre < endp" "length pre + 2 \<le> length ?pkt"
    using length_put_ext [OF wf, of "nxt_of es proto"] Cons.prems(3) by auto
  have le2: "length pre + (if ext_type e = IPPROTO_FRAGMENT then 1 else 2) \<le> length ?pkt"
    using lt(2) by simp
  have sz: "ext_size ?pkt (length pre) (ext_type e) = Some (length ?x)"
    using ext_size_put [OF wf, of pre "nxt_of es proto" "put_exts es proto @ post"] by simp
  have nx: "rd8 ?pkt (length pre) = nxt_of es proto"
    by (subst put_ext_hd) (simp del: rd8_append)
  have "ext_loop ?pkt endp (length pre) (ext_type e) = ext_loop ?pkt endp (length pre + length ?x) (nxt_of es proto)"
    by (subst ext_loop.simps) (simp only: lt(1) sz nx le2 if_True option.case)
  also have "\<dots> = Header proto (of_nat (length (pre @ ?x) + length (put_exts es proto)))"
    using Cons.IH [of "pre @ ?x"] Cons.prems by (simp add: add.assoc)
  finally show ?case by (simp add: nxt_of_def add.assoc)
qed

section \<open>Termination\<close>

lemma jumbo_loop_nonempty: "p \<noteq> endp \<Longrightarrow> jumbo_loop fuel pkt nxt p endp jp = JumboEnd endp"
  by (cases fuel) auto

text \<open>A jumbo option of length zero leaves both pointers where they are.\<close>

lemma jumbo_loop_stuck:
  "rd8 pkt jp = IP6OPT_JUMBO \<Longrightarrow> rd32 pkt (jp + 2) = 0 \<Longrightarrow> jp + 6 \<le> length pkt \<Longrightarrow>
     jumbo_loop fuel pkt 0 p p jp = JumboNoReturn"
  by (induction fuel) (auto simp: Let_def)

text \<open>
  An option that is not a jumbo option moves the pointer, so fuel for the length of the packet
  is enough: more does not change what the search returns.
\<close>

lemma jumbo_loop_fuel:
  assumes "length pkt \<le> fuel + jp" "0 < fuel"
  shows "jumbo_loop (fuel + k) pkt nxt p endp jp = jumbo_loop fuel pkt nxt p endp jp"
  using assms
proof (induction fuel arbitrary: endp jp)
  case (Suc fuel)
  define l where "l = unat (rd32 pkt (Suc (Suc jp)))"
  show ?case
  proof (cases "p = endp \<and> nxt = 0 \<and> jp + 6 \<le> length pkt")
    case True
    have ih: "jumbo_loop (fuel + k) pkt 0 endp endp j = jumbo_loop fuel pkt 0 endp endp j" if "jp < j" for j
      using Suc.IH [of j endp] Suc.prems True that by simp
    show ?thesis
    proof (cases "rd8 pkt jp = IP6OPT_JUMBO")
      case jumbo: True
      show ?thesis
      proof (cases "l = 0")
        case True
        with jumbo \<open>p = endp \<and> _\<close> have "jumbo_loop f pkt 0 endp endp jp = JumboNoReturn" for f
          by (intro jumbo_loop_stuck) (simp_all add: l_def unat_eq_0)
        then show ?thesis using \<open>p = endp \<and> _\<close> by (simp only:)
      next
        case False
        with jumbo \<open>p = endp \<and> _\<close> show ?thesis by (simp add: Let_def l_def [symmetric] jumbo_loop_nonempty)
      qed
    next
      case False
      with True ih show ?thesis by (simp add: Let_def l_def [symmetric])
    qed
  qed auto
qed simp

lemma find_rule_fuel:
  assumes "pkt \<noteq> []"
  shows "find_rule (length pkt + k) pkt rs = find_rule (length pkt) pkt rs"
proof -
  have "decode_ipv6_header (length pkt + k) pkt = decode_ipv6_header (length pkt) pkt"
    using assms jumbo_loop_fuel [of pkt "length pkt"] by (simp add: decode_ipv6_header_def Let_def)
  then have t: "try_rule (length pkt + k) pkt r = try_rule (length pkt) pkt r" for r by (simp only: try_rule_def)
  show ?thesis by (induction rs) (simp_all only: find_rule.simps t)
qed

lemma ext_loop_returns: "ext_loop pkt endp p nxt \<noteq> NoReturn"
  by (induction pkt endp p nxt rule: ext_loop.induct)
     (subst ext_loop.simps, auto split: option.splits)

section \<open>The five-tuple of an IPv4 packet\<close>

record five_tuple =
  ft_src :: u32
  ft_dst :: u32
  ft_proto :: u8
  ft_sport :: u16
  ft_dport :: u16

definition ipv4_hlen :: "bytes \<Rightarrow> nat" where
  "ipv4_hlen pkt = unat (rd8 pkt 0 AND 0x0f) * 4"

definition five_tuple_of :: "bytes \<Rightarrow> five_tuple" where
  "five_tuple_of pkt = \<lparr>ft_src = rd32 pkt 12, ft_dst = rd32 pkt 16, ft_proto = rd8 pkt 9,
     ft_sport = rd16 pkt (ipv4_hlen pkt), ft_dport = rd16 pkt (ipv4_hlen pkt + 2)\<rparr>"

definition in_range :: "port_range \<Rightarrow> u16 \<Rightarrow> bool" where
  "in_range r p \<longleftrightarrow> (pr_low r = 0 \<or> pr_low r \<le> p) \<and> (pr_high r = 0 \<or> p \<le> pr_high r)"

text \<open>What an IPv4 rule means: addresses in the prefixes, the protocol, the port ranges.\<close>

definition selects :: "ipfw_rule \<Rightarrow> five_tuple \<Rightarrow> bool" where
  "selects fw t \<longleftrightarrow>
     ft_src t AND hd (fw_src_mask fw) = hd (fw_src_addr fw) \<and>
     ft_dst t AND hd (fw_dst_mask fw) = hd (fw_dst_addr fw) \<and>
     (fw_proto fw = 0 \<or> fw_proto fw = ft_proto t \<and>
       (fw_proto fw \<in> {IPPROTO_TCP, IPPROTO_UDP} \<longrightarrow>
          in_range (fw_src_port fw) (ft_sport t) \<and> in_range (fw_dst_port fw) (ft_dport t)))"

definition rule_wf :: "ipfw_rule \<Rightarrow> bool" where
  "rule_wf fw \<longleftrightarrow> length (fw_src_addr fw) = 4 \<and> length (fw_src_mask fw) = 4 \<and>
     length (fw_dst_addr fw) = 4 \<and> length (fw_dst_mask fw) = 4"

lemma addr_match_one: "length msk = 4 \<Longrightarrow> length addr = 4 \<Longrightarrow> addr_match [a] msk addr \<longleftrightarrow> a AND hd msk = hd addr"
  by (cases msk; cases addr) (auto simp: addr_match_def)

lemma port_match_range: "port_match r p = in_range r p"
  by (auto simp: port_match_def in_range_def not_less)

lemma ipv4_hlen_le: "ipv4_hlen pkt \<le> 60"
proof -
  have "rd8 pkt 0 AND 0x0f \<le> 0x0f" by (rule word_and_le1)
  then have "unat (rd8 pkt 0 AND 0x0f) \<le> 15" by (simp add: word_le_nat_alt)
  then show ?thesis by (simp add: ipv4_hlen_def)
qed

lemma try_rule_ipv4:
  assumes "rule_wf fw" "ip_version pkt = 4" "20 \<le> length pkt" "ipv4_hlen pkt + 4 \<le> length pkt"
  shows "try_rule fuel pkt fw = (if selects fw (five_tuple_of pkt) then Match else NoMatch)"
proof -
  have h: "unat (of_nat (ipv4_hlen pkt) :: u16) = ipv4_hlen pkt"
    using ipv4_hlen_le [of pkt] by (simp add: unat_of_nat)
  show ?thesis
    using assms
    by (simp add: try_rule_def rule_match_def rd_words_def addr_match_one rule_wf_def selects_def
        five_tuple_of_def port_match_range ipv4_hlen_def [symmetric] h)
qed

lemma find_rule_first:
  "\<forall>r \<in> set rs. try_rule fuel pkt r = (if P r then Match else NoMatch) \<Longrightarrow>
     find_rule fuel pkt rs = (case find P rs of Some r \<Rightarrow> Found r | None \<Rightarrow> NotFound)"
  by (induction rs) auto

section \<open>Properties\<close>

text \<open>
  C36: The walk over the extension headers of an IPv6 packet finds the upper layer: for any
  chain of well-formed headers (options, routing, mobility and the like, fragment,
  authentication) in front of an upper-layer protocol it returns that protocol and the offset
  where it starts, whatever the payload is, and it always returns.
\<close>

theorem ipv6_header_walk:
  assumes "length hdr = 40" "\<forall>e \<in> set es. ext_wf e" "upper_layer proto"
    and "rd8 hdr 6 = nxt_of es proto" "unat (rd16 hdr 4) = length (put_exts es proto @ payload)"
    and "put_exts es proto @ payload \<noteq> []"
  shows "decode_ipv6_header fuel (hdr @ put_exts es proto @ payload) =
    Header proto (of_nat (40 + length (put_exts es proto)))"
proof -
  let ?pkt = "hdr @ put_exts es proto @ payload"
  have r: "rd8 ?pkt 6 = nxt_of es proto" "rd16 ?pkt 4 = rd16 hdr 4"
    using assms(1,4) by (simp_all add: rd16_def)
  have "ext_loop ?pkt (40 + length (put_exts es proto @ payload)) (length hdr) (nxt_of es proto) =
      Header proto (of_nat (length hdr + length (put_exts es proto)))"
    by (rule ext_loop_put [where k = "length payload"]) (use assms in simp_all)
  moreover have "40 \<noteq> 40 + length (put_exts es proto @ payload)" using assms(6) by auto
  note jumbo_loop_nonempty [OF this]
  ultimately show ?thesis
    using assms(1,5) unfolding decode_ipv6_header_def r Let_def by simp
qed

definition sample_ipv6 :: bytes where
  "sample_ipv6 = [0x60, 0, 0, 0, 0, 10, 0, 64] @ [0x20, 1, 0xd, 0xb8, 0, 0, 0, 0, 0, 0, 0, 0, 0, 0, 0, 1] @
     [0x20, 1, 0xd, 0xb8, 0, 0, 0, 0, 0, 0, 0, 0, 0, 0, 0, 2]"

theorem ipv6_header_walk_witness:
  "decode_ipv6_header 0 (sample_ipv6 @ put_exts [Skip 0 [1, 4, 0, 0, 0, 0]] IPPROTO_UDP @ [0, 53]) =
     Header IPPROTO_UDP 48"
  using ipv6_header_walk [of sample_ipv6 "[Skip 0 [1, 4, 0, 0, 0, 0]]" IPPROTO_UDP "[0, 53]" 0]
  by (simp add: sample_ipv6_def rd8_def rd16_def of_be16_def nxt_of_def upper_layer_def skip_header_def
      IPPROTO_UDP_def IPPROTO_HOPOPTS_def IPPROTO_ROUTING_def IPPROTO_DSTOPTS_def IPPROTO_FRAGMENT_def
      IPPROTO_AH_def)

text \<open>
  C37: For an IPv4 packet whose transport ports lie inside it, the search returns the first rule
  of the list that selects the five-tuple of the packet, where a rule selects by address
  prefixes, protocol (0 is any) and, for TCP and UDP, by port ranges with 0 for no bound.
\<close>

theorem ipv4_first_rule:
  assumes "\<forall>r \<in> set rules. rule_wf r" "ip_version pkt = 4" "20 \<le> length pkt" "ipv4_hlen pkt + 4 \<le> length pkt"
  shows "ogs_pfcp_pdr_rule_find_by_packet fuel rules pkt =
    Ret (case find (\<lambda>r. selects r (five_tuple_of pkt)) rules of Some r \<Rightarrow> Found r | None \<Rightarrow> NotFound)"
proof -
  have "\<forall>r \<in> set rules. try_rule fuel pkt r = (if selects r (five_tuple_of pkt) then Match else NoMatch)"
    using assms by (simp add: try_rule_ipv4)
  from find_rule_first [OF this] show ?thesis
    using assms(3) by (auto simp: ogs_pfcp_pdr_rule_find_by_packet_def)
qed

definition sample_rule :: ipfw_rule where
  "sample_rule = \<lparr>fw_proto = IPPROTO_UDP, fw_src_addr = [0x20010db8, 0, 0, 0],
     fw_src_mask = [0xffffffff, 0, 0, 0], fw_dst_addr = [0, 0, 0, 0], fw_dst_mask = [0, 0, 0, 0],
     fw_src_port = \<lparr>pr_low = 50, pr_high = 60\<rparr>, fw_dst_port = \<lparr>pr_low = 0, pr_high = 0\<rparr>\<rparr>"

theorem ipv4_first_rule_witness:
  "ogs_pfcp_pdr_rule_find_by_packet 0 [sample_rule]
     [0x45, 0, 0, 28, 0, 0, 0, 0, 64, 17, 0, 0, 0x20, 1, 0xd, 0xb8, 10, 45, 0, 2, 0, 53, 0, 9, 0, 8, 0, 0]
   = Ret (Found sample_rule)"
  using ipv4_first_rule [of "[sample_rule]"
      "[0x45, 0, 0, 28, 0, 0, 0, 0, 64, 17, 0, 0, 0x20, 1, 0xd, 0xb8, 10, 45, 0, 2, 0, 53, 0, 9, 0, 8, 0, 0]" 0]
  by (simp add: rule_wf_def sample_rule_def ip_version_def rd8_def ipv4_hlen_def selects_def
      five_tuple_of_def rd32_def of_be32_def rd16_def of_be16_def IPPROTO_UDP_def IPPROTO_TCP_def in_range_def)

text \<open>
  C40: A packet with payload length zero and a jumbo payload option of length zero makes the
  loop over jumbo options run for ever: no amount of fuel is enough.
\<close>

theorem jumbo_zero_diverges:
  assumes "48 \<le> length pkt" "ip_version pkt = 6" "rd16 pkt 4 = 0" "rd8 pkt 6 = 0"
    and "rd8 pkt 42 = IP6OPT_JUMBO" "rd32 pkt 44 = 0"
  shows "\<forall>fuel. ogs_pfcp_pdr_rule_find_by_packet fuel (r # rules) pkt = Ret FindNoReturn"
proof
  fix fuel
  have "jumbo_loop fuel pkt 0 40 40 42 = JumboNoReturn"
    by (rule jumbo_loop_stuck) (use assms in simp_all)
  then have "try_rule fuel pkt r = MatchNoReturn"
    using assms by (simp add: try_rule_def decode_ipv6_header_def Let_def)
  then show "ogs_pfcp_pdr_rule_find_by_packet fuel (r # rules) pkt = Ret FindNoReturn"
    using assms(1) by (auto simp: ogs_pfcp_pdr_rule_find_by_packet_def)
qed

theorem jumbo_zero_diverges_witness:
  "ogs_pfcp_pdr_rule_find_by_packet 1000 [sample_rule]
     (0x60 # replicate 41 0 @ [0xc2, 4] @ replicate 4 0) = Ret FindNoReturn"
proof -
  let ?pkt = "0x60 # replicate 41 0 @ [0xc2, 4] @ replicate 4 0 :: bytes"
  have "\<forall>fuel. ogs_pfcp_pdr_rule_find_by_packet fuel (sample_rule # []) ?pkt = Ret FindNoReturn"
    by (rule jumbo_zero_diverges)
       (simp_all add: ip_version_def rd8_def rd16_def of_be16_def rd32_def of_be32_def nth_Cons' nth_append
         IP6OPT_JUMBO_def)
  then show ?thesis by blast
qed

text \<open>
  The search does not compare the family of a rule with that of the packet: a rule for an
  IPv4 source prefix, with no other condition, selects every decodable IPv6 packet whose source
  address starts with the same 32 bits.
\<close>

theorem ipv4_rule_selects_ipv6:
  assumes "ip_version pkt = 6" "decode_ipv6_header fuel pkt = Header proto hlen"
    and "rd32 pkt 8 AND m = a" "fw_proto r = 0"
    and "fw_src_addr r = [a, 0, 0, 0]" "fw_src_mask r = [m, 0, 0, 0]"
    and "fw_dst_addr r = [0, 0, 0, 0]" "fw_dst_mask r = [0, 0, 0, 0]"
  shows "ogs_pfcp_pdr_rule_find_by_packet fuel (r # rules) pkt = Ret (Found r)"
proof -
  have "pkt \<noteq> []" using assms(2) by (auto simp: decode_ipv6_header_def)
  moreover have "try_rule fuel pkt r = Match"
    using assms by (simp add: try_rule_def rule_match_def addr_match_def rd_words_def upt_rec numeral_eq_Suc)
  ultimately show ?thesis by (simp add: ogs_pfcp_pdr_rule_find_by_packet_def)
qed

theorem ipv4_rule_selects_ipv6_witness:
  "ogs_pfcp_pdr_rule_find_by_packet 0 [sample_rule\<lparr>fw_proto := 0\<rparr>]
     (sample_ipv6 @ put_exts [Skip 0 [1, 4, 0, 0, 0, 0]] IPPROTO_UDP @ [0, 53]) = Ret (Found (sample_rule\<lparr>fw_proto := 0\<rparr>))"
proof -
  let ?pkt = "sample_ipv6 @ put_exts [Skip 0 [1, 4, 0, 0, 0, 0]] IPPROTO_UDP @ [0, 53]"
  have d: "decode_ipv6_header 0 ?pkt = Header IPPROTO_UDP 48"
    by (simp add: sample_ipv6_def decode_ipv6_header_def rd8_def rd16_def of_be16_def nxt_of_def Let_def
        ext_loop.simps ext_size_def skip_header_def
        IPPROTO_UDP_def IPPROTO_HOPOPTS_def IPPROTO_ROUTING_def IPPROTO_DSTOPTS_def IPPROTO_FRAGMENT_def
        IPPROTO_AH_def)
  show ?thesis
    by (rule ipv4_rule_selects_ipv6 [OF _ d, where m = "0xffffffff" and a = "0x20010db8"])
       (simp_all add: sample_ipv6_def ip_version_def rd8_def rd32_def of_be32_def sample_rule_def)
qed

end
