(* ===== verification/Pfcp_Types.thy ===== *)
theory Pfcp_Types
  imports Prelude
begin

text \<open>
  The coding of information elements, \<^verbatim>\<open>lib/pfcp/types.c\<close>, with the conversions it uses from
  \<^verbatim>\<open>lib/core/ogs-conv.c\<close> and \<^verbatim>\<open>lib/proto/types.c\<close>: service data flow filters, bit rates,
  volumes, packet thresholds, resource information and domain names.

  A received element is its length and the octets from its first one to the end of the buffer
  of the message: the parsers bound their reads by the length, or do not. A read past the end of
  the buffer is \<open>Abort\<close>. A parser returns the number of octets it has read, as an
  \<^verbatim>\<open>int16_t\<close>, and the caller compares it with the length of the element. The machine is
  little-endian.
\<close>

section \<open>Numbers in octets\<close>

definition ogs_uint64_to_buffer :: "u64 \<Rightarrow> nat \<Rightarrow> bytes" where
  "ogs_uint64_to_buffer num sz = map (\<lambda>i. ucast (drop_bit ((sz - 1 - i) * 8) num)) [0..<sz]"

fun ogs_buffer_to_uint64 :: "bytes \<Rightarrow> u64" where
  "ogs_buffer_to_uint64 [] = 0"
| "ogs_buffer_to_uint64 (b # bs) = push_bit (length bs * 8) (ucast b) OR ogs_buffer_to_uint64 bs"

text \<open>A 64-bit number in network order, and the octets that \<^verbatim>\<open>be32toh\<close> exchanges.\<close>

definition be64 :: "u64 \<Rightarrow> bytes" where "be64 w = ogs_uint64_to_buffer w 8"

definition be32toh :: "u32 \<Rightarrow> u32" where
  "be32toh w = of_be32 (ucast w) (ucast (drop_bit 8 w)) (ucast (drop_bit 16 w)) (ucast (drop_bit 24 w))"

section \<open>Elements\<close>

record octet =
  oc_len :: nat
  oc_data :: bytes

definition fetch :: "octet \<Rightarrow> nat \<Rightarrow> nat \<Rightarrow> bytes exec" where
  "fetch oc i n = (if i + n \<le> length (oc_data oc) then Ret (take n (drop i (oc_data oc))) else Abort)"

text \<open>
  One optional field of a parser: \<open>Inl\<close> is the early return with 0. The field is read when it
  is present, after a look at the length of the element unless the parser has none.
\<close>

type_synonym 'f parsing = "'f + 'f \<times> nat"

definition field ::
  "bool \<Rightarrow> ('f \<Rightarrow> bool) \<Rightarrow> nat \<Rightarrow> (bytes \<Rightarrow> 'f \<Rightarrow> 'f) \<Rightarrow> octet \<Rightarrow> 'f parsing \<Rightarrow> 'f parsing exec" where
  "field checked present n put oc st =
     (case st of Inl f \<Rightarrow> Ret (Inl f)
      | Inr (f, sz) \<Rightarrow>
          if \<not> present f then Ret (Inr (f, sz))
          else if checked \<and> oc_len oc < sz + n then Ret (Inl f)
          else exec_bind (fetch oc sz n) (\<lambda>bs. Ret (Inr (put bs f, sz + n))))"

fun parsed :: "'f parsing \<Rightarrow> 'f \<times> nat" where
  "parsed (Inl f) = (f, 0)"
| "parsed (Inr (f, sz)) = (f, sz)"

text \<open>The number of octets read goes through \<^verbatim>\<open>int16_t\<close> before it is compared.\<close>

definition decoded_all :: "octet \<Rightarrow> nat \<Rightarrow> bool" where
  "decoded_all oc sz \<longleftrightarrow> word_of_int (sint (of_nat sz :: u16)) = (of_nat (oc_len oc) :: u32)"

text \<open>One field of a builder, with the assertion on the room it has.\<close>

definition put_field :: "bool \<Rightarrow> bytes \<Rightarrow> nat \<Rightarrow> bytes \<Rightarrow> bytes exec" where
  "put_field present bs data_len acc =
     (if \<not> present then Ret acc
      else if length acc + length bs \<le> data_len then Ret (acc @ bs) else Abort)"

section \<open>Service data flow filters\<close>

record sdf_filter =
  sf_flags :: u8
  sf_spare2 :: u8
  sf_description_len :: u16
  sf_description :: bytes
  sf_tos_traffic_class :: u16
  sf_security_parameter_index :: u32
  sf_flow_label :: u32
  sf_sdf_filter_id :: u32

definition sf_fd :: "sdf_filter \<Rightarrow> bool" where "sf_fd f \<longleftrightarrow> bit (sf_flags f) 0"

definition sf_ttc :: "sdf_filter \<Rightarrow> bool" where "sf_ttc f \<longleftrightarrow> bit (sf_flags f) 1"

definition sf_spi :: "sdf_filter \<Rightarrow> bool" where "sf_spi f \<longleftrightarrow> bit (sf_flags f) 2"

definition sf_fl :: "sdf_filter \<Rightarrow> bool" where "sf_fl f \<longleftrightarrow> bit (sf_flags f) 3"

definition sf_bid :: "sdf_filter \<Rightarrow> bool" where "sf_bid f \<longleftrightarrow> bit (sf_flags f) 4"

definition zero_sdf_filter :: sdf_filter where
  "zero_sdf_filter = \<lparr>sf_flags = 0, sf_spare2 = 0, sf_description_len = 0, sf_description = [],
     sf_tos_traffic_class = 0, sf_security_parameter_index = 0, sf_flow_label = 0, sf_sdf_filter_id = 0\<rparr>"

definition ogs_pfcp_build_sdf_filter :: "sdf_filter \<Rightarrow> nat \<Rightarrow> bytes exec" where
  "ogs_pfcp_build_sdf_filter f data_len =
     (if data_len = 0 then Abort
      else exec_bind (put_field True [sf_flags f] data_len []) (\<lambda>bs.
        exec_bind (put_field True [sf_spare2 f] data_len bs) (\<lambda>bs.
        exec_bind (put_field (sf_fd f) (be16 (sf_description_len f)) data_len bs) (\<lambda>bs.
        exec_bind (put_field (sf_fd f) (take (unat (sf_description_len f)) (sf_description f)) data_len bs) (\<lambda>bs.
        exec_bind (put_field (sf_ttc f) (be16 (sf_tos_traffic_class f)) data_len bs) (\<lambda>bs.
        exec_bind (put_field (sf_spi f) (be32 (sf_security_parameter_index f)) data_len bs) (\<lambda>bs.
        exec_bind (put_field (sf_fl f) (take 3 (be32 (sf_flow_label f))) data_len bs) (\<lambda>bs.
        put_field (sf_bid f) (be32 (sf_sdf_filter_id f)) data_len bs))))))))"

text \<open>
  The pointer to the flow description is set and passed over without a look at the length. The
  traffic class, of 16 bits, goes through the conversion for 32 bits, and so do the three octets
  of the flow label.
\<close>

definition le_word :: "bytes \<Rightarrow> u32" where
  "le_word bs = of_be32 (rd8 bs 3) (rd8 bs 2) (rd8 bs 1) (rd8 bs 0)"

definition skip_description :: "octet \<Rightarrow> sdf_filter parsing \<Rightarrow> sdf_filter parsing" where
  "skip_description oc st =
     (case st of Inl f \<Rightarrow> Inl f
      | Inr (f, sz) \<Rightarrow>
          if sf_fd f
          then Inr (f\<lparr>sf_description := drop sz (oc_data oc)\<rparr>, sz + unat (sf_description_len f))
          else Inr (f, sz))"

definition ogs_pfcp_parse_sdf_filter :: "octet \<Rightarrow> (sdf_filter \<times> nat) exec" where
  "ogs_pfcp_parse_sdf_filter oc =
     exec_bind (field True (\<lambda>_. True) 1 (\<lambda>bs f. f\<lparr>sf_flags := bs ! 0\<rparr>) oc (Inr (zero_sdf_filter, 0))) (\<lambda>st.
     exec_bind (field True (\<lambda>_. True) 1 (\<lambda>bs f. f\<lparr>sf_spare2 := bs ! 0\<rparr>) oc st) (\<lambda>st.
     exec_bind (field True sf_fd 2 (\<lambda>bs f. f\<lparr>sf_description_len := rd16 bs 0\<rparr>) oc st) (\<lambda>st.
     exec_bind (Ret (skip_description oc st)) (\<lambda>st.
     exec_bind (field True sf_ttc 2 (\<lambda>bs f. f\<lparr>sf_tos_traffic_class := ucast (be32toh (le_word bs))\<rparr>) oc st) (\<lambda>st.
     exec_bind (field True sf_spi 4 (\<lambda>bs f. f\<lparr>sf_security_parameter_index := rd32 bs 0\<rparr>) oc st) (\<lambda>st.
     exec_bind (field True sf_fl 3 (\<lambda>bs f. f\<lparr>sf_flow_label := be32toh (le_word bs)\<rparr>) oc st) (\<lambda>st.
     exec_bind (field True sf_bid 4 (\<lambda>bs f. f\<lparr>sf_sdf_filter_id := rd32 bs 0\<rparr>) oc st) (\<lambda>st.
     Ret (parsed st)))))))))"

section \<open>Bit rates\<close>

definition OGS_PFCP_BITRATE_LEN :: nat where "OGS_PFCP_BITRATE_LEN = 10"

record bitrate =
  br_uplink :: u64
  br_downlink :: u64

definition kilobits :: "u64 \<Rightarrow> u64" where
  "kilobits r = r div 1000 + (if r mod 1000 \<noteq> 0 then 1 else 0)"

definition ogs_pfcp_build_bitrate :: "bitrate \<Rightarrow> nat \<Rightarrow> bytes exec" where
  "ogs_pfcp_build_bitrate r data_len =
     (if data_len < OGS_PFCP_BITRATE_LEN then Abort
      else Ret (ogs_uint64_to_buffer (kilobits (br_uplink r)) 5 @ ogs_uint64_to_buffer (kilobits (br_downlink r)) 5))"

text \<open>On a wrong length the rates keep their values: \<open>old\<close>.\<close>

definition ogs_pfcp_parse_bitrate :: "bitrate \<Rightarrow> octet \<Rightarrow> (bitrate \<times> nat) exec" where
  "ogs_pfcp_parse_bitrate old oc =
     (if oc_len oc \<noteq> OGS_PFCP_BITRATE_LEN then Ret (old, 0)
      else exec_bind (fetch oc 0 5) (\<lambda>u. exec_bind (fetch oc 5 5) (\<lambda>d.
        Ret (\<lparr>br_uplink = ogs_buffer_to_uint64 u * 1000, br_downlink = ogs_buffer_to_uint64 d * 1000\<rparr>, 10))))"

section \<open>Volumes and packet counts\<close>

text \<open>
  A volume threshold or quota, and with the last three fields a volume measurement.
\<close>

record volume =
  vo_flags :: u8
  vo_total :: u64
  vo_uplink :: u64
  vo_downlink :: u64

record volume_measurement = volume +
  vo_total_n :: u64
  vo_uplink_n :: u64
  vo_downlink_n :: u64

definition vo_present :: "nat \<Rightarrow> 'a volume_scheme \<Rightarrow> bool" where "vo_present i v \<longleftrightarrow> bit (vo_flags v) i"

definition zero_volume :: volume where
  "zero_volume = \<lparr>vo_flags = 0, vo_total = 0, vo_uplink = 0, vo_downlink = 0\<rparr>"

definition zero_measurement :: volume_measurement where
  "zero_measurement = \<lparr>vo_flags = 0, vo_total = 0, vo_uplink = 0, vo_downlink = 0,
     vo_total_n = 0, vo_uplink_n = 0, vo_downlink_n = 0\<rparr>"

definition present64 :: "bool \<Rightarrow> u64 \<Rightarrow> bytes" where "present64 p w = (if p then be64 w else [])"

definition ogs_pfcp_build_volume :: "volume \<Rightarrow> nat \<Rightarrow> bytes exec" where
  "ogs_pfcp_build_volume v data_len =
     (if data_len < 25 \<or> vo_flags v = 0 then Abort
      else Ret ([vo_flags v] @ present64 (vo_present 0 v) (vo_total v) @
        present64 (vo_present 1 v) (vo_uplink v) @ present64 (vo_present 2 v) (vo_downlink v)))"

definition ogs_pfcp_parse_volume :: "octet \<Rightarrow> (volume \<times> nat) exec" where
  "ogs_pfcp_parse_volume oc =
     exec_bind (field False (\<lambda>_. True) 1 (\<lambda>bs f. f\<lparr>vo_flags := bs ! 0\<rparr>) oc (Inr (zero_volume, 0))) (\<lambda>st.
     exec_bind (field True (vo_present 0) 8 (\<lambda>bs f. f\<lparr>vo_total := ogs_buffer_to_uint64 bs\<rparr>) oc st) (\<lambda>st.
     exec_bind (field True (vo_present 1) 8 (\<lambda>bs f. f\<lparr>vo_uplink := ogs_buffer_to_uint64 bs\<rparr>) oc st) (\<lambda>st.
     exec_bind (field True (vo_present 2) 8 (\<lambda>bs f. f\<lparr>vo_downlink := ogs_buffer_to_uint64 bs\<rparr>) oc st) (\<lambda>st.
     Ret (parsed st)))))"

definition ogs_pfcp_build_volume_measurement :: "volume_measurement \<Rightarrow> nat \<Rightarrow> bytes exec" where
  "ogs_pfcp_build_volume_measurement v data_len =
     (if data_len < 49 \<or> vo_flags v = 0 then Abort
      else Ret ([vo_flags v] @ present64 (vo_present 0 v) (vo_total v) @
        present64 (vo_present 1 v) (vo_uplink v) @ present64 (vo_present 2 v) (vo_downlink v) @
        present64 (vo_present 3 v) (vo_total_n v) @ present64 (vo_present 4 v) (vo_uplink_n v) @
        present64 (vo_present 5 v) (vo_downlink_n v)))"

text \<open>The parsers of a measurement and of a packet threshold do not look at the length at all.\<close>

definition ogs_pfcp_parse_volume_measurement :: "octet \<Rightarrow> (volume_measurement \<times> nat) exec" where
  "ogs_pfcp_parse_volume_measurement oc =
     exec_bind (field False (\<lambda>_. True) 1 (\<lambda>bs f. f\<lparr>vo_flags := bs ! 0\<rparr>) oc (Inr (zero_measurement, 0))) (\<lambda>st.
     exec_bind (field False (vo_present 0) 8 (\<lambda>bs f. f\<lparr>vo_total := ogs_buffer_to_uint64 bs\<rparr>) oc st) (\<lambda>st.
     exec_bind (field False (vo_present 1) 8 (\<lambda>bs f. f\<lparr>vo_uplink := ogs_buffer_to_uint64 bs\<rparr>) oc st) (\<lambda>st.
     exec_bind (field False (vo_present 2) 8 (\<lambda>bs f. f\<lparr>vo_downlink := ogs_buffer_to_uint64 bs\<rparr>) oc st) (\<lambda>st.
     exec_bind (field False (vo_present 3) 8 (\<lambda>bs f. f\<lparr>vo_total_n := ogs_buffer_to_uint64 bs\<rparr>) oc st) (\<lambda>st.
     exec_bind (field False (vo_present 4) 8 (\<lambda>bs f. f\<lparr>vo_uplink_n := ogs_buffer_to_uint64 bs\<rparr>) oc st) (\<lambda>st.
     exec_bind (field False (vo_present 5) 8 (\<lambda>bs f. f\<lparr>vo_downlink_n := ogs_buffer_to_uint64 bs\<rparr>) oc st) (\<lambda>st.
     Ret (parsed st))))))))"

record dl_threshold =
  dt_flags :: u8
  dt_packets :: u64
  dt_octets :: u64

definition dt_dlpa :: "dl_threshold \<Rightarrow> bool" where "dt_dlpa t \<longleftrightarrow> bit (dt_flags t) 0"

definition dt_dlby :: "dl_threshold \<Rightarrow> bool" where "dt_dlby t \<longleftrightarrow> bit (dt_flags t) 1"

definition zero_dl_threshold :: dl_threshold where
  "zero_dl_threshold = \<lparr>dt_flags = 0, dt_packets = 0, dt_octets = 0\<rparr>"

definition ogs_pfcp_build_dropped_dl_traffic_threshold :: "dl_threshold \<Rightarrow> nat \<Rightarrow> bytes exec" where
  "ogs_pfcp_build_dropped_dl_traffic_threshold t data_len =
     (if data_len < 17 \<or> dt_flags t = 0 then Abort
      else Ret ([dt_flags t] @ present64 (dt_dlpa t) (dt_packets t) @ present64 (dt_dlby t) (dt_octets t)))"

definition ogs_pfcp_parse_dropped_dl_traffic_threshold :: "octet \<Rightarrow> (dl_threshold \<times> nat) exec" where
  "ogs_pfcp_parse_dropped_dl_traffic_threshold oc =
     exec_bind (field False (\<lambda>_. True) 1 (\<lambda>bs f. f\<lparr>dt_flags := bs ! 0\<rparr>) oc (Inr (zero_dl_threshold, 0))) (\<lambda>st.
     exec_bind (field False dt_dlpa 8 (\<lambda>bs f. f\<lparr>dt_packets := ogs_buffer_to_uint64 bs\<rparr>) oc st) (\<lambda>st.
     exec_bind (field False dt_dlby 8 (\<lambda>bs f. f\<lparr>dt_octets := ogs_buffer_to_uint64 bs\<rparr>) oc st) (\<lambda>st.
     Ret (parsed st))))"

text \<open>The three octets of the triggers of a report.\<close>

definition ogs_pfcp_parse_usage_report_trigger :: "u32 \<Rightarrow> u8 \<times> u8 \<times> u8" where
  "ogs_pfcp_parse_usage_report_trigger u24 =
     (ucast (drop_bit 16 u24 AND 0xff), ucast (drop_bit 8 u24 AND 0xff), ucast (u24 AND 0xff))"

section \<open>Domain names\<close>

text \<open>
  A name is coded as labels with their lengths in front of them. The parser bounds what it
  writes by the length of the element: its last label may take one octet more than it has.
  \<open>None\<close> is the return of \<^verbatim>\<open>-EINVAL\<close>; the number it returns else is the length of the
  result.
\<close>

definition DOT :: byte where "DOT = 46"

fun fqdn_labels :: "bytes \<Rightarrow> bytes \<Rightarrow> bytes" where
  "fqdn_labels label [] = of_nat (length label) # label"
| "fqdn_labels label (c # cs) =
     (if c = DOT then of_nat (length label) # label @ fqdn_labels [] cs else fqdn_labels (label @ [c]) cs)"

definition ogs_fqdn_build :: "bytes \<Rightarrow> bytes" where "ogs_fqdn_build src = fqdn_labels [] src"

function fqdn_parse_loop :: "octet \<Rightarrow> nat \<Rightarrow> nat \<Rightarrow> bytes \<Rightarrow> bytes option exec" where
  "fqdn_parse_loop oc n i dst =
     (if i + 1 \<le> n
      then exec_bind (fetch oc i 1) (\<lambda>l.
        if n < length dst + unat (l ! 0) + 1 then Ret None
        else exec_bind (fetch oc (i + 1) (unat (l ! 0))) (\<lambda>label.
          fqdn_parse_loop oc n (i + 1 + unat (l ! 0))
            (if i + 1 + unat (l ! 0) + 1 < n then dst @ label @ [DOT] else dst @ label)))
      else Ret (Some dst))"
  by pat_completeness auto
termination by (relation "measure (\<lambda>(oc, n, i, dst). n - i)") auto

declare fqdn_parse_loop.simps [simp del]

definition ogs_fqdn_parse :: "octet \<Rightarrow> nat \<Rightarrow> bytes option exec" where
  "ogs_fqdn_parse oc n = fqdn_parse_loop oc n 0 []"

text \<open>Strings end at their first zero.\<close>

definition c_string :: "bytes \<Rightarrow> string" where
  "c_string bs = map (\<lambda>b. char_of (unat b)) (takeWhile (\<lambda>b. b \<noteq> 0) bs)"

definition octets_of :: "string \<Rightarrow> bytes" where "octets_of s = map (\<lambda>x. of_nat (of_char x)) s"

definition OGS_MAX_DNN_LEN :: nat where "OGS_MAX_DNN_LEN = 100"

text \<open>The name in an element, where every caller treats an empty one as an error.\<close>

definition parse_dnn :: "octet \<Rightarrow> string option exec" where
  "parse_dnn oc = exec_bind (ogs_fqdn_parse oc (min (oc_len oc) OGS_MAX_DNN_LEN)) (\<lambda>r.
     Ret (case r of None \<Rightarrow> None | Some bs \<Rightarrow> if bs = [] then None else Some (c_string bs)))"

section \<open>Resource information and user identities\<close>

record gtpu_resource =
  gr_assosi :: bool
  gr_assoni :: bool
  gr_teidri :: nat
  gr_v6 :: bool
  gr_v4 :: bool
  gr_teid_range :: u8
  gr_addr :: u32
  gr_addr6 :: bytes
  gr_network_instance :: string
  gr_source_interface :: u8

definition zero_resource :: gtpu_resource where
  "zero_resource = \<lparr>gr_assosi = False, gr_assoni = False, gr_teidri = 0, gr_v6 = False, gr_v4 = False,
     gr_teid_range = 0, gr_addr = 0, gr_addr6 = replicate 16 0, gr_network_instance = [], gr_source_interface = 0\<rparr>"

definition resource_flags :: "gtpu_resource \<Rightarrow> u8" where
  "resource_flags r = of_bool (gr_v4 r) OR push_bit 1 (of_bool (gr_v6 r)) OR push_bit 2 (of_nat (gr_teidri r)) OR
     push_bit 5 (of_bool (gr_assoni r)) OR push_bit 6 (of_bool (gr_assosi r))"

definition with_resource_flags :: "u8 \<Rightarrow> gtpu_resource \<Rightarrow> gtpu_resource" where
  "with_resource_flags b r = r\<lparr>gr_assosi := bit b 6, gr_assoni := bit b 5,
     gr_teidri := unat (drop_bit 2 b AND 7), gr_v6 := bit b 1, gr_v4 := bit b 0\<rparr>"

definition ogs_pfcp_build_user_plane_ip_resource_info :: "gtpu_resource \<Rightarrow> nat \<Rightarrow> bytes exec" where
  "ogs_pfcp_build_user_plane_ip_resource_info r data_len =
     (if data_len = 0 then Abort
      else exec_bind (put_field True [resource_flags r] data_len []) (\<lambda>bs.
        exec_bind (put_field (gr_teidri r \<noteq> 0) [gr_teid_range r] data_len bs) (\<lambda>bs.
        exec_bind (put_field (gr_v4 r) (be32 (gr_addr r)) data_len bs) (\<lambda>bs.
        exec_bind (put_field (gr_v6 r) (gr_addr6 r) data_len bs) (\<lambda>bs.
        exec_bind (put_field (gr_assoni r) (ogs_fqdn_build (octets_of (gr_network_instance r))) data_len bs) (\<lambda>bs.
        put_field (gr_assosi r) [gr_source_interface r] data_len bs))))))"

definition parse_network_instance :: "octet \<Rightarrow> gtpu_resource parsing \<Rightarrow> gtpu_resource parsing exec" where
  "parse_network_instance oc st =
     (case st of Inl r \<Rightarrow> Ret (Inl r)
      | Inr (r, sz) \<Rightarrow>
          if \<not> gr_assoni r then Ret (Inr (r, sz))
          else (let len = oc_len oc - sz - of_bool (gr_assosi r) in
            if len = 0 then Ret (Inl r)
            else exec_bind (ogs_fqdn_parse (oc\<lparr>oc_data := drop sz (oc_data oc)\<rparr>) (min len OGS_MAX_DNN_LEN)) (\<lambda>d.
              Ret (Inr (r\<lparr>gr_network_instance := (case d of None \<Rightarrow> [] | Some bs \<Rightarrow> c_string bs)\<rparr>, sz + len)))))"

definition ogs_pfcp_parse_user_plane_ip_resource_info :: "octet \<Rightarrow> (gtpu_resource \<times> nat) exec" where
  "ogs_pfcp_parse_user_plane_ip_resource_info oc =
     exec_bind (field False (\<lambda>_. True) 1 (\<lambda>bs. with_resource_flags (bs ! 0)) oc (Inr (zero_resource, 0))) (\<lambda>st.
     exec_bind (field True (\<lambda>r. gr_teidri r \<noteq> 0) 1 (\<lambda>bs r. r\<lparr>gr_teid_range := bs ! 0\<rparr>) oc st) (\<lambda>st.
     exec_bind (field True gr_v4 4 (\<lambda>bs r. r\<lparr>gr_addr := rd32 bs 0\<rparr>) oc st) (\<lambda>st.
     exec_bind (field True gr_v6 16 (\<lambda>bs r. r\<lparr>gr_addr6 := bs\<rparr>) oc st) (\<lambda>st.
     exec_bind (parse_network_instance oc st) (\<lambda>st.
     exec_bind (field True gr_assosi 1 (\<lambda>bs r. r\<lparr>gr_source_interface := bs ! 0\<rparr>) oc st) (\<lambda>st.
     Ret (parsed st)))))))"

record user_id =
  uid_flags :: u8
  uid_imsi :: bytes
  uid_imeisv :: bytes
  uid_msisdn :: bytes

definition ogs_pfcp_build_user_id :: "user_id \<Rightarrow> nat \<Rightarrow> bytes exec" where
  "ogs_pfcp_build_user_id u data_len =
     (let put = (\<lambda>i v bs. exec_bind (put_field (bit (uid_flags u) i) [of_nat (length v)] data_len bs)
                  (put_field (bit (uid_flags u) i) v data_len))
      in if data_len = 0 then Abort
         else exec_bind (put_field True [uid_flags u] data_len []) (\<lambda>bs.
           exec_bind (put 0 (uid_imsi u) bs) (\<lambda>bs.
           exec_bind (put 1 (uid_imeisv u) bs) (\<lambda>bs.
           put 2 (uid_msisdn u) bs))))"

end
