(* ===== verification/Pfcp_Sess.thy ===== *)
theory Pfcp_Sess
  imports Ogs_Pool Ogs_List Upf_Urr Rule_Match Route_Trie Pfcp_Types
begin

text \<open>
  The objects of a PFCP session, \<^verbatim>\<open>lib/pfcp/context.c\<close>: packet detection rules (PDR),
  forwarding action rules (FAR), usage reporting rules (URR), QoS enforcement rules (QER), the
  buffering action rule (BAR) and the flow rules of a PDR, with the pools they come from and the
  tables that find them by tunnel endpoint identifier (TEID).

  An object is named by its position in its pool, as a pointer names it in the code, and the
  contents of a pool are a function of the position. A session is named by a number too: it is
  embedded in the session object of \<open>Upf_Context\<close>. An object that has gone back to its pool keeps
  its contents, and a name that still designates it is a dangling pointer of the code.
\<close>

section \<open>State\<close>

definition OGS_MAX_NUM_OF_PDR :: nat where "OGS_MAX_NUM_OF_PDR = 16"

definition OGS_MAX_NUM_OF_FAR :: nat where "OGS_MAX_NUM_OF_FAR = 16"

definition OGS_MAX_NUM_OF_QER :: nat where "OGS_MAX_NUM_OF_QER = 4"

definition OGS_MAX_NUM_OF_BAR :: nat where "OGS_MAX_NUM_OF_BAR = 1"

definition OGS_PFCP_INTERFACE_ACCESS :: u8 where "OGS_PFCP_INTERFACE_ACCESS = 0"

definition OGS_PFCP_INTERFACE_CORE :: u8 where "OGS_PFCP_INTERFACE_CORE = 1"

definition OGS_PFCP_INTERFACE_CP_FUNCTION :: u8 where "OGS_PFCP_INTERFACE_CP_FUNCTION = 3"

definition OGS_PFCP_INTERFACE_LI_FUNCTION :: u8 where "OGS_PFCP_INTERFACE_LI_FUNCTION = 4"

definition OGS_PFCP_INTERFACE_UNKNOWN :: u8 where "OGS_PFCP_INTERFACE_UNKNOWN = 0xff"

text \<open>The causes of a response that the modelled code uses.\<close>

definition OGS_PFCP_CAUSE_REQUEST_ACCEPTED :: u8 where "OGS_PFCP_CAUSE_REQUEST_ACCEPTED = 1"

definition OGS_PFCP_CAUSE_REQUEST_REJECTED :: u8 where "OGS_PFCP_CAUSE_REQUEST_REJECTED = 64"

definition OGS_PFCP_CAUSE_MANDATORY_IE_INCORRECT :: u8 where
  "OGS_PFCP_CAUSE_MANDATORY_IE_INCORRECT = 69"

definition OGS_PFCP_CAUSE_NO_RESOURCES_AVAILABLE :: u8 where
  "OGS_PFCP_CAUSE_NO_RESOURCES_AVAILABLE = 75"

definition OGS_PFCP_CAUSE_SERVICE_NOT_SUPPORTED :: u8 where
  "OGS_PFCP_CAUSE_SERVICE_NOT_SUPPORTED = 76"

text \<open>
  An F-TEID. Its address is in the member of the union that the flags select; the choose
  identifier is the fourth octet of the TEID in memory.
\<close>

record f_teid =
  te_ipv4 :: bool
  te_ipv6 :: bool
  te_ch :: bool
  te_chid :: bool
  te_teid :: u32
  te_addr :: u32
  te_addr6 :: bytes

definition te_choose_id :: "f_teid \<Rightarrow> u8" where
  "te_choose_id f = ucast (drop_bit 24 (te_teid f))"

text \<open>A UE IP address keeps the octets of its union: the readers choose the member.\<close>

record ue_ip_addr =
  ua_ipv4 :: bool
  ua_ipv6 :: bool
  ua_octets :: bytes

text \<open>
  A length field of zero, which marks an absent element, is \<open>None\<close>; so are a null pointer and
  the key of a table the object is not in.
\<close>

record pfcp_pdr =
  pdr_teid_node :: nat
  pdr_teid :: u32
  pdr_hash_teid :: "u32 option"
  pdr_id_node :: nat
  pdr_id :: u32
  pdr_precedence :: u32
  pdr_src_if :: u8
  pdr_src_if_type :: "u8 option"
  pdr_dnn :: "string option"
  pdr_ue_ip :: "ue_ip_addr option"
  pdr_routes4 :: "string list option"
  pdr_routes6 :: "string list option"
  pdr_f_teid :: f_teid
  pdr_f_teid_len :: nat
  pdr_chid :: bool
  pdr_choose_id :: u8
  pdr_ohr :: "u8 option"
  pdr_qfi :: u8
  pdr_far :: "nat option"
  pdr_urr :: "nat list"
  pdr_qer :: "nat option"
  pdr_rules :: "nat list"
  pdr_sess :: nat

record gtp_node =
  gn_family :: nat
  gn_addr :: bytes
  gn_sock :: bool

text \<open>The flags of an outer header creation and the octets of the union of its addresses.\<close>

record outer_header =
  oh_ip6 :: bool
  oh_ip4 :: bool
  oh_udp6 :: bool
  oh_udp4 :: bool
  oh_gtpu6 :: bool
  oh_gtpu4 :: bool
  oh_octets :: bytes

record pfcp_far =
  far_hash_f_teid :: "bytes option"
  far_hash_teid :: "u32 option"
  far_dnn :: "string option"
  far_id_node :: nat
  far_id :: u32
  far_apply_action :: u16
  far_dst_if :: u8
  far_dst_if_type :: "u8 option"
  far_ohc_teid :: u32
  far_ohc :: outer_header
  far_smreq_flags :: u8
  far_buffered :: "bytes list"
  far_prepared :: bool
  far_sess :: nat
  far_gnode :: "gtp_node option"

text \<open>The fields of a URR that the accounting reads are in a record of its own.\<close>

record pfcp_urr_obj =
  uo_id_node :: nat
  uo_urr :: ogs_pfcp_urr
  uo_meas_method :: u8
  uo_meas_info :: u8
  uo_meas_period :: u32
  uo_event_threshold :: u32
  uo_event_quota :: u32
  uo_quota_holding_time :: u32
  uo_dropped_dl_threshold :: dl_threshold
  uo_sess :: nat

record pfcp_qer =
  qer_id_node :: nat
  qer_id :: u32
  qer_gate_status :: u8
  qer_mbr :: bitrate
  qer_gbr :: bitrate
  qer_qfi :: u8
  qer_sess :: nat

record pfcp_bar =
  bar_id_node :: nat
  bar_id :: u8
  bar_sess :: "nat option"

record pfcp_rule =
  rl_bid :: bool
  rl_fd :: bool
  rl_ipfw :: ipfw_rule
  rl_sdf_filter_id :: u32
  rl_pdr :: nat

record pfcp_sess =
  ps_pdr_list :: "nat list"
  ps_far_list :: "nat list"
  ps_urr_list :: "nat list"
  ps_qer_list :: "nat list"
  ps_bar :: "nat option"
  ps_pdr_ids :: ogs_pool
  ps_far_ids :: ogs_pool
  ps_urr_ids :: ogs_pool
  ps_qer_ids :: ogs_pool
  ps_bar_ids :: ogs_pool

datatype pfcp_object = Obj_Sess nat | Obj_Pdr nat

record pfcp_ctx =
  pc_pdr_pool :: ogs_pool
  pc_teid_pool :: ogs_pool
  pc_far_pool :: ogs_pool
  pc_urr_pool :: ogs_pool
  pc_qer_pool :: ogs_pool
  pc_bar_pool :: ogs_pool
  pc_rule_pool :: ogs_pool
  pc_teids :: "u32 list"
  pc_teid_index :: "nat list"
  pc_pdr :: "nat \<Rightarrow> pfcp_pdr"
  pc_far :: "nat \<Rightarrow> pfcp_far"
  pc_urr :: "nat \<Rightarrow> pfcp_urr_obj"
  pc_qer :: "nat \<Rightarrow> pfcp_qer"
  pc_bar :: "nat \<Rightarrow> pfcp_bar"
  pc_rule :: "nat \<Rightarrow> pfcp_rule"
  pc_sess :: "nat \<Rightarrow> pfcp_sess"
  pc_object_hash :: "pfcp_object ogs_hash"
  pc_far_f_teid_hash :: "nat ogs_hash"
  pc_far_teid_hash :: "nat ogs_hash"
  pc_ftup :: bool
  pc_gtpu_addr :: "u32 option"
  pc_gtpu_addr6 :: "bytes option"
  pc_resources :: "gtpu_resource list"

definition zero_f_teid :: f_teid where
  "zero_f_teid = \<lparr>te_ipv4 = False, te_ipv6 = False, te_ch = False, te_chid = False, te_teid = 0,
     te_addr = 0, te_addr6 = replicate 16 0\<rparr>"

definition zero_pdr :: pfcp_pdr where
  "zero_pdr = \<lparr>pdr_teid_node = 0, pdr_teid = 0, pdr_hash_teid = None, pdr_id_node = 0, pdr_id = 0,
     pdr_precedence = 0, pdr_src_if = 0, pdr_src_if_type = None, pdr_dnn = None, pdr_ue_ip = None,
     pdr_routes4 = None, pdr_routes6 = None, pdr_f_teid = zero_f_teid, pdr_f_teid_len = 0,
     pdr_chid = False, pdr_choose_id = 0, pdr_ohr = None, pdr_qfi = 0, pdr_far = None, pdr_urr = [],
     pdr_qer = None, pdr_rules = [], pdr_sess = 0\<rparr>"

definition zero_outer_header :: outer_header where
  "zero_outer_header = \<lparr>oh_ip6 = False, oh_ip4 = False, oh_udp6 = False, oh_udp4 = False,
     oh_gtpu6 = False, oh_gtpu4 = False, oh_octets = replicate 20 0\<rparr>"

definition zero_far :: pfcp_far where
  "zero_far = \<lparr>far_hash_f_teid = None, far_hash_teid = None, far_dnn = None, far_id_node = 0,
     far_id = 0, far_apply_action = 0, far_dst_if = 0, far_dst_if_type = None, far_ohc_teid = 0,
     far_ohc = zero_outer_header, far_smreq_flags = 0, far_buffered = [], far_prepared = False, far_sess = 0,
     far_gnode = None\<rparr>"

definition zero_urr :: ogs_pfcp_urr where
  "zero_urr = \<lparr>urr_id = 0,
     urr_rep_triggers = \<lparr>rt_volume_quota = False, rt_volume_threshold = False,
       rt_quota_validity_time = False, rt_time_quota = False, rt_time_threshold = False\<rparr>,
     urr_vol_threshold = \<lparr>vl_tovol = False, vl_total_volume = 0\<rparr>,
     urr_vol_quota = \<lparr>vl_tovol = False, vl_total_volume = 0\<rparr>, urr_time_threshold = 0,
     urr_time_quota = 0, urr_quota_validity_time = 0\<rparr>"

definition zero_urr_obj :: pfcp_urr_obj where
  "zero_urr_obj = \<lparr>uo_id_node = 0, uo_urr = zero_urr, uo_meas_method = 0, uo_meas_info = 0,
     uo_meas_period = 0, uo_event_threshold = 0, uo_event_quota = 0, uo_quota_holding_time = 0,
     uo_dropped_dl_threshold = zero_dl_threshold, uo_sess = 0\<rparr>"

definition zero_qer :: pfcp_qer where
  "zero_qer = \<lparr>qer_id_node = 0, qer_id = 0, qer_gate_status = 0,
     qer_mbr = \<lparr>br_uplink = 0, br_downlink = 0\<rparr>, qer_gbr = \<lparr>br_uplink = 0, br_downlink = 0\<rparr>,
     qer_qfi = 0, qer_sess = 0\<rparr>"

definition zero_rule :: pfcp_rule where
  "zero_rule = \<lparr>rl_bid = False, rl_fd = False,
     rl_ipfw = \<lparr>fw_proto = 0, fw_src_addr = replicate 4 0, fw_src_mask = replicate 4 0,
       fw_dst_addr = replicate 4 0, fw_dst_mask = replicate 4 0,
       fw_src_port = \<lparr>pr_low = 0, pr_high = 0\<rparr>, fw_dst_port = \<lparr>pr_low = 0, pr_high = 0\<rparr>\<rparr>,
     rl_sdf_filter_id = 0, rl_pdr = 0\<rparr>"

definition update_sess :: "nat \<Rightarrow> (pfcp_sess \<Rightarrow> pfcp_sess) \<Rightarrow> pfcp_ctx \<Rightarrow> pfcp_ctx" where
  "update_sess s f c = c\<lparr>pc_sess := (pc_sess c)(s := f (pc_sess c s))\<rparr>"

definition update_pdr :: "nat \<Rightarrow> (pfcp_pdr \<Rightarrow> pfcp_pdr) \<Rightarrow> pfcp_ctx \<Rightarrow> pfcp_ctx" where
  "update_pdr p f c = c\<lparr>pc_pdr := (pc_pdr c)(p := f (pc_pdr c p))\<rparr>"

definition update_far :: "nat \<Rightarrow> (pfcp_far \<Rightarrow> pfcp_far) \<Rightarrow> pfcp_ctx \<Rightarrow> pfcp_ctx" where
  "update_far x f c = c\<lparr>pc_far := (pc_far c)(x := f (pc_far c x))\<rparr>"

definition pdrs_of :: "pfcp_ctx \<Rightarrow> nat \<Rightarrow> nat list" where
  "pdrs_of c s = ps_pdr_list (pc_sess c s)"

section \<open>Operations\<close>

subsection \<open>Sessions\<close>

text \<open>
  \<^verbatim>\<open>ogs_pfcp_pool_init\<close> on a session object that has just been cleared. A sequence pool holds
  \<open>n + 1\<close> at node \<open>n\<close>.
\<close>

definition ogs_pfcp_pool_init :: "u32 \<Rightarrow> pfcp_sess" where
  "ogs_pfcp_pool_init seed =
     \<lparr>ps_pdr_list = [], ps_far_list = [], ps_urr_list = [], ps_qer_list = [], ps_bar = None,
      ps_pdr_ids = ogs_pool_init OGS_MAX_NUM_OF_PDR seed,
      ps_far_ids = ogs_pool_init OGS_MAX_NUM_OF_FAR seed,
      ps_urr_ids = ogs_pool_init OGS_MAX_NUM_OF_URR seed,
      ps_qer_ids = ogs_pool_init OGS_MAX_NUM_OF_QER seed,
      ps_bar_ids = ogs_pool_init OGS_MAX_NUM_OF_BAR seed\<rparr>"

definition sequence_id :: "nat \<Rightarrow> u32" where
  "sequence_id n = of_nat (n + 1)"

text \<open>
  The pools and tables of \<^verbatim>\<open>ogs_pfcp_context_init\<close> for \<open>n\<close> sessions; \<open>r\<close> are the random
  numbers of the TEID pool.
\<close>

definition index_of_teids :: "u32 list \<Rightarrow> nat list" where
  "index_of_teids ids = foldl (\<lambda>xs i. xs[unat (ids ! i) := i]) (replicate (Suc (length ids)) 0) [0..<length ids]"

definition ogs_pfcp_context_init :: "nat \<Rightarrow> (nat \<Rightarrow> u32) \<Rightarrow> u32 \<Rightarrow> pfcp_ctx" where
  "ogs_pfcp_context_init n r seed =
     (let ids = ogs_pool_random_id_generate (n * OGS_MAX_NUM_OF_PDR) r in
      \<lparr>pc_pdr_pool = ogs_pool_init (n * OGS_MAX_NUM_OF_PDR) seed,
       pc_teid_pool = ogs_pool_init (n * OGS_MAX_NUM_OF_PDR) seed,
       pc_far_pool = ogs_pool_init (n * OGS_MAX_NUM_OF_FAR) seed,
       pc_urr_pool = ogs_pool_init (n * OGS_MAX_NUM_OF_URR) seed,
       pc_qer_pool = ogs_pool_init (n * OGS_MAX_NUM_OF_QER) seed,
       pc_bar_pool = ogs_pool_init (n * OGS_MAX_NUM_OF_BAR) seed,
       pc_rule_pool = ogs_pool_init (n * OGS_MAX_NUM_OF_PDR * 15) seed,
       pc_teids = ids, pc_teid_index = index_of_teids ids,
       pc_pdr = (\<lambda>_. zero_pdr), pc_far = (\<lambda>_. zero_far),
       pc_urr = (\<lambda>_. zero_urr_obj),
       pc_qer = (\<lambda>_. zero_qer),
       pc_bar = (\<lambda>_. \<lparr>bar_id_node = 0, bar_id = 0, bar_sess = None\<rparr>),
       pc_rule = (\<lambda>_. zero_rule), pc_sess = (\<lambda>_. ogs_pfcp_pool_init seed),
       pc_object_hash = ogs_hash_make seed, pc_far_f_teid_hash = ogs_hash_make seed,
       pc_far_teid_hash = ogs_hash_make seed, pc_ftup = True, pc_gtpu_addr = None,
       pc_gtpu_addr6 = None, pc_resources = []\<rparr>)"

subsection \<open>Packet detection rules\<close>

definition ogs_pfcp_pdr_add :: "nat \<Rightarrow> pfcp_ctx \<Rightarrow> (pfcp_ctx \<times> nat option) exec" where
  "ogs_pfcp_pdr_add s c =
     (case ogs_pool_alloc (pc_pdr_pool c) of
        (pool, None) \<Rightarrow> Ret (c, None)
      | (pool, Some p) \<Rightarrow>
          (case ogs_pool_alloc (pc_teid_pool c) of
             (tpool, None) \<Rightarrow> Abort
           | (tpool, Some t) \<Rightarrow>
               (let d = zero_pdr\<lparr>pdr_src_if := OGS_PFCP_INTERFACE_UNKNOWN, pdr_teid_node := t,
                          pdr_teid := pc_teids c ! t\<rparr>;
                    c1 = c\<lparr>pc_pdr_pool := pool, pc_teid_pool := tpool, pc_pdr := (pc_pdr c)(p := d)\<rparr>
                in case ogs_pool_alloc (ps_pdr_ids (pc_sess c s)) of
                     (ids, None) \<Rightarrow> Ret (c1\<lparr>pc_pdr_pool := ogs_pool_free pool p\<rparr>, None)
                   | (ids, Some i) \<Rightarrow>
                       Ret (update_sess s (\<lambda>ps. ps\<lparr>ps_pdr_ids := ids, ps_pdr_list := ps_pdr_list ps @ [p]\<rparr>)
                              (update_pdr p (\<lambda>d. d\<lparr>pdr_id_node := i, pdr_id := sequence_id i, pdr_sess := s\<rparr>) c1),
                            Some p))))"

definition ogs_pfcp_pdr_find :: "nat \<Rightarrow> u32 \<Rightarrow> pfcp_ctx \<Rightarrow> nat option" where
  "ogs_pfcp_pdr_find s i c = find (\<lambda>p. pdr_id (pc_pdr c p) = i) (pdrs_of c s)"

definition ogs_pfcp_pdr_find_or_add ::
  "nat \<Rightarrow> u32 \<Rightarrow> pfcp_ctx \<Rightarrow> (pfcp_ctx \<times> nat option) exec" where
  "ogs_pfcp_pdr_find_or_add s i c =
     (case ogs_pfcp_pdr_find s i c of
        Some p \<Rightarrow> Ret (c, Some p)
      | None \<Rightarrow> exec_bind (ogs_pfcp_pdr_add s c) (\<lambda>(c, r).
          case r of None \<Rightarrow> Ret (c, None)
          | Some p \<Rightarrow> Ret (update_pdr p (\<lambda>d. d\<lparr>pdr_id := i\<rparr>) c, Some p)))"

text \<open>The order of the rules of a session in its list.\<close>

definition precedence_compare :: "pfcp_pdr \<Rightarrow> pfcp_pdr \<Rightarrow> int" where
  "precedence_compare d e =
     (if pdr_precedence d = pdr_precedence e then 0
      else if pdr_precedence d < pdr_precedence e then -1 else 1)"

definition ogs_pfcp_pdr_reorder_by_precedence :: "nat \<Rightarrow> u32 \<Rightarrow> pfcp_ctx \<Rightarrow> pfcp_ctx" where
  "ogs_pfcp_pdr_reorder_by_precedence p prec c =
     (let s = pdr_sess (pc_pdr c p);
          c1 = update_sess s (\<lambda>ps. ps\<lparr>ps_pdr_list := remove1 p (ps_pdr_list ps)\<rparr>) c;
          c2 = update_pdr p (\<lambda>d. d\<lparr>pdr_precedence := prec\<rparr>) c1
      in update_sess s (\<lambda>ps. ps\<lparr>ps_pdr_list :=
           ogs_list_insert_sorted (\<lambda>x y. precedence_compare (pc_pdr c2 x) (pc_pdr c2 y)) p (ps_pdr_list ps)\<rparr>) c2)"

text \<open>
  Restoration of a TEID: the identifier is swapped into the node the rule holds, unless an
  earlier swap has moved it away from its first node.
\<close>

definition ogs_pfcp_pdr_swap_teid :: "nat \<Rightarrow> pfcp_ctx \<Rightarrow> (pfcp_ctx \<times> u8) exec" where
  "ogs_pfcp_pdr_swap_teid p c =
     (let d = pc_pdr c p; t = te_teid (pdr_f_teid d) in
      if pdr_f_teid_len d = 0 \<or> te_ch (pdr_f_teid d) then Abort
      else if \<not> (0 < t \<and> unat t \<le> pool_size (pc_teid_pool c))
      then Ret (c, OGS_PFCP_CAUSE_MANDATORY_IE_INCORRECT)
      else (let i = pc_teid_index c ! unat t in
        if \<not> i < pool_size (pc_teid_pool c) then Abort
        else if t = pc_teids c ! i
        then Ret (c\<lparr>pc_teids := (pc_teids c)[i := pc_teids c ! pdr_teid_node d, pdr_teid_node d := t]\<rparr>,
                  OGS_PFCP_CAUSE_REQUEST_ACCEPTED)
        else Ret (c, OGS_PFCP_CAUSE_REQUEST_ACCEPTED)))"

definition ogs_pfcp_pdr_find_by_choose_id :: "nat \<Rightarrow> u8 \<Rightarrow> pfcp_ctx \<Rightarrow> nat option" where
  "ogs_pfcp_pdr_find_by_choose_id s i c =
     find (\<lambda>p. pdr_chid (pc_pdr c p) \<and> pdr_choose_id (pc_pdr c p) = i) (pdrs_of c s)"

definition lower_char :: "char \<Rightarrow> char" where
  "lower_char x = (if 65 \<le> (of_char x :: nat) \<and> (of_char x :: nat) \<le> 90
     then char_of ((of_char x :: nat) + 32) else x)"

definition ogs_strcasecmp_eq :: "string \<Rightarrow> string \<Rightarrow> bool" where
  "ogs_strcasecmp_eq a b \<longleftrightarrow> map lower_char a = map lower_char b"

definition gtpu_resource_matches :: "string option \<Rightarrow> u8 \<Rightarrow> gtpu_resource \<Rightarrow> bool" where
  "gtpu_resource_matches dnn src r \<longleftrightarrow>
     \<not> (gr_assoni r \<and> gr_network_instance r \<noteq> [] \<and>
        (case dnn of None \<Rightarrow> False
         | Some d \<Rightarrow> d \<noteq> [] \<and> \<not> ogs_strcasecmp_eq d (gr_network_instance r))) \<and>
     \<not> (gr_assosi r \<and> gr_source_interface r \<le> OGS_PFCP_INTERFACE_LI_FUNCTION \<and>
        src \<le> OGS_PFCP_INTERFACE_LI_FUNCTION \<and> src \<noteq> gr_source_interface r)"

definition ogs_pfcp_find_gtpu_resource ::
  "gtpu_resource list \<Rightarrow> string option \<Rightarrow> u8 \<Rightarrow> gtpu_resource option" where
  "ogs_pfcp_find_gtpu_resource rs dnn src = find (gtpu_resource_matches dnn src) rs"

text \<open>
  The two functions of \<^verbatim>\<open>lib/pfcp/conv.c\<close> that fill in a local F-TEID, with its length
  (5 octets before the addresses); every other field is cleared.
\<close>

definition f_teid_of :: "u32 option \<Rightarrow> bytes option \<Rightarrow> f_teid \<times> nat" where
  "f_teid_of a a6 =
     (zero_f_teid\<lparr>te_ipv4 := a \<noteq> None, te_ipv6 := a6 \<noteq> None,
        te_addr := (case a of None \<Rightarrow> 0 | Some x \<Rightarrow> x),
        te_addr6 := (case a6 of None \<Rightarrow> replicate 16 0 | Some x \<Rightarrow> x)\<rparr>,
      5 + (if a \<noteq> None then 4 else 0) + (if a6 \<noteq> None then 16 else 0))"

definition ogs_pfcp_sockaddr_to_f_teid ::
  "u32 option \<Rightarrow> bytes option \<Rightarrow> (f_teid \<times> nat) option" where
  "ogs_pfcp_sockaddr_to_f_teid a a6 = (if a = None \<and> a6 = None then None else Some (f_teid_of a a6))"

definition ogs_pfcp_user_plane_ip_resource_info_to_f_teid ::
  "gtpu_resource \<Rightarrow> f_teid \<Rightarrow> (f_teid \<times> nat) exec" where
  "ogs_pfcp_user_plane_ip_resource_info_to_f_teid r f =
     (let v4 = gr_v4 r \<and> te_ipv4 f; v6 = gr_v6 r \<and> te_ipv6 f in
      if \<not> v4 \<and> \<not> v6 then Abort
      else Ret (f_teid_of (if v4 then Some (gr_addr r) else None) (if v6 then Some (gr_addr6 r) else None)))"

definition OGS_PFCP_GTPU_INDEX_TO_TEID :: "u32 \<Rightarrow> nat \<Rightarrow> u8 \<Rightarrow> u32" where
  "OGS_PFCP_GTPU_INDEX_TO_TEID i ind rng = i OR push_bit (32 - ind) (ucast rng)"

text \<open>
  The F-TEID the function chooses for a rule with the CH flag: that of an earlier rule of the
  session with the same choose identifier, or a new one. \<open>False\<close> is a rejected request.
\<close>

definition choose_f_teid :: "nat \<Rightarrow> pfcp_ctx \<Rightarrow> (pfcp_pdr \<times> bool) exec" where
  "choose_f_teid p c =
     (let d = pc_pdr c p; f = pdr_f_teid d;
          chosen = (if te_chid f then ogs_pfcp_pdr_find_by_choose_id (pdr_sess d) (te_choose_id f) c else None);
          d1 = (if te_chid f \<and> chosen = None
                then d\<lparr>pdr_chid := True, pdr_choose_id := te_choose_id f\<rparr> else d)
      in case chosen of
           Some q \<Rightarrow> Ret (d1\<lparr>pdr_f_teid_len := pdr_f_teid_len (pc_pdr c q),
                               pdr_f_teid := pdr_f_teid (pc_pdr c q)\<rparr>, True)
         | None \<Rightarrow>
             (case ogs_pfcp_find_gtpu_resource (pc_resources c) (pdr_dnn d1) (pdr_src_if d1) of
                Some r \<Rightarrow>
                  if \<not> (gr_v4 r \<and> te_ipv4 f \<or> gr_v6 r \<and> te_ipv6 f) then Ret (d1, False)
                  else exec_bind (ogs_pfcp_user_plane_ip_resource_info_to_f_teid r f) (\<lambda>(f', n).
                    Ret (d1\<lparr>pdr_f_teid := f'\<lparr>te_teid :=
                         if gr_teidri r \<noteq> 0
                         then OGS_PFCP_GTPU_INDEX_TO_TEID (pdr_teid d1) (gr_teidri r) (gr_teid_range r)
                         else pdr_teid d1\<rparr>, pdr_f_teid_len := n\<rparr>, True))
              | None \<Rightarrow>
                  if \<not> (pc_gtpu_addr c \<noteq> None \<and> te_ipv4 f \<or> pc_gtpu_addr6 c \<noteq> None \<and> te_ipv6 f)
                  then Ret (d1, False)
                  else (case ogs_pfcp_sockaddr_to_f_teid (if te_ipv4 f then pc_gtpu_addr c else None)
                               (if te_ipv6 f then pc_gtpu_addr6 c else None) of
                          None \<Rightarrow> Ret (d1, False)
                        | Some (f', n) \<Rightarrow>
                            Ret (d1\<lparr>pdr_f_teid := f'\<lparr>te_teid := pdr_teid d1\<rparr>, pdr_f_teid_len := n\<rparr>, True))))"

definition ogs_pfcp_object_teid_hash_set ::
  "bool \<Rightarrow> nat \<Rightarrow> pfcp_ctx \<Rightarrow> (pfcp_ctx \<times> u8) exec" where
  "ogs_pfcp_object_teid_hash_set sess_type p c =
     exec_bind (if pc_ftup c \<and> te_ch (pdr_f_teid (pc_pdr c p)) then choose_f_teid p c
                else Ret (pc_pdr c p, True)) (\<lambda>(d, ok).
       if \<not> ok then Ret (c\<lparr>pc_pdr := (pc_pdr c)(p := d)\<rparr>, OGS_PFCP_CAUSE_REQUEST_REJECTED)
       else (let h = (case pdr_hash_teid d of None \<Rightarrow> pc_object_hash c
                      | Some k \<Rightarrow> hash_set (pc_object_hash c) (key32 k) None);
                 t = te_teid (pdr_f_teid d);
                 obj = (if sess_type then Obj_Sess (pdr_sess d) else Obj_Pdr p)
             in Ret (c\<lparr>pc_pdr := (pc_pdr c)(p := d\<lparr>pdr_hash_teid := Some t\<rparr>),
                       pc_object_hash := hash_set h (key32 t) (Some obj)\<rparr>,
                     OGS_PFCP_CAUSE_REQUEST_ACCEPTED)))"

definition ogs_pfcp_object_find_by_teid :: "u32 \<Rightarrow> pfcp_ctx \<Rightarrow> pfcp_object option" where
  "ogs_pfcp_object_find_by_teid t c = hash_get (pc_object_hash c) (key32 t)"

definition ogs_pfcp_object_count_by_teid :: "nat \<Rightarrow> u32 \<Rightarrow> pfcp_ctx \<Rightarrow> nat" where
  "ogs_pfcp_object_count_by_teid s t c =
     length (filter (\<lambda>p. te_teid (pdr_f_teid (pc_pdr c p)) = t) (pdrs_of c s))"

definition ogs_pfcp_pdr_associate_far :: "nat \<Rightarrow> nat \<Rightarrow> pfcp_ctx \<Rightarrow> pfcp_ctx" where
  "ogs_pfcp_pdr_associate_far p x = update_pdr p (\<lambda>d. d\<lparr>pdr_far := Some x\<rparr>)"

definition urr_id_of :: "pfcp_ctx \<Rightarrow> nat \<Rightarrow> nat" where
  "urr_id_of c u = urr_id (uo_urr (pc_urr c u))"

definition ogs_pfcp_pdr_associate_urr :: "nat \<Rightarrow> nat \<Rightarrow> pfcp_ctx \<Rightarrow> pfcp_ctx exec" where
  "ogs_pfcp_pdr_associate_urr p u c =
     (let d = pc_pdr c p in
      if \<not> length (pdr_urr d) < OGS_MAX_NUM_OF_URR then Abort
      else if \<exists>v \<in> set (pdr_urr d). urr_id_of c v = urr_id_of c u then Ret c
      else Ret (update_pdr p (\<lambda>d. d\<lparr>pdr_urr := pdr_urr d @ [u]\<rparr>) c))"

definition ogs_pfcp_pdr_associate_qer :: "nat \<Rightarrow> nat \<Rightarrow> pfcp_ctx \<Rightarrow> pfcp_ctx" where
  "ogs_pfcp_pdr_associate_qer p q = update_pdr p (\<lambda>d. d\<lparr>pdr_qer := Some q\<rparr>)"

subsection \<open>Flow rules\<close>

definition ogs_pfcp_rule_add :: "nat \<Rightarrow> pfcp_ctx \<Rightarrow> (pfcp_ctx \<times> nat) exec" where
  "ogs_pfcp_rule_add p c =
     (case ogs_pool_alloc (pc_rule_pool c) of
        (pool, None) \<Rightarrow> Abort
      | (pool, Some r) \<Rightarrow>
          Ret (update_pdr p (\<lambda>d. d\<lparr>pdr_rules := pdr_rules d @ [r]\<rparr>)
                 (c\<lparr>pc_rule_pool := pool, pc_rule := (pc_rule c)(r := zero_rule\<lparr>rl_pdr := p\<rparr>)\<rparr>), r))"

definition ogs_pfcp_rule_find_by_sdf_filter_id :: "nat \<Rightarrow> u32 \<Rightarrow> pfcp_ctx \<Rightarrow> nat option" where
  "ogs_pfcp_rule_find_by_sdf_filter_id s i c =
     find (\<lambda>r. rl_bid (pc_rule c r) \<and> rl_sdf_filter_id (pc_rule c r) = i)
       (concat (map (\<lambda>p. pdr_rules (pc_pdr c p)) (pdrs_of c s)))"

definition ogs_pfcp_rule_remove :: "nat \<Rightarrow> pfcp_ctx \<Rightarrow> pfcp_ctx" where
  "ogs_pfcp_rule_remove r c =
     (let p = rl_pdr (pc_rule c r)
      in (update_pdr p (\<lambda>d. d\<lparr>pdr_rules := remove1 r (pdr_rules d)\<rparr>) c)
           \<lparr>pc_rule_pool := ogs_pool_free (pc_rule_pool c) r\<rparr>)"

definition ogs_pfcp_rule_remove_all :: "nat \<Rightarrow> pfcp_ctx \<Rightarrow> pfcp_ctx" where
  "ogs_pfcp_rule_remove_all p c = fold ogs_pfcp_rule_remove (pdr_rules (pc_pdr c p)) c"

subsection \<open>Removal of detection rules\<close>

text \<open>
  The TEID of a rule leaves the table when no rule left in the session has it. The strings of
  the rule are freed; they are values here.
\<close>

definition ogs_pfcp_pdr_remove :: "nat \<Rightarrow> pfcp_ctx \<Rightarrow> pfcp_ctx" where
  "ogs_pfcp_pdr_remove p c =
     (let s = pdr_sess (pc_pdr c p);
          c1 = update_sess s (\<lambda>ps. ps\<lparr>ps_pdr_list := remove1 p (ps_pdr_list ps)\<rparr>) c;
          c2 = ogs_pfcp_rule_remove_all p c1;
          d = pc_pdr c2 p;
          c3 = (case pdr_hash_teid d of None \<Rightarrow> c2
                | Some k \<Rightarrow>
                    if ogs_pfcp_object_count_by_teid s (te_teid (pdr_f_teid d)) c2 = 0
                    then c2\<lparr>pc_object_hash := hash_set (pc_object_hash c2) (key32 k) None\<rparr> else c2);
          c4 = update_sess s (\<lambda>ps. ps\<lparr>ps_pdr_ids := ogs_pool_free (ps_pdr_ids ps) (pdr_id_node d)\<rparr>) c3
      in c4\<lparr>pc_teid_pool := ogs_pool_free (pc_teid_pool c4) (pdr_teid_node d),
            pc_pdr_pool := ogs_pool_free (pc_pdr_pool c4) p\<rparr>)"

definition ogs_pfcp_pdr_remove_all :: "nat \<Rightarrow> pfcp_ctx \<Rightarrow> pfcp_ctx" where
  "ogs_pfcp_pdr_remove_all s c = fold ogs_pfcp_pdr_remove (pdrs_of c s) c"

subsection \<open>Forwarding action rules\<close>

text \<open>
  \<^verbatim>\<open>ogs_pfcp_far_add\<close>, \<^verbatim>\<open>ogs_pfcp_urr_add\<close> and \<^verbatim>\<open>ogs_pfcp_qer_add\<close> take an object from
  its pool and an identifier from the pool of the session, and give the object back when there
  is no identifier.
\<close>

definition take_object :: "ogs_pool \<Rightarrow> ogs_pool \<Rightarrow> (ogs_pool \<times> ogs_pool) \<times> (nat \<times> nat) option" where
  "take_object objs ids =
     (case ogs_pool_alloc objs of
        (objs', None) \<Rightarrow> ((objs', ids), None)
      | (objs', Some n) \<Rightarrow>
          (case ogs_pool_alloc ids of
             (ids', None) \<Rightarrow> ((ogs_pool_free objs' n, ids'), None)
           | (ids', Some i) \<Rightarrow> ((objs', ids'), Some (n, i))))"

definition ogs_pfcp_far_add :: "nat \<Rightarrow> pfcp_ctx \<Rightarrow> pfcp_ctx \<times> nat option" where
  "ogs_pfcp_far_add s c =
     (case take_object (pc_far_pool c) (ps_far_ids (pc_sess c s)) of
        ((objs, ids), None) \<Rightarrow> (c\<lparr>pc_far_pool := objs\<rparr>, None)
      | ((objs, ids), Some (n, i)) \<Rightarrow>
          (update_sess s (\<lambda>ps. ps\<lparr>ps_far_ids := ids, ps_far_list := ps_far_list ps @ [n]\<rparr>)
             (c\<lparr>pc_far_pool := objs, pc_far := (pc_far c)(n := zero_far\<lparr>far_id_node := i,
                  far_id := sequence_id i, far_dst_if := OGS_PFCP_INTERFACE_UNKNOWN, far_sess := s\<rparr>)\<rparr>),
           Some n))"

definition ogs_pfcp_far_find :: "nat \<Rightarrow> u32 \<Rightarrow> pfcp_ctx \<Rightarrow> nat option" where
  "ogs_pfcp_far_find s i c = find (\<lambda>x. far_id (pc_far c x) = i) (ps_far_list (pc_sess c s))"

definition ogs_pfcp_far_find_or_add :: "nat \<Rightarrow> u32 \<Rightarrow> pfcp_ctx \<Rightarrow> pfcp_ctx \<times> nat option" where
  "ogs_pfcp_far_find_or_add s i c =
     (case ogs_pfcp_far_find s i c of
        Some x \<Rightarrow> (c, Some x)
      | None \<Rightarrow> (case ogs_pfcp_far_add s c of
          (c', None) \<Rightarrow> (c', None)
        | (c', Some x) \<Rightarrow> (update_far x (\<lambda>f. f\<lparr>far_id := i\<rparr>) c', Some x)))"

definition ogs_pfcp_far_f_teid_hash_set :: "nat \<Rightarrow> pfcp_ctx \<Rightarrow> pfcp_ctx exec" where
  "ogs_pfcp_far_f_teid_hash_set x c =
     (let f = pc_far c x in
      case far_gnode f of
        None \<Rightarrow> Abort
      | Some g \<Rightarrow>
          (if gn_family g \<noteq> AF_INET \<and> gn_family g \<noteq> AF_INET6 then Abort
           else (let h = (case far_hash_f_teid f of None \<Rightarrow> pc_far_f_teid_hash c
                          | Some k \<Rightarrow> hash_set (pc_far_f_teid_hash c) k None);
                     n = (if gn_family g = AF_INET then 4 else 16);
                     key = key32 (far_ohc_teid f) @ take n (gn_addr g)
                 in Ret ((update_far x (\<lambda>f. f\<lparr>far_hash_f_teid := Some key\<rparr>) c)
                           \<lparr>pc_far_f_teid_hash := hash_set h key (Some x)\<rparr>))))"

text \<open>
  The lookup for a GTP-U error indication reads its two information elements without looking
  at the length of the packet: \<open>Far_Overread\<close> is a read past the end of the buffer.
\<close>

datatype far_lookup = Far_Overread | Far_None | Far nat

definition ogs_pfcp_far_find_by_gtpu_error_indication :: "bytes \<Rightarrow> pfcp_ctx \<Rightarrow> far_lookup" where
  "ogs_pfcp_far_find_by_gtpu_error_indication p c =
     (if length p < 1 then Far_Overread
      else if rd8 p 0 \<noteq> 16 then Far_None
      else if length p < 6 then Far_Overread
      else if rd8 p 5 \<noteq> 133 then Far_None
      else if length p < 8 then Far_Overread
      else (let len = unat (rd16 p 6) in
        if len \<noteq> 4 \<and> len \<noteq> 16 then Far_None
        else if length p < 8 + len then Far_Overread
        else (case hash_get (pc_far_f_teid_hash c) (key32 (rd32 p 1) @ take len (drop 8 p)) of
                None \<Rightarrow> Far_None | Some x \<Rightarrow> Far x)))"

definition ogs_pfcp_far_teid_hash_set :: "nat \<Rightarrow> pfcp_ctx \<Rightarrow> pfcp_ctx" where
  "ogs_pfcp_far_teid_hash_set x c =
     (let f = pc_far c x;
          h = (case far_hash_teid f of None \<Rightarrow> pc_far_teid_hash c
               | Some k \<Rightarrow> hash_set (pc_far_teid_hash c) (key32 k) None)
      in (update_far x (\<lambda>f. f\<lparr>far_hash_teid := Some (far_ohc_teid f)\<rparr>) c)
           \<lparr>pc_far_teid_hash := hash_set h (key32 (far_ohc_teid f)) (Some x)\<rparr>)"

definition ogs_pfcp_far_find_by_teid :: "u32 \<Rightarrow> pfcp_ctx \<Rightarrow> nat option" where
  "ogs_pfcp_far_find_by_teid t c = hash_get (pc_far_teid_hash c) (key32 t)"

definition ogs_pfcp_far_remove :: "nat \<Rightarrow> pfcp_ctx \<Rightarrow> pfcp_ctx" where
  "ogs_pfcp_far_remove x c =
     (let f = pc_far c x; s = far_sess f;
          c1 = update_sess s (\<lambda>ps. ps\<lparr>ps_far_list := remove1 x (ps_far_list ps),
                 ps_far_ids := ogs_pool_free (ps_far_ids ps) (far_id_node f)\<rparr>) c
      in c1\<lparr>pc_far_teid_hash := (case far_hash_teid f of None \<Rightarrow> pc_far_teid_hash c
              | Some k \<Rightarrow> hash_set (pc_far_teid_hash c) (key32 k) None),
            pc_far_f_teid_hash := (case far_hash_f_teid f of None \<Rightarrow> pc_far_f_teid_hash c
              | Some k \<Rightarrow> hash_set (pc_far_f_teid_hash c) k None),
            pc_far_pool := ogs_pool_free (pc_far_pool c) x\<rparr>)"

definition ogs_pfcp_far_remove_all :: "nat \<Rightarrow> pfcp_ctx \<Rightarrow> pfcp_ctx" where
  "ogs_pfcp_far_remove_all s c = fold ogs_pfcp_far_remove (ps_far_list (pc_sess c s)) c"

subsection \<open>Usage reporting, QoS enforcement and buffering action rules\<close>

definition ogs_pfcp_urr_add :: "nat \<Rightarrow> pfcp_ctx \<Rightarrow> pfcp_ctx \<times> nat option" where
  "ogs_pfcp_urr_add s c =
     (case take_object (pc_urr_pool c) (ps_urr_ids (pc_sess c s)) of
        ((objs, ids), None) \<Rightarrow> (c\<lparr>pc_urr_pool := objs\<rparr>, None)
      | ((objs, ids), Some (n, i)) \<Rightarrow>
          (update_sess s (\<lambda>ps. ps\<lparr>ps_urr_ids := ids, ps_urr_list := ps_urr_list ps @ [n]\<rparr>)
             (c\<lparr>pc_urr_pool := objs, pc_urr := (pc_urr c)(n := zero_urr_obj\<lparr>uo_id_node := i,
                  uo_urr := zero_urr\<lparr>urr_id := i + 1\<rparr>, uo_sess := s\<rparr>)\<rparr>), Some n))"

definition ogs_pfcp_urr_find :: "nat \<Rightarrow> nat \<Rightarrow> pfcp_ctx \<Rightarrow> nat option" where
  "ogs_pfcp_urr_find s i c = find (\<lambda>u. urr_id_of c u = i) (ps_urr_list (pc_sess c s))"

definition ogs_pfcp_urr_find_or_add :: "nat \<Rightarrow> nat \<Rightarrow> pfcp_ctx \<Rightarrow> pfcp_ctx \<times> nat option" where
  "ogs_pfcp_urr_find_or_add s i c =
     (case ogs_pfcp_urr_find s i c of
        Some u \<Rightarrow> (c, Some u)
      | None \<Rightarrow> (case ogs_pfcp_urr_add s c of
          (c', None) \<Rightarrow> (c', None)
        | (c', Some u) \<Rightarrow>
            (c'\<lparr>pc_urr := (pc_urr c')(u := (pc_urr c' u)\<lparr>uo_urr := (uo_urr (pc_urr c' u))\<lparr>urr_id := i\<rparr>\<rparr>)\<rparr>,
             Some u)))"

definition ogs_pfcp_urr_remove :: "nat \<Rightarrow> pfcp_ctx \<Rightarrow> pfcp_ctx" where
  "ogs_pfcp_urr_remove u c =
     (update_sess (uo_sess (pc_urr c u)) (\<lambda>ps. ps\<lparr>ps_urr_list := remove1 u (ps_urr_list ps),
        ps_urr_ids := ogs_pool_free (ps_urr_ids ps) (uo_id_node (pc_urr c u))\<rparr>) c)
       \<lparr>pc_urr_pool := ogs_pool_free (pc_urr_pool c) u\<rparr>"

definition ogs_pfcp_urr_remove_all :: "nat \<Rightarrow> pfcp_ctx \<Rightarrow> pfcp_ctx" where
  "ogs_pfcp_urr_remove_all s c = fold ogs_pfcp_urr_remove (ps_urr_list (pc_sess c s)) c"

definition ogs_pfcp_qer_add :: "nat \<Rightarrow> pfcp_ctx \<Rightarrow> pfcp_ctx \<times> nat option" where
  "ogs_pfcp_qer_add s c =
     (case take_object (pc_qer_pool c) (ps_qer_ids (pc_sess c s)) of
        ((objs, ids), None) \<Rightarrow> (c\<lparr>pc_qer_pool := objs\<rparr>, None)
      | ((objs, ids), Some (n, i)) \<Rightarrow>
          (update_sess s (\<lambda>ps. ps\<lparr>ps_qer_ids := ids, ps_qer_list := ps_qer_list ps @ [n]\<rparr>)
             (c\<lparr>pc_qer_pool := objs, pc_qer := (pc_qer c)(n := zero_qer\<lparr>qer_id_node := i,
                  qer_id := sequence_id i, qer_sess := s\<rparr>)\<rparr>), Some n))"

definition ogs_pfcp_qer_find :: "nat \<Rightarrow> u32 \<Rightarrow> pfcp_ctx \<Rightarrow> nat option" where
  "ogs_pfcp_qer_find s i c = find (\<lambda>q. qer_id (pc_qer c q) = i) (ps_qer_list (pc_sess c s))"

definition ogs_pfcp_qer_find_or_add :: "nat \<Rightarrow> u32 \<Rightarrow> pfcp_ctx \<Rightarrow> pfcp_ctx \<times> nat option" where
  "ogs_pfcp_qer_find_or_add s i c =
     (case ogs_pfcp_qer_find s i c of
        Some q \<Rightarrow> (c, Some q)
      | None \<Rightarrow> (case ogs_pfcp_qer_add s c of
          (c', None) \<Rightarrow> (c', None)
        | (c', Some q) \<Rightarrow> (c'\<lparr>pc_qer := (pc_qer c')(q := (pc_qer c' q)\<lparr>qer_id := i\<rparr>)\<rparr>, Some q)))"

definition ogs_pfcp_qer_remove :: "nat \<Rightarrow> pfcp_ctx \<Rightarrow> pfcp_ctx" where
  "ogs_pfcp_qer_remove q c =
     (update_sess (qer_sess (pc_qer c q)) (\<lambda>ps. ps\<lparr>ps_qer_list := remove1 q (ps_qer_list ps),
        ps_qer_ids := ogs_pool_free (ps_qer_ids ps) (qer_id_node (pc_qer c q))\<rparr>) c)
       \<lparr>pc_qer_pool := ogs_pool_free (pc_qer_pool c) q\<rparr>"

definition ogs_pfcp_qer_remove_all :: "nat \<Rightarrow> pfcp_ctx \<Rightarrow> pfcp_ctx" where
  "ogs_pfcp_qer_remove_all s c = fold ogs_pfcp_qer_remove (ps_qer_list (pc_sess c s)) c"

definition ogs_pfcp_bar_new :: "nat \<Rightarrow> pfcp_ctx \<Rightarrow> (pfcp_ctx \<times> nat) exec" where
  "ogs_pfcp_bar_new s c =
     (if ps_bar (pc_sess c s) \<noteq> None then Abort
      else case ogs_pool_alloc (pc_bar_pool c) of
        (objs, None) \<Rightarrow> Abort
      | (objs, Some n) \<Rightarrow>
          (case ogs_pool_alloc (ps_bar_ids (pc_sess c s)) of
             (ids, None) \<Rightarrow> Abort
           | (ids, Some i) \<Rightarrow>
               Ret (update_sess s (\<lambda>ps. ps\<lparr>ps_bar_ids := ids, ps_bar := Some n\<rparr>)
                      (c\<lparr>pc_bar_pool := objs, pc_bar := (pc_bar c)(n := \<lparr>bar_id_node = i,
                           bar_id = of_nat (i + 1), bar_sess = Some s\<rparr>)\<rparr>), n)))"

definition ogs_pfcp_bar_delete :: "nat \<Rightarrow> pfcp_ctx \<Rightarrow> pfcp_ctx exec" where
  "ogs_pfcp_bar_delete b c =
     (case bar_sess (pc_bar c b) of
        None \<Rightarrow> Abort
      | Some s \<Rightarrow>
          Ret ((update_sess s (\<lambda>ps. ps\<lparr>ps_bar := None,
                  ps_bar_ids := ogs_pool_free (ps_bar_ids ps) (bar_id_node (pc_bar c b))\<rparr>) c)
                 \<lparr>pc_bar := (pc_bar c)(b := (pc_bar c b)\<lparr>bar_sess := None\<rparr>),
                  pc_bar_pool := ogs_pool_free (pc_bar_pool c) b\<rparr>))"

definition ogs_pfcp_sess_clear :: "nat \<Rightarrow> pfcp_ctx \<Rightarrow> pfcp_ctx exec" where
  "ogs_pfcp_sess_clear s c =
     (let c1 = ogs_pfcp_qer_remove_all s (ogs_pfcp_urr_remove_all s
                 (ogs_pfcp_far_remove_all s (ogs_pfcp_pdr_remove_all s c)))
      in case ps_bar (pc_sess c1 s) of None \<Rightarrow> Ret c1 | Some b \<Rightarrow> ogs_pfcp_bar_delete b c1)"

section \<open>Order of the detection rules\<close>

lemma insert_sorted_split:
  assumes "sorted (map f ys)"
    and "\<forall>y \<in> set ys. compare x y < 0 \<longleftrightarrow> f x < (f y :: u32)"
  shows "ogs_list_insert_sorted compare x ys =
    takeWhile (\<lambda>y. f y \<le> f x) ys @ x # dropWhile (\<lambda>y. f y \<le> f x) ys"
  using assms by (induction ys) (auto simp: not_less)

lemma dropWhile_sorted_less:
  "sorted (map f ys) \<Longrightarrow> y \<in> set (dropWhile (\<lambda>y. f y \<le> k) ys) \<Longrightarrow> (k :: u32) < f y"
proof (induction ys)
  case (Cons z zs)
  show ?case
  proof (cases "f z \<le> k")
    case False
    then have "y = z \<or> y \<in> set zs" using Cons.prems(2) by simp
    then have "f z \<le> f y" using Cons.prems(1) by auto
    with False show ?thesis by simp
  qed (use Cons in simp)
qed simp

lemma sorted_insert_split:
  assumes "sorted (map f ys)"
  shows "sorted (map f (takeWhile (\<lambda>y. f y \<le> f x) ys @ x # dropWhile (\<lambda>y. f y \<le> (f x :: u32)) ys))"
proof -
  let ?P = "\<lambda>y. f y \<le> f x"
  have "sorted (map f (takeWhile ?P ys @ dropWhile ?P ys))" using assms by simp
  then have st: "sorted (map f (takeWhile ?P ys))" "sorted (map f (dropWhile ?P ys))"
    by (simp_all only: map_append sorted_append)
  have t: "\<forall>y \<in> set (takeWhile ?P ys). f y \<le> f x" by (auto dest: set_takeWhileD)
  have d: "\<forall>y \<in> set (dropWhile ?P ys). f x \<le> f y"
    using dropWhile_sorted_less [OF assms] by (auto intro: order.strict_implies_order)
  from st t d show ?thesis by (auto simp: sorted_append intro: order_trans)
qed

lemma find_sorted_least:
  assumes "sorted (map f xs)" "find P xs = Some x" "y \<in> set xs" "P y"
  shows "(f x :: u32) \<le> f y"
  using assms by (induction xs) (auto split: if_splits)

section \<open>What an operation leaves alone\<close>

definition same_but_rules :: "pfcp_pdr \<Rightarrow> pfcp_pdr \<Rightarrow> bool" where
  "same_but_rules d e \<longleftrightarrow> d\<lparr>pdr_rules := []\<rparr> = e\<lparr>pdr_rules := []\<rparr>"

lemma same_but_rules_fields:
  assumes "same_but_rules d e"
  shows "pdr_f_teid d = pdr_f_teid e" "pdr_sess d = pdr_sess e" "pdr_hash_teid d = pdr_hash_teid e"
    "pdr_teid_node d = pdr_teid_node e" "pdr_id_node d = pdr_id_node e"
proof -
  have e: "d\<lparr>pdr_rules := []\<rparr> = e\<lparr>pdr_rules := []\<rparr>" using assms by (simp add: same_but_rules_def)
  show "pdr_f_teid d = pdr_f_teid e" using arg_cong [OF e, of pdr_f_teid] by simp
  show "pdr_sess d = pdr_sess e" using arg_cong [OF e, of pdr_sess] by simp
  show "pdr_hash_teid d = pdr_hash_teid e" using arg_cong [OF e, of pdr_hash_teid] by simp
  show "pdr_teid_node d = pdr_teid_node e" using arg_cong [OF e, of pdr_teid_node] by simp
  show "pdr_id_node d = pdr_id_node e" using arg_cong [OF e, of pdr_id_node] by simp
qed

lemma same_but_rules_refl [simp]: "same_but_rules d d"
  by (simp add: same_but_rules_def)

definition rules_only :: "pfcp_ctx \<Rightarrow> pfcp_ctx \<Rightarrow> bool" where
  "rules_only c c' \<longleftrightarrow> (\<exists>f pool. c' = c\<lparr>pc_pdr := f, pc_rule_pool := pool\<rparr> \<and> (\<forall>q. same_but_rules (f q) (pc_pdr c q)))"

lemma rules_only_refl [simp]: "rules_only c c"
  unfolding rules_only_def by (rule exI [of _ "pc_pdr c"], rule exI [of _ "pc_rule_pool c"]) simp

lemma rules_only_trans:
  assumes "rules_only a b" "rules_only b c"
  shows "rules_only a c"
proof -
  obtain f pool where b: "b = a\<lparr>pc_pdr := f, pc_rule_pool := pool\<rparr>" "\<forall>q. same_but_rules (f q) (pc_pdr a q)"
    using assms(1) by (auto simp: rules_only_def)
  obtain g pool' where c: "c = b\<lparr>pc_pdr := g, pc_rule_pool := pool'\<rparr>" "\<forall>q. same_but_rules (g q) (pc_pdr b q)"
    using assms(2) by (auto simp: rules_only_def)
  have "c = a\<lparr>pc_pdr := g, pc_rule_pool := pool'\<rparr>" by (simp add: c b)
  moreover have "\<forall>q. same_but_rules (g q) (pc_pdr a q)"
    using b c by (simp add: same_but_rules_def)
  ultimately show ?thesis unfolding rules_only_def by blast
qed

lemma rule_remove_only: "rules_only c (ogs_pfcp_rule_remove r c)"
  unfolding rules_only_def ogs_pfcp_rule_remove_def Let_def update_pdr_def
  by (intro exI conjI) (rule refl, simp add: same_but_rules_def)

lemma rule_remove_all_only: "rules_only c (ogs_pfcp_rule_remove_all p c)"
proof -
  have "rules_only c (fold ogs_pfcp_rule_remove rs c)" for rs
    by (induction rs arbitrary: c) (auto intro: rules_only_trans rule_remove_only)
  then show ?thesis by (simp add: ogs_pfcp_rule_remove_all_def)
qed

text \<open>What is left of a context after the rules of a PDR have gone.\<close>

lemma pdr_remove_eq:
  obtains f pool where "\<And>q. same_but_rules (f q) (pc_pdr c q)"
    and "ogs_pfcp_pdr_remove p c =
      (let d = pc_pdr c p; s = pdr_sess d; ps = pc_sess c s in
       c\<lparr>pc_pdr := f, pc_rule_pool := pool,
         pc_sess := (pc_sess c)(s := ps\<lparr>ps_pdr_list := remove1 p (ps_pdr_list ps),
           ps_pdr_ids := ogs_pool_free (ps_pdr_ids ps) (pdr_id_node d)\<rparr>),
         pc_object_hash := (case pdr_hash_teid d of None \<Rightarrow> pc_object_hash c
           | Some k \<Rightarrow> if \<exists>q \<in> set (remove1 p (pdrs_of c s)). te_teid (pdr_f_teid (pc_pdr c q)) = te_teid (pdr_f_teid d)
               then pc_object_hash c else hash_set (pc_object_hash c) (key32 k) None),
         pc_teid_pool := ogs_pool_free (pc_teid_pool c) (pdr_teid_node d),
         pc_pdr_pool := ogs_pool_free (pc_pdr_pool c) p\<rparr>)"
proof -
  define s where "s = pdr_sess (pc_pdr c p)"
  define c1 where "c1 = update_sess s (\<lambda>ps. ps\<lparr>ps_pdr_list := remove1 p (ps_pdr_list ps)\<rparr>) c"
  define c2 where "c2 = ogs_pfcp_rule_remove_all p c1"
  obtain f pool where c2': "c2 = c1\<lparr>pc_pdr := f, pc_rule_pool := pool\<rparr>"
    and f1: "\<forall>q. same_but_rules (f q) (pc_pdr c1 q)"
    using rule_remove_all_only [of c1 p] by (auto simp: rules_only_def c2_def)
  have f: "same_but_rules (f q) (pc_pdr c q)" for q
    using f1 by (simp add: c1_def update_sess_def)
  note fs = same_but_rules_fields [OF f]
  have c2e: "c2 = c\<lparr>pc_sess := (pc_sess c)(s := (pc_sess c s)\<lparr>ps_pdr_list := remove1 p (ps_pdr_list (pc_sess c s))\<rparr>),
      pc_pdr := f, pc_rule_pool := pool\<rparr>"
    by (simp add: c2' c1_def update_sess_def)
  have pd: "pc_pdr c2 = f" by (simp add: c2e)
  have cnt: "ogs_pfcp_object_count_by_teid s t c2 = 0 \<longleftrightarrow>
      \<not> (\<exists>q \<in> set (remove1 p (pdrs_of c s)). te_teid (pdr_f_teid (pc_pdr c q)) = t)" for t
    by (auto simp: ogs_pfcp_object_count_by_teid_def c2e pdrs_of_def fs filter_empty_conv)
  define other where "other = (\<exists>q \<in> set (remove1 p (pdrs_of c s)).
    te_teid (pdr_f_teid (pc_pdr c q)) = te_teid (pdr_f_teid (pc_pdr c p)))"
  have "ogs_pfcp_pdr_remove p c =
      (let d = pc_pdr c p; s = pdr_sess d; ps = pc_sess c s in
       c\<lparr>pc_pdr := f, pc_rule_pool := pool,
         pc_sess := (pc_sess c)(s := ps\<lparr>ps_pdr_list := remove1 p (ps_pdr_list ps),
           ps_pdr_ids := ogs_pool_free (ps_pdr_ids ps) (pdr_id_node d)\<rparr>),
         pc_object_hash := (case pdr_hash_teid d of None \<Rightarrow> pc_object_hash c
           | Some k \<Rightarrow> if \<exists>q \<in> set (remove1 p (pdrs_of c s)). te_teid (pdr_f_teid (pc_pdr c q)) = te_teid (pdr_f_teid d)
               then pc_object_hash c else hash_set (pc_object_hash c) (key32 k) None),
         pc_teid_pool := ogs_pool_free (pc_teid_pool c) (pdr_teid_node d),
         pc_pdr_pool := ogs_pool_free (pc_pdr_pool c) p\<rparr>)"
    unfolding ogs_pfcp_pdr_remove_def Let_def s_def [symmetric] c1_def [symmetric] c2_def [symmetric]
      pd fs cnt other_def [symmetric]
    by (cases "pdr_hash_teid (pc_pdr c p)"; cases other) (simp_all add: c2e update_sess_def)
  with f that show ?thesis by blast
qed

text \<open>The restoration of a TEID exchanges the identifiers of two nodes.\<close>

definition teids_ok :: "pfcp_ctx \<Rightarrow> bool" where
  "teids_ok c \<longleftrightarrow> length (pc_teids c) = pool_size (pc_teid_pool c) \<and> distinct (pc_teids c)"

lemma swap_positions:
  assumes "distinct xs" "i < length xs" "j < length xs"
  shows "distinct (xs[i := xs ! j, j := xs ! i])"
    "set (xs[i := xs ! j, j := xs ! i]) = set xs"
    "k < length xs \<Longrightarrow> xs[i := xs ! j, j := xs ! i] ! k = xs ! i \<longleftrightarrow> k = j"
proof -
  have m: "mset (xs[i := xs ! j, j := xs ! i]) = mset xs"
    using assms by (simp add: mset_swap)
  then show d: "distinct (xs[i := xs ! j, j := xs ! i])"
    using assms(1) by (metis mset_eq_imp_distinct_iff)
  show "set (xs[i := xs ! j, j := xs ! i]) = set xs" using m by (metis set_mset_mset)
  assume "k < length xs"
  with d assms show "xs[i := xs ! j, j := xs ! i] ! k = xs ! i \<longleftrightarrow> k = j"
    by (metis length_list_update nth_eq_iff_index_eq nth_list_update_eq)
qed

section \<open>The invariant of a session\<close>

text \<open>
  The nodes of the lists are allocated and differ, each object belongs to the session and its
  identifier node is allocated to it alone; so is the TEID node of a PDR. The TEID a PDR is
  listed under is the one of its F-TEID, and a PDR that shares the F-TEID of a listed one is
  listed.
\<close>

definition objs_ok :: "nat list \<Rightarrow> ogs_pool \<Rightarrow> (nat \<Rightarrow> nat) \<Rightarrow> ogs_pool \<Rightarrow> bool" where
  "objs_ok ns pool idn ids \<longleftrightarrow> pool_ok pool \<and> pool_ok ids \<and> distinct ns \<and> set ns \<subseteq> allocated pool \<and>
     distinct (map idn ns) \<and> idn ` set ns \<subseteq> allocated ids"

definition listed_ok :: "pfcp_ctx \<Rightarrow> nat \<Rightarrow> bool" where
  "listed_ok c s \<longleftrightarrow> (\<forall>p \<in> set (pdrs_of c s). pdr_sess (pc_pdr c p) = s \<and>
     (\<forall>t. pdr_hash_teid (pc_pdr c p) = Some t \<longrightarrow> te_teid (pdr_f_teid (pc_pdr c p)) = t \<and>
        (\<forall>q \<in> set (pdrs_of c s). te_teid (pdr_f_teid (pc_pdr c q)) = t \<longrightarrow> pdr_hash_teid (pc_pdr c q) = Some t)))"

lemma listed_ok_mono:
  assumes "listed_ok c s" "set (pdrs_of c' s) \<subseteq> set (pdrs_of c s)"
    and "\<And>q. pdr_sess (pc_pdr c' q) = pdr_sess (pc_pdr c q)" "\<And>q. pdr_hash_teid (pc_pdr c' q) = pdr_hash_teid (pc_pdr c q)"
    and "\<And>q. pdr_f_teid (pc_pdr c' q) = pdr_f_teid (pc_pdr c q)"
  shows "listed_ok c' s"
  using assms(1,2) unfolding listed_ok_def assms(3-5) by (meson subsetD)

definition pdrs_ok :: "pfcp_ctx \<Rightarrow> nat \<Rightarrow> bool" where
  "pdrs_ok c s \<longleftrightarrow>
     objs_ok (pdrs_of c s) (pc_pdr_pool c) (\<lambda>p. pdr_id_node (pc_pdr c p)) (ps_pdr_ids (pc_sess c s)) \<and>
     objs_ok (pdrs_of c s) (pc_pdr_pool c) (\<lambda>p. pdr_teid_node (pc_pdr c p)) (pc_teid_pool c) \<and>
     hash_ok (pc_object_hash c) \<and> listed_ok c s"

lemma objs_ok_remove:
  assumes "objs_ok ns pool idn ids" "n \<in> set ns"
    and "\<And>m. m \<in> set ns \<Longrightarrow> idn' m = idn m"
  shows "objs_ok (remove1 n ns) (ogs_pool_free pool n) idn' (ogs_pool_free ids (idn n))"
    "allocated (ogs_pool_free pool n) = allocated pool - {n}"
    "allocated (ogs_pool_free ids (idn n)) = allocated ids - {idn n}"
proof -
  have p: "pool_ok pool" "pool_ok ids" "n \<in> allocated pool" "idn n \<in> allocated ids" "distinct ns"
    "distinct (map idn ns)" "set ns \<subseteq> allocated pool" "idn ` set ns \<subseteq> allocated ids"
    using assms(1,2) by (auto simp: objs_ok_def)
  show a: "allocated (ogs_pool_free pool n) = allocated pool - {n}"
    "allocated (ogs_pool_free ids (idn n)) = allocated ids - {idn n}"
    using p free_allocated by blast+
  have inj: "inj_on idn (set ns)" using p by (simp add: distinct_map)
  then have inj': "inj_on idn' (set ns)" using assms(3) by (simp add: inj_on_def)
  have s: "set (remove1 n ns) = set ns - {n}" using p by simp
  have "distinct (map idn' (remove1 n ns))"
    using p(5) inj' by (simp add: distinct_map s inj_on_diff)
  moreover have "idn' ` set (remove1 n ns) \<subseteq> allocated ids - {idn n}"
  proof
    fix i
    assume "i \<in> idn' ` set (remove1 n ns)"
    then obtain m where m: "m \<in> set ns" "m \<noteq> n" "i = idn m" using assms(3) s by auto
    then have "idn m \<noteq> idn n" using inj assms(2) by (auto simp: inj_on_def)
    with m p show "i \<in> allocated ids - {idn n}" by auto
  qed
  moreover have "pool_ok (ogs_pool_free pool n)" "pool_ok (ogs_pool_free ids (idn n))"
    using p free_allocated by blast+
  ultimately show "objs_ok (remove1 n ns) (ogs_pool_free pool n) idn' (ogs_pool_free ids (idn n))"
    using p a s by (auto simp: objs_ok_def)
qed

lemma pdr_remove_step:
  assumes "pdrs_ok c s" "p \<in> set (pdrs_of c s)" and c': "c' = ogs_pfcp_pdr_remove p c"
  shows "pdrs_ok c' s" "pdrs_of c' s = remove1 p (pdrs_of c s)"
    "\<And>q. same_but_rules (pc_pdr c' q) (pc_pdr c q)"
    "\<And>r. r \<noteq> s \<Longrightarrow> pc_sess c' r = pc_sess c r"
    "allocated (pc_pdr_pool c') = allocated (pc_pdr_pool c) - {p}"
    "allocated (pc_teid_pool c') = allocated (pc_teid_pool c) - {pdr_teid_node (pc_pdr c p)}"
    "\<And>u. ogs_pfcp_object_find_by_teid u c' =
       (if pdr_hash_teid (pc_pdr c p) = Some u \<and>
           (\<forall>q \<in> set (pdrs_of c' s). te_teid (pdr_f_teid (pc_pdr c' q)) \<noteq> u) then None
        else ogs_pfcp_object_find_by_teid u c)"
    "ps_far_list (pc_sess c' s) = ps_far_list (pc_sess c s)"
proof -
  define d where "d = pc_pdr c p"
  have ok: "objs_ok (pdrs_of c s) (pc_pdr_pool c) (\<lambda>p. pdr_id_node (pc_pdr c p)) (ps_pdr_ids (pc_sess c s))"
    "objs_ok (pdrs_of c s) (pc_pdr_pool c) (\<lambda>p. pdr_teid_node (pc_pdr c p)) (pc_teid_pool c)"
    "hash_ok (pc_object_hash c)" and lo: "listed_ok c s" using assms(1) by (simp_all add: pdrs_ok_def)
  have s: "pdr_sess d = s" and ht: "\<And>t. pdr_hash_teid d = Some t \<Longrightarrow> te_teid (pdr_f_teid d) = t"
    using lo assms(2) unfolding listed_ok_def d_def by blast+
  obtain f pool where f: "\<And>q. same_but_rules (f q) (pc_pdr c q)"
    and eq: "c' = (let ps = pc_sess c s in
       c\<lparr>pc_pdr := f, pc_rule_pool := pool,
         pc_sess := (pc_sess c)(s := ps\<lparr>ps_pdr_list := remove1 p (ps_pdr_list ps),
           ps_pdr_ids := ogs_pool_free (ps_pdr_ids ps) (pdr_id_node d)\<rparr>),
         pc_object_hash := (case pdr_hash_teid d of None \<Rightarrow> pc_object_hash c
           | Some k \<Rightarrow> if \<exists>q \<in> set (remove1 p (pdrs_of c s)). te_teid (pdr_f_teid (pc_pdr c q)) = te_teid (pdr_f_teid d)
               then pc_object_hash c else hash_set (pc_object_hash c) (key32 k) None),
         pc_teid_pool := ogs_pool_free (pc_teid_pool c) (pdr_teid_node d),
         pc_pdr_pool := ogs_pool_free (pc_pdr_pool c) p\<rparr>)"
    using pdr_remove_eq [of c p] unfolding c' s [symmetric] d_def Let_def by blast
  note fs = same_but_rules_fields [OF f]
  have e: "pc_pdr c' = f" "pc_sess c' s = (pc_sess c s)\<lparr>ps_pdr_list := remove1 p (pdrs_of c s),
       ps_pdr_ids := ogs_pool_free (ps_pdr_ids (pc_sess c s)) (pdr_id_node d)\<rparr>"
    "pc_teid_pool c' = ogs_pool_free (pc_teid_pool c) (pdr_teid_node d)"
    "pc_pdr_pool c' = ogs_pool_free (pc_pdr_pool c) p"
    by (simp_all add: eq Let_def pdrs_of_def)
  show l: "pdrs_of c' s = remove1 p (pdrs_of c s)" using e(2) by (simp add: pdrs_of_def)
  show "\<And>q. same_but_rules (pc_pdr c' q) (pc_pdr c q)" using f by (simp add: e)
  show "\<And>r. r \<noteq> s \<Longrightarrow> pc_sess c' r = pc_sess c r" by (simp add: eq Let_def)
  show "ps_far_list (pc_sess c' s) = ps_far_list (pc_sess c s)" by (simp add: e(2))
  have o1: "objs_ok (pdrs_of c' s) (pc_pdr_pool c') (\<lambda>p. pdr_id_node (pc_pdr c' p)) (ps_pdr_ids (pc_sess c' s))"
    using objs_ok_remove(1) [OF ok(1) assms(2), of "\<lambda>p. pdr_id_node (pc_pdr c' p)"]
    by (simp add: l e fs d_def)
  have o2: "objs_ok (pdrs_of c' s) (pc_pdr_pool c') (\<lambda>p. pdr_teid_node (pc_pdr c' p)) (pc_teid_pool c')"
    using objs_ok_remove(1) [OF ok(2) assms(2), of "\<lambda>p. pdr_teid_node (pc_pdr c' p)"]
    by (simp add: l e fs d_def)
  show "allocated (pc_pdr_pool c') = allocated (pc_pdr_pool c) - {p}"
    using objs_ok_remove(2) [OF ok(2) assms(2) refl] by (simp add: e)
  show "allocated (pc_teid_pool c') = allocated (pc_teid_pool c) - {pdr_teid_node (pc_pdr c p)}"
    using objs_ok_remove(3) [OF ok(2) assms(2) refl] by (simp add: e d_def)
  show fnd: "\<And>u. ogs_pfcp_object_find_by_teid u c' =
       (if pdr_hash_teid (pc_pdr c p) = Some u \<and>
           (\<forall>q \<in> set (pdrs_of c' s). te_teid (pdr_f_teid (pc_pdr c' q)) \<noteq> u) then None
        else ogs_pfcp_object_find_by_teid u c)"
    using ok(3) ht unfolding l e(1) fs
    by (cases "pdr_hash_teid d") (auto simp: ogs_pfcp_object_find_by_teid_def eq Let_def d_def [symmetric])
  have "hash_ok (pc_object_hash c')"
    using ok(3) by (auto simp: eq Let_def split: option.split)
  moreover have "listed_ok c' s" by (rule listed_ok_mono [OF lo]) (simp_all add: l e(1) fs set_remove1_subset)
  ultimately show "pdrs_ok c' s" using o1 o2 by (simp add: pdrs_ok_def)
qed

subsection \<open>Removal of all objects of a kind\<close>

text \<open>
  The four \<^verbatim>\<open>_remove_all\<close> functions: what they share is the contract of a removal. \<open>keeps\<close> is
  what a removal says of the rest of the context.
\<close>

locale object_list =
  fixes listed :: "'c \<Rightarrow> nat list"
    and pool :: "'c \<Rightarrow> ogs_pool"
    and remove :: "nat \<Rightarrow> 'c \<Rightarrow> 'c"
    and valid :: "'c \<Rightarrow> bool"
    and keeps :: "'c \<Rightarrow> 'c \<Rightarrow> bool"
  assumes remove_law: "valid c \<Longrightarrow> n \<in> set (listed c) \<Longrightarrow>
      valid (remove n c) \<and> listed (remove n c) = remove1 n (listed c) \<and>
      allocated (pool (remove n c)) = allocated (pool c) - {n} \<and> keeps c (remove n c)"
    and keeps_refl: "valid c \<Longrightarrow> keeps c c"
    and keeps_trans: "valid a \<Longrightarrow> valid b \<Longrightarrow> keeps a b \<Longrightarrow> keeps b c \<Longrightarrow> keeps a c"
begin

lemma remove_list:
  assumes "valid c" "listed c = ns"
  shows "valid (fold remove ns c) \<and> listed (fold remove ns c) = [] \<and>
    allocated (pool (fold remove ns c)) = allocated (pool c) - set ns \<and> keeps c (fold remove ns c)"
  using assms
proof (induction ns arbitrary: c)
  case (Cons n ns)
  have r: "valid (remove n c)" "listed (remove n c) = ns"
    "allocated (pool (remove n c)) = allocated (pool c) - {n}" "keeps c (remove n c)"
    using remove_law [OF Cons.prems(1), of n] Cons.prems(2) by simp_all
  from Cons.IH [OF r(1,2)] have i: "valid (fold remove ns (remove n c))"
    "listed (fold remove ns (remove n c)) = []"
    "allocated (pool (fold remove ns (remove n c))) = allocated (pool c) - {n} - set ns"
    "keeps (remove n c) (fold remove ns (remove n c))"
    by (simp_all add: r(3))
  have "keeps c (fold remove ns (remove n c))" by (rule keeps_trans [OF Cons.prems(1) r(1,4) i(4)])
  with i(1-3) show ?case by auto
qed (simp add: keeps_refl)

end

text \<open>What the removal of detection rules does to the tables and to the rest of the session.\<close>

definition rest_same :: "pfcp_ctx \<Rightarrow> pfcp_ctx \<Rightarrow> nat \<Rightarrow> bool" where
  "rest_same c c' s \<longleftrightarrow> (\<forall>r. r \<noteq> s \<longrightarrow> pc_sess c' r = pc_sess c r) \<and>
     ps_far_list (pc_sess c' s) = ps_far_list (pc_sess c s) \<and> ps_far_ids (pc_sess c' s) = ps_far_ids (pc_sess c s) \<and>
     ps_urr_list (pc_sess c' s) = ps_urr_list (pc_sess c s) \<and> ps_urr_ids (pc_sess c' s) = ps_urr_ids (pc_sess c s) \<and>
     ps_qer_list (pc_sess c' s) = ps_qer_list (pc_sess c s) \<and> ps_qer_ids (pc_sess c' s) = ps_qer_ids (pc_sess c s) \<and>
     ps_bar (pc_sess c' s) = ps_bar (pc_sess c s) \<and>
     pc_far c' = pc_far c \<and> pc_far_pool c' = pc_far_pool c \<and> pc_urr c' = pc_urr c \<and>
     pc_urr_pool c' = pc_urr_pool c \<and> pc_qer c' = pc_qer c \<and> pc_qer_pool c' = pc_qer_pool c \<and>
     pc_bar c' = pc_bar c \<and> pc_bar_pool c' = pc_bar_pool c"

definition teids_released :: "nat \<Rightarrow> pfcp_ctx \<Rightarrow> pfcp_ctx \<Rightarrow> bool" where
  "teids_released s c c' \<longleftrightarrow>
     set (pdrs_of c' s) \<subseteq> set (pdrs_of c s) \<and> (\<forall>q. same_but_rules (pc_pdr c' q) (pc_pdr c q)) \<and>
     allocated (pc_teid_pool c') =
       allocated (pc_teid_pool c) - (\<lambda>p. pdr_teid_node (pc_pdr c p)) ` (set (pdrs_of c s) - set (pdrs_of c' s)) \<and>
     (\<forall>u. ogs_pfcp_object_find_by_teid u c' =
       (if (\<exists>p \<in> set (pdrs_of c s). pdr_hash_teid (pc_pdr c p) = Some u) \<and>
           (\<forall>q \<in> set (pdrs_of c' s). te_teid (pdr_f_teid (pc_pdr c q)) \<noteq> u) then None
        else ogs_pfcp_object_find_by_teid u c)) \<and> rest_same c c' s"

lemma teids_released_trans:
  assumes "pdrs_ok a s" "teids_released s a b" "teids_released s b c"
  shows "teids_released s a c"
proof -
  have sub: "set (pdrs_of b s) \<subseteq> set (pdrs_of a s)" "set (pdrs_of c s) \<subseteq> set (pdrs_of b s)"
    and eq: "\<And>q. same_but_rules (pc_pdr b q) (pc_pdr a q)" "\<And>q. same_but_rules (pc_pdr c q) (pc_pdr b q)"
    using assms(2,3) by (simp_all add: teids_released_def)
  note fs = same_but_rules_fields [OF eq(1)]
  have ac: "\<And>q. same_but_rules (pc_pdr c q) (pc_pdr a q)" using eq by (simp add: same_but_rules_def)
  have al: "allocated (pc_teid_pool c) = allocated (pc_teid_pool a) -
      (\<lambda>p. pdr_teid_node (pc_pdr a p)) ` (set (pdrs_of a s) - set (pdrs_of c s))"
  proof -
    let ?f = "\<lambda>p. pdr_teid_node (pc_pdr a p)"
    have "allocated (pc_teid_pool b) = allocated (pc_teid_pool a) - ?f ` (set (pdrs_of a s) - set (pdrs_of b s))"
      using assms(2) by (simp add: teids_released_def)
    moreover have "allocated (pc_teid_pool c) = allocated (pc_teid_pool b) - ?f ` (set (pdrs_of b s) - set (pdrs_of c s))"
      using assms(3) by (simp add: teids_released_def fs)
    moreover have "set (pdrs_of a s) - set (pdrs_of c s) =
        (set (pdrs_of a s) - set (pdrs_of b s)) \<union> (set (pdrs_of b s) - set (pdrs_of c s))"
      using sub by blast
    ultimately show ?thesis by (simp add: image_Un Diff_eq Int_assoc)
  qed
  have listed: "\<And>p q u. p \<in> set (pdrs_of a s) \<Longrightarrow> pdr_hash_teid (pc_pdr a p) = Some u \<Longrightarrow>
      q \<in> set (pdrs_of a s) \<Longrightarrow> te_teid (pdr_f_teid (pc_pdr a q)) = u \<Longrightarrow> pdr_hash_teid (pc_pdr a q) = Some u"
    using assms(1) unfolding pdrs_ok_def listed_ok_def by blast
  have f: "ogs_pfcp_object_find_by_teid u c =
       (if (\<exists>p \<in> set (pdrs_of a s). pdr_hash_teid (pc_pdr a p) = Some u) \<and>
           (\<forall>q \<in> set (pdrs_of c s). te_teid (pdr_f_teid (pc_pdr a q)) \<noteq> u) then None
        else ogs_pfcp_object_find_by_teid u a)" for u
  proof -
    have "ogs_pfcp_object_find_by_teid u b =
       (if (\<exists>p \<in> set (pdrs_of a s). pdr_hash_teid (pc_pdr a p) = Some u) \<and>
           (\<forall>q \<in> set (pdrs_of b s). te_teid (pdr_f_teid (pc_pdr a q)) \<noteq> u) then None
        else ogs_pfcp_object_find_by_teid u a)"
      using assms(2) by (simp add: teids_released_def)
    moreover have "ogs_pfcp_object_find_by_teid u c =
       (if (\<exists>p \<in> set (pdrs_of b s). pdr_hash_teid (pc_pdr a p) = Some u) \<and>
           (\<forall>q \<in> set (pdrs_of c s). te_teid (pdr_f_teid (pc_pdr a q)) \<noteq> u) then None
        else ogs_pfcp_object_find_by_teid u b)"
      using assms(3) by (simp add: teids_released_def fs)
    ultimately show ?thesis using sub listed [of _ u] by (smt (verit) subsetD)
  qed
  have "rest_same a c s" using assms(2,3) by (simp add: teids_released_def rest_same_def)
  with sub ac al f show ?thesis by (simp add: teids_released_def subset_trans)
qed

lemma pdr_remove_rest:
  assumes "pdr_sess (pc_pdr c p) = s"
  shows "rest_same c (ogs_pfcp_pdr_remove p c) s"
proof -
  obtain f pool where "ogs_pfcp_pdr_remove p c =
      (let d = pc_pdr c p; s = pdr_sess d; ps = pc_sess c s in
       c\<lparr>pc_pdr := f, pc_rule_pool := pool,
         pc_sess := (pc_sess c)(s := ps\<lparr>ps_pdr_list := remove1 p (ps_pdr_list ps),
           ps_pdr_ids := ogs_pool_free (ps_pdr_ids ps) (pdr_id_node d)\<rparr>),
         pc_object_hash := (case pdr_hash_teid d of None \<Rightarrow> pc_object_hash c
           | Some k \<Rightarrow> if \<exists>q \<in> set (remove1 p (pdrs_of c s)). te_teid (pdr_f_teid (pc_pdr c q)) = te_teid (pdr_f_teid d)
               then pc_object_hash c else hash_set (pc_object_hash c) (key32 k) None),
         pc_teid_pool := ogs_pool_free (pc_teid_pool c) (pdr_teid_node d),
         pc_pdr_pool := ogs_pool_free (pc_pdr_pool c) p\<rparr>)"
    using pdr_remove_eq [of c p] by blast
  with assms show ?thesis by (simp add: Let_def rest_same_def)
qed

lemma pdr_remove_released:
  assumes "pdrs_ok c s" "p \<in> set (pdrs_of c s)"
  shows "teids_released s c (ogs_pfcp_pdr_remove p c)"
proof -
  define c' where "c' = ogs_pfcp_pdr_remove p c"
  note st = pdr_remove_step [OF assms c'_def]
  note fs = same_but_rules_fields [OF st(3)]
  have lo: "listed_ok c s" and d: "distinct (pdrs_of c s)" using assms(1) by (simp_all add: pdrs_ok_def objs_ok_def)
  have ps: "pdr_sess (pc_pdr c p) = s" using lo assms(2) unfolding listed_ok_def by blast
  have s': "set (pdrs_of c' s) = set (pdrs_of c s) - {p}" using d by (simp add: st(2))
  then have df: "set (pdrs_of c s) - set (pdrs_of c' s) = {p}" using assms(2) by blast
  have listed: "\<And>q u. q \<in> set (pdrs_of c s) \<Longrightarrow> pdr_hash_teid (pc_pdr c q) = Some u \<Longrightarrow>
      te_teid (pdr_f_teid (pc_pdr c q)) = u \<and> (te_teid (pdr_f_teid (pc_pdr c p)) = u \<longrightarrow> pdr_hash_teid (pc_pdr c p) = Some u)"
    using lo assms(2) unfolding listed_ok_def by blast
  have "ogs_pfcp_object_find_by_teid u c' =
       (if (\<exists>p \<in> set (pdrs_of c s). pdr_hash_teid (pc_pdr c p) = Some u) \<and>
           (\<forall>q \<in> set (pdrs_of c' s). te_teid (pdr_f_teid (pc_pdr c q)) \<noteq> u) then None
        else ogs_pfcp_object_find_by_teid u c)" for u
  proof -
    have "(\<exists>q \<in> set (pdrs_of c s). pdr_hash_teid (pc_pdr c q) = Some u) \<and>
        (\<forall>q \<in> set (pdrs_of c' s). te_teid (pdr_f_teid (pc_pdr c q)) \<noteq> u) \<longleftrightarrow>
      pdr_hash_teid (pc_pdr c p) = Some u \<and> (\<forall>q \<in> set (pdrs_of c' s). te_teid (pdr_f_teid (pc_pdr c q)) \<noteq> u)"
      using listed [of _ u] assms(2) unfolding s' by blast
    then show ?thesis unfolding st(7) fs by presburger
  qed
  moreover have "rest_same c c' s" unfolding c'_def by (rule pdr_remove_rest [OF ps])
  ultimately show ?thesis
    unfolding teids_released_def c'_def [symmetric] df using st(3,6) s' by (simp add: Diff_subset)
qed

interpretation pdrs: object_list "\<lambda>c. pdrs_of c s" pc_pdr_pool ogs_pfcp_pdr_remove
  "\<lambda>c. pdrs_ok c s" "teids_released s" for s
proof
  show "pdrs_ok (ogs_pfcp_pdr_remove n c) s \<and> pdrs_of (ogs_pfcp_pdr_remove n c) s = remove1 n (pdrs_of c s) \<and>
      allocated (pc_pdr_pool (ogs_pfcp_pdr_remove n c)) = allocated (pc_pdr_pool c) - {n} \<and>
      teids_released s c (ogs_pfcp_pdr_remove n c)"
    if "pdrs_ok c s" "n \<in> set (pdrs_of c s)" for c n
    using pdr_remove_step(1,2,5) [OF that refl] pdr_remove_released [OF that] by blast
  show "teids_released s c c" if "pdrs_ok c s" for c
  proof -
    have "te_teid (pdr_f_teid (pc_pdr c p)) = u" if "p \<in> set (pdrs_of c s)" "pdr_hash_teid (pc_pdr c p) = Some u" for p u
      using that \<open>pdrs_ok c s\<close> unfolding pdrs_ok_def listed_ok_def by blast
    then show ?thesis by (auto simp: teids_released_def rest_same_def)
  qed
  show "teids_released s a c" if "pdrs_ok a s" "pdrs_ok b s" "teids_released s a b" "teids_released s b c" for a b c
    using teids_released_trans that(1,3,4) by blast
qed

text \<open>The other three kinds: an object touches its own pool and the list of its session.\<close>

definition far_only :: "nat \<Rightarrow> pfcp_ctx \<Rightarrow> pfcp_ctx \<Rightarrow> bool" where
  "far_only s c c' \<longleftrightarrow> (\<exists>pool h1 h2 ns ids. c' = c\<lparr>pc_far_pool := pool, pc_far_teid_hash := h1,
     pc_far_f_teid_hash := h2, pc_sess := (pc_sess c)(s := (pc_sess c s)\<lparr>ps_far_list := ns, ps_far_ids := ids\<rparr>)\<rparr>)"

definition urr_only :: "nat \<Rightarrow> pfcp_ctx \<Rightarrow> pfcp_ctx \<Rightarrow> bool" where
  "urr_only s c c' \<longleftrightarrow> (\<exists>pool ns ids. c' = c\<lparr>pc_urr_pool := pool,
     pc_sess := (pc_sess c)(s := (pc_sess c s)\<lparr>ps_urr_list := ns, ps_urr_ids := ids\<rparr>)\<rparr>)"

definition qer_only :: "nat \<Rightarrow> pfcp_ctx \<Rightarrow> pfcp_ctx \<Rightarrow> bool" where
  "qer_only s c c' \<longleftrightarrow> (\<exists>pool ns ids. c' = c\<lparr>pc_qer_pool := pool,
     pc_sess := (pc_sess c)(s := (pc_sess c s)\<lparr>ps_qer_list := ns, ps_qer_ids := ids\<rparr>)\<rparr>)"

definition fars_ok :: "nat \<Rightarrow> pfcp_ctx \<Rightarrow> bool" where
  "fars_ok s c \<longleftrightarrow> objs_ok (ps_far_list (pc_sess c s)) (pc_far_pool c) (\<lambda>x. far_id_node (pc_far c x)) (ps_far_ids (pc_sess c s)) \<and>
     (\<forall>x \<in> set (ps_far_list (pc_sess c s)). far_sess (pc_far c x) = s)"

definition urrs_ok :: "nat \<Rightarrow> pfcp_ctx \<Rightarrow> bool" where
  "urrs_ok s c \<longleftrightarrow> objs_ok (ps_urr_list (pc_sess c s)) (pc_urr_pool c) (\<lambda>x. uo_id_node (pc_urr c x)) (ps_urr_ids (pc_sess c s)) \<and>
     (\<forall>x \<in> set (ps_urr_list (pc_sess c s)). uo_sess (pc_urr c x) = s)"

definition qers_ok :: "nat \<Rightarrow> pfcp_ctx \<Rightarrow> bool" where
  "qers_ok s c \<longleftrightarrow> objs_ok (ps_qer_list (pc_sess c s)) (pc_qer_pool c) (\<lambda>x. qer_id_node (pc_qer c x)) (ps_qer_ids (pc_sess c s)) \<and>
     (\<forall>x \<in> set (ps_qer_list (pc_sess c s)). qer_sess (pc_qer c x) = s)"

lemma far_only_trans: "far_only s a b \<Longrightarrow> far_only s b c \<Longrightarrow> far_only s a c"
  by (clarsimp simp: far_only_def) (intro exI, rule refl)

lemma urr_only_trans: "urr_only s a b \<Longrightarrow> urr_only s b c \<Longrightarrow> urr_only s a c"
  by (clarsimp simp: urr_only_def) (intro exI, rule refl)

lemma qer_only_trans: "qer_only s a b \<Longrightarrow> qer_only s b c \<Longrightarrow> qer_only s a c"
  by (clarsimp simp: qer_only_def) (intro exI, rule refl)

lemma only_refl: "far_only s c c" "urr_only s c c" "qer_only s c c"
  unfolding far_only_def urr_only_def qer_only_def
  by (rule exI [of _ "pc_far_pool c"] exI [of _ "pc_far_teid_hash c"] exI [of _ "pc_far_f_teid_hash c"]
      exI [of _ "ps_far_list (pc_sess c s)"] exI [of _ "ps_far_ids (pc_sess c s)"]
      exI [of _ "pc_urr_pool c"] exI [of _ "ps_urr_list (pc_sess c s)"] exI [of _ "ps_urr_ids (pc_sess c s)"]
      exI [of _ "pc_qer_pool c"] exI [of _ "ps_qer_list (pc_sess c s)"] exI [of _ "ps_qer_ids (pc_sess c s)"] | simp)+

interpretation fars: object_list "\<lambda>c. ps_far_list (pc_sess c s)" pc_far_pool ogs_pfcp_far_remove
  "fars_ok s" "far_only s" for s
proof
  fix c n
  assume v: "fars_ok s c" "n \<in> set (ps_far_list (pc_sess c s))"
  then have ok: "objs_ok (ps_far_list (pc_sess c s)) (pc_far_pool c) (\<lambda>x. far_id_node (pc_far c x)) (ps_far_ids (pc_sess c s))"
    and s: "far_sess (pc_far c n) = s" by (simp_all add: fars_ok_def)
  have "ogs_pfcp_far_remove n c = c\<lparr>pc_far_pool := ogs_pool_free (pc_far_pool c) n,
      pc_far_teid_hash := pc_far_teid_hash (ogs_pfcp_far_remove n c),
      pc_far_f_teid_hash := pc_far_f_teid_hash (ogs_pfcp_far_remove n c),
      pc_sess := (pc_sess c)(s := (pc_sess c s)\<lparr>ps_far_list := remove1 n (ps_far_list (pc_sess c s)),
        ps_far_ids := ogs_pool_free (ps_far_ids (pc_sess c s)) (far_id_node (pc_far c n))\<rparr>)\<rparr>"
    by (simp add: ogs_pfcp_far_remove_def Let_def s update_sess_def)
  then have o: "far_only s c (ogs_pfcp_far_remove n c)" unfolding far_only_def by blast
  show "fars_ok s (ogs_pfcp_far_remove n c) \<and>
      ps_far_list (pc_sess (ogs_pfcp_far_remove n c) s) = remove1 n (ps_far_list (pc_sess c s)) \<and>
      allocated (pc_far_pool (ogs_pfcp_far_remove n c)) = allocated (pc_far_pool c) - {n} \<and> far_only s c (ogs_pfcp_far_remove n c)"
    using objs_ok_remove [OF ok v(2) refl] v(1) o notin_set_remove1 [of _ "ps_far_list (pc_sess c s)" n]
    by (auto simp: fars_ok_def ogs_pfcp_far_remove_def Let_def s update_sess_def)
qed (use far_only_trans only_refl in blast)+

interpretation urrs: object_list "\<lambda>c. ps_urr_list (pc_sess c s)" pc_urr_pool ogs_pfcp_urr_remove
  "urrs_ok s" "urr_only s" for s
proof
  fix c n
  assume v: "urrs_ok s c" "n \<in> set (ps_urr_list (pc_sess c s))"
  then have ok: "objs_ok (ps_urr_list (pc_sess c s)) (pc_urr_pool c) (\<lambda>x. uo_id_node (pc_urr c x)) (ps_urr_ids (pc_sess c s))"
    and s: "uo_sess (pc_urr c n) = s" by (simp_all add: urrs_ok_def)
  have "ogs_pfcp_urr_remove n c = c\<lparr>pc_urr_pool := ogs_pool_free (pc_urr_pool c) n,
      pc_sess := (pc_sess c)(s := (pc_sess c s)\<lparr>ps_urr_list := remove1 n (ps_urr_list (pc_sess c s)),
        ps_urr_ids := ogs_pool_free (ps_urr_ids (pc_sess c s)) (uo_id_node (pc_urr c n))\<rparr>)\<rparr>"
    by (simp add: ogs_pfcp_urr_remove_def s update_sess_def)
  then have o: "urr_only s c (ogs_pfcp_urr_remove n c)" unfolding urr_only_def by blast
  show "urrs_ok s (ogs_pfcp_urr_remove n c) \<and>
      ps_urr_list (pc_sess (ogs_pfcp_urr_remove n c) s) = remove1 n (ps_urr_list (pc_sess c s)) \<and>
      allocated (pc_urr_pool (ogs_pfcp_urr_remove n c)) = allocated (pc_urr_pool c) - {n} \<and> urr_only s c (ogs_pfcp_urr_remove n c)"
    using objs_ok_remove [OF ok v(2) refl] v(1) o notin_set_remove1 [of _ "ps_urr_list (pc_sess c s)" n]
    by (auto simp: urrs_ok_def ogs_pfcp_urr_remove_def s update_sess_def)
qed (use urr_only_trans only_refl in blast)+

interpretation qers: object_list "\<lambda>c. ps_qer_list (pc_sess c s)" pc_qer_pool ogs_pfcp_qer_remove
  "qers_ok s" "qer_only s" for s
proof
  fix c n
  assume v: "qers_ok s c" "n \<in> set (ps_qer_list (pc_sess c s))"
  then have ok: "objs_ok (ps_qer_list (pc_sess c s)) (pc_qer_pool c) (\<lambda>x. qer_id_node (pc_qer c x)) (ps_qer_ids (pc_sess c s))"
    and s: "qer_sess (pc_qer c n) = s" by (simp_all add: qers_ok_def)
  have "ogs_pfcp_qer_remove n c = c\<lparr>pc_qer_pool := ogs_pool_free (pc_qer_pool c) n,
      pc_sess := (pc_sess c)(s := (pc_sess c s)\<lparr>ps_qer_list := remove1 n (ps_qer_list (pc_sess c s)),
        ps_qer_ids := ogs_pool_free (ps_qer_ids (pc_sess c s)) (qer_id_node (pc_qer c n))\<rparr>)\<rparr>"
    by (simp add: ogs_pfcp_qer_remove_def s update_sess_def)
  then have o: "qer_only s c (ogs_pfcp_qer_remove n c)" unfolding qer_only_def by blast
  show "qers_ok s (ogs_pfcp_qer_remove n c) \<and>
      ps_qer_list (pc_sess (ogs_pfcp_qer_remove n c) s) = remove1 n (ps_qer_list (pc_sess c s)) \<and>
      allocated (pc_qer_pool (ogs_pfcp_qer_remove n c)) = allocated (pc_qer_pool c) - {n} \<and> qer_only s c (ogs_pfcp_qer_remove n c)"
    using objs_ok_remove [OF ok v(2) refl] v(1) o notin_set_remove1 [of _ "ps_qer_list (pc_sess c s)" n]
    by (auto simp: qers_ok_def ogs_pfcp_qer_remove_def s update_sess_def)
qed (use qer_only_trans only_refl in blast)+

subsection \<open>Clearing a session\<close>

definition sess_ok :: "pfcp_ctx \<Rightarrow> nat \<Rightarrow> bool" where
  "sess_ok c s \<longleftrightarrow> pdrs_ok c s \<and> fars_ok s c \<and> urrs_ok s c \<and> qers_ok s c \<and>
     (\<forall>b. ps_bar (pc_sess c s) = Some b \<longrightarrow> bar_sess (pc_bar c b) = Some s \<and>
        pool_ok (pc_bar_pool c) \<and> b \<in> allocated (pc_bar_pool c))"

definition cleared :: "nat \<Rightarrow> pfcp_ctx \<Rightarrow> pfcp_ctx \<Rightarrow> bool" where
  "cleared s c c' \<longleftrightarrow> pdrs_of c' s = [] \<and> ps_far_list (pc_sess c' s) = [] \<and> ps_urr_list (pc_sess c' s) = [] \<and>
     ps_qer_list (pc_sess c' s) = [] \<and> ps_bar (pc_sess c' s) = None \<and>
     allocated (pc_pdr_pool c') = allocated (pc_pdr_pool c) - set (pdrs_of c s) \<and>
     allocated (pc_teid_pool c') = allocated (pc_teid_pool c) - (\<lambda>p. pdr_teid_node (pc_pdr c p)) ` set (pdrs_of c s) \<and>
     allocated (pc_far_pool c') = allocated (pc_far_pool c) - set (ps_far_list (pc_sess c s)) \<and>
     allocated (pc_urr_pool c') = allocated (pc_urr_pool c) - set (ps_urr_list (pc_sess c s)) \<and>
     allocated (pc_qer_pool c') = allocated (pc_qer_pool c) - set (ps_qer_list (pc_sess c s)) \<and>
     (\<forall>u. ogs_pfcp_object_find_by_teid u c' =
        (if \<exists>p \<in> set (pdrs_of c s). pdr_hash_teid (pc_pdr c p) = Some u then None
         else ogs_pfcp_object_find_by_teid u c)) \<and>
     (\<forall>r. r \<noteq> s \<longrightarrow> pc_sess c' r = pc_sess c r)"

lemma sess_clear_lists:
  assumes "sess_ok c s"
  shows "let c' = ogs_pfcp_qer_remove_all s (ogs_pfcp_urr_remove_all s (ogs_pfcp_far_remove_all s
             (ogs_pfcp_pdr_remove_all s c)))
    in ps_bar (pc_sess c' s) = ps_bar (pc_sess c s) \<and> pc_bar c' = pc_bar c \<and> pc_bar_pool c' = pc_bar_pool c \<and>
      cleared s c (update_sess s (\<lambda>ps. ps\<lparr>ps_bar := None\<rparr>) c')"
proof -
  define c1 where "c1 = ogs_pfcp_pdr_remove_all s c"
  define c2 where "c2 = ogs_pfcp_far_remove_all s c1"
  define c3 where "c3 = ogs_pfcp_urr_remove_all s c2"
  define c4 where "c4 = ogs_pfcp_qer_remove_all s c3"
  have p: "pdrs_of c1 s = []" "allocated (pc_pdr_pool c1) = allocated (pc_pdr_pool c) - set (pdrs_of c s)"
    "teids_released s c c1"
    using pdrs.remove_list [of c s "pdrs_of c s"] assms
    by (simp_all add: c1_def ogs_pfcp_pdr_remove_all_def sess_ok_def)
  have r: "rest_same c c1 s" using p(3) by (simp add: teids_released_def)
  then have "fars_ok s c1" using assms by (simp add: sess_ok_def fars_ok_def rest_same_def)
  from fars.remove_list [OF this refl] have f: "ps_far_list (pc_sess c2 s) = []" "far_only s c1 c2"
    "allocated (pc_far_pool c2) = allocated (pc_far_pool c) - set (ps_far_list (pc_sess c s))"
    using r by (simp_all add: c2_def ogs_pfcp_far_remove_all_def rest_same_def)
  have "urrs_ok s c2" using assms r f(2) by (auto simp: sess_ok_def urrs_ok_def rest_same_def far_only_def)
  from urrs.remove_list [OF this refl] have u: "ps_urr_list (pc_sess c3 s) = []" "urr_only s c2 c3"
    "allocated (pc_urr_pool c3) = allocated (pc_urr_pool c) - set (ps_urr_list (pc_sess c s))"
    using r f(2) by (auto simp: c3_def ogs_pfcp_urr_remove_all_def rest_same_def far_only_def)
  have "qers_ok s c3"
    using assms r f(2) u(2) by (auto simp: sess_ok_def qers_ok_def rest_same_def far_only_def urr_only_def)
  from qers.remove_list [OF this refl] have q: "ps_qer_list (pc_sess c4 s) = []" "qer_only s c3 c4"
    "allocated (pc_qer_pool c4) = allocated (pc_qer_pool c) - set (ps_qer_list (pc_sess c s))"
    using r f(2) u(2) by (auto simp: c4_def ogs_pfcp_qer_remove_all_def rest_same_def far_only_def urr_only_def)
  have t: "allocated (pc_teid_pool c1) = allocated (pc_teid_pool c) - (\<lambda>p. pdr_teid_node (pc_pdr c p)) ` set (pdrs_of c s)"
    "\<forall>u. ogs_pfcp_object_find_by_teid u c1 =
      (if \<exists>p \<in> set (pdrs_of c s). pdr_hash_teid (pc_pdr c p) = Some u then None
       else ogs_pfcp_object_find_by_teid u c)"
    using p(1,3) by (simp_all add: teids_released_def)
  have "cleared s c (update_sess s (\<lambda>ps. ps\<lparr>ps_bar := None\<rparr>) c4)"
    using p(1,2) t f u q r
    by (auto simp: cleared_def update_sess_def pdrs_of_def ogs_pfcp_object_find_by_teid_def
        rest_same_def far_only_def urr_only_def qer_only_def)
  moreover have "ps_bar (pc_sess c4 s) = ps_bar (pc_sess c s) \<and> pc_bar c4 = pc_bar c \<and> pc_bar_pool c4 = pc_bar_pool c"
    using r f(2) u(2) q(2) by (auto simp: rest_same_def far_only_def urr_only_def qer_only_def)
  ultimately show ?thesis by (simp add: c1_def [symmetric] c2_def [symmetric] c3_def [symmetric] c4_def [symmetric])
qed

lemma cleared_bar:
  assumes "cleared s c (update_sess s (\<lambda>ps. ps\<lparr>ps_bar := None\<rparr>) d)" "bar_sess (pc_bar d b) = Some s"
  shows "\<exists>c'. ogs_pfcp_bar_delete b d = Ret c' \<and> cleared s c c' \<and> pc_bar_pool c' = ogs_pool_free (pc_bar_pool d) b"
  using assms by (auto simp: ogs_pfcp_bar_delete_def cleared_def update_sess_def pdrs_of_def ogs_pfcp_object_find_by_teid_def)

section \<open>Adding a detection rule\<close>

lemma objs_ok_add:
  assumes "objs_ok ns pool idn ids" "ogs_pool_alloc pool = (pool', Some n)" "ogs_pool_alloc ids = (ids', Some i)"
    and "idn' n = i" "\<And>m. m \<noteq> n \<Longrightarrow> idn' m = idn m"
  shows "objs_ok (ns @ [n]) pool' idn' ids'"
proof -
  have ok: "pool_ok pool" "pool_ok ids" "distinct ns" "set ns \<subseteq> allocated pool" "distinct (map idn ns)"
    "idn ` set ns \<subseteq> allocated ids"
    using assms(1) by (simp_all add: objs_ok_def)
  have n: "n \<notin> allocated pool" "allocated pool' = insert n (allocated pool)" "pool_ok pool'"
    using pool.acquire_Some [OF ok(1) assms(2)] by simp_all
  have i: "i \<notin> allocated ids" "allocated ids' = insert i (allocated ids)" "pool_ok ids'"
    using pool.acquire_Some [OF ok(2) assms(3)] by simp_all
  have ns: "n \<notin> set ns" using n(1) ok(4) by blast
  then have "\<forall>x \<in> set ns. idn' x = idn x" using assms(5) by metis
  then have m: "map idn' ns = map idn ns" "idn' ` set ns = idn ` set ns"
    by (simp, simp cong: image_cong)
  have "distinct (map idn' (ns @ [n]))"
    using ok(5,6) i(1) unfolding map_append m assms(4) list.map distinct_append by auto
  moreover have "idn' ` set (ns @ [n]) \<subseteq> allocated ids'"
    using ok(6) i(2) unfolding set_append image_Un m by (auto simp: assms(4))
  ultimately show ?thesis using ok(3,4) ns n i by (auto simp: objs_ok_def)
qed

lemma pdr_add_Some:
  assumes "ogs_pfcp_pdr_add s c = Ret (c', Some p)"
  obtains pool tpool ids t i where "ogs_pool_alloc (pc_pdr_pool c) = (pool, Some p)"
    "ogs_pool_alloc (pc_teid_pool c) = (tpool, Some t)"
    "ogs_pool_alloc (ps_pdr_ids (pc_sess c s)) = (ids, Some i)"
    "c' = c\<lparr>pc_pdr_pool := pool, pc_teid_pool := tpool,
       pc_pdr := (pc_pdr c)(p := zero_pdr\<lparr>pdr_src_if := OGS_PFCP_INTERFACE_UNKNOWN, pdr_teid_node := t,
         pdr_teid := pc_teids c ! t, pdr_id_node := i, pdr_id := sequence_id i, pdr_sess := s\<rparr>),
       pc_sess := (pc_sess c)(s := (pc_sess c s)\<lparr>ps_pdr_ids := ids, ps_pdr_list := pdrs_of c s @ [p]\<rparr>)\<rparr>"
  using assms that
  by (auto simp: ogs_pfcp_pdr_add_def update_sess_def update_pdr_def pdrs_of_def Let_def
      split: prod.splits option.splits)

lemma pdr_add_ok:
  assumes "pdrs_ok c s" "ogs_pfcp_pdr_add s c = Ret (c', Some p)"
    and "\<forall>q \<in> set (pdrs_of c s). pdr_hash_teid (pc_pdr c q) \<noteq> Some 0"
  shows "pdrs_ok c' s \<and> pdrs_of c' s = pdrs_of c s @ [p] \<and> p \<notin> set (pdrs_of c s)"
proof -
  obtain pool tpool ids t i where a: "ogs_pool_alloc (pc_pdr_pool c) = (pool, Some p)"
    "ogs_pool_alloc (pc_teid_pool c) = (tpool, Some t)" "ogs_pool_alloc (ps_pdr_ids (pc_sess c s)) = (ids, Some i)"
    and c': "c' = c\<lparr>pc_pdr_pool := pool, pc_teid_pool := tpool,
       pc_pdr := (pc_pdr c)(p := zero_pdr\<lparr>pdr_src_if := OGS_PFCP_INTERFACE_UNKNOWN, pdr_teid_node := t,
         pdr_teid := pc_teids c ! t, pdr_id_node := i, pdr_id := sequence_id i, pdr_sess := s\<rparr>),
       pc_sess := (pc_sess c)(s := (pc_sess c s)\<lparr>ps_pdr_ids := ids, ps_pdr_list := pdrs_of c s @ [p]\<rparr>)\<rparr>"
    using pdr_add_Some [OF assms(2)] by metis
  have ok: "objs_ok (pdrs_of c s) (pc_pdr_pool c) (\<lambda>p. pdr_id_node (pc_pdr c p)) (ps_pdr_ids (pc_sess c s))"
    "objs_ok (pdrs_of c s) (pc_pdr_pool c) (\<lambda>p. pdr_teid_node (pc_pdr c p)) (pc_teid_pool c)"
    "hash_ok (pc_object_hash c)" "listed_ok c s" using assms(1) by (simp_all add: pdrs_ok_def)
  have l: "pdrs_of c' s = pdrs_of c s @ [p]" by (simp add: c' pdrs_of_def)
  have "pool_ok (pc_pdr_pool c)" "set (pdrs_of c s) \<subseteq> allocated (pc_pdr_pool c)"
    using ok(1) by (simp_all add: objs_ok_def)
  with pool.acquire_Some [OF this(1) a(1)] have p: "p \<notin> set (pdrs_of c s)" by blast
  have "objs_ok (pdrs_of c' s) (pc_pdr_pool c') (\<lambda>p. pdr_id_node (pc_pdr c' p)) (ps_pdr_ids (pc_sess c' s))"
    unfolding l using objs_ok_add [OF ok(1) a(1,3), of "\<lambda>p. pdr_id_node (pc_pdr c' p)"] by (simp add: c')
  moreover have "objs_ok (pdrs_of c' s) (pc_pdr_pool c') (\<lambda>p. pdr_teid_node (pc_pdr c' p)) (pc_teid_pool c')"
    unfolding l using objs_ok_add [OF ok(2) a(1,2), of "\<lambda>p. pdr_teid_node (pc_pdr c' p)"] by (simp add: c')
  moreover
  have "pdr_sess (pc_pdr c' q) = s \<and> (\<forall>t. pdr_hash_teid (pc_pdr c' q) = Some t \<longrightarrow>
      te_teid (pdr_f_teid (pc_pdr c' q)) = t \<and> (\<forall>r \<in> set (pdrs_of c' s). te_teid (pdr_f_teid (pc_pdr c' r)) = t \<longrightarrow>
        pdr_hash_teid (pc_pdr c' r) = Some t))" if q: "q \<in> set (pdrs_of c' s)" for q
  proof (cases "q = p")
    case False
    with q have q': "q \<in> set (pdrs_of c s)" by (simp add: l)
    have q'': "pc_pdr c' q = pc_pdr c q" using False by (simp add: c')
    have lo1: "pdr_sess (pc_pdr c q) = s" and lo: "\<And>t. pdr_hash_teid (pc_pdr c q) = Some t \<Longrightarrow>
      te_teid (pdr_f_teid (pc_pdr c q)) = t \<and> (\<forall>r \<in> set (pdrs_of c s). te_teid (pdr_f_teid (pc_pdr c r)) = t \<longrightarrow>
        pdr_hash_teid (pc_pdr c r) = Some t)"
      using ok(4) q'(1) unfolding listed_ok_def by blast+
    have "pdr_hash_teid (pc_pdr c' r) = Some t"
      if "pdr_hash_teid (pc_pdr c' q) = Some t" "r \<in> set (pdrs_of c' s)" "te_teid (pdr_f_teid (pc_pdr c' r)) = t" for r t
    proof (cases "r = p")
      case True
      then have "t = 0" using that(3) by (simp add: c' zero_pdr_def zero_f_teid_def)
      then show ?thesis using that(1) assms(3) q' q'' by simp
    next
      case False
      then have "r \<in> set (pdrs_of c s)" "pc_pdr c' r = pc_pdr c r" using that(2) by (simp add: l, simp add: c')
      then show ?thesis using that(1,3) lo [of t] unfolding q'' by simp
    qed
    then show ?thesis using lo lo1 unfolding q'' by blast
  qed (simp add: c' zero_pdr_def)
  then have "listed_ok c' s" unfolding listed_ok_def by blast
  moreover have "pc_object_hash c' = pc_object_hash c" by (simp add: c')
  ultimately show ?thesis using ok(3) l p by (simp add: pdrs_ok_def)
qed

text \<open>
  A session whose identifiers are used up: the rule goes back to its pool, its TEID does not.
\<close>

lemma pdr_add_exhausted:
  assumes "pool_ok (pc_pdr_pool c)" "0 < pool_avail (pc_pdr_pool c)" "pool_ok (pc_teid_pool c)"
    and "pool_avail (ps_pdr_ids (pc_sess c s)) = 0"
  shows "if pool_avail (pc_teid_pool c) = 0 then ogs_pfcp_pdr_add s c = Abort
    else \<exists>c'. ogs_pfcp_pdr_add s c = Ret (c', None) \<and> pc_sess c' = pc_sess c \<and>
      pool_avail (pc_teid_pool c') = pool_avail (pc_teid_pool c) - 1 \<and> pool_ok (pc_teid_pool c') \<and>
      pool_avail (pc_pdr_pool c') = pool_avail (pc_pdr_pool c) \<and> pool_ok (pc_pdr_pool c') \<and>
      allocated (pc_pdr_pool c') = allocated (pc_pdr_pool c)"
proof -
  obtain pool p where a: "ogs_pool_alloc (pc_pdr_pool c) = (pool, Some p)" "p \<notin> allocated (pc_pdr_pool c)"
    "allocated pool = insert p (allocated (pc_pdr_pool c))" "pool_ok pool" "pool_size pool = pool_size (pc_pdr_pool c)"
    using alloc_Some [OF assms(1,2)] by blast
  note ids = alloc_None [OF assms(4)]
  show ?thesis
  proof (cases "pool_avail (pc_teid_pool c) = 0")
    case True
    with a(1) show ?thesis by (simp add: ogs_pfcp_pdr_add_def alloc_None)
  next
    case False
    then obtain tpool t where t: "ogs_pool_alloc (pc_teid_pool c) = (tpool, Some t)"
      "allocated tpool = insert t (allocated (pc_teid_pool c))" "pool_ok tpool" "pool_size tpool = pool_size (pc_teid_pool c)"
      "t \<notin> allocated (pc_teid_pool c)"
      using alloc_Some [OF assms(3)] by blast
    have av: "pool_avail tpool = pool_avail (pc_teid_pool c) - 1"
      using card_allocated [OF assms(3)] card_allocated [OF t(3)] t(2,4,5) by simp
    have f: "pool_ok (ogs_pool_free pool p)" "allocated (ogs_pool_free pool p) = allocated (pc_pdr_pool c)"
      "pool_size (ogs_pool_free pool p) = pool_size pool"
      using free_allocated [OF a(4), of p] a(2,3) by auto
    have "pool_avail (ogs_pool_free pool p) = pool_avail (pc_pdr_pool c)"
      using card_allocated [OF assms(1)] card_allocated [OF f(1)] f(2,3) a(5) by simp
    with False a(1) t(1) ids av f t(3) show ?thesis by (simp add: ogs_pfcp_pdr_add_def Let_def)
  qed
qed

text \<open>A client that asks for \<open>n\<close> more rules and ignores the refusals.\<close>

fun pdr_add_n :: "nat \<Rightarrow> nat \<Rightarrow> pfcp_ctx \<Rightarrow> pfcp_ctx exec" where
  "pdr_add_n 0 s c = Ret c"
| "pdr_add_n (Suc n) s c = exec_bind (ogs_pfcp_pdr_add s c) (\<lambda>(c', _). pdr_add_n n s c')"

lemma pdr_add_n_leak:
  assumes "pool_ok (pc_pdr_pool c)" "0 < pool_avail (pc_pdr_pool c)" "pool_ok (pc_teid_pool c)"
    and "pool_avail (ps_pdr_ids (pc_sess c s)) = 0" "n \<le> pool_avail (pc_teid_pool c)"
  shows "\<exists>c'. pdr_add_n n s c = Ret c' \<and> pc_sess c' = pc_sess c \<and> allocated (pc_pdr_pool c') = allocated (pc_pdr_pool c) \<and>
    pool_avail (pc_teid_pool c') = pool_avail (pc_teid_pool c) - n \<and>
    pool_ok (pc_pdr_pool c') \<and> pool_avail (pc_pdr_pool c') = pool_avail (pc_pdr_pool c) \<and> pool_ok (pc_teid_pool c')"
  using assms
proof (induction n arbitrary: c)
  case (Suc n)
  have "pool_avail (pc_teid_pool c) \<noteq> 0" using Suc.prems(5) by simp
  with pdr_add_exhausted [OF Suc.prems(1-4)] obtain c1 where c1: "ogs_pfcp_pdr_add s c = Ret (c1, None)"
    "pc_sess c1 = pc_sess c" "pool_avail (pc_teid_pool c1) = pool_avail (pc_teid_pool c) - 1" "pool_ok (pc_teid_pool c1)"
    "pool_avail (pc_pdr_pool c1) = pool_avail (pc_pdr_pool c)" "pool_ok (pc_pdr_pool c1)"
    "allocated (pc_pdr_pool c1) = allocated (pc_pdr_pool c)"
    by auto
  from Suc.IH [of c1] Suc.prems c1 show ?case by auto
qed simp

lemma pdr_add_n_append: "pdr_add_n (n + k) s c = exec_bind (pdr_add_n n s c) (pdr_add_n k s)"
proof (induction n arbitrary: c)
  case (Suc n)
  show ?case by (cases "ogs_pfcp_pdr_add s c") (auto simp: Suc.IH)
qed simp

section \<open>A context with one rule\<close>

lemma init_sess_ok: "sess_ok (ogs_pfcp_context_init n r seed) s"
  by (simp add: sess_ok_def pdrs_ok_def fars_ok_def urrs_ok_def qers_ok_def objs_ok_def listed_ok_def
      ogs_pfcp_context_init_def Let_def pdrs_of_def ogs_pfcp_pool_init_def pool_ok_init hash_ok_make)

lemma alloc_init:
  assumes "0 < n"
  obtains p m where "ogs_pool_alloc (ogs_pool_init n seed) = (p, Some m)"
proof -
  have "0 < pool_avail (ogs_pool_init n seed)" using assms by (simp add: ogs_pool_init_def)
  from alloc_Some [OF pool_ok_init this] that show ?thesis by blast
qed

lemma one_rule:
  obtains c p where "sess_ok c 0" "pdrs_of c 0 = [p]" "pdr_hash_teid (pc_pdr c p) = Some 5"
    "te_teid (pdr_f_teid (pc_pdr c p)) = 5" "ogs_pfcp_object_find_by_teid 5 c = Some (Obj_Sess 0)" "pdr_rules (pc_pdr c p) = []"
proof -
  define c0 where "c0 = ogs_pfcp_context_init 1 (\<lambda>_. 0) 7"
  have ok: "sess_ok c0 0" by (simp add: c0_def init_sess_ok)
  then have ok0: "pdrs_ok c0 0" by (simp add: sess_ok_def)
  have e: "pdrs_of c0 0 = []" "hash_ok (pc_object_hash c0)"
    by (simp_all add: c0_def ogs_pfcp_context_init_def Let_def pdrs_of_def ogs_pfcp_pool_init_def hash_ok_make)
  have n: "pc_pdr_pool c0 = ogs_pool_init 16 7" "pc_teid_pool c0 = ogs_pool_init 16 7"
    "ps_pdr_ids (pc_sess c0 0) = ogs_pool_init 16 7"
    by (simp_all add: c0_def ogs_pfcp_context_init_def Let_def ogs_pfcp_pool_init_def OGS_MAX_NUM_OF_PDR_def)
  obtain pl p where al: "ogs_pool_alloc (ogs_pool_init 16 7) = (pl, Some p)" using alloc_init [of 16 7] by auto
  then have "\<exists>c1. ogs_pfcp_pdr_add 0 c0 = Ret (c1, Some p)"
    by (simp add: ogs_pfcp_pdr_add_def n Let_def)
  then obtain c1 where add: "ogs_pfcp_pdr_add 0 c0 = Ret (c1, Some p)" by blast
  from pdr_add_ok [OF ok0 add] e have c1: "pdrs_ok c1 0" "pdrs_of c1 0 = [p]" by simp_all
  obtain pool tpool ids t i where eq: "c1 = c0\<lparr>pc_pdr_pool := pool, pc_teid_pool := tpool,
       pc_pdr := (pc_pdr c0)(p := zero_pdr\<lparr>pdr_src_if := OGS_PFCP_INTERFACE_UNKNOWN, pdr_teid_node := t,
         pdr_teid := pc_teids c0 ! t, pdr_id_node := i, pdr_id := sequence_id i, pdr_sess := 0\<rparr>),
       pc_sess := (pc_sess c0)(0 := (pc_sess c0 0)\<lparr>ps_pdr_ids := ids, ps_pdr_list := pdrs_of c0 0 @ [p]\<rparr>)\<rparr>"
    using pdr_add_Some [OF add] by metis
  define f where "f = zero_f_teid\<lparr>te_ipv4 := True, te_teid := 5\<rparr>"
  define c where "c = c1\<lparr>pc_pdr := (pc_pdr c1)(p := (pc_pdr c1 p)\<lparr>pdr_f_teid := f, pdr_f_teid_len := 9, pdr_hash_teid := Some 5\<rparr>),
    pc_object_hash := hash_set (pc_object_hash c1) (key32 5) (Some (Obj_Sess 0))\<rparr>"
  have f5: "te_teid f = 5" by (simp add: f_def)
  have pp: "pdr_sess (pc_pdr c1 p) = 0" "pdr_rules (pc_pdr c1 p) = []" "pc_object_hash c1 = pc_object_hash c0"
    by (simp_all add: eq zero_pdr_def)
  have l: "pdrs_of c 0 = [p]" using c1(2) by (simp add: c_def pdrs_of_def)
  have "listed_ok c 0" unfolding listed_ok_def l by (simp add: c_def f5 pp)
  with c1 l e(2) have "pdrs_ok c 0" by (simp add: pdrs_ok_def objs_ok_def c_def pp pdrs_of_def)
  moreover have "fars_ok 0 c" "urrs_ok 0 c" "qers_ok 0 c" "ps_bar (pc_sess c 0) = None"
    using ok by (simp_all add: sess_ok_def fars_ok_def urrs_ok_def qers_ok_def c_def eq)
      (simp add: c0_def ogs_pfcp_context_init_def Let_def ogs_pfcp_pool_init_def)
  ultimately have "sess_ok c 0" by (simp add: sess_ok_def)
  moreover have "ogs_pfcp_object_find_by_teid 5 c = Some (Obj_Sess 0)"
    using e(2) by (simp add: c_def ogs_pfcp_object_find_by_teid_def pp)
  ultimately show thesis using that l by (simp add: c_def f5 pp)
qed

section \<open>Properties\<close>

text \<open>
  Giving a rule its precedence keeps the rules of a session in order of precedence, so the
  first rule of the list that matches a packet is one of least precedence value among all that
  match; no rule is lost or duplicated and no other rule changes.
\<close>

theorem pdr_reorder_priority:
  assumes "distinct (pdrs_of c s)" "p \<in> set (pdrs_of c s)" "pdr_sess (pc_pdr c p) = s"
    and "sorted (map (\<lambda>q. pdr_precedence (pc_pdr c q)) (remove1 p (pdrs_of c s)))"
  shows "let c' = ogs_pfcp_pdr_reorder_by_precedence p n c; prec = (\<lambda>q. pdr_precedence (pc_pdr c' q)) in
    sorted (map prec (pdrs_of c' s)) \<and> prec p = n \<and> (\<forall>q. q \<noteq> p \<longrightarrow> pc_pdr c' q = pc_pdr c q) \<and>
    mset (pdrs_of c' s) = mset (pdrs_of c s) \<and>
    (\<forall>P q r. find P (pdrs_of c' s) = Some q \<and> r \<in> set (pdrs_of c' s) \<and> P r \<longrightarrow> prec q \<le> prec r)"
proof -
  define c' where "c' = ogs_pfcp_pdr_reorder_by_precedence p n c"
  define f where "f = (\<lambda>q. pdr_precedence (pc_pdr c' q))"
  define ys where "ys = remove1 p (pdrs_of c s)"
  have d: "pc_pdr c' = (pc_pdr c)(p := (pc_pdr c p)\<lparr>pdr_precedence := n\<rparr>)"
    by (simp add: c'_def ogs_pfcp_pdr_reorder_by_precedence_def Let_def update_sess_def update_pdr_def)
  have l: "pdrs_of c' s = ogs_list_insert_sorted (\<lambda>x y. precedence_compare (pc_pdr c' x) (pc_pdr c' y)) p ys"
    unfolding d ys_def
    by (simp add: c'_def ogs_pfcp_pdr_reorder_by_precedence_def Let_def update_sess_def update_pdr_def assms(3) pdrs_of_def
        cong: if_cong)
  have "p \<notin> set ys" using assms(1) by (simp add: ys_def)
  then have "map f ys = map (\<lambda>q. pdr_precedence (pc_pdr c q)) ys" by (auto simp: f_def d)
  then have so: "sorted (map f ys)" using assms(4) by (simp only: ys_def)
  have sp: "pdrs_of c' s = takeWhile (\<lambda>y. f y \<le> f p) ys @ p # dropWhile (\<lambda>y. f y \<le> f p) ys"
    unfolding l by (rule insert_sorted_split [OF so]) (simp add: precedence_compare_def f_def)
  then have s': "sorted (map f (pdrs_of c' s))" using sorted_insert_split [OF so] by simp
  have "mset (pdrs_of c' s) = add_mset p (mset ys)"
    unfolding sp by (metis mset.simps(2) mset_append takeWhile_dropWhile_id union_mset_add_mset_right)
  also have "\<dots> = mset (pdrs_of c s)" using assms(2) by (simp add: ys_def)
  finally have m: "mset (pdrs_of c' s) = mset (pdrs_of c s)" .
  have "\<forall>P q r. find P (pdrs_of c' s) = Some q \<and> r \<in> set (pdrs_of c' s) \<and> P r \<longrightarrow> f q \<le> f r"
    using find_sorted_least [OF s'] by blast
  with s' m show ?thesis by (simp add: c'_def [symmetric] f_def [symmetric]) (simp add: f_def d)
qed

theorem pdr_reorder_priority_witness:
  "let c = (ogs_pfcp_context_init 1 (\<lambda>_. 0) 7)
       \<lparr>pc_sess := (\<lambda>_. (ogs_pfcp_pool_init 7)\<lparr>ps_pdr_list := [3, 5, 8]\<rparr>),
        pc_pdr := (\<lambda>q. zero_pdr\<lparr>pdr_precedence := (if q = 3 then 10 else if q = 5 then 20 else 0)\<rparr>)\<rparr>
   in find (\<lambda>_. True) (pdrs_of (ogs_pfcp_pdr_reorder_by_precedence 8 15 c) 0) = Some 3 \<and>
     mset (pdrs_of (ogs_pfcp_pdr_reorder_by_precedence 8 15 c) 0) = {#3, 5, 8#}"
proof -
  define c where "c = (ogs_pfcp_context_init 1 (\<lambda>_. 0) 7)
       \<lparr>pc_sess := (\<lambda>_. (ogs_pfcp_pool_init 7)\<lparr>ps_pdr_list := [3, 5, 8]\<rparr>),
        pc_pdr := (\<lambda>q. zero_pdr\<lparr>pdr_precedence := (if q = 3 then 10 else if q = 5 then 20 else 0)\<rparr>)\<rparr>"
  have l: "pdrs_of c 0 = [3, 5, 8]" by (simp add: c_def pdrs_of_def)
  have "pdr_sess (pc_pdr c 8) = 0" "sorted (map (\<lambda>q. pdr_precedence (pc_pdr c q)) (remove1 8 (pdrs_of c 0)))"
    by (simp_all add: c_def zero_pdr_def pdrs_of_def)
  from pdr_reorder_priority [OF _ _ this, of 15]
  have "mset (pdrs_of (ogs_pfcp_pdr_reorder_by_precedence 8 15 c) 0) = mset (pdrs_of c 0)"
    by (simp add: l Let_def)
  moreover have "find (\<lambda>_. True) (pdrs_of (ogs_pfcp_pdr_reorder_by_precedence 8 15 c) 0) = Some 3"
    by (simp add: ogs_pfcp_pdr_reorder_by_precedence_def Let_def update_sess_def update_pdr_def pdrs_of_def c_def
        zero_pdr_def precedence_compare_def)
  ultimately show ?thesis unfolding Let_def c_def [symmetric] by (simp add: l)
qed

text \<open>
  Removing a rule takes its TEID out of the table exactly when no rule left in the session
  has it, leaves every other TEID alone, and gives the rule, its identifier and its TEID node
  back to their pools; the invariant of the session holds again.
\<close>

theorem pdr_remove_teid:
  assumes "pdrs_ok c s" "p \<in> set (pdrs_of c s)"
  shows "let c' = ogs_pfcp_pdr_remove p c in
    pdrs_ok c' s \<and> pdrs_of c' s = remove1 p (pdrs_of c s) \<and>
    allocated (pc_pdr_pool c') = allocated (pc_pdr_pool c) - {p} \<and>
    allocated (pc_teid_pool c') = allocated (pc_teid_pool c) - {pdr_teid_node (pc_pdr c p)} \<and>
    (\<forall>u. ogs_pfcp_object_find_by_teid u c' =
       (if pdr_hash_teid (pc_pdr c p) = Some u \<and>
           (\<forall>q \<in> set (remove1 p (pdrs_of c s)). te_teid (pdr_f_teid (pc_pdr c q)) \<noteq> u) then None
        else ogs_pfcp_object_find_by_teid u c))"
proof -
  note st = pdr_remove_step [OF assms refl]
  have "te_teid (pdr_f_teid (pc_pdr (ogs_pfcp_pdr_remove p c) q)) = te_teid (pdr_f_teid (pc_pdr c q))" for q
    using same_but_rules_fields(1) [OF st(3)] by simp
  with st(1,2,5-7) show ?thesis by (simp add: Let_def)
qed

theorem pdr_remove_teid_witness:
  "\<exists>c p. ogs_pfcp_object_find_by_teid 5 c = Some (Obj_Sess 0) \<and>
     ogs_pfcp_object_find_by_teid 5 (ogs_pfcp_pdr_remove p c) = None"
proof -
  obtain c p where c: "sess_ok c 0" "pdrs_of c 0 = [p]" "pdr_hash_teid (pc_pdr c p) = Some 5"
    "ogs_pfcp_object_find_by_teid 5 c = Some (Obj_Sess 0)"
    using one_rule by metis
  then have "pdrs_ok c 0" by (simp add: sess_ok_def)
  from pdr_remove_teid [OF this, of p] c(2-4) have "ogs_pfcp_object_find_by_teid 5 (ogs_pfcp_pdr_remove p c) = None"
    by (simp add: Let_def)
  with c(4) show ?thesis by blast
qed

text \<open>
  Clearing a session does not fail, empties its lists, gives every object and every TEID
  node back, and leaves no TEID of its rules in the table; the TEIDs and the objects of the
  other sessions stay.
\<close>

theorem sess_clear_releases:
  assumes "sess_ok c s"
  shows "\<exists>c'. ogs_pfcp_sess_clear s c = Ret c' \<and> cleared s c c'"
proof -
  define d where "d = ogs_pfcp_qer_remove_all s (ogs_pfcp_urr_remove_all s (ogs_pfcp_far_remove_all s
             (ogs_pfcp_pdr_remove_all s c)))"
  have b: "ps_bar (pc_sess d s) = ps_bar (pc_sess c s)" "pc_bar d = pc_bar c"
    and cl: "cleared s c (update_sess s (\<lambda>ps. ps\<lparr>ps_bar := None\<rparr>) d)"
    using sess_clear_lists [OF assms] by (simp_all add: d_def Let_def)
  show ?thesis
  proof (cases "ps_bar (pc_sess d s)")
    case None
    then have "(pc_sess d)(s := (pc_sess d s)\<lparr>ps_bar := None\<rparr>) = pc_sess d"
      by (simp add: fun_upd_idem pfcp_sess.equality)
    then have "update_sess s (\<lambda>ps. ps\<lparr>ps_bar := None\<rparr>) d = d" by (simp add: update_sess_def)
    with cl have "cleared s c d" by simp
    moreover have "ogs_pfcp_sess_clear s c = Ret d" by (simp add: ogs_pfcp_sess_clear_def d_def [symmetric] Let_def None)
    ultimately show ?thesis by blast
  next
    case (Some x)
    then have "bar_sess (pc_bar d x) = Some s" using assms b by (simp add: sess_ok_def)
    from cleared_bar [OF cl this] Some show ?thesis
      by (auto simp: ogs_pfcp_sess_clear_def d_def [symmetric] Let_def)
  qed
qed

theorem sess_clear_releases_witness:
  "\<exists>c c'. ogs_pfcp_sess_clear 0 c = Ret c' \<and> ogs_pfcp_object_find_by_teid 5 c = Some (Obj_Sess 0) \<and>
     ogs_pfcp_object_find_by_teid 5 c' = None"
proof -
  obtain c p where c: "sess_ok c 0" "pdrs_of c 0 = [p]" "pdr_hash_teid (pc_pdr c p) = Some 5"
    "ogs_pfcp_object_find_by_teid 5 c = Some (Obj_Sess 0)"
    using one_rule by metis
  from sess_clear_releases [OF c(1)] obtain c' where "ogs_pfcp_sess_clear 0 c = Ret c'" "cleared 0 c c'" by blast
  moreover from this c(2,3) have "ogs_pfcp_object_find_by_teid 5 c' = None" by (auto simp: cleared_def)
  ultimately show ?thesis using c(4) by blast
qed

text \<open>
  When the sixteen rule identifiers of a session are in use, each further request for a
  rule is refused but keeps the TEID it has taken: after as many requests as there are free
  TEIDs none is free while no rule has been added, and the next request trips the assertion
  that ends the process.
\<close>

theorem pdr_add_teid_leak:
  assumes "pool_ok (pc_pdr_pool c)" "0 < pool_avail (pc_pdr_pool c)" "pool_ok (pc_teid_pool c)"
    and "pool_avail (ps_pdr_ids (pc_sess c s)) = 0"
  shows "(\<exists>c'. pdr_add_n (pool_avail (pc_teid_pool c)) s c = Ret c' \<and> pdrs_of c' s = pdrs_of c s \<and>
      allocated (pc_pdr_pool c') = allocated (pc_pdr_pool c) \<and> pool_avail (pc_teid_pool c') = 0) \<and>
    pdr_add_n (pool_avail (pc_teid_pool c) + 1) s c = Abort"
proof -
  obtain c' where c': "pdr_add_n (pool_avail (pc_teid_pool c)) s c = Ret c'" "pc_sess c' = pc_sess c"
    "allocated (pc_pdr_pool c') = allocated (pc_pdr_pool c)" "pool_avail (pc_teid_pool c') = 0"
    "pool_ok (pc_pdr_pool c')" "pool_avail (pc_pdr_pool c') = pool_avail (pc_pdr_pool c)" "pool_ok (pc_teid_pool c')"
    using pdr_add_n_leak [OF assms order_refl] by auto
  have "ogs_pfcp_pdr_add s c' = Abort"
    using pdr_add_exhausted [of c' s] c' assms(2,4) by simp
  then have "pdr_add_n (pool_avail (pc_teid_pool c) + 1) s c = Abort"
    unfolding pdr_add_n_append by (simp add: c'(1))
  with c' show ?thesis by (auto simp: pdrs_of_def)
qed

theorem pdr_add_teid_leak_witness:
  "let c = (ogs_pfcp_context_init 1 (\<lambda>_. 0) 7)\<lparr>pc_sess := (\<lambda>_. (ogs_pfcp_pool_init 7)\<lparr>ps_pdr_ids := ogs_pool_init 0 7\<rparr>)\<rparr>
   in pdr_add_n 17 0 c = Abort"
proof -
  define c where "c = (ogs_pfcp_context_init 1 (\<lambda>_. 0) 7)\<lparr>pc_sess := (\<lambda>_. (ogs_pfcp_pool_init 7)\<lparr>ps_pdr_ids := ogs_pool_init 0 7\<rparr>)\<rparr>"
  have p: "pc_pdr_pool c = ogs_pool_init 16 7" "pc_teid_pool c = ogs_pool_init 16 7"
    by (simp_all add: c_def ogs_pfcp_context_init_def Let_def OGS_MAX_NUM_OF_PDR_def)
  have av: "pool_avail (ogs_pool_init 16 7) = 16" by (simp add: ogs_pool_init_def)
  have "pool_avail (ps_pdr_ids (pc_sess c 0)) = 0" by (simp add: c_def ogs_pool_init_def)
  from conjunct2 [OF pdr_add_teid_leak [of c 0, unfolded p av, OF pool_ok_init _ pool_ok_init this]]
  have "pdr_add_n 17 0 c = Abort" by simp
  then show ?thesis unfolding Let_def c_def [symmetric] .
qed

text \<open>
  Restoring a TEID keeps every identifier in the pool exactly once, and when the swap takes
  place the restored TEID is in the node the rule holds and in no other, so it is not handed
  to another rule while this one lives.
\<close>

theorem teid_swap_exclusive:
  assumes "teids_ok c" "ogs_pfcp_pdr_swap_teid p c = Ret (c', cause)"
    and "pdr_teid_node (pc_pdr c p) < pool_size (pc_teid_pool c)"
    and "t = te_teid (pdr_f_teid (pc_pdr c p))" "i = pc_teid_index c ! unat t"
  shows "teids_ok c' \<and> set (pc_teids c') = set (pc_teids c) \<and>
    (cause = OGS_PFCP_CAUSE_REQUEST_ACCEPTED \<and> pc_teids c ! i = t \<longrightarrow>
       (\<forall>n < pool_size (pc_teid_pool c'). pc_teids c' ! n = t \<longleftrightarrow> n = pdr_teid_node (pc_pdr c' p)))"
proof (cases "c' = c")
  case False
  then have c': "c' = c\<lparr>pc_teids := (pc_teids c)[i := pc_teids c ! pdr_teid_node (pc_pdr c p),
      pdr_teid_node (pc_pdr c p) := pc_teids c ! i]\<rparr>" "t = pc_teids c ! i" "i < pool_size (pc_teid_pool c)"
    using assms(2) unfolding ogs_pfcp_pdr_swap_teid_def assms(4,5) by (auto simp: Let_def split: if_splits)
  have l: "length (pc_teids c) = pool_size (pc_teid_pool c)" "distinct (pc_teids c)"
    using assms(1) by (simp_all add: teids_ok_def)
  note sw = swap_positions [OF l(2), of i "pdr_teid_node (pc_pdr c p)", unfolded l(1), OF c'(3) assms(3)]
  show ?thesis using sw l(1) c' by (simp add: teids_ok_def)
next
  case True
  have l: "length (pc_teids c) = pool_size (pc_teid_pool c)" "distinct (pc_teids c)"
    using assms(1) by (simp_all add: teids_ok_def)
  have "i = pdr_teid_node (pc_pdr c p)" if a: "cause = OGS_PFCP_CAUSE_REQUEST_ACCEPTED" "pc_teids c ! i = t"
  proof -
    have i: "i < pool_size (pc_teid_pool c)"
      and "(pc_teids c)[i := pc_teids c ! pdr_teid_node (pc_pdr c p), pdr_teid_node (pc_pdr c p) := t] = pc_teids c"
      using assms(2) a True unfolding ogs_pfcp_pdr_swap_teid_def assms(4,5)
      by (auto simp: Let_def OGS_PFCP_CAUSE_REQUEST_ACCEPTED_def OGS_PFCP_CAUSE_MANDATORY_IE_INCORRECT_def
          split: if_splits dest!: arg_cong [where f = pc_teids])
    then have "pc_teids c ! pdr_teid_node (pc_pdr c p) = t"
      using assms(3) l(1) by (metis length_list_update nth_list_update_eq)
    with a(2) i l assms(3) show ?thesis by (metis nth_eq_iff_index_eq)
  qed
  moreover have "pc_teids c ! n = pc_teids c ! m \<longleftrightarrow> n = m"
    if "n < pool_size (pc_teid_pool c)" "m < pool_size (pc_teid_pool c)" for n m
    using that l by (simp add: nth_eq_iff_index_eq)
  ultimately show ?thesis using True assms(1,3) by auto
qed

theorem teid_swap_exclusive_witness:
  "let c = (ogs_pfcp_context_init 1 (\<lambda>_. 0) 7)\<lparr>pc_teid_pool := ogs_pool_init 3 7, pc_teids := [2, 3, 1],
         pc_teid_index := [0, 2, 0, 1], pc_pdr := (\<lambda>_. zero_pdr\<lparr>pdr_f_teid := zero_f_teid\<lparr>te_teid := 1\<rparr>, pdr_f_teid_len := 9\<rparr>)\<rparr>
   in \<exists>c'. ogs_pfcp_pdr_swap_teid 4 c = Ret (c', OGS_PFCP_CAUSE_REQUEST_ACCEPTED) \<and> pc_teids c' ! 0 = 1 \<and> teids_ok c'"
proof -
  define c where "c = (ogs_pfcp_context_init 1 (\<lambda>_. 0) 7)\<lparr>pc_teid_pool := ogs_pool_init 3 7, pc_teids := [2, 3, 1],
         pc_teid_index := [0, 2, 0, 1], pc_pdr := (\<lambda>_. zero_pdr\<lparr>pdr_f_teid := zero_f_teid\<lparr>te_teid := 1\<rparr>, pdr_f_teid_len := 9\<rparr>)\<rparr>"
  have ok: "teids_ok c" by (simp add: c_def teids_ok_def ogs_pool_init_def)
  define c' where "c' = c\<lparr>pc_teids := [1, 3, 2]\<rparr>"
  have sw: "ogs_pfcp_pdr_swap_teid 4 c = Ret (c', OGS_PFCP_CAUSE_REQUEST_ACCEPTED)"
    by (simp add: ogs_pfcp_pdr_swap_teid_def Let_def c'_def c_def zero_pdr_def zero_f_teid_def ogs_pool_init_def)
  have "pdr_teid_node (pc_pdr c 4) < pool_size (pc_teid_pool c)"
    by (simp add: c_def zero_pdr_def ogs_pool_init_def)
  from teid_swap_exclusive [OF ok sw this refl refl] have "teids_ok c'" by simp
  moreover have "pc_teids c' ! 0 = 1" by (simp add: c'_def)
  ultimately show ?thesis using sw unfolding Let_def c_def [symmetric] by blast
qed

section \<open>Names that outlive their objects\<close>

text \<open>A rule keeps its pointer to a FAR that has gone back to its pool.\<close>

lemma far_remove_dangling:
  assumes "fars_ok s c" "x \<in> set (ps_far_list (pc_sess c s))" "pdr_far (pc_pdr c p) = Some x"
  shows "pdr_far (pc_pdr (ogs_pfcp_far_remove x c) p) = Some x \<and>
    x \<notin> allocated (pc_far_pool (ogs_pfcp_far_remove x c))"
  using fars.remove_law [OF assms(1,2)] assms(3)
  by (simp add: ogs_pfcp_far_remove_def Let_def update_sess_def)

text \<open>
  Listing a rule under a new TEID takes the old one out of the table, also when another rule of
  the session still has it.
\<close>

lemma teid_rehash_unbinds_sibling:
  assumes "hash_ok (pc_object_hash c)" "\<not> te_ch (pdr_f_teid (pc_pdr c p))" "pdr_hash_teid (pc_pdr c p) = Some t"
    and "te_teid (pdr_f_teid (pc_pdr c p)) \<noteq> t" "q \<noteq> p" "te_teid (pdr_f_teid (pc_pdr c q)) = t"
  shows "\<exists>c'. ogs_pfcp_object_teid_hash_set True p c = Ret (c', OGS_PFCP_CAUSE_REQUEST_ACCEPTED) \<and>
    pc_pdr c' q = pc_pdr c q \<and> ogs_pfcp_object_find_by_teid t c' = None"
  using assms by (simp add: ogs_pfcp_object_teid_hash_set_def ogs_pfcp_object_find_by_teid_def Let_def)

text \<open>
  A rule with an F-TEID that has not been listed (a request that fails half way leaves such
  rules) keeps the TEID of a listed one in the table: it is still there, with the session as its
  object, when both are gone.
\<close>

lemma pdr_remove_hash:
  "\<exists>f. (\<forall>q. same_but_rules (f q) (pc_pdr c q)) \<and> pc_pdr (ogs_pfcp_pdr_remove p c) = f \<and>
     pc_object_hash (ogs_pfcp_pdr_remove p c) = (case pdr_hash_teid (pc_pdr c p) of None \<Rightarrow> pc_object_hash c
       | Some k \<Rightarrow> if \<exists>q \<in> set (remove1 p (pdrs_of c (pdr_sess (pc_pdr c p)))).
             te_teid (pdr_f_teid (pc_pdr c q)) = te_teid (pdr_f_teid (pc_pdr c p))
           then pc_object_hash c else hash_set (pc_object_hash c) (key32 k) None)"
proof -
  obtain f pool where f: "\<And>q. same_but_rules (f q) (pc_pdr c q)"
    and eq: "ogs_pfcp_pdr_remove p c =
      (let d = pc_pdr c p; s = pdr_sess d; ps = pc_sess c s in
       c\<lparr>pc_pdr := f, pc_rule_pool := pool,
         pc_sess := (pc_sess c)(s := ps\<lparr>ps_pdr_list := remove1 p (ps_pdr_list ps),
           ps_pdr_ids := ogs_pool_free (ps_pdr_ids ps) (pdr_id_node d)\<rparr>),
         pc_object_hash := (case pdr_hash_teid d of None \<Rightarrow> pc_object_hash c
           | Some k \<Rightarrow> if \<exists>q \<in> set (remove1 p (pdrs_of c s)). te_teid (pdr_f_teid (pc_pdr c q)) = te_teid (pdr_f_teid d)
               then pc_object_hash c else hash_set (pc_object_hash c) (key32 k) None),
         pc_teid_pool := ogs_pool_free (pc_teid_pool c) (pdr_teid_node d),
         pc_pdr_pool := ogs_pool_free (pc_pdr_pool c) p\<rparr>)"
    using pdr_remove_eq [of c p] by blast
  from f show ?thesis unfolding eq Let_def by (intro exI [of _ f] conjI) simp_all
qed

lemma unlisted_sibling_keeps_teid:
  assumes "pdr_sess (pc_pdr c p) = s" "q \<in> set (pdrs_of c s)" "q \<noteq> p"
    and "pdr_hash_teid (pc_pdr c p) = Some t" "te_teid (pdr_f_teid (pc_pdr c p)) = t"
    and "te_teid (pdr_f_teid (pc_pdr c q)) = t" "pdr_hash_teid (pc_pdr c q) = None"
  shows "ogs_pfcp_object_find_by_teid t (ogs_pfcp_pdr_remove q (ogs_pfcp_pdr_remove p c)) =
    ogs_pfcp_object_find_by_teid t c"
proof -
  define d where "d = ogs_pfcp_pdr_remove p c"
  have "q \<in> set (remove1 p (pdrs_of c s))" using assms(2,3) by (metis in_set_remove1)
  then have "\<exists>q \<in> set (remove1 p (pdrs_of c (pdr_sess (pc_pdr c p)))).
      te_teid (pdr_f_teid (pc_pdr c q)) = te_teid (pdr_f_teid (pc_pdr c p))" using assms(1,5,6) by blast
  then have d: "pc_object_hash d = pc_object_hash c" "same_but_rules (pc_pdr d q) (pc_pdr c q)"
    using pdr_remove_hash [of c p] assms(4) by (auto simp: d_def)
  have "pdr_hash_teid (pc_pdr d q) = None" using same_but_rules_fields(3) [OF d(2)] assms(7) by simp
  then have "pc_object_hash (ogs_pfcp_pdr_remove q d) = pc_object_hash d"
    using pdr_remove_hash [of d q] by auto
  with d show ?thesis by (simp add: ogs_pfcp_object_find_by_teid_def d_def)
qed

end
