(* ===== verification/Ogs_Ipsubnet.thy ===== *)
theory Ogs_Ipsubnet
  imports Route_Trie "HOL-Library.Signed_Division"
begin

text \<open>
  The parser of subnets in \<^verbatim>\<open>lib/core/ogs-sockaddr.c\<close>: \<^verbatim>\<open>ogs_ipsubnet\<close> turns an address and
  an optional mask or number of bits into the subnet that a framed route, a UE pool or a range
  is made of. Strings are the characters before the terminating zero. The words of a subnet are
  numbers in host order here (the code keeps them in network order); \<^verbatim>\<open>inet_pton\<close> belongs to
  the C library and is an argument, one for each family.
\<close>

section \<open>The characters of a number\<close>

definition char_code :: "char \<Rightarrow> nat" where
  "char_code x = of_char x"

definition is_digit :: "char \<Rightarrow> bool" where
  "is_digit x \<longleftrightarrow> 48 \<le> char_code x \<and> char_code x \<le> 57"

definition is_space :: "char \<Rightarrow> bool" where
  "is_space x \<longleftrightarrow> char_code x = 32 \<or> (9 \<le> char_code x \<and> char_code x \<le> 13)"

definition digits_value :: "string \<Rightarrow> nat" where
  "digits_value s = foldl (\<lambda>n x. 10 * n + (char_code x - 48)) 0 s"

text \<open>
  \<^verbatim>\<open>strtol(s, &endptr, 10)\<close>: the number and what follows it. A number out of the range of
  \<^verbatim>\<open>long\<close> saturates in C; it fails the same comparisons here.
\<close>

definition strtol10 :: "string \<Rightarrow> int \<times> string" where
  "strtol10 s =
     (let s1 = dropWhile is_space s;
          (neg, s2) = (case s1 of [] \<Rightarrow> (False, s1)
             | x # xs \<Rightarrow> if x = CHR ''-'' then (True, xs) else if x = CHR ''+'' then (False, xs) else (False, s1));
          ds = takeWhile is_digit s2
      in if ds = [] then (0, s)
         else ((if neg then - int (digits_value ds) else int (digits_value ds)), dropWhile is_digit s2))"

section \<open>Operations\<close>

text \<open>
  \<^verbatim>\<open>looks_like_ip\<close> and \<^verbatim>\<open>parse_network\<close>, the network syntax \<^verbatim>\<open>9.67\<close>. Its loop has the first
  word of the subnet and of the mask as state.
\<close>

definition looks_like_ip :: "string \<Rightarrow> bool" where
  "looks_like_ip s \<longleftrightarrow> s \<noteq> [] \<and>
     (CHR '':'' \<in> set s \<or> dropWhile (\<lambda>x. x = CHR ''.'' \<or> is_digit x) s = [])"

function parse_octets :: "string \<Rightarrow> int \<Rightarrow> u32 \<Rightarrow> u32 \<Rightarrow> (u32 \<times> u32) option" where
  "parse_octets s shift sub msk =
     (case s of [] \<Rightarrow> Some (sub, msk)
      | x # xs \<Rightarrow>
          if \<not> is_digit x then None
          else (let ds = takeWhile is_digit s; t = dropWhile is_digit s in
            if t \<noteq> [] \<and> hd t \<noteq> CHR ''.'' then None
            else if shift < 0 then None
            else if digits_value ds > 255 then None
            else parse_octets (tl t) (shift - 8)
                   (sub OR push_bit (nat shift) (of_nat (digits_value ds)))
                   (msk OR push_bit (nat shift) 0xff)))"
  by pat_completeness auto
termination
proof (relation "measure (\<lambda>(s, shift, sub, msk). length s)")
  fix s :: string and shift :: int and sub msk :: u32 and x xs ds t
  assume "s = x # xs" "\<not> \<not> is_digit x" "t = dropWhile is_digit s"
  then have "length t < length s"
    by (simp add: length_dropWhile_le less_Suc_eq_le)
  then show "((tl t, shift - 8, sub OR push_bit (nat shift) (of_nat (digits_value ds)),
      msk OR push_bit (nat shift) 255), s, shift, sub, msk) \<in> measure (\<lambda>(s, shift, sub, msk). length s)"
    by simp
qed simp

declare parse_octets.simps [simp del]

definition parse_network :: "ipsubnet \<Rightarrow> string \<Rightarrow> ipsubnet option" where
  "parse_network r s =
     (if \<not> length s < 16 then None
      else (case parse_octets s 24 0 0 of None \<Rightarrow> None
        | Some (sub, msk) \<Rightarrow>
            Some (r\<lparr>ip_sub := (ip_sub r)[0 := sub], ip_mask := (ip_mask r)[0 := msk], ip_family := AF_INET\<rparr>)))"

text \<open>The IPv4-mapped addresses are those whose first 80 bits are zero and the next 16 are one.\<close>

definition v4_mapped :: "u32 list \<Rightarrow> bool" where
  "v4_mapped ws \<longleftrightarrow> ws ! 0 = 0 \<and> ws ! 1 = 0 \<and> ws ! 2 = 0xffff"

definition parse_ip ::
  "(string \<Rightarrow> u32 list option) \<Rightarrow> (string \<Rightarrow> u32 option) \<Rightarrow> ipsubnet \<Rightarrow> string \<Rightarrow> bool \<Rightarrow> ipsubnet option" where
  "parse_ip pton6 pton4 r s network_allowed =
     (case pton6 s of
        Some ws \<Rightarrow> if v4_mapped ws then None else Some (r\<lparr>ip_sub := ws, ip_family := AF_INET6\<rparr>)
      | None \<Rightarrow>
          (case pton4 s of
             Some w \<Rightarrow> Some (r\<lparr>ip_sub := (ip_sub r)[0 := w], ip_family := AF_INET\<rparr>)
           | None \<Rightarrow> if network_allowed then parse_network r s else None))"

text \<open>
  The mask of a number of bits: whole words while more than 32 are left, then the bits of one
  word from the top. \<^verbatim>\<open>cur_bit_value\<close> is an \<^verbatim>\<open>int32_t\<close> that starts at the least integer, so
  halving it keeps its sign.
\<close>

fun or_bits :: "nat \<Rightarrow> int \<Rightarrow> u32 \<Rightarrow> u32" where
  "or_bits 0 cur msk = msk"
| "or_bits (Suc n) cur msk = or_bits n (cur sdiv 2) (msk OR word_of_int cur)"

function fill_mask :: "nat \<Rightarrow> nat \<Rightarrow> u32 list \<Rightarrow> u32 list" where
  "fill_mask bits entry msk =
     (if bits > 32 then fill_mask (bits - 32) (entry + 1) (msk[entry := 0xffffffff])
      else msk[entry := or_bits bits (- (2 ^ 31)) (msk ! entry)])"
  by pat_completeness auto
termination
  by (relation "measure (\<lambda>(bits, entry, msk). bits)") auto

declare fill_mask.simps [simp del]

definition fix_subnet :: "ipsubnet \<Rightarrow> ipsubnet" where
  "fix_subnet r = r\<lparr>ip_sub := map (\<lambda>i. ip_sub r ! i AND ip_mask r ! i) [0..<4]\<rparr>"

definition ogs_ipsubnet ::
  "(string \<Rightarrow> u32 list option) \<Rightarrow> (string \<Rightarrow> u32 option) \<Rightarrow> ipsubnet \<Rightarrow> string \<Rightarrow> string option \<Rightarrow> ipsubnet option" where
  "ogs_ipsubnet pton6 pton4 r s mask_or_numbits =
     (if \<not> looks_like_ip s then None
      else (case parse_ip pton6 pton4 (r\<lparr>ip_mask := replicate 4 0xffffffff\<rparr>) s (mask_or_numbits = None) of
        None \<Rightarrow> None
      | Some r1 \<Rightarrow>
          (case mask_or_numbits of
             None \<Rightarrow> Some (fix_subnet r1)
           | Some m \<Rightarrow>
               (let maxbits = (if ip_family r1 = AF_INET6 then 128 else 32);
                    (bits, endptr) = strtol10 m
                in if endptr = [] \<and> bits > 0 \<and> bits \<le> maxbits
                   then Some (fix_subnet (r1\<lparr>ip_mask := fill_mask (nat bits) 0 (replicate 4 0)\<rparr>))
                   else (case pton4 m of
                           Some w \<Rightarrow> if ip_family r1 = AF_INET
                                     then Some (fix_subnet (r1\<lparr>ip_mask := (ip_mask r1)[0 := w]\<rparr>)) else None
                         | None \<Rightarrow> None)))))"

text \<open>
  \<^verbatim>\<open>parse_framed_route\<close> of \<^verbatim>\<open>src/upf/context.c\<close> splits at the first slash; without one the
  mask is the null pointer.
\<close>

definition strsep_slash :: "string \<Rightarrow> string \<times> string option" where
  "strsep_slash s =
     (let a = takeWhile (\<lambda>x. x \<noteq> CHR ''/'') s; rest = dropWhile (\<lambda>x. x \<noteq> CHR ''/'') s
      in (a, if rest = [] then None else Some (tl rest)))"

definition parse_framed_route ::
  "(string \<Rightarrow> u32 list option) \<Rightarrow> (string \<Rightarrow> u32 option) \<Rightarrow> ipsubnet \<Rightarrow> string \<Rightarrow> ipsubnet option" where
  "parse_framed_route pton6 pton4 r route =
     (let (addr, m) = strsep_slash route in ogs_ipsubnet pton6 pton4 r addr m)"


section \<open>The mask of a number of bits\<close>

lemma or_bits_bit:
  assumes "n \<le> Suc j" "i < 32"
  shows "bit (or_bits n (- (2 ^ j)) msk) i \<longleftrightarrow> bit msk i \<or> (0 < n \<and> Suc j - n \<le> i)"
  using assms(1)
proof (induction n arbitrary: j msk)
  case (Suc n)
  have b: "bit (word_of_int (- (2 ^ j)) :: u32) i \<longleftrightarrow> j \<le> i"
    using assms(2) by (simp add: bit_word_of_int_iff bit_minus_exp_iff)
  show ?case
  proof (cases j)
    case 0
    with Suc.prems have "n = 0" by simp
    with b 0 show ?thesis by (simp add: bit_or_iff)
  next
    case (Suc k)
    have "- (2 ^ j) sdiv 2 = - (2 ^ k :: int)"
      by (simp add: signed_divide_int_def Suc)
    with Suc.IH [of k "msk OR word_of_int (- (2 ^ j))"] Suc.prems Suc b show ?thesis
      by (auto simp: bit_or_iff)
  qed
qed simp

lemma fill_mask_length [simp]: "length (fill_mask n e msk) = length msk"
  by (induction n e msk rule: fill_mask.induct) (subst fill_mask.simps, simp)

lemma fill_mask_bit:
  assumes "0 < n" "32 * e + n \<le> 32 * length msk" "i < 32 * length msk"
    and "\<And>k. e \<le> k \<Longrightarrow> k < length msk \<Longrightarrow> msk ! k = 0"
    and "\<And>k. k < e \<Longrightarrow> msk ! k = 0xffffffff"
  shows "bit (fill_mask n e msk ! (i div 32)) (31 - i mod 32) \<longleftrightarrow> i < 32 * e + n"
  using assms
proof (induction n e msk rule: fill_mask.induct)
  case (1 n e msk)
  have ones: "bit (0xffffffff :: u32) j" if "j < 32" for j
  proof -
    have m: "(0xffffffff :: u32) = - 1" by simp
    show ?thesis unfolding m using that by simp
  qed
  show ?case
  proof (cases "n > 32")
    case True
    have "bit (fill_mask (n - 32) (e + 1) (msk[e := 0xffffffff]) ! (i div 32)) (31 - i mod 32)
        \<longleftrightarrow> i < 32 * (e + 1) + (n - 32)"
      using 1 True by (intro "1.IH") (auto simp: nth_list_update)
    with True show ?thesis by (subst fill_mask.simps) simp
  next
    case False
    have e: "e < length msk" using 1 by linarith
    have q: "i div 32 < length msk" using 1 by linarith
    have r: "31 - i mod 32 < 32" by simp
    consider "i div 32 < e" | "i div 32 = e" | "e < i div 32" by linarith
    then show ?thesis
    proof cases
      assume a: "i div 32 < e"
      then have "i < 32 * e" by linarith
      with a False 1 ones [OF r] show ?thesis by (subst fill_mask.simps) simp
    next
      assume a: "i div 32 = e"
      have "bit (or_bits n (- (2 ^ 31)) (msk ! e)) (31 - i mod 32) \<longleftrightarrow> 32 - n \<le> 31 - i mod 32"
        using or_bits_bit [of n 31 "31 - i mod 32" "msk ! e"] False 1 e by simp
      moreover have "32 - n \<le> 31 - i mod 32 \<longleftrightarrow> i < 32 * e + n"
        using False a by presburger
      ultimately show ?thesis using False a e by (subst fill_mask.simps) simp
    next
      assume a: "e < i div 32"
      then have "\<not> i < 32 * e + n" using False by linarith
      with a False 1 q show ?thesis by (subst fill_mask.simps) simp
    qed
  qed
qed

lemma mask_addr_bit:
  assumes "0 < n" "n \<le> N" "N = 32 \<or> N = 128" "i < N"
  shows "addr_bit N (fill_mask n 0 (replicate 4 0)) i \<longleftrightarrow> i < n"
proof -
  have "(N - i - 1) mod 32 = 31 - i mod 32"
  proof (cases "N = 32")
    case False
    define q r where "q = i div 32" and "r = i mod 32"
    have qr: "i = 32 * q + r" "r < 32" by (simp_all add: q_def r_def)
    define t where "t = 31 - r"
    have "N - i - 1 = 32 * (3 - q) + t" using qr False assms(3,4) by (auto simp: t_def)
    moreover have "(32 * (3 - q) + t) mod 32 = t" by (simp add: t_def)
    ultimately show ?thesis by (simp add: t_def r_def)
  qed (use assms(4) in simp)
  then show ?thesis
    using fill_mask_bit [of n 0 "replicate 4 0" i] assms by (auto simp: addr_bit_def)
qed

lemma prefix_from_mask:
  assumes "\<And>j. j < N \<Longrightarrow> msk j \<longleftrightarrow> j < n" "n \<le> N"
  shows "prefix_from N msk sub i = map sub [i..<n]"
  using assms
proof (induction N msk sub i rule: prefix_from.induct)
  case (1 N msk sub i)
  show ?case
  proof (cases "i \<ge> N \<or> \<not> msk i")
    case True
    then have "n \<le> i" using "1.prems" by (cases "N \<le> i") (auto simp: not_less)
    with True show ?thesis by (subst prefix_from.simps) simp
  next
    case False
    then have "i < n" using "1.prems" by auto
    have "prefix_from N msk sub (Suc i) = map sub [Suc i..<n]" by (rule "1.IH" [OF False]) (use "1.prems" in auto)
    with False \<open>i < n\<close> show ?thesis by (subst prefix_from.simps) (simp add: upt_conv_Cons)
  qed
qed

lemma fix_subnet_bits:
  assumes "0 < n" "n \<le> N" "N = 32 \<or> N = 128" "length ws = 4"
  shows "prefix_from N (addr_bit N (fill_mask n 0 (replicate 4 0)))
      (addr_bit N (map (\<lambda>i. ws ! i AND fill_mask n 0 (replicate 4 0) ! i) [0..<4])) 0
    = map (addr_bit N ws) [0..<n]"
proof -
  let ?m = "fill_mask n 0 (replicate 4 0)"
  have m: "addr_bit N ?m j \<longleftrightarrow> j < n" if "j < N" for j
    using mask_addr_bit [OF assms(1-3) that] .
  have b: "addr_bit N (map (\<lambda>i. ws ! i AND ?m ! i) [0..<4]) j \<longleftrightarrow> addr_bit N ws j" if "j < n" for j
  proof -
    have "j div 32 < 4" using that assms(2,3) by auto
    moreover have "addr_bit N ?m j" using m [of j] that assms(2) by simp
    ultimately show ?thesis by (simp add: addr_bit_def bit_and_iff)
  qed
  have "prefix_from N (addr_bit N ?m) (addr_bit N (map (\<lambda>i. ws ! i AND ?m ! i) [0..<4])) 0
      = map (addr_bit N (map (\<lambda>i. ws ! i AND ?m ! i) [0..<4])) [0..<n]"
    using m by (rule prefix_from_mask) (use assms in auto)
  also have "\<dots> = map (addr_bit N ws) [0..<n]" using b by (auto intro!: map_cong)
  finally show ?thesis .
qed

section \<open>Properties\<close>

lemma top_bits_iff:
  assumes "n \<le> 32"
  shows "(\<forall>j < n. bit x (31 - j) = bit w (31 - j)) \<longleftrightarrow> drop_bit (32 - n) (x :: u32) = drop_bit (32 - n) w"
proof
  assume a: "\<forall>j < n. bit x (31 - j) = bit w (31 - j)"
  show "drop_bit (32 - n) x = drop_bit (32 - n) w"
  proof (rule bit_word_eqI)
    fix k
    assume "k < LENGTH(32)"
    show "bit (drop_bit (32 - n) x) k \<longleftrightarrow> bit (drop_bit (32 - n) w) k"
    proof (cases "k < n")
      case True
      then have "31 - (n - 1 - k) = 32 - n + k" "n - 1 - k < n" using assms by simp_all
      with a have "bit x (32 - n + k) = bit w (32 - n + k)" by metis
      then show ?thesis by (simp add: bit_drop_bit_eq)
    next
      case False
      then have "32 \<le> 32 - n + k" using assms by simp
      then show ?thesis by (simp add: bit_drop_bit_eq bit_imp_le_length impossible_bit)
    qed
  qed
next
  assume a: "drop_bit (32 - n) x = drop_bit (32 - n) w"
  show "\<forall>j < n. bit x (31 - j) = bit w (31 - j)"
  proof (intro allI impI)
    fix j
    assume "j < n"
    with assms have "31 - j = (32 - n) + (n - 1 - j)" by simp
    moreover have "bit x ((32 - n) + (n - 1 - j)) = bit w ((32 - n) + (n - 1 - j))"
      using arg_cong [OF a, of "\<lambda>v. bit v (n - 1 - j)"] by (simp add: bit_drop_bit_eq)
    ultimately show "bit x (31 - j) = bit w (31 - j)" by simp
  qed
qed

lemma bits_prefix_iff:
  assumes "n \<le> N"
  shows "prefix (map f [0..<n]) (map g [0..<N]) \<longleftrightarrow> (\<forall>j < n. g j = f j)"
proof -
  have "take n (map g [0..<N]) = map g [0..<n]" using assms by (simp add: take_map)
  then have "prefix (map f [0..<n]) (map g [0..<N]) \<longleftrightarrow> map g [0..<n] = map f [0..<n]"
    by (metis append_take_drop_id length_map length_upt minus_nat.diff_0 append_eq_conv_conj prefixE prefixI)
  then show ?thesis by (auto simp: map_eq_conv)
qed

lemma prefix_bits_iff:
  assumes "n \<le> 32"
  shows "prefix (map (addr_bit 32 [w]) [0..<n]) (map (addr_bit 32 [x]) [0..<32]) \<longleftrightarrow>
    drop_bit (32 - n) (x :: u32) = drop_bit (32 - n) w"
  unfolding bits_prefix_iff [OF assms] top_bits_iff [OF assms, symmetric]
  using assms by (auto simp: addr_bit_def)

text \<open>The words \<open>x\<close> and \<open>w\<close> agree in their first \<open>n\<close> bits.\<close>

definition same_top :: "nat \<Rightarrow> u32 list \<Rightarrow> u32 list \<Rightarrow> bool" where
  "same_top n x w \<longleftrightarrow> (\<forall>i < n div 32. x ! i = w ! i) \<and>
     drop_bit (32 - n mod 32) (x ! (n div 32)) = drop_bit (32 - n mod 32) (w ! (n div 32))"

lemma addr_bit_128: "j < 128 \<Longrightarrow> addr_bit 128 xs j = bit (xs ! (j div 32)) (31 - j mod 32)"
proof -
  assume j: "j < 128"
  define q r where "q = j div 32" and "r = j mod 32"
  have "j = 32 * q + r" "r < 32" "q < 4" using j by (simp_all add: q_def r_def)
  then have "128 - j - 1 = 32 * (3 - q) + (31 - r)" by simp
  moreover have "(32 * (3 - q) + (31 - r)) mod 32 = 31 - r" by simp
  ultimately show ?thesis by (simp add: addr_bit_def q_def [symmetric] r_def [symmetric])
qed

lemma words_bits_iff:
  assumes "n \<le> 128"
  shows "(\<forall>j < n. addr_bit 128 x j = addr_bit 128 w j) \<longleftrightarrow> same_top n x w"
proof -
  define P where "P = (\<lambda>i k. bit (x ! i) (31 - k) = bit (w ! i) (31 - k))"
  have "(\<forall>j < n. addr_bit 128 x j = addr_bit 128 w j) \<longleftrightarrow> (\<forall>j < n. P (j div 32) (j mod 32))"
    using assms by (simp add: addr_bit_128 P_def)
  also have "\<dots> \<longleftrightarrow> (\<forall>i < n div 32. \<forall>k < 32. P i k) \<and> (\<forall>k < n mod 32. P (n div 32) k)"
  proof (intro iffI conjI allI impI)
    fix i k assume a: "\<forall>j < n. P (j div 32) (j mod 32)" "i < n div 32" "k < (32 :: nat)"
    then have "32 * i + k < n" "(32 * i + k) div 32 = i" "(32 * i + k) mod 32 = k" by simp_all
    with a(1) show "P i k" by metis
  next
    fix k assume a: "\<forall>j < n. P (j div 32) (j mod 32)" "k < n mod 32"
    have "32 * (n div 32) + n mod 32 = n" by simp
    with a(2) have "32 * (n div 32) + k < n" by linarith
    moreover have "(32 * (n div 32) + k) div 32 = n div 32" "(32 * (n div 32) + k) mod 32 = k" using a(2) by simp_all
    ultimately show "P (n div 32) k" using a(1) by metis
  next
    fix j assume a: "(\<forall>i < n div 32. \<forall>k < 32. P i k) \<and> (\<forall>k < n mod 32. P (n div 32) k)" "j < n"
    have "32 * (j div 32) + j mod 32 = j" "32 * (n div 32) + n mod 32 = n" "n mod 32 < 32" by simp_all
    with a(2) have "j div 32 < n div 32 \<or> j div 32 = n div 32 \<and> j mod 32 < n mod 32" by linarith
    with a(1) show "P (j div 32) (j mod 32)" by auto
  qed
  also have "\<dots> \<longleftrightarrow> same_top n x w"
    using top_bits_iff [of 32] top_bits_iff [of "n mod 32"] by (simp add: P_def same_top_def)
  finally show ?thesis .
qed



end
