(* ===== verification/Upf_Context.thy ===== *)
theory Upf_Context
  imports Pfcp_Sess Ogs_Ipsubnet
begin

text \<open>
  The context of the user plane function, \<^verbatim>\<open>src/upf/context.c\<close>: the sessions, the five tables
  that find them, the two tries of framed routes, the configuration, and the UE addresses they
  take from the subnets of \<^verbatim>\<open>lib/pfcp/context.c\<close>. It composes the session objects of
  \<open>Pfcp_Sess\<close>, the accounting of \<open>Upf_Urr\<close>, the tables of \<open>Ogs_Hash\<close> and the tries of
  \<open>Route_Trie\<close>.

  A session is named by its node of the session pool. Addresses are numbers in host order, and
  the keys of the tables are the octets the code hashes. A static UE address is an object of the
  heap: \<open>uc_static\<close> has the live ones, and the use of a freed one is \<open>Abort\<close>, as is a failed
  assertion.
\<close>

section \<open>State\<close>

record ue_ip =
  ui_addr :: "u32 list"
  ui_static :: "nat option"
  ui_node :: nat
  ui_subnet :: nat

record pfcp_dev =
  dv_ifname :: string
  dv_fd :: nat
  dv_is_tap :: bool
  dv_mac_addr :: bytes

record pfcp_subnet =
  sn_family :: nat
  sn_dnn :: string
  sn_pool :: ogs_pool
  sn_addrs :: "u32 list list"
  sn_dev :: pfcp_dev

definition AF_UNSPEC :: nat where "AF_UNSPEC = 0"

record ogs_ip =
  oi_addr :: u32
  oi_addr6 :: bytes
  oi_len :: u32
  oi_ipv4 :: bool
  oi_ipv6 :: bool

record f_seid =
  fs_ipv4 :: bool
  fs_ipv6 :: bool
  fs_seid :: u64
  fs_addr :: u32
  fs_addr6 :: bytes

record upf_sess =
  se_id :: u32
  se_seid_node :: nat
  se_upf_n4_seid :: u64
  se_smf_seid :: u64
  se_smf_ip :: ogs_ip
  se_ipv4 :: "ue_ip option"
  se_ipv6 :: "ue_ip option"
  se_routes4 :: "ipsubnet list option"
  se_routes6 :: "ipsubnet list option"
  se_urr_acc :: "urr_acc list"
  se_apn_dnn :: "string option"

datatype transport_mode = GTPU | QUIC

record 'c upf_context =
  uc_sess :: "nat \<Rightarrow> upf_sess"
  uc_sess_pool :: ogs_pool
  uc_seid_pool :: ogs_pool
  uc_seids :: "u32 list"
  uc_upf_seid_hash :: "nat ogs_hash"
  uc_smf_seid_hash :: "nat ogs_hash"
  uc_smf_f_seid_hash :: "nat ogs_hash"
  uc_ipv4_hash :: "nat ogs_hash"
  uc_ipv6_hash :: "nat ogs_hash"
  uc_routes4 :: "nat trie"
  uc_routes6 :: "nat trie"
  uc_list :: "nat list"
  uc_mode :: transport_mode
  uc_cert :: "string option"
  uc_key :: "string option"
  uc_address :: "string option"
  uc_subnets :: "pfcp_subnet list"
  uc_static :: "nat list"
  uc_next_static :: nat
  uc_timers :: "'c timer_mgr"
  uc_pfcp :: pfcp_ctx

definition OGS_MAX_NUM_OF_FRAMED_ROUTES_IN_PDI :: nat where
  "OGS_MAX_NUM_OF_FRAMED_ROUTES_IN_PDI = 8"

definition OGS_PDU_SESSION_TYPE_IPV4 :: u8 where "OGS_PDU_SESSION_TYPE_IPV4 = 1"

definition OGS_PDU_SESSION_TYPE_IPV6 :: u8 where "OGS_PDU_SESSION_TYPE_IPV6 = 2"

definition OGS_PDU_SESSION_TYPE_IPV4V6 :: u8 where "OGS_PDU_SESSION_TYPE_IPV4V6 = 3"

definition zero_ip :: ogs_ip where
  "zero_ip = \<lparr>oi_addr = 0, oi_addr6 = replicate 16 0, oi_len = 0, oi_ipv4 = False, oi_ipv6 = False\<rparr>"

definition zero_sess :: upf_sess where
  "zero_sess = \<lparr>se_id = 0, se_seid_node = 0, se_upf_n4_seid = 0, se_smf_seid = 0, se_smf_ip = zero_ip,
     se_ipv4 = None, se_ipv6 = None, se_routes4 = None, se_routes6 = None, se_urr_acc = zero_accs,
     se_apn_dnn = None\<rparr>"

definition zero_subnet :: ipsubnet where
  "zero_subnet = \<lparr>ip_family = 0, ip_sub = replicate 4 0, ip_mask = replicate 4 0\<rparr>"

definition with_sess :: "nat \<Rightarrow> (upf_sess \<Rightarrow> upf_sess) \<Rightarrow> 'c upf_context \<Rightarrow> 'c upf_context" where
  "with_sess n f c = c\<lparr>uc_sess := (uc_sess c)(n := f (uc_sess c n))\<rparr>"

section \<open>Initialization and configuration\<close>

text \<open>\<open>k\<close> is \<^verbatim>\<open>ogs_app()->pool.sess\<close>; the random numbers are those of the SEID pool.\<close>

definition upf_context_init ::
  "nat \<Rightarrow> (nat \<Rightarrow> u32) \<Rightarrow> u32 \<Rightarrow> 'c timer_mgr \<Rightarrow> pfcp_ctx \<Rightarrow> pfcp_subnet list \<Rightarrow> 'c upf_context" where
  "upf_context_init k r seed timers pfcp subnets =
     \<lparr>uc_sess = (\<lambda>_. zero_sess), uc_sess_pool = ogs_pool_init k seed, uc_seid_pool = ogs_pool_init k seed,
      uc_seids = ogs_pool_random_id_generate k r,
      uc_upf_seid_hash = ogs_hash_make seed, uc_smf_seid_hash = ogs_hash_make seed,
      uc_smf_f_seid_hash = ogs_hash_make seed, uc_ipv4_hash = ogs_hash_make seed,
      uc_ipv6_hash = ogs_hash_make seed, uc_routes4 = Null, uc_routes6 = Null, uc_list = [],
      uc_mode = GTPU, uc_cert = None, uc_key = None, uc_address = None, uc_subnets = subnets,
      uc_static = [], uc_next_static = 0, uc_timers = timers, uc_pfcp = pfcp\<rparr>"

definition upf_context_validation :: "nat \<Rightarrow> 'c upf_context \<Rightarrow> bool" where
  "upf_context_validation num_of_gtpu c \<longleftrightarrow>
     \<not> (num_of_gtpu = 0 \<and> uc_mode c \<noteq> QUIC) \<and> uc_subnets c \<noteq> []"

text \<open>
  The iterators of the YAML library: a document is a list of keys with a scalar (which may be
  absent) or a mapping.
\<close>

datatype yaml = Scalar "string option" | Mapping "(string \<times> yaml) list"

fun scalar_of :: "yaml \<Rightarrow> string option" where
  "scalar_of (Scalar v) = v"
| "scalar_of (Mapping _) = None"

fun pairs_of :: "yaml \<Rightarrow> (string \<times> yaml) list" where
  "pairs_of (Scalar _) = []"
| "pairs_of (Mapping ps) = ps"

text \<open>\<^verbatim>\<open>ogs_strdup\<close> of a null pointer, which is what an absent value is, is a null pointer.\<close>

fun parse_quic :: "(string \<times> yaml) list \<Rightarrow> 'c upf_context \<Rightarrow> 'c upf_context" where
  "parse_quic [] c = c"
| "parse_quic ((k, v) # ps) c =
     parse_quic ps
       (if k = ''cert'' then c\<lparr>uc_cert := scalar_of v\<rparr>
        else if k = ''key'' then c\<lparr>uc_key := scalar_of v\<rparr>
        else if k = ''address'' \<and> scalar_of v \<noteq> None then c\<lparr>uc_address := scalar_of v\<rparr>
        else c)"

fun parse_upf :: "(string \<times> yaml) list \<Rightarrow> 'c upf_context \<Rightarrow> 'c upf_context" where
  "parse_upf [] c = c"
| "parse_upf ((k, v) # ps) c =
     parse_upf ps
       (if k = ''transport_mode''
        then c\<lparr>uc_mode := if scalar_of v = Some ''quic'' then QUIC else GTPU\<rparr>
        else if k = ''quic'' then parse_quic (pairs_of v) c
        else c)"

text \<open>The section whose number among the \<^verbatim>\<open>upf\<close> keys is \<^verbatim>\<open>config_section_id\<close>.\<close>

fun parse_root :: "nat \<Rightarrow> nat \<Rightarrow> (string \<times> yaml) list \<Rightarrow> 'c upf_context \<Rightarrow> 'c upf_context" where
  "parse_root sect i [] c = c"
| "parse_root sect i ((k, v) # ps) c =
     (if k = ''upf''
      then parse_root sect (i + 1) ps (if i = sect then parse_upf (pairs_of v) c else c)
      else parse_root sect i ps c)"

definition upf_context_parse_config ::
  "nat \<Rightarrow> nat \<Rightarrow> (string \<times> yaml) list \<Rightarrow> 'c upf_context \<Rightarrow> 'c upf_context \<times> bool" where
  "upf_context_parse_config sect num_of_gtpu doc c =
     (let c' = parse_root sect 0 doc c in (c', upf_context_validation num_of_gtpu c'))"

section \<open>UE addresses\<close>

definition subnet_serves :: "nat \<Rightarrow> pfcp_subnet \<Rightarrow> bool" where
  "subnet_serves family sn \<longleftrightarrow> (sn_family sn = AF_UNSPEC \<or> sn_family sn = family) \<and> pool_avail (sn_pool sn) \<noteq> 0"

definition index_of :: "('a \<Rightarrow> bool) \<Rightarrow> 'a list \<Rightarrow> nat option" where
  "index_of P xs = find (\<lambda>i. P (xs ! i)) [0..<length xs]"

definition ogs_pfcp_find_subnet :: "nat \<Rightarrow> pfcp_subnet list \<Rightarrow> nat option" where
  "ogs_pfcp_find_subnet family sns = index_of (\<lambda>sn. subnet_serves family sn \<and> sn_dnn sn = []) sns"

definition ogs_pfcp_find_subnet_by_dnn :: "nat \<Rightarrow> string \<Rightarrow> pfcp_subnet list \<Rightarrow> nat option" where
  "ogs_pfcp_find_subnet_by_dnn family dnn sns =
     index_of (\<lambda>sn. subnet_serves family sn \<and> (sn_dnn sn = [] \<or> ogs_strcasecmp_eq (sn_dnn sn) dnn)) sns"

text \<open>\<open>addr\<close> has one word for IPv4 and four for IPv6. The left result is the cause.\<close>

definition ogs_pfcp_ue_ip_alloc ::
  "nat \<Rightarrow> string option \<Rightarrow> u32 list \<Rightarrow> 'c upf_context \<Rightarrow> 'c upf_context \<times> (u8 + ue_ip)" where
  "ogs_pfcp_ue_ip_alloc family dnn addr c =
     (case (case dnn of Some d \<Rightarrow> ogs_pfcp_find_subnet_by_dnn family d (uc_subnets c)
            | None \<Rightarrow> ogs_pfcp_find_subnet family (uc_subnets c)) of
        None \<Rightarrow> (c, Inl OGS_PFCP_CAUSE_NO_RESOURCES_AVAILABLE)
      | Some k \<Rightarrow>
          if \<exists>w \<in> set addr. w \<noteq> 0
          then (c\<lparr>uc_static := uc_next_static c # uc_static c, uc_next_static := uc_next_static c + 1\<rparr>,
                Inr \<lparr>ui_addr = take 4 (addr @ replicate 4 0), ui_static = Some (uc_next_static c),
                     ui_node = 0, ui_subnet = k\<rparr>)
          else (case ogs_pool_alloc (sn_pool (uc_subnets c ! k)) of
                  (p, None) \<Rightarrow> (c, Inl OGS_PFCP_CAUSE_NO_RESOURCES_AVAILABLE)
                | (p, Some n) \<Rightarrow>
                    (c\<lparr>uc_subnets := (uc_subnets c)[k := (uc_subnets c ! k)\<lparr>sn_pool := p\<rparr>]\<rparr>,
                     Inr \<lparr>ui_addr = sn_addrs (uc_subnets c ! k) ! n, ui_static = None,
                          ui_node = n, ui_subnet = k\<rparr>)))"

definition ogs_pfcp_ue_ip_free :: "ue_ip \<Rightarrow> 'c upf_context \<Rightarrow> 'c upf_context exec" where
  "ogs_pfcp_ue_ip_free ip c =
     (case ui_static ip of
        Some h \<Rightarrow> if h \<in> set (uc_static c) then Ret (c\<lparr>uc_static := remove1 h (uc_static c)\<rparr>) else Abort
      | None \<Rightarrow>
          (let sn = uc_subnets c ! ui_subnet ip
           in Ret (c\<lparr>uc_subnets := (uc_subnets c)[ui_subnet ip :=
                     sn\<lparr>sn_pool := ogs_pool_free (sn_pool sn) (ui_node ip)\<rparr>]\<rparr>)))"

section \<open>Keys\<close>

text \<open>
  The octets the tables hash. The structure of an F-SEID has 40 octets: three of padding follow
  the flags and four end it. They are zero in a session object, which is allocated cleared; in
  the key a search builds on the stack the last four are not set: \<open>pad\<close>.
\<close>

definition ogs_pfcp_f_seid_to_ip :: "f_seid \<Rightarrow> ogs_ip option" where
  "ogs_pfcp_f_seid_to_ip f =
     (if fs_ipv4 f \<and> fs_ipv6 f
      then Some \<lparr>oi_addr = fs_addr f, oi_addr6 = fs_addr6 f, oi_len = 20, oi_ipv4 = True, oi_ipv6 = True\<rparr>
      else if fs_ipv4 f then Some (zero_ip\<lparr>oi_addr := fs_addr f, oi_len := 4, oi_ipv4 := True\<rparr>)
      else if fs_ipv6 f then Some (zero_ip\<lparr>oi_addr6 := fs_addr6 f, oi_len := 16, oi_ipv6 := True\<rparr>)
      else None)"

definition ip_octets :: "ogs_ip \<Rightarrow> bytes" where
  "ip_octets ip = be32 (oi_addr ip) @ oi_addr6 ip @ key32 (oi_len ip) @
     [(if oi_ipv4 ip then 0x80 else 0) OR (if oi_ipv6 ip then 0x40 else 0)] @ [0, 0, 0]"

definition f_seid_key :: "u64 \<Rightarrow> ogs_ip \<Rightarrow> bytes \<Rightarrow> bytes" where
  "f_seid_key seid ip pad = key64 seid @ ip_octets ip @ pad"

definition no_pad :: bytes where "no_pad = [0, 0, 0, 0]"

definition ipv4_key :: "u32 \<Rightarrow> bytes" where "ipv4_key a = be32 a"

definition ipv6_key :: "u32 list \<Rightarrow> bytes" where "ipv6_key a = be32 (a ! 0) @ be32 (a ! 1)"

definition ui_key4 :: "ue_ip \<Rightarrow> bytes" where "ui_key4 ip = ipv4_key (ui_addr ip ! 0)"

definition ui_key6 :: "ue_ip \<Rightarrow> bytes" where "ui_key6 ip = ipv6_key (ui_addr ip)"

definition sess_f_seid_key :: "upf_sess \<Rightarrow> bytes" where
  "sess_f_seid_key d = f_seid_key (se_smf_seid d) (se_smf_ip d) no_pad"

section \<open>Look-up\<close>

definition upf_sess_find_by_smf_n4_seid :: "'c upf_context \<Rightarrow> u64 \<Rightarrow> nat option" where
  "upf_sess_find_by_smf_n4_seid c seid = hash_get (uc_smf_seid_hash c) (key64 seid)"

definition upf_sess_find_by_smf_n4_f_seid :: "bytes \<Rightarrow> 'c upf_context \<Rightarrow> f_seid \<Rightarrow> nat option exec" where
  "upf_sess_find_by_smf_n4_f_seid pad c f =
     (case ogs_pfcp_f_seid_to_ip f of None \<Rightarrow> Abort
      | Some ip \<Rightarrow> Ret (hash_get (uc_smf_f_seid_hash c) (f_seid_key (fs_seid f) ip pad)))"

definition upf_sess_find_by_upf_n4_seid :: "'c upf_context \<Rightarrow> u64 \<Rightarrow> nat option" where
  "upf_sess_find_by_upf_n4_seid c seid = hash_get (uc_upf_seid_hash c) (key64 seid)"

definition upf_sess_find_by_ipv4 :: "'c upf_context \<Rightarrow> u32 \<Rightarrow> nat option" where
  "upf_sess_find_by_ipv4 c addr =
     (case hash_get (uc_ipv4_hash c) (ipv4_key addr) of
        Some n \<Rightarrow> Some n | None \<Rightarrow> route_find_ipv4 addr (uc_routes4 c))"

definition upf_sess_find_by_ipv6 :: "'c upf_context \<Rightarrow> u32 list \<Rightarrow> nat option" where
  "upf_sess_find_by_ipv6 c addr6 =
     (case hash_get (uc_ipv6_hash c) (ipv6_key addr6) of
        Some n \<Rightarrow> Some n | None \<Rightarrow> route_find_ipv6 addr6 (uc_routes6 c))"

definition upf_sess_find_by_id :: "'c upf_context \<Rightarrow> u32 \<Rightarrow> nat option" where
  "upf_sess_find_by_id c i = ogs_pool_find_by_id (uc_sess_pool c) i"

text \<open>The destination of a packet: octets 16 to 19 of an IPv4 header, 24 to 39 of an IPv6 one.\<close>

definition upf_sess_find_by_ue_ip_address :: "'c upf_context \<Rightarrow> bytes \<Rightarrow> nat option exec" where
  "upf_sess_find_by_ue_ip_address c pkt =
     (if pkt = [] then Abort
      else let v = drop_bit 4 (rd8 pkt 0)
        in Ret (if v = 4 then upf_sess_find_by_ipv4 c (rd32 pkt 16)
                else if v = 6 then upf_sess_find_by_ipv6 c [rd32 pkt 24, rd32 pkt 28, rd32 pkt 32, rd32 pkt 36]
                else None))"

section \<open>Sessions\<close>

definition upf_sess_add :: "u32 \<Rightarrow> f_seid \<Rightarrow> 'c upf_context \<Rightarrow> ('c upf_context \<times> nat option) exec" where
  "upf_sess_add seed f c =
     (case ogs_pool_id_calloc (uc_sess_pool c) of
        (pool, None) \<Rightarrow> Ret (c\<lparr>uc_sess_pool := pool\<rparr>, None)
      | (pool, Some (n, i)) \<Rightarrow>
          (case ogs_pool_alloc (uc_seid_pool c) of
             (spool, None) \<Rightarrow> Abort
           | (spool, Some t) \<Rightarrow>
               (case ogs_pfcp_f_seid_to_ip f of
                  None \<Rightarrow> Abort
                | Some ip \<Rightarrow>
                    (let seid = ucast (uc_seids c ! t);
                         d = zero_sess\<lparr>se_id := i, se_seid_node := t, se_upf_n4_seid := seid,
                               se_smf_seid := fs_seid f, se_smf_ip := ip\<rparr>
                     in Ret (c\<lparr>uc_sess := (uc_sess c)(n := d), uc_sess_pool := pool, uc_seid_pool := spool,
                           uc_upf_seid_hash := hash_set (uc_upf_seid_hash c) (key64 seid) (Some n),
                           uc_smf_f_seid_hash := hash_set (uc_smf_f_seid_hash c) (sess_f_seid_key d) (Some n),
                           uc_smf_seid_hash := hash_set (uc_smf_seid_hash c) (key64 (fs_seid f)) (Some n),
                           uc_list := uc_list c @ [n],
                           uc_pfcp := update_sess n (\<lambda>_. ogs_pfcp_pool_init seed) (uc_pfcp c)\<rparr>,
                         Some n)))))"

text \<open>
  The request carries the F-SEID as it came, in network order: \<^verbatim>\<open>be64toh\<close> is the reading of
  \<open>fs_seid\<close> as a number. An element that is not present is \<open>None\<close>.
\<close>

definition upf_sess_add_by_message ::
  "u32 \<Rightarrow> bytes \<Rightarrow> f_seid option \<Rightarrow> 'c upf_context \<Rightarrow> ('c upf_context \<times> nat option) exec" where
  "upf_sess_add_by_message seed pad cp_f_seid c =
     (case cp_f_seid of None \<Rightarrow> Ret (c, None)
      | Some f \<Rightarrow>
          if \<not> fs_ipv4 f \<and> \<not> fs_ipv6 f then Ret (c, None)
          else exec_bind (upf_sess_find_by_smf_n4_f_seid pad c f) (\<lambda>r.
            case r of Some n \<Rightarrow> Ret (c, Some n) | None \<Rightarrow> upf_sess_add seed f c))"

section \<open>The UE addresses of a session\<close>

text \<open>
  The first steps of \<^verbatim>\<open>upf_sess_set_ue_ip\<close>, which \<^verbatim>\<open>upf_sess_remove\<close> shares: the address
  leaves its table and is freed. The pointer of the session stays as it is.
\<close>

definition release_ipv4 :: "nat \<Rightarrow> 'c upf_context \<Rightarrow> 'c upf_context exec" where
  "release_ipv4 n c =
     (case se_ipv4 (uc_sess c n) of None \<Rightarrow> Ret c
      | Some ip \<Rightarrow> ogs_pfcp_ue_ip_free ip
          (c\<lparr>uc_ipv4_hash := hash_set (uc_ipv4_hash c) (ui_key4 ip) None\<rparr>))"

definition release_ipv6 :: "nat \<Rightarrow> 'c upf_context \<Rightarrow> 'c upf_context exec" where
  "release_ipv6 n c =
     (case se_ipv6 (uc_sess c n) of None \<Rightarrow> Ret c
      | Some ip \<Rightarrow> ogs_pfcp_ue_ip_free ip
          (c\<lparr>uc_ipv6_hash := hash_set (uc_ipv6_hash c) (ui_key6 ip) None\<rparr>))"

text \<open>
  An address of one family: nothing is done when the rule has neither a flag nor a DNN. The
  member of the union \<open>addr\<close> is chosen by the caller.
\<close>

definition assign_ipv4 ::
  "nat \<Rightarrow> bool \<Rightarrow> string option \<Rightarrow> u32 list \<Rightarrow> 'c upf_context \<Rightarrow> 'c upf_context \<times> u8" where
  "assign_ipv4 n flag dnn addr c =
     (if flag \<or> dnn \<noteq> None
      then (case ogs_pfcp_ue_ip_alloc AF_INET dnn addr c of
              (c, Inl cause) \<Rightarrow> (with_sess n (\<lambda>d. d\<lparr>se_ipv4 := None\<rparr>) c, cause)
            | (c, Inr ip) \<Rightarrow>
                ((with_sess n (\<lambda>d. d\<lparr>se_ipv4 := Some ip\<rparr>) c)
                   \<lparr>uc_ipv4_hash := hash_set (uc_ipv4_hash c) (ui_key4 ip) (Some n)\<rparr>,
                 OGS_PFCP_CAUSE_REQUEST_ACCEPTED))
      else (c, OGS_PFCP_CAUSE_REQUEST_ACCEPTED))"

definition assign_ipv6 ::
  "nat \<Rightarrow> bool \<Rightarrow> string option \<Rightarrow> u32 list \<Rightarrow> 'c upf_context \<Rightarrow> 'c upf_context \<times> u8" where
  "assign_ipv6 n flag dnn addr c =
     (if flag \<or> dnn \<noteq> None
      then (case ogs_pfcp_ue_ip_alloc AF_INET6 dnn addr c of
              (c, Inl cause) \<Rightarrow> (with_sess n (\<lambda>d. d\<lparr>se_ipv6 := None\<rparr>) c, cause)
            | (c, Inr ip) \<Rightarrow>
                ((with_sess n (\<lambda>d. d\<lparr>se_ipv6 := Some ip\<rparr>) c)
                   \<lparr>uc_ipv6_hash := hash_set (uc_ipv6_hash c) (ui_key6 ip) (Some n)\<rparr>,
                 OGS_PFCP_CAUSE_REQUEST_ACCEPTED))
      else (c, OGS_PFCP_CAUSE_REQUEST_ACCEPTED))"

text \<open>The log line at the end reads the addresses through the pointers of the session.\<close>

definition live_ip :: "'c upf_context \<Rightarrow> ue_ip option \<Rightarrow> bool" where
  "live_ip c r \<longleftrightarrow> (case r of None \<Rightarrow> True
     | Some ip \<Rightarrow> (case ui_static ip of None \<Rightarrow> True | Some h \<Rightarrow> h \<in> set (uc_static c)))"

definition log_ue_ip :: "nat \<Rightarrow> 'c upf_context \<times> u8 \<Rightarrow> ('c upf_context \<times> u8) exec" where
  "log_ue_ip n r =
     (let d = uc_sess (fst r) n
      in if live_ip (fst r) (se_ipv4 d) \<and> live_ip (fst r) (se_ipv6 d) then Ret r else Abort)"

definition ua_word :: "ue_ip_addr \<Rightarrow> nat \<Rightarrow> u32" where
  "ua_word ua i = rd32 (ua_octets ua) (4 * i)"

definition upf_sess_set_ue_ip ::
  "nat \<Rightarrow> u8 \<Rightarrow> nat \<Rightarrow> 'c upf_context \<Rightarrow> ('c upf_context \<times> u8) exec" where
  "upf_sess_set_ue_ip n session_type p c =
     (let dnn = pdr_dnn (pc_pdr (uc_pfcp c) p) in
      case pdr_ue_ip (pc_pdr (uc_pfcp c) p) of None \<Rightarrow> Abort
      | Some ua \<Rightarrow>
          exec_bind (release_ipv4 n c) (\<lambda>c.
          exec_bind (release_ipv6 n c) (\<lambda>c.
          if session_type = OGS_PDU_SESSION_TYPE_IPV4
          then (let (c, cause) = assign_ipv4 n (ua_ipv4 ua) dnn [ua_word ua 0] c
                in if cause \<noteq> OGS_PFCP_CAUSE_REQUEST_ACCEPTED then Ret (c, cause)
                   else log_ue_ip n (c, cause))
          else if session_type = OGS_PDU_SESSION_TYPE_IPV6
          then (let (c, cause) = assign_ipv6 n (ua_ipv6 ua) dnn (map (ua_word ua) [0..<4]) c
                in if cause \<noteq> OGS_PFCP_CAUSE_REQUEST_ACCEPTED then Ret (c, cause)
                   else log_ue_ip n (c, cause))
          else if session_type = OGS_PDU_SESSION_TYPE_IPV4V6
          then (let (c, cause) = assign_ipv4 n (ua_ipv4 ua) dnn [ua_word ua 0] c
                in if cause \<noteq> OGS_PFCP_CAUSE_REQUEST_ACCEPTED then Ret (c, cause)
                   else (let (c, cause) = assign_ipv6 n (ua_ipv6 ua) dnn (map (ua_word ua) [1..<5]) c
                         in if cause \<noteq> OGS_PFCP_CAUSE_REQUEST_ACCEPTED
                            then exec_bind (release_ipv4 n c) (\<lambda>c.
                                   Ret (with_sess n (\<lambda>d. d\<lparr>se_ipv4 := None\<rparr>) c, cause))
                            else log_ue_ip n (c, cause)))
          else Ret (c, OGS_PFCP_CAUSE_SERVICE_NOT_SUPPORTED))))"

section \<open>Framed routes\<close>

text \<open>
  A route goes to the trie of its own family, whatever the list it stands in. The first loop
  stops at the first cleared entry; \<open>zero\<close> says whether it clears the entries it has removed.
\<close>

definition add_route :: "ipsubnet \<Rightarrow> nat \<Rightarrow> 'c upf_context \<Rightarrow> 'c upf_context" where
  "add_route r n c =
     (if ip_family r = AF_INET then c\<lparr>uc_routes4 := add_framed_route_to_trie r n (uc_routes4 c)\<rparr>
      else c\<lparr>uc_routes6 := add_framed_route_to_trie r n (uc_routes6 c)\<rparr>)"

definition free_route :: "ipsubnet \<Rightarrow> 'c upf_context \<Rightarrow> 'c upf_context" where
  "free_route r c =
     (if ip_family r = AF_INET then c\<lparr>uc_routes4 := free_framed_route_from_trie r (uc_routes4 c)\<rparr>
      else c\<lparr>uc_routes6 := free_framed_route_from_trie r (uc_routes6 c)\<rparr>)"

fun free_routes :: "bool \<Rightarrow> ipsubnet list \<Rightarrow> 'c upf_context \<Rightarrow> ipsubnet list \<times> 'c upf_context" where
  "free_routes zero [] c = ([], c)"
| "free_routes zero (r # rs) c =
     (if ip_family r = 0 then (r # rs, c)
      else (let (rs', c') = free_routes zero rs (free_route r c)
            in ((if zero then zero_subnet else r) # rs', c')))"

definition free_route_array ::
  "bool \<Rightarrow> ipsubnet list option \<Rightarrow> 'c upf_context \<Rightarrow> ipsubnet list option \<times> 'c upf_context" where
  "free_route_array zero rs c =
     (case rs of None \<Rightarrow> (None, c)
      | Some rs \<Rightarrow> (let (rs', c') = free_routes zero rs c in (Some rs', c')))"

text \<open>The second loop, over the strings; \<open>j\<close> is the next entry of the array.\<close>

fun parse_routes ::
  "(string \<Rightarrow> u32 list option) \<Rightarrow> (string \<Rightarrow> u32 option) \<Rightarrow> nat \<Rightarrow> string list \<Rightarrow> nat \<Rightarrow>
     ipsubnet list option \<Rightarrow> 'c upf_context \<Rightarrow> nat \<times> ipsubnet list option \<times> 'c upf_context" where
  "parse_routes pton6 pton4 n [] j rs c = (j, rs, c)"
| "parse_routes pton6 pton4 n (s # ss) j rs c =
     (let rs = (case rs of None \<Rightarrow> replicate OGS_MAX_NUM_OF_FRAMED_ROUTES_IN_PDI zero_subnet | Some rs \<Rightarrow> rs)
      in case parse_framed_route pton6 pton4 (rs ! j) s of
           None \<Rightarrow> parse_routes pton6 pton4 n ss j (Some (rs[j := zero_subnet])) c
         | Some r \<Rightarrow> parse_routes pton6 pton4 n ss (j + 1) (Some (rs[j := r])) (add_route r n c))"

definition set_routes ::
  "(string \<Rightarrow> u32 list option) \<Rightarrow> (string \<Rightarrow> u32 option) \<Rightarrow> bool \<Rightarrow> nat \<Rightarrow> string list option \<Rightarrow>
     ipsubnet list option \<Rightarrow> 'c upf_context \<Rightarrow> ipsubnet list option \<times> 'c upf_context" where
  "set_routes pton6 pton4 zero n routes rs c =
     (let (rs, c) = free_route_array zero rs c;
          ss = (case routes of None \<Rightarrow> [] | Some ss \<Rightarrow> take OGS_MAX_NUM_OF_FRAMED_ROUTES_IN_PDI ss);
          (j, rs, c) = parse_routes pton6 pton4 n ss 0 rs c
      in (if j = 0 then None else rs, c))"

definition upf_sess_set_ue_ipv4_framed_routes ::
  "(string \<Rightarrow> u32 list option) \<Rightarrow> (string \<Rightarrow> u32 option) \<Rightarrow> nat \<Rightarrow> string list option \<Rightarrow>
     'c upf_context \<Rightarrow> 'c upf_context \<times> u8" where
  "upf_sess_set_ue_ipv4_framed_routes pton6 pton4 n routes c =
     (let (rs, c) = set_routes pton6 pton4 True n routes (se_routes4 (uc_sess c n)) c
      in (with_sess n (\<lambda>d. d\<lparr>se_routes4 := rs\<rparr>) c, OGS_PFCP_CAUSE_REQUEST_ACCEPTED))"

definition upf_sess_set_ue_ipv6_framed_routes ::
  "(string \<Rightarrow> u32 list option) \<Rightarrow> (string \<Rightarrow> u32 option) \<Rightarrow> nat \<Rightarrow> string list option \<Rightarrow>
     'c upf_context \<Rightarrow> 'c upf_context \<times> u8" where
  "upf_sess_set_ue_ipv6_framed_routes pton6 pton4 n routes c =
     (let (rs, c) = set_routes pton6 pton4 False n routes (se_routes6 (uc_sess c n)) c
      in (with_sess n (\<lambda>d. d\<lparr>se_routes6 := rs\<rparr>) c, OGS_PFCP_CAUSE_REQUEST_ACCEPTED))"

section \<open>Removal\<close>

definition remove_accounting :: "nat \<Rightarrow> 'c upf_context \<Rightarrow> 'c upf_context exec" where
  "remove_accounting n c =
     exec_bind (upf_sess_urr_acc_remove_all \<lparr>us_acc = se_urr_acc (uc_sess c n), us_mgr = uc_timers c\<rparr>)
       (\<lambda>s. Ret ((with_sess n (\<lambda>d. d\<lparr>se_urr_acc := us_acc s\<rparr>) c)\<lparr>uc_timers := us_mgr s\<rparr>))"

definition drop_keys :: "nat \<Rightarrow> 'c upf_context \<Rightarrow> 'c upf_context" where
  "drop_keys n c =
     (let d = uc_sess c n
      in c\<lparr>uc_upf_seid_hash := hash_set (uc_upf_seid_hash c) (key64 (se_upf_n4_seid d)) None,
           uc_smf_seid_hash := hash_set (uc_smf_seid_hash c) (key64 (se_smf_seid d)) None,
           uc_smf_f_seid_hash := hash_set (uc_smf_f_seid_hash c) (sess_f_seid_key d) None\<rparr>)"

text \<open>No string is parsed when the routes are removed: the readers of addresses are not called.\<close>

definition drop_routes :: "nat \<Rightarrow> 'c upf_context \<Rightarrow> 'c upf_context" where
  "drop_routes n c =
     fst (upf_sess_set_ue_ipv6_framed_routes (\<lambda>_. None) (\<lambda>_. None) n None
       (fst (upf_sess_set_ue_ipv4_framed_routes (\<lambda>_. None) (\<lambda>_. None) n None c)))"

definition upf_sess_remove :: "nat \<Rightarrow> 'c upf_context \<Rightarrow> 'c upf_context exec" where
  "upf_sess_remove n c =
     exec_bind (remove_accounting n c) (\<lambda>c.
     exec_bind (ogs_pfcp_sess_clear n (uc_pfcp c)) (\<lambda>pfcp.
     let c = drop_keys n (c\<lparr>uc_list := remove1 n (uc_list c), uc_pfcp := pfcp\<rparr>) in
     exec_bind (release_ipv4 n c) (\<lambda>c.
     exec_bind (release_ipv6 n c) (\<lambda>c.
     let c = drop_routes n c; d = uc_sess c n in
     exec_bind (ogs_pool_id_free (uc_sess_pool c) n (se_id d)) (\<lambda>pool.
     Ret (c\<lparr>uc_seid_pool := ogs_pool_free (uc_seid_pool c) (se_seid_node d), uc_sess_pool := pool\<rparr>))))))"

fun remove_sessions :: "nat list \<Rightarrow> 'c upf_context \<Rightarrow> 'c upf_context exec" where
  "remove_sessions [] c = Ret c"
| "remove_sessions (n # ns) c = exec_bind (upf_sess_remove n c) (remove_sessions ns)"

definition upf_sess_remove_all :: "'c upf_context \<Rightarrow> 'c upf_context exec" where
  "upf_sess_remove_all c = remove_sessions (uc_list c) c"

text \<open>\<^verbatim>\<open>ogs_hash_destroy\<close> clears the table; the memory of tables and pools is not modelled.\<close>

definition upf_context_final :: "'c upf_context \<Rightarrow> 'c upf_context exec" where
  "upf_context_final c =
     exec_bind (upf_sess_remove_all c) (\<lambda>c. Ret (c\<lparr>uc_routes4 := Null, uc_routes6 := Null,
       uc_upf_seid_hash := ogs_hash_clear (uc_upf_seid_hash c),
       uc_smf_seid_hash := ogs_hash_clear (uc_smf_seid_hash c),
       uc_smf_f_seid_hash := ogs_hash_clear (uc_smf_f_seid_hash c),
       uc_ipv4_hash := ogs_hash_clear (uc_ipv4_hash c), uc_ipv6_hash := ogs_hash_clear (uc_ipv6_hash c)\<rparr>))"

end
