(* ===== verification/Upf_Sessions.thy ===== *)
theory Upf_Sessions
  imports Upf_Context
begin

text \<open>
  The correctness of the session tables of \<open>Upf_Context\<close>: the invariant that ties the five
  tables and the two tries to the sessions, its preservation by every operation, and the
  properties of creation, removal, UE addresses and framed routes.
\<close>

section \<open>What each step changes\<close>

lemma ue_ip_free_frame:
  assumes "ogs_pfcp_ue_ip_free ip c = Ret c'"
  obtains S sn where "c' = c\<lparr>uc_static := S, uc_subnets := sn\<rparr>"
proof (cases "ui_static ip")
  case None
  with assms have "c' = c\<lparr>uc_static := uc_static c, uc_subnets := uc_subnets c'\<rparr>"
    by (auto simp: ogs_pfcp_ue_ip_free_def Let_def)
  then show ?thesis by (rule that)
next
  case (Some h)
  with assms have "c' = c\<lparr>uc_static := uc_static c', uc_subnets := uc_subnets c\<rparr>"
    by (auto simp: ogs_pfcp_ue_ip_free_def split: if_splits)
  then show ?thesis by (rule that)
qed

definition released4 :: "nat \<Rightarrow> 'c upf_context \<Rightarrow> nat ogs_hash" where
  "released4 n c = (case se_ipv4 (uc_sess c n) of None \<Rightarrow> uc_ipv4_hash c
     | Some ip \<Rightarrow> hash_set (uc_ipv4_hash c) (ui_key4 ip) None)"

definition released6 :: "nat \<Rightarrow> 'c upf_context \<Rightarrow> nat ogs_hash" where
  "released6 n c = (case se_ipv6 (uc_sess c n) of None \<Rightarrow> uc_ipv6_hash c
     | Some ip \<Rightarrow> hash_set (uc_ipv6_hash c) (ui_key6 ip) None)"

lemma release_ipv4_frame:
  assumes "release_ipv4 n c = Ret c'"
  obtains S sn where "c' = c\<lparr>uc_ipv4_hash := released4 n c, uc_static := S, uc_subnets := sn\<rparr>"
proof (cases "se_ipv4 (uc_sess c n)")
  case None
  with assms have "c' = c\<lparr>uc_ipv4_hash := released4 n c, uc_static := uc_static c, uc_subnets := uc_subnets c\<rparr>"
    by (simp add: release_ipv4_def released4_def)
  then show ?thesis by (rule that)
next
  case (Some ip)
  with assms show ?thesis
    by (auto simp: release_ipv4_def released4_def elim!: ue_ip_free_frame intro: that)
qed

lemma release_ipv6_frame:
  assumes "release_ipv6 n c = Ret c'"
  obtains S sn where "c' = c\<lparr>uc_ipv6_hash := released6 n c, uc_static := S, uc_subnets := sn\<rparr>"
proof (cases "se_ipv6 (uc_sess c n)")
  case None
  with assms have "c' = c\<lparr>uc_ipv6_hash := released6 n c, uc_static := uc_static c, uc_subnets := uc_subnets c\<rparr>"
    by (simp add: release_ipv6_def released6_def)
  then show ?thesis by (rule that)
next
  case (Some ip)
  with assms show ?thesis
    by (auto simp: release_ipv6_def released6_def elim!: ue_ip_free_frame intro: that)
qed

lemma ue_ip_alloc_frame:
  assumes "ogs_pfcp_ue_ip_alloc f dnn addr c = (c', r)"
  obtains S nx sn where "c' = c\<lparr>uc_static := S, uc_next_static := nx, uc_subnets := sn\<rparr>"
proof -
  have "c' = c\<lparr>uc_static := uc_static c', uc_next_static := uc_next_static c', uc_subnets := uc_subnets c'\<rparr>"
    using assms unfolding ogs_pfcp_ue_ip_alloc_def
    by (auto split: option.splits if_splits prod.splits)
  then show ?thesis by (rule that)
qed

section \<open>The routes of a session\<close>

definition active :: "ipsubnet list option \<Rightarrow> ipsubnet list" where
  "active rs = (case rs of None \<Rightarrow> [] | Some rs \<Rightarrow> takeWhile (\<lambda>r. ip_family r \<noteq> 0) rs)"

definition prefixes4 :: "ipsubnet list \<Rightarrow> bool list set" where
  "prefixes4 rs = route_prefix ` {r \<in> set rs. ip_family r = AF_INET}"

definition prefixes6 :: "ipsubnet list \<Rightarrow> bool list set" where
  "prefixes6 rs = route_prefix ` {r \<in> set rs. ip_family r \<noteq> AF_INET}"

definition only_tries :: "'c upf_context \<Rightarrow> 'c upf_context \<Rightarrow> bool" where
  "only_tries c c' \<longleftrightarrow> c' = c\<lparr>uc_routes4 := uc_routes4 c', uc_routes6 := uc_routes6 c'\<rparr>"

lemma only_tries_refl [simp]: "only_tries c c"
  by (simp add: only_tries_def)

lemma only_tries_trans:
  assumes "only_tries a b" "only_tries b c"
  shows "only_tries a c"
proof -
  from assms have "c = (a\<lparr>uc_routes4 := uc_routes4 b, uc_routes6 := uc_routes6 b\<rparr>)
      \<lparr>uc_routes4 := uc_routes4 c, uc_routes6 := uc_routes6 c\<rparr>"
    unfolding only_tries_def by metis
  then show ?thesis by (simp add: only_tries_def)
qed

lemma add_route_tries [simp]: "only_tries c (add_route r n c)"
  by (simp add: only_tries_def add_route_def)

lemma free_route_tries [simp]: "only_tries c (free_route r c)"
  by (simp add: only_tries_def free_route_def)

lemma fold_only_tries:
  assumes "\<And>x c. only_tries c (f x c)"
  shows "only_tries c (fold f xs c)"
  by (induction xs arbitrary: c) (auto intro: only_tries_trans assms)

lemma fold_free_routes:
  "trie_map (uc_routes4 (fold free_route rs c)) p =
     (if p \<in> prefixes4 rs then None else trie_map (uc_routes4 c) p)"
  "trie_map (uc_routes6 (fold free_route rs c)) p =
     (if p \<in> prefixes6 rs then None else trie_map (uc_routes6 c) p)"
  by (induction rs arbitrary: c)
     (auto simp: prefixes4_def prefixes6_def free_route_def trie_binds_del)

lemma fold_add_routes:
  "trie_map (uc_routes4 (fold (\<lambda>r. add_route r n) rs c)) p =
     (if p \<in> prefixes4 rs then Some n else trie_map (uc_routes4 c) p)"
  "trie_map (uc_routes6 (fold (\<lambda>r. add_route r n) rs c)) p =
     (if p \<in> prefixes6 rs then Some n else trie_map (uc_routes6 c) p)"
  by (induction rs arbitrary: c)
     (auto simp: prefixes4_def prefixes6_def add_route_def trie_binds_add)

lemma free_routes_eq:
  assumes "free_routes zero rs c = (rs', c')"
  shows "c' = fold free_route (takeWhile (\<lambda>r. ip_family r \<noteq> 0) rs) c \<and> length rs' = length rs"
  using assms by (induction zero rs c arbitrary: rs' c' rule: free_routes.induct)
    (auto split: if_splits prod.splits)

lemma parsed_family:
  assumes "parse_framed_route pton6 pton4 r s = Some r'"
  shows "ip_family r' \<noteq> 0"
proof -
  have f: "ip_family r2 \<noteq> 0" if "parse_ip pton6 pton4 r1 a b = Some r2" for r1 r2 a b
    using that by (auto simp: parse_ip_def parse_network_def AF_INET_def AF_INET6_def
        split: option.splits if_splits)
  have fix_ok: "ip_family (fix_subnet r) = ip_family r" for r by (simp add: fix_subnet_def)
  show ?thesis
    using assms unfolding parse_framed_route_def ogs_ipsubnet_def
    by (auto simp: fix_ok Let_def dest!: f split: prod.splits option.splits if_splits)
qed

definition route_array :: "ipsubnet list option \<Rightarrow> ipsubnet list" where
  "route_array rs = (case rs of None \<Rightarrow> replicate OGS_MAX_NUM_OF_FRAMED_ROUTES_IN_PDI zero_subnet
     | Some rs \<Rightarrow> rs)"

lemma route_array_Some [simp]: "route_array (Some rs) = rs"
  by (simp add: route_array_def)

text \<open>The strings that parse fill the array from \<open>j\<close> on, and each is bound.\<close>

lemma parse_routes_spec:
  assumes "parse_routes pton6 pton4 n ss j rs c = (j', rs', c')"
    and "j + length ss \<le> OGS_MAX_NUM_OF_FRAMED_ROUTES_IN_PDI"
    and "length (route_array rs) = OGS_MAX_NUM_OF_FRAMED_ROUTES_IN_PDI"
  shows "\<exists>ns. c' = fold (\<lambda>r. add_route r n) ns c \<and> j' = j + length ns \<and>
    (\<forall>r \<in> set ns. ip_family r \<noteq> 0) \<and> (rs' = None \<longrightarrow> rs = None \<and> ns = []) \<and>
    length (route_array rs') = OGS_MAX_NUM_OF_FRAMED_ROUTES_IN_PDI \<and>
    take j' (route_array rs') = take j (route_array rs) @ ns"
  using assms
proof (induction pton6 pton4 n ss j rs c arbitrary: j' rs' c' rule: parse_routes.induct)
  case (1 pton6 pton4 n j rs c)
  then show ?case by (auto intro!: exI [of _ "[]"])
next
  case (2 pton6 pton4 n s ss j rs c)
  let ?a = "route_array rs"
  have j: "j < length ?a" using "2.prems"(2,3) by simp
  show ?case
  proof (cases "parse_framed_route pton6 pton4 (?a ! j) s")
    case None
    then have "parse_routes pton6 pton4 n ss j (Some (?a[j := zero_subnet])) c = (j', rs', c')"
      using "2.prems"(1) by (simp add: route_array_def)
    from "2.IH"(1) [OF _ _ this] None "2.prems"(2,3) show ?thesis
      by (auto simp: route_array_def [of rs])
  next
    case (Some r)
    then have "parse_routes pton6 pton4 n ss (j + 1) (Some (?a[j := r])) (add_route r n c) = (j', rs', c')"
      using "2.prems"(1) by (simp add: route_array_def)
    from "2.IH"(2) [OF _ _ this] Some "2.prems"(2,3) obtain ns where
      ns: "c' = fold (\<lambda>r. add_route r n) ns (add_route r n c)" "j' = j + 1 + length ns"
        "\<forall>r \<in> set ns. ip_family r \<noteq> 0" "rs' \<noteq> None"
        "length (route_array rs') = OGS_MAX_NUM_OF_FRAMED_ROUTES_IN_PDI"
        "take j' (route_array rs') = take (j + 1) (?a[j := r]) @ ns"
      by (auto simp: route_array_def [of rs])
    show ?thesis
      using ns j parsed_family [OF Some]
      by (intro exI [of _ "r # ns"]) (simp add: take_Suc_conv_app_nth)
  qed
qed

text \<open>
  Setting the routes of a list unbinds the active routes it had, binds the new ones \<open>ns\<close>, and
  leaves an array whose active part begins with them.
\<close>

lemma set_routes_spec:
  assumes "set_routes pton6 pton4 zero n routes rs c = (rs', c')"
    and "length (route_array rs) = OGS_MAX_NUM_OF_FRAMED_ROUTES_IN_PDI"
  shows "\<exists>ns. c' = fold (\<lambda>r. add_route r n) ns (fold free_route (active rs) c) \<and>
    (\<forall>r \<in> set ns. ip_family r \<noteq> 0) \<and> set ns \<subseteq> set (active rs') \<and>
    length (route_array rs') = OGS_MAX_NUM_OF_FRAMED_ROUTES_IN_PDI \<and>
    take (length ns) (route_array rs') = ns \<and> (rs' = None \<longleftrightarrow> ns = []) \<and> (routes = None \<longrightarrow> ns = [])"
proof -
  define ss where "ss = (case routes of None \<Rightarrow> [] | Some ss \<Rightarrow> take OGS_MAX_NUM_OF_FRAMED_ROUTES_IN_PDI ss)"
  obtain rs1 c1 where f: "free_route_array zero rs c = (rs1, c1)" by (cases "free_route_array zero rs c")
  obtain j rs2 c2 where p: "parse_routes pton6 pton4 n ss 0 rs1 c1 = (j, rs2, c2)"
    by (cases "parse_routes pton6 pton4 n ss 0 rs1 c1") auto
  have r': "rs' = (if j = 0 then None else rs2)" "c' = c2"
    using assms(1) f p by (simp_all add: set_routes_def ss_def Let_def)
  have c1: "c1 = fold free_route (active rs) c" "length (route_array rs1) = length (route_array rs)"
    using f free_routes_eq [of zero "the rs" c "the rs1" c1]
    by (auto simp: free_route_array_def active_def route_array_def split: option.splits prod.splits)
  have "0 + length ss \<le> OGS_MAX_NUM_OF_FRAMED_ROUTES_IN_PDI"
    by (simp add: ss_def split: option.splits)
  note spec = parse_routes_spec [OF p this c1(2) [unfolded assms(2)]]
  then obtain ns where
    ns: "c2 = fold (\<lambda>r. add_route r n) ns c1" "j = length ns" "\<forall>r \<in> set ns. ip_family r \<noteq> 0"
      "rs2 = None \<longrightarrow> ns = []" "length (route_array rs2) = OGS_MAX_NUM_OF_FRAMED_ROUTES_IN_PDI"
      "take j (route_array rs2) = ns" by fastforce
  have ne: "routes = None \<longrightarrow> ns = []" using p ns(2) by (auto simp: ss_def)
  have "set ns \<subseteq> set (active rs')" if "ns \<noteq> []"
  proof -
    from that ns obtain a where a: "rs' = Some a" "take (length ns) a = ns" by (cases rs2) (auto simp: r')
    have "a = ns @ drop (length ns) a" using a(2) by (metis append_take_drop_id)
    moreover have "takeWhile (\<lambda>r. ip_family r \<noteq> 0) (ns @ bs) = ns @ takeWhile (\<lambda>r. ip_family r \<noteq> 0) bs" for bs
      using ns(3) by (simp add: takeWhile_append2)
    ultimately have "active rs' = ns @ takeWhile (\<lambda>r. ip_family r \<noteq> 0) (drop (length ns) a)"
      using a(1) unfolding active_def by (metis option.simps(5))
    then show ?thesis by simp
  qed
  moreover have "length (route_array rs') = OGS_MAX_NUM_OF_FRAMED_ROUTES_IN_PDI"
    using ns(5) by (simp add: r'(1)) (simp add: route_array_def)
  moreover have "take (length ns) (route_array rs') = ns" using ns(2,6) by (auto simp: r'(1))
  moreover have "rs' = None \<longleftrightarrow> ns = []" using ns(2,4) by (auto simp: r'(1))
  ultimately show ?thesis using ns(1,3) ne r'(2) c1(1) by (cases "ns = []") auto
qed

section \<open>The invariant\<close>

text \<open>
  Every entry of a table designates a listed session and stands under a key of that session.
\<close>

definition owned :: "nat ogs_hash \<Rightarrow> nat set \<Rightarrow> (nat \<Rightarrow> bytes \<Rightarrow> bool) \<Rightarrow> bool" where
  "owned h L key \<longleftrightarrow> hash_ok h \<and> (\<forall>k n. hash_map h k = Some n \<longrightarrow> n \<in> L \<and> key n k)"

lemma owned_store:
  assumes "owned h L key" "k \<noteq> []" "n \<in> L'" "key' n k"
    and "\<And>m j. m \<in> L \<Longrightarrow> key m j \<Longrightarrow> m \<in> L' \<and> key' m j"
  shows "owned (hash_set h k (Some n)) L' key'"
  using assms by (auto simp: owned_def hash_set_correct)

lemma owned_delete:
  assumes "owned h L key" "k \<noteq> []"
    and "\<And>m j. m \<in> L \<Longrightarrow> key m j \<Longrightarrow> j \<noteq> k \<Longrightarrow> m \<in> L' \<and> key' m j"
  shows "owned (hash_set h k None) L' key'"
  using assms by (auto simp: owned_def hash_set_correct)

lemma owned_mono:
  assumes "owned h L key" "\<And>m j. m \<in> L \<Longrightarrow> key m j \<Longrightarrow> m \<in> L' \<and> key' m j"
  shows "owned h L' key'"
  using assms by (auto simp: owned_def)

lemma owned_get: "owned h L key \<Longrightarrow> k \<noteq> [] \<Longrightarrow> hash_get h k = Some n \<Longrightarrow> n \<in> L \<and> key n k"
  by (simp add: owned_def hash_get_map)

definition has_key4 :: "'c upf_context \<Rightarrow> nat \<Rightarrow> bytes \<Rightarrow> bool" where
  "has_key4 c n k \<longleftrightarrow> (\<exists>ip. se_ipv4 (uc_sess c n) = Some ip \<and> k = ui_key4 ip)"

definition has_key6 :: "'c upf_context \<Rightarrow> nat \<Rightarrow> bytes \<Rightarrow> bool" where
  "has_key6 c n k \<longleftrightarrow> (\<exists>ip. se_ipv6 (uc_sess c n) = Some ip \<and> k = ui_key6 ip)"

definition routes_of :: "upf_sess \<Rightarrow> ipsubnet list" where
  "routes_of d = active (se_routes4 d) @ active (se_routes6 d)"

definition live :: "'c upf_context \<Rightarrow> nat set" where
  "live c = set (uc_list c)"

text \<open>The pools, the list and the table of UPF SEIDs, which is exact.\<close>

definition pools_inv :: "'c upf_context \<Rightarrow> bool" where
  "pools_inv c \<longleftrightarrow> pool_ok (uc_sess_pool c) \<and> pool_ok (uc_seid_pool c) \<and>
     distinct (uc_list c) \<and> live c = allocated (uc_sess_pool c) \<and>
     inj_on (\<lambda>n. se_seid_node (uc_sess c n)) (live c) \<and>
     (\<lambda>n. se_seid_node (uc_sess c n)) ` live c = allocated (uc_seid_pool c) \<and>
     pool_size (uc_seid_pool c) = pool_size (uc_sess_pool c) \<and>
     length (uc_seids c) = pool_size (uc_seid_pool c) \<and> distinct (uc_seids c) \<and>
     (\<forall>n \<in> live c. se_upf_n4_seid (uc_sess c n) = ucast (uc_seids c ! se_seid_node (uc_sess c n)))"

definition keys_inv :: "'c upf_context \<Rightarrow> bool" where
  "keys_inv c \<longleftrightarrow>
     owned (pool_id_hash (uc_sess_pool c)) (live c) (\<lambda>n k. k = key32 (se_id (uc_sess c n))) \<and>
     owned (uc_upf_seid_hash c) (live c) (\<lambda>n k. k = key64 (se_upf_n4_seid (uc_sess c n))) \<and>
     (\<forall>n \<in> live c. hash_map (uc_upf_seid_hash c) (key64 (se_upf_n4_seid (uc_sess c n))) = Some n) \<and>
     owned (uc_smf_seid_hash c) (live c) (\<lambda>n k. k = key64 (se_smf_seid (uc_sess c n))) \<and>
     owned (uc_smf_f_seid_hash c) (live c) (\<lambda>n k. k = sess_f_seid_key (uc_sess c n))"

definition addr_inv :: "'c upf_context \<Rightarrow> bool" where
  "addr_inv c \<longleftrightarrow> owned (uc_ipv4_hash c) (live c) (has_key4 c) \<and>
     owned (uc_ipv6_hash c) (live c) (has_key6 c)"

definition route_inv :: "'c upf_context \<Rightarrow> bool" where
  "route_inv c \<longleftrightarrow>
     (\<forall>p n. trie_map (uc_routes4 c) p = Some n \<longrightarrow> n \<in> live c \<and> p \<in> prefixes4 (routes_of (uc_sess c n))) \<and>
     (\<forall>p n. trie_map (uc_routes6 c) p = Some n \<longrightarrow> n \<in> live c \<and> p \<in> prefixes6 (routes_of (uc_sess c n))) \<and>
     (\<forall>n. length (route_array (se_routes4 (uc_sess c n))) = OGS_MAX_NUM_OF_FRAMED_ROUTES_IN_PDI \<and>
          length (route_array (se_routes6 (uc_sess c n))) = OGS_MAX_NUM_OF_FRAMED_ROUTES_IN_PDI)"

definition ctx_inv :: "'c upf_context \<Rightarrow> bool" where
  "ctx_inv c \<longleftrightarrow> pools_inv c \<and> keys_inv c \<and> addr_inv c \<and> route_inv c"

text \<open>What the operations on addresses and routes leave alone.\<close>

definition same_index :: "'c upf_context \<Rightarrow> 'c upf_context \<Rightarrow> bool" where
  "same_index c c' \<longleftrightarrow> uc_sess_pool c' = uc_sess_pool c \<and> uc_seid_pool c' = uc_seid_pool c \<and>
     uc_seids c' = uc_seids c \<and> uc_list c' = uc_list c \<and> uc_upf_seid_hash c' = uc_upf_seid_hash c \<and>
     uc_smf_seid_hash c' = uc_smf_seid_hash c \<and> uc_smf_f_seid_hash c' = uc_smf_f_seid_hash c \<and>
     (\<forall>n. se_id (uc_sess c' n) = se_id (uc_sess c n) \<and> se_seid_node (uc_sess c' n) = se_seid_node (uc_sess c n) \<and>
        se_upf_n4_seid (uc_sess c' n) = se_upf_n4_seid (uc_sess c n) \<and>
        se_smf_seid (uc_sess c' n) = se_smf_seid (uc_sess c n) \<and>
        sess_f_seid_key (uc_sess c' n) = sess_f_seid_key (uc_sess c n))"

lemma same_index_inv:
  assumes "same_index c c'"
  shows "pools_inv c' = pools_inv c" "keys_inv c' = keys_inv c" "live c' = live c"
  using assms by (simp_all add: same_index_def pools_inv_def keys_inv_def live_def)

lemma same_index_refl [simp]: "same_index c c"
  by (simp add: same_index_def)

lemma same_index_trans: "same_index a b \<Longrightarrow> same_index b c \<Longrightarrow> same_index a c"
  by (simp add: same_index_def)

section \<open>Creation\<close>

lemma keys_not_Nil [simp]:
  "f_seid_key s ip pad \<noteq> []" "sess_f_seid_key d \<noteq> []" "ipv4_key a \<noteq> []" "ipv6_key b \<noteq> []"
  "ui_key4 x \<noteq> []" "ui_key6 x \<noteq> []"
  by (simp_all add: f_seid_key_def sess_f_seid_key_def ipv4_key_def ipv6_key_def ui_key4_def ui_key6_def
      be32_def)

lemma route_array_None: "length (route_array None) = OGS_MAX_NUM_OF_FRAMED_ROUTES_IN_PDI"
  by (simp add: route_array_def)

lemma owned_make: "owned (ogs_hash_make seed) L key"
proof -
  have "hash_map (ogs_hash_make seed :: nat ogs_hash) k = None" for k
    by (simp add: hash_map_def ogs_hash_make_def alloc_array_def entries_def del: replicate_Suc)
  then show ?thesis by (simp add: owned_def hash_ok_make)
qed

lemma ctx_inv_init:
  assumes "k < 2 ^ 32"
  shows "ctx_inv (upf_context_init k r seed timers pfcp subnets)"
proof -
  let ?c = "upf_context_init k r seed timers pfcp subnets"
  have L: "live ?c = {}" by (simp add: live_def upf_context_init_def)
  have "pools_inv ?c"
    using random_ids_permute [OF assms, of r]
    by (simp add: pools_inv_def L pool_ok_init allocated_init upf_context_init_def)
      (simp add: ogs_pool_init_def live_def)
  moreover have "keys_inv ?c"
    by (simp add: keys_inv_def L) (simp add: upf_context_init_def owned_make ogs_pool_init_def)
  moreover have "addr_inv ?c" by (simp add: addr_inv_def L) (simp add: upf_context_init_def owned_make)
  moreover have "route_inv ?c"
    by (simp add: route_inv_def upf_context_init_def zero_sess_def route_array_None)
  ultimately show ?thesis by (simp add: ctx_inv_def)
qed

lemma sess_add_cases:
  assumes "upf_sess_add seed f c = Ret (c', Some n)"
  obtains q i spool t ip where "ogs_pool_alloc (uc_sess_pool c) = (q, Some n)" "i = ogs_next_pool_id (pool_id q)"
    "ogs_pool_alloc (uc_seid_pool c) = (spool, Some t)" "ogs_pfcp_f_seid_to_ip f = Some ip"
    "c' = (let d = zero_sess\<lparr>se_id := i, se_seid_node := t, se_upf_n4_seid := ucast (uc_seids c ! t),
                  se_smf_seid := fs_seid f, se_smf_ip := ip\<rparr>
       in c\<lparr>uc_sess := (uc_sess c)(n := d),
            uc_sess_pool := q\<lparr>pool_id := i, pool_id_hash := hash_set (pool_id_hash q) (key32 i) (Some n)\<rparr>,
            uc_seid_pool := spool,
            uc_upf_seid_hash := hash_set (uc_upf_seid_hash c) (key64 (ucast (uc_seids c ! t))) (Some n),
            uc_smf_f_seid_hash := hash_set (uc_smf_f_seid_hash c) (sess_f_seid_key d) (Some n),
            uc_smf_seid_hash := hash_set (uc_smf_seid_hash c) (key64 (fs_seid f)) (Some n),
            uc_list := uc_list c @ [n],
            uc_pfcp := update_sess n (\<lambda>_. ogs_pfcp_pool_init seed) (uc_pfcp c)\<rparr>)"
proof -
  from assms obtain pool i where a: "ogs_pool_id_calloc (uc_sess_pool c) = (pool, Some (n, i))"
    unfolding upf_sess_add_def
    by (auto split: prod.splits option.splits simp: Let_def)
  then obtain q where q: "ogs_pool_alloc (uc_sess_pool c) = (q, Some n)" "i = ogs_next_pool_id (pool_id q)"
    "pool = q\<lparr>pool_id := i, pool_id_hash := hash_set (pool_id_hash q) (key32 i) (Some n)\<rparr>"
    by (auto simp: ogs_pool_id_calloc_def Let_def split: prod.splits option.splits)
  from assms a obtain spool t ip where "ogs_pool_alloc (uc_seid_pool c) = (spool, Some t)"
    "ogs_pfcp_f_seid_to_ip f = Some ip"
    by (auto simp: upf_sess_add_def split: prod.splits option.splits)
  with assms a q that show ?thesis by (simp add: upf_sess_add_def Let_def)
qed

lemma alloc_facts:
  assumes "pool_ok p" "ogs_pool_alloc p = (q, Some n)"
  shows "n \<notin> allocated p" "allocated q = insert n (allocated p)" "pool_ok q" "n < pool_size p"
    "pool_size q = pool_size p" "pool_id_hash q = pool_id_hash p" "pool_id q = pool_id p"
proof -
  have "0 < pool_avail p" using assms(2) alloc_None [of p] by (cases "pool_avail p") auto
  from alloc_Some [OF assms(1) this] assms(2)
  show "n \<notin> allocated p" "allocated q = insert n (allocated p)" "pool_ok q" "n < pool_size p"
    "pool_size q = pool_size p" "pool_id_hash q = pool_id_hash p" "pool_id q = pool_id p"
    by (metis option.inject prod.inject)+
qed

lemma ucast_seid_inject [simp]: "(ucast (a :: u32) :: u64) = ucast b \<longleftrightarrow> a = b"
proof
  assume "(ucast a :: u64) = ucast b"
  then have "(ucast (ucast a :: u64) :: u32) = ucast (ucast b :: u64)" by simp
  moreover have "(ucast (ucast x :: u64) :: u32) = x" for x :: u32
    by (rule bit_word_eqI) (simp add: bit_simps)
  ultimately show "a = b" by simp
qed simp

lemma seid_of_node:
  assumes "pools_inv c" "m \<in> live c" "t \<notin> allocated (uc_seid_pool c)" "t < pool_size (uc_seid_pool c)"
  shows "se_upf_n4_seid (uc_sess c m) \<noteq> ucast (uc_seids c ! t)"
proof -
  have m: "se_seid_node (uc_sess c m) \<in> allocated (uc_seid_pool c)"
    using assms(1,2) by (auto simp: pools_inv_def)
  then have "se_seid_node (uc_sess c m) < pool_size (uc_seid_pool c)" by (simp add: allocated_def)
  with m assms show ?thesis
    by (auto simp: pools_inv_def nth_eq_iff_index_eq)
qed

lemma keys_owned:
  assumes "keys_inv c"
  shows "owned (pool_id_hash (uc_sess_pool c)) (live c) (\<lambda>n k. k = key32 (se_id (uc_sess c n)))"
    "owned (uc_upf_seid_hash c) (live c) (\<lambda>n k. k = key64 (se_upf_n4_seid (uc_sess c n)))"
    "owned (uc_smf_seid_hash c) (live c) (\<lambda>n k. k = key64 (se_smf_seid (uc_sess c n)))"
    "owned (uc_smf_f_seid_hash c) (live c) (\<lambda>n k. k = sess_f_seid_key (uc_sess c n))"
  using assms unfolding keys_inv_def by blast+

lemma owned_add:
  assumes "owned h L (\<lambda>m k. k = g (S m))" "\<And>m. m \<in> L \<Longrightarrow> S' m = S m" "g (S' n) \<noteq> []"
  shows "owned (hash_set h (g (S' n)) (Some n)) (insert n L) (\<lambda>m k. k = g (S' m))"
  by (rule owned_store [OF assms(1)]) (use assms(2,3) in auto)

lemma ctx_inv_add:
  assumes inv: "ctx_inv c" and add: "upf_sess_add seed f c = Ret (c', Some n)"
  shows "ctx_inv c'" and "n \<notin> live c" and "live c' = insert n (live c)"
proof -
  obtain q i spool t ip where q: "ogs_pool_alloc (uc_sess_pool c) = (q, Some n)" "i = ogs_next_pool_id (pool_id q)"
    and t: "ogs_pool_alloc (uc_seid_pool c) = (spool, Some t)"
    and c': "c' = (let d = zero_sess\<lparr>se_id := i, se_seid_node := t, se_upf_n4_seid := ucast (uc_seids c ! t),
                  se_smf_seid := fs_seid f, se_smf_ip := ip\<rparr>
       in c\<lparr>uc_sess := (uc_sess c)(n := d),
            uc_sess_pool := q\<lparr>pool_id := i, pool_id_hash := hash_set (pool_id_hash q) (key32 i) (Some n)\<rparr>,
            uc_seid_pool := spool,
            uc_upf_seid_hash := hash_set (uc_upf_seid_hash c) (key64 (ucast (uc_seids c ! t))) (Some n),
            uc_smf_f_seid_hash := hash_set (uc_smf_f_seid_hash c) (sess_f_seid_key d) (Some n),
            uc_smf_seid_hash := hash_set (uc_smf_seid_hash c) (key64 (fs_seid f)) (Some n),
            uc_list := uc_list c @ [n],
            uc_pfcp := update_sess n (\<lambda>_. ogs_pfcp_pool_init seed) (uc_pfcp c)\<rparr>)"
    using add by (rule sess_add_cases)
  have P: "pools_inv c" and K: "keys_inv c" and A: "addr_inv c" and R: "route_inv c"
    using inv by (simp_all add: ctx_inv_def)
  note own = keys_owned [OF K]
  have ok: "pool_ok (uc_sess_pool c)" "pool_ok (uc_seid_pool c)" using P by (simp_all add: pools_inv_def)
  note n = alloc_facts [OF ok(1) q(1)] and t' = alloc_facts [OF ok(2) t]
  show nL: "n \<notin> live c" using n(1) P by (simp add: pools_inv_def)
  show L: "live c' = insert n (live c)" by (simp add: c' Let_def live_def)
  have s: "uc_sess c' m = uc_sess c m" if "m \<in> live c" for m
    using that nL by (auto simp: c' Let_def)
  have sn: "se_id (uc_sess c' n) = i" "se_seid_node (uc_sess c' n) = t"
    "se_upf_n4_seid (uc_sess c' n) = ucast (uc_seids c ! t)" "se_smf_seid (uc_sess c' n) = fs_seid f"
    "se_routes4 (uc_sess c' n) = None" "se_routes6 (uc_sess c' n) = None"
    by (simp_all add: c' Let_def zero_sess_def)
  have p': "pool_ok (q\<lparr>pool_id := i, pool_id_hash := h\<rparr>)"
    "allocated (q\<lparr>pool_id := i, pool_id_hash := h\<rparr>) = allocated q" for h
    using n(3) by (simp_all add: pool_ok_def allocated_def)
  have fields: "uc_seid_pool c' = spool" "uc_seids c' = uc_seids c"
    "uc_sess_pool c' = q\<lparr>pool_id := i, pool_id_hash := hash_set (pool_id_hash q) (key32 i) (Some n)\<rparr>"
    "uc_ipv4_hash c' = uc_ipv4_hash c" "uc_ipv6_hash c' = uc_ipv6_hash c" "uc_routes4 c' = uc_routes4 c"
    "uc_routes6 c' = uc_routes6 c"
    "uc_upf_seid_hash c' = hash_set (uc_upf_seid_hash c) (key64 (se_upf_n4_seid (uc_sess c' n))) (Some n)"
    "uc_smf_seid_hash c' = hash_set (uc_smf_seid_hash c) (key64 (se_smf_seid (uc_sess c' n))) (Some n)"
    "uc_smf_f_seid_hash c' = hash_set (uc_smf_f_seid_hash c) (sess_f_seid_key (uc_sess c' n)) (Some n)"
    "distinct (uc_list c') \<longleftrightarrow> distinct (uc_list c) \<and> n \<notin> live c"
    by (auto simp: c' Let_def live_def zero_sess_def)
  have "inj_on (\<lambda>m. se_seid_node (uc_sess c' m)) (live c) \<longleftrightarrow> inj_on (\<lambda>m. se_seid_node (uc_sess c m)) (live c)"
    using s by (intro inj_on_cong) simp
  moreover have img: "(\<lambda>m. se_seid_node (uc_sess c' m)) ` live c = allocated (uc_seid_pool c)"
    using P s unfolding pools_inv_def by (metis (no_types, lifting) image_cong)
  ultimately have inj: "inj_on (\<lambda>m. se_seid_node (uc_sess c' m)) (live c')"
  proof -
    assume e: "inj_on (\<lambda>m. se_seid_node (uc_sess c' m)) (live c) \<longleftrightarrow> inj_on (\<lambda>m. se_seid_node (uc_sess c m)) (live c)"
    have "inj_on (\<lambda>m. se_seid_node (uc_sess c m)) (live c)" using P unfolding pools_inv_def by blast
    with e img t'(1) sn(2) nL show ?thesis by (auto simp: L)
  qed
  have img': "(\<lambda>m. se_seid_node (uc_sess c' m)) ` live c' = allocated spool"
    using img sn(2) t'(2) by (simp add: L)
  have "pools_inv c'"
    unfolding pools_inv_def using inj img' P n(2,3,5) t'(3,5) nL sn(3,2) s
    by (simp add: fields L p' pools_inv_def)
  moreover have "keys_inv c'"
  proof -
    have "owned (pool_id_hash (uc_sess_pool c')) (live c') (\<lambda>n k. k = key32 (se_id (uc_sess c' n)))"
      using owned_add [where g = "\<lambda>d. key32 (se_id d)" and S' = "uc_sess c'" and n = n, OF own(1) s]
      by (simp add: fields L n(6) sn(1))
    moreover have "owned (uc_upf_seid_hash c') (live c') (\<lambda>n k. k = key64 (se_upf_n4_seid (uc_sess c' n)))"
      unfolding fields L by (rule owned_add [where g = "\<lambda>d. key64 (se_upf_n4_seid d)", OF own(2) s]) simp_all
    moreover have "owned (uc_smf_seid_hash c') (live c') (\<lambda>n k. k = key64 (se_smf_seid (uc_sess c' n)))"
      unfolding fields L by (rule owned_add [where g = "\<lambda>d. key64 (se_smf_seid d)", OF own(3) s]) simp_all
    moreover have "owned (uc_smf_f_seid_hash c') (live c') (\<lambda>n k. k = sess_f_seid_key (uc_sess c' n))"
      unfolding fields L by (rule owned_add [where g = sess_f_seid_key, OF own(4) s]) simp_all
    moreover have "\<forall>m \<in> live c'. hash_map (uc_upf_seid_hash c') (key64 (se_upf_n4_seid (uc_sess c' m))) = Some m"
    proof
      fix m
      assume "m \<in> live c'"
      then have "m = n \<or> m \<in> live c \<and> m \<noteq> n" using nL by (auto simp: L)
      moreover have "hash_ok (uc_upf_seid_hash c)" using K by (simp add: keys_inv_def owned_def)
      ultimately show "hash_map (uc_upf_seid_hash c') (key64 (se_upf_n4_seid (uc_sess c' m))) = Some m"
        using K seid_of_node [OF P _ t'(1,4)] s sn(3) by (auto simp: fields hash_set_correct keys_inv_def)
    qed
    ultimately show ?thesis by (simp add: keys_inv_def)
  qed
  moreover have "addr_inv c'"
    using A s by (auto simp: addr_inv_def fields L has_key4_def has_key6_def intro: owned_mono)
  moreover have "route_inv c'"
    using R s sn(5,6) unfolding route_inv_def by (auto simp: fields L) (auto simp: c' Let_def zero_sess_def route_array_None)
  ultimately show "ctx_inv c'" by (simp add: ctx_inv_def)
qed

section \<open>UE addresses\<close>

text \<open>A step on the addresses of session \<open>n\<close>; no entry designates it in \<open>unbound4\<close>.\<close>

definition addr_step :: "nat \<Rightarrow> 'c upf_context \<Rightarrow> 'c upf_context \<Rightarrow> bool" where
  "addr_step n c c' \<longleftrightarrow> same_index c c' \<and> uc_routes4 c' = uc_routes4 c \<and> uc_routes6 c' = uc_routes6 c \<and>
     (\<forall>m. se_routes4 (uc_sess c' m) = se_routes4 (uc_sess c m) \<and>
          se_routes6 (uc_sess c' m) = se_routes6 (uc_sess c m)) \<and>
     (\<forall>m. m \<noteq> n \<longrightarrow> uc_sess c' m = uc_sess c m) \<and> uc_pfcp c' = uc_pfcp c"

definition unbound4 :: "nat \<Rightarrow> 'c upf_context \<Rightarrow> bool" where
  "unbound4 n c \<longleftrightarrow> (\<forall>k. hash_map (uc_ipv4_hash c) k \<noteq> Some n)"

definition unbound6 :: "nat \<Rightarrow> 'c upf_context \<Rightarrow> bool" where
  "unbound6 n c \<longleftrightarrow> (\<forall>k. hash_map (uc_ipv6_hash c) k \<noteq> Some n)"

lemma addr_step_refl [simp]: "addr_step n c c"
  by (simp add: addr_step_def)

lemma addr_step_trans: "addr_step n a b \<Longrightarrow> addr_step n b c \<Longrightarrow> addr_step n a c"
  by (auto simp: addr_step_def intro: same_index_trans)

lemma addr_step_inv:
  assumes "addr_step n c c'" "ctx_inv c" "addr_inv c'"
  shows "ctx_inv c'"
  using assms same_index_inv [of c c']
  by (auto simp: ctx_inv_def addr_step_def route_inv_def routes_of_def)

lemma released4_owned:
  assumes "owned (uc_ipv4_hash c) (live c) (has_key4 c)"
  shows "owned (released4 n c) (live c) (has_key4 c)" "hash_map (released4 n c) k \<noteq> Some n"
proof -
  show "owned (released4 n c) (live c) (has_key4 c)"
    using assms by (auto simp: released4_def split: option.splits intro: owned_delete)
  show "hash_map (released4 n c) k \<noteq> Some n"
  proof
    assume b: "hash_map (released4 n c) k = Some n"
    have o: "hash_ok (uc_ipv4_hash c)" "\<And>k m. hash_map (uc_ipv4_hash c) k = Some m \<Longrightarrow> has_key4 c m k"
      using assms by (auto simp: owned_def)
    show False
      using b o(1) o(2) [of k n]
      by (auto simp: released4_def hash_set_correct has_key4_def split: option.splits if_splits)
  qed
qed

lemma released6_owned:
  assumes "owned (uc_ipv6_hash c) (live c) (has_key6 c)"
  shows "owned (released6 n c) (live c) (has_key6 c)" "hash_map (released6 n c) k \<noteq> Some n"
proof -
  show "owned (released6 n c) (live c) (has_key6 c)"
    using assms by (auto simp: released6_def split: option.splits intro: owned_delete)
  show "hash_map (released6 n c) k \<noteq> Some n"
  proof
    assume b: "hash_map (released6 n c) k = Some n"
    have o: "hash_ok (uc_ipv6_hash c)" "\<And>k m. hash_map (uc_ipv6_hash c) k = Some m \<Longrightarrow> has_key6 c m k"
      using assms by (auto simp: owned_def)
    show False
      using b o(1) o(2) [of k n]
      by (auto simp: released6_def hash_set_correct has_key6_def split: option.splits if_splits)
  qed
qed

lemma release4_ok:
  assumes "addr_inv c" "release_ipv4 n c = Ret c'"
  shows "addr_step n c c'" "addr_inv c'" "unbound4 n c'" "unbound6 n c' = unbound6 n c"
    "uc_sess c' = uc_sess c"
proof -
  obtain S sn where c': "c' = c\<lparr>uc_ipv4_hash := released4 n c, uc_static := S, uc_subnets := sn\<rparr>"
    using assms(2) by (rule release_ipv4_frame)
  then have k: "has_key4 c' = has_key4 c" "has_key6 c' = has_key6 c" "live c' = live c"
    by (auto simp: has_key4_def has_key6_def live_def fun_eq_iff)
  have o: "owned (uc_ipv4_hash c) (live c) (has_key4 c)" using assms(1) by (simp add: addr_inv_def)
  show "addr_step n c c'" by (simp add: c' addr_step_def same_index_def)
  show "addr_inv c'" using assms(1) released4_owned(1) [OF o] by (simp add: addr_inv_def k) (simp add: c')
  show "unbound4 n c'" using released4_owned(2) [OF o] by (simp add: unbound4_def c')
  show "unbound6 n c' = unbound6 n c" "uc_sess c' = uc_sess c" by (simp_all add: unbound6_def c')
qed

lemma release6_ok:
  assumes "addr_inv c" "release_ipv6 n c = Ret c'"
  shows "addr_step n c c'" "addr_inv c'" "unbound6 n c'" "unbound4 n c' = unbound4 n c"
    "uc_sess c' = uc_sess c"
proof -
  obtain S sn where c': "c' = c\<lparr>uc_ipv6_hash := released6 n c, uc_static := S, uc_subnets := sn\<rparr>"
    using assms(2) by (rule release_ipv6_frame)
  then have k: "has_key4 c' = has_key4 c" "has_key6 c' = has_key6 c" "live c' = live c"
    by (auto simp: has_key4_def has_key6_def live_def fun_eq_iff)
  have o: "owned (uc_ipv6_hash c) (live c) (has_key6 c)" using assms(1) by (simp add: addr_inv_def)
  show "addr_step n c c'" by (simp add: c' addr_step_def same_index_def)
  show "addr_inv c'" using assms(1) released6_owned(1) [OF o] by (simp add: addr_inv_def k) (simp add: c')
  show "unbound6 n c'" using released6_owned(2) [OF o] by (simp add: unbound6_def c')
  show "unbound4 n c' = unbound4 n c" "uc_sess c' = uc_sess c" by (simp_all add: unbound4_def c')
qed

lemma owned_unbound:
  assumes "owned h L key" "\<forall>k. hash_map h k \<noteq> Some n"
  shows "owned h L (\<lambda>m k. m \<noteq> n \<and> key m k)"
  using assms by (auto simp: owned_def)

lemma set_ipv4_ok:
  assumes "addr_inv c" "unbound4 n c" "n \<in> live c"
    and c': "c' = (with_sess n (\<lambda>d. d\<lparr>se_ipv4 := r\<rparr>) c)\<lparr>uc_ipv4_hash :=
      (case r of None \<Rightarrow> uc_ipv4_hash c | Some ip \<Rightarrow> hash_set (uc_ipv4_hash c) (ui_key4 ip) (Some n))\<rparr>"
  shows "addr_step n c c'" "addr_inv c'" "unbound6 n c' = unbound6 n c"
proof -
  have k: "live c' = live c" "\<And>m. has_key4 c' m = (if m = n then (\<lambda>k. \<exists>ip. r = Some ip \<and> k = ui_key4 ip) else has_key4 c m)"
    "has_key6 c' = has_key6 c"
    by (auto simp: c' live_def has_key4_def has_key6_def with_sess_def fun_eq_iff)
  have o: "owned (uc_ipv4_hash c) (live c) (\<lambda>m k. m \<noteq> n \<and> has_key4 c m k)"
    using assms(1,2) by (auto simp: addr_inv_def unbound4_def intro: owned_unbound)
  have "owned (uc_ipv4_hash c') (live c') (has_key4 c')"
  proof (cases r)
    case None
    then have "uc_ipv4_hash c' = uc_ipv4_hash c" by (simp add: c' with_sess_def)
    moreover have "owned (uc_ipv4_hash c) (live c') (has_key4 c')"
      by (rule owned_mono [OF o]) (auto simp: k)
    ultimately show ?thesis by simp
  next
    case (Some ip)
    then have "uc_ipv4_hash c' = hash_set (uc_ipv4_hash c) (ui_key4 ip) (Some n)" by (simp add: c')
    moreover have "owned (hash_set (uc_ipv4_hash c) (ui_key4 ip) (Some n)) (live c') (has_key4 c')"
      by (rule owned_store [OF o]) (use assms(3) Some in \<open>auto simp: k\<close>)
    ultimately show ?thesis by simp
  qed
  moreover have "uc_ipv6_hash c' = uc_ipv6_hash c" by (simp add: c' with_sess_def)
  ultimately show "addr_inv c'" using assms(1) by (simp add: addr_inv_def k)
  show "addr_step n c c'"
    by (auto simp: c' addr_step_def same_index_def with_sess_def sess_f_seid_key_def)
  show "unbound6 n c' = unbound6 n c" by (simp add: c' unbound6_def with_sess_def)
qed

lemma set_ipv6_ok:
  assumes "addr_inv c" "unbound6 n c" "n \<in> live c"
    and c': "c' = (with_sess n (\<lambda>d. d\<lparr>se_ipv6 := r\<rparr>) c)\<lparr>uc_ipv6_hash :=
      (case r of None \<Rightarrow> uc_ipv6_hash c | Some ip \<Rightarrow> hash_set (uc_ipv6_hash c) (ui_key6 ip) (Some n))\<rparr>"
  shows "addr_step n c c'" "addr_inv c'" "unbound4 n c' = unbound4 n c"
proof -
  have k: "live c' = live c" "\<And>m. has_key6 c' m = (if m = n then (\<lambda>k. \<exists>ip. r = Some ip \<and> k = ui_key6 ip) else has_key6 c m)"
    "has_key4 c' = has_key4 c"
    by (auto simp: c' live_def has_key4_def has_key6_def with_sess_def fun_eq_iff)
  have o: "owned (uc_ipv6_hash c) (live c) (\<lambda>m k. m \<noteq> n \<and> has_key6 c m k)"
    using assms(1,2) by (auto simp: addr_inv_def unbound6_def intro: owned_unbound)
  have "owned (uc_ipv6_hash c') (live c') (has_key6 c')"
  proof (cases r)
    case None
    then have "uc_ipv6_hash c' = uc_ipv6_hash c" by (simp add: c' with_sess_def)
    moreover have "owned (uc_ipv6_hash c) (live c') (has_key6 c')"
      by (rule owned_mono [OF o]) (auto simp: k)
    ultimately show ?thesis by simp
  next
    case (Some ip)
    then have "uc_ipv6_hash c' = hash_set (uc_ipv6_hash c) (ui_key6 ip) (Some n)" by (simp add: c')
    moreover have "owned (hash_set (uc_ipv6_hash c) (ui_key6 ip) (Some n)) (live c') (has_key6 c')"
      by (rule owned_store [OF o]) (use assms(3) Some in \<open>auto simp: k\<close>)
    ultimately show ?thesis by simp
  qed
  moreover have "uc_ipv4_hash c' = uc_ipv4_hash c" by (simp add: c' with_sess_def)
  ultimately show "addr_inv c'" using assms(1) by (simp add: addr_inv_def k)
  show "addr_step n c c'"
    by (auto simp: c' addr_step_def same_index_def with_sess_def sess_f_seid_key_def)
  show "unbound4 n c' = unbound4 n c" by (simp add: c' unbound4_def with_sess_def)
qed

lemma alloc_step:
  assumes "ogs_pfcp_ue_ip_alloc f dnn addr c = (c1, r)" "addr_inv c"
  shows "addr_step n c c1" "addr_inv c1" "unbound4 m c1 = unbound4 m c" "unbound6 m c1 = unbound6 m c"
    "live c1 = live c" "uc_sess c1 = uc_sess c"
proof -
  obtain S nx sn where c1: "c1 = c\<lparr>uc_static := S, uc_next_static := nx, uc_subnets := sn\<rparr>"
    using assms(1) by (rule ue_ip_alloc_frame)
  then have k: "has_key4 c1 = has_key4 c" "has_key6 c1 = has_key6 c" "live c1 = live c"
    by (auto simp: has_key4_def has_key6_def live_def fun_eq_iff)
  show "addr_step n c c1" "unbound4 m c1 = unbound4 m c" "unbound6 m c1 = unbound6 m c"
    "uc_sess c1 = uc_sess c"
    by (simp_all add: c1 addr_step_def same_index_def unbound4_def unbound6_def)
  show "addr_inv c1" using assms(2) by (simp add: addr_inv_def k) (simp add: c1)
  show "live c1 = live c" by (rule k)
qed

lemma assign_ipv4_ok:
  assumes inv: "addr_inv c" "unbound4 n c" "n \<in> live c" and a: "assign_ipv4 n flag dnn addr c = (c', cause)"
  shows "addr_step n c c' \<and> addr_inv c' \<and> (unbound6 n c' \<longleftrightarrow> unbound6 n c) \<and>
    (cause \<noteq> OGS_PFCP_CAUSE_REQUEST_ACCEPTED \<longrightarrow> se_ipv4 (uc_sess c' n) = None \<and> unbound4 n c')"
proof (cases "flag \<or> dnn \<noteq> None")
  case True
  obtain c1 r where r: "ogs_pfcp_ue_ip_alloc AF_INET dnn addr c = (c1, r)"
    by (cases "ogs_pfcp_ue_ip_alloc AF_INET dnn addr c")
  note st = alloc_step [OF r inv(1)]
  define ro where "ro = (case r of Inl _ \<Rightarrow> None | Inr ip \<Rightarrow> Some ip)"
  define c2 where "c2 = (with_sess n (\<lambda>d. d\<lparr>se_ipv4 := ro\<rparr>) c1)\<lparr>uc_ipv4_hash :=
      (case ro of None \<Rightarrow> uc_ipv4_hash c1 | Some ip \<Rightarrow> hash_set (uc_ipv4_hash c1) (ui_key4 ip) (Some n))\<rparr>"
  have c': "c' = c2" "r = Inl x \<Longrightarrow> unbound4 n c1 \<Longrightarrow> unbound4 n c2 \<and> se_ipv4 (uc_sess c2 n) = None"
    "cause \<noteq> OGS_PFCP_CAUSE_REQUEST_ACCEPTED \<Longrightarrow> r = Inl cause" for x
    using True r a by (auto simp: assign_ipv4_def c2_def ro_def with_sess_def unbound4_def split: sum.splits)
  have "unbound4 n c1" "n \<in> live c1" using inv(2,3) st by simp_all
  note s = set_ipv4_ok [OF st(2) this c2_def]
  show ?thesis
    using s(2,3) addr_step_trans [OF st(1) s(1)] c'(2) [of cause] c'(3) st(4) [of n] \<open>unbound4 n c1\<close>
    by (simp add: c'(1))
next
  case False
  with a inv show ?thesis by (auto simp: assign_ipv4_def)
qed

lemma assign_ipv6_ok:
  assumes inv: "addr_inv c" "unbound6 n c" "n \<in> live c" and a: "assign_ipv6 n flag dnn addr c = (c', cause)"
  shows "addr_step n c c' \<and> addr_inv c' \<and> (unbound4 n c' \<longleftrightarrow> unbound4 n c)"
proof (cases "flag \<or> dnn \<noteq> None")
  case True
  obtain c1 r where r: "ogs_pfcp_ue_ip_alloc AF_INET6 dnn addr c = (c1, r)"
    by (cases "ogs_pfcp_ue_ip_alloc AF_INET6 dnn addr c")
  note st = alloc_step [OF r inv(1)]
  define ro where "ro = (case r of Inl _ \<Rightarrow> None | Inr ip \<Rightarrow> Some ip)"
  define c2 where "c2 = (with_sess n (\<lambda>d. d\<lparr>se_ipv6 := ro\<rparr>) c1)\<lparr>uc_ipv6_hash :=
      (case ro of None \<Rightarrow> uc_ipv6_hash c1 | Some ip \<Rightarrow> hash_set (uc_ipv6_hash c1) (ui_key6 ip) (Some n))\<rparr>"
  have c': "c' = c2"
    using True r a by (auto simp: assign_ipv6_def c2_def ro_def with_sess_def split: sum.splits)
  have "unbound6 n c1" "n \<in> live c1" using inv(2,3) st by simp_all
  note s = set_ipv6_ok [OF st(2) this c2_def]
  show ?thesis
    using s(2,3) addr_step_trans [OF st(1) s(1)] c' st(3) by blast
next
  case False
  with a inv show ?thesis by (auto simp: assign_ipv6_def)
qed

lemma log_ue_ip_Ret [simp]: "log_ue_ip n r = Ret r' \<Longrightarrow> r' = r"
  by (auto simp: log_ue_ip_def Let_def split: if_splits)

lemma addr_step_live: "addr_step n c c' \<Longrightarrow> live c' = live c"
  by (simp add: addr_step_def same_index_inv)

lemma clear_ipv4_ok:
  assumes "addr_inv c" "unbound4 n c" "n \<in> live c"
  shows "addr_step n c (with_sess n (\<lambda>d. d\<lparr>se_ipv4 := None\<rparr>) c) \<and> addr_inv (with_sess n (\<lambda>d. d\<lparr>se_ipv4 := None\<rparr>) c)"
proof -
  have "with_sess n (\<lambda>d. d\<lparr>se_ipv4 := None\<rparr>) c = (with_sess n (\<lambda>d. d\<lparr>se_ipv4 := None\<rparr>) c)\<lparr>uc_ipv4_hash :=
      (case None of None \<Rightarrow> uc_ipv4_hash c | Some ip \<Rightarrow> hash_set (uc_ipv4_hash c) (ui_key4 ip) (Some n))\<rparr>"
    by (simp add: with_sess_def)
  from set_ipv4_ok [OF assms this] show ?thesis by simp
qed

lemma set_ue_ip_both_ok:
  assumes inv: "addr_inv c" "unbound4 n c" "unbound6 n c" "n \<in> live c"
    and a: "assign_ipv4 n f4 dnn a4 c = (c1, cause1)" and b: "assign_ipv6 n f6 dnn a6 c1 = (c2, cause2)"
  shows "addr_step n c c2 \<and> addr_inv c2 \<and>
    (\<forall>c3. release_ipv4 n c2 = Ret c3 \<longrightarrow>
       addr_step n c (with_sess n (\<lambda>d. d\<lparr>se_ipv4 := None\<rparr>) c3) \<and>
       addr_inv (with_sess n (\<lambda>d. d\<lparr>se_ipv4 := None\<rparr>) c3))"
proof -
  have A: "addr_step n c c1" "addr_inv c1" "unbound6 n c1" using assign_ipv4_ok [OF inv(1,2,4) a] inv(3) by simp_all
  have B: "addr_step n c1 c2" "addr_inv c2"
    using assign_ipv6_ok [OF A(2,3) _ b] inv(4) addr_step_live [OF A(1)] by simp_all
  have L: "n \<in> live c2" using inv(4) addr_step_live [OF A(1)] addr_step_live [OF B(1)] by simp
  have AB: "addr_step n c c2" using A(1) B(1) by (rule addr_step_trans)
  have "addr_step n c (with_sess n (\<lambda>d. d\<lparr>se_ipv4 := None\<rparr>) c3) \<and> addr_inv (with_sess n (\<lambda>d. d\<lparr>se_ipv4 := None\<rparr>) c3)"
    if r: "release_ipv4 n c2 = Ret c3" for c3
    using release4_ok [OF B(2) r] clear_ipv4_ok [of c3 n] AB L addr_step_trans addr_step_live by metis
  with AB B(2) show ?thesis by blast
qed

lemma set_ue_ip_ok:
  assumes inv: "addr_inv c" "n \<in> live c" and s: "upf_sess_set_ue_ip n ty p c = Ret (c', cause)"
  shows "addr_step n c c' \<and> addr_inv c'"
proof -
  let ?dnn = "pdr_dnn (pc_pdr (uc_pfcp c) p)"
  obtain ua c1 c2 where ua: "pdr_ue_ip (pc_pdr (uc_pfcp c) p) = Some ua"
    and r4: "release_ipv4 n c = Ret c1" and r6: "release_ipv6 n c1 = Ret c2"
    using s by (auto simp: upf_sess_set_ue_ip_def Let_def split: option.splits)
  note A = release4_ok [OF inv(1) r4] and B = release6_ok [OF release4_ok(2) [OF inv(1) r4] r6]
  have AB: "addr_step n c c2" using A(1) B(1) by (rule addr_step_trans)
  have U: "unbound4 n c2" "unbound6 n c2" "n \<in> live c2" "addr_inv c2"
    using A B inv(2) addr_step_live [OF AB] by simp_all
  obtain d4 x4 where a4: "assign_ipv4 n (ua_ipv4 ua) ?dnn [ua_word ua 0] c2 = (d4, x4)" by fastforce
  obtain d6 x6 where a6: "assign_ipv6 n (ua_ipv6 ua) ?dnn (map (ua_word ua) [0..<4]) c2 = (d6, x6)" by fastforce
  obtain d46 x46 where a46: "assign_ipv6 n (ua_ipv6 ua) ?dnn (map (ua_word ua) [1..<5]) d4 = (d46, x46)" by fastforce
  have I: "addr_step n c2 d4 \<and> addr_inv d4" "addr_step n c2 d6 \<and> addr_inv d6"
    "addr_step n c2 d46 \<and> addr_inv d46"
    using assign_ipv4_ok [OF U(4,1,3) a4] assign_ipv6_ok [OF U(4,2,3) a6]
      set_ue_ip_both_ok [OF U(4,1,2,3) a4 a46] by blast+
  have "addr_step n c2 c' \<and> addr_inv c'"
    using s U(4) I set_ue_ip_both_ok [OF U(4,1,2,3) a4 a46]
    by (auto simp: upf_sess_set_ue_ip_def ua r4 r6 a4 a6 a46 Let_def dest!: log_ue_ip_Ret simp del: upt_rec_numeral One_nat_def
        split: if_splits)
  with AB show ?thesis using addr_step_trans by blast
qed

section \<open>Framed routes\<close>

lemma prefixes_mono:
  "set rs \<subseteq> set rs' \<Longrightarrow> prefixes4 rs \<subseteq> prefixes4 rs'"
  "set rs \<subseteq> set rs' \<Longrightarrow> prefixes6 rs \<subseteq> prefixes6 rs'"
  by (auto simp: prefixes4_def prefixes6_def)

lemma prefixes_append:
  "prefixes4 (rs @ rs') = prefixes4 rs \<union> prefixes4 rs'"
  "prefixes6 (rs @ rs') = prefixes6 rs \<union> prefixes6 rs'"
  by (auto simp: prefixes4_def prefixes6_def)

lemma prefixes_Nil [simp]: "prefixes4 [] = {}" "prefixes6 [] = {}"
  by (simp_all add: prefixes4_def prefixes6_def)

text \<open>
  The tries after the routes \<open>old\<close> of session \<open>n\<close> have been replaced by \<open>ns\<close>, when the session
  goes on to list what is bound for it.
\<close>

definition replace_routes :: "nat \<Rightarrow> ipsubnet list \<Rightarrow> ipsubnet list \<Rightarrow> 'c upf_context \<Rightarrow> 'c upf_context" where
  "replace_routes n old ns c = fold (\<lambda>r. add_route r n) ns (fold free_route old c)"

lemma replace_routes_tries [simp]: "only_tries c (replace_routes n old ns c)"
  unfolding replace_routes_def by (rule only_tries_trans [OF fold_only_tries fold_only_tries]) simp_all

lemma replace_routes_maps:
  "trie_map (uc_routes4 (replace_routes n old ns c)) p =
     (if p \<in> prefixes4 ns then Some n else if p \<in> prefixes4 old then None else trie_map (uc_routes4 c) p)"
  "trie_map (uc_routes6 (replace_routes n old ns c)) p =
     (if p \<in> prefixes6 ns then Some n else if p \<in> prefixes6 old then None else trie_map (uc_routes6 c) p)"
  by (simp_all add: replace_routes_def fold_add_routes fold_free_routes)

lemma only_tries_fields:
  assumes "only_tries c c'"
  shows "uc_sess c' = uc_sess c" "uc_sess_pool c' = uc_sess_pool c" "uc_seid_pool c' = uc_seid_pool c"
    "uc_seids c' = uc_seids c" "uc_upf_seid_hash c' = uc_upf_seid_hash c"
    "uc_smf_seid_hash c' = uc_smf_seid_hash c" "uc_smf_f_seid_hash c' = uc_smf_f_seid_hash c"
    "uc_ipv4_hash c' = uc_ipv4_hash c" "uc_ipv6_hash c' = uc_ipv6_hash c" "uc_list c' = uc_list c"
    "uc_pfcp c' = uc_pfcp c" "uc_static c' = uc_static c" "uc_timers c' = uc_timers c"
proof -
  have c': "c' = c\<lparr>uc_routes4 := uc_routes4 c', uc_routes6 := uc_routes6 c'\<rparr>"
    using assms unfolding only_tries_def .
  show "uc_sess c' = uc_sess c" "uc_sess_pool c' = uc_sess_pool c" "uc_seid_pool c' = uc_seid_pool c"
    "uc_seids c' = uc_seids c" "uc_upf_seid_hash c' = uc_upf_seid_hash c"
    "uc_smf_seid_hash c' = uc_smf_seid_hash c" "uc_smf_f_seid_hash c' = uc_smf_f_seid_hash c"
    "uc_ipv4_hash c' = uc_ipv4_hash c" "uc_ipv6_hash c' = uc_ipv6_hash c" "uc_list c' = uc_list c"
    "uc_pfcp c' = uc_pfcp c" "uc_static c' = uc_static c" "uc_timers c' = uc_timers c"
    by (subst c', simp)+
qed

lemma replace_routes_inv:
  assumes R: "route_inv c" and n: "n \<in> live c"
    and ns: "set ns \<subseteq> set (routes_of (f (uc_sess c n)))"
    and old: "set (routes_of (uc_sess c n)) \<subseteq> set old \<union> set (routes_of (f (uc_sess c n)))"
    and len: "length (route_array (se_routes4 (f (uc_sess c n)))) = OGS_MAX_NUM_OF_FRAMED_ROUTES_IN_PDI"
      "length (route_array (se_routes6 (f (uc_sess c n)))) = OGS_MAX_NUM_OF_FRAMED_ROUTES_IN_PDI"
  shows "route_inv (with_sess n f (replace_routes n old ns c))"
proof -
  let ?c = "with_sess n f (replace_routes n old ns c)"
  have s: "uc_sess ?c = (uc_sess c)(n := f (uc_sess c n))" "live ?c = live c"
    "uc_routes4 ?c = uc_routes4 (replace_routes n old ns c)" "uc_routes6 ?c = uc_routes6 (replace_routes n old ns c)"
    using only_tries_fields [OF replace_routes_tries [of c n old ns]] by (simp_all add: with_sess_def live_def)
  have p: "prefixes4 ns \<subseteq> prefixes4 (routes_of (f (uc_sess c n)))"
    "prefixes6 ns \<subseteq> prefixes6 (routes_of (f (uc_sess c n)))"
    "prefixes4 (routes_of (uc_sess c n)) \<subseteq> prefixes4 old \<union> prefixes4 (routes_of (f (uc_sess c n)))"
    "prefixes6 (routes_of (uc_sess c n)) \<subseteq> prefixes6 old \<union> prefixes6 (routes_of (f (uc_sess c n)))"
    using prefixes_mono [OF ns] prefixes_mono [of "routes_of (uc_sess c n)" "old @ routes_of (f (uc_sess c n))"] old
    by (simp_all add: prefixes_append)
  have R4: "m \<in> live c \<and> p \<in> prefixes4 (routes_of (uc_sess c m))" if "trie_map (uc_routes4 c) p = Some m" for p m
    using R that by (auto simp: route_inv_def)
  have R6: "m \<in> live c \<and> p \<in> prefixes6 (routes_of (uc_sess c m))" if "trie_map (uc_routes6 c) p = Some m" for p m
    using R that by (auto simp: route_inv_def)
  have "m \<in> live ?c \<and> p \<in> prefixes4 (routes_of (uc_sess ?c m))" if "trie_map (uc_routes4 ?c) p = Some m" for p m
    using that R4 [of p m] p(1,3) n by (auto simp: s replace_routes_maps split: if_splits)
  moreover have "m \<in> live ?c \<and> p \<in> prefixes6 (routes_of (uc_sess ?c m))" if "trie_map (uc_routes6 ?c) p = Some m" for p m
    using that R6 [of p m] p(2,4) n by (auto simp: s replace_routes_maps split: if_splits)
  moreover have "\<forall>m. length (route_array (se_routes4 (uc_sess ?c m))) = OGS_MAX_NUM_OF_FRAMED_ROUTES_IN_PDI \<and>
      length (route_array (se_routes6 (uc_sess ?c m))) = OGS_MAX_NUM_OF_FRAMED_ROUTES_IN_PDI"
    using R len by (auto simp: s route_inv_def)
  ultimately show ?thesis unfolding route_inv_def by blast
qed

lemma set_ipv4_routes_eq:
  assumes "upf_sess_set_ue_ipv4_framed_routes pton6 pton4 n routes c = (c', cause)"
    and "length (route_array (se_routes4 (uc_sess c n))) = OGS_MAX_NUM_OF_FRAMED_ROUTES_IN_PDI"
  obtains ns rs where "c' = with_sess n (\<lambda>d. d\<lparr>se_routes4 := rs\<rparr>) (replace_routes n (active (se_routes4 (uc_sess c n))) ns c)"
    "set ns \<subseteq> set (active rs)" "length (route_array rs) = OGS_MAX_NUM_OF_FRAMED_ROUTES_IN_PDI"
    "rs = None \<longleftrightarrow> ns = []" "take (length ns) (route_array rs) = ns" "routes = None \<longrightarrow> ns = []"
    "cause = OGS_PFCP_CAUSE_REQUEST_ACCEPTED"
proof -
  obtain rs c1 where r: "set_routes pton6 pton4 True n routes (se_routes4 (uc_sess c n)) c = (rs, c1)"
    by fastforce
  from set_routes_spec [OF r assms(2)] r assms(1) that show ?thesis
    unfolding replace_routes_def upf_sess_set_ue_ipv4_framed_routes_def by auto
qed

lemma set_ipv6_routes_eq:
  assumes "upf_sess_set_ue_ipv6_framed_routes pton6 pton4 n routes c = (c', cause)"
    and "length (route_array (se_routes6 (uc_sess c n))) = OGS_MAX_NUM_OF_FRAMED_ROUTES_IN_PDI"
  obtains ns rs where "c' = with_sess n (\<lambda>d. d\<lparr>se_routes6 := rs\<rparr>) (replace_routes n (active (se_routes6 (uc_sess c n))) ns c)"
    "set ns \<subseteq> set (active rs)" "length (route_array rs) = OGS_MAX_NUM_OF_FRAMED_ROUTES_IN_PDI"
    "rs = None \<longleftrightarrow> ns = []" "take (length ns) (route_array rs) = ns" "routes = None \<longrightarrow> ns = []"
    "cause = OGS_PFCP_CAUSE_REQUEST_ACCEPTED"
proof -
  obtain rs c1 where r: "set_routes pton6 pton4 False n routes (se_routes6 (uc_sess c n)) c = (rs, c1)"
    by fastforce
  from set_routes_spec [OF r assms(2)] r assms(1) that show ?thesis
    unfolding replace_routes_def upf_sess_set_ue_ipv6_framed_routes_def by auto
qed

text \<open>What setting the routes leaves alone: everything but the tries and the two arrays.\<close>

definition route_step :: "nat \<Rightarrow> 'c upf_context \<Rightarrow> 'c upf_context \<Rightarrow> bool" where
  "route_step n c c' \<longleftrightarrow> same_index c c' \<and> uc_ipv4_hash c' = uc_ipv4_hash c \<and> uc_ipv6_hash c' = uc_ipv6_hash c \<and>
     uc_static c' = uc_static c \<and> uc_pfcp c' = uc_pfcp c \<and> uc_timers c' = uc_timers c \<and>
     (\<forall>m. m \<noteq> n \<longrightarrow> uc_sess c' m = uc_sess c m) \<and>
     (\<forall>m. se_ipv4 (uc_sess c' m) = se_ipv4 (uc_sess c m) \<and> se_ipv6 (uc_sess c' m) = se_ipv6 (uc_sess c m))"

lemma route_step_trans: "route_step n a b \<Longrightarrow> route_step n b c \<Longrightarrow> route_step n a c"
  by (auto simp: route_step_def intro: same_index_trans)

lemma route_step_inv:
  assumes "route_step n c c'" "ctx_inv c" "route_inv c'"
  shows "ctx_inv c'"
proof -
  have "has_key4 c' = has_key4 c" "has_key6 c' = has_key6 c"
    using assms(1) by (auto simp: route_step_def has_key4_def has_key6_def fun_eq_iff)
  with assms same_index_inv [of c c'] show ?thesis
    by (auto simp: ctx_inv_def route_step_def addr_inv_def)
qed

lemma with_routes_step:
  assumes "only_tries c c1"
  shows "route_step n c (with_sess n (\<lambda>d. d\<lparr>se_routes4 := rs\<rparr>) c1)"
    "route_step n c (with_sess n (\<lambda>d. d\<lparr>se_routes6 := rs\<rparr>) c1)"
  using only_tries_fields [OF assms]
  by (simp_all add: route_step_def with_sess_def same_index_def sess_f_seid_key_def)

lemma set_routes_ok:
  assumes "ctx_inv c" "n \<in> live c"
  shows "upf_sess_set_ue_ipv4_framed_routes pton6 pton4 n routes c = (c', cause) \<Longrightarrow> ctx_inv c' \<and> route_step n c c'"
    and "upf_sess_set_ue_ipv6_framed_routes pton6 pton4 n routes c = (c', cause) \<Longrightarrow> ctx_inv c' \<and> route_step n c c'"
proof -
  have R: "route_inv c" using assms(1) by (simp add: ctx_inv_def)
  then have len: "length (route_array (se_routes4 (uc_sess c n))) = OGS_MAX_NUM_OF_FRAMED_ROUTES_IN_PDI"
    "length (route_array (se_routes6 (uc_sess c n))) = OGS_MAX_NUM_OF_FRAMED_ROUTES_IN_PDI"
    by (simp_all add: route_inv_def)
  show "ctx_inv c' \<and> route_step n c c'" if e: "upf_sess_set_ue_ipv4_framed_routes pton6 pton4 n routes c = (c', cause)"
    using e len(1)
  proof (rule set_ipv4_routes_eq)
    fix ns rs
    assume c': "c' = with_sess n (\<lambda>d. d\<lparr>se_routes4 := rs\<rparr>) (replace_routes n (active (se_routes4 (uc_sess c n))) ns c)"
      and ns: "set ns \<subseteq> set (active rs)" "length (route_array rs) = OGS_MAX_NUM_OF_FRAMED_ROUTES_IN_PDI"
    have "route_inv c'" unfolding c'
      by (rule replace_routes_inv [OF R assms(2)]) (use ns len in \<open>auto simp: routes_of_def\<close>)
    moreover have "route_step n c c'" unfolding c' by (rule with_routes_step) simp
    ultimately show ?thesis using route_step_inv assms(1) by blast
  qed
  show "ctx_inv c' \<and> route_step n c c'" if e: "upf_sess_set_ue_ipv6_framed_routes pton6 pton4 n routes c = (c', cause)"
    using e len(2)
  proof (rule set_ipv6_routes_eq)
    fix ns rs
    assume c': "c' = with_sess n (\<lambda>d. d\<lparr>se_routes6 := rs\<rparr>) (replace_routes n (active (se_routes6 (uc_sess c n))) ns c)"
      and ns: "set ns \<subseteq> set (active rs)" "length (route_array rs) = OGS_MAX_NUM_OF_FRAMED_ROUTES_IN_PDI"
    have "route_inv c'" unfolding c'
      by (rule replace_routes_inv [OF R assms(2)]) (use ns len in \<open>auto simp: routes_of_def\<close>)
    moreover have "route_step n c c'" unfolding c' by (rule with_routes_step) simp
    ultimately show ?thesis using route_step_inv assms(1) by blast
  qed
qed

section \<open>Removal\<close>

lemma drop_routes_ok:
  assumes "length (route_array (se_routes4 (uc_sess c n))) = OGS_MAX_NUM_OF_FRAMED_ROUTES_IN_PDI"
    "length (route_array (se_routes6 (uc_sess c n))) = OGS_MAX_NUM_OF_FRAMED_ROUTES_IN_PDI"
  obtains t4 t6 where "drop_routes n c =
      (with_sess n (\<lambda>d. d\<lparr>se_routes4 := None, se_routes6 := None\<rparr>) c)\<lparr>uc_routes4 := t4, uc_routes6 := t6\<rparr>"
    "\<And>p. trie_map t4 p = (if p \<in> prefixes4 (routes_of (uc_sess c n)) then None else trie_map (uc_routes4 c) p)"
    "\<And>p. trie_map t6 p = (if p \<in> prefixes6 (routes_of (uc_sess c n)) then None else trie_map (uc_routes6 c) p)"
proof -
  let ?r4 = "active (se_routes4 (uc_sess c n))" and ?r6 = "active (se_routes6 (uc_sess c n))"
  obtain c1 x1 where e1: "upf_sess_set_ue_ipv4_framed_routes (\<lambda>_. None) (\<lambda>_. None) n None c = (c1, x1)" by fastforce
  then have c1: "c1 = with_sess n (\<lambda>d. d\<lparr>se_routes4 := None\<rparr>) (replace_routes n ?r4 [] c)"
    using assms(1) by (rule set_ipv4_routes_eq) simp
  define b where "b = replace_routes n ?r4 [] c"
  have b: "only_tries c b" by (simp add: b_def)
  have s: "se_routes6 (uc_sess c1 n) = se_routes6 (uc_sess c n)"
    using only_tries_fields(1) [OF b] by (simp add: c1 b_def [symmetric] with_sess_def)
  obtain c2 x2 where e2: "upf_sess_set_ue_ipv6_framed_routes (\<lambda>_. None) (\<lambda>_. None) n None c1 = (c2, x2)" by fastforce
  then have c2: "c2 = with_sess n (\<lambda>d. d\<lparr>se_routes6 := None\<rparr>) (replace_routes n ?r6 [] c1)"
    using assms(2) s by (elim set_ipv6_routes_eq) simp_all
  define e where "e = replace_routes n ?r6 [] c1"
  have e: "e = c1\<lparr>uc_routes4 := uc_routes4 e, uc_routes6 := uc_routes6 e\<rparr>"
    using replace_routes_tries [of c1 n ?r6 "[]"] by (simp add: e_def only_tries_def)
  have b': "b = c\<lparr>uc_routes4 := uc_routes4 b, uc_routes6 := uc_routes6 b\<rparr>" using b by (simp add: only_tries_def)
  have "drop_routes n c = c2" by (simp add: drop_routes_def e1 e2)
  also have "\<dots> = with_sess n (\<lambda>d. d\<lparr>se_routes6 := None\<rparr>) (c1\<lparr>uc_routes4 := uc_routes4 e, uc_routes6 := uc_routes6 e\<rparr>)"
    using e by (simp add: c2 e_def)
  also have "\<dots> = (with_sess n (\<lambda>d. d\<lparr>se_routes4 := None, se_routes6 := None\<rparr>) c)
      \<lparr>uc_routes4 := uc_routes4 e, uc_routes6 := uc_routes6 e\<rparr>"
    unfolding c1 b_def [symmetric] by (subst b') (simp add: with_sess_def)
  finally have "drop_routes n c = (with_sess n (\<lambda>d. d\<lparr>se_routes4 := None, se_routes6 := None\<rparr>) c)
      \<lparr>uc_routes4 := uc_routes4 e, uc_routes6 := uc_routes6 e\<rparr>" .
  moreover have "uc_routes4 c1 = uc_routes4 b" "uc_routes6 c1 = uc_routes6 b"
    by (simp_all add: c1 b_def with_sess_def)
  ultimately show ?thesis
    by (intro that) (auto simp: e_def replace_routes_maps b_def routes_of_def prefixes_append)
qed

lemma remove_accounting_frame:
  assumes "remove_accounting n c = Ret c'"
  obtains as mgr where "c' = (with_sess n (\<lambda>d. d\<lparr>se_urr_acc := as\<rparr>) c)\<lparr>uc_timers := mgr\<rparr>"
  using assms that by (auto simp: remove_accounting_def)

text \<open>A context after a removal, field by field.\<close>

lemma sess_remove_fields:
  assumes rm: "upf_sess_remove n c = Ret c'"
    and len: "length (route_array (se_routes4 (uc_sess c n))) = OGS_MAX_NUM_OF_FRAMED_ROUTES_IN_PDI"
      "length (route_array (se_routes6 (uc_sess c n))) = OGS_MAX_NUM_OF_FRAMED_ROUTES_IN_PDI"
  shows "uc_list c' = remove1 n (uc_list c)" "\<And>m. m \<noteq> n \<Longrightarrow> uc_sess c' m = uc_sess c m"
    "uc_seids c' = uc_seids c" "uc_seid_pool c' = ogs_pool_free (uc_seid_pool c) (se_seid_node (uc_sess c n))"
    "ogs_pool_id_free (uc_sess_pool c) n (se_id (uc_sess c n)) = Ret (uc_sess_pool c')"
    "uc_upf_seid_hash c' = hash_set (uc_upf_seid_hash c) (key64 (se_upf_n4_seid (uc_sess c n))) None"
    "uc_smf_seid_hash c' = hash_set (uc_smf_seid_hash c) (key64 (se_smf_seid (uc_sess c n))) None"
    "uc_smf_f_seid_hash c' = hash_set (uc_smf_f_seid_hash c) (sess_f_seid_key (uc_sess c n)) None"
    "uc_ipv4_hash c' = released4 n c" "uc_ipv6_hash c' = released6 n c"
    "\<And>p. trie_map (uc_routes4 c') p =
       (if p \<in> prefixes4 (routes_of (uc_sess c n)) then None else trie_map (uc_routes4 c) p)"
    "\<And>p. trie_map (uc_routes6 c') p =
       (if p \<in> prefixes6 (routes_of (uc_sess c n)) then None else trie_map (uc_routes6 c) p)"
    "se_routes4 (uc_sess c' n) = None" "se_routes6 (uc_sess c' n) = None"
proof -
  from rm obtain c1 pfcp c3 c4 pool where c1: "remove_accounting n c = Ret c1"
    and c3_0: "release_ipv4 n (drop_keys n (c1\<lparr>uc_list := remove1 n (uc_list c1), uc_pfcp := pfcp\<rparr>)) = Ret c3"
    and c4: "release_ipv6 n c3 = Ret c4"
    and pool_0: "ogs_pool_id_free (uc_sess_pool (drop_routes n c4)) n (se_id (uc_sess (drop_routes n c4) n)) = Ret pool"
    and c'_0: "c' = (drop_routes n c4)\<lparr>uc_seid_pool := ogs_pool_free (uc_seid_pool (drop_routes n c4))
        (se_seid_node (uc_sess (drop_routes n c4) n)), uc_sess_pool := pool\<rparr>"
    unfolding upf_sess_remove_def Let_def by (simp only: exec_bind_eq_Ret exec.inject) blast
  obtain as mgr where c1': "c1 = (with_sess n (\<lambda>d. d\<lparr>se_urr_acc := as\<rparr>) c)\<lparr>uc_timers := mgr\<rparr>"
    using c1 by (rule remove_accounting_frame)
  define c2 where "c2 = drop_keys n (c1\<lparr>uc_list := remove1 n (uc_list c1), uc_pfcp := pfcp\<rparr>)"
  have c3: "release_ipv4 n c2 = Ret c3" using c3_0 by (simp add: c2_def)
  obtain S sn where c3': "c3 = c2\<lparr>uc_ipv4_hash := released4 n c2, uc_static := S, uc_subnets := sn\<rparr>"
    using c3 by (rule release_ipv4_frame)
  obtain S' sn' where c4': "c4 = c3\<lparr>uc_ipv6_hash := released6 n c3, uc_static := S', uc_subnets := sn'\<rparr>"
    using c4 by (rule release_ipv6_frame)
  have sess4: "uc_sess c4 = (uc_sess c)(n := (uc_sess c n)\<lparr>se_urr_acc := as\<rparr>)"
    "uc_routes4 c4 = uc_routes4 c" "uc_routes6 c4 = uc_routes6 c"
    by (simp_all add: c4' c3' c2_def drop_keys_def c1' with_sess_def Let_def)
  obtain t4 t6 where c5: "drop_routes n c4 =
      (with_sess n (\<lambda>d. d\<lparr>se_routes4 := None, se_routes6 := None\<rparr>) c4)\<lparr>uc_routes4 := t4, uc_routes6 := t6\<rparr>"
    and t: "\<And>p. trie_map t4 p = (if p \<in> prefixes4 (routes_of (uc_sess c4 n)) then None else trie_map (uc_routes4 c4) p)"
    "\<And>p. trie_map t6 p = (if p \<in> prefixes6 (routes_of (uc_sess c4 n)) then None else trie_map (uc_routes6 c4) p)"
    by (rule drop_routes_ok [of c4 n]) (use len in \<open>auto simp: sess4\<close>)
  have rl: "released4 n c2 = released4 n c" "released6 n c3 = released6 n c"
    by (simp_all add: released4_def released6_def c3' c2_def c1' drop_keys_def with_sess_def Let_def split: option.split)
  have c4p: "uc_sess_pool c4 = uc_sess_pool c" "uc_seid_pool c4 = uc_seid_pool c"
    by (simp_all add: c4' c3' c2_def drop_keys_def c1' with_sess_def Let_def)
  have pool: "ogs_pool_id_free (uc_sess_pool c) n (se_id (uc_sess c n)) = Ret pool"
    using pool_0 by (simp add: c5 with_sess_def sess4 c4p)
  have c': "c' = (drop_routes n c4)\<lparr>uc_seid_pool := ogs_pool_free (uc_seid_pool c) (se_seid_node (uc_sess c n)), uc_sess_pool := pool\<rparr>"
    using c'_0 by (simp add: c5 with_sess_def sess4 c4p)
  have ro: "routes_of (d\<lparr>se_urr_acc := as\<rparr>) = routes_of d" "sess_f_seid_key (d\<lparr>se_urr_acc := as\<rparr>) = sess_f_seid_key d" for d
    by (simp_all add: routes_of_def sess_f_seid_key_def)
  show "\<And>m. m \<noteq> n \<Longrightarrow> uc_sess c' m = uc_sess c m" "se_routes4 (uc_sess c' n) = None" "se_routes6 (uc_sess c' n) = None"
    "\<And>p. trie_map (uc_routes4 c') p =
       (if p \<in> prefixes4 (routes_of (uc_sess c n)) then None else trie_map (uc_routes4 c) p)"
    "\<And>p. trie_map (uc_routes6 c') p =
       (if p \<in> prefixes6 (routes_of (uc_sess c n)) then None else trie_map (uc_routes6 c) p)"
    by (simp_all add: c' c5 sess4 with_sess_def t ro)
  have c4f: "uc_list c4 = remove1 n (uc_list c)" "uc_seids c4 = uc_seids c" "uc_ipv4_hash c4 = released4 n c"
    "uc_ipv6_hash c4 = released6 n c"
    "uc_upf_seid_hash c4 = hash_set (uc_upf_seid_hash c) (key64 (se_upf_n4_seid (uc_sess c n))) None"
    "uc_smf_seid_hash c4 = hash_set (uc_smf_seid_hash c) (key64 (se_smf_seid (uc_sess c n))) None"
    "uc_smf_f_seid_hash c4 = hash_set (uc_smf_f_seid_hash c) (sess_f_seid_key (uc_sess c n)) None"
    using rl by (simp_all add: c4') (simp_all add: c3' c2_def drop_keys_def c1' with_sess_def Let_def ro)
  show "uc_list c' = remove1 n (uc_list c)" "uc_seids c' = uc_seids c"
    "uc_upf_seid_hash c' = hash_set (uc_upf_seid_hash c) (key64 (se_upf_n4_seid (uc_sess c n))) None"
    "uc_smf_seid_hash c' = hash_set (uc_smf_seid_hash c) (key64 (se_smf_seid (uc_sess c n))) None"
    "uc_smf_f_seid_hash c' = hash_set (uc_smf_f_seid_hash c) (sess_f_seid_key (uc_sess c n)) None"
    "uc_ipv4_hash c' = released4 n c" "uc_ipv6_hash c' = released6 n c"
    "uc_seid_pool c' = ogs_pool_free (uc_seid_pool c) (se_seid_node (uc_sess c n))"
    "ogs_pool_id_free (uc_sess_pool c) n (se_id (uc_sess c n)) = Ret (uc_sess_pool c')"
    by (simp_all add: c' c5 with_sess_def c4f pool)
qed

lemma id_free_facts:
  assumes "pool_ok p" "n \<in> allocated p" "ogs_pool_id_free p n i = Ret q"
  shows "pool_ok q" "allocated q = allocated p - {n}" "pool_size q = pool_size p"
    "pool_id_hash q = hash_set (pool_id_hash p) (key32 i) None" "pool_id q = pool_id p"
proof -
  define r where "r = p\<lparr>pool_id_hash := hash_set (pool_id_hash p) (key32 i) None\<rparr>"
  have q: "q = ogs_pool_free r n" using assms(3) by (simp add: ogs_pool_id_free_def r_def split: if_splits)
  have r: "pool_ok r" "allocated r = allocated p" "pool_size r = pool_size p"
    using assms(1) by (simp_all add: r_def pool_ok_def allocated_def)
  then have "n \<in> allocated r" using assms(2) by simp
  from free_allocated [OF r(1) this] r
  show "pool_ok q" "allocated q = allocated p - {n}" "pool_size q = pool_size p"
    "pool_id_hash q = hash_set (pool_id_hash p) (key32 i) None"
    by (simp_all add: q) (simp add: r_def)
  show "pool_id q = pool_id p" by (simp add: q r_def ogs_pool_free_def)
qed

lemma owned_remove:
  assumes "owned h L (\<lambda>m k. k = g (S m))" "\<And>m. m \<noteq> n \<Longrightarrow> S' m = S m" "g (S n) \<noteq> []"
  shows "owned (hash_set h (g (S n)) None) (L - {n}) (\<lambda>m k. k = g (S' m))"
proof (rule owned_delete [OF assms(1,3)])
  fix m j
  assume m: "m \<in> L" "j = g (S m)" "j \<noteq> g (S n)"
  then have "m \<noteq> n" by auto
  with m assms(2) show "m \<in> L - {n} \<and> j = g (S' m)" by simp
qed

lemma owned_restrict:
  assumes "owned h L key" "\<And>k. hash_map h k \<noteq> Some n" "\<And>m. m \<noteq> n \<Longrightarrow> key' m = key m"
  shows "owned h (L - {n}) key'"
  using assms unfolding owned_def by (metis Diff_iff singletonD)

lemma ctx_inv_remove:
  assumes inv: "ctx_inv c" and n: "n \<in> live c" and rm: "upf_sess_remove n c = Ret c'"
  shows "ctx_inv c'" and "live c' = live c - {n}"
proof -
  have P: "pools_inv c" and K: "keys_inv c" and A: "addr_inv c" and R: "route_inv c"
    using inv by (simp_all add: ctx_inv_def)
  have len: "length (route_array (se_routes4 (uc_sess c m))) = OGS_MAX_NUM_OF_FRAMED_ROUTES_IN_PDI"
    "length (route_array (se_routes6 (uc_sess c m))) = OGS_MAX_NUM_OF_FRAMED_ROUTES_IN_PDI" for m
    using R by (simp_all add: route_inv_def)
  note F = sess_remove_fields [OF rm len]
  note own = keys_owned [OF K] and s = F(2)
  have P': "pool_ok (uc_sess_pool c)" "pool_ok (uc_seid_pool c)" "distinct (uc_list c)"
    "live c = allocated (uc_sess_pool c)" "inj_on (\<lambda>n. se_seid_node (uc_sess c n)) (live c)"
    "(\<lambda>n. se_seid_node (uc_sess c n)) ` live c = allocated (uc_seid_pool c)"
    using P unfolding pools_inv_def by blast+
  have np: "n \<in> allocated (uc_sess_pool c)" "se_seid_node (uc_sess c n) \<in> allocated (uc_seid_pool c)"
    using n P'(4,6) by auto
  note fs = id_free_facts [OF P'(1) np(1) F(5)] and ft = free_allocated [OF P'(2) np(2)]
  show L: "live c' = live c - {n}" using P'(3) by (simp add: live_def F(1) set_remove1_eq)
  have s': "uc_sess c' m = uc_sess c m" if "m \<in> live c - {n}" for m using that s by simp
  have inj: "inj_on (\<lambda>m. se_seid_node (uc_sess c' m)) (live c')"
  proof (rule inj_onI)
    fix x y
    assume "x \<in> live c'" "y \<in> live c'" "se_seid_node (uc_sess c' x) = se_seid_node (uc_sess c' y)"
    then show "x = y" using inj_onD [OF P'(5), of x y] s' by (simp add: L)
  qed
  have "(\<lambda>m. se_seid_node (uc_sess c' m)) ` live c' = (\<lambda>m. se_seid_node (uc_sess c m)) ` (live c - {n})"
    unfolding L by (rule image_cong) (simp_all add: s')
  also have "\<dots> = allocated (uc_seid_pool c) - {se_seid_node (uc_sess c n)}"
    using inj_on_image_set_diff [OF P'(5), of "live c" "{n}"] n P'(6) by simp
  finally have img: "(\<lambda>m. se_seid_node (uc_sess c' m)) ` live c' = allocated (uc_seid_pool c')"
    by (simp add: F(4) ft(2))
  have "pools_inv c'"
    unfolding pools_inv_def using inj img P fs ft s' P'(4)
    by (auto simp: F(1,3,4) L pools_inv_def)
  moreover have "keys_inv c'"
  proof -
    have "owned (pool_id_hash (uc_sess_pool c')) (live c') (\<lambda>n k. k = key32 (se_id (uc_sess c' n)))"
      unfolding fs(4) L by (rule owned_remove [where g = "\<lambda>d. key32 (se_id d)", OF own(1) s]) simp_all
    moreover have "owned (uc_upf_seid_hash c') (live c') (\<lambda>n k. k = key64 (se_upf_n4_seid (uc_sess c' n)))"
      unfolding F(6) L by (rule owned_remove [where g = "\<lambda>d. key64 (se_upf_n4_seid d)", OF own(2) s]) simp_all
    moreover have "owned (uc_smf_seid_hash c') (live c') (\<lambda>n k. k = key64 (se_smf_seid (uc_sess c' n)))"
      unfolding F(7) L by (rule owned_remove [where g = "\<lambda>d. key64 (se_smf_seid d)", OF own(3) s]) simp_all
    moreover have "owned (uc_smf_f_seid_hash c') (live c') (\<lambda>n k. k = sess_f_seid_key (uc_sess c' n))"
      unfolding F(8) L by (rule owned_remove [where g = sess_f_seid_key, OF own(4) s]) simp_all
    moreover have "\<forall>m \<in> live c'. hash_map (uc_upf_seid_hash c') (key64 (se_upf_n4_seid (uc_sess c' m))) = Some m"
    proof
      fix m
      assume m: "m \<in> live c'"
      have h: "hash_map (uc_upf_seid_hash c) (key64 (se_upf_n4_seid (uc_sess c j))) = Some j" if "j \<in> live c" for j
        using K that by (simp add: keys_inv_def)
      have ok: "hash_ok (uc_upf_seid_hash c)" using own(2) by (simp add: owned_def)
      have "se_upf_n4_seid (uc_sess c m) \<noteq> se_upf_n4_seid (uc_sess c n)"
        using h [of m] h [OF n] m by (auto simp: L)
      with h [of m] m ok s show "hash_map (uc_upf_seid_hash c') (key64 (se_upf_n4_seid (uc_sess c' m))) = Some m"
        by (simp add: F(6) hash_set_correct L)
    qed
    ultimately show ?thesis by (simp add: keys_inv_def)
  qed
  moreover have "addr_inv c'"
  proof -
    have o: "owned (uc_ipv4_hash c) (live c) (has_key4 c)" "owned (uc_ipv6_hash c) (live c) (has_key6 c)"
      using A by (simp_all add: addr_inv_def)
    have k: "has_key4 c' m = has_key4 c m" "has_key6 c' m = has_key6 c m" if "m \<noteq> n" for m
      using s [OF that] by (simp_all add: has_key4_def has_key6_def fun_eq_iff)
    show ?thesis
      unfolding addr_inv_def F(9,10) L
      using owned_restrict [OF released4_owned [OF o(1)] k(1)] owned_restrict [OF released6_owned [OF o(2)] k(2)]
      by blast
  qed
  moreover have "route_inv c'"
  proof -
    have R4: "m \<in> live c \<and> p \<in> prefixes4 (routes_of (uc_sess c m))" if "trie_map (uc_routes4 c) p = Some m" for p m
      using R that by (auto simp: route_inv_def)
    have R6: "m \<in> live c \<and> p \<in> prefixes6 (routes_of (uc_sess c m))" if "trie_map (uc_routes6 c) p = Some m" for p m
      using R that by (auto simp: route_inv_def)
    have "m \<in> live c' \<and> p \<in> prefixes4 (routes_of (uc_sess c' m))" if "trie_map (uc_routes4 c') p = Some m" for p m
      using that R4 [of p m] s [of m] by (cases "m = n") (auto simp: F(11) L split: if_splits)
    moreover have "m \<in> live c' \<and> p \<in> prefixes6 (routes_of (uc_sess c' m))" if "trie_map (uc_routes6 c') p = Some m" for p m
      using that R6 [of p m] s [of m] by (cases "m = n") (auto simp: F(12) L split: if_splits)
    moreover have "length (route_array (se_routes4 (uc_sess c' m))) = OGS_MAX_NUM_OF_FRAMED_ROUTES_IN_PDI \<and>
        length (route_array (se_routes6 (uc_sess c' m))) = OGS_MAX_NUM_OF_FRAMED_ROUTES_IN_PDI" for m
      using len [of m] s [of m] F(13,14) by (cases "m = n") (simp_all add: route_array_None)
    ultimately show ?thesis unfolding route_inv_def by blast
  qed
  ultimately show "ctx_inv c'" by (simp add: ctx_inv_def)
qed

section \<open>Reachable contexts\<close>

text \<open>
  The contexts of a process configured for \<open>k\<close> sessions. The handlers of the other components
  may change the PFCP objects, the accounting and the timers between two operations.
\<close>

inductive reachable :: "nat \<Rightarrow> 'c upf_context \<Rightarrow> bool" for k :: nat where
  init: "reachable k (upf_context_init k r seed timers pfcp subnets)"
| message: "reachable k c \<Longrightarrow> upf_sess_add_by_message seed pad f c = Ret (c', r) \<Longrightarrow> reachable k c'"
| remove: "reachable k c \<Longrightarrow> n \<in> live c \<Longrightarrow> upf_sess_remove n c = Ret c' \<Longrightarrow> reachable k c'"
| set_ue_ip: "reachable k c \<Longrightarrow> n \<in> live c \<Longrightarrow> upf_sess_set_ue_ip n ty p c = Ret (c', cause) \<Longrightarrow> reachable k c'"
| routes4: "reachable k c \<Longrightarrow> n \<in> live c \<Longrightarrow>
    upf_sess_set_ue_ipv4_framed_routes pton6 pton4 n rs c = (c', cause) \<Longrightarrow> reachable k c'"
| routes6: "reachable k c \<Longrightarrow> n \<in> live c \<Longrightarrow>
    upf_sess_set_ue_ipv6_framed_routes pton6 pton4 n rs c = (c', cause) \<Longrightarrow> reachable k c'"
| pfcp: "reachable k c \<Longrightarrow> reachable k (c\<lparr>uc_pfcp := x, uc_timers := t\<rparr>)"
| accounting: "reachable k c \<Longrightarrow> reachable k (with_sess n (\<lambda>d. d\<lparr>se_urr_acc := a, se_apn_dnn := s\<rparr>) c)"

lemma sess_add_None:
  assumes "pool_ok (uc_sess_pool c)" "upf_sess_add seed f c = Ret (c', None)"
  shows "c' = c \<and> card (allocated (uc_sess_pool c)) = pool_size (uc_sess_pool c)"
proof -
  obtain q r where q: "ogs_pool_alloc (uc_sess_pool c) = (q, r)" by fastforce
  have "r = None" "c' = c\<lparr>uc_sess_pool := q\<rparr>"
    using assms(2) q by (auto simp: upf_sess_add_def ogs_pool_id_calloc_def Let_def split: option.splits prod.splits)
  with q pool.acquire_None [OF assms(1)] show ?thesis by simp
qed

lemma sess_add_inv:
  assumes "ctx_inv c" "upf_sess_add seed f c = Ret (c', r)"
  shows "ctx_inv c'"
proof (cases r)
  case None
  have "pool_ok (uc_sess_pool c)" using assms(1) unfolding ctx_inv_def pools_inv_def by blast
  with None assms sess_add_None [of c seed f c'] show ?thesis by simp
qed (use assms ctx_inv_add in blast)

lemma add_by_message_cases:
  assumes "upf_sess_add_by_message seed pad f c = Ret (c', r)"
  shows "c' = c \<or> (\<exists>g. f = Some g \<and> upf_sess_add seed g c = Ret (c', r))"
  using assms by (auto simp: upf_sess_add_by_message_def split: option.splits if_splits)

lemma other_step_inv:
  assumes "ctx_inv c"
  shows "ctx_inv (c\<lparr>uc_pfcp := x, uc_timers := t\<rparr>)"
    "ctx_inv (with_sess n (\<lambda>d. d\<lparr>se_urr_acc := a, se_apn_dnn := s\<rparr>) c)"
proof -
  have k: "has_key4 c1 = has_key4 c" "has_key6 c1 = has_key6 c"
    if "\<And>m. se_ipv4 (uc_sess c1 m) = se_ipv4 (uc_sess c m)" "\<And>m. se_ipv6 (uc_sess c1 m) = se_ipv6 (uc_sess c m)" for c1
    using that by (simp_all add: has_key4_def has_key6_def fun_eq_iff)
  let ?a = "c\<lparr>uc_pfcp := x, uc_timers := t\<rparr>" and ?b = "with_sess n (\<lambda>d. d\<lparr>se_urr_acc := a, se_apn_dnn := s\<rparr>) c"
  have i: "same_index c ?a" "same_index c ?b"
    by (simp_all add: same_index_def with_sess_def sess_f_seid_key_def)
  have "addr_inv ?a" "addr_inv ?b"
    using assms k [of ?a] k [of ?b] by (simp_all add: ctx_inv_def addr_inv_def live_def with_sess_def)
  moreover have "route_inv ?a" "route_inv ?b"
    using assms by (simp_all add: ctx_inv_def route_inv_def live_def with_sess_def routes_of_def)
  ultimately show "ctx_inv ?a" "ctx_inv ?b"
    using assms same_index_inv [OF i(1)] same_index_inv [OF i(2)] by (simp_all add: ctx_inv_def)
qed

lemma reachable_inv:
  assumes "reachable k c" "k < 2 ^ 32"
  shows "ctx_inv c"
  using assms
proof (induction rule: reachable.induct)
  case (init r seed timers pfcp subnets)
  then show ?case by (rule ctx_inv_init)
next
  case (message c seed pad f c' r)
  then show ?case using add_by_message_cases [OF message.hyps(2)] sess_add_inv by blast
next
  case (remove c n c')
  then show ?case using ctx_inv_remove(1) by blast
next
  case (set_ue_ip c n ty p c' cause)
  then have "addr_inv c" by (simp add: ctx_inv_def)
  from set_ue_ip_ok [OF this set_ue_ip.hyps(2,3)] set_ue_ip show ?case using addr_step_inv by blast
next
  case (routes4 c n pton6 pton4 rs c' cause)
  then show ?case using set_routes_ok(1) by blast
next
  case (routes6 c n pton6 pton4 rs c' cause)
  then show ?case using set_routes_ok(2) by blast
qed (simp_all add: other_step_inv)

lemma reachable_pool:
  assumes "reachable k c" "k < 2 ^ 32"
  shows "pool_size (uc_sess_pool c) = k \<and> pool_id (uc_sess_pool c) \<le> OGS_MAX_POOL_ID"
  using assms
proof (induction rule: reachable.induct)
  case (init r seed timers pfcp subnets)
  then show ?case by (simp add: upf_context_init_def ogs_pool_init_def)
next
  case (message c seed pad f c' r)
  have ok: "pool_ok (uc_sess_pool c)"
    using reachable_inv [OF message.hyps(1) message.prems] by (simp add: ctx_inv_def pools_inv_def)
  have "pool_size (uc_sess_pool c') = k \<and> pool_id (uc_sess_pool c') \<le> OGS_MAX_POOL_ID"
    if g: "upf_sess_add seed g c = Ret (c', r)" for g
  proof (cases r)
    case None
    with g sess_add_None [OF ok, of seed g c'] message.IH message.prems show ?thesis by simp
  next
    case (Some n)
    from g [unfolded Some] show ?thesis
      by (rule sess_add_cases)
        (use alloc_facts(5,7) [OF ok] message.IH message.prems next_pool_id_range in \<open>simp add: Let_def\<close>)
  qed
  with message add_by_message_cases [OF message.hyps(2)] show ?case by auto
next
  case (remove c n c')
  have I: "ctx_inv c" using reachable_inv [OF remove.hyps(1) remove.prems] .
  then have "n \<in> allocated (uc_sess_pool c)" "pool_ok (uc_sess_pool c)"
    using remove.hyps(2) by (auto simp: ctx_inv_def pools_inv_def)
  moreover have "ogs_pool_id_free (uc_sess_pool c) n (se_id (uc_sess c n)) = Ret (uc_sess_pool c')"
    by (rule sess_remove_fields(5) [OF remove.hyps(3)]) (use I in \<open>simp_all add: ctx_inv_def route_inv_def\<close>)
  ultimately show ?case using id_free_facts(3,5) remove by metis
next
  case (set_ue_ip c n ty p c' cause)
  have "addr_inv c" using reachable_inv [OF set_ue_ip.hyps(1) set_ue_ip.prems] by (simp add: ctx_inv_def)
  from set_ue_ip_ok [OF this set_ue_ip.hyps(2,3)] set_ue_ip show ?case
    by (simp add: addr_step_def same_index_def)
next
  case (routes4 c n pton6 pton4 rs c' cause)
  from set_routes_ok(1) [OF reachable_inv [OF routes4.hyps(1) routes4.prems] routes4.hyps(2,3)] routes4 show ?case
    by (simp add: route_step_def same_index_def)
next
  case (routes6 c n pton6 pton4 rs c' cause)
  from set_routes_ok(2) [OF reachable_inv [OF routes6.hyps(1) routes6.prems] routes6.hyps(2,3)] routes6 show ?case
    by (simp add: route_step_def same_index_def)
qed (simp_all add: with_sess_def)

section \<open>Properties\<close>

lemma be32_inject [simp]: "be32 a = be32 b \<longleftrightarrow> a = b"
proof
  assume "be32 a = be32 b"
  then have "rd32 (be32 a @ []) 0 = rd32 (be32 b @ []) 0" by simp
  then show "a = b" by (simp only: rd32_be32_append)
qed simp

lemma lpm_found: "lpm m bs = Some s \<Longrightarrow> \<exists>q. prefix q bs \<and> m q = Some s"
proof (induction m bs rule: lpm.induct)
  case (2 m b bs)
  show ?case
  proof (cases "lpm (\<lambda>p. m (b # p)) bs")
    case None
    with "2.prems" show ?thesis by (auto intro!: exI [of _ "[]"])
  next
    case (Some t)
    with "2" obtain q where "prefix q bs" "m (b # q) = Some s" by auto
    then show ?thesis by (intro exI [of _ "b # q"]) simp
  qed
qed auto

lemma length_key64 [simp]: "length (key64 s) = 8"
  by (simp add: key64_def)

lemma f_seid_key_seid: "f_seid_key s ip p = f_seid_key s' ip' p' \<Longrightarrow> s = s'"
  by (simp add: f_seid_key_def)

lemma found_ipv4:
  assumes inv: "ctx_inv c" and f: "upf_sess_find_by_ipv4 c a = Some n"
  shows "n \<in> live c \<and> ((\<exists>ip. se_ipv4 (uc_sess c n) = Some ip \<and> ui_addr ip ! 0 = a) \<or>
    (\<exists>r \<in> set (routes_of (uc_sess c n)). ip_family r = AF_INET \<and> rt4.covers r a))"
proof (cases "hash_get (uc_ipv4_hash c) (ipv4_key a)")
  case None
  with f have "route_find_ipv4 a (uc_routes4 c) = Some n" by (simp add: upf_sess_find_by_ipv4_def)
  then have "lpm (trie_map (uc_routes4 c)) (map (addr_bit 32 [a]) [0..<32]) = Some n"
    unfolding rt4.find_lpm .
  from lpm_found [OF this] obtain q where q: "prefix q (map (addr_bit 32 [a]) [0..<32])" "trie_map (uc_routes4 c) q = Some n"
    by (elim exE conjE)
  have "route_inv c" using inv by (simp add: ctx_inv_def)
  then have b: "n \<in> live c" "q \<in> prefixes4 (routes_of (uc_sess c n))"
    using q(2) unfolding route_inv_def by blast+
  then obtain r where "r \<in> set (routes_of (uc_sess c n))" "ip_family r = AF_INET" "q = route_prefix r"
    unfolding prefixes4_def by blast
  with b(1) q(1) show ?thesis unfolding rt4.covers_def by blast
next
  case (Some m)
  with f have "m = n" by (simp add: upf_sess_find_by_ipv4_def)
  moreover have o: "owned (uc_ipv4_hash c) (live c) (has_key4 c)" using inv by (simp add: ctx_inv_def addr_inv_def)
  ultimately have "n \<in> live c \<and> has_key4 c n (ipv4_key a)"
    using owned_get [OF o, of "ipv4_key a" n] Some by simp
  then show ?thesis by (auto simp: has_key4_def ui_key4_def ipv4_key_def)
qed

lemma found_ipv6:
  assumes inv: "ctx_inv c" and f: "upf_sess_find_by_ipv6 c a = Some n"
  shows "n \<in> live c \<and> ((\<exists>ip. se_ipv6 (uc_sess c n) = Some ip \<and> ui_addr ip ! 0 = a ! 0 \<and> ui_addr ip ! 1 = a ! 1) \<or>
    (\<exists>r \<in> set (routes_of (uc_sess c n)). ip_family r \<noteq> AF_INET \<and> rt6.covers r a))"
proof (cases "hash_get (uc_ipv6_hash c) (ipv6_key a)")
  case None
  with f have "route_find_ipv6 a (uc_routes6 c) = Some n" by (simp add: upf_sess_find_by_ipv6_def)
  then have "lpm (trie_map (uc_routes6 c)) (map (addr_bit 128 a) [0..<128]) = Some n"
    unfolding rt6.find_lpm .
  from lpm_found [OF this] obtain q where q: "prefix q (map (addr_bit 128 a) [0..<128])" "trie_map (uc_routes6 c) q = Some n"
    by (elim exE conjE)
  have "route_inv c" using inv by (simp add: ctx_inv_def)
  then have b: "n \<in> live c" "q \<in> prefixes6 (routes_of (uc_sess c n))"
    using q(2) unfolding route_inv_def by blast+
  then obtain r where "r \<in> set (routes_of (uc_sess c n))" "ip_family r \<noteq> AF_INET" "q = route_prefix r"
    unfolding prefixes6_def by blast
  with b(1) q(1) show ?thesis unfolding rt6.covers_def by blast
next
  case (Some m)
  with f have "m = n" by (simp add: upf_sess_find_by_ipv6_def)
  moreover have o: "owned (uc_ipv6_hash c) (live c) (has_key6 c)" using inv by (simp add: ctx_inv_def addr_inv_def)
  ultimately have "n \<in> live c \<and> has_key6 c n (ipv6_key a)"
    using owned_get [OF o, of "ipv6_key a" n] Some by simp
  then show ?thesis by (auto simp: has_key6_def ui_key6_def ipv6_key_def)
qed

lemma found_upf_seid:
  assumes "ctx_inv c"
  shows "upf_sess_find_by_upf_n4_seid c s = Some n \<longleftrightarrow> n \<in> live c \<and> se_upf_n4_seid (uc_sess c n) = s"
proof -
  have K: "keys_inv c" using assms by (simp add: ctx_inv_def)
  have ok: "hash_ok (uc_upf_seid_hash c)" using keys_owned(2) [OF K] by (simp add: owned_def)
  have "n \<in> live c \<and> key64 s = key64 (se_upf_n4_seid (uc_sess c n))" if "hash_get (uc_upf_seid_hash c) (key64 s) = Some n"
    using owned_get [OF keys_owned(2) [OF K] _ that] by simp
  moreover have "hash_get (uc_upf_seid_hash c) (key64 (se_upf_n4_seid (uc_sess c n))) = Some n" if "n \<in> live c"
    using K that by (simp add: hash_get_map ok keys_inv_def)
  ultimately show ?thesis by (auto simp: upf_sess_find_by_upf_n4_seid_def)
qed

lemma f_seid_to_ip_Some: "fs_ipv4 f \<or> fs_ipv6 f \<Longrightarrow> \<exists>ip. ogs_pfcp_f_seid_to_ip f = Some ip"
  by (auto simp: ogs_pfcp_f_seid_to_ip_def)

lemma live_length:
  assumes "ctx_inv c"
  shows "length (uc_list c) = card (allocated (uc_sess_pool c))"
proof -
  have "distinct (uc_list c)" "live c = allocated (uc_sess_pool c)"
    using assms unfolding ctx_inv_def pools_inv_def by blast+
  then show ?thesis by (metis live_def distinct_card)
qed

lemma seid_pool_card:
  assumes "ctx_inv c"
  shows "card (allocated (uc_seid_pool c)) = card (allocated (uc_sess_pool c))"
    "pool_size (uc_seid_pool c) = pool_size (uc_sess_pool c)"
proof -
  have "inj_on (\<lambda>n. se_seid_node (uc_sess c n)) (live c)" "live c = allocated (uc_sess_pool c)"
    "(\<lambda>n. se_seid_node (uc_sess c n)) ` live c = allocated (uc_seid_pool c)"
    using assms unfolding ctx_inv_def pools_inv_def by blast+
  then show "card (allocated (uc_seid_pool c)) = card (allocated (uc_sess_pool c))" by (metis card_image)
  show "pool_size (uc_seid_pool c) = pool_size (uc_sess_pool c)"
    using assms unfolding ctx_inv_def pools_inv_def by blast
qed

lemma sess_add_succeeds:
  assumes inv: "ctx_inv c" and f: "fs_ipv4 f \<or> fs_ipv6 f"
    and free: "card (allocated (uc_sess_pool c)) < pool_size (uc_sess_pool c)"
  shows "\<exists>c' n. upf_sess_add seed f c = Ret (c', Some n)"
proof -
  have ok: "pool_ok (uc_sess_pool c)" "pool_ok (uc_seid_pool c)"
    using inv unfolding ctx_inv_def pools_inv_def by blast+
  obtain q n where q: "ogs_pool_alloc (uc_sess_pool c) = (q, Some n)"
    using pool.acquire_succeeds [OF ok(1) free] by blast
  have "card (allocated (uc_seid_pool c)) < pool_size (uc_seid_pool c)"
    using free seid_pool_card [OF inv] by simp
  then obtain s t where t: "ogs_pool_alloc (uc_seid_pool c) = (s, Some t)"
    using pool.acquire_succeeds [OF ok(2)] by blast
  obtain ip where "ogs_pfcp_f_seid_to_ip f = Some ip" using f_seid_to_ip_Some [OF f] by blast
  with q t show ?thesis by (simp add: upf_sess_add_def ogs_pool_id_calloc_def Let_def)
qed

definition sample_seid :: f_seid where
  "sample_seid = \<lparr>fs_ipv4 = True, fs_ipv6 = False, fs_seid = 77, fs_addr = 0x7f000001, fs_addr6 = []\<rparr>"

definition sample_context :: "unit upf_context" where
  "sample_context = upf_context_init 4 (\<lambda>_. 0) 1 (ogs_timer_mgr_create 8 1) (ogs_pfcp_context_init 4 (\<lambda>_. 0) 1) []"

lemma sample_reachable: "reachable 4 sample_context" "live sample_context = {}"
proof -
  show "reachable 4 sample_context" unfolding sample_context_def by (rule reachable.init)
  show "live sample_context = {}" by (simp add: sample_context_def live_def upf_context_init_def)
qed

lemma sample_added:
  obtains c n where "reachable 4 c" "upf_sess_add 1 sample_seid sample_context = Ret (c, Some n)" "live c = {n}"
proof -
  have inv: "ctx_inv sample_context" by (rule reachable_inv [OF sample_reachable(1)]) simp
  have "card (allocated (uc_sess_pool sample_context)) < pool_size (uc_sess_pool sample_context)"
    by (simp add: sample_context_def upf_context_init_def allocated_init) (simp add: ogs_pool_init_def)
  moreover have f: "fs_ipv4 sample_seid \<or> fs_ipv6 sample_seid" by (simp add: sample_seid_def)
  ultimately obtain c n where a: "upf_sess_add 1 sample_seid sample_context = Ret (c, Some n)"
    using sess_add_succeeds [OF inv] by blast
  have "hash_get (uc_smf_f_seid_hash sample_context) k = None" if "k \<noteq> []" for k
    using that ht.look_empty [of k "1 :: u32"] by (simp add: sample_context_def upf_context_init_def)
  then have "upf_sess_find_by_smf_n4_f_seid no_pad sample_context sample_seid = Ret None"
    using f_seid_to_ip_Some [OF f] by (auto simp: upf_sess_find_by_smf_n4_f_seid_def)
  then have "upf_sess_add_by_message 1 no_pad (Some sample_seid) sample_context = Ret (c, Some n)"
    using a f by (simp add: upf_sess_add_by_message_def)
  then have "reachable 4 c" using reachable.message sample_reachable(1) by blast
  moreover have "live c = {n}" using ctx_inv_add(3) [OF inv a] sample_reachable(2) by simp
  ultimately show ?thesis using a that by blast
qed

lemma f_seid_key_pad:
  assumes "f_seid_key s ip p = f_seid_key s' ip' p'" "length p = length p'"
  shows "p = p'"
  using assms by (simp add: f_seid_key_def append_eq_append_conv flip: append_assoc)

lemma f_seid_key_ip:
  assumes "f_seid_key s ip p = f_seid_key s' ip' p'" "length p = length p'"
  shows "ip = ip'"
proof -
  have o: "ip_octets ip = ip_octets ip'" using assms by (simp add: f_seid_key_def append_eq_append_conv flip: append_assoc)
  then have "length (oi_addr6 ip) = length (oi_addr6 ip')" using arg_cong [OF o, of length] by (simp add: ip_octets_def)
  with o have "oi_addr ip = oi_addr ip'" "oi_addr6 ip = oi_addr6 ip'" "oi_len ip = oi_len ip'"
    "oi_ipv4 ip = oi_ipv4 ip' \<and> oi_ipv6 ip = oi_ipv6 ip'"
    by (simp_all add: ip_octets_def split: if_splits)
  then show ?thesis by simp
qed

lemma f_seid_ip_fields:
  assumes "ogs_pfcp_f_seid_to_ip f = Some ip"
  shows "oi_ipv4 ip = fs_ipv4 f" "oi_ipv6 ip = fs_ipv6 f" "fs_ipv4 f \<Longrightarrow> oi_addr ip = fs_addr f"
    "fs_ipv6 f \<Longrightarrow> oi_addr6 ip = fs_addr6 f"
  using assms by (auto simp: ogs_pfcp_f_seid_to_ip_def zero_ip_def split: if_splits)

text \<open>
  C26: In every reachable context the look-ups return live sessions only, and the right ones: by
  UPF SEID exactly the session that has it; by SMF SEID or identifier only a session that has it; by
  F-SEID, whatever the octets the search leaves unset, only a session whose SMF has the SEID, the
  families and the addresses of the F-SEID; by address only a session that holds the address, or whose active framed routes cover
  it. No look-up returns a session that has been removed.
\<close>

theorem lookup_live:
  assumes "reachable k c" "k < 2 ^ 32"
  shows "(\<forall>s n. upf_sess_find_by_upf_n4_seid c s = Some n \<longleftrightarrow> n \<in> live c \<and> se_upf_n4_seid (uc_sess c n) = s) \<and>
    (\<forall>s n. upf_sess_find_by_smf_n4_seid c s = Some n \<longrightarrow> n \<in> live c \<and> se_smf_seid (uc_sess c n) = s) \<and>
    (\<forall>pad f n. length pad = 4 \<longrightarrow> upf_sess_find_by_smf_n4_f_seid pad c f = Ret (Some n) \<longrightarrow>
       n \<in> live c \<and> se_smf_seid (uc_sess c n) = fs_seid f \<and> (let ip = se_smf_ip (uc_sess c n) in
         oi_ipv4 ip = fs_ipv4 f \<and> oi_ipv6 ip = fs_ipv6 f \<and>
         (fs_ipv4 f \<longrightarrow> oi_addr ip = fs_addr f) \<and> (fs_ipv6 f \<longrightarrow> oi_addr6 ip = fs_addr6 f))) \<and>
    (\<forall>i n. upf_sess_find_by_id c i = Some n \<longrightarrow> n \<in> live c \<and> se_id (uc_sess c n) = i) \<and>
    (\<forall>a n. upf_sess_find_by_ipv4 c a = Some n \<longrightarrow> n \<in> live c \<and>
       ((\<exists>ip. se_ipv4 (uc_sess c n) = Some ip \<and> ui_addr ip ! 0 = a) \<or>
        (\<exists>r \<in> set (routes_of (uc_sess c n)). ip_family r = AF_INET \<and> rt4.covers r a))) \<and>
    (\<forall>a n. upf_sess_find_by_ipv6 c a = Some n \<longrightarrow> n \<in> live c \<and>
       ((\<exists>ip. se_ipv6 (uc_sess c n) = Some ip \<and> ui_addr ip ! 0 = a ! 0 \<and> ui_addr ip ! 1 = a ! 1) \<or>
        (\<exists>r \<in> set (routes_of (uc_sess c n)). ip_family r \<noteq> AF_INET \<and> rt6.covers r a)))"
proof -
  have inv: "ctx_inv c" using assms by (rule reachable_inv)
  then have K: "keys_inv c" by (simp add: ctx_inv_def)
  note own = keys_owned [OF K]
  have "n \<in> live c \<and> se_smf_seid (uc_sess c n) = s" if "upf_sess_find_by_smf_n4_seid c s = Some n" for s n
    using owned_get [OF own(3), of "key64 s" n] that by (simp add: upf_sess_find_by_smf_n4_seid_def)
  moreover have "n \<in> live c \<and> se_smf_seid (uc_sess c n) = fs_seid f \<and> (let ip = se_smf_ip (uc_sess c n) in
         oi_ipv4 ip = fs_ipv4 f \<and> oi_ipv6 ip = fs_ipv6 f \<and>
         (fs_ipv4 f \<longrightarrow> oi_addr ip = fs_addr f) \<and> (fs_ipv6 f \<longrightarrow> oi_addr6 ip = fs_addr6 f))"
    if pad: "length pad = 4" and find: "upf_sess_find_by_smf_n4_f_seid pad c f = Ret (Some n)" for pad f n
  proof -
    from find obtain ip where ip: "ogs_pfcp_f_seid_to_ip f = Some ip"
      and h: "hash_get (uc_smf_f_seid_hash c) (f_seid_key (fs_seid f) ip pad) = Some n"
      by (auto simp: upf_sess_find_by_smf_n4_f_seid_def split: option.splits)
    have k: "n \<in> live c \<and> f_seid_key (fs_seid f) ip pad = sess_f_seid_key (uc_sess c n)"
      by (rule owned_get [OF own(4) _ h]) simp
    then have "se_smf_ip (uc_sess c n) = ip"
      using f_seid_key_ip [of "fs_seid f" ip pad _ "se_smf_ip (uc_sess c n)" no_pad] pad by (simp add: sess_f_seid_key_def no_pad_def)
    moreover have "se_smf_seid (uc_sess c n) = fs_seid f" using k f_seid_key_seid by (metis sess_f_seid_key_def)
    ultimately show ?thesis using k f_seid_ip_fields [OF ip] by (simp add: Let_def)
  qed
  moreover have "n \<in> live c \<and> se_id (uc_sess c n) = i" if "upf_sess_find_by_id c i = Some n" for i n
    using owned_get [OF own(1), of "key32 i" n] that by (simp add: upf_sess_find_by_id_def ogs_pool_find_by_id_def)
  ultimately show ?thesis using found_upf_seid [OF inv] found_ipv4 [OF inv] found_ipv6 [OF inv] by blast
qed

theorem lookup_live_witness:
  "\<exists>(c :: unit upf_context) n. reachable 4 c \<and> live c = {n} \<and>
     upf_sess_find_by_upf_n4_seid c (se_upf_n4_seid (uc_sess c n)) = Some n"
proof -
  obtain c :: "unit upf_context" and n where c: "reachable 4 c" "live c = {n}" using sample_added by blast
  then have "upf_sess_find_by_upf_n4_seid c (se_upf_n4_seid (uc_sess c n)) = Some n"
    using lookup_live [OF c(1)] by simp
  with c show ?thesis by blast
qed

text \<open>
  A process configured for \<open>k\<close> sessions never has more. Adding a session with an address in
  its F-SEID never fails an assertion: it is refused, and changes nothing, exactly when \<open>k\<close>
  sessions exist.
\<close>

theorem sess_capacity:
  assumes "reachable k c" "k < 2 ^ 32" "fs_ipv4 f \<or> fs_ipv6 f"
  shows "length (uc_list c) \<le> k \<and>
    (if length (uc_list c) = k then upf_sess_add seed f c = Ret (c, None)
     else \<exists>c' n. upf_sess_add seed f c = Ret (c', Some n) \<and> uc_list c' = uc_list c @ [n])"
proof -
  have inv: "ctx_inv c" using assms(1,2) by (rule reachable_inv)
  have ok: "pool_ok (uc_sess_pool c)" using inv unfolding ctx_inv_def pools_inv_def by blast
  have n: "length (uc_list c) = card (allocated (uc_sess_pool c))" "pool_size (uc_sess_pool c) = k"
    using live_length [OF inv] reachable_pool [OF assms(1,2)] by simp_all
  have le: "length (uc_list c) \<le> k" using pool.bounded [OF ok] n by simp
  show ?thesis
  proof (cases "length (uc_list c) = k")
    case True
    then have "pool_avail (uc_sess_pool c) = 0" using card_allocated [OF ok] n by simp
    then have "upf_sess_add seed f c = Ret (c, None)"
      by (simp add: upf_sess_add_def ogs_pool_id_calloc_def alloc_None)
    with True le show ?thesis by simp
  next
    case False
    then obtain c' m where a: "upf_sess_add seed f c = Ret (c', Some m)"
      using sess_add_succeeds [OF inv assms(3)] le n by fastforce
    then have "uc_list c' = uc_list c @ [m]" by (rule sess_add_cases) (simp add: Let_def)
    with False le a show ?thesis by auto
  qed
qed

theorem sess_capacity_witness:
  "\<exists>(c :: unit upf_context) n. upf_sess_add 1 sample_seid sample_context = Ret (c, Some n) \<and> uc_list c = [n]"
proof -
  have "uc_list sample_context = []" using sample_reachable(2) by (simp add: live_def)
  then show ?thesis
    using sess_capacity [OF sample_reachable(1), of sample_seid 1] by (simp add: sample_seid_def)
qed

text \<open>What the look-ups return after a session has been added.\<close>

lemma keys_hash_ok:
  assumes "ctx_inv c"
  shows "hash_ok (pool_id_hash (uc_sess_pool c))" "hash_ok (uc_upf_seid_hash c)" "hash_ok (uc_smf_seid_hash c)"
    "hash_ok (uc_smf_f_seid_hash c)"
  using assms keys_owned [of c] by (simp_all add: ctx_inv_def owned_def)

lemma sess_add_fields:
  assumes "pool_ok (uc_sess_pool c)" "upf_sess_add seed f c = Ret (c', Some n)"
  shows "uc_upf_seid_hash c' = hash_set (uc_upf_seid_hash c) (key64 (se_upf_n4_seid (uc_sess c' n))) (Some n)"
    "uc_smf_seid_hash c' = hash_set (uc_smf_seid_hash c) (key64 (fs_seid f)) (Some n)"
    "uc_smf_f_seid_hash c' = hash_set (uc_smf_f_seid_hash c) (sess_f_seid_key (uc_sess c' n)) (Some n)"
    "pool_id_hash (uc_sess_pool c') = hash_set (pool_id_hash (uc_sess_pool c)) (key32 (se_id (uc_sess c' n))) (Some n)"
    "uc_ipv4_hash c' = uc_ipv4_hash c" "uc_ipv6_hash c' = uc_ipv6_hash c"
    "uc_routes4 c' = uc_routes4 c" "uc_routes6 c' = uc_routes6 c" "uc_list c' = uc_list c @ [n]"
    "ogs_pfcp_f_seid_to_ip f = Some (se_smf_ip (uc_sess c' n))"
    "\<exists>i t ip. uc_sess c' n = zero_sess\<lparr>se_id := i, se_seid_node := t, se_upf_n4_seid := ucast (uc_seids c ! t),
                  se_smf_seid := fs_seid f, se_smf_ip := ip\<rparr> \<and> i = ogs_next_pool_id (pool_id (uc_sess_pool c))"
    "uc_pfcp c' = update_sess n (\<lambda>_. ogs_pfcp_pool_init seed) (uc_pfcp c)"
proof -
  obtain q i spool t ip where q: "ogs_pool_alloc (uc_sess_pool c) = (q, Some n)" "i = ogs_next_pool_id (pool_id q)"
    and ip: "ogs_pfcp_f_seid_to_ip f = Some ip"
    and c': "c' = (let d = zero_sess\<lparr>se_id := i, se_seid_node := t, se_upf_n4_seid := ucast (uc_seids c ! t),
                  se_smf_seid := fs_seid f, se_smf_ip := ip\<rparr>
       in c\<lparr>uc_sess := (uc_sess c)(n := d),
            uc_sess_pool := q\<lparr>pool_id := i, pool_id_hash := hash_set (pool_id_hash q) (key32 i) (Some n)\<rparr>,
            uc_seid_pool := spool,
            uc_upf_seid_hash := hash_set (uc_upf_seid_hash c) (key64 (ucast (uc_seids c ! t))) (Some n),
            uc_smf_f_seid_hash := hash_set (uc_smf_f_seid_hash c) (sess_f_seid_key d) (Some n),
            uc_smf_seid_hash := hash_set (uc_smf_seid_hash c) (key64 (fs_seid f)) (Some n),
            uc_list := uc_list c @ [n],
            uc_pfcp := update_sess n (\<lambda>_. ogs_pfcp_pool_init seed) (uc_pfcp c)\<rparr>)"
    using assms(2) by (rule sess_add_cases)
  define d where "d = zero_sess\<lparr>se_id := i, se_seid_node := t, se_upf_n4_seid := ucast (uc_seids c ! t),
                  se_smf_seid := fs_seid f, se_smf_ip := ip\<rparr>"
  note c'd = c' [unfolded Let_def, folded d_def]
  have d: "uc_sess c' n = d" by (simp add: c'd)
  have df: "se_id d = i" "se_upf_n4_seid d = ucast (uc_seids c ! t)" "se_smf_ip d = ip" by (simp_all add: d_def)
  show "uc_upf_seid_hash c' = hash_set (uc_upf_seid_hash c) (key64 (se_upf_n4_seid (uc_sess c' n))) (Some n)"
    "uc_smf_seid_hash c' = hash_set (uc_smf_seid_hash c) (key64 (fs_seid f)) (Some n)"
    "uc_smf_f_seid_hash c' = hash_set (uc_smf_f_seid_hash c) (sess_f_seid_key (uc_sess c' n)) (Some n)"
    "uc_ipv4_hash c' = uc_ipv4_hash c" "uc_ipv6_hash c' = uc_ipv6_hash c"
    "uc_routes4 c' = uc_routes4 c" "uc_routes6 c' = uc_routes6 c" "uc_list c' = uc_list c @ [n]"
    "uc_pfcp c' = update_sess n (\<lambda>_. ogs_pfcp_pool_init seed) (uc_pfcp c)"
    unfolding d df by (simp_all add: c'd)
  show "ogs_pfcp_f_seid_to_ip f = Some (se_smf_ip (uc_sess c' n))" by (simp add: d df ip)
  show "pool_id_hash (uc_sess_pool c') = hash_set (pool_id_hash (uc_sess_pool c)) (key32 (se_id (uc_sess c' n))) (Some n)"
    using alloc_facts(6) [OF assms(1) q(1)] by (simp add: d df c'd)
  show "\<exists>i t ip. uc_sess c' n = zero_sess\<lparr>se_id := i, se_seid_node := t, se_upf_n4_seid := ucast (uc_seids c ! t),
                  se_smf_seid := fs_seid f, se_smf_ip := ip\<rparr> \<and> i = ogs_next_pool_id (pool_id (uc_sess_pool c))"
    unfolding d d_def using alloc_facts(7) [OF assms(1) q(1)] q(2) by metis
qed

lemma added_lookups:
  assumes inv: "ctx_inv c" and add: "upf_sess_add seed f c = Ret (c', Some n)"
  shows "upf_sess_find_by_smf_n4_seid c' s = (if s = fs_seid f then Some n else upf_sess_find_by_smf_n4_seid c s)"
    "upf_sess_find_by_id c' i = (if i = se_id (uc_sess c' n) then Some n else upf_sess_find_by_id c i)"
    "upf_sess_find_by_smf_n4_f_seid no_pad c' f = Ret (Some n)"
    "upf_sess_find_by_ipv4 c' a = upf_sess_find_by_ipv4 c a"
    "upf_sess_find_by_ipv6 c' b = upf_sess_find_by_ipv6 c b"
proof -
  have ok: "pool_ok (uc_sess_pool c)" using inv unfolding ctx_inv_def pools_inv_def by blast
  note h = keys_hash_ok [OF inv] and f = sess_add_fields [OF ok add]
  show "upf_sess_find_by_smf_n4_seid c' s = (if s = fs_seid f then Some n else upf_sess_find_by_smf_n4_seid c s)"
    using h by (simp add: upf_sess_find_by_smf_n4_seid_def f(2))
  show "upf_sess_find_by_id c' i = (if i = se_id (uc_sess c' n) then Some n else upf_sess_find_by_id c i)"
    using h by (simp add: upf_sess_find_by_id_def ogs_pool_find_by_id_def f(4))
  have "se_smf_seid (uc_sess c' n) = fs_seid f" using f(11) by auto
  then show "upf_sess_find_by_smf_n4_f_seid no_pad c' f = Ret (Some n)"
    using h by (simp add: upf_sess_find_by_smf_n4_f_seid_def f(3,10) sess_f_seid_key_def)
  show "upf_sess_find_by_ipv4 c' a = upf_sess_find_by_ipv4 c a" "upf_sess_find_by_ipv6 c' b = upf_sess_find_by_ipv6 c b"
    by (simp_all add: upf_sess_find_by_ipv4_def upf_sess_find_by_ipv6_def f cong: option.case_cong)
qed

text \<open>
  A session that is added is found at once under every key it has: its UPF SEID, its
  identifier, the SMF SEID and the F-SEID of the request. Its UPF SEID is one that no other
  session has, and the sessions found before under other keys or by address are still found.
\<close>

theorem sess_add_found:
  assumes "reachable k c" "k < 2 ^ 32" and add: "upf_sess_add seed f c = Ret (c', Some n)"
  shows "n \<notin> live c \<and> live c' = insert n (live c) \<and>
    upf_sess_find_by_upf_n4_seid c' (se_upf_n4_seid (uc_sess c' n)) = Some n \<and>
    upf_sess_find_by_id c' (se_id (uc_sess c' n)) = Some n \<and>
    upf_sess_find_by_smf_n4_seid c' (fs_seid f) = Some n \<and>
    upf_sess_find_by_smf_n4_f_seid no_pad c' f = Ret (Some n) \<and>
    (\<forall>m \<in> live c. se_upf_n4_seid (uc_sess c' m) \<noteq> se_upf_n4_seid (uc_sess c' n) \<and>
       upf_sess_find_by_upf_n4_seid c' (se_upf_n4_seid (uc_sess c' m)) = Some m) \<and>
    (\<forall>s. s \<noteq> fs_seid f \<longrightarrow> upf_sess_find_by_smf_n4_seid c' s = upf_sess_find_by_smf_n4_seid c s) \<and>
    upf_sess_find_by_ipv4 c' = upf_sess_find_by_ipv4 c \<and> upf_sess_find_by_ipv6 c' = upf_sess_find_by_ipv6 c"
proof -
  have inv: "ctx_inv c" using assms(1,2) by (rule reachable_inv)
  note i = ctx_inv_add [OF inv add] and l = added_lookups [OF inv add]
  have u: "upf_sess_find_by_upf_n4_seid c' (se_upf_n4_seid (uc_sess c' m)) = Some m" if "m \<in> live c'" for m
    using that by (simp add: found_upf_seid [OF i(1)])
  have "se_upf_n4_seid (uc_sess c' m) \<noteq> se_upf_n4_seid (uc_sess c' n)" if "m \<in> live c" for m
  proof
    assume "se_upf_n4_seid (uc_sess c' m) = se_upf_n4_seid (uc_sess c' n)"
    moreover have "m \<in> live c'" "n \<in> live c'" using that unfolding i(3) by blast+
    ultimately have "m = n" using u by (metis option.inject)
    with that i(2) show False by simp
  qed
  moreover have "upf_sess_find_by_ipv4 c' = upf_sess_find_by_ipv4 c" "upf_sess_find_by_ipv6 c' = upf_sess_find_by_ipv6 c"
    using l(4,5) by blast+
  moreover have "upf_sess_find_by_id c' (se_id (uc_sess c' n)) = Some n"
    "upf_sess_find_by_smf_n4_seid c' (fs_seid f) = Some n"
    "\<forall>s. s \<noteq> fs_seid f \<longrightarrow> upf_sess_find_by_smf_n4_seid c' s = upf_sess_find_by_smf_n4_seid c s"
    by (simp_all add: l(1,2))
  ultimately show ?thesis using i(2,3) u l(3) by blast
qed

theorem sess_add_found_witness:
  "\<exists>(c :: unit upf_context) n. upf_sess_add 1 sample_seid sample_context = Ret (c, Some n) \<and>
     upf_sess_find_by_smf_n4_seid c 77 = Some n"
proof -
  obtain c n where a: "upf_sess_add 1 sample_seid sample_context = Ret (c, Some n)" using sample_added by blast
  from sess_add_found [OF sample_reachable(1) _ a] have "upf_sess_find_by_smf_n4_seid c (fs_seid sample_seid) = Some n"
    by simp
  with a show ?thesis by (auto simp: sample_seid_def)
qed

text \<open>
  The key of a search by F-SEID ends in four octets that the code does not set. If they are
  not all zero, no session is found whatever the table holds, and an establishment request that
  repeats the F-SEID of a live session makes a second one, which takes the SMF SEID from it.
\<close>

theorem f_seid_padding:
  assumes "reachable k c" "k < 2 ^ 32" "length pad = 4" "pad \<noteq> no_pad" "fs_ipv4 f \<or> fs_ipv6 f"
    and "length (uc_list c) < k"
  shows "upf_sess_find_by_smf_n4_f_seid pad c f = Ret None \<and>
    (\<exists>c' n. upf_sess_add_by_message seed pad (Some f) c = Ret (c', Some n) \<and> n \<notin> live c \<and>
       upf_sess_find_by_smf_n4_seid c' (fs_seid f) = Some n)"
proof -
  have inv: "ctx_inv c" using assms(1,2) by (rule reachable_inv)
  then have own: "owned (uc_smf_f_seid_hash c) (live c) (\<lambda>n k. k = sess_f_seid_key (uc_sess c n))"
    unfolding ctx_inv_def by (blast intro: keys_owned(4))
  obtain ip where ip: "ogs_pfcp_f_seid_to_ip f = Some ip" using f_seid_to_ip_Some [OF assms(5)] by blast
  have "hash_get (uc_smf_f_seid_hash c) (f_seid_key (fs_seid f) ip pad) = None"
  proof (rule ccontr)
    assume "hash_get (uc_smf_f_seid_hash c) (f_seid_key (fs_seid f) ip pad) \<noteq> None"
    then obtain m where m: "hash_get (uc_smf_f_seid_hash c) (f_seid_key (fs_seid f) ip pad) = Some m" by blast
    have "f_seid_key (fs_seid f) ip pad = sess_f_seid_key (uc_sess c m)" using owned_get [OF own _ m] by simp
    then have "pad = no_pad"
      unfolding sess_f_seid_key_def by (rule f_seid_key_pad) (simp add: assms(3) no_pad_def)
    with assms(4) show False by simp
  qed
  then have none: "upf_sess_find_by_smf_n4_f_seid pad c f = Ret None"
    using ip by (simp add: upf_sess_find_by_smf_n4_f_seid_def)
  obtain c' n where a: "upf_sess_add seed f c = Ret (c', Some n)"
    using sess_add_succeeds [OF inv assms(5)] live_length [OF inv] reachable_pool [OF assms(1,2)] assms(6) by metis
  with none assms(5) have "upf_sess_add_by_message seed pad (Some f) c = Ret (c', Some n)"
    by (auto simp: upf_sess_add_by_message_def)
  moreover have "upf_sess_find_by_smf_n4_seid c' (fs_seid f) = Some n" using added_lookups(1) [OF inv a] by simp
  ultimately show ?thesis using none ctx_inv_add(2) [OF inv a] by blast
qed

theorem f_seid_padding_witness:
  "\<exists>(c :: unit upf_context) n c' m. upf_sess_find_by_smf_n4_f_seid no_pad c sample_seid = Ret (Some n) \<and> live c = {n} \<and>
     upf_sess_add_by_message 1 [1, 0, 0, 0] (Some sample_seid) c = Ret (c', Some m) \<and> m \<noteq> n"
proof -
  have inv: "ctx_inv sample_context" by (rule reachable_inv [OF sample_reachable(1)]) simp
  obtain c n where c: "reachable 4 c" "upf_sess_add 1 sample_seid sample_context = Ret (c, Some n)" "live c = {n}"
    by (rule sample_added)
  note found = added_lookups(3) [OF inv c(2)]
  have "ctx_inv c" by (rule reachable_inv [OF c(1)]) simp
  then have "length (uc_list c) = card (live c)"
    using live_length unfolding ctx_inv_def pools_inv_def by metis
  then have "length (uc_list c) < 4" using c(3) by simp
  then obtain c' m where "upf_sess_add_by_message 1 [1, 0, 0, 0] (Some sample_seid) c = Ret (c', Some m)" "m \<notin> live c"
    using f_seid_padding [OF c(1), of "[1, 0, 0, 0]" sample_seid 1] by (auto simp: no_pad_def sample_seid_def)
  with found c(3) show ?thesis by blast
qed

text \<open>A session that has just been added holds nothing that its removal could fail on.\<close>

lemma remove_accs_zero:
  "remove_accs mgr (replicate k a) = Ret (mgr, replicate k a)"
  if "t_time_threshold a = None" "t_validity_time a = None" "t_time_quota a = None"
  using that by (induction k) (simp_all add: drop_timer_def)

lemma remove_accounting_fresh:
  assumes "se_urr_acc (uc_sess c n) = zero_accs"
  shows "remove_accounting n c = Ret c"
proof -
  have "upf_sess_urr_acc_remove_all \<lparr>us_acc = zero_accs, us_mgr = uc_timers c\<rparr> =
      Ret \<lparr>us_acc = zero_accs, us_mgr = uc_timers c\<rparr>"
    by (simp add: upf_sess_urr_acc_remove_all_def zero_accs_def remove_accs_zero)
  moreover have "with_sess n (\<lambda>d. d\<lparr>se_urr_acc := zero_accs\<rparr>) c = c"
  proof -
    have "(uc_sess c n)\<lparr>se_urr_acc := zero_accs\<rparr> = uc_sess c n" using assms by (cases "uc_sess c n") simp
    then show ?thesis unfolding with_sess_def by (simp only: fun_upd_triv) simp
  qed
  ultimately show ?thesis using assms by (simp add: remove_accounting_def)
qed

lemma sess_clear_fresh:
  assumes "pc_sess p n = ogs_pfcp_pool_init seed"
  shows "ogs_pfcp_sess_clear n p = Ret p"
  using assms by (simp add: ogs_pfcp_sess_clear_def ogs_pfcp_pdr_remove_all_def ogs_pfcp_far_remove_all_def
      ogs_pfcp_urr_remove_all_def ogs_pfcp_qer_remove_all_def pdrs_of_def ogs_pfcp_pool_init_def)

lemma remove_fresh_Ret:
  assumes "se_urr_acc (uc_sess c n) = zero_accs" "pc_sess (uc_pfcp c) n = ogs_pfcp_pool_init seed"
    and "se_ipv4 (uc_sess c n) = None" "se_ipv6 (uc_sess c n) = None"
    and "se_routes4 (uc_sess c n) = None" "se_routes6 (uc_sess c n) = None"
    and "1 \<le> se_id (uc_sess c n)" "se_id (uc_sess c n) \<le> OGS_MAX_POOL_ID"
  shows "\<exists>c'. upf_sess_remove n c = Ret c'"
proof -
  define c2 where "c2 = drop_keys n (c\<lparr>uc_list := remove1 n (uc_list c)\<rparr>)"
  have s: "uc_sess c2 = uc_sess c" by (simp add: c2_def drop_keys_def Let_def)
  have r: "release_ipv4 n c2 = Ret c2" "release_ipv6 n c2 = Ret c2"
    using assms(3,4) by (simp_all add: release_ipv4_def release_ipv6_def s)
  obtain t4 t6 where d: "drop_routes n c2 =
      (with_sess n (\<lambda>d. d\<lparr>se_routes4 := None, se_routes6 := None\<rparr>) c2)\<lparr>uc_routes4 := t4, uc_routes6 := t6\<rparr>"
    by (rule drop_routes_ok [of c2 n]) (simp_all add: s assms(5,6) route_array_None)
  have "se_id (uc_sess (drop_routes n c2) n) = se_id (uc_sess c n)" by (simp add: d with_sess_def s)
  then obtain pool where "ogs_pool_id_free (uc_sess_pool (drop_routes n c2)) n (se_id (uc_sess (drop_routes n c2) n)) = Ret pool"
    using assms(7,8) by (simp add: ogs_pool_id_free_def)
  then show ?thesis
    unfolding upf_sess_remove_def remove_accounting_fresh [OF assms(1)]
    by (simp add: sess_clear_fresh [OF assms(2)] Let_def c2_def [symmetric] r)
qed

text \<open>
  Adding a session and removing it again is the identity for every look-up and for the
  capacity: the removal succeeds, the list of sessions and the nodes in use are those from
  before, and every key designates what it designated before, except that a key of another
  session which the new session had taken over designates nothing.
\<close>

theorem sess_add_remove:
  assumes "reachable k c" "k < 2 ^ 32" and add: "upf_sess_add seed f c = Ret (c1, Some n)"
  shows "\<exists>c2. upf_sess_remove n c1 = Ret c2 \<and> uc_list c2 = uc_list c \<and>
    allocated (uc_sess_pool c2) = allocated (uc_sess_pool c) \<and>
    allocated (uc_seid_pool c2) = allocated (uc_seid_pool c) \<and>
    (\<forall>u. upf_sess_find_by_upf_n4_seid c2 u = upf_sess_find_by_upf_n4_seid c u) \<and>
    (\<forall>s. upf_sess_find_by_smf_n4_seid c2 s =
       (if s = fs_seid f then None else upf_sess_find_by_smf_n4_seid c s)) \<and>
    (\<forall>i. upf_sess_find_by_id c2 i = (if i = se_id (uc_sess c1 n) then None else upf_sess_find_by_id c i)) \<and>
    (\<forall>a. upf_sess_find_by_ipv4 c2 a = upf_sess_find_by_ipv4 c a)"
proof -
  have inv: "ctx_inv c" using assms(1,2) by (rule reachable_inv)
  note i1 = ctx_inv_add [OF inv add] and l1 = added_lookups [OF inv add]
  have ok: "pool_ok (uc_sess_pool c)" using inv unfolding ctx_inv_def pools_inv_def by blast
  note F = sess_add_fields [OF ok add]
  obtain i t ip where d: "uc_sess c1 n = zero_sess\<lparr>se_id := i, se_seid_node := t,
      se_upf_n4_seid := ucast (uc_seids c ! t), se_smf_seid := fs_seid f, se_smf_ip := ip\<rparr>"
    and i: "i = ogs_next_pool_id (pool_id (uc_sess_pool c))" using F(11) by blast
  have smf: "se_smf_seid (uc_sess c1 n) = fs_seid f" by (simp add: d)
  have rng: "1 \<le> i \<and> i \<le> OGS_MAX_POOL_ID"
    unfolding i using next_pool_id_range reachable_pool [OF assms(1,2)] by blast
  have "pc_sess (uc_pfcp c1) n = ogs_pfcp_pool_init seed" by (simp add: F(12) update_sess_def)
  from remove_fresh_Ret [OF _ this] rng obtain c2 where rm: "upf_sess_remove n c1 = Ret c2"
    by (auto simp: d zero_sess_def)
  have n1: "n \<in> live c1" by (simp add: i1(3))
  note i2 = ctx_inv_remove [OF i1(1) n1 rm]
  have len: "length (route_array (se_routes4 (uc_sess c1 n))) = OGS_MAX_NUM_OF_FRAMED_ROUTES_IN_PDI"
    "length (route_array (se_routes6 (uc_sess c1 n))) = OGS_MAX_NUM_OF_FRAMED_ROUTES_IN_PDI"
    by (simp_all add: d zero_sess_def route_array_None)
  note R = sess_remove_fields [OF rm len]
  have L: "live c2 = live c" using i1(2,3) i2(2) by auto
  have lst: "uc_list c2 = uc_list c" using i1(2) by (simp add: R(1) F(9) live_def remove1_append)
  have al: "allocated (uc_sess_pool c2) = allocated (uc_sess_pool c)"
    using L inv i2(1) unfolding ctx_inv_def pools_inv_def by metis
  have sess: "uc_sess c2 m = uc_sess c m" if "m \<in> live c" for m
  proof -
    have "m \<noteq> n" using that i1(2) by auto
    moreover from this have "uc_sess c1 m = uc_sess c m" using add by (elim sess_add_cases) (simp add: Let_def)
    ultimately show ?thesis using R(2) by simp
  qed
  have "allocated (uc_seid_pool c2) = (\<lambda>m. se_seid_node (uc_sess c2 m)) ` live c2"
    using i2(1) unfolding ctx_inv_def pools_inv_def by blast
  also have "\<dots> = (\<lambda>m. se_seid_node (uc_sess c m)) ` live c" unfolding L by (rule image_cong) (simp_all add: sess)
  also have "\<dots> = allocated (uc_seid_pool c)" using inv unfolding ctx_inv_def pools_inv_def by blast
  finally have als: "allocated (uc_seid_pool c2) = allocated (uc_seid_pool c)" .
  have upf: "upf_sess_find_by_upf_n4_seid c2 u = upf_sess_find_by_upf_n4_seid c u" for u
  proof -
    have "upf_sess_find_by_upf_n4_seid c2 u = Some m \<longleftrightarrow> upf_sess_find_by_upf_n4_seid c u = Some m" for m
      unfolding found_upf_seid [OF inv] found_upf_seid [OF i2(1)] L using sess [of m] by auto
    then show ?thesis by (metis option.exhaust)
  qed
  have h: "hash_ok (uc_smf_seid_hash c1)" using keys_hash_ok [OF i1(1)] by simp
  have hi: "hash_ok (pool_id_hash (uc_sess_pool c1))" using keys_hash_ok [OF i1(1)] by simp
  have ok1: "pool_ok (uc_sess_pool c1)" "n \<in> allocated (uc_sess_pool c1)"
    using i1(1) n1 unfolding ctx_inv_def pools_inv_def by blast+
  have "upf_sess_find_by_smf_n4_seid c2 s = (if s = fs_seid f then None else upf_sess_find_by_smf_n4_seid c s)" for s
    using l1(1) [of s] h by (simp add: upf_sess_find_by_smf_n4_seid_def R(7) smf)
  moreover have "upf_sess_find_by_id c2 j = (if j = se_id (uc_sess c1 n) then None else upf_sess_find_by_id c j)" for j
    using l1(2) [of j] hi id_free_facts(4) [OF ok1 R(5)] by (simp add: upf_sess_find_by_id_def ogs_pool_find_by_id_def)
  moreover have "upf_sess_find_by_ipv4 c2 a = upf_sess_find_by_ipv4 c a" for a
  proof -
    have "routes_of (uc_sess c1 n) = []" by (simp add: d zero_sess_def routes_of_def active_def)
    then have "trie_map (uc_routes4 c2) = trie_map (uc_routes4 c)" by (simp add: fun_eq_iff R(11) F(7))
    then have "route_find_ipv4 a (uc_routes4 c2) = route_find_ipv4 a (uc_routes4 c)" by (simp only: rt4.find_lpm)
    moreover have "uc_ipv4_hash c2 = uc_ipv4_hash c" by (simp add: R(9) released4_def d zero_sess_def F(5))
    ultimately show ?thesis by (simp add: upf_sess_find_by_ipv4_def cong: option.case_cong)
  qed
  ultimately show ?thesis using rm lst al als upf by blast
qed

theorem sess_add_remove_witness:
  "\<exists>(c1 :: unit upf_context) n c2. upf_sess_add 1 sample_seid sample_context = Ret (c1, Some n) \<and>
     upf_sess_remove n c1 = Ret c2 \<and> uc_list c2 = []"
proof -
  obtain c1 n where a: "upf_sess_add 1 sample_seid sample_context = Ret (c1, Some n)" using sample_added by blast
  have "uc_list sample_context = []" using sample_reachable(2) by (simp add: live_def)
  with a sess_add_remove [OF sample_reachable(1) _ a] show ?thesis by auto
qed

text \<open>
  The array of the IPv4 routes has nothing after its active part, because its entries are
  cleared when their routes go. The array of the IPv6 routes keeps them: see
  \<open>ipv6_routes_kept\<close>.
\<close>

definition clean :: "ipsubnet list option \<Rightarrow> bool" where
  "clean rs \<longleftrightarrow> (\<forall>i. length (active rs) \<le> i \<and> i < length (route_array rs) \<longrightarrow> route_array rs ! i = zero_subnet)"

lemma clean_None [simp]: "clean None"
  by (simp add: clean_def route_array_def)

lemma free_routes_zeroed:
  assumes "free_routes True rs c = (rs', c')"
  shows "rs' = replicate (length (takeWhile (\<lambda>r. ip_family r \<noteq> 0) rs)) zero_subnet @ dropWhile (\<lambda>r. ip_family r \<noteq> 0) rs"
  using assms by (induction True rs c arbitrary: rs' c' rule: free_routes.induct) (auto split: if_splits prod.splits)

lemma free_array_zeroed:
  assumes "free_route_array True rs c = (rs', c')" "clean rs"
  shows "\<forall>i < length (route_array rs'). route_array rs' ! i = zero_subnet"
proof (cases rs)
  case None
  with assms(1) show ?thesis by (auto simp: free_route_array_def route_array_def)
next
  case (Some a)
  let ?P = "\<lambda>r. ip_family r \<noteq> 0"
  obtain b where b: "free_routes True a c = (b, c')" "rs' = Some b"
    using assms(1) Some by (auto simp: free_route_array_def split: prod.splits)
  have "b ! i = zero_subnet" if i: "i < length b" for i
  proof (cases "i < length (takeWhile ?P a)")
    case False
    have l: "length b = length a" using free_routes_eq [OF b(1)] by simp
    have "b ! i = dropWhile ?P a ! (i - length (takeWhile ?P a))"
      using False by (simp add: free_routes_zeroed [OF b(1)] nth_append)
    also have "\<dots> = a ! i"
      using False i l by (simp add: dropWhile_eq_drop)
    finally show ?thesis using assms(2) False i l by (simp add: clean_def Some active_def)
  qed (simp add: free_routes_zeroed [OF b(1)] nth_append)
  then show ?thesis by (simp add: b(2))
qed

lemma ipv6_routes_kept:
  assumes "free_route_array False rs c = (rs', c')"
  shows "rs' = rs"
proof -
  have "fst (free_routes False a c) = a" for a
    by (induction False a c rule: free_routes.induct) (auto split: prod.splits)
  with assms show ?thesis by (auto simp: free_route_array_def split: option.splits prod.splits) (metis fst_conv)
qed

text \<open>From a cleared array on, the entries are the routes that parse, in order.\<close>

fun parsed :: "(string \<Rightarrow> u32 list option) \<Rightarrow> (string \<Rightarrow> u32 option) \<Rightarrow> string list \<Rightarrow> ipsubnet list" where
  "parsed pton6 pton4 [] = []"
| "parsed pton6 pton4 (s # ss) =
     (case parse_framed_route pton6 pton4 zero_subnet s of
        None \<Rightarrow> parsed pton6 pton4 ss | Some r \<Rightarrow> r # parsed pton6 pton4 ss)"

lemma parse_routes_cleared:
  assumes "parse_routes pton6 pton4 n ss j rs c = (j', rs', c')"
    and "j + length ss \<le> OGS_MAX_NUM_OF_FRAMED_ROUTES_IN_PDI"
    and "length (route_array rs) = OGS_MAX_NUM_OF_FRAMED_ROUTES_IN_PDI"
    and "\<forall>i. j \<le> i \<and> i < OGS_MAX_NUM_OF_FRAMED_ROUTES_IN_PDI \<longrightarrow> route_array rs ! i = zero_subnet"
  shows "c' = fold (\<lambda>r. add_route r n) (parsed pton6 pton4 ss) c \<and> j' = j + length (parsed pton6 pton4 ss) \<and>
    (\<forall>i. j' \<le> i \<and> i < OGS_MAX_NUM_OF_FRAMED_ROUTES_IN_PDI \<longrightarrow> route_array rs' ! i = zero_subnet) \<and>
    take j' (route_array rs') = take j (route_array rs) @ parsed pton6 pton4 ss"
  using assms
proof (induction pton6 pton4 n ss j rs c arbitrary: j' rs' c' rule: parse_routes.induct)
  case (1 pton6 pton4 n j rs c)
  then show ?case by simp
next
  case (2 pton6 pton4 n s ss j rs c)
  let ?a = "route_array rs"
  have j: "j < length ?a" and z: "?a ! j = zero_subnet" using "2.prems"(2,3,4) by simp_all
  show ?case
  proof (cases "parse_framed_route pton6 pton4 (?a ! j) s")
    case None
    have p: "parse_routes pton6 pton4 n ss j (Some (?a[j := zero_subnet])) c = (j', rs', c')"
      using "2.prems"(1) None by (simp add: route_array_def)
    have "?a[j := zero_subnet] = ?a" using z by (metis list_update_id)
    with "2.IH"(1) [folded route_array_def, OF refl None p] None "2.prems"(2-4) z show ?thesis by auto
  next
    case (Some r)
    have p: "parse_routes pton6 pton4 n ss (j + 1) (Some (?a[j := r])) (add_route r n c) = (j', rs', c')"
      using "2.prems"(1) Some by (simp add: route_array_def)
    from "2.IH"(2) [folded route_array_def, OF refl Some p] Some "2.prems"(2-4) z j show ?thesis
      by (auto simp: take_Suc_conv_app_nth)
  qed
qed

lemma parsed_length: "length (parsed pton6 pton4 ss) \<le> length ss"
  by (induction ss) (auto split: option.splits)

lemma parsed_active: "r \<in> set (parsed pton6 pton4 ss) \<Longrightarrow> ip_family r \<noteq> 0"
  by (induction ss) (auto split: option.splits dest: parsed_family)

lemma set_routes_cleared:
  assumes s: "set_routes pton6 pton4 True n routes rs c = (rs', c')" and cl: "clean rs"
    and len: "length (route_array rs) = OGS_MAX_NUM_OF_FRAMED_ROUTES_IN_PDI"
    and ss: "ss = (case routes of None \<Rightarrow> [] | Some ss \<Rightarrow> take OGS_MAX_NUM_OF_FRAMED_ROUTES_IN_PDI ss)"
  shows "c' = replace_routes n (active rs) (parsed pton6 pton4 ss) c \<and> active rs' = parsed pton6 pton4 ss \<and> clean rs'"
proof -
  let ?ns = "parsed pton6 pton4 ss" and ?P = "\<lambda>r. ip_family r \<noteq> 0"
  obtain rs1 c1 where f: "free_route_array True rs c = (rs1, c1)" by (cases "free_route_array True rs c")
  obtain j rs2 c2 where p: "parse_routes pton6 pton4 n ss 0 rs1 c1 = (j, rs2, c2)"
    by (cases "parse_routes pton6 pton4 n ss 0 rs1 c1") auto
  have r': "rs' = (if j = 0 then None else rs2)" "c' = c2"
    using s f p by (simp_all add: set_routes_def ss Let_def)
  have c1: "c1 = fold free_route (active rs) c" "length (route_array rs1) = OGS_MAX_NUM_OF_FRAMED_ROUTES_IN_PDI"
    using f free_routes_eq [of True "the rs" c "the rs1" c1] len
    by (auto simp: free_route_array_def active_def route_array_def split: option.splits prod.splits)
  have l: "0 + length ss \<le> OGS_MAX_NUM_OF_FRAMED_ROUTES_IN_PDI" by (simp add: ss split: option.splits)
  note z = free_array_zeroed [OF f cl]
  have P: "c2 = fold (\<lambda>r. add_route r n) ?ns c1" "j = length ?ns" "take j (route_array rs2) = ?ns"
    "\<forall>i. j \<le> i \<and> i < OGS_MAX_NUM_OF_FRAMED_ROUTES_IN_PDI \<longrightarrow> route_array rs2 ! i = zero_subnet"
    using parse_routes_cleared [OF p l c1(2)] z c1(2) by auto
  have len2: "length (route_array rs2) = OGS_MAX_NUM_OF_FRAMED_ROUTES_IN_PDI"
    using parse_routes_spec [OF p l c1(2)] by auto
  have "active rs' = ?ns \<and> clean rs'"
  proof (cases "j = 0")
    case True
    with P(2) show ?thesis by (simp add: r'(1) active_def)
  next
    case False
    then obtain a where a: "rs2 = Some a" using parse_routes_spec [OF p l c1(2)] by (cases rs2) auto
    have "dropWhile ?P (drop j a) = drop j a"
    proof (cases "j < length a")
      case True
      then show ?thesis using P(4) len2 a
        by (simp add: Cons_nth_drop_Suc [symmetric] zero_subnet_def)
    qed simp
    then have t: "takeWhile ?P (drop j a) = []"
      by (metis append_self_conv2 takeWhile_dropWhile_id)
    have "takeWhile ?P a = takeWhile ?P (?ns @ drop j a)" using P(3) a by (metis append_take_drop_id route_array_Some)
    also have "\<dots> = ?ns" using parsed_active t by (simp add: takeWhile_append2)
    finally have "active rs' = ?ns" using False a by (simp add: r'(1) active_def)
    with P(2,4) len2 False a show ?thesis by (simp add: clean_def r'(1))
  qed
  with P(1) c1(1) show ?thesis by (simp add: r'(2) replace_routes_def)
qed

lemma set_ipv4_routes_cleared:
  assumes s: "upf_sess_set_ue_ipv4_framed_routes pton6 pton4 n routes c = (c', cause)"
    and cl: "clean (se_routes4 (uc_sess c n))"
    and len: "length (route_array (se_routes4 (uc_sess c n))) = OGS_MAX_NUM_OF_FRAMED_ROUTES_IN_PDI"
    and ss: "ss = (case routes of None \<Rightarrow> [] | Some ss \<Rightarrow> take OGS_MAX_NUM_OF_FRAMED_ROUTES_IN_PDI ss)"
  shows "\<exists>rs. c' = with_sess n (\<lambda>d. d\<lparr>se_routes4 := rs\<rparr>)
      (replace_routes n (active (se_routes4 (uc_sess c n))) (parsed pton6 pton4 ss) c) \<and>
    active rs = parsed pton6 pton4 ss \<and> clean rs"
proof -
  obtain rs c1 where r: "set_routes pton6 pton4 True n routes (se_routes4 (uc_sess c n)) c = (rs, c1)" by fastforce
  from set_routes_cleared [OF r cl len ss] r s show ?thesis
    by (auto simp: upf_sess_set_ue_ipv4_framed_routes_def)
qed

lemma clean_step:
  assumes "\<And>m. se_routes4 (uc_sess c' m) = se_routes4 (uc_sess c m)" "\<forall>m. clean (se_routes4 (uc_sess c m))"
  shows "\<forall>m. clean (se_routes4 (uc_sess c' m))"
  using assms by simp

lemma reachable_clean:
  assumes "reachable k c" "k < 2 ^ 32"
  shows "\<forall>m. clean (se_routes4 (uc_sess c m))"
  using assms
proof (induction rule: reachable.induct)
  case (init r seed timers pfcp subnets)
  then show ?case by (simp add: upf_context_init_def zero_sess_def)
next
  case (message c seed pad f c' r)
  have "\<forall>m. clean (se_routes4 (uc_sess c' m))" if g: "upf_sess_add seed g c = Ret (c', r)" for g
  proof (cases r)
    case None
    have "pool_ok (uc_sess_pool c)"
      using reachable_inv [OF message.hyps(1) message.prems] unfolding ctx_inv_def pools_inv_def by blast
    with g None sess_add_None [of c seed g c'] message show ?thesis by simp
  next
    case (Some n)
    from g [unfolded Some] message.IH message.prems show ?thesis
      by (elim sess_add_cases) (simp add: Let_def zero_sess_def)
  qed
  with message add_by_message_cases [OF message.hyps(2)] show ?case by auto
next
  case (remove c n c')
  have "route_inv c" using reachable_inv [OF remove.hyps(1) remove.prems] by (simp add: ctx_inv_def)
  then have len: "length (route_array (se_routes4 (uc_sess c n))) = OGS_MAX_NUM_OF_FRAMED_ROUTES_IN_PDI"
    "length (route_array (se_routes6 (uc_sess c n))) = OGS_MAX_NUM_OF_FRAMED_ROUTES_IN_PDI"
    by (simp_all add: route_inv_def)
  note F = sess_remove_fields [OF remove.hyps(3) len]
  have "clean (se_routes4 (uc_sess c' m))" for m
    using F(2) [of m] F(13) remove by (cases "m = n") simp_all
  then show ?case by blast
next
  case (set_ue_ip c n ty p c' cause)
  have "addr_inv c" using reachable_inv [OF set_ue_ip.hyps(1) set_ue_ip.prems] by (simp add: ctx_inv_def)
  from set_ue_ip_ok [OF this set_ue_ip.hyps(2,3)] have "\<And>m. se_routes4 (uc_sess c' m) = se_routes4 (uc_sess c m)"
    by (simp add: addr_step_def)
  with set_ue_ip show ?case by simp
next
  case (routes4 c n pton6 pton4 rs c' cause)
  have "route_inv c" using reachable_inv [OF routes4.hyps(1) routes4.prems] by (simp add: ctx_inv_def)
  then have "length (route_array (se_routes4 (uc_sess c n))) = OGS_MAX_NUM_OF_FRAMED_ROUTES_IN_PDI"
    by (simp add: route_inv_def)
  from set_ipv4_routes_cleared [OF routes4.hyps(3) _ this refl] routes4.IH routes4.prems
  show ?case by (auto simp: with_sess_def only_tries_fields [OF replace_routes_tries])
next
  case (routes6 c n pton6 pton4 rs c' cause)
  have "route_inv c" using reachable_inv [OF routes6.hyps(1) routes6.prems] by (simp add: ctx_inv_def)
  then have "length (route_array (se_routes6 (uc_sess c n))) = OGS_MAX_NUM_OF_FRAMED_ROUTES_IN_PDI"
    by (simp add: route_inv_def)
  with routes6.hyps(3) obtain f ns where "c' = with_sess n (\<lambda>d. d\<lparr>se_routes6 := f\<rparr>)
      (replace_routes n (active (se_routes6 (uc_sess c n))) ns c)" by (rule set_ipv6_routes_eq)
  then have "\<And>m. se_routes4 (uc_sess c' m) = se_routes4 (uc_sess c m)"
    by (simp add: with_sess_def only_tries_fields [OF replace_routes_tries])
  with routes6 show ?case by simp
qed (simp_all add: with_sess_def)

text \<open>
  Setting the IPv4 framed routes of a session makes the trie what the specification says:
  the first eight strings are parsed, those that parse are bound to the session, its earlier
  routes are unbound, and the routes of the other sessions stay as they are unless they have
  the same prefix. The session lists exactly the routes that parsed.
\<close>

theorem framed_routes_set:
  assumes "reachable k c" "k < 2 ^ 32" "n \<in> live c"
    and "upf_sess_set_ue_ipv4_framed_routes pton6 pton4 n routes c = (c', cause)"
    and "ss = (case routes of None \<Rightarrow> [] | Some ss \<Rightarrow> take OGS_MAX_NUM_OF_FRAMED_ROUTES_IN_PDI ss)"
  shows "cause = OGS_PFCP_CAUSE_REQUEST_ACCEPTED \<and>
    active (se_routes4 (uc_sess c' n)) = parsed pton6 pton4 ss \<and>
    (\<forall>p. trie_map (uc_routes4 c') p =
       (if p \<in> prefixes4 (parsed pton6 pton4 ss) then Some n
        else if p \<in> prefixes4 (active (se_routes4 (uc_sess c n))) then None
        else trie_map (uc_routes4 c) p))"
proof -
  have len: "length (route_array (se_routes4 (uc_sess c n))) = OGS_MAX_NUM_OF_FRAMED_ROUTES_IN_PDI"
    using reachable_inv [OF assms(1,2)] by (simp add: ctx_inv_def route_inv_def)
  have cl: "clean (se_routes4 (uc_sess c n))" using reachable_clean [OF assms(1,2)] by blast
  obtain rs where c': "c' = with_sess n (\<lambda>d. d\<lparr>se_routes4 := rs\<rparr>)
      (replace_routes n (active (se_routes4 (uc_sess c n))) (parsed pton6 pton4 ss) c)"
    and rs: "active rs = parsed pton6 pton4 ss"
    using set_ipv4_routes_cleared [OF assms(4) cl len assms(5)] by blast
  have "cause = OGS_PFCP_CAUSE_REQUEST_ACCEPTED"
    using assms(4) by (auto simp: upf_sess_set_ue_ipv4_framed_routes_def split: prod.splits)
  then show ?thesis by (simp add: c' rs with_sess_def replace_routes_maps)
qed

theorem framed_routes_set_witness:
  "\<exists>(c :: unit upf_context) n c'. live c = {n} \<and>
     upf_sess_set_ue_ipv4_framed_routes (\<lambda>_. None) (\<lambda>_. Some 0x0a2d0000) n (Some [''10.45.0.0/16'']) c =
       (c', OGS_PFCP_CAUSE_REQUEST_ACCEPTED) \<and>
     length (active (se_routes4 (uc_sess c' n))) = 1"
proof -
  obtain c :: "unit upf_context" and n where c: "reachable 4 c" "live c = {n}" using sample_added by blast
  obtain c' cause where s: "upf_sess_set_ue_ipv4_framed_routes (\<lambda>_. None) (\<lambda>_. Some 0x0a2d0000) n (Some [''10.45.0.0/16'']) c =
       (c', cause)" by fastforce
  have n: "strtol10 ''16'' = (int 16, [])"
    by (simp add: strtol10_def Let_def is_space_def is_digit_def char_code_def digits_value_def)
  have "\<exists>r. parse_framed_route (\<lambda>_. None) (\<lambda>_. Some 0x0a2d0000) zero_subnet ''10.45.0.0/16'' = Some r"
    by (simp add: parse_framed_route_def strsep_slash_def Let_def ogs_ipsubnet_def looks_like_ip_def is_digit_def
        char_code_def parse_ip_def AF_INET_def AF_INET6_def n zero_subnet_def)
  with framed_routes_set [OF c(1) _ _ s refl] c(2)
  have "cause = OGS_PFCP_CAUSE_REQUEST_ACCEPTED" "length (active (se_routes4 (uc_sess c' n))) = 1"
    by (auto simp: OGS_MAX_NUM_OF_FRAMED_ROUTES_IN_PDI_def)
  with s c(2) show ?thesis by blast
qed

text \<open>A static address that has been freed stays freed: no later allocation has its name.\<close>

definition gone :: "nat \<Rightarrow> 'c upf_context \<Rightarrow> bool" where
  "gone h c \<longleftrightarrow> h \<notin> set (uc_static c) \<and> h < uc_next_static c"

lemma ue_ip_free_gone: "gone h c \<Longrightarrow> ogs_pfcp_ue_ip_free ip c = Ret c' \<Longrightarrow> gone h c'"
  by (auto simp: gone_def ogs_pfcp_ue_ip_free_def Let_def split: option.splits if_splits dest: notin_set_remove1)

lemma ue_ip_alloc_gone: "gone h c \<Longrightarrow> ogs_pfcp_ue_ip_alloc fam dnn a c = (c', r) \<Longrightarrow> gone h c'"
  by (auto simp: gone_def ogs_pfcp_ue_ip_alloc_def split: option.splits if_splits prod.splits)

lemma assign_ipv4_gone:
  assumes "gone h c" "assign_ipv4 n flag dnn a c = (c', cause)"
  shows "gone h c' \<and> se_ipv6 (uc_sess c' n) = se_ipv6 (uc_sess c n)"
proof (cases "flag \<or> dnn \<noteq> None")
  case True
  obtain c1 r where r: "ogs_pfcp_ue_ip_alloc AF_INET dnn a c = (c1, r)" by fastforce
  have "gone h c1" using ue_ip_alloc_gone [OF assms(1) r] .
  moreover have "uc_sess c1 = uc_sess c" using r by (rule ue_ip_alloc_frame) simp
  ultimately show ?thesis
    using True assms(2) r by (auto simp: assign_ipv4_def gone_def with_sess_def split: sum.splits)
qed (use assms in \<open>auto simp: assign_ipv4_def\<close>)

lemma remove_gone_Abort:
  assumes "gone h c" "se_ipv6 (uc_sess c n) = Some ip" "ui_static ip = Some h"
  shows "upf_sess_remove n c = Abort"
proof (rule ccontr)
  assume "upf_sess_remove n c \<noteq> Abort"
  then obtain c' where "upf_sess_remove n c = Ret c'" by (cases "upf_sess_remove n c") auto
  then obtain c1 pfcp c3 c4 where c1: "remove_accounting n c = Ret c1"
    and c3: "release_ipv4 n (drop_keys n (c1\<lparr>uc_list := remove1 n (uc_list c1), uc_pfcp := pfcp\<rparr>)) = Ret c3"
    and c4: "release_ipv6 n c3 = Ret c4"
    unfolding upf_sess_remove_def Let_def by (simp only: exec_bind_eq_Ret) blast
  let ?c2 = "drop_keys n (c1\<lparr>uc_list := remove1 n (uc_list c1), uc_pfcp := pfcp\<rparr>)"
  have "gone h ?c2" "se_ipv6 (uc_sess ?c2 n) = Some ip"
    using c1 assms(1,2) by (auto elim!: remove_accounting_frame simp: gone_def drop_keys_def with_sess_def Let_def)
  then have "gone h c3" "se_ipv6 (uc_sess c3 n) = Some ip"
    using c3 ue_ip_free_gone [of h "?c2\<lparr>uc_ipv4_hash := x\<rparr>" for x]
    by (auto simp: release_ipv4_def gone_def split: option.splits elim!: ue_ip_free_frame)
  with c4 assms(3) show False by (simp add: release_ipv6_def gone_def ogs_pfcp_ue_ip_free_def)
qed

text \<open>
  When a session that holds a static IPv6 address becomes an IPv4 session, the address is
  freed but the session keeps the pointer. The request is answered with an error or reads the
  freed object when it logs the addresses, and a session that survives it cannot be removed
  without freeing the object a second time.
\<close>

theorem ue_ip_dangling:
  assumes "se_ipv6 (uc_sess c n) = Some ip" "ui_static ip = Some h" "h < uc_next_static c" "distinct (uc_static c)"
  shows "upf_sess_set_ue_ip n OGS_PDU_SESSION_TYPE_IPV4 p c = Abort \<or>
    (\<exists>c' cause. upf_sess_set_ue_ip n OGS_PDU_SESSION_TYPE_IPV4 p c = Ret (c', cause) \<and>
       cause \<noteq> OGS_PFCP_CAUSE_REQUEST_ACCEPTED \<and> upf_sess_remove n c' = Abort)"
proof (cases "upf_sess_set_ue_ip n OGS_PDU_SESSION_TYPE_IPV4 p c")
  case (Ret r)
  let ?dnn = "pdr_dnn (pc_pdr (uc_pfcp c) p)"
  obtain ua c1 c2 where ua: "pdr_ue_ip (pc_pdr (uc_pfcp c) p) = Some ua"
    and r4: "release_ipv4 n c = Ret c1" and r6: "release_ipv6 n c1 = Ret c2"
    using Ret by (auto simp: upf_sess_set_ue_ip_def Let_def split: option.splits)
  have c1: "uc_sess c1 = uc_sess c" "distinct (uc_static c1)" "uc_next_static c1 = uc_next_static c"
    using r4 assms(4) by (auto simp: release_ipv4_def ogs_pfcp_ue_ip_free_def Let_def split: option.splits if_splits)
  have c2: "gone h c2" "uc_sess c2 = uc_sess c"
    using r6 assms(1-3) c1 by (auto simp: release_ipv6_def ogs_pfcp_ue_ip_free_def gone_def split: if_splits)
  obtain d cause where a: "assign_ipv4 n (ua_ipv4 ua) ?dnn [ua_word ua 0] c2 = (d, cause)" by fastforce
  have d: "gone h d" "se_ipv6 (uc_sess d n) = Some ip"
    using assign_ipv4_gone [OF c2(1) a] assms(1) c2(2) by simp_all
  have "log_ue_ip n (d, cause) = Abort"
    using d assms(2) by (simp add: log_ue_ip_def Let_def live_ip_def gone_def)
  then have "r = (d, cause)" "cause \<noteq> OGS_PFCP_CAUSE_REQUEST_ACCEPTED"
    using Ret by (auto simp: upf_sess_set_ue_ip_def ua r4 r6 a Let_def split: if_splits)
  with Ret remove_gone_Abort [OF d assms(2)] show ?thesis by blast
qed simp

theorem ue_ip_dangling_witness:
  "\<exists>c :: unit upf_context. \<exists>r. upf_sess_set_ue_ip 0 OGS_PDU_SESSION_TYPE_IPV4 0 c = r \<and>
     (\<forall>c'. r \<noteq> Ret (c', OGS_PFCP_CAUSE_REQUEST_ACCEPTED))"
proof -
  define ip where "ip = \<lparr>ui_addr = [0x20010db8, 0, 0, 1], ui_static = Some 0, ui_node = 0, ui_subnet = 0\<rparr>"
  define c :: "unit upf_context" where
    "c = (with_sess 0 (\<lambda>d. d\<lparr>se_ipv6 := Some ip\<rparr>) sample_context)\<lparr>uc_static := [0], uc_next_static := 1\<rparr>"
  have "se_ipv6 (uc_sess c 0) = Some ip" "ui_static ip = Some 0" "0 < uc_next_static c" "distinct (uc_static c)"
    by (simp_all add: c_def ip_def with_sess_def)
  from ue_ip_dangling [OF this, of 0] show ?thesis by (intro exI [of _ c]) auto
qed

end
