(* ===== verification/Gtp_Header.thy ===== *)
theory Gtp_Header
  imports Route_Trie
begin

text \<open>
  The GTP-U header: packet buffers with their headroom (\<^verbatim>\<open>lib/core/ogs-pkbuf.h\<close>), the parser
  of a received header (\<^verbatim>\<open>lib/gtp/util.c\<close>), the header written in front of a packet and the
  error indication (\<^verbatim>\<open>lib/gtp/v2/build.c\<close>), the echo response (\<^verbatim>\<open>lib/gtp/v2/path.c\<close>).

  A buffer is the octets before the packet, the packet, and the octets after it, which a reader
  that does not look at the length sees. The parser is modelled with a descriptor to fill, as
  the user plane function calls it.
\<close>

section \<open>Packet buffers\<close>

record pkbuf =
  pk_head :: bytes
  pk_data :: bytes
  pk_tail :: bytes

definition pk_mem :: "pkbuf \<Rightarrow> bytes" where "pk_mem b = pk_data b @ pk_tail b"

definition ogs_pkbuf_reserve :: "nat \<Rightarrow> pkbuf \<Rightarrow> pkbuf" where
  "ogs_pkbuf_reserve n b = b\<lparr>pk_head := pk_head b @ take n (pk_tail b), pk_tail := drop n (pk_tail b)\<rparr>"

text \<open>\<^verbatim>\<open>ogs_pkbuf_put\<close> with the octets the caller then writes.\<close>

definition ogs_pkbuf_put :: "bytes \<Rightarrow> pkbuf \<Rightarrow> pkbuf exec" where
  "ogs_pkbuf_put bs b =
     (if length (pk_tail b) < length bs then Abort
      else Ret (b\<lparr>pk_data := pk_data b @ bs, pk_tail := drop (length bs) (pk_tail b)\<rparr>))"

definition ogs_pkbuf_push :: "nat \<Rightarrow> pkbuf \<Rightarrow> pkbuf exec" where
  "ogs_pkbuf_push n b =
     (let k = length (pk_head b) - n
      in if length (pk_head b) < n then Abort
         else Ret (b\<lparr>pk_head := take k (pk_head b), pk_data := drop k (pk_head b) @ pk_data b\<rparr>))"

definition ogs_pkbuf_pull :: "nat \<Rightarrow> pkbuf \<Rightarrow> pkbuf option" where
  "ogs_pkbuf_pull n b =
     (if length (pk_data b) < n then None
      else Some (b\<lparr>pk_head := pk_head b @ take n (pk_data b), pk_data := drop n (pk_data b)\<rparr>))"

definition ogs_pkbuf_trim :: "nat \<Rightarrow> pkbuf \<Rightarrow> pkbuf" where
  "ogs_pkbuf_trim n b =
     (if length (pk_data b) < n then b
      else b\<lparr>pk_data := take n (pk_data b), pk_tail := drop n (pk_data b) @ pk_tail b\<rparr>)"

text \<open>Octets written over those at an offset of the packet; what lies past its end is not kept.\<close>

definition overwrite :: "nat \<Rightarrow> bytes \<Rightarrow> bytes \<Rightarrow> bytes" where
  "overwrite i bs d = take (length d) (take i d @ bs @ drop (i + length bs) d)"

section \<open>The header\<close>

definition OGS_GTPV1U_HEADER_LEN :: nat where "OGS_GTPV1U_HEADER_LEN = 8"

definition OGS_GTPV1U_EXTENSION_HEADER_LEN :: nat where "OGS_GTPV1U_EXTENSION_HEADER_LEN = 4"

definition OGS_GTP2_NUM_OF_EXTENSION_HEADER :: nat where "OGS_GTP2_NUM_OF_EXTENSION_HEADER = 8"

definition OGS_GTP2_MAX_EXTENSION_HEADER_LEN :: nat where "OGS_GTP2_MAX_EXTENSION_HEADER_LEN = 4"

definition FLAGS_E :: u8 where "FLAGS_E = 0x04"

definition FLAGS_S :: u8 where "FLAGS_S = 0x02"

definition FLAGS_PN :: u8 where "FLAGS_PN = 0x01"

definition FLAGS_V_PT :: u8 where "FLAGS_V_PT = 0x30"

definition MSGTYPE_ECHO_REQ :: u8 where "MSGTYPE_ECHO_REQ = 1"

definition MSGTYPE_ECHO_RSP :: u8 where "MSGTYPE_ECHO_RSP = 2"

definition MSGTYPE_ERR_IND :: u8 where "MSGTYPE_ERR_IND = 26"

definition MSGTYPE_END_MARKER :: u8 where "MSGTYPE_END_MARKER = 254"

definition MSGTYPE_GPDU :: u8 where "MSGTYPE_GPDU = 255"

definition EXT_UDP_PORT :: u8 where "EXT_UDP_PORT = 0x40"

definition EXT_PDU_SESSION_CONTAINER :: u8 where "EXT_PDU_SESSION_CONTAINER = 0x85"

definition EXT_PDCP_NUMBER :: u8 where "EXT_PDCP_NUMBER = 0xc0"

definition PDU_TYPE_DL :: u8 where "PDU_TYPE_DL = 0"

definition PDU_TYPE_UL :: u8 where "PDU_TYPE_UL = 1"

text \<open>\<^verbatim>\<open>ogs_gtp2_header_desc_t\<close>; a number with a presence flag is an option.\<close>

record header_desc =
  hd_type :: u8
  hd_flags :: u8
  hd_teid :: u32
  hd_qfi :: u8
  hd_pdu_type :: u8
  hd_udp :: "u16 option"
  hd_pdcp :: "u16 option"

definition zero_desc :: header_desc where
  "zero_desc = \<lparr>hd_type = 0, hd_flags = 0, hd_teid = 0, hd_qfi = 0, hd_pdu_type = 0, hd_udp = None, hd_pdcp = None\<rparr>"

subsection \<open>Reading\<close>

text \<open>
  The switch on an extension header with type \<open>t\<close> and content \<open>c0 c1\<close>. The QFI is taken from
  the container of an uplink packet only.
\<close>

definition capture_ext :: "u8 \<Rightarrow> u8 \<Rightarrow> u8 \<Rightarrow> header_desc \<Rightarrow> header_desc" where
  "capture_ext t c0 c1 d =
     (if t = EXT_PDU_SESSION_CONTAINER
      then (let pt = drop_bit 4 c0; d = d\<lparr>hd_pdu_type := pt\<rparr>
            in if pt = PDU_TYPE_UL then d\<lparr>hd_qfi := c1 AND 0x3f\<rparr> else d)
      else if t = EXT_UDP_PORT then d\<lparr>hd_udp := Some (of_be16 c0 c1)\<rparr>
      else if t = EXT_PDCP_NUMBER then d\<lparr>hd_pdcp := Some (of_be16 c0 c1)\<rparr>
      else d)"

text \<open>
  The loop over extension headers; the first argument is how many more fit, and after the last
  one the function fails. The type is read at \<open>len - 1\<close> and the length, in units of four octets,
  at \<open>len\<close>, before the length of the packet is checked.
\<close>

fun parse_exts :: "nat \<Rightarrow> nat \<Rightarrow> header_desc \<Rightarrow> pkbuf \<Rightarrow> (header_desc \<times> nat) option" where
  "parse_exts 0 len d b = None"
| "parse_exts (Suc n) len d b =
     (let t = rd8 (pk_mem b) (len - 1); l = unat (rd8 (pk_mem b) len) * 4
      in if t = 0 then Some (d, len)
         else if l = 0 then None
         else if OGS_GTP2_MAX_EXTENSION_HEADER_LEN < l then None
         else if length (pk_data b) < len + l then None
         else parse_exts n (len + l) (capture_ext t (rd8 (pk_mem b) (len + 1)) (rd8 (pk_mem b) (len + 2)) d) b)"

definition received_desc :: "pkbuf \<Rightarrow> header_desc" where
  "received_desc b = zero_desc\<lparr>hd_flags := rd8 (pk_mem b) 0, hd_type := rd8 (pk_mem b) 1,
     hd_teid := rd32 (pk_mem b) 4\<rparr>"

definition ogs_gtpu_parse_header :: "pkbuf \<Rightarrow> (header_desc \<times> nat) option" where
  "ogs_gtpu_parse_header b =
     (let flags = rd8 (pk_mem b) 0; d = received_desc b; len = OGS_GTPV1U_HEADER_LEN
      in if length (pk_data b) < len then None
         else if flags AND FLAGS_E \<noteq> 0
         then (let len = len + OGS_GTPV1U_EXTENSION_HEADER_LEN
               in if length (pk_data b) < len then None
                  else parse_exts OGS_GTP2_NUM_OF_EXTENSION_HEADER len d b)
         else (let len = (if flags AND (FLAGS_S OR FLAGS_PN) \<noteq> 0 then len + 4 else len)
               in if length (pk_data b) < len then None else Some (d, len)))"

subsection \<open>Writing\<close>

text \<open>
  An extension header that is written has one unit of four octets: its type and content. The
  entries of the array of the code that are not in the list are zero.
\<close>

type_synonym ext_desc = "u8 \<times> u8 \<times> u8"

definition first_type :: "ext_desc list \<Rightarrow> u8" where
  "first_type es = (case es of [] \<Rightarrow> 0 | e # _ \<Rightarrow> fst e)"

fun ext_chain :: "ext_desc list \<Rightarrow> bytes" where
  "ext_chain [] = []"
| "ext_chain ((t, c0, c1) # es) = [1, c0, c1, first_type es] @ ext_chain es"

definition header_flags :: "u8 \<Rightarrow> ext_desc list \<Rightarrow> u8" where
  "header_flags flags es = flags OR FLAGS_V_PT OR (if first_type es \<noteq> 0 then FLAGS_E else 0)"

definition ogs_gtp2_fill_header :: "u8 \<Rightarrow> u8 \<Rightarrow> ext_desc list \<Rightarrow> pkbuf \<Rightarrow> pkbuf exec" where
  "ogs_gtp2_fill_header flags type es b =
     (let flags = header_flags flags es;
          ext = (if flags AND FLAGS_E \<noteq> 0 then [0, 0, 0, first_type es] @ ext_chain es
                 else if flags AND (FLAGS_S OR FLAGS_PN) \<noteq> 0 then [0, 0, 0, 0] else []);
          hlen = OGS_GTPV1U_HEADER_LEN + length ext
      in exec_bind (ogs_pkbuf_push hlen b) (\<lambda>b.
           Ret (b\<lparr>pk_data := [flags, type] @ be16 (of_nat (length (pk_data b) - OGS_GTPV1U_HEADER_LEN)) @
             be32 0 @ ext @ drop hlen (pk_data b)\<rparr>)))"

text \<open>The bit fields keep the low four bits of the PDU type and the low six of the QFI.\<close>

definition exts_of :: "header_desc \<Rightarrow> ext_desc list" where
  "exts_of d =
     (if hd_qfi d \<noteq> 0 then [(EXT_PDU_SESSION_CONTAINER, push_bit 4 (hd_pdu_type d), hd_qfi d AND 0x3f)] else []) @
     (case hd_udp d of None \<Rightarrow> [] | Some p \<Rightarrow> [(EXT_UDP_PORT, ucast (drop_bit 8 p), ucast p)]) @
     (case hd_pdcp d of None \<Rightarrow> [] | Some p \<Rightarrow> [(EXT_PDCP_NUMBER, ucast (drop_bit 8 p), ucast p)])"

definition ogs_gtp2_encapsulate_header :: "header_desc \<Rightarrow> pkbuf \<Rightarrow> pkbuf exec" where
  "ogs_gtp2_encapsulate_header d b = ogs_gtp2_fill_header (hd_flags d) (hd_type d) (exts_of d) b"

text \<open>The TEID is written when the packet is sent: \<^verbatim>\<open>ogs_gtp_send_with_teid\<close>.\<close>

definition with_teid :: "u32 \<Rightarrow> bytes \<Rightarrow> bytes" where
  "with_teid teid d = overwrite 4 (be32 teid) d"

subsection \<open>Error indication and echo\<close>

text \<open>A socket address: its family and the octets of the address.\<close>

record sockaddr =
  sa_family :: nat
  sa_addr :: bytes

definition empty_pkbuf :: "nat \<Rightarrow> pkbuf" where
  "empty_pkbuf n = \<lparr>pk_head = [], pk_data = [], pk_tail = replicate n 0\<rparr>"

definition ogs_gtp1_build_error_indication :: "u32 \<Rightarrow> sockaddr \<Rightarrow> pkbuf exec" where
  "ogs_gtp1_build_error_indication teid sa =
     (let b = ogs_pkbuf_reserve (OGS_GTPV1U_HEADER_LEN + 4 + 4 + 4) (empty_pkbuf 100) in
      exec_bind (ogs_pkbuf_put [16] b) (\<lambda>b.
      exec_bind (ogs_pkbuf_put (be32 teid) b) (\<lambda>b.
      exec_bind (ogs_pkbuf_put [133] b) (\<lambda>b.
        if sa_family sa = AF_INET
        then exec_bind (ogs_pkbuf_put (be16 4) b) (ogs_pkbuf_put (take 4 (sa_addr sa)))
        else if sa_family sa = AF_INET6
        then exec_bind (ogs_pkbuf_put (be16 16) b) (ogs_pkbuf_put (take 16 (sa_addr sa)))
        else Abort))))"

text \<open>The datagram that \<^verbatim>\<open>ogs_gtp1_send_error_indication\<close> sends.\<close>

definition error_indication_exts :: "u8 \<Rightarrow> ext_desc list" where
  "error_indication_exts qfi =
     (if qfi \<noteq> 0 then [(EXT_PDU_SESSION_CONTAINER, push_bit 4 PDU_TYPE_DL, qfi AND 0x3f)] else []) @
     [(EXT_UDP_PORT, 0, 0)]"

definition ogs_gtp1_send_error_indication :: "sockaddr \<Rightarrow> u32 \<Rightarrow> u8 \<Rightarrow> bytes exec" where
  "ogs_gtp1_send_error_indication local_addr teid qfi =
     exec_bind (ogs_gtp1_build_error_indication teid local_addr) (\<lambda>b.
     exec_bind (ogs_gtp2_fill_header (FLAGS_S OR FLAGS_E) MSGTYPE_ERR_IND (error_indication_exts qfi) b)
       (\<lambda>b. Ret (with_teid teid (pk_data b))))"

text \<open>The response has room for 100 octets and at most 14 are written.\<close>

definition ogs_gtp2_handle_echo_req :: "pkbuf \<Rightarrow> bytes option" where
  "ogs_gtp2_handle_echo_req b =
     (let flags = rd8 (pk_mem b) 0;
          s = flags AND FLAGS_S \<noteq> 0; pn = flags AND FLAGS_PN \<noteq> 0;
          opt = (if s \<or> pn
                 then (if s then [rd8 (pk_mem b) 8, rd8 (pk_mem b) 9] else [0, 0]) @
                   [if pn then rd8 (pk_mem b) 10 else 0, 0]
                 else [])
      in if drop_bit 5 flags \<noteq> 1 then None
         else if rd8 (pk_mem b) 1 \<noteq> MSGTYPE_ECHO_REQ then None
         else Some ([FLAGS_V_PT OR (if s then FLAGS_S else 0) OR (if pn then FLAGS_PN else 0), MSGTYPE_ECHO_RSP] @
           be16 (of_nat (length opt + 2)) @ be32 0 @ opt @ [14, 0]))"

section \<open>The parser stays in the packet\<close>

text \<open>The octet read past the end of the packet does not change what the loop returns.\<close>

lemma rd8_mem [simp]: "i < length (pk_data b) \<Longrightarrow> rd8 (pk_mem b) i = rd8 (pk_data b) i"
  by (simp add: rd8_def pk_mem_def nth_append)

lemma rd16_mem [simp]: "i + 1 < length (pk_data b) \<Longrightarrow> rd16 (pk_mem b) i = rd16 (pk_data b) i"
  by (simp add: rd16_def)

lemma rd32_mem [simp]: "i + 3 < length (pk_data b) \<Longrightarrow> rd32 (pk_mem b) i = rd32 (pk_data b) i"
  by (simp add: rd32_def)

lemma parse_exts_data:
  assumes "pk_data b = pk_data b'" "0 < len" "len \<le> length (pk_data b)"
  shows "parse_exts n len d b = parse_exts n len d b'"
  using assms(2,3)
proof (induction n arbitrary: len d)
  case (Suc n)
  have d: "rd8 (pk_mem b) i = rd8 (pk_mem b') i" if "i < length (pk_data b)" for i
    using that assms(1) rd8_mem [of i b] rd8_mem [of i b'] by (simp del: rd8_mem)
  define l where "l = unat (rd8 (pk_mem b) len) * 4"
  define l' where "l' = unat (rd8 (pk_mem b') len) * 4"
  show ?case
  proof (cases "len < length (pk_data b)")
    case True
    then have "l' = l" unfolding l_def l'_def by (simp only: d)
    moreover have "0 < l \<Longrightarrow> 4 \<le> l" unfolding l_def by simp
    ultimately show ?thesis using Suc True assms(1)
      by (auto simp: Let_def d l_def [symmetric] l'_def [symmetric] OGS_GTP2_MAX_EXTENSION_HEADER_LEN_def
          simp del: rd8_mem)
  next
    case False
    with Suc.prems have "len = length (pk_data b)" by simp
    with Suc.prems assms(1) show ?thesis
      by (auto simp: Let_def d simp del: rd8_mem)
  qed
qed simp

lemma parse_exts_len:
  assumes "parse_exts n len d b = Some (d', k)" "len \<le> length (pk_data b)"
  shows "len \<le> k \<and> k \<le> length (pk_data b) \<and> k < len + 4 * n \<and> 4 dvd k - len"
  using assms
proof (induction n arbitrary: len d)
  case (Suc n)
  define l where "l = unat (rd8 (pk_mem b) len) * 4"
  show ?case
  proof (cases "rd8 (pk_mem b) (len - 1) = 0")
    case True
    with Suc.prems show ?thesis by (simp add: Let_def)
  next
    case False
    with Suc.prems have l: "l \<noteq> 0" "l \<le> 4" "len + l \<le> length (pk_data b)"
      and r: "\<exists>d''. parse_exts n (len + l) d'' b = Some (d', k)"
      by (auto simp: Let_def l_def [symmetric] OGS_GTP2_MAX_EXTENSION_HEADER_LEN_def split: if_splits)
    from l(1,2) have l4: "l = 4" unfolding l_def by simp
    from r obtain d'' where "parse_exts n (len + l) d'' b = Some (d', k)" ..
    from Suc.IH [OF this l(3)] have "len + l \<le> k" "k \<le> length (pk_data b)" "k < len + l + 4 * n"
      and "4 dvd k - (len + l)" by auto
    moreover from this(4) have "4 dvd k - (len + 4) + 4" using l4 by (simp add: dvd_add_right_iff)
    ultimately show ?thesis using l4 by simp
  qed
qed simp

lemma parse_header_len:
  assumes "ogs_gtpu_parse_header b = Some (d, n)"
  shows "8 \<le> n \<and> n \<le> length (pk_data b) \<and> n \<le> 40 \<and> 4 dvd n"
proof -
  consider "parse_exts 8 12 (received_desc b) b = Some (d, n)" "12 \<le> length (pk_data b)"
    | "n = 12 \<or> n = 8" "n \<le> length (pk_data b)"
    using assms by (auto simp: ogs_gtpu_parse_header_def Let_def OGS_GTPV1U_HEADER_LEN_def
        OGS_GTPV1U_EXTENSION_HEADER_LEN_def OGS_GTP2_NUM_OF_EXTENSION_HEADER_def split: if_splits)
  then show ?thesis
  proof cases
    case 1
    then have n: "12 \<le> n" "n \<le> length (pk_data b)" "n < 44" "4 dvd n - 12"
      using parse_exts_len [OF 1] by auto
    then have "4 dvd n - 12 + 12" by (intro dvd_add) simp_all
    with n show ?thesis by auto
  qed auto
qed

lemma parse_header_data:
  assumes "pk_data b = pk_data b'"
  shows "ogs_gtpu_parse_header b = ogs_gtpu_parse_header b'"
proof (cases "length (pk_data b) < 8")
  case False
  moreover from this have "pk_data b' \<noteq> []" using assms by auto
  ultimately have "received_desc b = received_desc b'" "rd8 (pk_mem b) 0 = rd8 (pk_mem b') 0"
    using assms by (simp_all add: received_desc_def)
  then show ?thesis using assms parse_exts_data [OF assms]
    by (simp add: ogs_gtpu_parse_header_def Let_def OGS_GTPV1U_EXTENSION_HEADER_LEN_def)
qed (use assms in \<open>simp add: ogs_gtpu_parse_header_def Let_def OGS_GTPV1U_HEADER_LEN_def\<close>)

section \<open>Round trip\<close>

text \<open>What the parser returns for a header written from a descriptor.\<close>

definition header_len :: "header_desc \<Rightarrow> nat" where
  "header_len d = (if exts_of d \<noteq> [] \<or> hd_flags d AND (FLAGS_E OR FLAGS_S OR FLAGS_PN) \<noteq> 0
     then 12 + 4 * length (exts_of d) else 8)"

definition echoed_desc :: "header_desc \<Rightarrow> header_desc" where
  "echoed_desc d =
     (let pt = (if hd_qfi d \<noteq> 0 then hd_pdu_type d AND 0xf else 0)
      in d\<lparr>hd_flags := header_flags (hd_flags d) (exts_of d), hd_teid := 0, hd_pdu_type := pt,
           hd_qfi := if hd_qfi d \<noteq> 0 \<and> pt = PDU_TYPE_UL then hd_qfi d AND 0x3f else 0\<rparr>)"

lemma parse_chain:
  assumes "pk_data b = pre @ ext_chain es @ rest" "length pre = len" "0 < len" "pre ! (len - 1) = first_type es"
    and "length es < n" "\<forall>e \<in> set es. fst e \<noteq> 0"
  shows "parse_exts n len d b = Some (foldl (\<lambda>d (t, c0, c1). capture_ext t c0 c1 d) d es, len + 4 * length es)"
  using assms
proof (induction es arbitrary: n len d pre)
  case Nil
  then obtain m where "n = Suc m" by (cases n) auto
  with Nil show ?case by (auto simp: Let_def rd8_def pk_mem_def nth_append first_type_def)
next
  case (Cons e es)
  obtain t c0 c1 where e: "e = (t, c0, c1)" by (cases e)
  obtain m where n: "n = Suc m" using Cons.prems by (cases n) auto
  have rd: "rd8 (pk_mem b) (len - 1) = t" "rd8 (pk_mem b) len = 1"
    "rd8 (pk_mem b) (len + 1) = c0" "rd8 (pk_mem b) (len + 2) = c1"
    using Cons.prems e by (auto simp: rd8_def pk_mem_def nth_append first_type_def)
  have "parse_exts m (len + 4) (capture_ext t c0 c1 d) b =
      Some (foldl (\<lambda>d (t, c0, c1). capture_ext t c0 c1 d) (capture_ext t c0 c1 d) es, len + 4 + 4 * length es)"
    using Cons.prems e n by (intro Cons.IH [of "pre @ [1, c0, c1, first_type es]"]) (auto simp: nth_append)
  moreover have "t \<noteq> 0" "len + 4 \<le> length (pk_data b)" using Cons.prems e by auto
  ultimately show ?case unfolding n parse_exts.simps
    by (simp only: rd Let_def) (simp add: e OGS_GTP2_MAX_EXTENSION_HEADER_LEN_def)
qed

definition written_exts :: "u8 \<Rightarrow> ext_desc list \<Rightarrow> bytes" where
  "written_exts flags es =
     (if flags AND FLAGS_E \<noteq> 0 then [0, 0, 0, first_type es] @ ext_chain es
      else if flags AND (FLAGS_S OR FLAGS_PN) \<noteq> 0 then [0, 0, 0, 0] else [])"

lemma length_ext_chain [simp]: "length (ext_chain es) = 4 * length es"
  by (induction es rule: ext_chain.induct) auto

lemma fill_header_eq:
  "ogs_gtp2_fill_header flags type es b =
     (let f = header_flags flags es; ext = written_exts f es; k = length (pk_head b) - (8 + length ext)
      in if length (pk_head b) < 8 + length ext then Abort
         else Ret (b\<lparr>pk_head := take k (pk_head b),
           pk_data := [f, type] @ be16 (of_nat (length ext + length (pk_data b))) @ be32 0 @ ext @ pk_data b\<rparr>))"
  by (auto simp: ogs_gtp2_fill_header_def written_exts_def ogs_pkbuf_push_def Let_def OGS_GTPV1U_HEADER_LEN_def)

lemma flags_E_of_exts:
  assumes "\<forall>e \<in> set es. fst e \<noteq> 0" "header_flags flags es AND FLAGS_E = 0"
  shows "es = []"
proof (rule ccontr)
  assume "es \<noteq> []"
  with assms(1) have "header_flags flags es = (flags OR FLAGS_V_PT) OR FLAGS_E"
    by (cases es) (auto simp: header_flags_def first_type_def or.assoc)
  then have "header_flags flags es AND FLAGS_E = FLAGS_E" by (simp add: and.commute [of _ FLAGS_E])
  with assms(2) show False by (simp add: FLAGS_E_def)
qed

lemma parse_written:
  assumes "pk_data b = [f, type] @ len @ be32 teid @ written_exts f es @ rest" "length len = 2"
    and "f = header_flags flags es" "length es < 8" "\<forall>e \<in> set es. fst e \<noteq> 0"
  shows "ogs_gtpu_parse_header b =
    Some (foldl (\<lambda>d (t, c0, c1). capture_ext t c0 c1 d) (zero_desc\<lparr>hd_flags := f, hd_type := type, hd_teid := teid\<rparr>) es,
      8 + length (written_exts f es))"
proof -
  have "pk_data b \<noteq> []" using assms(1) by simp
  moreover obtain x y where len: "len = [x, y]" using assms(2) by (auto simp: numeral_2_eq_2 length_Suc_conv)
  ultimately have d: "received_desc b = zero_desc\<lparr>hd_flags := f, hd_type := type, hd_teid := teid\<rparr>"
    and f: "rd8 (pk_mem b) 0 = f"
    using assms(1) by (simp_all add: received_desc_def rd32_def rd8_def be32_def of_be32_split pk_mem_def)
  show ?thesis
  proof (cases "f AND FLAGS_E = 0")
    case True
    then have "es = []" using flags_E_of_exts assms(3,5) by blast
    moreover from this True have "length (pk_data b) = 8 + length (written_exts f es) + length rest"
      using assms(1) len by simp
    ultimately show ?thesis using True
      by (simp add: ogs_gtpu_parse_header_def Let_def d f written_exts_def OGS_GTPV1U_HEADER_LEN_def)
  next
    case False
    define pre where "pre = [f, type] @ len @ be32 teid @ [0, 0, 0, first_type es]"
    have "parse_exts 8 12 (received_desc b) b =
        Some (foldl (\<lambda>d (t, c0, c1). capture_ext t c0 c1 d) (received_desc b) es, 12 + 4 * length es)"
      using assms False len by (intro parse_chain [of _ pre]) (auto simp: pre_def written_exts_def be32_def)
    moreover have "12 \<le> length (pk_data b)" using assms(1) False len by (simp add: written_exts_def)
    ultimately show ?thesis using False
      by (simp add: ogs_gtpu_parse_header_def Let_def f d written_exts_def OGS_GTPV1U_HEADER_LEN_def
          OGS_GTPV1U_EXTENSION_HEADER_LEN_def OGS_GTP2_NUM_OF_EXTENSION_HEADER_def)
  qed
qed

lemma exts_of_wf: "length (exts_of d) \<le> 3" "\<forall>e \<in> set (exts_of d). fst e \<noteq> 0"
  by (auto simp: exts_of_def EXT_PDU_SESSION_CONTAINER_def EXT_UDP_PORT_def EXT_PDCP_NUMBER_def split: option.split)

lemma len8: "LENGTH(8) = 8" by simp

lemma nibble_back: "drop_bit 4 (push_bit 4 w) = w AND (0xf :: u8)"
proof -
  have "(0xf :: u8) = mask 4" by (simp add: mask_eq_exp_minus_1)
  then show ?thesis by (simp only:) (rule bit_word_eqI, auto simp only: bit_simps comp_def len8 possible_bit_word add_diff_cancel_left')
qed

lemma capture_exts_of:
  "foldl (\<lambda>d (t, c0, c1). capture_ext t c0 c1 d)
     (zero_desc\<lparr>hd_flags := header_flags (hd_flags d) (exts_of d), hd_type := hd_type d, hd_teid := teid\<rparr>) (exts_of d)
   = (echoed_desc d)\<lparr>hd_teid := teid\<rparr>"
  by (cases "hd_udp d"; cases "hd_pdcp d"; cases d)
    (auto simp: exts_of_def capture_ext_def echoed_desc_def zero_desc_def Let_def nibble_back of_be16_split
      EXT_PDU_SESSION_CONTAINER_def EXT_UDP_PORT_def EXT_PDCP_NUMBER_def and.assoc)

lemma header_flags_bits:
  "header_flags flags es AND (FLAGS_S OR FLAGS_PN) = flags AND (FLAGS_S OR FLAGS_PN)"
  "first_type es = 0 \<Longrightarrow> header_flags flags es AND FLAGS_E = flags AND FLAGS_E"
  by (simp_all add: header_flags_def FLAGS_V_PT_def FLAGS_E_def FLAGS_S_def FLAGS_PN_def bit.conj_disj_distrib2 and.assoc)

lemma header_len_written:
  "8 + length (written_exts (header_flags (hd_flags d) (exts_of d)) (exts_of d)) = header_len d"
proof (cases "exts_of d")
  case Nil
  then show ?thesis
    using header_flags_bits(1) [of "hd_flags d" "[]"] header_flags_bits(2) [of "[]" "hd_flags d"]
    by (auto simp: header_len_def written_exts_def first_type_def bit.conj_disj_distrib or_eq_0_iff)
next
  case (Cons e es)
  then have "header_flags (hd_flags d) (exts_of d) AND FLAGS_E \<noteq> 0"
    using flags_E_of_exts [OF exts_of_wf(2), of "hd_flags d" d] by auto
  with Cons show ?thesis by (simp add: header_len_def written_exts_def)
qed

lemma header_len_le: "header_len d \<le> 12 + 4 * length (exts_of d)" "header_len d \<le> 24"
  using exts_of_wf(1) [of d] by (simp_all add: header_len_def)

definition as_packet :: "bytes \<Rightarrow> pkbuf" where
  "as_packet d = \<lparr>pk_head = [], pk_data = d, pk_tail = []\<rparr>"

lemma encapsulate_sent:
  assumes "header_len d \<le> length (pk_head b)"
  obtains b' where "ogs_gtp2_encapsulate_header d b = Ret b'"
    "\<And>teid. ogs_gtpu_parse_header (as_packet (with_teid teid (pk_data b'))) = Some ((echoed_desc d)\<lparr>hd_teid := teid\<rparr>, header_len d)"
    "\<And>teid. drop (header_len d) (with_teid teid (pk_data b')) = pk_data b"
    "\<And>teid. rd16 (with_teid teid (pk_data b')) 2 = of_nat (length (pk_data b') - 8)"
    "length (pk_data b') = header_len d + length (pk_data b)" "pk_tail b' = pk_tail b"
    "pk_head b' = take (length (pk_head b) - header_len d) (pk_head b)"
proof -
  define f where "f = header_flags (hd_flags d) (exts_of d)"
  define ext where "ext = written_exts f (exts_of d)"
  define l :: u16 where "l = of_nat (length ext + length (pk_data b))"
  define b' where "b' = b\<lparr>pk_head := take (length (pk_head b) - header_len d) (pk_head b),
    pk_data := [f, hd_type d] @ be16 l @ be32 0 @ ext @ pk_data b\<rparr>"
  have hl: "8 + length ext = header_len d" by (simp add: ext_def f_def header_len_written)
  have enc: "ogs_gtp2_encapsulate_header d b = Ret b'"
    using assms hl by (simp add: ogs_gtp2_encapsulate_header_def fill_header_eq Let_def b'_def ext_def f_def l_def)
  have data: "with_teid teid (pk_data b') = [f, hd_type d] @ be16 l @ be32 teid @ ext @ pk_data b" for teid
    by (simp add: b'_def with_teid_def overwrite_def be16_def be32_def)
  have p: "ogs_gtpu_parse_header (as_packet (with_teid teid (pk_data b'))) = Some ((echoed_desc d)\<lparr>hd_teid := teid\<rparr>, header_len d)"
    for teid
    using parse_written [of "as_packet (with_teid teid (pk_data b'))" f "hd_type d" "be16 l" teid "exts_of d" "pk_data b"
        "hd_flags d"] exts_of_wf [of d]
    by (simp add: as_packet_def data ext_def f_def capture_exts_of header_len_written)
  have r: "rd16 (with_teid teid (pk_data b')) 2 = of_nat (length (pk_data b') - 8)" for teid
    unfolding data by (simp add: rd16_def rd8_def be16_def be32_def of_be16_split) (simp add: l_def b'_def)
  have dr: "drop (header_len d) (with_teid teid (pk_data b')) = pk_data b" for teid
    unfolding data hl [symmetric] by (simp add: be16_def be32_def numeral_eq_Suc)
  have len: "length (pk_data b') = header_len d + length (pk_data b)" by (simp add: b'_def hl [symmetric])
  show ?thesis by (rule that [OF enc p dr r len]) (simp_all add: b'_def)
qed

text \<open>
  C19: A header written in front of a packet and completed with its tunnel identifier is read
  back: the parser returns the message type, the identifier, the UDP port and PDCP number, the
  QFI when the container is that of an uplink packet, and a length after which the packet
  stands unchanged. The length field counts all that follows the first eight octets. At most
  24 octets of headroom are needed; with less than the header takes the process ends.
\<close>

theorem gtpu_header_roundtrip:
  "header_len d \<le> 24 \<and>
   (if length (pk_head b) < header_len d then ogs_gtp2_encapsulate_header d b = Abort
    else \<exists>b' sent. ogs_gtp2_encapsulate_header d b = Ret b' \<and> sent = with_teid teid (pk_data b') \<and>
      ogs_gtpu_parse_header (as_packet sent) = Some ((echoed_desc d)\<lparr>hd_teid := teid\<rparr>, header_len d) \<and>
      drop (header_len d) sent = pk_data b \<and> rd16 sent 2 = of_nat (length (pk_data b') - 8) \<and>
      pk_tail b' = pk_tail b \<and> pk_head b' = take (length (pk_head b) - header_len d) (pk_head b))"
proof (cases "length (pk_head b) < header_len d")
  case True
  then show ?thesis using header_len_le(2) [of d]
    by (simp add: ogs_gtp2_encapsulate_header_def fill_header_eq Let_def header_len_written)
next
  case False
  then have "header_len d \<le> length (pk_head b)" by simp
  from encapsulate_sent [OF this] show ?thesis using False header_len_le(2) [of d] by metis
qed

text \<open>
  The parser stays in the packet. Although it reads the length octet of an extension header
  before it has compared the length of the packet, what it returns does not depend on the
  octets that follow the packet in its buffer, and the length it returns is between 8 and 40,
  a multiple of 4 and not more than that of the packet.
\<close>

theorem gtpu_parse_in_bounds:
  assumes "pk_data b = pk_data b'"
  shows "ogs_gtpu_parse_header b = ogs_gtpu_parse_header b' \<and>
    (\<forall>d n. ogs_gtpu_parse_header b = Some (d, n) \<longrightarrow> 8 \<le> n \<and> n \<le> 40 \<and> 4 dvd n \<and> n \<le> length (pk_data b))"
  using parse_header_data [OF assms] parse_header_len by blast

theorem gtpu_parse_in_bounds_witness:
  "let b = \<lparr>pk_head = [], pk_data = [0x34, 255, 0, 4, 0, 0, 0, 7, 0, 0, 0, 0x85], pk_tail = [1, 16, 9, 0]\<rparr>
   in ogs_gtpu_parse_header b = ogs_gtpu_parse_header (b\<lparr>pk_tail := []\<rparr>) \<and> ogs_gtpu_parse_header b = None"
proof -
  define b where "b = \<lparr>pk_head = [], pk_data = [0x34, 255, 0, 4, 0, 0, 0, 7, 0, 0, 0, 0x85], pk_tail = [1, 16, 9, 0]\<rparr>"
  have "ogs_gtpu_parse_header b = ogs_gtpu_parse_header (b\<lparr>pk_tail := []\<rparr>)"
    using gtpu_parse_in_bounds [of b "b\<lparr>pk_tail := []\<rparr>"] by simp
  moreover have "ogs_gtpu_parse_header b = None" by (simp add: b_def, code_simp)
  ultimately show ?thesis unfolding Let_def b_def [symmetric] by blast
qed

end
