(* ===== verification/Pfcp_Forward.thy ===== *)
theory Pfcp_Forward
  imports Upf_Context Gtp_Header
begin

text \<open>
  The forwarding of a packet by a PDR and its FAR: the outer header, the choice between sending
  and buffering, the replay of buffered packets and the end marker
  (\<^verbatim>\<open>ogs_pfcp_up_handle_pdr\<close> and \<^verbatim>\<open>ogs_pfcp_up_handle_error_indication\<close> of
  \<^verbatim>\<open>lib/pfcp/handler.c\<close>, \<^verbatim>\<open>ogs_pfcp_send_gtpu\<close> and its callers of \<^verbatim>\<open>lib/pfcp/path.c\<close>,
  \<^verbatim>\<open>ogs_pfcp_outer_header_creation_to_ip\<close> of \<^verbatim>\<open>lib/pfcp/conv.c\<close>).

  A datagram handed to a socket is part of the result. A buffered packet is its octets from the
  outer header on: the TEID is written into it when it is sent.
\<close>

section \<open>State and outputs\<close>

definition OGS_PFCP_APPLY_ACTION_FORW :: u16 where "OGS_PFCP_APPLY_ACTION_FORW = push_bit 9 1"

definition OGS_PFCP_APPLY_ACTION_BUFF :: u16 where "OGS_PFCP_APPLY_ACTION_BUFF = push_bit 10 1"

definition INTERFACE_TYPE_N3_3GPP_ACCESS :: u8 where "INTERFACE_TYPE_N3_3GPP_ACCESS = 11"

definition INTERFACE_TYPE_N6 :: u8 where "INTERFACE_TYPE_N6 = 17"

definition INTERFACE_TYPE_N9_FOR_ROAMING :: u8 where "INTERFACE_TYPE_N9_FOR_ROAMING = 21"

definition OGS_MAX_NUM_OF_GTPU_BUFFER :: nat where "OGS_MAX_NUM_OF_GTPU_BUFFER = 64"

type_synonym datagram = "gtp_node \<times> bytes"

section \<open>Operations\<close>

definition ogs_pfcp_outer_header_creation_to_ip :: "outer_header \<Rightarrow> ogs_ip" where
  "ogs_pfcp_outer_header_creation_to_ip oh =
     (let v4 = oh_gtpu4 oh \<or> oh_ip4 oh \<or> oh_udp4 oh; v6 = oh_gtpu6 oh \<or> oh_ip6 oh \<or> oh_udp6 oh;
          bs = oh_octets oh
      in if v4 \<and> v6
         then \<lparr>oi_addr = rd32 bs 0, oi_addr6 = take 16 (drop 4 bs), oi_len = 20, oi_ipv4 = True, oi_ipv6 = True\<rparr>
         else if v4 then zero_ip\<lparr>oi_addr := rd32 bs 0, oi_len := 4, oi_ipv4 := True\<rparr>
         else if v6 then zero_ip\<lparr>oi_addr6 := take 16 bs, oi_len := 16, oi_ipv6 := True\<rparr>
         else zero_ip)"

definition ogs_pfcp_send_gtpu :: "nat \<Rightarrow> bytes \<Rightarrow> pfcp_ctx \<Rightarrow> datagram list" where
  "ogs_pfcp_send_gtpu p sendbuf c =
     (case pdr_far (pc_pdr c p) of
        None \<Rightarrow> []
      | Some x \<Rightarrow>
          (let f = pc_far c x
           in if far_dst_if f = OGS_PFCP_INTERFACE_UNKNOWN then []
              else (case far_gnode f of
                      None \<Rightarrow> []
                    | Some g \<Rightarrow> if gn_sock g then [(g, with_teid (far_ohc_teid f) sendbuf)] else [])))"

definition ogs_pfcp_send_buffered_gtpu :: "nat \<Rightarrow> pfcp_ctx \<Rightarrow> pfcp_ctx \<times> datagram list" where
  "ogs_pfcp_send_buffered_gtpu p c =
     (case pdr_far (pc_pdr c p) of
        None \<Rightarrow> (c, [])
      | Some x \<Rightarrow>
          (let f = pc_far c x
           in if far_gnode f \<noteq> None \<and> far_apply_action f AND OGS_PFCP_APPLY_ACTION_FORW \<noteq> 0
              then (update_far x (\<lambda>f. f\<lparr>far_buffered := []\<rparr>) c,
                    concat (map (\<lambda>b. ogs_pfcp_send_gtpu p b c) (far_buffered f)))
              else (c, [])))"

definition pdr_qer_qfi :: "nat \<Rightarrow> pfcp_ctx \<Rightarrow> u8" where
  "pdr_qer_qfi p c = (case pdr_qer (pc_pdr c p) of None \<Rightarrow> 0 | Some q \<Rightarrow> qer_qfi (pc_qer c q))"

definition OGS_GTPV1U_5GC_HEADER_LEN :: nat where "OGS_GTPV1U_5GC_HEADER_LEN = 16"

definition ogs_pfcp_send_end_marker :: "nat \<Rightarrow> pfcp_ctx \<Rightarrow> datagram list exec" where
  "ogs_pfcp_send_end_marker p c =
     (let b = ogs_pkbuf_reserve OGS_GTPV1U_5GC_HEADER_LEN (empty_pkbuf OGS_GTPV1U_5GC_HEADER_LEN);
          d = zero_desc\<lparr>hd_type := MSGTYPE_END_MARKER\<rparr>;
          q = pdr_qer_qfi p c;
          d = (if q \<noteq> 0 then d\<lparr>hd_pdu_type := PDU_TYPE_DL, hd_qfi := q\<rparr> else d)
      in exec_bind (ogs_gtp2_encapsulate_header d b) (\<lambda>b. Ret (ogs_pfcp_send_gtpu p (pk_data b) c)))"

text \<open>Home routed roaming: the received header is kept and only its TEID changes.\<close>

definition n9_roaming :: "pfcp_pdr \<Rightarrow> pfcp_far \<Rightarrow> bool" where
  "n9_roaming d f \<longleftrightarrow>
     (pdr_src_if d = OGS_PFCP_INTERFACE_CORE \<and> pdr_src_if_type d = Some INTERFACE_TYPE_N9_FOR_ROAMING) \<or>
     (far_dst_if f = OGS_PFCP_INTERFACE_CORE \<and> far_dst_if_type f = Some INTERFACE_TYPE_N9_FOR_ROAMING)"

text \<open>
  The header to send. Without a QFI from a QER, a packet that goes from access to access takes
  it from the received header, which the code reads through a pointer that may be null.
\<close>

definition send_header :: "nat \<Rightarrow> pfcp_far \<Rightarrow> u8 \<Rightarrow> header_desc option \<Rightarrow> pfcp_ctx \<Rightarrow> header_desc exec" where
  "send_header p f type recvhdr c =
     (let d = pc_pdr c p; q = pdr_qer_qfi p c;
          h = zero_desc\<lparr>hd_type := type, hd_teid := far_ohc_teid f\<rparr>
      in exec_bind
           (if q \<noteq> 0 then Ret (h\<lparr>hd_pdu_type := PDU_TYPE_DL, hd_qfi := q\<rparr>)
            else if pdr_src_if d = OGS_PFCP_INTERFACE_ACCESS \<and> far_dst_if f = OGS_PFCP_INTERFACE_ACCESS
            then (case recvhdr of None \<Rightarrow> Abort
                  | Some r \<Rightarrow> Ret (if hd_qfi r \<noteq> 0 then h\<lparr>hd_pdu_type := PDU_TYPE_DL, hd_qfi := hd_qfi r\<rparr> else h))
            else Ret h)
           (\<lambda>h. Ret (case recvhdr of None \<Rightarrow> h
              | Some r \<Rightarrow> h\<lparr>hd_pdcp := hd_pdcp r, hd_udp := hd_udp r\<rparr>)))"

definition add_outer_header ::
  "nat \<Rightarrow> pfcp_far \<Rightarrow> u8 \<Rightarrow> nat \<Rightarrow> header_desc option \<Rightarrow> pkbuf \<Rightarrow> pfcp_ctx \<Rightarrow> pkbuf exec" where
  "add_outer_header p f type len recvhdr b c =
     (if n9_roaming (pc_pdr c p) f then ogs_pkbuf_push len b
      else exec_bind (send_header p f type recvhdr c) (\<lambda>h. ogs_gtp2_encapsulate_header h b))"

text \<open>The last result is the downlink data report flag.\<close>

definition buffer_packet :: "nat \<Rightarrow> bytes \<Rightarrow> pfcp_ctx \<Rightarrow> pfcp_ctx \<times> bool" where
  "buffer_packet x sendbuf c =
     (let n = length (far_buffered (pc_far c x))
      in (if n < OGS_MAX_NUM_OF_GTPU_BUFFER
          then update_far x (\<lambda>f. f\<lparr>far_buffered := far_buffered f @ [sendbuf]\<rparr>) c else c,
          n = 0))"

definition ogs_pfcp_up_handle_pdr ::
  "nat \<Rightarrow> u8 \<Rightarrow> nat \<Rightarrow> header_desc option \<Rightarrow> pkbuf \<Rightarrow> pfcp_ctx \<Rightarrow> (pfcp_ctx \<times> datagram list \<times> bool) exec" where
  "ogs_pfcp_up_handle_pdr p type len recvhdr b c =
     (if type = 0 then Abort
      else case pdr_far (pc_pdr c p) of
        None \<Rightarrow> Abort
      | Some x \<Rightarrow>
          (let f = pc_far c x in
           exec_bind (add_outer_header p f type len recvhdr b c) (\<lambda>b.
             if far_gnode f = None
             then (let (c, rep) = buffer_packet x (pk_data b) c in Ret (c, [], rep))
             else if far_apply_action f AND OGS_PFCP_APPLY_ACTION_FORW \<noteq> 0
             then Ret (c, ogs_pfcp_send_gtpu p (pk_data b) c, False)
             else if far_apply_action f AND OGS_PFCP_APPLY_ACTION_BUFF \<noteq> 0
             then (let (c, rep) = buffer_packet x (pk_data b) c in Ret (c, [], rep))
             else Ret (c, [], False))))"

text \<open>The remote F-TEID of an error indication report; an address of another length is refused.\<close>

record error_indication_report =
  ei_teid :: u32
  ei_ipv4 :: bool
  ei_ipv6 :: bool
  ei_addr :: bytes
  ei_len :: nat

definition key_teid :: "bytes \<Rightarrow> u32" where
  "key_teid k = of_be32 (rd8 k 3) (rd8 k 2) (rd8 k 1) (rd8 k 0)"

definition ogs_pfcp_up_handle_error_indication ::
  "nat \<Rightarrow> pfcp_ctx \<Rightarrow> error_indication_report option exec" where
  "ogs_pfcp_up_handle_error_indication x c =
     (case far_hash_f_teid (pc_far c x) of
        None \<Rightarrow> Abort
      | Some k \<Rightarrow>
          (let len = length k - 4;
               r = \<lparr>ei_teid = key_teid k, ei_ipv4 = len = 4, ei_ipv6 = len = 16, ei_addr = drop 4 k, ei_len = 5 + len\<rparr>
           in Ret (if len = 4 \<or> len = 16 then Some r else None)))"

section \<open>Forwarding\<close>

text \<open>The message type, tunnel and contents of a datagram, as the peer reads them.\<close>

definition unframe :: "bytes \<Rightarrow> (u8 \<times> u32 \<times> bytes) option" where
  "unframe d = map_option (\<lambda>(h, n). (hd_type h, hd_teid h, drop n d)) (ogs_gtpu_parse_header (as_packet d))"

text \<open>
  The room a caller leaves: on the tunnel device and QUIC paths no header was received and 16
  octets are free, on the GTP-U path the received header of \<open>len\<close> octets is free too. A missing
  header is only read for a packet that goes from access to access without a QFI.
\<close>

definition room_ok :: "nat \<Rightarrow> pfcp_far \<Rightarrow> nat \<Rightarrow> header_desc option \<Rightarrow> pkbuf \<Rightarrow> pfcp_ctx \<Rightarrow> bool" where
  "room_ok p f len recvhdr b c \<longleftrightarrow>
     16 + len \<le> length (pk_head b) \<and>
     (case recvhdr of
        None \<Rightarrow> pdr_qer_qfi p c \<noteq> 0 \<or> pdr_src_if (pc_pdr c p) \<noteq> OGS_PFCP_INTERFACE_ACCESS \<or>
          far_dst_if f \<noteq> OGS_PFCP_INTERFACE_ACCESS
      | Some r \<Rightarrow> 8 \<le> len)"

lemma header_len_16: "hd_udp d = None \<Longrightarrow> hd_pdcp d = None \<Longrightarrow> header_len d \<le> 16"
  using header_len_le(1) [of d] by (simp add: exts_of_def split: if_splits)

lemma send_header_ok:
  assumes "room_ok p f len recvhdr b c"
  obtains h where "send_header p f type recvhdr c = Ret h" "hd_type h = type" "header_len h \<le> length (pk_head b)"
proof (cases recvhdr)
  case None
  then have "\<exists>h. send_header p f type recvhdr c = Ret h \<and> hd_type h = type \<and> hd_udp h = None \<and> hd_pdcp h = None"
    using assms by (cases "pdr_qer_qfi p c = 0") (auto simp: send_header_def room_ok_def Let_def zero_desc_def)
  then obtain h where h: "send_header p f type recvhdr c = Ret h" "hd_type h = type" "hd_udp h = None" "hd_pdcp h = None"
    by blast
  with assms header_len_16 [of h] show ?thesis by (intro that) (auto simp: room_ok_def)
next
  case (Some r)
  then have "\<exists>h. send_header p f type recvhdr c = Ret h \<and> hd_type h = type"
    by (simp add: send_header_def Let_def zero_desc_def)
  then obtain h where h: "send_header p f type recvhdr c = Ret h" "hd_type h = type" by blast
  with assms Some header_len_le(2) [of h] show ?thesis by (intro that) (auto simp: room_ok_def)
qed

text \<open>What the outer header makes of a packet, whatever the TEID it is sent with.\<close>

definition framed :: "nat \<Rightarrow> pfcp_far \<Rightarrow> u8 \<Rightarrow> nat \<Rightarrow> pkbuf \<Rightarrow> pfcp_ctx \<Rightarrow> bytes \<Rightarrow> bool" where
  "framed p f type len b c d \<longleftrightarrow>
     (if n9_roaming (pc_pdr c p) f then d = drop (length (pk_head b) - len) (pk_head b) @ pk_data b
      else \<forall>teid. unframe (with_teid teid d) = Some (type, teid, pk_data b))"

lemma echoed_type [simp]: "hd_type (echoed_desc d) = hd_type d"
  by (simp add: echoed_desc_def Let_def)

lemma add_outer_header_ok:
  assumes "room_ok p f len recvhdr b c"
  obtains b' where "add_outer_header p f type len recvhdr b c = Ret b'" "framed p f type len b c (pk_data b')"
proof (cases "n9_roaming (pc_pdr c p) f")
  case True
  with assms show ?thesis
    by (intro that) (auto simp: add_outer_header_def ogs_pkbuf_push_def room_ok_def framed_def Let_def)
next
  case False
  obtain h where h: "send_header p f type recvhdr c = Ret h" "hd_type h = type" "header_len h \<le> length (pk_head b)"
    using send_header_ok [OF assms] .
  obtain b' where b': "ogs_gtp2_encapsulate_header h b = Ret b'"
    "\<And>teid. ogs_gtpu_parse_header (as_packet (with_teid teid (pk_data b'))) = Some ((echoed_desc h)\<lparr>hd_teid := teid\<rparr>, header_len h)"
    "\<And>teid. drop (header_len h) (with_teid teid (pk_data b')) = pk_data b"
    using encapsulate_sent [OF h(3)] by metis
  have "framed p f type len b c (pk_data b')" using False h(2) by (simp add: framed_def unframe_def b'(2,3))
  moreover have "add_outer_header p f type len recvhdr b c = Ret b'" using False h(1) b'(1) by (simp add: add_outer_header_def)
  ultimately show ?thesis by (rule that [rotated])
qed

text \<open>A FAR whose packets wait: it has no peer yet, or it is told to buffer and not to forward.\<close>

definition holds_packets :: "pfcp_far \<Rightarrow> bool" where
  "holds_packets f \<longleftrightarrow> far_gnode f = None \<or>
     far_apply_action f AND OGS_PFCP_APPLY_ACTION_FORW = 0 \<and> far_apply_action f AND OGS_PFCP_APPLY_ACTION_BUFF \<noteq> 0"

definition hold :: "nat \<Rightarrow> bytes \<Rightarrow> pfcp_ctx \<Rightarrow> pfcp_ctx" where
  "hold x d c = update_far x (\<lambda>f. f\<lparr>far_buffered := if length (far_buffered f) < 64 then far_buffered f @ [d] else far_buffered f\<rparr>) c"

lemma buffer_packet_eq: "buffer_packet x d c = (hold x d c, far_buffered (pc_far c x) = [])"
proof -
  have "c = hold x d c" if "\<not> length (far_buffered (pc_far c x)) < 64"
    using that by (simp add: hold_def update_far_def)
  then show ?thesis
    by (auto simp: buffer_packet_def Let_def OGS_MAX_NUM_OF_GTPU_BUFFER_def) (auto simp: hold_def update_far_def)
qed

lemma handle_pdr_sent:
  assumes "pdr_far (pc_pdr c p) = Some x" "type \<noteq> 0" "add_outer_header p (pc_far c x) type len recvhdr b c = Ret b'"
  shows "ogs_pfcp_up_handle_pdr p type len recvhdr b c = Ret
       (if holds_packets (pc_far c x) then (hold x (pk_data b') c, [], far_buffered (pc_far c x) = [])
        else if far_apply_action (pc_far c x) AND OGS_PFCP_APPLY_ACTION_FORW \<noteq> 0 then (c, ogs_pfcp_send_gtpu p (pk_data b') c, False)
        else (c, [], False))"
  using assms by (auto simp: ogs_pfcp_up_handle_pdr_def Let_def buffer_packet_eq holds_packets_def)

lemma handle_pdr_cases:
  assumes "pdr_far (pc_pdr c p) = Some x" "type \<noteq> 0" "room_ok p (pc_far c x) len recvhdr b c"
  obtains d where "framed p (pc_far c x) type len b c d"
    "ogs_pfcp_up_handle_pdr p type len recvhdr b c = Ret
       (if holds_packets (pc_far c x) then (hold x d c, [], far_buffered (pc_far c x) = [])
        else if far_apply_action (pc_far c x) AND OGS_PFCP_APPLY_ACTION_FORW \<noteq> 0 then (c, ogs_pfcp_send_gtpu p d c, False)
        else (c, [], False))"
proof -
  obtain b' where b': "add_outer_header p (pc_far c x) type len recvhdr b c = Ret b'"
    "framed p (pc_far c x) type len b c (pk_data b')"
    using add_outer_header_ok [OF assms(3)] .
  show ?thesis by (rule that [OF b'(2) handle_pdr_sent [OF assms(1,2) b'(1)]])
qed

lemma hold_simps [simp]:
  "pc_pdr (hold x d c) = pc_pdr c" "pc_qer (hold x d c) = pc_qer c"
  "pc_far (hold x d c) x = (pc_far c x)\<lparr>far_buffered := if length (far_buffered (pc_far c x)) < 64
     then far_buffered (pc_far c x) @ [d] else far_buffered (pc_far c x)\<rparr>"
  "y \<noteq> x \<Longrightarrow> pc_far (hold x d c) y = pc_far c y"
  by (simp_all add: hold_def update_far_def)

lemma update_buffered [simp]:
  "holds_packets (f\<lparr>far_buffered := q\<rparr>) = holds_packets f"
  "n9_roaming d (f\<lparr>far_buffered := q\<rparr>) = n9_roaming d f"
  "room_ok p (f\<lparr>far_buffered := q\<rparr>) len r b c = room_ok p f len r b c"
  by (simp_all add: holds_packets_def n9_roaming_def room_ok_def split: option.split)

lemma hold_room [simp]:
  "pdr_qer_qfi p (hold x d c) = pdr_qer_qfi p c" "room_ok p f len r b (hold x d c) = room_ok p f len r b c"
proof -
  show q: "pdr_qer_qfi p (hold x d c) = pdr_qer_qfi p c" by (simp add: pdr_qer_qfi_def split: option.split)
  show "room_ok p f len r b (hold x d c) = room_ok p f len r b c" by (simp add: room_ok_def q split: option.split)
qed

text \<open>A downlink rule with one packet to forward.\<close>

definition sample_rules :: "gtp_node option \<Rightarrow> pfcp_ctx" where
  "sample_rules g = (ogs_pfcp_context_init 1 (\<lambda>_. 0) 0)\<lparr>
     pc_pdr := (\<lambda>_. zero_pdr\<lparr>pdr_src_if := OGS_PFCP_INTERFACE_CORE, pdr_far := Some 0\<rparr>),
     pc_far := (\<lambda>_. zero_far\<lparr>far_dst_if := OGS_PFCP_INTERFACE_ACCESS, far_ohc_teid := 9, far_gnode := g,
       far_apply_action := OGS_PFCP_APPLY_ACTION_FORW\<rparr>)\<rparr>"

definition sample_node :: gtp_node where
  "sample_node = \<lparr>gn_family = AF_INET, gn_addr = [10, 0, 0, 1], gn_sock = True\<rparr>"

definition sample_buf :: pkbuf where
  "sample_buf = \<lparr>pk_head = replicate 16 0, pk_data = [0x45, 0], pk_tail = []\<rparr>"

lemmas sample_forward_defs = sample_rules_def sample_node_def sample_buf_def zero_pdr_def zero_far_def room_ok_def
  n9_roaming_def holds_packets_def OGS_PFCP_INTERFACE_CORE_def OGS_PFCP_INTERFACE_ACCESS_def
  OGS_PFCP_INTERFACE_UNKNOWN_def OGS_PFCP_APPLY_ACTION_FORW_def MSGTYPE_GPDU_def

text \<open>
  C21: The treatment of a packet by its rule, on every branch. The caller leaves 16 octets and the
  received header of \<open>len\<close> octets, if there is one, in front of the packet. Then the code fails in one
  case only: a packet from access to access, outside home routed roaming, without a QFI from a QER and
  without a received header, where the code reads the QFI through the null pointer that
  \<^verbatim>\<open>upf_n3_route_uplink\<close> hands over. Otherwise the outer header fits. The packet is held when
  the rule has no peer or buffers: the peer is sent nothing, the buffer takes at most 64 packets, and
  the report flag is raised by the first of them. Otherwise one datagram goes to the peer when the action is to forward, the interface is known and the socket open: it carries the packet unchanged
  under the message type and the TEID of the rule, and in home routed roaming behind the octets of the
  received header, in which only the TEID is replaced. No other rule is touched.
\<close>

theorem forward_packet:
  assumes "pdr_far (pc_pdr c p) = Some x" "type \<noteq> 0" "f = pc_far c x" "n9 = n9_roaming (pc_pdr c p) f"
    and room: "16 + len \<le> length (pk_head b)" "recvhdr \<noteq> None \<Longrightarrow> 8 \<le> len"
  shows "if \<not> n9 \<and> recvhdr = None \<and> pdr_qer_qfi p c = 0 \<and>
      pdr_src_if (pc_pdr c p) = OGS_PFCP_INTERFACE_ACCESS \<and> far_dst_if f = OGS_PFCP_INTERFACE_ACCESS
    then ogs_pfcp_up_handle_pdr p type len recvhdr b c = Abort
    else \<exists>c' ds rep. ogs_pfcp_up_handle_pdr p type len recvhdr b c = Ret (c', ds, rep) \<and>
    (rep \<longleftrightarrow> holds_packets f \<and> far_buffered f = []) \<and>
    length ds = (if \<not> holds_packets f \<and> far_apply_action f AND OGS_PFCP_APPLY_ACTION_FORW \<noteq> 0 \<and>
      far_dst_if f \<noteq> OGS_PFCP_INTERFACE_UNKNOWN \<and> gn_sock (the (far_gnode f)) then 1 else 0) \<and>
    (\<forall>(g, d) \<in> set ds. far_gnode f = Some g \<and>
      (if n9 then d = with_teid (far_ohc_teid f) (drop (length (pk_head b) - len) (pk_head b) @ pk_data b)
       else unframe d = Some (type, far_ohc_teid f, pk_data b))) \<and>
    length (far_buffered (pc_far c' x)) = length (far_buffered f) +
      (if holds_packets f \<and> length (far_buffered f) < 64 then 1 else 0) \<and>
    (\<forall>y. y \<noteq> x \<longrightarrow> pc_far c' y = pc_far c y)"
proof (cases "n9 \<or> room_ok p f len recvhdr b c")
  case False
  then have "send_header p f type recvhdr c = Abort" "\<not> n9_roaming (pc_pdr c p) f"
    using assms by (auto simp: room_ok_def send_header_def Let_def split: option.splits)
  then have "ogs_pfcp_up_handle_pdr p type len recvhdr b c = Abort"
    using assms(1-3) by (simp add: ogs_pfcp_up_handle_pdr_def add_outer_header_def Let_def)
  then show ?thesis using False assms by (auto simp: room_ok_def split: option.splits)
next
  case True
  obtain b' where b': "add_outer_header p f type len recvhdr b c = Ret b'" "framed p f type len b c (pk_data b')"
  proof (cases n9)
    case n9: True
    then show ?thesis using room(1) assms(4)
      by (intro that) (auto simp: add_outer_header_def ogs_pkbuf_push_def framed_def Let_def)
  qed (use True add_outer_header_ok that in blast)
  note h = handle_pdr_sent [OF assms(1,2) b'(1) [unfolded assms(3)], folded assms(3)]
  have d: "if n9 then with_teid (far_ohc_teid f) (pk_data b') = with_teid (far_ohc_teid f) (drop (length (pk_head b) - len) (pk_head b) @ pk_data b)
      else unframe (with_teid (far_ohc_teid f) (pk_data b')) = Some (type, far_ohc_teid f, pk_data b)"
    using b'(2) assms(4) by (simp add: framed_def)
  have g: "far_gnode f \<noteq> None" if "\<not> holds_packets f" using that by (auto simp: holds_packets_def)
  have s: "\<forall>(g, e) \<in> set (ogs_pfcp_send_gtpu p (pk_data b') c). far_gnode f = Some g \<and> e = with_teid (far_ohc_teid f) (pk_data b')"
    "length (ogs_pfcp_send_gtpu p (pk_data b') c) =
      (if far_dst_if f \<noteq> OGS_PFCP_INTERFACE_UNKNOWN \<and> gn_sock (the (far_gnode f)) then 1 else 0)" if "\<not> holds_packets f"
    using g [OF that] assms(1,3) by (auto simp: ogs_pfcp_send_gtpu_def Let_def)
  have ok: "\<not> (\<not> n9 \<and> recvhdr = None \<and> pdr_qer_qfi p c = 0 \<and>
      pdr_src_if (pc_pdr c p) = OGS_PFCP_INTERFACE_ACCESS \<and> far_dst_if f = OGS_PFCP_INTERFACE_ACCESS)"
    using True assms(4) by (auto simp: room_ok_def split: option.splits)
  show ?thesis unfolding if_not_P [OF ok] h
    by (cases "holds_packets f") (use s d assms(3) in \<open>auto split: if_splits\<close>)
qed

theorem forward_packet_witness:
  "\<exists>c' ds. ogs_pfcp_up_handle_pdr 0 MSGTYPE_GPDU 0 None sample_buf (sample_rules (Some sample_node)) = Ret (c', ds, False) \<and>
    length ds = 1"
  using forward_packet [where c = "sample_rules (Some sample_node)" and p = 0 and x = 0 and type = MSGTYPE_GPDU and len = 0
      and recvhdr = None and b = sample_buf, OF _ _ refl refl]
  by (simp add: sample_forward_defs) (elim exE conjE, simp)

text \<open>Packets that arrive one after the other on the downlink of a PDR.\<close>

fun handle_all :: "nat \<Rightarrow> pkbuf list \<Rightarrow> pfcp_ctx \<Rightarrow> (pfcp_ctx \<times> datagram list \<times> bool list) exec" where
  "handle_all p [] c = Ret (c, [], [])"
| "handle_all p (b # bs) c =
     exec_bind (ogs_pfcp_up_handle_pdr p MSGTYPE_GPDU 0 None b c) (\<lambda>(c, ds, r).
     exec_bind (handle_all p bs c) (\<lambda>(c, ds', rs). Ret (c, ds @ ds', r # rs)))"

lemma take_bounded:
  "length q \<le> n \<Longrightarrow> take n ((if length q < n then q @ [d] else q) @ fs) = take n (q @ d # fs)"
  by (cases "length q < n") (simp_all del: take_append, simp)

lemma handle_all_holds:
  assumes "pdr_far (pc_pdr c p) = Some x" "holds_packets (pc_far c x)" "\<not> n9_roaming (pc_pdr c p) (pc_far c x)"
    and "\<forall>b \<in> set bs. room_ok p (pc_far c x) 0 None b c" "length (far_buffered (pc_far c x)) \<le> 64"
  shows "\<exists>fs. list_all2 (\<lambda>b d. \<forall>teid. unframe (with_teid teid d) = Some (MSGTYPE_GPDU, teid, pk_data b)) bs fs \<and>
    handle_all p bs c = Ret
      (update_far x (\<lambda>f. f\<lparr>far_buffered := take 64 (far_buffered f @ fs)\<rparr>) c, [],
       map (\<lambda>i. i = 0 \<and> far_buffered (pc_far c x) = []) [0..<length bs])"
  using assms
proof (induction bs arbitrary: c)
  case Nil
  then show ?case by (auto simp: update_far_def)
next
  case (Cons b bs)
  have gpdu: "MSGTYPE_GPDU \<noteq> 0" by (simp add: MSGTYPE_GPDU_def)
  have room: "room_ok p (pc_far c x) 0 None b c" using Cons.prems(4) by simp
  obtain d where d: "framed p (pc_far c x) MSGTYPE_GPDU 0 b c d"
    and h: "ogs_pfcp_up_handle_pdr p MSGTYPE_GPDU 0 None b c = Ret (hold x d c, [], far_buffered (pc_far c x) = [])"
    by (rule handle_pdr_cases [OF Cons.prems(1) gpdu room]) (simp add: Cons.prems(2))
  have r: "\<forall>b \<in> set bs. room_ok p (pc_far (hold x d c) x) 0 None b (hold x d c)"
    using Cons.prems(4) by simp
  have "holds_packets (pc_far (hold x d c) x)" "\<not> n9_roaming (pc_pdr (hold x d c) p) (pc_far (hold x d c) x)"
    "pdr_far (pc_pdr (hold x d c) p) = Some x" "length (far_buffered (pc_far (hold x d c) x)) \<le> 64"
    using Cons.prems by simp_all
  from Cons.IH [OF this(3,1,2) r this(4)] obtain fs where fs: "list_all2 (\<lambda>b d. \<forall>teid. unframe (with_teid teid d) = Some (MSGTYPE_GPDU, teid, pk_data b)) bs fs"
    and hs: "handle_all p bs (hold x d c) = Ret
      (update_far x (\<lambda>f. f\<lparr>far_buffered := take 64 (far_buffered f @ fs)\<rparr>) (hold x d c), [],
       map (\<lambda>i. i = 0 \<and> far_buffered (pc_far (hold x d c) x) = []) [0..<length bs])"
    by blast
  have ne: "far_buffered (pc_far (hold x d c) x) \<noteq> []" by auto
  have "map (\<lambda>i. i = 0 \<and> far_buffered (pc_far c x) = []) [0..<length (b # bs)] =
      (far_buffered (pc_far c x) = []) # map (\<lambda>i. False) [0..<length bs]"
    by (simp add: upt_conv_Cons map_Suc_upt [symmetric] comp_def del: upt_Suc)
  moreover have "update_far x (\<lambda>f. f\<lparr>far_buffered := take 64 (far_buffered f @ fs)\<rparr>) (hold x d c) =
      update_far x (\<lambda>f. f\<lparr>far_buffered := take 64 (far_buffered f @ d # fs)\<rparr>) c"
    using Cons.prems(5) by (simp add: update_far_def hold_def take_bounded del: take_append)
  ultimately show ?case using fs h hs d ne Cons.prems(3)
    by (intro exI [of _ "d # fs"]) (simp add: framed_def)
qed

text \<open>
  C20: Packets that wait for a rule reach the peer. While the rule holds packets none is sent and
  only the first raises the report flag. When the rule is then given a peer, a TEID and the
  action to forward, the replay sends the first 64 of them, each once and in the order of their
  arrival, to the new peer under the new TEID, and empties the buffer.
\<close>

theorem buffered_packets_sent:
  assumes "pdr_far (pc_pdr c p) = Some x" "f = pc_far c x" "holds_packets f" "far_buffered f = []"
    and "\<not> n9_roaming (pc_pdr c p) f" "far_dst_if f \<noteq> OGS_PFCP_INTERFACE_UNKNOWN"
    and "\<forall>b \<in> set bs. room_ok p f 0 None b c" "gn_sock g" "act AND OGS_PFCP_APPLY_ACTION_FORW \<noteq> 0"
  shows "\<exists>c' c'' sent. handle_all p bs c = Ret (c', [], map (\<lambda>i. i = 0) [0..<length bs]) \<and>
    ogs_pfcp_send_buffered_gtpu p (update_far x (\<lambda>f. f\<lparr>far_gnode := Some g, far_apply_action := act, far_ohc_teid := t\<rparr>) c')
      = (c'', sent) \<and>
    map (\<lambda>(n, d). (n, unframe d)) sent = map (\<lambda>b. (g, Some (MSGTYPE_GPDU, t, pk_data b))) (take 64 bs) \<and>
    far_buffered (pc_far c'' x) = []"
proof -
  obtain fs where fs: "list_all2 (\<lambda>b d. \<forall>teid. unframe (with_teid teid d) = Some (MSGTYPE_GPDU, teid, pk_data b)) bs fs"
    and h: "handle_all p bs c = Ret (update_far x (\<lambda>f. f\<lparr>far_buffered := take 64 (far_buffered f @ fs)\<rparr>) c, [],
       map (\<lambda>i. i = 0) [0..<length bs])"
    using handle_all_holds [of c p x bs] assms by auto
  define c' where "c' = update_far x (\<lambda>f. f\<lparr>far_buffered := take 64 (far_buffered f @ fs)\<rparr>) c"
  define c2 where "c2 = update_far x (\<lambda>f. f\<lparr>far_gnode := Some g, far_apply_action := act, far_ohc_teid := t\<rparr>) c'"
  have sent: "concat (map (\<lambda>d. [(g, with_teid t d)]) ds) = map (\<lambda>d. (g, with_teid t d)) ds" for ds
    by (induction ds) auto
  have "ogs_pfcp_send_buffered_gtpu p c2 =
      (update_far x (\<lambda>f. f\<lparr>far_buffered := []\<rparr>) c2, map (\<lambda>d. (g, with_teid t d)) (take 64 fs))"
    using assms by (simp add: ogs_pfcp_send_buffered_gtpu_def ogs_pfcp_send_gtpu_def Let_def c2_def c'_def update_far_def sent)
  moreover have "map (\<lambda>(n, d). (n, unframe d)) (map (\<lambda>d. (g, with_teid t d)) (take 64 fs)) =
      map (\<lambda>b. (g, Some (MSGTYPE_GPDU, t, pk_data b))) (take 64 bs)"
    using fs by (intro nth_equalityI) (auto simp: list_all2_conv_all_nth)
  moreover have "far_buffered (pc_far (update_far x (\<lambda>f. f\<lparr>far_buffered := []\<rparr>) c2) x) = []" by (simp add: update_far_def)
  ultimately show ?thesis using h unfolding c'_def [symmetric]
    by (intro exI [of _ c'] exI [of _ "update_far x (\<lambda>f. f\<lparr>far_buffered := []\<rparr>) c2"]
        exI [of _ "map (\<lambda>d. (g, with_teid t d)) (take 64 fs)"] conjI) (simp_all add: c2_def)
qed

theorem buffered_packets_sent_witness:
  "\<exists>c' c'' sent. handle_all 0 [sample_buf] (sample_rules None) = Ret (c', [], [True]) \<and>
    ogs_pfcp_send_buffered_gtpu 0 (update_far 0 (\<lambda>f. f\<lparr>far_gnode := Some sample_node,
      far_apply_action := OGS_PFCP_APPLY_ACTION_FORW, far_ohc_teid := 9\<rparr>) c') = (c'', sent) \<and>
    map (\<lambda>(n, d). (n, unframe d)) sent = [(sample_node, Some (MSGTYPE_GPDU, 9, [0x45, 0]))]"
proof -
  have "\<exists>c' c'' sent. handle_all 0 [sample_buf] (sample_rules None) = Ret (c', [], map (\<lambda>i. i = 0) [0..<length [sample_buf]]) \<and>
    ogs_pfcp_send_buffered_gtpu 0 (update_far 0 (\<lambda>f. f\<lparr>far_gnode := Some sample_node,
      far_apply_action := OGS_PFCP_APPLY_ACTION_FORW, far_ohc_teid := 9\<rparr>) c') = (c'', sent) \<and>
    map (\<lambda>(n, d). (n, unframe d)) sent = map (\<lambda>b. (sample_node, Some (MSGTYPE_GPDU, 9, pk_data b))) (take 64 [sample_buf]) \<and>
    far_buffered (pc_far c'' 0) = []"
    by (rule buffered_packets_sent [of _ _ _ "pc_far (sample_rules None) 0"]) (simp_all add: sample_forward_defs)
  moreover have "map (\<lambda>i. i = 0) [0..<length [sample_buf]] = [True]"
    "map (\<lambda>b. (sample_node, Some (MSGTYPE_GPDU, 9 :: u32, pk_data b))) (take 64 [sample_buf]) =
      [(sample_node, Some (MSGTYPE_GPDU, 9, [0x45, 0]))]" by (simp_all add: sample_buf_def)
  ultimately show ?thesis by (simp only:) (elim exE conjE, intro exI conjI, assumption+)
qed

end
