(* ===== verification/Gtp_Path.thy ===== *)
theory Gtp_Path
  imports Pfcp_Forward Upf_Sessions Quic_Server
begin

text \<open>
  The packet paths of the user plane function, \<^verbatim>\<open>src/upf/gtp-path.c\<close>: a packet from the tunnel
  device to the access network, over GTP-U or QUIC, and a packet from the access network to the
  tunnel device or to another peer, with the check of its source address, the accounting and
  the reports. The handlers compose the sessions of \<open>Upf_Context\<close>, the rules of \<open>Rule_Match\<close>,
  the forwarding of \<open>Pfcp_Forward\<close>, the accounting of \<open>Upf_Urr\<close> and the datagrams of
  \<open>Quic_Server\<close>.

  A handler takes the buffer that was received and returns the new state and what it writes to
  sockets and devices, in order. An octet after the packet is read as the buffer has it; one
  after the buffer reads as zero. A failed assertion, the use of a null or dangling pointer and
  the endless loop over jumbo options are \<open>Abort\<close>.
\<close>

section \<open>State\<close>

text \<open>
  What the handlers ask of other code: the clocks, whether a report or a QUIC datagram is sent,
  \<^verbatim>\<open>inet_ntop\<close>, the replies of \<^verbatim>\<open>arp-nd.cpp\<close>, which the Tins library builds, and the outcome
  of a rule that reads past the end of a packet.
\<close>

record arp_nd =
  an_is_arp_req :: "bytes \<Rightarrow> bool"
  an_arp_target :: "bytes \<Rightarrow> u32"
  an_arp_reply :: "bytes \<Rightarrow> bytes"
  an_is_nd_req :: "bytes \<Rightarrow> bool"
  an_nd_reply :: "bytes \<Rightarrow> bytes"

record 'c gtp_env =
  ev_now :: int
  ev_mclk :: int
  ev_ntp_now :: u32
  ev_local_recovery :: u32
  ev_association_interval :: int
  ev_cb :: "nat \<Rightarrow> nat \<Rightarrow> 'c"
  ev_report_ok :: bool
  ev_quic_ok :: bool
  ev_beyond :: bool
  ev_multicast :: bool
  ev_ntop4 :: "u32 \<Rightarrow> bytes"
  ev_ntop6 :: "bytes \<Rightarrow> bytes"
  ev_arp_nd :: arp_nd

datatype gtp_out =
    SendGtpu gtp_node bytes
  | SendTo sockaddr bytes
  | TunWrite nat bytes
  | QuicCall quic_call
  | UsageReport nat user_plane_report
  | DownlinkReport nat u32 u8
  | ErrorReport nat error_indication_report

record 'c upf_plane =
  up_ctx :: "'c upf_context"
  up_quic :: quic_server

definition OGS_TUN_MAX_HEADROOM :: nat where "OGS_TUN_MAX_HEADROOM = 16"

definition ETHER_HDR_LEN :: nat where "ETHER_HDR_LEN = 14"

definition ETHERTYPE_IP :: u16 where "ETHERTYPE_IP = 0x0800"

definition ETHERTYPE_IPV6 :: u16 where "ETHERTYPE_IPV6 = 0x86dd"

definition ETHERTYPE_ARP :: u16 where "ETHERTYPE_ARP = 0x0806"

definition proxy_mac_addr :: bytes where "proxy_mac_addr = [0x0e, 0, 0, 0, 0, 1]"

section \<open>Parts of the handlers\<close>

definition ip_v :: "pkbuf \<Rightarrow> u8" where "ip_v b = drop_bit 4 (rd8 (pk_mem b) 0)"

text \<open>The rules of a PDR on a packet; a PDR without rules takes every packet.\<close>

definition rules_accept :: "bool \<Rightarrow> nat \<Rightarrow> pkbuf \<Rightarrow> pfcp_ctx \<Rightarrow> bool exec" where
  "rules_accept beyond p b c =
     (let rules = map (\<lambda>r. rl_ipfw (pc_rule c r)) (pdr_rules (pc_pdr c p)); pkt = pk_data b
      in if rules = [] then Ret True
         else exec_bind (ogs_pfcp_pdr_rule_find_by_packet (length pkt) rules pkt) (\<lambda>r.
           case r of Found _ \<Rightarrow> Ret True | NotFound \<Rightarrow> Ret False | FindOverrun \<Rightarrow> Ret beyond | FindNoReturn \<Rightarrow> Abort))"

text \<open>The first PDR of a list that a test accepts.\<close>

fun first_pdr :: "(nat \<Rightarrow> bool exec) \<Rightarrow> nat list \<Rightarrow> nat option exec" where
  "first_pdr acc [] = Ret None"
| "first_pdr acc (p # ps) = exec_bind (acc p) (\<lambda>ok. if ok then Ret (Some p) else first_pdr acc ps)"

fun count_urrs ::
  "'c gtp_env \<Rightarrow> nat \<Rightarrow> nat list \<Rightarrow> nat \<Rightarrow> bool \<Rightarrow> 'c upf_context \<Rightarrow> ('c upf_context \<times> gtp_out list) exec" where
  "count_urrs env n [] sz up c = Ret (c, [])"
| "count_urrs env n (u # us) sz up c =
     exec_bind (upf_sess_urr_acc_add (ev_now env) (ev_mclk env) (ev_cb env n u) (ev_report_ok env)
         \<lparr>us_acc = se_urr_acc (uc_sess c n), us_mgr = uc_timers c\<rparr> (uo_urr (pc_urr (uc_pfcp c) u)) (of_nat sz) up)
       (\<lambda>(s, rep).
     exec_bind (count_urrs env n us sz up
         ((with_sess n (\<lambda>d. d\<lparr>se_urr_acc := us_acc s\<rparr>) c)\<lparr>uc_timers := us_mgr s\<rparr>))
       (\<lambda>(c, outs). Ret (c, (case rep of None \<Rightarrow> [] | Some r \<Rightarrow> [UsageReport n r]) @ outs)))"

text \<open>
  The call of \<^verbatim>\<open>ogs_pfcp_up_handle_pdr\<close> and the downlink data report that follows it.
\<close>

definition handle_pdr ::
  "nat \<Rightarrow> u8 \<Rightarrow> nat \<Rightarrow> header_desc option \<Rightarrow> pkbuf \<Rightarrow> 'c upf_context \<Rightarrow>
     ('c upf_context \<times> gtp_out list \<times> bool) exec" where
  "handle_pdr p type len recvhdr b c =
     exec_bind (ogs_pfcp_up_handle_pdr p type len recvhdr b (uc_pfcp c)) (\<lambda>(pc, ds, rep).
       Ret (c\<lparr>uc_pfcp := pc\<rparr>, map (\<lambda>(g, d). SendGtpu g d) ds, rep))"

definition downlink_report :: "'c gtp_env \<Rightarrow> nat \<Rightarrow> bool \<Rightarrow> 'c upf_context \<Rightarrow> gtp_out list exec" where
  "downlink_report env p rep c =
     (let d = pc_pdr (uc_pfcp c) p
      in if \<not> rep then Ret []
         else if ev_report_ok env then Ret [DownlinkReport (pdr_sess d) (pdr_id d) (pdr_qer_qfi p (uc_pfcp c))]
         else Abort)"

definition forward ::
  "'c gtp_env \<Rightarrow> nat \<Rightarrow> u8 \<Rightarrow> nat \<Rightarrow> header_desc option \<Rightarrow> pkbuf \<Rightarrow> 'c upf_context \<Rightarrow>
     ('c upf_context \<times> gtp_out list) exec" where
  "forward env p type len recvhdr b c =
     exec_bind (handle_pdr p type len recvhdr b c) (\<lambda>(c, outs, rep).
     exec_bind (downlink_report env p rep c) (\<lambda>reps. Ret (c, outs @ reps)))"

section \<open>QUIC\<close>

text \<open>The result tells whether the packet was taken over.\<close>

definition upf_n3_route_downlink ::
  "'c gtp_env \<Rightarrow> nat \<Rightarrow> u32 \<Rightarrow> pkbuf \<Rightarrow> 'c upf_plane \<Rightarrow> ('c upf_plane \<times> gtp_out list \<times> bool) exec" where
  "upf_n3_route_downlink env x teid b s =
     (if uc_mode (up_ctx s) = QUIC
      then (let ip = ogs_pfcp_outer_header_creation_to_ip (far_ohc (pc_far (uc_pfcp (up_ctx s)) x));
                gnb = (if oi_ipv4 ip then Some (ev_ntop4 env (oi_addr ip))
                       else if oi_ipv6 ip then Some (ev_ntop6 env (oi_addr6 ip)) else None)
            in case gnb of
                 None \<Rightarrow> Ret (s, [], True)
               | Some str \<Rightarrow>
                   exec_bind (quic_server_send_downlink (ev_quic_ok env) (up_quic s) str teid (Some (pk_data b))
                       (of_nat (length (pk_data b))))
                     (\<lambda>(q, calls). Ret (s\<lparr>up_quic := q\<rparr>, map QuicCall calls, True)))
      else Ret (s, [], False))"

text \<open>The subnet of a UE address is read through a pointer that may dangle.\<close>

definition subnet_of :: "'c upf_context \<Rightarrow> ue_ip \<Rightarrow> nat exec" where
  "subnet_of c ip = (if live_ip c (Some ip) then Ret (ui_subnet ip) else Abort)"

definition uplink_subnet :: "nat \<Rightarrow> pkbuf \<Rightarrow> 'c upf_context \<Rightarrow> nat option exec" where
  "uplink_subnet n b c =
     (let d = uc_sess c n
      in case (if ip_v b = 4 then se_ipv4 d else None) of
           Some ip \<Rightarrow> exec_bind (subnet_of c ip) (\<lambda>k. Ret (Some k))
         | None \<Rightarrow>
             (case (if ip_v b = 6 then se_ipv6 d else None) of
                Some ip \<Rightarrow> exec_bind (subnet_of c ip) (\<lambda>k. Ret (Some k))
              | None \<Rightarrow> Ret None))"

definition upf_n3_route_uplink ::
  "'c gtp_env \<Rightarrow> u32 \<Rightarrow> pkbuf \<Rightarrow> 'c upf_context \<Rightarrow> ('c upf_context \<times> gtp_out list) exec" where
  "upf_n3_route_uplink env teid b c =
     (let pc = uc_pfcp c in
      case ogs_pfcp_object_find_by_teid teid pc of
        None \<Rightarrow> Ret (c, [])
      | Some obj \<Rightarrow>
          exec_bind (case obj of
              Obj_Sess n \<Rightarrow> first_pdr (\<lambda>p. if te_teid (pdr_f_teid (pc_pdr pc p)) \<noteq> teid then Ret False
                                         else rules_accept (ev_beyond env) p b pc) (pdrs_of pc n)
            | Obj_Pdr _ \<Rightarrow> Ret None) (\<lambda>found.
          case found of
            None \<Rightarrow> Ret (c, [])
          | Some p \<Rightarrow>
              (case pdr_far (pc_pdr pc p) of
                 None \<Rightarrow> Abort
               | Some x \<Rightarrow>
                   if far_dst_if (pc_far pc x) = OGS_PFCP_INTERFACE_CORE
                   then (let n = pdr_sess (pc_pdr pc p) in
                     exec_bind (uplink_subnet n b c) (\<lambda>k.
                     case k of
                       None \<Rightarrow> Ret (c, [])
                     | Some k \<Rightarrow>
                         exec_bind (count_urrs env n (pdr_urr (pc_pdr pc p)) (length (pk_data b)) True c) (\<lambda>(c, outs).
                           Ret (c, outs @ [TunWrite (dv_fd (sn_dev (uc_subnets c ! k))) (pk_data b)]))))
                   else exec_bind (handle_pdr p MSGTYPE_GPDU 0 None b c) (\<lambda>(c, outs, rep). Ret (c, outs)))))"

section \<open>From the tunnel device\<close>

definition get_eth_type :: "pkbuf \<Rightarrow> u16" where
  "get_eth_type b = (if length (pk_data b) > ETHER_HDR_LEN then rd16 (pk_data b) 12 else 0)"

text \<open>The size of a reply is kept in eight bits.\<close>

definition reply :: "bytes \<Rightarrow> bytes" where "reply r = take (length r mod 256) r"

text \<open>An Ethernet frame: a reply, a frame to drop (\<open>None\<close>) or a packet.\<close>

definition ethernet_in :: "arp_nd \<Rightarrow> pkbuf \<Rightarrow> 'c upf_context \<Rightarrow> (bytes + pkbuf) option" where
  "ethernet_in an b c =
     (let t = get_eth_type b; pkt = pk_data b
      in if t = ETHERTYPE_ARP
         then (if an_is_arp_req an pkt \<and> upf_sess_find_by_ipv4 c (an_arp_target an pkt) \<noteq> None
               then Some (Inl (reply (an_arp_reply an pkt))) else None)
         else if t = ETHERTYPE_IPV6 \<and> an_is_nd_req an pkt then Some (Inl (reply (an_nd_reply an pkt)))
         else if t \<noteq> ETHERTYPE_IP \<and> t \<noteq> ETHERTYPE_IPV6 then None
         else map_option Inr (ogs_pkbuf_pull ETHER_HDR_LEN b))"

text \<open>
  The loop over the PDRs of the session: the PDR that was found, the last downlink PDR, and the
  FAR of the last PDR the loop looked at.
\<close>

definition has_outer_header :: "outer_header \<Rightarrow> bool" where
  "has_outer_header oh \<longleftrightarrow> oh_ip4 oh \<or> oh_ip6 oh \<or> oh_udp4 oh \<or> oh_udp6 oh \<or> oh_gtpu4 oh \<or> oh_gtpu6 oh"

fun downlink_scan ::
  "bool \<Rightarrow> pkbuf \<Rightarrow> pfcp_ctx \<Rightarrow> nat option \<Rightarrow> nat option \<Rightarrow> nat list \<Rightarrow> (nat option \<times> nat option \<times> nat option) exec" where
  "downlink_scan beyond b c fallback far [] = Ret (None, fallback, far)"
| "downlink_scan beyond b c fallback far (p # ps) =
     (case pdr_far (pc_pdr c p) of
        None \<Rightarrow> Abort
      | Some x \<Rightarrow>
          if pdr_src_if (pc_pdr c p) \<noteq> OGS_PFCP_INTERFACE_CORE then downlink_scan beyond b c fallback (Some x) ps
          else if far_dst_if (pc_far c x) \<noteq> OGS_PFCP_INTERFACE_ACCESS then downlink_scan beyond b c (Some p) (Some x) ps
          else if \<not> has_outer_header (far_ohc (pc_far c x)) then downlink_scan beyond b c (Some p) (Some x) ps
          else exec_bind (rules_accept beyond p b c) (\<lambda>ok.
            if ok then Ret (Some p, Some p, Some x) else downlink_scan beyond b c (Some p) (Some x) ps))"

text \<open>The loop ends with the first session that has an IPv6 address.\<close>

fun multicast_sessions :: "pkbuf \<Rightarrow> nat list \<Rightarrow> 'c upf_context \<Rightarrow> ('c upf_context \<times> gtp_out list) exec" where
  "multicast_sessions b [] c = Ret (c, [])"
| "multicast_sessions b (n # ns) c =
     (if se_ipv6 (uc_sess c n) = None then multicast_sessions b ns c
      else case find (\<lambda>p. pdr_src_if (pc_pdr (uc_pfcp c) p) = OGS_PFCP_INTERFACE_CORE) (pdrs_of (uc_pfcp c) n) of
             None \<Rightarrow> Ret (c, [])
           | Some p \<Rightarrow> exec_bind (handle_pdr p MSGTYPE_GPDU 0 None b c) (\<lambda>(c, outs, rep). Ret (c, outs)))"

definition upf_gtp_handle_multicast :: "pkbuf \<Rightarrow> 'c upf_context \<Rightarrow> ('c upf_context \<times> gtp_out list) exec" where
  "upf_gtp_handle_multicast b c =
     (if ip_v b = 6 \<and> rd8 (pk_mem b) 24 = 0xff then multicast_sessions b (uc_list c) c else Ret (c, []))"

text \<open>The look-up asserts on an empty packet; the octets of the address are read unchecked.\<close>

definition find_ue :: "'c upf_context \<Rightarrow> pkbuf \<Rightarrow> nat option exec" where
  "find_ue c b = upf_sess_find_by_ue_ip_address c (if pk_data b = [] then [] else pk_mem b)"

definition tun_packet :: "'c gtp_env \<Rightarrow> pkbuf \<Rightarrow> 'c upf_plane \<Rightarrow> ('c upf_plane \<times> gtp_out list) exec" where
  "tun_packet env b s =
     (let c = up_ctx s; pc = uc_pfcp c in
      exec_bind (find_ue c b) (\<lambda>sess.
      case sess of
        None \<Rightarrow> Ret (s, [])
      | Some n \<Rightarrow>
          exec_bind (downlink_scan (ev_beyond env) b pc None None (pdrs_of pc n)) (\<lambda>(found, fallback, far).
          case (if found = None then fallback else found) of
            None \<Rightarrow>
              if ev_multicast env
              then exec_bind (upf_gtp_handle_multicast b c) (\<lambda>(c, outs). Ret (s\<lparr>up_ctx := c\<rparr>, outs))
              else Ret (s, [])
          | Some p \<Rightarrow>
              exec_bind (count_urrs env n (pdr_urr (pc_pdr pc p)) (length (pk_data b)) False c) (\<lambda>(c, outs).
              let s = s\<lparr>up_ctx := c\<rparr> in
              case far of None \<Rightarrow> Abort
              | Some x \<Rightarrow>
                  exec_bind (upf_n3_route_downlink env x (far_ohc_teid (pc_far pc x)) b s) (\<lambda>(s, calls, taken).
                  if taken then Ret (s, outs @ calls)
                  else exec_bind (forward env p MSGTYPE_GPDU 0 None b (up_ctx s)) (\<lambda>(c, outs').
                    Ret (s\<lparr>up_ctx := c\<rparr>, outs @ outs')))))))"

definition gtpv1_tun_recv_common ::
  "'c gtp_env \<Rightarrow> nat \<Rightarrow> bool \<Rightarrow> pkbuf option \<Rightarrow> 'c upf_plane \<Rightarrow> ('c upf_plane \<times> gtp_out list) exec" where
  "gtpv1_tun_recv_common env fd has_eth recvbuf s =
     (case recvbuf of
        None \<Rightarrow> Ret (s, [])
      | Some b \<Rightarrow>
          if has_eth
          then (case ethernet_in (ev_arp_nd env) b (up_ctx s) of
                  None \<Rightarrow> Ret (s, [])
                | Some (Inl r) \<Rightarrow> Ret (s, [TunWrite fd r])
                | Some (Inr b) \<Rightarrow> tun_packet env b s)
          else tun_packet env b s)"

section \<open>From the access network\<close>

fun route_covers :: "nat \<Rightarrow> u32 list \<Rightarrow> ipsubnet list \<Rightarrow> bool" where
  "route_covers family addr [] = False"
| "route_covers family addr (r # rs) =
     (if ip_family r = 0 then False
      else if (if family = AF_INET then ip_sub r ! 0 = (addr ! 0 AND ip_mask r ! 0)
               else \<forall>i < 4. ip_sub r ! i = (addr ! i AND ip_mask r ! i)) then True
      else route_covers family addr rs)"

definition check_framed_routes :: "upf_sess \<Rightarrow> nat \<Rightarrow> u32 list \<Rightarrow> bool" where
  "check_framed_routes d family addr =
     (case (if family = AF_INET then se_routes4 d else se_routes6 d) of
        None \<Rightarrow> False | Some rs \<Rightarrow> route_covers family addr (take OGS_MAX_NUM_OF_FRAMED_ROUTES_IN_PDI rs))"

definition IN6_IS_ADDR_LINKLOCAL :: "u32 list \<Rightarrow> bool" where
  "IN6_IS_ADDR_LINKLOCAL a \<longleftrightarrow> a ! 0 AND 0xffc00000 = 0xfe800000"

definition src_addr4 :: "pkbuf \<Rightarrow> u32 list" where "src_addr4 b = [rd32 (pk_mem b) 12]"

definition src_addr6 :: "pkbuf \<Rightarrow> u32 list" where
  "src_addr6 b = map (\<lambda>i. rd32 (pk_mem b) (8 + 4 * i)) [0..<4]"

definition src_allowed4 :: "upf_sess \<Rightarrow> ue_ip \<Rightarrow> u32 list \<Rightarrow> bool" where
  "src_allowed4 d ip a \<longleftrightarrow> a ! 0 = ui_addr ip ! 0 \<or> check_framed_routes d AF_INET a"

definition src_allowed6 :: "upf_sess \<Rightarrow> ue_ip \<Rightarrow> u32 list \<Rightarrow> bool" where
  "src_allowed6 d ip a \<longleftrightarrow>
     IN6_IS_ADDR_LINKLOCAL a \<and> a ! 2 = ui_addr ip ! 2 \<and> a ! 3 = ui_addr ip ! 3 \<or>
     a ! 0 = ui_addr ip ! 0 \<and> a ! 1 = ui_addr ip ! 1 \<or>
     check_framed_routes d AF_INET6 a"

text \<open>\<open>None\<close> drops the packet; otherwise the subnet, if one was found, and the Ethernet type.\<close>

definition checked_interface :: "pfcp_pdr \<Rightarrow> bool" where
  "checked_interface d \<longleftrightarrow> pdr_src_if d = OGS_PFCP_INTERFACE_ACCESS \<and>
     (pdr_src_if_type d = Some INTERFACE_TYPE_N3_3GPP_ACCESS \<or> pdr_src_if_type d = Some INTERFACE_TYPE_N9_FOR_ROAMING)"

definition source_check ::
  "pfcp_pdr \<Rightarrow> pfcp_far \<Rightarrow> nat \<Rightarrow> pkbuf \<Rightarrow> 'c upf_context \<Rightarrow> (nat option \<times> u16) option exec" where
  "source_check pd f n b c =
     (let d = uc_sess c n
      in if \<not> checked_interface pd \<or> far_dst_if_type f = Some INTERFACE_TYPE_N9_FOR_ROAMING then Ret (Some (None, 0))
         else case (if ip_v b = 4 then se_ipv4 d else None) of
           Some ip \<Rightarrow> exec_bind (subnet_of c ip) (\<lambda>k.
             Ret (if src_allowed4 d ip (src_addr4 b) then Some (Some k, ETHERTYPE_IP) else None))
         | None \<Rightarrow>
             (case (if ip_v b = 6 then se_ipv6 d else None) of
                Some ip \<Rightarrow> exec_bind (subnet_of c ip) (\<lambda>k.
                  Ret (if src_allowed6 d ip (src_addr6 b) then Some (Some k, ETHERTYPE_IPV6) else None))
              | None \<Rightarrow> Ret None))"

definition add_ether_header :: "pfcp_dev \<Rightarrow> u16 \<Rightarrow> pkbuf \<Rightarrow> bytes exec" where
  "add_ether_header dev eth_type b =
     (if \<not> dv_is_tap dev then Ret (pk_data b)
      else if eth_type = 0 then Abort
      else exec_bind (ogs_pkbuf_push 14 b) (\<lambda>_.
        Ret (dv_mac_addr dev @ proxy_mac_addr @ be16 eth_type @ pk_data b)))"

definition to_core :: "pfcp_far \<Rightarrow> bool" where
  "to_core f \<longleftrightarrow> far_dst_if f = OGS_PFCP_INTERFACE_CORE \<and> far_dst_if_type f = Some INTERFACE_TYPE_N6"

text \<open>No error indication is sent for a while after a restart.\<close>

definition send_error_indication ::
  "'c gtp_env \<Rightarrow> sockaddr \<Rightarrow> sockaddr \<Rightarrow> header_desc \<Rightarrow> gtp_out list exec" where
  "send_error_indication env local from h =
     (if uint (ev_ntp_now env) > uint (ev_local_recovery env) + ev_association_interval env div OGS_USEC_PER_SEC
      then exec_bind (ogs_gtp1_send_error_indication local (hd_teid h) (hd_qfi h)) (\<lambda>d. Ret [SendTo from d])
      else Ret [])"

definition uplink_pdr ::
  "'c gtp_env \<Rightarrow> nat \<Rightarrow> header_desc \<Rightarrow> nat \<Rightarrow> pkbuf \<Rightarrow> 'c upf_context \<Rightarrow> ('c upf_context \<times> gtp_out list) exec" where
  "uplink_pdr env p h len b c =
     (let pd = pc_pdr (uc_pfcp c) p; n = pdr_sess pd in
      case pdr_far pd of
        None \<Rightarrow> Abort
      | Some x \<Rightarrow>
          (let f = pc_far (uc_pfcp c) x in
           exec_bind (source_check pd f n b c) (\<lambda>checked.
           case checked of
             None \<Rightarrow> Ret (c, [])
           | Some (subnet, eth_type) \<Rightarrow>
               if to_core f
               then (case subnet of
                       None \<Rightarrow> Ret (c, [])
                     | Some k \<Rightarrow>
                         (let dev = sn_dev (uc_subnets c ! k) in
                          exec_bind (count_urrs env n (pdr_urr pd) (length (pk_data b)) True c) (\<lambda>(c, outs).
                          exec_bind (add_ether_header dev eth_type b) (\<lambda>d.
                          Ret (c, outs @ [TunWrite (dv_fd dev) d])))))
               else forward env p (hd_type h) len (Some h) b c)))"

definition gpdu ::
  "'c gtp_env \<Rightarrow> sockaddr \<Rightarrow> sockaddr \<Rightarrow> header_desc \<Rightarrow> nat \<Rightarrow> pkbuf \<Rightarrow> 'c upf_context \<Rightarrow>
     ('c upf_context \<times> gtp_out list) exec" where
  "gpdu env local from h len b c =
     (let pc = uc_pfcp c in
      case ogs_pfcp_object_find_by_teid (hd_teid h) pc of
        None \<Rightarrow> exec_bind (send_error_indication env local from h) (\<lambda>outs. Ret (c, outs))
      | Some (Obj_Pdr _) \<Rightarrow> Abort
      | Some (Obj_Sess n) \<Rightarrow>
          exec_bind (first_pdr (\<lambda>p. if te_teid (pdr_f_teid (pc_pdr pc p)) \<noteq> hd_teid h then Ret False
              else if pdr_qfi (pc_pdr pc p) \<noteq> 0 \<and> pdr_qfi (pc_pdr pc p) \<noteq> hd_qfi h then Ret False
              else rules_accept (ev_beyond env) p b pc) (pdrs_of pc n)) (\<lambda>found.
          case found of
            None \<Rightarrow> exec_bind (send_error_indication env local from h) (\<lambda>outs. Ret (c, outs))
          | Some p \<Rightarrow> uplink_pdr env p h len b c))"

text \<open>An error indication finds its FAR by the octets of the packet, read unchecked.\<close>

definition error_indication ::
  "'c gtp_env \<Rightarrow> pkbuf \<Rightarrow> 'c upf_context \<Rightarrow> ('c upf_context \<times> gtp_out list) exec" where
  "error_indication env b c =
     (case ogs_pfcp_far_find_by_gtpu_error_indication (pk_mem b) (uc_pfcp c) of
        Far x \<Rightarrow>
          exec_bind (ogs_pfcp_up_handle_error_indication x (uc_pfcp c)) (\<lambda>r.
          case r of None \<Rightarrow> Abort
          | Some e \<Rightarrow> if ev_report_ok env then Ret (c, [ErrorReport (far_sess (pc_far (uc_pfcp c) x)) e]) else Abort)
      | Far_None \<Rightarrow> Ret (c, [])
      | Far_Overread \<Rightarrow> Ret (c, []))"

definition gtpv1_u_recv ::
  "'c gtp_env \<Rightarrow> sockaddr \<Rightarrow> sockaddr \<Rightarrow> pkbuf \<Rightarrow> 'c upf_context \<Rightarrow> ('c upf_context \<times> gtp_out list) exec" where
  "gtpv1_u_recv env local from b c =
     (if pk_data b = [] then Ret (c, [])
      else if drop_bit 5 (rd8 (pk_mem b) 0) \<noteq> 1 then Ret (c, [])
      else case ogs_gtpu_parse_header b of
        None \<Rightarrow> Ret (c, [])
      | Some (h, len) \<Rightarrow>
          if hd_type h = MSGTYPE_ECHO_REQ
          then Ret (c, case ogs_gtp2_handle_echo_req b of None \<Rightarrow> [] | Some d \<Rightarrow> [SendTo from d])
          else if hd_type h \<noteq> MSGTYPE_END_MARKER \<and> length (pk_data b) \<le> len then Ret (c, [])
          else case ogs_pkbuf_pull len b of
            None \<Rightarrow> Abort
          | Some b \<Rightarrow>
              if hd_type h = MSGTYPE_END_MARKER then Ret (c, [])
              else if hd_type h = MSGTYPE_ERR_IND then error_indication env b c
              else if hd_type h = MSGTYPE_GPDU then gpdu env local from h len b c
              else Ret (c, []))"

section \<open>The source address of an uplink packet\<close>

text \<open>The framed routes a session may send from: the entries before the first empty one.\<close>

definition own_routes :: "ipsubnet list option \<Rightarrow> ipsubnet list" where
  "own_routes rs = takeWhile (\<lambda>r. ip_family r \<noteq> 0) (take OGS_MAX_NUM_OF_FRAMED_ROUTES_IN_PDI (case rs of None \<Rightarrow> [] | Some rs \<Rightarrow> rs))"

lemma route_covers_iff:
  "route_covers family addr rs \<longleftrightarrow> (\<exists>r \<in> set (takeWhile (\<lambda>r. ip_family r \<noteq> 0) rs).
     if family = AF_INET then ip_sub r ! 0 = (addr ! 0 AND ip_mask r ! 0)
     else \<forall>i < 4. ip_sub r ! i = (addr ! i AND ip_mask r ! i))"
  by (induction rs) auto

lemma check_framed_routes_iff:
  "check_framed_routes d AF_INET a \<longleftrightarrow> (\<exists>r \<in> set (own_routes (se_routes4 d)). ip_sub r ! 0 = (a ! 0 AND ip_mask r ! 0))"
  "check_framed_routes d AF_INET6 a \<longleftrightarrow>
     (\<exists>r \<in> set (own_routes (se_routes6 d)). \<forall>i < 4. ip_sub r ! i = (a ! i AND ip_mask r ! i))"
  by (simp_all add: check_framed_routes_def own_routes_def route_covers_iff AF_INET_def AF_INET6_def split: option.split)

text \<open>What an uplink packet of a session may have as its source, by the IP version.\<close>

definition own_source :: "upf_sess \<Rightarrow> bytes \<Rightarrow> u16 \<Rightarrow> ue_ip \<Rightarrow> bool" where
  "own_source d m et ip \<longleftrightarrow>
     (if et = ETHERTYPE_IP
      then se_ipv4 d = Some ip \<and>
        (let a = rd32 m 12 in a = ui_addr ip ! 0 \<or>
           (\<exists>r \<in> set (own_routes (se_routes4 d)). ip_sub r ! 0 = (a AND ip_mask r ! 0)))
      else se_ipv6 d = Some ip \<and>
        (let a = (\<lambda>i. rd32 m (8 + 4 * i)) in
           (a 0 = ui_addr ip ! 0 \<and> a 1 = ui_addr ip ! 1) \<or>
           (a 0 AND 0xffc00000 = 0xfe800000 \<and> a 2 = ui_addr ip ! 2 \<and> a 3 = ui_addr ip ! 3) \<or>
           (\<exists>r \<in> set (own_routes (se_routes6 d)). \<forall>i < 4. ip_sub r ! i = (a i AND ip_mask r ! i))))"

lemma nth_src6: "i < 4 \<Longrightarrow> src_addr6 b ! i = rd32 (pk_mem b) (8 + 4 * i)"
  by (simp add: src_addr6_def)

lemma own_source_4: "src_allowed4 d ip (src_addr4 b) \<Longrightarrow> se_ipv4 d = Some ip \<Longrightarrow> own_source d (pk_mem b) ETHERTYPE_IP ip"
  by (simp add: src_allowed4_def own_source_def src_addr4_def check_framed_routes_iff Let_def)

lemma own_source_6:
  assumes "src_allowed6 d ip (src_addr6 b)" "se_ipv6 d = Some ip"
  shows "own_source d (pk_mem b) ETHERTYPE_IPV6 ip"
proof -
  have "\<forall>i < 4. src_addr6 b ! i = rd32 (pk_mem b) (8 + 4 * i)" using nth_src6 by blast
  with assms show ?thesis
    by (auto simp: src_allowed6_def own_source_def check_framed_routes_iff IN6_IS_ADDR_LINKLOCAL_def Let_def
        ETHERTYPE_IP_def ETHERTYPE_IPV6_def nth_src6)
qed

lemma source_check_own:
  assumes "source_check pd f n b c = Ret (Some (Some k, et))"
  shows "checked_interface pd \<and> (\<exists>ip. k = ui_subnet ip \<and> live_ip c (Some ip) \<and> own_source (uc_sess c n) (pk_mem b) et ip \<and>
    (if et = ETHERTYPE_IP then ip_v b = 4 else et = ETHERTYPE_IPV6 \<and> ip_v b = 6))"
  using assms own_source_4 own_source_6
  by (auto simp: source_check_def subnet_of_def Let_def ETHERTYPE_IP_def ETHERTYPE_IPV6_def
      split: option.splits if_splits)

lemma count_urrs_outs:
  "count_urrs env n us sz up c = Ret (c', outs) \<Longrightarrow> \<forall>out \<in> set outs. \<exists>r. out = UsageReport n r"
proof (induction us arbitrary: c outs)
  case (Cons u us)
  then show ?case by (fastforce split: option.splits prod.splits)
qed simp

lemma count_urrs_keeps:
  "count_urrs env n us sz up c = Ret (c', outs) \<Longrightarrow>
     uc_pfcp c' = uc_pfcp c \<and> uc_subnets c' = uc_subnets c \<and> uc_mode c' = uc_mode c \<and> uc_static c' = uc_static c"
proof (induction us arbitrary: c outs)
  case (Cons u us)
  then show ?case by (fastforce simp: with_sess_def split: option.splits prod.splits)
qed simp

lemma forward_outs:
  assumes "forward env p type len h b c = Ret (c', outs)"
  shows "\<forall>out \<in> set outs. \<forall>fd d. out \<noteq> TunWrite fd d"
  using assms by (auto simp: forward_def handle_pdr_def downlink_report_def Let_def split: if_splits)

lemma first_pdr_Some:
  "first_pdr acc ps = Ret (Some p) \<Longrightarrow> p \<in> set ps \<and> acc p = Ret True"
  by (induction ps) (auto split: if_splits)

text \<open>What is written to the device of a subnet: the packet, behind an Ethernet header on a TAP device.\<close>

definition device_frame :: "pfcp_dev \<Rightarrow> u16 \<Rightarrow> bytes \<Rightarrow> bytes" where
  "device_frame dev et pkt = (if dv_is_tap dev then dv_mac_addr dev @ proxy_mac_addr @ be16 et @ pkt else pkt)"

lemma add_ether_header_frame: "add_ether_header dev et b = Ret d \<Longrightarrow> d = device_frame dev et (pk_data b)"
  by (auto simp: add_ether_header_def device_frame_def split: if_splits)

lemma uplink_pdr_writes:
  assumes "uplink_pdr env p h len b c = Ret (c', outs)" "TunWrite fd d \<in> set outs" "pd = pc_pdr (uc_pfcp c) p"
  shows "\<exists>x ip et. pdr_far pd = Some x \<and> to_core (pc_far (uc_pfcp c) x) \<and> checked_interface pd \<and>
    own_source (uc_sess c (pdr_sess pd)) (pk_mem b) et ip \<and>
    (if et = ETHERTYPE_IP then ip_v b = 4 else et = ETHERTYPE_IPV6 \<and> ip_v b = 6) \<and>
    fd = dv_fd (sn_dev (uc_subnets c ! ui_subnet ip)) \<and>
    d = device_frame (sn_dev (uc_subnets c ! ui_subnet ip)) et (pk_data b)"
proof -
  obtain x where x: "pdr_far pd = Some x"
    using assms(1,3) by (auto simp: uplink_pdr_def Let_def split: option.splits)
  define f where "f = pc_far (uc_pfcp c) x"
  obtain ch where ch: "source_check pd f (pdr_sess pd) b c = Ret ch"
    using assms(1) x unfolding uplink_pdr_def Let_def f_def assms(3) by auto
  show ?thesis
  proof (cases "\<exists>k et. ch = Some (Some k, et) \<and> to_core f")
    case True
    then obtain k et where k: "ch = Some (Some k, et)" and tc: "to_core f" by blast
    define dev where "dev = sn_dev (uc_subnets c ! k)"
    obtain c1 o1 d' where o1: "count_urrs env (pdr_sess pd) (pdr_urr pd) (length (pk_data b)) True c = Ret (c1, o1)"
      and d': "add_ether_header dev et b = Ret d'" and outs: "outs = o1 @ [TunWrite (dv_fd dev) d']"
      using assms(1) x ch k tc unfolding uplink_pdr_def Let_def f_def assms(3) dev_def by auto
    have "TunWrite fd d \<notin> set o1" using count_urrs_outs [OF o1] by blast
    with assms(2) outs have fd: "fd = dv_fd dev" "d = d'" by auto
    from source_check_own [OF ch [unfolded k]] obtain ip where "checked_interface pd" "k = ui_subnet ip"
      "own_source (uc_sess c (pdr_sess pd)) (pk_mem b) et ip"
      "if et = ETHERTYPE_IP then ip_v b = 4 else et = ETHERTYPE_IPV6 \<and> ip_v b = 6" by blast
    with x tc fd add_ether_header_frame [OF d'] show ?thesis unfolding f_def dev_def by blast
  next
    case False
    then have "outs = [] \<or> forward env p (hd_type h) len (Some h) b c = Ret (c', outs)"
      using assms(1) x ch unfolding uplink_pdr_def Let_def f_def assms(3) by (auto split: option.splits if_splits)
    with assms(2) forward_outs show ?thesis by fastforce
  qed
qed

lemma error_indication_no_write:
  "send_error_indication env local from h = Ret outs \<Longrightarrow> TunWrite fd d \<notin> set outs"
  "error_indication env b c = Ret (c', outs) \<Longrightarrow> TunWrite fd d \<notin> set outs"
  by (auto simp: send_error_indication_def error_indication_def split: if_splits far_lookup.splits option.splits)

lemma gpdu_writes:
  assumes "gpdu env local from h len b c = Ret (c', outs)" "TunWrite fd d \<in> set outs"
  shows "\<exists>n p. ogs_pfcp_object_find_by_teid (hd_teid h) (uc_pfcp c) = Some (Obj_Sess n) \<and> p \<in> set (pdrs_of (uc_pfcp c) n) \<and>
    te_teid (pdr_f_teid (pc_pdr (uc_pfcp c) p)) = hd_teid h \<and> uplink_pdr env p h len b c = Ret (c', outs)"
proof -
  obtain n where n: "ogs_pfcp_object_find_by_teid (hd_teid h) (uc_pfcp c) = Some (Obj_Sess n)"
    using assms error_indication_no_write(1) [of env local "from" h]
    by (auto simp: gpdu_def Let_def split: option.splits pfcp_object.splits)
  obtain r where r: "first_pdr (\<lambda>p. if te_teid (pdr_f_teid (pc_pdr (uc_pfcp c) p)) \<noteq> hd_teid h then Ret False
              else if pdr_qfi (pc_pdr (uc_pfcp c) p) \<noteq> 0 \<and> pdr_qfi (pc_pdr (uc_pfcp c) p) \<noteq> hd_qfi h then Ret False
              else rules_accept (ev_beyond env) p b (uc_pfcp c)) (pdrs_of (uc_pfcp c) n) = Ret r"
    using assms(1) n by (auto simp: gpdu_def Let_def)
  show ?thesis
  proof (cases r)
    case None
    with assms n r error_indication_no_write(1) [of env local "from" h] show ?thesis by (auto simp: gpdu_def Let_def)
  next
    case (Some p)
    with assms(1) n r have "uplink_pdr env p h len b c = Ret (c', outs)" by (simp add: gpdu_def Let_def)
    moreover from first_pdr_Some [OF r [unfolded Some]]
    have "p \<in> set (pdrs_of (uc_pfcp c) n)" "te_teid (pdr_f_teid (pc_pdr (uc_pfcp c) p)) = hd_teid h"
      by (auto split: if_splits)
    ultimately show ?thesis using n by blast
  qed
qed

text \<open>
  C16: Nothing but checked user packets reach the data network over GTP-U. A packet is written to
  a tunnel device only if it came under the tunnel identifier of a PDR of some session whose FAR
  leads to N6, and its source is an address of that session: the IPv4 address of the UE, its
  IPv6 prefix, a link-local address with its interface identifier, or an address of one of its
  framed routes. It is written unchanged to the device of the subnet of that address, behind an
  Ethernet header when this is a TAP device.
\<close>

theorem uplink_source_checked:
  assumes "gtpv1_u_recv env local from b c = Ret (c', outs)" "TunWrite fd d \<in> set outs"
  shows "\<exists>h len n p x ip et. ogs_gtpu_parse_header b = Some (h, len) \<and> hd_type h = MSGTYPE_GPDU \<and>
    ogs_pfcp_object_find_by_teid (hd_teid h) (uc_pfcp c) = Some (Obj_Sess n) \<and> p \<in> set (pdrs_of (uc_pfcp c) n) \<and>
    (let pd = pc_pdr (uc_pfcp c) p; dev = sn_dev (uc_subnets c ! ui_subnet ip); inner = drop len (pk_data b) in
      te_teid (pdr_f_teid pd) = hd_teid h \<and> pdr_far pd = Some x \<and> to_core (pc_far (uc_pfcp c) x) \<and>
      own_source (uc_sess c (pdr_sess pd)) (inner @ pk_tail b) et ip \<and>
      drop_bit 4 (rd8 inner 0) = (if et = ETHERTYPE_IP then 4 else 6) \<and> et \<in> {ETHERTYPE_IP, ETHERTYPE_IPV6} \<and>
      fd = dv_fd dev \<and> d = device_frame dev et inner)"
proof -
  obtain h len where h: "ogs_gtpu_parse_header b = Some (h, len)"
    using assms by (auto simp: gtpv1_u_recv_def split: if_splits option.splits)
  have len: "len \<le> length (pk_data b)" using parse_header_len [OF h] by simp
  define b' where "b' = b\<lparr>pk_head := pk_head b @ take len (pk_data b), pk_data := drop len (pk_data b)\<rparr>"
  have pull: "ogs_pkbuf_pull len b = Some b'" using len by (simp add: ogs_pkbuf_pull_def b'_def)
  have ty: "hd_type h = MSGTYPE_GPDU" and lt: "len < length (pk_data b)" and g: "gpdu env local from h len b' c = Ret (c', outs)"
    using assms h pull error_indication_no_write(2) [of env b' c c' outs fd d]
    by (auto simp: gtpv1_u_recv_def MSGTYPE_GPDU_def MSGTYPE_END_MARKER_def split: if_splits option.splits)
  obtain n p where n: "ogs_pfcp_object_find_by_teid (hd_teid h) (uc_pfcp c) = Some (Obj_Sess n)" "p \<in> set (pdrs_of (uc_pfcp c) n)"
    "te_teid (pdr_f_teid (pc_pdr (uc_pfcp c) p)) = hd_teid h" and u: "uplink_pdr env p h len b' c = Ret (c', outs)"
    using gpdu_writes [OF g assms(2)] by blast
  have mem: "pk_mem b' = drop len (pk_data b) @ pk_tail b" "pk_data b' = drop len (pk_data b)" by (simp_all add: pk_mem_def b'_def)
  then have v: "ip_v b' = drop_bit 4 (rd8 (drop len (pk_data b)) 0)" using lt by (simp add: ip_v_def rd8_def nth_append)
  from uplink_pdr_writes [OF u assms(2) refl] obtain x ip et where
    "pdr_far (pc_pdr (uc_pfcp c) p) = Some x" "to_core (pc_far (uc_pfcp c) x)"
    "own_source (uc_sess c (pdr_sess (pc_pdr (uc_pfcp c) p))) (drop len (pk_data b) @ pk_tail b) et ip"
    "if et = ETHERTYPE_IP then ip_v b' = 4 else et = ETHERTYPE_IPV6 \<and> ip_v b' = 6"
    "fd = dv_fd (sn_dev (uc_subnets c ! ui_subnet ip))"
    "d = device_frame (sn_dev (uc_subnets c ! ui_subnet ip)) et (drop len (pk_data b))"
    unfolding mem by blast
  with h ty n show ?thesis unfolding v Let_def
    by (intro exI [of _ h] exI [of _ len] exI [of _ n] exI [of _ p] exI [of _ x] exI [of _ ip] exI [of _ et])
      (auto split: if_splits)
qed

text \<open>One session with an uplink rule for tunnel 7 and the address 10.45.0.2.\<close>

definition sample_uplink :: "unit upf_context" where
  "sample_uplink = (upf_context_init 1 (\<lambda>_. 0) 0 (ogs_timer_mgr_create 4 0)
     ((ogs_pfcp_context_init 1 (\<lambda>_. 0) 0)\<lparr>
        pc_pdr := (\<lambda>_. zero_pdr\<lparr>pdr_src_if := OGS_PFCP_INTERFACE_ACCESS,
          pdr_src_if_type := Some INTERFACE_TYPE_N3_3GPP_ACCESS, pdr_f_teid := zero_f_teid\<lparr>te_teid := 7\<rparr>, pdr_far := Some 0\<rparr>),
        pc_far := (\<lambda>_. zero_far\<lparr>far_dst_if := OGS_PFCP_INTERFACE_CORE, far_dst_if_type := Some INTERFACE_TYPE_N6\<rparr>),
        pc_sess := (\<lambda>_. (ogs_pfcp_pool_init 0)\<lparr>ps_pdr_list := [0]\<rparr>),
        pc_object_hash := hash_set (ogs_hash_make 0) (key32 7) (Some (Obj_Sess 0))\<rparr>)
     [\<lparr>sn_family = AF_INET, sn_dnn = [], sn_pool = ogs_pool_init 1 0, sn_addrs = [],
       sn_dev = \<lparr>dv_ifname = ''ogstun'', dv_fd = 5, dv_is_tap = False, dv_mac_addr = []\<rparr>\<rparr>])
     \<lparr>uc_sess := (\<lambda>_. zero_sess\<lparr>se_ipv4 := Some \<lparr>ui_addr = [0x0a2d0002, 0, 0, 0], ui_static = None, ui_node = 0, ui_subnet = 0\<rparr>\<rparr>)\<rparr>"

definition sample_env :: "unit gtp_env" where
  "sample_env = \<lparr>ev_now = 0, ev_mclk = 0, ev_ntp_now = 0, ev_local_recovery = 0, ev_association_interval = 0,
     ev_cb = (\<lambda>_ _. ()), ev_report_ok = True, ev_quic_ok = True, ev_beyond = False, ev_multicast = False,
     ev_ntop4 = be32, ev_ntop6 = id,
     ev_arp_nd = \<lparr>an_is_arp_req = (\<lambda>_. False), an_arp_target = (\<lambda>_. 0), an_arp_reply = id, an_is_nd_req = (\<lambda>_. False), an_nd_reply = id\<rparr>\<rparr>"

definition sample_sa :: sockaddr where "sample_sa = \<lparr>sa_family = AF_INET, sa_addr = [10, 0, 0, 9]\<rparr>"

definition sample_inner :: bytes where
  "sample_inner = [0x45, 0, 0, 20, 0, 0, 0, 0, 64, 0, 0, 0, 10, 45, 0, 2, 8, 8, 8, 8]"

definition sample_gpdu :: pkbuf where
  "sample_gpdu = \<lparr>pk_head = replicate 16 0, pk_data = [0x30, 255, 0, 20, 0, 0, 0, 7] @ sample_inner, pk_tail = []\<rparr>"

lemma sample_object: "ogs_pfcp_object_find_by_teid 7 (uc_pfcp sample_uplink) = Some (Obj_Sess 0)"
  by (simp add: ogs_pfcp_object_find_by_teid_def sample_uplink_def upf_context_init_def ht.look_store hash_ok_make)

lemma sample_gpdu_header:
  "ogs_gtpu_parse_header sample_gpdu = Some (zero_desc\<lparr>hd_flags := 0x30, hd_type := MSGTYPE_GPDU, hd_teid := 7\<rparr>, 8)"
  by (simp add: sample_gpdu_def sample_inner_def, code_simp)

lemma sample_written: "gtpv1_u_recv sample_env sample_sa sample_sa sample_gpdu sample_uplink = Ret (sample_uplink, [TunWrite 5 sample_inner])"
proof -
  define b where "b = sample_gpdu\<lparr>pk_head := pk_head sample_gpdu @ take 8 (pk_data sample_gpdu), pk_data := sample_inner\<rparr>"
  have pull: "ogs_pkbuf_pull 8 sample_gpdu = Some b" by (simp add: ogs_pkbuf_pull_def sample_gpdu_def b_def)
  have b: "ip_v b = 4" "src_addr4 b = [0x0a2d0002]" "pk_data b = sample_inner"
    by (simp_all add: ip_v_def src_addr4_def pk_mem_def b_def sample_inner_def rd8_def rd32_def of_be32_def)
  have "source_check (pc_pdr (uc_pfcp sample_uplink) 0) (pc_far (uc_pfcp sample_uplink) 0) 0 b sample_uplink
      = Ret (Some (Some 0, ETHERTYPE_IP))"
    by (simp add: source_check_def Let_def sample_uplink_def upf_context_init_def zero_pdr_def zero_far_def zero_sess_def
        checked_interface_def b subnet_of_def live_ip_def src_allowed4_def INTERFACE_TYPE_N3_3GPP_ACCESS_def
        INTERFACE_TYPE_N6_def INTERFACE_TYPE_N9_FOR_ROAMING_def)
  then have "uplink_pdr sample_env 0 h 8 b sample_uplink = Ret (sample_uplink, [TunWrite 5 sample_inner])" for h
    by (simp add: uplink_pdr_def Let_def sample_uplink_def upf_context_init_def zero_pdr_def zero_far_def to_core_def
        add_ether_header_def b)
  then have "gpdu sample_env sample_sa sample_sa (zero_desc\<lparr>hd_flags := 0x30, hd_type := MSGTYPE_GPDU, hd_teid := 7\<rparr>) 8 b sample_uplink
      = Ret (sample_uplink, [TunWrite 5 sample_inner])"
    by (simp add: gpdu_def Let_def zero_desc_def sample_object pdrs_of_def)
      (simp add: sample_uplink_def upf_context_init_def zero_pdr_def rules_accept_def)
  then show ?thesis
    by (simp add: gtpv1_u_recv_def sample_gpdu_header pull MSGTYPE_GPDU_def MSGTYPE_ECHO_REQ_def MSGTYPE_END_MARKER_def
        MSGTYPE_ERR_IND_def zero_desc_def) (simp add: sample_gpdu_def sample_inner_def rd8_def pk_mem_def)
qed

theorem uplink_source_checked_witness:
  "gtpv1_u_recv sample_env sample_sa sample_sa sample_gpdu sample_uplink = Ret (sample_uplink, [TunWrite 5 sample_inner]) \<and>
   (\<exists>h n ip et. ogs_gtpu_parse_header sample_gpdu = Some (h, 8) \<and>
      own_source (uc_sess sample_uplink n) sample_inner et ip)"
proof -
  have "TunWrite 5 sample_inner \<in> set [TunWrite 5 sample_inner]" by simp
  from uplink_source_checked [OF sample_written this] sample_gpdu_header
  have "\<exists>h n ip et. ogs_gtpu_parse_header sample_gpdu = Some (h, 8) \<and>
      own_source (uc_sess sample_uplink n) (drop 8 (pk_data sample_gpdu) @ pk_tail sample_gpdu) et ip"
    unfolding Let_def by (metis option.inject prod.inject)
  with sample_written show ?thesis by (simp add: sample_gpdu_def)
qed

section \<open>The QUIC paths\<close>

text \<open>
  A packet that arrives over QUIC is not checked. For the same rule, session and packet, with
  a source that is not one of the session's, the GTP-U handler drops the packet and the QUIC
  handler writes it to the tunnel device.
\<close>

theorem quic_uplink_unchecked:
  assumes "ogs_pfcp_object_find_by_teid (hd_teid h) (uc_pfcp c) = Some (Obj_Sess n)" "pdrs_of (uc_pfcp c) n = [p]"
    and "pd = pc_pdr (uc_pfcp c) p" "te_teid (pdr_f_teid pd) = hd_teid h" "pdr_rules pd = []" "pdr_urr pd = []"
    and "pdr_qfi pd = 0 \<or> pdr_qfi pd = hd_qfi h" "pdr_far pd = Some x" "to_core (pc_far (uc_pfcp c) x)"
    and "checked_interface pd" "se = uc_sess c (pdr_sess pd)" "se_ipv4 se = Some ip" "live_ip c (Some ip)"
    and "ip_v b = 4" "\<not> own_source se (pk_mem b) ETHERTYPE_IP ip"
  shows "gpdu env local from h len b c = Ret (c, []) \<and>
    upf_n3_route_uplink env (hd_teid h) b c =
      Ret (c, [TunWrite (dv_fd (sn_dev (uc_subnets c ! ui_subnet ip))) (pk_data b)])"
proof -
  have r: "rules_accept z p b (uc_pfcp c) = Ret True" for z using assms(3,5) by (simp add: rules_accept_def)
  have "far_dst_if_type (pc_far (uc_pfcp c) x) \<noteq> Some INTERFACE_TYPE_N9_FOR_ROAMING"
    using assms(9) by (auto simp: to_core_def INTERFACE_TYPE_N6_def INTERFACE_TYPE_N9_FOR_ROAMING_def)
  moreover have "\<not> src_allowed4 se ip (src_addr4 b)" using own_source_4 assms(12,15) by blast
  ultimately have "source_check pd (pc_far (uc_pfcp c) x) (pdr_sess pd) b c = Ret None"
    using assms(10-14) by (simp add: source_check_def Let_def subnet_of_def)
  then have "uplink_pdr env p h len b c = Ret (c, [])" using assms(3,8) by (simp add: uplink_pdr_def Let_def)
  then have "gpdu env local from h len b c = Ret (c, [])"
    using assms(1-4,7) r by (auto simp: gpdu_def Let_def)
  moreover have "uplink_subnet (pdr_sess pd) b c = Ret (Some (ui_subnet ip))"
    using assms(11-14) by (simp add: uplink_subnet_def Let_def subnet_of_def)
  then have "upf_n3_route_uplink env (hd_teid h) b c =
      Ret (c, [TunWrite (dv_fd (sn_dev (uc_subnets c ! ui_subnet ip))) (pk_data b)])"
    using assms(1-4,6,8,9) r by (simp add: upf_n3_route_uplink_def Let_def to_core_def)
  ultimately show ?thesis ..
qed

definition spoofed_packet :: pkbuf where
  "spoofed_packet = \<lparr>pk_head = replicate 16 0,
     pk_data = [0x45, 0, 0, 20, 0, 0, 0, 0, 64, 0, 0, 0, 9, 9, 9, 9, 8, 8, 8, 8], pk_tail = []\<rparr>"

theorem quic_uplink_unchecked_witness:
  "gpdu sample_env sample_sa sample_sa (zero_desc\<lparr>hd_teid := 7\<rparr>) 8 spoofed_packet sample_uplink = Ret (sample_uplink, []) \<and>
   upf_n3_route_uplink sample_env 7 spoofed_packet sample_uplink = Ret (sample_uplink, [TunWrite 5 (pk_data spoofed_packet)])"
proof -
  define ip where "ip = \<lparr>ui_addr = [0x0a2d0002, 0, 0, 0], ui_static = None, ui_node = 0, ui_subnet = 0\<rparr>"
  let ?pd = "pc_pdr (uc_pfcp sample_uplink) 0" and ?se = "uc_sess sample_uplink 0"
  note d = sample_uplink_def upf_context_init_def zero_pdr_def zero_far_def zero_sess_def zero_desc_def ip_def
  have "\<not> own_source ?se (pk_mem spoofed_packet) ETHERTYPE_IP ip"
    by (simp add: d own_source_def Let_def own_routes_def spoofed_packet_def pk_mem_def rd32_def rd8_def of_be32_def)
  moreover have "ip_v spoofed_packet = 4" by (simp add: ip_v_def pk_mem_def spoofed_packet_def rd8_def)
  ultimately show ?thesis
    using quic_uplink_unchecked [of "zero_desc\<lparr>hd_teid := 7\<rparr>" sample_uplink 0 0 ?pd 0 ?se ip spoofed_packet
        sample_env sample_sa sample_sa 8] sample_object
    by (simp add: d pdrs_of_def to_core_def checked_interface_def live_ip_def)
qed

lemma scan_found_far:
  "downlink_scan z b c fb far ps = Ret (Some p, fb', far') \<Longrightarrow> p \<in> set ps \<and> far' = pdr_far (pc_pdr c p)"
  by (induction ps arbitrary: fb far) (auto split: option.splits if_splits)

text \<open>
  When no PDR is found the tunnel identifier is that of the FAR of the last PDR of the session,
  whatever the direction of this PDR and whichever PDR is taken instead.
\<close>

lemma fallback_uses_last_far:
  "downlink_scan z b c fb far (ps @ [q]) = Ret (None, fb', far') \<Longrightarrow> far' = pdr_far (pc_pdr c q)"
  by (induction ps arbitrary: fb far) (auto split: option.splits if_splits)

text \<open>
  C17: A packet for a UE reaches the gNB over QUIC. In QUIC mode a packet from the tunnel device
  for which the session has a downlink PDR is counted and sent as one datagram on the connection
  of the gNB that the FAR of the PDR names, and what the gNB reads from the datagram is the TEID
  of this FAR and the packet, unchanged. This holds whatever the apply action of the FAR is: a
  rule that drops or buffers does not stop the packet.
\<close>

theorem quic_downlink_delivered:
  assumes "uc_mode (up_ctx s) = QUIC" "pc = uc_pfcp (up_ctx s)" "find_ue (up_ctx s) b = Ret (Some n)"
    and "downlink_scan (ev_beyond env) b pc None None (pdrs_of pc n) = Ret (Some p, fb, Some x)"
    and "count_urrs env n (pdr_urr (pc_pdr pc p)) (length (pk_data b)) False (up_ctx s) = Ret (c, reps)"
    and "ip = ogs_pfcp_outer_header_creation_to_ip (far_ohc (pc_far pc x))" "oi_ipv4 ip"
    and "lookup_conn (up_quic s) (ev_ntop4 env (oi_addr ip)) = Ret (Some conn)" "qx_msquic (qs_ctx (up_quic s))"
    and "pool_ok (qs_send_pool (up_quic s))" "1 \<le> length (pk_data b)" "length (pk_data b) \<le> 2044"
    and "card (allocated (qs_send_pool (up_quic s))) < pool_size (qs_send_pool (up_quic s))"
  shows "pdr_far (pc_pdr pc p) = Some x \<and> p \<in> set (pdrs_of pc n) \<and>
    (\<exists>q frame buf. tun_packet env b s =
        Ret (s\<lparr>up_ctx := c, up_quic := q\<rparr>, reps @ [QuicCall (DatagramSend conn frame buf)]) \<and>
      quic_server_handle_uplink True frame = Some (far_ohc_teid (pc_far pc x), pk_data b))"
proof -
  obtain q frame buf where q: "quic_server_send_downlink (ev_quic_ok env) (up_quic s) (ev_ntop4 env (oi_addr ip))
      (far_ohc_teid (pc_far pc x)) (Some (pk_data b)) (of_nat (length (pk_data b))) = Ret (q, [DatagramSend conn frame buf])"
    "quic_server_handle_uplink True frame = Some (far_ohc_teid (pc_far pc x), pk_data b)"
    using downlink_frame [OF assms(8,10,9,11-13)] by blast
  have k: "uc_pfcp c = pc" "uc_mode c = QUIC" using count_urrs_keeps [OF assms(5)] assms(1,2) by simp_all
  have "upf_n3_route_downlink env x (far_ohc_teid (pc_far pc x)) b (s\<lparr>up_ctx := c\<rparr>) =
      Ret (s\<lparr>up_ctx := c, up_quic := q\<rparr>, [QuicCall (DatagramSend conn frame buf)], True)"
    using q(1) assms(6,7) k by (simp add: upf_n3_route_downlink_def Let_def)
  then have "tun_packet env b s = Ret (s\<lparr>up_ctx := c, up_quic := q\<rparr>, reps @ [QuicCall (DatagramSend conn frame buf)])"
    using assms(2-5) by (simp add: tun_packet_def Let_def)
  with q(2) scan_found_far [OF assms(4)] show ?thesis by auto
qed

definition sample_downlink :: "unit upf_context" where
  "sample_downlink = (upf_context_init 1 (\<lambda>_. 0) 0 (ogs_timer_mgr_create 4 0)
     ((ogs_pfcp_context_init 1 (\<lambda>_. 0) 0)\<lparr>
        pc_pdr := (\<lambda>_. zero_pdr\<lparr>pdr_src_if := OGS_PFCP_INTERFACE_CORE, pdr_far := Some 0\<rparr>),
        pc_far := (\<lambda>_. zero_far\<lparr>far_dst_if := OGS_PFCP_INTERFACE_ACCESS, far_ohc_teid := 9,
          far_ohc := zero_outer_header\<lparr>oh_gtpu4 := True\<rparr>\<rparr>),
        pc_sess := (\<lambda>_. (ogs_pfcp_pool_init 0)\<lparr>ps_pdr_list := [0]\<rparr>)\<rparr>) [])
     \<lparr>uc_mode := QUIC, uc_ipv4_hash := hash_set (ogs_hash_make 0) (ipv4_key 0x0a2d0002) (Some 0)\<rparr>"

definition sample_ip_packet :: pkbuf where
  "sample_ip_packet = \<lparr>pk_head = replicate 16 0,
     pk_data = [0x45, 0, 0, 20, 0, 0, 0, 0, 64, 0, 0, 0, 8, 8, 8, 8, 10, 45, 0, 2], pk_tail = []\<rparr>"

theorem quic_downlink_delivered_witness:
  "\<exists>q s' frame buf. tun_packet (sample_env\<lparr>ev_ntop4 := \<lambda>_. [49]\<rparr>) sample_ip_packet \<lparr>up_ctx = sample_downlink, up_quic = q\<rparr>
      = Ret (s', [QuicCall (DatagramSend 5 frame buf)]) \<and>
    quic_server_handle_uplink True frame = Some (9, pk_data sample_ip_packet)"
proof -
  obtain q where q: "lookup_conn q [49] = Ret (Some 5)" "qs_send_pool q = ogs_pool_init 4096 3" "qx_msquic (qs_ctx q)"
    "pool_ok (qs_send_pool q)" by (rule connected_server)
  define s :: "unit upf_plane" where "s = \<lparr>up_ctx = sample_downlink, up_quic = q\<rparr>"
  define env where "env = sample_env\<lparr>ev_ntop4 := \<lambda>_. [49]\<rparr>"
  define pc where "pc = uc_pfcp (up_ctx s)"
  note d = s_def pc_def sample_downlink_def upf_context_init_def zero_pdr_def zero_far_def zero_outer_header_def
  have "upf_sess_find_by_ipv4 (up_ctx s) 0x0a2d0002 = Some 0"
    by (simp add: d upf_sess_find_by_ipv4_def ht.look_store hash_ok_make ipv4_key_def be32_def)
  then have find: "find_ue (up_ctx s) sample_ip_packet = Ret (Some 0)"
    by (simp add: find_ue_def upf_sess_find_by_ue_ip_address_def sample_ip_packet_def pk_mem_def rd8_def rd32_def of_be32_def)
  have scan: "downlink_scan (ev_beyond env) sample_ip_packet pc None None (pdrs_of pc 0) = Ret (Some 0, Some 0, Some 0)"
    by (simp add: d pdrs_of_def has_outer_header_def rules_accept_def)
  have urr: "count_urrs env 0 (pdr_urr (pc_pdr pc 0)) (length (pk_data sample_ip_packet)) False (up_ctx s) = Ret (up_ctx s, [])"
    by (simp add: d)
  define ip where "ip = ogs_pfcp_outer_header_creation_to_ip (far_ohc (pc_far pc 0))"
  have v4: "oi_ipv4 ip" by (simp add: ip_def d ogs_pfcp_outer_header_creation_to_ip_def)
  have "uc_mode (up_ctx s) = QUIC" by (simp add: d)
  from quic_downlink_delivered [OF this pc_def find scan urr ip_def v4, of 5] q allocated_init [of 4096 3]
  obtain s' frame buf where "tun_packet env sample_ip_packet s = Ret (s', [QuicCall (DatagramSend 5 frame buf)])"
    "quic_server_handle_uplink True frame = Some (far_ohc_teid (pc_far pc 0), pk_data sample_ip_packet)"
    by (auto simp: s_def env_def sample_ip_packet_def ogs_pool_init_def)
  moreover have "far_ohc_teid (pc_far pc 0) = 9" by (simp add: d)
  ultimately show ?thesis unfolding env_def s_def by metis
qed

section \<open>No packet stops the user plane\<close>

lemma put_ok: "length bs \<le> length (pk_tail b) \<Longrightarrow> ogs_pkbuf_put bs b =
    Ret (b\<lparr>pk_data := pk_data b @ bs, pk_tail := drop (length bs) (pk_tail b)\<rparr>)"
  by (simp add: ogs_pkbuf_put_def)

lemma send_error_indication_returns:
  assumes "sa_family local = AF_INET \<or> sa_family local = AF_INET6"
  shows "ogs_gtp1_send_error_indication local teid qfi \<noteq> Abort"
proof -
  obtain b where b: "ogs_gtp1_build_error_indication teid local = Ret b" "length (pk_head b) = 20"
    using assms by (auto simp: ogs_gtp1_build_error_indication_def Let_def put_ok empty_pkbuf_def ogs_pkbuf_reserve_def
        OGS_GTPV1U_HEADER_LEN_def AF_INET_def AF_INET6_def)
  have "length (written_exts (header_flags (FLAGS_S OR FLAGS_E) (error_indication_exts qfi)) (error_indication_exts qfi)) \<le> 12"
    by (simp add: written_exts_def error_indication_exts_def)
  with b show ?thesis by (simp add: ogs_gtp1_send_error_indication_def fill_header_eq Let_def)
qed

text \<open>
  What can go wrong with a packet for a PDR after the PDR was chosen: it has no FAR, an address of the
  UE that its session points to is gone, accounting fails, or a report cannot be sent.
\<close>

definition pdr_stops :: "'c gtp_env \<Rightarrow> nat \<Rightarrow> nat \<Rightarrow> 'c upf_context \<Rightarrow> bool" where
  "pdr_stops env p sz c \<longleftrightarrow> (let pd = pc_pdr (uc_pfcp c) p; se = uc_sess c (pdr_sess pd) in
     pdr_far pd = None \<or> \<not> live_ip c (se_ipv4 se) \<or> \<not> live_ip c (se_ipv6 se) \<or>
     count_urrs env (pdr_sess pd) (pdr_urr pd) sz True c = Abort \<or> \<not> ev_report_ok env)"

lemma rules_accept_returns:
  assumes "pk_data b \<noteq> []" "rules_accept z p b pc = Abort"
  shows "\<exists>rules. ogs_pfcp_pdr_rule_find_by_packet (length (pk_data b)) rules (pk_data b) = Ret FindNoReturn"
  using assms by (auto simp: rules_accept_def Let_def ogs_pfcp_pdr_rule_find_by_packet_def
      split: find_result.splits if_splits)

lemma first_pdr_Abort: "first_pdr acc ps = Abort \<Longrightarrow> \<exists>p \<in> set ps. acc p = Abort"
  by (induction ps) (auto split: if_splits)

lemma source_check_returns:
  assumes "live_ip c (se_ipv4 (uc_sess c n))" "live_ip c (se_ipv6 (uc_sess c n))" "source_check pd f n b c = Abort"
  shows False
  using assms by (auto simp: source_check_def Let_def subnet_of_def split: option.splits if_splits)

lemma source_check_eth: "source_check pd f n b c = Ret (Some (Some k, et)) \<Longrightarrow> et \<noteq> 0"
  by (auto dest!: source_check_own simp: ETHERTYPE_IP_def ETHERTYPE_IPV6_def split: if_splits)

lemma uplink_pdr_returns:
  assumes ok: "\<not> pdr_stops env p (length (pk_data b)) c" and "hd_type h = MSGTYPE_GPDU" "8 \<le> len" "16 + len \<le> length (pk_head b)"
  shows "uplink_pdr env p h len b c \<noteq> Abort"
proof -
  obtain x where far: "pdr_far (pc_pdr (uc_pfcp c) p) = Some x" using ok by (auto simp: pdr_stops_def Let_def)
  let ?pd = "pc_pdr (uc_pfcp c) p" and ?f = "pc_far (uc_pfcp c) x"
  have cnt: "count_urrs env (pdr_sess ?pd) (pdr_urr ?pd) (length (pk_data b)) True c \<noteq> Abort" and rep: "ev_report_ok env"
    and live: "live_ip c (se_ipv4 (uc_sess c (pdr_sess ?pd)))" "live_ip c (se_ipv6 (uc_sess c (pdr_sess ?pd)))"
    using ok by (simp_all add: pdr_stops_def Let_def)
  obtain ch where ch: "source_check ?pd ?f (pdr_sess ?pd) b c = Ret ch"
    using source_check_returns [OF live] by (cases "source_check ?pd ?f (pdr_sess ?pd) b c") blast+
  have room: "room_ok p ?f len (Some h) b (uc_pfcp c)" using assms(3,4) by (simp add: room_ok_def)
  have ty: "hd_type h \<noteq> 0" using assms(2) by (simp add: MSGTYPE_GPDU_def)
  obtain r where "ogs_pfcp_up_handle_pdr p (hd_type h) len (Some h) b (uc_pfcp c) = Ret r"
    by (rule handle_pdr_cases [OF far ty room]) blast
  then have fwd: "forward env p (hd_type h) len (Some h) b c \<noteq> Abort"
    using rep by (cases r) (auto simp: forward_def handle_pdr_def downlink_report_def Let_def)
  have eth: "add_ether_header dev et b \<noteq> Abort" if "ch = Some (Some k, et)" for dev et k
    using that assms(4) source_check_eth [of ?pd ?f "pdr_sess ?pd" b c k et] ch by (auto simp: add_ether_header_def ogs_pkbuf_push_def Let_def)
  show ?thesis
  proof
    assume "uplink_pdr env p h len b c = Abort"
    then show False using ch cnt fwd eth far
      by (auto simp: uplink_pdr_def Let_def split: option.splits if_splits)
  qed
qed

lemma session_stops:
  assumes obj: "ogs_pfcp_object_find_by_teid (hd_teid h) (uc_pfcp c) = Some (Obj_Sess n)" and ty: "hd_type h = MSGTYPE_GPDU"
    and g: "gpdu env local from h len b c = Abort" and err: "send_error_indication env local from h \<noteq> Abort"
    and room: "8 \<le> len" "16 + len \<le> length (pk_head b)" and ne: "pk_data b \<noteq> []"
  shows "(\<exists>rules. ogs_pfcp_pdr_rule_find_by_packet (length (pk_data b)) rules (pk_data b) = Ret FindNoReturn) \<or>
    (\<exists>p \<in> set (pdrs_of (uc_pfcp c) n). pdr_stops env p (length (pk_data b)) c)"
proof (cases "\<exists>p \<in> set (pdrs_of (uc_pfcp c) n). pdr_stops env p (length (pk_data b)) c")
  case False
  define acc where "acc = (\<lambda>p. if te_teid (pdr_f_teid (pc_pdr (uc_pfcp c) p)) \<noteq> hd_teid h then Ret False
              else if pdr_qfi (pc_pdr (uc_pfcp c) p) \<noteq> 0 \<and> pdr_qfi (pc_pdr (uc_pfcp c) p) \<noteq> hd_qfi h then Ret False
              else rules_accept (ev_beyond env) p b (uc_pfcp c))"
  have "uplink_pdr env p h len b c \<noteq> Abort" if "first_pdr acc (pdrs_of (uc_pfcp c) n) = Ret (Some p)" for p
    using uplink_pdr_returns [OF _ ty room] False first_pdr_Some [OF that] by blast
  then have "first_pdr acc (pdrs_of (uc_pfcp c) n) = Abort"
    using g obj err by (auto simp: gpdu_def Let_def acc_def [symmetric] split: option.splits)
  from first_pdr_Abort [OF this] obtain p where "acc p = Abort" by blast
  then have "rules_accept (ev_beyond env) p b (uc_pfcp c) = Abort" by (auto simp: acc_def split: if_splits)
  from rules_accept_returns [OF ne this] show ?thesis ..
qed simp

text \<open>
  C18: What can stop the user plane function on a datagram from the access network. The handler of the
  GTP-U socket returns on every datagram, in whatever state, but for these causes: an error
  indication about a FAR when the report cannot be sent or the F-TEID that the FAR remembers is of no
  IP version; a G-PDU whose TEID designates a single PDR, whose jumbo payload options keep a rule search
  in its loop for ever, or for a session with a PDR without a FAR, with a UE address that is gone, whose
  accounting fails, or whose report cannot be sent. In all other cases no assertion fails, no null or
  dangling pointer is used, and the room in front of the packet is enough for every header.
\<close>

theorem gtpu_stop_causes:
  assumes "length (pk_head b) = OGS_TUN_MAX_HEADROOM" "sa_family local = AF_INET \<or> sa_family local = AF_INET6"
    and "gtpv1_u_recv env local from b c = Abort"
  shows "\<exists>h len. ogs_gtpu_parse_header b = Some (h, len) \<and> (let pkt = drop len (pk_data b); pc = uc_pfcp c in
    hd_type h = MSGTYPE_ERR_IND \<and> (\<exists>mem x. ogs_pfcp_far_find_by_gtpu_error_indication mem pc = Far x \<and>
        (\<not> ev_report_ok env \<or> \<not> (\<exists>k. far_hash_f_teid (pc_far pc x) = Some k \<and> (length k = 8 \<or> length k = 20)))) \<or>
    hd_type h = MSGTYPE_GPDU \<and> pkt \<noteq> [] \<and> (\<exists>obj. ogs_pfcp_object_find_by_teid (hd_teid h) pc = Some obj \<and> (case obj of Obj_Pdr _ \<Rightarrow> True
      | Obj_Sess n \<Rightarrow> (\<exists>rules. ogs_pfcp_pdr_rule_find_by_packet (length pkt) rules pkt = Ret FindNoReturn) \<or>
          (\<exists>p \<in> set (pdrs_of pc n). let pd = pc_pdr pc p; se = uc_sess c (pdr_sess pd) in
             pdr_far pd = None \<or> \<not> live_ip c (se_ipv4 se) \<or> \<not> live_ip c (se_ipv6 se) \<or>
             count_urrs env (pdr_sess pd) (pdr_urr pd) (length pkt) True c = Abort \<or> \<not> ev_report_ok env))))"
proof -
  obtain h len where h: "ogs_gtpu_parse_header b = Some (h, len)"
    using assms(3) by (auto simp: gtpv1_u_recv_def split: if_splits option.splits)
  have len: "8 \<le> len" "len \<le> length (pk_data b)" using parse_header_len [OF h] by simp_all
  define b' where "b' = b\<lparr>pk_head := pk_head b @ take len (pk_data b), pk_data := drop len (pk_data b)\<rparr>"
  have pull: "ogs_pkbuf_pull len b = Some b'" using len by (simp add: ogs_pkbuf_pull_def b'_def)
  have room: "16 + len \<le> length (pk_head b')" using len assms(1) by (simp add: b'_def OGS_TUN_MAX_HEADROOM_def)
  have ne: "hd_type h \<noteq> MSGTYPE_END_MARKER \<Longrightarrow> pk_data b' \<noteq> []"
    using assms(3) h by (auto simp: gtpv1_u_recv_def b'_def split: if_splits)
  consider "hd_type h = MSGTYPE_ERR_IND" "error_indication env b' c = Abort"
    | "hd_type h = MSGTYPE_GPDU" "gpdu env local from h len b' c = Abort"
    using assms(3) h pull by (auto simp: gtpv1_u_recv_def split: if_splits option.splits)
  then show ?thesis
  proof cases
    case 1
    then show ?thesis using h
      by (auto simp: error_indication_def ogs_pfcp_up_handle_error_indication_def Let_def
          split: far_lookup.splits option.splits if_splits intro!: exI [of _ h] exI [of _ len]) fastforce+
  next
    case 2
    have err: "send_error_indication env local from h \<noteq> Abort"
      using send_error_indication_returns [OF assms(2)] by (auto simp: send_error_indication_def)
    obtain obj where obj: "ogs_pfcp_object_find_by_teid (hd_teid h) (uc_pfcp c) = Some obj"
      using 2(2) err by (auto simp: gpdu_def Let_def split: option.splits)
    have "(\<exists>rules. ogs_pfcp_pdr_rule_find_by_packet (length (pk_data b')) rules (pk_data b') = Ret FindNoReturn) \<or>
        (\<exists>p \<in> set (pdrs_of (uc_pfcp c) n). pdr_stops env p (length (pk_data b')) c)" if n: "obj = Obj_Sess n" for n
    proof (rule session_stops [where n = n])
      show "pk_data b' \<noteq> []" using ne 2(1) by (simp add: MSGTYPE_GPDU_def MSGTYPE_END_MARKER_def)
    qed (use 2 obj n err len(1) room in simp_all)
    then show ?thesis using h obj ne 2(1)
      by (auto simp: b'_def pdr_stops_def Let_def MSGTYPE_GPDU_def MSGTYPE_END_MARKER_def split: pfcp_object.split
          intro!: exI [of _ h] exI [of _ len])
  qed
qed

text \<open>The session of \<open>sample_uplink\<close> with a rule, and a packet with a jumbo option of length zero.\<close>

definition sample_filtered :: "unit upf_context" where
  "sample_filtered = sample_uplink\<lparr>uc_pfcp := (uc_pfcp sample_uplink)\<lparr>
     pc_pdr := (\<lambda>_. (pc_pdr (uc_pfcp sample_uplink) 0)\<lparr>pdr_rules := [0]\<rparr>)\<rparr>\<rparr>"

definition jumbo_packet :: bytes where
  "jumbo_packet = [0x60, 0, 0, 0, 0, 0, 0, 64] @ replicate 32 0 @ [17, 0, IP6OPT_JUMBO, 4, 0, 0, 0, 0]"

definition jumbo_gpdu :: pkbuf where
  "jumbo_gpdu = \<lparr>pk_head = replicate 16 0, pk_data = [0x30, 255, 0, 48, 0, 0, 0, 7] @ jumbo_packet, pk_tail = []\<rparr>"

lemma jumbo_rd [simp]: "length jumbo_packet = 48" "ip_version jumbo_packet = 6" "rd16 jumbo_packet 4 = 0" "rd8 jumbo_packet 6 = 0"
  "rd8 jumbo_packet 42 = IP6OPT_JUMBO" "rd32 jumbo_packet 44 = 0" "jumbo_packet \<noteq> []"
  by (simp_all add: jumbo_packet_def ip_version_def rd8_def rd16_def rd32_def of_be16_def of_be32_def nth_append)

lemma jumbo_no_return: "ogs_pfcp_pdr_rule_find_by_packet 48 (r # rs) jumbo_packet = Ret FindNoReturn"
proof -
  have "jumbo_loop 48 jumbo_packet 0 40 40 42 = JumboNoReturn" by (rule jumbo_loop_stuck) simp_all
  then have "decode_ipv6_header 48 jumbo_packet = NoReturn" by (simp add: decode_ipv6_header_def Let_def)
  then have "try_rule 48 jumbo_packet r = MatchNoReturn" by (simp add: try_rule_def)
  then show ?thesis by (simp add: ogs_pfcp_pdr_rule_find_by_packet_def)
qed

lemma sample_filtered_ok: "\<not> pdr_stops sample_env p sz sample_filtered"
proof -
  note d = sample_filtered_def sample_uplink_def upf_context_init_def zero_pdr_def zero_sess_def sample_env_def
  have "pdr_far (pc_pdr (uc_pfcp sample_filtered) p) = Some 0" "pdr_urr (pc_pdr (uc_pfcp sample_filtered) p) = []"
    by (simp_all add: d)
  moreover have "live_ip sample_filtered (se_ipv4 (uc_sess sample_filtered n))" "live_ip sample_filtered (se_ipv6 (uc_sess sample_filtered n))" for n
    by (simp_all add: d live_ip_def)
  moreover have "ev_report_ok sample_env" by (simp add: sample_env_def)
  ultimately show ?thesis by (simp add: pdr_stops_def Let_def)
qed

lemma jumbo_stops: "gtpv1_u_recv sample_env sample_sa sample_sa jumbo_gpdu sample_filtered = Abort"
proof -
  define h where "h = zero_desc\<lparr>hd_flags := 0x30, hd_type := MSGTYPE_GPDU, hd_teid := 7\<rparr>"
  define b where "b = jumbo_gpdu\<lparr>pk_head := pk_head jumbo_gpdu @ take 8 (pk_data jumbo_gpdu), pk_data := jumbo_packet\<rparr>"
  have hdr: "ogs_gtpu_parse_header jumbo_gpdu = Some (h, 8)"
    unfolding jumbo_gpdu_def jumbo_packet_def h_def by code_simp
  have pull: "ogs_pkbuf_pull 8 jumbo_gpdu = Some b" by (simp add: ogs_pkbuf_pull_def jumbo_gpdu_def b_def)
  have "rules_accept z 0 b (uc_pfcp sample_filtered) = Abort" for z
    by (simp add: rules_accept_def Let_def b_def sample_filtered_def jumbo_no_return)
  moreover have "ogs_pfcp_object_find_by_teid 7 (uc_pfcp sample_filtered) = Some (Obj_Sess 0)"
    using sample_object by (simp add: ogs_pfcp_object_find_by_teid_def sample_filtered_def)
  moreover have "pdrs_of (uc_pfcp sample_filtered) 0 = [0]" "te_teid (pdr_f_teid (pc_pdr (uc_pfcp sample_filtered) 0)) = 7"
    "pdr_qfi (pc_pdr (uc_pfcp sample_filtered) 0) = 0"
    by (simp_all add: pdrs_of_def sample_filtered_def sample_uplink_def upf_context_init_def zero_pdr_def)
  ultimately have "gpdu sample_env sample_sa sample_sa h 8 b sample_filtered = Abort" by (simp add: gpdu_def Let_def h_def)
  then show ?thesis
    by (simp add: gtpv1_u_recv_def hdr pull h_def MSGTYPE_GPDU_def MSGTYPE_ECHO_REQ_def MSGTYPE_END_MARKER_def MSGTYPE_ERR_IND_def)
      (simp add: jumbo_gpdu_def rd8_def pk_mem_def)
qed

theorem gtpu_stop_causes_witness:
  "gtpv1_u_recv sample_env sample_sa sample_sa jumbo_gpdu sample_filtered = Abort \<and>
   (\<exists>rules. ogs_pfcp_pdr_rule_find_by_packet (length jumbo_packet) rules jumbo_packet = Ret FindNoReturn)"
proof -
  have hdr: "ogs_gtpu_parse_header jumbo_gpdu = Some (zero_desc\<lparr>hd_flags := 0x30, hd_type := 255, hd_teid := 7\<rparr>, 8)"
    unfolding jumbo_gpdu_def jumbo_packet_def by code_simp
  have obj: "ogs_pfcp_object_find_by_teid 7 (uc_pfcp sample_filtered) = Some (Obj_Sess 0)"
    using sample_object by (simp add: ogs_pfcp_object_find_by_teid_def sample_filtered_def)
  have "length (pk_head jumbo_gpdu) = OGS_TUN_MAX_HEADROOM" "sa_family sample_sa = AF_INET \<or> sa_family sample_sa = AF_INET6"
    by (simp_all add: jumbo_gpdu_def OGS_TUN_MAX_HEADROOM_def sample_sa_def)
  define c where "c = sample_filtered"
  note stops = sample_filtered_ok [unfolded pdr_stops_def Let_def de_Morgan_disj, folded c_def]
  have no: "pdr_far (pc_pdr (uc_pfcp c) p) \<noteq> None" "live_ip c (se_ipv4 (uc_sess c (pdr_sess (pc_pdr (uc_pfcp c) p))))"
    "live_ip c (se_ipv6 (uc_sess c (pdr_sess (pc_pdr (uc_pfcp c) p))))" "ev_report_ok sample_env"
    "count_urrs sample_env (pdr_sess (pc_pdr (uc_pfcp c) p)) (pdr_urr (pc_pdr (uc_pfcp c) p)) sz True c \<noteq> Abort" for p sz
    using stops [of p sz] by blast+
  from gtpu_stop_causes [OF \<open>length (pk_head jumbo_gpdu) = OGS_TUN_MAX_HEADROOM\<close> \<open>sa_family sample_sa = AF_INET \<or> sa_family sample_sa = AF_INET6\<close> jumbo_stops]
  have "\<exists>rules. ogs_pfcp_pdr_rule_find_by_packet (length jumbo_packet) rules jumbo_packet = Ret FindNoReturn"
    using hdr obj unfolding c_def [symmetric] by (auto simp: jumbo_gpdu_def MSGTYPE_ERR_IND_def MSGTYPE_GPDU_def no Let_def)
  then show ?thesis using jumbo_stops by blast
qed

end
