(* ===== verification/Pfcp_Handler.thy ===== *)
theory Pfcp_Handler
  imports Upf_Context
begin

text \<open>
  The handlers of the rules in a session request, \<^verbatim>\<open>lib/pfcp/handler.c\<close>: creation, update and
  removal of PDRs, FARs, QERs, URRs and the BAR.

  A grouped element of a message is a record of its parts, an absent part \<open>None\<close>; of an array
  that the code reads up to its first absent entry, the list holds the entries before it. A
  handler returns the changed context and one of three results: \<open>Absent\<close>, a null pointer with
  the cause left as it was; \<open>Refused\<close>, a null pointer with the cause and the offending element
  set; \<open>Done\<close>, the object.
\<close>

section \<open>Messages and results\<close>

definition OGS_PFCP_CAUSE_SESSION_CONTEXT_NOT_FOUND :: u8 where
  "OGS_PFCP_CAUSE_SESSION_CONTEXT_NOT_FOUND = 65"

definition OGS_PFCP_CAUSE_MANDATORY_IE_MISSING :: u8 where "OGS_PFCP_CAUSE_MANDATORY_IE_MISSING = 66"

definition OGS_PFCP_CAUSE_INVALID_LENGTH :: u8 where "OGS_PFCP_CAUSE_INVALID_LENGTH = 68"

definition OGS_PFCP_CAUSE_INVALID_F_TEID_ALLOCATION_OPTION :: u8 where
  "OGS_PFCP_CAUSE_INVALID_F_TEID_ALLOCATION_OPTION = 71"

definition OGS_PFCP_PDI_TYPE :: u8 where "OGS_PFCP_PDI_TYPE = 2"

definition OGS_PFCP_SOURCE_INTERFACE_TYPE :: u8 where "OGS_PFCP_SOURCE_INTERFACE_TYPE = 20"

definition OGS_PFCP_F_TEID_TYPE :: u8 where "OGS_PFCP_F_TEID_TYPE = 21"

definition OGS_PFCP_MBR_TYPE :: u8 where "OGS_PFCP_MBR_TYPE = 26"

definition OGS_PFCP_GBR_TYPE :: u8 where "OGS_PFCP_GBR_TYPE = 27"

definition OGS_PFCP_VOLUME_THRESHOLD_TYPE :: u8 where "OGS_PFCP_VOLUME_THRESHOLD_TYPE = 31"

definition OGS_PFCP_REPORTING_TRIGGERS_TYPE :: u8 where "OGS_PFCP_REPORTING_TRIGGERS_TYPE = 37"

definition OGS_PFCP_APPLY_ACTION_TYPE :: u8 where "OGS_PFCP_APPLY_ACTION_TYPE = 44"

definition OGS_PFCP_PDR_ID_TYPE :: u8 where "OGS_PFCP_PDR_ID_TYPE = 56"

definition OGS_PFCP_MEASUREMENT_METHOD_TYPE :: u8 where "OGS_PFCP_MEASUREMENT_METHOD_TYPE = 62"

definition OGS_PFCP_DROPPED_DL_TRAFFIC_THRESHOLD_TYPE :: u8 where
  "OGS_PFCP_DROPPED_DL_TRAFFIC_THRESHOLD_TYPE = 72"

definition OGS_PFCP_VOLUME_QUOTA_TYPE :: u8 where "OGS_PFCP_VOLUME_QUOTA_TYPE = 73"

definition OGS_PFCP_URR_ID_TYPE :: u8 where "OGS_PFCP_URR_ID_TYPE = 81"

definition OGS_PFCP_BAR_ID_TYPE :: u8 where "OGS_PFCP_BAR_ID_TYPE = 88"

definition OGS_PFCP_FAR_ID_TYPE :: u8 where "OGS_PFCP_FAR_ID_TYPE = 108"

definition OGS_PFCP_QER_ID_TYPE :: u8 where "OGS_PFCP_QER_ID_TYPE = 109"

datatype 'a handled = Absent | Refused u8 "u8 option" | Done 'a

record pdi =
  pi_src_if :: "u8 option"
  pi_src_if_type :: "u8 option"
  pi_f_teid :: "octet option"
  pi_dnn :: "octet option"
  pi_ue_ip :: "octet option"
  pi_sdf :: "octet list"
  pi_routes4 :: "octet list"
  pi_routes6 :: "octet list"
  pi_qfi :: "u8 option"

text \<open>The URR identifiers are those present, in their order.\<close>

record tlv_create_pdr =
  cp_pdr_id :: "u16 option"
  cp_precedence :: "u32 option"
  cp_pdi :: "pdi option"
  cp_ohr :: "octet option"
  cp_far_id :: "u32 option"
  cp_urr_ids :: "u32 list"
  cp_qer_id :: "u32 option"

record tlv_update_pdr =
  up_pdr_id :: "u16 option"
  up_pdi :: "pdi option"
  up_ohr :: "octet option"

record tlv_forwarding =
  fp_dst_if :: "u8 option"
  fp_dst_if_type :: "u8 option"
  fp_dnn :: "octet option"
  fp_ohc :: "octet option"
  fp_smreq_flags :: "u8 option"

record tlv_far =
  tf_far_id :: "u32 option"
  tf_apply_action :: "u16 option"
  tf_params :: "tlv_forwarding option"

record tlv_qer =
  tq_qer_id :: "u32 option"
  tq_gate_status :: "u8 option"
  tq_mbr :: "octet option"
  tq_gbr :: "octet option"
  tq_qfi :: "u8 option"

record tlv_urr =
  tu_urr_id :: "u32 option"
  tu_meas_method :: "u8 option"
  tu_rep_triggers :: "u32 option"
  tu_meas_period :: "u32 option"
  tu_vol_threshold :: "octet option"
  tu_vol_quota :: "octet option"
  tu_event_threshold :: "u32 option"
  tu_event_quota :: "u32 option"
  tu_time_threshold :: "u32 option"
  tu_time_quota :: "u32 option"
  tu_quota_holding_time :: "u32 option"
  tu_dropped_dl :: "octet option"
  tu_quota_validity_time :: "u32 option"
  tu_meas_info :: "octet option"

text \<open>
  What the handlers take from elsewhere: the compiler of flow descriptions of \<^verbatim>\<open>lib/ipfw\<close>, and
  the octets that an F-TEID on the stack has before a received one is copied over it.
\<close>

record handler_env =
  he_compile :: "string \<Rightarrow> ipfw_rule option"
  he_stack :: bytes

definition OGS_MAX_NUM_OF_FLOW_IN_PDR :: nat where "OGS_MAX_NUM_OF_FLOW_IN_PDR = 15"

section \<open>Structures in memory\<close>

text \<open>
  \<^verbatim>\<open>memcpy\<close> of at most \<open>n\<close> octets of an element over a structure.
\<close>

definition copy_over :: "nat \<Rightarrow> bytes \<Rightarrow> octet \<Rightarrow> bytes exec" where
  "copy_over n old oc = exec_bind (fetch oc 0 (min (oc_len oc) n)) (\<lambda>bs. Ret (bs @ drop (length bs) old))"

text \<open>
  An F-TEID of 25 octets, its TEID in host order. The octets of the union outside the member
  that the flags select are not kept.
\<close>

definition f_teid_memory :: "f_teid \<Rightarrow> bytes" where
  "f_teid_memory f =
     [of_bool (te_ipv4 f) OR push_bit 1 (of_bool (te_ipv6 f)) OR push_bit 2 (of_bool (te_ch f)) OR
        push_bit 3 (of_bool (te_chid f))] @ key32 (te_teid f) @
     (if te_ipv4 f then be32 (te_addr f) @ te_addr6 f else te_addr6 f @ replicate 4 0)"

text \<open>The structure with these octets, after the TEID has been converted to host order.\<close>

definition received_f_teid :: "bytes \<Rightarrow> f_teid" where
  "received_f_teid bs =
     (let v4 = bit (rd8 bs 0) 0; v6 = bit (rd8 bs 0) 1
      in \<lparr>te_ipv4 = v4, te_ipv6 = v6, te_ch = bit (rd8 bs 0) 2, te_chid = bit (rd8 bs 0) 3,
          te_teid = rd32 bs 1, te_addr = (if v4 then rd32 bs 5 else 0),
          te_addr6 = (if v6 then take 16 (drop (if v4 then 9 else 5) bs) else replicate 16 0)\<rparr>)"

definition received_ue_ip :: "bytes \<Rightarrow> ue_ip_addr" where
  "received_ue_ip bs = \<lparr>ua_ipv4 = bit (rd8 bs 0) 1, ua_ipv6 = bit (rd8 bs 0) 0, ua_octets = drop 1 bs\<rparr>"

definition outer_header_memory :: "u32 \<Rightarrow> outer_header \<Rightarrow> bytes" where
  "outer_header_memory teid oh =
     [of_bool (oh_gtpu4 oh) OR push_bit 1 (of_bool (oh_gtpu6 oh)) OR push_bit 2 (of_bool (oh_udp4 oh)) OR
        push_bit 3 (of_bool (oh_udp6 oh)) OR push_bit 4 (of_bool (oh_ip4 oh)) OR push_bit 5 (of_bool (oh_ip6 oh)), 0] @
     key32 teid @ oh_octets oh"

definition received_outer_header :: "bytes \<Rightarrow> outer_header" where
  "received_outer_header bs =
     (let fl = rd8 bs 0
      in \<lparr>oh_ip6 = bit fl 5, oh_ip4 = bit fl 4, oh_udp6 = bit fl 3, oh_udp4 = bit fl 2,
          oh_gtpu6 = bit fl 1, oh_gtpu4 = bit fl 0, oh_octets = take 20 (drop 6 bs)\<rparr>)"

text \<open>The octets 5 and 6 of the reporting triggers that the accounting reads.\<close>

definition triggers_of :: "u8 \<Rightarrow> u8 \<Rightarrow> reporting_triggers" where
  "triggers_of reptri_5 reptri_6 =
     \<lparr>rt_volume_quota = bit reptri_6 0, rt_volume_threshold = bit reptri_5 1,
      rt_quota_validity_time = bit reptri_6 7, rt_time_quota = bit reptri_6 1, rt_time_threshold = bit reptri_5 2\<rparr>"

definition limit_of :: "volume \<Rightarrow> volume_limit" where
  "limit_of v = \<lparr>vl_tovol = vo_present 0 v, vl_total_volume = vo_total v\<rparr>"

definition ogs_ipfw_rule_swap :: "ipfw_rule \<Rightarrow> ipfw_rule" where
  "ogs_ipfw_rule_swap r = r\<lparr>fw_src_addr := fw_dst_addr r, fw_src_mask := fw_dst_mask r,
     fw_dst_addr := fw_src_addr r, fw_dst_mask := fw_src_mask r,
     fw_src_port := fw_dst_port r, fw_dst_port := fw_src_port r\<rparr>"

section \<open>Detection rules\<close>

definition update_rule :: "nat \<Rightarrow> (pfcp_rule \<Rightarrow> pfcp_rule) \<Rightarrow> pfcp_ctx \<Rightarrow> pfcp_ctx" where
  "update_rule r f c = c\<lparr>pc_rule := (pc_rule c)(r := f (pc_rule c r))\<rparr>"

text \<open>
  The flow rule for one filter. A filter with the identifier of a known rule takes the packet
  filter of that rule with its sides exchanged; a flow description replaces it.
\<close>

definition opposite_rule :: "nat \<Rightarrow> sdf_filter \<Rightarrow> pfcp_ctx \<Rightarrow> nat option" where
  "opposite_rule s f c = (if sf_bid f then ogs_pfcp_rule_find_by_sdf_filter_id s (sf_sdf_filter_id f) c else None)"

definition flow_description :: "sdf_filter \<Rightarrow> string" where
  "flow_description f = c_string (take (unat (sf_description_len f)) (sf_description f))"

definition add_flow_rule :: "handler_env \<Rightarrow> nat \<Rightarrow> nat \<Rightarrow> sdf_filter \<Rightarrow> pfcp_ctx \<Rightarrow> pfcp_ctx exec" where
  "add_flow_rule env s p f c =
     (let opp = opposite_rule s f c in
      if opp = None \<and> \<not> sf_fd f then Ret c
      else exec_bind (ogs_pfcp_rule_add p c) (\<lambda>(c, r).
        let c1 = update_rule r (\<lambda>l. l\<lparr>rl_bid := sf_bid f, rl_fd := sf_fd f,
              rl_ipfw := (case opp of None \<Rightarrow> rl_ipfw l | Some q \<Rightarrow> ogs_ipfw_rule_swap (rl_ipfw (pc_rule c q))),
              rl_sdf_filter_id := (if sf_bid f then sf_sdf_filter_id f else rl_sdf_filter_id l)\<rparr>) c
        in if \<not> sf_fd f then Ret c1
           else (case he_compile env (flow_description f) of
                   None \<Rightarrow> Ret (ogs_pfcp_rule_remove r c1)
                 | Some fw \<Rightarrow>
                     Ret (update_rule r (\<lambda>l. l\<lparr>rl_ipfw :=
                       (if pdr_src_if (pc_pdr c p) = OGS_PFCP_INTERFACE_ACCESS then ogs_ipfw_rule_swap fw else fw)\<rparr>) c1))))"

fun add_flow_rules :: "handler_env \<Rightarrow> nat \<Rightarrow> nat \<Rightarrow> octet list \<Rightarrow> pfcp_ctx \<Rightarrow> pfcp_ctx exec" where
  "add_flow_rules env s p [] c = Ret c"
| "add_flow_rules env s p (oc # ocs) c =
     exec_bind (ogs_pfcp_parse_sdf_filter oc) (\<lambda>(f, sz).
       if \<not> decoded_all oc sz then Ret c
       else exec_bind (add_flow_rule env s p f c) (add_flow_rules env s p ocs))"

definition set_source ::
  "handler_env \<Rightarrow> nat \<Rightarrow> nat \<Rightarrow> pdi \<Rightarrow> pfcp_ctx \<Rightarrow> pfcp_ctx exec" where
  "set_source env s p m c =
     add_flow_rules env s p (take OGS_MAX_NUM_OF_FLOW_IN_PDR (pi_sdf m))
       (ogs_pfcp_rule_remove_all p
         (update_pdr p (\<lambda>d. d\<lparr>pdr_src_if := (case pi_src_if m of None \<Rightarrow> pdr_src_if d | Some x \<Rightarrow> x),
            pdr_src_if_type := (case pi_src_if_type m of None \<Rightarrow> pdr_src_if_type d | Some x \<Rightarrow> Some x)\<rparr>) c))"

text \<open>A network instance that does not parse leaves the name as it is.\<close>

definition network_instance :: "octet option \<Rightarrow> string option \<Rightarrow> string option exec" where
  "network_instance m old =
     (case m of None \<Rightarrow> Ret old
      | Some oc \<Rightarrow> exec_bind (parse_dnn oc) (\<lambda>r. Ret (case r of None \<Rightarrow> old | Some d \<Rightarrow> Some d)))"

definition refuse :: "u8 \<Rightarrow> u8 \<Rightarrow> 'a handled" where "refuse cause ie = Refused cause (Some ie)"

text \<open>
  The two tests before a PDR is looked up. The first reads the F-TEID into a structure that has
  not been cleared; a restored TEID must be free.
\<close>

definition f_teid_refusal :: "handler_env \<Rightarrow> bool \<Rightarrow> pdi \<Rightarrow> pfcp_ctx \<Rightarrow> (u8 \<times> u8) option exec" where
  "f_teid_refusal env restore m c =
     (case pi_f_teid m of None \<Rightarrow> Ret None
      | Some oc \<Rightarrow> exec_bind (copy_over 25 (he_stack env) oc) (\<lambda>bs.
          let f = received_f_teid bs
          in Ret (if \<not> te_ipv4 f \<and> \<not> te_ipv6 f
                  then Some (OGS_PFCP_CAUSE_MANDATORY_IE_INCORRECT, OGS_PFCP_F_TEID_TYPE)
                  else if \<not> te_ch f \<and> restore \<and> ogs_pfcp_object_find_by_teid (te_teid f) c \<noteq> None
                  then Some (OGS_PFCP_CAUSE_INVALID_F_TEID_ALLOCATION_OPTION, OGS_PFCP_F_TEID_TYPE)
                  else None)))"

definition bad_urr_id :: "u32 \<Rightarrow> bool" where
  "bad_urr_id i \<longleftrightarrow> \<not> (0 < i \<and> unat i \<le> OGS_MAX_NUM_OF_URR)"

text \<open>The F-TEID of a new rule; an element without octets is refused.\<close>

definition set_endpoint :: "nat \<Rightarrow> pdi \<Rightarrow> pfcp_ctx \<Rightarrow> (pfcp_ctx \<times> (u8 \<times> u8) option) exec" where
  "set_endpoint p m c =
     (let c = update_pdr p (\<lambda>d. d\<lparr>pdr_f_teid := zero_f_teid, pdr_f_teid_len := 0, pdr_chid := False,
                pdr_choose_id := 0\<rparr>) c
      in case pi_f_teid m of None \<Rightarrow> Ret (c, None)
         | Some oc \<Rightarrow>
             if oc_len oc = 0 then Ret (c, Some (OGS_PFCP_CAUSE_INVALID_LENGTH, OGS_PFCP_F_TEID_TYPE))
             else exec_bind (copy_over 25 (replicate 25 0) oc) (\<lambda>bs.
               let f = received_f_teid bs;
                   put = (\<lambda>f. update_pdr p (\<lambda>d. d\<lparr>pdr_f_teid := f, pdr_f_teid_len := min (oc_len oc) 25\<rparr>) c)
               in Ret (if \<not> te_ipv4 f \<and> \<not> te_ipv6 f
                       then (put (f\<lparr>te_teid := be32toh (te_teid f)\<rparr>),
                             Some (OGS_PFCP_CAUSE_INVALID_F_TEID_ALLOCATION_OPTION, OGS_PFCP_F_TEID_TYPE))
                       else (put f, None))))"

fun route_strings :: "octet list \<Rightarrow> string list exec" where
  "route_strings [] = Ret []"
| "route_strings (oc # ocs) =
     exec_bind (fetch oc 0 (oc_len oc)) (\<lambda>bs. exec_bind (route_strings ocs) (\<lambda>rs. Ret (c_string bs # rs)))"

definition new_routes :: "string list \<Rightarrow> string list option \<Rightarrow> string list option" where
  "new_routes rs old = (if rs = [] then map_option (\<lambda>_. []) old else Some rs)"

definition header_removal :: "octet option \<Rightarrow> u8 option \<Rightarrow> u8 option exec" where
  "header_removal m old =
     (case m of None \<Rightarrow> Ret old
      | Some oc \<Rightarrow> if oc_len oc = 0 then Ret None else exec_bind (fetch oc 0 1) (\<lambda>bs. Ret (Some (bs ! 0))))"

definition set_addresses :: "nat \<Rightarrow> tlv_create_pdr \<Rightarrow> pdi \<Rightarrow> pfcp_ctx \<Rightarrow> pfcp_ctx exec" where
  "set_addresses p m pi c =
     exec_bind (case pi_ue_ip pi of None \<Rightarrow> Ret None
       | Some oc \<Rightarrow> exec_bind (copy_over 21 (replicate 21 0) oc) (\<lambda>bs.
           Ret (if oc_len oc = 0 then None else Some (received_ue_ip bs)))) (\<lambda>ua.
     exec_bind (route_strings (take OGS_MAX_NUM_OF_FRAMED_ROUTES_IN_PDI (pi_routes4 pi))) (\<lambda>r4.
     exec_bind (route_strings (take OGS_MAX_NUM_OF_FRAMED_ROUTES_IN_PDI (pi_routes6 pi))) (\<lambda>r6.
     exec_bind (header_removal (cp_ohr m) None) (\<lambda>ohr.
     Ret (update_pdr p (\<lambda>d. d\<lparr>pdr_ue_ip := ua, pdr_routes4 := new_routes r4 (pdr_routes4 d),
            pdr_routes6 := new_routes r6 (pdr_routes6 d), pdr_ohr := ohr,
            pdr_qfi := (case pi_qfi pi of None \<Rightarrow> 0 | Some q \<Rightarrow> q)\<rparr>) c)))))"

fun set_urrs :: "nat \<Rightarrow> nat \<Rightarrow> u32 list \<Rightarrow> pfcp_ctx \<Rightarrow> (pfcp_ctx \<times> (u8 \<times> u8) option) exec" where
  "set_urrs s p [] c = Ret (c, None)"
| "set_urrs s p (i # is) c =
     (case ogs_pfcp_urr_find_or_add s (unat i) c of
        (c, None) \<Rightarrow> Ret (c, Some (OGS_PFCP_CAUSE_NO_RESOURCES_AVAILABLE, OGS_PFCP_URR_ID_TYPE))
      | (c, Some u) \<Rightarrow> exec_bind (ogs_pfcp_pdr_associate_urr p u c) (set_urrs s p is))"

definition set_far :: "nat \<Rightarrow> nat \<Rightarrow> u32 option \<Rightarrow> pfcp_ctx \<Rightarrow> pfcp_ctx \<times> (u8 \<times> u8) option" where
  "set_far s p fid c =
     (let c = update_pdr p (\<lambda>d. d\<lparr>pdr_far := None\<rparr>) c
      in case fid of None \<Rightarrow> (c, None)
         | Some i \<Rightarrow>
             (case ogs_pfcp_far_find_or_add s i c of
                (c, None) \<Rightarrow> (c, Some (OGS_PFCP_CAUSE_NO_RESOURCES_AVAILABLE, OGS_PFCP_FAR_ID_TYPE))
              | (c, Some x) \<Rightarrow> (ogs_pfcp_pdr_associate_far p x c, None)))"

definition set_qer :: "nat \<Rightarrow> nat \<Rightarrow> u32 option \<Rightarrow> pfcp_ctx \<Rightarrow> pfcp_ctx \<times> (u8 \<times> u8) option" where
  "set_qer s p qid c =
     (let c = update_pdr p (\<lambda>d. d\<lparr>pdr_qer := None\<rparr>) c
      in case qid of None \<Rightarrow> (c, None)
         | Some i \<Rightarrow>
             (case ogs_pfcp_qer_find_or_add s i c of
                (c, None) \<Rightarrow> (c, Some (OGS_PFCP_CAUSE_NO_RESOURCES_AVAILABLE, OGS_PFCP_QER_ID_TYPE))
              | (c, Some q) \<Rightarrow> (ogs_pfcp_pdr_associate_qer p q c, None)))"

text \<open>Steps of which each may refuse the rest.\<close>

type_synonym 'c attempt = "('c \<times> (u8 \<times> u8) option) exec"

definition and_then :: "'c attempt \<Rightarrow> ('c \<Rightarrow> 'c attempt) \<Rightarrow> 'c attempt" where
  "and_then m f = exec_bind m (\<lambda>(c, r). case r of None \<Rightarrow> f c | Some e \<Rightarrow> Ret (c, Some e))"

definition quietly :: "'c exec \<Rightarrow> 'c attempt" where
  "quietly m = exec_bind m (\<lambda>c. Ret (c, None))"

definition set_precedence :: "nat \<Rightarrow> u32 option \<Rightarrow> pfcp_ctx \<Rightarrow> pfcp_ctx" where
  "set_precedence p prec c =
     (case prec of None \<Rightarrow> c
      | Some n \<Rightarrow> update_pdr p (\<lambda>d. d\<lparr>pdr_precedence := n\<rparr>) (ogs_pfcp_pdr_reorder_by_precedence p n c))"

definition set_dnn :: "nat \<Rightarrow> octet option \<Rightarrow> string option \<Rightarrow> pfcp_ctx \<Rightarrow> pfcp_ctx exec" where
  "set_dnn p m old c =
     exec_bind (network_instance m old) (\<lambda>dnn. Ret (update_pdr p (\<lambda>d. d\<lparr>pdr_dnn := dnn\<rparr>) c))"

definition fill_pdr ::
  "handler_env \<Rightarrow> nat \<Rightarrow> nat \<Rightarrow> tlv_create_pdr \<Rightarrow> pdi \<Rightarrow> pfcp_ctx \<Rightarrow> pfcp_ctx attempt" where
  "fill_pdr env s p m pi c =
     and_then (quietly (set_source env s p pi (set_precedence p (cp_precedence m) c))) (\<lambda>c.
     and_then (quietly (set_dnn p (pi_dnn pi) None c)) (\<lambda>c.
     and_then (set_endpoint p pi c) (\<lambda>c.
     and_then (quietly (set_addresses p m pi c)) (\<lambda>c.
     and_then (Ret (set_far s p (cp_far_id m) c)) (\<lambda>c.
     and_then (set_urrs s p (cp_urr_ids m) (update_pdr p (\<lambda>d. d\<lparr>pdr_urr := []\<rparr>) c)) (\<lambda>c.
     Ret (set_qer s p (cp_qer_id m) c)))))))"

definition ended :: "'a \<Rightarrow> (u8 \<times> u8) option \<Rightarrow> 'a handled" where
  "ended x r = (case r of None \<Rightarrow> Done x | Some (cause, ie) \<Rightarrow> refuse cause ie)"

definition ogs_pfcp_handle_create_pdr ::
  "handler_env \<Rightarrow> bool \<Rightarrow> nat \<Rightarrow> tlv_create_pdr option \<Rightarrow> pfcp_ctx \<Rightarrow> (pfcp_ctx \<times> nat handled) exec" where
  "ogs_pfcp_handle_create_pdr env restore s message c =
     (case message of None \<Rightarrow> Ret (c, Absent)
      | Some m \<Rightarrow>
     (case cp_pdr_id m of
        None \<Rightarrow> Ret (c, refuse OGS_PFCP_CAUSE_MANDATORY_IE_MISSING OGS_PFCP_PDR_ID_TYPE)
      | Some i \<Rightarrow>
          if cp_far_id m = None then Ret (c, refuse OGS_PFCP_CAUSE_MANDATORY_IE_MISSING OGS_PFCP_FAR_ID_TYPE)
          else (case cp_pdi m of
            None \<Rightarrow> Ret (c, refuse OGS_PFCP_CAUSE_MANDATORY_IE_MISSING OGS_PFCP_PDI_TYPE)
          | Some pi \<Rightarrow>
              if pi_src_if pi = None
              then Ret (c, refuse OGS_PFCP_CAUSE_MANDATORY_IE_MISSING OGS_PFCP_SOURCE_INTERFACE_TYPE)
              else exec_bind (f_teid_refusal env restore pi c) (\<lambda>r.
                case r of Some (cause, ie) \<Rightarrow> Ret (c, refuse cause ie)
                | None \<Rightarrow>
                    if \<exists>u \<in> set (cp_urr_ids m). bad_urr_id u
                    then Ret (c, refuse OGS_PFCP_CAUSE_NO_RESOURCES_AVAILABLE OGS_PFCP_URR_ID_TYPE)
                    else exec_bind (ogs_pfcp_pdr_find_or_add s (ucast i) c) (\<lambda>(c, r).
                      case r of
                        None \<Rightarrow> Ret (c, refuse OGS_PFCP_CAUSE_NO_RESOURCES_AVAILABLE OGS_PFCP_PDR_ID_TYPE)
                      | Some p \<Rightarrow> exec_bind (fill_pdr env s p m pi c) (\<lambda>(c, r). Ret (c, ended p r)))))))"

text \<open>
  An update reads the F-TEID over the one the rule has, whose TEID is in host order: octets that
  the element does not have stay as they are in memory.
\<close>

definition update_endpoint :: "nat \<Rightarrow> octet option \<Rightarrow> pfcp_ctx \<Rightarrow> pfcp_ctx exec" where
  "update_endpoint p m c =
     (case m of None \<Rightarrow> Ret c
      | Some oc \<Rightarrow> exec_bind (copy_over 25 (f_teid_memory (pdr_f_teid (pc_pdr c p))) oc) (\<lambda>bs.
          Ret (update_pdr p (\<lambda>d. d\<lparr>pdr_f_teid := received_f_teid bs, pdr_f_teid_len := oc_len oc\<rparr>) c)))"

definition update_pdi :: "handler_env \<Rightarrow> nat \<Rightarrow> nat \<Rightarrow> pdi \<Rightarrow> pfcp_ctx \<Rightarrow> pfcp_ctx exec" where
  "update_pdi env s p m c =
     exec_bind (set_source env s p m c) (\<lambda>c.
     exec_bind (set_dnn p (pi_dnn m) (pdr_dnn (pc_pdr c p)) c) (\<lambda>c.
     exec_bind (update_endpoint p (pi_f_teid m) c) (\<lambda>c.
     Ret (update_pdr p (\<lambda>d. d\<lparr>pdr_qfi := (case pi_qfi m of None \<Rightarrow> pdr_qfi d | Some q \<Rightarrow> q)\<rparr>) c))))"

definition pdi_refusal :: "handler_env \<Rightarrow> pdi \<Rightarrow> pfcp_ctx \<Rightarrow> (u8 \<times> u8) option exec" where
  "pdi_refusal env m c =
     (if pi_src_if m = None then Ret (Some (OGS_PFCP_CAUSE_MANDATORY_IE_MISSING, OGS_PFCP_SOURCE_INTERFACE_TYPE))
      else f_teid_refusal env False m c)"

definition ogs_pfcp_handle_update_pdr ::
  "handler_env \<Rightarrow> nat \<Rightarrow> tlv_update_pdr option \<Rightarrow> pfcp_ctx \<Rightarrow> (pfcp_ctx \<times> nat handled) exec" where
  "ogs_pfcp_handle_update_pdr env s message c =
     (case message of None \<Rightarrow> Ret (c, Absent)
      | Some m \<Rightarrow>
     (case up_pdr_id m of
        None \<Rightarrow> Ret (c, refuse OGS_PFCP_CAUSE_MANDATORY_IE_MISSING OGS_PFCP_PDR_ID_TYPE)
      | Some i \<Rightarrow>
          (case ogs_pfcp_pdr_find s (ucast i) c of
             None \<Rightarrow> Ret (c, refuse OGS_PFCP_CAUSE_MANDATORY_IE_INCORRECT OGS_PFCP_PDR_ID_TYPE)
           | Some p \<Rightarrow>
               exec_bind (and_then
                 (case up_pdi m of None \<Rightarrow> Ret (c, None)
                  | Some pi \<Rightarrow> exec_bind (pdi_refusal env pi c) (\<lambda>r.
                      if r \<noteq> None then Ret (c, r) else quietly (update_pdi env s p pi c)))
                 (\<lambda>c. quietly (exec_bind (header_removal (up_ohr m) (pdr_ohr (pc_pdr c p)))
                        (\<lambda>ohr. Ret (update_pdr p (\<lambda>d. d\<lparr>pdr_ohr := ohr\<rparr>) c)))))
                 (\<lambda>(c, r). Ret (c, ended p r)))))"

text \<open>
  The shape of the handlers that look an object up by its identifier: an absent message, an
  absent identifier, an unknown one. A removal that fails does not set the offending element.
\<close>

definition find_for ::
  "('m \<Rightarrow> 'i option) \<Rightarrow> u8 \<Rightarrow> ('i \<Rightarrow> pfcp_ctx \<Rightarrow> nat option) \<Rightarrow> 'm option \<Rightarrow> pfcp_ctx \<Rightarrow>
     ('m \<Rightarrow> nat \<Rightarrow> (pfcp_ctx \<times> nat handled) exec) \<Rightarrow> u8 \<times> u8 option \<Rightarrow> (pfcp_ctx \<times> nat handled) exec" where
  "find_for id_of ie find_it message c f unknown =
     (case message of None \<Rightarrow> Ret (c, Absent)
      | Some m \<Rightarrow>
          (case id_of m of None \<Rightarrow> Ret (c, refuse OGS_PFCP_CAUSE_MANDATORY_IE_MISSING ie)
           | Some i \<Rightarrow>
               (case find_it i c of None \<Rightarrow> Ret (c, Refused (fst unknown) (snd unknown))
                | Some x \<Rightarrow> f m x)))"

definition not_found :: "u8 \<times> u8 option" where
  "not_found = (OGS_PFCP_CAUSE_SESSION_CONTEXT_NOT_FOUND, None)"

definition incorrect :: "u8 \<Rightarrow> u8 \<times> u8 option" where
  "incorrect ie = (OGS_PFCP_CAUSE_MANDATORY_IE_INCORRECT, Some ie)"

definition ogs_pfcp_handle_remove_pdr ::
  "nat \<Rightarrow> u16 option option \<Rightarrow> pfcp_ctx \<Rightarrow> (pfcp_ctx \<times> nat handled) exec" where
  "ogs_pfcp_handle_remove_pdr s message c =
     find_for id OGS_PFCP_PDR_ID_TYPE (\<lambda>i. ogs_pfcp_pdr_find s (ucast i)) message c
       (\<lambda>m p. Ret (ogs_pfcp_pdr_remove p c, Done p)) not_found"

section \<open>Forwarding action rules\<close>

text \<open>An outer header creation without octets fails an assertion.\<close>

definition received_ohc :: "octet option \<Rightarrow> u32 \<times> outer_header \<Rightarrow> (u32 \<times> outer_header) exec" where
  "received_ohc m old =
     (case m of None \<Rightarrow> Ret old
      | Some oc \<Rightarrow>
          if oc_len oc = 0 then Abort
          else exec_bind (copy_over 26 (outer_header_memory (fst old) (snd old)) oc)
            (\<lambda>bs. Ret (rd32 bs 2, received_outer_header bs)))"

definition set_forwarding :: "nat \<Rightarrow> tlv_forwarding option \<Rightarrow> pfcp_ctx \<Rightarrow> pfcp_ctx exec" where
  "set_forwarding x params c =
     (case params of None \<Rightarrow> Ret c
      | Some m \<Rightarrow>
          exec_bind (network_instance (fp_dnn m) (far_dnn (pc_far c x))) (\<lambda>dnn.
          exec_bind (received_ohc (fp_ohc m) (far_ohc_teid (pc_far c x), far_ohc (pc_far c x))) (\<lambda>(teid, ohc).
          Ret (update_far x (\<lambda>f. f\<lparr>far_dnn := dnn,
            far_dst_if := (case fp_dst_if m of None \<Rightarrow> far_dst_if f | Some i \<Rightarrow> i),
            far_dst_if_type := (case fp_dst_if_type m of None \<Rightarrow> far_dst_if_type f | Some i \<Rightarrow> Some i),
            far_ohc_teid := teid, far_ohc := ohc\<rparr>) c))))"

definition ogs_pfcp_handle_create_far ::
  "nat \<Rightarrow> tlv_far option \<Rightarrow> pfcp_ctx \<Rightarrow> (pfcp_ctx \<times> nat handled) exec" where
  "ogs_pfcp_handle_create_far s message c =
     find_for tf_far_id OGS_PFCP_FAR_ID_TYPE (ogs_pfcp_far_find s) message c (\<lambda>m x.
       case tf_apply_action m of
         None \<Rightarrow> Ret (c, refuse OGS_PFCP_CAUSE_MANDATORY_IE_MISSING OGS_PFCP_APPLY_ACTION_TYPE)
       | Some a \<Rightarrow>
           exec_bind (set_forwarding x (tf_params m)
             (update_far x (\<lambda>f. f\<lparr>far_dnn := None, far_apply_action := a, far_dst_if := 0, far_ohc_teid := 0,
                far_ohc := zero_outer_header\<rparr>) c))
             (\<lambda>c. Ret (c, Done x)))
       (incorrect OGS_PFCP_FAR_ID_TYPE)"

definition ogs_pfcp_handle_update_far_flags ::
  "nat \<Rightarrow> tlv_far option \<Rightarrow> pfcp_ctx \<Rightarrow> (pfcp_ctx \<times> nat handled) exec" where
  "ogs_pfcp_handle_update_far_flags s message c =
     find_for tf_far_id OGS_PFCP_FAR_ID_TYPE (ogs_pfcp_far_find s) message c (\<lambda>m x.
       Ret (case tf_params m of None \<Rightarrow> c
            | Some fp \<Rightarrow> (case fp_smreq_flags fp of None \<Rightarrow> c
                | Some b \<Rightarrow> update_far x (\<lambda>f. f\<lparr>far_smreq_flags := b\<rparr>) c), Done x))
       (incorrect OGS_PFCP_FAR_ID_TYPE)"

definition ogs_pfcp_handle_update_far ::
  "nat \<Rightarrow> tlv_far option \<Rightarrow> pfcp_ctx \<Rightarrow> (pfcp_ctx \<times> nat handled) exec" where
  "ogs_pfcp_handle_update_far s message c =
     find_for tf_far_id OGS_PFCP_FAR_ID_TYPE (ogs_pfcp_far_find s) message c (\<lambda>m x.
       exec_bind (set_forwarding x (tf_params m)
         (update_far x (\<lambda>f. f\<lparr>far_apply_action :=
            (case tf_apply_action m of None \<Rightarrow> far_apply_action f | Some a \<Rightarrow> a)\<rparr>) c))
         (\<lambda>c. Ret (c, Done x)))
       (incorrect OGS_PFCP_FAR_ID_TYPE)"

definition ogs_pfcp_handle_remove_far ::
  "nat \<Rightarrow> u32 option option \<Rightarrow> pfcp_ctx \<Rightarrow> (pfcp_ctx \<times> nat handled) exec" where
  "ogs_pfcp_handle_remove_far s message c =
     find_for id OGS_PFCP_FAR_ID_TYPE (ogs_pfcp_far_find s) message c
       (\<lambda>m x. Ret (ogs_pfcp_far_remove x c, Done x)) not_found"

section \<open>QoS enforcement rules\<close>

definition update_qer :: "nat \<Rightarrow> (pfcp_qer \<Rightarrow> pfcp_qer) \<Rightarrow> pfcp_ctx \<Rightarrow> pfcp_ctx" where
  "update_qer q f c = c\<lparr>pc_qer := (pc_qer c)(q := f (pc_qer c q))\<rparr>"

definition set_rate ::
  "octet option \<Rightarrow> u8 \<Rightarrow> (pfcp_qer \<Rightarrow> bitrate) \<Rightarrow> (bitrate \<Rightarrow> pfcp_qer \<Rightarrow> pfcp_qer) \<Rightarrow> nat \<Rightarrow> pfcp_ctx \<Rightarrow> pfcp_ctx attempt" where
  "set_rate m ie old put q c =
     (case m of None \<Rightarrow> Ret (c, None)
      | Some oc \<Rightarrow> exec_bind (ogs_pfcp_parse_bitrate (old (pc_qer c q)) oc) (\<lambda>(r, n).
          Ret (update_qer q (put r) c,
               if n \<noteq> OGS_PFCP_BITRATE_LEN then Some (OGS_PFCP_CAUSE_INVALID_LENGTH, ie) else None)))"

definition set_rates :: "tlv_qer \<Rightarrow> nat \<Rightarrow> pfcp_ctx \<Rightarrow> pfcp_ctx attempt" where
  "set_rates m q c =
     and_then (set_rate (tq_mbr m) OGS_PFCP_MBR_TYPE qer_mbr (\<lambda>r d. d\<lparr>qer_mbr := r\<rparr>) q c)
       (set_rate (tq_gbr m) OGS_PFCP_GBR_TYPE qer_gbr (\<lambda>r d. d\<lparr>qer_gbr := r\<rparr>) q)"

definition ogs_pfcp_handle_create_qer ::
  "nat \<Rightarrow> tlv_qer option \<Rightarrow> pfcp_ctx \<Rightarrow> (pfcp_ctx \<times> nat handled) exec" where
  "ogs_pfcp_handle_create_qer s message c =
     find_for tq_qer_id OGS_PFCP_QER_ID_TYPE (ogs_pfcp_qer_find s) message c (\<lambda>m q.
       case tq_gate_status m of
         None \<Rightarrow> Ret (c, refuse OGS_PFCP_CAUSE_MANDATORY_IE_MISSING OGS_PFCP_APPLY_ACTION_TYPE)
       | Some g \<Rightarrow>
           exec_bind (and_then
             (set_rates m q (update_qer q (\<lambda>d. d\<lparr>qer_gate_status := g,
                qer_mbr := qer_mbr zero_qer, qer_gbr := qer_gbr zero_qer\<rparr>) c))
             (\<lambda>c. Ret (update_qer q (\<lambda>d. d\<lparr>qer_qfi := (case tq_qfi m of None \<Rightarrow> 0 | Some x \<Rightarrow> x)\<rparr>) c, None)))
             (\<lambda>(c, r). Ret (c, ended q r)))
       (incorrect OGS_PFCP_QER_ID_TYPE)"

definition ogs_pfcp_handle_update_qer ::
  "nat \<Rightarrow> tlv_qer option \<Rightarrow> pfcp_ctx \<Rightarrow> (pfcp_ctx \<times> nat handled) exec" where
  "ogs_pfcp_handle_update_qer s message c =
     find_for tq_qer_id OGS_PFCP_QER_ID_TYPE (ogs_pfcp_qer_find s) message c (\<lambda>m q.
       exec_bind (set_rates m q c) (\<lambda>(c, r). Ret (c, ended q r)))
       (incorrect OGS_PFCP_QER_ID_TYPE)"

definition ogs_pfcp_handle_remove_qer ::
  "nat \<Rightarrow> u32 option option \<Rightarrow> pfcp_ctx \<Rightarrow> (pfcp_ctx \<times> nat handled) exec" where
  "ogs_pfcp_handle_remove_qer s message c =
     find_for id OGS_PFCP_QER_ID_TYPE (ogs_pfcp_qer_find s) message c
       (\<lambda>m q. Ret (ogs_pfcp_qer_remove q c, Done q)) not_found"

section \<open>The buffering action rule\<close>

definition ogs_pfcp_handle_create_bar ::
  "nat \<Rightarrow> u8 option option \<Rightarrow> pfcp_ctx \<Rightarrow> (pfcp_ctx \<times> nat handled) exec" where
  "ogs_pfcp_handle_create_bar s message c =
     (case message of None \<Rightarrow> Ret (c, Absent)
      | Some None \<Rightarrow> Ret (c, refuse OGS_PFCP_CAUSE_MANDATORY_IE_MISSING OGS_PFCP_BAR_ID_TYPE)
      | Some (Some i) \<Rightarrow>
          exec_bind (case ps_bar (pc_sess c s) of None \<Rightarrow> Ret c | Some b \<Rightarrow> ogs_pfcp_bar_delete b c) (\<lambda>c.
          exec_bind (ogs_pfcp_bar_new s c) (\<lambda>(c, b).
          Ret (c\<lparr>pc_bar := (pc_bar c)(b := (pc_bar c b)\<lparr>bar_id := i\<rparr>)\<rparr>, Done b))))"

definition ogs_pfcp_handle_remove_bar ::
  "nat \<Rightarrow> u8 option option \<Rightarrow> pfcp_ctx \<Rightarrow> (pfcp_ctx \<times> nat handled) exec" where
  "ogs_pfcp_handle_remove_bar s message c =
     (case message of None \<Rightarrow> Ret (c, Absent)
      | Some None \<Rightarrow> Ret (c, refuse OGS_PFCP_CAUSE_MANDATORY_IE_MISSING OGS_PFCP_BAR_ID_TYPE)
      | Some (Some i) \<Rightarrow>
          (case ps_bar (pc_sess c s) of
             None \<Rightarrow> Ret (c, Refused OGS_PFCP_CAUSE_SESSION_CONTEXT_NOT_FOUND None)
           | Some b \<Rightarrow>
               if bar_id (pc_bar c b) = i then exec_bind (ogs_pfcp_bar_delete b c) (\<lambda>c. Ret (c, Done b))
               else Ret (c, Refused OGS_PFCP_CAUSE_SESSION_CONTEXT_NOT_FOUND None)))"

section \<open>Usage reporting rules\<close>

definition update_urr :: "nat \<Rightarrow> (pfcp_urr_obj \<Rightarrow> pfcp_urr_obj) \<Rightarrow> pfcp_ctx \<Rightarrow> pfcp_ctx" where
  "update_urr u f c = c\<lparr>pc_urr := (pc_urr c)(u := f (pc_urr c u))\<rparr>"

definition with_urr :: "(ogs_pfcp_urr \<Rightarrow> ogs_pfcp_urr) \<Rightarrow> pfcp_urr_obj \<Rightarrow> pfcp_urr_obj" where
  "with_urr f d = d\<lparr>uo_urr := f (uo_urr d)\<rparr>"

definition default :: "'a \<Rightarrow> 'a option \<Rightarrow> 'a" where "default x r = (case r of None \<Rightarrow> x | Some y \<Rightarrow> y)"

text \<open>The bits of the measurement method, and the element that start measuring sets.\<close>

definition by_duration :: "u8 \<Rightarrow> bool" where "by_duration b \<longleftrightarrow> bit b 0"

definition by_volume :: "u8 \<Rightarrow> bool" where "by_volume b \<longleftrightarrow> bit b 1"

definition by_event :: "u8 \<Rightarrow> bool" where "by_event b \<longleftrightarrow> bit b 2"

definition meas_info_istm :: "u8 \<Rightarrow> bool" where "meas_info_istm b \<longleftrightarrow> bit b 3"

definition when_method :: "(u8 \<Rightarrow> bool) \<Rightarrow> nat \<Rightarrow> 'a option \<Rightarrow> pfcp_ctx \<Rightarrow> 'a option" where
  "when_method has u m c = (if has (uo_meas_method (pc_urr c u)) then m else None)"

definition set_volume ::
  "(volume_limit \<Rightarrow> ogs_pfcp_urr \<Rightarrow> ogs_pfcp_urr) \<Rightarrow> u8 \<Rightarrow> nat \<Rightarrow> octet option \<Rightarrow> pfcp_ctx \<Rightarrow> pfcp_ctx attempt" where
  "set_volume put ie u m c =
     (case m of None \<Rightarrow> Ret (c, None)
      | Some oc \<Rightarrow> exec_bind (ogs_pfcp_parse_volume oc) (\<lambda>(v, n).
          Ret (update_urr u (with_urr (put (limit_of v))) c,
               if decoded_all oc n then None else Some (OGS_PFCP_CAUSE_MANDATORY_IE_INCORRECT, ie))))"

definition set_dropped_dl :: "nat \<Rightarrow> octet option \<Rightarrow> pfcp_ctx \<Rightarrow> pfcp_ctx attempt" where
  "set_dropped_dl u m c =
     (case m of None \<Rightarrow> Ret (c, None)
      | Some oc \<Rightarrow> exec_bind (ogs_pfcp_parse_dropped_dl_traffic_threshold oc) (\<lambda>(t, n).
          Ret (update_urr u (\<lambda>d. d\<lparr>uo_dropped_dl_threshold := t\<rparr>) c,
               if decoded_all oc n then None
               else Some (OGS_PFCP_CAUSE_MANDATORY_IE_INCORRECT, OGS_PFCP_DROPPED_DL_TRAFFIC_THRESHOLD_TYPE))))"

definition set_counts :: "tlv_urr \<Rightarrow> nat \<Rightarrow> pfcp_ctx \<Rightarrow> pfcp_ctx" where
  "set_counts m u c =
     update_urr u (\<lambda>d. with_urr (\<lambda>r. r\<lparr>
         urr_time_threshold := default (urr_time_threshold r) (when_method by_duration u (tu_time_threshold m) c),
         urr_time_quota := default (urr_time_quota r) (when_method by_duration u (tu_time_quota m) c)\<rparr>)
       (d\<lparr>uo_event_threshold := default (uo_event_threshold d) (when_method by_event u (tu_event_threshold m) c),
          uo_event_quota := default (uo_event_quota d) (when_method by_event u (tu_event_quota m) c),
          uo_quota_holding_time := default (uo_quota_holding_time d) (tu_quota_holding_time m)\<rparr>)) c"

definition set_meas_info :: "tlv_urr \<Rightarrow> nat \<Rightarrow> pfcp_ctx \<Rightarrow> pfcp_ctx exec" where
  "set_meas_info m u c =
     (let c = update_urr u (with_urr (\<lambda>r. r\<lparr>urr_quota_validity_time :=
                default (urr_quota_validity_time r) (tu_quota_validity_time m)\<rparr>)) c
      in case tu_meas_info m of None \<Rightarrow> Ret c
         | Some oc \<Rightarrow>
             if oc_len oc < 1 then Ret c
             else exec_bind (fetch oc 0 1) (\<lambda>bs. Ret (update_urr u (\<lambda>d. d\<lparr>uo_meas_info := bs ! 0\<rparr>) c)))"

text \<open>What creation and update do alike, after the method and the triggers.\<close>

definition set_limits :: "tlv_urr \<Rightarrow> nat \<Rightarrow> pfcp_ctx \<Rightarrow> pfcp_ctx attempt" where
  "set_limits m u c =
     (let c = update_urr u (\<lambda>d. d\<lparr>uo_meas_period := default (uo_meas_period d) (tu_meas_period m)\<rparr>) c in
      and_then (set_volume (\<lambda>v r. r\<lparr>urr_vol_threshold := v\<rparr>) OGS_PFCP_VOLUME_THRESHOLD_TYPE u
                  (when_method by_volume u (tu_vol_threshold m) c) c) (\<lambda>c.
      and_then (set_volume (\<lambda>v r. r\<lparr>urr_vol_quota := v\<rparr>) OGS_PFCP_VOLUME_QUOTA_TYPE u
                  (when_method by_volume u (tu_vol_quota m) c) c) (\<lambda>c.
      and_then (set_dropped_dl u (tu_dropped_dl m) (set_counts m u c)) (\<lambda>c.
      quietly (set_meas_info m u c)))))"

definition ogs_pfcp_handle_create_urr ::
  "nat \<Rightarrow> tlv_urr option \<Rightarrow> pfcp_ctx \<Rightarrow> (pfcp_ctx \<times> nat handled) exec" where
  "ogs_pfcp_handle_create_urr s message c =
     find_for tu_urr_id OGS_PFCP_URR_ID_TYPE (\<lambda>i. ogs_pfcp_urr_find s (unat i)) message c (\<lambda>m u.
       case tu_meas_method m of
         None \<Rightarrow> Ret (c, refuse OGS_PFCP_CAUSE_MANDATORY_IE_MISSING OGS_PFCP_MEASUREMENT_METHOD_TYPE)
       | Some b \<Rightarrow>
           (case tu_rep_triggers m of
              None \<Rightarrow> Ret (c, refuse OGS_PFCP_CAUSE_MANDATORY_IE_MISSING OGS_PFCP_REPORTING_TRIGGERS_TYPE)
            | Some u24 \<Rightarrow>
                exec_bind (set_limits m u (update_urr u (\<lambda>d. with_urr (\<lambda>r. r\<lparr>urr_rep_triggers :=
                    triggers_of (ucast (drop_bit 16 u24)) (ucast (drop_bit 8 u24))\<rparr>)
                    (d\<lparr>uo_meas_method := b\<rparr>)) c))
                  (\<lambda>(c, r). Ret (c, ended u r))))
       (incorrect OGS_PFCP_URR_ID_TYPE)"

text \<open>An update takes the octets of the triggers in the opposite order.\<close>

definition ogs_pfcp_handle_update_urr ::
  "nat \<Rightarrow> tlv_urr option \<Rightarrow> pfcp_ctx \<Rightarrow> (pfcp_ctx \<times> nat handled) exec" where
  "ogs_pfcp_handle_update_urr s message c =
     find_for tu_urr_id OGS_PFCP_URR_ID_TYPE (\<lambda>i. ogs_pfcp_urr_find s (unat i)) message c (\<lambda>m u.
       exec_bind (set_limits m u (update_urr u (\<lambda>d. with_urr (\<lambda>r. r\<lparr>urr_rep_triggers :=
           (case tu_rep_triggers m of None \<Rightarrow> urr_rep_triggers r
            | Some u24 \<Rightarrow> triggers_of (ucast u24) (ucast (drop_bit 8 u24)))\<rparr>)
           (d\<lparr>uo_meas_method := default (uo_meas_method d) (tu_meas_method m)\<rparr>)) c))
         (\<lambda>(c, r). Ret (c, ended u r)))
       (incorrect OGS_PFCP_URR_ID_TYPE)"

definition ogs_pfcp_handle_remove_urr ::
  "nat \<Rightarrow> u32 option option \<Rightarrow> pfcp_ctx \<Rightarrow> (pfcp_ctx \<times> nat handled) exec" where
  "ogs_pfcp_handle_remove_urr s message c =
     find_for id OGS_PFCP_URR_ID_TYPE (\<lambda>i. ogs_pfcp_urr_find s (unat i)) message c
       (\<lambda>m u. Ret (ogs_pfcp_urr_remove u c, Done u)) not_found"

end
