(* ===== verification/Pfcp_Invariant.thy ===== *)
theory Pfcp_Invariant
  imports Pfcp_Handler
begin

text \<open>
  The invariant of the PFCP objects of all sessions and what the operations on one session leave
  alone: ownership of the objects in their pools, the tables, and the frame of a request.
\<close>

section \<open>Partial correctness of runs\<close>

text \<open>If the run returns, the result has the property.\<close>

definition runs :: "'a exec \<Rightarrow> ('a \<Rightarrow> bool) \<Rightarrow> bool" where
  "runs m Q \<longleftrightarrow> (\<forall>x. m = Ret x \<longrightarrow> Q x)"

lemma runs_Ret [simp]: "runs (Ret x) Q \<longleftrightarrow> Q x"
  by (simp add: runs_def)

lemma runs_Abort [simp]: "runs Abort Q"
  by (simp add: runs_def)

lemma runs_D: "runs m Q \<Longrightarrow> m = Ret x \<Longrightarrow> Q x"
  by (simp add: runs_def)

lemma runs_I: "(\<And>x. m = Ret x \<Longrightarrow> Q x) \<Longrightarrow> runs m Q"
  by (simp add: runs_def)

lemma runs_weaken: "runs m P \<Longrightarrow> (\<And>x. P x \<Longrightarrow> Q x) \<Longrightarrow> runs m Q"
  by (simp add: runs_def)

lemma runs_bind: "runs m P \<Longrightarrow> (\<And>x. P x \<Longrightarrow> runs (f x) Q) \<Longrightarrow> runs (exec_bind m f) Q"
  by (auto simp: runs_def)

lemma runs_then: "(\<And>x. m = Ret x \<Longrightarrow> runs (f x) Q) \<Longrightarrow> runs (exec_bind m f) Q"
  by (auto simp: runs_def)

section \<open>Objects of one kind\<close>

text \<open>
  The objects of one kind, in the pool they share: each session has a list of them, owns them
  and has an identifier from a pool of its own for each. Every object in use is in a list: none
  is lost.
\<close>

definition kind_ok ::
  "ogs_pool \<Rightarrow> (nat \<Rightarrow> nat list) \<Rightarrow> (nat \<Rightarrow> nat) \<Rightarrow> (nat \<Rightarrow> nat) \<Rightarrow> (nat \<Rightarrow> ogs_pool) \<Rightarrow> bool" where
  "kind_ok pool lst own idn ids \<longleftrightarrow>
     pool_ok pool \<and> allocated pool = (\<Union>s. set (lst s)) \<and> (\<forall>s. objs_ok (lst s) pool idn (ids s) \<and> (\<forall>n \<in> set (lst s). own n = s))"

lemma kind_okD:
  assumes "kind_ok pool lst own idn ids"
  shows "pool_ok pool" "objs_ok (lst s) pool idn (ids s)" "n \<in> set (lst s) \<Longrightarrow> own n = s"
    "distinct (lst s)" "n \<in> set (lst s) \<Longrightarrow> n \<in> allocated pool" "allocated pool = (\<Union>s. set (lst s))"
  using assms by (auto simp: kind_ok_def objs_ok_def)

lemma kind_disjoint:
  "kind_ok pool lst own idn ids \<Longrightarrow> n \<in> set (lst s) \<Longrightarrow> n \<in> set (lst r) \<Longrightarrow> r = s"
  using kind_okD(3) [of pool lst own idn ids n] by blast

lemma objs_ok_sub:
  assumes "objs_ok ns pool idn ids" "pool_ok pool'" "set ns \<subseteq> allocated pool'" "\<And>m. m \<in> set ns \<Longrightarrow> idn' m = idn m"
  shows "objs_ok ns pool' idn' ids"
proof -
  have "map idn' ns = map idn ns" "idn' ` set ns = idn ` set ns" using assms(4) by auto
  with assms(1-3) show ?thesis unfolding objs_ok_def by argo
qed

lemma kind_ok_add:
  assumes k: "kind_ok pool lst own idn ids" and a: "ogs_pool_alloc pool = (pool', Some n)"
    and i: "ogs_pool_alloc (ids s) = (ids1, Some i)"
    and "\<And>r. lst' r = (if r = s then lst s @ [n] else lst r)" "\<And>r. ids' r = (if r = s then ids1 else ids r)"
    and "own' n = s" "idn' n = i" "\<And>m. m \<noteq> n \<Longrightarrow> own' m = own m \<and> idn' m = idn m"
  shows "kind_ok pool' lst' own' idn' ids'"
proof -
  note p = pool.acquire_Some [OF kind_okD(1) [OF k] a]
  have "objs_ok (lst' r) pool' idn' (ids' r) \<and> (\<forall>m \<in> set (lst' r). own' m = r)" for r
  proof (cases "r = s")
    case True
    have "objs_ok (lst s @ [n]) pool' idn' ids1"
      by (rule objs_ok_add [OF kind_okD(2) [OF k] a i]) (use assms(7,8) in auto)
    moreover have "own' m = s" if "m \<in> set (lst s @ [n])" for m
      using that assms(6,8) kind_okD(3) [OF k] by (cases "m = n") auto
    ultimately show ?thesis using True assms(4,5) by simp
  next
    case False
    have n: "m \<noteq> n" if "m \<in> set (lst r)" for m using that p kind_okD(5) [OF k] by blast
    have "objs_ok (lst r) pool' idn' (ids r)"
      by (rule objs_ok_sub [OF kind_okD(2) [OF k]]) (use p n assms(8) kind_okD(5) [OF k, of _ r] in auto)
    with False show ?thesis using n assms(4,5,8) kind_okD(3) [OF k, of _ r] by auto
  qed
  moreover have "(\<Union>r. set (lst' r)) = insert n (\<Union>r. set (lst r))"
    unfolding assms(4) by (auto split: if_splits)
  ultimately show ?thesis using p kind_okD(6) [OF k] by (simp add: kind_ok_def)
qed

lemma kind_ok_remove:
  assumes k: "kind_ok pool lst own idn ids" and n: "n \<in> set (lst s)"
    and "\<And>r. lst' r = (if r = s then remove1 n (lst s) else lst r)"
      "\<And>r. ids' r = (if r = s then ogs_pool_free (ids s) (idn n) else ids r)"
    and "\<And>m. own' m = own m" "\<And>m. idn' m = idn m"
  shows "kind_ok (ogs_pool_free pool n) lst' own' idn' ids'"
proof -
  have e: "own' = own" "idn' = idn" using assms(5,6) by auto
  note f = free_allocated [OF kind_okD(1) [OF k] kind_okD(5) [OF k n]]
  have "objs_ok (lst' r) (ogs_pool_free pool n) idn (ids' r) \<and> (\<forall>m \<in> set (lst' r). own m = r)" for r
  proof (cases "r = s")
    case True
    have "objs_ok (remove1 n (lst s)) (ogs_pool_free pool n) idn (ogs_pool_free (ids s) (idn n))"
      by (rule objs_ok_remove(1) [OF kind_okD(2) [OF k] n]) simp
    then show ?thesis using True assms(3,4) kind_okD(3) [OF k, of _ s] by (auto dest: notin_set_remove1)
  next
    case False
    have "n \<notin> set (lst r)" using kind_disjoint [OF k n] False by blast
    then have "objs_ok (lst r) (ogs_pool_free pool n) idn (ids r)"
      using kind_okD(2) [OF k, of r] f by (auto simp: objs_ok_def)
    with False show ?thesis using assms(3,4) kind_okD(3) [OF k, of _ r] by simp
  qed
  moreover have "(\<Union>r. set (lst' r)) = (\<Union>r. set (lst r)) - {n}"
    using kind_okD(4) [OF k, of s] kind_disjoint [OF k n] unfolding assms(3) by (auto split: if_splits)
  ultimately show ?thesis using f kind_okD(6) [OF k] by (simp add: kind_ok_def e)
qed

lemma kind_ok_perm:
  assumes k: "kind_ok pool lst own idn ids" and m: "\<And>r. mset (lst' r) = mset (lst r)"
    and "\<And>r. ids' r = ids r" "\<And>n. own' n = own n" "\<And>n. idn' n = idn n"
  shows "kind_ok pool lst' own' idn' ids'"
proof -
  have e: "ids' = ids" "own' = own" "idn' = idn" using assms(3-5) by auto
  have s: "set (lst' r) = set (lst r)" for r using m [of r] by (metis set_mset_mset)
  have d: "distinct (lst' r) = distinct (lst r)" for r using m [of r] by (rule mset_eq_imp_distinct_iff)
  have "mset (map idn (lst' r)) = mset (map idn (lst r))" for r by (simp add: m)
  then have "distinct (map idn (lst' r)) = distinct (map idn (lst r))" for r by (rule mset_eq_imp_distinct_iff)
  with k s d show ?thesis by (auto simp: kind_ok_def objs_ok_def e)
qed

text \<open>Fields of the objects other than the owner and the identifier node do not matter.\<close>

lemma kind_ok_same:
  assumes "kind_ok pool lst own idn ids" "\<And>n. own' n = own n" "\<And>n. idn' n = idn n"
  shows "kind_ok pool lst own' idn' ids"
proof -
  have "own' = own" "idn' = idn" using assms(2,3) by auto
  with assms(1) show ?thesis by simp
qed

lemma alloc_none:
  assumes "pool_ok p" "ogs_pool_alloc p = (q, None)"
  shows "q = p"
  using alloc_None_iff [OF assms(1)] alloc_None [of p] assms(2) by simp

text \<open>
  An object that finds no identifier goes back to its pool. The pool has the same nodes in use
  as before, in whatever order the free ones are.
\<close>

lemma kind_ok_alloc_free:
  assumes k: "kind_ok pool lst own idn ids" and a: "ogs_pool_alloc pool = (pool', Some n)"
    and "\<And>m. m \<noteq> n \<Longrightarrow> own' m = own m \<and> idn' m = idn m"
  shows "kind_ok (ogs_pool_free pool' n) lst own' idn' ids"
proof -
  note p = pool.acquire_Some [OF kind_okD(1) [OF k] a]
  have "n \<in> allocated pool'" "pool_ok pool'" using p by auto
  note f = free_allocated [OF this(2,1)]
  have al: "allocated (ogs_pool_free pool' n) = allocated pool" using f p by auto
  have n: "m \<noteq> n" if "m \<in> set (lst r)" for m r using that p kind_okD(5) [OF k] by blast
  have "objs_ok (lst r) (ogs_pool_free pool' n) idn' (ids r)" for r
    by (rule objs_ok_sub [OF kind_okD(2) [OF k]]) (use f(1) al n assms(3) kind_okD(5) [OF k, of _ r] in auto)
  moreover have "own' m = r" if "m \<in> set (lst r)" for m r using that n assms(3) kind_okD(3) [OF k] by simp
  ultimately show ?thesis using f al kind_okD(6) [OF k] by (simp add: kind_ok_def)
qed

section \<open>The invariant\<close>

definition pdr_objs :: "pfcp_ctx \<Rightarrow> bool" where
  "pdr_objs c \<longleftrightarrow> kind_ok (pc_pdr_pool c) (pdrs_of c) (\<lambda>p. pdr_sess (pc_pdr c p)) (\<lambda>p. pdr_id_node (pc_pdr c p))
     (\<lambda>s. ps_pdr_ids (pc_sess c s))"

definition fars_of :: "pfcp_ctx \<Rightarrow> nat \<Rightarrow> nat list" where "fars_of c s = ps_far_list (pc_sess c s)"

definition far_objs :: "pfcp_ctx \<Rightarrow> bool" where
  "far_objs c \<longleftrightarrow> kind_ok (pc_far_pool c) (fars_of c) (\<lambda>x. far_sess (pc_far c x)) (\<lambda>x. far_id_node (pc_far c x))
     (\<lambda>s. ps_far_ids (pc_sess c s))"

definition urrs_of :: "pfcp_ctx \<Rightarrow> nat \<Rightarrow> nat list" where "urrs_of c s = ps_urr_list (pc_sess c s)"

definition urr_objs :: "pfcp_ctx \<Rightarrow> bool" where
  "urr_objs c \<longleftrightarrow> kind_ok (pc_urr_pool c) (urrs_of c) (\<lambda>u. uo_sess (pc_urr c u)) (\<lambda>u. uo_id_node (pc_urr c u))
     (\<lambda>s. ps_urr_ids (pc_sess c s))"

definition qers_of :: "pfcp_ctx \<Rightarrow> nat \<Rightarrow> nat list" where "qers_of c s = ps_qer_list (pc_sess c s)"

definition qer_objs :: "pfcp_ctx \<Rightarrow> bool" where
  "qer_objs c \<longleftrightarrow> kind_ok (pc_qer_pool c) (qers_of c) (\<lambda>q. qer_sess (pc_qer c q)) (\<lambda>q. qer_id_node (pc_qer c q))
     (\<lambda>s. ps_qer_ids (pc_sess c s))"

text \<open>The TEID nodes of all rules differ and are in use.\<close>

definition teid_nodes :: "pfcp_ctx \<Rightarrow> bool" where
  "teid_nodes c \<longleftrightarrow> pool_ok (pc_teid_pool c) \<and>
     (\<forall>s. \<forall>p \<in> set (pdrs_of c s). pdr_teid_node (pc_pdr c p) \<in> allocated (pc_teid_pool c) \<and>
        (\<forall>r. \<forall>q \<in> set (pdrs_of c r). pdr_teid_node (pc_pdr c q) = pdr_teid_node (pc_pdr c p) \<longrightarrow> q = p))"

definition bar_objs :: "pfcp_ctx \<Rightarrow> bool" where
  "bar_objs c \<longleftrightarrow> pool_ok (pc_bar_pool c) \<and> allocated (pc_bar_pool c) \<subseteq> {b. \<exists>s. ps_bar (pc_sess c s) = Some b} \<and>
     (\<forall>s. pool_ok (ps_bar_ids (pc_sess c s)) \<and>
        (\<forall>b. ps_bar (pc_sess c s) = Some b \<longrightarrow> bar_sess (pc_bar c b) = Some s \<and> b \<in> allocated (pc_bar_pool c) \<and>
           bar_id_node (pc_bar c b) \<in> allocated (ps_bar_ids (pc_sess c s))))"

text \<open>The flow rules of a PDR are its own, whether a session has the PDR or not.\<close>

definition rule_objs :: "pfcp_ctx \<Rightarrow> bool" where
  "rule_objs c \<longleftrightarrow> pool_ok (pc_rule_pool c) \<and>
     (\<forall>p. distinct (pdr_rules (pc_pdr c p)) \<and>
        (\<forall>l \<in> set (pdr_rules (pc_pdr c p)). l \<in> allocated (pc_rule_pool c) \<and> rl_pdr (pc_rule c l) = p))"

text \<open>
  The TEIDs of the user plane function designate sessions. The table of the F-TEIDs of the
  peers designates FARs of sessions, under the key the FAR remembers.
\<close>

definition teid_table :: "pfcp_ctx \<Rightarrow> bool" where
  "teid_table c \<longleftrightarrow> hash_ok (pc_object_hash c) \<and>
     (\<forall>t obj. ogs_pfcp_object_find_by_teid t c = Some obj \<longrightarrow> (\<exists>n. obj = Obj_Sess n))"

definition peer_table :: "pfcp_ctx \<Rightarrow> bool" where
  "peer_table c \<longleftrightarrow> hash_ok (pc_far_f_teid_hash c) \<and>
     (\<forall>k x. hash_get (pc_far_f_teid_hash c) k = Some x \<longrightarrow>
        far_hash_f_teid (pc_far c x) = Some k \<and> (\<exists>s. x \<in> set (fars_of c s)))"

definition pfcp_ok :: "pfcp_ctx \<Rightarrow> bool" where
  "pfcp_ok c \<longleftrightarrow> pdr_objs c \<and> teid_nodes c \<and> far_objs c \<and> urr_objs c \<and> qer_objs c \<and> bar_objs c \<and>
     rule_objs c \<and> teid_table c \<and> peer_table c"

lemma pfcp_okI [intro]:
  assumes "pdr_objs c" "teid_nodes c" "far_objs c" "urr_objs c" "qer_objs c" "bar_objs c" "rule_objs c"
    "teid_table c" "peer_table c"
  shows "pfcp_ok c"
  using assms by (simp add: pfcp_ok_def)

lemma pfcp_okD:
  assumes "pfcp_ok c"
  shows "pdr_objs c" "teid_nodes c" "far_objs c" "urr_objs c" "qer_objs c" "bar_objs c" "rule_objs c"
    "teid_table c" "peer_table c"
  using assms by (simp_all add: pfcp_ok_def)

lemmas pfcp_parts = pdr_objs_def far_objs_def urr_objs_def qer_objs_def teid_nodes_def bar_objs_def
  rule_objs_def teid_table_def peer_table_def

subsection \<open>What the parts depend on\<close>

lemma pdr_objs_cong:
  assumes "\<And>s. pdrs_of c' s = pdrs_of c s" "\<And>s. ps_pdr_ids (pc_sess c' s) = ps_pdr_ids (pc_sess c s)"
    and "\<And>p. pdr_sess (pc_pdr c' p) = pdr_sess (pc_pdr c p)" "\<And>p. pdr_id_node (pc_pdr c' p) = pdr_id_node (pc_pdr c p)"
    and "pc_pdr_pool c' = pc_pdr_pool c"
  shows "pdr_objs c' \<longleftrightarrow> pdr_objs c"
proof -
  have "pdrs_of c' = pdrs_of c" using assms(1) by auto
  then show ?thesis by (simp add: pdr_objs_def assms(2-))
qed

lemma far_objs_cong:
  assumes "\<And>s. fars_of c' s = fars_of c s" "\<And>s. ps_far_ids (pc_sess c' s) = ps_far_ids (pc_sess c s)"
    and "\<And>x. far_sess (pc_far c' x) = far_sess (pc_far c x)" "\<And>x. far_id_node (pc_far c' x) = far_id_node (pc_far c x)"
    and "pc_far_pool c' = pc_far_pool c"
  shows "far_objs c' \<longleftrightarrow> far_objs c"
proof -
  have "fars_of c' = fars_of c" using assms(1) by auto
  then show ?thesis by (simp add: far_objs_def assms(2-))
qed

lemma urr_objs_cong:
  assumes "\<And>s. urrs_of c' s = urrs_of c s" "\<And>s. ps_urr_ids (pc_sess c' s) = ps_urr_ids (pc_sess c s)"
    and "\<And>u. uo_sess (pc_urr c' u) = uo_sess (pc_urr c u)" "\<And>u. uo_id_node (pc_urr c' u) = uo_id_node (pc_urr c u)"
    and "pc_urr_pool c' = pc_urr_pool c"
  shows "urr_objs c' \<longleftrightarrow> urr_objs c"
proof -
  have "urrs_of c' = urrs_of c" using assms(1) by auto
  then show ?thesis by (simp add: urr_objs_def assms(2-))
qed

lemma qer_objs_cong:
  assumes "\<And>s. qers_of c' s = qers_of c s" "\<And>s. ps_qer_ids (pc_sess c' s) = ps_qer_ids (pc_sess c s)"
    and "\<And>q. qer_sess (pc_qer c' q) = qer_sess (pc_qer c q)" "\<And>q. qer_id_node (pc_qer c' q) = qer_id_node (pc_qer c q)"
    and "pc_qer_pool c' = pc_qer_pool c"
  shows "qer_objs c' \<longleftrightarrow> qer_objs c"
proof -
  have "qers_of c' = qers_of c" using assms(1) by auto
  then show ?thesis by (simp add: qer_objs_def assms(2-))
qed

lemma teid_nodes_cong:
  assumes "\<And>s. set (pdrs_of c' s) \<subseteq> set (pdrs_of c s)" "\<And>p. pdr_teid_node (pc_pdr c' p) = pdr_teid_node (pc_pdr c p)"
    and "pc_teid_pool c' = pc_teid_pool c" "teid_nodes c"
  shows "teid_nodes c'"
  using assms(4,1) unfolding teid_nodes_def assms(2,3) by (meson subsetD)

lemma bar_objs_cong:
  assumes "\<And>s. ps_bar (pc_sess c' s) = ps_bar (pc_sess c s)" "\<And>s. ps_bar_ids (pc_sess c' s) = ps_bar_ids (pc_sess c s)"
    and "pc_bar_pool c' = pc_bar_pool c" "pc_bar c' = pc_bar c"
  shows "bar_objs c' \<longleftrightarrow> bar_objs c"
  by (simp add: bar_objs_def assms)

lemma rule_objs_cong:
  assumes "\<And>p. pdr_rules (pc_pdr c' p) = pdr_rules (pc_pdr c p)" "\<And>l. rl_pdr (pc_rule c' l) = rl_pdr (pc_rule c l)"
    and "pc_rule_pool c' = pc_rule_pool c"
  shows "rule_objs c' \<longleftrightarrow> rule_objs c"
  by (simp add: rule_objs_def assms)

lemma teid_table_cong:
  assumes "pc_object_hash c' = pc_object_hash c"
  shows "teid_table c' \<longleftrightarrow> teid_table c"
  by (simp add: teid_table_def assms ogs_pfcp_object_find_by_teid_def)

lemma peer_table_cong:
  assumes "\<And>s. set (fars_of c s) \<subseteq> set (fars_of c' s)" "\<And>x. far_hash_f_teid (pc_far c' x) = far_hash_f_teid (pc_far c x)"
    and "pc_far_f_teid_hash c' = pc_far_f_teid_hash c" "peer_table c"
  shows "peer_table c'"
  using assms(4,1) unfolding peer_table_def assms(2,3) by (meson subsetD)

section \<open>The frame of an operation on one session\<close>

text \<open>
  The other sessions keep their objects. Of their FARs, the packets that wait in a buffer are
  left out: a PDR with a stale FAR sends the packets of whoever has the FAR now.
\<close>

definition far_kept :: "pfcp_far \<Rightarrow> pfcp_far \<Rightarrow> bool" where
  "far_kept f g \<longleftrightarrow> f\<lparr>far_buffered := []\<rparr> = g\<lparr>far_buffered := []\<rparr>"

lemma far_kept_refl [simp]: "far_kept f f"
  by (simp add: far_kept_def)

lemma far_kept_trans: "far_kept f g \<Longrightarrow> far_kept g h \<Longrightarrow> far_kept f h"
  by (simp add: far_kept_def)

definition frame :: "nat \<Rightarrow> pfcp_ctx \<Rightarrow> pfcp_ctx \<Rightarrow> bool" where
  "frame s c c' \<longleftrightarrow> (\<forall>r. r \<noteq> s \<longrightarrow> pc_sess c' r = pc_sess c r \<and>
     (\<forall>p \<in> set (pdrs_of c r). pc_pdr c' p = pc_pdr c p \<and> (\<forall>l \<in> set (pdr_rules (pc_pdr c p)). pc_rule c' l = pc_rule c l)) \<and>
     (\<forall>x \<in> set (fars_of c r). far_kept (pc_far c' x) (pc_far c x)) \<and> (\<forall>u \<in> set (urrs_of c r). pc_urr c' u = pc_urr c u) \<and>
     (\<forall>q \<in> set (qers_of c r). pc_qer c' q = pc_qer c q) \<and>
     (\<forall>b. ps_bar (pc_sess c r) = Some b \<longrightarrow> pc_bar c' b = pc_bar c b))"

lemma frame_refl [simp]: "frame s c c"
  by (simp add: frame_def)

lemma frame_trans:
  assumes "frame s a b" "frame s b c"
  shows "frame s a c"
  using assms far_kept_trans by (simp add: frame_def pdrs_of_def fars_of_def urrs_of_def qers_of_def) blast

text \<open>A step on session \<open>s\<close>: the invariant is kept and the other sessions are as they were.\<close>

definition step :: "nat \<Rightarrow> pfcp_ctx \<Rightarrow> pfcp_ctx \<Rightarrow> bool" where
  "step s c c' \<longleftrightarrow> (pfcp_ok c \<longrightarrow> pfcp_ok c' \<and> frame s c c')"

lemma step_refl [simp]: "step s c c"
  by (simp add: step_def)

lemma step_trans: "step s a b \<Longrightarrow> step s b c \<Longrightarrow> step s a c"
  by (auto simp: step_def intro: frame_trans)

lemma step_I: "(pfcp_ok c \<Longrightarrow> pfcp_ok c') \<Longrightarrow> (pfcp_ok c \<Longrightarrow> frame s c c') \<Longrightarrow> step s c c'"
  by (simp add: step_def)

section \<open>Changes of fields\<close>

lemma other_session:
  assumes "pfcp_ok c" "r \<noteq> s"
  shows "p \<in> set (pdrs_of c s) \<Longrightarrow> p \<notin> set (pdrs_of c r)" "x \<in> set (fars_of c s) \<Longrightarrow> x \<notin> set (fars_of c r)"
    "u \<in> set (urrs_of c s) \<Longrightarrow> u \<notin> set (urrs_of c r)" "q \<in> set (qers_of c s) \<Longrightarrow> q \<notin> set (qers_of c r)"
    "ps_bar (pc_sess c s) = Some b \<Longrightarrow> ps_bar (pc_sess c r) \<noteq> Some b"
proof -
  note k = pfcp_okD [OF assms(1)]
  show "p \<notin> set (pdrs_of c r)" if "p \<in> set (pdrs_of c s)"
    using kind_disjoint [OF k(1) [unfolded pdr_objs_def] that] assms(2) by blast
  show "x \<notin> set (fars_of c r)" if "x \<in> set (fars_of c s)"
    using kind_disjoint [OF k(3) [unfolded far_objs_def] that] assms(2) by blast
  show "u \<notin> set (urrs_of c r)" if "u \<in> set (urrs_of c s)"
    using kind_disjoint [OF k(4) [unfolded urr_objs_def] that] assms(2) by blast
  show "q \<notin> set (qers_of c r)" if "q \<in> set (qers_of c s)"
    using kind_disjoint [OF k(5) [unfolded qer_objs_def] that] assms(2) by blast
  show "ps_bar (pc_sess c r) \<noteq> Some b" if "ps_bar (pc_sess c s) = Some b"
    using k(6) that assms(2) unfolding bar_objs_def by (metis option.inject)
qed

lemmas lists_defs = pdrs_of_def fars_of_def urrs_of_def qers_of_def

text \<open>An operation that changes no session and no pool, and of each kind only fields that do not matter.\<close>

lemma pfcp_ok_fields:
  assumes ok: "pfcp_ok c" and "pc_sess c' = pc_sess c"
    and "pc_pdr_pool c' = pc_pdr_pool c" "pc_far_pool c' = pc_far_pool c" "pc_urr_pool c' = pc_urr_pool c"
    "pc_qer_pool c' = pc_qer_pool c" "pc_bar_pool c' = pc_bar_pool c" "pc_rule_pool c' = pc_rule_pool c"
    "pc_teid_pool c' = pc_teid_pool c" "pc_object_hash c' = pc_object_hash c"
    "pc_far_f_teid_hash c' = pc_far_f_teid_hash c"
    and p: "\<And>p. pdr_sess (pc_pdr c' p) = pdr_sess (pc_pdr c p) \<and> pdr_id_node (pc_pdr c' p) = pdr_id_node (pc_pdr c p) \<and>
      pdr_teid_node (pc_pdr c' p) = pdr_teid_node (pc_pdr c p) \<and> pdr_rules (pc_pdr c' p) = pdr_rules (pc_pdr c p)"
    and x: "\<And>x. far_sess (pc_far c' x) = far_sess (pc_far c x) \<and> far_id_node (pc_far c' x) = far_id_node (pc_far c x) \<and>
      far_hash_f_teid (pc_far c' x) = far_hash_f_teid (pc_far c x)"
    and u: "\<And>u. uo_sess (pc_urr c' u) = uo_sess (pc_urr c u) \<and> uo_id_node (pc_urr c' u) = uo_id_node (pc_urr c u)"
    and q: "\<And>q. qer_sess (pc_qer c' q) = qer_sess (pc_qer c q) \<and> qer_id_node (pc_qer c' q) = qer_id_node (pc_qer c q)"
    and b: "\<And>b. bar_sess (pc_bar c' b) = bar_sess (pc_bar c b) \<and> bar_id_node (pc_bar c' b) = bar_id_node (pc_bar c b)"
    and l: "\<And>l. rl_pdr (pc_rule c' l) = rl_pdr (pc_rule c l)"
  shows "pfcp_ok c'"
proof (rule pfcp_okI)
  note ok = pfcp_okD [OF ok]
  have ls: "pdrs_of c' r = pdrs_of c r" "fars_of c' r = fars_of c r" "urrs_of c' r = urrs_of c r" "qers_of c' r = qers_of c r" for r
    by (simp_all add: lists_defs assms)
  show "pdr_objs c'" using ok(1) by (subst pdr_objs_cong [of c' c]) (simp_all add: assms p ls)
  show "teid_nodes c'" by (rule teid_nodes_cong [OF _ _ _ ok(2)]) (simp_all add: assms p ls)
  show "far_objs c'" using ok(3) by (subst far_objs_cong [of c' c]) (simp_all add: assms x ls)
  show "urr_objs c'" using ok(4) by (subst urr_objs_cong [of c' c]) (simp_all add: assms u ls)
  show "qer_objs c'" using ok(5) by (subst qer_objs_cong [of c' c]) (simp_all add: assms q ls)
  show "bar_objs c'" using ok(6) by (simp add: bar_objs_def assms b)
  show "rule_objs c'" using ok(7) by (subst rule_objs_cong [of c' c]) (simp_all add: assms p l)
  show "teid_table c'" using ok(8) by (subst teid_table_cong [of c' c]) (simp_all add: assms)
  show "peer_table c'" by (rule peer_table_cong [OF _ _ _ ok(9)]) (simp_all add: assms x ls)
qed

lemma step_update_pdr:
  assumes p: "p \<in> set (pdrs_of c s)"
    and f: "\<And>d. pdr_sess (f d) = pdr_sess d \<and> pdr_id_node (f d) = pdr_id_node d \<and>
      pdr_teid_node (f d) = pdr_teid_node d \<and> pdr_rules (f d) = pdr_rules d"
  shows "step s c (update_pdr p f c)"
proof (rule step_I)
  assume ok: "pfcp_ok c"
  show "pfcp_ok (update_pdr p f c)" by (rule pfcp_ok_fields [OF ok]) (simp_all add: update_pdr_def f)
  show "frame s c (update_pdr p f c)"
    using other_session(1) [OF ok _ p] by (auto simp: frame_def update_pdr_def)
qed

lemma step_update_far:
  assumes x: "x \<in> set (fars_of c s)"
    and f: "\<And>d. far_sess (f d) = far_sess d \<and> far_id_node (f d) = far_id_node d \<and> far_hash_f_teid (f d) = far_hash_f_teid d"
  shows "step s c (update_far x f c)"
proof (rule step_I)
  assume ok: "pfcp_ok c"
  show "pfcp_ok (update_far x f c)" by (rule pfcp_ok_fields [OF ok]) (simp_all add: update_far_def f)
  show "frame s c (update_far x f c)"
    using other_session(2) [OF ok _ x] by (auto simp: frame_def update_far_def)
qed

lemma step_update_urr:
  assumes u: "u \<in> set (urrs_of c s)"
    and f: "\<And>d. uo_sess (f d) = uo_sess d \<and> uo_id_node (f d) = uo_id_node d"
  shows "step s c (update_urr u f c)"
proof (rule step_I)
  assume ok: "pfcp_ok c"
  show "pfcp_ok (update_urr u f c)" by (rule pfcp_ok_fields [OF ok]) (simp_all add: update_urr_def f)
  show "frame s c (update_urr u f c)"
    using other_session(3) [OF ok _ u] by (auto simp: frame_def update_urr_def)
qed

lemma step_update_qer:
  assumes q: "q \<in> set (qers_of c s)"
    and f: "\<And>d. qer_sess (f d) = qer_sess d \<and> qer_id_node (f d) = qer_id_node d"
  shows "step s c (update_qer q f c)"
proof (rule step_I)
  assume ok: "pfcp_ok c"
  show "pfcp_ok (update_qer q f c)" by (rule pfcp_ok_fields [OF ok]) (simp_all add: update_qer_def f)
  show "frame s c (update_qer q f c)"
    using other_session(4) [OF ok _ q] by (auto simp: frame_def update_qer_def)
qed

text \<open>A flow rule that a PDR of the session has.\<close>

lemma step_update_rule:
  assumes p: "p \<in> set (pdrs_of c s)" and l: "l \<in> set (pdr_rules (pc_pdr c p))"
    and f: "\<And>d. rl_pdr (f d) = rl_pdr d"
  shows "step s c (update_rule l f c)"
proof (rule step_I)
  assume ok: "pfcp_ok c"
  show "pfcp_ok (update_rule l f c)" by (rule pfcp_ok_fields [OF ok]) (simp_all add: update_rule_def f)
  have "l \<notin> set (pdr_rules (pc_pdr c q))" if "q \<in> set (pdrs_of c r)" "r \<noteq> s" for q r
  proof
    assume "l \<in> set (pdr_rules (pc_pdr c q))"
    then have "q = p" using l pfcp_okD(7) [OF ok] unfolding rule_objs_def by metis
    with that other_session(1) [OF ok that(2) p] show False by simp
  qed
  then show "frame s c (update_rule l f c)" by (auto simp: frame_def update_rule_def)
qed

section \<open>New objects\<close>

text \<open>An operation on one kind of objects leaves the other kinds as they are.\<close>

definition same_pdrs :: "pfcp_ctx \<Rightarrow> pfcp_ctx \<Rightarrow> bool" where
  "same_pdrs c c' \<longleftrightarrow> (\<forall>r. pdrs_of c' r = pdrs_of c r \<and> ps_pdr_ids (pc_sess c' r) = ps_pdr_ids (pc_sess c r)) \<and>
     pc_pdr c' = pc_pdr c \<and> pc_pdr_pool c' = pc_pdr_pool c \<and> pc_teid_pool c' = pc_teid_pool c \<and>
     pc_rule c' = pc_rule c \<and> pc_rule_pool c' = pc_rule_pool c \<and> pc_object_hash c' = pc_object_hash c"

definition same_fars :: "pfcp_ctx \<Rightarrow> pfcp_ctx \<Rightarrow> bool" where
  "same_fars c c' \<longleftrightarrow> (\<forall>r. fars_of c' r = fars_of c r \<and> ps_far_ids (pc_sess c' r) = ps_far_ids (pc_sess c r)) \<and>
     pc_far c' = pc_far c \<and> pc_far_pool c' = pc_far_pool c \<and> pc_far_f_teid_hash c' = pc_far_f_teid_hash c"

definition same_urrs :: "pfcp_ctx \<Rightarrow> pfcp_ctx \<Rightarrow> bool" where
  "same_urrs c c' \<longleftrightarrow> (\<forall>r. urrs_of c' r = urrs_of c r \<and> ps_urr_ids (pc_sess c' r) = ps_urr_ids (pc_sess c r)) \<and>
     pc_urr c' = pc_urr c \<and> pc_urr_pool c' = pc_urr_pool c"

definition same_qers :: "pfcp_ctx \<Rightarrow> pfcp_ctx \<Rightarrow> bool" where
  "same_qers c c' \<longleftrightarrow> (\<forall>r. qers_of c' r = qers_of c r \<and> ps_qer_ids (pc_sess c' r) = ps_qer_ids (pc_sess c r)) \<and>
     pc_qer c' = pc_qer c \<and> pc_qer_pool c' = pc_qer_pool c"

definition same_bars :: "pfcp_ctx \<Rightarrow> pfcp_ctx \<Rightarrow> bool" where
  "same_bars c c' \<longleftrightarrow> (\<forall>r. ps_bar (pc_sess c' r) = ps_bar (pc_sess c r) \<and> ps_bar_ids (pc_sess c' r) = ps_bar_ids (pc_sess c r)) \<and>
     pc_bar c' = pc_bar c \<and> pc_bar_pool c' = pc_bar_pool c"

lemmas same_defs = same_pdrs_def same_fars_def same_urrs_def same_qers_def same_bars_def lists_defs

lemma same_parts:
  assumes "pfcp_ok c"
  shows "same_pdrs c c' \<Longrightarrow> pdr_objs c'" "same_pdrs c c' \<Longrightarrow> teid_nodes c'" "same_pdrs c c' \<Longrightarrow> rule_objs c'"
    "same_pdrs c c' \<Longrightarrow> teid_table c'" "same_fars c c' \<Longrightarrow> far_objs c'" "same_fars c c' \<Longrightarrow> peer_table c'"
    "same_urrs c c' \<Longrightarrow> urr_objs c'" "same_qers c c' \<Longrightarrow> qer_objs c'" "same_bars c c' \<Longrightarrow> bar_objs c'"
proof -
  note ok = pfcp_okD [OF assms]
  show "pdr_objs c'" if "same_pdrs c c'" using ok(1) pdr_objs_cong [of c' c] that by (simp add: same_pdrs_def)
  show "teid_nodes c'" if "same_pdrs c c'" using teid_nodes_cong [OF _ _ _ ok(2), of c'] that by (simp add: same_pdrs_def)
  show "rule_objs c'" if "same_pdrs c c'" using ok(7) rule_objs_cong [of c' c] that by (simp add: same_pdrs_def)
  show "teid_table c'" if "same_pdrs c c'" using ok(8) teid_table_cong [of c' c] that by (simp add: same_pdrs_def)
  show "far_objs c'" if "same_fars c c'" using ok(3) far_objs_cong [of c' c] that by (simp add: same_fars_def)
  show "peer_table c'" if "same_fars c c'" using peer_table_cong [OF _ _ _ ok(9), of c'] that by (simp add: same_fars_def)
  show "urr_objs c'" if "same_urrs c c'" using ok(4) urr_objs_cong [of c' c] that by (simp add: same_urrs_def)
  show "qer_objs c'" if "same_qers c c'" using ok(5) qer_objs_cong [of c' c] that by (simp add: same_qers_def)
  show "bar_objs c'" if "same_bars c c'" using ok(6) bar_objs_cong [of c' c] that by (simp add: same_bars_def)
qed

lemma take_object_Some:
  "take_object objs ids = ((objs', ids'), Some (n, i)) \<longleftrightarrow>
     ogs_pool_alloc objs = (objs', Some n) \<and> ogs_pool_alloc ids = (ids', Some i)"
  by (auto simp: take_object_def split: prod.splits option.splits)

lemma kind_ok_take_None:
  assumes k: "kind_ok pool lst own idn ids" and "take_object pool (ids s) = ((pool', ids'), None)"
  shows "kind_ok pool' lst own idn ids"
proof -
  consider "ogs_pool_alloc pool = (pool', None)" | q n where "ogs_pool_alloc pool = (q, Some n)" "pool' = ogs_pool_free q n"
    using assms(2) by (auto simp: take_object_def split: prod.splits option.splits)
  then show ?thesis
  proof cases
    case 1
    with alloc_none [OF kind_okD(1) [OF k]] k show ?thesis by simp
  next
    case 2
    show ?thesis unfolding 2(2) by (rule kind_ok_alloc_free [OF k 2(1)]) simp
  qed
qed

lemma fresh_object:
  assumes "kind_ok pool lst own idn ids" "ogs_pool_alloc pool = (pool', Some n)"
  shows "n \<notin> set (lst r)"
  using pool.acquire_Some [OF kind_okD(1) [OF assms(1)] assms(2)] kind_okD(5) [OF assms(1)] by blast

text \<open>A table of FARs that is unchanged, when the FARs it designates are.\<close>

lemma peer_table_mono:
  assumes ok: "peer_table c" and h: "pc_far_f_teid_hash c' = pc_far_f_teid_hash c"
    and x: "\<And>x s. x \<in> set (fars_of c s) \<Longrightarrow> x \<in> set (fars_of c' s) \<and> far_hash_f_teid (pc_far c' x) = far_hash_f_teid (pc_far c x)"
  shows "peer_table c'"
  unfolding peer_table_def h
proof (intro conjI allI impI)
  show "hash_ok (pc_far_f_teid_hash c)" using ok by (simp add: peer_table_def)
  fix k y
  assume "hash_get (pc_far_f_teid_hash c) k = Some y"
  then obtain q where q: "far_hash_f_teid (pc_far c y) = Some k" "y \<in> set (fars_of c q)"
    using ok unfolding peer_table_def by blast
  with x [OF q(2)] show "far_hash_f_teid (pc_far c' y) = Some k" "\<exists>s. y \<in> set (fars_of c' s)" by auto
qed

lemma far_add_ok:
  assumes a: "ogs_pfcp_far_add s c = (c', r)"
  shows "step s c c' \<and> same_pdrs c c' \<and> set (fars_of c s) \<subseteq> set (fars_of c' s) \<and>
    (\<forall>x. r = Some x \<longrightarrow> x \<in> set (fars_of c' s))"
proof (cases r)
  case None
  then obtain objs ids where t: "take_object (pc_far_pool c) (ps_far_ids (pc_sess c s)) = ((objs, ids), None)"
    "c' = c\<lparr>pc_far_pool := objs\<rparr>"
    using a by (auto simp: ogs_pfcp_far_add_def split: prod.splits option.splits)
  have same: "same_pdrs c c'" "same_urrs c c'" "same_qers c c'" "same_bars c c'" by (simp_all add: same_defs t(2))
  have "pfcp_ok c'" if ok: "pfcp_ok c"
  proof -
    have "far_objs c'" using kind_ok_take_None [OF pfcp_okD(3) [OF ok, unfolded far_objs_def] t(1)]
      by (simp add: far_objs_def t(2) fars_of_def [abs_def])
    moreover have "peer_table c'" by (rule peer_table_mono [OF pfcp_okD(9) [OF ok]]) (simp_all add: t(2) fars_of_def)
    ultimately show ?thesis using same_parts [OF ok] same by blast
  qed
  then show ?thesis using None same by (simp add: step_def frame_def lists_defs t(2))
next
  case (Some n)
  then obtain objs ids i where t: "take_object (pc_far_pool c) (ps_far_ids (pc_sess c s)) = ((objs, ids), Some (n, i))"
    "c' = update_sess s (\<lambda>ps. ps\<lparr>ps_far_ids := ids, ps_far_list := ps_far_list ps @ [n]\<rparr>)
      (c\<lparr>pc_far_pool := objs, pc_far := (pc_far c)(n := zero_far\<lparr>far_id_node := i,
         far_id := sequence_id i, far_dst_if := OGS_PFCP_INTERFACE_UNKNOWN, far_sess := s\<rparr>)\<rparr>)"
    using a by (auto simp: ogs_pfcp_far_add_def split: prod.splits option.splits)
  note al = t(1) [unfolded take_object_Some]
  have same: "same_pdrs c c'" "same_urrs c c'" "same_qers c c'" "same_bars c c'"
    by (simp_all add: same_defs t(2) update_sess_def)
  have ls: "fars_of c' q = (if q = s then fars_of c s @ [n] else fars_of c q)" for q
    by (simp add: lists_defs t(2) update_sess_def)
  have "pfcp_ok c' \<and> frame s c c'" if ok: "pfcp_ok c"
  proof
    note k = pfcp_okD(3) [OF ok, unfolded far_objs_def]
    note fresh = fresh_object [OF k conjunct1 [OF al]]
    have "far_objs c'" unfolding far_objs_def
      using kind_ok_add [OF k, of objs n s ids i "fars_of c'" "\<lambda>s. ps_far_ids (pc_sess c' s)"] al ls
      by (simp add: t(2) update_sess_def)
    moreover have "x \<noteq> n" if "x \<in> set (fars_of c q)" for x q using fresh that by blast
    then have "peer_table c'"
      by (intro peer_table_mono [OF pfcp_okD(9) [OF ok]]) (auto simp: ls, auto simp: t(2) update_sess_def)
    ultimately show "pfcp_ok c'" using same_parts [OF ok] same by blast
    show "frame s c c'" using fresh by (auto simp: frame_def t(2) update_sess_def)
  qed
  then show ?thesis using Some ls same by (auto simp: step_def)
qed

lemma urr_add_ok:
  assumes a: "ogs_pfcp_urr_add s c = (c', r)"
  shows "step s c c' \<and> same_pdrs c c' \<and> same_fars c c' \<and> (\<forall>u. r = Some u \<longrightarrow> u \<in> set (urrs_of c' s))"
proof (cases r)
  case None
  then obtain objs ids where t: "take_object (pc_urr_pool c) (ps_urr_ids (pc_sess c s)) = ((objs, ids), None)"
    "c' = c\<lparr>pc_urr_pool := objs\<rparr>"
    using a by (auto simp: ogs_pfcp_urr_add_def split: prod.splits option.splits)
  have same: "same_pdrs c c'" "same_fars c c'" "same_qers c c'" "same_bars c c'" by (simp_all add: same_defs t(2))
  have "pfcp_ok c'" if ok: "pfcp_ok c"
    using kind_ok_take_None [OF pfcp_okD(4) [OF ok, unfolded urr_objs_def] t(1)] same_parts [OF ok] same
    by (intro pfcp_okI) (simp_all add: urr_objs_def t(2) urrs_of_def [abs_def])
  then show ?thesis using None same by (simp add: step_def frame_def t(2))
next
  case (Some n)
  then obtain objs ids i where t: "take_object (pc_urr_pool c) (ps_urr_ids (pc_sess c s)) = ((objs, ids), Some (n, i))"
    "c' = update_sess s (\<lambda>ps. ps\<lparr>ps_urr_ids := ids, ps_urr_list := ps_urr_list ps @ [n]\<rparr>)
      (c\<lparr>pc_urr_pool := objs, pc_urr := (pc_urr c)(n := zero_urr_obj\<lparr>uo_id_node := i,
         uo_urr := zero_urr\<lparr>urr_id := i + 1\<rparr>, uo_sess := s\<rparr>)\<rparr>)"
    using a by (auto simp: ogs_pfcp_urr_add_def split: prod.splits option.splits)
  note al = t(1) [unfolded take_object_Some]
  have same: "same_pdrs c c'" "same_fars c c'" "same_qers c c'" "same_bars c c'"
    by (simp_all add: same_defs t(2) update_sess_def)
  have ls: "urrs_of c' q = (if q = s then urrs_of c s @ [n] else urrs_of c q)" for q
    by (simp add: lists_defs t(2) update_sess_def)
  have "pfcp_ok c' \<and> frame s c c'" if ok: "pfcp_ok c"
  proof
    note k = pfcp_okD(4) [OF ok, unfolded urr_objs_def]
    have "urr_objs c'" unfolding urr_objs_def
      using kind_ok_add [OF k, of objs n s ids i "urrs_of c'" "\<lambda>s. ps_urr_ids (pc_sess c' s)"] al ls
      by (simp add: t(2) update_sess_def)
    then show "pfcp_ok c'" using same_parts [OF ok] same by blast
    show "frame s c c'" using fresh_object [OF k conjunct1 [OF al]] by (auto simp: frame_def t(2) update_sess_def)
  qed
  then show ?thesis using Some ls same by (auto simp: step_def)
qed

lemma qer_add_ok:
  assumes a: "ogs_pfcp_qer_add s c = (c', r)"
  shows "step s c c' \<and> same_pdrs c c' \<and> same_fars c c' \<and> (\<forall>u. r = Some u \<longrightarrow> u \<in> set (qers_of c' s))"
proof (cases r)
  case None
  then obtain objs ids where t: "take_object (pc_qer_pool c) (ps_qer_ids (pc_sess c s)) = ((objs, ids), None)"
    "c' = c\<lparr>pc_qer_pool := objs\<rparr>"
    using a by (auto simp: ogs_pfcp_qer_add_def split: prod.splits option.splits)
  have same: "same_pdrs c c'" "same_fars c c'" "same_urrs c c'" "same_bars c c'" by (simp_all add: same_defs t(2))
  have "pfcp_ok c'" if ok: "pfcp_ok c"
    using kind_ok_take_None [OF pfcp_okD(5) [OF ok, unfolded qer_objs_def] t(1)] same_parts [OF ok] same
    by (intro pfcp_okI) (simp_all add: qer_objs_def t(2) qers_of_def [abs_def])
  then show ?thesis using None same by (simp add: step_def frame_def t(2))
next
  case (Some n)
  then obtain objs ids i where t: "take_object (pc_qer_pool c) (ps_qer_ids (pc_sess c s)) = ((objs, ids), Some (n, i))"
    "c' = update_sess s (\<lambda>ps. ps\<lparr>ps_qer_ids := ids, ps_qer_list := ps_qer_list ps @ [n]\<rparr>)
      (c\<lparr>pc_qer_pool := objs, pc_qer := (pc_qer c)(n := zero_qer\<lparr>qer_id_node := i,
         qer_id := sequence_id i, qer_sess := s\<rparr>)\<rparr>)"
    using a by (auto simp: ogs_pfcp_qer_add_def split: prod.splits option.splits)
  note al = t(1) [unfolded take_object_Some]
  have same: "same_pdrs c c'" "same_fars c c'" "same_urrs c c'" "same_bars c c'"
    by (simp_all add: same_defs t(2) update_sess_def)
  have ls: "qers_of c' q = (if q = s then qers_of c s @ [n] else qers_of c q)" for q
    by (simp add: lists_defs t(2) update_sess_def)
  have "pfcp_ok c' \<and> frame s c c'" if ok: "pfcp_ok c"
  proof
    note k = pfcp_okD(5) [OF ok, unfolded qer_objs_def]
    have "qer_objs c'" unfolding qer_objs_def
      using kind_ok_add [OF k, of objs n s ids i "qers_of c'" "\<lambda>s. ps_qer_ids (pc_sess c' s)"] al ls
      by (simp add: t(2) update_sess_def)
    then show "pfcp_ok c'" using same_parts [OF ok] same by blast
    show "frame s c c'" using fresh_object [OF k conjunct1 [OF al]] by (auto simp: frame_def t(2) update_sess_def)
  qed
  then show ?thesis using Some ls same by (auto simp: step_def)
qed

lemma find_in_list:
  "ogs_pfcp_pdr_find s k c = Some p \<Longrightarrow> p \<in> set (pdrs_of c s)"
  "ogs_pfcp_far_find s k c = Some x \<Longrightarrow> x \<in> set (fars_of c s)"
  "ogs_pfcp_urr_find s i c = Some u \<Longrightarrow> u \<in> set (urrs_of c s)"
  "ogs_pfcp_qer_find s k c = Some q \<Longrightarrow> q \<in> set (qers_of c s)"
  by (auto simp: ogs_pfcp_pdr_find_def ogs_pfcp_far_find_def ogs_pfcp_urr_find_def ogs_pfcp_qer_find_def
      fars_of_def urrs_of_def qers_of_def find_Some_iff)

lemma far_find_or_add_ok:
  assumes "ogs_pfcp_far_find_or_add s i c = (c', r)"
  shows "step s c c' \<and> same_pdrs c c' \<and> set (fars_of c s) \<subseteq> set (fars_of c' s) \<and>
    (\<forall>x. r = Some x \<longrightarrow> x \<in> set (fars_of c' s))"
proof (cases "ogs_pfcp_far_find s i c")
  case None
  obtain d q where d: "ogs_pfcp_far_add s c = (d, q)" by (cases "ogs_pfcp_far_add s c")
  note ok = far_add_ok [OF d]
  show ?thesis
  proof (cases q)
    case (Some x)
    have c': "c' = update_far x (\<lambda>f. f\<lparr>far_id := i\<rparr>) d" "r = Some x"
      using assms None d Some by (simp_all add: ogs_pfcp_far_find_or_add_def)
    have "step s d c'" unfolding c' by (rule step_update_far) (use ok Some in simp_all)
    moreover have "same_pdrs c c'" "set (fars_of c s) \<subseteq> set (fars_of c' s)" "x \<in> set (fars_of c' s)"
      using ok Some by (auto simp: c' same_pdrs_def update_far_def fars_of_def pdrs_of_def)
    ultimately show ?thesis using ok step_trans c'(2) by blast
  qed (use assms None d ok in \<open>simp add: ogs_pfcp_far_find_or_add_def\<close>)
qed (use assms find_in_list(2) in \<open>auto simp: ogs_pfcp_far_find_or_add_def same_pdrs_def\<close>)

lemma urr_find_or_add_ok:
  assumes "ogs_pfcp_urr_find_or_add s i c = (c', r)"
  shows "step s c c' \<and> same_pdrs c c' \<and> same_fars c c' \<and> (\<forall>u. r = Some u \<longrightarrow> u \<in> set (urrs_of c' s))"
proof (cases "ogs_pfcp_urr_find s i c")
  case None
  obtain d q where d: "ogs_pfcp_urr_add s c = (d, q)" by (cases "ogs_pfcp_urr_add s c")
  note ok = urr_add_ok [OF d]
  show ?thesis
  proof (cases q)
    case (Some x)
    have c': "c' = update_urr x (with_urr (\<lambda>u. u\<lparr>urr_id := i\<rparr>)) d" "r = Some x"
      using assms None d Some by (simp_all add: ogs_pfcp_urr_find_or_add_def update_urr_def with_urr_def)
    have "step s d c'" unfolding c' by (rule step_update_urr) (use ok Some in \<open>simp_all add: with_urr_def\<close>)
    moreover have "same_pdrs c c'" "same_fars c c'" "x \<in> set (urrs_of c' s)"
      using ok Some by (auto simp: c' same_defs update_urr_def)
    ultimately show ?thesis using ok step_trans c'(2) by blast
  qed (use assms None d ok in \<open>simp add: ogs_pfcp_urr_find_or_add_def\<close>)
qed (use assms find_in_list(3) in \<open>auto simp: ogs_pfcp_urr_find_or_add_def same_defs\<close>)

lemma qer_find_or_add_ok:
  assumes "ogs_pfcp_qer_find_or_add s i c = (c', r)"
  shows "step s c c' \<and> same_pdrs c c' \<and> same_fars c c' \<and> (\<forall>u. r = Some u \<longrightarrow> u \<in> set (qers_of c' s))"
proof (cases "ogs_pfcp_qer_find s i c")
  case None
  obtain d q where d: "ogs_pfcp_qer_add s c = (d, q)" by (cases "ogs_pfcp_qer_add s c")
  note ok = qer_add_ok [OF d]
  show ?thesis
  proof (cases q)
    case (Some x)
    have c': "c' = update_qer x (\<lambda>u. u\<lparr>qer_id := i\<rparr>) d" "r = Some x"
      using assms None d Some by (simp_all add: ogs_pfcp_qer_find_or_add_def update_qer_def)
    have "step s d c'" unfolding c' by (rule step_update_qer) (use ok Some in simp_all)
    moreover have "same_pdrs c c'" "same_fars c c'" "x \<in> set (qers_of c' s)"
      using ok Some by (auto simp: c' same_defs update_qer_def)
    ultimately show ?thesis using ok step_trans c'(2) by blast
  qed (use assms None d ok in \<open>simp add: ogs_pfcp_qer_find_or_add_def\<close>)
qed (use assms find_in_list(4) in \<open>auto simp: ogs_pfcp_qer_find_or_add_def same_defs\<close>)

text \<open>A PDR that finds no identifier leaves its TEID node in use.\<close>

lemma pdr_add_None:
  assumes "ogs_pfcp_pdr_add s c = Ret (c', None)"
  obtains "c' = c"
  | pool p tpool t d where "ogs_pool_alloc (pc_pdr_pool c) = (pool, Some p)" "ogs_pool_alloc (pc_teid_pool c) = (tpool, Some t)"
      "pdr_rules d = []" "c' = c\<lparr>pc_pdr_pool := ogs_pool_free pool p, pc_teid_pool := tpool, pc_pdr := (pc_pdr c)(p := d)\<rparr>"
proof -
  obtain pool r where a: "ogs_pool_alloc (pc_pdr_pool c) = (pool, r)" by (cases "ogs_pool_alloc (pc_pdr_pool c)")
  obtain tpool t where b: "ogs_pool_alloc (pc_teid_pool c) = (tpool, t)" by (cases "ogs_pool_alloc (pc_teid_pool c)")
  obtain ids i where i: "ogs_pool_alloc (ps_pdr_ids (pc_sess c s)) = (ids, i)" by (cases "ogs_pool_alloc (ps_pdr_ids (pc_sess c s))")
  show ?thesis
  proof (cases r)
    case None
    with assms a show ?thesis by (intro that(1)) (simp add: ogs_pfcp_pdr_add_def)
  next
    case (Some p)
    obtain u where u: "t = Some u" using assms a b Some by (cases t) (simp_all add: ogs_pfcp_pdr_add_def)
    have n: "i = None" using assms a b i Some u by (cases i) (simp_all add: ogs_pfcp_pdr_add_def Let_def)
    define d where "d = zero_pdr\<lparr>pdr_src_if := OGS_PFCP_INTERFACE_UNKNOWN, pdr_teid_node := u,
      pdr_teid := pc_teids c ! u\<rparr>"
    have "ogs_pfcp_pdr_add s c = Ret (c\<lparr>pc_pdr_pool := ogs_pool_free pool p, pc_teid_pool := tpool,
        pc_pdr := (pc_pdr c)(p := d)\<rparr>, None)"
      by (simp add: ogs_pfcp_pdr_add_def Let_def a b i n Some u d_def)
    then have "c' = c\<lparr>pc_pdr_pool := ogs_pool_free pool p, pc_teid_pool := tpool, pc_pdr := (pc_pdr c)(p := d)\<rparr>"
      using assms by simp
    then show ?thesis using a b Some u by (intro that(2) [of pool p tpool u d]) (simp_all add: d_def zero_pdr_def)
  qed
qed

lemma rule_objs_fresh:
  assumes "rule_objs c" "pdr_rules d = []" "pc_pdr c' = (pc_pdr c)(p := d)" "pc_rule c' = pc_rule c"
    "pc_rule_pool c' = pc_rule_pool c"
  shows "rule_objs c'"
  using assms by (auto simp: rule_objs_def)

lemma pdr_add_step:
  assumes a: "ogs_pfcp_pdr_add s c = Ret (c', r)"
  shows "step s c c' \<and> same_fars c c' \<and> set (pdrs_of c s) \<subseteq> set (pdrs_of c' s) \<and>
    (\<forall>p. r = Some p \<longrightarrow> p \<in> set (pdrs_of c' s))"
proof (cases r)
  case None
  show ?thesis
  proof (rule pdr_add_None [OF a [unfolded None]])
    fix pool p tpool t d
    assume al: "ogs_pool_alloc (pc_pdr_pool c) = (pool, Some p)" "ogs_pool_alloc (pc_teid_pool c) = (tpool, Some t)"
      and d: "pdr_rules d = []" and c': "c' = c\<lparr>pc_pdr_pool := ogs_pool_free pool p, pc_teid_pool := tpool, pc_pdr := (pc_pdr c)(p := d)\<rparr>"
    have same: "same_fars c c'" "same_urrs c c'" "same_qers c c'" "same_bars c c'" by (simp_all add: same_defs c')
    have "pfcp_ok c' \<and> frame s c c'" if ok: "pfcp_ok c"
    proof
      note k = pfcp_okD(1) [OF ok, unfolded pdr_objs_def]
      note fresh = fresh_object [OF k al(1)]
      have "pdr_objs c'" unfolding pdr_objs_def
        using kind_ok_alloc_free [OF k al(1), of "\<lambda>q. pdr_sess (pc_pdr c' q)" "\<lambda>q. pdr_id_node (pc_pdr c' q)"]
        by (simp add: c' pdrs_of_def [abs_def])
      moreover have "teid_nodes c'"
        using pool.acquire_Some [OF _ al(2)] pfcp_okD(2) [OF ok] fresh by (auto simp: teid_nodes_def c' pdrs_of_def)
      moreover have "rule_objs c'" by (rule rule_objs_fresh [OF pfcp_okD(7) [OF ok] d]) (simp_all add: c')
      moreover have "teid_table c'" using pfcp_okD(8) [OF ok] teid_table_cong [of c' c] by (simp add: c')
      ultimately show "pfcp_ok c'" using same_parts [OF ok] same by blast
      show "frame s c c'" using fresh by (auto simp: frame_def c')
    qed
    then show ?thesis using None same by (simp add: step_def c' pdrs_of_def)
  qed (simp add: None same_defs)
next
  case (Some p)
  obtain pool tpool ids t i where al: "ogs_pool_alloc (pc_pdr_pool c) = (pool, Some p)"
    "ogs_pool_alloc (pc_teid_pool c) = (tpool, Some t)" "ogs_pool_alloc (ps_pdr_ids (pc_sess c s)) = (ids, Some i)"
    and c': "c' = c\<lparr>pc_pdr_pool := pool, pc_teid_pool := tpool,
       pc_pdr := (pc_pdr c)(p := zero_pdr\<lparr>pdr_src_if := OGS_PFCP_INTERFACE_UNKNOWN, pdr_teid_node := t,
         pdr_teid := pc_teids c ! t, pdr_id_node := i, pdr_id := sequence_id i, pdr_sess := s\<rparr>),
       pc_sess := (pc_sess c)(s := (pc_sess c s)\<lparr>ps_pdr_ids := ids, ps_pdr_list := pdrs_of c s @ [p]\<rparr>)\<rparr>"
    by (rule pdr_add_Some [OF a [unfolded Some]])
  have same: "same_fars c c'" "same_urrs c c'" "same_qers c c'" "same_bars c c'" by (simp_all add: same_defs c')
  have ls: "pdrs_of c' q = (if q = s then pdrs_of c s @ [p] else pdrs_of c q)" for q by (simp add: pdrs_of_def c')
  have "pfcp_ok c' \<and> frame s c c'" if ok: "pfcp_ok c"
  proof
    note k = pfcp_okD(1) [OF ok, unfolded pdr_objs_def]
    note fresh = fresh_object [OF k al(1)]
    have "pdr_objs c'" unfolding pdr_objs_def
      using kind_ok_add [OF k, of pool p s ids i "pdrs_of c'" "\<lambda>s. ps_pdr_ids (pc_sess c' s)"] al ls by (simp add: c')
    moreover have "teid_nodes c'"
    proof -
      have tp: "pool_ok (pc_teid_pool c)" using pfcp_okD(2) [OF ok] by (simp add: teid_nodes_def)
      note t = pool.acquire_Some [OF tp al(2)]
      have old: "x \<noteq> p \<and> pdr_teid_node (pc_pdr c' x) = pdr_teid_node (pc_pdr c x) \<and> pdr_teid_node (pc_pdr c x) \<in> allocated (pc_teid_pool c)"
        if "x \<in> set (pdrs_of c q)" for x q
        using that fresh pfcp_okD(2) [OF ok] by (auto simp: teid_nodes_def c')
      have new: "pdr_teid_node (pc_pdr c' p) = t" by (simp add: c')
      have mem: "x \<in> set (pdrs_of c' q) \<longleftrightarrow> x \<in> set (pdrs_of c q) \<or> x = p \<and> q = s" for x q by (auto simp: ls)
      have "pdr_teid_node (pc_pdr c' x) \<in> allocated tpool" if "x \<in> set (pdrs_of c' q)" for x q
        using that old new t unfolding mem by auto
      moreover have "y = x" if "x \<in> set (pdrs_of c' q)" "y \<in> set (pdrs_of c' r)"
        "pdr_teid_node (pc_pdr c' y) = pdr_teid_node (pc_pdr c' x)" for x y q r
      proof -
        have "y = x" if "x \<in> set (pdrs_of c q)" "y \<in> set (pdrs_of c r)" "pdr_teid_node (pc_pdr c y) = pdr_teid_node (pc_pdr c x)"
          using that pfcp_okD(2) [OF ok] unfolding teid_nodes_def by blast
        then show ?thesis using that old new t unfolding mem by metis
      qed
      ultimately show ?thesis using t unfolding teid_nodes_def by (simp add: c')
    qed
    moreover have "rule_objs c'" by (rule rule_objs_fresh [OF pfcp_okD(7) [OF ok]]) (simp_all add: c' zero_pdr_def)
    moreover have "teid_table c'" using pfcp_okD(8) [OF ok] teid_table_cong [of c' c] by (simp add: c')
    ultimately show "pfcp_ok c'" using same_parts [OF ok] same by blast
    show "frame s c c'" using fresh by (auto simp: frame_def c')
  qed
  then show ?thesis using Some ls same by (auto simp: step_def)
qed

end
