(* ===== verification/Pfcp_Steps.thy ===== *)
theory Pfcp_Steps
  imports Pfcp_Invariant
begin

text \<open>
  Every operation on the PFCP objects of a session, in the order a request applies them, keeps
  the invariant and the objects of the other sessions.
\<close>

lemma runs_bind_iff: "runs (exec_bind m f) Q \<longleftrightarrow> runs m (\<lambda>x. runs (f x) Q)"
  by (auto simp: runs_def)

lemma runs_if: "runs (if b then m else n) Q \<longleftrightarrow> (b \<longrightarrow> runs m Q) \<and> (\<not> b \<longrightarrow> runs n Q)"
  by simp

lemma runs_True: "runs m (\<lambda>_. True)"
  by (simp add: runs_def)

section \<open>States reached by a request\<close>

lemma lists_update [simp]:
  shows "pdrs_of (update_pdr n f c) = pdrs_of c" "fars_of (update_pdr n f c) = fars_of c" "urrs_of (update_pdr n f c) = urrs_of c" "qers_of (update_pdr n f c) = qers_of c"
    "pdrs_of (update_far n g c) = pdrs_of c" "fars_of (update_far n g c) = fars_of c" "urrs_of (update_far n g c) = urrs_of c" "qers_of (update_far n g c) = qers_of c"
    "pdrs_of (update_urr n h c) = pdrs_of c" "fars_of (update_urr n h c) = fars_of c" "urrs_of (update_urr n h c) = urrs_of c" "qers_of (update_urr n h c) = qers_of c"
    "pdrs_of (update_qer n k c) = pdrs_of c" "fars_of (update_qer n k c) = fars_of c" "urrs_of (update_qer n k c) = urrs_of c" "qers_of (update_qer n k c) = qers_of c"
    "pdrs_of (update_rule n l c) = pdrs_of c" "fars_of (update_rule n l c) = fars_of c" "urrs_of (update_rule n l c) = urrs_of c" "qers_of (update_rule n l c) = qers_of c"
  by (simp_all add: fun_eq_iff lists_defs update_pdr_def update_far_def update_urr_def update_qer_def update_rule_def)

text \<open>
  \<open>a\<close> is the context a request on session \<open>s\<close> starts from. An object is foreign when another
  session has it: during the request no operation makes an object foreign.
\<close>

definition kept :: "nat \<Rightarrow> pfcp_ctx \<Rightarrow> pfcp_ctx \<Rightarrow> bool" where
  "kept s a c \<longleftrightarrow> pfcp_ok c \<and> frame s a c"

definition foreign :: "(pfcp_ctx \<Rightarrow> nat \<Rightarrow> nat list) \<Rightarrow> nat \<Rightarrow> pfcp_ctx \<Rightarrow> nat \<Rightarrow> bool" where
  "foreign lst s c n \<longleftrightarrow> (\<exists>r. r \<noteq> s \<and> n \<in> set (lst c r))"

lemma kept_refl: "pfcp_ok c \<Longrightarrow> kept s c c"
  by (simp add: kept_def)

lemma kept_ok: "kept s a c \<Longrightarrow> pfcp_ok c"
  by (simp add: kept_def)

lemma kept_step: "kept s a c \<Longrightarrow> step s c c' \<Longrightarrow> kept s a c'"
  by (auto simp: kept_def step_def intro: frame_trans)

lemma kept_same_lists:
  assumes "kept s a c" "r \<noteq> s"
  shows "pc_sess c r = pc_sess a r" "pdrs_of c r = pdrs_of a r" "fars_of c r = fars_of a r" "urrs_of c r = urrs_of a r"
    "qers_of c r = qers_of a r"
  using assms by (simp_all add: kept_def frame_def lists_defs)

lemma kept_foreign:
  assumes "kept s a c"
  shows "foreign pdrs_of s c = foreign pdrs_of s a" "foreign fars_of s c = foreign fars_of s a"
    "foreign urrs_of s c = foreign urrs_of s a" "foreign qers_of s c = foreign qers_of s a"
  using kept_same_lists [OF assms] by (auto simp: foreign_def fun_eq_iff)

lemma own_pdr: "kept s a c \<Longrightarrow> p \<in> set (pdrs_of c s) \<Longrightarrow> \<not> foreign pdrs_of s a p"
  using kept_foreign(1) [of s a c] other_session(1) [of c] by (auto simp: kept_def foreign_def fun_eq_iff)

lemma own_far: "kept s a c \<Longrightarrow> x \<in> set (fars_of c s) \<Longrightarrow> \<not> foreign fars_of s a x"
  using kept_foreign(2) [of s a c] other_session(2) [of c] by (auto simp: kept_def foreign_def fun_eq_iff)

lemma own_urr: "kept s a c \<Longrightarrow> u \<in> set (urrs_of c s) \<Longrightarrow> \<not> foreign urrs_of s a u"
  using kept_foreign(3) [of s a c] other_session(3) [of c] by (auto simp: kept_def foreign_def fun_eq_iff)

lemma own_qer: "kept s a c \<Longrightarrow> q \<in> set (qers_of c s) \<Longrightarrow> \<not> foreign qers_of s a q"
  using kept_foreign(4) [of s a c] other_session(4) [of c] by (auto simp: kept_def foreign_def fun_eq_iff)

lemma kept_frame:
  assumes "kept s a c" "pfcp_ok c'" "frame s c c'"
  shows "kept s a c'"
  using assms frame_trans by (auto simp: kept_def)

lemma not_foreign:
  assumes "kept s a c" "r \<noteq> s"
  shows "\<not> foreign pdrs_of s a p \<Longrightarrow> p \<notin> set (pdrs_of c r)" "\<not> foreign fars_of s a x \<Longrightarrow> x \<notin> set (fars_of c r)"
  using kept_same_lists [OF assms] assms(2) by (auto simp: foreign_def)

subsection \<open>Changes of fields\<close>

lemma kept_update_pdr:
  assumes k: "kept s a c" and p: "\<not> foreign pdrs_of s a p"
    and f: "\<And>d. pdr_sess (f d) = pdr_sess d \<and> pdr_id_node (f d) = pdr_id_node d \<and>
      pdr_teid_node (f d) = pdr_teid_node d \<and> pdr_rules (f d) = pdr_rules d"
  shows "kept s a (update_pdr p f c)"
proof (rule kept_frame [OF k])
  show "pfcp_ok (update_pdr p f c)" by (rule pfcp_ok_fields [OF kept_ok [OF k]]) (simp_all add: update_pdr_def f)
  show "frame s c (update_pdr p f c)"
    using p kept_foreign(1) [OF k] by (auto simp: frame_def update_pdr_def foreign_def fun_eq_iff)
qed

lemma kept_update_far:
  assumes k: "kept s a c" and x: "\<not> foreign fars_of s a x"
    and f: "\<And>d. far_sess (f d) = far_sess d \<and> far_id_node (f d) = far_id_node d \<and> far_hash_f_teid (f d) = far_hash_f_teid d"
  shows "kept s a (update_far x f c)"
proof (rule kept_frame [OF k])
  show "pfcp_ok (update_far x f c)" by (rule pfcp_ok_fields [OF kept_ok [OF k]]) (simp_all add: update_far_def f)
  show "frame s c (update_far x f c)"
    using x kept_foreign(2) [OF k] by (auto simp: frame_def update_far_def foreign_def fun_eq_iff)
qed

lemma kept_update_urr:
  assumes k: "kept s a c" and u: "\<not> foreign urrs_of s a u"
    and f: "\<And>d. uo_sess (f d) = uo_sess d \<and> uo_id_node (f d) = uo_id_node d"
  shows "kept s a (update_urr u f c)"
proof (rule kept_frame [OF k])
  show "pfcp_ok (update_urr u f c)" by (rule pfcp_ok_fields [OF kept_ok [OF k]]) (simp_all add: update_urr_def f)
  show "frame s c (update_urr u f c)"
    using u kept_foreign(3) [OF k] by (auto simp: frame_def update_urr_def foreign_def fun_eq_iff)
qed

lemma kept_update_qer:
  assumes k: "kept s a c" and q: "\<not> foreign qers_of s a q"
    and f: "\<And>d. qer_sess (f d) = qer_sess d \<and> qer_id_node (f d) = qer_id_node d"
  shows "kept s a (update_qer q f c)"
proof (rule kept_frame [OF k])
  show "pfcp_ok (update_qer q f c)" by (rule pfcp_ok_fields [OF kept_ok [OF k]]) (simp_all add: update_qer_def f)
  show "frame s c (update_qer q f c)"
    using q kept_foreign(4) [OF k] by (auto simp: frame_def update_qer_def foreign_def fun_eq_iff)
qed

text \<open>A flow rule of a PDR that no other session has belongs to no PDR of another session.\<close>

lemma rule_not_foreign:
  assumes "kept s a c" "\<not> foreign pdrs_of s a p" "l \<in> set (pdr_rules (pc_pdr c p))" "r \<noteq> s" "q \<in> set (pdrs_of c r)"
  shows "l \<notin> set (pdr_rules (pc_pdr c q))"
proof
  assume "l \<in> set (pdr_rules (pc_pdr c q))"
  then have "q = p" using assms(3) pfcp_okD(7) [OF kept_ok [OF assms(1)]] unfolding rule_objs_def by metis
  with assms(2,4,5) kept_foreign(1) [OF assms(1)] show False by (auto simp: foreign_def fun_eq_iff)
qed

lemma kept_update_rule:
  assumes k: "kept s a c" and p: "\<not> foreign pdrs_of s a p" "l \<in> set (pdr_rules (pc_pdr c p))"
    and f: "\<And>d. rl_pdr (f d) = rl_pdr d"
  shows "kept s a (update_rule l f c)"
proof (rule kept_frame [OF k])
  show "pfcp_ok (update_rule l f c)" by (rule pfcp_ok_fields [OF kept_ok [OF k]]) (simp_all add: update_rule_def f)
  show "frame s c (update_rule l f c)"
    using rule_not_foreign [OF k p] by (auto simp: frame_def update_rule_def)
qed

subsection \<open>New objects\<close>

lemma pdr_find_or_add_runs:
  assumes k: "kept s a c"
  shows "runs (ogs_pfcp_pdr_find_or_add s i c) (\<lambda>(c', r). kept s a c' \<and> (\<forall>p. r = Some p \<longrightarrow> p \<in> set (pdrs_of c' s)))"
proof (cases "ogs_pfcp_pdr_find s i c")
  case None
  have add: "runs (ogs_pfcp_pdr_add s c) (\<lambda>(c', r). kept s a c' \<and> (\<forall>p. r = Some p \<longrightarrow> p \<in> set (pdrs_of c' s)))"
    using pdr_add_step kept_step [OF k] by (fastforce simp: runs_def)
  show ?thesis unfolding ogs_pfcp_pdr_find_or_add_def None option.case
    by (rule runs_bind [OF add]) (auto split: option.splits intro!: kept_update_pdr simp: own_pdr)
qed (use find_in_list(1) k in \<open>auto simp: ogs_pfcp_pdr_find_or_add_def\<close>)

lemma kept_find_or_add:
  assumes k: "kept s a c"
  shows "ogs_pfcp_far_find_or_add s i c = (c', r) \<Longrightarrow>
      kept s a c' \<and> pdrs_of c' s = pdrs_of c s \<and> pc_pdr c' = pc_pdr c \<and> (\<forall>x. r = Some x \<longrightarrow> x \<in> set (fars_of c' s))"
    "ogs_pfcp_urr_find_or_add s j c = (c', r) \<Longrightarrow>
      kept s a c' \<and> pdrs_of c' s = pdrs_of c s \<and> pc_pdr c' = pc_pdr c \<and> (\<forall>u. r = Some u \<longrightarrow> u \<in> set (urrs_of c' s))"
    "ogs_pfcp_qer_find_or_add s i c = (c', r) \<Longrightarrow>
      kept s a c' \<and> pdrs_of c' s = pdrs_of c s \<and> pc_pdr c' = pc_pdr c \<and> (\<forall>q. r = Some q \<longrightarrow> q \<in> set (qers_of c' s))"
  using far_find_or_add_ok [of s i c c' r] urr_find_or_add_ok [of s j c c' r] qer_find_or_add_ok [of s i c c' r]
    kept_step [OF k] by (auto simp: same_pdrs_def)

subsection \<open>Flow rules\<close>

lemma kept_rule_add:
  assumes k: "kept s a c" and p: "\<not> foreign pdrs_of s a p"
  shows "runs (ogs_pfcp_rule_add p c) (\<lambda>(c', r). kept s a c' \<and> r \<in> set (pdr_rules (pc_pdr c' p)) \<and> pdrs_of c' = pdrs_of c)"
proof (rule runs_I)
  fix x
  assume m: "ogs_pfcp_rule_add p c = Ret x"
  obtain pool r where al: "ogs_pool_alloc (pc_rule_pool c) = (pool, Some r)"
    and x: "x = (update_pdr p (\<lambda>d. d\<lparr>pdr_rules := pdr_rules d @ [r]\<rparr>)
      (c\<lparr>pc_rule_pool := pool, pc_rule := (pc_rule c)(r := zero_rule\<lparr>rl_pdr := p\<rparr>)\<rparr>), r)"
    using m by (auto simp: ogs_pfcp_rule_add_def split: prod.splits option.splits)
  obtain c' where c': "x = (c', r)" "c' = c\<lparr>pc_rule_pool := pool, pc_rule := (pc_rule c)(r := zero_rule\<lparr>rl_pdr := p\<rparr>),
      pc_pdr := (pc_pdr c)(p := (pc_pdr c p)\<lparr>pdr_rules := pdr_rules (pc_pdr c p) @ [r]\<rparr>)\<rparr>"
    using x by (simp add: update_pdr_def)
  note ok = kept_ok [OF k]
  have ro: "rule_objs c" by (rule pfcp_okD(7) [OF ok])
  then have "pool_ok (pc_rule_pool c)" by (simp add: rule_objs_def)
  note r = pool.acquire_Some [OF this al]
  have fresh: "r \<notin> set (pdr_rules (pc_pdr c q))" for q using ro r unfolding rule_objs_def by blast
  have same: "same_fars c c'" "same_urrs c c'" "same_qers c c'" "same_bars c c'" by (simp_all add: same_defs c')
  have "pdr_objs c'" using pfcp_okD(1) [OF ok] pdr_objs_cong [of c' c] by (simp add: c' pdrs_of_def)
  moreover have "teid_nodes c'" by (rule teid_nodes_cong [OF _ _ _ pfcp_okD(2) [OF ok]]) (simp_all add: c' pdrs_of_def)
  moreover have "rule_objs c'" using ro r fresh by (auto simp: rule_objs_def c')
  moreover have "teid_table c'" using pfcp_okD(8) [OF ok] teid_table_cong [of c' c] by (simp add: c')
  ultimately have "pfcp_ok c'" using same_parts [OF ok] same by blast
  moreover have "frame s c c'" using fresh not_foreign(1) [OF k _ p] by (auto simp: frame_def c'(2))
  ultimately have "kept s a c'" by (rule kept_frame [OF k])
  then show "case x of (c', r) \<Rightarrow> kept s a c' \<and> r \<in> set (pdr_rules (pc_pdr c' p)) \<and> pdrs_of c' = pdrs_of c"
    by (simp add: c'(1)) (simp add: c'(2) pdrs_of_def fun_eq_iff)
qed

lemma kept_rule_remove:
  assumes k: "kept s a c" and p: "\<not> foreign pdrs_of s a p" "r \<in> set (pdr_rules (pc_pdr c p))"
    and c': "c' = ogs_pfcp_rule_remove r c"
  shows "kept s a c' \<and> pdr_rules (pc_pdr c' p) = remove1 r (pdr_rules (pc_pdr c p)) \<and> pdrs_of c' = pdrs_of c"
proof -
  note ok = kept_ok [OF k]
  have ro: "rule_objs c" by (rule pfcp_okD(7) [OF ok])
  then have own: "rl_pdr (pc_rule c r) = p" "r \<in> allocated (pc_rule_pool c)" "pool_ok (pc_rule_pool c)"
    using p(2) unfolding rule_objs_def by blast+
  have e: "c' = c\<lparr>pc_rule_pool := ogs_pool_free (pc_rule_pool c) r,
      pc_pdr := (pc_pdr c)(p := (pc_pdr c p)\<lparr>pdr_rules := remove1 r (pdr_rules (pc_pdr c p))\<rparr>)\<rparr>"
    by (simp add: c' ogs_pfcp_rule_remove_def Let_def own update_pdr_def)
  note f = free_allocated [OF own(3,2)]
  have other: "r \<notin> set (pdr_rules (pc_pdr c q))" if "q \<noteq> p" for q using ro own(1) that unfolding rule_objs_def by metis
  have d: "distinct (pdr_rules (pc_pdr c q))" for q using ro unfolding rule_objs_def by blast
  have same: "same_fars c c'" "same_urrs c c'" "same_qers c c'" "same_bars c c'" by (simp_all add: same_defs e)
  have "pdr_objs c'" using pfcp_okD(1) [OF ok] pdr_objs_cong [of c' c] by (simp add: e pdrs_of_def)
  moreover have "teid_nodes c'" by (rule teid_nodes_cong [OF _ _ _ pfcp_okD(2) [OF ok]]) (simp_all add: e pdrs_of_def)
  moreover have "rule_objs c'" using ro f other d [of p] by (auto simp: rule_objs_def e)
  moreover have "teid_table c'" using pfcp_okD(8) [OF ok] teid_table_cong [of c' c] by (simp add: e)
  ultimately have "pfcp_ok c'" using same_parts [OF ok] same by blast
  moreover have "frame s c c'" using not_foreign(1) [OF k _ p(1)] by (auto simp: frame_def e)
  ultimately have "kept s a c'" by (rule kept_frame [OF k])
  then show ?thesis by (simp add: e pdrs_of_def fun_eq_iff)
qed

lemma kept_rule_remove_all:
  assumes k: "kept s a c" and p: "\<not> foreign pdrs_of s a p"
  shows "kept s a (ogs_pfcp_rule_remove_all p c) \<and> pdr_rules (pc_pdr (ogs_pfcp_rule_remove_all p c) p) = []"
proof -
  have "distinct rs \<Longrightarrow> kept s a d \<Longrightarrow> pdr_rules (pc_pdr d p) = rs \<Longrightarrow>
      kept s a (fold ogs_pfcp_rule_remove rs d) \<and> pdr_rules (pc_pdr (fold ogs_pfcp_rule_remove rs d) p) = []" for rs d
  proof (induction rs arbitrary: d)
    case (Cons r rs)
    have "kept s a (ogs_pfcp_rule_remove r d) \<and> pdr_rules (pc_pdr (ogs_pfcp_rule_remove r d) p) = rs"
      using kept_rule_remove [OF Cons.prems(2) p _ refl, of r] Cons.prems(3) by simp
    with Cons show ?case by simp
  qed simp
  moreover have "distinct (pdr_rules (pc_pdr c p))"
    using pfcp_okD(7) [OF kept_ok [OF k]] unfolding rule_objs_def by blast
  ultimately show ?thesis using k by (simp add: ogs_pfcp_rule_remove_all_def)
qed

subsection \<open>Order and TEIDs of detection rules\<close>

lemma mset_insert_sorted: "mset (ogs_list_insert_sorted cmp x ys) = mset (x # ys)"
  by (induction ys) auto

lemma kept_reorder:
  assumes k: "kept s a c" and p: "p \<in> set (pdrs_of c s)" and c': "c' = ogs_pfcp_pdr_reorder_by_precedence p n c"
  shows "kept s a c' \<and> set (pdrs_of c' s) = set (pdrs_of c s)"
proof -
  note ok = kept_ok [OF k]
  have s: "pdr_sess (pc_pdr c p) = s" using kind_okD(3) [OF pfcp_okD(1) [OF ok, unfolded pdr_objs_def] p] .
  have "\<exists>cmp. c' = c\<lparr>pc_pdr := (pc_pdr c)(p := (pc_pdr c p)\<lparr>pdr_precedence := n\<rparr>),
      pc_sess := (pc_sess c)(s := (pc_sess c s)\<lparr>ps_pdr_list := ogs_list_insert_sorted cmp p (remove1 p (pdrs_of c s))\<rparr>)\<rparr>"
    by (rule exI) (simp add: c' ogs_pfcp_pdr_reorder_by_precedence_def Let_def s update_sess_def update_pdr_def pdrs_of_def)
  then obtain cmp where "c' = c\<lparr>pc_pdr := (pc_pdr c)(p := (pc_pdr c p)\<lparr>pdr_precedence := n\<rparr>),
      pc_sess := (pc_sess c)(s := (pc_sess c s)\<lparr>ps_pdr_list := ogs_list_insert_sorted cmp p (remove1 p (pdrs_of c s))\<rparr>)\<rparr>" ..
  moreover define lst where "lst = ogs_list_insert_sorted cmp p (remove1 p (pdrs_of c s))"
  ultimately have e: "c' = c\<lparr>pc_pdr := (pc_pdr c)(p := (pc_pdr c p)\<lparr>pdr_precedence := n\<rparr>),
      pc_sess := (pc_sess c)(s := (pc_sess c s)\<lparr>ps_pdr_list := lst\<rparr>)\<rparr>" by simp
  have m: "mset lst = mset (pdrs_of c s)" using p by (simp add: lst_def mset_insert_sorted)
  have ls: "pdrs_of c' r = (if r = s then lst else pdrs_of c r)" for r by (simp add: e pdrs_of_def)
  have st: "set (pdrs_of c' r) = set (pdrs_of c r)" for r using m by (simp add: ls) (metis set_mset_mset)
  have same: "same_fars c c'" "same_urrs c c'" "same_qers c c'" "same_bars c c'" by (simp_all add: same_defs e)
  have pool: "pc_pdr_pool c' = pc_pdr_pool c" by (simp add: e)
  have "pdr_objs c'" unfolding pdr_objs_def pool
    by (rule kind_ok_perm [OF pfcp_okD(1) [OF ok, unfolded pdr_objs_def]]) (simp add: ls m, simp_all add: e)
  moreover have "teid_nodes c'" by (rule teid_nodes_cong [OF _ _ _ pfcp_okD(2) [OF ok]]) (simp add: st, simp_all add: e)
  moreover have "rule_objs c'" using pfcp_okD(7) [OF ok] rule_objs_cong [of c' c] by (simp add: e)
  moreover have "teid_table c'" using pfcp_okD(8) [OF ok] teid_table_cong [of c' c] by (simp add: e)
  ultimately have "pfcp_ok c'" using same_parts [OF ok] same by blast
  moreover have "frame s c c'" using other_session(1) [OF ok _ p] by (auto simp: frame_def e)
  ultimately show ?thesis using kept_frame [OF k] st by blast
qed

lemma kept_swap_teid:
  assumes k: "kept s a c"
  shows "runs (ogs_pfcp_pdr_swap_teid p c) (\<lambda>(c', r). kept s a c' \<and> pc_sess c' = pc_sess c)"
proof -
  have "kept s a (c\<lparr>pc_teids := ts\<rparr>)" for ts
    by (rule kept_frame [OF k], rule pfcp_ok_fields [OF kept_ok [OF k]]) (simp_all add: frame_def)
  then show ?thesis using k by (auto simp: ogs_pfcp_pdr_swap_teid_def Let_def)
qed

text \<open>The choice of an F-TEID changes no field that the invariant is about.\<close>

definition pdr_core :: "pfcp_pdr \<Rightarrow> nat \<times> nat \<times> nat \<times> nat list" where
  "pdr_core d = (pdr_sess d, pdr_id_node d, pdr_teid_node d, pdr_rules d)"

lemma choose_f_teid_keeps: "runs (choose_f_teid p c) (\<lambda>(d, ok). pdr_core d = pdr_core (pc_pdr c p))"
proof -
  define d where "d = pc_pdr c p"
  define ch where "ch = (if te_chid (pdr_f_teid d)
    then ogs_pfcp_pdr_find_by_choose_id (pdr_sess d) (te_choose_id (pdr_f_teid d)) c else None)"
  define d1 where "d1 = (if te_chid (pdr_f_teid d) \<and> ch = None
    then d\<lparr>pdr_chid := True, pdr_choose_id := te_choose_id (pdr_f_teid d)\<rparr> else d)"
  have d1: "pdr_core d1 = pdr_core d" by (simp add: d1_def pdr_core_def)
  have put: "pdr_core (d1\<lparr>pdr_f_teid := f, pdr_f_teid_len := n\<rparr>) = pdr_core d"
    "pdr_core (d1\<lparr>pdr_f_teid_len := n, pdr_f_teid := f\<rparr>) = pdr_core d" for f n
    using d1 by (simp_all add: pdr_core_def)
  show ?thesis
    unfolding choose_f_teid_def Let_def d_def [symmetric] ch_def [symmetric] d1_def [symmetric]
    by (cases ch; cases "ogs_pfcp_find_gtpu_resource (pc_resources c) (pdr_dnn d1) (pdr_src_if d1)")
      (simp_all only: option.case runs_Ret runs_bind_iff runs_if runs_True fst_conv put d1 case_prod_unfold simp_thms split: option.split)
qed

lemma find_by_teid_set:
  assumes "hash_ok (pc_object_hash c)" "pc_object_hash c' = hash_set (pc_object_hash c) (key32 t) v"
  shows "hash_ok (pc_object_hash c')"
    "ogs_pfcp_object_find_by_teid u c' = (if u = t then v else ogs_pfcp_object_find_by_teid u c)"
  using assms hash_set_correct [OF assms(1), of "key32 t" v] hash_get_map
  by (simp_all add: ogs_pfcp_object_find_by_teid_def)

lemma teid_table_set:
  assumes "teid_table c" "pc_object_hash c' = hash_set (pc_object_hash c) (key32 t) v" "\<And>obj. v = Some obj \<Longrightarrow> \<exists>n. obj = Obj_Sess n"
  shows "teid_table c'"
  using assms find_by_teid_set [OF _ assms(2)] unfolding teid_table_def by auto

text \<open>A PDR with new contents that keep its place, and a new table of TEIDs.\<close>

lemma kept_put_pdr:
  assumes k: "kept s a c" and p: "\<not> foreign pdrs_of s a p" and d: "pdr_core d = pdr_core (pc_pdr c p)"
    and h: "teid_table (c\<lparr>pc_object_hash := h\<rparr>)"
  shows "kept s a (c\<lparr>pc_pdr := (pc_pdr c)(p := d), pc_object_hash := h\<rparr>)"
proof -
  define c' where "c' = c\<lparr>pc_object_hash := h\<rparr>"
  note ok = pfcp_okD [OF kept_ok [OF k]]
  have e: "pfcp_ok c'"
  proof (rule pfcp_okI)
    have [simp]: "pdrs_of (c\<lparr>pc_object_hash := h\<rparr>) = pdrs_of c" by (simp add: pdrs_of_def fun_eq_iff)
    show "pdr_objs c'" using ok(1) pdr_objs_cong [of c' c] by (simp add: c'_def)
    show "teid_nodes c'" by (rule teid_nodes_cong [OF _ _ _ ok(2)]) (simp_all add: c'_def)
    show "rule_objs c'" using ok(7) rule_objs_cong [of c' c] by (simp add: c'_def)
    show "teid_table c'" using h by (simp add: c'_def)
  qed (use same_parts [OF kept_ok [OF k], of c'] in \<open>simp_all add: same_defs c'_def\<close>)
  have "kept s a c'" by (rule kept_frame [OF k e]) (simp add: frame_def c'_def)
  then have "kept s a (update_pdr p (\<lambda>e. d\<lparr>pdr_sess := pdr_sess e, pdr_id_node := pdr_id_node e,
      pdr_teid_node := pdr_teid_node e, pdr_rules := pdr_rules e\<rparr>) c')"
    by (rule kept_update_pdr [OF _ p]) simp
  moreover have "d\<lparr>pdr_sess := pdr_sess (pc_pdr c p), pdr_id_node := pdr_id_node (pc_pdr c p),
      pdr_teid_node := pdr_teid_node (pc_pdr c p), pdr_rules := pdr_rules (pc_pdr c p)\<rparr> = d"
    using d by (cases d) (simp add: pdr_core_def)
  moreover have "c\<lparr>pc_pdr := (pc_pdr c)(p := d), pc_object_hash := h\<rparr> = c'\<lparr>pc_pdr := (pc_pdr c)(p := d)\<rparr>"
    unfolding c'_def by (rule pfcp_ctx.equality) simp_all
  ultimately show ?thesis by (simp add: update_pdr_def) (simp add: c'_def)
qed

lemma kept_teid_hash_set:
  assumes k: "kept s a c" and p: "\<not> foreign pdrs_of s a p"
  shows "runs (ogs_pfcp_object_teid_hash_set True p c) (\<lambda>(c', r). kept s a c' \<and> pc_sess c' = pc_sess c)"
proof -
  have choice: "runs (if pc_ftup c \<and> te_ch (pdr_f_teid (pc_pdr c p)) then choose_f_teid p c else Ret (pc_pdr c p, True))
      (\<lambda>(d, ok). pdr_core d = pdr_core (pc_pdr c p))"
    using choose_f_teid_keeps by simp
  note tt = pfcp_okD(8) [OF kept_ok [OF k]]
  have put: "kept s a (c\<lparr>pc_pdr := (pc_pdr c)(p := d\<lparr>pdr_hash_teid := x\<rparr>), pc_object_hash :=
      hash_set (case y of None \<Rightarrow> pc_object_hash c | Some k \<Rightarrow> hash_set (pc_object_hash c) (key32 k) None)
        (key32 t) (Some (Obj_Sess n))\<rparr>)" if "pdr_core d = pdr_core (pc_pdr c p)" for d x y t n
  proof (rule kept_put_pdr [OF k p])
    show "pdr_core (d\<lparr>pdr_hash_teid := x\<rparr>) = pdr_core (pc_pdr c p)" using that by (simp add: pdr_core_def)
    have "teid_table (c\<lparr>pc_object_hash := (case y of None \<Rightarrow> pc_object_hash c
        | Some k \<Rightarrow> hash_set (pc_object_hash c) (key32 k) None)\<rparr>)"
      by (cases y) (simp add: tt, simp, rule teid_table_set [OF tt, where v = None], simp_all)
    then show "teid_table (c\<lparr>pc_object_hash := hash_set (case y of None \<Rightarrow> pc_object_hash c
        | Some k \<Rightarrow> hash_set (pc_object_hash c) (key32 k) None) (key32 t) (Some (Obj_Sess n))\<rparr>)"
      by (rule teid_table_set) auto
  qed
  have refused: "kept s a (c\<lparr>pc_pdr := (pc_pdr c)(p := d)\<rparr>)" if "pdr_core d = pdr_core (pc_pdr c p)" for d
    using kept_put_pdr [OF k p that, of "pc_object_hash c"] tt by simp
  show ?thesis unfolding ogs_pfcp_object_teid_hash_set_def
    by (rule runs_bind [OF choice]) (auto simp: Let_def put refused)
qed

subsection \<open>The table of the peers' F-TEIDs\<close>

lemma hash_empty_key: "hash_get h [] = None" "hash_set h [] v = h"
  by (simp_all add: hash_get_def hash_set_def ogs_hash_get_debug_def ogs_hash_set_debug_def)

lemma hash_get_set:
  assumes "hash_ok h"
  shows "hash_ok (hash_set h k v)" "hash_get (hash_set h k v) j = (if j = k \<and> k \<noteq> [] then v else hash_get h j)"
proof -
  have "hash_ok (hash_set h k v) \<and> hash_get (hash_set h k v) j = (if j = k \<and> k \<noteq> [] then v else hash_get h j)"
  proof (cases "k = []")
    case False
    then show ?thesis
      using hash_set_correct [OF assms False, of v] hash_get_map assms by (cases "j = []") (simp_all add: hash_empty_key)
  qed (simp add: hash_empty_key assms)
  then show "hash_ok (hash_set h k v)" "hash_get (hash_set h k v) j = (if j = k \<and> k \<noteq> [] then v else hash_get h j)"
    by simp_all
qed

lemma peer_tableD:
  assumes "peer_table c"
  shows "hash_ok (pc_far_f_teid_hash c)"
    "hash_get (pc_far_f_teid_hash c) k = Some x \<Longrightarrow> far_hash_f_teid (pc_far c x) = Some k \<and> (\<exists>s. x \<in> set (fars_of c s))"
  using assms by (simp_all add: peer_table_def)

lemma kept_f_teid_hash_set:
  assumes k: "kept s a c" and x: "x \<in> set (fars_of c s)"
  shows "runs (ogs_pfcp_far_f_teid_hash_set x c) (\<lambda>c'. kept s a c' \<and> pc_sess c' = pc_sess c)"
proof (rule runs_I)
  fix c'
  assume m: "ogs_pfcp_far_f_teid_hash_set x c = Ret c'"
  define h where "h = (case far_hash_f_teid (pc_far c x) of None \<Rightarrow> pc_far_f_teid_hash c
    | Some k \<Rightarrow> hash_set (pc_far_f_teid_hash c) k None)"
  obtain g where g: "far_gnode (pc_far c x) = Some g" "gn_family g = AF_INET \<or> gn_family g = AF_INET6"
    using m by (cases "far_gnode (pc_far c x)") (auto simp: ogs_pfcp_far_f_teid_hash_set_def Let_def split: if_splits)
  define key where "key = key32 (far_ohc_teid (pc_far c x)) @ take (if gn_family g = AF_INET then 4 else 16) (gn_addr g)"
  have e: "c' = c\<lparr>pc_far := (pc_far c)(x := (pc_far c x)\<lparr>far_hash_f_teid := Some key\<rparr>),
      pc_far_f_teid_hash := hash_set h key (Some x)\<rparr>"
    using m g(2) unfolding ogs_pfcp_far_f_teid_hash_set_def Let_def h_def key_def by (auto simp: g(1) update_far_def)
  note ok = kept_ok [OF k]
  note pt = peer_tableD [OF pfcp_okD(9) [OF ok]]
  have h: "hash_ok h" "hash_get h j = Some y \<Longrightarrow> hash_get (pc_far_f_teid_hash c) j = Some y \<and> y \<noteq> x" for j y
    using hash_get_set [OF pt(1)] pt unfolding h_def by (auto simp: hash_empty_key split: option.splits if_splits)
  have same: "same_pdrs c c'" "same_urrs c c'" "same_qers c c'" "same_bars c c'" by (simp_all add: same_defs e)
  have "far_objs c'" using pfcp_okD(3) [OF ok] far_objs_cong [of c' c] by (simp add: e fars_of_def)
  moreover have "peer_table c'" unfolding peer_table_def
  proof (intro conjI allI impI)
    show "hash_ok (pc_far_f_teid_hash c')" using hash_get_set(1) [OF h(1)] by (simp add: e)
    fix j y
    assume "hash_get (pc_far_f_teid_hash c') j = Some y"
    then have "j = key \<and> y = x \<or> hash_get h j = Some y" using hash_get_set(2) [OF h(1)] by (simp add: e split: if_splits)
    then show "far_hash_f_teid (pc_far c' y) = Some j" "\<exists>s. y \<in> set (fars_of c' s)"
      using h(2) [of j y] pt(2) [of j y] x by (auto simp: e fars_of_def)
  qed
  ultimately have "pfcp_ok c'" using same_parts [OF ok] same by blast
  moreover have "frame s c c'" using other_session(2) [OF ok _ x] by (auto simp: frame_def e)
  ultimately show "kept s a c' \<and> pc_sess c' = pc_sess c" using kept_frame [OF k] by (simp add: e)
qed

subsection \<open>The buffering action rule\<close>

lemma bar_objsD:
  assumes "bar_objs c"
  shows "pool_ok (pc_bar_pool c)" "pool_ok (ps_bar_ids (pc_sess c r))"
    "ps_bar (pc_sess c r) = Some b \<Longrightarrow> bar_sess (pc_bar c b) = Some r \<and> b \<in> allocated (pc_bar_pool c) \<and>
       bar_id_node (pc_bar c b) \<in> allocated (ps_bar_ids (pc_sess c r))"
    "allocated (pc_bar_pool c) \<subseteq> {b. \<exists>s. ps_bar (pc_sess c s) = Some b}"
  using assms by (simp_all add: bar_objs_def)

lemma kept_bar_new:
  assumes k: "kept s a c"
  shows "runs (ogs_pfcp_bar_new s c) (\<lambda>(c', b). kept s a c' \<and> ps_bar (pc_sess c' s) = Some b)"
proof (rule runs_I)
  fix x
  assume m: "ogs_pfcp_bar_new s c = Ret x"
  obtain objs ids n i where al: "ogs_pool_alloc (pc_bar_pool c) = (objs, Some n)"
    "ogs_pool_alloc (ps_bar_ids (pc_sess c s)) = (ids, Some i)" and x: "x = (update_sess s (\<lambda>ps. ps\<lparr>ps_bar_ids := ids, ps_bar := Some n\<rparr>)
      (c\<lparr>pc_bar_pool := objs, pc_bar := (pc_bar c)(n := \<lparr>bar_id_node = i, bar_id = of_nat (i + 1), bar_sess = Some s\<rparr>)\<rparr>), n)"
    using m by (auto simp: ogs_pfcp_bar_new_def split: prod.splits option.splits if_splits)
  obtain c' where c': "x = (c', n)" "c' = update_sess s (\<lambda>ps. ps\<lparr>ps_bar_ids := ids, ps_bar := Some n\<rparr>)
      (c\<lparr>pc_bar_pool := objs, pc_bar := (pc_bar c)(n := \<lparr>bar_id_node = i, bar_id = of_nat (i + 1), bar_sess = Some s\<rparr>)\<rparr>)"
    using x by simp
  note ok = kept_ok [OF k]
  note b = bar_objsD [OF pfcp_okD(6) [OF ok]]
  have none: "ps_bar (pc_sess c s) = None" using m by (auto simp: ogs_pfcp_bar_new_def split: if_splits)
  note n = pool.acquire_Some [OF b(1) al(1)] and i = pool.acquire_Some [OF b(2) al(2)]
  have same: "same_pdrs c c'" "same_fars c c'" "same_urrs c c'" "same_qers c c'"
    by (simp_all add: same_defs c'(2) update_sess_def)
  have old: "ps_bar (pc_sess c r) \<noteq> Some n" for r using b(3) n by blast
  have pools: "pc_bar_pool c' = objs" by (simp add: c'(2) update_sess_def)
  have "\<exists>r. ps_bar (pc_sess c' r) = Some d" if "d \<in> allocated (pc_bar_pool c')" for d
  proof (cases "d = n")
    case False
    then have "d \<in> allocated (pc_bar_pool c)" using that n pools by simp
    then obtain r where "ps_bar (pc_sess c r) = Some d" using b(4) by blast
    with none show ?thesis by (intro exI [of _ r]) (auto simp: c'(2) update_sess_def)
  qed (simp add: c'(2) update_sess_def exI [of _ s])
  then have all: "allocated (pc_bar_pool c') \<subseteq> {b. \<exists>s. ps_bar (pc_sess c' s) = Some b}"
    using pools by blast
  have "pool_ok (pc_bar_pool c') \<and> (\<forall>r. pool_ok (ps_bar_ids (pc_sess c' r)) \<and>
      (\<forall>b. ps_bar (pc_sess c' r) = Some b \<longrightarrow> bar_sess (pc_bar c' b) = Some r \<and> b \<in> allocated (pc_bar_pool c') \<and>
         bar_id_node (pc_bar c' b) \<in> allocated (ps_bar_ids (pc_sess c' r))))"
    using b(1-3) n i old by (auto simp: c'(2) update_sess_def)
  with all have "bar_objs c'" by (simp add: bar_objs_def)
  then have "pfcp_ok c'" using same_parts [OF ok] same by blast
  moreover have "frame s c c'" using old by (auto simp: frame_def c'(2) update_sess_def)
  ultimately have "kept s a c'" by (rule kept_frame [OF k])
  then show "case x of (c', b) \<Rightarrow> kept s a c' \<and> ps_bar (pc_sess c' s) = Some b"
    by (simp add: c'(1)) (simp add: c'(2) update_sess_def)
qed

lemma kept_bar_delete:
  assumes k: "kept s a c" and p: "ps_bar (pc_sess c s) = Some b"
  obtains c' where "ogs_pfcp_bar_delete b c = Ret c'" "kept s a c'" "ps_bar (pc_sess c' s) = None"
    "same_pdrs c c'" "same_fars c c'" "same_urrs c c'" "same_qers c c'"
    "allocated (pc_bar_pool c') = allocated (pc_bar_pool c) - {b}"
proof -
  note ok = kept_ok [OF k]
  note bo = bar_objsD [OF pfcp_okD(6) [OF ok]]
  note own = bo(3) [OF p]
  define c' where "c' = update_sess s (\<lambda>ps. ps\<lparr>ps_bar := None,
      ps_bar_ids := ogs_pool_free (ps_bar_ids ps) (bar_id_node (pc_bar c b))\<rparr>) c
    \<lparr>pc_bar := (pc_bar c)(b := (pc_bar c b)\<lparr>bar_sess := None\<rparr>), pc_bar_pool := ogs_pool_free (pc_bar_pool c) b\<rparr>"
  have m: "ogs_pfcp_bar_delete b c = Ret c'" using own by (simp add: ogs_pfcp_bar_delete_def c'_def)
  have f: "pool_ok (ogs_pool_free (pc_bar_pool c) b)" "allocated (ogs_pool_free (pc_bar_pool c) b) = allocated (pc_bar_pool c) - {b}"
    using free_allocated [OF bo(1)] own by blast+
  have g: "pool_ok (ogs_pool_free (ps_bar_ids (pc_sess c s)) (bar_id_node (pc_bar c b)))"
    using free_allocated [OF bo(2)] own by blast
  have same: "same_pdrs c c'" "same_fars c c'" "same_urrs c c'" "same_qers c c'"
    by (simp_all add: same_defs c'_def update_sess_def)
  have other: "ps_bar (pc_sess c r) \<noteq> Some b" if "r \<noteq> s" for r using other_session(5) [OF ok that p] .
  have "bar_objs c'" unfolding bar_objs_def
  proof (intro conjI allI impI)
    show "pool_ok (pc_bar_pool c')" using f by (simp add: c'_def)
    show "pool_ok (ps_bar_ids (pc_sess c' r))" for r using g bo(2) [of r] by (simp add: c'_def update_sess_def)
    have "(\<exists>r. ps_bar (pc_sess c' r) = Some d) \<longleftrightarrow> (\<exists>r. ps_bar (pc_sess c r) = Some d) \<and> d \<noteq> b" for d
      using other p by (simp add: c'_def update_sess_def) (metis option.inject)
    then show "allocated (pc_bar_pool c') \<subseteq> {b. \<exists>s. ps_bar (pc_sess c' s) = Some b}"
      using f(2) bo(4) unfolding c'_def by auto
    fix r d
    assume d: "ps_bar (pc_sess c' r) = Some d"
    then have r: "r \<noteq> s" "ps_bar (pc_sess c r) = Some d" by (auto simp: c'_def update_sess_def split: if_splits)
    with other have "d \<noteq> b" by blast
    then show "bar_sess (pc_bar c' d) = Some r" "d \<in> allocated (pc_bar_pool c')"
      "bar_id_node (pc_bar c' d) \<in> allocated (ps_bar_ids (pc_sess c' r))"
      using bo(3) [OF r(2)] r f by (simp_all add: c'_def update_sess_def)
  qed
  then have "pfcp_ok c'" using same_parts [OF ok] same by blast
  moreover have "frame s c c'" using other by (auto simp: frame_def c'_def update_sess_def)
  ultimately have "kept s a c'" by (rule kept_frame [OF k])
  with m same f(2) show thesis by (intro that) (simp_all, simp_all add: c'_def update_sess_def)
qed

subsection \<open>Removal\<close>

lemma kept_urr_remove:
  assumes k: "kept s a c" and u: "u \<in> set (urrs_of c s)" and e0: "c' = ogs_pfcp_urr_remove u c"
  shows "kept s a c'" "urrs_of c' s = remove1 u (urrs_of c s)" "allocated (pc_urr_pool c') = allocated (pc_urr_pool c) - {u}"
    "same_pdrs c c'" "same_fars c c'" "same_qers c c'" "same_bars c c'"
proof -
  note ok = kept_ok [OF k]
  note ko = pfcp_okD(4) [OF ok, unfolded urr_objs_def]
  have e: "c' = update_sess s (\<lambda>ps. ps\<lparr>ps_urr_list := remove1 u (ps_urr_list ps),
      ps_urr_ids := ogs_pool_free (ps_urr_ids ps) (uo_id_node (pc_urr c u))\<rparr>) c\<lparr>pc_urr_pool := ogs_pool_free (pc_urr_pool c) u\<rparr>"
    using kind_okD(3) [OF ko u] by (simp add: e0 ogs_pfcp_urr_remove_def)
  show same: "same_pdrs c c'" "same_fars c c'" "same_qers c c'" "same_bars c c'"
    by (simp_all add: same_defs e update_sess_def)
  have "kind_ok (ogs_pool_free (pc_urr_pool c) u) (urrs_of c') (\<lambda>u. uo_sess (pc_urr c' u)) (\<lambda>u. uo_id_node (pc_urr c' u))
      (\<lambda>s. ps_urr_ids (pc_sess c' s))"
    by (rule kind_ok_remove [OF ko u]) (simp_all add: e update_sess_def urrs_of_def)
  then have "urr_objs c'" by (simp add: urr_objs_def) (simp add: e)
  then have "pfcp_ok c'" using same_parts [OF ok] same by blast
  then show "kept s a c'" by (rule kept_frame [OF k]) (simp add: frame_def e update_sess_def)
  show "urrs_of c' s = remove1 u (urrs_of c s)" by (simp add: e update_sess_def urrs_of_def)
  show "allocated (pc_urr_pool c') = allocated (pc_urr_pool c) - {u}"
    using free_allocated [OF kind_okD(1) [OF ko] kind_okD(5) [OF ko u]] by (simp add: e)
qed

lemma kept_qer_remove:
  assumes k: "kept s a c" and u: "q \<in> set (qers_of c s)" and e0: "c' = ogs_pfcp_qer_remove q c"
  shows "kept s a c'" "qers_of c' s = remove1 q (qers_of c s)" "allocated (pc_qer_pool c') = allocated (pc_qer_pool c) - {q}"
    "same_pdrs c c'" "same_fars c c'" "same_urrs c c'" "same_bars c c'"
proof -
  note ok = kept_ok [OF k]
  note ko = pfcp_okD(5) [OF ok, unfolded qer_objs_def]
  have e: "c' = update_sess s (\<lambda>ps. ps\<lparr>ps_qer_list := remove1 q (ps_qer_list ps),
      ps_qer_ids := ogs_pool_free (ps_qer_ids ps) (qer_id_node (pc_qer c q))\<rparr>) c\<lparr>pc_qer_pool := ogs_pool_free (pc_qer_pool c) q\<rparr>"
    using kind_okD(3) [OF ko u] by (simp add: e0 ogs_pfcp_qer_remove_def)
  show same: "same_pdrs c c'" "same_fars c c'" "same_urrs c c'" "same_bars c c'"
    by (simp_all add: same_defs e update_sess_def)
  have "kind_ok (ogs_pool_free (pc_qer_pool c) q) (qers_of c') (\<lambda>u. qer_sess (pc_qer c' u)) (\<lambda>u. qer_id_node (pc_qer c' u))
      (\<lambda>s. ps_qer_ids (pc_sess c' s))"
    by (rule kind_ok_remove [OF ko u]) (simp_all add: e update_sess_def qers_of_def)
  then have "qer_objs c'" by (simp add: qer_objs_def) (simp add: e)
  then have "pfcp_ok c'" using same_parts [OF ok] same by blast
  then show "kept s a c'" by (rule kept_frame [OF k]) (simp add: frame_def e update_sess_def)
  show "qers_of c' s = remove1 q (qers_of c s)" by (simp add: e update_sess_def qers_of_def)
  show "allocated (pc_qer_pool c') = allocated (pc_qer_pool c) - {q}"
    using free_allocated [OF kind_okD(1) [OF ko] kind_okD(5) [OF ko u]] by (simp add: e)
qed

text \<open>The entry of a FAR leaves the table of the peers with it.\<close>

lemma peer_table_without:
  assumes pt: "peer_table c" and x: "pc_far c' = pc_far c" "\<And>r. set (fars_of c r) - {x} \<subseteq> set (fars_of c' r)"
    and h: "pc_far_f_teid_hash c' = (case far_hash_f_teid (pc_far c x) of None \<Rightarrow> pc_far_f_teid_hash c
       | Some k \<Rightarrow> hash_set (pc_far_f_teid_hash c) k None)"
  shows "peer_table c'"
  unfolding peer_table_def
proof (intro conjI allI impI)
  note p = peer_tableD [OF pt]
  show "hash_ok (pc_far_f_teid_hash c')" using p(1) hash_get_set(1) [OF p(1)] by (auto simp: h split: option.split)
  fix k y
  assume "hash_get (pc_far_f_teid_hash c') k = Some y"
  then have y: "hash_get (pc_far_f_teid_hash c) k = Some y" "y \<noteq> x"
    using hash_get_set [OF p(1)] p unfolding h by (auto simp: hash_empty_key split: option.splits if_splits)
  with p(2) obtain r where "far_hash_f_teid (pc_far c y) = Some k" "y \<in> set (fars_of c r)" by blast
  then show "far_hash_f_teid (pc_far c' y) = Some k" "\<exists>s. y \<in> set (fars_of c' s)" using x(1) x(2) [of r] y(2) by auto
qed

lemma kept_far_remove:
  assumes k: "kept s a c" and u: "x \<in> set (fars_of c s)" and e0: "c' = ogs_pfcp_far_remove x c"
  shows "kept s a c'" "fars_of c' s = remove1 x (fars_of c s)" "allocated (pc_far_pool c') = allocated (pc_far_pool c) - {x}"
    "same_pdrs c c'" "same_urrs c c'" "same_qers c c'" "same_bars c c'"
proof -
  note ok = kept_ok [OF k]
  note ko = pfcp_okD(3) [OF ok, unfolded far_objs_def]
  define f where "f = pc_far c x"
  define h h' where "h = (case far_hash_teid f of None \<Rightarrow> pc_far_teid_hash c | Some k \<Rightarrow> hash_set (pc_far_teid_hash c) (key32 k) None)"
    and "h' = (case far_hash_f_teid f of None \<Rightarrow> pc_far_f_teid_hash c | Some k \<Rightarrow> hash_set (pc_far_f_teid_hash c) k None)"
  have e: "c' = update_sess s (\<lambda>ps. ps\<lparr>ps_far_list := remove1 x (ps_far_list ps),
      ps_far_ids := ogs_pool_free (ps_far_ids ps) (far_id_node f)\<rparr>) c
    \<lparr>pc_far_teid_hash := h, pc_far_f_teid_hash := h', pc_far_pool := ogs_pool_free (pc_far_pool c) x\<rparr>"
    using kind_okD(3) [OF ko u] by (simp add: e0 ogs_pfcp_far_remove_def Let_def f_def [symmetric] h_def h'_def)
  show same: "same_pdrs c c'" "same_urrs c c'" "same_qers c c'" "same_bars c c'"
    by (simp_all add: same_defs e update_sess_def)
  show ls: "fars_of c' s = remove1 x (fars_of c s)" by (simp add: e update_sess_def fars_of_def)
  have "kind_ok (ogs_pool_free (pc_far_pool c) x) (fars_of c') (\<lambda>u. far_sess (pc_far c' u)) (\<lambda>u. far_id_node (pc_far c' u))
      (\<lambda>s. ps_far_ids (pc_sess c' s))"
    by (rule kind_ok_remove [OF ko u]) (simp_all add: e update_sess_def fars_of_def f_def)
  then have "far_objs c'" by (simp add: far_objs_def) (simp add: e)
  moreover have "peer_table c'"
  proof (rule peer_table_without [OF pfcp_okD(9) [OF ok]])
    have "distinct (fars_of c s)" using kind_okD(4) [OF ko] .
    then show "set (fars_of c r) - {x} \<subseteq> set (fars_of c' r)" for r by (simp add: e update_sess_def fars_of_def)
  qed (simp_all add: e update_sess_def h'_def f_def)
  ultimately have "pfcp_ok c'" using same_parts [OF ok] same by blast
  then show "kept s a c'" by (rule kept_frame [OF k]) (simp add: frame_def e update_sess_def)
  show "allocated (pc_far_pool c') = allocated (pc_far_pool c) - {x}"
    using free_allocated [OF kind_okD(1) [OF ko] kind_okD(5) [OF ko u]] by (simp add: e)
qed

text \<open>The flow rules of a PDR go first; the rest of its removal is one change of the context.\<close>

lemma rule_remove_all_update_sess:
  "ogs_pfcp_rule_remove_all p (update_sess s f c) = update_sess s f (ogs_pfcp_rule_remove_all p c)"
proof -
  have "ogs_pfcp_rule_remove r (update_sess s f c) = update_sess s f (ogs_pfcp_rule_remove r c)" for r c
    by (simp add: ogs_pfcp_rule_remove_def update_sess_def update_pdr_def Let_def)
  then have "fold ogs_pfcp_rule_remove rs (update_sess s f c) = update_sess s f (fold ogs_pfcp_rule_remove rs c)" for rs c
    by (induction rs arbitrary: c) simp_all
  then show ?thesis by (simp add: ogs_pfcp_rule_remove_all_def) (simp add: update_sess_def)
qed

definition drop_pdr :: "nat \<Rightarrow> nat \<Rightarrow> pfcp_object ogs_hash \<Rightarrow> pfcp_ctx \<Rightarrow> pfcp_ctx" where
  "drop_pdr s p h c = update_sess s (\<lambda>ps. ps\<lparr>ps_pdr_list := remove1 p (ps_pdr_list ps),
      ps_pdr_ids := ogs_pool_free (ps_pdr_ids ps) (pdr_id_node (pc_pdr c p))\<rparr>) c
    \<lparr>pc_object_hash := h, pc_teid_pool := ogs_pool_free (pc_teid_pool c) (pdr_teid_node (pc_pdr c p)),
     pc_pdr_pool := ogs_pool_free (pc_pdr_pool c) p\<rparr>"

lemma pdr_remove_split:
  obtains h where "ogs_pfcp_pdr_remove p c = drop_pdr (pdr_sess (pc_pdr c p)) p h (ogs_pfcp_rule_remove_all p c)"
    "h = pc_object_hash c \<or> (\<exists>k. h = hash_set (pc_object_hash c) (key32 k) None)"
proof -
  define s where "s = pdr_sess (pc_pdr c p)"
  define d where "d = ogs_pfcp_rule_remove_all p c"
  define c2 where "c2 = update_sess s (\<lambda>ps. ps\<lparr>ps_pdr_list := remove1 p (ps_pdr_list ps)\<rparr>) d"
  define h where "h = (case pdr_hash_teid (pc_pdr d p) of None \<Rightarrow> pc_object_hash c
    | Some k \<Rightarrow> if ogs_pfcp_object_count_by_teid s (te_teid (pdr_f_teid (pc_pdr d p))) c2 = 0
        then hash_set (pc_object_hash c) (key32 k) None else pc_object_hash c)"
  have hash: "pc_object_hash d = pc_object_hash c"
    using rule_remove_all_only [of c p] by (auto simp: rules_only_def d_def)
  have same: "pc_object_hash c2 = pc_object_hash c" "pc_pdr c2 = pc_pdr d" by (simp_all add: c2_def update_sess_def hash)
  have "ogs_pfcp_pdr_remove p c = drop_pdr s p h d"
    unfolding ogs_pfcp_pdr_remove_def Let_def rule_remove_all_update_sess s_def [symmetric] d_def [symmetric]
      c2_def [symmetric] same drop_pdr_def h_def
    by (cases "pdr_hash_teid (pc_pdr d p)")
      (simp_all add: c2_def update_sess_def hash)
  moreover have "h = pc_object_hash c \<or> (\<exists>k. h = hash_set (pc_object_hash c) (key32 k) None)"
    by (auto simp: h_def split: option.split)
  ultimately show thesis using that by (simp add: s_def d_def)
qed

lemma kept_drop_pdr:
  assumes k: "kept s a c" and p: "p \<in> set (pdrs_of c s)" and h: "teid_table (c\<lparr>pc_object_hash := h\<rparr>)"
    and e: "c' = drop_pdr s p h c"
  shows "kept s a c'" "pdrs_of c' s = remove1 p (pdrs_of c s)" "allocated (pc_pdr_pool c') = allocated (pc_pdr_pool c) - {p}"
    "same_fars c c'" "same_urrs c c'" "same_qers c c'" "same_bars c c'"
proof -
  note ok = kept_ok [OF k]
  note ko = pfcp_okD(1) [OF ok, unfolded pdr_objs_def]
  have tn: "teid_nodes c" by (rule pfcp_okD(2) [OF ok])
  have tp: "pool_ok (pc_teid_pool c)" "pdr_teid_node (pc_pdr c p) \<in> allocated (pc_teid_pool c)"
    using tn p unfolding teid_nodes_def by blast+
  note f = free_allocated [OF tp]
  show same: "same_fars c c'" "same_urrs c c'" "same_qers c c'" "same_bars c c'"
    by (simp_all add: same_defs e drop_pdr_def update_sess_def)
  show ls: "pdrs_of c' s = remove1 p (pdrs_of c s)" by (simp add: e drop_pdr_def update_sess_def pdrs_of_def)
  have pdr: "pc_pdr c' = pc_pdr c" by (simp add: e drop_pdr_def update_sess_def)
  have "kind_ok (ogs_pool_free (pc_pdr_pool c) p) (pdrs_of c') (\<lambda>u. pdr_sess (pc_pdr c' u)) (\<lambda>u. pdr_id_node (pc_pdr c' u))
      (\<lambda>s. ps_pdr_ids (pc_sess c' s))"
    by (rule kind_ok_remove [OF ko p]) (simp_all add: e drop_pdr_def update_sess_def pdrs_of_def)
  then have "pdr_objs c'" by (simp add: pdr_objs_def) (simp add: e drop_pdr_def)
  moreover have "teid_nodes c'"
  proof -
    have sub: "q \<in> set (pdrs_of c r) \<and> q \<noteq> p" if "q \<in> set (pdrs_of c' r)" for q r
    proof (cases "r = s")
      case True
      with that kind_okD(4) [OF ko, of s] show ?thesis by (simp add: ls)
    next
      case False
      then have "q \<in> set (pdrs_of c r)" using that by (simp add: e drop_pdr_def update_sess_def pdrs_of_def)
      moreover have "p \<notin> set (pdrs_of c r)" using other_session(1) [OF ok False p] .
      ultimately show ?thesis by blast
    qed
    have pool: "pc_teid_pool c' = ogs_pool_free (pc_teid_pool c) (pdr_teid_node (pc_pdr c p))"
      by (simp add: e drop_pdr_def update_sess_def)
    show ?thesis unfolding teid_nodes_def pool pdr f(2)
    proof (intro conjI allI ballI impI)
      fix q r q' r'
      assume q: "q \<in> set (pdrs_of c' r)"
      show "pdr_teid_node (pc_pdr c q) \<in> allocated (pc_teid_pool c) - {pdr_teid_node (pc_pdr c p)}"
        using tn p sub [OF q] unfolding teid_nodes_def by blast
      show "q' = q" if "q' \<in> set (pdrs_of c' r')" "pdr_teid_node (pc_pdr c q') = pdr_teid_node (pc_pdr c q)"
        using tn that(2) sub [OF q] sub [OF that(1)] unfolding teid_nodes_def by blast
    qed (rule f)
  qed
  moreover have "rule_objs c'" using pfcp_okD(7) [OF ok] rule_objs_cong [of c' c]
    by (simp add: e drop_pdr_def update_sess_def)
  moreover have "teid_table c'" using h teid_table_cong [of c' "c\<lparr>pc_object_hash := h\<rparr>"] by (simp add: e drop_pdr_def)
  ultimately have "pfcp_ok c'" using same_parts [OF ok] same by blast
  then show "kept s a c'" by (rule kept_frame [OF k]) (simp add: frame_def e drop_pdr_def update_sess_def)
  show "allocated (pc_pdr_pool c') = allocated (pc_pdr_pool c) - {p}"
    using free_allocated [OF kind_okD(1) [OF ko] kind_okD(5) [OF ko p]] by (simp add: e drop_pdr_def)
qed

lemma kept_pdr_remove:
  assumes k: "kept s a c" and p: "p \<in> set (pdrs_of c s)" and e: "c' = ogs_pfcp_pdr_remove p c"
  shows "kept s a c'" "pdrs_of c' s = remove1 p (pdrs_of c s)" "allocated (pc_pdr_pool c') = allocated (pc_pdr_pool c) - {p}"
    "same_fars c c'" "same_urrs c c'" "same_qers c c'" "same_bars c c'"
proof -
  note ok = kept_ok [OF k]
  have s: "pdr_sess (pc_pdr c p) = s" using kind_okD(3) [OF pfcp_okD(1) [OF ok, unfolded pdr_objs_def] p] .
  define d where "d = ogs_pfcp_rule_remove_all p c"
  obtain h where e': "c' = drop_pdr s p h d" and h: "h = pc_object_hash c \<or> (\<exists>k. h = hash_set (pc_object_hash c) (key32 k) None)"
    using pdr_remove_split [of p c] by (metis e s d_def)
  obtain f pool where d: "d = c\<lparr>pc_pdr := f, pc_rule_pool := pool\<rparr>"
    using rule_remove_all_only [of c p] by (auto simp: rules_only_def d_def)
  have kd: "kept s a d" using kept_rule_remove_all [OF k own_pdr [OF k p]] by (simp add: d_def)
  have pd: "p \<in> set (pdrs_of d s)" using p by (simp add: d pdrs_of_def)
  have "teid_table (c\<lparr>pc_object_hash := h\<rparr>)"
    using h pfcp_okD(8) [OF ok] teid_table_set [OF pfcp_okD(8) [OF ok], of _ _ None] by auto
  then have t: "teid_table (d\<lparr>pc_object_hash := h\<rparr>)"
    using teid_table_cong [of "d\<lparr>pc_object_hash := h\<rparr>" "c\<lparr>pc_object_hash := h\<rparr>"] by simp
  note r = kept_drop_pdr [OF kd pd t e']
  have same: "pdrs_of d s = pdrs_of c s" "pc_pdr_pool d = pc_pdr_pool c" "same_fars c d" "same_urrs c d" "same_qers c d" "same_bars c d"
    by (simp_all add: d pdrs_of_def same_defs)
  show "kept s a c'" "pdrs_of c' s = remove1 p (pdrs_of c s)" "allocated (pc_pdr_pool c') = allocated (pc_pdr_pool c) - {p}"
    using r same by simp_all
  show "same_fars c c'" "same_urrs c c'" "same_qers c c'" "same_bars c c'"
    using r(4-7) same(3-6) by (simp_all add: same_fars_def same_urrs_def same_qers_def same_bars_def)
qed

subsection \<open>A session without objects\<close>

lemma fold_remove:
  assumes rm: "\<And>n c. kept s a c \<Longrightarrow> n \<in> set (lst c s) \<Longrightarrow> kept s a (rm n c) \<and> lst (rm n c) s = remove1 n (lst c s) \<and>
      allocated (al (rm n c)) = allocated (al c) - {n} \<and> same c (rm n c)"
    and same: "\<And>c. same c c" "\<And>c d e. same c d \<Longrightarrow> same d e \<Longrightarrow> same c e"
    and k: "kept s a c"
  shows "kept s a (fold rm (lst c s) c) \<and> lst (fold rm (lst c s) c) s = [] \<and>
    allocated (al (fold rm (lst c s) c)) = allocated (al c) - set (lst c s) \<and> same c (fold rm (lst c s) c)"
proof -
  have "kept s a (fold rm ns c) \<and> lst (fold rm ns c) s = [] \<and>
    allocated (al (fold rm ns c)) = allocated (al c) - set ns \<and> same c (fold rm ns c)" if "lst c s = ns" for ns
    using k that
  proof (induction ns arbitrary: c)
    case (Cons n ns)
    have r: "kept s a (rm n c)" "lst (rm n c) s = ns" "allocated (al (rm n c)) = allocated (al c) - {n}" "same c (rm n c)"
      using rm [OF Cons.prems(1), of n] Cons.prems(2) by simp_all
    with Cons.IH [OF r(1,2)] same(2) [OF r(4)] show ?case by auto
  qed (use same(1) in simp)
  then show ?thesis by simp
qed

lemma same_refl: "same_pdrs c c" "same_fars c c" "same_urrs c c" "same_qers c c" "same_bars c c"
  by (simp_all add: same_defs)

lemma same_trans:
  "same_pdrs c d \<Longrightarrow> same_pdrs d e \<Longrightarrow> same_pdrs c e" "same_fars c d \<Longrightarrow> same_fars d e \<Longrightarrow> same_fars c e"
  "same_urrs c d \<Longrightarrow> same_urrs d e \<Longrightarrow> same_urrs c e" "same_qers c d \<Longrightarrow> same_qers d e \<Longrightarrow> same_qers c e"
  "same_bars c d \<Longrightarrow> same_bars d e \<Longrightarrow> same_bars c e"
  by (simp_all add: same_pdrs_def same_fars_def same_urrs_def same_qers_def same_bars_def)

lemma kept_remove_all:
  assumes k: "kept s a c"
  shows "c' = ogs_pfcp_pdr_remove_all s c \<Longrightarrow> kept s a c' \<and> pdrs_of c' s = [] \<and>
      allocated (pc_pdr_pool c') = allocated (pc_pdr_pool c) - set (pdrs_of c s) \<and>
      same_fars c c' \<and> same_urrs c c' \<and> same_qers c c' \<and> same_bars c c'"
    and "c' = ogs_pfcp_far_remove_all s c \<Longrightarrow> kept s a c' \<and> fars_of c' s = [] \<and>
      allocated (pc_far_pool c') = allocated (pc_far_pool c) - set (fars_of c s) \<and>
      same_pdrs c c' \<and> same_urrs c c' \<and> same_qers c c' \<and> same_bars c c'"
    and "c' = ogs_pfcp_urr_remove_all s c \<Longrightarrow> kept s a c' \<and> urrs_of c' s = [] \<and>
      allocated (pc_urr_pool c') = allocated (pc_urr_pool c) - set (urrs_of c s) \<and>
      same_pdrs c c' \<and> same_fars c c' \<and> same_qers c c' \<and> same_bars c c'"
    and "c' = ogs_pfcp_qer_remove_all s c \<Longrightarrow> kept s a c' \<and> qers_of c' s = [] \<and>
      allocated (pc_qer_pool c') = allocated (pc_qer_pool c) - set (qers_of c s) \<and>
      same_pdrs c c' \<and> same_fars c c' \<and> same_urrs c c' \<and> same_bars c c'"
proof -
  show "kept s a c' \<and> pdrs_of c' s = [] \<and> allocated (pc_pdr_pool c') = allocated (pc_pdr_pool c) - set (pdrs_of c s) \<and>
      same_fars c c' \<and> same_urrs c c' \<and> same_qers c c' \<and> same_bars c c'" if "c' = ogs_pfcp_pdr_remove_all s c"
    unfolding that ogs_pfcp_pdr_remove_all_def
    by (rule fold_remove [where al = pc_pdr_pool and same = "\<lambda>c c'. same_fars c c' \<and> same_urrs c c' \<and> same_qers c c' \<and> same_bars c c'", OF _ _ _ k])
      ((intro conjI; rule kept_pdr_remove [OF _ _ refl]; assumption), (simp add: same_refl), (use same_trans in blast))
  show "kept s a c' \<and> fars_of c' s = [] \<and> allocated (pc_far_pool c') = allocated (pc_far_pool c) - set (fars_of c s) \<and>
      same_pdrs c c' \<and> same_urrs c c' \<and> same_qers c c' \<and> same_bars c c'" if "c' = ogs_pfcp_far_remove_all s c"
    unfolding that ogs_pfcp_far_remove_all_def fars_of_def [symmetric]
    by (rule fold_remove [where al = pc_far_pool and same = "\<lambda>c c'. same_pdrs c c' \<and> same_urrs c c' \<and> same_qers c c' \<and> same_bars c c'", OF _ _ _ k])
      ((intro conjI; rule kept_far_remove [OF _ _ refl]; assumption), (simp add: same_refl), (use same_trans in blast))
  show "kept s a c' \<and> urrs_of c' s = [] \<and> allocated (pc_urr_pool c') = allocated (pc_urr_pool c) - set (urrs_of c s) \<and>
      same_pdrs c c' \<and> same_fars c c' \<and> same_qers c c' \<and> same_bars c c'" if "c' = ogs_pfcp_urr_remove_all s c"
    unfolding that ogs_pfcp_urr_remove_all_def urrs_of_def [symmetric]
    by (rule fold_remove [where al = pc_urr_pool and same = "\<lambda>c c'. same_pdrs c c' \<and> same_fars c c' \<and> same_qers c c' \<and> same_bars c c'", OF _ _ _ k])
      ((intro conjI; rule kept_urr_remove [OF _ _ refl]; assumption), (simp add: same_refl), (use same_trans in blast))
  show "kept s a c' \<and> qers_of c' s = [] \<and> allocated (pc_qer_pool c') = allocated (pc_qer_pool c) - set (qers_of c s) \<and>
      same_pdrs c c' \<and> same_fars c c' \<and> same_urrs c c' \<and> same_bars c c'" if "c' = ogs_pfcp_qer_remove_all s c"
    unfolding that ogs_pfcp_qer_remove_all_def qers_of_def [symmetric]
    by (rule fold_remove [where al = pc_qer_pool and same = "\<lambda>c c'. same_pdrs c c' \<and> same_fars c c' \<and> same_urrs c c' \<and> same_bars c c'", OF _ _ _ k])
      ((intro conjI; rule kept_qer_remove [OF _ _ refl]; assumption), (simp add: same_refl), (use same_trans in blast))
qed

definition session_cleared :: "nat \<Rightarrow> pfcp_ctx \<Rightarrow> pfcp_ctx \<Rightarrow> bool" where
  "session_cleared s c c' \<longleftrightarrow>
     pdrs_of c' s = [] \<and> fars_of c' s = [] \<and> urrs_of c' s = [] \<and> qers_of c' s = [] \<and> ps_bar (pc_sess c' s) = None \<and>
     allocated (pc_pdr_pool c') = allocated (pc_pdr_pool c) - set (pdrs_of c s) \<and>
     allocated (pc_far_pool c') = allocated (pc_far_pool c) - set (fars_of c s) \<and>
     allocated (pc_urr_pool c') = allocated (pc_urr_pool c) - set (urrs_of c s) \<and>
     allocated (pc_qer_pool c') = allocated (pc_qer_pool c) - set (qers_of c s) \<and>
     allocated (pc_bar_pool c') = allocated (pc_bar_pool c) - {b. ps_bar (pc_sess c s) = Some b}"

lemma sess_clear_ok:
  assumes k: "kept s a c"
  obtains c' where "ogs_pfcp_sess_clear s c = Ret c'" "kept s a c'" "session_cleared s c c'"
proof -
  define c1 where "c1 = ogs_pfcp_pdr_remove_all s c"
  define c2 where "c2 = ogs_pfcp_far_remove_all s c1"
  define c3 where "c3 = ogs_pfcp_urr_remove_all s c2"
  define c4 where "c4 = ogs_pfcp_qer_remove_all s c3"
  note r1 = kept_remove_all(1) [OF k c1_def]
  note r2 = kept_remove_all(2) [OF _ c2_def, of a] and r3 = kept_remove_all(3) [OF _ c3_def, of a]
    and r4 = kept_remove_all(4) [OF _ c4_def, of a]
  have k4: "kept s a c4" using r1 r2 r3 r4 by blast
  have bar: "ps_bar (pc_sess c4 s) = ps_bar (pc_sess c s)" "pc_bar_pool c4 = pc_bar_pool c"
    using r1 r2 r3 r4 by (simp_all add: same_bars_def)
  have c4: "pdrs_of c4 s = []" "fars_of c4 s = []" "urrs_of c4 s = []" "qers_of c4 s = []"
    "allocated (pc_pdr_pool c4) = allocated (pc_pdr_pool c) - set (pdrs_of c s)"
    "allocated (pc_far_pool c4) = allocated (pc_far_pool c) - set (fars_of c s)"
    "allocated (pc_urr_pool c4) = allocated (pc_urr_pool c) - set (urrs_of c s)"
    "allocated (pc_qer_pool c4) = allocated (pc_qer_pool c) - set (qers_of c s)"
    using r1 r2 r3 r4 by (simp_all add: same_pdrs_def same_fars_def same_urrs_def same_qers_def)
  have m: "ogs_pfcp_sess_clear s c = (case ps_bar (pc_sess c4 s) of None \<Rightarrow> Ret c4 | Some b \<Rightarrow> ogs_pfcp_bar_delete b c4)"
    unfolding ogs_pfcp_sess_clear_def Let_def c4_def c3_def c2_def c1_def ..
  show thesis
  proof (cases "ps_bar (pc_sess c4 s)")
    case None
    with m k4 c4 bar show ?thesis by (intro that [of c4]) (simp_all add: session_cleared_def)
  next
    case (Some b)
    obtain c' where "ogs_pfcp_bar_delete b c4 = Ret c'" "kept s a c'" "ps_bar (pc_sess c' s) = None"
      "same_pdrs c4 c'" "same_fars c4 c'" "same_urrs c4 c'" "same_qers c4 c'"
      "allocated (pc_bar_pool c') = allocated (pc_bar_pool c4) - {b}"
      by (rule kept_bar_delete [OF k4 Some])
    with m Some c4 bar show ?thesis
      by (intro that [of c'])
        (simp_all add: session_cleared_def same_pdrs_def same_fars_def same_urrs_def same_qers_def)
  qed
qed

end
