(* ===== verification/Pfcp_Kept.thy ===== *)
theory Pfcp_Kept
  imports Pfcp_Steps
begin

text \<open>
  The handlers of the rules in a request keep the invariant of the PFCP objects and the objects
  of the other sessions, whether they succeed or refuse.
\<close>

section \<open>Attempts\<close>

definition keeps :: "nat \<Rightarrow> pfcp_ctx \<Rightarrow> (pfcp_ctx \<times> 'r) exec \<Rightarrow> bool" where
  "keeps s a m \<longleftrightarrow> runs m (\<lambda>(c, r). kept s a c)"

lemma keeps_Ret [simp]: "keeps s a (Ret (c, r)) \<longleftrightarrow> kept s a c"
  by (simp add: keeps_def)

lemma keeps_Abort [simp]: "keeps s a Abort"
  by (simp add: keeps_def)

lemma keeps_and_then:
  "keeps s a m \<Longrightarrow> (\<And>c. kept s a c \<Longrightarrow> keeps s a (f c)) \<Longrightarrow> keeps s a (and_then m f)"
  unfolding and_then_def keeps_def by (erule runs_bind) (auto split: option.split)

lemma keeps_quietly: "runs m (kept s a) \<Longrightarrow> keeps s a (quietly m)"
  unfolding quietly_def keeps_def by (erule runs_bind) simp

lemma keeps_bind: "keeps s a m \<Longrightarrow> (\<And>c r. kept s a c \<Longrightarrow> keeps s a (f (c, r))) \<Longrightarrow> keeps s a (exec_bind m f)"
  unfolding keeps_def by (erule runs_bind) auto

lemma keeps_after: "(\<And>x. keeps s a (f x)) \<Longrightarrow> keeps s a (exec_bind m f)"
  unfolding keeps_def by (rule runs_then)

lemma keeps_option:
  "(r = None \<Longrightarrow> keeps s a x) \<Longrightarrow> (\<And>y. r = Some y \<Longrightarrow> keeps s a (f y)) \<Longrightarrow>
    keeps s a (case r of None \<Rightarrow> x | Some y \<Rightarrow> f y)"
  by (cases r) simp_all

lemma runs_kept_after: "(\<And>x. runs (f x) (kept s a)) \<Longrightarrow> runs (exec_bind m f) (kept s a)"
  by (rule runs_then)

lemma runs_kept_bind: "runs m (kept s a) \<Longrightarrow> (\<And>c. kept s a c \<Longrightarrow> runs (f c) (kept s a)) \<Longrightarrow> runs (exec_bind m f) (kept s a)"
  by (rule runs_bind)

section \<open>Detection rules\<close>

lemma kept_set_precedence:
  "kept s a c \<Longrightarrow> p \<in> set (pdrs_of c s) \<Longrightarrow> kept s a (set_precedence p prec c)"
  using kept_reorder [of s a c p, OF _ _ refl] own_pdr [of s a c p]
  by (auto simp: set_precedence_def intro!: kept_update_pdr split: option.split)

lemma kept_add_flow_rule:
  assumes k: "kept s a c" and p: "\<not> foreign pdrs_of s a p"
  shows "runs (add_flow_rule env s p f c) (kept s a)"
proof -
  have "runs (let c1 = update_rule r g c' in if b then Ret c1
      else (case he_compile env fd of None \<Rightarrow> Ret (ogs_pfcp_rule_remove r c1) | Some fw \<Rightarrow> Ret (update_rule r (h fw) c1))) (kept s a)"
    if k: "kept s a c'" and r: "r \<in> set (pdr_rules (pc_pdr c' p))" and g: "\<And>l. rl_pdr (g l) = rl_pdr l" "\<And>fw l. rl_pdr (h fw l) = rl_pdr l"
    for c' r g h b fd
  proof -
    have k1: "kept s a (update_rule r g c')" by (rule kept_update_rule [OF k p r g(1)])
    have r1: "r \<in> set (pdr_rules (pc_pdr (update_rule r g c') p))" using r by (simp add: update_rule_def)
    show ?thesis using k1 kept_rule_remove [OF k1 p r1 refl] kept_update_rule [OF k1 p r1 g(2)]
      by (simp add: Let_def split: option.split)
  qed
  note rest = this
  show ?thesis unfolding add_flow_rule_def
    by (subst Let_def, rule runs_if [THEN iffD2], intro conjI impI, simp add: k, rule runs_bind [OF kept_rule_add [OF k p]])
      (clarsimp, rule rest, auto)
qed

lemma kept_add_flow_rules:
  "kept s a c \<Longrightarrow> \<not> foreign pdrs_of s a p \<Longrightarrow> runs (add_flow_rules env s p ocs c) (kept s a)"
proof (induction ocs arbitrary: c)
  case (Cons oc ocs)
  have "runs (if b then Ret c else exec_bind (add_flow_rule env s p f c) (add_flow_rules env s p ocs)) (kept s a)" for b f
    using Cons.prems(1) runs_bind [OF kept_add_flow_rule [OF Cons.prems] Cons.IH [OF _ Cons.prems(2)]] by simp
  then show ?case by (auto intro!: runs_then split: prod.split)
qed simp

lemma kept_set_source:
  "kept s a c \<Longrightarrow> \<not> foreign pdrs_of s a p \<Longrightarrow> runs (set_source env s p m c) (kept s a)"
  unfolding set_source_def by (intro kept_add_flow_rules kept_rule_remove_all [THEN conjunct1] kept_update_pdr) simp_all

lemma kept_set_dnn:
  "kept s a c \<Longrightarrow> \<not> foreign pdrs_of s a p \<Longrightarrow> runs (set_dnn p m old c) (kept s a)"
  unfolding set_dnn_def by (rule runs_then) (simp add: kept_update_pdr)

lemma kept_set_endpoint:
  assumes "kept s a c" "\<not> foreign pdrs_of s a p"
  shows "keeps s a (set_endpoint p m c)"
proof -
  have "kept s a (update_pdr p f (update_pdr p g c))" if "\<And>d. pdr_core (f d) = pdr_core d" "\<And>d. pdr_core (g d) = pdr_core d" for f g
    using assms that by (intro kept_update_pdr) (simp_all add: pdr_core_def)
  note two = this
  have one: "kept s a (update_pdr p f c)" if "\<And>d. pdr_core (f d) = pdr_core d" for f
    using assms that by (intro kept_update_pdr) (simp_all add: pdr_core_def)
  show ?thesis unfolding set_endpoint_def Let_def
    by (auto split: option.split intro!: keeps_after one two simp: pdr_core_def)
qed

lemma kept_set_addresses:
  "kept s a c \<Longrightarrow> \<not> foreign pdrs_of s a p \<Longrightarrow> runs (set_addresses p m pi c) (kept s a)"
  unfolding set_addresses_def by (intro runs_then) (simp add: kept_update_pdr)

lemma kept_set_urrs:
  "kept s a c \<Longrightarrow> \<not> foreign pdrs_of s a p \<Longrightarrow> keeps s a (set_urrs s p us c)"
proof (induction us arbitrary: c)
  case (Cons i us)
  obtain c' r where f: "ogs_pfcp_urr_find_or_add s (unat i) c = (c', r)" by (cases "ogs_pfcp_urr_find_or_add s (unat i) c")
  have k: "kept s a c'" using kept_find_or_add(2) [OF Cons.prems(1) f] by blast
  have "runs (ogs_pfcp_pdr_associate_urr p u c') (kept s a)" for u
    using k Cons.prems(2) by (simp add: ogs_pfcp_pdr_associate_urr_def Let_def kept_update_pdr)
  then have "keeps s a (exec_bind (ogs_pfcp_pdr_associate_urr p u c') (set_urrs s p us))" for u
    unfolding keeps_def by (rule runs_bind) (use Cons in \<open>simp add: keeps_def\<close>)
  then show ?case using k by (simp add: f split: option.split)
qed simp

lemma kept_set_far:
  assumes "kept s a c" "\<not> foreign pdrs_of s a p"
  shows "keeps s a (Ret (set_far s p i c))"
proof -
  define c1 where "c1 = update_pdr p (\<lambda>d. d\<lparr>pdr_far := None\<rparr>) c"
  have k1: "kept s a c1" unfolding c1_def by (intro kept_update_pdr assms) simp
  have "kept s a c'" if "ogs_pfcp_far_find_or_add s j c1 = (c', r)" for j c' r using kept_find_or_add(1) [OF k1 that] by blast
  then show ?thesis using k1 assms(2)
    by (auto simp: set_far_def c1_def [symmetric] ogs_pfcp_pdr_associate_far_def kept_update_pdr split: option.split prod.split)
qed

lemma kept_set_qer:
  assumes "kept s a c" "\<not> foreign pdrs_of s a p"
  shows "keeps s a (Ret (set_qer s p i c))"
proof -
  define c1 where "c1 = update_pdr p (\<lambda>d. d\<lparr>pdr_qer := None\<rparr>) c"
  have k1: "kept s a c1" unfolding c1_def by (intro kept_update_pdr assms) simp
  have "kept s a c'" if "ogs_pfcp_qer_find_or_add s j c1 = (c', r)" for j c' r using kept_find_or_add(3) [OF k1 that] by blast
  then show ?thesis using k1 assms(2)
    by (auto simp: set_qer_def c1_def [symmetric] ogs_pfcp_pdr_associate_qer_def kept_update_pdr split: option.split prod.split)
qed

lemma kept_fill_pdr:
  assumes k: "kept s a c" and p: "p \<in> set (pdrs_of c s)"
  shows "keeps s a (fill_pdr env s p m pi c)"
proof -
  note own = own_pdr [OF k p]
  show ?thesis unfolding fill_pdr_def
    by (intro keeps_and_then keeps_quietly kept_set_source kept_set_precedence kept_set_dnn kept_set_endpoint
        kept_set_addresses kept_set_far kept_set_urrs kept_set_qer kept_update_pdr k p own) simp_all
qed

lemma refuse_not_Done [simp]: "refuse x y \<noteq> Done p"
  by (simp add: refuse_def)

text \<open>The rule that a creation yields is no rule of another session.\<close>

definition keeps_own :: "nat \<Rightarrow> pfcp_ctx \<Rightarrow> (pfcp_ctx \<times> nat handled) exec \<Rightarrow> bool" where
  "keeps_own s a m \<longleftrightarrow> runs m (\<lambda>(c, r). kept s a c \<and> (\<forall>p. r = Done p \<longrightarrow> \<not> foreign pdrs_of s a p))"

lemma keeps_own_keeps: "keeps_own s a m \<Longrightarrow> keeps s a m"
  unfolding keeps_own_def keeps_def by (erule runs_weaken) auto

lemma kept_create_pdr:
  assumes k: "kept s a c"
  shows "keeps_own s a (ogs_pfcp_handle_create_pdr env restore s message c)"
proof -
  have fill: "runs (case r of None \<Rightarrow> Ret (c, refuse x y)
      | Some p \<Rightarrow> exec_bind (fill_pdr env s p m pi c) (\<lambda>(c, r). Ret (c, ended p r)))
      (\<lambda>(c, r). kept s a c \<and> (\<forall>p. r = Done p \<longrightarrow> \<not> foreign pdrs_of s a p))"
    if "kept s a c" "\<forall>p. r = Some p \<longrightarrow> p \<in> set (pdrs_of c s)" for c r m pi x y
  proof (cases r)
    case (Some p)
    with that have p: "p \<in> set (pdrs_of c s)" by simp
    have "runs (fill_pdr env s p m pi c) (\<lambda>(c, r). kept s a c)" using kept_fill_pdr [OF that(1) p] by (simp add: keeps_def)
    then show ?thesis unfolding Some option.case
      by (rule runs_bind) (auto simp: ended_def own_pdr [OF that(1) p] split: option.splits)
  qed (use that in simp)
  have found: "runs (exec_bind (ogs_pfcp_pdr_find_or_add s i c) (\<lambda>(c, r). case r of None \<Rightarrow> Ret (c, refuse x y)
      | Some p \<Rightarrow> exec_bind (fill_pdr env s p m pi c) (\<lambda>(c, r). Ret (c, ended p r))))
      (\<lambda>(c, r). kept s a c \<and> (\<forall>p. r = Done p \<longrightarrow> \<not> foreign pdrs_of s a p))" for i m pi x y
    by (rule runs_bind [OF pdr_find_or_add_runs [OF k]]) (clarify, rule fill, simp_all)
  show ?thesis unfolding ogs_pfcp_handle_create_pdr_def keeps_own_def
    by (auto simp: k split: option.split intro!: runs_then found)
qed

lemma kept_update_endpoint:
  "kept s a c \<Longrightarrow> \<not> foreign pdrs_of s a p \<Longrightarrow> runs (update_endpoint p m c) (kept s a)"
  by (auto simp: update_endpoint_def kept_update_pdr split: option.split intro!: runs_then)

lemma kept_update_pdi:
  assumes "kept s a c" "\<not> foreign pdrs_of s a p"
  shows "runs (update_pdi env s p m c) (kept s a)"
  unfolding update_pdi_def
  by (intro runs_kept_bind [OF kept_set_source] runs_kept_bind [OF kept_set_dnn] runs_kept_bind [OF kept_update_endpoint] assms)
    (simp_all add: kept_update_pdr assms)

lemma keeps_ended: "keeps s a m \<Longrightarrow> keeps s a (exec_bind m (\<lambda>(c, r). Ret (c, ended x r)))"
  by (rule keeps_bind) simp_all

lemma kept_update_pdr_request:
  assumes k: "kept s a c"
  shows "keeps s a (ogs_pfcp_handle_update_pdr env s message c)"
proof -
  have "keeps s a (exec_bind (and_then
      (case up_pdi m of None \<Rightarrow> Ret (c, None)
       | Some pi \<Rightarrow> exec_bind (pdi_refusal env pi c) (\<lambda>r. if r \<noteq> None then Ret (c, r) else quietly (update_pdi env s p pi c)))
      (\<lambda>c. quietly (exec_bind (header_removal (up_ohr m) (pdr_ohr (pc_pdr c p)))
             (\<lambda>ohr. Ret (update_pdr p (\<lambda>d. d\<lparr>pdr_ohr := ohr\<rparr>) c))))) (\<lambda>(c, r). Ret (c, ended p r)))"
    if "p \<in> set (pdrs_of c s)" for m p
  proof (intro keeps_ended keeps_and_then keeps_quietly runs_kept_after)
    note own = own_pdr [OF k that]
    show "keeps s a (case up_pdi m of None \<Rightarrow> Ret (c, None) | Some pi \<Rightarrow> exec_bind (pdi_refusal env pi c)
        (\<lambda>r. if r \<noteq> None then Ret (c, r) else quietly (update_pdi env s p pi c)))"
      using keeps_quietly [OF kept_update_pdi [OF k own]] by (auto simp: k split: option.split intro!: keeps_after)
    show "runs (Ret (update_pdr p (\<lambda>d. d\<lparr>pdr_ohr := ohr\<rparr>) c)) (kept s a)" if "kept s a c" for c ohr
      using that own by (simp add: kept_update_pdr)
  qed
  note body = this
  show ?thesis unfolding ogs_pfcp_handle_update_pdr_def
    by (intro keeps_option) (simp_all only: keeps_Ret k, rule body, erule find_in_list(1))
qed

lemma keeps_find_for:
  assumes "kept s a c" "\<And>m i x. find_it i c = Some x \<Longrightarrow> keeps s a (f m x)"
  shows "keeps s a (find_for id_of ie find_it message c f unknown)"
  using assms by (auto simp: find_for_def split: option.split)

lemma kept_remove_pdr: "kept s a c \<Longrightarrow> keeps s a (ogs_pfcp_handle_remove_pdr s message c)"
  unfolding ogs_pfcp_handle_remove_pdr_def
  by (rule keeps_find_for) (auto intro: kept_pdr_remove(1) find_in_list(1))

section \<open>Forwarding action rules\<close>

lemma kept_set_forwarding:
  "kept s a c \<Longrightarrow> \<not> foreign fars_of s a x \<Longrightarrow> runs (set_forwarding x params c) (kept s a)"
  by (auto simp: set_forwarding_def kept_update_far split: option.split intro!: runs_then)

lemma kept_create_far:
  assumes k: "kept s a c"
  shows "keeps s a (ogs_pfcp_handle_create_far s message c)"
  unfolding ogs_pfcp_handle_create_far_def
proof (rule keeps_find_for [OF k])
  fix m i x
  assume "ogs_pfcp_far_find s i c = Some x"
  note own = own_far [OF k find_in_list(2) [OF this]]
  have "keeps s a (exec_bind (set_forwarding x q (update_far x f c)) (\<lambda>c. Ret (c, Done x)))"
    if "\<And>d. far_sess (f d) = far_sess d \<and> far_id_node (f d) = far_id_node d \<and> far_hash_f_teid (f d) = far_hash_f_teid d" for q f
    unfolding keeps_def by (rule runs_bind [OF kept_set_forwarding [OF kept_update_far [OF k own that] own]]) simp
  then show "keeps s a (case tf_apply_action m of None \<Rightarrow> Ret (c, refuse OGS_PFCP_CAUSE_MANDATORY_IE_MISSING OGS_PFCP_APPLY_ACTION_TYPE)
      | Some b \<Rightarrow> exec_bind (set_forwarding x (tf_params m) (update_far x (\<lambda>f. f\<lparr>far_dnn := None,
          far_apply_action := b, far_dst_if := 0, far_ohc_teid := 0, far_ohc := zero_outer_header\<rparr>) c)) (\<lambda>c. Ret (c, Done x)))"
    using k by (auto split: option.split)
qed

lemma kept_update_far_flags: "kept s a c \<Longrightarrow> keeps s a (ogs_pfcp_handle_update_far_flags s message c)"
  unfolding ogs_pfcp_handle_update_far_flags_def
  by (rule keeps_find_for) (auto intro: kept_update_far simp: own_far find_in_list(2) split: option.split)

lemma kept_update_far_request:
  assumes k: "kept s a c"
  shows "keeps s a (ogs_pfcp_handle_update_far s message c)"
  unfolding ogs_pfcp_handle_update_far_def
proof (rule keeps_find_for [OF k])
  fix m i x
  assume "ogs_pfcp_far_find s i c = Some x"
  note own = own_far [OF k find_in_list(2) [OF this]]
  show "keeps s a (exec_bind (set_forwarding x (tf_params m) (update_far x (\<lambda>f. f\<lparr>far_apply_action :=
      (case tf_apply_action m of None \<Rightarrow> far_apply_action f | Some a \<Rightarrow> a)\<rparr>) c)) (\<lambda>c. Ret (c, Done x)))"
    unfolding keeps_def by (rule runs_bind [OF kept_set_forwarding [OF kept_update_far [OF k own] own]]) simp_all
qed

lemma kept_remove_far: "kept s a c \<Longrightarrow> keeps s a (ogs_pfcp_handle_remove_far s message c)"
  unfolding ogs_pfcp_handle_remove_far_def
  by (rule keeps_find_for) (auto intro: kept_far_remove(1) find_in_list(2))

section \<open>QoS enforcement rules\<close>

lemma kept_set_rate:
  assumes "kept s a c" "\<not> foreign qers_of s a q" "\<And>r d. qer_sess (put r d) = qer_sess d \<and> qer_id_node (put r d) = qer_id_node d"
  shows "keeps s a (set_rate m ie old put q c)"
  using assms by (auto simp: set_rate_def kept_update_qer split: option.split intro!: keeps_after)

lemma kept_set_rates:
  assumes "kept s a c" "\<not> foreign qers_of s a q"
  shows "keeps s a (set_rates m q c)"
  unfolding set_rates_def by (intro keeps_and_then kept_set_rate assms) simp_all

lemma kept_create_qer:
  assumes k: "kept s a c"
  shows "keeps s a (ogs_pfcp_handle_create_qer s message c)"
  unfolding ogs_pfcp_handle_create_qer_def
proof (rule keeps_find_for [OF k])
  fix m i q
  assume "ogs_pfcp_qer_find s i c = Some q"
  note own = own_qer [OF k find_in_list(4) [OF this]]
  show "keeps s a (case tq_gate_status m of None \<Rightarrow> Ret (c, refuse OGS_PFCP_CAUSE_MANDATORY_IE_MISSING OGS_PFCP_APPLY_ACTION_TYPE)
      | Some g \<Rightarrow> exec_bind (and_then (set_rates m q (update_qer q (\<lambda>d. d\<lparr>qer_gate_status := g,
            qer_mbr := qer_mbr zero_qer, qer_gbr := qer_gbr zero_qer\<rparr>) c))
          (\<lambda>c. Ret (update_qer q (\<lambda>d. d\<lparr>qer_qfi := (case tq_qfi m of None \<Rightarrow> 0 | Some x \<Rightarrow> x)\<rparr>) c, None)))
          (\<lambda>(c, r). Ret (c, ended q r)))"
    by (auto simp: k own kept_update_qer intro!: keeps_ended keeps_and_then [OF kept_set_rates] split: option.split)
qed

lemma kept_update_qer_request: "kept s a c \<Longrightarrow> keeps s a (ogs_pfcp_handle_update_qer s message c)"
  unfolding ogs_pfcp_handle_update_qer_def
  by (rule keeps_find_for) (auto intro!: keeps_ended kept_set_rates simp: own_qer find_in_list(4))

lemma kept_remove_qer: "kept s a c \<Longrightarrow> keeps s a (ogs_pfcp_handle_remove_qer s message c)"
  unfolding ogs_pfcp_handle_remove_qer_def
  by (rule keeps_find_for) (auto intro: kept_qer_remove(1) find_in_list(4))

section \<open>The buffering action rule\<close>

lemma kept_bar_id:
  assumes k: "kept s a c" and b: "ps_bar (pc_sess c s) = Some b"
  shows "kept s a (c\<lparr>pc_bar := (pc_bar c)(b := (pc_bar c b)\<lparr>bar_id := i\<rparr>)\<rparr>)"
proof (rule kept_frame [OF k])
  show "pfcp_ok (c\<lparr>pc_bar := (pc_bar c)(b := (pc_bar c b)\<lparr>bar_id := i\<rparr>)\<rparr>)"
    by (rule pfcp_ok_fields [OF kept_ok [OF k]]) simp_all
  show "frame s c (c\<lparr>pc_bar := (pc_bar c)(b := (pc_bar c b)\<lparr>bar_id := i\<rparr>)\<rparr>)"
    using other_session(5) [OF kept_ok [OF k] _ b] by (auto simp: frame_def)
qed

lemma kept_create_bar:
  assumes k: "kept s a c"
  shows "keeps s a (ogs_pfcp_handle_create_bar s message c)"
proof -
  have "runs (case ps_bar (pc_sess c s) of None \<Rightarrow> Ret c | Some b \<Rightarrow> ogs_pfcp_bar_delete b c) (kept s a)"
    using k by (cases "ps_bar (pc_sess c s)") (auto elim: kept_bar_delete [OF k])
  note del = this
  have new: "keeps s a (exec_bind (ogs_pfcp_bar_new s c) (\<lambda>(c, b).
      Ret (c\<lparr>pc_bar := (pc_bar c)(b := (pc_bar c b)\<lparr>bar_id := i\<rparr>)\<rparr>, Done b)))" if "kept s a c" for c i
    unfolding keeps_def by (rule runs_bind [OF kept_bar_new [OF that]]) (auto simp: kept_bar_id)
  show ?thesis unfolding ogs_pfcp_handle_create_bar_def
    by (intro keeps_option) (simp_all only: keeps_Ret k, unfold keeps_def, rule runs_bind [OF del],
      erule new [unfolded keeps_def])
qed

lemma kept_remove_bar:
  assumes k: "kept s a c"
  shows "keeps s a (ogs_pfcp_handle_remove_bar s message c)"
proof -
  have "runs (ogs_pfcp_bar_delete b c) (kept s a)" if "ps_bar (pc_sess c s) = Some b" for b
    by (rule kept_bar_delete [OF k that]) simp
  then show ?thesis unfolding ogs_pfcp_handle_remove_bar_def
    by (auto simp: k keeps_def split: option.split intro!: runs_bind)
qed

section \<open>Usage reporting rules\<close>

lemma kept_with_urr:
  "kept s a c \<Longrightarrow> \<not> foreign urrs_of s a u \<Longrightarrow> kept s a (update_urr u (with_urr f) c)"
  by (rule kept_update_urr) (simp_all add: with_urr_def)

lemma kept_set_volume:
  "kept s a c \<Longrightarrow> \<not> foreign urrs_of s a u \<Longrightarrow> keeps s a (set_volume put ie u m c)"
  unfolding set_volume_def by (auto simp: kept_with_urr intro!: keeps_after split: option.split)

lemma kept_set_dropped_dl:
  "kept s a c \<Longrightarrow> \<not> foreign urrs_of s a u \<Longrightarrow> keeps s a (set_dropped_dl u m c)"
  unfolding set_dropped_dl_def by (auto simp: kept_update_urr intro!: keeps_after split: option.split)

lemma kept_set_counts:
  "kept s a c \<Longrightarrow> \<not> foreign urrs_of s a u \<Longrightarrow> kept s a (set_counts m u c)"
  unfolding set_counts_def by (rule kept_update_urr) (simp_all add: with_urr_def)

lemma kept_set_meas_info:
  "kept s a c \<Longrightarrow> \<not> foreign urrs_of s a u \<Longrightarrow> runs (set_meas_info m u c) (kept s a)"
  unfolding set_meas_info_def Let_def
  by (auto simp: kept_with_urr kept_update_urr intro!: runs_kept_after split: option.split)

lemma kept_set_limits:
  assumes "kept s a c" "\<not> foreign urrs_of s a u"
  shows "keeps s a (set_limits m u c)"
  unfolding set_limits_def Let_def
  by (intro keeps_and_then kept_set_volume kept_set_dropped_dl kept_set_counts keeps_quietly kept_set_meas_info
      kept_update_urr assms) simp_all

lemma kept_create_urr:
  assumes k: "kept s a c"
  shows "keeps s a (ogs_pfcp_handle_create_urr s message c)"
  unfolding ogs_pfcp_handle_create_urr_def
proof (rule keeps_find_for [OF k], intro keeps_option)
  fix m i u b w
  assume "ogs_pfcp_urr_find s (unat i) c = Some u"
  note own = own_urr [OF k find_in_list(3) [OF this]]
  show "keeps s a (exec_bind (set_limits m u (update_urr u (\<lambda>d. with_urr (\<lambda>r. r\<lparr>urr_rep_triggers :=
      triggers_of (ucast (drop_bit 16 w)) (ucast (drop_bit 8 w))\<rparr>) (d\<lparr>uo_meas_method := b\<rparr>)) c))
      (\<lambda>(c, r). Ret (c, ended u r)))"
    by (intro keeps_ended kept_set_limits kept_update_urr k own) (simp add: with_urr_def)
qed (simp_all add: k)

lemma kept_update_urr_request:
  assumes k: "kept s a c"
  shows "keeps s a (ogs_pfcp_handle_update_urr s message c)"
  unfolding ogs_pfcp_handle_update_urr_def
proof (rule keeps_find_for [OF k])
  fix m i u
  assume "ogs_pfcp_urr_find s (unat i) c = Some u"
  note own = own_urr [OF k find_in_list(3) [OF this]]
  show "keeps s a (exec_bind (set_limits m u (update_urr u (\<lambda>d. with_urr (\<lambda>r. r\<lparr>urr_rep_triggers :=
      (case tu_rep_triggers m of None \<Rightarrow> urr_rep_triggers r
       | Some u24 \<Rightarrow> triggers_of (ucast u24) (ucast (drop_bit 8 u24)))\<rparr>)
      (d\<lparr>uo_meas_method := default (uo_meas_method d) (tu_meas_method m)\<rparr>)) c)) (\<lambda>(c, r). Ret (c, ended u r)))"
    by (intro keeps_ended kept_set_limits kept_update_urr k own) (simp add: with_urr_def)
qed

lemma kept_remove_urr: "kept s a c \<Longrightarrow> keeps s a (ogs_pfcp_handle_remove_urr s message c)"
  unfolding ogs_pfcp_handle_remove_urr_def
  by (rule keeps_find_for) (auto intro: kept_urr_remove(1) find_in_list(3))

end
