(* ===== verification/N4_Handler.thy ===== *)
theory N4_Handler
  imports Upf_Sessions Pfcp_Handler Pfcp_Forward
begin

text \<open>
  The session requests of the control plane, \<^verbatim>\<open>src/upf/n4-handler.c\<close>, with the responses of
  \<^verbatim>\<open>src/upf/n4-build.c\<close> and the choice of the GTP-U peer of a FAR
  (\<^verbatim>\<open>ogs_pfcp_setup_far_gtpu_node\<close> of \<^verbatim>\<open>lib/pfcp/context.c\<close>).

  A request is a record of the arrays of the message, each the list of its entries before the
  first absent one. A handler returns the new state, the datagrams it has sent on the user plane
  and the response; whether the response can be queued for sending is a parameter. Metrics are
  left out.
\<close>

section \<open>State and messages\<close>

text \<open>
  The environment: what the rule handlers need, the clocks and timer callbacks of the usage
  accounting, the readers of addresses in route strings, the sockets and address families of
  GTP-U and the size of the pool of its peers.
\<close>

record 'c n4_env =
  ne_handler :: handler_env
  ne_now :: int
  ne_mclk :: int
  ne_cb :: "nat \<Rightarrow> nat \<Rightarrow> 'c"
  ne_pton6 :: "string \<Rightarrow> u32 list option"
  ne_pton4 :: "string \<Rightarrow> u32 option"
  ne_sock4 :: bool
  ne_sock6 :: bool
  ne_no_ipv4 :: bool
  ne_no_ipv6 :: bool
  ne_prefer_ipv4 :: bool
  ne_max_peers :: nat
  ne_send_ok :: bool

text \<open>The list of GTP-U peers, each with the address it was added for.\<close>

record 'c n4_state =
  ns_ctx :: "'c upf_context"
  ns_peers :: "(ogs_ip \<times> gtp_node) list"

record establishment_request =
  es_sereq_flags :: u8
  es_create_pdr :: "tlv_create_pdr list"
  es_create_far :: "tlv_far list"
  es_create_urr :: "tlv_urr list"
  es_apn_dnn :: "octet option"
  es_create_qer :: "tlv_qer list"
  es_create_bar :: "u8 option option"
  es_pdn_type :: "u8 option"

record modification_request =
  md_create_pdr :: "tlv_create_pdr list"
  md_update_pdr :: "tlv_update_pdr list"
  md_remove_pdr :: "u16 option list"
  md_create_far :: "tlv_far list"
  md_update_far :: "tlv_far list"
  md_remove_far :: "u32 option list"
  md_create_urr :: "tlv_urr list"
  md_update_urr :: "tlv_urr list"
  md_remove_urr :: "u32 option list"
  md_create_qer :: "tlv_qer list"
  md_update_qer :: "tlv_qer list"
  md_remove_qer :: "u32 option list"
  md_create_bar :: "u8 option option"
  md_remove_bar :: "u8 option option"

text \<open>
  A response: the SEID it is sent to with the cause and the offending element (0 for none), or
  with the F-TEIDs of the created rules, each with the identifier of its rule.
\<close>

datatype n4_response =
    ErrorMessage u64 u8 u8
  | Accepted u64 "(u16 \<times> bytes) list"
  | DeletionResponse u64 user_plane_report

definition on_pfcp :: "(pfcp_ctx \<Rightarrow> pfcp_ctx) \<Rightarrow> 'c n4_state \<Rightarrow> 'c n4_state" where
  "on_pfcp f st = st\<lparr>ns_ctx := (ns_ctx st)\<lparr>uc_pfcp := f (uc_pfcp (ns_ctx st))\<rparr>\<rparr>"

definition pfcp_of :: "'c n4_state \<Rightarrow> pfcp_ctx" where "pfcp_of st = uc_pfcp (ns_ctx st)"

definition run_pfcp :: "(pfcp_ctx \<Rightarrow> (pfcp_ctx \<times> 'r) exec) \<Rightarrow> 'c n4_state \<Rightarrow> ('c n4_state \<times> 'r) exec" where
  "run_pfcp f st = exec_bind (f (pfcp_of st)) (\<lambda>(c, r). Ret (on_pfcp (\<lambda>_. c) st, r))"

section \<open>The peer of a forwarding action rule\<close>

text \<open>
  The socket addresses of a peer, in the order of preference. A peer that no socket can reach
  stays in the list without an address: its family is \<open>AF_UNSPEC\<close>.
\<close>

definition peer_addresses :: "'c n4_env \<Rightarrow> ogs_ip \<Rightarrow> (nat \<times> bytes) list" where
  "peer_addresses env ip =
     (let v4 = (if oi_ipv4 ip \<and> \<not> ne_no_ipv4 env then [(AF_INET, be32 (oi_addr ip))] else []);
          v6 = (if oi_ipv6 ip \<and> \<not> ne_no_ipv6 env then [(AF_INET6, oi_addr6 ip)] else [])
      in if ne_prefer_ipv4 env then v4 @ v6 else v6 @ v4)"

definition has_socket :: "'c n4_env \<Rightarrow> nat \<times> bytes \<Rightarrow> bool" where
  "has_socket env a = (if fst a = AF_INET then ne_sock4 env else ne_sock6 env)"

definition unconnected :: gtp_node where
  "unconnected = \<lparr>gn_family = AF_UNSPEC, gn_addr = [], gn_sock = False\<rparr>"

text \<open>\<open>False\<close> is a return of \<^verbatim>\<open>OGS_ERROR\<close>.\<close>

definition ogs_gtp_connect :: "'c n4_env \<Rightarrow> (nat \<times> bytes) list \<Rightarrow> (gtp_node \<times> bool) exec" where
  "ogs_gtp_connect env sa_list =
     (if \<not> ne_sock4 env \<and> \<not> ne_sock6 env \<or> sa_list = [] then Abort
      else Ret (case find (has_socket env) sa_list of
          None \<Rightarrow> (unconnected, False)
        | Some (family, addr) \<Rightarrow> (\<lparr>gn_family = family, gn_addr = addr, gn_sock = True\<rparr>, True)))"

definition ogs_pfcp_setup_far_gtpu_node :: "'c n4_env \<Rightarrow> nat \<Rightarrow> 'c n4_state \<Rightarrow> ('c n4_state \<times> bool) exec" where
  "ogs_pfcp_setup_far_gtpu_node env x st =
     (let ip = ogs_pfcp_outer_header_creation_to_ip (far_ohc (pc_far (pfcp_of st) x));
          setup = (\<lambda>g. on_pfcp (update_far x (\<lambda>f. f\<lparr>far_gnode := Some g\<rparr>)))
      in if oi_len ip = 0 then Ret (st, True)
         else case map_of (ns_peers st) ip of
           Some g \<Rightarrow> Ret (setup g st, True)
         | None \<Rightarrow>
             (let sa_list = peer_addresses env ip
              in if sa_list = [] \<or> ne_max_peers env \<le> length (ns_peers st) then Ret (st, False)
                 else exec_bind (ogs_gtp_connect env sa_list) (\<lambda>(g, ok).
                   let st = st\<lparr>ns_peers := ns_peers st @ [(ip, g)]\<rparr>
                   in Ret (if ok then setup g st else st, ok))))"

text \<open>A failure leaves the cause as it is: the request is refused with the cause of success.\<close>

fun setup_fars :: "'c n4_env \<Rightarrow> nat list \<Rightarrow> 'c n4_state \<Rightarrow> 'c n4_state attempt" where
  "setup_fars env [] st = Ret (st, None)"
| "setup_fars env (x # xs) st =
     exec_bind (ogs_pfcp_setup_far_gtpu_node env x st) (\<lambda>(st, ok).
       if \<not> ok then Ret (st, Some (OGS_PFCP_CAUSE_REQUEST_ACCEPTED, 0))
       else exec_bind (if far_gnode (pc_far (pfcp_of st) x) = None then Ret st
                       else exec_bind (ogs_pfcp_far_f_teid_hash_set x (pfcp_of st)) (\<lambda>c. Ret (on_pfcp (\<lambda>_. c) st)))
              (setup_fars env xs))"

definition setup_gtp_nodes :: "'c n4_env \<Rightarrow> nat \<Rightarrow> 'c n4_state \<Rightarrow> 'c n4_state attempt" where
  "setup_gtp_nodes env n st =
     (if uc_mode (ns_ctx st) = QUIC then Ret (st, None)
      else setup_fars env (ps_far_list (pc_sess (pfcp_of st) n)) st)"

section \<open>The stages of a request\<close>

text \<open>
  A loop over one array of the message: it ends at the first entry that yields no object, and
  the request is refused when that entry has set the cause.
\<close>

fun each :: "('m \<Rightarrow> 's \<Rightarrow> ('s \<times> nat handled) exec) \<Rightarrow> 'm list \<Rightarrow> 's \<Rightarrow> ('s \<times> nat list \<times> (u8 \<times> u8) option) exec" where
  "each handle [] st = Ret (st, [], None)"
| "each handle (m # ms) st =
     exec_bind (handle m st) (\<lambda>(st, r).
       case r of
         Absent \<Rightarrow> Ret (st, [], None)
       | Refused cause ie \<Rightarrow> Ret (st, [], Some (cause, default 0 ie))
       | Done x \<Rightarrow> exec_bind (each handle ms st) (\<lambda>(st, xs, e). Ret (st, x # xs, e)))"

definition all_of :: "('m \<Rightarrow> pfcp_ctx \<Rightarrow> (pfcp_ctx \<times> nat handled) exec) \<Rightarrow> 'm list \<Rightarrow> 'c n4_state \<Rightarrow> 'c n4_state attempt" where
  "all_of handle ms st = exec_bind (each (\<lambda>m. run_pfcp (handle m)) ms st) (\<lambda>(st, xs, e). Ret (st, e))"

definition create_pdrs ::
  "'c n4_env \<Rightarrow> bool \<Rightarrow> nat \<Rightarrow> tlv_create_pdr list \<Rightarrow> 'c n4_state \<Rightarrow> ('c n4_state \<times> nat list \<times> (u8 \<times> u8) option) exec" where
  "create_pdrs env restore n ms =
     each (\<lambda>m. run_pfcp (ogs_pfcp_handle_create_pdr (ne_handler env) restore n (Some m))) (take OGS_MAX_NUM_OF_PDR ms)"

text \<open>A URR that starts measuring at once gets its timers.\<close>

definition create_urr_timed :: "'c n4_env \<Rightarrow> nat \<Rightarrow> tlv_urr \<Rightarrow> 'c n4_state \<Rightarrow> ('c n4_state \<times> nat handled) exec" where
  "create_urr_timed env n m st =
     exec_bind (run_pfcp (ogs_pfcp_handle_create_urr n (Some m)) st) (\<lambda>(st, r).
       case r of
         Done u \<Rightarrow>
           (let o' = pc_urr (pfcp_of st) u; c = ns_ctx st
            in if meas_info_istm (uo_meas_info o')
               then exec_bind (upf_sess_urr_acc_timers_setup (ne_now env) (ne_mclk env) (ne_cb env n u)
                       \<lparr>us_acc = se_urr_acc (uc_sess c n), us_mgr = uc_timers c\<rparr> (uo_urr o')) (\<lambda>s.
                    Ret (st\<lparr>ns_ctx := (with_sess n (\<lambda>d. d\<lparr>se_urr_acc := us_acc s\<rparr>) c)\<lparr>uc_timers := us_mgr s\<rparr>\<rparr>, r))
               else Ret (st, r))
       | _ \<Rightarrow> Ret (st, r))"

definition upf_n4_handle_create_urr :: "'c n4_env \<Rightarrow> nat \<Rightarrow> tlv_urr list \<Rightarrow> 'c n4_state \<Rightarrow> 'c n4_state attempt" where
  "upf_n4_handle_create_urr env n ms st =
     exec_bind (each (create_urr_timed env n) (take OGS_MAX_NUM_OF_URR ms) st) (\<lambda>(st, xs, e). Ret (st, e))"

definition set_apn_dnn :: "nat \<Rightarrow> octet option \<Rightarrow> 'c n4_state \<Rightarrow> 'c n4_state attempt" where
  "set_apn_dnn n m st =
     (case m of None \<Rightarrow> Ret (st, None)
      | Some oc \<Rightarrow> exec_bind (parse_dnn oc) (\<lambda>r.
          Ret (case r of None \<Rightarrow> (st, Some (OGS_PFCP_CAUSE_MANDATORY_IE_INCORRECT, 0))
               | Some d \<Rightarrow> (st\<lparr>ns_ctx := with_sess n (\<lambda>e. e\<lparr>se_apn_dnn := Some d\<rparr>) (ns_ctx st)\<rparr>, None))))"

text \<open>The buffering action rule is one entry, not an array.\<close>

definition one_of :: "(pfcp_ctx \<Rightarrow> (pfcp_ctx \<times> nat handled) exec) \<Rightarrow> 'c n4_state \<Rightarrow> 'c n4_state attempt" where
  "one_of handle = all_of (\<lambda>_ :: unit. handle) [()]"

text \<open>A cause other than success refuses the request.\<close>

definition by_cause :: "('s \<times> u8) exec \<Rightarrow> 's attempt" where
  "by_cause m = exec_bind m (\<lambda>(st, cause).
     Ret (st, if cause = OGS_PFCP_CAUSE_REQUEST_ACCEPTED then None else Some (cause, 0)))"

fun for_each :: "('x \<Rightarrow> 's \<Rightarrow> 's attempt) \<Rightarrow> 'x list \<Rightarrow> 's \<Rightarrow> 's attempt" where
  "for_each f [] st = Ret (st, None)"
| "for_each f (x # xs) st = and_then (f x st) (for_each f xs)"

definition restore_teid :: "nat \<Rightarrow> 'c n4_state \<Rightarrow> 'c n4_state attempt" where
  "restore_teid p st =
     (let d = pc_pdr (pfcp_of st) p
      in if 0 < pdr_f_teid_len d \<and> \<not> te_ch (pdr_f_teid d)
         then by_cause (run_pfcp (ogs_pfcp_pdr_swap_teid p) st) else Ret (st, None))"

definition on_ctx :: "('c upf_context \<Rightarrow> ('c upf_context \<times> 'r) exec) \<Rightarrow> 'c n4_state \<Rightarrow> ('c n4_state \<times> 'r) exec" where
  "on_ctx f st = exec_bind (f (ns_ctx st)) (\<lambda>(c, r). Ret (st\<lparr>ns_ctx := c\<rparr>, r))"

definition list_teid :: "nat \<Rightarrow> 'c n4_state \<Rightarrow> 'c n4_state attempt" where
  "list_teid p st =
     (if pdr_f_teid_len (pc_pdr (pfcp_of st) p) = 0 then Ret (st, None)
      else by_cause (run_pfcp (ogs_pfcp_object_teid_hash_set True p) st))"

definition set_ue_address :: "nat \<Rightarrow> u8 option \<Rightarrow> nat \<Rightarrow> 'c n4_state \<Rightarrow> 'c n4_state attempt" where
  "set_ue_address n pdn_type p st =
     (case pdn_type of
        None \<Rightarrow> Ret (st, None)
      | Some t \<Rightarrow>
          if pdr_ue_ip (pc_pdr (pfcp_of st) p) = None then Ret (st, None)
          else by_cause (on_ctx (upf_sess_set_ue_ip n t p) st))"

definition set_framed_routes :: "'c n4_env \<Rightarrow> nat \<Rightarrow> nat \<Rightarrow> 'c n4_state \<Rightarrow> 'c n4_state attempt" where
  "set_framed_routes env n p st =
     and_then (case pdr_routes4 (pc_pdr (pfcp_of st) p) of None \<Rightarrow> Ret (st, None)
       | r \<Rightarrow> by_cause (on_ctx (\<lambda>c. Ret (upf_sess_set_ue_ipv4_framed_routes (ne_pton6 env) (ne_pton4 env) n r c)) st)) (\<lambda>st.
     case pdr_routes6 (pc_pdr (pfcp_of st) p) of None \<Rightarrow> Ret (st, None)
       | r \<Rightarrow> by_cause (on_ctx (\<lambda>c. Ret (upf_sess_set_ue_ipv6_framed_routes (ne_pton6 env) (ne_pton4 env) n r c)) st))"

definition setup_created ::
  "'c n4_env \<Rightarrow> nat \<Rightarrow> u8 option \<Rightarrow> nat \<Rightarrow> 'c n4_state \<Rightarrow> 'c n4_state attempt" where
  "setup_created env n pdn_type p st =
     and_then (set_ue_address n pdn_type p st) (\<lambda>st.
     and_then (set_framed_routes env n p st) (list_teid p))"

section \<open>Packets and responses\<close>

definition send_end_marker_packets :: "u8 \<Rightarrow> bool" where "send_end_marker_packets b \<longleftrightarrow> bit b 1"

definition downlink_pdrs :: "nat \<Rightarrow> pfcp_ctx \<Rightarrow> nat list" where
  "downlink_pdrs n c = filter (\<lambda>p. pdr_src_if (pc_pdr c p) = OGS_PFCP_INTERFACE_CORE) (pdrs_of c n)"

definition wants_end_marker :: "pfcp_ctx \<Rightarrow> nat \<Rightarrow> bool" where
  "wants_end_marker c p \<longleftrightarrow>
     (case pdr_far (pc_pdr c p) of None \<Rightarrow> False | Some x \<Rightarrow> send_end_marker_packets (far_smreq_flags (pc_far c x)))"

fun end_markers :: "nat list \<Rightarrow> pfcp_ctx \<Rightarrow> datagram list exec" where
  "end_markers [] c = Ret []"
| "end_markers (p # ps) c =
     (if wants_end_marker c p
      then exec_bind (ogs_pfcp_send_end_marker p c) (\<lambda>ds. exec_bind (end_markers ps c) (\<lambda>ds'. Ret (ds @ ds')))
      else end_markers ps c)"

definition clear_smreq_flags :: "nat \<Rightarrow> pfcp_ctx \<Rightarrow> pfcp_ctx" where
  "clear_smreq_flags n c =
     fold (\<lambda>x. update_far x (\<lambda>f. f\<lparr>far_smreq_flags := 0\<rparr>)) (ps_far_list (pc_sess c n)) c"

fun send_buffered :: "nat list \<Rightarrow> pfcp_ctx \<Rightarrow> pfcp_ctx \<times> datagram list" where
  "send_buffered [] c = (c, [])"
| "send_buffered (p # ps) c =
     (let (c, ds) = ogs_pfcp_send_buffered_gtpu p c; (c, ds') = send_buffered ps c in (c, ds @ ds'))"

text \<open>
  The F-TEID of a created rule in a response. Its length may come from an update in the same
  request: the copy into a buffer of 25 octets does not look at it.
\<close>

definition f_teid_octets :: "f_teid \<Rightarrow> bytes" where
  "f_teid_octets f = take 1 (f_teid_memory f) @ be32 (te_teid f) @ drop 5 (f_teid_memory f)"

definition ogs_pfcp_build_created_pdr :: "pfcp_pdr \<Rightarrow> (u16 \<times> bytes) option exec" where
  "ogs_pfcp_build_created_pdr d =
     (if pdr_f_teid_len d = 0 then Ret None
      else if 25 < pdr_f_teid_len d then Abort
      else Ret (Some (ucast (pdr_id d), take (pdr_f_teid_len d) (f_teid_octets (pdr_f_teid d)))))"

fun build_created :: "nat list \<Rightarrow> pfcp_ctx \<Rightarrow> (u16 \<times> bytes) list exec" where
  "build_created [] c = Ret []"
| "build_created (p # ps) c =
     exec_bind (ogs_pfcp_build_created_pdr (pc_pdr c p)) (\<lambda>r.
     exec_bind (build_created ps c) (\<lambda>rs. Ret (case r of None \<Rightarrow> rs | Some x \<Rightarrow> x # rs)))"

text \<open>The end of a request: the label \<^verbatim>\<open>cleanup\<close>, or the buffered packets and the response.\<close>

definition smf_seid :: "nat \<Rightarrow> 'c n4_state \<Rightarrow> u64" where "smf_seid n st = se_smf_seid (uc_sess (ns_ctx st) n)"

definition conclude ::
  "'c n4_env \<Rightarrow> nat \<Rightarrow> nat list \<Rightarrow> datagram list \<Rightarrow> 'c n4_state \<Rightarrow> (u8 \<times> u8) option \<Rightarrow>
     ('c n4_state \<times> datagram list \<times> n4_response) exec" where
  "conclude env n created sent st e =
     (case e of
        Some (cause, ie) \<Rightarrow>
          exec_bind (ogs_pfcp_sess_clear n (pfcp_of st)) (\<lambda>c.
            Ret (on_pfcp (\<lambda>_. c) st, sent, ErrorMessage (smf_seid n st) cause ie))
      | None \<Rightarrow>
          (let (c, ds) = send_buffered (downlink_pdrs n (pfcp_of st)) (pfcp_of st)
           in exec_bind (build_created created c) (\<lambda>rs.
              if ne_send_ok env then Ret (on_pfcp (\<lambda>_. c) st, sent @ ds, Accepted (smf_seid n st) rs) else Abort)))"

section \<open>Requests\<close>

definition restoration_indication :: "u8 \<Rightarrow> bool" where "restoration_indication b \<longleftrightarrow> bit b 0"

definition establish ::
  "'c n4_env \<Rightarrow> nat \<Rightarrow> establishment_request \<Rightarrow> nat list \<Rightarrow> 'c n4_state \<Rightarrow> 'c n4_state attempt" where
  "establish env n req created st =
     and_then (all_of (\<lambda>m. ogs_pfcp_handle_create_far n (Some m)) (take OGS_MAX_NUM_OF_FAR (es_create_far req)) st) (\<lambda>st.
     and_then (upf_n4_handle_create_urr env n (es_create_urr req) st) (\<lambda>st.
     and_then (set_apn_dnn n (es_apn_dnn req) st) (\<lambda>st.
     and_then (all_of (\<lambda>m. ogs_pfcp_handle_create_qer n (Some m)) (take OGS_MAX_NUM_OF_QER (es_create_qer req)) st) (\<lambda>st.
     and_then (one_of (ogs_pfcp_handle_create_bar n (es_create_bar req)) st) (\<lambda>st.
     and_then (setup_gtp_nodes env n st) (\<lambda>st.
     and_then (if restoration_indication (es_sereq_flags req) then for_each restore_teid created st
               else Ret (st, None)) (\<lambda>st.
     for_each (setup_created env n (es_pdn_type req)) created st)))))))"

definition upf_n4_handle_session_establishment_request ::
  "'c n4_env \<Rightarrow> nat option \<Rightarrow> establishment_request \<Rightarrow> 'c n4_state \<Rightarrow>
     ('c n4_state \<times> datagram list \<times> n4_response) exec" where
  "upf_n4_handle_session_establishment_request env sess req st =
     (case sess of
        None \<Rightarrow> Ret (st, [], ErrorMessage 0 OGS_PFCP_CAUSE_MANDATORY_IE_MISSING 0)
      | Some n \<Rightarrow>
          (let restore = restoration_indication (es_sereq_flags req) in
           exec_bind (create_pdrs env restore n (es_create_pdr req) st) (\<lambda>(st, created, e).
           exec_bind (if e = None then establish env n req created st else Ret (st, e)) (\<lambda>(st, e).
           conclude env n (if restore \<or> \<not> pc_ftup (pfcp_of st) then [] else created) [] st e))))"

definition modify_rules ::
  "'c n4_env \<Rightarrow> nat \<Rightarrow> modification_request \<Rightarrow> 'c n4_state \<Rightarrow> 'c n4_state attempt" where
  "modify_rules env n req st =
     and_then (all_of (\<lambda>m. ogs_pfcp_handle_update_pdr (ne_handler env) n (Some m)) (take OGS_MAX_NUM_OF_PDR (md_update_pdr req)) st) (\<lambda>st.
     and_then (all_of (\<lambda>m. ogs_pfcp_handle_remove_pdr n (Some m)) (take OGS_MAX_NUM_OF_PDR (md_remove_pdr req)) st) (\<lambda>st.
     and_then (all_of (\<lambda>m. ogs_pfcp_handle_create_far n (Some m)) (take OGS_MAX_NUM_OF_FAR (md_create_far req)) st) (\<lambda>st.
     all_of (\<lambda>m. ogs_pfcp_handle_update_far_flags n (Some m)) (take OGS_MAX_NUM_OF_FAR (md_update_far req)) st)))"

definition modify_rest ::
  "'c n4_env \<Rightarrow> nat \<Rightarrow> modification_request \<Rightarrow> nat list \<Rightarrow> 'c n4_state \<Rightarrow> 'c n4_state attempt" where
  "modify_rest env n req created st =
     and_then (all_of (\<lambda>m. ogs_pfcp_handle_update_far n (Some m)) (take OGS_MAX_NUM_OF_FAR (md_update_far req)) st) (\<lambda>st.
     and_then (all_of (\<lambda>m. ogs_pfcp_handle_remove_far n (Some m)) (take OGS_MAX_NUM_OF_FAR (md_remove_far req)) st) (\<lambda>st.
     and_then (upf_n4_handle_create_urr env n (md_create_urr req) st) (\<lambda>st.
     and_then (all_of (\<lambda>m. ogs_pfcp_handle_update_urr n (Some m)) (take OGS_MAX_NUM_OF_URR (md_update_urr req)) st) (\<lambda>st.
     and_then (all_of (\<lambda>m. ogs_pfcp_handle_remove_urr n (Some m)) (take OGS_MAX_NUM_OF_URR (md_remove_urr req)) st) (\<lambda>st.
     and_then (all_of (\<lambda>m. ogs_pfcp_handle_create_qer n (Some m)) (take OGS_MAX_NUM_OF_QER (md_create_qer req)) st) (\<lambda>st.
     and_then (all_of (\<lambda>m. ogs_pfcp_handle_update_qer n (Some m)) (take OGS_MAX_NUM_OF_QER (md_update_qer req)) st) (\<lambda>st.
     and_then (all_of (\<lambda>m. ogs_pfcp_handle_remove_qer n (Some m)) (take OGS_MAX_NUM_OF_QER (md_remove_qer req)) st) (\<lambda>st.
     and_then (one_of (ogs_pfcp_handle_create_bar n (md_create_bar req)) st) (\<lambda>st.
     and_then (one_of (ogs_pfcp_handle_remove_bar n (md_remove_bar req)) st) (\<lambda>st.
     and_then (setup_gtp_nodes env n st) (\<lambda>st.
     for_each list_teid created st)))))))))))"

definition upf_n4_handle_session_modification_request ::
  "'c n4_env \<Rightarrow> nat option \<Rightarrow> modification_request \<Rightarrow> 'c n4_state \<Rightarrow>
     ('c n4_state \<times> datagram list \<times> n4_response) exec" where
  "upf_n4_handle_session_modification_request env sess req st =
     (case sess of
        None \<Rightarrow> Ret (st, [], ErrorMessage 0 OGS_PFCP_CAUSE_SESSION_CONTEXT_NOT_FOUND 0)
      | Some n \<Rightarrow>
          exec_bind (create_pdrs env False n (md_create_pdr req) st) (\<lambda>(st, created, e).
          exec_bind (if e = None then modify_rules env n req st else Ret (st, e)) (\<lambda>(st, e).
          if e \<noteq> None then conclude env n [] [] st e
          else exec_bind (end_markers (downlink_pdrs n (pfcp_of st)) (pfcp_of st)) (\<lambda>sent.
            exec_bind (modify_rest env n req created (on_pfcp (clear_smreq_flags n) st)) (\<lambda>(st, e).
            conclude env n (if pc_ftup (pfcp_of st) then created else []) sent st e)))))"

text \<open>The report of a deletion is built before the session goes; that it is sent is not checked.\<close>

definition upf_n4_handle_session_deletion_request ::
  "'c n4_env \<Rightarrow> nat option \<Rightarrow> 'c n4_state \<Rightarrow> ('c n4_state \<times> n4_response) exec" where
  "upf_n4_handle_session_deletion_request env sess st =
     (case sess of
        None \<Rightarrow> Ret (st, ErrorMessage 0 OGS_PFCP_CAUSE_SESSION_CONTEXT_NOT_FOUND 0)
      | Some n \<Rightarrow>
          (let c = ns_ctx st; urrs = map (\<lambda>u. uo_urr (pc_urr (uc_pfcp c) u)) (ps_urr_list (pc_sess (uc_pfcp c) n)) in
           exec_bind (deletion_report (ne_now env) (se_urr_acc (uc_sess c n)) urrs) (\<lambda>(accs, rep).
           exec_bind (upf_sess_remove n (with_sess n (\<lambda>d. d\<lparr>se_urr_acc := accs\<rparr>) c)) (\<lambda>c'.
           Ret (st\<lparr>ns_ctx := c'\<rparr>, DeletionResponse (smf_seid n st) rep)))))"

text \<open>The cause that the response to a report ends with.\<close>

definition upf_n4_handle_session_report_response :: "nat option \<Rightarrow> u8 option \<Rightarrow> u8" where
  "upf_n4_handle_session_report_response sess cause =
     (case cause of None \<Rightarrow> OGS_PFCP_CAUSE_MANDATORY_IE_MISSING
      | Some k \<Rightarrow> if k \<noteq> OGS_PFCP_CAUSE_REQUEST_ACCEPTED then k
          else if sess = None then OGS_PFCP_CAUSE_SESSION_CONTEXT_NOT_FOUND else OGS_PFCP_CAUSE_REQUEST_ACCEPTED)"

end
