(* ===== verification/N4_Requests.thy ===== *)
theory N4_Requests
  imports Pfcp_Kept N4_Handler
begin

text \<open>
  The session requests as a whole: what they keep, what a refused request leaves behind, which
  states they reach and what an accepted one answers.
\<close>

section \<open>States reached by a request\<close>

text \<open>
  \<open>a\<close> is the state a request on session \<open>n\<close> starts from. The index of the sessions is the same,
  the other sessions and their objects are as they were and the invariants hold.
\<close>

definition within :: "nat \<Rightarrow> 'c n4_state \<Rightarrow> 'c n4_state \<Rightarrow> bool" where
  "within n a st \<longleftrightarrow> kept n (pfcp_of a) (pfcp_of st) \<and> ctx_inv (ns_ctx st) \<and> n \<in> live (ns_ctx st) \<and>
     same_index (ns_ctx a) (ns_ctx st) \<and> (\<forall>m. m \<noteq> n \<longrightarrow> uc_sess (ns_ctx st) m = uc_sess (ns_ctx a) m)"

definition stays :: "nat \<Rightarrow> 'c n4_state \<Rightarrow> ('c n4_state \<times> 'r) exec \<Rightarrow> bool" where
  "stays n a m \<longleftrightarrow> runs m (\<lambda>(st, r). within n a st)"

lemma within_kept: "within n a st \<Longrightarrow> kept n (pfcp_of a) (pfcp_of st)"
  by (simp add: within_def)

lemma stays_Ret [simp]: "stays n a (Ret (st, r)) \<longleftrightarrow> within n a st"
  by (simp add: stays_def)

lemma stays_Abort [simp]: "stays n a Abort"
  by (simp add: stays_def)

lemma stays_bind: "stays n a m \<Longrightarrow> (\<And>st r. within n a st \<Longrightarrow> stays n a (f (st, r))) \<Longrightarrow> stays n a (exec_bind m f)"
  unfolding stays_def by (erule runs_bind) auto

lemma stays_and_then: "stays n a m \<Longrightarrow> (\<And>st. within n a st \<Longrightarrow> stays n a (f st)) \<Longrightarrow> stays n a (and_then m f)"
  unfolding and_then_def by (rule stays_bind) (auto split: option.split)

lemma stays_by_cause: "stays n a m \<Longrightarrow> stays n a (by_cause m)"
  unfolding by_cause_def by (rule stays_bind) simp_all

lemma pfcp_of_on_pfcp [simp]: "pfcp_of (on_pfcp f st) = f (pfcp_of st)"
  by (simp add: pfcp_of_def on_pfcp_def)

lemma within_ctx:
  assumes "within n a st" "ctx_inv c" "same_index (ns_ctx st) c" "\<And>m. m \<noteq> n \<Longrightarrow> uc_sess c m = uc_sess (ns_ctx st) m"
    "kept n (pfcp_of a) (uc_pfcp c)"
  shows "within n a (st\<lparr>ns_ctx := c\<rparr>)"
  using assms same_index_trans same_index_inv(3) [OF assms(3)] by (auto simp: within_def pfcp_of_def)

lemma within_on_pfcp:
  assumes w: "within n a st" and k: "kept n (pfcp_of a) (f (pfcp_of st))"
  shows "within n a (on_pfcp f st)"
proof -
  have e: "on_pfcp f st = st\<lparr>ns_ctx := (ns_ctx st)\<lparr>uc_pfcp := f (pfcp_of st)\<rparr>\<rparr>" by (simp add: on_pfcp_def pfcp_of_def)
  have "ctx_inv (ns_ctx st)" using w by (simp add: within_def)
  from other_step_inv(1) [OF this, where x = "f (pfcp_of st)" and t = "uc_timers (ns_ctx st)"]
  have "ctx_inv ((ns_ctx st)\<lparr>uc_pfcp := f (pfcp_of st)\<rparr>)" by simp
  then show ?thesis unfolding e by (rule within_ctx [OF w]) (use k in \<open>simp_all add: same_index_def\<close>)
qed

lemma stays_run_pfcp:
  assumes "within n a st" "keeps n (pfcp_of a) (f (pfcp_of st))"
  shows "stays n a (run_pfcp f st)"
  unfolding run_pfcp_def stays_def
  by (rule runs_bind [OF assms(2) [unfolded keeps_def]]) (auto intro: within_on_pfcp [OF assms(1)])

lemma stays_each:
  assumes "\<And>m st. within n a st \<Longrightarrow> stays n a (handle m st)" "within n a st"
  shows "stays n a (each handle ms st)"
  using assms(2)
proof (induction ms arbitrary: st)
  case (Cons m ms)
  show ?case unfolding each.simps
    by (rule stays_bind [OF assms(1) [OF Cons.prems]])
      (auto split: handled.split intro!: stays_bind Cons.IH)
qed simp

lemma stays_all_of:
  assumes "\<And>m c. kept n (pfcp_of a) c \<Longrightarrow> keeps n (pfcp_of a) (handle m c)" "within n a st"
  shows "stays n a (all_of handle ms st)"
  unfolding all_of_def
  by (rule stays_bind [OF stays_each]) (auto intro!: stays_run_pfcp assms within_kept)

lemma stays_one_of:
  assumes "\<And>c. kept n (pfcp_of a) c \<Longrightarrow> keeps n (pfcp_of a) (handle c)" "within n a st"
  shows "stays n a (one_of handle st)"
  unfolding one_of_def by (rule stays_all_of) (use assms in auto)

lemma stays_for_each:
  assumes "\<And>x st. x \<in> set xs \<Longrightarrow> within n a st \<Longrightarrow> stays n a (f x st)" "within n a st"
  shows "stays n a (for_each f xs st)"
  using assms
proof (induction xs arbitrary: st)
  case (Cons x xs)
  have "stays n a (f x st)" using Cons.prems by simp
  then show ?case unfolding for_each.simps by (rule stays_and_then) (rule Cons.IH, use Cons.prems(1) in auto)
qed simp

section \<open>The stages of a request\<close>

lemma stays_create_pdrs:
  assumes "within n a st"
  shows "runs (create_pdrs env restore n ms st) (\<lambda>(st, created, e). within n a st \<and>
    (\<forall>p \<in> set created. \<not> foreign pdrs_of n (pfcp_of a) p))"
proof -
  have one: "runs (run_pfcp (ogs_pfcp_handle_create_pdr (ne_handler env) restore n (Some m)) st)
      (\<lambda>(st, r). within n a st \<and> (\<forall>p. r = Done p \<longrightarrow> \<not> foreign pdrs_of n (pfcp_of a) p))" if "within n a st" for m st
    unfolding run_pfcp_def
    by (rule runs_bind [OF kept_create_pdr [OF within_kept [OF that], unfolded keeps_own_def]])
      (auto intro: within_on_pfcp [OF that])
  have "runs (each (\<lambda>m. run_pfcp (ogs_pfcp_handle_create_pdr (ne_handler env) restore n (Some m))) ms st)
      (\<lambda>(st, created, e). within n a st \<and> (\<forall>p \<in> set created. \<not> foreign pdrs_of n (pfcp_of a) p))" for ms
    using assms
  proof (induction ms arbitrary: st)
    case (Cons m ms)
    show ?case unfolding each.simps
      by (rule runs_bind [OF one [OF Cons.prems]])
        (auto split: handled.split intro!: runs_bind [OF Cons.IH])
  qed simp
  then show ?thesis by (simp add: create_pdrs_def)
qed

lemma within_accounting:
  assumes w: "within n a st"
  shows "within n a (st\<lparr>ns_ctx := (with_sess n (\<lambda>d. d\<lparr>se_urr_acc := x\<rparr>) (ns_ctx st))\<lparr>uc_timers := t\<rparr>\<rparr>)"
    "within n a (st\<lparr>ns_ctx := with_sess n (\<lambda>d. d\<lparr>se_apn_dnn := s\<rparr>) (ns_ctx st)\<rparr>)"
proof -
  let ?c = "ns_ctx st"
  have i: "ctx_inv ?c" and k: "kept n (pfcp_of a) (uc_pfcp ?c)" using w by (simp_all add: within_def pfcp_of_def)
  have "ctx_inv (with_sess n (\<lambda>d. d\<lparr>se_urr_acc := x\<rparr>) ?c)"
    using other_step_inv(2) [OF i, where n = n and a = x and s = "se_apn_dnn (uc_sess ?c n)"] by (simp add: with_sess_def)
  from other_step_inv(1) [OF this, where x = "uc_pfcp ?c" and t = t]
  have "ctx_inv ((with_sess n (\<lambda>d. d\<lparr>se_urr_acc := x\<rparr>) ?c)\<lparr>uc_timers := t\<rparr>)" by (simp add: with_sess_def)
  then show "within n a (st\<lparr>ns_ctx := (with_sess n (\<lambda>d. d\<lparr>se_urr_acc := x\<rparr>) ?c)\<lparr>uc_timers := t\<rparr>\<rparr>)"
    by (rule within_ctx [OF w]) (use k in \<open>simp_all add: with_sess_def same_index_def sess_f_seid_key_def\<close>)
  have "ctx_inv (with_sess n (\<lambda>d. d\<lparr>se_apn_dnn := s\<rparr>) ?c)"
    using other_step_inv(2) [OF i, where n = n and a = "se_urr_acc (uc_sess ?c n)" and s = s] by (simp add: with_sess_def)
  then show "within n a (st\<lparr>ns_ctx := with_sess n (\<lambda>d. d\<lparr>se_apn_dnn := s\<rparr>) ?c\<rparr>)"
    by (rule within_ctx [OF w]) (use k in \<open>simp_all add: with_sess_def same_index_def sess_f_seid_key_def\<close>)
qed

lemma stays_create_urrs:
  assumes "within n a st"
  shows "stays n a (upf_n4_handle_create_urr env n ms st)"
proof -
  have "stays n a (create_urr_timed env n m st)" if "within n a st" for m st
    unfolding create_urr_timed_def
    by (rule stays_bind, rule stays_run_pfcp [OF that], rule kept_create_urr [OF within_kept [OF that]])
      (auto simp: Let_def stays_def within_accounting intro!: runs_then split: handled.split)
  then show ?thesis unfolding upf_n4_handle_create_urr_def
    by (intro stays_bind [OF stays_each] assms) auto
qed

lemma stays_apn_dnn: "within n a st \<Longrightarrow> stays n a (set_apn_dnn n m st)"
  unfolding set_apn_dnn_def stays_def
  by (auto simp: within_accounting(2) intro!: runs_then split: option.split)

lemma within_peers: "within n a (st\<lparr>ns_peers := ps\<rparr>) \<longleftrightarrow> within n a st"
  by (simp add: within_def pfcp_of_def)

lemma setup_far_runs:
  assumes w: "within n a st" and x: "x \<in> set (fars_of (pfcp_of st) n)"
  shows "runs (ogs_pfcp_setup_far_gtpu_node env x st)
    (\<lambda>(st', ok). within n a st' \<and> fars_of (pfcp_of st') n = fars_of (pfcp_of st) n)"
proof -
  have own: "\<not> foreign fars_of n (pfcp_of a) x" by (rule own_far [OF within_kept [OF w] x])
  have set: "within n a (on_pfcp (update_far x (\<lambda>f. f\<lparr>far_gnode := Some g\<rparr>)) st')" if "within n a st'" for g st'
    using that own by (intro within_on_pfcp kept_update_far within_kept) simp_all
  have peers: "within n a (st\<lparr>ns_peers := ps\<rparr>)" for ps using w by (simp add: within_peers)
  have same: "pfcp_of (st\<lparr>ns_peers := ps\<rparr>) = pfcp_of st" for ps by (simp add: pfcp_of_def)
  show ?thesis unfolding ogs_pfcp_setup_far_gtpu_node_def Let_def
    by (auto simp: w set peers same split: option.split intro!: runs_then)
qed

lemma stays_setup_fars:
  assumes "within n a st" "set xs \<subseteq> set (fars_of (pfcp_of st) n)"
  shows "stays n a (setup_fars env xs st)"
  using assms
proof (induction xs arbitrary: st)
  case (Cons x xs)
  have x: "x \<in> set (fars_of (pfcp_of st) n)" using Cons.prems(2) by simp
  have rest: "runs (exec_bind (if far_gnode (pc_far (pfcp_of st') x) = None then Ret st'
      else exec_bind (ogs_pfcp_far_f_teid_hash_set x (pfcp_of st')) (\<lambda>c. Ret (on_pfcp (\<lambda>_. c) st'))) (setup_fars env xs))
      (\<lambda>(st, r). within n a st)"
    if w: "within n a st'" and f: "fars_of (pfcp_of st') n = fars_of (pfcp_of st) n" for st'
  proof (rule runs_bind [where P = "\<lambda>st. within n a st \<and> set xs \<subseteq> set (fars_of (pfcp_of st) n)"])
    have xs: "set xs \<subseteq> set (fars_of (pfcp_of st') n)" "x \<in> set (fars_of (pfcp_of st') n)" using Cons.prems(2) f by simp_all
    have "runs (ogs_pfcp_far_f_teid_hash_set x (pfcp_of st'))
        (\<lambda>c. within n a (on_pfcp (\<lambda>_. c) st') \<and> set xs \<subseteq> set (fars_of c n))"
      by (rule runs_weaken [OF kept_f_teid_hash_set [OF within_kept [OF w] xs(2)]])
        (use xs(1) in \<open>auto simp: fars_of_def intro: within_on_pfcp [OF w]\<close>)
    then show "runs (if far_gnode (pc_far (pfcp_of st') x) = None then Ret st'
        else exec_bind (ogs_pfcp_far_f_teid_hash_set x (pfcp_of st')) (\<lambda>c. Ret (on_pfcp (\<lambda>_. c) st')))
        (\<lambda>st. within n a st \<and> set xs \<subseteq> set (fars_of (pfcp_of st) n))"
      using w xs by (auto elim!: runs_bind)
  qed (use Cons.IH in \<open>auto simp: stays_def\<close>)
  show ?case unfolding setup_fars.simps stays_def
    by (rule runs_bind [OF setup_far_runs [OF Cons.prems(1) x]]) (auto simp: rest)
qed simp

lemma stays_setup_gtp_nodes: "within n a st \<Longrightarrow> stays n a (setup_gtp_nodes env n st)"
  unfolding setup_gtp_nodes_def fars_of_def [symmetric] by (auto intro: stays_setup_fars)

lemma stays_restore_teid:
  assumes w: "within n a st"
  shows "stays n a (restore_teid p st)"
proof -
  have "keeps n (pfcp_of a) (ogs_pfcp_pdr_swap_teid p (pfcp_of st))"
    unfolding keeps_def by (rule runs_weaken [OF kept_swap_teid [OF within_kept [OF w]]]) auto
  then show ?thesis by (simp add: restore_teid_def Let_def w stays_by_cause stays_run_pfcp)
qed

lemma stays_list_teid:
  assumes w: "within n a st" and p: "\<not> foreign pdrs_of n (pfcp_of a) p"
  shows "stays n a (list_teid p st)"
proof -
  have "keeps n (pfcp_of a) (ogs_pfcp_object_teid_hash_set True p (pfcp_of st))"
    unfolding keeps_def by (rule runs_weaken [OF kept_teid_hash_set [OF within_kept [OF w] p]]) auto
  then show ?thesis by (simp add: list_teid_def w stays_by_cause stays_run_pfcp)
qed

lemma within_addr_step:
  assumes w: "within n a st" and s: "addr_step n (ns_ctx st) c" "addr_inv c"
  shows "within n a (st\<lparr>ns_ctx := c\<rparr>)"
proof (rule within_ctx [OF w])
  show "ctx_inv c" by (rule addr_step_inv [OF s(1) _ s(2)]) (use w in \<open>simp add: within_def\<close>)
qed (use s(1) within_kept [OF w] in \<open>auto simp: addr_step_def pfcp_of_def\<close>)

lemma stays_set_ue_address:
  assumes w: "within n a st"
  shows "stays n a (set_ue_address n pdn_type p st)"
proof -
  have i: "addr_inv (ns_ctx st)" "n \<in> live (ns_ctx st)" using w by (simp_all add: within_def ctx_inv_def)
  have "stays n a (on_ctx (upf_sess_set_ue_ip n ty p) st)" for ty
    using set_ue_ip_ok [OF i] within_addr_step [OF w] by (auto simp: on_ctx_def stays_def runs_def)
  then show ?thesis by (auto simp: set_ue_address_def w intro: stays_by_cause split: option.split)
qed

lemma stays_set_framed_routes:
  assumes w: "within n a st"
  shows "stays n a (set_framed_routes env n p st)"
proof -
  have route: "within n a (st\<lparr>ns_ctx := c\<rparr>)" if "within n a st" "ctx_inv c" "route_step n (ns_ctx st) c" for st c
    by (rule within_ctx [OF that(1,2)]) (use that(3) within_kept [OF that(1)] in \<open>auto simp: route_step_def pfcp_of_def\<close>)
  have routes: "stays n a (on_ctx (\<lambda>c. Ret (upf_sess_set_ue_ipv4_framed_routes p6 p4 n r c)) st)"
    "stays n a (on_ctx (\<lambda>c. Ret (upf_sess_set_ue_ipv6_framed_routes p6 p4 n r c)) st)" if "within n a st" for p6 p4 r st
  proof -
    have i: "ctx_inv (ns_ctx st)" "n \<in> live (ns_ctx st)" using that by (simp_all add: within_def)
    show "stays n a (on_ctx (\<lambda>c. Ret (upf_sess_set_ue_ipv4_framed_routes p6 p4 n r c)) st)"
      "stays n a (on_ctx (\<lambda>c. Ret (upf_sess_set_ue_ipv6_framed_routes p6 p4 n r c)) st)"
      using set_routes_ok [OF i] route [OF that] by (auto simp: on_ctx_def stays_def split: prod.split)
  qed
  show ?thesis unfolding set_framed_routes_def
    by (rule stays_and_then) (auto simp: w routes intro!: stays_by_cause split: option.split)
qed

lemma stays_setup_created:
  "within n a st \<Longrightarrow> \<not> foreign pdrs_of n (pfcp_of a) p \<Longrightarrow> stays n a (setup_created env n pdn_type p st)"
  unfolding setup_created_def by (intro stays_and_then stays_set_ue_address stays_set_framed_routes stays_list_teid)

section \<open>Whole requests\<close>

lemma stays_establish:
  assumes "within n a st" "\<forall>p \<in> set created. \<not> foreign pdrs_of n (pfcp_of a) p"
  shows "stays n a (establish env n req created st)"
  unfolding establish_def
  by (intro stays_and_then stays_all_of stays_create_urrs stays_apn_dnn stays_one_of stays_setup_gtp_nodes
      kept_create_far kept_create_qer kept_create_bar stays_for_each stays_setup_created assms)
    (use assms in \<open>auto intro: stays_for_each stays_restore_teid\<close>)

lemma stays_modify_rules: "within n a st \<Longrightarrow> stays n a (modify_rules env n req st)"
  unfolding modify_rules_def
  by (intro stays_and_then stays_all_of kept_update_pdr_request kept_remove_pdr kept_create_far kept_update_far_flags)

lemma stays_modify_rest:
  assumes "within n a st" "\<forall>p \<in> set created. \<not> foreign pdrs_of n (pfcp_of a) p"
  shows "stays n a (modify_rest env n req created st)"
  unfolding modify_rest_def
  by (intro stays_and_then stays_all_of kept_update_far_request kept_remove_far stays_create_urrs kept_update_urr_request
      kept_remove_urr kept_create_qer kept_update_qer_request kept_remove_qer stays_one_of kept_create_bar kept_remove_bar
      stays_setup_gtp_nodes stays_for_each stays_list_teid)
    (use assms in auto)

lemma kept_clear_smreq_flags:
  assumes "kept s a c"
  shows "kept s a (clear_smreq_flags s c)"
proof -
  have "kept s a (fold (\<lambda>x. update_far x (\<lambda>f. f\<lparr>far_smreq_flags := 0\<rparr>)) xs c)"
    if "\<forall>x \<in> set xs. \<not> foreign fars_of s a x" "kept s a c" for xs c
    using that by (induction xs arbitrary: c) (simp_all add: kept_update_far)
  then show ?thesis using own_far [OF assms] assms by (simp add: clear_smreq_flags_def fars_of_def)
qed

lemma kept_send_buffered:
  assumes "kept s a c"
  shows "kept s a (fst (send_buffered ps c))"
proof -
  have one: "kept s a (update_far x (\<lambda>f. f\<lparr>far_buffered := []\<rparr>) c)" if "kept s a c" for x c
    by (rule kept_frame [OF that], rule pfcp_ok_fields [OF kept_ok [OF that]])
      (simp_all add: update_far_def frame_def far_kept_def)
  show ?thesis using assms
    by (induction ps arbitrary: c)
      (auto simp: ogs_pfcp_send_buffered_gtpu_def one Let_def split: option.split prod.split,
       (metis one fst_conv)+)
qed

lemma within_smf_seid: "within n a st \<Longrightarrow> smf_seid n st = smf_seid n a"
  by (simp add: within_def same_index_def smf_seid_def)

lemma within_refl:
  "ctx_inv (ns_ctx st) \<Longrightarrow> pfcp_ok (pfcp_of st) \<Longrightarrow> n \<in> live (ns_ctx st) \<Longrightarrow> within n st st"
  by (simp add: within_def kept_refl)

definition no_objects :: "nat \<Rightarrow> pfcp_ctx \<Rightarrow> bool" where
  "no_objects n c \<longleftrightarrow> pdrs_of c n = [] \<and> fars_of c n = [] \<and> urrs_of c n = [] \<and> qers_of c n = [] \<and> ps_bar (pc_sess c n) = None"

text \<open>How a request ends: refused and without objects, or accepted.\<close>

definition answered :: "nat \<Rightarrow> 'c n4_state \<Rightarrow> 'c n4_state \<Rightarrow> n4_response \<Rightarrow> bool" where
  "answered n a st resp \<longleftrightarrow>
     (\<exists>cause ie. resp = ErrorMessage (smf_seid n a) cause ie \<and> no_objects n (pfcp_of st)) \<or>
     (\<exists>rs. resp = Accepted (smf_seid n a) rs)"

lemma conclude_runs:
  assumes w: "within n a st"
  shows "runs (conclude env n created sent st e) (\<lambda>(st', ds, resp). within n a st' \<and> answered n a st' resp \<and>
    (e \<noteq> None \<longleftrightarrow> (\<exists>seid cause ie. resp = ErrorMessage seid cause ie)))"
proof (cases e)
  case (Some r)
  obtain cause ie where e: "e = Some (cause, ie)" using Some by (cases r) simp
  obtain c' where c': "ogs_pfcp_sess_clear n (pfcp_of st) = Ret c'" "kept n (pfcp_of a) c'" "session_cleared n (pfcp_of st) c'"
    by (rule sess_clear_ok [OF within_kept [OF w]])
  have "within n a (on_pfcp (\<lambda>_. c') st)" by (rule within_on_pfcp [OF w]) (rule c'(2))
  then show ?thesis using c'(3) within_smf_seid [OF w]
    by (simp add: conclude_def e c'(1) answered_def no_objects_def session_cleared_def)
next
  case None
  obtain c ds where s: "send_buffered (downlink_pdrs n (pfcp_of st)) (pfcp_of st) = (c, ds)"
    by (cases "send_buffered (downlink_pdrs n (pfcp_of st)) (pfcp_of st)")
  have "kept n (pfcp_of a) c" using kept_send_buffered [OF within_kept [OF w]] s by (metis fst_conv)
  then have "within n a (on_pfcp (\<lambda>_. c) st)" by (rule within_on_pfcp [OF w])
  then show ?thesis using within_smf_seid [OF w]
    by (auto simp: conclude_def None s answered_def intro!: runs_then)
qed

lemma establishment_runs:
  assumes "within n a st"
  shows "runs (upf_n4_handle_session_establishment_request env (Some n) req st)
    (\<lambda>(st', ds, resp). within n a st' \<and> answered n a st' resp)"
proof -
  have est: "runs (exec_bind (if e = None then establish env n req created st' else Ret (st', e))
      (\<lambda>(st, e). conclude env n (if b \<or> \<not> pc_ftup (pfcp_of st) then [] else created) [] st e))
      (\<lambda>(st', ds, resp). within n a st' \<and> answered n a st' resp)"
    if w: "within n a st'" "\<forall>p \<in> set created. \<not> foreign pdrs_of n (pfcp_of a) p" for st' created e b
  proof (rule runs_bind [where P = "\<lambda>(st, e). within n a st"])
    show "runs (if e = None then establish env n req created st' else Ret (st', e)) (\<lambda>(st, e). within n a st)"
      using stays_establish [OF w] w(1) by (auto simp: stays_def)
  qed (auto intro: runs_weaken [OF conclude_runs])
  show ?thesis unfolding upf_n4_handle_session_establishment_request_def option.case Let_def
    by (rule runs_bind [OF stays_create_pdrs [OF assms]])
      (simp only: split_paired_all prod.case, elim conjE, rule est; assumption)
qed

lemma modification_runs:
  assumes "within n a st"
  shows "runs (upf_n4_handle_session_modification_request env (Some n) req st)
    (\<lambda>(st', ds, resp). within n a st' \<and> answered n a st' resp)"
proof -
  let ?Q = "\<lambda>(st', ds, resp). within n a st' \<and> answered n a st' resp"
  have fin: "runs (conclude env n cr sent st' e) ?Q" if "within n a st'" for cr sent st' e
    by (rule runs_weaken [OF conclude_runs [OF that]]) auto
  have rest: "runs (exec_bind (modify_rest env n req created (on_pfcp (clear_smreq_flags n) st'))
      (\<lambda>(st, e). conclude env n (if pc_ftup (pfcp_of st) then created else []) sent st e)) ?Q"
    if w: "within n a st'" "\<forall>p \<in> set created. \<not> foreign pdrs_of n (pfcp_of a) p" for st' created sent
  proof -
    have "within n a (on_pfcp (clear_smreq_flags n) st')"
      by (intro within_on_pfcp kept_clear_smreq_flags within_kept w(1))
    from stays_modify_rest [OF this w(2)] show ?thesis unfolding stays_def by (rule runs_bind) (simp only: split_paired_all prod.case, rule fin)
  qed
  have body: "runs (exec_bind (if e = None then modify_rules env n req st' else Ret (st', e)) (\<lambda>(st, e).
      if e \<noteq> None then conclude env n [] [] st e
      else exec_bind (end_markers (downlink_pdrs n (pfcp_of st)) (pfcp_of st)) (\<lambda>sent.
        exec_bind (modify_rest env n req created (on_pfcp (clear_smreq_flags n) st)) (\<lambda>(st, e).
        conclude env n (if pc_ftup (pfcp_of st) then created else []) sent st e)))) ?Q"
    if w: "within n a st'" "\<forall>p \<in> set created. \<not> foreign pdrs_of n (pfcp_of a) p" for st' created e
  proof (rule runs_bind [where P = "\<lambda>(st, e). within n a st"])
    show "runs (if e = None then modify_rules env n req st' else Ret (st', e)) (\<lambda>(st, e). within n a st)"
      using stays_modify_rules [OF w(1)] w(1) by (auto simp: stays_def)
  next
    fix x
    assume x: "case x of (st, e :: (u8 \<times> u8) option) \<Rightarrow> within n a st"
    obtain st1 e1 where x1: "x = (st1, e1)" "within n a st1" using x by (cases x) simp
    show "runs (case x of (st, e) \<Rightarrow> if e \<noteq> None then conclude env n [] [] st e
      else exec_bind (end_markers (downlink_pdrs n (pfcp_of st)) (pfcp_of st)) (\<lambda>sent.
        exec_bind (modify_rest env n req created (on_pfcp (clear_smreq_flags n) st)) (\<lambda>(st, e).
        conclude env n (if pc_ftup (pfcp_of st) then created else []) sent st e))) ?Q"
      unfolding x1(1) prod.case runs_if by (intro conjI impI fin x1(2) runs_then rest w(2))
  qed
  show ?thesis unfolding upf_n4_handle_session_modification_request_def option.case
    by (rule runs_bind [OF stays_create_pdrs [OF assms]])
      (simp only: split_paired_all prod.case, elim conjE, rule body; assumption)
qed

section \<open>Reachable states\<close>

definition n4_ok :: "'c n4_state \<Rightarrow> bool" where
  "n4_ok st \<longleftrightarrow> ctx_inv (ns_ctx st) \<and> pfcp_ok (pfcp_of st) \<and>
     (\<forall>n. n \<notin> live (ns_ctx st) \<longrightarrow> no_objects n (pfcp_of st))"

text \<open>Packets come and go between requests: FARs buffer them and the URRs account for them.\<close>

definition with_traffic ::
  "(nat \<Rightarrow> bytes list) \<Rightarrow> (nat \<Rightarrow> urr_acc list) \<Rightarrow> 'c timer_mgr \<Rightarrow> 'c n4_state \<Rightarrow> 'c n4_state" where
  "with_traffic bufs accs timers st =
     (let c = ns_ctx st in
      st\<lparr>ns_ctx := c\<lparr>uc_sess := (\<lambda>n. (uc_sess c n)\<lparr>se_urr_acc := accs n\<rparr>), uc_timers := timers,
        uc_pfcp := (uc_pfcp c)\<lparr>pc_far := (\<lambda>x. (pc_far (uc_pfcp c) x)\<lparr>far_buffered := bufs x\<rparr>)\<rparr>\<rparr>\<rparr>)"

inductive n4_reachable :: "nat \<Rightarrow> 'c n4_state \<Rightarrow> bool" for k :: nat where
  start: "n4_reachable k \<lparr>ns_ctx = upf_context_init k r seed timers (ogs_pfcp_context_init k r' seed') subnets, ns_peers = []\<rparr>"
| associate: "n4_reachable k st \<Longrightarrow> upf_sess_add_by_message seed pad f (ns_ctx st) = Ret (c', r) \<Longrightarrow>
    n4_reachable k (st\<lparr>ns_ctx := c'\<rparr>)"
| establish: "n4_reachable k st \<Longrightarrow> n \<in> live (ns_ctx st) \<Longrightarrow>
    upf_n4_handle_session_establishment_request env (Some n) ereq st = Ret (st', ds, resp) \<Longrightarrow> n4_reachable k st'"
| modify: "n4_reachable k st \<Longrightarrow> n \<in> live (ns_ctx st) \<Longrightarrow>
    upf_n4_handle_session_modification_request env (Some n) mreq st = Ret (st', ds, resp) \<Longrightarrow> n4_reachable k st'"
| delete: "n4_reachable k st \<Longrightarrow> n \<in> live (ns_ctx st) \<Longrightarrow>
    upf_n4_handle_session_deletion_request env (Some n) st = Ret (st', resp) \<Longrightarrow> n4_reachable k st'"
| remove: "n4_reachable k st \<Longrightarrow> n \<in> live (ns_ctx st) \<Longrightarrow> upf_sess_remove n (ns_ctx st) = Ret c' \<Longrightarrow>
    n4_reachable k (st\<lparr>ns_ctx := c'\<rparr>)"
| traffic: "n4_reachable k st \<Longrightarrow> n4_reachable k (with_traffic bufs accs timers st)"

lemma hash_get_make: "hash_get (ogs_hash_make seed) j = None"
  by (cases "j = []") (simp_all add: hash_empty_key ht.look_empty)

lemma pfcp_ok_init: "pfcp_ok (ogs_pfcp_context_init k r seed)"
proof -
  let ?c = "ogs_pfcp_context_init k r seed"
  have l: "pdrs_of ?c s = []" "fars_of ?c s = []" "urrs_of ?c s = []" "qers_of ?c s = []" "ps_bar (pc_sess ?c s) = None" for s
    by (simp_all add: lists_defs ogs_pfcp_context_init_def ogs_pfcp_pool_init_def Let_def)
  have p: "pool_ok (pc_pdr_pool ?c)" "pool_ok (pc_far_pool ?c)" "pool_ok (pc_urr_pool ?c)" "pool_ok (pc_qer_pool ?c)"
    "pool_ok (pc_bar_pool ?c)" "pool_ok (pc_teid_pool ?c)" "pool_ok (pc_rule_pool ?c)"
    "allocated (pc_pdr_pool ?c) = {}" "allocated (pc_far_pool ?c) = {}" "allocated (pc_urr_pool ?c) = {}"
    "allocated (pc_qer_pool ?c) = {}" "allocated (pc_bar_pool ?c) = {}"
    by (simp_all add: ogs_pfcp_context_init_def Let_def pool_ok_init allocated_init)
  have i: "pool_ok (ps_pdr_ids (pc_sess ?c s))" "pool_ok (ps_far_ids (pc_sess ?c s))" "pool_ok (ps_urr_ids (pc_sess ?c s))"
    "pool_ok (ps_qer_ids (pc_sess ?c s))" "pool_ok (ps_bar_ids (pc_sess ?c s))" for s
    by (simp_all add: ogs_pfcp_context_init_def ogs_pfcp_pool_init_def Let_def pool_ok_init)
  have "pdr_rules (pc_pdr ?c q) = []" for q by (simp add: ogs_pfcp_context_init_def Let_def zero_pdr_def)
  with p have "rule_objs ?c" by (simp add: rule_objs_def)
  moreover have "teid_table ?c" "peer_table ?c"
    by (simp_all add: hash_get_make hash_ok_make teid_table_def peer_table_def ogs_pfcp_object_find_by_teid_def
        ogs_pfcp_context_init_def Let_def)
  ultimately show ?thesis using p i l
    by (simp add: pfcp_ok_def pdr_objs_def far_objs_def urr_objs_def qer_objs_def teid_nodes_def bar_objs_def
        kind_ok_def objs_ok_def)
qed

text \<open>A new session starts without objects, in a place where no session has any.\<close>

lemma pfcp_ok_new_session:
  assumes ok: "pfcp_ok c" and n: "no_objects n c"
  shows "pfcp_ok (update_sess n (\<lambda>_. ogs_pfcp_pool_init seed) c)"
proof -
  let ?c = "update_sess n (\<lambda>_. ogs_pfcp_pool_init seed) c"
  note ok' = pfcp_okD [OF ok]
  have l: "pdrs_of ?c = pdrs_of c" "fars_of ?c = fars_of c" "urrs_of ?c = urrs_of c" "qers_of ?c = qers_of c"
    "ps_bar (pc_sess ?c s) = ps_bar (pc_sess c s)" for s
    using n by (auto simp: no_objects_def lists_defs update_sess_def ogs_pfcp_pool_init_def fun_eq_iff)
  have ids: "kind_ok pool lst own idn (\<lambda>s. if s = n then p else f s)"
    if "kind_ok pool lst own idn f" "lst n = []" "pool_ok p" for pool lst own idn f p
    using that by (auto simp: kind_ok_def objs_ok_def)
  have i: "ps_pdr_ids (pc_sess ?c s) = (if s = n then ogs_pool_init OGS_MAX_NUM_OF_PDR seed else ps_pdr_ids (pc_sess c s))"
    "ps_far_ids (pc_sess ?c s) = (if s = n then ogs_pool_init OGS_MAX_NUM_OF_FAR seed else ps_far_ids (pc_sess c s))"
    "ps_urr_ids (pc_sess ?c s) = (if s = n then ogs_pool_init OGS_MAX_NUM_OF_URR seed else ps_urr_ids (pc_sess c s))"
    "ps_qer_ids (pc_sess ?c s) = (if s = n then ogs_pool_init OGS_MAX_NUM_OF_QER seed else ps_qer_ids (pc_sess c s))"
    "ps_bar_ids (pc_sess ?c s) = (if s = n then ogs_pool_init OGS_MAX_NUM_OF_BAR seed else ps_bar_ids (pc_sess c s))" for s
    by (simp_all add: update_sess_def ogs_pfcp_pool_init_def)
  have f: "pc_pdr ?c = pc_pdr c" "pc_far ?c = pc_far c" "pc_urr ?c = pc_urr c" "pc_qer ?c = pc_qer c" "pc_bar ?c = pc_bar c"
    "pc_rule ?c = pc_rule c" "pc_pdr_pool ?c = pc_pdr_pool c" "pc_far_pool ?c = pc_far_pool c" "pc_urr_pool ?c = pc_urr_pool c"
    "pc_qer_pool ?c = pc_qer_pool c" "pc_bar_pool ?c = pc_bar_pool c" "pc_rule_pool ?c = pc_rule_pool c"
    "pc_teid_pool ?c = pc_teid_pool c" "pc_object_hash ?c = pc_object_hash c" "pc_far_f_teid_hash ?c = pc_far_f_teid_hash c"
    by (simp_all add: update_sess_def)
  have none: "pdrs_of c n = []" "fars_of c n = []" "urrs_of c n = []" "qers_of c n = []" "ps_bar (pc_sess c n) = None"
    using n by (simp_all add: no_objects_def)
  show ?thesis
  proof (rule pfcp_okI)
    show "pdr_objs ?c" unfolding pdr_objs_def f l i
      by (rule ids [OF ok'(1) [unfolded pdr_objs_def] none(1) pool_ok_init])
    show "far_objs ?c" unfolding far_objs_def f l i
      by (rule ids [OF ok'(3) [unfolded far_objs_def] none(2) pool_ok_init])
    show "urr_objs ?c" unfolding urr_objs_def f l i
      by (rule ids [OF ok'(4) [unfolded urr_objs_def] none(3) pool_ok_init])
    show "qer_objs ?c" unfolding qer_objs_def f l i
      by (rule ids [OF ok'(5) [unfolded qer_objs_def] none(4) pool_ok_init])
    show "teid_nodes ?c" using ok'(2) unfolding teid_nodes_def f l .
    show "rule_objs ?c" using ok'(7) unfolding rule_objs_def f .
    show "teid_table ?c" using ok'(8) unfolding teid_table_def ogs_pfcp_object_find_by_teid_def f .
    show "peer_table ?c" using ok'(9) unfolding peer_table_def f l .
    show "bar_objs ?c" using ok'(6) none(5) pool_ok_init unfolding bar_objs_def f l i by auto
  qed
qed

lemma add_by_message_pfcp:
  assumes "n4_ok st" "upf_sess_add_by_message seed pad f (ns_ctx st) = Ret (c', r)"
  shows "n4_ok (st\<lparr>ns_ctx := c'\<rparr>)"
  using add_by_message_cases [OF assms(2)]
proof
  assume "c' = ns_ctx st"
  then show ?thesis using assms(1) by (simp add: n4_ok_def pfcp_of_def)
next
  assume "\<exists>g. f = Some g \<and> upf_sess_add seed g (ns_ctx st) = Ret (c', r)"
  then obtain g where g: "upf_sess_add seed g (ns_ctx st) = Ret (c', r)" by blast
  have inv: "ctx_inv (ns_ctx st)" using assms(1) by (simp add: n4_ok_def)
  then have pools: "pool_ok (uc_sess_pool (ns_ctx st))" by (simp add: ctx_inv_def pools_inv_def)
  show ?thesis
  proof (cases r)
    case None
    with g sess_add_None [OF pools, of seed g c'] assms(1) show ?thesis by (simp add: n4_ok_def pfcp_of_def)
  next
    case (Some n)
    note add = g [unfolded Some]
    note e = sess_add_fields(9,12) [OF pools add]
    obtain q where "ogs_pool_alloc (uc_sess_pool (ns_ctx st)) = (q, Some n)" using add by (rule sess_add_cases)
    then have "n \<notin> live (ns_ctx st)" using pool.acquire_Some [OF pools] inv by (auto simp: ctx_inv_def pools_inv_def)
    then have n: "no_objects n (pfcp_of st)" using assms(1) by (simp add: n4_ok_def)
    have "no_objects m (pfcp_of (st\<lparr>ns_ctx := c'\<rparr>))" if "m \<notin> live c'" for m
      using that assms(1) by (auto simp: n4_ok_def live_def e pfcp_of_def update_sess_def no_objects_def lists_defs)
    moreover have "pfcp_ok (pfcp_of (st\<lparr>ns_ctx := c'\<rparr>))"
      using pfcp_ok_new_session [OF _ n] assms(1) by (simp add: n4_ok_def pfcp_of_def e)
    moreover have "ctx_inv c'" by (rule sess_add_inv [OF inv g])
    ultimately show ?thesis by (simp add: n4_ok_def)
  qed
qed

lemma within_n4_ok:
  assumes "n4_ok a" "within n a st"
  shows "n4_ok st"
proof -
  have l: "live (ns_ctx st) = live (ns_ctx a)" using assms(2) same_index_inv(3) by (auto simp: within_def)
  have k: "kept n (pfcp_of a) (pfcp_of st)" by (rule within_kept [OF assms(2)])
  have "no_objects m (pfcp_of st)" if "m \<notin> live (ns_ctx st)" for m
  proof -
    have "m \<noteq> n" using that assms(2) by (auto simp: within_def)
    from kept_same_lists [OF k this] that l assms(1) show ?thesis by (simp add: n4_ok_def no_objects_def)
  qed
  with assms(2) kept_ok [OF k] show ?thesis by (simp add: n4_ok_def within_def)
qed

lemma sess_remove_pfcp:
  assumes rm: "upf_sess_remove n c = Ret c'" and inv: "ctx_inv c"
  shows "ogs_pfcp_sess_clear n (uc_pfcp c) = Ret (uc_pfcp c')"
proof -
  from rm obtain c1 pfcp c3 c4 pool where c1: "remove_accounting n c = Ret c1"
    and clear: "ogs_pfcp_sess_clear n (uc_pfcp c1) = Ret pfcp"
    and c3: "release_ipv4 n (drop_keys n (c1\<lparr>uc_list := remove1 n (uc_list c1), uc_pfcp := pfcp\<rparr>)) = Ret c3"
    and c4: "release_ipv6 n c3 = Ret c4"
    and c': "c' = (drop_routes n c4)\<lparr>uc_seid_pool := ogs_pool_free (uc_seid_pool (drop_routes n c4))
        (se_seid_node (uc_sess (drop_routes n c4) n)), uc_sess_pool := pool\<rparr>"
    unfolding upf_sess_remove_def Let_def by (simp only: exec_bind_eq_Ret exec.inject) blast
  obtain as mgr where e1: "c1 = (with_sess n (\<lambda>d. d\<lparr>se_urr_acc := as\<rparr>) c)\<lparr>uc_timers := mgr\<rparr>"
    using c1 by (rule remove_accounting_frame)
  define c2 where "c2 = drop_keys n (c1\<lparr>uc_list := remove1 n (uc_list c1), uc_pfcp := pfcp\<rparr>)"
  have e2: "uc_pfcp c2 = pfcp" "uc_sess c2 = uc_sess c1" by (simp_all add: c2_def drop_keys_def Let_def)
  obtain S sn where e3: "c3 = c2\<lparr>uc_ipv4_hash := released4 n c2, uc_static := S, uc_subnets := sn\<rparr>"
    using c3 [folded c2_def] by (rule release_ipv4_frame)
  obtain S' sn' where e4: "c4 = c3\<lparr>uc_ipv6_hash := released6 n c3, uc_static := S', uc_subnets := sn'\<rparr>"
    using c4 by (rule release_ipv6_frame)
  have s: "uc_pfcp c4 = pfcp" "uc_sess c4 = uc_sess c1" by (simp_all add: e4 e3 e2)
  have "length (route_array (se_routes4 (uc_sess c4 n))) = OGS_MAX_NUM_OF_FRAMED_ROUTES_IN_PDI"
    "length (route_array (se_routes6 (uc_sess c4 n))) = OGS_MAX_NUM_OF_FRAMED_ROUTES_IN_PDI"
    using inv by (simp_all add: s e1 with_sess_def ctx_inv_def route_inv_def)
  then obtain t4 t6 where e5: "drop_routes n c4 =
      (with_sess n (\<lambda>d. d\<lparr>se_routes4 := None, se_routes6 := None\<rparr>) c4)\<lparr>uc_routes4 := t4, uc_routes6 := t6\<rparr>"
    by (rule drop_routes_ok)
  have "uc_pfcp (drop_routes n c4) = pfcp" by (simp add: e5 with_sess_def s)
  then have "uc_pfcp c' = pfcp" by (simp add: c')
  with clear show ?thesis by (simp add: e1 with_sess_def)
qed

text \<open>A session goes with all its objects; the other sessions keep theirs.\<close>

lemma remove_n4_ok:
  assumes ok: "n4_ok st" and n: "n \<in> live (ns_ctx st)" and rm: "upf_sess_remove n (ns_ctx st) = Ret c'"
  shows "n4_ok (st\<lparr>ns_ctx := c'\<rparr>) \<and> live c' = live (ns_ctx st) - {n} \<and> frame n (pfcp_of st) (uc_pfcp c') \<and>
    no_objects n (uc_pfcp c')"
proof -
  have inv: "ctx_inv (ns_ctx st)" and p: "pfcp_ok (pfcp_of st)" using ok by (simp_all add: n4_ok_def)
  have clear: "ogs_pfcp_sess_clear n (pfcp_of st) = Ret (uc_pfcp c')"
    using sess_remove_pfcp [OF rm inv] by (simp add: pfcp_of_def)
  obtain d where "ogs_pfcp_sess_clear n (pfcp_of st) = Ret d" "kept n (pfcp_of st) d" "session_cleared n (pfcp_of st) d"
    by (rule sess_clear_ok [OF kept_refl [OF p]])
  with clear have k: "kept n (pfcp_of st) (uc_pfcp c')" "no_objects n (uc_pfcp c')"
    by (simp_all add: session_cleared_def no_objects_def)
  have "no_objects m (uc_pfcp c')" if "m \<notin> live c'" for m
  proof (cases "m = n")
    case False
    then have "m \<notin> live (ns_ctx st)" using that ctx_inv_remove(2) [OF inv n rm] by simp
    with ok kept_same_lists [OF k(1) False] show ?thesis by (simp add: n4_ok_def no_objects_def)
  qed (use k in simp)
  then show ?thesis using ctx_inv_remove [OF inv n rm] k kept_ok [OF k(1)]
    by (simp add: n4_ok_def pfcp_of_def kept_def)
qed

lemma deletion_n4_ok:
  assumes ok: "n4_ok st" and n: "n \<in> live (ns_ctx st)"
    and d: "upf_n4_handle_session_deletion_request env (Some n) st = Ret (st', resp)"
  shows "n4_ok st' \<and> live (ns_ctx st') = live (ns_ctx st) - {n} \<and> frame n (pfcp_of st) (pfcp_of st') \<and>
    no_objects n (pfcp_of st') \<and> (\<exists>rep. resp = DeletionResponse (smf_seid n st) rep)"
proof -
  obtain accs rep c' where rm: "upf_sess_remove n (with_sess n (\<lambda>d. d\<lparr>se_urr_acc := accs\<rparr>) (ns_ctx st)) = Ret c'"
    and st': "st' = st\<lparr>ns_ctx := c'\<rparr>" "resp = DeletionResponse (smf_seid n st) rep"
    using d by (auto simp: upf_n4_handle_session_deletion_request_def Let_def)
  let ?st = "st\<lparr>ns_ctx := with_sess n (\<lambda>d. d\<lparr>se_urr_acc := accs\<rparr>) (ns_ctx st)\<rparr>"
  have i: "ctx_inv (ns_ctx st)" using ok by (simp add: n4_ok_def)
  have "ctx_inv (ns_ctx ?st)"
    using other_step_inv(2) [OF i, where n = n and a = accs and s = "se_apn_dnn (uc_sess (ns_ctx st) n)"]
    by (simp add: with_sess_def)
  then have "n4_ok ?st" using ok by (simp add: n4_ok_def live_def with_sess_def pfcp_of_def)
  from remove_n4_ok [OF this] n rm st' show ?thesis by (simp add: live_def with_sess_def pfcp_of_def)
qed

lemma traffic_n4_ok:
  assumes "n4_ok st"
  shows "n4_ok (with_traffic bufs accs timers st)"
proof -
  let ?st = "with_traffic bufs accs timers st"
  have l: "uc_list (ns_ctx ?st) = uc_list (ns_ctx st)" "pc_sess (pfcp_of ?st) = pc_sess (pfcp_of st)"
    by (simp_all add: with_traffic_def Let_def pfcp_of_def)
  have p: "pfcp_ok (pfcp_of ?st)"
    by (rule pfcp_ok_fields [of "pfcp_of st"]) (use assms in \<open>simp_all add: n4_ok_def with_traffic_def Let_def pfcp_of_def\<close>)
  have i: "same_index (ns_ctx st) (ns_ctx ?st)"
    by (simp add: same_index_def with_traffic_def Let_def sess_f_seid_key_def)
  have "has_key4 (ns_ctx ?st) = has_key4 (ns_ctx st)" "has_key6 (ns_ctx ?st) = has_key6 (ns_ctx st)"
    by (simp_all add: has_key4_def has_key6_def fun_eq_iff with_traffic_def Let_def)
  then have "addr_inv (ns_ctx ?st)" "route_inv (ns_ctx ?st)"
    using assms by (simp_all add: n4_ok_def ctx_inv_def addr_inv_def route_inv_def live_def routes_of_def with_traffic_def Let_def)
  then have "ctx_inv (ns_ctx ?st)" using assms same_index_inv [OF i] by (simp add: n4_ok_def ctx_inv_def)
  with p l assms show ?thesis by (simp add: n4_ok_def live_def no_objects_def lists_defs)
qed

lemma request_within:
  assumes "n4_ok st" "n \<in> live (ns_ctx st)"
  shows "within n st st"
  using assms within_refl by (auto simp: n4_ok_def)

lemma n4_reachable_ok:
  assumes "n4_reachable k st" "k < 2 ^ 32"
  shows "n4_ok st"
  using assms
proof (induction rule: n4_reachable.induct)
  case (start seed timers r r' seed' subnets)
  have "no_objects n (ogs_pfcp_context_init k r' seed')" for n
    by (simp add: no_objects_def lists_defs ogs_pfcp_context_init_def ogs_pfcp_pool_init_def Let_def)
  then show ?case using ctx_inv_init [OF start] pfcp_ok_init
    by (simp add: n4_ok_def pfcp_of_def) (simp add: upf_context_init_def)
next
  case (associate st seed pad f c' r)
  then show ?case using add_by_message_pfcp by blast
next
  case (establish st n env ereq st' ds resp)
  have "within n st st'" using runs_D [OF establishment_runs [OF request_within] establish.hyps(3)] establish by simp
  with establish show ?case using within_n4_ok by blast
next
  case (modify st n env mreq st' ds resp)
  have "within n st st'" using runs_D [OF modification_runs [OF request_within] modify.hyps(3)] modify by simp
  with modify show ?case using within_n4_ok by blast
next
  case (delete st n env st' resp)
  then show ?case using deletion_n4_ok by blast
next
  case (remove st n c')
  then show ?case using remove_n4_ok by blast
next
  case (traffic st bufs accs timers)
  then show ?case using traffic_n4_ok by blast
qed

section \<open>A sample state\<close>

text \<open>
  A user plane function with room for one session, its session, and an establishment with one
  PDR and one FAR. The weak congruence rules keep the simplifier out of what is not yet run.
\<close>

definition sample_n4_env :: "unit n4_env" where
  "sample_n4_env = \<lparr>ne_handler = \<lparr>he_compile = (\<lambda>_. None), he_stack = replicate 25 0\<rparr>, ne_now = 0, ne_mclk = 0,
     ne_cb = (\<lambda>_ _. ()), ne_pton6 = (\<lambda>_. None), ne_pton4 = (\<lambda>_. None), ne_sock4 = True, ne_sock6 = False,
     ne_no_ipv4 = False, ne_no_ipv6 = False, ne_prefer_ipv4 = True, ne_max_peers = 8, ne_send_ok = True\<rparr>"

definition sample_f_teid :: octet where
  "sample_f_teid = \<lparr>oc_len = 9, oc_data = [1, 0, 0, 0, 9, 10, 0, 0, 1]\<rparr>"

definition sample_pdi :: pdi where
  "sample_pdi = \<lparr>pi_src_if = Some 0, pi_src_if_type = None, pi_f_teid = Some sample_f_teid, pi_dnn = None, pi_ue_ip = None,
     pi_sdf = [], pi_routes4 = [], pi_routes6 = [], pi_qfi = None\<rparr>"

definition sample_create_pdr :: tlv_create_pdr where
  "sample_create_pdr = \<lparr>cp_pdr_id = Some 1, cp_precedence = None, cp_pdi = Some sample_pdi, cp_ohr = None, cp_far_id = Some 1,
     cp_urr_ids = [], cp_qer_id = None\<rparr>"

definition sample_create_far :: tlv_far where
  "sample_create_far = \<lparr>tf_far_id = Some 1, tf_apply_action = Some 0x200, tf_params = None\<rparr>"

definition sample_establishment :: establishment_request where
  "sample_establishment = \<lparr>es_sereq_flags = 0, es_create_pdr = [sample_create_pdr], es_create_far = [sample_create_far],
     es_create_urr = [], es_apn_dnn = None, es_create_qer = [], es_create_bar = None, es_pdn_type = None\<rparr>"

definition sample_n4_start :: "unit n4_state" where
  "sample_n4_start = \<lparr>ns_ctx = upf_context_init 1 (\<lambda>_. 0) 1 (ogs_timer_mgr_create 8 1)
     (ogs_pfcp_context_init 1 (\<lambda>_. 0) 1) [], ns_peers = []\<rparr>"

lemma exec_bind_weak: "m = m' \<Longrightarrow> exec_bind m f = exec_bind m' f"
  by simp

lemma and_then_weak: "m = m' \<Longrightarrow> and_then m f = and_then m' f"
  by simp

lemma case_prod_weak: "p = p' \<Longrightarrow> case_prod f p = case_prod f p'"
  by simp

lemmas weak_congs = exec_bind_weak and_then_weak case_prod_weak if_weak_cong option.case_cong_weak handled.case_cong_weak

lemma sample_n4_reachable: "n4_reachable 1 sample_n4_start"
  unfolding sample_n4_start_def by (rule n4_reachable.start)

lemma sample_n4_session:
  obtains c n where "n4_reachable 1 (sample_n4_start\<lparr>ns_ctx := c\<rparr>)" "n \<in> live c" "no_objects n (uc_pfcp c)"
    "uc_pfcp c = update_sess n (\<lambda>_. ogs_pfcp_pool_init 1) (ogs_pfcp_context_init 1 (\<lambda>_. 0) 1)"
proof -
  let ?c = "ns_ctx sample_n4_start"
  have ok: "n4_ok sample_n4_start" by (rule n4_reachable_ok [OF sample_n4_reachable]) simp
  then have inv: "ctx_inv ?c" by (simp add: n4_ok_def)
  have "card (allocated (uc_sess_pool ?c)) < pool_size (uc_sess_pool ?c)"
    by (simp add: sample_n4_start_def upf_context_init_def allocated_init) (simp add: ogs_pool_init_def)
  moreover have f: "fs_ipv4 sample_seid \<or> fs_ipv6 sample_seid" by (simp add: sample_seid_def)
  ultimately obtain c n where a: "upf_sess_add 1 sample_seid ?c = Ret (c, Some n)"
    using sess_add_succeeds [OF inv] by blast
  have "upf_sess_find_by_smf_n4_f_seid no_pad ?c sample_seid = Ret None"
    using f_seid_to_ip_Some [OF f]
    by (auto simp: upf_sess_find_by_smf_n4_f_seid_def sample_n4_start_def upf_context_init_def hash_get_make)
  then have "upf_sess_add_by_message 1 no_pad (Some sample_seid) ?c = Ret (c, Some n)"
    using a f by (simp add: upf_sess_add_by_message_def)
  then have r: "n4_reachable 1 (sample_n4_start\<lparr>ns_ctx := c\<rparr>)" by (rule n4_reachable.associate [OF sample_n4_reachable])
  have pools: "pool_ok (uc_sess_pool ?c)" using inv by (simp add: ctx_inv_def pools_inv_def)
  note e = sess_add_fields(9,12) [OF pools a]
  have p: "uc_pfcp c = update_sess n (\<lambda>_. ogs_pfcp_pool_init 1) (ogs_pfcp_context_init 1 (\<lambda>_. 0) 1)"
    by (simp add: e sample_n4_start_def upf_context_init_def)
  then have "no_objects n (uc_pfcp c)"
    by (simp add: no_objects_def lists_defs update_sess_def ogs_pfcp_pool_init_def)
  moreover have "n \<in> live c" by (simp add: live_def e)
  ultimately show thesis using r p by (rule_tac that)
qed

lemmas sample_runs = create_pdrs_def run_pfcp_def pfcp_of_def on_pfcp_def ogs_pfcp_handle_create_pdr_def
  sample_create_pdr_def f_teid_refusal_def copy_over_def fetch_def sample_pdi_def sample_f_teid_def sample_n4_env_def
  received_f_teid_def rd8_def bit_numeral_iff bad_urr_id_def ogs_pfcp_pdr_find_or_add_def ogs_pfcp_pdr_find_def
  ogs_pfcp_pdr_add_def pdrs_of_def update_pdr_def update_sess_def Let_def ogs_pfcp_pool_init_def ogs_pool_init_def
  ogs_pool_alloc_def fill_pdr_def and_then_def quietly_def set_precedence_def set_source_def ogs_pfcp_rule_remove_all_def
  set_dnn_def network_instance_def set_endpoint_def set_addresses_def set_far_def set_qer_def new_routes_def header_removal_def
  ogs_pfcp_far_find_or_add_def ogs_pfcp_far_find_def ogs_pfcp_far_add_def take_object_def update_far_def
  ogs_pfcp_pdr_associate_far_def rd32_def of_be32_def sequence_id_def zero_pdr_def zero_far_def ended_def
  OGS_MAX_NUM_OF_PDR_def OGS_MAX_NUM_OF_FAR_def ogs_pfcp_context_init_def upf_n4_handle_session_establishment_request_def
  sample_establishment_def restoration_indication_def establish_def all_of_def ogs_pfcp_handle_create_far_def find_for_def
  set_forwarding_def sample_create_far_def upf_n4_handle_create_urr_def set_apn_dnn_def one_of_def
  ogs_pfcp_handle_create_bar_def setup_gtp_nodes_def setup_created_def set_ue_address_def set_framed_routes_def list_teid_def
  by_cause_def ogs_pfcp_object_teid_hash_set_def conclude_def downlink_pdrs_def ogs_pfcp_send_buffered_gtpu_def
  ogs_pfcp_build_created_pdr_def f_teid_octets_def f_teid_memory_def key32_def be32_def smf_seid_def
  ogs_pfcp_setup_far_gtpu_node_def ogs_pfcp_outer_header_creation_to_ip_def zero_outer_header_def zero_ip_def
  OGS_PFCP_CAUSE_REQUEST_ACCEPTED_def OGS_PFCP_INTERFACE_CORE_def

lemma sample_established:
  assumes "uc_pfcp c = update_sess n (\<lambda>_. ogs_pfcp_pool_init 1) (ogs_pfcp_context_init 1 (\<lambda>_. 0) 1)"
  shows "\<exists>st. upf_n4_handle_session_establishment_request sample_n4_env (Some n) sample_establishment
      (sample_n4_start\<lparr>ns_ctx := c\<rparr>) =
    Ret (st, [], Accepted (se_smf_seid (uc_sess c n)) [(1, [1, 0, 0, 0, 9, 10, 0, 0, 1])])"
  by (simp add: sample_runs assms cong: weak_congs)

lemma sample_refused:
  assumes "uc_pfcp c = update_sess n (\<lambda>_. ogs_pfcp_pool_init 1) (ogs_pfcp_context_init 1 (\<lambda>_. 0) 1)"
  shows "\<exists>st. upf_n4_handle_session_establishment_request sample_n4_env (Some n)
      (sample_establishment\<lparr>es_create_pdr := [sample_create_pdr, sample_create_pdr\<lparr>cp_pdr_id := None\<rparr>]\<rparr>)
      (sample_n4_start\<lparr>ns_ctx := c\<rparr>) =
    Ret (st, [], ErrorMessage (se_smf_seid (uc_sess c n)) OGS_PFCP_CAUSE_MANDATORY_IE_MISSING OGS_PFCP_PDR_ID_TYPE)"
  by (simp add: sample_runs assms refuse_def default_def ogs_pfcp_sess_clear_def ogs_pfcp_pdr_remove_all_def ogs_pfcp_far_remove_all_def
      ogs_pfcp_urr_remove_all_def ogs_pfcp_qer_remove_all_def ogs_pfcp_pdr_remove_def ogs_pfcp_far_remove_def cong: weak_congs)

section \<open>Properties\<close>

text \<open>
  C2: In every state the control plane can reach, a PDR, FAR, URR or QER that is in use belongs
  to exactly one session, which is live, and is in its list once: no object is lost, shared or
  left behind by a session that is gone. The TEIDs of the user plane function designate
  sessions, and the F-TEIDs of the peers designate FARs that are listed.
\<close>

theorem session_objects_owned:
  assumes "n4_reachable k st" "k < 2 ^ 32"
  shows "(let c = pfcp_of st; L = live (ns_ctx st) in
    allocated (pc_pdr_pool c) = (\<Union>n \<in> L. set (pdrs_of c n)) \<and> allocated (pc_far_pool c) = (\<Union>n \<in> L. set (fars_of c n)) \<and>
    allocated (pc_urr_pool c) = (\<Union>n \<in> L. set (urrs_of c n)) \<and> allocated (pc_qer_pool c) = (\<Union>n \<in> L. set (qers_of c n)) \<and>
    (\<forall>n. distinct (pdrs_of c n) \<and> distinct (fars_of c n) \<and> distinct (urrs_of c n) \<and> distinct (qers_of c n)) \<and>
    (\<forall>n m. n \<noteq> m \<longrightarrow> set (pdrs_of c n) \<inter> set (pdrs_of c m) = {} \<and> set (fars_of c n) \<inter> set (fars_of c m) = {} \<and>
       set (urrs_of c n) \<inter> set (urrs_of c m) = {} \<and> set (qers_of c n) \<inter> set (qers_of c m) = {}) \<and>
    (\<forall>t obj. ogs_pfcp_object_find_by_teid t c = Some obj \<longrightarrow> (\<exists>n. obj = Obj_Sess n)) \<and>
    (\<forall>k x. hash_get (pc_far_f_teid_hash c) k = Some x \<longrightarrow> (\<exists>n \<in> L. x \<in> set (fars_of c n))))"
proof -
  let ?c = "pfcp_of st" and ?L = "live (ns_ctx st)"
  have ok: "n4_ok st" by (rule n4_reachable_ok [OF assms])
  then have p: "pfcp_ok ?c" and none: "\<And>n. n \<notin> ?L \<Longrightarrow> no_objects n ?c" by (simp_all add: n4_ok_def)
  note k = pfcp_okD(1) [OF p, unfolded pdr_objs_def] pfcp_okD(3) [OF p, unfolded far_objs_def]
    pfcp_okD(4) [OF p, unfolded urr_objs_def] pfcp_okD(5) [OF p, unfolded qer_objs_def]
  have l: "n \<in> ?L" if "x \<in> set (pdrs_of ?c n) \<or> x \<in> set (fars_of ?c n) \<or> x \<in> set (urrs_of ?c n) \<or> x \<in> set (qers_of ?c n)" for n x
    using that none [of n] by (cases "n \<in> ?L") (auto simp: no_objects_def)
  have all: "(\<Union>n. set (f n)) = (\<Union>n \<in> ?L. set (f n))" if "\<And>n x. x \<in> set (f n) \<Longrightarrow> n \<in> ?L" for f :: "nat \<Rightarrow> nat list"
    using that by blast
  have al: "allocated (pc_pdr_pool ?c) = (\<Union>n \<in> ?L. set (pdrs_of ?c n))"
    "allocated (pc_far_pool ?c) = (\<Union>n \<in> ?L. set (fars_of ?c n))"
    "allocated (pc_urr_pool ?c) = (\<Union>n \<in> ?L. set (urrs_of ?c n))" "allocated (pc_qer_pool ?c) = (\<Union>n \<in> ?L. set (qers_of ?c n))"
    by (simp_all only: k(1-4) [THEN kind_okD(6)], (rule all, use l in blast)+)
  have dis: "set (f n) \<inter> set (f m) = {}" if "kind_ok pool f own idn ids" "n \<noteq> m" for pool f own idn ids n m
    using kind_disjoint [OF that(1)] that(2) by blast
  have peers: "\<forall>j x. hash_get (pc_far_f_teid_hash ?c) j = Some x \<longrightarrow> (\<exists>n \<in> ?L. x \<in> set (fars_of ?c n))"
    using peer_tableD(2) [OF pfcp_okD(9) [OF p]] l by blast
  have teids: "\<forall>t obj. ogs_pfcp_object_find_by_teid t ?c = Some obj \<longrightarrow> (\<exists>n. obj = Obj_Sess n)"
    using pfcp_okD(8) [OF p] by (simp add: teid_table_def)
  show ?thesis unfolding Let_def
    by (intro conjI al peers teids allI impI k(1-4) [THEN kind_okD(4)] dis [OF k(1)] dis [OF k(2)] dis [OF k(3)] dis [OF k(4)])
qed

theorem session_objects_owned_witness:
  "\<exists>st. pdrs_of (pfcp_of (st :: unit n4_state)) 0 = [] \<and> allocated (pc_pdr_pool (pfcp_of st)) = (\<Union>n \<in> live (ns_ctx st). set (pdrs_of (pfcp_of st) n))"
  using session_objects_owned [OF sample_n4_reachable] by (intro exI [of _ sample_n4_start])
    (simp add: Let_def sample_n4_start_def pfcp_of_def upf_context_init_def lists_defs ogs_pfcp_context_init_def ogs_pfcp_pool_init_def)

lemma request_runs:
  assumes "n4_reachable k st" "k < 2 ^ 32" "n \<in> live (ns_ctx st)"
    and "upf_n4_handle_session_establishment_request env (Some n) ereq st = Ret (st', ds, resp) \<or>
      upf_n4_handle_session_modification_request env (Some n) mreq st = Ret (st', ds, resp)"
  shows "within n st st' \<and> answered n st st' resp"
proof -
  have "within n st st" by (rule request_within [OF n4_reachable_ok [OF assms(1,2)] assms(3)])
  with runs_D [OF establishment_runs [OF this]] runs_D [OF modification_runs [OF this]] assms(4) show ?thesis by fastforce
qed

text \<open>
  C3: A refused establishment or modification leaves the session without PDRs, FARs, URRs, QERs
  and BAR, all of them back in their pools: of each of the five kinds, the objects that are in use
  are those that the other sessions had before. The refusal is sent to the SEID of the session's
  SMF. Flow rules and TEIDs are not counted.
\<close>

theorem refused_request_leaves_nothing:
  assumes "n4_reachable k st" "k < 2 ^ 32" "n \<in> live (ns_ctx st)"
    and "upf_n4_handle_session_establishment_request env (Some n) ereq st = Ret (st', ds, ErrorMessage seid cause ie) \<or>
      upf_n4_handle_session_modification_request env (Some n) mreq st = Ret (st', ds, ErrorMessage seid cause ie)"
  shows "seid = smf_seid n st \<and> pdrs_of (pfcp_of st') n = [] \<and> fars_of (pfcp_of st') n = [] \<and> urrs_of (pfcp_of st') n = [] \<and>
    qers_of (pfcp_of st') n = [] \<and> ps_bar (pc_sess (pfcp_of st') n) = None \<and>
    allocated (pc_pdr_pool (pfcp_of st')) = (\<Union>m \<in> - {n}. set (pdrs_of (pfcp_of st) m)) \<and>
    allocated (pc_far_pool (pfcp_of st')) = (\<Union>m \<in> - {n}. set (fars_of (pfcp_of st) m)) \<and>
    allocated (pc_urr_pool (pfcp_of st')) = (\<Union>m \<in> - {n}. set (urrs_of (pfcp_of st) m)) \<and>
    allocated (pc_qer_pool (pfcp_of st')) = (\<Union>m \<in> - {n}. set (qers_of (pfcp_of st) m)) \<and>
    allocated (pc_bar_pool (pfcp_of st')) = (\<Union>m \<in> - {n}. set_option (ps_bar (pc_sess (pfcp_of st) m)))"
proof -
  have w: "within n st st'" and a: "answered n st st' (ErrorMessage seid cause ie)"
    using request_runs [OF assms(1-3), of env ereq st' ds _ mreq] assms(4) by blast+
  have none: "no_objects n (pfcp_of st')" "seid = smf_seid n st" using a by (auto simp: answered_def)
  have p: "pfcp_ok (pfcp_of st')" by (rule kept_ok [OF within_kept [OF w]])
  have u: "(\<Union>m. set (f' m)) = (\<Union>m \<in> - {n}. set (f m))" if "f' n = []" "\<And>m. m \<noteq> n \<Longrightarrow> f' m = f m"
    for f f' :: "nat \<Rightarrow> nat list"
  proof -
    have "x \<in> set (f' m) \<longleftrightarrow> m \<noteq> n \<and> x \<in> set (f m)" for x m using that by (cases "m = n") auto
    then show ?thesis by auto
  qed
  note s = kept_same_lists [OF within_kept [OF w]] and none' = none(1) [unfolded no_objects_def]
  have "x \<in> allocated (pc_bar_pool (pfcp_of st')) \<longleftrightarrow> (\<exists>m. m \<noteq> n \<and> ps_bar (pc_sess (pfcp_of st) m) = Some x)" for x
  proof -
    have "x \<in> allocated (pc_bar_pool (pfcp_of st')) \<longleftrightarrow> (\<exists>m. ps_bar (pc_sess (pfcp_of st') m) = Some x)"
      using pfcp_okD(6) [OF p] unfolding bar_objs_def by blast
    moreover have "ps_bar (pc_sess (pfcp_of st') m) = Some x \<longleftrightarrow> m \<noteq> n \<and> ps_bar (pc_sess (pfcp_of st) m) = Some x" for m
      using none' s(1) [of m] by (cases "m = n") auto
    ultimately show ?thesis by simp
  qed
  then have bars: "allocated (pc_bar_pool (pfcp_of st')) = (\<Union>m \<in> - {n}. set_option (ps_bar (pc_sess (pfcp_of st) m)))"
    by (auto simp: set_eq_iff)
  show ?thesis
    using bars none kind_okD(6) [OF pfcp_okD(1) [OF p, unfolded pdr_objs_def]] kind_okD(6) [OF pfcp_okD(3) [OF p, unfolded far_objs_def]]
      kind_okD(6) [OF pfcp_okD(4) [OF p, unfolded urr_objs_def]] kind_okD(6) [OF pfcp_okD(5) [OF p, unfolded qer_objs_def]]
      u [of "pdrs_of (pfcp_of st')" "pdrs_of (pfcp_of st)"] u [of "fars_of (pfcp_of st')" "fars_of (pfcp_of st)"]
      u [of "urrs_of (pfcp_of st')" "urrs_of (pfcp_of st)"] u [of "qers_of (pfcp_of st')" "qers_of (pfcp_of st)"] s
    by (simp add: no_objects_def)
qed

lemma sample_request:
  obtains c n st where "n4_reachable 1 (sample_n4_start\<lparr>ns_ctx := c\<rparr>)" "n \<in> live c" "no_objects n (uc_pfcp c)"
    "upf_n4_handle_session_establishment_request sample_n4_env (Some n) sample_establishment (sample_n4_start\<lparr>ns_ctx := c\<rparr>) =
      Ret (st, [], Accepted (se_smf_seid (uc_sess c n)) [(1, [1, 0, 0, 0, 9, 10, 0, 0, 1])])"
  using sample_n4_session sample_established by metis

lemma sample_refusal:
  obtains c n st where "n4_reachable 1 (sample_n4_start\<lparr>ns_ctx := c\<rparr>)" "n \<in> live c"
    "upf_n4_handle_session_establishment_request sample_n4_env (Some n)
      (sample_establishment\<lparr>es_create_pdr := [sample_create_pdr, sample_create_pdr\<lparr>cp_pdr_id := None\<rparr>]\<rparr>)
      (sample_n4_start\<lparr>ns_ctx := c\<rparr>) =
      Ret (st, [], ErrorMessage (se_smf_seid (uc_sess c n)) OGS_PFCP_CAUSE_MANDATORY_IE_MISSING OGS_PFCP_PDR_ID_TYPE)"
  using sample_n4_session sample_refused by metis

theorem refused_request_leaves_nothing_witness:
  "\<exists>c n st' e. n \<in> live c \<and> upf_n4_handle_session_establishment_request sample_n4_env (Some n)
      (sample_establishment\<lparr>es_create_pdr := [sample_create_pdr, sample_create_pdr\<lparr>cp_pdr_id := None\<rparr>]\<rparr>)
      (sample_n4_start\<lparr>ns_ctx := c\<rparr>) = Ret (st', [], e) \<and> pdrs_of (pfcp_of st') n = []"
proof -
  obtain c n st where r: "n4_reachable 1 (sample_n4_start\<lparr>ns_ctx := c\<rparr>)" "n \<in> live c"
    and e: "upf_n4_handle_session_establishment_request sample_n4_env (Some n)
      (sample_establishment\<lparr>es_create_pdr := [sample_create_pdr, sample_create_pdr\<lparr>cp_pdr_id := None\<rparr>]\<rparr>)
      (sample_n4_start\<lparr>ns_ctx := c\<rparr>) =
      Ret (st, [], ErrorMessage (se_smf_seid (uc_sess c n)) OGS_PFCP_CAUSE_MANDATORY_IE_MISSING OGS_PFCP_PDR_ID_TYPE)"
    by (rule sample_refusal)
  have "pdrs_of (pfcp_of st) n = []"
    using refused_request_leaves_nothing [OF r(1) _ _ disjI1 [OF e]] r(2) by simp
  with r(2) e show ?thesis by blast
qed

text \<open>
  C4: A request on one session leaves every other session alone: its entry in the table of
  sessions, the lists and identifiers of its objects, its PDRs with their flow rules, its URRs,
  QERs and BAR, and its FARs but for the packets they hold back.
\<close>

theorem requests_isolated:
  assumes "n4_reachable k st" "k < 2 ^ 32" "n \<in> live (ns_ctx st)" "m \<noteq> n"
    and "upf_n4_handle_session_establishment_request env (Some n) ereq st = Ret (st', ds, resp) \<or>
      upf_n4_handle_session_modification_request env (Some n) mreq st = Ret (st', ds, resp)"
  shows "(let c = pfcp_of st; c' = pfcp_of st' in
    uc_list (ns_ctx st') = uc_list (ns_ctx st) \<and> uc_sess (ns_ctx st') m = uc_sess (ns_ctx st) m \<and> pc_sess c' m = pc_sess c m \<and>
    (\<forall>p \<in> set (pdrs_of c m). pc_pdr c' p = pc_pdr c p \<and> (\<forall>l \<in> set (pdr_rules (pc_pdr c p)). pc_rule c' l = pc_rule c l)) \<and>
    (\<forall>x \<in> set (fars_of c m). (pc_far c' x)\<lparr>far_buffered := []\<rparr> = (pc_far c x)\<lparr>far_buffered := []\<rparr>) \<and>
    (\<forall>u \<in> set (urrs_of c m). pc_urr c' u = pc_urr c u) \<and> (\<forall>q \<in> set (qers_of c m). pc_qer c' q = pc_qer c q) \<and>
    (\<forall>b. ps_bar (pc_sess c m) = Some b \<longrightarrow> pc_bar c' b = pc_bar c b))"
proof -
  have w: "within n st st'" using request_runs [OF assms(1-3), of env ereq st' ds resp mreq] assms(5) by blast
  then have "frame n (pfcp_of st) (pfcp_of st')" by (simp add: within_def kept_def)
  with w assms(4) show ?thesis by (simp add: Let_def within_def same_index_def frame_def far_kept_def)
qed

theorem requests_isolated_witness:
  "\<exists>c n st' resp. upf_n4_handle_session_establishment_request sample_n4_env (Some n) sample_establishment
      (sample_n4_start\<lparr>ns_ctx := c\<rparr>) = Ret (st', [], resp) \<and>
    uc_list (ns_ctx st') = uc_list c \<and> pc_sess (pfcp_of st') (Suc n) = pc_sess (uc_pfcp c) (Suc n)"
proof -
  obtain c n st where r: "n4_reachable 1 (sample_n4_start\<lparr>ns_ctx := c\<rparr>)" "n \<in> live c"
    and e: "upf_n4_handle_session_establishment_request sample_n4_env (Some n) sample_establishment (sample_n4_start\<lparr>ns_ctx := c\<rparr>) =
      Ret (st, [], Accepted (se_smf_seid (uc_sess c n)) [(1, [1, 0, 0, 0, 9, 10, 0, 0, 1])])"
    by (rule sample_request)
  have "uc_list (ns_ctx st) = uc_list c \<and> pc_sess (pfcp_of st) (Suc n) = pc_sess (uc_pfcp c) (Suc n)"
    using requests_isolated [OF r(1) _ _ _ disjI1 [OF e], of "Suc n"] r(2) by (simp add: Let_def pfcp_of_def)
  with e show ?thesis by blast
qed

end
