(* ===== verification/N4_Establish.thy ===== *)
theory N4_Establish
  imports N4_Requests
begin

text \<open>
  What an accepted establishment has set up: the detection rules it created are in the list of
  the session, each with a forwarding rule of the session, and the TEIDs lead to the session.
\<close>

section \<open>The shape of a session\<close>

text \<open>Its PDRs and FARs, the contents of the PDRs and whether the function chooses F-TEIDs.\<close>

definition shape :: "nat \<Rightarrow> pfcp_ctx \<Rightarrow> nat list \<times> nat list \<times> (nat \<Rightarrow> pfcp_pdr) \<times> bool" where
  "shape n c = (pdrs_of c n, fars_of c n, pc_pdr c, pc_ftup c)"

definition shaped :: "nat \<Rightarrow> pfcp_ctx \<Rightarrow> (pfcp_ctx \<times> 'r) exec \<Rightarrow> bool" where
  "shaped n c m \<longleftrightarrow> runs m (\<lambda>(c', r). shape n c' = shape n c)"

lemma shape_cong:
  assumes "\<And>m. pdrs_of c' m = pdrs_of c m" "\<And>m. fars_of c' m = fars_of c m"
    "pc_pdr c' = pc_pdr c" "pc_ftup c' = pc_ftup c"
  shows "shape n c' = shape n c"
  by (simp add: shape_def assms)

lemma shape_update [simp]:
  "shape n (update_far x f c) = shape n c" "shape n (update_urr u g c) = shape n c" "shape n (update_qer q h c) = shape n c"
  "shape n (update_rule l k c) = shape n c"
  by (simp_all add: shape_def) (simp_all add: update_far_def update_urr_def update_qer_def update_rule_def)

lemma shape_bar [simp]: "shape n (c\<lparr>pc_bar := b\<rparr>) = shape n c"
  by (simp add: shape_def lists_defs)

lemma shaped_Ret [simp]: "shaped n c (Ret (c', r)) \<longleftrightarrow> shape n c' = shape n c"
  by (simp add: shaped_def)

lemma shaped_Abort [simp]: "shaped n c Abort"
  by (simp add: shaped_def)

lemma shaped_eq: "shape n c = shape n d \<Longrightarrow> shaped n c m \<Longrightarrow> shaped n d m"
  by (simp add: shaped_def)

lemma shaped_bind:
  fixes m :: "(pfcp_ctx \<times> 'a) exec"
  assumes "shaped n c m" "\<And>c' r. shape n c' = shape n c \<Longrightarrow> shaped n c' (f (c', r))"
  shows "shaped n c (exec_bind m f)"
  unfolding shaped_def
proof (rule runs_bind [OF assms(1) [unfolded shaped_def]])
  fix x :: "pfcp_ctx \<times> 'a"
  assume x: "case x of (c', r) \<Rightarrow> shape n c' = shape n c"
  obtain c' r where e: "x = (c', r)" by (cases x)
  with x have s: "shape n c' = shape n c" by simp
  from shaped_eq [OF s assms(2) [OF s]] show "runs (f x) (\<lambda>(c', r). shape n c' = shape n c)"
    by (simp add: shaped_def e)
qed

lemma shaped_after: "(\<And>x. shaped n c (f x)) \<Longrightarrow> shaped n c (exec_bind m f)"
  unfolding shaped_def by (rule runs_then)

lemma shaped_and_then:
  "shaped n c m \<Longrightarrow> (\<And>c'. shape n c' = shape n c \<Longrightarrow> shaped n c' (f c')) \<Longrightarrow> shaped n c (and_then m f)"
  unfolding and_then_def by (rule shaped_bind) (auto split: option.split)

lemma shaped_quietly: "runs m (\<lambda>c'. shape n c' = shape n c) \<Longrightarrow> shaped n c (quietly m)"
  unfolding quietly_def shaped_def by (erule runs_bind) simp

lemma shaped_ended: "shaped n c m \<Longrightarrow> shaped n c (exec_bind m (\<lambda>(c, r). Ret (c, ended x r)))"
  by (rule shaped_bind) simp_all

lemma shaped_find_for:
  "(\<And>m x. shaped n c (f m x)) \<Longrightarrow> shaped n c (find_for id_of ie find_it message c f unknown)"
  by (auto simp: find_for_def split: option.split)

section \<open>The handlers after the detection rules\<close>

lemma shaped_create_far: "shaped n c (ogs_pfcp_handle_create_far s message c)"
proof -
  have "runs (set_forwarding x ps c) (\<lambda>c'. shape n c' = shape n c)" for x ps c
    by (auto simp: set_forwarding_def intro!: runs_then split: option.split)
  then have "shaped n c (exec_bind (set_forwarding x ps (update_far x f c)) (\<lambda>c. Ret (c, Done x)))" for x ps f
    unfolding shaped_def by (rule runs_bind) simp
  then show ?thesis unfolding ogs_pfcp_handle_create_far_def
    by (auto intro!: shaped_find_for split: option.split)
qed

lemma shaped_set_rates: "shaped n c (set_rates m q c)"
  unfolding set_rates_def
  by (rule shaped_and_then) (auto simp: set_rate_def intro!: shaped_after split: option.split)

lemma shaped_create_qer: "shaped n c (ogs_pfcp_handle_create_qer s message c)"
proof -
  have "shaped n c (and_then (set_rates m q (update_qer q f c)) (\<lambda>c. Ret (update_qer q g c, None)))" for m q f g
    by (rule shaped_and_then) (rule shaped_eq [OF _ shaped_set_rates], simp_all)
  then show ?thesis unfolding ogs_pfcp_handle_create_qer_def
    by (auto intro!: shaped_find_for shaped_ended split: option.split)
qed

lemma shaped_set_limits: "shaped n c (set_limits m u c)"
  unfolding set_limits_def Let_def
  by (rule shaped_eq, rule shape_update(2), intro shaped_and_then)
    (auto simp: set_volume_def set_dropped_dl_def set_counts_def set_meas_info_def Let_def
      intro!: shaped_after shaped_quietly runs_then split: option.split)

lemma shaped_create_urr: "shaped n c (ogs_pfcp_handle_create_urr s message c)"
proof -
  have "shaped n c (exec_bind (set_limits m u (update_urr u f c)) (\<lambda>(c, r). Ret (c, ended u r)))" for m u f
    by (rule shaped_ended) (rule shaped_eq [OF _ shaped_set_limits], simp)
  then show ?thesis unfolding ogs_pfcp_handle_create_urr_def
    by (auto intro!: shaped_find_for split: option.split)
qed

lemma shaped_create_bar: "shaped n c (ogs_pfcp_handle_create_bar s message c)"
proof -
  have del: "runs (ogs_pfcp_bar_delete b c) (\<lambda>c'. shape n c' = shape n c)" for b c
    by (auto simp: ogs_pfcp_bar_delete_def split: option.split intro!: shape_cong)
      (simp_all add: lists_defs update_sess_def)
  have new: "shaped n c (ogs_pfcp_bar_new s c)" for c
    by (auto simp: ogs_pfcp_bar_new_def split: option.split prod.split intro!: shape_cong)
      (simp_all add: lists_defs update_sess_def)
  have fin: "shaped n c (exec_bind (ogs_pfcp_bar_new s c) (\<lambda>(c, b).
      Ret (c\<lparr>pc_bar := (pc_bar c)(b := (pc_bar c b)\<lparr>bar_id := i\<rparr>)\<rparr>, Done b)))" for c i
    by (rule shaped_bind [OF new]) simp
  have "shaped n c (exec_bind (case ps_bar (pc_sess c s) of None \<Rightarrow> Ret c | Some b \<Rightarrow> ogs_pfcp_bar_delete b c) (\<lambda>c.
      exec_bind (ogs_pfcp_bar_new s c) (\<lambda>(c, b).
      Ret (c\<lparr>pc_bar := (pc_bar c)(b := (pc_bar c b)\<lparr>bar_id := i\<rparr>)\<rparr>, Done b))))" for i
    unfolding shaped_def
    by (rule runs_bind [where P = "\<lambda>c'. shape n c' = shape n c"])
      (auto simp: del split: option.split intro: runs_weaken [OF fin [unfolded shaped_def]])
  then show ?thesis by (auto simp: ogs_pfcp_handle_create_bar_def split: option.split)
qed

section \<open>The later stages of a request\<close>

definition st_shaped :: "nat \<Rightarrow> 'c n4_state \<Rightarrow> ('c n4_state \<times> 'r) exec \<Rightarrow> bool" where
  "st_shaped n a m \<longleftrightarrow> runs m (\<lambda>(st, r). shape n (pfcp_of st) = shape n (pfcp_of a))"

lemma st_shaped_Ret [simp]: "st_shaped n a (Ret (st, r)) \<longleftrightarrow> shape n (pfcp_of st) = shape n (pfcp_of a)"
  by (simp add: st_shaped_def)

lemma st_shaped_eq: "shape n (pfcp_of a) = shape n (pfcp_of b) \<Longrightarrow> st_shaped n a m \<Longrightarrow> st_shaped n b m"
  by (simp add: st_shaped_def)

lemma st_shaped_bind:
  fixes m :: "('c n4_state \<times> 'a) exec"
  assumes "st_shaped n a m" "\<And>st r. shape n (pfcp_of st) = shape n (pfcp_of a) \<Longrightarrow> st_shaped n st (f (st, r))"
  shows "st_shaped n a (exec_bind m f)"
  unfolding st_shaped_def
proof (rule runs_bind [OF assms(1) [unfolded st_shaped_def]])
  fix x :: "'c n4_state \<times> 'a"
  assume x: "case x of (st, r) \<Rightarrow> shape n (pfcp_of st) = shape n (pfcp_of a)"
  obtain st r where e: "x = (st, r)" by (cases x)
  with x have s: "shape n (pfcp_of st) = shape n (pfcp_of a)" by simp
  from st_shaped_eq [OF s assms(2) [OF s]] show "runs (f x) (\<lambda>(st, r). shape n (pfcp_of st) = shape n (pfcp_of a))"
    by (simp add: st_shaped_def e)
qed

lemma st_shaped_and_then:
  "st_shaped n a m \<Longrightarrow> (\<And>st. shape n (pfcp_of st) = shape n (pfcp_of a) \<Longrightarrow> st_shaped n st (f st)) \<Longrightarrow>
    st_shaped n a (and_then m f)"
  unfolding and_then_def by (rule st_shaped_bind) (auto split: option.split)

lemma st_shaped_run: "shaped n (pfcp_of st) (f (pfcp_of st)) \<Longrightarrow> st_shaped n st (run_pfcp f st)"
  unfolding run_pfcp_def st_shaped_def shaped_def by (erule runs_bind) auto

lemma st_shaped_each: "(\<And>m st. st_shaped n st (handle m st)) \<Longrightarrow> st_shaped n st (each handle ms st)"
proof (induction ms arbitrary: st)
  case (Cons m ms)
  have "st_shaped n st' (each handle ms st')" for st' by (rule Cons.IH) (rule Cons.prems)
  then show ?case unfolding each.simps
    by (intro st_shaped_bind [OF Cons.prems]) (auto split: handled.split intro!: st_shaped_bind)
qed simp

lemma st_shaped_all_of: "(\<And>m c. shaped n c (handle m c)) \<Longrightarrow> st_shaped n st (all_of handle ms st)"
  unfolding all_of_def by (rule st_shaped_bind, rule st_shaped_each, rule st_shaped_run) auto

lemma st_shaped_for_each: "(\<And>x st. st_shaped n st (f x st)) \<Longrightarrow> st_shaped n st (for_each f xs st)"
proof (induction xs arbitrary: st)
  case (Cons x xs)
  have "st_shaped n st' (for_each f xs st')" for st' by (rule Cons.IH) (rule Cons.prems)
  with Cons.prems show ?case by (auto intro: st_shaped_and_then)
qed simp

lemma st_shaped_by_cause: "st_shaped n st m \<Longrightarrow> st_shaped n st (by_cause m)"
  unfolding by_cause_def by (erule st_shaped_bind) auto

lemma st_shaped_create_urrs: "st_shaped n st (upf_n4_handle_create_urr env s ms st)"
proof -
  have one: "st_shaped n st (create_urr_timed env s m st)" for m st
    unfolding create_urr_timed_def
    by (rule st_shaped_bind, rule st_shaped_run, rule shaped_create_urr)
      (auto simp: st_shaped_def Let_def pfcp_of_def with_sess_def intro!: runs_then split: handled.split)
  show ?thesis unfolding upf_n4_handle_create_urr_def
    by (rule st_shaped_bind, rule st_shaped_each, rule one) auto
qed

lemma st_shaped_setup_far: "st_shaped n st (ogs_pfcp_setup_far_gtpu_node env x st)"
  unfolding ogs_pfcp_setup_far_gtpu_node_def Let_def st_shaped_def
  by (auto intro!: runs_then split: option.split) (auto simp: pfcp_of_def on_pfcp_def)

lemma st_shaped_setup_fars: "st_shaped n st (setup_fars env xs st)"
proof (induction xs arbitrary: st)
  case (Cons x xs)
  have h: "runs (ogs_pfcp_far_f_teid_hash_set x c) (\<lambda>c'. shape n c' = shape n c)" for c
    by (auto simp: ogs_pfcp_far_f_teid_hash_set_def Let_def split: option.split intro!: shape_cong)
      (simp_all add: lists_defs update_far_def)
  have "runs (if b then Ret st else exec_bind (ogs_pfcp_far_f_teid_hash_set x (pfcp_of st)) (\<lambda>c. Ret (on_pfcp (\<lambda>_. c) st)))
      (\<lambda>st'. shape n (pfcp_of st') = shape n (pfcp_of st))" for b and st :: "'a n4_state"
    by (auto intro!: runs_bind [OF h])
  note set = this
  have "st_shaped n st (exec_bind (if b then Ret st else exec_bind (ogs_pfcp_far_f_teid_hash_set x (pfcp_of st))
      (\<lambda>c. Ret (on_pfcp (\<lambda>_. c) st))) (setup_fars env xs))" for b and st :: "'a n4_state"
    unfolding st_shaped_def
    by (rule runs_bind [OF set]) (use Cons.IH in \<open>auto simp: st_shaped_def runs_def\<close>)
  note rest = this
  show ?case unfolding setup_fars.simps by (rule st_shaped_bind [OF st_shaped_setup_far]) (auto simp: rest)
qed simp

text \<open>Addresses and routes are no matter of the PFCP objects.\<close>

lemma set_ue_address_runs:
  assumes w: "within n a st"
  shows "runs (set_ue_address n pdn_type p st) (\<lambda>(st', e). within n a st' \<and> pfcp_of st' = pfcp_of st)"
proof -
  have i: "addr_inv (ns_ctx st)" "n \<in> live (ns_ctx st)" using w by (simp_all add: within_def ctx_inv_def)
  have "runs (on_ctx (upf_sess_set_ue_ip n ty p) st) (\<lambda>(st', e). within n a st' \<and> pfcp_of st' = pfcp_of st)" for ty
    using set_ue_ip_ok [OF i] within_addr_step [OF w] by (auto simp: on_ctx_def runs_def addr_step_def pfcp_of_def)
  then have "runs (by_cause (on_ctx (upf_sess_set_ue_ip n ty p) st)) (\<lambda>(st', e). within n a st' \<and> pfcp_of st' = pfcp_of st)" for ty
    unfolding by_cause_def by (rule runs_bind) auto
  then show ?thesis by (auto simp: set_ue_address_def w split: option.split)
qed

lemma set_framed_routes_runs:
  assumes w: "within n a st"
  shows "runs (set_framed_routes env n p st) (\<lambda>(st', e). within n a st' \<and> pfcp_of st' = pfcp_of st)"
proof -
  have routes: "runs (by_cause (on_ctx (\<lambda>c. Ret (upf_sess_set_ue_ipv4_framed_routes p6 p4 n r c)) st))
      (\<lambda>(st', e). within n a st' \<and> pfcp_of st' = pfcp_of st)"
    "runs (by_cause (on_ctx (\<lambda>c. Ret (upf_sess_set_ue_ipv6_framed_routes p6 p4 n r c)) st))
      (\<lambda>(st', e). within n a st' \<and> pfcp_of st' = pfcp_of st)" if w: "within n a st" for p6 p4 r st
  proof -
    have i: "ctx_inv (ns_ctx st)" "n \<in> live (ns_ctx st)" using w by (simp_all add: within_def)
    have step: "within n a (st\<lparr>ns_ctx := c\<rparr>) \<and> pfcp_of (st\<lparr>ns_ctx := c\<rparr>) = pfcp_of st"
      if "ctx_inv c \<and> route_step n (ns_ctx st) c" for c
      using within_ctx [OF w, of c] that within_kept [OF w] by (auto simp: route_step_def pfcp_of_def)
    show "runs (by_cause (on_ctx (\<lambda>c. Ret (upf_sess_set_ue_ipv4_framed_routes p6 p4 n r c)) st))
        (\<lambda>(st', e). within n a st' \<and> pfcp_of st' = pfcp_of st)"
      "runs (by_cause (on_ctx (\<lambda>c. Ret (upf_sess_set_ue_ipv6_framed_routes p6 p4 n r c)) st))
        (\<lambda>(st', e). within n a st' \<and> pfcp_of st' = pfcp_of st)"
      using set_routes_ok [OF i] step by (auto simp: on_ctx_def by_cause_def split: prod.split)
  qed
  have first: "runs (case pdr_routes4 (pc_pdr (pfcp_of st) p) of None \<Rightarrow> Ret (st, None)
      | r \<Rightarrow> by_cause (on_ctx (\<lambda>c. Ret (upf_sess_set_ue_ipv4_framed_routes (ne_pton6 env) (ne_pton4 env) n r c)) st))
      (\<lambda>(st', e). within n a st' \<and> pfcp_of st' = pfcp_of st)"
    using routes(1) [OF w] w by (auto split: option.split)
  have "runs (case pdr_routes6 (pc_pdr (pfcp_of st') p) of None \<Rightarrow> Ret (st', None)
      | r \<Rightarrow> by_cause (on_ctx (\<lambda>c. Ret (upf_sess_set_ue_ipv6_framed_routes (ne_pton6 env) (ne_pton4 env) n r c)) st'))
      (\<lambda>(st'', e). within n a st'' \<and> pfcp_of st'' = pfcp_of st)" if "within n a st'" "pfcp_of st' = pfcp_of st" for st'
    using routes(2) [OF that(1)] that by (auto split: option.split)
  then show ?thesis unfolding set_framed_routes_def and_then_def
    by (intro runs_bind [OF first]) (auto split: option.split)
qed

section \<open>The detection rules of a new session\<close>

text \<open>What the steps on one PDR leave: the lists of the session, the other PDRs, its own FAR, key and owner.\<close>

definition pdr_links :: "pfcp_pdr \<Rightarrow> nat option \<times> u32 option \<times> nat \<times> u32 \<times> bool" where
  "pdr_links d = (pdr_far d, pdr_hash_teid d, pdr_sess d, pdr_id d, pdr_chid d)"

definition lean :: "nat \<Rightarrow> nat \<Rightarrow> pfcp_ctx \<Rightarrow> pfcp_ctx \<Rightarrow> bool" where
  "lean n p c c' \<longleftrightarrow> set (pdrs_of c' n) = set (pdrs_of c n) \<and> set (fars_of c' n) = set (fars_of c n) \<and>
     (\<forall>q. q \<noteq> p \<longrightarrow> pc_pdr c' q = pc_pdr c q) \<and> pdr_links (pc_pdr c' p) = pdr_links (pc_pdr c p)"

lemma lean_refl [simp]: "lean n p c c"
  by (simp add: lean_def)

lemma lean_trans: "lean n p a b \<Longrightarrow> lean n p b c \<Longrightarrow> lean n p a c"
  by (simp add: lean_def)

definition leans :: "nat \<Rightarrow> nat \<Rightarrow> pfcp_ctx \<Rightarrow> (pfcp_ctx \<times> 'r) exec \<Rightarrow> bool" where
  "leans n p a m \<longleftrightarrow> runs m (\<lambda>(c, r). lean n p a c)"

lemma leans_Ret [simp]: "leans n p a (Ret (c, r)) \<longleftrightarrow> lean n p a c"
  by (simp add: leans_def)

lemma leans_and_then: "leans n p a m \<Longrightarrow> (\<And>c. lean n p a c \<Longrightarrow> leans n p a (f c)) \<Longrightarrow> leans n p a (and_then m f)"
  unfolding and_then_def leans_def by (erule runs_bind) (auto split: option.split)

lemma leans_quietly: "runs m (lean n p a) \<Longrightarrow> leans n p a (quietly m)"
  unfolding quietly_def leans_def by (erule runs_bind) simp

lemma leans_after: "(\<And>x. leans n p a (f x)) \<Longrightarrow> leans n p a (exec_bind m f)"
  unfolding leans_def by (rule runs_then)

lemma lean_update_pdr:
  assumes "lean n p a c" "\<And>d. pdr_links (f d) = pdr_links d"
  shows "lean n p a (update_pdr p f c)"
proof -
  have "lean n p c (update_pdr p f c)" using assms(2) by (simp add: lean_def) (simp add: update_pdr_def)
  with assms(1) show ?thesis by (rule lean_trans)
qed

lemma lean_precedence:
  assumes "p \<in> set (pdrs_of c n)" "pdr_sess (pc_pdr c p) = n"
  shows "lean n p c (set_precedence p prec c)"
proof -
  have s: "set (ogs_list_insert_sorted cmp x ys) = insert x (set ys)" for cmp and x :: nat and ys
    by (induction ys) auto
  have r: "set (remove1 p xs) \<union> {p} = set xs" if "p \<in> set xs" for xs :: "nat list"
    using that by (induction xs) auto
  have "lean n p c (ogs_pfcp_pdr_reorder_by_precedence p k c)" for k
    using assms r [of "pdrs_of c n"]
    by (auto simp: lean_def ogs_pfcp_pdr_reorder_by_precedence_def Let_def update_sess_def update_pdr_def lists_defs
        pdr_links_def s)
  then show ?thesis
    by (auto simp: set_precedence_def pdr_links_def intro!: lean_update_pdr split: option.split)
qed

lemma lean_rule_remove: "rl_pdr (pc_rule c r) = p \<Longrightarrow> lean n p c (ogs_pfcp_rule_remove r c)"
  by (simp add: lean_def ogs_pfcp_rule_remove_def Let_def update_pdr_def lists_defs pdr_links_def)

lemma kept_rl_pdr: "kept n a c \<Longrightarrow> r \<in> set (pdr_rules (pc_pdr c p)) \<Longrightarrow> rl_pdr (pc_rule c r) = p"
  using pfcp_okD(7) [OF kept_ok] unfolding rule_objs_def by blast

lemma lean_update_rule: "lean n p a c \<Longrightarrow> lean n p a (update_rule l f c)"
  by (rule lean_trans, assumption) (simp add: lean_def, simp add: update_rule_def)

lemma lean_rule_remove_all:
  assumes k: "kept n a0 c" and p: "\<not> foreign pdrs_of n a0 p"
  shows "lean n p c (ogs_pfcp_rule_remove_all p c)"
proof -
  have "kept n a0 c \<Longrightarrow> distinct rs \<Longrightarrow> pdr_rules (pc_pdr c p) = rs \<Longrightarrow> lean n p c (fold ogs_pfcp_rule_remove rs c)" for rs c
  proof (induction rs arbitrary: c)
    case (Cons r rs)
    have r: "r \<in> set (pdr_rules (pc_pdr c p))" using Cons.prems(3) by simp
    have "kept n a0 (ogs_pfcp_rule_remove r c)" "pdr_rules (pc_pdr (ogs_pfcp_rule_remove r c) p) = rs"
      using kept_rule_remove [OF Cons.prems(1) p r refl] Cons.prems(3) by simp_all
    then have "lean n p (ogs_pfcp_rule_remove r c) (fold ogs_pfcp_rule_remove rs (ogs_pfcp_rule_remove r c))"
      using Cons.IH Cons.prems(2) by simp
    from lean_trans [OF lean_rule_remove [OF kept_rl_pdr [OF Cons.prems(1) r]] this] show ?case by simp
  qed simp
  moreover have "distinct (pdr_rules (pc_pdr c p))" using pfcp_okD(7) [OF kept_ok [OF k]] unfolding rule_objs_def by blast
  ultimately show ?thesis using k by (simp add: ogs_pfcp_rule_remove_all_def)
qed

lemma lean_add_flow_rule:
  assumes k: "kept n a0 c" and p: "\<not> foreign pdrs_of n a0 p"
  shows "runs (add_flow_rule env n p f c) (\<lambda>c'. kept n a0 c' \<and> lean n p c c')"
proof -
  have add: "runs (ogs_pfcp_rule_add p c) (\<lambda>(c', r). kept n a0 c' \<and> r \<in> set (pdr_rules (pc_pdr c' p)) \<and> lean n p c c')"
    using kept_rule_add [OF k p]
    by (auto simp: runs_def ogs_pfcp_rule_add_def lean_def update_pdr_def lists_defs pdr_links_def split: prod.splits option.splits)
  have "kept n a0 c'" if "add_flow_rule env n p f c = Ret c'" for c' using runs_D [OF kept_add_flow_rule [OF k p] that] .
  moreover have del: "lean n p c (ogs_pfcp_rule_remove r (update_rule r g c'))"
    if "kept n a0 c'" "r \<in> set (pdr_rules (pc_pdr c' p))" "lean n p c c'" "\<And>l. rl_pdr (g l) = rl_pdr l" for r g c'
  proof -
    have "rl_pdr (pc_rule (update_rule r g c') r) = p" using kept_rl_pdr [OF that(1,2)] that(4) by (simp add: update_rule_def)
    from lean_trans [OF lean_update_rule [OF that(3)] lean_rule_remove [OF this]] show ?thesis .
  qed
  have "runs (add_flow_rule env n p f c) (lean n p c)" unfolding add_flow_rule_def
    by (subst Let_def, rule runs_if [THEN iffD2], intro conjI impI, simp, rule runs_bind [OF add])
      (auto simp: Let_def lean_update_rule intro!: del split: option.split)
  with calculation show ?thesis by (simp add: runs_def)
qed

lemma lean_add_flow_rules:
  "kept n a0 c \<Longrightarrow> \<not> foreign pdrs_of n a0 p \<Longrightarrow> runs (add_flow_rules env n p ocs c) (lean n p c)"
proof (induction ocs arbitrary: c)
  case (Cons oc ocs)
  have "runs (add_flow_rules env n p ocs d) (lean n p c)" if "kept n a0 d \<and> lean n p c d" for d
    using Cons.IH [of d] Cons.prems(2) that lean_trans [of n p c d] by (auto simp: runs_def)
  then have "runs (exec_bind (add_flow_rule env n p f c) (add_flow_rules env n p ocs)) (lean n p c)" for f
    by (rule runs_bind [OF lean_add_flow_rule [OF Cons.prems]])
  then show ?case by (auto intro!: runs_then split: prod.split)
qed simp

lemma lean_source:
  assumes k: "kept n a0 c" and p: "\<not> foreign pdrs_of n a0 p"
  shows "runs (set_source env n p m c) (lean n p c)"
proof -
  define d where "d = update_pdr p (\<lambda>d. d\<lparr>pdr_src_if := (case pi_src_if m of None \<Rightarrow> pdr_src_if d | Some x \<Rightarrow> x),
      pdr_src_if_type := (case pi_src_if_type m of None \<Rightarrow> pdr_src_if_type d | Some x \<Rightarrow> Some x)\<rparr>) c"
  have d: "kept n a0 d" "lean n p c d" unfolding d_def
    by (rule kept_update_pdr [OF k p], simp) (rule lean_update_pdr, simp_all add: pdr_links_def)
  have e: "kept n a0 (ogs_pfcp_rule_remove_all p d)" "lean n p c (ogs_pfcp_rule_remove_all p d)"
    using kept_rule_remove_all [OF d(1) p] lean_trans [OF d(2) lean_rule_remove_all [OF d(1) p]] by blast+
  show ?thesis unfolding set_source_def d_def [symmetric]
    by (rule runs_weaken [OF lean_add_flow_rules [OF e(1) p]]) (rule lean_trans [OF e(2)])
qed

text \<open>The steps after the source: the F-TEID, the addresses, and the rules a PDR refers to.\<close>

definition settled :: "nat \<Rightarrow> nat \<Rightarrow> pfcp_ctx \<Rightarrow> pfcp_ctx \<Rightarrow> bool" where
  "settled n p c c' \<longleftrightarrow> set (pdrs_of c' n) = set (pdrs_of c n) \<and> set (fars_of c n) \<subseteq> set (fars_of c' n) \<and>
     (\<forall>q. q \<noteq> p \<longrightarrow> pc_pdr c' q = pc_pdr c q) \<and> pdr_hash_teid (pc_pdr c' p) = pdr_hash_teid (pc_pdr c p) \<and>
     pdr_id (pc_pdr c' p) = pdr_id (pc_pdr c p) \<and> \<not> pdr_chid (pc_pdr c' p) \<and>
     (\<exists>x \<in> set (fars_of c' n). pdr_far (pc_pdr c' p) = Some x)"

lemma lean_dnn: "runs (set_dnn p m old c) (lean n p c)"
  unfolding set_dnn_def by (rule runs_then) (auto intro!: lean_update_pdr simp: pdr_links_def)

lemma lean_addresses: "runs (set_addresses p m pi c) (lean n p c)"
  unfolding set_addresses_def by (intro runs_then) (auto intro!: lean_update_pdr simp: pdr_links_def)

lemma endpoint_runs:
  "runs (set_endpoint p m c) (\<lambda>(c', e). lean n p (update_pdr p (\<lambda>d. d\<lparr>pdr_chid := False\<rparr>) c) c')"
proof -
  have "lean n p (update_pdr p (\<lambda>d. d\<lparr>pdr_chid := False\<rparr>) c) (update_pdr p f c)"
    if "\<And>d. pdr_links (f d) = pdr_links (d\<lparr>pdr_chid := False\<rparr>)" for f
    using that by (simp add: lean_def) (simp add: update_pdr_def)
  moreover have "lean n p (update_pdr p (\<lambda>d. d\<lparr>pdr_chid := False\<rparr>) c) (update_pdr p g (update_pdr p f c))"
    if "\<And>d. pdr_links (g d) = pdr_links d" "\<And>d. pdr_links (f d) = pdr_links (d\<lparr>pdr_chid := False\<rparr>)" for f g
    using that by (simp add: lean_def) (simp add: update_pdr_def)
  ultimately show ?thesis unfolding set_endpoint_def Let_def
    by (auto intro!: runs_then simp: pdr_links_def split: option.split)
qed

lemma leans_urrs: "leans n p c (set_urrs s p us c)"
proof -
  have "leans n p a (set_urrs s p us c)" if "lean n p a c" for a
    using that
  proof (induction us arbitrary: c)
    case (Cons i us)
    obtain c' r where f: "ogs_pfcp_urr_find_or_add s (unat i) c = (c', r)" by (cases "ogs_pfcp_urr_find_or_add s (unat i) c")
    have "same_pdrs c c'" "same_fars c c'" using urr_find_or_add_ok [OF f] by blast+
    then have l: "lean n p a c'" using Cons.prems by (simp add: lean_def same_pdrs_def same_fars_def)
    then have "runs (ogs_pfcp_pdr_associate_urr p u c') (lean n p a)" for u
      by (auto simp: ogs_pfcp_pdr_associate_urr_def Let_def pdr_links_def intro!: lean_update_pdr)
    then have "leans n p a (exec_bind (ogs_pfcp_pdr_associate_urr p u c') (set_urrs s p us))" for u
      unfolding leans_def by (rule runs_bind) (use Cons.IH in \<open>simp add: leans_def\<close>)
    then show ?case using l by (simp add: f split: option.split)
  qed simp
  then show ?thesis by simp
qed

lemma lean_qer: "leans n p c (Ret (set_qer s p i c))"
proof -
  define c1 where "c1 = update_pdr p (\<lambda>d. d\<lparr>pdr_qer := None\<rparr>) c"
  have l: "lean n p c c1" unfolding c1_def by (rule lean_update_pdr) (simp_all add: pdr_links_def)
  have "lean n p c c'" if "ogs_pfcp_qer_find_or_add s j c1 = (c', r)" for j c' r
    using qer_find_or_add_ok [OF that] l by (simp add: lean_def same_pdrs_def same_fars_def)
  then show ?thesis using l
    by (auto simp: set_qer_def c1_def [symmetric] ogs_pfcp_pdr_associate_qer_def pdr_links_def leans_def
        intro!: lean_update_pdr split: option.split prod.split)
qed

lemma set_far_runs:
  assumes "lean n p (update_pdr p (\<lambda>d. d\<lparr>pdr_chid := False\<rparr>) c) c1" "set_far n p (Some i) c1 = (c', None)"
  shows "settled n p c c'"
proof -
  define c2 where "c2 = update_pdr p (\<lambda>d. d\<lparr>pdr_far := None\<rparr>) c1"
  obtain x c3 where f: "ogs_pfcp_far_find_or_add n i c2 = (c3, Some x)" and c': "c' = ogs_pfcp_pdr_associate_far p x c3"
    using assms(2) by (auto simp: set_far_def c2_def split: prod.splits option.splits)
  note r = far_find_or_add_ok [OF f]
  have "pdr_links (pc_pdr c1 p) = pdr_links ((pc_pdr c p)\<lparr>pdr_chid := False\<rparr>)" "set (pdrs_of c1 n) = set (pdrs_of c n)"
    "set (fars_of c1 n) = set (fars_of c n)" "\<And>q. q \<noteq> p \<Longrightarrow> pc_pdr c1 q = pc_pdr c q"
    using assms(1) by (simp_all add: lean_def) (simp_all add: update_pdr_def)
  with r show ?thesis
    by (simp add: settled_def c' ogs_pfcp_pdr_associate_far_def same_pdrs_def c2_def)
      (simp add: update_pdr_def pdr_links_def)
qed

lemma settled_lean: "settled n p c d \<Longrightarrow> lean n p d c' \<Longrightarrow> settled n p c c'"
  by (simp add: settled_def lean_def pdr_links_def)

lemma runs_and_then:
  assumes "runs m (\<lambda>(c, r). r = None \<longrightarrow> P c)" "\<And>c. P c \<Longrightarrow> runs (f c) (\<lambda>(c, r). r = None \<longrightarrow> Q c)"
  shows "runs (and_then m f) (\<lambda>(c, r). r = None \<longrightarrow> Q c)"
  unfolding and_then_def by (rule runs_bind [OF assms(1)]) (use assms(2) in \<open>auto split: option.split\<close>)

lemma runs_quietly_lean:
  assumes "runs m (lean n p b)" "lean n p a b"
  shows "runs (quietly m) (\<lambda>(c, r). r = None \<longrightarrow> lean n p a c)"
  unfolding quietly_def by (rule runs_bind [OF assms(1)]) (use lean_trans [OF assms(2)] in auto)

lemma fill_pdr_settled:
  assumes k: "kept n a c" and p: "p \<in> set (pdrs_of c n)" and far: "cp_far_id m = Some i"
  shows "runs (fill_pdr env n p m pi c) (\<lambda>(c', r). r = None \<longrightarrow> settled n p c c')"
proof -
  note own = own_pdr [OF k p]
  have s: "pdr_sess (pc_pdr c p) = n" using kind_okD(3) [OF pfcp_okD(1) [OF kept_ok [OF k], unfolded pdr_objs_def] p] .
  have c1: "kept n a (set_precedence p (cp_precedence m) c)" "lean n p c (set_precedence p (cp_precedence m) c)"
    using kept_set_precedence [OF k p] lean_precedence [OF p s] by blast+
  have 1: "runs (quietly (set_source env n p pi (set_precedence p (cp_precedence m) c))) (\<lambda>(c', r). r = None \<longrightarrow> lean n p c c')"
    by (rule runs_quietly_lean [OF lean_source [OF c1(1) own] c1(2)])
  have 2: "runs (quietly (set_dnn p (pi_dnn pi) None d)) (\<lambda>(c', r). r = None \<longrightarrow> lean n p c c')" if "lean n p c d" for d
    by (rule runs_quietly_lean [OF lean_dnn that])
  let ?b = "update_pdr p (\<lambda>d. d\<lparr>pdr_chid := False\<rparr>) c"
  have 3: "runs (set_endpoint p pi d) (\<lambda>(c', r). r = None \<longrightarrow> lean n p ?b c')" if "lean n p c d" for d
  proof -
    have "lean n p ?b (update_pdr p (\<lambda>d. d\<lparr>pdr_chid := False\<rparr>) d)"
      using that by (simp add: lean_def) (simp add: update_pdr_def pdr_links_def)
    then show ?thesis by (intro runs_weaken [OF endpoint_runs]) (auto intro: lean_trans)
  qed
  have 4: "runs (quietly (set_addresses p m pi d)) (\<lambda>(c', r). r = None \<longrightarrow> lean n p ?b c')" if "lean n p ?b d" for d
    by (rule runs_quietly_lean [OF lean_addresses that])
  have 5: "runs (Ret (set_far n p (cp_far_id m) d)) (\<lambda>(c', r). r = None \<longrightarrow> settled n p c c')" if "lean n p ?b d" for d
    using set_far_runs [OF that] far by (auto split: prod.split)
  have 6: "runs (set_urrs n p (cp_urr_ids m) (update_pdr p (\<lambda>d. d\<lparr>pdr_urr := []\<rparr>) d)) (\<lambda>(c', r). r = None \<longrightarrow> settled n p c c')"
    if "settled n p c d" for d
  proof -
    have "lean n p d (update_pdr p (\<lambda>d. d\<lparr>pdr_urr := []\<rparr>) d)" by (rule lean_update_pdr) (simp_all add: pdr_links_def)
    from settled_lean [OF that lean_trans [OF this]] show ?thesis
      by (intro runs_weaken [OF leans_urrs [unfolded leans_def]]) auto
  qed
  have 7: "runs (Ret (set_qer n p (cp_qer_id m) d)) (\<lambda>(c', r). r = None \<longrightarrow> settled n p c c')" if "settled n p c d" for d
    by (rule runs_weaken [OF lean_qer [unfolded leans_def]]) (auto intro: settled_lean [OF that])
  show ?thesis unfolding fill_pdr_def
    by (intro runs_and_then [OF 1] runs_and_then [OF 2] runs_and_then [OF 3] runs_and_then [OF 4] runs_and_then [OF 5]
        runs_and_then [OF 6] 7)
qed

text \<open>A rule of a new session has no key yet, no choice has been made for it and its FAR is one of the session's.\<close>

definition fresh :: "nat \<Rightarrow> pfcp_ctx \<Rightarrow> bool" where
  "fresh n c \<longleftrightarrow> (\<forall>p \<in> set (pdrs_of c n). pdr_hash_teid (pc_pdr c p) = None \<and> \<not> pdr_chid (pc_pdr c p) \<and>
     (\<exists>x \<in> set (fars_of c n). pdr_far (pc_pdr c p) = Some x))"

lemma find_or_add_adds:
  assumes "kept n a c" "ogs_pfcp_pdr_find_or_add n i c = Ret (c', Some p)"
  shows "set (pdrs_of c' n) = insert p (set (pdrs_of c n)) \<and> fars_of c' n = fars_of c n \<and>
    (\<forall>q. q \<noteq> p \<longrightarrow> pc_pdr c' q = pc_pdr c q) \<and> pdr_id (pc_pdr c' p) = i \<and>
    (p \<in> set (pdrs_of c n) \<and> c' = c \<or> p \<notin> set (pdrs_of c n) \<and> pdr_hash_teid (pc_pdr c' p) = None)"
proof (cases "ogs_pfcp_pdr_find n i c")
  case None
  have k: "kept n a c'" using runs_D [OF pdr_find_or_add_runs [OF assms(1)] assms(2)] by simp
  have e: "pdrs_of c' n = pdrs_of c n @ [p]" "fars_of c' n = fars_of c n" "\<forall>q. q \<noteq> p \<longrightarrow> pc_pdr c' q = pc_pdr c q"
    "pdr_id (pc_pdr c' p) = i" "pdr_hash_teid (pc_pdr c' p) = None"
    using assms(2) by (auto simp: ogs_pfcp_pdr_find_or_add_def None ogs_pfcp_pdr_add_def Let_def update_pdr_def update_sess_def
        lists_defs zero_pdr_def split: prod.splits option.splits)
  have "distinct (pdrs_of c' n)" using pfcp_okD(1) [OF kept_ok [OF k], unfolded pdr_objs_def] kind_okD(4) by blast
  with e show ?thesis by simp
next
  case (Some q)
  then have q: "c' = c" "p = q" using assms(2) by (simp_all add: ogs_pfcp_pdr_find_or_add_def)
  have "pdr_id (pc_pdr c q) = i" using Some by (auto simp: ogs_pfcp_pdr_find_def find_Some_iff)
  with find_in_list(1) [OF Some] q show ?thesis by auto
qed

definition adds_pdr :: "nat \<Rightarrow> u32 \<Rightarrow> pfcp_ctx \<Rightarrow> pfcp_ctx \<Rightarrow> nat \<Rightarrow> bool" where
  "adds_pdr n i c c' p \<longleftrightarrow> fresh n c' \<and> set (pdrs_of c' n) = insert p (set (pdrs_of c n)) \<and> pdr_id (pc_pdr c' p) = i \<and>
     (\<forall>q \<in> set (pdrs_of c n). pdr_id (pc_pdr c' q) = pdr_id (pc_pdr c q))"

lemma fill_pdr_adds:
  assumes k: "kept n a c" and f: "fresh n c" and d: "ogs_pfcp_pdr_find_or_add n i c = Ret (d, Some p)" and s: "settled n p d c'"
  shows "adds_pdr n i c c' p"
proof -
  note e = find_or_add_adds [OF k d] and s' = s [unfolded settled_def]
  have "pdr_hash_teid (pc_pdr d p) = None" using e f by (auto simp: fresh_def)
  then have p: "pdr_hash_teid (pc_pdr c' p) = None" "\<not> pdr_chid (pc_pdr c' p)" "\<exists>x \<in> set (fars_of c' n). pdr_far (pc_pdr c' p) = Some x"
    using s' by simp_all
  have "pdr_hash_teid (pc_pdr c' q) = None \<and> \<not> pdr_chid (pc_pdr c' q) \<and> (\<exists>x \<in> set (fars_of c' n). pdr_far (pc_pdr c' q) = Some x)"
    if q: "q \<in> set (pdrs_of c' n)" for q
  proof (cases "q = p")
    case False
    then have o: "pc_pdr c' q = pc_pdr c q" "set (fars_of c n) \<subseteq> set (fars_of c' n)" "q \<in> set (pdrs_of c n)" using q e s' by auto
    then show ?thesis using f [unfolded fresh_def, rule_format, OF o(3)] by (simp, blast)
  qed (use p in simp)
  then have "fresh n c'" unfolding fresh_def by blast
  moreover have "pdr_id (pc_pdr c' q) = pdr_id (pc_pdr c q)" if "q \<in> set (pdrs_of c n)" for q
    using that e s' by (cases "q = p") auto
  ultimately show ?thesis using s' e by (simp add: adds_pdr_def)
qed

lemma refuse_not_Absent [simp]: "refuse x y \<noteq> Absent"
  by (simp add: refuse_def)

lemma create_pdr_adds:
  assumes k: "kept n a c" and f: "fresh n c"
  shows "runs (ogs_pfcp_handle_create_pdr env restore n (Some m) c) (\<lambda>(c', r). r \<noteq> Absent \<and>
    (\<forall>p. r = Done p \<longrightarrow> adds_pdr n (ucast (the (cp_pdr_id m))) c c' p))"
proof -
  have fill: "runs (exec_bind (fill_pdr env n p m pi d) (\<lambda>(c, r). Ret (c, ended p r)))
      (\<lambda>(c', r). r \<noteq> Absent \<and> (\<forall>p. r = Done p \<longrightarrow> adds_pdr n i c c' p))"
    if "ogs_pfcp_pdr_find_or_add n i c = Ret (d, Some p)" "cp_far_id m = Some j" for d p pi i j
  proof -
    have d: "kept n a d" "p \<in> set (pdrs_of d n)" using runs_D [OF pdr_find_or_add_runs [OF k] that(1)] by simp_all
    show ?thesis
      by (rule runs_bind [OF fill_pdr_settled [OF d that(2)]])
        (auto simp: ended_def intro: fill_pdr_adds [OF k f that(1)] split: option.splits)
  qed
  have found: "runs (exec_bind (ogs_pfcp_pdr_find_or_add n i c) (\<lambda>(c, r). case r of None \<Rightarrow> Ret (c, refuse x y)
      | Some p \<Rightarrow> exec_bind (fill_pdr env n p m pi c) (\<lambda>(c, r). Ret (c, ended p r))))
      (\<lambda>(c', r). r \<noteq> Absent \<and> (\<forall>p. r = Done p \<longrightarrow> adds_pdr n i c c' p))"
    if "cp_far_id m = Some j" for i x y pi j
    by (rule runs_then) (auto split: option.split intro!: fill [OF _ that])
  show ?thesis unfolding ogs_pfcp_handle_create_pdr_def
    by (auto split: option.split intro!: runs_then found)
qed

text \<open>All the rules of a message: those that were there and those created, each entry with one of its identifier.\<close>

definition adds_pdrs :: "nat \<Rightarrow> tlv_create_pdr list \<Rightarrow> pfcp_ctx \<Rightarrow> pfcp_ctx \<Rightarrow> nat list \<Rightarrow> bool" where
  "adds_pdrs n ms c c' ps \<longleftrightarrow> fresh n c' \<and> set (pdrs_of c' n) = set (pdrs_of c n) \<union> set ps \<and>
     (\<forall>q \<in> set (pdrs_of c n). pdr_id (pc_pdr c' q) = pdr_id (pc_pdr c q)) \<and>
     (\<forall>m \<in> set ms. \<exists>p \<in> set ps. pdr_id (pc_pdr c' p) = ucast (the (cp_pdr_id m)))"

lemma adds_pdrs_Cons:
  assumes "adds_pdr n (ucast (the (cp_pdr_id m))) c c' p" "adds_pdrs n ms c' c'' ps"
  shows "adds_pdrs n (m # ms) c c'' (p # ps)"
proof -
  have l: "p \<in> set (pdrs_of c' n)" "set (pdrs_of c n) \<subseteq> set (pdrs_of c' n)" using assms(1) by (auto simp: adds_pdr_def)
  then have "pdr_id (pc_pdr c'' p) = ucast (the (cp_pdr_id m))"
    "\<forall>q \<in> set (pdrs_of c n). pdr_id (pc_pdr c'' q) = pdr_id (pc_pdr c q)"
    using assms by (auto simp: adds_pdrs_def adds_pdr_def)
  with l assms show ?thesis by (auto simp: adds_pdrs_def adds_pdr_def)
qed

lemma create_pdrs_adds:
  assumes "within n a st" "fresh n (pfcp_of st)"
  shows "runs (create_pdrs env restore n ms st) (\<lambda>(st', ps, e). e = None \<longrightarrow>
    adds_pdrs n (take OGS_MAX_NUM_OF_PDR ms) (pfcp_of st) (pfcp_of st') ps)"
proof -
  let ?h = "\<lambda>m. run_pfcp (ogs_pfcp_handle_create_pdr (ne_handler env) restore n (Some m))"
  have one: "runs (?h m st) (\<lambda>(st', r). within n a st' \<and> r \<noteq> Absent \<and>
      (\<forall>p. r = Done p \<longrightarrow> adds_pdr n (ucast (the (cp_pdr_id m))) (pfcp_of st) (pfcp_of st') p))"
    if w: "within n a st" and f: "fresh n (pfcp_of st)" for m st
  proof -
    have "runs (ogs_pfcp_handle_create_pdr (ne_handler env) restore n (Some m) (pfcp_of st)) (\<lambda>(c', r). kept n (pfcp_of a) c' \<and>
        r \<noteq> Absent \<and> (\<forall>p. r = Done p \<longrightarrow> adds_pdr n (ucast (the (cp_pdr_id m))) (pfcp_of st) c' p))"
      using create_pdr_adds [OF within_kept [OF w] f] kept_create_pdr [OF within_kept [OF w]]
      unfolding keeps_own_def by (fastforce simp: runs_def)
    then show ?thesis unfolding run_pfcp_def by (rule runs_bind) (auto intro: within_on_pfcp [OF w])
  qed
  have "runs (each ?h ms st) (\<lambda>(st', ps, e). e = None \<longrightarrow> adds_pdrs n ms (pfcp_of st) (pfcp_of st') ps)" for ms
    using assms
  proof (induction ms arbitrary: st)
    case (Cons m ms)
    have rest: "runs (exec_bind (each ?h ms st') (\<lambda>(st, xs, e). Ret (st, p # xs, e)))
        (\<lambda>(st', ps, e). e = None \<longrightarrow> adds_pdrs n (m # ms) (pfcp_of st) (pfcp_of st') ps)"
      if "within n a st'" "adds_pdr n (ucast (the (cp_pdr_id m))) (pfcp_of st) (pfcp_of st') p" for st' p
    proof -
      have "fresh n (pfcp_of st')" using that(2) by (simp add: adds_pdr_def)
      from Cons.IH [OF that(1) this] show ?thesis by (rule runs_bind) (auto intro: adds_pdrs_Cons [OF that(2)])
    qed
    show ?case unfolding each.simps
      by (rule runs_bind [OF one [OF Cons.prems]]) (auto split: handled.split intro!: rest)
  qed (simp add: adds_pdrs_def)
  then show ?thesis by (simp add: create_pdrs_def)
qed

section \<open>The TEIDs of a new session\<close>

text \<open>
  While the TEIDs are listed: a key stands for the TEID its rule has, the table leads from it to
  the session, and nothing is chosen again for a rule that has been listed.
\<close>

definition listing :: "nat \<Rightarrow> pfcp_ctx \<Rightarrow> bool" where
  "listing n c \<longleftrightarrow> hash_ok (pc_object_hash c) \<and> (\<forall>p \<in> set (pdrs_of c n). pdr_sess (pc_pdr c p) = n \<and>
     (pdr_chid (pc_pdr c p) \<longrightarrow> \<not> te_ch (pdr_f_teid (pc_pdr c p))) \<and>
     (\<exists>x \<in> set (fars_of c n). pdr_far (pc_pdr c p) = Some x) \<and>
     (\<forall>t. pdr_hash_teid (pc_pdr c p) = Some t \<longrightarrow> t = te_teid (pdr_f_teid (pc_pdr c p)) \<and>
        ogs_pfcp_object_find_by_teid t c = Some (Obj_Sess n) \<and> \<not> (pc_ftup c \<and> te_ch (pdr_f_teid (pc_pdr c p)))))"

text \<open>A choice: the F-TEID has no CH flag any more.\<close>

lemma choose_f_teid_runs:
  assumes l: "listing n c" and p: "p \<in> set (pdrs_of c n)"
  shows "runs (choose_f_teid p c) (\<lambda>(d, ok). pdr_sess d = n \<and> pdr_far d = pdr_far (pc_pdr c p) \<and>
    pdr_id d = pdr_id (pc_pdr c p) \<and> pdr_hash_teid d = pdr_hash_teid (pc_pdr c p) \<and> (ok \<longrightarrow> \<not> te_ch (pdr_f_teid d)))"
proof -
  define d where "d = pc_pdr c p"
  define ch where "ch = (if te_chid (pdr_f_teid d)
    then ogs_pfcp_pdr_find_by_choose_id (pdr_sess d) (te_choose_id (pdr_f_teid d)) c else None)"
  define d1 where "d1 = (if te_chid (pdr_f_teid d) \<and> ch = None
    then d\<lparr>pdr_chid := True, pdr_choose_id := te_choose_id (pdr_f_teid d)\<rparr> else d)"
  have s: "pdr_sess d = n" using l p by (simp add: listing_def d_def)
  have d1: "pdr_sess d1 = n" "pdr_far d1 = pdr_far d" "pdr_id d1 = pdr_id d" "pdr_hash_teid d1 = pdr_hash_teid d"
    using s by (simp_all add: d1_def)
  have q: "\<not> te_ch (pdr_f_teid (pc_pdr c q))" if "ch = Some q" for q
    using that l s by (auto simp: ch_def ogs_pfcp_pdr_find_by_choose_id_def find_Some_iff listing_def split: if_splits)
  have f: "\<not> te_ch f" if "f_teid_of v4 v6 = (f, k)" for v4 v6 f k using that by (auto simp: f_teid_of_def zero_f_teid_def)
  define Q where "Q = (\<lambda>(e :: pfcp_pdr, ok). pdr_sess e = n \<and> pdr_far e = pdr_far d \<and> pdr_id e = pdr_id d \<and>
    pdr_hash_teid e = pdr_hash_teid d \<and> (ok \<longrightarrow> \<not> te_ch (pdr_f_teid e)))"
  have put: "Q (d1\<lparr>pdr_f_teid := f\<lparr>te_teid := t\<rparr>, pdr_f_teid_len := k\<rparr>, True)" "Q (d1\<lparr>pdr_f_teid_len := k, pdr_f_teid := f\<rparr>, True)"
    if "\<not> te_ch f" for f t k using that d1 by (simp_all add: Q_def)
  have no: "Q (d1, False)" using d1 by (simp add: Q_def)
  have "runs (choose_f_teid p c) Q"
    unfolding choose_f_teid_def Let_def d_def [symmetric] ch_def [symmetric] d1_def [symmetric]
    by (cases ch; cases "ogs_pfcp_find_gtpu_resource (pc_resources c) (pdr_dnn d1) (pdr_src_if d1)")
      (auto simp: q put no ogs_pfcp_user_plane_ip_resource_info_to_f_teid_def ogs_pfcp_sockaddr_to_f_teid_def Let_def
        dest!: f split: option.split prod.split)
  then show ?thesis by (simp add: Q_def d_def)
qed

definition keyed :: "pfcp_pdr \<Rightarrow> bool" where
  "keyed d \<longleftrightarrow> pdr_f_teid_len d = 0 \<or> pdr_hash_teid d = Some (te_teid (pdr_f_teid d))"

definition listed :: "nat \<Rightarrow> nat \<Rightarrow> pfcp_ctx \<Rightarrow> pfcp_ctx \<Rightarrow> bool" where
  "listed n p c c' \<longleftrightarrow> listing n c' \<and> pdrs_of c' n = pdrs_of c n \<and> (\<forall>q. pdr_id (pc_pdr c' q) = pdr_id (pc_pdr c q)) \<and>
     (\<forall>q. q \<noteq> p \<longrightarrow> pc_pdr c' q = pc_pdr c q) \<and> keyed (pc_pdr c' p)"

text \<open>The rule \<open>p\<close> gets the F-TEID of \<open>d\<close>, listed under its TEID.\<close>

definition put_listed :: "nat \<Rightarrow> nat \<Rightarrow> pfcp_pdr \<Rightarrow> pfcp_ctx \<Rightarrow> pfcp_ctx" where
  "put_listed n p d c = c\<lparr>pc_pdr := (pc_pdr c)(p := d\<lparr>pdr_hash_teid := Some (te_teid (pdr_f_teid d))\<rparr>),
     pc_object_hash := hash_set (case pdr_hash_teid d of None \<Rightarrow> pc_object_hash c
       | Some k \<Rightarrow> hash_set (pc_object_hash c) (key32 k) None) (key32 (te_teid (pdr_f_teid d))) (Some (Obj_Sess n))\<rparr>"

lemma put_listed_find:
  assumes h: "hash_ok (pc_object_hash c)" and k: "\<And>k. pdr_hash_teid d = Some k \<Longrightarrow> k = te_teid (pdr_f_teid d)"
  shows "hash_ok (pc_object_hash (put_listed n p d c)) \<and> ogs_pfcp_object_find_by_teid u (put_listed n p d c) =
    (if u = te_teid (pdr_f_teid d) then Some (Obj_Sess n) else ogs_pfcp_object_find_by_teid u c)"
proof -
  define c1 where "c1 = c\<lparr>pc_object_hash := (case pdr_hash_teid d of None \<Rightarrow> pc_object_hash c
       | Some k \<Rightarrow> hash_set (pc_object_hash c) (key32 k) None)\<rparr>"
  have c1: "hash_ok (pc_object_hash c1) \<and> (u \<noteq> te_teid (pdr_f_teid d) \<longrightarrow>
      ogs_pfcp_object_find_by_teid u c1 = ogs_pfcp_object_find_by_teid u c)"
  proof (cases "pdr_hash_teid d")
    case None
    then show ?thesis using h by (simp add: c1_def)
  next
    case (Some j)
    then have "pc_object_hash c1 = hash_set (pc_object_hash c) (key32 j) None" by (simp add: c1_def)
    from find_by_teid_set(1) [OF h this] find_by_teid_set(2) [OF h this, of u] k [OF Some] show ?thesis by simp
  qed
  have "pc_object_hash (put_listed n p d c) = hash_set (pc_object_hash c1) (key32 (te_teid (pdr_f_teid d))) (Some (Obj_Sess n))"
    by (simp add: put_listed_def c1_def)
  from find_by_teid_set(1) [OF conjunct1 [OF c1] this] find_by_teid_set(2) [OF conjunct1 [OF c1] this, of u] c1
  show ?thesis by simp
qed

lemma put_listed_ok:
  assumes l: "listing n c" and p: "p \<in> set (pdrs_of c n)"
    and d: "pdr_sess d = n" "pdr_far d = pdr_far (pc_pdr c p)" "pdr_id d = pdr_id (pc_pdr c p)"
      "pdr_hash_teid d = pdr_hash_teid (pc_pdr c p)"
    and ch: "pc_ftup c \<and> te_ch (pdr_f_teid (pc_pdr c p)) \<and> \<not> te_ch (pdr_f_teid d) \<or>
      \<not> (pc_ftup c \<and> te_ch (pdr_f_teid (pc_pdr c p))) \<and> d = pc_pdr c p"
  shows "listed n p c (put_listed n p d c)"
proof -
  let ?c = "put_listed n p d c"
  have k: "k = te_teid (pdr_f_teid d)" if "pdr_hash_teid d = Some k" for k
    using that l p d(4) ch by (auto simp: listing_def)
  note f = put_listed_find [OF _ k, of c n p] and l' = l [unfolded listing_def]
  have h: "hash_ok (pc_object_hash c)" using l' by simp
  have e: "pdrs_of ?c n = pdrs_of c n" "fars_of ?c n = fars_of c n" "pc_ftup ?c = pc_ftup c"
    "pc_pdr ?c q = (if q = p then d\<lparr>pdr_hash_teid := Some (te_teid (pdr_f_teid d))\<rparr> else pc_pdr c q)" for q
    by (simp_all add: put_listed_def lists_defs)
  have "listing n ?c" unfolding listing_def
  proof (intro conjI ballI)
    show "hash_ok (pc_object_hash ?c)" using f [OF h] by blast
    fix q
    assume q: "q \<in> set (pdrs_of ?c n)"
    then have lq: "q \<in> set (pdrs_of c n)" by (simp add: e)
    show "pdr_sess (pc_pdr ?c q) = n" "pdr_chid (pc_pdr ?c q) \<longrightarrow> \<not> te_ch (pdr_f_teid (pc_pdr ?c q))"
      "\<exists>x \<in> set (fars_of ?c n). pdr_far (pc_pdr ?c q) = Some x"
      using l' lq p d ch by (auto simp: e)
    show "\<forall>t. pdr_hash_teid (pc_pdr ?c q) = Some t \<longrightarrow> t = te_teid (pdr_f_teid (pc_pdr ?c q)) \<and>
        ogs_pfcp_object_find_by_teid t ?c = Some (Obj_Sess n) \<and> \<not> (pc_ftup ?c \<and> te_ch (pdr_f_teid (pc_pdr ?c q)))"
      using l' lq ch f [OF h] by (auto simp: e)
  qed
  then show ?thesis using d by (simp add: listed_def e keyed_def)
qed

lemma teid_hash_set_lists:
  assumes l: "listing n c" and p: "p \<in> set (pdrs_of c n)"
  shows "runs (ogs_pfcp_object_teid_hash_set True p c) (\<lambda>(c', r). r = OGS_PFCP_CAUSE_REQUEST_ACCEPTED \<longrightarrow> listed n p c c')"
proof -
  have "runs (if pc_ftup c \<and> te_ch (pdr_f_teid (pc_pdr c p)) then choose_f_teid p c else Ret (pc_pdr c p, True))
    (\<lambda>(d, ok). ok \<longrightarrow> listed n p c (put_listed n p d c) \<and> pdr_sess d = n)"
  proof (cases "pc_ftup c \<and> te_ch (pdr_f_teid (pc_pdr c p))")
    case True
    show ?thesis unfolding if_P [OF True]
      by (rule runs_weaken [OF choose_f_teid_runs [OF l p]]) (simp only: split_paired_all prod.case, intro impI conjI, rule put_listed_ok [OF l p], use True in simp_all)
  next
    case False
    have "pdr_sess (pc_pdr c p) = n" using l p by (simp add: listing_def)
    then show ?thesis unfolding if_not_P [OF False] using False by (simp add: put_listed_ok [OF l p])
  qed
  then show ?thesis unfolding ogs_pfcp_object_teid_hash_set_def
    by (rule runs_bind)
      (auto simp: Let_def put_listed_def OGS_PFCP_CAUSE_REQUEST_REJECTED_def OGS_PFCP_CAUSE_REQUEST_ACCEPTED_def)
qed

lemma list_teid_lists:
  assumes "listing n (pfcp_of st)" "p \<in> set (pdrs_of (pfcp_of st) n)"
  shows "runs (list_teid p st) (\<lambda>(st', e). e = None \<longrightarrow> listed n p (pfcp_of st) (pfcp_of st'))"
proof (cases "pdr_f_teid_len (pc_pdr (pfcp_of st) p) = 0")
  case False
  then show ?thesis unfolding list_teid_def if_not_P [OF False] by_cause_def run_pfcp_def
    by (intro runs_bind [OF runs_bind [OF teid_hash_set_lists [OF assms], where Q = "\<lambda>(st', r).
      r = OGS_PFCP_CAUSE_REQUEST_ACCEPTED \<longrightarrow> listed n p (pfcp_of st) (pfcp_of st')"]]) auto
qed (use assms in \<open>simp add: list_teid_def listed_def keyed_def\<close>)

definition all_listed :: "nat \<Rightarrow> nat list \<Rightarrow> pfcp_ctx \<Rightarrow> pfcp_ctx \<Rightarrow> bool" where
  "all_listed n ps c c' \<longleftrightarrow> listing n c' \<and> pdrs_of c' n = pdrs_of c n \<and> (\<forall>q. pdr_id (pc_pdr c' q) = pdr_id (pc_pdr c q)) \<and>
     (\<forall>q. q \<in> set ps \<or> keyed (pc_pdr c q) \<longrightarrow> keyed (pc_pdr c' q))"

lemma listed_Cons: "listed n p c c' \<Longrightarrow> all_listed n ps c' c'' \<Longrightarrow> all_listed n (p # ps) c c''"
  by (auto simp: listed_def all_listed_def)

lemma setup_created_lists:
  assumes w: "within n a st" and l: "listing n (pfcp_of st)" "p \<in> set (pdrs_of (pfcp_of st) n)"
  shows "runs (setup_created env n pdn_type p st) (\<lambda>(st', e). within n a st' \<and>
    (e = None \<longrightarrow> listed n p (pfcp_of st) (pfcp_of st')))"
proof -
  have own: "\<not> foreign pdrs_of n (pfcp_of a) p" by (rule own_pdr [OF within_kept [OF w] l(2)])
  let ?Q = "\<lambda>(st', e :: (u8 \<times> u8) option). e = None \<longrightarrow> listed n p (pfcp_of st) (pfcp_of st')"
  have list: "runs (list_teid p st') ?Q" if "pfcp_of st' = pfcp_of st" for st'
    using list_teid_lists [of n st'] l that by simp
  have routes: "runs (and_then (set_framed_routes env n p st') (list_teid p)) ?Q"
    if w': "within n a st'" and e: "pfcp_of st' = pfcp_of st" for st'
    unfolding and_then_def
    by (rule runs_bind [OF set_framed_routes_runs [OF w']]) (auto simp: e list split: option.split)
  have "runs (setup_created env n pdn_type p st) ?Q" unfolding setup_created_def and_then_def [of "set_ue_address n pdn_type p st"]
    by (rule runs_bind [OF set_ue_address_runs [OF w]]) (auto simp: routes split: option.split)
  with stays_setup_created [OF w own, of env pdn_type, unfolded stays_def] show ?thesis by (auto simp: runs_def)
qed

lemma setup_all_lists:
  assumes "within n a st" "listing n (pfcp_of st)" "set ps \<subseteq> set (pdrs_of (pfcp_of st) n)"
  shows "runs (for_each (setup_created env n pdn_type) ps st) (\<lambda>(st', e). e = None \<longrightarrow>
    all_listed n ps (pfcp_of st) (pfcp_of st'))"
  using assms
proof (induction ps arbitrary: st)
  case (Cons p ps)
  have p: "p \<in> set (pdrs_of (pfcp_of st) n)" using Cons.prems(3) by simp
  have rest: "runs (for_each (setup_created env n pdn_type) ps st') (\<lambda>(st'', e). e = None \<longrightarrow>
      all_listed n (p # ps) (pfcp_of st) (pfcp_of st''))"
    if "within n a st'" "listed n p (pfcp_of st) (pfcp_of st')" for st'
    by (rule runs_weaken [OF Cons.IH [OF that(1)]]) (use that(2) Cons.prems(3) in \<open>auto simp: listed_def intro: listed_Cons\<close>)
  show ?case unfolding for_each.simps and_then_def
    by (rule runs_bind [OF setup_created_lists [OF Cons.prems(1,2) p]]) (auto split: option.split intro: rest)
qed (simp add: all_listed_def)

section \<open>An accepted establishment\<close>

lemma st_shaped_restore: "st_shaped n st (for_each restore_teid ps st)"
proof (rule st_shaped_for_each)
  fix p and st :: "'a n4_state"
  have "shaped n (pfcp_of st) (ogs_pfcp_pdr_swap_teid p (pfcp_of st))"
    by (auto simp: ogs_pfcp_pdr_swap_teid_def Let_def intro!: shape_cong) (simp_all add: lists_defs)
  then show "st_shaped n st (restore_teid p st)"
    by (simp add: restore_teid_def Let_def st_shaped_by_cause st_shaped_run)
qed

lemma st_shaped_apn_dnn: "st_shaped n st (set_apn_dnn s m st)"
proof -
  have "pfcp_of (st\<lparr>ns_ctx := with_sess s f (ns_ctx st)\<rparr>) = pfcp_of st" for f by (simp add: pfcp_of_def with_sess_def)
  then show ?thesis by (auto simp: set_apn_dnn_def st_shaped_def intro!: runs_then split: option.split)
qed

lemma st_shaped_one_of: "(\<And>c. shaped n c (handle c)) \<Longrightarrow> st_shaped n st (one_of handle st)"
  unfolding one_of_def by (rule st_shaped_all_of)

text \<open>The rules are as they were created when the addresses and TEIDs are set up.\<close>

lemma listing_fresh:
  assumes "kept n a c" "fresh n c"
  shows "listing n c"
  using assms(2) pfcp_okD(8) [OF kept_ok [OF assms(1)]]
    kind_okD(3) [OF pfcp_okD(1) [OF kept_ok [OF assms(1)], unfolded pdr_objs_def]]
  by (auto simp: listing_def fresh_def teid_table_def)

definition in_shape :: "nat \<Rightarrow> 'c n4_state \<Rightarrow> pfcp_ctx \<Rightarrow> 'c n4_state attempt \<Rightarrow> bool" where
  "in_shape n a c m \<longleftrightarrow> runs m (\<lambda>(st, e). within n a st \<and> shape n (pfcp_of st) = shape n c)"

lemma in_shapeI: "stays n a m \<Longrightarrow> st_shaped n st m \<Longrightarrow> shape n (pfcp_of st) = shape n c \<Longrightarrow> in_shape n a c m"
  unfolding stays_def st_shaped_def in_shape_def by (simp add: runs_def split_def)

lemma in_shape_then:
  assumes "in_shape n a c m" "\<And>st. within n a st \<Longrightarrow> shape n (pfcp_of st) = shape n c \<Longrightarrow> runs (f st) (\<lambda>(st, e). e = None \<longrightarrow> Q st)"
  shows "runs (and_then m f) (\<lambda>(st, e). e = None \<longrightarrow> Q st)"
  unfolding and_then_def by (rule runs_bind [OF assms(1) [unfolded in_shape_def]]) (use assms(2) in \<open>auto split: option.split\<close>)

lemma shape_eqs:
  assumes "shape n c' = shape n c"
  shows "pdrs_of c' n = pdrs_of c n" "fars_of c' n = fars_of c n" "pc_pdr c' = pc_pdr c" "pc_ftup c' = pc_ftup c"
  using assms by (simp_all add: shape_def)

lemma establish_lists:
  assumes w: "within n a st" and f: "fresh n (pfcp_of st)" and ps: "set ps \<subseteq> set (pdrs_of (pfcp_of st) n)"
  shows "runs (establish env n req ps st) (\<lambda>(st', e). e = None \<longrightarrow> all_listed n ps (pfcp_of st) (pfcp_of st'))"
proof -
  let ?c = "pfcp_of st"
  have fin: "runs (for_each (setup_created env n (es_pdn_type req)) ps st') (\<lambda>(st', e). e = None \<longrightarrow> all_listed n ps ?c (pfcp_of st'))"
    if w': "within n a st'" and s: "shape n (pfcp_of st') = shape n ?c" for st'
  proof -
    have "fresh n (pfcp_of st')" using f by (simp add: fresh_def shape_eqs [OF s])
    from setup_all_lists [OF w' listing_fresh [OF within_kept [OF w'] this], of ps env "es_pdn_type req"] ps
    show ?thesis by (simp add: shape_eqs [OF s] all_listed_def)
  qed
  have own: "\<not> foreign pdrs_of n (pfcp_of a) p" if "p \<in> set ps" for p using own_pdr [OF within_kept [OF w]] ps that by blast
  have restore: "in_shape n a ?c (if b then for_each restore_teid ps st' else Ret (st', None))"
    if "within n a st'" "shape n (pfcp_of st') = shape n ?c" for b st'
    using that in_shapeI [OF _ st_shaped_restore that(2)] stays_for_each [OF stays_restore_teid that(1), of ps]
    by (auto simp: in_shape_def)
  have nodes: "st_shaped n st' (setup_gtp_nodes env n st')" for st'
    by (simp add: setup_gtp_nodes_def st_shaped_setup_fars)
  show ?thesis unfolding establish_def
    by (rule in_shape_then [OF in_shapeI [OF stays_all_of st_shaped_all_of]],
        (rule kept_create_far w shaped_create_far refl; assumption?)+,
        rule in_shape_then [OF in_shapeI [OF stays_create_urrs st_shaped_create_urrs]], assumption+,
        rule in_shape_then [OF in_shapeI [OF stays_apn_dnn st_shaped_apn_dnn]], assumption+,
        rule in_shape_then [OF in_shapeI [OF stays_all_of st_shaped_all_of]], (rule kept_create_qer shaped_create_qer | assumption)+,
        rule in_shape_then [OF in_shapeI [OF stays_one_of st_shaped_one_of]], (rule kept_create_bar shaped_create_bar | assumption)+,
        rule in_shape_then [OF in_shapeI [OF stays_setup_gtp_nodes nodes]], assumption+,
        rule in_shape_then [OF restore], assumption+, rule fin)
qed

lemma send_buffered_keeps:
  assumes "send_buffered ps c = (c', ds)"
  shows "pc_pdr c' = pc_pdr c \<and> pc_sess c' = pc_sess c \<and> pc_object_hash c' = pc_object_hash c"
proof -
  have "pc_pdr (fst (ogs_pfcp_send_buffered_gtpu p c)) = pc_pdr c \<and> pc_sess (fst (ogs_pfcp_send_buffered_gtpu p c)) = pc_sess c \<and>
      pc_object_hash (fst (ogs_pfcp_send_buffered_gtpu p c)) = pc_object_hash c" for p c
    by (auto simp: ogs_pfcp_send_buffered_gtpu_def update_far_def Let_def split: option.split)
  note one = this
  show ?thesis using assms
  proof (induction ps arbitrary: c c' ds)
    case (Cons p ps)
    obtain d es where e: "ogs_pfcp_send_buffered_gtpu p c = (d, es)" by (cases "ogs_pfcp_send_buffered_gtpu p c")
    obtain d' es' where e': "send_buffered ps d = (d', es')" by (cases "send_buffered ps d")
    from Cons.IH [OF e'] one [of p c] Cons.prems show ?case by (simp add: e e')
  qed simp
qed

lemma build_created_entries:
  "runs (build_created ps c) (\<lambda>rs. \<forall>(i, bs) \<in> set rs. \<exists>p \<in> set ps. i = ucast (pdr_id (pc_pdr c p)) \<and>
     pdr_f_teid_len (pc_pdr c p) \<noteq> 0 \<and> bs = take (pdr_f_teid_len (pc_pdr c p)) (f_teid_octets (pdr_f_teid (pc_pdr c p))))"
proof (induction ps)
  case (Cons p ps)
  show ?case unfolding build_created.simps ogs_pfcp_build_created_pdr_def
    by (auto simp: runs_bind_iff runs_if intro!: runs_weaken [OF Cons.IH])
qed simp

text \<open>The final state: the rules of the message are there, lead to a FAR, and their TEIDs to the session.\<close>

definition set_up :: "nat \<Rightarrow> tlv_create_pdr list \<Rightarrow> pfcp_ctx \<Rightarrow> (u16 \<times> bytes) list \<Rightarrow> bool" where
  "set_up n ms c rs \<longleftrightarrow>
     (\<forall>m \<in> set ms. \<exists>p \<in> set (pdrs_of c n). pdr_id (pc_pdr c p) = ucast (the (cp_pdr_id m))) \<and>
     (\<forall>p \<in> set (pdrs_of c n). (\<exists>x \<in> set (fars_of c n). pdr_far (pc_pdr c p) = Some x) \<and>
        (pdr_f_teid_len (pc_pdr c p) = 0 \<or>
         ogs_pfcp_object_find_by_teid (te_teid (pdr_f_teid (pc_pdr c p))) c = Some (Obj_Sess n))) \<and>
     (\<forall>(i, bs) \<in> set rs. \<exists>p \<in> set (pdrs_of c n). i = ucast (pdr_id (pc_pdr c p)) \<and> pdr_f_teid_len (pc_pdr c p) \<noteq> 0 \<and>
        bs = take (pdr_f_teid_len (pc_pdr c p)) (f_teid_octets (pdr_f_teid (pc_pdr c p))))"

lemma conclude_set_up:
  assumes a: "adds_pdrs n ms c (pfcp_of st1) ps" "pdrs_of c n = []" and l: "all_listed n ps (pfcp_of st1) (pfcp_of st)"
  shows "runs (conclude env n (if b then [] else ps) [] st None)
    (\<lambda>(st', ds, resp). \<exists>seid rs. resp = Accepted seid rs \<and> set_up n ms (pfcp_of st') rs)"
proof -
  obtain d es where s: "send_buffered (downlink_pdrs n (pfcp_of st)) (pfcp_of st) = (d, es)"
    by (cases "send_buffered (downlink_pdrs n (pfcp_of st)) (pfcp_of st)")
  note k = send_buffered_keeps [OF s]
  have e: "pdrs_of d n = pdrs_of (pfcp_of st) n" "fars_of d n = fars_of (pfcp_of st) n" using k by (simp_all add: lists_defs)
  have p: "set (pdrs_of d n) = set ps" using a l by (simp add: e all_listed_def adds_pdrs_def)
  have ids: "\<forall>m \<in> set ms. \<exists>p \<in> set (pdrs_of d n). pdr_id (pc_pdr d p) = ucast (the (cp_pdr_id m))"
    using a l k unfolding p by (simp add: all_listed_def adds_pdrs_def)
  have links: "(\<exists>x \<in> set (fars_of d n). pdr_far (pc_pdr d q) = Some x) \<and> (pdr_f_teid_len (pc_pdr d q) = 0 \<or>
      ogs_pfcp_object_find_by_teid (te_teid (pdr_f_teid (pc_pdr d q))) d = Some (Obj_Sess n))" if "q \<in> set (pdrs_of d n)" for q
  proof -
    have q: "q \<in> set (pdrs_of (pfcp_of st) n)" "keyed (pc_pdr (pfcp_of st) q)" using that l p by (simp_all add: e all_listed_def)
    have "\<forall>t. ogs_pfcp_object_find_by_teid t d = ogs_pfcp_object_find_by_teid t (pfcp_of st)" "pc_pdr d = pc_pdr (pfcp_of st)"
      using k by (simp_all add: ogs_pfcp_object_find_by_teid_def)
    moreover have "listing n (pfcp_of st)" using l by (simp add: all_listed_def)
    note this [unfolded listing_def, THEN conjunct2, rule_format, OF q(1)]
    ultimately show ?thesis using q(2) by (simp add: e keyed_def) blast
  qed
  have entries: "set (if b then [] else ps) \<subseteq> set (pdrs_of d n)" by (simp add: p)
  have "set_up n ms d rs" if "build_created (if b then [] else ps) d = Ret rs" for rs
    using runs_D [OF build_created_entries that] entries ids links unfolding set_up_def by blast
  then show ?thesis by (auto simp: conclude_def s intro!: runs_then)
qed

text \<open>
  C1: An accepted establishment of a session that has no objects yet sets it up as the message
  says: each Create PDR entry (of the first 16) has a rule of its identifier in the session, each
  rule of the session refers to a FAR of the session, the TEID of each rule that has an F-TEID
  leads to the session, whether it was received or chosen, and the F-TEIDs in the response are
  those of the rules.
\<close>

theorem accepted_establishment_sets_up:
  assumes "n4_reachable k st" "k < 2 ^ 32" "n \<in> live (ns_ctx st)" "no_objects n (pfcp_of st)"
    and "upf_n4_handle_session_establishment_request env (Some n) req st = Ret (st', ds, Accepted seid rs)"
  shows "set_up n (take OGS_MAX_NUM_OF_PDR (es_create_pdr req)) (pfcp_of st') rs"
proof -
  let ?ms = "take OGS_MAX_NUM_OF_PDR (es_create_pdr req)"
  let ?Q = "\<lambda>(st', ds, resp). \<forall>seid rs. resp = Accepted seid rs \<longrightarrow> set_up n ?ms (pfcp_of st') rs"
  have w: "within n st st" by (rule request_within [OF n4_reachable_ok [OF assms(1,2)] assms(3)])
  have none: "pdrs_of (pfcp_of st) n = []" "fresh n (pfcp_of st)" using assms(4) by (simp_all add: no_objects_def fresh_def)
  have refused: "runs (conclude env n cr [] st1 (Some e)) ?Q" if "within n st st1" for cr st1 e
    by (rule runs_weaken [OF conclude_runs [OF that]]) auto
  have est: "runs (exec_bind (if e = None then establish env n req created st1 else Ret (st1, e)) (\<lambda>(st, e).
      conclude env n (if restoration_indication (es_sereq_flags req) \<or> \<not> pc_ftup (pfcp_of st) then [] else created) [] st e)) ?Q"
    if w1: "within n st st1" and a: "e = None \<longrightarrow> adds_pdrs n ?ms (pfcp_of st) (pfcp_of st1) created" for st1 created e
  proof (cases e)
    case None
    with a have a: "adds_pdrs n ?ms (pfcp_of st) (pfcp_of st1) created" by simp
    then have f: "fresh n (pfcp_of st1)" "set created \<subseteq> set (pdrs_of (pfcp_of st1) n)" by (simp_all add: adds_pdrs_def)
    have run: "runs (establish env n req created st1) (\<lambda>(st2, e). within n st st2 \<and>
        (e = None \<longrightarrow> all_listed n created (pfcp_of st1) (pfcp_of st2)))"
      using establish_lists [OF w1 f, of env req] stays_establish [OF w1, of created env req] own_pdr [OF within_kept [OF w1]] f(2)
      by (fastforce simp: runs_def stays_def)
    have "runs (conclude env n (if b then [] else created) [] st2 e2) ?Q"
      if "within n st st2 \<and> (e2 = None \<longrightarrow> all_listed n created (pfcp_of st1) (pfcp_of st2))" for b st2 e2
      using that refused [of st2] conclude_set_up [OF a none(1), of st2 env b] by (cases e2) (auto simp: runs_def)
    then have "runs (exec_bind (establish env n req created st1) (\<lambda>(st, e).
      conclude env n (if restoration_indication (es_sereq_flags req) \<or> \<not> pc_ftup (pfcp_of st) then [] else created) [] st e)) ?Q"
      by (intro runs_bind [OF run]) (simp only: split_paired_all prod.case)
    then show ?thesis by (simp add: None)
  qed (simp add: refused [OF w1])
  have "runs (create_pdrs env (restoration_indication (es_sereq_flags req)) n (es_create_pdr req) st) (\<lambda>(st1, created, e).
      within n st st1 \<and> (e = None \<longrightarrow> adds_pdrs n ?ms (pfcp_of st) (pfcp_of st1) created))"
    using create_pdrs_adds [OF w none(2)] stays_create_pdrs [OF w] by (fastforce simp: runs_def)
  then have "runs (upf_n4_handle_session_establishment_request env (Some n) req st) ?Q"
    unfolding upf_n4_handle_session_establishment_request_def option.case Let_def
    by (rule runs_bind) (simp only: split_paired_all prod.case, elim conjE, rule est; assumption)
  from runs_D [OF this assms(5)] show ?thesis by simp
qed

theorem accepted_establishment_sets_up_witness:
  "\<exists>c n st'. upf_n4_handle_session_establishment_request sample_n4_env (Some n) sample_establishment (sample_n4_start\<lparr>ns_ctx := c\<rparr>) =
      Ret (st', [], Accepted (se_smf_seid (uc_sess c n)) [(1, [1, 0, 0, 0, 9, 10, 0, 0, 1])]) \<and>
    (\<exists>p \<in> set (pdrs_of (pfcp_of st') n). pdr_id (pc_pdr (pfcp_of st') p) = 1)"
proof -
  obtain c n st where r: "n4_reachable 1 (sample_n4_start\<lparr>ns_ctx := c\<rparr>)" "n \<in> live c" "no_objects n (uc_pfcp c)"
    and e: "upf_n4_handle_session_establishment_request sample_n4_env (Some n) sample_establishment (sample_n4_start\<lparr>ns_ctx := c\<rparr>) =
      Ret (st, [], Accepted (se_smf_seid (uc_sess c n)) [(1, [1, 0, 0, 0, 9, 10, 0, 0, 1])])"
    by (rule sample_request)
  have "set_up n (take OGS_MAX_NUM_OF_PDR (es_create_pdr sample_establishment)) (pfcp_of st) [(1, [1, 0, 0, 0, 9, 10, 0, 0, 1])]"
    using accepted_establishment_sets_up [OF r(1) _ _ _ e] r(2,3) by (simp add: pfcp_of_def)
  then have "\<exists>p \<in> set (pdrs_of (pfcp_of st) n). pdr_id (pc_pdr (pfcp_of st) p) = 1"
    by (simp add: set_up_def sample_establishment_def OGS_MAX_NUM_OF_PDR_def sample_create_pdr_def)
  with e show ?thesis by blast
qed

end
