(* ===== verification/Pfcp_Codec.thy ===== *)
theory Pfcp_Codec
  imports Pfcp_Types
begin

text \<open>
  What the parsers of \<^verbatim>\<open>lib/pfcp/types.c\<close> read back of what its builders write, also when other
  elements follow in the buffer.
\<close>

section \<open>Numbers\<close>

lemma length_be64 [simp]: "length (be64 w) = 8"
  by (simp add: be64_def ogs_uint64_to_buffer_def)

lemma length_uint64_to_buffer [simp]: "length (ogs_uint64_to_buffer w n) = n"
  by (simp add: ogs_uint64_to_buffer_def)

lemma uint64_to_buffer_Suc:
  "ogs_uint64_to_buffer w (Suc n) = ucast (drop_bit (n * 8) w) # ogs_uint64_to_buffer w n"
proof (rule nth_equalityI)
  fix i
  assume "i < length (ogs_uint64_to_buffer w (Suc n))"
  then show "ogs_uint64_to_buffer w (Suc n) ! i = (ucast (drop_bit (n * 8) w) # ogs_uint64_to_buffer w n) ! i"
    by (cases i) (simp_all add: ogs_uint64_to_buffer_def del: upt_Suc)
qed simp

text \<open>The \<open>n\<close> octets of a number hold its low \<open>8 n\<close> bits.\<close>

lemma buffer_to_uint64: "ogs_buffer_to_uint64 (ogs_uint64_to_buffer w n) = take_bit (n * 8) w"
proof (induction n)
  case 0
  then show ?case by (simp add: ogs_uint64_to_buffer_def)
next
  case (Suc n)
  have "push_bit (n * 8) (ucast (ucast (drop_bit (n * 8) w) :: byte)) OR take_bit (n * 8) w = take_bit (Suc n * 8) w"
    by (rule bit_word_eqI) (auto simp: bit_simps)
  then show ?case by (simp add: uint64_to_buffer_Suc Suc.IH)
qed

lemma buffer_be64 [simp]: "ogs_buffer_to_uint64 (be64 w) = w"
  by (simp add: be64_def buffer_to_uint64 take_bit_word_eq_self)

lemma length_present64 [simp]: "length (present64 p w) = (if p then 8 else 0)"
  by (simp add: present64_def)

section \<open>Fields\<close>

lemma fetch_at: "oc_data oc = pre @ bs @ rest \<Longrightarrow> fetch oc (length pre) (length bs) = Ret bs"
  by (simp add: fetch_def)

lemma field_absent: "\<not> present f \<Longrightarrow> field checked present n put oc (Inr (f, sz)) = Ret (Inr (f, sz))"
  by (simp add: field_def)

lemma field_read:
  assumes "oc_data oc = pre @ bs @ rest" "present f" "length bs = n" "checked \<Longrightarrow> length pre + n \<le> oc_len oc"
  shows "field checked present n put oc (Inr (f, length pre)) = Ret (Inr (put bs f, length pre + n))"
  using assms fetch_at [OF assms(1)] by (auto simp: field_def)

section \<open>Volumes, measurements and thresholds\<close>

text \<open>A structure as a parser leaves it: fields that are absent are zero.\<close>

definition read_volume :: "volume \<Rightarrow> volume" where
  "read_volume v = \<lparr>vo_flags = vo_flags v, vo_total = (if vo_present 0 v then vo_total v else 0),
     vo_uplink = (if vo_present 1 v then vo_uplink v else 0), vo_downlink = (if vo_present 2 v then vo_downlink v else 0)\<rparr>"

definition read_measurement :: "volume_measurement \<Rightarrow> volume_measurement" where
  "read_measurement v = \<lparr>vo_flags = vo_flags v, vo_total = (if vo_present 0 v then vo_total v else 0),
     vo_uplink = (if vo_present 1 v then vo_uplink v else 0), vo_downlink = (if vo_present 2 v then vo_downlink v else 0),
     vo_total_n = (if vo_present 3 v then vo_total_n v else 0), vo_uplink_n = (if vo_present 4 v then vo_uplink_n v else 0),
     vo_downlink_n = (if vo_present 5 v then vo_downlink_n v else 0)\<rparr>"

definition read_threshold :: "dl_threshold \<Rightarrow> dl_threshold" where
  "read_threshold t = \<lparr>dt_flags = dt_flags t, dt_packets = (if dt_dlpa t then dt_packets t else 0),
     dt_octets = (if dt_dlby t then dt_octets t else 0)\<rparr>"

lemma volume_back:
  assumes "oc_data oc = bs @ rest" "length bs \<le> oc_len oc" "ogs_pfcp_build_volume v n = Ret bs"
  shows "ogs_pfcp_parse_volume oc = Ret (read_volume v, length bs)"
proof -
  have b: "bs = [vo_flags v] @ present64 (vo_present 0 v) (vo_total v) @ present64 (vo_present 1 v) (vo_uplink v) @
      present64 (vo_present 2 v) (vo_downlink v)"
    using assms(3) by (auto simp: ogs_pfcp_build_volume_def split: if_splits)
  show ?thesis using assms(1,2) unfolding b
    by (cases "bit (vo_flags v) 0"; cases "bit (vo_flags v) 1"; cases "bit (vo_flags v) 2")
      (simp_all add: ogs_pfcp_parse_volume_def field_def fetch_def present64_def vo_present_def read_volume_def zero_volume_def)
qed

lemma measurement_back:
  assumes "oc_data oc = bs @ rest" "ogs_pfcp_build_volume_measurement v n = Ret bs"
  shows "ogs_pfcp_parse_volume_measurement oc = Ret (read_measurement v, length bs)"
proof -
  have b: "bs = [vo_flags v] @ present64 (vo_present 0 v) (vo_total v) @ present64 (vo_present 1 v) (vo_uplink v) @
      present64 (vo_present 2 v) (vo_downlink v) @ present64 (vo_present 3 v) (vo_total_n v) @
      present64 (vo_present 4 v) (vo_uplink_n v) @ present64 (vo_present 5 v) (vo_downlink_n v)"
    using assms(2) by (auto simp: ogs_pfcp_build_volume_measurement_def split: if_splits)
  show ?thesis using assms(1) unfolding b
    by (cases "bit (vo_flags v) 0"; cases "bit (vo_flags v) 1"; cases "bit (vo_flags v) 2"; cases "bit (vo_flags v) 3";
        cases "bit (vo_flags v) 4"; cases "bit (vo_flags v) 5")
      (simp_all add: ogs_pfcp_parse_volume_measurement_def field_def fetch_def present64_def vo_present_def read_measurement_def
        zero_measurement_def)
qed

lemma threshold_back:
  assumes "oc_data oc = bs @ rest" "ogs_pfcp_build_dropped_dl_traffic_threshold t n = Ret bs"
  shows "ogs_pfcp_parse_dropped_dl_traffic_threshold oc = Ret (read_threshold t, length bs)"
proof -
  have b: "bs = [dt_flags t] @ present64 (dt_dlpa t) (dt_packets t) @ present64 (dt_dlby t) (dt_octets t)"
    using assms(2) by (auto simp: ogs_pfcp_build_dropped_dl_traffic_threshold_def split: if_splits)
  show ?thesis using assms(1) unfolding b
    by (cases "bit (dt_flags t) 0"; cases "bit (dt_flags t) 1")
      (simp_all add: ogs_pfcp_parse_dropped_dl_traffic_threshold_def field_def fetch_def present64_def dt_dlpa_def dt_dlby_def
        read_threshold_def zero_dl_threshold_def)
qed

section \<open>Service data flow filters\<close>

text \<open>
  The flow description is a pointer into the message: what counts is its length and the octets
  it has. The traffic class is lost, and of the flow label the last octet.
\<close>

definition read_filter :: "sdf_filter \<Rightarrow> sdf_filter \<Rightarrow> bool" where
  "read_filter f g \<longleftrightarrow> sf_flags g = sf_flags f \<and> sf_spare2 g = sf_spare2 f \<and>
     (sf_fd f \<longrightarrow> sf_description_len g = sf_description_len f \<and>
        take (unat (sf_description_len f)) (sf_description g) = sf_description f) \<and>
     sf_tos_traffic_class g = 0 \<and> (sf_spi f \<longrightarrow> sf_security_parameter_index g = sf_security_parameter_index f) \<and>
     (sf_fl f \<longrightarrow> sf_flow_label g = sf_flow_label f AND NOT (mask 8)) \<and> (sf_bid f \<longrightarrow> sf_sdf_filter_id g = sf_sdf_filter_id f)"

lemma no_bit_byte [simp]: "8 \<le> n \<Longrightarrow> \<not> bit (b :: byte) n"
  using bit_imp_le_length [of b n] by auto

lemma octets_of_be32:
  "ucast (of_be32 a b c d) = d" "ucast (drop_bit 8 (of_be32 a b c d)) = c"
  "ucast (drop_bit 16 (of_be32 a b c d)) = b" "ucast (drop_bit 24 (of_be32 a b c d)) = a"
  by (auto intro!: bit_word_eqI simp: of_be32_def bit_simps)

lemma be32toh_of_be32 [simp]: "be32toh (of_be32 a b c d) = of_be32 d c b a"
  unfolding be32toh_def octets_of_be32 ..

lemma traffic_class_lost: "ucast (be32toh (le_word [a, b])) = (0 :: u16)"
proof -
  have "ucast (of_be32 a b 0 0) = (0 :: u16)" by (rule bit_word_eqI) (simp add: of_be32_def bit_simps)
  then show ?thesis by (simp add: le_word_def rd8_def)
qed

lemma flow_label_cut: "be32toh (le_word (take 3 (be32 w))) = w AND NOT (mask 8)"
proof -
  have "of_be32 (ucast (drop_bit 24 w)) (ucast (drop_bit 16 w)) (ucast (drop_bit 8 w)) 0 = w AND NOT (mask 8)"
  proof (rule bit_word_eqI)
    fix n
    assume n: "n < LENGTH(32)"
    then show "bit (of_be32 (ucast (drop_bit 24 w)) (ucast (drop_bit 16 w)) (ucast (drop_bit 8 w)) 0) n = bit (w AND NOT (mask 8)) n"
      by (cases "n < 8"; cases "n < 16"; cases "n < 24") (auto simp: of_be32_def bit_simps)
  qed
  then show ?thesis by (simp add: le_word_def rd8_def be32_def)
qed

text \<open>One field after the octets \<open>pre\<close>, with what the rest of the parser \<open>k\<close> goes on from.\<close>

lemma field_step:
  assumes "oc_data oc = pre @ (if p then bs else []) @ rest" "present f = p" "length bs = n"
    "length (pre @ (if p then bs else [])) \<le> oc_len oc"
  shows "exec_bind (field True present n put oc (Inr (f, length pre))) k =
    k (Inr (if p then put bs f else f, length (pre @ (if p then bs else []))))"
  using assms by (cases p) (simp_all add: field_def fetch_def)

lemma sdf_filter_back:
  assumes d: "oc_data oc = bs @ rest" and l: "length bs \<le> oc_len oc" and b: "ogs_pfcp_build_sdf_filter f n = Ret bs"
    and fd: "sf_fd f \<Longrightarrow> length (sf_description f) = unat (sf_description_len f)"
  shows "\<exists>g. ogs_pfcp_parse_sdf_filter oc = Ret (g, length bs) \<and> read_filter f g"
proof -
  let ?len = "if sf_fd f then be16 (sf_description_len f) else []" and ?desc = "if sf_fd f then sf_description f else []"
    and ?ttc = "if sf_ttc f then be16 (sf_tos_traffic_class f) else []"
    and ?spi = "if sf_spi f then be32 (sf_security_parameter_index f) else []"
    and ?fl = "if sf_fl f then take 3 (be32 (sf_flow_label f)) else []" and ?bid = "if sf_bid f then be32 (sf_sdf_filter_id f) else []"
  define p1 where "p1 = [sf_flags f, sf_spare2 f]"
  define p2 where "p2 = p1 @ ?len"
  define p3 where "p3 = p2 @ ?desc"
  define p4 where "p4 = p3 @ ?ttc"
  define p5 where "p5 = p4 @ ?spi"
  define p6 where "p6 = p5 @ ?fl"
  have bs: "bs = p6 @ ?bid"
    using b fd by (auto simp: ogs_pfcp_build_sdf_filter_def put_field_def p6_def p5_def p4_def p3_def p2_def p1_def split: if_splits)
  have o: "oc_data oc = p5 @ ?fl @ ?bid @ rest" "oc_data oc = p4 @ ?spi @ ?fl @ ?bid @ rest"
    "oc_data oc = p3 @ ?ttc @ ?spi @ ?fl @ ?bid @ rest" "oc_data oc = p2 @ ?desc @ ?ttc @ ?spi @ ?fl @ ?bid @ rest"
    "oc_data oc = p1 @ ?len @ ?desc @ ?ttc @ ?spi @ ?fl @ ?bid @ rest" "oc_data oc = p6 @ ?bid @ rest"
    unfolding d bs p6_def p5_def p4_def p3_def p2_def by simp_all
  have le: "length p1 \<le> oc_len oc" "length p2 \<le> oc_len oc" "length p4 \<le> oc_len oc" "length p5 \<le> oc_len oc" "length p6 \<le> oc_len oc"
    using l unfolding bs p6_def p5_def p4_def p3_def p2_def by simp_all
  define g1 where "g1 = zero_sdf_filter\<lparr>sf_flags := sf_flags f, sf_spare2 := sf_spare2 f\<rparr>"
  define g2 where "g2 = (if sf_fd f then g1\<lparr>sf_description_len := rd16 (be16 (sf_description_len f)) 0\<rparr> else g1)"
  define g3 where "g3 = (if sf_fd f then g2\<lparr>sf_description := drop (length p2) (oc_data oc)\<rparr> else g2)"
  define g4 where "g4 = (if sf_ttc f then g3\<lparr>sf_tos_traffic_class := ucast (be32toh (le_word (be16 (sf_tos_traffic_class f))))\<rparr> else g3)"
  define g5 where "g5 = (if sf_spi f then g4\<lparr>sf_security_parameter_index := rd32 (be32 (sf_security_parameter_index f)) 0\<rparr> else g4)"
  define g6 where "g6 = (if sf_fl f then g5\<lparr>sf_flow_label := be32toh (le_word (take 3 (be32 (sf_flow_label f))))\<rparr> else g5)"
  define g7 where "g7 = (if sf_bid f then g6\<lparr>sf_sdf_filter_id := rd32 (be32 (sf_sdf_filter_id f)) 0\<rparr> else g6)"
  have fl: "sf_flags g1 = sf_flags f" "sf_flags g2 = sf_flags f" "sf_flags g3 = sf_flags f" "sf_flags g4 = sf_flags f"
    "sf_flags g5 = sf_flags f" "sf_flags g6 = sf_flags f"
    by (simp_all add: g1_def g2_def g3_def g4_def g5_def g6_def)
  have skip: "skip_description oc (Inr (g2, length p2)) = Inr (g3, length p3)"
    using fd rd16_be16_append [of _ "[]"] by (auto simp: skip_description_def sf_fd_def fl g3_def p3_def g2_def)
  have head: "exec_bind (field True (\<lambda>_. True) 1 (\<lambda>bs f. f\<lparr>sf_flags := bs ! 0\<rparr>) oc (Inr (zero_sdf_filter, 0)))
      (\<lambda>st. exec_bind (field True (\<lambda>_. True) 1 (\<lambda>bs f. f\<lparr>sf_spare2 := bs ! 0\<rparr>) oc st) k) = k (Inr (g1, length p1))" for k
    using o(5) le(1) by (simp add: p1_def field_def fetch_def g1_def)
  have s2: "exec_bind (field True sf_fd 2 (\<lambda>bs f. f\<lparr>sf_description_len := rd16 bs 0\<rparr>) oc (Inr (g1, length p1))) k =
      k (Inr (g2, length p2))" for k
    unfolding g2_def p2_def by (rule field_step [OF o(5)]) (use le(2) fl in \<open>simp_all add: sf_fd_def p2_def\<close>)
  have s4: "exec_bind (field True sf_ttc 2 (\<lambda>bs f. f\<lparr>sf_tos_traffic_class := ucast (be32toh (le_word bs))\<rparr>) oc
      (Inr (g3, length p3))) k = k (Inr (g4, length p4))" for k
    unfolding g4_def p4_def by (rule field_step [OF o(3)]) (use le(3) fl in \<open>simp_all add: sf_ttc_def p4_def\<close>)
  have s5: "exec_bind (field True sf_spi 4 (\<lambda>bs f. f\<lparr>sf_security_parameter_index := rd32 bs 0\<rparr>) oc (Inr (g4, length p4))) k =
      k (Inr (g5, length p5))" for k
    unfolding g5_def p5_def by (rule field_step [OF o(2)]) (use le(4) fl in \<open>simp_all add: sf_spi_def p5_def\<close>)
  have s6: "exec_bind (field True sf_fl 3 (\<lambda>bs f. f\<lparr>sf_flow_label := be32toh (le_word bs)\<rparr>) oc (Inr (g5, length p5))) k =
      k (Inr (g6, length p6))" for k
    unfolding g6_def p6_def by (rule field_step [OF o(1)]) (use le(5) fl in \<open>simp_all add: sf_fl_def p6_def\<close>)
  have s7: "exec_bind (field True sf_bid 4 (\<lambda>bs f. f\<lparr>sf_sdf_filter_id := rd32 bs 0\<rparr>) oc (Inr (g6, length p6))) k =
      k (Inr (g7, length bs))" for k
    unfolding g7_def bs by (rule field_step [OF o(6)]) (use l fl in \<open>simp_all add: sf_bid_def bs\<close>)
  have "ogs_pfcp_parse_sdf_filter oc = Ret (g7, length bs)"
    unfolding ogs_pfcp_parse_sdf_filter_def head s2 exec_bind.simps skip s4 s5 s6 s7 by simp
  moreover have "take (length (sf_description f)) (drop (length p2) (oc_data oc)) = sf_description f" if "sf_fd f"
    using that by (simp add: o(4))
  then have "read_filter f g7"
    using fd traffic_class_lost flow_label_cut rd16_be16_append [of _ "[]"] rd32_be32_append [of _ "[]"]
    by (auto simp: read_filter_def g7_def g6_def g5_def g4_def g3_def g2_def g1_def zero_sdf_filter_def be16_def)
  ultimately show ?thesis by blast
qed

section \<open>Bit rates\<close>

text \<open>Rates are rounded up to kilobits; they have 40 bits in the element.\<close>

lemma round_up:
  fixes x :: nat
  defines "y \<equiv> x div 1000 + (if x mod 1000 \<noteq> 0 then 1 else 0)"
  shows "x \<le> y * 1000" "y * 1000 < x + 1000"
proof -
  define q m where "q = x div 1000" and "m = x mod 1000"
  have "x = 1000 * q + m" "m < 1000" by (simp_all add: q_def m_def)
  then show "x \<le> y * 1000" "y * 1000 < x + 1000" unfolding y_def q_def [symmetric] m_def [symmetric] by auto
qed

lemma kilobits_rounds_up:
  assumes "unat r \<le> 1000 * (2 ^ 40 - 1)"
  shows "take_bit 40 (kilobits r) = kilobits r" "unat r \<le> unat (kilobits r * 1000)" "unat (kilobits r * 1000) < unat r + 1000"
proof -
  let ?y = "unat r div 1000 + (if unat r mod 1000 \<noteq> 0 then 1 else 0)"
  have q: "unat (r div 1000) = unat r div 1000" "unat (r mod 1000) = unat r mod 1000"
    by (simp_all add: unat_div unat_mod)
  have z: "r mod 1000 \<noteq> 0 \<longleftrightarrow> unat r mod 1000 \<noteq> 0" using q(2) by (metis unat_0 unat_eq_zero)
  have "unat r div 1000 \<le> 2 ^ 40 - 1" using assms by (simp add: div_le_mono [of "unat r" "1000 * (2 ^ 40 - 1)" 1000, simplified])
  then have k: "unat (kilobits r) = ?y" using q(1) z by (auto simp: kilobits_def unat_word_ariths)
  have "?y * 1000 < unat r + 1000" by (rule round_up(2))
  then have b: "?y < 2 ^ 40" using assms by simp
  then show "take_bit 40 (kilobits r) = kilobits r"
    using k by (simp add: word_unat_eq_iff unsigned_take_bit_eq take_bit_nat_eq_self)
  have m: "unat (kilobits r * 1000) = ?y * 1000" using b k by (simp add: unat_word_ariths)
  show "unat r \<le> unat (kilobits r * 1000)" unfolding m by (rule round_up(1))
  show "unat (kilobits r * 1000) < unat r + 1000" unfolding m by (rule round_up(2))
qed

lemma bitrate_back:
  assumes "oc_data oc = bs @ rest" "oc_len oc = length bs" "ogs_pfcp_build_bitrate r n = Ret bs"
  shows "length bs = OGS_PFCP_BITRATE_LEN" "ogs_pfcp_parse_bitrate old oc =
    Ret (\<lparr>br_uplink = take_bit 40 (kilobits (br_uplink r)) * 1000, br_downlink = take_bit 40 (kilobits (br_downlink r)) * 1000\<rparr>, 10)"
proof -
  have b: "bs = ogs_uint64_to_buffer (kilobits (br_uplink r)) 5 @ ogs_uint64_to_buffer (kilobits (br_downlink r)) 5"
    using assms(3) by (simp add: ogs_pfcp_build_bitrate_def split: if_splits)
  then show "length bs = OGS_PFCP_BITRATE_LEN" by (simp add: OGS_PFCP_BITRATE_LEN_def)
  then show "ogs_pfcp_parse_bitrate old oc =
    Ret (\<lparr>br_uplink = take_bit 40 (kilobits (br_uplink r)) * 1000, br_downlink = take_bit 40 (kilobits (br_downlink r)) * 1000\<rparr>, 10)"
    using assms(1,2) by (simp add: ogs_pfcp_parse_bitrate_def fetch_def b buffer_to_uint64)
qed

section \<open>Domain names\<close>

lemma length_fqdn_labels: "length (fqdn_labels label cs) = Suc (length label + length cs)"
  by (induction label cs rule: fqdn_labels.induct) auto

lemma fqdn_loop_back:
  assumes "oc_data oc = pre @ fqdn_labels label cs @ rest" "n = length pre + length (fqdn_labels label cs)"
    "length dst = length pre" "cs = [] \<or> last cs \<noteq> DOT" "length label + length cs < 256"
  shows "fqdn_parse_loop oc n (length pre) dst = Ret (Some (dst @ label @ cs))"
  using assms
proof (induction label cs arbitrary: pre dst rule: fqdn_labels.induct)
  case (1 label)
  have l: "unat (of_nat (length label) :: byte) = length label" using "1.prems"(5) by (simp add: unat_of_nat)
  have "fqdn_parse_loop oc n (length pre + 1 + length label) x = Ret (Some x)" for x
    using "1.prems"(2) by (subst fqdn_parse_loop.simps) simp
  with "1.prems" l show ?case by (subst fqdn_parse_loop.simps) (simp add: fetch_def)
next
  case (2 label c cs)
  show ?case
  proof (cases "c = DOT")
    case True
    have l: "unat (of_nat (length label) :: byte) = length label" using "2.prems"(5) by (simp add: unat_of_nat)
    have cs: "cs \<noteq> []" using "2.prems"(4) True by auto
    let ?pre = "pre @ of_nat (length label) # label"
    have "fqdn_parse_loop oc n (length ?pre) (dst @ label @ [DOT]) = Ret (Some ((dst @ label @ [DOT]) @ [] @ cs))"
      by (rule "2.IH"(1) [OF True]) (use "2.prems" True cs in auto)
    moreover have "length pre + 1 + length label + 1 < n" using "2.prems"(2) True cs by (cases cs) (simp_all add: length_fqdn_labels)
    ultimately show ?thesis using "2.prems" l True
      by (subst fqdn_parse_loop.simps) (simp add: fetch_def length_fqdn_labels add.assoc)
  next
    case False
    have "fqdn_parse_loop oc n (length pre) dst = Ret (Some (dst @ (label @ [c]) @ cs))"
      by (rule "2.IH"(2) [OF False]) (use "2.prems" False in auto)
    then show ?thesis by simp
  qed
qed

lemma fqdn_back:
  assumes "oc_data oc = ogs_fqdn_build s @ rest" "s = [] \<or> last s \<noteq> DOT" "length s < 256"
  shows "ogs_fqdn_parse oc (length (ogs_fqdn_build s)) = Ret (Some s)"
  using fqdn_loop_back [of oc "[]" "[]" s rest "length (ogs_fqdn_build s)" "[]"] assms
  by (simp add: ogs_fqdn_parse_def ogs_fqdn_build_def)

section \<open>Properties\<close>

text \<open>An element of a message: the octets after its end belong to the next.\<close>

abbreviation element_at :: "bytes \<Rightarrow> bytes \<Rightarrow> octet" where
  "element_at bs rest \<equiv> \<lparr>oc_len = length bs, oc_data = bs @ rest\<rparr>"

lemma element_laws:
  shows "ogs_pfcp_build_volume v n = Ret bs \<Longrightarrow> ogs_pfcp_parse_volume (element_at bs rest) = Ret (read_volume v, length bs)"
    and "ogs_pfcp_build_volume_measurement m n = Ret bs \<Longrightarrow>
      ogs_pfcp_parse_volume_measurement (element_at bs rest) = Ret (read_measurement m, length bs)"
    and "ogs_pfcp_build_dropped_dl_traffic_threshold t n = Ret bs \<Longrightarrow>
      ogs_pfcp_parse_dropped_dl_traffic_threshold (element_at bs rest) = Ret (read_threshold t, length bs)"
    and "ogs_pfcp_build_sdf_filter f n = Ret bs \<Longrightarrow> (sf_fd f \<Longrightarrow> length (sf_description f) = unat (sf_description_len f)) \<Longrightarrow>
      \<exists>g. ogs_pfcp_parse_sdf_filter (element_at bs rest) = Ret (g, length bs) \<and> read_filter f g"
    and "ogs_pfcp_build_bitrate r n = Ret bs \<Longrightarrow> unat (br_uplink r) \<le> 1000 * (2 ^ 40 - 1) \<Longrightarrow>
      unat (br_downlink r) \<le> 1000 * (2 ^ 40 - 1) \<Longrightarrow>
      \<exists>q. ogs_pfcp_parse_bitrate old (element_at bs rest) = Ret (q, length bs) \<and>
        unat (br_uplink r) \<le> unat (br_uplink q) \<and> unat (br_uplink q) < unat (br_uplink r) + 1000 \<and>
        unat (br_downlink r) \<le> unat (br_downlink q) \<and> unat (br_downlink q) < unat (br_downlink r) + 1000"
    and "s = [] \<or> last s \<noteq> DOT \<Longrightarrow> length s < 256 \<Longrightarrow>
      ogs_fqdn_parse (element_at (ogs_fqdn_build s) rest) (length (ogs_fqdn_build s)) = Ret (Some s)"
proof -
  show "ogs_pfcp_build_volume v n = Ret bs \<Longrightarrow> ogs_pfcp_parse_volume (element_at bs rest) = Ret (read_volume v, length bs)"
    by (rule volume_back) simp_all
  show "ogs_pfcp_build_volume_measurement m n = Ret bs \<Longrightarrow>
      ogs_pfcp_parse_volume_measurement (element_at bs rest) = Ret (read_measurement m, length bs)"
    by (rule measurement_back) simp_all
  show "ogs_pfcp_build_dropped_dl_traffic_threshold t n = Ret bs \<Longrightarrow>
      ogs_pfcp_parse_dropped_dl_traffic_threshold (element_at bs rest) = Ret (read_threshold t, length bs)"
    by (rule threshold_back) simp_all
  show "ogs_pfcp_build_sdf_filter f n = Ret bs \<Longrightarrow> (sf_fd f \<Longrightarrow> length (sf_description f) = unat (sf_description_len f)) \<Longrightarrow>
      \<exists>g. ogs_pfcp_parse_sdf_filter (element_at bs rest) = Ret (g, length bs) \<and> read_filter f g"
    by (rule sdf_filter_back) simp_all
  show "ogs_fqdn_parse (element_at (ogs_fqdn_build s) rest) (length (ogs_fqdn_build s)) = Ret (Some s)"
    if "s = [] \<or> last s \<noteq> DOT" "length s < 256"
    by (rule fqdn_back) (use that in simp_all)
  assume b: "ogs_pfcp_build_bitrate r n = Ret bs" and u: "unat (br_uplink r) \<le> 1000 * (2 ^ 40 - 1)"
    and d: "unat (br_downlink r) \<le> 1000 * (2 ^ 40 - 1)"
  from bitrate_back [of "element_at bs rest", OF _ _ b] kilobits_rounds_up [OF u] kilobits_rounds_up [OF d]
  show "\<exists>q. ogs_pfcp_parse_bitrate old (element_at bs rest) = Ret (q, length bs) \<and>
        unat (br_uplink r) \<le> unat (br_uplink q) \<and> unat (br_uplink q) < unat (br_uplink r) + 1000 \<and>
        unat (br_downlink r) \<le> unat (br_downlink q) \<and> unat (br_downlink q) < unat (br_downlink r) + 1000"
    by (simp add: OGS_PFCP_BITRATE_LEN_def)
qed

text \<open>
  C32: Elements are read back as they were built, whatever follows them in the message: volumes,
  measurements and packet thresholds in all fields their flags announce; rates rounded up to
  kilobits (not below, and by less than a kilobit, as long as they fit 40 bits); domain names of
  less than 256 octets that do not end with a dot; and of a filter everything but the traffic class,
  which is read as 0, and the last octet of the flow label. A parser also says exactly how many
  octets the builder wrote.
\<close>

theorem elements_read_back:
  "(ogs_pfcp_build_volume v n = Ret bs \<longrightarrow> ogs_pfcp_parse_volume (element_at bs rest) = Ret (read_volume v, length bs)) \<and>
    (ogs_pfcp_build_volume_measurement m n = Ret bs \<longrightarrow>
      ogs_pfcp_parse_volume_measurement (element_at bs rest) = Ret (read_measurement m, length bs)) \<and>
    (ogs_pfcp_build_dropped_dl_traffic_threshold t n = Ret bs \<longrightarrow>
      ogs_pfcp_parse_dropped_dl_traffic_threshold (element_at bs rest) = Ret (read_threshold t, length bs)) \<and>
    (ogs_pfcp_build_sdf_filter f n = Ret bs \<longrightarrow> (sf_fd f \<longrightarrow> length (sf_description f) = unat (sf_description_len f)) \<longrightarrow>
      (\<exists>g. ogs_pfcp_parse_sdf_filter (element_at bs rest) = Ret (g, length bs) \<and> read_filter f g)) \<and>
    (ogs_pfcp_build_bitrate r n = Ret bs \<longrightarrow> unat (br_uplink r) \<le> 1000 * (2 ^ 40 - 1) \<longrightarrow>
      unat (br_downlink r) \<le> 1000 * (2 ^ 40 - 1) \<longrightarrow>
      (\<exists>q. ogs_pfcp_parse_bitrate old (element_at bs rest) = Ret (q, length bs) \<and>
        unat (br_uplink r) \<le> unat (br_uplink q) \<and> unat (br_uplink q) < unat (br_uplink r) + 1000 \<and>
        unat (br_downlink r) \<le> unat (br_downlink q) \<and> unat (br_downlink q) < unat (br_downlink r) + 1000)) \<and>
    (s = [] \<or> last s \<noteq> DOT \<longrightarrow> length s < 256 \<longrightarrow>
      ogs_fqdn_parse (element_at (ogs_fqdn_build s) rest) (length (ogs_fqdn_build s)) = Ret (Some s))"
  by (intro conjI impI) (rule element_laws; assumption | blast intro: element_laws)+

definition sample_rates :: bitrate where
  "sample_rates = \<lparr>br_uplink = 1500, br_downlink = 2000001\<rparr>"

theorem elements_read_back_witness:
  "\<exists>bs q. ogs_pfcp_build_bitrate sample_rates 10 = Ret bs \<and>
     ogs_pfcp_parse_bitrate sample_rates (element_at bs [7, 7]) = Ret (q, length bs) \<and> 1500 \<le> unat (br_uplink q)"
proof -
  obtain bs where b: "ogs_pfcp_build_bitrate sample_rates 10 = Ret bs"
    by (simp add: ogs_pfcp_build_bitrate_def OGS_PFCP_BITRATE_LEN_def)
  show ?thesis using elements_read_back [where v = zero_volume and m = zero_measurement and t = zero_dl_threshold and
      f = zero_sdf_filter and s = "[]" and r = sample_rates and n = 10 and bs = bs and old = sample_rates and rest = "[7, 7]"] b by (auto simp: sample_rates_def)
qed

end
