(* ===== verification/Pfcp_Report.thy ===== *)
theory Pfcp_Report
  imports Pfcp_Codec Pfcp_Forward Upf_Urr
begin

text \<open>
  The messages that carry usage: the session report request and the session deletion response of
  \<^verbatim>\<open>lib/pfcp/build.c\<close>. Elements of a fixed size are values of the message; the volume measurements
  are pointers into a static buffer, which the encoder reads when all of them are in place.
\<close>

section \<open>Elements\<close>

text \<open>The two records of the development for \<^verbatim>\<open>ogs_pfcp_volume_measurement_t\<close>.\<close>

definition measured :: "Upf_Urr.volume_measurement \<Rightarrow> Pfcp_Types.volume_measurement" where
  "measured v = \<lparr>vo_flags = vm_flags v, vo_total = vm_total_volume v, vo_uplink = vm_uplink_volume v,
     vo_downlink = vm_downlink_volume v, vo_total_n = vm_total_n_packets v, vo_uplink_n = vm_uplink_n_packets v,
     vo_downlink_n = vm_downlink_n_packets v\<rparr>"

definition flag_at :: "nat \<Rightarrow> bool \<Rightarrow> u8" where
  "flag_at i b = (if b then push_bit i 1 else 0)"

definition reptri_5 :: "usage_report_trigger \<Rightarrow> u8" where
  "reptri_5 t = flag_at 1 (tr_volume_threshold t) OR flag_at 2 (tr_time_threshold t)"

definition reptri_6 :: "usage_report_trigger \<Rightarrow> u8" where
  "reptri_6 t = flag_at 0 (tr_volume_quota t) OR flag_at 1 (tr_time_quota t) OR flag_at 3 (tr_termination_report t)"

definition reptri_7 :: "usage_report_trigger \<Rightarrow> u8" where
  "reptri_7 t = flag_at 3 (tr_quota_validity_time t)"

definition trigger_u24 :: "usage_report_trigger \<Rightarrow> u32" where
  "trigger_u24 t = push_bit 16 (ucast (reptri_5 t)) OR push_bit 8 (ucast (reptri_6 t)) OR ucast (reptri_7 t)"

text \<open>
  The usage report element. The volume measurement is the length of what it points to; that is
  always the start of \<^verbatim>\<open>usage_report_buf\<close>.
\<close>

record tlv_usage_report =
  tu_urr_id :: u32
  tu_ur_seqn :: u32
  tu_usage_report_trigger :: u32
  tu_start_time :: "u32 option"
  tu_end_time :: "u32 option"
  tu_volume_measurement :: "nat option"
  tu_duration_measurement :: "u32 option"
  tu_time_of_first_packet :: "u32 option"
  tu_time_of_last_packet :: "u32 option"

definition if_set :: "u32 \<Rightarrow> u32 option" where
  "if_set w = (if w \<noteq> 0 then Some w else None)"

definition usage_element :: "bool \<Rightarrow> usage_report \<Rightarrow> nat option \<Rightarrow> tlv_usage_report" where
  "usage_element deletion r v =
     \<lparr>tu_urr_id = of_nat (ur_id r), tu_ur_seqn = ur_seqn r, tu_usage_report_trigger = trigger_u24 (ur_trigger r),
      tu_start_time = if_set (ur_start_time r), tu_end_time = if_set (ur_end_time r), tu_volume_measurement = v,
      tu_duration_measurement = (if deletion then Some (ur_dur r) else if_set (ur_dur r)),
      tu_time_of_first_packet = if_set (ur_time_of_first_packet r),
      tu_time_of_last_packet = if_set (ur_time_of_last_packet r)\<rparr>"

text \<open>The size of the static buffer, and the number of usage reports that a message has room for.\<close>

definition usage_report_buf_size :: nat where "usage_report_buf_size = 49"

definition usage_report_room :: nat where "usage_report_room = 8"

text \<open>A write to an entry that the message does not have is undefined: \<open>Abort\<close>.\<close>

fun fill_usage_reports ::
  "bool \<Rightarrow> usage_report list \<Rightarrow> tlv_usage_report list \<Rightarrow> bytes \<Rightarrow> (tlv_usage_report list \<times> bytes) exec" where
  "fill_usage_reports deletion [] us buf = Ret (us, buf)"
| "fill_usage_reports deletion (r # rs) us buf =
     (if length us \<ge> usage_report_room then Abort
      else if vm_flags (ur_vol r) \<noteq> 0
      then exec_bind (ogs_pfcp_build_volume_measurement (measured (ur_vol r)) usage_report_buf_size) (\<lambda>bs.
        fill_usage_reports deletion rs (us @ [usage_element deletion r (Some (length bs))]) (bs @ drop (length bs) buf))
      else fill_usage_reports deletion rs (us @ [usage_element deletion r None]) buf)"

text \<open>What the encoder makes of the elements: the octets of a measurement are read now.\<close>

definition encoded :: "bytes \<Rightarrow> tlv_usage_report list \<Rightarrow> (tlv_usage_report \<times> bytes option) list" where
  "encoded buf us = map (\<lambda>u. (u, map_option (\<lambda>n. take n buf) (tu_volume_measurement u))) us"

definition add_usage_reports ::
  "bool \<Rightarrow> 'a user_plane_report_scheme \<Rightarrow> bytes \<Rightarrow> ((tlv_usage_report \<times> bytes option) list \<times> bytes) exec" where
  "add_usage_reports deletion rep buf =
     (if \<not> rp_type_usage_report rep then Ret ([], buf)
      else if rp_num_of_usage_report rep = 0 \<or> length (rp_usage_report rep) < rp_num_of_usage_report rep then Abort
      else exec_bind (fill_usage_reports deletion (take (rp_num_of_usage_report rep) (rp_usage_report rep)) [] buf)
        (\<lambda>(us, buf). Ret (encoded buf us, buf)))"

section \<open>Messages\<close>

text \<open>The whole report of the user plane: with the downlink data and the error indication.\<close>

record session_report = user_plane_report +
  rp_downlink_data :: "(u8 \<times> u8 \<times> u8) option"
  rp_error_indication :: "error_indication_report option"

definition report_type :: "session_report \<Rightarrow> u8" where
  "report_type rep = flag_at 0 (rp_downlink_data rep \<noteq> None) OR flag_at 1 (rp_type_usage_report rep) OR
     flag_at 2 (rp_error_indication rep \<noteq> None)"

text \<open>
  The downlink data service information: a flag octet, then a union of the two values or both. The
  code assigns both values to the first octet of the union.
\<close>

definition service_information :: "u8 \<Rightarrow> u8 \<Rightarrow> bytes option" where
  "service_information qfi ppi =
     (if qfi \<noteq> 0 \<and> ppi \<noteq> 0 then Some (take 3 [flag_at 1 True OR flag_at 0 True, ppi, 0])
      else if qfi \<noteq> 0 then Some (take 2 [flag_at 1 True, qfi, 0])
      else if ppi \<noteq> 0 then Some (take 2 [flag_at 0 True, ppi, 0]) else None)"

definition remote_f_teid :: "error_indication_report \<Rightarrow> bytes" where
  "remote_f_teid r = (flag_at 0 (ei_ipv4 r) OR flag_at 1 (ei_ipv6 r)) # be32 (ei_teid r) @ ei_addr r"

record session_report_request =
  rq_report_type :: u8
  rq_downlink_data_report :: "(u16 \<times> bytes option) option"
  rq_usage_report :: "(tlv_usage_report \<times> bytes option) list"
  rq_error_indication_report :: "bytes option"

definition ogs_pfcp_build_session_report_request ::
  "session_report \<Rightarrow> bytes \<Rightarrow> (session_report_request \<times> bytes) exec" where
  "ogs_pfcp_build_session_report_request rep buf =
     exec_bind (add_usage_reports False rep buf) (\<lambda>(us, buf).
       Ret (\<lparr>rq_report_type = report_type rep,
             rq_downlink_data_report = map_option (\<lambda>(pdr, ppi, qfi). (ucast pdr, service_information qfi ppi)) (rp_downlink_data rep),
             rq_usage_report = us,
             rq_error_indication_report = map_option remote_f_teid (rp_error_indication rep)\<rparr>, buf))"

record session_deletion_response =
  rs_cause :: u8
  rs_usage_report :: "(tlv_usage_report \<times> bytes option) list"

definition ogs_pfcp_build_session_deletion_response ::
  "u8 \<Rightarrow> 'a user_plane_report_scheme \<Rightarrow> bytes \<Rightarrow> (session_deletion_response \<times> bytes) exec" where
  "ogs_pfcp_build_session_deletion_response cause rep buf =
     exec_bind (add_usage_reports True rep buf) (\<lambda>(us, buf). Ret (\<lparr>rs_cause = cause, rs_usage_report = us\<rparr>, buf))"

text \<open>\<^verbatim>\<open>upf_n4_build_session_deletion_response\<close>.\<close>

definition upf_n4_build_session_deletion_response ::
  "int \<Rightarrow> urr_acc list \<Rightarrow> ogs_pfcp_urr list \<Rightarrow> bytes \<Rightarrow> (urr_acc list \<times> session_deletion_response \<times> bytes) exec" where
  "upf_n4_build_session_deletion_response now accs us buf =
     exec_bind (deletion_report now accs us) (\<lambda>(accs, rep).
     exec_bind (ogs_pfcp_build_session_deletion_response OGS_PFCP_CAUSE_REQUEST_ACCEPTED rep buf) (\<lambda>(rsp, buf). Ret (accs, rsp, buf)))"

section \<open>The shared buffer\<close>

text \<open>A full measurement, as the accounting makes them: all six values.\<close>

definition measurement_octets :: "Upf_Urr.volume_measurement \<Rightarrow> bytes" where
  "measurement_octets v = [0x3f] @ be64 (vm_total_volume v) @ be64 (vm_uplink_volume v) @ be64 (vm_downlink_volume v) @
     be64 (vm_total_n_packets v) @ be64 (vm_uplink_n_packets v) @ be64 (vm_downlink_n_packets v)"

lemma length_measurement_octets [simp]: "length (measurement_octets v) = 49"
  by (simp add: measurement_octets_def)

lemma build_full:
  "vm_flags v = 0x3f \<Longrightarrow>
     ogs_pfcp_build_volume_measurement (measured v) usage_report_buf_size = Ret (measurement_octets v)"
  by (simp add: ogs_pfcp_build_volume_measurement_def measured_def measurement_octets_def usage_report_buf_size_def
      vo_present_def present64_def bit_simps)

lemma full_back:
  assumes "vm_flags v = 0x3f" "oc_data oc = measurement_octets v @ rest"
  shows "ogs_pfcp_parse_volume_measurement oc = Ret (measured v, 49)"
proof -
  have "read_measurement (measured v) = measured v"
    using assms(1) by (simp add: read_measurement_def measured_def vo_present_def bit_simps)
  then show ?thesis using measurement_back [OF assms(2) build_full [OF assms(1)]] by simp
qed

text \<open>Each measurement replaces the one before it; only the last is there when the message is encoded.\<close>

lemma fill_overwrites:
  assumes "\<forall>r \<in> set rs. vm_flags (ur_vol r) = 0x3f" "length us + length rs \<le> usage_report_room" "rs \<noteq> []"
  shows "fill_usage_reports d rs us buf =
    Ret (us @ map (\<lambda>r. usage_element d r (Some 49)) rs, measurement_octets (ur_vol (last rs)) @ drop 49 buf)"
  using assms
proof (induction rs arbitrary: us buf)
  case (Cons r rs)
  then show ?case by (cases "rs = []") (simp_all add: build_full)
qed simp

lemma fill_too_many:
  assumes "\<forall>r \<in> set rs. vm_flags (ur_vol r) = 0x3f" "usage_report_room < length us + length rs" "length us \<le> usage_report_room"
  shows "fill_usage_reports d rs us buf = Abort"
  using assms
proof (induction rs arbitrary: us buf)
  case (Cons r rs)
  then show ?case by (auto simp: build_full not_le)
qed simp

lemma deletion_entries_full:
  assumes "deletion_entries now accs us rep n = Ret (accs', rep', m)"
  shows "rp_type_usage_report rep' = (rp_type_usage_report rep \<or> us \<noteq> []) \<and>
    length (rp_usage_report rep') = length (rp_usage_report rep) \<and> m = n + length us \<and>
    (\<forall>i < n. rp_usage_report rep' ! i = rp_usage_report rep ! i) \<and>
    (\<forall>i < length us. vm_flags (ur_vol (rp_usage_report rep' ! (n + i))) = 0x3f)"
  using assms
proof (induction us arbitrary: accs rep n)
  case (Cons u us)
  define e where "e = fill_entry now u (acc_of accs u) (rp_usage_report rep ! n)"
  define rep1 where "rep1 = rep\<lparr>rp_type_usage_report := True, rp_usage_report :=
      (rp_usage_report rep)[n := e\<lparr>ur_trigger := (ur_trigger e)\<lparr>tr_termination_report := True\<rparr>\<rparr>]\<rparr>"
  have n: "n < length (rp_usage_report rep)" using Cons.prems by (simp split: if_splits)
  obtain accs1 where r: "deletion_entries now accs1 us rep1 (n + 1) = Ret (accs', rep', m)"
    using Cons.prems n
    by (auto simp: upf_sess_urr_acc_fill_usage_report_def Let_def rep1_def e_def split: if_splits)
  have e: "vm_flags (ur_vol (rp_usage_report rep1 ! n)) = 0x3f"
    using n by (simp add: rep1_def e_def fill_entry_def Let_def volume_since_def)
  note IH = Cons.IH [OF r]
  have "vm_flags (ur_vol (rp_usage_report rep' ! (n + i))) = 0x3f" if "i < length (u # us)" for i
    using that IH e by (cases i) auto
  moreover have "rp_usage_report rep' ! i = rp_usage_report rep ! i" if "i < n" for i
    using that IH by (simp add: rep1_def)
  ultimately show ?case using IH by (auto simp: rep1_def)
qed simp

text \<open>
  C5: In the response to a deletion every usage report says the volume of the last URR of the session,
  whatever the traffic of its own URR was, because all measurements are written to one static
  buffer that is read when the message is encoded. The identifiers and sequence numbers are those
  of the URRs. With more than eight URRs (a session may have sixteen) the response is written past the
  end of its array.
\<close>

theorem deletion_volumes_overwritten:
  assumes "\<forall>u \<in> set us. urr_id_ok u" "distinct (map urr_id us)" "accs_ok accs" "us \<noteq> []"
  shows "if length us \<le> 8
    then \<exists>accs' rsp buf'. upf_n4_build_session_deletion_response now accs us buf = Ret (accs', rsp, buf') \<and>
      length (rs_usage_report rsp) = length us \<and>
      (\<forall>i < length us. \<exists>u bs m. rs_usage_report rsp ! i = (u, Some bs) \<and>
         tu_urr_id u = of_nat (urr_id (us ! i)) \<and> tu_ur_seqn u = report_seqn (acc_of accs (us ! i)) \<and>
         ogs_pfcp_parse_volume_measurement \<lparr>oc_len = length bs, oc_data = bs\<rparr> = Ret (m, 49) \<and>
         vo_total m = unreported (acc_of accs (last us)))
    else upf_n4_build_session_deletion_response now accs us buf = Abort"
proof -
  have "urr_id ` set us \<subseteq> {1..OGS_MAX_NUM_OF_URR}" using assms(1) by (auto simp: urr_id_ok_def)
  from card_mono [OF _ this] have len: "length us \<le> OGS_MAX_NUM_OF_URR"
    using distinct_card [OF assms(2)] by simp
  then have "0 + length us \<le> length (rp_usage_report zero_report)" by (simp add: zero_report_def)
  from deletion_entries_ok [OF assms(1-3) this, of now] obtain accs' rep where
    r: "deletion_entries now accs us zero_report 0 = Ret (accs', rep, length us)"
    and e: "\<And>i. i < length us \<Longrightarrow> let e = rp_usage_report rep ! i; a = acc_of accs (us ! i) in
       ur_id e = urr_id (us ! i) \<and> ur_seqn e = report_seqn a \<and> vm_total_volume (ur_vol e) = unreported a"
    by (force simp: Let_def)
  define rs where "rs = take (length us) (rp_usage_report rep)"
  note full = deletion_entries_full [OF r]
  have rs: "length rs = length us" "rs \<noteq> []" "\<forall>x \<in> set rs. vm_flags (ur_vol x) = 0x3f"
    using full assms(4) len by (auto simp: rs_def zero_report_def set_conv_nth)
  have nth: "rs ! i = rp_usage_report rep ! i" if "i < length us" for i using that by (simp add: rs_def)
  have last: "vm_total_volume (ur_vol (last rs)) = unreported (acc_of accs (last us))"
    using rs(1,2) assms(4) nth e [of "length us - 1"] by (simp add: last_conv_nth Let_def)
  have build: "upf_n4_build_session_deletion_response now accs us buf =
    exec_bind (fill_usage_reports True rs [] buf) (\<lambda>(us, buf).
      Ret (accs', \<lparr>rs_cause = OGS_PFCP_CAUSE_REQUEST_ACCEPTED, rs_usage_report = encoded buf us\<rparr>, buf))"
    using r full assms(4) len
    by (simp add: upf_n4_build_session_deletion_response_def deletion_report_def add_usage_reports_def
        ogs_pfcp_build_session_deletion_response_def rs_def zero_report_def)
      (cases "fill_usage_reports True (take (length us) (rp_usage_report rep)) [] buf"; auto)
  show ?thesis
  proof (cases "length us \<le> 8")
    case True
    then have fill: "fill_usage_reports True rs [] buf = Ret (map (\<lambda>r. usage_element True r (Some 49)) rs,
        measurement_octets (ur_vol (last rs)) @ drop 49 buf)"
      using fill_overwrites [OF rs(3), of "[]"] rs(1,2) by (simp add: usage_report_room_def)
    have "ogs_pfcp_parse_volume_measurement \<lparr>oc_len = 49, oc_data = measurement_octets (ur_vol (last rs))\<rparr> =
        Ret (measured (ur_vol (last rs)), 49)"
      by (rule full_back [where rest = "[]"]) (use rs in simp_all)
    then show ?thesis using True e nth last rs(1)
      by (simp add: build fill encoded_def usage_element_def Let_def measured_def)
  next
    case False
    then show ?thesis using fill_too_many [OF rs(3), of "[]"] rs(1) by (simp add: build usage_report_room_def)
  qed
qed

text \<open>Two URRs with different traffic: 1000 octets and 7.\<close>

definition counted_acc :: "u64 \<Rightarrow> urr_acc" where
  "counted_acc n = (zero_accs ! 0)\<lparr>acc_now := \<lparr>total_octets = n, ul_octets = n, dl_octets = 0, total_pkts = 1, ul_pkts = 1, dl_pkts = 0\<rparr>\<rparr>"

definition sample_accs :: "urr_acc list" where
  "sample_accs = zero_accs[2 := counted_acc 1000, 3 := counted_acc 7]"

theorem deletion_volumes_overwritten_witness:
  "unreported (acc_of sample_accs sample_urr) = 1000 \<and>
   (\<exists>accs' rsp buf' u bs m. upf_n4_build_session_deletion_response 9 sample_accs [sample_urr, sample_urr\<lparr>urr_id := 4\<rparr>] [] = Ret (accs', rsp, buf') \<and>
     rs_usage_report rsp ! 0 = (u, Some bs) \<and> tu_urr_id u = 3 \<and>
     ogs_pfcp_parse_volume_measurement \<lparr>oc_len = length bs, oc_data = bs\<rparr> = Ret (m, 49) \<and> vo_total m = 7)"
proof -
  let ?us = "[sample_urr, sample_urr\<lparr>urr_id := 4\<rparr>]"
  have ok: "\<forall>u \<in> set ?us. urr_id_ok u" "distinct (map urr_id ?us)"
    using sample_ok(1) by (simp_all add: urr_id_ok_def sample_urr_def OGS_MAX_NUM_OF_URR_def)
  have "acc_ok (counted_acc n)" for n
    using zero_accs_ok by (simp add: accs_ok_def acc_ok_def counted_acc_def balanced_def zero_accs_def OGS_MAX_NUM_OF_URR_def)
  moreover have "set (xs[i := x, j := y]) \<subseteq> insert x (insert y (set xs))" for xs :: "urr_acc list" and i j x y
    by (auto dest!: subsetD [OF set_update_subset_insert])
  ultimately have accs: "accs_ok sample_accs"
    using zero_accs_ok unfolding accs_ok_def sample_accs_def by (metis (no_types, lifting) insert_iff length_list_update subsetD)
  have vol: "unreported (acc_of sample_accs sample_urr) = 1000" "unreported (acc_of sample_accs (sample_urr\<lparr>urr_id := 4\<rparr>)) = 7"
    by (simp_all add: unreported_def acc_of_def sample_accs_def counted_acc_def sample_urr_def zero_accs_def zero_counters_def
        OGS_MAX_NUM_OF_URR_def nth_list_update)
  from deletion_volumes_overwritten [OF ok accs, of 9 "[]"] obtain accs' rsp buf' where
    r: "upf_n4_build_session_deletion_response 9 sample_accs ?us [] = Ret (accs', rsp, buf')"
    and e: "\<forall>i < length ?us. \<exists>u bs m. rs_usage_report rsp ! i = (u, Some bs) \<and> tu_urr_id u = of_nat (urr_id (?us ! i)) \<and>
       tu_ur_seqn u = report_seqn (acc_of sample_accs (?us ! i)) \<and>
       ogs_pfcp_parse_volume_measurement \<lparr>oc_len = length bs, oc_data = bs\<rparr> = Ret (m, 49) \<and>
       vo_total m = unreported (acc_of sample_accs (last ?us))"
    by auto
  have "0 < length ?us" by simp
  from e [rule_format, OF this] r vol show ?thesis by (auto simp: sample_urr_def)
qed

text \<open>A message with one usage report carries its volume: the reports that a packet triggers.\<close>

lemma report_request_volume:
  assumes "rp_type_usage_report rep" "rp_num_of_usage_report rep = 1" "rp_usage_report rep = r # rs" "vm_flags (ur_vol r) = 0x3f"
  shows "\<exists>q buf' bs. ogs_pfcp_build_session_report_request rep buf = Ret (q, buf') \<and>
    rq_usage_report q = [(usage_element False r (Some 49), Some bs)] \<and>
    ogs_pfcp_parse_volume_measurement \<lparr>oc_len = length bs, oc_data = bs\<rparr> = Ret (measured (ur_vol r), 49)"
  using assms full_back [of "ur_vol r" "\<lparr>oc_len = 49, oc_data = measurement_octets (ur_vol r)\<rparr>" "[]"]
  by (simp add: ogs_pfcp_build_session_report_request_def add_usage_reports_def build_full usage_report_room_def encoded_def
      usage_element_def)

end
