(* ===== verification/Pfcp_Xact.thy ===== *)
theory Pfcp_Xact
  imports Ogs_List Pfcp_Codec Upf_Sessions
begin

text \<open>
  The transactions of \<^verbatim>\<open>lib/pfcp/xact.c\<close>: a request and its response under one sequence number,
  retransmitted until the response is there, or held so that a repeated request gets the same
  response. A transaction is named by its node of the pool. It is in one of two lists of its
  peer, which are kept in their links, and has three timers of the timer manager of the process.
\<close>

section \<open>Messages\<close>

definition OGS_PFCP_HEARTBEAT_REQUEST_TYPE :: u8 where "OGS_PFCP_HEARTBEAT_REQUEST_TYPE = 1"
definition OGS_PFCP_HEARTBEAT_RESPONSE_TYPE :: u8 where "OGS_PFCP_HEARTBEAT_RESPONSE_TYPE = 2"
definition OGS_PFCP_ASSOCIATION_SETUP_REQUEST_TYPE :: u8 where "OGS_PFCP_ASSOCIATION_SETUP_REQUEST_TYPE = 5"
definition OGS_PFCP_ASSOCIATION_SETUP_RESPONSE_TYPE :: u8 where "OGS_PFCP_ASSOCIATION_SETUP_RESPONSE_TYPE = 6"
definition OGS_PFCP_VERSION_NOT_SUPPORTED_RESPONSE_TYPE :: u8 where "OGS_PFCP_VERSION_NOT_SUPPORTED_RESPONSE_TYPE = 11"
definition OGS_PFCP_SESSION_ESTABLISHMENT_REQUEST_TYPE :: u8 where "OGS_PFCP_SESSION_ESTABLISHMENT_REQUEST_TYPE = 50"
definition OGS_PFCP_SESSION_ESTABLISHMENT_RESPONSE_TYPE :: u8 where "OGS_PFCP_SESSION_ESTABLISHMENT_RESPONSE_TYPE = 51"
definition OGS_PFCP_SESSION_MODIFICATION_REQUEST_TYPE :: u8 where "OGS_PFCP_SESSION_MODIFICATION_REQUEST_TYPE = 52"
definition OGS_PFCP_SESSION_MODIFICATION_RESPONSE_TYPE :: u8 where "OGS_PFCP_SESSION_MODIFICATION_RESPONSE_TYPE = 53"
definition OGS_PFCP_SESSION_DELETION_REQUEST_TYPE :: u8 where "OGS_PFCP_SESSION_DELETION_REQUEST_TYPE = 54"
definition OGS_PFCP_SESSION_DELETION_RESPONSE_TYPE :: u8 where "OGS_PFCP_SESSION_DELETION_RESPONSE_TYPE = 55"
definition OGS_PFCP_SESSION_REPORT_REQUEST_TYPE :: u8 where "OGS_PFCP_SESSION_REPORT_REQUEST_TYPE = 56"
definition OGS_PFCP_SESSION_REPORT_RESPONSE_TYPE :: u8 where "OGS_PFCP_SESSION_REPORT_RESPONSE_TYPE = 57"

lemmas message_types = OGS_PFCP_HEARTBEAT_REQUEST_TYPE_def OGS_PFCP_HEARTBEAT_RESPONSE_TYPE_def
  OGS_PFCP_ASSOCIATION_SETUP_REQUEST_TYPE_def OGS_PFCP_ASSOCIATION_SETUP_RESPONSE_TYPE_def
  OGS_PFCP_VERSION_NOT_SUPPORTED_RESPONSE_TYPE_def OGS_PFCP_SESSION_ESTABLISHMENT_REQUEST_TYPE_def
  OGS_PFCP_SESSION_ESTABLISHMENT_RESPONSE_TYPE_def OGS_PFCP_SESSION_MODIFICATION_REQUEST_TYPE_def
  OGS_PFCP_SESSION_MODIFICATION_RESPONSE_TYPE_def OGS_PFCP_SESSION_DELETION_REQUEST_TYPE_def
  OGS_PFCP_SESSION_DELETION_RESPONSE_TYPE_def OGS_PFCP_SESSION_REPORT_REQUEST_TYPE_def
  OGS_PFCP_SESSION_REPORT_RESPONSE_TYPE_def

datatype xact_stage = Unknown_stage | Initial_stage | Intermediate_stage | Final_stage

text \<open>The types 7 to 10 are the update and the release of an association.\<close>

definition ogs_pfcp_xact_get_stage :: "u8 \<Rightarrow> xact_stage" where
  "ogs_pfcp_xact_get_stage type =
     (if type \<in> {1, 5, 7, 9, 50, 52, 54, 56} then Initial_stage
      else if type \<in> {2, 6, 8, 10, 11, 51, 53, 55, 57} then Final_stage
      else Unknown_stage)"

text \<open>
  The header: version, S flag, type, length of what follows the first four octets, the SEID in
  messages of sessions, the sequence number in the upper 24 bits of the last word. It is put in
  front of the body.
\<close>

definition OGS_PFCP_HEADER_LEN :: nat where "OGS_PFCP_HEADER_LEN = 16"
definition OGS_PFCP_SEID_LEN :: nat where "OGS_PFCP_SEID_LEN = 8"
definition OGS_PFCP_VERSION :: u8 where "OGS_PFCP_VERSION = 1"

definition ogs_pfcp_header :: "u8 \<Rightarrow> u64 \<Rightarrow> u32 \<Rightarrow> bytes \<Rightarrow> bytes" where
  "ogs_pfcp_header type seid xid body =
     (if type \<ge> OGS_PFCP_SESSION_ESTABLISHMENT_REQUEST_TYPE
      then [push_bit 5 OGS_PFCP_VERSION OR 1, type] @ be16 (of_nat (OGS_PFCP_HEADER_LEN + length body - 4)) @ be64 seid @
        be32 (push_bit 8 xid) @ body
      else [push_bit 5 OGS_PFCP_VERSION, type] @ be16 (of_nat (OGS_PFCP_HEADER_LEN - OGS_PFCP_SEID_LEN + length body - 4)) @
        be32 (push_bit 8 xid) @ body)"

record pfcp_header =
  ph_seid_presence :: bool
  ph_type :: u8
  ph_seid :: u64
  ph_xid :: u32

text \<open>
  The header part of \<^verbatim>\<open>ogs_pfcp_parse_msg\<close>, with the number of octets it takes. Without the S flag
  the SEID of the structure is not read by anyone.
\<close>

definition ogs_pfcp_parse_header :: "bytes \<Rightarrow> (pfcp_header \<times> nat) option" where
  "ogs_pfcp_parse_header d =
     (let s = bit (rd8 d 0) 0; size = (if s then OGS_PFCP_HEADER_LEN else OGS_PFCP_HEADER_LEN - OGS_PFCP_SEID_LEN)
      in if length d < size then None
         else Some (\<lparr>ph_seid_presence = s, ph_type = rd8 d 1,
                     ph_seid = (if s then ogs_buffer_to_uint64 (take 8 (drop 4 d)) else 0),
                     ph_xid = drop_bit 8 (rd32 d (size - 4))\<rparr>, size))"

text \<open>What \<^verbatim>\<open>ogs_pfcp_recvfrom\<close> does with a datagram.\<close>

datatype received = Received bytes | Dropped | Answered bytes

definition MIN_PFCP_HEADER_LENGTH :: nat where "MIN_PFCP_HEADER_LENGTH = 12"

definition ogs_pfcp_recvfrom :: "bytes \<Rightarrow> received" where
  "ogs_pfcp_recvfrom d =
     (if length d < MIN_PFCP_HEADER_LENGTH then Dropped
      else if drop_bit 5 (rd8 d 0) \<noteq> OGS_PFCP_VERSION
      then Answered ([push_bit 5 OGS_PFCP_VERSION, OGS_PFCP_VERSION_NOT_SUPPORTED_RESPONSE_TYPE] @ be16 4 @ take 4 (drop 4 d))
      else if length d \<noteq> unat (rd16 d 2) + 4 then Dropped else Received d)"

section \<open>State\<close>

datatype xact_org = Local_originator | Remote_originator

datatype xact_timer = Response_timer | Holding_timer | Delayed_commit_timer

text \<open>The callbacks of the timer manager: those of transactions have the identifier as their data.\<close>

datatype 'c timer_call = Xact_call xact_timer u32 | Other_call 'c

record 'd pfcp_xact =
  x_id :: u32
  x_org :: xact_org
  x_xid :: u32
  x_node :: nat
  x_cb :: "'d option"
  x_step :: nat
  x_seq :: "(u8 \<times> bytes option) list"
  x_timer :: "xact_timer \<Rightarrow> nat option"
  x_response_rcount :: u8
  x_holding_rcount :: u8

definition zero_xact :: "'d pfcp_xact" where
  "zero_xact = \<lparr>x_id = 0, x_org = Local_originator, x_xid = 0, x_node = 0, x_cb = None, x_step = 0,
     x_seq = replicate 3 (0, None), x_timer = (\<lambda>_. None), x_response_rcount = 0, x_holding_rcount = 0\<rparr>"

record xact_conf =
  n1_response_rcount :: u8
  t1_response_duration :: int
  n1_holding_rcount :: u8
  t1_holding_duration :: int

record ('c, 'd) xact_state =
  xs_pool :: ogs_pool
  xs_xact :: "nat \<Rightarrow> 'd pfcp_xact"
  xs_links :: links
  xs_local :: "nat \<Rightarrow> ogs_lnode"
  xs_remote :: "nat \<Rightarrow> ogs_lnode"
  xs_g_xact_id :: u32
  xs_timers :: "'c timer_call timer_mgr"

text \<open>What a transaction does to the world: datagrams to a peer, and the callback when it is given up.\<close>

datatype 'd xact_out = Sent nat bytes | Given_up u8 'd

definition update_xact :: "nat \<Rightarrow> ('d pfcp_xact \<Rightarrow> 'd pfcp_xact) \<Rightarrow> ('c, 'd) xact_state \<Rightarrow> ('c, 'd) xact_state" where
  "update_xact n f st = st\<lparr>xs_xact := (xs_xact st)(n := f (xs_xact st n))\<rparr>"

definition xact_list :: "xact_org \<Rightarrow> nat \<Rightarrow> ('c, 'd) xact_state \<Rightarrow> ogs_list" where
  "xact_list r d st = ((case r of Local_originator \<Rightarrow> xs_local st d | Remote_originator \<Rightarrow> xs_remote st d), xs_links st)"

definition put_list :: "xact_org \<Rightarrow> nat \<Rightarrow> ogs_list \<Rightarrow> ('c, 'd) xact_state \<Rightarrow> ('c, 'd) xact_state" where
  "put_list r d l st = (case r of
     Local_originator \<Rightarrow> st\<lparr>xs_links := snd l, xs_local := (xs_local st)(d := fst l)\<rparr>
   | Remote_originator \<Rightarrow> st\<lparr>xs_links := snd l, xs_remote := (xs_remote st)(d := fst l)\<rparr>)"

section \<open>Creation and deletion\<close>

definition PFCP_MIN_XACT_ID :: u32 where "PFCP_MIN_XACT_ID = 1"
definition PFCP_MAX_XACT_ID :: u32 where "PFCP_MAX_XACT_ID = 0x800000"

definition next_xid :: "u32 \<Rightarrow> u32" where
  "next_xid i = (if i = PFCP_MAX_XACT_ID then PFCP_MIN_XACT_ID else i + 1)"

definition ogs_pfcp_xact_init :: "nat \<Rightarrow> u32 \<Rightarrow> 'c timer_call timer_mgr \<Rightarrow> ('c, 'd) xact_state" where
  "ogs_pfcp_xact_init capacity seed m =
     \<lparr>xs_pool = ogs_pool_init capacity seed, xs_xact = (\<lambda>_. zero_xact), xs_links = (\<lambda>_. null_links),
      xs_local = (\<lambda>_. null_links), xs_remote = (\<lambda>_. null_links), xs_g_xact_id = 0, xs_timers = m\<rparr>"

fun delete_timers :: "nat option list \<Rightarrow> 'c timer_mgr \<Rightarrow> 'c timer_mgr exec" where
  "delete_timers [] m = Ret m"
| "delete_timers (None # ts) m = delete_timers ts m"
| "delete_timers (Some t # ts) m = exec_bind (ogs_timer_delete m t) (\<lambda>m. delete_timers ts m)"

definition ogs_pfcp_xact_delete :: "nat \<Rightarrow> ('c, 'd) xact_state \<Rightarrow> ('c, 'd) xact_state exec" where
  "ogs_pfcp_xact_delete n st =
     (let x = xs_xact st n in
      exec_bind (delete_timers (map (x_timer x) [Response_timer, Holding_timer, Delayed_commit_timer]) (xs_timers st)) (\<lambda>m.
        let st = put_list (x_org x) (x_node x) (ogs_list_remove n (xact_list (x_org x) (x_node x) st)) (st\<lparr>xs_timers := m\<rparr>)
        in exec_bind (ogs_pool_id_free (xs_pool st) n (x_id x)) (\<lambda>p. Ret (st\<lparr>xs_pool := p\<rparr>))))"

text \<open>One of the three timers of a new transaction; without it the transaction is deleted again.\<close>

definition add_xact_timer ::
  "xact_timer \<Rightarrow> nat \<Rightarrow> (('c, 'd) xact_state \<Rightarrow> (('c, 'd) xact_state \<times> nat option) exec) \<Rightarrow>
     ('c, 'd) xact_state \<Rightarrow> (('c, 'd) xact_state \<times> nat option) exec" where
  "add_xact_timer k n rest st =
     (case ogs_timer_add (xs_timers st) (Xact_call k (x_id (xs_xact st n))) of
        (m, None) \<Rightarrow> exec_bind (ogs_pfcp_xact_delete n (st\<lparr>xs_timers := m\<rparr>)) (\<lambda>st. Ret (st, None))
      | (m, Some t) \<Rightarrow> rest (update_xact n (\<lambda>x. x\<lparr>x_timer := (x_timer x)(k := Some t)\<rparr>) (st\<lparr>xs_timers := m\<rparr>)))"

definition add_timers ::
  "xact_conf \<Rightarrow> nat \<Rightarrow> ('c, 'd) xact_state \<Rightarrow> (('c, 'd) xact_state \<times> nat option) exec" where
  "add_timers conf n st =
     add_xact_timer Response_timer n (\<lambda>st.
     add_xact_timer Holding_timer n (\<lambda>st.
     add_xact_timer Delayed_commit_timer n (\<lambda>st.
       let x = xs_xact st n
       in Ret (put_list (x_org x) (x_node x) (ogs_list_add n (xact_list (x_org x) (x_node x) st)) st, Some n))
       (update_xact n (\<lambda>x. x\<lparr>x_holding_rcount := n1_holding_rcount conf\<rparr>) st))
       (update_xact n (\<lambda>x. x\<lparr>x_response_rcount := n1_response_rcount conf\<rparr>) st)) st"

definition alloc_xact :: "'d pfcp_xact \<Rightarrow> ('c, 'd) xact_state \<Rightarrow> ('c, 'd) xact_state \<times> nat option" where
  "alloc_xact x st =
     (case ogs_pool_id_calloc (xs_pool st) of
        (p, None) \<Rightarrow> (st\<lparr>xs_pool := p\<rparr>, None)
      | (p, Some (n, i)) \<Rightarrow>
          (st\<lparr>xs_pool := p, xs_xact := (xs_xact st)(n := x\<lparr>x_id := i\<rparr>), xs_links := (xs_links st)(n := null_links)\<rparr>, Some n))"

definition ogs_pfcp_xact_local_create ::
  "xact_conf \<Rightarrow> nat \<Rightarrow> 'd option \<Rightarrow> ('c, 'd) xact_state \<Rightarrow> (('c, 'd) xact_state \<times> nat option) exec" where
  "ogs_pfcp_xact_local_create conf d cb st =
     (case alloc_xact (zero_xact\<lparr>x_node := d, x_cb := cb\<rparr>) st of
        (st, None) \<Rightarrow> Ret (st, None)
      | (st, Some n) \<Rightarrow>
          let i = next_xid (xs_g_xact_id st)
          in add_timers conf n (update_xact n (\<lambda>x. x\<lparr>x_xid := i\<rparr>) (st\<lparr>xs_g_xact_id := i\<rparr>)))"

definition ogs_pfcp_xact_remote_create ::
  "xact_conf \<Rightarrow> nat \<Rightarrow> u32 \<Rightarrow> ('c, 'd) xact_state \<Rightarrow> (('c, 'd) xact_state \<times> nat option) exec" where
  "ogs_pfcp_xact_remote_create conf d xid st =
     (case alloc_xact (zero_xact\<lparr>x_org := Remote_originator, x_xid := xid, x_node := d\<rparr>) st of
        (st, None) \<Rightarrow> Ret (st, None)
      | (st, Some n) \<Rightarrow> add_timers conf n st)"

definition ogs_pfcp_xact_find_by_id :: "u32 \<Rightarrow> ('c, 'd) xact_state \<Rightarrow> nat option" where
  "ogs_pfcp_xact_find_by_id i st = ogs_pool_find_by_id (xs_pool st) i"

text \<open>All transactions of a peer: the next node is read before a node is deleted.\<close>

partial_function (option) delete_list ::
  "nat option \<Rightarrow> ('c, 'd) xact_state \<Rightarrow> ('c, 'd) xact_state exec option" where
  "delete_list c st =
     (case c of None \<Rightarrow> Some (Ret st)
      | Some n \<Rightarrow> (case ogs_pfcp_xact_delete n st of
          Abort \<Rightarrow> Some Abort | Ret st' \<Rightarrow> delete_list (ln_next (xs_links st n)) st'))"

definition ogs_pfcp_xact_delete_all :: "nat \<Rightarrow> ('c, 'd) xact_state \<Rightarrow> ('c, 'd) xact_state exec option" where
  "ogs_pfcp_xact_delete_all d st =
     (case delete_list (ln_next (xs_local st d)) st of
        Some (Ret st) \<Rightarrow> delete_list (ln_next (xs_remote st d)) st | r \<Rightarrow> r)"

section \<open>Sending and receiving\<close>

definition seq_type :: "nat \<Rightarrow> 'd pfcp_xact \<Rightarrow> u8" where "seq_type i x = fst (x_seq x ! i)"

definition seq_pkbuf :: "nat \<Rightarrow> 'd pfcp_xact \<Rightarrow> bytes option" where "seq_pkbuf i x = snd (x_seq x ! i)"

text \<open>Start or stop of a timer of a transaction, if it has it.\<close>

definition start_xact_timer ::
  "int \<Rightarrow> xact_timer \<Rightarrow> int \<Rightarrow> nat \<Rightarrow> ('c, 'd) xact_state \<Rightarrow> ('c, 'd) xact_state exec" where
  "start_xact_timer now k duration n st =
     (case x_timer (xs_xact st n) k of None \<Rightarrow> Ret st
      | Some t \<Rightarrow> exec_bind (ogs_timer_start now (xs_timers st) t duration) (\<lambda>m. Ret (st\<lparr>xs_timers := m\<rparr>)))"

definition stop_xact_timer :: "xact_timer \<Rightarrow> nat \<Rightarrow> ('c, 'd) xact_state \<Rightarrow> ('c, 'd) xact_state exec" where
  "stop_xact_timer k n st =
     (case x_timer (xs_xact st n) k of None \<Rightarrow> Ret st
      | Some t \<Rightarrow> exec_bind (ogs_timer_stop (xs_timers st) t) (\<lambda>m. Ret (st\<lparr>xs_timers := m\<rparr>)))"

text \<open>The step at which a message of a stage may be sent: \<open>None\<close> is the assertion that ends the process.\<close>

definition tx_step_ok :: "xact_org \<Rightarrow> xact_stage \<Rightarrow> nat \<Rightarrow> bool option" where
  "tx_step_ok r stage step =
     (case (r, stage) of
        (Local_originator, Initial_stage) \<Rightarrow> Some (step = 0)
      | (Local_originator, Intermediate_stage) \<Rightarrow> Some False
      | (Local_originator, Final_stage) \<Rightarrow> Some (step = 2)
      | (Local_originator, Unknown_stage) \<Rightarrow> None
      | (Remote_originator, Intermediate_stage) \<Rightarrow> Some (step = 1)
      | (Remote_originator, Final_stage) \<Rightarrow> Some (step = 1)
      | (Remote_originator, _) \<Rightarrow> Some False)"

text \<open>The headroom of a built message holds the header (\<^verbatim>\<open>OGS_TLV_MAX_HEADROOM\<close>).\<close>

definition ogs_pfcp_xact_update_tx ::
  "nat \<Rightarrow> u8 \<Rightarrow> u64 \<Rightarrow> bytes \<Rightarrow> ('c, 'd) xact_state \<Rightarrow> (('c, 'd) xact_state \<times> bool) exec" where
  "ogs_pfcp_xact_update_tx n type seid body st =
     (let x = xs_xact st n in
      case tx_step_ok (x_org x) (ogs_pfcp_xact_get_stage type) (x_step x) of
        None \<Rightarrow> Abort
      | Some False \<Rightarrow> Ret (st, False)
      | Some True \<Rightarrow>
          Ret (update_xact n (\<lambda>x. x\<lparr>x_seq := (x_seq x)[x_step x := (type, Some (ogs_pfcp_header type seid (x_xid x) body))],
                 x_step := x_step x + 1\<rparr>) st, True))"

datatype rx_result = Rx_error | Rx_retry | Rx_ok

text \<open>
  A message of the type that was received before: the answer is sent again if there is one. \<open>i\<close> is
  its place in the sequence.
\<close>

definition duplicated ::
  "xact_conf \<Rightarrow> int \<Rightarrow> nat \<Rightarrow> nat \<Rightarrow> ('c, 'd) xact_state \<Rightarrow> (('c, 'd) xact_state \<times> 'd xact_out list \<times> rx_result) exec" where
  "duplicated conf now n i st =
     (case seq_pkbuf i (xs_xact st n) of
        None \<Rightarrow> Ret (st, [], Rx_retry)
      | Some b \<Rightarrow> exec_bind (start_xact_timer now Holding_timer (t1_holding_duration conf) n st)
          (\<lambda>st. Ret (st, [Sent (x_node (xs_xact st n)) b], Rx_retry)))"

definition record_rx ::
  "nat \<Rightarrow> u8 \<Rightarrow> ('c, 'd) xact_state \<Rightarrow> (('c, 'd) xact_state \<times> 'd xact_out list \<times> rx_result) exec" where
  "record_rx n type st =
     exec_bind (stop_xact_timer Response_timer n st) (\<lambda>st.
       Ret (update_xact n (\<lambda>x. x\<lparr>x_seq := (x_seq x)[x_step x := (type, seq_pkbuf (x_step x) x)], x_step := x_step x + 1\<rparr>) st,
            [], Rx_ok))"

text \<open>The duplicate of an intermediate message at a wrong step frees a null pointer.\<close>

definition ogs_pfcp_xact_update_rx ::
  "xact_conf \<Rightarrow> int \<Rightarrow> nat \<Rightarrow> u8 \<Rightarrow> ('c, 'd) xact_state \<Rightarrow>
     (('c, 'd) xact_state \<times> 'd xact_out list \<times> rx_result) exec" where
  "ogs_pfcp_xact_update_rx conf now n type st =
     (let x = xs_xact st n; hold = start_xact_timer now Holding_timer (t1_holding_duration conf) n in
      case (x_org x, ogs_pfcp_xact_get_stage type) of
        (Local_originator, Intermediate_stage) \<Rightarrow>
          if seq_type 1 x = type
          then if x_step x \<noteq> 2 \<and> x_step x \<noteq> 3 then Abort else duplicated conf now n 2 st
          else if x_step x \<noteq> 1 then Ret (st, [], Rx_error)
          else exec_bind (hold st) (record_rx n type)
      | (Local_originator, Final_stage) \<Rightarrow>
          if x_step x \<noteq> 1 then Ret (st, [], Rx_error) else record_rx n type st
      | (Remote_originator, Initial_stage) \<Rightarrow>
          if seq_type 0 x = type
          then if x_step x \<noteq> 1 \<and> x_step x \<noteq> 2 then Ret (st, [], Rx_error) else duplicated conf now n 1 st
          else if x_step x \<noteq> 0 then Ret (st, [], Rx_error)
          else exec_bind (hold st) (record_rx n type)
      | (Remote_originator, Final_stage) \<Rightarrow>
          if x_step x \<noteq> 2 then Ret (st, [], Rx_error) else record_rx n type st
      | _ \<Rightarrow> Ret (st, [], Rx_error))"

text \<open>
  What a commit does: delete the transaction because of a wrong step, delete it because it is
  finished, or send the message of the last step, after the response timer was started or not.
\<close>

datatype commit_action = Commit_error | Commit_done | Commit_send bool

definition commit_action :: "xact_org \<Rightarrow> xact_stage \<Rightarrow> nat \<Rightarrow> commit_action" where
  "commit_action r stage step =
     (case (r, stage) of
        (Local_originator, Initial_stage) \<Rightarrow> if step \<noteq> 1 then Commit_error else Commit_send True
      | (Local_originator, Final_stage) \<Rightarrow>
          if step \<noteq> 2 \<and> step \<noteq> 3 then Commit_error else if step = 2 then Commit_done else Commit_send False
      | (Remote_originator, Intermediate_stage) \<Rightarrow> if step \<noteq> 2 then Commit_error else Commit_send True
      | (Remote_originator, Final_stage) \<Rightarrow>
          if step \<noteq> 2 \<and> step \<noteq> 3 then Commit_error else if step = 3 then Commit_done else Commit_send False
      | _ \<Rightarrow> Commit_error)"

definition send_last :: "nat \<Rightarrow> ('c, 'd) xact_state \<Rightarrow> 'd xact_out list exec" where
  "send_last n st =
     (let x = xs_xact st n
      in if x_step x = 0 \<or> x_step x > 3 then Abort
         else case seq_pkbuf (x_step x - 1) x of None \<Rightarrow> Abort | Some b \<Rightarrow> Ret [Sent (x_node x) b])"

definition ogs_pfcp_xact_commit ::
  "xact_conf \<Rightarrow> int \<Rightarrow> nat \<Rightarrow> ('c, 'd) xact_state \<Rightarrow> (('c, 'd) xact_state \<times> 'd xact_out list \<times> bool) exec" where
  "ogs_pfcp_xact_commit conf now n st =
     (let x = xs_xact st n in
      if x_step x = 0 \<or> x_step x > 3 then Abort
      else case commit_action (x_org x) (ogs_pfcp_xact_get_stage (seq_type (x_step x - 1) x)) (x_step x) of
        Commit_error \<Rightarrow> exec_bind (ogs_pfcp_xact_delete n st) (\<lambda>st. Ret (st, [], False))
      | Commit_done \<Rightarrow> exec_bind (ogs_pfcp_xact_delete n st) (\<lambda>st. Ret (st, [], True))
      | Commit_send wait \<Rightarrow>
          exec_bind (if wait then start_xact_timer now Response_timer (t1_response_duration conf) n st else Ret st) (\<lambda>st.
          exec_bind (send_last n st) (\<lambda>os. Ret (st, os, True))))"

definition ogs_pfcp_xact_delayed_commit ::
  "int \<Rightarrow> nat \<Rightarrow> int \<Rightarrow> ('c, 'd) xact_state \<Rightarrow> ('c, 'd) xact_state exec" where
  "ogs_pfcp_xact_delayed_commit now n duration st =
     (if duration = 0 \<or> x_timer (xs_xact st n) Delayed_commit_timer = None then Abort
      else start_xact_timer now Delayed_commit_timer duration n st)"

section \<open>Timeouts\<close>

definition response_timeout ::
  "xact_conf \<Rightarrow> int \<Rightarrow> u32 \<Rightarrow> ('c, 'd) xact_state \<Rightarrow> (('c, 'd) xact_state \<times> 'd xact_out list) exec" where
  "response_timeout conf now i st =
     (case ogs_pfcp_xact_find_by_id i st of
        None \<Rightarrow> Ret (st, [])
      | Some n \<Rightarrow>
          (let c = x_response_rcount (xs_xact st n) - 1; st = update_xact n (\<lambda>x. x\<lparr>x_response_rcount := c\<rparr>) st in
           if c > 0
           then exec_bind (start_xact_timer now Response_timer (t1_response_duration conf) n st) (\<lambda>st.
             exec_bind (send_last n st) (\<lambda>os. Ret (st, os)))
           else exec_bind (ogs_pfcp_xact_delete n st) (\<lambda>st'.
             Ret (st', case x_cb (xs_xact st n) of None \<Rightarrow> [] | Some d \<Rightarrow> [Given_up (seq_type 0 (xs_xact st n)) d]))))"

definition holding_timeout ::
  "xact_conf \<Rightarrow> int \<Rightarrow> u32 \<Rightarrow> ('c, 'd) xact_state \<Rightarrow> (('c, 'd) xact_state \<times> 'd xact_out list) exec" where
  "holding_timeout conf now i st =
     (case ogs_pfcp_xact_find_by_id i st of
        None \<Rightarrow> Ret (st, [])
      | Some n \<Rightarrow>
          (let c = x_holding_rcount (xs_xact st n) - 1; st = update_xact n (\<lambda>x. x\<lparr>x_holding_rcount := c\<rparr>) st in
           exec_bind (if c > 0 then start_xact_timer now Holding_timer (t1_holding_duration conf) n st
                      else ogs_pfcp_xact_delete n st) (\<lambda>st. Ret (st, []))))"

definition delayed_commit_timeout ::
  "xact_conf \<Rightarrow> int \<Rightarrow> u32 \<Rightarrow> ('c, 'd) xact_state \<Rightarrow> (('c, 'd) xact_state \<times> 'd xact_out list) exec" where
  "delayed_commit_timeout conf now i st =
     (case ogs_pfcp_xact_find_by_id i st of
        None \<Rightarrow> Ret (st, [])
      | Some n \<Rightarrow> exec_bind (ogs_pfcp_xact_commit conf now n st) (\<lambda>(st, os, _). Ret (st, os)))"

fun xact_timeout ::
  "xact_conf \<Rightarrow> int \<Rightarrow> xact_timer \<Rightarrow> u32 \<Rightarrow> ('c, 'd) xact_state \<Rightarrow> (('c, 'd) xact_state \<times> 'd xact_out list) exec" where
  "xact_timeout conf now Response_timer i = response_timeout conf now i"
| "xact_timeout conf now Holding_timer i = holding_timeout conf now i"
| "xact_timeout conf now Delayed_commit_timer i = delayed_commit_timeout conf now i"

section \<open>Arrival of a message\<close>

text \<open>
  \<^verbatim>\<open>ogs_pfcp_xact_receive\<close>. A walk over a list that does not end is an \<open>Abort\<close> too; that lists of
  reachable states have an end is part of the invariant.
\<close>

definition xact_lookup :: "xact_org \<Rightarrow> nat \<Rightarrow> u32 \<Rightarrow> ('c, 'd) xact_state \<Rightarrow> nat option option" where
  "xact_lookup r d xid st =
     list_find (\<lambda>n. x_xid (xs_xact st n) = xid) (xs_links st) (ln_next (fst (xact_list r d st)))"

definition receive_on ::
  "xact_conf \<Rightarrow> int \<Rightarrow> nat \<Rightarrow> u8 \<Rightarrow> ('c, 'd) xact_state \<Rightarrow>
     (('c, 'd) xact_state \<times> 'd xact_out list \<times> rx_result \<times> nat option) exec" where
  "receive_on conf now n type st =
     exec_bind (ogs_pfcp_xact_update_rx conf now n type st) (\<lambda>(st, os, rv).
       case rv of
         Rx_error \<Rightarrow> exec_bind (ogs_pfcp_xact_delete n st) (\<lambda>st. Ret (st, os, Rx_error, None))
       | Rx_retry \<Rightarrow> Ret (st, os, Rx_retry, None)
       | Rx_ok \<Rightarrow> Ret (st, os, Rx_ok, Some n))"

definition ogs_pfcp_xact_receive ::
  "xact_conf \<Rightarrow> int \<Rightarrow> nat \<Rightarrow> u8 \<Rightarrow> u32 \<Rightarrow> ('c, 'd) xact_state \<Rightarrow>
     (('c, 'd) xact_state \<times> 'd xact_out list \<times> rx_result \<times> nat option) exec" where
  "ogs_pfcp_xact_receive conf now d type xid st =
     (let stage = ogs_pfcp_xact_get_stage type in
      if stage = Unknown_stage then Ret (st, [], Rx_error, None)
      else case xact_lookup (if stage = Initial_stage then Remote_originator else Local_originator) d xid st of
        None \<Rightarrow> Abort
      | Some (Some n) \<Rightarrow> receive_on conf now n type st
      | Some None \<Rightarrow>
          exec_bind (ogs_pfcp_xact_remote_create conf d xid st) (\<lambda>(st, new).
            case new of None \<Rightarrow> Abort | Some n \<Rightarrow> receive_on conf now n type st))"

section \<open>Requests and responses\<close>

text \<open>
  How the senders of \<^verbatim>\<open>lib/pfcp/path.c\<close> and \<^verbatim>\<open>src/upf/pfcp-path.c\<close> use a transaction. A message
  that could not be built is \<open>None\<close>. On a failure a request leaves its transaction behind.
\<close>

definition send_request ::
  "xact_conf \<Rightarrow> int \<Rightarrow> nat \<Rightarrow> 'd option \<Rightarrow> u8 \<Rightarrow> u64 \<Rightarrow> bytes option \<Rightarrow> ('c, 'd) xact_state \<Rightarrow>
     (('c, 'd) xact_state \<times> 'd xact_out list \<times> bool) exec" where
  "send_request conf now d cb type seid body st =
     exec_bind (ogs_pfcp_xact_local_create conf d cb st) (\<lambda>(st, new).
       case (new, body) of
         (Some n, Some b) \<Rightarrow> exec_bind (ogs_pfcp_xact_update_tx n type seid b st) (\<lambda>(st, ok).
           if ok then ogs_pfcp_xact_commit conf now n st else Ret (st, [], False))
       | _ \<Rightarrow> Ret (st, [], False))"

definition send_response ::
  "xact_conf \<Rightarrow> int \<Rightarrow> nat \<Rightarrow> u8 \<Rightarrow> u64 \<Rightarrow> bytes option \<Rightarrow> ('c, 'd) xact_state \<Rightarrow>
     (('c, 'd) xact_state \<times> 'd xact_out list \<times> bool) exec" where
  "send_response conf now n type seid body st =
     (case body of None \<Rightarrow> Ret (st, [], False)
      | Some b \<Rightarrow> exec_bind (ogs_pfcp_xact_update_tx n type seid b st) (\<lambda>(st, ok).
          if ok then ogs_pfcp_xact_commit conf now n st else Ret (st, [], False)))"

text \<open>The response to a heartbeat deletes its transaction at once.\<close>

definition ogs_pfcp_send_heartbeat_response ::
  "xact_conf \<Rightarrow> int \<Rightarrow> nat \<Rightarrow> bytes option \<Rightarrow> ('c, 'd) xact_state \<Rightarrow>
     (('c, 'd) xact_state \<times> 'd xact_out list \<times> bool) exec" where
  "ogs_pfcp_send_heartbeat_response conf now n body st =
     (case body of None \<Rightarrow> Ret (st, [], False)
      | Some b \<Rightarrow> exec_bind (ogs_pfcp_xact_update_tx n OGS_PFCP_HEARTBEAT_RESPONSE_TYPE 0 b st) (\<lambda>(st, ok).
          if \<not> ok then Ret (st, [], False)
          else exec_bind (ogs_pfcp_xact_commit conf now n st) (\<lambda>(st, os, rv).
            exec_bind (ogs_pfcp_xact_delete n st) (\<lambda>st. Ret (st, os, rv)))))"

end
