(* ===== verification/Xact_Invariant.thy ===== *)
theory Xact_Invariant
  imports Pfcp_Xact
begin

text \<open>
  The invariant of the transactions: which are open, in which list each of them is, that their
  identifiers and timers are their own, and what each operation of \<open>Pfcp_Xact\<close> does to that.
\<close>

section \<open>Invariant\<close>

definition open_xacts :: "('c, 'd) xact_state \<Rightarrow> nat set" where
  "open_xacts st = allocated (xs_pool st)"

definition members :: "('c, 'd) xact_state \<Rightarrow> xact_org \<Rightarrow> nat \<Rightarrow> nat set" where
  "members st r d = {n \<in> open_xacts st. x_org (xs_xact st n) = r \<and> x_node (xs_xact st n) = d}"

text \<open>The two lists of every peer hold the sets \<open>M\<close>.\<close>

definition lists_as :: "('c, 'd) xact_state \<Rightarrow> (xact_org \<Rightarrow> nat \<Rightarrow> nat set) \<Rightarrow> bool" where
  "lists_as st M \<longleftrightarrow> (\<forall>r d. \<exists>ns. list_at (xact_list r d st) ns \<and> set ns = M r d)"

definition ids_ok :: "('c, 'd) xact_state \<Rightarrow> bool" where
  "ids_ok st \<longleftrightarrow> pool_ok (xs_pool st) \<and> hash_ok (pool_id_hash (xs_pool st)) \<and> pool_id (xs_pool st) \<le> OGS_MAX_POOL_ID \<and>
     (\<forall>i n. ogs_pfcp_xact_find_by_id i st = Some n \<longleftrightarrow> n \<in> open_xacts st \<and> x_id (xs_xact st n) = i) \<and>
     (\<forall>n \<in> open_xacts st. 1 \<le> x_id (xs_xact st n) \<and> x_id (xs_xact st n) \<le> OGS_MAX_POOL_ID)"

text \<open>A timer of a transaction: allocated, with the callback of its kind and the identifier as data.\<close>

definition owns_timer :: "('c, 'd) xact_state \<Rightarrow> nat \<Rightarrow> xact_timer \<Rightarrow> nat \<Rightarrow> bool" where
  "owns_timer st n k t \<longleftrightarrow> x_timer (xs_xact st n) k = Some t \<and> t \<in> allocated (tm_pool (xs_timers st)) \<and>
     tmr_cb (tm_timers (xs_timers st) t) = Some (Xact_call k (x_id (xs_xact st n)))"

definition tms_ok :: "('c, 'd) xact_state \<Rightarrow> bool" where
  "tms_ok st \<longleftrightarrow> timers_ok (xs_timers st) \<and> (\<forall>n \<in> open_xacts st. \<forall>k. \<exists>t. owns_timer st n k t)"

definition base_ok :: "('c, 'd) xact_state \<Rightarrow> bool" where
  "base_ok st \<longleftrightarrow> lists_as st (members st) \<and> ids_ok st \<and> tms_ok st"

text \<open>When a timer of a transaction will expire.\<close>

definition alarm_of :: "('c, 'd) xact_state \<Rightarrow> nat \<Rightarrow> xact_timer \<Rightarrow> int option" where
  "alarm_of st n k = Option.bind (x_timer (xs_xact st n) k) (armed (xs_timers st))"

lemma base_okD:
  assumes "base_ok st"
  shows "lists_as st (members st)" "ids_ok st" "tms_ok st" "timers_ok (xs_timers st)"
    "n \<in> open_xacts st \<Longrightarrow> \<exists>t. owns_timer st n k t" "pool_ok (xs_pool st)"
    "hash_ok (pool_id_hash (xs_pool st))" "pool_id (xs_pool st) \<le> OGS_MAX_POOL_ID"
    "ogs_pfcp_xact_find_by_id i st = Some m \<longleftrightarrow> m \<in> open_xacts st \<and> x_id (xs_xact st m) = i"
    "n \<in> open_xacts st \<Longrightarrow> 1 \<le> x_id (xs_xact st n) \<and> x_id (xs_xact st n) \<le> OGS_MAX_POOL_ID"
  using assms by (auto simp: base_ok_def tms_ok_def ids_ok_def)

lemma ids_inject:
  assumes "base_ok st" "n \<in> open_xacts st" "m \<in> open_xacts st" "x_id (xs_xact st n) = x_id (xs_xact st m)"
  shows "n = m"
proof -
  have "ogs_pfcp_xact_find_by_id (x_id (xs_xact st n)) st = Some n"
    "ogs_pfcp_xact_find_by_id (x_id (xs_xact st n)) st = Some m"
    using assms base_okD(9) [OF assms(1)] by auto
  then show ?thesis by simp
qed

text \<open>No two transactions share a timer, nor does one use a timer twice: the callback tells.\<close>

lemma owner_unique:
  assumes "base_ok st" "owns_timer st n k t" "owns_timer st m j t" "n \<in> open_xacts st" "m \<in> open_xacts st"
  shows "n = m \<and> k = j"
  using assms ids_inject [OF assms(1,4,5)] by (auto simp: owns_timer_def)

lemma alarm_own: "owns_timer st n k t \<Longrightarrow> alarm_of st n k = armed (xs_timers st) t"
  by (simp add: alarm_of_def owns_timer_def)

section \<open>Changes of a transaction\<close>

lemma update_xact_simps [simp]:
  "xs_pool (update_xact n f st) = xs_pool st" "xs_links (update_xact n f st) = xs_links st"
  "xs_local (update_xact n f st) = xs_local st" "xs_remote (update_xact n f st) = xs_remote st"
  "xs_timers (update_xact n f st) = xs_timers st" "xs_g_xact_id (update_xact n f st) = xs_g_xact_id st"
  "xs_xact (update_xact n f st) m = (if m = n then f (xs_xact st n) else xs_xact st m)"
  "xact_list r d (update_xact n f st) = xact_list r d st"
  by (simp_all add: update_xact_def xact_list_def cong: xact_org.case_cong)

definition same_identity :: "'d pfcp_xact \<Rightarrow> 'd pfcp_xact \<Rightarrow> bool" where
  "same_identity x y \<longleftrightarrow> x_id y = x_id x \<and> x_org y = x_org x \<and> x_node y = x_node x \<and> x_timer y = x_timer x"

lemma base_ok_update:
  assumes "base_ok st" "same_identity (xs_xact st n) (f (xs_xact st n))"
  shows "base_ok (update_xact n f st)" "open_xacts (update_xact n f st) = open_xacts st"
    "alarm_of (update_xact n f st) = alarm_of st"
proof -
  show o: "open_xacts (update_xact n f st) = open_xacts st" by (simp add: open_xacts_def)
  have id: "x_id (xs_xact (update_xact n f st) m) = x_id (xs_xact st m)"
    "x_org (xs_xact (update_xact n f st) m) = x_org (xs_xact st m)"
    "x_node (xs_xact (update_xact n f st) m) = x_node (xs_xact st m)"
    "x_timer (xs_xact (update_xact n f st) m) = x_timer (xs_xact st m)" for m
    using assms(2) by (simp_all add: same_identity_def)
  show "alarm_of (update_xact n f st) = alarm_of st" by (auto simp: fun_eq_iff alarm_of_def id simp del: update_xact_simps(7))
  have "members (update_xact n f st) = members st"
    by (simp add: members_def o id fun_eq_iff del: update_xact_simps(7))
  moreover have "ids_ok (update_xact n f st)" using assms(1)
    by (simp add: base_ok_def ids_ok_def ogs_pfcp_xact_find_by_id_def o id del: update_xact_simps(7))
  moreover have "tms_ok (update_xact n f st)" using assms(1)
    by (simp add: base_ok_def tms_ok_def owns_timer_def o id del: update_xact_simps(7))
  ultimately show "base_ok (update_xact n f st)" using assms(1) by (simp add: base_ok_def lists_as_def)
qed

section \<open>Timers\<close>

lemma start_cb: "ogs_timer_start now m t d = Ret m' \<Longrightarrow> tmr_cb (tm_timers m' x) = tmr_cb (tm_timers m x)"
  by (auto simp: ogs_timer_start_def add_timer_node_def Let_def split: if_splits)

lemma stop_cb: "ogs_timer_stop m t = Ret m' \<Longrightarrow> tmr_cb (tm_timers m' x) = tmr_cb (tm_timers m x)"
  by (auto simp: ogs_timer_stop_def split: if_splits)

lemma delete_cb: "ogs_timer_delete m t = Ret m' \<Longrightarrow> tmr_cb (tm_timers m' x) = tmr_cb (tm_timers m x)"
  by (auto simp: ogs_timer_delete_def dest: stop_cb)

text \<open>A step of the timer manager that keeps the allocated timers and the callbacks.\<close>

lemma base_ok_timers:
  assumes "base_ok st" "timers_ok m" "allocated (tm_pool m) = allocated (tm_pool (xs_timers st))"
    "\<And>t. tmr_cb (tm_timers m t) = tmr_cb (tm_timers (xs_timers st) t)"
  shows "base_ok (st\<lparr>xs_timers := m\<rparr>)" "open_xacts (st\<lparr>xs_timers := m\<rparr>) = open_xacts st"
    "owns_timer (st\<lparr>xs_timers := m\<rparr>) = owns_timer st"
proof -
  show o: "open_xacts (st\<lparr>xs_timers := m\<rparr>) = open_xacts st" by (simp add: open_xacts_def)
  show w: "owns_timer (st\<lparr>xs_timers := m\<rparr>) = owns_timer st" by (simp add: owns_timer_def fun_eq_iff assms)
  show "base_ok (st\<lparr>xs_timers := m\<rparr>)" using assms(1,2)
    by (simp add: base_ok_def lists_as_def ids_ok_def tms_ok_def xact_list_def members_def o w ogs_pfcp_xact_find_by_id_def
        cong: xact_org.case_cong)
qed

text \<open>The timers that are in use by others than a transaction.\<close>

definition own_timers :: "('c, 'd) xact_state \<Rightarrow> nat \<Rightarrow> nat set" where
  "own_timers st n = (if n \<in> open_xacts st then {t. \<exists>k. x_timer (xs_xact st n) k = Some t} else {})"

definition timers_but :: "nat \<Rightarrow> ('c, 'd) xact_state \<Rightarrow> nat set" where
  "timers_but n st = allocated (tm_pool (xs_timers st)) - own_timers st n"

text \<open>What changes is at most one alarm.\<close>

definition alarm_changed :: "nat \<Rightarrow> xact_timer \<Rightarrow> int option \<Rightarrow> ('c, 'd) xact_state \<Rightarrow> ('c, 'd) xact_state \<Rightarrow> bool" where
  "alarm_changed n k v st st' \<longleftrightarrow> (\<exists>m. st' = st\<lparr>xs_timers := m\<rparr> \<and> allocated (tm_pool m) = allocated (tm_pool (xs_timers st))) \<and>
     base_ok st' \<and> open_xacts st' = open_xacts st \<and>
     (\<forall>l \<in> open_xacts st. \<forall>j. alarm_of st' l j = (if l = n \<and> j = k then v else alarm_of st l j))"

lemma alarm_changedI:
  assumes ok: "base_ok st" and n: "n \<in> open_xacts st" and t: "owns_timer st n k t"
    and m: "timers_ok m" "allocated (tm_pool m) = allocated (tm_pool (xs_timers st))"
      "\<And>t. tmr_cb (tm_timers m t) = tmr_cb (tm_timers (xs_timers st) t)" "armed m = (armed (xs_timers st))(t := v)"
  shows "alarm_changed n k v st (st\<lparr>xs_timers := m\<rparr>)"
proof -
  note b = base_ok_timers [OF ok m(1-3)]
  have "alarm_of (st\<lparr>xs_timers := m\<rparr>) l j = (if l = n \<and> j = k then v else alarm_of st l j)" if l: "l \<in> open_xacts st" for l j
  proof -
    obtain s where s: "owns_timer st l j s" using base_okD(5) [OF ok l] by blast
    then have "alarm_of (st\<lparr>xs_timers := m\<rparr>) l j = armed m s" by (simp add: alarm_of_def owns_timer_def)
    then show ?thesis using s t owner_unique [OF ok t _ n l] alarm_own [OF s] by (auto simp: m(4) owns_timer_def)
  qed
  then show ?thesis using b m(2) by (auto simp: alarm_changed_def)
qed

lemma start_xact_timer_ok:
  assumes "base_ok st" "n \<in> open_xacts st" "duration \<noteq> 0"
  shows "\<exists>st'. start_xact_timer now k duration n st = Ret st' \<and> alarm_changed n k (Some (now + duration)) st st'"
proof -
  obtain t where t: "owns_timer st n k t" using base_okD(5) [OF assms(1,2)] by blast
  then have a: "x_timer (xs_xact st n) k = Some t" "t \<in> allocated (tm_pool (xs_timers st))" by (simp_all add: owns_timer_def)
  note tm = base_okD(4) [OF assms(1)]
  obtain m where m: "ogs_timer_start now (xs_timers st) t duration = Ret m" "timers_ok m" "tm_pool m = tm_pool (xs_timers st)"
    using start_ok [OF tm a(2) assms(3), of now] by blast
  have "armed m = (armed (xs_timers st))(t \<mapsto> now + duration)"
    using tmr.start_law [OF tm a(2) assms(3), of now] m(1) by auto
  then have "alarm_changed n k (Some (now + duration)) st (st\<lparr>xs_timers := m\<rparr>)"
    by (intro alarm_changedI [OF assms(1,2) t m(2)]) (simp_all add: m(3) start_cb [OF m(1)])
  then show ?thesis using a(1) m(1) by (simp add: start_xact_timer_def)
qed

lemma stop_xact_timer_ok:
  assumes "base_ok st" "n \<in> open_xacts st"
  shows "\<exists>st'. stop_xact_timer k n st = Ret st' \<and> alarm_changed n k None st st'"
proof -
  obtain t where t: "owns_timer st n k t" using base_okD(5) [OF assms(1,2)] by blast
  then have a: "x_timer (xs_xact st n) k = Some t" "t \<in> allocated (tm_pool (xs_timers st))" by (simp_all add: owns_timer_def)
  note tm = base_okD(4) [OF assms(1)]
  obtain m where m: "ogs_timer_stop (xs_timers st) t = Ret m" "timers_ok m" "tm_pool m = tm_pool (xs_timers st)"
    using stop_ok [OF tm a(2)] by blast
  have "armed m = (armed (xs_timers st))(t := None)" using tmr.stop_law [OF tm a(2)] m(1) by auto
  then have "alarm_changed n k None st (st\<lparr>xs_timers := m\<rparr>)"
    by (intro alarm_changedI [OF assms(1,2) t m(2)]) (simp_all add: m(3) stop_cb [OF m(1)])
  then show ?thesis using a(1) m(1) by (simp add: stop_xact_timer_def)
qed

section \<open>Lists\<close>

lemma xact_list_put:
  "xact_list r' d' (put_list r d l st) = (if r' = r \<and> d' = d then l else (fst (xact_list r' d' st), snd l))"
  by (cases r; cases r') (auto simp: xact_list_def put_list_def)

lemma put_list_simps [simp]:
  "xs_pool (put_list r d l st) = xs_pool st" "xs_xact (put_list r d l st) = xs_xact st"
  "xs_timers (put_list r d l st) = xs_timers st" "xs_links (put_list r d l st) = snd l"
  "xs_g_xact_id (put_list r d l st) = xs_g_xact_id st"
  by (cases r; simp add: put_list_def)+

definition disjoint_sets :: "(xact_org \<Rightarrow> nat \<Rightarrow> nat set) \<Rightarrow> bool" where
  "disjoint_sets M \<longleftrightarrow> (\<forall>r d r' d' n. n \<in> M r d \<longrightarrow> n \<in> M r' d' \<longrightarrow> r' = r \<and> d' = d)"

lemma disjoint_members: "disjoint_sets (members st)"
  by (auto simp: disjoint_sets_def members_def)

lemma lists_asD: "lists_as st M \<Longrightarrow> \<exists>ns. list_at (xact_list r d st) ns \<and> set ns = M r d"
  unfolding lists_as_def by (drule spec [of _ r], erule spec)

text \<open>A change of one list that leaves the links of all other nodes alone.\<close>

lemma lists_as_put:
  assumes l: "lists_as st M" and own: "list_at l ns" "set ns = N"
    and frame: "\<And>r' d' x. x \<in> M r' d' \<Longrightarrow> r' \<noteq> r \<or> d' \<noteq> d \<Longrightarrow> snd l x = xs_links st x"
  shows "lists_as (put_list r d l st) (\<lambda>r' d'. if r' = r \<and> d' = d then N else M r' d')"
  unfolding lists_as_def
proof (intro allI)
  fix r' d'
  show "\<exists>ns. list_at (xact_list r' d' (put_list r d l st)) ns \<and> set ns = (if r' = r \<and> d' = d then N else M r' d')"
  proof (cases "r' = r \<and> d' = d")
    case True
    then show ?thesis using own by (auto simp: xact_list_put)
  next
    case False
    obtain ms where ms: "list_at (xact_list r' d' st) ms" "set ms = M r' d'" using lists_asD [OF l] by blast
    have "list_at (fst (xact_list r' d' st), snd l) ms"
      by (rule list_at_frame [where L = "xs_links st"]) (use ms False frame in \<open>auto simp: xact_list_def\<close>)
    then show ?thesis using ms(2) False by (auto simp: xact_list_put)
  qed
qed

lemma lists_as_remove:
  assumes l: "lists_as st M" and d: "disjoint_sets M" and n: "n \<in> M r d"
  shows "lists_as (put_list r d (ogs_list_remove n (xact_list r d st)) st)
    (\<lambda>r' d'. if r' = r \<and> d' = d then M r d - {n} else M r' d')"
proof -
  obtain ns where ns: "list_at (xact_list r d st) ns" "set ns = M r d" using lists_asD [OF l] by blast
  have dist: "distinct ns" using ns(1) by (simp add: list_at_def)
  show ?thesis
  proof (rule lists_as_put [OF l remove_list_at [OF ns(1)]])
    show "n \<in> set ns" using n ns(2) by simp
    show "set (remove1 n ns) = M r d - {n}" using dist ns(2) by simp
    fix r' d' x
    assume "x \<in> M r' d'" "r' \<noteq> r \<or> d' \<noteq> d"
    then have "x \<notin> set ns" using d ns(2) by (auto simp: disjoint_sets_def)
    then show "snd (ogs_list_remove n (xact_list r d st)) x = xs_links st x"
      using remove_frame [OF ns(1)] n ns(2) by (simp add: xact_list_def)
  qed
qed

lemma lists_as_add:
  assumes l: "lists_as st M" and d: "disjoint_sets M" and n: "\<forall>r d. n \<notin> M r d"
  shows "lists_as (put_list r d (ogs_list_add n (xact_list r d st)) st)
    (\<lambda>r' d'. if r' = r \<and> d' = d then insert n (M r d) else M r' d')"
proof -
  obtain ns where ns: "list_at (xact_list r d st) ns" "set ns = M r d" using lists_asD [OF l] by blast
  show ?thesis
  proof (rule lists_as_put [OF l add_list_at [OF ns(1)]])
    show "n \<notin> set ns" using n ns(2) by simp
    show "set (ns @ [n]) = insert n (M r d)" using ns(2) by simp
    fix r' d' x
    assume "x \<in> M r' d'" "r' \<noteq> r \<or> d' \<noteq> d"
    then have "x \<notin> insert n (set ns)" using d n ns(2) by (auto simp: disjoint_sets_def)
    then show "snd (ogs_list_add n (xact_list r d st)) x = xs_links st x"
      using add_frame [OF ns(1)] by (simp add: xact_list_def)
  qed
qed

section \<open>Deletion\<close>

lemma delete_timers_ok:
  assumes "timers_ok m" "set ts \<subseteq> allocated (tm_pool m)" "distinct ts"
  shows "\<exists>m'. delete_timers (map Some ts) m = Ret m' \<and> timers_ok m' \<and>
    allocated (tm_pool m') = allocated (tm_pool m) - set ts \<and> (\<forall>t. t \<notin> set ts \<longrightarrow> armed m' t = armed m t) \<and>
    (\<forall>t. tmr_cb (tm_timers m' t) = tmr_cb (tm_timers m t))"
  using assms
proof (induction ts arbitrary: m)
  case (Cons t ts)
  obtain m1 where m1: "ogs_timer_delete m t = Ret m1" "timers_ok m1" "allocated (tm_pool m1) = allocated (tm_pool m) - {t}"
    "armed m1 = (armed m)(t := None)"
    using delete_armed [of m t] Cons.prems by auto
  obtain m' where "delete_timers (map Some ts) m1 = Ret m'" "timers_ok m'" "allocated (tm_pool m') = allocated (tm_pool m1) - set ts"
    "\<forall>t. t \<notin> set ts \<longrightarrow> armed m' t = armed m1 t" "\<forall>t. tmr_cb (tm_timers m' t) = tmr_cb (tm_timers m1 t)"
    using Cons.IH [of m1] Cons.prems m1 by auto
  then show ?case using m1 delete_cb [OF m1(1)] by auto
qed simp

lemma ids_delete:
  assumes ok: "base_ok st" and n: "n \<in> open_xacts st"
  shows "\<exists>p. ogs_pool_id_free (xs_pool st) n (x_id (xs_xact st n)) = Ret p \<and> pool_ok p \<and> allocated p = open_xacts st - {n} \<and>
    hash_ok (pool_id_hash p) \<and> pool_id p = pool_id (xs_pool st) \<and> pool_size p = pool_size (xs_pool st) \<and>
    (\<forall>j. ogs_pool_find_by_id p j = (if j = x_id (xs_xact st n) then None else ogs_pool_find_by_id (xs_pool st) j))"
proof -
  obtain p where p: "ogs_pool_id_free (xs_pool st) n (x_id (xs_xact st n)) = Ret p"
    using base_okD(10) [OF ok n] by (simp add: ogs_pool_id_free_def)
  have "n \<in> allocated (xs_pool st)" using n by (simp add: open_xacts_def)
  note f = id_free_facts [OF base_okD(6) [OF ok] this p]
  then show ?thesis using p base_okD(7) [OF ok] by (simp add: open_xacts_def ogs_pool_find_by_id_def)
qed

text \<open>What is left after a deletion: everything of the other transactions.\<close>

definition without :: "nat \<Rightarrow> ('c, 'd) xact_state \<Rightarrow> ('c, 'd) xact_state \<Rightarrow> bool" where
  "without n st st' \<longleftrightarrow> base_ok st' \<and> open_xacts st' = open_xacts st - {n} \<and> xs_xact st' = xs_xact st \<and>
     pool_size (xs_pool st') = pool_size (xs_pool st) \<and> timers_but n st' = timers_but n st \<and>
     (\<forall>m \<in> open_xacts st'. \<forall>k. alarm_of st' m k = alarm_of st m k)"

lemma xact_delete_ok:
  assumes ok: "base_ok st" and n: "n \<in> open_xacts st"
  shows "\<exists>st'. ogs_pfcp_xact_delete n st = Ret st' \<and> without n st st'"
proof -
  let ?x = "xs_xact st n" and ?K = "[Response_timer, Holding_timer, Delayed_commit_timer]"
  have "\<forall>k. \<exists>t. owns_timer st n k t" using base_okD(5) [OF ok n] by blast
  then obtain t where t: "\<And>k. owns_timer st n k (t k)" by metis
  have K: "k \<in> set ?K" for k by (cases k) auto
  have ts: "map (x_timer ?x) ?K = map Some (map t ?K)" using t by (simp add: owns_timer_def)
  have "a = b" if "t a = t b" for a b using owner_unique [OF ok t [of a], of n b] t [of b] that n by simp
  then have "inj t" by (rule injI)
  then have "distinct (map t ?K)" by (auto dest: injD)
  moreover have "set (map t ?K) \<subseteq> allocated (tm_pool (xs_timers st))" using t by (auto simp: owns_timer_def)
  ultimately obtain m where m: "delete_timers (map (x_timer ?x) ?K) (xs_timers st) = Ret m" "timers_ok m"
    "allocated (tm_pool m) = allocated (tm_pool (xs_timers st)) - set (map t ?K)"
    "\<And>s. s \<notin> set (map t ?K) \<Longrightarrow> armed m s = armed (xs_timers st) s" "\<And>s. tmr_cb (tm_timers m s) = tmr_cb (tm_timers (xs_timers st) s)"
    using delete_timers_ok [OF base_okD(4) [OF ok], of "map t ?K"] unfolding ts by blast
  obtain p where p: "ogs_pool_id_free (xs_pool st) n (x_id ?x) = Ret p" "pool_ok p" "allocated p = open_xacts st - {n}"
    "hash_ok (pool_id_hash p)" "pool_id p = pool_id (xs_pool st)" "pool_size p = pool_size (xs_pool st)"
    "\<And>j. ogs_pool_find_by_id p j = (if j = x_id ?x then None else ogs_pool_find_by_id (xs_pool st) j)"
    using ids_delete [OF ok n] by blast
  define st1 where "st1 = put_list (x_org ?x) (x_node ?x) (ogs_list_remove n (xact_list (x_org ?x) (x_node ?x) st)) st"
  define st' where "st' = st1\<lparr>xs_timers := m, xs_pool := p\<rparr>"
  have run: "ogs_pfcp_xact_delete n st = Ret st'"
    using m(1) p(1) by (cases "x_org ?x")
      (simp_all add: ogs_pfcp_xact_delete_def Let_def st'_def st1_def put_list_def xact_list_def)
  have x: "xs_xact st' = xs_xact st" and o: "open_xacts st' = open_xacts st - {n}"
    by (simp_all add: st'_def st1_def open_xacts_def p(3) del: p(3)) (simp_all add: p(3) open_xacts_def)
  have own: "owns_timer st' l k s" "s \<notin> set (map t ?K)" if "owns_timer st l k s" "l \<in> open_xacts st - {n}" for l k s
  proof -
    show "s \<notin> set (map t ?K)" using owner_unique [OF ok that(1), of n] t that(2) n by auto
    then show "owns_timer st' l k s" using that(1) by (simp add: owns_timer_def x) (simp add: st'_def m)
  qed
  have L: "lists_as st' (members st')"
  proof -
    have "n \<in> members st (x_org ?x) (x_node ?x)" using n by (simp add: members_def)
    note lists_as_remove [OF base_okD(1) [OF ok] disjoint_members this]
    moreover have "(\<lambda>r d. if r = x_org ?x \<and> d = x_node ?x then members st (x_org ?x) (x_node ?x) - {n} else members st r d) = members st'"
      by (auto simp: fun_eq_iff members_def o x)
    ultimately show ?thesis by (simp add: lists_as_def st'_def st1_def xact_list_def cong: xact_org.case_cong)
  qed
  have "ids_ok st'" unfolding ids_ok_def o x
    using p base_okD(8,9,10) [OF ok] ids_inject [OF ok n]
    by (simp add: st'_def ogs_pfcp_xact_find_by_id_def) metis
  moreover have "\<exists>s. owns_timer st' l k s" if "l \<in> open_xacts st - {n}" for l k
    using own(1) base_okD(5) [OF ok, of l k] that by blast
  then have "tms_ok st'" using m(2) by (simp add: tms_ok_def o) (simp add: st'_def)
  moreover have "alarm_of st' l k = alarm_of st l k" if l: "l \<in> open_xacts st - {n}" for l k
  proof -
    obtain s where s: "owns_timer st l k s" using base_okD(5) [OF ok] l by blast
    have "alarm_of st' l k = armed m s" using alarm_own [OF own(1) [OF s l]] by (simp add: st'_def)
    also have "\<dots> = alarm_of st l k" using m(4) [OF own(2) [OF s l]] alarm_own [OF s] by simp
    finally show ?thesis .
  qed
  moreover have "timers_but n st' = timers_but n st"
  proof -
    have "UNIV = set ?K" using K by blast
    have "own_timers st n = t ` UNIV" using t n by (auto simp: own_timers_def owns_timer_def)
    also have "\<dots> = set (map t ?K)" unfolding \<open>UNIV = set ?K\<close> by simp
    finally have "timers_but n st = allocated (tm_pool (xs_timers st)) - set (map t ?K)" by (simp only: timers_but_def)
    moreover have "own_timers st' n = {}" by (simp add: own_timers_def o)
    moreover have "xs_timers st' = m" by (simp add: st'_def)
    ultimately show ?thesis using m(3) by (simp only: timers_but_def Diff_empty)
  qed
  moreover have "pool_size (xs_pool st') = pool_size (xs_pool st)" using p(6) by (simp add: st'_def)
  ultimately show ?thesis using run L o x unfolding without_def base_ok_def by simp
qed

section \<open>Creation\<close>

lemma timer_add_ok:
  assumes "timers_ok m" "card (allocated (tm_pool m)) < pool_size (tm_pool m)"
  shows "\<exists>m' t. ogs_timer_add m cb = (m', Some t) \<and> timers_ok m' \<and> t \<notin> allocated (tm_pool m) \<and>
    allocated (tm_pool m') = insert t (allocated (tm_pool m)) \<and> pool_size (tm_pool m') = pool_size (tm_pool m) \<and>
    armed m' = armed m \<and> t \<notin> set (pending m') \<and> tmr_cb (tm_timers m' t) = Some cb \<and>
    (\<forall>s. s \<noteq> t \<longrightarrow> tmr_cb (tm_timers m' s) = tmr_cb (tm_timers m s))"
proof -
  have p: "pool_ok (tm_pool m)" using assms(1) by (simp add: timers_ok_def)
  then have "0 < pool_avail (tm_pool m)" using card_allocated [OF p] assms(2) by linarith
  from alloc_Some [OF p this] obtain q t where q: "ogs_pool_alloc (tm_pool m) = (q, Some t)" "pool_size q = pool_size (tm_pool m)"
    by metis
  then obtain m' where a: "ogs_timer_add m cb = (m', Some t)" and m': "tm_pool m' = q"
    "tm_timers m' = (tm_timers m)(t := \<lparr>tmr_cb = Some cb, tmr_running = False, tmr_timeout = 0\<rparr>)"
    by (simp add: ogs_timer_add_def)
  note k = add_ok [OF assms(1) a]
  then have "t \<notin> set (pending m)" by auto
  then show ?thesis using a k add_armed [OF a] q(2) m' by auto
qed

text \<open>A node that was taken for a transaction, before it has its timers and is in a list.\<close>

definition taken :: "nat \<Rightarrow> 'd pfcp_xact \<Rightarrow> ('c, 'd) xact_state \<Rightarrow> ('c, 'd) xact_state \<Rightarrow> bool" where
  "taken n x st st1 \<longleftrightarrow> n \<notin> open_xacts st \<and> open_xacts st1 = insert n (open_xacts st) \<and> ids_ok st1 \<and>
     pool_size (xs_pool st1) = pool_size (xs_pool st) \<and>
     xs_xact st1 = (xs_xact st)(n := x) \<and> xs_links st1 = (xs_links st)(n := null_links) \<and>
     xs_local st1 = xs_local st \<and> xs_remote st1 = xs_remote st \<and> xs_timers st1 = xs_timers st"

definition created :: "nat \<Rightarrow> 'd pfcp_xact \<Rightarrow> ('c, 'd) xact_state \<Rightarrow> ('c, 'd) xact_state \<Rightarrow> bool" where
  "created n x st st' \<longleftrightarrow> n \<notin> open_xacts st \<and> base_ok st' \<and> open_xacts st' = insert n (open_xacts st) \<and>
     pool_size (xs_pool st') = pool_size (xs_pool st) \<and> same_identity (x\<lparr>x_timer := x_timer (xs_xact st' n)\<rparr>) (xs_xact st' n) \<and>
     x_xid (xs_xact st' n) = x_xid x \<and> x_cb (xs_xact st' n) = x_cb x \<and> x_step (xs_xact st' n) = x_step x \<and>
     x_seq (xs_xact st' n) = x_seq x \<and> timers_but n st' = timers_but n st \<and>
     (\<forall>m \<in> open_xacts st. xs_xact st' m = xs_xact st m \<and> (\<forall>k. alarm_of st' m k = alarm_of st m k)) \<and>
     (\<forall>k. alarm_of st' n k = None)"

lemma add_timers_ok:
  assumes ok: "base_ok st" and tk: "taken n x st st1" and x: "x_timer x = (\<lambda>_. None)"
    and room: "card (allocated (tm_pool (xs_timers st))) + 3 \<le> pool_size (tm_pool (xs_timers st))"
  shows "\<exists>st'. add_timers conf n st1 = Ret (st', Some n) \<and> created n x st st' \<and>
    x_response_rcount (xs_xact st' n) = n1_response_rcount conf \<and> x_holding_rcount (xs_xact st' n) = n1_holding_rcount conf"
proof -
  let ?m = "xs_timers st" and ?c = "\<lambda>k. Xact_call k (x_id x)"
  have fin: "finite (allocated (tm_pool ?m))" by simp
  have "card (allocated (tm_pool ?m)) < pool_size (tm_pool ?m)" using room by simp
  from timer_add_ok [OF base_okD(4) [OF ok] this] obtain m1 t1 where m1: "ogs_timer_add ?m (?c Response_timer) = (m1, Some t1)"
    "timers_ok m1" "t1 \<notin> allocated (tm_pool ?m)" "allocated (tm_pool m1) = insert t1 (allocated (tm_pool ?m))"
    "pool_size (tm_pool m1) = pool_size (tm_pool ?m)" "armed m1 = armed ?m" "t1 \<notin> set (pending m1)"
    "tmr_cb (tm_timers m1 t1) = Some (?c Response_timer)" "\<forall>s. s \<noteq> t1 \<longrightarrow> tmr_cb (tm_timers m1 s) = tmr_cb (tm_timers ?m s)"
    by metis
  have "card (allocated (tm_pool m1)) < pool_size (tm_pool m1)" using room m1(3,4,5) by simp
  from timer_add_ok [OF m1(2) this] obtain m2 t2 where m2: "ogs_timer_add m1 (?c Holding_timer) = (m2, Some t2)" "timers_ok m2"
    "t2 \<notin> allocated (tm_pool m1)" "allocated (tm_pool m2) = insert t2 (allocated (tm_pool m1))"
    "pool_size (tm_pool m2) = pool_size (tm_pool m1)" "armed m2 = armed m1" "t2 \<notin> set (pending m2)"
    "tmr_cb (tm_timers m2 t2) = Some (?c Holding_timer)" "\<forall>s. s \<noteq> t2 \<longrightarrow> tmr_cb (tm_timers m2 s) = tmr_cb (tm_timers m1 s)"
    by metis
  have "card (allocated (tm_pool m2)) < pool_size (tm_pool m2)" using room m1(3,4,5) m2(3,4,5) by simp
  from timer_add_ok [OF m2(2) this] obtain m3 t3 where m3: "ogs_timer_add m2 (?c Delayed_commit_timer) = (m3, Some t3)" "timers_ok m3"
    "t3 \<notin> allocated (tm_pool m2)" "allocated (tm_pool m3) = insert t3 (allocated (tm_pool m2))" "armed m3 = armed m2"
    "tmr_cb (tm_timers m3 t3) = Some (?c Delayed_commit_timer)"
    "\<forall>s. s \<noteq> t3 \<longrightarrow> tmr_cb (tm_timers m3 s) = tmr_cb (tm_timers m2 s)"
    by metis
  define y where "y = x\<lparr>x_timer := (\<lambda>_. None)(Response_timer := Some t1, Holding_timer := Some t2, Delayed_commit_timer := Some t3),
    x_response_rcount := n1_response_rcount conf, x_holding_rcount := n1_holding_rcount conf\<rparr>"
  define st2 where "st2 = update_xact n (\<lambda>x. x\<lparr>x_timer := (x_timer x)(Delayed_commit_timer := Some t3)\<rparr>)
    ((update_xact n (\<lambda>x. x\<lparr>x_holding_rcount := n1_holding_rcount conf\<rparr>) (update_xact n
       (\<lambda>x. x\<lparr>x_timer := (x_timer x)(Holding_timer := Some t2)\<rparr>) ((update_xact n (\<lambda>x. x\<lparr>x_response_rcount := n1_response_rcount conf\<rparr>)
         (update_xact n (\<lambda>x. x\<lparr>x_timer := (x_timer x)(Response_timer := Some t1)\<rparr>) (st1\<lparr>xs_timers := m1\<rparr>)))\<lparr>xs_timers := m2\<rparr>)))\<lparr>xs_timers := m3\<rparr>)"
  define st' where "st' = put_list (x_org x) (x_node x) (ogs_list_add n (xact_list (x_org x) (x_node x) st2)) st2"
  have run: "add_timers conf n st1 = Ret (st', Some n)"
    using tk m1(1) m2(1) m3(1) by (simp add: add_timers_def add_xact_timer_def taken_def Let_def st'_def st2_def)
  have st2: "xs_pool st2 = xs_pool st1" "xs_links st2 = (xs_links st)(n := null_links)" "xs_local st2 = xs_local st"
    "xs_remote st2 = xs_remote st" "xs_timers st2 = m3" using tk by (simp_all add: st2_def taken_def)
  have "xs_xact st2 n = y" unfolding y_def by (rule pfcp_xact.equality) (use tk x in \<open>simp_all add: st2_def taken_def\<close>)
  moreover have "xs_xact st2 m = xs_xact st m" if "m \<noteq> n" for m using tk that by (simp add: st2_def taken_def)
  ultimately have x2: "xs_xact st2 = (xs_xact st)(n := y)" by auto
  have T: "allocated (tm_pool m3) = {t1, t2, t3} \<union> allocated (tm_pool ?m)" "armed m3 = armed ?m" "t1 \<noteq> t2" "t1 \<noteq> t3" "t2 \<noteq> t3"
    "{t1, t2, t3} \<inter> allocated (tm_pool ?m) = {}"
    using m1 m2 m3 by auto
  have cb: "tmr_cb (tm_timers m3 s) = (if s = t3 then Some (?c Delayed_commit_timer) else if s = t2 then Some (?c Holding_timer)
      else if s = t1 then Some (?c Response_timer) else tmr_cb (tm_timers ?m s))" for s
    using m1(8,9) m2(8,9) m3(6,7) T(3-5) by auto
  have f: "xs_pool st' = xs_pool st1" "xs_xact st' = (xs_xact st)(n := y)" "xs_timers st' = m3" by (simp_all add: st'_def st2 x2)
  have n: "n \<notin> open_xacts st" and o: "open_xacts st' = insert n (open_xacts st)"
    using tk by (simp_all add: taken_def open_xacts_def f)
  have L: "lists_as st' (members st')"
  proof -
    have "lists_as st2 (members st)" unfolding lists_as_def
    proof (intro allI)
      fix r d
      obtain ns where ns: "list_at (xact_list r d st) ns" "set ns = members st r d" using lists_asD [OF base_okD(1) [OF ok]] by blast
      have nn: "n \<notin> set ns" using n ns(2) by (simp add: members_def)
      have "list_at (fst (xact_list r d st), xs_links st) ns" using ns(1) by (simp add: xact_list_def)
      then have "list_at (fst (xact_list r d st), xs_links st2) ns"
        by (rule list_at_frame) (use nn in \<open>auto simp: st2\<close>)
      moreover have "xact_list r d st2 = (fst (xact_list r d st), xs_links st2)"
        by (cases r) (simp_all add: xact_list_def st2)
      ultimately show "\<exists>ns. list_at (xact_list r d st2) ns \<and> set ns = members st r d" using ns(2) by auto
    qed
    from lists_as_add [OF this disjoint_members, of n "x_org x" "x_node x"]
    have "lists_as st' (\<lambda>r d. if r = x_org x \<and> d = x_node x then insert n (members st (x_org x) (x_node x)) else members st r d)"
      using n by (simp add: st'_def members_def)
    moreover have "(\<lambda>r d. if r = x_org x \<and> d = x_node x then insert n (members st (x_org x) (x_node x)) else members st r d) = members st'"
      using n by (auto simp: fun_eq_iff members_def o f y_def)
    ultimately show ?thesis by simp
  qed
  have own: "owns_timer st' l k s" if "owns_timer st l k s" "l \<in> open_xacts st" for l k s
    using that n T(6) by (auto simp: owns_timer_def f T(1) cb)
  have own_n: "\<exists>s \<in> {t1, t2, t3}. owns_timer st' n k s" for k
  proof -
    have "owns_timer st' n Response_timer t1" "owns_timer st' n Holding_timer t2" "owns_timer st' n Delayed_commit_timer t3"
      using T(3-5) by (simp_all add: owns_timer_def f y_def T(1) cb)
    then show ?thesis by (cases k) simp_all
  qed
  have "x_id (xs_xact st' l) = x_id (xs_xact st1 l)" for l using tk by (simp add: f y_def taken_def)
  moreover have "open_xacts st' = open_xacts st1" "ids_ok st1" using tk by (simp_all add: o taken_def)
  ultimately have "ids_ok st'" unfolding ids_ok_def by (simp add: ogs_pfcp_xact_find_by_id_def f(1))
  moreover have "\<exists>s. owns_timer st' l k s" if "l \<in> open_xacts st'" for l k
    using that own own_n [of k] base_okD(5) [OF ok, of l k] unfolding o by blast
  then have "tms_ok st'" using m3(2) by (simp add: tms_ok_def) (simp add: f)
  moreover have "alarm_of st' l k = alarm_of st l k" if l: "l \<in> open_xacts st" for l k
  proof -
    obtain s where s: "owns_timer st l k s" using base_okD(5) [OF ok l] by blast
    show ?thesis using alarm_own [OF s] alarm_own [OF own [OF s l]] by (simp add: f T(2))
  qed
  moreover have "alarm_of st' n k = None" for k
  proof -
    obtain s where s: "s \<in> {t1, t2, t3}" "owns_timer st' n k s" using own_n by blast
    then have "s \<notin> allocated (tm_pool ?m)" using T(6) by auto
    then have "armed ?m s = None" using base_okD(4) [OF ok] by (auto simp: armed_def timers_ok_def)
    then show ?thesis using alarm_own [OF s(2)] by (simp add: f T(2))
  qed
  moreover have "timers_but n st' = timers_but n st"
  proof -
    have "(\<exists>k. x_timer y k = Some s) \<longleftrightarrow> s \<in> {t1, t2, t3}" for s
      by (auto simp: y_def intro: exI [of _ Response_timer] exI [of _ Holding_timer] exI [of _ Delayed_commit_timer])
    then have "own_timers st' n = {t1, t2, t3}" using o f(2) by (auto simp: own_timers_def)
    then have "timers_but n st' = allocated (tm_pool ?m)" unfolding timers_but_def f T(1) using T(6) by blast
    then show ?thesis using n by (simp add: timers_but_def own_timers_def)
  qed
  ultimately have "created n x st st'" using n o L tk
    by (auto simp: created_def base_ok_def f y_def same_identity_def taken_def)
  then show ?thesis using run by (auto simp: f y_def)
qed

text \<open>
  A node is free and the next identifier is not in use. Identifiers come round after \<open>2 ^ 31\<close>
  transactions.
\<close>

definition id_fresh :: "('c, 'd) xact_state \<Rightarrow> bool" where
  "id_fresh st \<longleftrightarrow> ogs_pfcp_xact_find_by_id (ogs_next_pool_id (pool_id (xs_pool st))) st = None"

definition xact_room :: "('c, 'd) xact_state \<Rightarrow> bool" where
  "xact_room st \<longleftrightarrow> card (open_xacts st) < pool_size (xs_pool st) \<and> id_fresh st"

definition xact_full :: "('c, 'd) xact_state \<Rightarrow> bool" where
  "xact_full st \<longleftrightarrow> card (open_xacts st) = pool_size (xs_pool st)"

definition id_clash :: "('c, 'd) xact_state \<Rightarrow> bool" where
  "id_clash st \<longleftrightarrow> \<not> xact_full st \<and> \<not> id_fresh st"

text \<open>The timers that are left; a transaction takes three.\<close>

definition free_timers :: "('c, 'd) xact_state \<Rightarrow> nat" where
  "free_timers st = pool_size (tm_pool (xs_timers st)) - card (allocated (tm_pool (xs_timers st)))"

definition timer_room :: "('c, 'd) xact_state \<Rightarrow> bool" where
  "timer_room st \<longleftrightarrow> card (allocated (tm_pool (xs_timers st))) + 3 \<le> pool_size (tm_pool (xs_timers st))"

lemma alloc_xact_taken:
  assumes ok: "base_ok st" and room: "xact_room st"
  shows "\<exists>st1 n i. alloc_xact x st = (st1, Some n) \<and> taken n (x\<lparr>x_id := i\<rparr>) st st1"
proof -
  let ?p = "xs_pool st"
  have "0 < pool_avail ?p" using card_allocated [OF base_okD(6) [OF ok]] room by (simp add: xact_room_def open_xacts_def)
  from alloc_Some [OF base_okD(6) [OF ok] this] obtain q n where q: "ogs_pool_alloc ?p = (q, Some n)" by metis
  note a = alloc_facts [OF base_okD(6) [OF ok] q]
  define i where "i = ogs_next_pool_id (pool_id ?p)"
  define p where "p = q\<lparr>pool_id := i, pool_id_hash := hash_set (pool_id_hash q) (key32 i) (Some n)\<rparr>"
  define st1 where "st1 = st\<lparr>xs_pool := p, xs_xact := (xs_xact st)(n := x\<lparr>x_id := i\<rparr>), xs_links := (xs_links st)(n := null_links)\<rparr>"
  have run: "alloc_xact x st = (st1, Some n)"
    using q a(7) by (simp add: alloc_xact_def ogs_pool_id_calloc_def Let_def st1_def p_def i_def)
  have P: "pool_ok p" "allocated p = insert n (open_xacts st)" "pool_size p = pool_size ?p"
    using a(2,3,5) by (simp_all add: p_def pool_ok_def allocated_def open_xacts_def)
  have o: "open_xacts st1 = insert n (open_xacts st)" by (simp add: open_xacts_def [of st1]) (simp add: st1_def P)
  have nn: "n \<notin> open_xacts st" using a(1) by (simp add: open_xacts_def)
  have r: "1 \<le> i \<and> i \<le> OGS_MAX_POOL_ID" unfolding i_def by (rule next_pool_id_range [OF base_okD(8) [OF ok]])
  have "ogs_pool_find_by_id p j = (if j = i then Some n else ogs_pool_find_by_id ?p j)" for j
    unfolding p_def by (rule find_calloc [OF base_okD(7) [OF ok] a(6)])
  then have find: "ogs_pfcp_xact_find_by_id j st1 = (if j = i then Some n else ogs_pfcp_xact_find_by_id j st)" for j
    by (simp add: ogs_pfcp_xact_find_by_id_def st1_def)
  have fresh: "ogs_pfcp_xact_find_by_id i st = None" using room by (simp add: xact_room_def id_fresh_def i_def)
  have x1: "xs_xact st1 = (xs_xact st)(n := x\<lparr>x_id := i\<rparr>)" by (simp add: st1_def)
  have "(ogs_pfcp_xact_find_by_id j st1 = Some m) = (m \<in> open_xacts st1 \<and> x_id (xs_xact st1 m) = j)" for j m
    using base_okD(9) [OF ok, of j m] fresh nn base_okD(9) [OF ok, of i m] unfolding find o x1 by auto
  moreover have "hash_ok (pool_id_hash p)" using base_okD(7) [OF ok] a(6) by (simp add: p_def)
  moreover have "\<forall>m \<in> open_xacts st1. 1 \<le> x_id (xs_xact st1 m) \<and> x_id (xs_xact st1 m) \<le> OGS_MAX_POOL_ID"
    using r base_okD(10) [OF ok] unfolding o x1 by auto
  ultimately have "ids_ok st1" using P(1) r by (simp add: ids_ok_def) (simp add: st1_def p_def)
  then have "taken n (x\<lparr>x_id := i\<rparr>) st st1" using nn o P(3) by (simp add: taken_def) (simp add: st1_def)
  with run show ?thesis by blast
qed

lemma remote_create_ok:
  assumes ok: "base_ok st" and room: "xact_room st" "timer_room st"
  shows "\<exists>st' n i. ogs_pfcp_xact_remote_create conf d xid st = Ret (st', Some n) \<and>
    created n (zero_xact\<lparr>x_id := i, x_org := Remote_originator, x_xid := xid, x_node := d\<rparr>) st st' \<and>
    x_response_rcount (xs_xact st' n) = n1_response_rcount conf \<and> x_holding_rcount (xs_xact st' n) = n1_holding_rcount conf"
proof -
  let ?x = "zero_xact\<lparr>x_org := Remote_originator, x_xid := xid, x_node := d\<rparr>"
  obtain st1 n i where a: "alloc_xact ?x st = (st1, Some n)" "taken n (?x\<lparr>x_id := i\<rparr>) st st1"
    using alloc_xact_taken [OF ok room(1)] by blast
  have x: "x_timer (?x\<lparr>x_id := i\<rparr>) = (\<lambda>_. None)" by (simp add: zero_xact_def)
  have e: "?x\<lparr>x_id := i\<rparr> = zero_xact\<lparr>x_id := i, x_org := Remote_originator, x_xid := xid, x_node := d\<rparr>"
    by (rule pfcp_xact.equality) simp_all
  show ?thesis using add_timers_ok [OF ok a(2) x, of conf] room(2) a(1)
    by (auto simp: ogs_pfcp_xact_remote_create_def timer_room_def e)
qed

lemma local_create_ok:
  assumes ok: "base_ok st" and room: "xact_room st" "timer_room st"
  shows "\<exists>st' n i. ogs_pfcp_xact_local_create conf d cb st = Ret (st', Some n) \<and>
    created n (zero_xact\<lparr>x_id := i, x_xid := next_xid (xs_g_xact_id st), x_node := d, x_cb := cb\<rparr>) st st' \<and>
    x_response_rcount (xs_xact st' n) = n1_response_rcount conf \<and> x_holding_rcount (xs_xact st' n) = n1_holding_rcount conf"
proof -
  let ?x = "zero_xact\<lparr>x_node := d, x_cb := cb\<rparr>" and ?xid = "next_xid (xs_g_xact_id st)"
  obtain st1 n i where a: "alloc_xact ?x st = (st1, Some n)" "taken n (?x\<lparr>x_id := i\<rparr>) st st1"
    using alloc_xact_taken [OF ok room(1)] by blast
  let ?y = "zero_xact\<lparr>x_id := i, x_xid := ?xid, x_node := d, x_cb := cb\<rparr>"
  have g: "xs_g_xact_id st1 = xs_g_xact_id st" using a(1) by (auto simp: alloc_xact_def split: prod.splits option.splits)
  define st2 where "st2 = update_xact n (\<lambda>x. x\<lparr>x_xid := ?xid\<rparr>) (st1\<lparr>xs_g_xact_id := ?xid\<rparr>)"
  have e: "(?x\<lparr>x_id := i\<rparr>)\<lparr>x_xid := ?xid\<rparr> = ?y" by (rule pfcp_xact.equality) simp_all
  have t2: "taken n ?y st st2"
  proof -
    have f: "xs_pool st2 = xs_pool st1" "xs_xact st2 = (xs_xact st)(n := ?y)"
      using a(2) e by (auto simp: st2_def update_xact_def taken_def)
    have "x_id (xs_xact st2 m) = x_id (xs_xact st1 m)" for m using a(2) by (simp add: f taken_def)
    moreover have "open_xacts st2 = open_xacts st1" by (simp add: open_xacts_def f)
    ultimately have "ids_ok st2 = ids_ok st1" by (simp add: ids_ok_def ogs_pfcp_xact_find_by_id_def f(1))
    then show ?thesis using a(2) \<open>open_xacts st2 = open_xacts st1\<close> unfolding taken_def f by (simp add: st2_def)
  qed
  have "x_timer ?y = (\<lambda>_. None)" by (simp add: zero_xact_def)
  from add_timers_ok [OF ok t2 this, of conf] show ?thesis using room(2) a(1) g
    by (auto simp: ogs_pfcp_xact_local_create_def timer_room_def st2_def Let_def)
qed

end
