(* ===== verification/Xact_Steps.thy ===== *)
theory Xact_Steps
  imports Xact_Invariant
begin

text \<open>
  The life of a transaction: what each event does to the transaction it is about, that the others
  are left alone, and the states that the events of a user plane function can reach.
\<close>

section \<open>Phases\<close>

text \<open>
  A local transaction is waiting for its response while its response timer runs, a remote one is
  held while its holding timer runs. Step 0 of a local transaction is a request that could not be
  built, step 2 a response that is still to be concluded.
\<close>

definition phase_ok :: "('c, 'd) xact_state \<Rightarrow> nat \<Rightarrow> bool" where
  "phase_ok st n \<longleftrightarrow> (let x = xs_xact st n in
     length (x_seq x) = 3 \<and> alarm_of st n Delayed_commit_timer = None \<and>
     (case x_org x of
        Local_originator \<Rightarrow> x_step x \<le> 2 \<and>
          (x_step x \<noteq> 0 \<longrightarrow> ogs_pfcp_xact_get_stage (seq_type 0 x) = Initial_stage \<and> seq_pkbuf 0 x \<noteq> None) \<and>
          (x_step x = 2 \<longrightarrow> ogs_pfcp_xact_get_stage (seq_type 1 x) = Final_stage) \<and>
          (alarm_of st n Response_timer \<noteq> None \<longleftrightarrow> x_step x = 1) \<and> alarm_of st n Holding_timer = None
      | Remote_originator \<Rightarrow> (x_step x = 1 \<or> x_step x = 2) \<and> ogs_pfcp_xact_get_stage (seq_type 0 x) = Initial_stage \<and>
          (seq_pkbuf 1 x \<noteq> None \<longleftrightarrow> x_step x = 2) \<and>
          (x_step x = 2 \<longrightarrow> ogs_pfcp_xact_get_stage (seq_type 1 x) = Final_stage) \<and>
          alarm_of st n Response_timer = None \<and> alarm_of st n Holding_timer \<noteq> None))"

text \<open>No two open requests of a peer have the same sequence number.\<close>

definition xids_unique :: "('c, 'd) xact_state \<Rightarrow> bool" where
  "xids_unique st \<longleftrightarrow> (\<forall>d. inj_on (\<lambda>n. x_xid (xs_xact st n)) (members st Remote_originator d))"

definition xacts_ok :: "('c, 'd) xact_state \<Rightarrow> bool" where
  "xacts_ok st \<longleftrightarrow> base_ok st \<and> xids_unique st \<and> (\<forall>n \<in> open_xacts st. phase_ok st n)"

text \<open>An event is about one transaction: the others keep their contents and alarms.\<close>

definition others_kept :: "nat \<Rightarrow> ('c, 'd) xact_state \<Rightarrow> ('c, 'd) xact_state \<Rightarrow> bool" where
  "others_kept n st st' \<longleftrightarrow> open_xacts st - {n} = open_xacts st' - {n} \<and>
     pool_size (xs_pool st') = pool_size (xs_pool st) \<and> timers_but n st' = timers_but n st \<and>
     (\<forall>m \<in> open_xacts st - {n}. xs_xact st' m = xs_xact st m \<and> (\<forall>k. alarm_of st' m k = alarm_of st m k))"

lemma others_kept_refl: "others_kept n st st"
  by (simp add: others_kept_def)

lemma others_kept_trans: "others_kept n st st1 \<Longrightarrow> others_kept n st1 st2 \<Longrightarrow> others_kept n st st2"
  unfolding others_kept_def by auto

lemma others_kept_alarm:
  assumes "alarm_changed n k v st st'"
  shows "others_kept n st st'" "xs_xact st' = xs_xact st" "base_ok st'" "open_xacts st' = open_xacts st" "xs_pool st' = xs_pool st"
    "n \<in> open_xacts st \<Longrightarrow> alarm_of st' n j = (if j = k then v else alarm_of st n j)"
    "xs_g_xact_id st' = xs_g_xact_id st"
  using assms by (auto simp: alarm_changed_def others_kept_def timers_but_def own_timers_def)

lemma others_kept_update:
  assumes "base_ok st" "same_identity (xs_xact st n) (f (xs_xact st n))"
  shows "others_kept n st (update_xact n f st)"
  using base_ok_update [where st = st and n = n and f = f] assms
  by (auto simp: others_kept_def timers_but_def own_timers_def same_identity_def)

lemma others_kept_without: "without n st st' \<Longrightarrow> others_kept n st st'"
  by (auto simp: without_def others_kept_def)

lemma others_kept_created: "created n x st st' \<Longrightarrow> others_kept n st st'"
  by (auto simp: created_def others_kept_def)

lemma phase_other:
  assumes "others_kept n st st'" "m \<in> open_xacts st - {n}"
  shows "phase_ok st' m = phase_ok st m"
  using assms by (simp add: others_kept_def phase_ok_def Let_def cong: xact_org.case_cong)

lemma xacts_ok_step:
  assumes ok: "xacts_ok st" and b: "base_ok st'" and o: "others_kept n st st'"
    and p: "n \<in> open_xacts st' \<Longrightarrow> phase_ok st' n"
    and u: "n \<in> open_xacts st' \<Longrightarrow> x_org (xs_xact st' n) = Remote_originator \<Longrightarrow>
      \<forall>m \<in> open_xacts st - {n}. x_org (xs_xact st m) = Remote_originator \<longrightarrow> x_node (xs_xact st m) = x_node (xs_xact st' n) \<longrightarrow>
        x_xid (xs_xact st m) \<noteq> x_xid (xs_xact st' n)"
  shows "xacts_ok st'"
proof -
  have k: "xs_xact st' m = xs_xact st m" if "m \<in> open_xacts st'" "m \<noteq> n" for m
    using o that by (auto simp: others_kept_def)
  have m: "m \<in> open_xacts st - {n}" if "m \<in> open_xacts st'" "m \<noteq> n" for m using o that by (auto simp: others_kept_def)
  have no: "c = n" if "c \<in> open_xacts st'" "n \<in> open_xacts st'" "x_org (xs_xact st' c) = Remote_originator"
    "x_org (xs_xact st' n) = Remote_originator" "x_node (xs_xact st' c) = x_node (xs_xact st' n)"
    "x_xid (xs_xact st' c) = x_xid (xs_xact st' n)" for c
    using that u k [of c] m [of c] by (cases "c = n") auto
  have "xids_unique st'" unfolding xids_unique_def
  proof (intro allI inj_onI)
    fix d a c
    assume a: "a \<in> members st' Remote_originator d" and c: "c \<in> members st' Remote_originator d"
      and e: "x_xid (xs_xact st' a) = x_xid (xs_xact st' c)"
    show "a = c"
    proof (cases "a = n \<or> c = n")
      case True
      have A: "a \<in> open_xacts st'" "x_org (xs_xact st' a) = Remote_originator" "x_node (xs_xact st' a) = d"
        "c \<in> open_xacts st'" "x_org (xs_xact st' c) = Remote_originator" "x_node (xs_xact st' c) = d"
        using a c by (simp_all add: members_def)
      show ?thesis
      proof (cases "a = n")
        case an: True
        then show ?thesis using no [of c] A e by simp
      next
        case False
        then have "c = n" using True by simp
        then show ?thesis using no [of a] A e by simp
      qed
    next
      case False
      then have "a \<in> members st Remote_originator d" "c \<in> members st Remote_originator d" "x_xid (xs_xact st a) = x_xid (xs_xact st c)"
        using a c e k [of a] k [of c] m [of a] m [of c] by (auto simp: members_def)
      then show ?thesis using ok by (auto simp: xacts_ok_def xids_unique_def dest: inj_onD)
    qed
  qed
  moreover have "phase_ok st' m" if "m \<in> open_xacts st'" for m
    using that p m phase_other [OF o] ok by (cases "m = n") (auto simp: xacts_ok_def)
  ultimately show ?thesis using b by (simp add: xacts_ok_def)
qed

lemma xacts_okD:
  assumes "xacts_ok st"
  shows "base_ok st" "n \<in> open_xacts st \<Longrightarrow> phase_ok st n"
    "m \<in> open_xacts st \<Longrightarrow> n \<in> open_xacts st \<Longrightarrow> x_org (xs_xact st m) = Remote_originator \<Longrightarrow>
      x_org (xs_xact st n) = Remote_originator \<Longrightarrow> x_node (xs_xact st m) = x_node (xs_xact st n) \<Longrightarrow>
      x_xid (xs_xact st m) = x_xid (xs_xact st n) \<Longrightarrow> m = n"
proof -
  show "base_ok st" "n \<in> open_xacts st \<Longrightarrow> phase_ok st n" using assms by (simp_all add: xacts_ok_def)
  assume "m \<in> open_xacts st" "n \<in> open_xacts st" "x_org (xs_xact st m) = Remote_originator"
    "x_org (xs_xact st n) = Remote_originator" "x_node (xs_xact st m) = x_node (xs_xact st n)"
    "x_xid (xs_xact st m) = x_xid (xs_xact st n)"
  then show "m = n" using assms
    by (auto simp: xacts_ok_def xids_unique_def members_def dest!: spec [of _ "x_node (xs_xact st n)"] elim!: inj_onD)
qed

text \<open>A transaction whose contents change but not its identity, originator, peer and number.\<close>

lemma xacts_ok_same:
  assumes "xacts_ok st" "base_ok st'" "others_kept n st st'" "n \<in> open_xacts st" "n \<in> open_xacts st' \<Longrightarrow> phase_ok st' n"
    "same_identity (xs_xact st n) (xs_xact st' n)" "x_xid (xs_xact st' n) = x_xid (xs_xact st n)"
  shows "xacts_ok st'"
proof (rule xacts_ok_step [OF assms(1-3,5)])
  assume "x_org (xs_xact st' n) = Remote_originator"
  then show "\<forall>m \<in> open_xacts st - {n}. x_org (xs_xact st m) = Remote_originator \<longrightarrow> x_node (xs_xact st m) = x_node (xs_xact st' n) \<longrightarrow>
        x_xid (xs_xact st m) \<noteq> x_xid (xs_xact st' n)"
    using xacts_okD(3) [OF assms(1) _ assms(4)] assms(6,7) by (auto simp: same_identity_def)
qed simp

lemma xacts_ok_delete:
  assumes "xacts_ok st" "n \<in> open_xacts st"
  shows "\<exists>st'. ogs_pfcp_xact_delete n st = Ret st' \<and> xacts_ok st' \<and> without n st st'"
proof -
  obtain st' where d: "ogs_pfcp_xact_delete n st = Ret st'" "without n st st'"
    using xact_delete_ok [OF xacts_okD(1) [OF assms(1)] assms(2)] by blast
  have "xacts_ok st'"
    by (rule xacts_ok_step [OF assms(1) _ others_kept_without [OF d(2)]]) (use d(2) in \<open>auto simp: without_def\<close>)
  with d show ?thesis by blast
qed

section \<open>Requests\<close>

definition conf_ok :: "xact_conf \<Rightarrow> bool" where
  "conf_ok conf \<longleftrightarrow> t1_response_duration conf \<noteq> 0 \<and> t1_holding_duration conf \<noteq> 0"

lemma stage_not_zero [simp]: "ogs_pfcp_xact_get_stage 0 = Unknown_stage"
  by (simp add: ogs_pfcp_xact_get_stage_def)

lemma createdD:
  assumes "created n x st st'"
  shows "base_ok st'" "n \<notin> open_xacts st" "open_xacts st' = insert n (open_xacts st)" "others_kept n st st'" "alarm_of st' n k = None"
    "x_org (xs_xact st' n) = x_org x" "x_node (xs_xact st' n) = x_node x" "x_xid (xs_xact st' n) = x_xid x"
    "x_cb (xs_xact st' n) = x_cb x" "x_step (xs_xact st' n) = x_step x" "x_seq (xs_xact st' n) = x_seq x" "x_id (xs_xact st' n) = x_id x"
  using assms others_kept_created [OF assms] by (auto simp: created_def same_identity_def)

lemma zero_xact_simps [simp]:
  "x_org zero_xact = Local_originator" "x_step zero_xact = 0" "x_seq zero_xact = [(0, None), (0, None), (0, None)]"
  "x_cb zero_xact = None" "x_timer zero_xact = (\<lambda>_. None)"
  by (simp_all add: zero_xact_def numeral_3_eq_3)

text \<open>What a local transaction is while it waits for its response.\<close>

definition waiting :: "('c, 'd) xact_state \<Rightarrow> nat \<Rightarrow> nat \<Rightarrow> u32 \<Rightarrow> u8 \<Rightarrow> bytes \<Rightarrow> 'd option \<Rightarrow> bool" where
  "waiting st n d xid type packet cb \<longleftrightarrow> n \<in> open_xacts st \<and> (let x = xs_xact st n in
     x_org x = Local_originator \<and> x_node x = d \<and> x_xid x = xid \<and> x_cb x = cb \<and> x_step x = 1 \<and>
     seq_type 0 x = type \<and> seq_pkbuf 0 x = Some packet)"

lemma send_request_ok:
  assumes ok: "xacts_ok st" and room: "xact_room st" "timer_room st" and c: "conf_ok conf"
    and t: "ogs_pfcp_xact_get_stage type = Initial_stage"
  shows "\<exists>st' n. send_request conf now d cb type seid (Some b) st =
      Ret (st', [Sent d (ogs_pfcp_header type seid (next_xid (xs_g_xact_id st)) b)], True) \<and>
    xacts_ok st' \<and> n \<notin> open_xacts st \<and> open_xacts st' = insert n (open_xacts st) \<and> others_kept n st st' \<and>
    waiting st' n d (next_xid (xs_g_xact_id st)) type (ogs_pfcp_header type seid (next_xid (xs_g_xact_id st)) b) cb \<and>
    x_response_rcount (xs_xact st' n) = n1_response_rcount conf \<and>
    alarm_of st' n Response_timer = Some (now + t1_response_duration conf)"
proof -
  let ?xid = "next_xid (xs_g_xact_id st)"
  let ?h = "ogs_pfcp_header type seid ?xid b"
  obtain st1 n i where s1: "ogs_pfcp_xact_local_create conf d cb st = Ret (st1, Some n)"
    "created n (zero_xact\<lparr>x_id := i, x_xid := ?xid, x_node := d, x_cb := cb\<rparr>) st st1"
    "x_response_rcount (xs_xact st1 n) = n1_response_rcount conf"
    using local_create_ok [OF xacts_okD(1) [OF ok] room] by blast
  note D = createdD [OF s1(2)]
  define f where "f = (\<lambda>x :: 'b pfcp_xact. x\<lparr>x_seq := (x_seq x)[x_step x := (type, Some (ogs_pfcp_header type seid (x_xid x) b))],
                 x_step := x_step x + 1\<rparr>)"
  have same: "same_identity (xs_xact st1 n) (f (xs_xact st1 n))" by (simp add: f_def same_identity_def)
  define st2 where "st2 = update_xact n f st1"
  note U = base_ok_update [OF D(1), of n f, OF same, folded st2_def]
  have x2: "xs_xact st2 n = f (xs_xact st1 n)" by (simp add: st2_def)
  have n2: "n \<in> open_xacts st2" by (simp add: U D)
  obtain st3 where s3: "start_xact_timer now Response_timer (t1_response_duration conf) n st2 = Ret st3"
    "alarm_changed n Response_timer (Some (now + t1_response_duration conf)) st2 st3"
    using start_xact_timer_ok [OF U(1) n2] c unfolding conf_ok_def by blast
  note A = others_kept_alarm [OF s3(2)]
  have "ogs_pfcp_xact_update_tx n type seid b st1 = Ret (st2, True)"
    using D t by (simp add: ogs_pfcp_xact_update_tx_def Let_def tx_step_ok_def st2_def f_def)
  moreover have "ogs_pfcp_xact_commit conf now n st2 = Ret (st3, [Sent d ?h], True)"
    using s3(1) D t A(2) x2
    by (simp add: ogs_pfcp_xact_commit_def Let_def commit_action_def send_last_def seq_type_def seq_pkbuf_def f_def)
  ultimately have run: "send_request conf now d cb type seid (Some b) st = Ret (st3, [Sent d ?h], True)"
    using s1(1) by (simp add: send_request_def)
  have w: "waiting st3 n d ?xid type ?h cb"
    using D A(2) x2 n2 A(4) by (simp add: waiting_def Let_def f_def seq_type_def seq_pkbuf_def)
  have kept: "others_kept n st st3"
    using others_kept_trans [OF D(4) others_kept_trans [OF others_kept_update [OF D(1), of n f, OF same, folded st2_def] A(1)]] .
  have al: "alarm_of st3 n k = (if k = Response_timer then Some (now + t1_response_duration conf) else None)" for k
    using A(6) [OF n2, of k] D(5) U(3) by simp
  have "xacts_ok st3"
  proof (rule xacts_ok_step [OF ok A(3) kept])
    show "phase_ok st3 n" using w t D(11) A(2) x2 by (simp add: phase_ok_def waiting_def Let_def al) (simp add: f_def)
  qed (use w in \<open>simp add: waiting_def Let_def\<close>)
  then show ?thesis using run w kept al A(2,4) D(2,3) U(2) x2 s1(3) by (auto simp: f_def)
qed

text \<open>A request that cannot be built leaves its transaction behind, without any timer that runs.\<close>

lemma send_request_none:
  assumes ok: "xacts_ok st" and room: "xact_room st" "timer_room st"
  shows "\<exists>st' n. send_request conf now d cb type seid None st = Ret (st', [], False) \<and> xacts_ok st' \<and>
    n \<notin> open_xacts st \<and> open_xacts st' = insert n (open_xacts st) \<and> others_kept n st st' \<and>
    x_org (xs_xact st' n) = Local_originator \<and> x_step (xs_xact st' n) = 0 \<and> (\<forall>k. alarm_of st' n k = None)"
proof -
  obtain st1 n i where s1: "ogs_pfcp_xact_local_create conf d cb st = Ret (st1, Some n)"
    "created n (zero_xact\<lparr>x_id := i, x_xid := next_xid (xs_g_xact_id st), x_node := d, x_cb := cb\<rparr>) st st1"
    using local_create_ok [OF xacts_okD(1) [OF ok] room] by blast
  note D = createdD [OF s1(2)]
  have "xacts_ok st1"
  proof (rule xacts_ok_step [OF ok D(1) D(4)])
    show "phase_ok st1 n" using D by (simp add: phase_ok_def)
  qed (use D in simp)
  then show ?thesis using s1(1) D by (auto simp: send_request_def)
qed

section \<open>Arrivals\<close>

lemma xact_lookup_cases:
  assumes "base_ok st"
  obtains (Absent) "xact_lookup r d xid st = Some None" "\<forall>n \<in> members st r d. x_xid (xs_xact st n) \<noteq> xid"
    | (Present) n where "xact_lookup r d xid st = Some (Some n)" "n \<in> members st r d" "x_xid (xs_xact st n) = xid"
proof -
  obtain ns where ns: "list_at (xact_list r d st) ns" "set ns = members st r d" using lists_asD [OF base_okD(1) [OF assms]] by blast
  have l: "xact_lookup r d xid st = Some (List.find (\<lambda>n. x_xid (xs_xact st n) = xid) ns)"
    using find_list_at [OF ns(1)] by (simp add: xact_lookup_def xact_list_def)
  show thesis
  proof (cases "List.find (\<lambda>n. x_xid (xs_xact st n) = xid) ns")
    case None
    then show ?thesis using l ns(2) by (intro Absent) (auto simp: find_None_iff)
  next
    case (Some n)
    then show ?thesis using l ns(2) by (intro Present [of n]) (auto simp: find_Some_iff)
  qed
qed

text \<open>A message at the wrong step deletes the transaction it was taken for.\<close>

lemma receive_error:
  assumes ok: "xacts_ok st" and n: "n \<in> open_xacts st"
    and e: "ogs_pfcp_xact_update_rx conf now n type st = Ret (st, [], Rx_error)"
  shows "\<exists>st'. receive_on conf now n type st = Ret (st', [], Rx_error, None) \<and> xacts_ok st' \<and> without n st st'"
  using xacts_ok_delete [OF ok n] by (auto simp: receive_on_def e)

text \<open>The first arrival is recorded; a remote transaction is held from then on.\<close>

lemma record_rx_ok:
  assumes b: "base_ok st" and n: "n \<in> open_xacts st"
  shows "\<exists>st'. record_rx n type st = Ret (st', [], Rx_ok) \<and> base_ok st' \<and> open_xacts st' = open_xacts st \<and> others_kept n st st' \<and>
    xs_xact st' n = (xs_xact st n)\<lparr>x_seq := (x_seq (xs_xact st n))[x_step (xs_xact st n) := (type, seq_pkbuf (x_step (xs_xact st n)) (xs_xact st n))],
      x_step := x_step (xs_xact st n) + 1\<rparr> \<and>
    (\<forall>k. alarm_of st' n k = (if k = Response_timer then None else alarm_of st n k))"
proof -
  obtain st1 where s1: "stop_xact_timer Response_timer n st = Ret st1" "alarm_changed n Response_timer None st st1"
    using stop_xact_timer_ok [OF b n] by blast
  note A = others_kept_alarm [OF s1(2)]
  define f where "f = (\<lambda>x :: 'b pfcp_xact. x\<lparr>x_seq := (x_seq x)[x_step x := (type, seq_pkbuf (x_step x) x)], x_step := x_step x + 1\<rparr>)"
  have same: "same_identity (xs_xact st1 n) (f (xs_xact st1 n))" by (simp add: f_def same_identity_def)
  note U = base_ok_update [OF A(3), of n f, OF same]
  have "others_kept n st (update_xact n f st1)"
    using others_kept_trans [OF A(1) others_kept_update [OF A(3), of n f, OF same]] .
  moreover have "record_rx n type st = Ret (update_xact n f st1, [], Rx_ok)" by (simp add: record_rx_def s1(1) f_def)
  moreover have "xs_xact (update_xact n f st1) n = f (xs_xact st n)" by (simp add: A(2))
  ultimately show ?thesis using U A(4,6) n by (auto simp: f_def)
qed

lemma receive_local:
  assumes ok: "xacts_ok st" and n: "n \<in> open_xacts st" "x_org (xs_xact st n) = Local_originator" "x_step (xs_xact st n) = 1"
    and t: "ogs_pfcp_xact_get_stage type = Final_stage"
  shows "\<exists>st'. receive_on conf now n type st = Ret (st', [], Rx_ok, Some n) \<and> xacts_ok st' \<and> open_xacts st' = open_xacts st \<and>
    others_kept n st st' \<and> x_org (xs_xact st' n) = Local_originator \<and> x_step (xs_xact st' n) = 2 \<and> (\<forall>k. alarm_of st' n k = None) \<and>
    same_identity (xs_xact st n) (xs_xact st' n) \<and> x_cb (xs_xact st' n) = x_cb (xs_xact st n) \<and> seq_type 0 (xs_xact st' n) = seq_type 0 (xs_xact st n)"
proof -
  obtain st' where s: "record_rx n type st = Ret (st', [], Rx_ok)" "base_ok st'" "open_xacts st' = open_xacts st" "others_kept n st st'"
    "xs_xact st' n = (xs_xact st n)\<lparr>x_seq := (x_seq (xs_xact st n))[1 := (type, seq_pkbuf 1 (xs_xact st n))], x_step := 2\<rparr>"
    "\<And>k. alarm_of st' n k = (if k = Response_timer then None else alarm_of st n k)"
    using record_rx_ok [OF xacts_okD(1) [OF ok] n(1), of type] n(3) by (auto simp: numeral_2_eq_2)
  have p: "phase_ok st n" by (rule xacts_okD(2) [OF ok n(1)])
  then have p': "length (x_seq (xs_xact st n)) = 3" "alarm_of st n Holding_timer = None" "alarm_of st n Delayed_commit_timer = None"
    "ogs_pfcp_xact_get_stage (seq_type 0 (xs_xact st n)) = Initial_stage" "seq_pkbuf 0 (xs_xact st n) \<noteq> None"
    using n by (auto simp: phase_ok_def Let_def)
  have al: "alarm_of st' n k = None" for k using p' s(6) [of k] by (cases k) auto
  have "phase_ok st' n" using n t p' by (simp add: phase_ok_def s(5) al seq_type_def seq_pkbuf_def)
  then have "xacts_ok st'" by (intro xacts_ok_same [OF ok s(2,4) n(1)]) (simp_all add: s(5) same_identity_def)
  moreover have "receive_on conf now n type st = Ret (st', [], Rx_ok, Some n)"
    using n t s(1) by (simp add: receive_on_def ogs_pfcp_xact_update_rx_def Let_def)
  ultimately show ?thesis using s(3,4,5) al n by (simp add: same_identity_def seq_type_def)
qed

text \<open>A request that comes again: the response is sent once more if it is there already.\<close>

definition answer :: "('c, 'd) xact_state \<Rightarrow> nat \<Rightarrow> 'd xact_out list" where
  "answer st n = (case seq_pkbuf 1 (xs_xact st n) of None \<Rightarrow> [] | Some b \<Rightarrow> [Sent (x_node (xs_xact st n)) b])"

lemma receive_duplicate:
  assumes ok: "xacts_ok st" and c: "conf_ok conf"
    and n: "n \<in> open_xacts st" "x_org (xs_xact st n) = Remote_originator" "seq_type 0 (xs_xact st n) = type"
  shows "\<exists>st'. receive_on conf now n type st = Ret (st', answer st n, Rx_retry, None) \<and> xacts_ok st' \<and> others_kept n st st' \<and>
    open_xacts st' = open_xacts st \<and> xs_xact st' = xs_xact st"
proof -
  have p: "phase_ok st n" by (rule xacts_okD(2) [OF ok n(1)])
  then have t: "ogs_pfcp_xact_get_stage type = Initial_stage" "x_step (xs_xact st n) = 1 \<or> x_step (xs_xact st n) = 2"
    using n by (auto simp: phase_ok_def Let_def)
  have run: "ogs_pfcp_xact_update_rx conf now n type st = duplicated conf now n 1 st"
    using n t by (auto simp: ogs_pfcp_xact_update_rx_def Let_def)
  show ?thesis
  proof (cases "seq_pkbuf 1 (xs_xact st n)")
    case None
    then show ?thesis using ok run by (auto simp: receive_on_def duplicated_def answer_def others_kept_refl)
  next
    case (Some b)
    obtain st' where s: "start_xact_timer now Holding_timer (t1_holding_duration conf) n st = Ret st'"
      "alarm_changed n Holding_timer (Some (now + t1_holding_duration conf)) st st'"
      using start_xact_timer_ok [OF xacts_okD(1) [OF ok] n(1)] c unfolding conf_ok_def by blast
    note A = others_kept_alarm [OF s(2)]
    have "phase_ok st' n" using p n A(6) [OF n(1)] by (simp add: phase_ok_def A(2) Let_def)
    then have "xacts_ok st'" by (intro xacts_ok_same [OF ok A(3,1) n(1)]) (simp_all add: A(2) same_identity_def)
    then show ?thesis using run Some s(1) A by (simp add: receive_on_def duplicated_def answer_def)
  qed
qed

text \<open>A message of another type than the request of that number deletes the held transaction.\<close>

lemma receive_other_type:
  assumes ok: "xacts_ok st"
    and n: "n \<in> open_xacts st" "x_org (xs_xact st n) = Remote_originator" "seq_type 0 (xs_xact st n) \<noteq> type"
    and t: "ogs_pfcp_xact_get_stage type = Initial_stage"
  shows "\<exists>st'. receive_on conf now n type st = Ret (st', [], Rx_error, None) \<and> xacts_ok st' \<and> without n st st'"
proof (rule receive_error [OF ok n(1)])
  have "x_step (xs_xact st n) \<noteq> 0" using xacts_okD(2) [OF ok n(1)] n by (auto simp: phase_ok_def Let_def)
  then show "ogs_pfcp_xact_update_rx conf now n type st = Ret (st, [], Rx_error)"
    using n t by (simp add: ogs_pfcp_xact_update_rx_def Let_def)
qed

text \<open>The first arrival of a request: its transaction is created and held.\<close>

definition held :: "('c, 'd) xact_state \<Rightarrow> nat \<Rightarrow> nat \<Rightarrow> u32 \<Rightarrow> u8 \<Rightarrow> bool" where
  "held st n d xid type \<longleftrightarrow> n \<in> open_xacts st \<and> (let x = xs_xact st n in
     x_org x = Remote_originator \<and> x_node x = d \<and> x_xid x = xid \<and> seq_type 0 x = type)"

lemma receive_new:
  assumes ok: "xacts_ok st" and room: "xact_room st" "timer_room st" and c: "conf_ok conf"
    and t: "ogs_pfcp_xact_get_stage type = Initial_stage" and free: "\<forall>n \<in> members st Remote_originator d. x_xid (xs_xact st n) \<noteq> xid"
  shows "\<exists>st' n. exec_bind (ogs_pfcp_xact_remote_create conf d xid st) (\<lambda>(st, new).
      case new of None \<Rightarrow> Abort | Some n \<Rightarrow> receive_on conf now n type st) = Ret (st', [], Rx_ok, Some n) \<and>
    xacts_ok st' \<and> n \<notin> open_xacts st \<and> open_xacts st' = insert n (open_xacts st) \<and> others_kept n st st' \<and>
    held st' n d xid type \<and> x_step (xs_xact st' n) = 1"
proof -
  obtain st1 n i where s1: "ogs_pfcp_xact_remote_create conf d xid st = Ret (st1, Some n)"
    "created n (zero_xact\<lparr>x_id := i, x_org := Remote_originator, x_xid := xid, x_node := d\<rparr>) st st1"
    using remote_create_ok [OF xacts_okD(1) [OF ok] room] by blast
  note D = createdD [OF s1(2)]
  have n1: "n \<in> open_xacts st1" by (simp add: D)
  obtain st2 where s2: "start_xact_timer now Holding_timer (t1_holding_duration conf) n st1 = Ret st2"
    "alarm_changed n Holding_timer (Some (now + t1_holding_duration conf)) st1 st2"
    using start_xact_timer_ok [OF D(1) n1] c unfolding conf_ok_def by blast
  note A = others_kept_alarm [OF s2(2)]
  have n2: "n \<in> open_xacts st2" by (simp add: A n1)
  obtain st3 where s3: "record_rx n type st2 = Ret (st3, [], Rx_ok)" "base_ok st3" "open_xacts st3 = open_xacts st2"
    "others_kept n st2 st3"
    "xs_xact st3 n = (xs_xact st2 n)\<lparr>x_seq := (x_seq (xs_xact st2 n))[x_step (xs_xact st2 n) := (type, seq_pkbuf (x_step (xs_xact st2 n)) (xs_xact st2 n))],
      x_step := x_step (xs_xact st2 n) + 1\<rparr>"
    "\<And>k. alarm_of st3 n k = (if k = Response_timer then None else alarm_of st2 n k)"
    using record_rx_ok [OF A(3) n2, of type] by blast
  have x1: "x_org (xs_xact st1 n) = Remote_originator" "x_step (xs_xact st1 n) = 0" "x_seq (xs_xact st1 n) = [(0, None), (0, None), (0, None)]"
    "x_node (xs_xact st1 n) = d" "x_xid (xs_xact st1 n) = xid" using D by simp_all
  have "seq_type 0 (xs_xact st1 n) \<noteq> type" using t x1(3) by (auto simp: seq_type_def)
  then have rx: "ogs_pfcp_xact_update_rx conf now n type st1 = Ret (st3, [], Rx_ok)"
    using x1 t s2(1) s3(1) by (simp add: ogs_pfcp_xact_update_rx_def Let_def)
  have x3: "xs_xact st3 n = (xs_xact st1 n)\<lparr>x_seq := [(type, None), (0, None), (0, None)], x_step := 1\<rparr>"
    using s3(5) x1 by (simp add: A(2) seq_pkbuf_def)
  have kept: "others_kept n st st3" using others_kept_trans [OF D(4) others_kept_trans [OF A(1) s3(4)]] .
  have al: "alarm_of st3 n k = (if k = Holding_timer then Some (now + t1_holding_duration conf) else None)" for k
    using s3(6) [of k] A(6) [OF n1, of k] D(5) by (cases k) auto
  have ph: "phase_ok st3 n" using x1 t by (simp add: phase_ok_def x3 al seq_type_def seq_pkbuf_def)
  have "xacts_ok st3"
  proof (rule xacts_ok_step [OF ok s3(2) kept ph])
    show "\<forall>m \<in> open_xacts st - {n}. x_org (xs_xact st m) = Remote_originator \<longrightarrow> x_node (xs_xact st m) = x_node (xs_xact st3 n) \<longrightarrow>
        x_xid (xs_xact st m) \<noteq> x_xid (xs_xact st3 n)"
      using free x1 by (auto simp: x3 members_def)
  qed
  moreover have "held st3 n d xid type" using x1 n2 s3(3) by (simp add: held_def x3 seq_type_def)
  ultimately show ?thesis using s1(1) rx kept D(2,3) A(4) s3(3) x1 by (auto simp: receive_on_def x3)
qed

end
