(* ===== verification/Xact_Events.thy ===== *)
theory Xact_Events
  imports Xact_Steps
begin

text \<open>
  The events in the life of transactions, the states they reach, and what holds there: a request of
  a peer is handed to the program once, a request to a peer is sent until it is answered or given up.
\<close>

section \<open>Arrivals\<close>

text \<open>A response that no request of ours has asked for: a transaction is created for it and deleted again.\<close>

lemma receive_stray:
  assumes ok: "xacts_ok st" and room: "xact_room st" "timer_room st"
    and t: "ogs_pfcp_xact_get_stage type = Final_stage"
  shows "\<exists>st' n. exec_bind (ogs_pfcp_xact_remote_create conf d xid st) (\<lambda>(st, new).
      case new of None \<Rightarrow> Abort | Some n \<Rightarrow> receive_on conf now n type st) = Ret (st', [], Rx_error, None) \<and>
    xacts_ok st' \<and> n \<notin> open_xacts st \<and> others_kept n st st' \<and> open_xacts st' = open_xacts st"
proof -
  obtain st1 n i where s1: "ogs_pfcp_xact_remote_create conf d xid st = Ret (st1, Some n)"
    "created n (zero_xact\<lparr>x_id := i, x_org := Remote_originator, x_xid := xid, x_node := d\<rparr>) st st1"
    using remote_create_ok [OF xacts_okD(1) [OF ok] room] by blast
  note D = createdD [OF s1(2)]
  have n1: "n \<in> open_xacts st1" by (simp add: D)
  obtain st2 where s2: "ogs_pfcp_xact_delete n st1 = Ret st2" "without n st1 st2"
    using xact_delete_ok [OF D(1) n1] by blast
  have rx: "ogs_pfcp_xact_update_rx conf now n type st1 = Ret (st1, [], Rx_error)"
    using D t by (simp add: ogs_pfcp_xact_update_rx_def Let_def)
  have k: "others_kept n st st2" using others_kept_trans [OF D(4) others_kept_without [OF s2(2)]] .
  have o: "open_xacts st2 = open_xacts st" "base_ok st2" using s2(2) D(2,3) by (auto simp: without_def)
  have "xacts_ok st2" by (rule xacts_ok_step [OF ok o(2) k]) (use o(1) D(2) in auto)
  then show ?thesis using s1(1) rx s2(1) k o(1) D(2) by (auto simp: receive_on_def)
qed

text \<open>What an arrival does, in each of its cases.\<close>

datatype arrival = Refused | Stray nat | Mismatch nat | Repeated nat | First nat | Answer nat

definition arrival_effect ::
  "arrival \<Rightarrow> nat \<Rightarrow> u8 \<Rightarrow> u32 \<Rightarrow> ('c, 'd) xact_state \<Rightarrow> ('c, 'd) xact_state \<Rightarrow> 'd xact_out list \<Rightarrow> rx_result \<Rightarrow> nat option \<Rightarrow> bool" where
  "arrival_effect a d type xid st st' os rv new = (case a of
     Refused \<Rightarrow> ogs_pfcp_xact_get_stage type \<notin> {Initial_stage, Final_stage} \<and> st' = st \<and> os = [] \<and> rv = Rx_error \<and> new = None
   | Stray n \<Rightarrow> ogs_pfcp_xact_get_stage type = Final_stage \<and> others_kept n st st' \<and> n \<notin> open_xacts st \<and>
       open_xacts st' = open_xacts st \<and> os = [] \<and> rv = Rx_error \<and> new = None
   | Mismatch n \<Rightarrow> n \<in> open_xacts st \<and> x_node (xs_xact st n) = d \<and> x_xid (xs_xact st n) = xid \<and>
       \<not> held st n d xid type \<and> (x_org (xs_xact st n) = Local_originator \<longrightarrow> x_step (xs_xact st n) \<noteq> 1) \<and>
       (x_org (xs_xact st n) = Remote_originator \<longleftrightarrow> ogs_pfcp_xact_get_stage type = Initial_stage) \<and>
       without n st st' \<and> os = [] \<and> rv = Rx_error \<and> new = None
   | Repeated n \<Rightarrow> held st n d xid type \<and> others_kept n st st' \<and> open_xacts st' = open_xacts st \<and> xs_xact st' = xs_xact st \<and>
       os = answer st n \<and> rv = Rx_retry \<and> new = None
   | First n \<Rightarrow> ogs_pfcp_xact_get_stage type = Initial_stage \<and> (\<forall>m \<in> members st Remote_originator d. x_xid (xs_xact st m) \<noteq> xid) \<and>
       n \<notin> open_xacts st \<and> open_xacts st' = insert n (open_xacts st) \<and> others_kept n st st' \<and>
       held st' n d xid type \<and> x_step (xs_xact st' n) = 1 \<and> os = [] \<and> rv = Rx_ok \<and> new = Some n
   | Answer n \<Rightarrow> ogs_pfcp_xact_get_stage type = Final_stage \<and> n \<in> open_xacts st \<and> x_node (xs_xact st n) = d \<and>
       x_xid (xs_xact st n) = xid \<and> x_org (xs_xact st n) = Local_originator \<and> x_step (xs_xact st n) = 1 \<and>
       others_kept n st st' \<and> open_xacts st' = open_xacts st \<and> x_org (xs_xact st' n) = Local_originator \<and>
       x_step (xs_xact st' n) = 2 \<and> (\<forall>k. alarm_of st' n k = None) \<and> same_identity (xs_xact st n) (xs_xact st' n) \<and>
       x_cb (xs_xact st' n) = x_cb (xs_xact st n) \<and> os = [] \<and> rv = Rx_ok \<and> new = Some n)"

lemma stage_cases:
  obtains "ogs_pfcp_xact_get_stage type = Initial_stage" | "ogs_pfcp_xact_get_stage type = Final_stage"
    | "ogs_pfcp_xact_get_stage type = Unknown_stage"
proof -
  have "ogs_pfcp_xact_get_stage type \<noteq> Intermediate_stage" by (simp add: ogs_pfcp_xact_get_stage_def)
  then show thesis using that by (cases "ogs_pfcp_xact_get_stage type") auto
qed

text \<open>A message that belongs to no transaction: one is created for it, even if it is a stray response.\<close>

definition new_arrival :: "nat \<Rightarrow> u8 \<Rightarrow> u32 \<Rightarrow> ('c, 'd) xact_state \<Rightarrow> bool" where
  "new_arrival d type xid st \<longleftrightarrow> ogs_pfcp_xact_get_stage type \<noteq> Unknown_stage \<and>
     xact_lookup (if ogs_pfcp_xact_get_stage type = Initial_stage then Remote_originator else Local_originator) d xid st = Some None"

lemma receive_initial:
  assumes ok: "xacts_ok st" and room: "new_arrival d type xid st \<Longrightarrow> xact_room st \<and> timer_room st" and c: "conf_ok conf"
    and t: "ogs_pfcp_xact_get_stage type = Initial_stage"
  shows "\<exists>st' os rv new a. ogs_pfcp_xact_receive conf now d type xid st = Ret (st', os, rv, new) \<and> xacts_ok st' \<and>
    arrival_effect a d type xid st st' os rv new"
proof (cases rule: xact_lookup_cases [OF xacts_okD(1) [OF ok], of Remote_originator d xid])
  case 1
  then have room: "xact_room st" "timer_room st" using room t by (simp_all add: new_arrival_def)
  from 1 obtain st' n where "exec_bind (ogs_pfcp_xact_remote_create conf d xid st) (\<lambda>(st, new).
      case new of None \<Rightarrow> Abort | Some n \<Rightarrow> receive_on conf now n type st) = Ret (st', [], Rx_ok, Some n)" "xacts_ok st'"
    "arrival_effect (First n) d type xid st st' [] Rx_ok (Some n)"
    using receive_new [OF ok room c t, of d xid now] t unfolding arrival_effect_def by auto
  then show ?thesis using 1(1) t by (auto simp: ogs_pfcp_xact_receive_def)
next
  case (2 n)
  then have n: "n \<in> open_xacts st" "x_org (xs_xact st n) = Remote_originator" "x_node (xs_xact st n) = d"
    by (simp_all add: members_def)
  show ?thesis
  proof (cases "seq_type 0 (xs_xact st n) = type")
    case True
    then obtain st' where "receive_on conf now n type st = Ret (st', answer st n, Rx_retry, None)" "xacts_ok st'"
      "arrival_effect (Repeated n) d type xid st st' (answer st n) Rx_retry None"
      using receive_duplicate [OF ok c n(1,2), of type now] n 2(3) by (auto simp: arrival_effect_def held_def Let_def)
    then show ?thesis using 2(1) t by (auto simp: ogs_pfcp_xact_receive_def)
  next
    case False
    then obtain st' where "receive_on conf now n type st = Ret (st', [], Rx_error, None)" "xacts_ok st'"
      "arrival_effect (Mismatch n) d type xid st st' [] Rx_error None"
      using receive_other_type [OF ok n(1,2), of type conf now] n 2(3) t by (auto simp: arrival_effect_def held_def Let_def)
    then show ?thesis using 2(1) t by (auto simp: ogs_pfcp_xact_receive_def)
  qed
qed

lemma receive_final:
  assumes ok: "xacts_ok st" and room: "new_arrival d type xid st \<Longrightarrow> xact_room st \<and> timer_room st" and c: "conf_ok conf"
    and t: "ogs_pfcp_xact_get_stage type = Final_stage"
  shows "\<exists>st' os rv new a. ogs_pfcp_xact_receive conf now d type xid st = Ret (st', os, rv, new) \<and> xacts_ok st' \<and>
    arrival_effect a d type xid st st' os rv new"
proof (cases rule: xact_lookup_cases [OF xacts_okD(1) [OF ok], of Local_originator d xid])
  case 1
  then have room: "xact_room st" "timer_room st" using room t by (simp_all add: new_arrival_def)
  obtain st' n where "exec_bind (ogs_pfcp_xact_remote_create conf d xid st) (\<lambda>(st, new).
      case new of None \<Rightarrow> Abort | Some n \<Rightarrow> receive_on conf now n type st) = Ret (st', [], Rx_error, None)" "xacts_ok st'"
    "arrival_effect (Stray n) d type xid st st' [] Rx_error None"
    using receive_stray [OF ok room t, of conf d xid now] t unfolding arrival_effect_def by auto
  then show ?thesis using 1(1) t by (auto simp: ogs_pfcp_xact_receive_def)
next
  case (2 n)
  then have n: "n \<in> open_xacts st" "x_org (xs_xact st n) = Local_originator" "x_node (xs_xact st n) = d"
    by (simp_all add: members_def)
  show ?thesis
  proof (cases "x_step (xs_xact st n) = 1")
    case True
    then obtain st' where "receive_on conf now n type st = Ret (st', [], Rx_ok, Some n)" "xacts_ok st'"
      "arrival_effect (Answer n) d type xid st st' [] Rx_ok (Some n)"
      using receive_local [OF ok n(1,2) True t, of conf now] n 2(3) t by (auto simp: arrival_effect_def)
    then show ?thesis using 2(1) t by (auto simp: ogs_pfcp_xact_receive_def)
  next
    case False
    then have "ogs_pfcp_xact_update_rx conf now n type st = Ret (st, [], Rx_error)"
      using n t by (simp add: ogs_pfcp_xact_update_rx_def Let_def)
    then obtain st' where "receive_on conf now n type st = Ret (st', [], Rx_error, None)" "xacts_ok st'"
      "arrival_effect (Mismatch n) d type xid st st' [] Rx_error None"
      using receive_error [OF ok n(1), of conf now type] n 2(3) t False by (auto simp: arrival_effect_def held_def Let_def)
    then show ?thesis using 2(1) t by (auto simp: ogs_pfcp_xact_receive_def)
  qed
qed

lemma receive_ok:
  assumes "xacts_ok st" "new_arrival d type xid st \<Longrightarrow> xact_room st \<and> timer_room st" "conf_ok conf"
  shows "\<exists>st' os rv new a. ogs_pfcp_xact_receive conf now d type xid st = Ret (st', os, rv, new) \<and> xacts_ok st' \<and>
    arrival_effect a d type xid st st' os rv new"
proof (cases rule: stage_cases [of type])
  case 1
  then show ?thesis using receive_initial [OF assms, where now = now] by blast
next
  case 2
  then show ?thesis using receive_final [OF assms, where now = now] by blast
next
  case 3
  then have "arrival_effect Refused d type xid st st [] Rx_error None" by (simp add: arrival_effect_def)
  then show ?thesis using 3 assms(1) by (auto simp: ogs_pfcp_xact_receive_def)
qed

text \<open>Without room for a new transaction the assertion on its creation ends the process.\<close>

lemma timers_add_None:
  assumes "timers_ok m" "card (allocated (tm_pool m)) = pool_size (tm_pool m)"
  shows "ogs_timer_add m cb = (m, None)"
proof -
  have "pool_ok (tm_pool m)" using assms(1) by (simp add: timers_ok_def)
  then have "pool_avail (tm_pool m) = 0" using card_allocated [of "tm_pool m"] assms(2) by simp
  then show ?thesis by (simp add: ogs_timer_add_def alloc_None)
qed

definition no_transaction :: "(('c, 'd) xact_state \<times> nat option) exec \<Rightarrow> bool" where
  "no_transaction r \<longleftrightarrow> (\<forall>st' n. r \<noteq> Ret (st', Some n))"

lemma add_timer_none:
  assumes t: "timers_ok (xs_timers st)" and f: "free_timers st = 0"
  shows "no_transaction (add_xact_timer k n rest st)"
proof -
  have "pool_ok (tm_pool (xs_timers st))" using t by (simp add: timers_ok_def)
  then have "card (allocated (tm_pool (xs_timers st))) = pool_size (tm_pool (xs_timers st))"
    using card_allocated [of "tm_pool (xs_timers st)"] f by (simp add: free_timers_def)
  from timers_add_None [OF t this] show ?thesis
    by (cases "ogs_pfcp_xact_delete n st") (simp_all add: add_xact_timer_def no_transaction_def)
qed

lemma add_timer_less:
  assumes t: "timers_ok (xs_timers st)" and f: "free_timers st = Suc i"
    and rest: "\<And>st. timers_ok (xs_timers st) \<Longrightarrow> free_timers st = i \<Longrightarrow> no_transaction (rest st)"
  shows "no_transaction (add_xact_timer k n rest st)"
proof -
  let ?m = "xs_timers st" and ?cb = "Xact_call k (x_id (xs_xact st n))"
  have "card (allocated (tm_pool ?m)) < pool_size (tm_pool ?m)" using f by (simp add: free_timers_def)
  from timer_add_ok [OF t this, of ?cb] obtain m s where m: "ogs_timer_add ?m ?cb = (m, Some s)" "timers_ok m"
    "s \<notin> allocated (tm_pool ?m)" "allocated (tm_pool m) = insert s (allocated (tm_pool ?m))"
    "pool_size (tm_pool m) = pool_size (tm_pool ?m)" by metis
  let ?st = "update_xact n (\<lambda>x. x\<lparr>x_timer := (x_timer x)(k := Some s)\<rparr>) (st\<lparr>xs_timers := m\<rparr>)"
  have "free_timers ?st = i" using f m(3-5) by (simp add: free_timers_def)
  then have "no_transaction (rest ?st)" using rest m(2) by simp
  then show ?thesis by (simp add: add_xact_timer_def m(1))
qed

lemma add_timers_none:
  assumes "timers_ok (xs_timers st)" "free_timers st < 3"
  shows "no_transaction (add_timers conf n st)"
proof -
  have f: "free_timers (update_xact n g st) = free_timers st" for g and st :: "('a, 'b) xact_state" by (simp add: free_timers_def)
  consider "free_timers st = 0" | "free_timers st = Suc 0" | "free_timers st = Suc (Suc 0)" using assms(2) by linarith
  then show ?thesis unfolding add_timers_def
  proof cases
    case 1
    then show "no_transaction (add_xact_timer Response_timer n rest st)" for rest by (rule add_timer_none [OF assms(1)])
  next
    case 2
    then show "no_transaction (add_xact_timer Response_timer n (\<lambda>st. add_xact_timer Holding_timer n (rest st) (update_xact n g st)) st)"
      for rest g by (rule add_timer_less [OF assms(1)]) (simp add: f add_timer_none)
  next
    case 3
    then show "no_transaction (add_xact_timer Response_timer n (\<lambda>st. add_xact_timer Holding_timer n
        (\<lambda>st. add_xact_timer Delayed_commit_timer n (rest st) (update_xact n h st)) (update_xact n g st)) st)" for rest g h
    proof (rule add_timer_less [OF assms(1)])
      fix st :: "('a, 'b) xact_state"
      assume s: "timers_ok (xs_timers st)" "free_timers st = Suc 0"
      show "no_transaction (add_xact_timer Holding_timer n
          (\<lambda>st. add_xact_timer Delayed_commit_timer n (rest st) (update_xact n h st)) (update_xact n g st))" for rest
        by (rule add_timer_less [where i = 0]) (simp_all add: s f add_timer_none)
    qed
  qed
qed

lemma receive_no_room:
  assumes ok: "xacts_ok st" and new: "new_arrival d type xid st" and room: "\<not> (xact_room st \<and> timer_room st)" "\<not> id_clash st"
  shows "ogs_pfcp_xact_receive conf now d type xid st = Abort"
proof -
  have b: "base_ok st" by (rule xacts_okD(1) [OF ok])
  have "no_transaction (ogs_pfcp_xact_remote_create conf d xid st)"
  proof (cases "xact_full st")
    case True
    then have "pool_avail (xs_pool st) = 0"
      using card_allocated [OF base_okD(6) [OF b]] by (simp add: xact_full_def open_xacts_def)
    then show ?thesis by (simp add: ogs_pfcp_xact_remote_create_def alloc_xact_def ogs_pool_id_calloc_def alloc_None no_transaction_def)
  next
    case False
    then have r: "xact_room st" using room(2) card_allocated [OF base_okD(6) [OF b]]
      by (auto simp: xact_room_def id_clash_def xact_full_def open_xacts_def)
    then have "free_timers st < 3" using room(1) by (simp add: timer_room_def free_timers_def)
    moreover obtain st1 n i x where "alloc_xact x st = (st1, Some n)" "taken n (x\<lparr>x_id := i\<rparr>) st st1"
      "x = zero_xact\<lparr>x_org := Remote_originator, x_xid := xid, x_node := d\<rparr>"
      using alloc_xact_taken [OF b r] by metis
    ultimately show ?thesis using base_okD(4) [OF b]
      by (auto simp: ogs_pfcp_xact_remote_create_def taken_def free_timers_def intro!: add_timers_none)
  qed
  then show ?thesis using new
    by (cases "ogs_pfcp_xact_remote_create conf d xid st")
      (auto simp: ogs_pfcp_xact_receive_def new_arrival_def no_transaction_def Let_def split: option.splits)
qed

section \<open>Responses\<close>

text \<open>A message put in a transaction, or a counter of it changed.\<close>

lemma change_xact_ok:
  assumes ok: "xacts_ok st" and n: "n \<in> open_xacts st"
    and same: "same_identity (xs_xact st n) (f (xs_xact st n))" "x_xid (f (xs_xact st n)) = x_xid (xs_xact st n)"
    and ph: "phase_ok (update_xact n f st) n"
  shows "xacts_ok (update_xact n f st)" "others_kept n st (update_xact n f st)"
proof -
  note U = base_ok_update [OF xacts_okD(1) [OF ok], of n f, OF same(1)]
  show k: "others_kept n st (update_xact n f st)" by (rule others_kept_update [OF xacts_okD(1) [OF ok], of n f, OF same(1)])
  show "xacts_ok (update_xact n f st)" by (rule xacts_ok_same [OF ok U(1) k n ph]) (use same in simp_all)
qed

lemma send_response_ok:
  assumes ok: "xacts_ok st" and n: "n \<in> open_xacts st" "x_org (xs_xact st n) = Remote_originator" "x_step (xs_xact st n) = 1"
    and t: "ogs_pfcp_xact_get_stage type = Final_stage"
  shows "\<exists>st'. send_response conf now n type seid (Some b) st =
      Ret (st', [Sent (x_node (xs_xact st n)) (ogs_pfcp_header type seid (x_xid (xs_xact st n)) b)], True) \<and>
    xacts_ok st' \<and> others_kept n st st' \<and> open_xacts st' = open_xacts st \<and>
    held st' n (x_node (xs_xact st n)) (x_xid (xs_xact st n)) (seq_type 0 (xs_xact st n)) \<and>
    answer st' n = [Sent (x_node (xs_xact st n)) (ogs_pfcp_header type seid (x_xid (xs_xact st n)) b)]"
proof -
  let ?h = "ogs_pfcp_header type seid (x_xid (xs_xact st n)) b"
  define f where "f = (\<lambda>x :: 'b pfcp_xact. x\<lparr>x_seq := (x_seq x)[x_step x := (type, Some (ogs_pfcp_header type seid (x_xid x) b))],
                 x_step := x_step x + 1\<rparr>)"
  define st1 where "st1 = update_xact n f st"
  have x1: "xs_xact st1 n = f (xs_xact st n)" by (simp add: st1_def)
  have p: "length (x_seq (xs_xact st n)) = 3" "phase_ok st n" using xacts_okD(2) [OF ok n(1)] by (simp_all add: phase_ok_def Let_def)
  have same: "same_identity (xs_xact st n) (f (xs_xact st n))" "x_xid (f (xs_xact st n)) = x_xid (xs_xact st n)"
    by (simp_all add: f_def same_identity_def)
  note U = base_ok_update [OF xacts_okD(1) [OF ok], of n f, OF same(1), folded st1_def]
  have s1: "seq_pkbuf 1 (xs_xact st1 n) = Some ?h" "x_step (xs_xact st1 n) = 2" "seq_type 1 (xs_xact st1 n) = type"
    "seq_type 0 (xs_xact st1 n) = seq_type 0 (xs_xact st n)" "length (x_seq (xs_xact st1 n)) = 3"
    "x_org (xs_xact st1 n) = Remote_originator" "x_node (xs_xact st1 n) = x_node (xs_xact st n)" "x_xid (xs_xact st1 n) = x_xid (xs_xact st n)"
    using n p(1) by (simp_all add: x1 f_def seq_type_def seq_pkbuf_def)
  have ph: "phase_ok st1 n" using p(2) n t by (simp add: phase_ok_def s1 U(3) Let_def del: One_nat_def)
  note C = change_xact_ok [OF ok n(1) same ph [unfolded st1_def], folded st1_def]
  have "ogs_pfcp_xact_update_tx n type seid b st = Ret (st1, True)"
    using n t by (simp add: ogs_pfcp_xact_update_tx_def Let_def tx_step_ok_def st1_def f_def)
  moreover have "ogs_pfcp_xact_commit conf now n st1 = Ret (st1, [Sent (x_node (xs_xact st n)) ?h], True)"
    using t by (simp add: ogs_pfcp_xact_commit_def Let_def s1 s1(1,3) [unfolded One_nat_def] commit_action_def send_last_def)
  moreover have "held st1 n (x_node (xs_xact st n)) (x_xid (xs_xact st n)) (seq_type 0 (xs_xact st n))"
    using n(1) by (simp add: held_def s1 U(2))
  moreover have "answer st1 n = [Sent (x_node (xs_xact st n)) ?h]" by (simp add: answer_def s1 s1(1) [unfolded One_nat_def])
  ultimately show ?thesis using C U(2) by (simp add: send_response_def)
qed

text \<open>A second response is not sent.\<close>

lemma send_response_again:
  assumes "x_org (xs_xact st n) = Remote_originator" "x_step (xs_xact st n) = 2" "ogs_pfcp_xact_get_stage type = Final_stage"
  shows "send_response conf now n type seid body st = Ret (st, [], False)"
  using assms by (cases body) (simp_all add: send_response_def ogs_pfcp_xact_update_tx_def Let_def tx_step_ok_def)

lemma send_heartbeat_response_ok:
  assumes ok: "xacts_ok st" and n: "n \<in> open_xacts st" "x_org (xs_xact st n) = Remote_originator" "x_step (xs_xact st n) = 1"
  shows "\<exists>st'. ogs_pfcp_send_heartbeat_response conf now n (Some b) st =
      Ret (st', [Sent (x_node (xs_xact st n)) (ogs_pfcp_header OGS_PFCP_HEARTBEAT_RESPONSE_TYPE 0 (x_xid (xs_xact st n)) b)], True) \<and>
    xacts_ok st' \<and> others_kept n st st' \<and> open_xacts st' = open_xacts st - {n}"
proof -
  let ?t = OGS_PFCP_HEARTBEAT_RESPONSE_TYPE
  have t: "ogs_pfcp_xact_get_stage ?t = Final_stage" by (simp add: ogs_pfcp_xact_get_stage_def message_types)
  obtain st1 where s1: "send_response conf now n ?t 0 (Some b) st =
      Ret (st1, [Sent (x_node (xs_xact st n)) (ogs_pfcp_header ?t 0 (x_xid (xs_xact st n)) b)], True)"
    "xacts_ok st1" "others_kept n st st1" "open_xacts st1 = open_xacts st"
    using send_response_ok [OF ok n t, of conf now 0 b] by blast
  have "n \<in> open_xacts st1" using s1(4) n(1) by simp
  then obtain st2 where s2: "ogs_pfcp_xact_delete n st1 = Ret st2" "xacts_ok st2" "without n st1 st2"
    using xacts_ok_delete [OF s1(2)] by blast
  have "ogs_pfcp_send_heartbeat_response conf now n (Some b) st =
      exec_bind (send_response conf now n ?t 0 (Some b) st) (\<lambda>(st, os, rv).
        if rv then exec_bind (ogs_pfcp_xact_delete n st) (\<lambda>st. Ret (st, os, rv)) else Ret (st, os, rv))"
    using n t s1(1) unfolding ogs_pfcp_send_heartbeat_response_def send_response_def ogs_pfcp_xact_update_tx_def
    by (auto simp: Let_def tx_step_ok_def split: exec.splits)
  then have "ogs_pfcp_send_heartbeat_response conf now n (Some b) st =
      Ret (st2, [Sent (x_node (xs_xact st n)) (ogs_pfcp_header ?t 0 (x_xid (xs_xact st n)) b)], True)"
    using s1(1) s2(1) by simp
  then show ?thesis using s2(2) others_kept_trans [OF s1(3) others_kept_without [OF s2(3)]] s2(3) s1(4)
    by (auto simp: without_def)
qed

text \<open>A response that was received is concluded: its transaction is over.\<close>

lemma conclude_ok:
  assumes ok: "xacts_ok st" and n: "n \<in> open_xacts st" "x_org (xs_xact st n) = Local_originator" "x_step (xs_xact st n) = 2"
  shows "\<exists>st'. ogs_pfcp_xact_commit conf now n st = Ret (st', [], True) \<and> xacts_ok st' \<and> without n st st'"
proof -
  have "ogs_pfcp_xact_get_stage (seq_type 1 (xs_xact st n)) = Final_stage"
    using xacts_okD(2) [OF ok n(1)] n by (simp add: phase_ok_def Let_def)
  moreover obtain st' where "ogs_pfcp_xact_delete n st = Ret st'" "xacts_ok st'" "without n st st'"
    using xacts_ok_delete [OF ok n(1)] by blast
  ultimately show ?thesis using n by (simp add: ogs_pfcp_xact_commit_def Let_def commit_action_def)
qed

section \<open>Timeouts\<close>

text \<open>The manager stops a timer that is due and calls its callback.\<close>

definition xact_expire ::
  "xact_conf \<Rightarrow> int \<Rightarrow> nat \<Rightarrow> xact_timer \<Rightarrow> ('c, 'd) xact_state \<Rightarrow> (('c, 'd) xact_state \<times> 'd xact_out list) exec" where
  "xact_expire conf now n k st =
     exec_bind (stop_xact_timer k n st) (\<lambda>st. xact_timeout conf now k (x_id (xs_xact st n)) st)"

text \<open>The counter of a transaction whose timer has expired goes down.\<close>

lemma counted:
  assumes b: "base_ok st" and n: "n \<in> open_xacts st" and same: "same_identity (xs_xact st n) (f (xs_xact st n))"
  obtains st1 where "stop_xact_timer k n st = Ret st1" "xs_xact st1 = xs_xact st"
    "ogs_pfcp_xact_find_by_id (x_id (xs_xact st n)) st1 = Some n"
    "base_ok (update_xact n f st1)" "others_kept n st (update_xact n f st1)" "open_xacts (update_xact n f st1) = open_xacts st"
    "\<And>j. alarm_of (update_xact n f st1) n j = (if j = k then None else alarm_of st n j)"
proof -
  obtain st1 where s: "stop_xact_timer k n st = Ret st1" "alarm_changed n k None st st1" using stop_xact_timer_ok [OF b n] by blast
  note A = others_kept_alarm [OF s(2)]
  have f: "ogs_pfcp_xact_find_by_id (x_id (xs_xact st n)) st1 = Some n"
    using base_okD(9) [OF A(3), of "x_id (xs_xact st n)" n] n by (simp add: A(2,4))
  have same1: "same_identity (xs_xact st1 n) (f (xs_xact st1 n))" using same by (simp add: A(2))
  note U = base_ok_update [OF A(3), of n f, OF same1]
  have "others_kept n st (update_xact n f st1)"
    using others_kept_trans [OF A(1) others_kept_update [OF A(3), of n f, OF same1]] .
  then show thesis using that [OF s(1) A(2) f U(1)] U A n by simp
qed

lemma restart_ok:
  assumes "base_ok st2" "others_kept n st st2" "n \<in> open_xacts st2" "duration \<noteq> 0"
  obtains st3 where "start_xact_timer now k duration n st2 = Ret st3" "base_ok st3" "others_kept n st st3" "xs_xact st3 = xs_xact st2"
    "open_xacts st3 = open_xacts st2" "\<And>j. alarm_of st3 n j = (if j = k then Some (now + duration) else alarm_of st2 n j)"
proof -
  obtain st3 where s: "start_xact_timer now k duration n st2 = Ret st3" "alarm_changed n k (Some (now + duration)) st2 st3"
    using start_xact_timer_ok [OF assms(1,3,4)] by blast
  note A = others_kept_alarm [OF s(2)]
  show thesis using that s(1) A others_kept_trans [OF assms(2) A(1)] assms(3) by blast
qed

lemma drop_ok:
  assumes "xacts_ok st" "base_ok st2" "others_kept n st st2" "n \<in> open_xacts st2" "open_xacts st2 = open_xacts st"
  obtains st3 where "ogs_pfcp_xact_delete n st2 = Ret st3" "xacts_ok st3" "others_kept n st st3" "open_xacts st3 = open_xacts st - {n}"
proof -
  obtain st3 where s: "ogs_pfcp_xact_delete n st2 = Ret st3" "without n st2 st3" using xact_delete_ok [OF assms(2,4)] by blast
  have k: "others_kept n st st3" using others_kept_trans [OF assms(3) others_kept_without [OF s(2)]] .
  have o: "open_xacts st3 = open_xacts st - {n}" "base_ok st3" using s(2) assms(5) by (simp_all add: without_def)
  have "xacts_ok st3" by (rule xacts_ok_step [OF assms(1) o(2) k]) (simp_all add: o)
  then show thesis using that s(1) k o by blast
qed

text \<open>The response timer: the request is sent again, or the transaction is given up.\<close>

lemma response_expires:
  assumes ok: "xacts_ok st" and c: "conf_ok conf" and w: "waiting st n d xid type packet cb"
  shows "\<exists>st'. xacts_ok st' \<and> others_kept n st st' \<and>
    (if x_response_rcount (xs_xact st n) - 1 > 0
     then xact_expire conf now n Response_timer st = Ret (st', [Sent d packet]) \<and> waiting st' n d xid type packet cb \<and>
       x_response_rcount (xs_xact st' n) = x_response_rcount (xs_xact st n) - 1 \<and>
       alarm_of st' n Response_timer = Some (now + t1_response_duration conf) \<and> open_xacts st' = open_xacts st
     else xact_expire conf now n Response_timer st = Ret (st', case cb of None \<Rightarrow> [] | Some x \<Rightarrow> [Given_up type x]) \<and>
       open_xacts st' = open_xacts st - {n})"
proof -
  let ?x = "xs_xact st n"
  have n: "n \<in> open_xacts st" "x_org ?x = Local_originator" "x_step ?x = 1" "x_node ?x = d"
    "seq_pkbuf 0 ?x = Some packet" "seq_type 0 ?x = type" "x_cb ?x = cb" "x_xid ?x = xid"
    using w by (simp_all add: waiting_def Let_def)
  define c' where "c' = x_response_rcount ?x - 1"
  define f where "f = (\<lambda>x :: 'b pfcp_xact. x\<lparr>x_response_rcount := c'\<rparr>)"
  have "same_identity ?x (f ?x)" by (simp add: f_def same_identity_def)
  from counted [where f = f and k = Response_timer, OF xacts_okD(1) [OF ok] n(1) this] obtain st1 where
    s1: "stop_xact_timer Response_timer n st = Ret st1" "xs_xact st1 = xs_xact st" "ogs_pfcp_xact_find_by_id (x_id ?x) st1 = Some n"
    and s2: "base_ok (update_xact n f st1)" "others_kept n st (update_xact n f st1)" "open_xacts (update_xact n f st1) = open_xacts st"
    and al: "\<And>j. alarm_of (update_xact n f st1) n j = (if j = Response_timer then None else alarm_of st n j)" by metis
  define st2 where "st2 = update_xact n f st1"
  note s2 = s2 [folded st2_def] and al = al [folded st2_def]
  have x2: "xs_xact st2 n = f ?x" by (simp add: st2_def s1(2))
  have n2: "n \<in> open_xacts st2" by (simp add: s2(3) n)
  have run: "xact_expire conf now n Response_timer st = (if c' > 0
      then exec_bind (start_xact_timer now Response_timer (t1_response_duration conf) n st2) (\<lambda>st.
             exec_bind (send_last n st) (\<lambda>os. Ret (st, os)))
      else exec_bind (ogs_pfcp_xact_delete n st2) (\<lambda>st'. Ret (st', case cb of None \<Rightarrow> [] | Some d \<Rightarrow> [Given_up type d])))"
    using s1 n by (simp add: xact_expire_def response_timeout_def Let_def st2_def c'_def f_def seq_type_def cong: option.case_cong)
  show ?thesis
  proof (cases "c' > 0")
    case True
    obtain st3 where s3: "start_xact_timer now Response_timer (t1_response_duration conf) n st2 = Ret st3" "base_ok st3"
      "others_kept n st st3" "xs_xact st3 = xs_xact st2" "open_xacts st3 = open_xacts st2"
      "\<And>j. alarm_of st3 n j = (if j = Response_timer then Some (now + t1_response_duration conf) else alarm_of st2 n j)"
      using restart_ok [OF s2(1,2) n2, of "t1_response_duration conf"] c unfolding conf_ok_def by metis
    have x3: "xs_xact st3 n = f ?x" by (simp add: s3(4) x2)
    have "phase_ok st3 n" using xacts_okD(2) [OF ok n(1)] n
      by (simp add: phase_ok_def x3 s3(6) al f_def seq_type_def seq_pkbuf_def Let_def)
    then have "xacts_ok st3" by (intro xacts_ok_same [OF ok s3(2,3) n(1)]) (simp_all add: x3 f_def same_identity_def)
    moreover have "xact_expire conf now n Response_timer st = Ret (st3, [Sent d packet])"
      using True n s3(1) by (simp add: run send_last_def Let_def x3 f_def seq_pkbuf_def)
    moreover have "waiting st3 n d xid type packet cb"
      using n n2 s3(5) by (simp add: waiting_def Let_def x3 f_def seq_type_def seq_pkbuf_def)
    ultimately show ?thesis using True s3(3,5,6) s2(3) x3 by (auto simp: c'_def [symmetric] f_def)
  next
    case False
    then show ?thesis using drop_ok [OF ok s2(1,2) n2 s2(3)] run by (auto simp: c'_def [symmetric])
  qed
qed

text \<open>The holding timer: the transaction is kept for another period, or deleted.\<close>

lemma holding_expires:
  assumes ok: "xacts_ok st" and c: "conf_ok conf" and n: "n \<in> open_xacts st" "x_org (xs_xact st n) = Remote_originator"
  shows "\<exists>st'. xacts_ok st' \<and> others_kept n st st' \<and> xact_expire conf now n Holding_timer st = Ret (st', []) \<and>
    (if x_holding_rcount (xs_xact st n) - 1 > 0
     then open_xacts st' = open_xacts st \<and> xs_xact st' n = (xs_xact st n)\<lparr>x_holding_rcount := x_holding_rcount (xs_xact st n) - 1\<rparr> \<and>
       alarm_of st' n Holding_timer = Some (now + t1_holding_duration conf)
     else open_xacts st' = open_xacts st - {n})"
proof -
  let ?x = "xs_xact st n"
  define c' where "c' = x_holding_rcount ?x - 1"
  define f where "f = (\<lambda>x :: 'b pfcp_xact. x\<lparr>x_holding_rcount := c'\<rparr>)"
  have "same_identity ?x (f ?x)" by (simp add: f_def same_identity_def)
  from counted [where f = f and k = Holding_timer, OF xacts_okD(1) [OF ok] n(1) this] obtain st1 where
    s1: "stop_xact_timer Holding_timer n st = Ret st1" "xs_xact st1 = xs_xact st" "ogs_pfcp_xact_find_by_id (x_id ?x) st1 = Some n"
    and s2: "base_ok (update_xact n f st1)" "others_kept n st (update_xact n f st1)" "open_xacts (update_xact n f st1) = open_xacts st"
    and al: "\<And>j. alarm_of (update_xact n f st1) n j = (if j = Holding_timer then None else alarm_of st n j)" by metis
  define st2 where "st2 = update_xact n f st1"
  note s2 = s2 [folded st2_def] and al = al [folded st2_def]
  have x2: "xs_xact st2 n = f ?x" by (simp add: st2_def s1(2))
  have n2: "n \<in> open_xacts st2" by (simp add: s2(3) n)
  have run: "xact_expire conf now n Holding_timer st = exec_bind (if c' > 0
      then start_xact_timer now Holding_timer (t1_holding_duration conf) n st2 else ogs_pfcp_xact_delete n st2) (\<lambda>st. Ret (st, []))"
    using s1 n by (simp add: xact_expire_def holding_timeout_def Let_def st2_def c'_def f_def)
  show ?thesis
  proof (cases "c' > 0")
    case True
    obtain st3 where s3: "start_xact_timer now Holding_timer (t1_holding_duration conf) n st2 = Ret st3" "base_ok st3"
      "others_kept n st st3" "xs_xact st3 = xs_xact st2" "open_xacts st3 = open_xacts st2"
      "\<And>j. alarm_of st3 n j = (if j = Holding_timer then Some (now + t1_holding_duration conf) else alarm_of st2 n j)"
      using restart_ok [OF s2(1,2) n2, of "t1_holding_duration conf"] c unfolding conf_ok_def by metis
    have x3: "xs_xact st3 n = f ?x" by (simp add: s3(4) x2)
    have "phase_ok st3 n" using xacts_okD(2) [OF ok n(1)] n
      by (simp add: phase_ok_def x3 s3(6) al f_def seq_type_def seq_pkbuf_def Let_def)
    then have "xacts_ok st3" by (intro xacts_ok_same [OF ok s3(2,3) n(1)]) (simp_all add: x3 f_def same_identity_def)
    then show ?thesis using True run s3(1,3,5,6) s2(3) x3 by (auto simp: c'_def [symmetric] f_def)
  next
    case False
    then show ?thesis using drop_ok [OF ok s2(1,2) n2 s2(3)] run by (auto simp: c'_def [symmetric])
  qed
qed

end
