(* ===== verification/Xact_Run.thy ===== *)
theory Xact_Run
  imports Xact_Events
begin

text \<open>
  The states that transactions reach through the events of a user plane function, and what holds in
  them: a request of a peer is handed to the program once, a request to a peer is sent until it is
  answered or given up, and an event ends the process only when an arrival finds no room.
\<close>

section \<open>Events\<close>

text \<open>
  A request or a response of ours, the arrival of a message from a peer with its type and sequence
  number, the conclusion of a transaction whose response has been handled, and a timer that is due.
\<close>

datatype 'd xact_event =
    Request nat "'d option" u8 u64 "bytes option"
  | Arrival nat u8 u32
  | Respond nat u8 u64 "bytes option"
  | Respond_heartbeat nat "bytes option"
  | Conclude nat
  | Expire nat xact_timer

fun xact_do ::
  "xact_conf \<Rightarrow> int \<Rightarrow> 'd xact_event \<Rightarrow> ('c, 'd) xact_state \<Rightarrow> (('c, 'd) xact_state \<times> 'd xact_out list \<times> nat option) exec" where
  "xact_do conf now (Request d cb type seid body) st =
     exec_bind (send_request conf now d cb type seid body st) (\<lambda>(st, os, _). Ret (st, os, None))"
| "xact_do conf now (Arrival d type xid) st =
     exec_bind (ogs_pfcp_xact_receive conf now d type xid st) (\<lambda>(st, os, _, new). Ret (st, os, new))"
| "xact_do conf now (Respond n type seid body) st =
     exec_bind (send_response conf now n type seid body st) (\<lambda>(st, os, _). Ret (st, os, None))"
| "xact_do conf now (Respond_heartbeat n body) st =
     exec_bind (ogs_pfcp_send_heartbeat_response conf now n body st) (\<lambda>(st, os, _). Ret (st, os, None))"
| "xact_do conf now (Conclude n) st =
     exec_bind (ogs_pfcp_xact_commit conf now n st) (\<lambda>(st, os, _). Ret (st, os, None))"
| "xact_do conf now (Expire n k) st = exec_bind (xact_expire conf now n k st) (\<lambda>(st, os). Ret (st, os, None))"

text \<open>When an event can happen, and there is a free transaction with its three timers if it needs one.\<close>

fun enabled :: "int \<Rightarrow> ('c, 'd) xact_state \<Rightarrow> 'd xact_event \<Rightarrow> bool" where
  "enabled now st (Request d cb type seid body) \<longleftrightarrow>
     ogs_pfcp_xact_get_stage type = Initial_stage \<and> xact_room st \<and> timer_room st"
| "enabled now st (Arrival d type xid) \<longleftrightarrow>
     (ogs_pfcp_xact_get_stage type \<noteq> Unknown_stage \<longrightarrow> xact_room st \<and> timer_room st)"
| "enabled now st (Respond n type seid body) \<longleftrightarrow>
     n \<in> open_xacts st \<and> x_org (xs_xact st n) = Remote_originator \<and> ogs_pfcp_xact_get_stage type = Final_stage"
| "enabled now st (Respond_heartbeat n body) \<longleftrightarrow>
     n \<in> open_xacts st \<and> x_org (xs_xact st n) = Remote_originator \<and> x_step (xs_xact st n) = 1"
| "enabled now st (Conclude n) \<longleftrightarrow>
     n \<in> open_xacts st \<and> x_org (xs_xact st n) = Local_originator \<and> x_step (xs_xact st n) = 2"
| "enabled now st (Expire n k) \<longleftrightarrow> n \<in> open_xacts st \<and> (\<exists>t \<le> now. alarm_of st n k = Some t)"

text \<open>
  When an event can happen at all. Only two events are left out: a request of ours that finds a
  transaction but not its three timers, which breaks the list of the peer and is a property of its
  own, and a new transaction at the time when the counter of the identifiers has come round to the
  identifier of an open one. Exhausted pools are not left out: an arrival ends the process then,
  and a request of ours is not sent.
\<close>

fun admitted :: "int \<Rightarrow> ('c, 'd) xact_state \<Rightarrow> 'd xact_event \<Rightarrow> bool" where
  "admitted now st (Request d cb type seid body) \<longleftrightarrow>
     ogs_pfcp_xact_get_stage type = Initial_stage \<and> \<not> id_clash st \<and> (xact_full st \<or> timer_room st)"
| "admitted now st (Arrival d type xid) \<longleftrightarrow> (ogs_pfcp_xact_get_stage type \<noteq> Unknown_stage \<longrightarrow> \<not> id_clash st)"
| "admitted now st (Respond n type seid body) \<longleftrightarrow> enabled now st (Respond n type seid body)"
| "admitted now st (Respond_heartbeat n body) \<longleftrightarrow> enabled now st (Respond_heartbeat n body)"
| "admitted now st (Conclude n) \<longleftrightarrow> enabled now st (Conclude n)"
| "admitted now st (Expire n k) \<longleftrightarrow> enabled now st (Expire n k)"

lemma enabled_admitted: "enabled now st e \<Longrightarrow> admitted now st e"
  by (cases e) (auto simp: xact_room_def id_clash_def)

text \<open>The timers of the other components of the process change too, but not those of transactions.\<close>

definition timers_elsewhere :: "('c, 'd) xact_state \<Rightarrow> 'c timer_call timer_mgr \<Rightarrow> bool" where
  "timers_elsewhere st m \<longleftrightarrow> timers_ok m \<and> (\<forall>n \<in> open_xacts st. \<forall>k t. owns_timer st n k t \<longrightarrow>
     t \<in> allocated (tm_pool m) \<and> tmr_cb (tm_timers m t) = tmr_cb (tm_timers (xs_timers st) t) \<and>
     armed m t = armed (xs_timers st) t)"

inductive xact_reachable :: "xact_conf \<Rightarrow> ('c, 'd) xact_state \<Rightarrow> bool" for conf where
  start: "timers_ok m \<Longrightarrow> xact_reachable conf (ogs_pfcp_xact_init capacity seed m)"
| event: "xact_reachable conf st \<Longrightarrow> admitted now st e \<Longrightarrow> xact_do conf now e st = Ret (st', os, new) \<Longrightarrow>
    xact_reachable conf st'"
| elsewhere: "xact_reachable conf st \<Longrightarrow> timers_elsewhere st m \<Longrightarrow> xact_reachable conf (st\<lparr>xs_timers := m\<rparr>)"

section \<open>Every event keeps the invariant\<close>

lemma init_ok:
  assumes "timers_ok m"
  shows "xacts_ok (ogs_pfcp_xact_init capacity seed m :: ('c, 'd) xact_state)"
proof -
  let ?st = "ogs_pfcp_xact_init capacity seed m :: ('c, 'd) xact_state"
  have o: "open_xacts ?st = {}" by (simp add: open_xacts_def ogs_pfcp_xact_init_def allocated_init)
  have "list_at (xact_list r d ?st) []" for r d
    by (simp add: list_at_def ogs_pfcp_xact_init_def xact_list_def null_links_def split: xact_org.splits)
  then have "lists_as ?st (members ?st)" by (auto simp: lists_as_def members_def o intro!: exI [of _ "[]"])
  moreover have "ids_ok ?st" unfolding ids_ok_def o
    by (simp add: ogs_pfcp_xact_init_def ogs_pfcp_xact_find_by_id_def pool_ok_init) (simp add: ogs_pool_init_def ogs_pool_find_by_id_def
        hash_ok_make ht.look_empty)
  moreover have "tms_ok ?st" using assms by (simp add: tms_ok_def o) (simp add: ogs_pfcp_xact_init_def)
  ultimately show ?thesis by (simp add: xacts_ok_def base_ok_def o xids_unique_def members_def)
qed

lemma elsewhere_ok:
  assumes ok: "xacts_ok st" and m: "timers_elsewhere st m"
  shows "xacts_ok (st\<lparr>xs_timers := m\<rparr>)"
proof -
  let ?st = "st\<lparr>xs_timers := m\<rparr>"
  have o: "open_xacts ?st = open_xacts st" by (simp add: open_xacts_def)
  have own: "owns_timer ?st n k t" "alarm_of ?st n k = alarm_of st n k" if "n \<in> open_xacts st" "owns_timer st n k t" for n k t
    using m that by (auto simp: timers_elsewhere_def owns_timer_def alarm_of_def)
  have t: "\<exists>t. owns_timer st n k t" if "n \<in> open_xacts st" for n k using base_okD(5) [OF xacts_okD(1) [OF ok] that] .
  have al: "alarm_of ?st n k = alarm_of st n k" if n: "n \<in> open_xacts st" for n k using own(2) [OF n] t [OF n] by blast
  have "\<exists>t. owns_timer ?st n k t" if n: "n \<in> open_xacts st" for n k using own(1) [OF n] t [OF n] by blast
  then have "tms_ok ?st" using m by (simp add: tms_ok_def o) (simp add: timers_elsewhere_def)
  then have "base_ok ?st" using xacts_okD(1) [OF ok]
    by (simp add: base_ok_def lists_as_def ids_ok_def xact_list_def members_def o ogs_pfcp_xact_find_by_id_def cong: xact_org.case_cong)
  moreover have "phase_ok ?st n = phase_ok st n" if "n \<in> open_xacts st" for n
    using al [OF that] by (simp add: phase_ok_def cong: xact_org.case_cong)
  ultimately show ?thesis using ok by (simp add: xacts_ok_def xids_unique_def members_def o)
qed

text \<open>The transaction that an event is about.\<close>

definition about :: "'d xact_event \<Rightarrow> ('c, 'd) xact_state \<Rightarrow> nat \<Rightarrow> bool" where
  "about e st n = (case e of
     Request _ _ _ _ _ \<Rightarrow> n \<notin> open_xacts st
   | Arrival d type xid \<Rightarrow> n \<in> open_xacts st \<longrightarrow> x_node (xs_xact st n) = d \<and> x_xid (xs_xact st n) = xid \<and>
       (x_org (xs_xact st n) = Remote_originator \<longleftrightarrow> ogs_pfcp_xact_get_stage type = Initial_stage)
   | Respond m _ _ _ \<Rightarrow> m = n | Respond_heartbeat m _ \<Rightarrow> m = n | Conclude m \<Rightarrow> m = n | Expire m _ \<Rightarrow> m = n)"

lemma phase_alarms:
  assumes "phase_ok st n" "alarm_of st n k = Some t"
  shows "(k = Response_timer \<and> x_org (xs_xact st n) = Local_originator \<and> x_step (xs_xact st n) = 1) \<or>
    (k = Holding_timer \<and> x_org (xs_xact st n) = Remote_originator)"
  using assms by (cases k; cases "x_org (xs_xact st n)") (auto simp: phase_ok_def Let_def)

lemma waiting_now:
  assumes "xacts_ok st" "n \<in> open_xacts st" "x_org (xs_xact st n) = Local_originator" "x_step (xs_xact st n) = 1"
  obtains packet where "waiting st n (x_node (xs_xact st n)) (x_xid (xs_xact st n)) (seq_type 0 (xs_xact st n)) packet (x_cb (xs_xact st n))"
  using assms xacts_okD(2) [OF assms(1,2)] by (auto simp: waiting_def phase_ok_def Let_def)

text \<open>Each event returns, keeps the invariant and leaves all transactions alone that it is not about.\<close>

definition good_end :: "'d xact_event \<Rightarrow> ('c, 'd) xact_state \<Rightarrow> (('c, 'd) xact_state \<times> 'd xact_out list \<times> nat option) exec \<Rightarrow> bool" where
  "good_end e st r \<longleftrightarrow> (\<exists>st' os new n. r = Ret (st', os, new) \<and> xacts_ok st' \<and> about e st n \<and> others_kept n st st')"

lemma good_endI: "r = Ret (st', os, new) \<Longrightarrow> xacts_ok st' \<Longrightarrow> about e st n \<Longrightarrow> others_kept n st st' \<Longrightarrow> good_end e st r"
  by (auto simp: good_end_def)

lemma good_request:
  assumes "xacts_ok st" "conf_ok conf" "enabled now st (Request d cb type seid body)"
  shows "good_end (Request d cb type seid body) st (xact_do conf now (Request d cb type seid body) st)"
proof (cases body)
  case None
  have "xact_room st" "timer_room st" using assms(3) by simp_all
  from send_request_none [OF assms(1) this, of conf now d cb type seid] None show ?thesis
    by (auto simp: about_def intro: good_endI)
next
  case (Some b)
  have "xact_room st" "timer_room st" "ogs_pfcp_xact_get_stage type = Initial_stage" using assms(3) by simp_all
  from send_request_ok [OF assms(1) this(1,2) assms(2) this(3), of now d cb seid b]
  obtain st' n os where "send_request conf now d cb type seid (Some b) st = Ret (st', os, True)" "xacts_ok st'"
    "n \<notin> open_xacts st" "others_kept n st st'" by metis
  then show ?thesis using Some by (intro good_endI [of _ st' os None _ _ n]) (simp_all add: about_def)
qed

lemma held_stage:
  assumes "xacts_ok st" "held st n d xid type"
  shows "n \<in> open_xacts st \<and> x_node (xs_xact st n) = d \<and> x_xid (xs_xact st n) = xid \<and>
    x_org (xs_xact st n) = Remote_originator \<and> seq_type 0 (xs_xact st n) = type \<and> ogs_pfcp_xact_get_stage type = Initial_stage"
  using assms xacts_okD(2) [OF assms(1), of n] by (auto simp: held_def phase_ok_def Let_def)

lemma arrival_about:
  assumes "xacts_ok st" "arrival_effect a d type xid st st' os rv new"
  obtains n where "about (Arrival d type xid) st n" "others_kept n st st'"
proof -
  have w: "without n st st' \<Longrightarrow> others_kept n st st'" for n by (rule others_kept_without)
  show thesis
  proof (cases a)
    case Refused
    obtain m where "m \<notin> open_xacts st" using ex_new_if_finite [of "open_xacts st"] by (auto simp: open_xacts_def)
    then show ?thesis using that [of m] assms(2) Refused by (auto simp: arrival_effect_def about_def others_kept_refl)
  next
    case (Repeated n)
    then show ?thesis using that [of n] assms(2) held_stage [OF assms(1), of n d xid type] by (auto simp: arrival_effect_def about_def)
  next
    case (Answer n)
    then show ?thesis using that [of n] assms(2) by (auto simp: arrival_effect_def about_def)
  qed (use that w assms(2) in \<open>auto simp: arrival_effect_def about_def\<close>)
qed

lemma good_expire:
  assumes ok: "xacts_ok st" and c: "conf_ok conf" and e: "enabled now st (Expire n k)"
  shows "good_end (Expire n k) st (xact_do conf now (Expire n k) st)"
proof -
  obtain t where n: "n \<in> open_xacts st" "alarm_of st n k = Some t" using e by auto
  from phase_alarms [OF xacts_okD(2) [OF ok n(1)] n(2)] show ?thesis
  proof
    assume k: "k = Response_timer \<and> x_org (xs_xact st n) = Local_originator \<and> x_step (xs_xact st n) = 1"
    obtain packet where
      w: "waiting st n (x_node (xs_xact st n)) (x_xid (xs_xact st n)) (seq_type 0 (xs_xact st n)) packet (x_cb (xs_xact st n))"
      by (rule waiting_now [OF ok n(1)]) (use k in auto)
    note r = response_expires [OF ok c w, of now]
    show ?thesis
    proof (cases "x_response_rcount (xs_xact st n) - 1 > 0")
      case True
      then show ?thesis using r k by (auto simp: about_def intro: good_endI)
    next
      case False
      then show ?thesis using r k by (auto simp: about_def intro: good_endI)
    qed
  next
    assume k: "k = Holding_timer \<and> x_org (xs_xact st n) = Remote_originator"
    from holding_expires [OF ok c n(1), of now] k obtain st' where
      "xact_expire conf now n Holding_timer st = Ret (st', [])" "xacts_ok st'" "others_kept n st st'" by metis
    then show ?thesis using k by (intro good_endI [of _ st' "[]" None]) (simp_all add: about_def)
  qed
qed

lemma good_respond:
  assumes ok: "xacts_ok st" and e: "enabled now st (Respond n type seid body)"
  shows "good_end (Respond n type seid body) st (xact_do conf now (Respond n type seid body) st)"
proof -
  have n: "n \<in> open_xacts st" "x_org (xs_xact st n) = Remote_originator" "ogs_pfcp_xact_get_stage type = Final_stage"
    using e by simp_all
  then have "x_step (xs_xact st n) = 1 \<or> x_step (xs_xact st n) = 2" using xacts_okD(2) [OF ok n(1)] by (simp add: phase_ok_def Let_def)
  then show ?thesis
  proof
    assume s: "x_step (xs_xact st n) = 1"
    show ?thesis
    proof (cases body)
      case None
      then show ?thesis using ok by (auto simp: send_response_def about_def others_kept_refl intro: good_endI)
    next
      case (Some b)
      from send_response_ok [OF ok n(1,2) s n(3), of conf now seid b] Some show ?thesis
        by (auto simp: about_def intro: good_endI)
    qed
  next
    assume "x_step (xs_xact st n) = 2"
    from send_response_again [OF n(2) this n(3)] show ?thesis using ok by (auto simp: about_def others_kept_refl intro: good_endI)
  qed
qed

lemma good_heartbeat:
  assumes ok: "xacts_ok st" and e: "enabled now st (Respond_heartbeat n body)"
  shows "good_end (Respond_heartbeat n body) st (xact_do conf now (Respond_heartbeat n body) st)"
proof (cases body)
  case None
  then show ?thesis using ok by (auto simp: ogs_pfcp_send_heartbeat_response_def about_def others_kept_refl intro: good_endI)
next
  case (Some b)
  have "n \<in> open_xacts st" "x_org (xs_xact st n) = Remote_originator" "x_step (xs_xact st n) = 1" using e by simp_all
  from send_heartbeat_response_ok [OF ok this, of conf now b] Some show ?thesis by (auto simp: about_def intro: good_endI)
qed

lemma do_ok:
  assumes "xacts_ok st" "conf_ok conf" "enabled now st e"
  shows "good_end e st (xact_do conf now e st)"
proof (cases e)
  case (Arrival d type xid)
  have "new_arrival d type xid st \<Longrightarrow> xact_room st \<and> timer_room st" using assms(3) Arrival by (simp add: new_arrival_def)
  from receive_ok [OF assms(1) this assms(2), where now = now] obtain st' os rv new a where
    "ogs_pfcp_xact_receive conf now d type xid st = Ret (st', os, rv, new)" "xacts_ok st'"
    "arrival_effect a d type xid st st' os rv new" by blast
  then show ?thesis using Arrival by (elim arrival_about [OF assms(1)]) (auto intro: good_endI)
next
  case (Conclude n)
  have "n \<in> open_xacts st" "x_org (xs_xact st n) = Local_originator" "x_step (xs_xact st n) = 2" using assms(3) Conclude by simp_all
  from conclude_ok [OF assms(1) this, of conf now] Conclude show ?thesis
    by (auto simp: about_def dest: others_kept_without intro: good_endI)
next
  case (Request d cb type seid body)
  then show ?thesis using good_request assms by blast
next
  case (Respond n type seid body)
  then show ?thesis using good_respond assms by blast
next
  case (Respond_heartbeat n body)
  then show ?thesis using good_heartbeat assms by blast
next
  case (Expire n k)
  then show ?thesis using good_expire assms by blast
qed

text \<open>The events that are only admitted: all return but an arrival without room.\<close>

lemma request_full:
  assumes ok: "xacts_ok st" and f: "xact_full st"
  shows "send_request conf now d cb type seid body st = Ret (st, [], False)"
proof -
  have "pool_avail (xs_pool st) = 0"
    using card_allocated [OF base_okD(6) [OF xacts_okD(1) [OF ok]]] f by (simp add: xact_full_def open_xacts_def)
  then show ?thesis
    by (simp add: send_request_def ogs_pfcp_xact_local_create_def alloc_xact_def ogs_pool_id_calloc_def alloc_None)
qed

definition no_room :: "'d xact_event \<Rightarrow> ('c, 'd) xact_state \<Rightarrow> bool" where
  "no_room e st \<longleftrightarrow> (\<exists>d type xid. e = Arrival d type xid \<and> new_arrival d type xid st) \<and> (xact_full st \<or> free_timers st < 3)"

lemma room_there:
  assumes ok: "xacts_ok st" and e: "admitted now st (Arrival d type xid)" and n: "new_arrival d type xid st"
  shows "no_room (Arrival d type xid) st \<longleftrightarrow> \<not> (xact_room st \<and> timer_room st)"
proof -
  have "\<not> id_clash st" using e n by (simp add: new_arrival_def)
  then show ?thesis using n card_allocated [OF base_okD(6) [OF xacts_okD(1) [OF ok]]]
    by (auto simp: no_room_def xact_room_def id_clash_def xact_full_def open_xacts_def timer_room_def free_timers_def)
qed

lemma do_safe:
  assumes ok: "xacts_ok st" and c: "conf_ok conf" and e: "admitted now st e"
  shows "if no_room e st then xact_do conf now e st = Abort else good_end e st (xact_do conf now e st)"
proof (cases "enabled now st e")
  case True
  have "\<not> no_room e st"
  proof
    assume "no_room e st"
    then obtain d type xid where a: "e = Arrival d type xid" "new_arrival d type xid st" "xact_full st \<or> free_timers st < 3"
      by (auto simp: no_room_def)
    then show False using True by (auto simp: new_arrival_def xact_full_def xact_room_def timer_room_def free_timers_def)
  qed
  then show ?thesis using do_ok [OF ok c True] by simp
next
  case False
  show ?thesis
  proof (cases e)
    case (Arrival d type xid)
    then have clash: "\<not> id_clash st" using e False by auto
    show ?thesis
    proof (cases "new_arrival d type xid st")
      case True
      have "\<not> (xact_room st \<and> timer_room st)" using False Arrival True by (auto simp: new_arrival_def)
      then show ?thesis using receive_no_room [OF ok True _ clash] room_there [OF ok e [unfolded Arrival] True] Arrival by simp
    next
      case False
      from receive_ok [OF ok _ c, of d type xid, where now = now] False obtain st' os rv new a where
        "ogs_pfcp_xact_receive conf now d type xid st = Ret (st', os, rv, new)" "xacts_ok st'"
        "arrival_effect a d type xid st st' os rv new" by blast
      then have "good_end e st (xact_do conf now e st)"
        using Arrival by (elim arrival_about [OF ok]) (auto intro: good_endI)
      then show ?thesis using False Arrival by (simp add: no_room_def)
    qed
  next
    case (Request d cb type seid body)
    obtain n where n: "n \<notin> open_xacts st" using ex_new_if_finite [of "open_xacts st"] by (auto simp: open_xacts_def)
    have "xact_full st"
    proof (rule ccontr)
      assume "\<not> xact_full st"
      then have "xact_room st" "timer_room st" using e Request card_allocated [OF base_okD(6) [OF xacts_okD(1) [OF ok]]]
        by (auto simp: xact_room_def id_clash_def xact_full_def open_xacts_def)
      then show False using e Request False by simp
    qed
    then have "xact_do conf now e st = Ret (st, [], None)" by (simp add: Request request_full [OF ok])
    from good_endI [OF this ok _ others_kept_refl, of e n] show ?thesis using n Request by (simp add: about_def no_room_def)
  qed (use e False in simp_all)
qed

lemma do_kept:
  assumes "xacts_ok st" "conf_ok conf" "admitted now st e" "xact_do conf now e st = Ret (st', os, new)"
  obtains n where "xacts_ok st'" "about e st n" "others_kept n st st'"
  using do_safe [OF assms(1-3)] assms(4) by (auto simp: good_end_def split: if_splits)

lemma xact_reachable_ok:
  assumes "xact_reachable conf st" "conf_ok conf"
  shows "xacts_ok st"
  using assms
proof (induction rule: xact_reachable.induct)
  case (event st now e st' os new)
  then show ?case using do_kept [of st conf now e st' os new] by blast
qed (simp_all add: init_ok elsewhere_ok)

end
