(* ===== verification/Xact_Delivery.thy ===== *)
theory Xact_Delivery
  imports Xact_Run
begin

text \<open>
  What transactions promise to both sides: the properties of the states that \<open>Xact_Run\<close> reaches.
\<close>

section \<open>Held requests\<close>

lemma others_keptD:
  assumes "others_kept n st st'" "m \<in> open_xacts st" "m \<noteq> n"
  shows "m \<in> open_xacts st'" "xs_xact st' m = xs_xact st m" "alarm_of st' m k = alarm_of st m k"
  using assms by (auto simp: others_kept_def)

text \<open>Held transactions stay so through an event that is not about them, or leaves their contents.\<close>

lemma held_other:
  assumes "held st n d xid type" "n \<in> open_xacts st'" "xs_xact st' n = xs_xact st n"
  shows "held st' n d xid type \<and> answer st' n = answer st n"
  using assms by (simp add: held_def answer_def cong: option.case_cong)

definition ends_holding :: "'d xact_event \<Rightarrow> nat \<Rightarrow> nat \<Rightarrow> u32 \<Rightarrow> u8 \<Rightarrow> bool" where
  "ends_holding e n d xid type \<longleftrightarrow> e = Expire n Holding_timer \<or> (\<exists>b. e = Respond_heartbeat n b) \<or>
     (\<exists>t. e = Arrival d t xid \<and> ogs_pfcp_xact_get_stage t = Initial_stage \<and> t \<noteq> type)"

definition still_held :: "('c, 'd) xact_state \<Rightarrow> ('c, 'd) xact_state \<Rightarrow> nat \<Rightarrow> nat \<Rightarrow> u32 \<Rightarrow> u8 \<Rightarrow> bool" where
  "still_held st st' n d xid type \<longleftrightarrow> held st' n d xid type \<and> (answer st n \<noteq> [] \<longrightarrow> answer st' n = answer st n)"

lemma respond_held:
  assumes ok: "xacts_ok st" and h: "held st n d xid type" and e: "enabled now st (Respond n t seid body)"
    and run: "xact_do conf now (Respond n t seid body) st = Ret (st', os, new)"
  shows "still_held st st' n d xid type"
proof -
  have n: "n \<in> open_xacts st" "x_node (xs_xact st n) = d" "x_xid (xs_xact st n) = xid" "seq_type 0 (xs_xact st n) = type"
    "x_org (xs_xact st n) = Remote_originator" using held_stage [OF ok h] by simp_all
  have t: "ogs_pfcp_xact_get_stage t = Final_stage" using e by simp
  have p: "x_step (xs_xact st n) = 1 \<or> x_step (xs_xact st n) = 2" "x_step (xs_xact st n) = 1 \<longrightarrow> seq_pkbuf 1 (xs_xact st n) = None"
    using xacts_okD(2) [OF ok n(1)] n(5) by (auto simp: phase_ok_def Let_def)
  show ?thesis
  proof (cases "x_step (xs_xact st n) = 1 \<and> body \<noteq> None")
    case True
    then obtain b where b: "body = Some b" by blast
    have "answer st n = []" using p(2) True by (simp add: answer_def del: One_nat_def)
    moreover have "held st' n d xid type"
      using send_response_ok [OF ok n(1,5) _ t, of conf now seid b] True run n by (auto simp: b)
    ultimately show ?thesis by (simp add: still_held_def)
  next
    case False
    have "send_response conf now n t seid body st = Ret (st, [], False)"
    proof (cases body)
      case (Some b)
      then have "x_step (xs_xact st n) = 2" using False p(1) by simp
      then show ?thesis by (rule send_response_again [OF n(5) _ t])
    qed (simp add: send_response_def)
    then have "st' = st" using run by simp
    then show ?thesis using h by (simp add: still_held_def)
  qed
qed

lemma arrival_held:
  assumes ok: "xacts_ok st" and h: "held st n d xid type" and a: "arrival_effect a d' t xid' st st' os rv new"
    and e: "\<not> ends_holding (Arrival d' t xid') n d xid type"
  shows "still_held st st' n d xid type"
proof -
  have n: "n \<in> open_xacts st" "x_node (xs_xact st n) = d" "x_xid (xs_xact st n) = xid" "seq_type 0 (xs_xact st n) = type"
    "x_org (xs_xact st n) = Remote_originator" "ogs_pfcp_xact_get_stage type = Initial_stage" using held_stage [OF ok h] by simp_all
  have other: ?thesis if "others_kept m st st'" "m \<noteq> n" for m
    using held_other [OF h others_keptD(1,2) [OF that(1) n(1) that(2) [symmetric]]] by (simp add: still_held_def)
  show ?thesis
  proof (cases a)
    case Refused
    then show ?thesis using a h by (simp add: arrival_effect_def still_held_def)
  next
    case (Stray m)
    then show ?thesis using a other [of m] n(1) by (auto simp: arrival_effect_def)
  next
    case (First m)
    then show ?thesis using a other [of m] n(1) by (auto simp: arrival_effect_def)
  next
    case (Repeated m)
    then show ?thesis using a held_other [OF h, of st'] n(1) by (simp add: arrival_effect_def still_held_def)
  next
    case (Answer m)
    then have "m \<noteq> n" using a n(5) by (auto simp: arrival_effect_def)
    then show ?thesis using a other [of m] Answer by (simp add: arrival_effect_def)
  next
    case (Mismatch m)
    then have "m \<noteq> n" using a e n by (auto simp: arrival_effect_def ends_holding_def held_def Let_def)
    then show ?thesis using a other [of m] Mismatch by (auto simp: arrival_effect_def dest: others_kept_without)
  qed
qed

lemma held_kept:
  assumes ok: "xacts_ok st" and c: "conf_ok conf" and h: "held st n d xid type" and e: "admitted now st e"
    and run: "xact_do conf now e st = Ret (st', os, new)" and k: "\<not> ends_holding e n d xid type"
  shows "still_held st st' n d xid type"
proof (cases "\<exists>d t x. e = Arrival d t x")
  case True
  then obtain d' t xid' where a: "e = Arrival d' t xid'" by blast
  have "\<not> no_room e st" using do_safe [OF ok c e] run by (auto split: if_splits)
  then have "new_arrival d' t xid' st \<Longrightarrow> xact_room st \<and> timer_room st" using room_there [OF ok] e a by blast
  from receive_ok [where d = d' and type = t and xid = xid' and now = now, OF ok _ c] this show ?thesis using run a arrival_held [OF ok h] k by auto
next
  case False
  have n: "n \<in> open_xacts st" "x_org (xs_xact st n) = Remote_originator" using held_stage [OF ok h] by simp_all
  obtain m where m: "about e st m" "others_kept m st st'" by (rule do_kept [OF ok c e run])
  show ?thesis
  proof (cases "m = n")
    case True
    have "\<exists>t seid b. e = Respond n t seid b"
    proof (cases e)
      case (Expire l j)
      then obtain t where "l = n" "alarm_of st n j = Some t" using m(1) True e by (auto simp: about_def)
      then show ?thesis using phase_alarms [OF xacts_okD(2) [OF ok n(1)]] n(2) k Expire by (auto simp: ends_holding_def)
    qed (use False True m(1) n e k in \<open>auto simp: about_def ends_holding_def\<close>)
    then obtain t seid b where b: "e = Respond n t seid b" by blast
    show ?thesis by (rule respond_held [OF ok h]) (use e run b in simp_all)
  next
    case False
    then have "n \<noteq> m" by simp
    from held_other [OF h others_keptD(1,2) [OF m(2) n(1) this]] show ?thesis by (simp add: still_held_def)
  qed
qed

lemma members_held: "m \<in> members st Remote_originator d \<Longrightarrow> x_xid (xs_xact st m) = xid \<Longrightarrow> held st m d xid (seq_type 0 (xs_xact st m))"
  by (simp add: members_def held_def)

lemma request_arrives:
  assumes ok: "xacts_ok st" and c: "conf_ok conf" and e: "admitted now st (Arrival d type xid)"
    and t: "ogs_pfcp_xact_get_stage type = Initial_stage"
    and run: "xact_do conf now (Arrival d type xid) st = Ret (st', os, new)"
  shows "case new of Some n \<Rightarrow> held st' n d xid type \<and> n \<notin> open_xacts st \<and> (\<forall>m t. \<not> held st m d xid t)
    | None \<Rightarrow> \<exists>m t. held st m d xid t"
    and "held st n d xid type \<Longrightarrow> new = None \<and> os = answer st n"
proof -
  have "\<not> no_room (Arrival d type xid) st" using do_safe [OF ok c e] run by (auto split: if_splits)
  then have "new_arrival d type xid st \<Longrightarrow> xact_room st \<and> timer_room st" using room_there [OF ok e] by blast
  from receive_initial [where d = d and type = type and xid = xid and now = now, OF ok _ c t] this obtain a rv where a: "arrival_effect a d type xid st st' os rv new"
    using run by auto
  have mem: "held st m d xid t \<Longrightarrow> m \<in> members st Remote_originator d \<and> x_xid (xs_xact st m) = xid" for m t
    using held_stage [OF ok] by (fastforce simp: members_def)
  show "case new of Some n \<Rightarrow> held st' n d xid type \<and> n \<notin> open_xacts st \<and> (\<forall>m t. \<not> held st m d xid t)
    | None \<Rightarrow> \<exists>m t. held st m d xid t"
  proof (cases a)
    case (Mismatch m)
    then have "held st m d xid (seq_type 0 (xs_xact st m))" using a t by (simp add: arrival_effect_def held_def)
    then show ?thesis using a Mismatch by (auto simp: arrival_effect_def)
  next
    case (First m)
    then show ?thesis using a mem by (auto simp: arrival_effect_def)
  qed (use a t in \<open>auto simp: arrival_effect_def\<close>)
  show "new = None \<and> os = answer st n" if h: "held st n d xid type"
  proof -
    have n: "n \<in> open_xacts st" "x_node (xs_xact st n) = d" "x_xid (xs_xact st n) = xid" "seq_type 0 (xs_xact st n) = type"
      "x_org (xs_xact st n) = Remote_originator" using held_stage [OF ok h] by simp_all
    show ?thesis
    proof (cases a)
      case (Repeated m)
      then have "held st m d xid type" using a by (simp add: arrival_effect_def)
      then have "m = n" using held_stage [OF ok] n by (intro xacts_okD(3) [OF ok _ n(1)]) auto
      then show ?thesis using a Repeated by (simp add: arrival_effect_def)
    next
      case (Mismatch m)
      then have "m = n" using a t n by (intro xacts_okD(3) [OF ok _ n(1)]) (simp_all add: arrival_effect_def)
      then show ?thesis using a h Mismatch by (simp add: arrival_effect_def)
    next
      case (First m)
      then show ?thesis using a mem [OF h] by (auto simp: arrival_effect_def)
    qed (use a t in \<open>auto simp: arrival_effect_def\<close>)
  qed
qed

section \<open>Requests that are not answered\<close>

text \<open>What is seen while only the response timer of a transaction expires, each time when it is due.\<close>

fun unanswered ::
  "xact_conf \<Rightarrow> nat \<Rightarrow> nat \<Rightarrow> ('c, 'd) xact_state \<Rightarrow> (('c, 'd) xact_state \<times> (int \<times> 'd xact_out) list) exec" where
  "unanswered conf 0 n st = Ret (st, [])"
| "unanswered conf (Suc k) n st =
     (case alarm_of st n Response_timer of None \<Rightarrow> Ret (st, [])
      | Some t \<Rightarrow> exec_bind (xact_do conf t (Expire n Response_timer) st) (\<lambda>(st, os, _).
          exec_bind (unanswered conf k n st) (\<lambda>(st, ps). Ret (st, map (Pair t) os @ ps))))"

definition given_up_at :: "int \<Rightarrow> u8 \<Rightarrow> 'd option \<Rightarrow> (int \<times> 'd xact_out) list" where
  "given_up_at t type cb = (case cb of None \<Rightarrow> [] | Some x \<Rightarrow> [(t, Given_up type x)])"

lemma unanswered_run:
  assumes c: "conf_ok conf"
  shows "xacts_ok st \<Longrightarrow> waiting st n d xid type p cb \<Longrightarrow> alarm_of st n Response_timer = Some a \<Longrightarrow>
    unat (x_response_rcount (xs_xact st n) - 1) = k \<Longrightarrow>
    \<exists>st'. xacts_ok st' \<and> unanswered conf (Suc k) n st =
        Ret (st', map (\<lambda>j. (a + int j * t1_response_duration conf, Sent d p)) [0..<k] @
          given_up_at (a + int k * t1_response_duration conf) type cb) \<and>
      others_kept n st st' \<and> open_xacts st' = open_xacts st - {n}"
proof (induction k arbitrary: st a)
  case 0
  then have "\<not> x_response_rcount (xs_xact st n) - 1 > 0" by (simp add: unat_eq_0)
  then obtain st' where "xacts_ok st'" "xact_expire conf a n Response_timer st = Ret (st', case cb of None \<Rightarrow> [] | Some x \<Rightarrow> [Given_up type x])"
    "others_kept n st st'" "open_xacts st' = open_xacts st - {n}"
    using response_expires [OF 0(1) c 0(2), of a] by (auto simp only: if_False)
  then show ?case using 0(3) by (auto simp: given_up_at_def split: option.splits)
next
  case (Suc k)
  let ?T = "t1_response_duration conf"
  have pos: "x_response_rcount (xs_xact st n) - 1 > 0" using Suc.prems(4) by (metis unat_0 word_neq_0_conv nat.distinct(1))
  then obtain st1 where s1: "xact_expire conf a n Response_timer st = Ret (st1, [Sent d p])" "xacts_ok st1" "others_kept n st st1"
    "waiting st1 n d xid type p cb" "x_response_rcount (xs_xact st1 n) = x_response_rcount (xs_xact st n) - 1"
    "alarm_of st1 n Response_timer = Some (a + ?T)" "open_xacts st1 = open_xacts st"
    using response_expires [OF Suc.prems(1) c Suc.prems(2), of a] by (auto simp only: if_True)
  have "unat (x_response_rcount (xs_xact st1 n) - 1) = k"
    using Suc.prems(4) pos unat_minus_one [of "x_response_rcount (xs_xact st n) - 1"] unfolding s1(5)
    by (simp only: word_neq_0_conv [symmetric] diff_Suc_1 not_False_eq_True)
  from Suc.IH [OF s1(2,4,6) this] obtain st' where ok': "xacts_ok st'" and s': "unanswered conf (Suc k) n st1 =
      Ret (st', map (\<lambda>j. (a + ?T + int j * ?T, Sent d p)) [0..<k] @ given_up_at (a + ?T + int k * ?T) type cb)"
    "others_kept n st1 st'" "open_xacts st' = open_xacts st1 - {n}" by blast
  have up: "map (\<lambda>j. (a + int j * ?T, Sent d p)) [0..<Suc k] = (a, Sent d p) # map (\<lambda>j. (a + ?T + int j * ?T, Sent d p)) [0..<k]"
    by (simp add: map_upt_Suc algebra_simps del: upt_Suc)
  have at: "a + int (Suc k) * ?T = a + ?T + int k * ?T" by (simp add: algebra_simps)
  have "unanswered conf (Suc (Suc k)) n st =
      exec_bind (unanswered conf (Suc k) n st1) (\<lambda>(st, ps). Ret (st, (a, Sent d p) # ps))"
    using s1(1) Suc.prems(3) by (simp only: unanswered.simps(2) [of conf "Suc k"]) (simp del: unanswered.simps(2))
  then have "unanswered conf (Suc (Suc k)) n st =
      Ret (st', map (\<lambda>j. (a + int j * ?T, Sent d p)) [0..<Suc k] @ given_up_at (a + int (Suc k) * ?T) type cb)"
    unfolding up at by (simp only: s'(1) exec_bind.simps prod.case append_Cons)
  then show ?case using ok' s'(2,3) s1(7) others_kept_trans [OF s1(3)] by auto
qed

section \<open>Transactions without an end\<close>

text \<open>A local transaction that does not wait for anything.\<close>

definition stranded :: "('c, 'd) xact_state \<Rightarrow> nat \<Rightarrow> bool" where
  "stranded st n \<longleftrightarrow> n \<in> open_xacts st \<and> x_org (xs_xact st n) = Local_originator \<and> x_step (xs_xact st n) \<noteq> 1"

lemma stranded_alarms: "xacts_ok st \<Longrightarrow> stranded st n \<Longrightarrow> alarm_of st n k = None"
  using xacts_okD(2) [of st n] by (cases k) (auto simp: stranded_def phase_ok_def Let_def)

lemma stranded_stays:
  assumes ok: "xacts_ok st" and c: "conf_ok conf" and s: "stranded st n" and e: "enabled now st e"
    and run: "xact_do conf now e st = Ret (st', os, new)"
    and x: "e \<noteq> Conclude n" "\<forall>t. e = Arrival (x_node (xs_xact st n)) t (x_xid (xs_xact st n)) \<longrightarrow> ogs_pfcp_xact_get_stage t \<noteq> Final_stage"
  shows "n \<in> open_xacts st' \<and> xs_xact st' n = xs_xact st n"
proof -
  have n: "n \<in> open_xacts st" "x_org (xs_xact st n) = Local_originator" using s by (simp_all add: stranded_def)
  obtain m where m: "about e st m" "others_kept m st st'" using do_ok [OF ok c e] run by (auto simp: good_end_def)
  show ?thesis
  proof (cases "m = n")
    case True
    have "\<exists>d t xid. e = Arrival d t xid \<and> ogs_pfcp_xact_get_stage t = Unknown_stage"
    proof (cases e)
      case (Arrival d t xid)
      then have "ogs_pfcp_xact_get_stage t \<noteq> Initial_stage" "d = x_node (xs_xact st n)" "xid = x_xid (xs_xact st n)"
        using m(1) n True by (auto simp: about_def)
      then show ?thesis using Arrival x(2) stage_cases [of t] by auto
    next
      case (Expire l k)
      then show ?thesis using stranded_alarms [OF ok s, of k] m(1) True e by (simp add: about_def)
    qed (use True m(1) n e x(1) in \<open>auto simp: about_def\<close>)
    then have "st' = st" using run by (auto simp: ogs_pfcp_xact_receive_def)
    then show ?thesis using n by simp
  next
    case False
    then have "n \<noteq> m" by simp
    from others_keptD(1,2) [OF m(2) n(1) this] show ?thesis by simp
  qed
qed

section \<open>Creation without timers\<close>

text \<open>A transaction that has some of its timers and is in no list yet.\<close>

definition half_made :: "nat \<Rightarrow> nat \<Rightarrow> ('c, 'd) xact_state \<Rightarrow> bool" where
  "half_made n d st \<longleftrightarrow> (let x = xs_xact st n in
     pool_ok (xs_pool st) \<and> n \<in> open_xacts st \<and> timers_ok (xs_timers st) \<and> xs_links st n = null_links \<and>
     x_org x = Local_originator \<and> x_node x = d \<and> 1 \<le> x_id x \<and> x_id x \<le> OGS_MAX_POOL_ID \<and>
     (\<forall>k t. x_timer x k = Some t \<longrightarrow> t \<in> allocated (tm_pool (xs_timers st))) \<and>
     (\<forall>k j t. x_timer x k = Some t \<longrightarrow> x_timer x j = Some t \<longrightarrow> k = j))"

text \<open>What is left of the list of requests to a peer.\<close>

definition emptied :: "nat \<Rightarrow> nat \<Rightarrow> ('c, 'd) xact_state \<Rightarrow> (('c, 'd) xact_state \<times> nat option) exec \<Rightarrow> bool" where
  "emptied n d st r \<longleftrightarrow> (\<exists>st'. r = Ret (st', None) \<and> list_at (xact_list Local_originator d st') [] \<and>
     open_xacts st' = open_xacts st - {n})"

lemma delete_timers_some: "delete_timers ts m = delete_timers (map Some (map the (filter (\<lambda>t. t \<noteq> None) ts))) m"
proof (induction ts arbitrary: m)
  case (Cons t ts)
  show ?case
  proof (cases t)
    case (Some a)
    then show ?thesis by (cases "ogs_timer_delete m a") (simp_all add: Cons.IH del: not_None_eq)
  qed (use Cons.IH in simp)
qed simp

lemma half_made_delete:
  assumes h: "half_made n d st"
  shows "\<exists>st'. ogs_pfcp_xact_delete n st = Ret st' \<and> list_at (xact_list Local_originator d st') [] \<and>
    open_xacts st' = open_xacts st - {n}"
proof -
  let ?x = "xs_xact st n" and ?ks = "[Response_timer, Holding_timer, Delayed_commit_timer]"
  let ?ts = "map the (filter (\<lambda>t. t \<noteq> None) (map (x_timer ?x) ?ks))"
  have H: "pool_ok (xs_pool st)" "n \<in> open_xacts st" "timers_ok (xs_timers st)" "xs_links st n = null_links" "x_org ?x = Local_originator"
    "x_node ?x = d" "1 \<le> x_id ?x" "x_id ?x \<le> OGS_MAX_POOL_ID" "\<And>k t. x_timer ?x k = Some t \<Longrightarrow> t \<in> allocated (tm_pool (xs_timers st))"
    "\<And>k j t. x_timer ?x k = Some t \<Longrightarrow> x_timer ?x j = Some t \<Longrightarrow> k = j"
    using h by (auto simp: half_made_def Let_def)
  have "distinct ?ts" using H(10) by auto blast+
  moreover have "set ?ts \<subseteq> allocated (tm_pool (xs_timers st))" using H(9) by auto
  ultimately obtain m where m: "delete_timers (map (x_timer ?x) ?ks) (xs_timers st) = Ret m"
    using delete_timers_ok [OF H(3), of ?ts] delete_timers_some [of "map (x_timer ?x) ?ks"] by metis
  obtain p where p: "ogs_pool_id_free (xs_pool st) n (x_id ?x) = Ret p" using H(7,8) by (simp add: ogs_pool_id_free_def)
  have "n \<in> allocated (xs_pool st)" using H(2) by (simp add: open_xacts_def)
  note f = id_free_facts [OF H(1) this p]
  define l where "l = ogs_list_remove n (xact_list Local_originator d st)"
  have "list_at l []" unfolding l_def by (rule remove_unlisted_empties) (simp add: xact_list_def H(4))
  moreover have "ogs_pfcp_xact_delete n st = Ret (put_list Local_originator d l (st\<lparr>xs_timers := m\<rparr>)\<lparr>xs_pool := p\<rparr>)"
    using m p H(5,6) by (simp add: ogs_pfcp_xact_delete_def Let_def l_def xact_list_def)
  moreover have "xact_list Local_originator d (put_list Local_originator d l (st\<lparr>xs_timers := m\<rparr>)\<lparr>xs_pool := p\<rparr>) = l"
    by (simp add: xact_list_def put_list_def)
  ultimately show ?thesis using f by (simp add: open_xacts_def)
qed

lemma timer_missing:
  assumes h: "half_made n d st" and f: "free_timers st = 0"
  shows "emptied n d st (add_xact_timer k n rest st)"
proof -
  have p: "pool_ok (tm_pool (xs_timers st))" using h by (simp add: half_made_def Let_def timers_ok_def)
  then have "pool_avail (tm_pool (xs_timers st)) = 0" using card_allocated [OF p] f by (simp add: free_timers_def)
  then have "ogs_timer_add (xs_timers st) cb = (xs_timers st, None)" for cb by (simp add: ogs_timer_add_def alloc_None)
  then show ?thesis using half_made_delete [OF h] by (auto simp: add_xact_timer_def emptied_def)
qed

lemma timer_there:
  assumes h: "half_made n d st" and f: "free_timers st = Suc i" and k: "x_timer (xs_xact st n) k = None"
    and same: "\<And>x. x_id (g x) = x_id x" "\<And>x. x_org (g x) = x_org x" "\<And>x. x_node (g x) = x_node x" "\<And>x. x_timer (g x) = x_timer x"
  shows "\<exists>st1. add_xact_timer k n (\<lambda>st. rest (update_xact n g st)) st = rest st1 \<and> half_made n d st1 \<and> free_timers st1 = i \<and>
    open_xacts st1 = open_xacts st \<and> (\<forall>j. j \<noteq> k \<longrightarrow> x_timer (xs_xact st1 n) j = x_timer (xs_xact st n) j)"
proof -
  let ?cb = "Xact_call k (x_id (xs_xact st n))"
  have t: "timers_ok (xs_timers st)" using h by (simp add: half_made_def Let_def)
  have "card (allocated (tm_pool (xs_timers st))) < pool_size (tm_pool (xs_timers st))" using f by (simp add: free_timers_def)
  from timer_add_ok [OF t this, of ?cb] obtain m t1 where m: "ogs_timer_add (xs_timers st) ?cb = (m, Some t1)" "timers_ok m"
    "t1 \<notin> allocated (tm_pool (xs_timers st))" "allocated (tm_pool m) = insert t1 (allocated (tm_pool (xs_timers st)))"
    "pool_size (tm_pool m) = pool_size (tm_pool (xs_timers st))" by metis
  define st1 where "st1 = update_xact n g (update_xact n (\<lambda>x. x\<lparr>x_timer := (x_timer x)(k := Some t1)\<rparr>) (st\<lparr>xs_timers := m\<rparr>))"
  have x1: "x_timer (xs_xact st1 n) = (x_timer (xs_xact st n))(k := Some t1)" "x_id (xs_xact st1 n) = x_id (xs_xact st n)"
    "x_org (xs_xact st1 n) = x_org (xs_xact st n)" "x_node (xs_xact st1 n) = x_node (xs_xact st n)"
    by (simp_all add: st1_def same)
  have s1: "xs_pool st1 = xs_pool st" "xs_timers st1 = m" "xs_links st1 = xs_links st" by (simp_all add: st1_def)
  have o: "open_xacts st1 = open_xacts st" by (simp add: open_xacts_def s1)
  have "half_made n d st1" using h m(2,3) unfolding half_made_def x1 s1 o m(4) Let_def by (auto split: if_splits)
  moreover have "free_timers st1 = i" using f m(3,4,5) by (simp add: free_timers_def s1)
  moreover have "add_xact_timer k n (\<lambda>st. rest (update_xact n g st)) st = rest st1" by (simp add: add_xact_timer_def m(1) st1_def)
  ultimately show ?thesis using o x1(1) by auto
qed

text \<open>
  A request to a peer while fewer than three timers are left: the new transaction is deleted again
  before it was added to the list, and that makes the list of the peer's transactions empty.
\<close>

lemma add_timers_fail:
  assumes h: "half_made n d st" and f: "free_timers st < 3" and x: "x_timer (xs_xact st n) = (\<lambda>_. None)"
  shows "emptied n d st (add_timers conf n st)"
proof -
  define rest where "rest = (\<lambda>st :: ('a, 'b) xact_state. let x = xs_xact st n in
    Ret (put_list (x_org x) (x_node x) (ogs_list_add n (xact_list (x_org x) (x_node x) st)) st, Some n))"
  define g1 where "g1 = (\<lambda>x :: 'b pfcp_xact. x\<lparr>x_response_rcount := n1_response_rcount conf\<rparr>)"
  define g2 where "g2 = (\<lambda>x :: 'b pfcp_xact. x\<lparr>x_holding_rcount := n1_holding_rcount conf\<rparr>)"
  have g: "x_id (g1 x) = x_id x" "x_org (g1 x) = x_org x" "x_node (g1 x) = x_node x" "x_timer (g1 x) = x_timer x"
    "x_id (g2 x) = x_id x" "x_org (g2 x) = x_org x" "x_node (g2 x) = x_node x" "x_timer (g2 x) = x_timer x" for x
    by (simp_all add: g1_def g2_def)
  define r2 where "r2 = (\<lambda>st :: ('a, 'b) xact_state. add_xact_timer Delayed_commit_timer n rest st)"
  define r1 where "r1 = (\<lambda>st. add_xact_timer Holding_timer n (\<lambda>st. r2 (update_xact n g2 st)) st)"
  have run: "add_timers conf n st = add_xact_timer Response_timer n (\<lambda>st. r1 (update_xact n g1 st)) st"
    by (simp add: add_timers_def r1_def r2_def rest_def g1_def g2_def)
  show ?thesis
  proof (cases "free_timers st")
    case 0
    then show ?thesis unfolding run by (rule timer_missing [OF h])
  next
    case (Suc i)
    obtain st1 where s1: "add_timers conf n st = r1 st1" "half_made n d st1" "free_timers st1 = i" "open_xacts st1 = open_xacts st"
      "x_timer (xs_xact st1 n) Holding_timer = None" "x_timer (xs_xact st1 n) Delayed_commit_timer = None"
      using timer_there [OF h Suc _ g(1-4), of Response_timer r1] x unfolding run by auto
    show ?thesis
    proof (cases i)
      case 0
      then show ?thesis using timer_missing [OF s1(2)] s1 by (simp add: r1_def emptied_def)
    next
      case (Suc j)
      with s1(3) have "free_timers st1 = Suc j" by simp
      from timer_there [OF s1(2) this s1(5) g(5-8), of r2] obtain st2 where s2: "r1 st1 = r2 st2" "half_made n d st2"
        "free_timers st2 = j" "open_xacts st2 = open_xacts st1" unfolding r1_def by auto
      have "j = 0" using f Suc \<open>free_timers st = Suc i\<close> by simp
      then show ?thesis using timer_missing [OF s2(2)] s1 s2 by (simp add: r2_def emptied_def)
    qed
  qed
qed

lemma local_create_fail:
  assumes ok: "base_ok st" and room: "xact_room st" and f: "free_timers st < 3"
  shows "\<exists>st'. ogs_pfcp_xact_local_create conf d cb st = Ret (st', None) \<and> list_at (xact_list Local_originator d st') [] \<and>
    open_xacts st' = open_xacts st"
proof -
  let ?x = "zero_xact\<lparr>x_node := d, x_cb := cb\<rparr> :: 'b pfcp_xact" and ?xid = "next_xid (xs_g_xact_id st)"
  obtain st1 n i where a: "alloc_xact ?x st = (st1, Some n)" "taken n (?x\<lparr>x_id := i\<rparr>) st st1"
    using alloc_xact_taken [OF ok room] by blast
  have g: "xs_g_xact_id st1 = xs_g_xact_id st" using a(1) by (auto simp: alloc_xact_def split: prod.splits option.splits)
  define st2 where "st2 = update_xact n (\<lambda>x. x\<lparr>x_xid := ?xid\<rparr>) (st1\<lparr>xs_g_xact_id := ?xid\<rparr>)"
  have T: "n \<notin> open_xacts st" "open_xacts st1 = insert n (open_xacts st)" "ids_ok st1" "xs_timers st1 = xs_timers st"
    "xs_links st1 n = null_links" "xs_xact st1 n = ?x\<lparr>x_id := i\<rparr>" using a(2) by (simp_all add: taken_def)
  have s2: "xs_pool st2 = xs_pool st1" "xs_timers st2 = xs_timers st" "xs_links st2 = xs_links st1"
    "xs_xact st2 n = (?x\<lparr>x_id := i\<rparr>)\<lparr>x_xid := ?xid\<rparr>" using T by (simp_all add: st2_def)
  have o: "open_xacts st2 = insert n (open_xacts st)" using T(2) by (simp add: open_xacts_def s2)
  have "1 \<le> i \<and> i \<le> OGS_MAX_POOL_ID" "pool_ok (xs_pool st1)" using T(2,3,6) by (simp_all add: ids_ok_def)
  then have "half_made n d st2" using base_okD(4) [OF ok] o T(5) by (simp add: half_made_def Let_def s2)
  moreover have "free_timers st2 < 3" using f by (simp add: free_timers_def s2)
  ultimately have "emptied n d st2 (add_timers conf n st2)" by (rule add_timers_fail) (simp add: s2)
  moreover have "ogs_pfcp_xact_local_create conf d cb st = add_timers conf n st2"
    using a(1) g by (simp add: ogs_pfcp_xact_local_create_def Let_def st2_def)
  ultimately show ?thesis using o T(1) by (auto simp: emptied_def)
qed

section \<open>Headers\<close>

lemma rd32_at: "rd32 (xs @ be32 w @ ys) (length xs) = w"
  by (simp add: rd32_def rd8_def be32_def nth_append of_be32_split)

lemma shifted_number:
  fixes xid :: u32
  assumes "xid < 2 ^ 24"
  shows "drop_bit 8 (push_bit 8 xid) = xid"
proof -
  have "unat xid < 2 ^ 24" using assms by (simp add: word_less_nat_alt)
  then have "unat (take_bit 24 xid) = unat xid" unfolding unsigned_take_bit_eq by (rule take_bit_nat_eq_self)
  then have t: "take_bit 24 xid = xid" by (rule unsigned_word_eqI)
  have "bit xid n \<Longrightarrow> n < 24" for n using t bit_take_bit_iff [of 24 xid n] by simp
  then show ?thesis by (intro bit_word_eqI) (auto simp: bit_simps)
qed

lemmas header_defs = ogs_pfcp_header_def OGS_PFCP_HEADER_LEN_def OGS_PFCP_SEID_LEN_def OGS_PFCP_VERSION_def

lemma unat16_small: "n < 2 ^ 16 \<Longrightarrow> unat (word_of_nat n :: u16) = n"
  by (simp add: unat_of_nat take_bit_nat_eq_self)

lemma header_received:
  assumes "length body + 12 < 2 ^ 16" "type \<ge> OGS_PFCP_SESSION_ESTABLISHMENT_REQUEST_TYPE \<or> 4 \<le> length body"
  shows "ogs_pfcp_recvfrom (ogs_pfcp_header type seid xid body) = Received (ogs_pfcp_header type seid xid body)"
proof -
  have "unat (word_of_nat (12 + length body) :: u16) = 12 + length body" "unat (word_of_nat (4 + length body) :: u16) = 4 + length body"
    using assms(1) by (intro unat16_small; simp)+
  then show ?thesis using assms(2)
    by (auto simp: ogs_pfcp_recvfrom_def header_defs MIN_PFCP_HEADER_LENGTH_def rd8_def rd16_def be16_def of_be16_split
        simp del: of_nat_add)
qed

lemma header_parsed:
  assumes "xid < 2 ^ 24"
  shows "ogs_pfcp_parse_header (ogs_pfcp_header type seid xid body) =
    (if type \<ge> OGS_PFCP_SESSION_ESTABLISHMENT_REQUEST_TYPE
     then Some (\<lparr>ph_seid_presence = True, ph_type = type, ph_seid = seid, ph_xid = xid\<rparr>, 16)
     else Some (\<lparr>ph_seid_presence = False, ph_type = type, ph_seid = 0, ph_xid = xid\<rparr>, 8))"
proof -
  let ?l = "be16 (of_nat (16 + length body - 4))" and ?k = "be16 (of_nat (8 + length body - 4))"
  have a: "rd32 (([33, type] @ ?l @ be64 seid) @ be32 (push_bit 8 xid) @ body) 12 = push_bit 8 xid"
    using rd32_at [of "[33, type] @ ?l @ be64 seid"] by simp
  have b: "rd32 (([32, type] @ ?k) @ be32 (push_bit 8 xid) @ body) 4 = push_bit 8 xid"
    using rd32_at [of "[32, type] @ ?k"] by simp
  have "take 8 (drop 4 ([33, type] @ ?l @ be64 seid @ be32 (push_bit 8 xid) @ body)) = be64 seid" by (simp add: be16_def)
  then show ?thesis using a b shifted_number [OF assms]
    by (simp add: ogs_pfcp_parse_header_def header_defs rd8_def Let_def)
qed

section \<open>Properties\<close>

text \<open>A small configuration for the examples: eight transactions, sixteen timers.\<close>

definition sample_conf :: xact_conf where
  "sample_conf = \<lparr>n1_response_rcount = 3, t1_response_duration = 3000, n1_holding_rcount = 1, t1_holding_duration = 9000\<rparr>"

definition start_xacts :: "nat \<Rightarrow> ('c, 'd) xact_state" where
  "start_xacts timers = ogs_pfcp_xact_init 8 1 (ogs_timer_mgr_create timers 2)"

definition sample_xacts :: "nat \<Rightarrow> (unit, nat) xact_state" where
  "sample_xacts = start_xacts"

lemma sample_conf_ok: "conf_ok sample_conf"
  by (simp add: conf_ok_def sample_conf_def)

lemma start_xacts_reachable: "xact_reachable conf (start_xacts t)"
  unfolding start_xacts_def by (rule xact_reachable.start [OF timers_ok_create])

lemma start_room:
  fixes st :: "('c, 'd) xact_state"
  assumes st: "st = start_xacts t"
  shows "open_xacts st = {}" "xact_room st" "free_timers st = t" "3 \<le> t \<Longrightarrow> timer_room st" "xs_g_xact_id st = 0"
proof -
  have o: "open_xacts st = {}" by (simp add: st open_xacts_def start_xacts_def ogs_pfcp_xact_init_def allocated_init)
  then show "open_xacts st = {}" .
  show "xact_room st" unfolding xact_room_def o
    by (simp add: st start_xacts_def ogs_pfcp_xact_init_def id_fresh_def ogs_pfcp_xact_find_by_id_def ogs_pool_find_by_id_def
        ogs_pool_init_def ht.look_empty)
  have "allocated (tm_pool (xs_timers st)) = {}" "pool_size (tm_pool (xs_timers st)) = t"
    by (simp_all add: st start_xacts_def ogs_pfcp_xact_init_def ogs_timer_mgr_create_def allocated_init) (simp add: ogs_pool_init_def)
  then show "free_timers st = t" "3 \<le> t \<Longrightarrow> timer_room st" by (simp_all add: free_timers_def timer_room_def)
  show "xs_g_xact_id st = 0" by (simp add: st start_xacts_def ogs_pfcp_xact_init_def)
qed

lemma sample_xacts_reachable: "xact_reachable conf (sample_xacts t)"
  unfolding sample_xacts_def by (rule start_xacts_reachable)

lemmas sample_room = start_room [OF fun_cong [OF sample_xacts_def]]

text \<open>
  C8: In every state that transactions reach without two events, each of the two lists of each peer
  can be walked to its end and holds just the open transactions of that peer and direction, each
  once; a transaction is found under its identifier; a request of ours runs its response timer
  exactly while it waits, and a request of a peer is held by a timer for as long as it is open; and
  no two open requests of a peer have the same sequence number. The two events: a request of ours
  that finds a free transaction but fewer than three free timers, which breaks the list
  (\<open>timers_exhausted_empties_list\<close>), and a new transaction when the counter of identifiers has come
  round to an open one. Other events with exhausted pools are among those that lead to the states.
\<close>

theorem xact_bookkeeping:
  assumes "xact_reachable conf st" "conf_ok conf"
  shows "(\<forall>r d. \<exists>ns. ogs_list_for_each (xs_links st) (ln_next (fst (xact_list r d st))) = Some ns \<and> distinct ns \<and>
      (\<forall>n. n \<in> set ns \<longleftrightarrow> n \<in> open_xacts st \<and> x_org (xs_xact st n) = r \<and> x_node (xs_xact st n) = d)) \<and>
    (\<forall>n \<in> open_xacts st. ogs_pfcp_xact_find_by_id (x_id (xs_xact st n)) st = Some n \<and>
      (alarm_of st n Response_timer \<noteq> None \<longleftrightarrow> x_org (xs_xact st n) = Local_originator \<and> x_step (xs_xact st n) = 1) \<and>
      (alarm_of st n Holding_timer \<noteq> None \<longleftrightarrow> x_org (xs_xact st n) = Remote_originator)) \<and>
    (\<forall>n d xid t m u. held st n d xid t \<longrightarrow> held st m d xid u \<longrightarrow> n = m)"
proof (intro conjI allI ballI impI)
  have ok: "xacts_ok st" by (rule xact_reachable_ok [OF assms])
  note b = xacts_okD(1) [OF ok]
  fix r d
  obtain ns where ns: "list_at (xact_list r d st) ns" "set ns = members st r d" using lists_asD [OF base_okD(1) [OF b]] by blast
  have "ogs_list_for_each (xs_links st) (ln_next (fst (xact_list r d st))) = Some ns"
    using for_each_list_at [OF ns(1)] by (simp add: xact_list_def)
  then show "\<exists>ns. ogs_list_for_each (xs_links st) (ln_next (fst (xact_list r d st))) = Some ns \<and> distinct ns \<and>
      (\<forall>n. n \<in> set ns \<longleftrightarrow> n \<in> open_xacts st \<and> x_org (xs_xact st n) = r \<and> x_node (xs_xact st n) = d)"
    using ns by (auto simp: members_def list_at_def)
next
  have ok: "xacts_ok st" by (rule xact_reachable_ok [OF assms])
  fix n
  assume n: "n \<in> open_xacts st"
  show "ogs_pfcp_xact_find_by_id (x_id (xs_xact st n)) st = Some n" using base_okD(9) [OF xacts_okD(1) [OF ok]] n by simp
  show "alarm_of st n Response_timer \<noteq> None \<longleftrightarrow> x_org (xs_xact st n) = Local_originator \<and> x_step (xs_xact st n) = 1"
    "alarm_of st n Holding_timer \<noteq> None \<longleftrightarrow> x_org (xs_xact st n) = Remote_originator"
    using xacts_okD(2) [OF ok n] by (cases "x_org (xs_xact st n)"; simp add: phase_ok_def Let_def)+
next
  have ok: "xacts_ok st" by (rule xact_reachable_ok [OF assms])
  fix n d xid t m u
  assume h: "held st n d xid t" "held st m d xid u"
  have f: "n \<in> open_xacts st" "x_node (xs_xact st n) = d" "x_xid (xs_xact st n) = xid" "x_org (xs_xact st n) = Remote_originator"
    "m \<in> open_xacts st" "x_node (xs_xact st m) = d" "x_xid (xs_xact st m) = xid" "x_org (xs_xact st m) = Remote_originator"
    using held_stage [OF ok h(1)] held_stage [OF ok h(2)] by blast+
  show "n = m" by (rule xacts_okD(3) [OF ok f(1,5,4,8)]) (simp_all only: f)
qed

theorem xact_bookkeeping_witness:
  "\<exists>ns. ogs_list_for_each (xs_links (sample_xacts 16)) (ln_next (fst (xact_list Local_originator 7 (sample_xacts 16)))) = Some ns"
  using xact_bookkeeping [OF sample_xacts_reachable sample_conf_ok, of 16] by blast

text \<open>
  C6: A request of a peer is handed to the program if and only if no open request of the peer has its
  sequence number, so never twice while it is held. A repetition gets the answer that was sent, or
  none before there is one. Until its holding time ends a request stays held with its answer,
  whatever else happens to other transactions; only the response to a heartbeat, and a request of
  another type under the same number, end it early. An event ends the process if and only if it is
  an arrival that needs a new transaction while none is free or fewer than three timers are. As in
  \<open>xact_bookkeeping\<close>, a request of ours that finds a transaction but not its timers, and a clash of
  identifiers, are left out of the events.
\<close>

theorem request_delivered_once:
  assumes r: "xact_reachable conf st" "conf_ok conf" and e: "admitted now st e"
  shows "(xact_do conf now e st = Abort \<longleftrightarrow> no_room e st) \<and> (\<forall>st' os new. xact_do conf now e st = Ret (st', os, new) \<longrightarrow>
    (\<forall>d type xid. e = Arrival d type xid \<longrightarrow> ogs_pfcp_xact_get_stage type = Initial_stage \<longrightarrow>
      (case new of Some n \<Rightarrow> held st' n d xid type \<and> n \<notin> open_xacts st \<and> (\<forall>m t. \<not> held st m d xid t)
       | None \<Rightarrow> \<exists>m t. held st m d xid t)) \<and>
    (\<forall>n d xid type. held st n d xid type \<longrightarrow>
      (e = Arrival d type xid \<longrightarrow> new = None \<and> os = answer st n) \<and>
      (\<not> ends_holding e n d xid type \<longrightarrow> held st' n d xid type \<and> (answer st n \<noteq> [] \<longrightarrow> answer st' n = answer st n))))"
proof -
  have ok: "xacts_ok st" by (rule xact_reachable_ok [OF r])
  show ?thesis
  proof (intro conjI allI impI)
    show "xact_do conf now e st = Abort \<longleftrightarrow> no_room e st"
      using do_safe [OF ok r(2) e] by (auto simp: good_end_def split: if_splits)
  next
    fix st' os new d type xid
    assume run: "xact_do conf now e st = Ret (st', os, new)" and "e = Arrival d type xid" "ogs_pfcp_xact_get_stage type = Initial_stage"
    then show "case new of Some n \<Rightarrow> held st' n d xid type \<and> n \<notin> open_xacts st \<and> (\<forall>m t. \<not> held st m d xid t)
       | None \<Rightarrow> \<exists>m t. held st m d xid t"
      using request_arrives(1) [OF ok r(2)] e run by blast
  next
    fix st' os new n d xid type
    assume run: "xact_do conf now e st = Ret (st', os, new)" and h: "held st n d xid type" and a: "e = Arrival d type xid"
    have "ogs_pfcp_xact_get_stage type = Initial_stage" using held_stage [OF ok h] by simp
    then show "new = None" "os = answer st n" using request_arrives(2) [OF ok r(2) _ _ _ h] e run unfolding a by blast+
  next
    fix st' os new n d xid type
    assume run: "xact_do conf now e st = Ret (st', os, new)" and h: "held st n d xid type" and k: "\<not> ends_holding e n d xid type"
    then have s: "still_held st st' n d xid type" using held_kept [OF ok r(2) h e run] by blast
    then show "held st' n d xid type" by (simp add: still_held_def)
    assume "answer st n \<noteq> []"
    then show "answer st' n = answer st n" using s by (simp add: still_held_def)
  qed
qed

theorem request_delivered_once_witness:
  "\<exists>st' os n. xact_do sample_conf 0 (Arrival 7 50 9) (sample_xacts 16) = Ret (st', os, Some n) \<and> held st' n 7 9 50"
proof -
  have t: "ogs_pfcp_xact_get_stage 50 = Initial_stage" by (simp add: ogs_pfcp_xact_get_stage_def)
  have e: "enabled 0 (sample_xacts 16) (Arrival 7 50 9 :: nat xact_event)" by (simp add: sample_room)
  note d = request_delivered_once [OF sample_xacts_reachable sample_conf_ok enabled_admitted [OF e]]
  have "\<not> no_room (Arrival 7 50 9 :: nat xact_event) (sample_xacts 16)"
    using e t by (auto simp: no_room_def xact_full_def xact_room_def timer_room_def free_timers_def)
  with d obtain st' os new where r: "xact_do sample_conf 0 (Arrival 7 50 9) (sample_xacts 16) = Ret (st', os, new)"
    by (cases "xact_do sample_conf 0 (Arrival 7 50 9) (sample_xacts 16)") auto
  with d t have "case new of Some n \<Rightarrow> held st' n 7 9 50 | None \<Rightarrow> \<exists>m t. held (sample_xacts 16) m 7 9 t"
    by (fastforce split: option.splits)
  with r show ?thesis by (fastforce simp: held_def sample_room split: option.splits)
qed

text \<open>
  C7: A request that finds a free transaction with its three timers and is never answered is sent at
  intervals of the response time, one time less than the configured number after the first (a number
  of 0 means 256), then the transaction is given up: it is gone, the timers in use are those from
  before the request, nothing is found under its identifier any more, and the callback is called
  once, with the type of the request. The other transactions are not touched.
\<close>

theorem request_given_up:
  assumes r: "xact_reachable conf st" "conf_ok conf" and e: "enabled now st (Request d cb type seid (Some body))"
  shows "\<exists>st' n st''. let p = ogs_pfcp_header type seid (next_xid (xs_g_xact_id st)) body;
      k = unat (n1_response_rcount conf - 1); T = t1_response_duration conf in
    xact_do conf now (Request d cb type seid (Some body)) st = Ret (st', [Sent d p], None) \<and> n \<notin> open_xacts st \<and>
    unanswered conf (Suc k) n st' = Ret (st'', map (\<lambda>j. (now + T + int j * T, Sent d p)) [0..<k] @
      given_up_at (now + T + int k * T) type cb) \<and>
    open_xacts st'' = open_xacts st \<and> others_kept n st st'' \<and>
    allocated (tm_pool (xs_timers st'')) = allocated (tm_pool (xs_timers st)) \<and>
    ogs_pfcp_xact_find_by_id (x_id (xs_xact st' n)) st'' = None"
proof -
  have ok: "xacts_ok st" by (rule xact_reachable_ok [OF r])
  let ?p = "ogs_pfcp_header type seid (next_xid (xs_g_xact_id st)) body" and ?T = "t1_response_duration conf"
  have "xact_room st" "timer_room st" "ogs_pfcp_xact_get_stage type = Initial_stage" using e by simp_all
  from send_request_ok [OF ok this(1,2) r(2) this(3)] obtain st' n where
    s: "send_request conf now d cb type seid (Some body) st = Ret (st', [Sent d ?p], True)" "xacts_ok st'" "n \<notin> open_xacts st"
      "open_xacts st' = insert n (open_xacts st)" "others_kept n st st'" "waiting st' n d (next_xid (xs_g_xact_id st)) type ?p cb"
      "x_response_rcount (xs_xact st' n) = n1_response_rcount conf" "alarm_of st' n Response_timer = Some (now + ?T)"
    by metis
  have "unat (x_response_rcount (xs_xact st' n) - 1) = unat (n1_response_rcount conf - 1)" by (simp add: s(7))
  from unanswered_run [OF r(2) s(2,6,8) this] obtain st'' where
    u: "unanswered conf (Suc (unat (n1_response_rcount conf - 1))) n st' =
      Ret (st'', map (\<lambda>j. (now + ?T + int j * ?T, Sent d ?p)) [0..<unat (n1_response_rcount conf - 1)] @
        given_up_at (now + ?T + int (unat (n1_response_rcount conf - 1)) * ?T) type cb)"
      "others_kept n st' st''" "open_xacts st'' = open_xacts st' - {n}" "xacts_ok st''" by blast
  have o: "open_xacts st'' = open_xacts st" using u(3) s(3,4) by simp
  have k: "others_kept n st st''" using others_kept_trans [OF s(5) u(2)] .
  have t: "allocated (tm_pool (xs_timers st'')) = allocated (tm_pool (xs_timers st))"
    using k s(3) o by (simp add: others_kept_def timers_but_def own_timers_def)
  have "ogs_pfcp_xact_find_by_id (x_id (xs_xact st' n)) st'' \<noteq> Some m" for m
    using base_okD(9) [OF xacts_okD(1) [OF u(4)]] ids_inject [OF xacts_okD(1) [OF s(2)], of n m] u(2,3) s(4)
    by (auto simp: others_kept_def)
  then have "ogs_pfcp_xact_find_by_id (x_id (xs_xact st' n)) st'' = None" by auto
  then show ?thesis using s(1,3) u(1) o k t unfolding Let_def by (auto simp del: unanswered.simps)
qed

theorem request_given_up_witness:
  "\<exists>st' n st''. unanswered sample_conf 3 n st' = Ret (st'',
    [(3000, Sent 7 [32, 1, 0, 8, 0, 0, 1, 0, 0, 96, 0, 0]), (6000, Sent 7 [32, 1, 0, 8, 0, 0, 1, 0, 0, 96, 0, 0]), (9000, Given_up 1 5)])
    \<and> open_xacts (st'' :: (unit, nat) xact_state) = {}"
proof -
  have p: "ogs_pfcp_header 1 0 1 [0, 96, 0, 0] = [32, 1, 0, 8, 0, 0, 1, 0, 0, 96, 0, 0]"
    by (simp add: header_defs OGS_PFCP_SESSION_ESTABLISHMENT_REQUEST_TYPE_def be16_def be32_def word_le_nat_alt)
  have x: "next_xid 0 = 1" by (simp add: next_xid_def PFCP_MAX_XACT_ID_def)
  have k: "unat (n1_response_rcount sample_conf - 1) = 2" "t1_response_duration sample_conf = 3000" by (simp_all add: sample_conf_def)
  have u: "Suc 2 = 3" "[0..<2] = [0, 1]" by (simp_all add: upt_rec)
  have "ogs_pfcp_xact_get_stage 1 = Initial_stage" by (simp add: ogs_pfcp_xact_get_stage_def)
  then have "enabled 0 (sample_xacts 16) (Request 7 (Some 5) 1 0 (Some [0, 96, 0, 0]))" by (simp add: sample_room)
  from request_given_up [OF sample_xacts_reachable sample_conf_ok this] show ?thesis
    unfolding Let_def p x sample_room k u by (auto simp: given_up_at_def simp del: unanswered.simps)
qed

text \<open>
  C30: When fewer than three timers are free, a request to a peer is not sent, and all requests to that
  peer that wait for a response are lost: they stay open, but a response to any of them is no longer
  found. The transaction that cannot have its timers is deleted before it was put in the list of the
  peer, and removing it empties the list.
\<close>

theorem timers_exhausted_empties_list:
  assumes r: "xact_reachable conf st" "conf_ok conf" and room: "xact_room st" and f: "free_timers st < 3"
  shows "\<exists>st'. send_request conf now d cb type seid body st = Ret (st', [], False) \<and> open_xacts st' = open_xacts st \<and>
    (\<forall>xid. xact_lookup Local_originator d xid st' = Some None)"
proof -
  have b: "base_ok st" by (rule xacts_okD(1) [OF xact_reachable_ok [OF r]])
  obtain st' where s: "ogs_pfcp_xact_local_create conf d cb st = Ret (st', None)" "list_at (xact_list Local_originator d st') []"
    "open_xacts st' = open_xacts st" using local_create_fail [OF b room f] by blast
  have "xact_lookup Local_originator d xid st' = Some None" for xid
    using find_list_at [OF s(2)] by (simp add: xact_lookup_def xact_list_def)
  then show ?thesis using s(1,3) by (simp add: send_request_def)
qed

theorem timers_exhausted_empties_list_witness:
  "\<exists>st'. send_request sample_conf 0 7 None 1 0 (Some []) (sample_xacts 2) = Ret (st', [], False) \<and>
    xact_lookup Local_originator 7 1 st' = Some None"
  using timers_exhausted_empties_list [OF sample_xacts_reachable sample_conf_ok sample_room(2), of 2 0 7 None 1 0 "Some []"]
  by (auto simp: sample_room)

text \<open>
  C29: A transaction of ours that does not wait for a response, because its request could not be built
  or because nobody concludes it after the response came, has no timer that runs. No event but its
  conclusion or a further response under its number removes it: it stays in the pool for good.
\<close>

theorem stranded_for_good:
  assumes r: "xact_reachable conf st" "conf_ok conf" and s: "stranded st n" and e: "enabled now st e"
    and x: "e \<noteq> Conclude n" "\<forall>t. e = Arrival (x_node (xs_xact st n)) t (x_xid (xs_xact st n)) \<longrightarrow> ogs_pfcp_xact_get_stage t \<noteq> Final_stage"
  shows "(\<forall>k. alarm_of st n k = None) \<and> (\<exists>st' os new. xact_do conf now e st = Ret (st', os, new) \<and> stranded st' n \<and>
    (\<forall>k. alarm_of st' n k = None))"
proof -
  have ok: "xacts_ok st" by (rule xact_reachable_ok [OF r])
  obtain st' os new where run: "xact_do conf now e st = Ret (st', os, new)" "xacts_ok st'"
    using do_ok [OF ok r(2) e] by (auto simp: good_end_def)
  have "stranded st' n" using stranded_stays [OF ok r(2) s e run(1) x] s by (simp add: stranded_def)
  then show ?thesis using stranded_alarms [OF ok s] stranded_alarms [OF run(2)] run(1) by blast
qed

theorem stranded_for_good_witness:
  "\<exists>st n. xact_reachable sample_conf (st :: (unit, nat) xact_state) \<and> n \<in> open_xacts st \<and> (\<forall>k. alarm_of st n k = None)"
proof -
  have ok: "xacts_ok (sample_xacts 16)" by (rule xact_reachable_ok [OF sample_xacts_reachable sample_conf_ok])
  obtain st n where s: "send_request sample_conf 0 7 None 1 0 None (sample_xacts 16) = Ret (st, [], False)"
    "open_xacts st = insert n (open_xacts (sample_xacts 16))" "x_org (xs_xact st n) = Local_originator" "x_step (xs_xact st n) = 0"
    using send_request_none [OF ok sample_room(2) sample_room(4), of sample_conf 0 7 None 1 0] by auto
  have e: "enabled 0 (sample_xacts 16) (Request 7 None 1 0 None)" by (simp add: sample_room ogs_pfcp_xact_get_stage_def)
  have r: "xact_reachable sample_conf st"
    by (rule xact_reachable.event [OF sample_xacts_reachable enabled_admitted [OF e]]) (simp add: s(1))
  have "stranded st n" using s(2-4) by (simp add: stranded_def)
  from stranded_for_good [OF r sample_conf_ok this, of 0 "Arrival 0 0 0"] show ?thesis using r s(2) by auto
qed

text \<open>
  C33: A message that a transaction of ours builds passes the checks of the receiver and is read back
  with its type, its SEID where the type has one, its sequence number, and its body.
\<close>

theorem header_read_back:
  assumes "xid < 2 ^ 24" "length body + 12 < 2 ^ 16"
    "type \<ge> OGS_PFCP_SESSION_ESTABLISHMENT_REQUEST_TYPE \<or> 4 \<le> length body"
  shows "ogs_pfcp_recvfrom (ogs_pfcp_header type seid xid body) = Received (ogs_pfcp_header type seid xid body) \<and>
    (\<exists>h n. ogs_pfcp_parse_header (ogs_pfcp_header type seid xid body) = Some (h, n) \<and> ph_type h = type \<and> ph_xid h = xid \<and>
      (ph_seid_presence h \<longleftrightarrow> type \<ge> OGS_PFCP_SESSION_ESTABLISHMENT_REQUEST_TYPE) \<and> (ph_seid_presence h \<longrightarrow> ph_seid h = seid) \<and>
      drop n (ogs_pfcp_header type seid xid body) = body)"
  using header_received [OF assms(2,3)] header_parsed [OF assms(1)] by (auto simp: header_defs be16_def)

theorem header_read_back_witness:
  "ogs_pfcp_recvfrom (ogs_pfcp_header 50 77 9 []) = Received (ogs_pfcp_header 50 77 9 [])"
  using header_read_back [of 9 "[]" 50 77] by (simp add: OGS_PFCP_SESSION_ESTABLISHMENT_REQUEST_TYPE_def)

end
