(* ===== verification/Upf_Sm.thy ===== *)
theory Upf_Sm
  imports Pfcp_Xact N4_Handler Pfcp_Report
begin

text \<open>
  The control path of the user plane function: the state machine of a PFCP peer
  (\<^verbatim>\<open>src/upf/pfcp-sm.c\<close>), the senders of its messages (\<^verbatim>\<open>src/upf/pfcp-path.c\<close>,
  \<^verbatim>\<open>lib/pfcp/path.c\<close>), the heartbeat and association handlers of \<^verbatim>\<open>lib/pfcp/handler.c\<close> and the
  events of \<^verbatim>\<open>src/upf/upf-sm.c\<close>. It puts the transactions of \<open>Pfcp_Xact\<close> and the session
  requests of \<open>N4_Handler\<close> together.
\<close>

section \<open>State\<close>

text \<open>
  A peer is named by its node. The callbacks of the timers of a peer push an event; the data of a
  callback of a transaction is a peer or the identifier of a session.
\<close>

datatype peer_state = State_initial | State_will_associate | State_associated | State_exception

datatype upf_timer = UPF_TIMER_ASSOCIATION | UPF_TIMER_NO_HEARTBEAT

datatype 'e upf_call = Peer_call upf_timer nat | Session_call 'e

datatype upf_data = Peer_data nat | Session_data u32

record pfcp_peer =
  pe_state :: peer_state
  pe_t_association :: "nat option"
  pe_t_no_heartbeat :: "nat option"
  pe_remote_recovery :: u32
  pe_restoration_required :: bool

record 'e upf_process =
  pr_n4 :: "'e upf_call timer_call n4_state"
  pr_xacts :: "('e upf_call, upf_data) xact_state"
  pr_peers :: "nat \<Rightarrow> pfcp_peer"
  pr_sess_node :: "nat \<Rightarrow> nat option"
  pr_cp_features :: u8
  pr_report_buf :: bytes

text \<open>The decoded message: of the elements those that the handlers read.\<close>

record upf_message =
  ms_h :: pfcp_header
  ms_recovery_time_stamp :: "u32 option"
  ms_cp_function_features :: "u8 option"
  ms_cp_f_seid :: "f_seid option"
  ms_establishment :: establishment_request
  ms_modification :: modification_request

datatype upf_event = UPF_EVT_N4_MESSAGE nat upf_message | UPF_EVT_N4_TIMER upf_timer nat | UPF_EVT_N4_NO_HEARTBEAT nat

datatype upf_out = To_peer nat bytes | To_gnb datagram | Push upf_event

text \<open>
  What is built by generated code: the bodies of the messages. The environment has their builder,
  the intervals of the configuration and what the session requests need.
\<close>

datatype upf_body =
    Heartbeat_request_body
  | Heartbeat_response_body
  | Association_request_body
  | Association_response_body u8
  | Session_response_body u8 n4_response
  | Report_request_body session_report_request

record 'c upf_env =
  ve_n4 :: "'c n4_env"
  ve_conf :: xact_conf
  ve_association_interval :: int
  ve_no_heartbeat_duration :: int
  ve_seed :: u32
  ve_pad :: bytes
  ve_build :: "upf_body \<Rightarrow> bytes option"

type_synonym 'e env = "'e upf_call timer_call upf_env"

text \<open>A step returns the state and what went out, in order.\<close>

type_synonym 'e upf_step = "('e upf_process \<times> upf_out list) exec"

definition then_do :: "'e upf_step \<Rightarrow> ('e upf_process \<Rightarrow> 'e upf_step) \<Rightarrow> 'e upf_step" where
  "then_do m f = exec_bind m (\<lambda>(st, os). exec_bind (f st) (\<lambda>(st, os'). Ret (st, os @ os')))"

definition update_peer :: "nat \<Rightarrow> (pfcp_peer \<Rightarrow> pfcp_peer) \<Rightarrow> 'e upf_process \<Rightarrow> 'e upf_process" where
  "update_peer d f st = st\<lparr>pr_peers := (pr_peers st)(d := f (pr_peers st d))\<rparr>"

definition tran :: "nat \<Rightarrow> peer_state \<Rightarrow> 'e upf_process \<Rightarrow> 'e upf_process" where
  "tran d s = update_peer d (\<lambda>p. p\<lparr>pe_state := s\<rparr>)"

text \<open>The process has one timer manager: it is kept with the sessions and lent to the transactions.\<close>

definition timers_of :: "'e upf_process \<Rightarrow> 'e upf_call timer_call timer_mgr" where
  "timers_of st = uc_timers (ns_ctx (pr_n4 st))"

definition put_timers :: "'e upf_call timer_call timer_mgr \<Rightarrow> 'e upf_process \<Rightarrow> 'e upf_process" where
  "put_timers m st = st\<lparr>pr_n4 := (pr_n4 st)\<lparr>ns_ctx := (ns_ctx (pr_n4 st))\<lparr>uc_timers := m\<rparr>\<rparr>\<rparr>"

definition xacts_of :: "'e upf_process \<Rightarrow> ('e upf_call, upf_data) xact_state" where
  "xacts_of st = (pr_xacts st)\<lparr>xs_timers := timers_of st\<rparr>"

definition put_xacts :: "('e upf_call, upf_data) xact_state \<Rightarrow> 'e upf_process \<Rightarrow> 'e upf_process" where
  "put_xacts x st = put_timers (xs_timers x) (st\<lparr>pr_xacts := x\<rparr>)"

text \<open>
  The callbacks of transactions that are given up, \<^verbatim>\<open>node_timeout\<close> and \<^verbatim>\<open>sess_timeout\<close>: only a
  heartbeat has a consequence.
\<close>

fun xact_callback :: "u8 \<Rightarrow> upf_data \<Rightarrow> upf_out list" where
  "xact_callback type (Peer_data d) =
     (if type = OGS_PFCP_HEARTBEAT_REQUEST_TYPE then [Push (UPF_EVT_N4_NO_HEARTBEAT d)] else [])"
| "xact_callback type (Session_data i) = []"

fun out_of :: "upf_data xact_out \<Rightarrow> upf_out list" where
  "out_of (Sent d b) = [To_peer d b]"
| "out_of (Given_up type x) = xact_callback type x"

definition on_xacts ::
  "(('e upf_call, upf_data) xact_state \<Rightarrow> (('e upf_call, upf_data) xact_state \<times> upf_data xact_out list \<times> 'r) exec) \<Rightarrow>
     'e upf_process \<Rightarrow> ('e upf_process \<times> upf_out list \<times> 'r) exec" where
  "on_xacts f st = exec_bind (f (xacts_of st)) (\<lambda>(x, os, r). Ret (put_xacts x st, concat (map out_of os), r))"

definition ignoring :: "('e upf_process \<times> upf_out list \<times> 'r) exec \<Rightarrow> 'e upf_step" where
  "ignoring m = exec_bind m (\<lambda>(st, os, _). Ret (st, os))"

definition asserting :: "('e upf_process \<times> upf_out list \<times> bool) exec \<Rightarrow> 'e upf_step" where
  "asserting m = exec_bind m (\<lambda>(st, os, ok). if ok then Ret (st, os) else Abort)"

section \<open>Senders\<close>

definition ogs_pfcp_send_heartbeat_request ::
  "'e env \<Rightarrow> int \<Rightarrow> nat \<Rightarrow> 'e upf_process \<Rightarrow> ('e upf_process \<times> upf_out list \<times> bool) exec" where
  "ogs_pfcp_send_heartbeat_request env now d =
     on_xacts (send_request (ve_conf env) now d (Some (Peer_data d)) OGS_PFCP_HEARTBEAT_REQUEST_TYPE 0
       (ve_build env Heartbeat_request_body))"

definition ogs_pfcp_up_send_association_setup_request ::
  "'e env \<Rightarrow> int \<Rightarrow> nat \<Rightarrow> 'e upf_process \<Rightarrow> ('e upf_process \<times> upf_out list \<times> bool) exec" where
  "ogs_pfcp_up_send_association_setup_request env now d =
     on_xacts (send_request (ve_conf env) now d (Some (Peer_data d)) OGS_PFCP_ASSOCIATION_SETUP_REQUEST_TYPE 0
       (ve_build env Association_request_body))"

definition ogs_pfcp_up_send_association_setup_response ::
  "'e env \<Rightarrow> int \<Rightarrow> nat \<Rightarrow> u8 \<Rightarrow> 'e upf_process \<Rightarrow> ('e upf_process \<times> upf_out list \<times> bool) exec" where
  "ogs_pfcp_up_send_association_setup_response env now n cause =
     on_xacts (send_response (ve_conf env) now n OGS_PFCP_ASSOCIATION_SETUP_RESPONSE_TYPE 0
       (ve_build env (Association_response_body cause)))"

definition response_seid :: "n4_response \<Rightarrow> u64" where
  "response_seid r = (case r of ErrorMessage seid _ _ \<Rightarrow> seid | Accepted seid _ \<Rightarrow> seid | DeletionResponse seid _ \<Rightarrow> seid)"

text \<open>
  A refusal and the response to a deletion are sent without a look at the result. An accepted
  establishment or modification that cannot be answered ends the process.
\<close>

definition send_n4_response ::
  "'e env \<Rightarrow> int \<Rightarrow> nat \<Rightarrow> u8 \<Rightarrow> n4_response \<Rightarrow> 'e upf_process \<Rightarrow> 'e upf_step" where
  "send_n4_response env now n type r st =
     (let sent = on_xacts (send_response (ve_conf env) now n type (response_seid r) (ve_build env (Session_response_body type r))) st
      in case r of Accepted _ _ \<Rightarrow> asserting sent | _ \<Rightarrow> ignoring sent)"

text \<open>The report is built, with the static buffer, after the transaction was created.\<close>

definition upf_pfcp_send_session_report_request ::
  "'e env \<Rightarrow> int \<Rightarrow> nat \<Rightarrow> session_report \<Rightarrow> 'e upf_process \<Rightarrow> ('e upf_process \<times> upf_out list \<times> bool) exec" where
  "upf_pfcp_send_session_report_request env now n rep st =
     (case pr_sess_node st n of None \<Rightarrow> Abort
      | Some d \<Rightarrow> exec_bind (ogs_pfcp_build_session_report_request rep (pr_report_buf st)) (\<lambda>(q, buf).
          on_xacts (send_request (ve_conf env) now d (Some (Session_data (se_id (uc_sess (ns_ctx (pr_n4 st)) n))))
            OGS_PFCP_SESSION_REPORT_REQUEST_TYPE (smf_seid n (pr_n4 st)) (ve_build env (Report_request_body q)))
            (st\<lparr>pr_report_buf := buf\<rparr>)))"

section \<open>Timers of a peer\<close>

definition add_peer_timer :: "upf_timer \<Rightarrow> nat \<Rightarrow> 'e upf_process \<Rightarrow> ('e upf_process \<times> nat) exec" where
  "add_peer_timer k d st =
     (case ogs_timer_add (timers_of st) (Other_call (Peer_call k d)) of
        (m, None) \<Rightarrow> Abort | (m, Some t) \<Rightarrow> Ret (put_timers m st, t))"

definition start_peer_timer :: "int \<Rightarrow> nat option \<Rightarrow> int \<Rightarrow> 'e upf_process \<Rightarrow> 'e upf_step" where
  "start_peer_timer now t duration st =
     (case t of None \<Rightarrow> Abort
      | Some t \<Rightarrow> exec_bind (ogs_timer_start now (timers_of st) t duration) (\<lambda>m. Ret (put_timers m st, [])))"

definition stop_peer_timer :: "nat option \<Rightarrow> 'e upf_process \<Rightarrow> 'e upf_step" where
  "stop_peer_timer t st =
     (case t of None \<Rightarrow> Abort | Some t \<Rightarrow> exec_bind (ogs_timer_stop (timers_of st) t) (\<lambda>m. Ret (put_timers m st, [])))"

definition delete_peer_timer :: "nat option \<Rightarrow> 'e upf_process \<Rightarrow> 'e upf_step" where
  "delete_peer_timer t st =
     (case t of None \<Rightarrow> Abort | Some t \<Rightarrow> exec_bind (ogs_timer_delete (timers_of st) t) (\<lambda>m. Ret (put_timers m st, [])))"

text \<open>The callbacks \<^verbatim>\<open>upf_timer_association\<close> and \<^verbatim>\<open>upf_timer_no_heartbeat\<close>.\<close>

definition timer_send_event :: "upf_timer \<Rightarrow> nat \<Rightarrow> upf_out list" where
  "timer_send_event k d = [Push (UPF_EVT_N4_TIMER k d)]"

section \<open>Heartbeats and associations\<close>

text \<open>A time stamp that is later than the one before means that the peer has restarted.\<close>

definition note_recovery :: "u32 \<Rightarrow> pfcp_peer \<Rightarrow> pfcp_peer" where
  "note_recovery t p =
     (if pe_remote_recovery p = 0 \<or> pe_remote_recovery p = t then p\<lparr>pe_remote_recovery := t\<rparr>
      else if pe_remote_recovery p < t then p\<lparr>pe_remote_recovery := t, pe_restoration_required := True\<rparr>
      else p\<lparr>pe_remote_recovery := t\<rparr>)"

definition ogs_pfcp_handle_heartbeat_request ::
  "'e env \<Rightarrow> int \<Rightarrow> nat \<Rightarrow> nat \<Rightarrow> upf_message \<Rightarrow> 'e upf_process \<Rightarrow> 'e upf_step" where
  "ogs_pfcp_handle_heartbeat_request env now d n ms st =
     (case ms_recovery_time_stamp ms of None \<Rightarrow> Ret (st, [])
      | Some t \<Rightarrow> ignoring (on_xacts (ogs_pfcp_send_heartbeat_response (ve_conf env) now n (ve_build env Heartbeat_response_body))
          (update_peer d (note_recovery t) st)))"

definition ogs_pfcp_handle_heartbeat_response ::
  "'e env \<Rightarrow> int \<Rightarrow> nat \<Rightarrow> nat \<Rightarrow> upf_message \<Rightarrow> 'e upf_process \<Rightarrow> 'e upf_step" where
  "ogs_pfcp_handle_heartbeat_response env now d n ms st =
     then_do (ignoring (on_xacts (ogs_pfcp_xact_commit (ve_conf env) now n) st)) (\<lambda>st.
       case ms_recovery_time_stamp ms of None \<Rightarrow> Ret (st, [])
       | Some t \<Rightarrow> start_peer_timer now (pe_t_no_heartbeat (pr_peers st d)) (ve_no_heartbeat_duration env)
           (update_peer d (note_recovery t) st))"

definition note_features :: "upf_message \<Rightarrow> 'e upf_process \<Rightarrow> 'e upf_process" where
  "note_features ms st = (case ms_cp_function_features ms of None \<Rightarrow> st | Some f \<Rightarrow> st\<lparr>pr_cp_features := f\<rparr>)"

definition ogs_pfcp_up_handle_association_setup_request ::
  "'e env \<Rightarrow> int \<Rightarrow> nat \<Rightarrow> upf_message \<Rightarrow> 'e upf_process \<Rightarrow> 'e upf_step" where
  "ogs_pfcp_up_handle_association_setup_request env now n ms st =
     then_do (ignoring (ogs_pfcp_up_send_association_setup_response env now n OGS_PFCP_CAUSE_REQUEST_ACCEPTED st))
       (\<lambda>st. Ret (note_features ms st, []))"

definition ogs_pfcp_up_handle_association_setup_response ::
  "'e env \<Rightarrow> int \<Rightarrow> nat \<Rightarrow> upf_message \<Rightarrow> 'e upf_process \<Rightarrow> 'e upf_step" where
  "ogs_pfcp_up_handle_association_setup_response env now n ms st =
     then_do (ignoring (on_xacts (ogs_pfcp_xact_commit (ve_conf env) now n) st)) (\<lambda>st. Ret (note_features ms st, []))"

section \<open>Sessions\<close>

definition put_ctx :: "'e upf_call timer_call upf_context \<Rightarrow> 'e upf_process \<Rightarrow> 'e upf_process" where
  "put_ctx c st = st\<lparr>pr_n4 := (pr_n4 st)\<lparr>ns_ctx := c\<rparr>\<rparr>"

text \<open>All sessions of a peer that has restarted; the next session is read before one is removed.\<close>

fun restore_list :: "nat \<Rightarrow> nat list \<Rightarrow> 'e upf_process \<Rightarrow> 'e upf_process exec" where
  "restore_list d [] st = Ret st"
| "restore_list d (n # ns) st =
     (if pr_sess_node st n = Some d
      then exec_bind (upf_sess_remove n (ns_ctx (pr_n4 st))) (\<lambda>c. restore_list d ns (put_ctx c st))
      else restore_list d ns st)"

definition pfcp_restoration :: "nat \<Rightarrow> 'e upf_process \<Rightarrow> 'e upf_process exec" where
  "pfcp_restoration d st = restore_list d (uc_list (ns_ctx (pr_n4 st))) st"

definition restored :: "nat \<Rightarrow> 'e upf_process \<Rightarrow> 'e upf_step" where
  "restored d st = exec_bind (pfcp_restoration d st) (\<lambda>st. Ret (update_peer d (\<lambda>p. p\<lparr>pe_restoration_required := False\<rparr>) st, []))"

text \<open>After a heartbeat: a peer we associate with is associated again before its sessions go.\<close>

definition after_heartbeat :: "nat \<Rightarrow> 'e upf_process \<Rightarrow> 'e upf_step" where
  "after_heartbeat d st =
     (let p = pr_peers st d in
      if \<not> pe_restoration_required p then Ret (st, [])
      else if pe_t_association p \<noteq> None then Ret (tran d State_will_associate st, []) else restored d st)"

text \<open>The handlers of session requests, with the state of the sessions replaced by the result.\<close>

definition on_n4 ::
  "('e upf_call timer_call n4_state \<Rightarrow> ('e upf_call timer_call n4_state \<times> datagram list \<times> n4_response) exec) \<Rightarrow>
     (n4_response \<Rightarrow> 'e upf_process \<Rightarrow> 'e upf_step) \<Rightarrow> 'e upf_process \<Rightarrow> 'e upf_step" where
  "on_n4 f respond st = exec_bind (f (pr_n4 st)) (\<lambda>(n4, ds, r).
     then_do (Ret (st\<lparr>pr_n4 := n4\<rparr>, map To_gnb ds)) (respond r))"

text \<open>That the response can be sent is decided by the transaction: the requests are run as if it can.\<close>

definition sending :: "'e env \<Rightarrow> 'e upf_call timer_call n4_env" where
  "sending env = (ve_n4 env)\<lparr>ne_send_ok := True\<rparr>"

definition handle_establishment :: "'e env \<Rightarrow> int \<Rightarrow> nat \<Rightarrow> nat \<Rightarrow> upf_message \<Rightarrow> 'e upf_process \<Rightarrow> 'e upf_step" where
  "handle_establishment env now d n ms st =
     exec_bind (upf_sess_add_by_message (ve_seed env) (ve_pad env) (ms_cp_f_seid ms) (ns_ctx (pr_n4 st))) (\<lambda>(c, sess).
       let st = put_ctx c st; st = (case sess of None \<Rightarrow> st | Some s \<Rightarrow> st\<lparr>pr_sess_node := (pr_sess_node st)(s := Some d)\<rparr>)
       in on_n4 (upf_n4_handle_session_establishment_request (sending env) sess (ms_establishment ms))
            (send_n4_response env now n OGS_PFCP_SESSION_ESTABLISHMENT_RESPONSE_TYPE) st)"

definition handle_modification :: "'e env \<Rightarrow> int \<Rightarrow> nat option \<Rightarrow> nat \<Rightarrow> upf_message \<Rightarrow> 'e upf_process \<Rightarrow> 'e upf_step" where
  "handle_modification env now sess n ms =
     on_n4 (upf_n4_handle_session_modification_request (sending env) sess (ms_modification ms))
       (send_n4_response env now n OGS_PFCP_SESSION_MODIFICATION_RESPONSE_TYPE)"

text \<open>The response to a deletion, with the last reports, is sent before the session is removed.\<close>

definition handle_deletion :: "'e env \<Rightarrow> int \<Rightarrow> nat option \<Rightarrow> nat \<Rightarrow> 'e upf_process \<Rightarrow> 'e upf_step" where
  "handle_deletion env now sess n st =
     (let respond = send_n4_response env now n OGS_PFCP_SESSION_DELETION_RESPONSE_TYPE in
      case sess of None \<Rightarrow> respond (ErrorMessage 0 OGS_PFCP_CAUSE_SESSION_CONTEXT_NOT_FOUND 0) st
      | Some s \<Rightarrow>
          (let c = ns_ctx (pr_n4 st); urrs = map (\<lambda>u. uo_urr (pc_urr (uc_pfcp c) u)) (ps_urr_list (pc_sess (uc_pfcp c) s)) in
           exec_bind (deletion_report (ne_now (ve_n4 env)) (se_urr_acc (uc_sess c s)) urrs) (\<lambda>(accs, rep).
           then_do (respond (DeletionResponse (smf_seid s (pr_n4 st)) rep) (put_ctx (with_sess s (\<lambda>d. d\<lparr>se_urr_acc := accs\<rparr>) c) st))
             (\<lambda>st. exec_bind (upf_sess_remove s (ns_ctx (pr_n4 st))) (\<lambda>c. Ret (put_ctx c st, []))))))"

definition message_session :: "upf_message \<Rightarrow> 'e upf_process \<Rightarrow> nat option" where
  "message_session ms st =
     (if ph_seid_presence (ms_h ms) \<and> ph_seid (ms_h ms) \<noteq> 0
      then upf_sess_find_by_upf_n4_seid (ns_ctx (pr_n4 st)) (ph_seid (ms_h ms)) else None)"

section \<open>The states of a peer\<close>

text \<open>What a state is called with: entry and exit, or an event; a message comes with its transaction.\<close>

datatype upf_signal = Entry | Exit | Message upf_message nat | Timer upf_timer | No_heartbeat

definition associate :: "'e env \<Rightarrow> int \<Rightarrow> nat \<Rightarrow> 'e upf_process \<Rightarrow> 'e upf_step" where
  "associate env now d st =
     then_do (start_peer_timer now (pe_t_association (pr_peers st d)) (ve_association_interval env) st)
       (\<lambda>st. ignoring (ogs_pfcp_up_send_association_setup_request env now d st))"

fun upf_pfcp_state_will_associate :: "'e env \<Rightarrow> int \<Rightarrow> nat \<Rightarrow> upf_signal \<Rightarrow> 'e upf_process \<Rightarrow> 'e upf_step" where
  "upf_pfcp_state_will_associate env now d Entry st =
     (if pe_t_association (pr_peers st d) = None then Ret (st, []) else associate env now d st)"
| "upf_pfcp_state_will_associate env now d Exit st =
     (if pe_t_association (pr_peers st d) = None then Ret (st, []) else stop_peer_timer (pe_t_association (pr_peers st d)) st)"
| "upf_pfcp_state_will_associate env now d (Timer k) st =
     (case k of UPF_TIMER_ASSOCIATION \<Rightarrow> associate env now d st | UPF_TIMER_NO_HEARTBEAT \<Rightarrow> Ret (st, []))"
| "upf_pfcp_state_will_associate env now d (Message ms n) st =
     (let type = ph_type (ms_h ms) in
      if type = OGS_PFCP_HEARTBEAT_REQUEST_TYPE then ogs_pfcp_handle_heartbeat_request env now d n ms st
      else if type = OGS_PFCP_HEARTBEAT_RESPONSE_TYPE then ogs_pfcp_handle_heartbeat_response env now d n ms st
      else if type = OGS_PFCP_ASSOCIATION_SETUP_REQUEST_TYPE
      then then_do (ogs_pfcp_up_handle_association_setup_request env now n ms st) (\<lambda>st. Ret (tran d State_associated st, []))
      else if type = OGS_PFCP_ASSOCIATION_SETUP_RESPONSE_TYPE
      then then_do (ogs_pfcp_up_handle_association_setup_response env now n ms st) (\<lambda>st. Ret (tran d State_associated st, []))
      else Ret (st, []))"
| "upf_pfcp_state_will_associate env now d No_heartbeat st = Ret (st, [])"

fun upf_pfcp_state_associated :: "'e env \<Rightarrow> int \<Rightarrow> nat \<Rightarrow> upf_signal \<Rightarrow> 'e upf_process \<Rightarrow> 'e upf_step" where
  "upf_pfcp_state_associated env now d Entry st =
     then_do (start_peer_timer now (pe_t_no_heartbeat (pr_peers st d)) (ve_no_heartbeat_duration env) st) (\<lambda>st.
     then_do (asserting (ogs_pfcp_send_heartbeat_request env now d st)) (\<lambda>st.
       if pe_restoration_required (pr_peers st d) then restored d st else Ret (st, [])))"
| "upf_pfcp_state_associated env now d Exit st = stop_peer_timer (pe_t_no_heartbeat (pr_peers st d)) st"
| "upf_pfcp_state_associated env now d (Message ms n) st =
     (let type = ph_type (ms_h ms); sess = message_session ms st in
      if type = OGS_PFCP_HEARTBEAT_REQUEST_TYPE
      then then_do (ogs_pfcp_handle_heartbeat_request env now d n ms st) (after_heartbeat d)
      else if type = OGS_PFCP_HEARTBEAT_RESPONSE_TYPE
      then then_do (ogs_pfcp_handle_heartbeat_response env now d n ms st) (after_heartbeat d)
      else if type = OGS_PFCP_ASSOCIATION_SETUP_REQUEST_TYPE then ogs_pfcp_up_handle_association_setup_request env now n ms st
      else if type = OGS_PFCP_ASSOCIATION_SETUP_RESPONSE_TYPE then ogs_pfcp_up_handle_association_setup_response env now n ms st
      else if type = OGS_PFCP_SESSION_ESTABLISHMENT_REQUEST_TYPE then handle_establishment env now d n ms st
      else if type = OGS_PFCP_SESSION_MODIFICATION_REQUEST_TYPE then handle_modification env now sess n ms st
      else if type = OGS_PFCP_SESSION_DELETION_REQUEST_TYPE then handle_deletion env now sess n st
      else if type = OGS_PFCP_SESSION_REPORT_RESPONSE_TYPE
      then ignoring (on_xacts (ogs_pfcp_xact_commit (ve_conf env) now n) st)
      else Ret (st, []))"
| "upf_pfcp_state_associated env now d (Timer k) st =
     (case k of UPF_TIMER_NO_HEARTBEAT \<Rightarrow> asserting (ogs_pfcp_send_heartbeat_request env now d st)
      | UPF_TIMER_ASSOCIATION \<Rightarrow> Ret (st, []))"
| "upf_pfcp_state_associated env now d No_heartbeat st = Ret (tran d State_will_associate st, [])"

definition upf_pfcp_state_initial :: "nat \<Rightarrow> 'e upf_process \<Rightarrow> 'e upf_step" where
  "upf_pfcp_state_initial d st =
     exec_bind (add_peer_timer UPF_TIMER_NO_HEARTBEAT d st) (\<lambda>(st, t).
       Ret (tran d State_will_associate (update_peer d (\<lambda>p. p\<lparr>pe_t_no_heartbeat := Some t\<rparr>) st), []))"

definition upf_pfcp_state_final :: "nat \<Rightarrow> 'e upf_process \<Rightarrow> 'e upf_step" where
  "upf_pfcp_state_final d st = delete_peer_timer (pe_t_no_heartbeat (pr_peers st d)) st"

section \<open>State machines\<close>

fun run_state :: "peer_state \<Rightarrow> 'e env \<Rightarrow> int \<Rightarrow> nat \<Rightarrow> upf_signal \<Rightarrow> 'e upf_process \<Rightarrow> 'e upf_step" where
  "run_state State_initial env now d sig st = upf_pfcp_state_initial d st"
| "run_state State_will_associate env now d sig st = upf_pfcp_state_will_associate env now d sig st"
| "run_state State_associated env now d sig st = upf_pfcp_state_associated env now d sig st"
| "run_state State_exception env now d sig st = Ret (st, [])"

text \<open>A change of the state by the handler is followed by the exit of the old and the entry of the new one.\<close>

definition ogs_fsm_dispatch :: "'e env \<Rightarrow> int \<Rightarrow> nat \<Rightarrow> upf_signal \<Rightarrow> 'e upf_process \<Rightarrow> 'e upf_step" where
  "ogs_fsm_dispatch env now d sig st =
     (let s = pe_state (pr_peers st d) in
      then_do (run_state s env now d sig st) (\<lambda>st.
        let s' = pe_state (pr_peers st d) in
        if s' = s then Ret (st, [])
        else then_do (run_state s env now d Exit st) (run_state s' env now d Entry)))"

definition ogs_fsm_init :: "'e env \<Rightarrow> int \<Rightarrow> nat \<Rightarrow> 'e upf_process \<Rightarrow> 'e upf_step" where
  "ogs_fsm_init env now d st =
     then_do (upf_pfcp_state_initial d (tran d State_initial st)) (\<lambda>st.
       if pe_state (pr_peers st d) = State_initial then Ret (st, []) else run_state (pe_state (pr_peers st d)) env now d Entry st)"

definition ogs_fsm_fini :: "'e env \<Rightarrow> int \<Rightarrow> nat \<Rightarrow> 'e upf_process \<Rightarrow> 'e upf_step" where
  "ogs_fsm_fini env now d st =
     then_do (run_state (pe_state (pr_peers st d)) env now d Exit st) (upf_pfcp_state_final d)"

definition pfcp_node_fsm_init :: "'e env \<Rightarrow> int \<Rightarrow> nat \<Rightarrow> bool \<Rightarrow> 'e upf_process \<Rightarrow> 'e upf_step" where
  "pfcp_node_fsm_init env now d try_to_associate st =
     (if try_to_associate
      then exec_bind (add_peer_timer UPF_TIMER_ASSOCIATION d st) (\<lambda>(st, t).
        ogs_fsm_init env now d (update_peer d (\<lambda>p. p\<lparr>pe_t_association := Some t\<rparr>) st))
      else ogs_fsm_init env now d st)"

definition pfcp_node_fsm_fini :: "'e env \<Rightarrow> int \<Rightarrow> nat \<Rightarrow> 'e upf_process \<Rightarrow> 'e upf_step" where
  "pfcp_node_fsm_fini env now d st =
     then_do (ogs_fsm_fini env now d st) (\<lambda>st.
       if pe_t_association (pr_peers st d) = None then Ret (st, []) else delete_peer_timer (pe_t_association (pr_peers st d)) st)"

section \<open>Events\<close>

text \<open>The transaction of a message is passed to the state by its identifier.\<close>

definition with_message :: "'e env \<Rightarrow> int \<Rightarrow> nat \<Rightarrow> upf_message \<Rightarrow> nat \<Rightarrow> 'e upf_process \<Rightarrow> 'e upf_step" where
  "with_message env now d ms n st =
     (case ogs_pfcp_xact_find_by_id (x_id (xs_xact (pr_xacts st) n)) (xacts_of st) of
        None \<Rightarrow> Abort | Some n \<Rightarrow> ogs_fsm_dispatch env now d (Message ms n) st)"

fun upf_state_operational :: "'e env \<Rightarrow> int \<Rightarrow> upf_event \<Rightarrow> 'e upf_process \<Rightarrow> 'e upf_step" where
  "upf_state_operational env now (UPF_EVT_N4_MESSAGE d ms) st =
     exec_bind (on_xacts (\<lambda>x. exec_bind (ogs_pfcp_xact_receive (ve_conf env) now d (ph_type (ms_h ms)) (ph_xid (ms_h ms)) x)
         (\<lambda>(x, os, rv, new). Ret (x, os, new))) st) (\<lambda>(st, os, new).
       then_do (Ret (st, os)) (case new of None \<Rightarrow> (\<lambda>st. Ret (st, [])) | Some n \<Rightarrow> with_message env now d ms n))"
| "upf_state_operational env now (UPF_EVT_N4_TIMER k d) st = ogs_fsm_dispatch env now d (Timer k) st"
| "upf_state_operational env now (UPF_EVT_N4_NO_HEARTBEAT d) st = ogs_fsm_dispatch env now d No_heartbeat st"

text \<open>A timer of a transaction that is due.\<close>

definition xact_timer_due :: "'e env \<Rightarrow> int \<Rightarrow> nat \<Rightarrow> xact_timer \<Rightarrow> 'e upf_process \<Rightarrow> 'e upf_step" where
  "xact_timer_due env now n k st =
     ignoring (on_xacts (\<lambda>x. exec_bind (stop_xact_timer k n x) (\<lambda>x.
       exec_bind (xact_timeout (ve_conf env) now k (x_id (xs_xact x n)) x) (\<lambda>(x, os). Ret (x, os, ())))) st)"

end
