(* ===== verification/Sm_Steps.thy ===== *)
theory Sm_Steps
  imports Upf_Sm N4_Requests
begin

text \<open>
  What the steps of the control path keep: an interface for predicates on the process, by the parts
  that a step may change, and its instances.
\<close>

fun event_peer :: "upf_event \<Rightarrow> nat" where
  "event_peer (UPF_EVT_N4_MESSAGE d ms) = d"
| "event_peer (UPF_EVT_N4_TIMER k d) = d"
| "event_peer (UPF_EVT_N4_NO_HEARTBEAT d) = d"

lemma exec_bind_Ret [simp]: "exec_bind m Ret = m"
  by (cases m) simp_all

lemma runs_then_do:
  assumes "runs m (\<lambda>(st, os). P st)" "\<And>st. P st \<Longrightarrow> runs (f st) (\<lambda>(st, os). Q st)"
  shows "runs (then_do m f) (\<lambda>(st, os). Q st)"
  unfolding then_do_def using assms(1)
  by (rule runs_bind) (auto intro: runs_bind [OF assms(2)])

section \<open>Interfaces\<close>

text \<open>
  Whoever sends messages and runs timers changes the transactions, the timers and the features of
  the control plane.
\<close>

locale xact_client =
  fixes J :: "'e upf_process \<Rightarrow> bool"
  assumes J_xacts: "J st \<Longrightarrow> J (put_xacts x st)"
    and J_timers: "J st \<Longrightarrow> J (put_timers m st)"
    and J_features: "J st \<Longrightarrow> J (st\<lparr>pr_cp_features := w\<rparr>)"
begin

definition keeping :: "('e upf_process \<times> upf_out list) exec \<Rightarrow> bool" where
  "keeping m \<longleftrightarrow> runs m (\<lambda>(st, os). J st)"

lemma keeping_Ret [simp]: "keeping (Ret (st, os)) \<longleftrightarrow> J st"
  by (simp add: keeping_def)

lemma keeping_Abort [simp]: "keeping Abort"
  by (simp add: keeping_def)

lemma keeping_then: "keeping m \<Longrightarrow> (\<And>st. J st \<Longrightarrow> keeping (f st)) \<Longrightarrow> keeping (then_do m f)"
  unfolding keeping_def by (rule runs_then_do)

lemma on_xacts_runs: "J st \<Longrightarrow> runs (on_xacts f st) (\<lambda>(st, os, r). J st)"
  unfolding on_xacts_def by (rule runs_then) (auto simp: J_xacts)

lemma keeping_ignoring: "runs m (\<lambda>(st, os, r). J st) \<Longrightarrow> keeping (ignoring m)"
  unfolding keeping_def ignoring_def by (erule runs_bind) auto

lemma keeping_asserting: "runs m (\<lambda>(st, os, ok). J st) \<Longrightarrow> keeping (asserting m)"
  unfolding keeping_def asserting_def by (erule runs_bind) auto

lemma keeping_timer:
  assumes "J st"
  shows "keeping (start_peer_timer now t duration st)" "keeping (stop_peer_timer t st)" "keeping (delete_peer_timer t st)"
  using assms by (auto simp: start_peer_timer_def stop_peer_timer_def delete_peer_timer_def keeping_def J_timers
      intro!: runs_then split: option.split)

lemma add_timer_runs: "J st \<Longrightarrow> runs (add_peer_timer k d st) (\<lambda>(st, t). J st)"
  by (auto simp: add_peer_timer_def J_timers split: prod.split option.split)

lemmas keeping_sent = keeping_ignoring [OF on_xacts_runs] keeping_asserting [OF on_xacts_runs]

lemma keeping_features: "J st \<Longrightarrow> J (note_features ms st)"
  by (simp add: note_features_def J_features split: option.split)

lemma keeping_association:
  assumes "J st"
  shows "keeping (ogs_pfcp_up_handle_association_setup_request env now n ms st)"
    "keeping (ogs_pfcp_up_handle_association_setup_response env now n ms st)"
  unfolding ogs_pfcp_up_handle_association_setup_request_def ogs_pfcp_up_handle_association_setup_response_def
    ogs_pfcp_up_send_association_setup_response_def
  by (auto intro!: keeping_then keeping_sent keeping_features assms)

lemma keeping_associate: "J st \<Longrightarrow> keeping (associate env now d st)"
  unfolding associate_def ogs_pfcp_up_send_association_setup_request_def
  by (intro keeping_then keeping_timer keeping_sent)

lemma keeping_heartbeat: "J st \<Longrightarrow> keeping (asserting (ogs_pfcp_send_heartbeat_request env now d st))"
  unfolding ogs_pfcp_send_heartbeat_request_def by (rule keeping_sent)

lemma keeping_n4_response: "J st \<Longrightarrow> keeping (send_n4_response env now n type r st)"
  by (auto simp: send_n4_response_def Let_def intro: keeping_sent split: n4_response.split)

lemma keeping_xact_timer: "J st \<Longrightarrow> keeping (xact_timer_due env now n k st)"
  unfolding xact_timer_due_def by (rule keeping_sent)

end

text \<open>A heartbeat of a peer is also noted in the peer.\<close>

locale heartbeat_client = xact_client J for J :: "'e upf_process \<Rightarrow> bool" +
  fixes d :: nat
  assumes J_recovery: "J st \<Longrightarrow> J (update_peer d (note_recovery t) st)"
begin

lemma keeping_heartbeat_messages:
  assumes "J st"
  shows "keeping (ogs_pfcp_handle_heartbeat_request env now d n ms st)"
    "keeping (ogs_pfcp_handle_heartbeat_response env now d n ms st)"
  using assms by (auto simp: ogs_pfcp_handle_heartbeat_request_def ogs_pfcp_handle_heartbeat_response_def
      intro!: keeping_then keeping_sent keeping_timer J_recovery split: option.split)

end

text \<open>
  The states of a peer change its fields, except its timers, and move it between the two states of
  a peer that has been set up.
\<close>

definition tame :: "(pfcp_peer \<Rightarrow> pfcp_peer) \<Rightarrow> bool" where
  "tame f \<longleftrightarrow> (\<forall>p. pe_t_association (f p) = pe_t_association p \<and> pe_t_no_heartbeat (f p) = pe_t_no_heartbeat p \<and>
     (pe_state (f p) = pe_state p \<or> pe_state (f p) \<in> {State_will_associate, State_associated}))"

locale peer_control = xact_client J for J :: "'e upf_process \<Rightarrow> bool" +
  fixes d :: nat
  assumes J_peer: "J st \<Longrightarrow> tame f \<Longrightarrow> J (update_peer d f st)"
    and J_started: "J st \<Longrightarrow> pe_state (pr_peers st d) = State_will_associate \<or> pe_state (pr_peers st d) = State_associated"
begin

lemma keeping_tran: "J st \<Longrightarrow> s \<in> {State_will_associate, State_associated} \<Longrightarrow> J (tran d s st)"
  unfolding tran_def by (rule J_peer) (simp_all add: tame_def)

end

sublocale peer_control \<subseteq> heartbeat_client
  by unfold_locales (rule J_peer, simp_all add: tame_def note_recovery_def)

context peer_control
begin

lemma keeping_will_associate: "J st \<Longrightarrow> keeping (upf_pfcp_state_will_associate env now d sig st)"
  by (cases sig) (auto simp: Let_def keeping_associate keeping_timer keeping_heartbeat_messages keeping_tran
      intro!: keeping_then keeping_association split: upf_timer.split)

end

text \<open>What is sent, and the timers, leave the sessions alone.\<close>

interpretation lists: xact_client "\<lambda>st. live (ns_ctx (pr_n4 st)) = l" for l
  by unfold_locales (simp_all add: live_def put_xacts_def put_timers_def)

text \<open>What an associated peer asks for reaches the sessions.\<close>

locale session_control = peer_control J d for J :: "'e upf_process \<Rightarrow> bool" and d +
  assumes J_remove: "J st \<Longrightarrow> n \<in> live (ns_ctx (pr_n4 st)) \<Longrightarrow> upf_sess_remove n (ns_ctx (pr_n4 st)) = Ret c \<Longrightarrow>
      J (put_ctx c st) \<and> live c = live (ns_ctx (pr_n4 st)) - {n}"
    and J_accounting: "J st \<Longrightarrow> J (put_ctx (with_sess n (\<lambda>d. d\<lparr>se_urr_acc := accs\<rparr>) (ns_ctx (pr_n4 st))) st)"
    and J_add: "J st \<Longrightarrow> upf_sess_add_by_message seed pad f (ns_ctx (pr_n4 st)) = Ret (c, r) \<Longrightarrow>
      (case r of None \<Rightarrow> J (put_ctx c st)
       | Some n \<Rightarrow> J ((put_ctx c st)\<lparr>pr_sess_node := (pr_sess_node st)(n := Some d)\<rparr>) \<and> n \<in> live c)"
    and J_establish: "J st \<Longrightarrow> n \<in> live (ns_ctx (pr_n4 st)) \<Longrightarrow>
      upf_n4_handle_session_establishment_request e (Some n) ereq (pr_n4 st) = Ret (n4, ds, resp) \<Longrightarrow> J (st\<lparr>pr_n4 := n4\<rparr>)"
    and J_modify: "J st \<Longrightarrow> n \<in> live (ns_ctx (pr_n4 st)) \<Longrightarrow>
      upf_n4_handle_session_modification_request e (Some n) mreq (pr_n4 st) = Ret (n4, ds, resp) \<Longrightarrow> J (st\<lparr>pr_n4 := n4\<rparr>)"
    and J_lists: "J st \<Longrightarrow> distinct (uc_list (ns_ctx (pr_n4 st)))"
    and J_found: "J st \<Longrightarrow> upf_sess_find_by_upf_n4_seid (ns_ctx (pr_n4 st)) i = Some n \<Longrightarrow> n \<in> live (ns_ctx (pr_n4 st))"
begin

lemma restore_list_runs:
  assumes "J st" "set ns \<subseteq> live (ns_ctx (pr_n4 st))" "distinct ns"
  shows "runs (restore_list d ns st) J"
  using assms
proof (induction ns arbitrary: st)
  case (Cons n ns)
  have "runs (restore_list d ns (put_ctx c st)) J" if "upf_sess_remove n (ns_ctx (pr_n4 st)) = Ret c" for c
  proof (rule Cons.IH)
    have r: "J (put_ctx c st) \<and> live c = live (ns_ctx (pr_n4 st)) - {n}"
      by (rule J_remove [OF Cons.prems(1) _ that]) (use Cons.prems in simp)
    then show "J (put_ctx c st)" by simp
    show "set ns \<subseteq> live (ns_ctx (pr_n4 (put_ctx c st)))" using r Cons.prems(2,3) by (auto simp: put_ctx_def)
  qed (use Cons.prems in simp)
  then show ?case using Cons by (auto intro!: runs_then)
qed simp

lemma keeping_restored: "J st \<Longrightarrow> keeping (restored d st)"
  unfolding restored_def pfcp_restoration_def keeping_def
  by (rule runs_bind [where P = J], rule restore_list_runs)
    (auto simp: J_lists live_def tame_def intro: J_peer)

lemma keeping_after_heartbeat: "J st \<Longrightarrow> keeping (after_heartbeat d st)"
  by (simp add: after_heartbeat_def Let_def keeping_tran keeping_restored)

lemma keeping_on_n4:
  assumes "\<And>n4 ds r. f (pr_n4 st) = Ret (n4, ds, r) \<Longrightarrow> J (st\<lparr>pr_n4 := n4\<rparr>)" "\<And>r st. J st \<Longrightarrow> keeping (g r st)"
  shows "keeping (on_n4 f g st)"
  unfolding on_n4_def keeping_def [of "exec_bind _ _"]
  by (rule runs_then) (auto simp: assms keeping_then simp flip: keeping_def)

lemma keeping_establishment:
  assumes "J st"
  shows "keeping (handle_establishment env now d n ms st)"
proof -
  let ?add = "upf_sess_add_by_message (ve_seed env) (ve_pad env) (ms_cp_f_seid ms) (ns_ctx (pr_n4 st))"
  have "keeping (case x of (c, sess) \<Rightarrow>
      let st = put_ctx c st; st = (case sess of None \<Rightarrow> st | Some s \<Rightarrow> st\<lparr>pr_sess_node := (pr_sess_node st)(s := Some d)\<rparr>)
      in on_n4 (upf_n4_handle_session_establishment_request (sending env) sess (ms_establishment ms))
           (send_n4_response env now n OGS_PFCP_SESSION_ESTABLISHMENT_RESPONSE_TYPE) st)" if "?add = Ret x" for x
  proof -
    obtain c r where x: "x = (c, r)" by (cases x)
    note add = J_add [OF assms that [unfolded x]]
    show ?thesis unfolding x prod.case Let_def
    proof (cases r)
      case (Some s)
      let ?st = "(put_ctx c st)\<lparr>pr_sess_node := (pr_sess_node st)(s := Some d)\<rparr>"
      have "J ?st" "s \<in> live (ns_ctx (pr_n4 ?st))" using add by (simp_all add: Some) (simp add: put_ctx_def)
      from J_establish [OF this] show "keeping (on_n4 (upf_n4_handle_session_establishment_request (sending env) r (ms_establishment ms))
          (send_n4_response env now n OGS_PFCP_SESSION_ESTABLISHMENT_RESPONSE_TYPE)
          (case r of None \<Rightarrow> put_ctx c st | Some s \<Rightarrow> (put_ctx c st)\<lparr>pr_sess_node := (pr_sess_node (put_ctx c st))(s := Some d)\<rparr>))"
        unfolding Some option.case by (intro keeping_on_n4 keeping_n4_response) (auto simp: put_ctx_def)
    qed (use add in \<open>auto simp: upf_n4_handle_session_establishment_request_def put_ctx_def intro!: keeping_on_n4 keeping_n4_response\<close>)
  qed
  then show ?thesis unfolding handle_establishment_def keeping_def [of "exec_bind _ _"] by (intro runs_then) (simp flip: keeping_def)
qed

lemma keeping_modification:
  assumes "J st" "\<And>s. sess = Some s \<Longrightarrow> s \<in> live (ns_ctx (pr_n4 st))"
  shows "keeping (handle_modification env now sess n ms st)"
  unfolding handle_modification_def
  by (intro keeping_on_n4 keeping_n4_response)
    (cases sess, auto simp: upf_n4_handle_session_modification_request_def [of _ None] assms dest!: J_modify [rotated 2])

lemma keeping_deletion:
  assumes "J st" "\<And>s. sess = Some s \<Longrightarrow> s \<in> live (ns_ctx (pr_n4 st))"
  shows "keeping (handle_deletion env now sess n st)"
proof (cases sess)
  case (Some s)
  let ?c = "\<lambda>accs. put_ctx (with_sess s (\<lambda>d. d\<lparr>se_urr_acc := accs\<rparr>) (ns_ctx (pr_n4 st))) st"
  let ?l = "live (ns_ctx (pr_n4 st))"
  have sent: "runs (send_n4_response env now n type r (?c accs)) (\<lambda>(st, os). J st \<and> live (ns_ctx (pr_n4 st)) = ?l)" for type r accs
  proof -
    have "runs (send_n4_response env now n type r (?c accs)) (\<lambda>(st, os). live (ns_ctx (pr_n4 st)) = ?l)"
      by (rule lists.keeping_n4_response [unfolded lists.keeping_def]) (simp add: put_ctx_def live_def with_sess_def)
    moreover have "runs (send_n4_response env now n type r (?c accs)) (\<lambda>(st, os). J st)"
      by (rule keeping_n4_response [unfolded keeping_def]) (rule J_accounting [OF assms(1)])
    ultimately show ?thesis by (auto simp: runs_def)
  qed
  show ?thesis unfolding handle_deletion_def Let_def Some option.case keeping_def then_do_def
    by (rule runs_then, simp only: split_paired_all prod.case, rule runs_bind [OF sent])
      (use assms(2) [OF Some] in \<open>auto intro!: runs_then simp: J_remove\<close>)
qed (simp add: handle_deletion_def assms keeping_n4_response)

lemma keeping_associated:
  assumes "J st"
  shows "keeping (upf_pfcp_state_associated env now d sig st)"
proof (cases sig)
  case (Message ms n)
  have s: "s \<in> live (ns_ctx (pr_n4 st))" if "message_session ms st = Some s" for s
    using that J_found [OF assms] by (auto simp: message_session_def split: if_splits)
  show ?thesis unfolding Message using assms s
    by (auto simp: Let_def keeping_association keeping_establishment keeping_modification keeping_deletion
      intro!: keeping_then keeping_heartbeat_messages keeping_after_heartbeat keeping_sent)
qed (auto simp: assms keeping_timer keeping_heartbeat keeping_restored keeping_tran intro!: keeping_then split: upf_timer.split)

lemma keeping_run_state: "J st \<Longrightarrow> pe_state (pr_peers st' d) = s \<Longrightarrow> J st' \<Longrightarrow> keeping (run_state s env now d sig st)"
  using J_started [of st'] keeping_will_associate keeping_associated by auto

lemma keeping_dispatch:
  assumes "J st"
  shows "keeping (ogs_fsm_dispatch env now d sig st)"
  unfolding ogs_fsm_dispatch_def Let_def
  by (rule keeping_then, rule keeping_run_state [OF assms refl assms])
    (auto intro!: keeping_then keeping_run_state [OF _ refl assms] intro: keeping_run_state [OF _ refl])

lemma keeping_message:
  assumes "J st"
  shows "keeping (upf_state_operational env now (UPF_EVT_N4_MESSAGE d ms) st)"
  unfolding upf_state_operational.simps keeping_def
  by (rule runs_bind [OF on_xacts_runs [OF assms]], simp only: split_paired_all prod.case, rule keeping_then [unfolded keeping_def])
    (auto simp: with_message_def simp flip: keeping_def intro!: keeping_dispatch split: option.split)

lemma keeping_event:
  assumes "J st" "event_peer e = d"
  shows "keeping (upf_state_operational env now e st)"
  using assms keeping_message keeping_dispatch by (cases e) (simp_all del: upf_state_operational.simps(1))

end

end
