(* ===== verification/Sm_Run.thy ===== *)
theory Sm_Run
  imports Sm_Steps Xact_Delivery
begin

text \<open>
  The states that the control path reaches, and what its events do to peers and sessions.
\<close>

section \<open>Reachable states\<close>

definition zero_peer :: pfcp_peer where
  "zero_peer = \<lparr>pe_state = State_initial, pe_t_association = None, pe_t_no_heartbeat = None, pe_remote_recovery = 0,
     pe_restoration_required = False\<rparr>"

definition upf_start ::
  "'e upf_call timer_call n4_state \<Rightarrow> ('e upf_call, upf_data) xact_state \<Rightarrow> bytes \<Rightarrow> 'e upf_process" where
  "upf_start n4 xacts buf = \<lparr>pr_n4 = n4, pr_xacts = xacts, pr_peers = (\<lambda>d. zero_peer), pr_sess_node = (\<lambda>n. None),
     pr_cp_features = 0, pr_report_buf = buf\<rparr>"

text \<open>A peer that has been set up is in one of two states and has its timer.\<close>

definition started :: "pfcp_peer \<Rightarrow> bool" where
  "started p \<longleftrightarrow> (pe_state p = State_will_associate \<or> pe_state p = State_associated) \<and> pe_t_no_heartbeat p \<noteq> None"

text \<open>
  The process starts without sessions. Peers are set up, events are handled, the timers of
  transactions expire and reports are sent; in between packets come and go, and timers expire.
\<close>

inductive upf_reachable :: "nat \<Rightarrow> 'e upf_process \<Rightarrow> bool" for k :: nat where
  start: "upf_reachable k (upf_start
    \<lparr>ns_ctx = upf_context_init k r seed timers (ogs_pfcp_context_init k r' seed') subnets, ns_peers = []\<rparr> xacts buf)"
| peer: "upf_reachable k st \<Longrightarrow> pr_peers st d = zero_peer \<Longrightarrow> pfcp_node_fsm_init env now d b st = Ret (st', os) \<Longrightarrow>
    upf_reachable k st'"
| event: "upf_reachable k st \<Longrightarrow> started (pr_peers st (event_peer e)) \<Longrightarrow> upf_state_operational env now e st = Ret (st', os) \<Longrightarrow>
    upf_reachable k st'"
| expiry: "upf_reachable k st \<Longrightarrow> xact_timer_due env now n t st = Ret (st', os) \<Longrightarrow> upf_reachable k st'"
| report: "upf_reachable k st \<Longrightarrow> upf_pfcp_send_session_report_request env now n rep st = Ret (st', os, ok) \<Longrightarrow>
    upf_reachable k st'"
| traffic: "upf_reachable k st \<Longrightarrow> upf_reachable k (st\<lparr>pr_n4 := with_traffic bufs accs timers (pr_n4 st)\<rparr>)"

text \<open>What holds in them.\<close>

definition process_ok :: "nat \<Rightarrow> 'e upf_process \<Rightarrow> bool" where
  "process_ok k st \<longleftrightarrow> n4_reachable k (pr_n4 st) \<and> (\<forall>d. pr_peers st d = zero_peer \<or> started (pr_peers st d)) \<and>
     (\<forall>n \<in> live (ns_ctx (pr_n4 st)). \<exists>d. pr_sess_node st n = Some d \<and> started (pr_peers st d))"

lemma traffic_is_quiet:
  "with_traffic (\<lambda>x. far_buffered (pc_far (pfcp_of s) x)) (\<lambda>n. se_urr_acc (uc_sess (ns_ctx s) n)) timers s =
     s\<lparr>ns_ctx := (ns_ctx s)\<lparr>uc_timers := timers\<rparr>\<rparr>"
  "with_traffic (\<lambda>x. far_buffered (pc_far (pfcp_of s) x)) ((\<lambda>n. se_urr_acc (uc_sess (ns_ctx s) n))(n := accs)) (uc_timers (ns_ctx s)) s =
     s\<lparr>ns_ctx := with_sess n (\<lambda>d. d\<lparr>se_urr_acc := accs\<rparr>) (ns_ctx s)\<rparr>"
  by (auto simp: with_traffic_def pfcp_of_def Let_def with_sess_def intro!: n4_state.equality upf_context.equality pfcp_ctx.equality)

lemma n4_reachable_timers: "n4_reachable k s \<Longrightarrow> n4_reachable k (s\<lparr>ns_ctx := (ns_ctx s)\<lparr>uc_timers := timers\<rparr>\<rparr>)"
  using n4_reachable.traffic traffic_is_quiet(1) by metis

lemma n4_reachable_accounting:
  "n4_reachable k s \<Longrightarrow> n4_reachable k (s\<lparr>ns_ctx := with_sess n (\<lambda>d. d\<lparr>se_urr_acc := accs\<rparr>) (ns_ctx s)\<rparr>)"
  using n4_reachable.traffic traffic_is_quiet(2) by metis

lemma process_timers: "process_ok k st \<Longrightarrow> process_ok k (put_timers m st)" "process_ok k (st\<lparr>pr_xacts := x\<rparr>) = process_ok k st"
  "process_ok k (st\<lparr>pr_cp_features := w\<rparr>) = process_ok k st" "process_ok k (st\<lparr>pr_report_buf := buf\<rparr>) = process_ok k st"
  by (auto simp: process_ok_def put_timers_def live_def n4_reachable_timers)

interpretation process: xact_client "process_ok k" for k
  by unfold_locales (simp_all add: put_xacts_def process_timers)

text \<open>A peer in operation: what its events keep.\<close>

definition operating :: "nat \<Rightarrow> nat \<Rightarrow> 'e upf_process \<Rightarrow> bool" where
  "operating k d st \<longleftrightarrow> process_ok k st \<and> k < 2 ^ 32 \<and> started (pr_peers st d)"

lemma operating_n4:
  assumes "operating k d st"
  shows "n4_ok (pr_n4 st)" "ctx_inv (ns_ctx (pr_n4 st))"
  using n4_reachable_ok assms by (auto simp: operating_def process_ok_def n4_ok_def)

lemma operating_request:
  assumes "operating k d st" "n4_reachable k n4" "live (ns_ctx n4) \<subseteq> live (ns_ctx (pr_n4 st))"
  shows "operating k d (st\<lparr>pr_n4 := n4\<rparr>)"
  using assms by (auto simp: operating_def process_ok_def)

lemma within_live: "within n a st \<Longrightarrow> live (ns_ctx st) = live (ns_ctx a)"
  using same_index_inv(3) by (auto simp: within_def)

lemma request_live:
  assumes "operating k d st" "n \<in> live (ns_ctx (pr_n4 st))"
  shows "upf_n4_handle_session_establishment_request e (Some n) ereq (pr_n4 st) = Ret (n4, ds, resp) \<Longrightarrow>
      live (ns_ctx n4) = live (ns_ctx (pr_n4 st))"
    "upf_n4_handle_session_modification_request e (Some n) mreq (pr_n4 st) = Ret (n4, ds, resp) \<Longrightarrow>
      live (ns_ctx n4) = live (ns_ctx (pr_n4 st))"
proof -
  have w: "within n (pr_n4 st) (pr_n4 st)" by (rule request_within [OF operating_n4(1) [OF assms(1)] assms(2)])
  show "live (ns_ctx n4) = live (ns_ctx (pr_n4 st))"
    if "upf_n4_handle_session_establishment_request e (Some n) ereq (pr_n4 st) = Ret (n4, ds, resp)"
    using runs_D [OF establishment_runs [OF w] that] within_live by auto
  show "live (ns_ctx n4) = live (ns_ctx (pr_n4 st))"
    if "upf_n4_handle_session_modification_request e (Some n) mreq (pr_n4 st) = Ret (n4, ds, resp)"
    using runs_D [OF modification_runs [OF w] that] within_live by auto
qed

lemma add_live:
  assumes i: "ctx_inv c" and a: "upf_sess_add_by_message seed pad f c = Ret (c', r)"
  shows "live c \<subseteq> live c' \<and> live c' \<subseteq> live c \<union> set_option r \<and> (\<forall>n. r = Some n \<longrightarrow> n \<in> live c')"
proof -
  have p: "pool_ok (uc_sess_pool c)" and K: "keys_inv c" using i by (simp_all add: ctx_inv_def pools_inv_def)
  have new: ?thesis if g: "upf_sess_add seed g c = Ret (c', r)" for g
  proof (cases r)
    case None
    then show ?thesis using sess_add_None [OF p g [unfolded None]] by simp
  next
    case (Some n)
    then show ?thesis using sess_add_fields(9) [OF p g [unfolded Some]] by (auto simp: live_def)
  qed
  have old: "n \<in> live c" if f: "upf_sess_find_by_smf_n4_f_seid pad c g = Ret (Some n)" for g n
  proof -
    obtain ip where "hash_get (uc_smf_f_seid_hash c) (f_seid_key (fs_seid g) ip pad) = Some n"
      using f by (auto simp: upf_sess_find_by_smf_n4_f_seid_def split: option.splits)
    moreover have "f_seid_key (fs_seid g) ip pad \<noteq> []" by (simp add: f_seid_key_def key64_def be64_def)
    ultimately show ?thesis using owned_get [OF keys_owned(4) [OF K]] by blast
  qed
  show ?thesis using a new old by (auto simp: upf_sess_add_by_message_def split: option.splits if_splits)
qed

lemma operating_tame:
  assumes "operating k d st" "tame f"
  shows "operating k d (update_peer d f st)"
proof -
  have "pe_t_no_heartbeat (f (pr_peers st d)) = pe_t_no_heartbeat (pr_peers st d)"
    "pe_state (f (pr_peers st d)) = pe_state (pr_peers st d) \<or> pe_state (f (pr_peers st d)) \<in> {State_will_associate, State_associated}"
    using assms(2) by (simp_all add: tame_def)
  then have "started (f (pr_peers st d))" using assms(1) by (auto simp: operating_def started_def)
  then show ?thesis using assms(1) by (auto simp: operating_def process_ok_def update_peer_def)
qed

interpretation peer: session_control "operating k d" d for k d
proof unfold_locales
  fix st :: "'e upf_process" and n c
  assume o: "operating k d st" and n: "n \<in> live (ns_ctx (pr_n4 st))" and rm: "upf_sess_remove n (ns_ctx (pr_n4 st)) = Ret c"
  have l: "live c = live (ns_ctx (pr_n4 st)) - {n}" by (rule ctx_inv_remove(2) [OF operating_n4(2) [OF o] n rm])
  have "n4_reachable k ((pr_n4 st)\<lparr>ns_ctx := c\<rparr>)"
    using n4_reachable.remove n rm o by (auto simp: operating_def process_ok_def)
  then show "operating k d (put_ctx c st) \<and> live c = live (ns_ctx (pr_n4 st)) - {n}"
    using operating_request [OF o] l by (auto simp: put_ctx_def)
next
  fix st :: "'e upf_process" and seed pad f c r
  assume o: "operating k d st" and a: "upf_sess_add_by_message seed pad f (ns_ctx (pr_n4 st)) = Ret (c, r)"
  have "n4_reachable k ((pr_n4 st)\<lparr>ns_ctx := c\<rparr>)"
    using n4_reachable.associate a o by (auto simp: operating_def process_ok_def)
  moreover note add_live [OF operating_n4(2) [OF o] a]
  ultimately show "case r of None \<Rightarrow> operating k d (put_ctx c st)
       | Some n \<Rightarrow> operating k d ((put_ctx c st)\<lparr>pr_sess_node := (pr_sess_node st)(n := Some d)\<rparr>) \<and> n \<in> live c"
    using o by (cases r) (auto simp: operating_def process_ok_def put_ctx_def)
next
  fix st :: "'e upf_process" and n e ereq n4 ds resp
  assume o: "operating k d st" and n: "n \<in> live (ns_ctx (pr_n4 st))"
    and r: "upf_n4_handle_session_establishment_request e (Some n) ereq (pr_n4 st) = Ret (n4, ds, resp)"
  show "operating k d (st\<lparr>pr_n4 := n4\<rparr>)"
    using n4_reachable.establish [OF _ n r] request_live(1) [OF o n r] o operating_request [OF o]
    by (auto simp: operating_def process_ok_def)
next
  fix st :: "'e upf_process" and n e mreq n4 ds resp
  assume o: "operating k d st" and n: "n \<in> live (ns_ctx (pr_n4 st))"
    and r: "upf_n4_handle_session_modification_request e (Some n) mreq (pr_n4 st) = Ret (n4, ds, resp)"
  show "operating k d (st\<lparr>pr_n4 := n4\<rparr>)"
    using n4_reachable.modify [OF _ n r] request_live(2) [OF o n r] o operating_request [OF o]
    by (auto simp: operating_def process_ok_def)
next
  fix st :: "'e upf_process" and n accs
  assume o: "operating k d st"
  show "operating k d (put_ctx (with_sess n (\<lambda>d. d\<lparr>se_urr_acc := accs\<rparr>) (ns_ctx (pr_n4 st))) st)"
    unfolding put_ctx_def using n4_reachable_accounting o
    by (intro operating_request [OF o]) (auto simp: operating_def process_ok_def live_def with_sess_def)
next
  fix st :: "'e upf_process" and i n
  assume o: "operating k d st" and f: "upf_sess_find_by_upf_n4_seid (ns_ctx (pr_n4 st)) i = Some n"
  show "n \<in> live (ns_ctx (pr_n4 st))" using found_upf_seid [OF operating_n4(2) [OF o]] f by blast
next
  fix st :: "'e upf_process"
  assume o: "operating k d st"
  show "distinct (uc_list (ns_ctx (pr_n4 st)))" using operating_n4(2) [OF o] by (simp add: ctx_inv_def pools_inv_def)
  show "pe_state (pr_peers st d) = State_will_associate \<or> pe_state (pr_peers st d) = State_associated"
    using o by (simp add: operating_def started_def)
  show "operating k d (st\<lparr>pr_cp_features := w\<rparr>)" for w using o by (simp add: operating_def process_timers)
  show "operating k d (put_timers m st)" for m using o process_timers(1) by (auto simp: operating_def) (simp add: put_timers_def)
  show "operating k d (put_xacts x st)" for x using o process.J_xacts by (auto simp: operating_def) (simp add: put_xacts_def put_timers_def)
qed (rule operating_tame)

text \<open>While a peer is set up, the others are as they were.\<close>

definition process_but :: "nat \<Rightarrow> nat \<Rightarrow> 'e upf_process \<Rightarrow> bool" where
  "process_but k d st \<longleftrightarrow> n4_reachable k (pr_n4 st) \<and> (\<forall>e. e \<noteq> d \<longrightarrow> pr_peers st e = zero_peer \<or> started (pr_peers st e)) \<and>
     (\<forall>n \<in> live (ns_ctx (pr_n4 st)). \<exists>e. e \<noteq> d \<and> pr_sess_node st n = Some e \<and> started (pr_peers st e))"

lemma process_but_peer: "process_but k d st \<Longrightarrow> process_but k d (update_peer d f st)"
  by (auto simp: process_but_def update_peer_def)

lemma process_but_ok: "process_but k d st \<Longrightarrow> started (pr_peers st d) \<Longrightarrow> process_ok k st"
  by (force simp: process_but_def process_ok_def)

lemma process_but_zero: "process_ok k st \<Longrightarrow> pr_peers st d = zero_peer \<Longrightarrow> process_but k d st"
  by (fastforce simp: process_but_def process_ok_def started_def zero_peer_def)

interpretation fresh: xact_client "process_but k d" for k d
  by unfold_locales (auto simp: process_but_def put_xacts_def put_timers_def live_def n4_reachable_timers)

lemma initial_ok:
  assumes "process_but k d st" "k < 2 ^ 32"
  shows "process.keeping k (ogs_fsm_init env now d st)"
proof -
  let ?st = "\<lambda>st t. tran d State_will_associate (update_peer d (\<lambda>p. p\<lparr>pe_t_no_heartbeat := Some t\<rparr>) st)"
  have "process_but k d (tran d State_initial st)" unfolding tran_def by (rule process_but_peer [OF assms(1)])
  note r = fresh.add_timer_runs [OF this]
  have o: "operating k d (?st st t)" if "process_but k d st" for st t
  proof -
    have "process_but k d (?st st t)" unfolding tran_def by (intro process_but_peer that)
    moreover have "started (pr_peers (?st st t) d)" by (simp add: started_def tran_def update_peer_def)
    ultimately show ?thesis using process_but_ok assms(2) by (simp add: operating_def)
  qed
  have w: "process.keeping k (upf_pfcp_state_will_associate env now d Entry (?st st t))" if "process_but k d st" for st t
    using peer.keeping_will_associate [OF o [OF that], of env now Entry t]
    unfolding process.keeping_def peer.keeping_def by (elim runs_weaken) (auto simp: operating_def)
  have i: "runs (upf_pfcp_state_initial d (tran d State_initial st)) (\<lambda>(st, os). \<exists>st1 t. process_but k d st1 \<and> st = ?st st1 t)"
    unfolding upf_pfcp_state_initial_def by (rule runs_bind [OF r]) (simp only: split_paired_all prod.case runs_Ret, blast)
  have s: "pe_state (pr_peers (?st st t) d) = State_will_associate" for st t by (simp add: tran_def update_peer_def)
  show ?thesis unfolding ogs_fsm_init_def then_do_def process.keeping_def
    by (rule runs_bind [OF i], clarsimp simp del: upf_pfcp_state_will_associate.simps simp: s,
        rule runs_bind [OF w [unfolded process.keeping_def]]) auto
qed

lemma node_init_ok:
  assumes "process_ok k st" "pr_peers st d = zero_peer" "k < 2 ^ 32"
  shows "process.keeping k (pfcp_node_fsm_init env now d b st)"
proof -
  have but: "process_but k d st" by (rule process_but_zero [OF assms(1,2)])
  show ?thesis
  proof (cases b)
    case True
    show ?thesis unfolding pfcp_node_fsm_init_def process.keeping_def using True
      by (auto intro!: runs_bind [OF fresh.add_timer_runs [OF but]] initial_ok [unfolded process.keeping_def] process_but_peer assms(3))
  qed (simp add: pfcp_node_fsm_init_def initial_ok [OF but assms(3)])
qed

lemma upf_reachable_ok:
  assumes "upf_reachable k st" "k < 2 ^ 32"
  shows "process_ok k st"
  using assms
proof (induction rule: upf_reachable.induct)
  case (start r seed timers r' seed' subnets xacts buf)
  show ?case using n4_reachable.start by (auto simp: process_ok_def upf_start_def live_def upf_context_init_def)
next
  case (peer st d env now b st' os)
  then show ?case using runs_D [OF node_init_ok [unfolded process.keeping_def]] by fastforce
next
  case (event st e env now st' os)
  then have "operating k (event_peer e) st" by (simp add: operating_def)
  from runs_D [OF peer.keeping_event [OF this refl, unfolded peer.keeping_def] event.hyps(3)]
  show ?case by (simp add: operating_def)
next
  case (expiry st env now n t st' os)
  then show ?case using runs_D [OF process.keeping_xact_timer [unfolded process.keeping_def]] by fastforce
next
  case (report st env now n rep st' os ok)
  have b: "process_ok k (st\<lparr>pr_report_buf := buf\<rparr>)" for buf using report by (simp add: process_timers)
  have "runs (upf_pfcp_send_session_report_request env now n rep st) (\<lambda>(st, os, r). process_ok k st)"
    unfolding upf_pfcp_send_session_report_request_def
    by (auto split: option.split intro!: runs_then process.on_xacts_runs b)
  from runs_D [OF this report.hyps(2)] show ?case by simp
next
  case (traffic st bufs accs timers)
  then show ?case using n4_reachable.traffic by (auto simp: process_ok_def with_traffic_def live_def Let_def)
qed

section \<open>Restoration\<close>

text \<open>A session with its objects.\<close>

definition untouched :: "nat \<Rightarrow> 'c n4_state \<Rightarrow> 'c n4_state \<Rightarrow> bool" where
  "untouched r a b \<longleftrightarrow> uc_sess (ns_ctx b) r = uc_sess (ns_ctx a) r \<and> (let c = pfcp_of a; c' = pfcp_of b in
     pc_sess c' r = pc_sess c r \<and>
     (\<forall>p \<in> set (pdrs_of c r). pc_pdr c' p = pc_pdr c p \<and> (\<forall>l \<in> set (pdr_rules (pc_pdr c p)). pc_rule c' l = pc_rule c l)) \<and>
     (\<forall>x \<in> set (fars_of c r). far_kept (pc_far c' x) (pc_far c x)) \<and> (\<forall>u \<in> set (urrs_of c r). pc_urr c' u = pc_urr c u) \<and>
     (\<forall>q \<in> set (qers_of c r). pc_qer c' q = pc_qer c q) \<and>
     (\<forall>b. ps_bar (pc_sess c r) = Some b \<longrightarrow> pc_bar c' b = pc_bar c b))"

lemma untouched_refl [simp]: "untouched r a a"
  by (simp add: untouched_def Let_def)

lemma untouched_trans:
  assumes "untouched r a b" "untouched r b c"
  shows "untouched r a c"
  using assms far_kept_trans by (simp add: untouched_def Let_def pdrs_of_def fars_of_def urrs_of_def qers_of_def) blast

lemma remove_untouched:
  assumes ok: "n4_ok a" and n: "n \<in> live (ns_ctx a)" and rm: "upf_sess_remove n (ns_ctx a) = Ret c" and r: "r \<noteq> n"
  shows "untouched r a (a\<lparr>ns_ctx := c\<rparr>)"
proof -
  have "ctx_inv (ns_ctx a)" using ok by (simp add: n4_ok_def)
  then have "length (route_array (se_routes4 (uc_sess (ns_ctx a) n))) = OGS_MAX_NUM_OF_FRAMED_ROUTES_IN_PDI"
    "length (route_array (se_routes6 (uc_sess (ns_ctx a) n))) = OGS_MAX_NUM_OF_FRAMED_ROUTES_IN_PDI"
    by (simp_all add: ctx_inv_def route_inv_def)
  from sess_remove_fields(2) [OF rm this r] have "uc_sess c r = uc_sess (ns_ctx a) r" .
  moreover have "frame n (pfcp_of a) (uc_pfcp c)" using remove_n4_ok [OF ok n rm] by simp
  ultimately show ?thesis using r by (simp add: untouched_def frame_def pfcp_of_def Let_def)
qed

definition sessions_of :: "nat \<Rightarrow> 'e upf_process \<Rightarrow> nat set" where
  "sessions_of d st = {n \<in> live (ns_ctx (pr_n4 st)). pr_sess_node st n = Some d}"

text \<open>The sessions in \<open>ns\<close> are removed with all they have, the others stay as they are.\<close>

definition sessions_removed :: "nat set \<Rightarrow> 'e upf_process \<Rightarrow> 'e upf_process \<Rightarrow> bool" where
  "sessions_removed ns a st \<longleftrightarrow> n4_ok (pr_n4 st) \<and> live (ns_ctx (pr_n4 st)) = live (ns_ctx (pr_n4 a)) - ns \<and>
     pr_sess_node st = pr_sess_node a \<and> (\<forall>n \<in> ns. no_objects n (pfcp_of (pr_n4 st))) \<and>
     (\<forall>n \<in> live (ns_ctx (pr_n4 a)) - ns. untouched n (pr_n4 a) (pr_n4 st))"

lemma restore_list_exact:
  assumes "n4_ok (pr_n4 st)" "set ns \<subseteq> live (ns_ctx (pr_n4 st))" "distinct ns"
  shows "runs (restore_list d ns st) (sessions_removed {n \<in> set ns. pr_sess_node st n = Some d} st)"
  using assms
proof (induction ns arbitrary: st)
  case (Cons n ns)
  have n: "n \<in> live (ns_ctx (pr_n4 st))" using Cons.prems by simp
  show ?case
  proof (cases "pr_sess_node st n = Some d")
    case True
    have "runs (restore_list d ns (put_ctx c st)) (sessions_removed {m \<in> set (n # ns). pr_sess_node st m = Some d} st)"
      if rm: "upf_sess_remove n (ns_ctx (pr_n4 st)) = Ret c" for c
    proof -
      note r = remove_n4_ok [OF Cons.prems(1) n rm] and u = remove_untouched [OF Cons.prems(1) n rm]
      have e: "pr_n4 (put_ctx c st) = (pr_n4 st)\<lparr>ns_ctx := c\<rparr>" "pr_sess_node (put_ctx c st) = pr_sess_node st" by (simp_all add: put_ctx_def)
      have "n4_ok (pr_n4 (put_ctx c st))" "set ns \<subseteq> live (ns_ctx (pr_n4 (put_ctx c st)))" "distinct ns"
        using r Cons.prems by (auto simp: e)
      note ih = Cons.IH [OF this]
      have "no_objects n (pfcp_of (pr_n4 st'))" if "sessions_removed {m \<in> set ns. pr_sess_node st m = Some d} (put_ctx c st) st'" for st'
        using that r by (auto simp: sessions_removed_def e n4_ok_def)
      with ih show ?thesis using r n True Cons.prems(3)
        by (elim runs_weaken) (auto simp: sessions_removed_def e intro: untouched_trans [OF u])
    qed
    then show ?thesis using True by (auto intro!: runs_then)
  next
    case False
    then have "{m \<in> set (n # ns). pr_sess_node st m = Some d} = {m \<in> set ns. pr_sess_node st m = Some d}" by auto
    then show ?thesis using Cons False by simp
  qed
qed (simp add: sessions_removed_def)

lemma restoration_exact:
  assumes "n4_ok (pr_n4 st)"
  shows "runs (pfcp_restoration d st) (sessions_removed (sessions_of d st) st)"
proof -
  have "distinct (uc_list (ns_ctx (pr_n4 st)))" using assms by (simp add: n4_ok_def ctx_inv_def pools_inv_def)
  from restore_list_exact [OF assms _ this] show ?thesis by (simp add: pfcp_restoration_def sessions_of_def live_def)
qed

lemma restore_list_rest: "runs (restore_list d ns st) (\<lambda>st'. pr_peers st' = pr_peers st \<and> pr_xacts st' = pr_xacts st)"
proof (induction ns arbitrary: st)
  case (Cons n ns)
  have "runs (restore_list d ns (put_ctx c st)) (\<lambda>st'. pr_peers st' = pr_peers st \<and> pr_xacts st' = pr_xacts st)" for c
    using Cons.IH [of "put_ctx c st"] by (simp add: put_ctx_def)
  then show ?case using Cons.IH by (auto intro!: runs_then)
qed simp

text \<open>Only the timers differ.\<close>

definition same_sessions :: "'e upf_process \<Rightarrow> 'e upf_process \<Rightarrow> bool" where
  "same_sessions a st \<longleftrightarrow> (\<exists>m. pr_n4 st = (pr_n4 a)\<lparr>ns_ctx := (ns_ctx (pr_n4 a))\<lparr>uc_timers := m\<rparr>\<rparr>) \<and>
     pr_sess_node st = pr_sess_node a"

lemma same_sessions_refl [simp]: "same_sessions a a"
  by (auto simp: same_sessions_def intro!: exI [of _ "uc_timers (ns_ctx (pr_n4 a))"])

lemma same_sessions_removed:
  assumes "same_sessions a b" "sessions_removed ns b c"
  shows "sessions_removed ns a c"
  using assms by (auto simp: sessions_removed_def same_sessions_def live_def untouched_def pfcp_of_def Let_def)

lemma n4_ok_timers: "n4_ok s \<Longrightarrow> n4_ok (s\<lparr>ns_ctx := (ns_ctx s)\<lparr>uc_timers := timers\<rparr>\<rparr>)"
  using traffic_n4_ok traffic_is_quiet(1) by metis

lemma removed_same_sessions:
  assumes "sessions_removed ns a b" "same_sessions b c"
  shows "sessions_removed ns a c"
proof -
  have "n4_ok (pr_n4 c)" using assms n4_ok_timers by (auto simp: sessions_removed_def same_sessions_def)
  then show ?thesis using assms by (auto simp: sessions_removed_def same_sessions_def live_def untouched_def pfcp_of_def Let_def no_objects_def lists_defs)
qed

lemma none_removed: "n4_ok (pr_n4 a) \<Longrightarrow> same_sessions a b \<Longrightarrow> sessions_removed {} a b"
  by (rule removed_same_sessions [where b = a]) (simp_all add: sessions_removed_def)

interpretation quiet: heartbeat_client "\<lambda>st. same_sessions a st \<and> pe_state (pr_peers st d) = s" d for a d s
  by unfold_locales (auto simp: same_sessions_def put_xacts_def put_timers_def update_peer_def note_recovery_def)

interpretation steady: xact_client "\<lambda>st. same_sessions a st \<and> pr_peers st = ps" for a ps
  by unfold_locales (auto simp: same_sessions_def put_xacts_def put_timers_def)

lemma same_sessions_peer [simp]: "same_sessions a (update_peer d f st) \<longleftrightarrow> same_sessions a st" "same_sessions a (tran d s st) \<longleftrightarrow> same_sessions a st"
  by (simp_all add: same_sessions_def update_peer_def tran_def timers_of_def)

lemma restored_runs:
  assumes ok: "n4_ok (pr_n4 a)" and s: "same_sessions a st"
  shows "runs (restored d st) (\<lambda>(st', os). sessions_removed (sessions_of d a) a st' \<and>
    pr_peers st' = (pr_peers st)(d := (pr_peers st d)\<lparr>pe_restoration_required := False\<rparr>))"
proof -
  have n: "n4_ok (pr_n4 st)" "sessions_of d st = sessions_of d a"
    using ok s n4_ok_timers by (auto simp: same_sessions_def sessions_of_def live_def)
  have "runs (pfcp_restoration d st) (\<lambda>st'. sessions_removed (sessions_of d a) a st' \<and> pr_peers st' = pr_peers st)"
    using restoration_exact [OF n(1), of d] restore_list_rest [of d "uc_list (ns_ctx (pr_n4 st))" st] same_sessions_removed [OF s]
    by (auto simp: runs_def n(2) pfcp_restoration_def)
  then show ?thesis unfolding restored_def
    by (rule runs_bind) (auto simp: update_peer_def sessions_removed_def)
qed

section \<open>A peer that is not associated\<close>

text \<open>
  Its state changes only when the association is set up. Then the peer is as it was, but for its
  state, and restoration follows if it was due.
\<close>

lemma will_associate_runs:
  fixes a :: "'e upf_process"
  assumes w: "pe_state (pr_peers a d) = State_will_associate" and sig: "sig \<noteq> Entry" "sig \<noteq> Exit"
  shows "runs (upf_pfcp_state_will_associate env now d sig a) (\<lambda>(st, os). same_sessions a st \<and>
    (pe_state (pr_peers st d) = State_will_associate \<or>
     pr_peers st = (pr_peers a)(d := (pr_peers a d)\<lparr>pe_state := State_associated\<rparr>)))" (is "runs _ ?Q")
proof -
  have quiet: "runs m ?Q" if "quiet.keeping a d State_will_associate m" for m
    using that unfolding quiet.keeping_def by (elim runs_weaken) auto
  have tran: "runs (then_do m (\<lambda>st. Ret (tran d State_associated st, []))) ?Q" if "steady.keeping a (pr_peers a) m" for m
    unfolding then_do_def using that unfolding steady.keeping_def by (elim runs_bind) (auto simp: tran_def update_peer_def same_sessions_def)
  have a: "same_sessions a a \<and> pe_state (pr_peers a d) = State_will_associate" "same_sessions a a \<and> pr_peers a = pr_peers a" using w by simp_all
  show ?thesis
  proof (cases sig)
    case (Message ms n)
    show ?thesis unfolding Message upf_pfcp_state_will_associate.simps Let_def runs_if
      by (intro conjI impI quiet tran quiet.keeping_heartbeat_messages steady.keeping_association a) (simp add: w)
  qed (use sig w quiet.keeping_associate [OF a(1)] in \<open>auto intro!: quiet split: upf_timer.split\<close>)
qed

lemma associated_entry_runs:
  assumes ok: "n4_ok (pr_n4 a)" and s: "same_sessions a st"
  shows "runs (upf_pfcp_state_associated env now d Entry st) (\<lambda>(st', os). pe_state (pr_peers st' d) = pe_state (pr_peers st d) \<and>
    sessions_removed (if pe_restoration_required (pr_peers st d) then sessions_of d a else {}) a st')"
proof -
  let ?J = "\<lambda>st'. same_sessions a st' \<and> pr_peers st' = pr_peers st"
  let ?Q = "\<lambda>(st', os). pe_state (pr_peers st' d) = pe_state (pr_peers st d) \<and>
    sessions_removed (if pe_restoration_required (pr_peers st d) then sessions_of d a else {}) a st'"
  have j: "?J st" using s by simp
  have last: "runs (if pe_restoration_required (pr_peers st' d) then restored d st' else Ret (st', [])) ?Q" if "?J st'" for st'
    using restored_runs [OF ok, of st' d] none_removed [OF ok] that by (auto elim!: runs_weaken)
  show ?thesis unfolding upf_pfcp_state_associated.simps
    by (rule runs_then_do [OF steady.keeping_timer(1) [OF j, unfolded steady.keeping_def]],
        rule runs_then_do [OF steady.keeping_heartbeat [unfolded steady.keeping_def]], assumption, rule last)
qed

text \<open>What an event of a peer that is not associated does to the sessions.\<close>

lemma unassociated_runs:
  assumes ok: "n4_ok (pr_n4 a)" and w: "pe_state (pr_peers a d) = State_will_associate" and sig: "sig \<noteq> Entry" "sig \<noteq> Exit"
  shows "runs (ogs_fsm_dispatch env now d sig a) (\<lambda>(st, os). sessions_removed
    (if pe_state (pr_peers st d) = State_associated \<and> pe_restoration_required (pr_peers a d) then sessions_of d a else {}) a st)"
proof -
  let ?Q = "\<lambda>(st, os). sessions_removed
    (if pe_state (pr_peers st d) = State_associated \<and> pe_restoration_required (pr_peers a d) then sessions_of d a else {}) a st"
  have next_state: "runs (let s' = pe_state (pr_peers st d) in
        if s' = State_will_associate then Ret (st, [])
        else then_do (run_state State_will_associate env now d Exit st) (run_state s' env now d Entry)) ?Q"
    if "same_sessions a st \<and> (pe_state (pr_peers st d) = State_will_associate \<or>
      pr_peers st = (pr_peers a)(d := (pr_peers a d)\<lparr>pe_state := State_associated\<rparr>))" for st
  proof (cases "pe_state (pr_peers st d) = State_will_associate")
    case True
    then show ?thesis using none_removed [OF ok] that by simp
  next
    case False
    then have p: "pr_peers st = (pr_peers a)(d := (pr_peers a d)\<lparr>pe_state := State_associated\<rparr>)" using that by simp
    have j: "same_sessions a st \<and> pr_peers st = pr_peers st" using that by simp
    have exit: "runs (upf_pfcp_state_will_associate env now d Exit st) (\<lambda>(st', os). same_sessions a st' \<and> pr_peers st' = pr_peers st)"
      using steady.keeping_timer(2) [OF j] j by (simp add: steady.keeping_def)
    have entry: "runs (upf_pfcp_state_associated env now d Entry st') ?Q" if "same_sessions a st' \<and> pr_peers st' = pr_peers st" for st'
      by (rule runs_weaken [OF associated_entry_runs [OF ok conjunct1 [OF that]]]) (use that p in auto)
    have n: "pe_state (pr_peers st d) = State_associated" "State_associated \<noteq> State_will_associate" using p by simp_all
    have "runs (then_do (upf_pfcp_state_will_associate env now d Exit st) (run_state State_associated env now d Entry)) ?Q"
      by (rule runs_then_do [OF exit]) (simp only: run_state.simps entry)
    then show ?thesis unfolding Let_def n(1) run_state.simps if_not_P [OF n(2)] .
  qed
  show ?thesis unfolding ogs_fsm_dispatch_def w Let_def [of State_will_associate] run_state.simps(2)
    by (rule runs_then_do [OF will_associate_runs [OF w sig]]) (rule next_state [unfolded run_state.simps(2)])
qed

lemma unassociated_event:
  assumes ok: "n4_ok (pr_n4 a)" and w: "pe_state (pr_peers a (event_peer e)) = State_will_associate"
  shows "runs (upf_state_operational env now e a) (\<lambda>(st, os). sessions_removed
    (if pe_state (pr_peers st (event_peer e)) = State_associated \<and> pe_restoration_required (pr_peers a (event_peer e))
     then sessions_of (event_peer e) a else {}) a st)"
proof (cases e)
  case (UPF_EVT_N4_MESSAGE d ms)
  let ?Q = "\<lambda>(st, os). sessions_removed
    (if pe_state (pr_peers st d) = State_associated \<and> pe_restoration_required (pr_peers a d) then sessions_of d a else {}) a st"
  have d: "pe_state (pr_peers a d) = State_will_associate" using w UPF_EVT_N4_MESSAGE by simp
  have go: "runs (with_message env now d ms n st) ?Q" "?Q (st, [])" if s: "same_sessions a st \<and> pr_peers st = pr_peers a" for st n
  proof -
    have ok': "n4_ok (pr_n4 st)" using ok s n4_ok_timers by (auto simp: same_sessions_def)
    have same: "sessions_of d st = sessions_of d a" using s by (auto simp: sessions_of_def same_sessions_def live_def)
    have "runs (ogs_fsm_dispatch env now d (Message ms m) st) ?Q" for m
      by (rule runs_weaken [OF unassociated_runs [OF ok']])
        (use s d same same_sessions_removed in \<open>auto split: if_splits\<close>)
    then show "runs (with_message env now d ms n st) ?Q" by (simp add: with_message_def split: option.split)
    show "?Q (st, [])" using s d none_removed [OF ok] by simp
  qed
  have "runs (then_do (Ret (st, os)) (case new of None \<Rightarrow> (\<lambda>st. Ret (st, [])) | Some n \<Rightarrow> with_message env now d ms n)) ?Q"
    if "same_sessions a st \<and> pr_peers st = pr_peers a" for st os new
    by (rule runs_then_do [where P = "\<lambda>st. same_sessions a st \<and> pr_peers st = pr_peers a"])
      (use that go in \<open>auto split: option.split\<close>)
  then show ?thesis unfolding UPF_EVT_N4_MESSAGE upf_state_operational.simps event_peer.simps
    by (intro runs_bind [OF steady.on_xacts_runs [where a = a and ps = "pr_peers a"]]) auto
next
  case (UPF_EVT_N4_TIMER k d)
  then show ?thesis using unassociated_runs [OF ok, of d "Timer k"] w by (simp cong: if_cong)
next
  case (UPF_EVT_N4_NO_HEARTBEAT d)
  then show ?thesis using unassociated_runs [OF ok, of d No_heartbeat] w by (simp cong: if_cong)
qed

end
