(* ===== verification/Sm_Peers.thy ===== *)
theory Sm_Peers
  imports Sm_Run
begin

text \<open>
  What the user plane function does when a peer restarts, falls silent or is not associated.
\<close>

section \<open>A peer that restarts\<close>

lemma steady_heartbeat:
  assumes t: "ms_recovery_time_stamp ms = Some t"
  shows "runs (ogs_pfcp_handle_heartbeat_request env now d n ms a) (\<lambda>(st, os). same_sessions a st \<and>
    pr_peers st = (pr_peers a)(d := note_recovery t (pr_peers a d)))"
proof -
  let ?st = "update_peer d (note_recovery t) a"
  have "same_sessions a ?st \<and> pr_peers ?st = (pr_peers a)(d := note_recovery t (pr_peers a d))" by (simp add: update_peer_def same_sessions_def)
    (auto intro!: exI [of _ "uc_timers (ns_ctx (pr_n4 a))"])
  from steady.keeping_sent(1) [OF this] show ?thesis
    by (simp add: ogs_pfcp_handle_heartbeat_request_def t steady.keeping_def)
qed

lemma steady_heartbeat_response:
  assumes t: "ms_recovery_time_stamp ms = Some t"
  shows "runs (ogs_pfcp_handle_heartbeat_response env now d n ms a) (\<lambda>(st, os). same_sessions a st \<and>
    pr_peers st = (pr_peers a)(d := note_recovery t (pr_peers a d)))"
proof -
  have "same_sessions a a \<and> pr_peers a = pr_peers a" by simp
  from steady.keeping_sent(1) [OF this]
  have sent: "runs (ignoring (on_xacts (ogs_pfcp_xact_commit (ve_conf env) now n) a)) (\<lambda>(st, os). same_sessions a st \<and> pr_peers st = pr_peers a)"
    by (simp add: steady.keeping_def)
  have "runs (start_peer_timer now u (ve_no_heartbeat_duration env) (update_peer d (note_recovery t) st)) (\<lambda>(st, os).
      same_sessions a st \<and> pr_peers st = (pr_peers a)(d := note_recovery t (pr_peers a d)))"
    if "same_sessions a st \<and> pr_peers st = pr_peers a" for st u
    by (rule steady.keeping_timer(1) [unfolded steady.keeping_def]) (use that in \<open>simp add: update_peer_def same_sessions_def\<close>)
  then show ?thesis unfolding ogs_pfcp_handle_heartbeat_response_def t option.case by (rule runs_then_do [OF sent])
qed

lemma restart_runs:
  assumes ok: "n4_ok (pr_n4 a)" and h: "ph_type (ms_h ms) \<in> {OGS_PFCP_HEARTBEAT_REQUEST_TYPE, OGS_PFCP_HEARTBEAT_RESPONSE_TYPE}"
      "ms_recovery_time_stamp ms = Some t"
    and later: "pe_remote_recovery (pr_peers a d) \<noteq> 0" "pe_remote_recovery (pr_peers a d) < t"
  shows "runs (upf_pfcp_state_associated env now d (Message ms n) a) (\<lambda>(st, os).
    if pe_t_association (pr_peers a d) = None
    then sessions_removed (sessions_of d a) a st \<and> pe_state (pr_peers st d) = pe_state (pr_peers a d) \<and> \<not> pe_restoration_required (pr_peers st d)
    else sessions_removed {} a st \<and> pe_state (pr_peers st d) = State_will_associate \<and> pe_restoration_required (pr_peers st d))"
proof -
  let ?p = "pr_peers a d"
  have p: "note_recovery t ?p = ?p\<lparr>pe_remote_recovery := t, pe_restoration_required := True\<rparr>"
    using later by (auto simp: note_recovery_def)
  let ?Q = "\<lambda>(st, os).
      if pe_t_association (pr_peers a d) = None
      then sessions_removed (sessions_of d a) a st \<and> pe_state (pr_peers st d) = pe_state (pr_peers a d) \<and> \<not> pe_restoration_required (pr_peers st d)
      else sessions_removed {} a st \<and> pe_state (pr_peers st d) = State_will_associate \<and> pe_restoration_required (pr_peers st d)"
  have noted: "runs (then_do m (after_heartbeat d)) ?Q"
    if "runs m (\<lambda>(st, os). same_sessions a st \<and> pr_peers st = (pr_peers a)(d := note_recovery t (pr_peers a d)))" for m
  proof (rule runs_then_do [OF that])
    fix st
    assume s: "same_sessions a st \<and> pr_peers st = (pr_peers a)(d := note_recovery t (pr_peers a d))"
    show "runs (after_heartbeat d st) ?Q"
    proof (cases "pe_t_association ?p = None")
      case True
      with s p have "after_heartbeat d st = restored d st" by (simp add: after_heartbeat_def Let_def)
      then show ?thesis using True p s by (auto intro!: runs_weaken [OF restored_runs [OF ok]])
    next
      case False
      then have "after_heartbeat d st = Ret (tran d State_will_associate st, [])"
        using s p by (simp add: after_heartbeat_def Let_def)
      moreover have "sessions_removed {} a (tran d State_will_associate st)" by (rule none_removed [OF ok]) (use s in simp)
      ultimately show ?thesis using False s p by (simp add: tran_def update_peer_def)
    qed
  qed
  have "OGS_PFCP_HEARTBEAT_RESPONSE_TYPE \<noteq> OGS_PFCP_HEARTBEAT_REQUEST_TYPE" by (simp add: message_types)
  then show ?thesis using h(1) noted [OF steady_heartbeat [OF h(2)]] noted [OF steady_heartbeat_response [OF h(2)]]
    by (auto simp: Let_def)
qed

section \<open>A peer that falls silent\<close>

lemma xact_timer_expires:
  "xact_expire (ve_conf env) now n k (xacts_of st) = Ret (x, os) \<Longrightarrow>
    xact_timer_due env now n k st = Ret (put_xacts x st, concat (map out_of os))"
  by (auto simp: xact_timer_due_def ignoring_def on_xacts_def xact_expire_def)

lemma no_heartbeat_runs:
  assumes "pe_state (pr_peers a d) = State_associated"
  shows "runs (upf_state_operational env now (UPF_EVT_N4_NO_HEARTBEAT d) a) (\<lambda>(st, os).
    same_sessions a st \<and> pe_state (pr_peers st d) = State_will_associate)"
proof -
  let ?st = "tran d State_will_associate a"
  have j: "same_sessions a ?st \<and> pe_state (pr_peers ?st d) = State_will_associate" by (simp add: tran_def update_peer_def same_sessions_def)
    (auto intro!: exI [of _ "uc_timers (ns_ctx (pr_n4 a))"])
  have exit: "runs (upf_pfcp_state_associated env now d Exit ?st) (\<lambda>(st, os). same_sessions a st \<and> pe_state (pr_peers st d) = State_will_associate)"
    using quiet.keeping_timer(2) [OF j] by (simp add: quiet.keeping_def)
  have "runs (then_do (upf_pfcp_state_associated env now d Exit ?st) (upf_pfcp_state_will_associate env now d Entry))
    (\<lambda>(st, os). same_sessions a st \<and> pe_state (pr_peers st d) = State_will_associate)"
    by (rule runs_then_do [OF exit])
      (auto intro!: quiet.keeping_associate [unfolded quiet.keeping_def])
  moreover have "run_state State_will_associate env now d Entry = upf_pfcp_state_will_associate env now d Entry" by (rule ext) simp
  ultimately show ?thesis using assms j by (simp add: ogs_fsm_dispatch_def Let_def then_do_def [of "Ret _"])
qed

section \<open>An answer that nobody handles\<close>

lemma answer_timers:
  assumes b: "base_ok x" and n: "n \<in> open_xacts x" "x_org (xs_xact x n) = Local_originator" "x_step (xs_xact x n) = 1"
    and t: "ogs_pfcp_xact_get_stage type = Final_stage" and r: "receive_on conf now n type x = Ret (x', os, rv, new)"
  shows "armed (xs_timers x') t = None \<or> armed (xs_timers x') t = armed (xs_timers x) t"
proof -
  obtain s where s: "owns_timer x n Response_timer s" using base_okD(5) [OF b n(1)] by blast
  obtain m where m: "ogs_timer_stop (xs_timers x) s = Ret m" "xs_timers x' = m"
    using r n t s by (auto simp: receive_on_def ogs_pfcp_xact_update_rx_def Let_def record_rx_def stop_xact_timer_def owns_timer_def
        split: rx_result.splits) (metis rx_result.exhaust)
  have "armed m = (armed (xs_timers x))(s := None)"
    using tmr.stop_law [OF base_okD(4) [OF b], of s] s m(1) by (auto simp: owns_timer_def)
  then show ?thesis by (simp add: m(2))
qed

lemma xacts_of_put [simp]: "xacts_of (put_xacts x st) = x" "pr_peers (put_xacts x st) = pr_peers st" "pr_xacts (put_xacts x st) = x"
  by (simp_all add: xacts_of_def put_xacts_def put_timers_def timers_of_def)

lemma unhandled_answer:
  assumes ok: "xacts_ok (xacts_of st)" and l: "xact_lookup Local_originator d (ph_xid (ms_h ms)) (xacts_of st) = Some (Some n)"
    and w: "waiting (xacts_of st) n d xid type packet cb" and p: "pe_state (pr_peers st d) = State_associated"
    and v: "ph_type (ms_h ms) = OGS_PFCP_VERSION_NOT_SUPPORTED_RESPONSE_TYPE"
  shows "\<exists>st'. upf_state_operational env now (UPF_EVT_N4_MESSAGE d ms) st = Ret (st', []) \<and> pr_peers st' = pr_peers st \<and>
    xacts_ok (xacts_of st') \<and> stranded (xacts_of st') n \<and> others_kept n (xacts_of st) (xacts_of st') \<and> (\<forall>t. armed (timers_of st') t = None \<or> armed (timers_of st') t = armed (timers_of st) t)"
proof -
  let ?x = "xacts_of st" and ?type = "ph_type (ms_h ms)"
  have n: "n \<in> open_xacts ?x" "x_org (xs_xact ?x n) = Local_originator" "x_step (xs_xact ?x n) = 1"
    using w by (simp_all add: waiting_def Let_def)
  have t: "ogs_pfcp_xact_get_stage ?type = Final_stage"
    by (simp add: v OGS_PFCP_VERSION_NOT_SUPPORTED_RESPONSE_TYPE_def ogs_pfcp_xact_get_stage_def)
  obtain x where x: "receive_on (ve_conf env) now n ?type ?x = Ret (x, [], Rx_ok, Some n)" "xacts_ok x" "open_xacts x = open_xacts ?x"
    "x_org (xs_xact x n) = Local_originator" "x_step (xs_xact x n) = 2" "others_kept n ?x x"
    using receive_local [OF ok n t] by blast
  have f: "ogs_pfcp_xact_find_by_id (x_id (xs_xact x n)) x = Some n"
    using base_okD(9) [OF xacts_okD(1) [OF x(2)]] n(1) x(3) by simp
  have run: "upf_state_operational env now (UPF_EVT_N4_MESSAGE d ms) st = Ret (put_xacts x st, [])"
    using l x(1) t p f by (simp add: on_xacts_def ogs_pfcp_xact_receive_def then_do_def with_message_def ogs_fsm_dispatch_def Let_def v
        message_types)
  have "stranded (xacts_of (put_xacts x st)) n" using x n by (simp add: stranded_def)
  moreover have "timers_of (put_xacts x st) = xs_timers x" "timers_of st = xs_timers ?x"
    by (simp_all add: timers_of_def put_xacts_def put_timers_def xacts_of_def)
  ultimately show ?thesis using run answer_timers [OF xacts_okD(1) [OF ok] n t x(1)] x(2,6)
    by (auto simp del: upf_state_operational.simps)
qed

text \<open>What the supervision of a peer consists of: the timer of the next heartbeat, and the heartbeats that wait.\<close>

definition next_heartbeat_due :: "nat \<Rightarrow> 'e upf_process \<Rightarrow> bool" where
  "next_heartbeat_due d st \<longleftrightarrow> (\<exists>t. pe_t_no_heartbeat (pr_peers st d) = Some t \<and> armed (timers_of st) t \<noteq> None)"

definition heartbeats :: "nat \<Rightarrow> ('c, 'd) xact_state \<Rightarrow> nat set" where
  "heartbeats d st = {n \<in> open_xacts st. x_org (xs_xact st n) = Local_originator \<and> x_node (xs_xact st n) = d \<and>
     seq_type 0 (xs_xact st n) = OGS_PFCP_HEARTBEAT_REQUEST_TYPE \<and> x_step (xs_xact st n) = 1}"

section \<open>A sample process\<close>

definition sample_n4 :: "'c timer_mgr \<Rightarrow> 'c n4_state" where
  "sample_n4 m = \<lparr>ns_ctx = upf_context_init 1 (\<lambda>_. 0) 1 m (ogs_pfcp_context_init 1 (\<lambda>_. 0) 1) [], ns_peers = []\<rparr>"

definition sample_process :: "unit upf_process" where
  "sample_process = upf_start (sample_n4 (ogs_timer_mgr_create 16 2)) (start_xacts 16) []"

definition sample_upf_env :: "unit env" where
  "sample_upf_env = \<lparr>ve_n4 = \<lparr>ne_handler = \<lparr>he_compile = (\<lambda>_. None), he_stack = replicate 25 0\<rparr>, ne_now = 0, ne_mclk = 0,
     ne_cb = (\<lambda>_ _. Other_call (Session_call ())), ne_pton6 = (\<lambda>_. None), ne_pton4 = (\<lambda>_. None), ne_sock4 = True, ne_sock6 = False,
     ne_no_ipv4 = False, ne_no_ipv6 = False, ne_prefer_ipv4 = True, ne_max_peers = 8, ne_send_ok = True\<rparr>,
   ve_conf = sample_conf, ve_association_interval = 5000, ve_no_heartbeat_duration = 20000, ve_seed = 1, ve_pad = no_pad,
   ve_build = (\<lambda>_. None)\<rparr>"

definition sample_message :: "u8 \<Rightarrow> u32 \<Rightarrow> u32 option \<Rightarrow> upf_message" where
  "sample_message type xid t = \<lparr>ms_h = \<lparr>ph_seid_presence = False, ph_type = type, ph_seid = 0, ph_xid = xid\<rparr>,
     ms_recovery_time_stamp = t, ms_cp_function_features = None, ms_cp_f_seid = None,
     ms_establishment = \<lparr>es_sereq_flags = 0, es_create_pdr = [], es_create_far = [], es_create_urr = [], es_apn_dnn = None,
       es_create_qer = [], es_create_bar = None, es_pdn_type = None\<rparr>,
     ms_modification = \<lparr>md_create_pdr = [], md_update_pdr = [], md_remove_pdr = [], md_create_far = [], md_update_far = [], md_remove_far = [],
       md_create_urr = [], md_update_urr = [], md_remove_urr = [], md_create_qer = [], md_update_qer = [], md_remove_qer = [],
       md_create_bar = None, md_remove_bar = None\<rparr>\<rparr>"

lemma sample_process_reachable: "upf_reachable 1 sample_process"
  unfolding sample_process_def sample_n4_def by (rule upf_reachable.start)

lemma sample_xacts_of: "xacts_of sample_process = start_xacts 16"
  by (simp add: xacts_of_def timers_of_def sample_process_def upf_start_def sample_n4_def upf_context_init_def start_xacts_def
      ogs_pfcp_xact_init_def)

text \<open>A process with a session of peer 7, which is associated.\<close>

definition sample_peer :: pfcp_peer where
  "sample_peer = \<lparr>pe_state = State_associated, pe_t_association = None, pe_t_no_heartbeat = Some 0, pe_remote_recovery = 5,
     pe_restoration_required = False\<rparr>"

lemma sample_session:
  obtains c n c' where "n4_reachable 1 ((sample_n4 (m :: 'c timer_mgr))\<lparr>ns_ctx := c\<rparr>)" "uc_list c = [n]" "upf_sess_remove n c = Ret c'"
proof -
  let ?c = "ns_ctx (sample_n4 m)"
  have r: "n4_reachable 1 (sample_n4 m)" unfolding sample_n4_def by (rule n4_reachable.start)
  then have inv: "ctx_inv ?c" using n4_reachable_ok by (force simp: n4_ok_def)
  have "reachable 1 ?c" unfolding sample_n4_def by (simp add: reachable.init)
  have "card (allocated (uc_sess_pool ?c)) < pool_size (uc_sess_pool ?c)"
    by (simp add: sample_n4_def upf_context_init_def allocated_init) (simp add: ogs_pool_init_def)
  moreover have f: "fs_ipv4 sample_seid \<or> fs_ipv6 sample_seid" by (simp add: sample_seid_def)
  ultimately obtain c n where a: "upf_sess_add 1 sample_seid ?c = Ret (c, Some n)"
    using sess_add_succeeds [OF inv] by blast
  have "upf_sess_find_by_smf_n4_f_seid no_pad ?c sample_seid = Ret None"
    using f_seid_to_ip_Some [OF f]
    by (auto simp: upf_sess_find_by_smf_n4_f_seid_def sample_n4_def upf_context_init_def hash_get_make)
  then have "upf_sess_add_by_message 1 no_pad (Some sample_seid) ?c = Ret (c, Some n)"
    using a f by (simp add: upf_sess_add_by_message_def)
  then have "n4_reachable 1 ((sample_n4 m)\<lparr>ns_ctx := c\<rparr>)" by (rule n4_reachable.associate [OF r])
  moreover obtain c' where "upf_sess_remove n c = Ret c'" using sess_add_remove [OF \<open>reachable 1 ?c\<close> _ a] by auto
  moreover have "uc_list c = [n]"
    using sess_add_fields(9) [OF _ a] inv by (simp add: ctx_inv_def pools_inv_def) (simp add: sample_n4_def upf_context_init_def)
  ultimately show thesis using that by blast
qed

section \<open>Properties\<close>

text \<open>
  C9: In every state the user plane function reaches, the sessions are in a state that session requests
  reach, so that what holds there holds here; a peer has not been set up, or is in one of the two
  states of a peer and has its timer for heartbeats, which the handlers dereference; and every session
  has a peer that was set up, to which its reports go.
\<close>

theorem process_well_formed:
  assumes "upf_reachable k st" "k < 2 ^ 32"
  shows "n4_reachable k (pr_n4 st) \<and>
    (\<forall>d. pr_peers st d = zero_peer \<or>
       (pe_state (pr_peers st d) \<in> {State_will_associate, State_associated} \<and> pe_t_no_heartbeat (pr_peers st d) \<noteq> None)) \<and>
    (\<forall>n \<in> live (ns_ctx (pr_n4 st)). \<exists>d. pr_sess_node st n = Some d \<and>
       pe_state (pr_peers st d) \<in> {State_will_associate, State_associated})"
  using upf_reachable_ok [OF assms] by (fastforce simp: process_ok_def started_def)

theorem process_well_formed_witness:
  "\<exists>st os. pfcp_node_fsm_init sample_upf_env 0 7 False sample_process = Ret (st, os) \<and> n4_reachable 1 (pr_n4 st) \<and>
    pr_peers st 7 \<noteq> zero_peer \<and> pe_state (pr_peers st 7) \<in> {State_will_associate, State_associated}"
proof -
  let ?m = "ogs_timer_mgr_create 16 2 :: unit upf_call timer_call timer_mgr"
  have t: "timers_of sample_process = ?m" by (simp add: timers_of_def sample_process_def upf_start_def sample_n4_def upf_context_init_def)
  have "card (allocated (tm_pool ?m)) < pool_size (tm_pool ?m)"
    by (simp add: ogs_timer_mgr_create_def allocated_init) (simp add: ogs_pool_init_def)
  from timer_add_ok [OF timers_ok_create this] obtain m t where
    a: "ogs_timer_add ?m (Other_call (Peer_call UPF_TIMER_NO_HEARTBEAT 7)) = (m, Some t)" by blast
  then obtain st os where st: "pfcp_node_fsm_init sample_upf_env 0 7 False sample_process = Ret (st, os)" "pr_peers st 7 \<noteq> zero_peer"
    using t by (auto simp: pfcp_node_fsm_init_def ogs_fsm_init_def upf_pfcp_state_initial_def add_peer_timer_def then_do_def tran_def
        update_peer_def zero_peer_def put_timers_def timers_of_def sample_process_def upf_start_def Let_def)
  have "pr_peers sample_process 7 = zero_peer" by (simp add: sample_process_def upf_start_def)
  from upf_reachable.peer [OF sample_process_reachable this st(1)] have "upf_reachable 1 st" .
  from process_well_formed [OF this] st show ?thesis by (simp, metis)
qed

text \<open>
  C10: Whatever a peer sends that is not associated, and whatever its timers do, no session is
  established, changed or removed, neither its own nor those of others. The only exception is the
  restoration that was due when it associates again: then its own sessions go, with all their
  objects, and the others stay as they are.
\<close>

theorem unassociated_peer_harmless:
  assumes r: "n4_reachable k (pr_n4 st)" "k < 2 ^ 32" and w: "pe_state (pr_peers st (event_peer e)) = State_will_associate"
    and run: "upf_state_operational env now e st = Ret (st', os)"
  shows "\<exists>lost. live (ns_ctx (pr_n4 st')) = live (ns_ctx (pr_n4 st)) - lost \<and>
    (lost = {} \<or> lost = sessions_of (event_peer e) st \<and> pe_restoration_required (pr_peers st (event_peer e)) \<and>
       pe_state (pr_peers st' (event_peer e)) = State_associated) \<and>
    (\<forall>n \<in> lost. no_objects n (pfcp_of (pr_n4 st'))) \<and>
    (\<forall>n \<in> live (ns_ctx (pr_n4 st')). untouched n (pr_n4 st) (pr_n4 st') \<and> pr_sess_node st' n = pr_sess_node st n)"
  using runs_D [OF unassociated_event [OF n4_reachable_ok [OF r] w] run]
  by (auto simp: sessions_removed_def split: if_splits)

theorem unassociated_peer_harmless_witness:
  "\<exists>st st' os. upf_state_operational sample_upf_env 0 (UPF_EVT_N4_TIMER UPF_TIMER_NO_HEARTBEAT 7) st = Ret (st' :: unit upf_process, os) \<and>
    live (ns_ctx (pr_n4 st)) \<noteq> {} \<and> live (ns_ctx (pr_n4 st')) = live (ns_ctx (pr_n4 st))"
proof -
  obtain c :: "unit upf_call timer_call upf_context" and n c' where
    c: "n4_reachable 1 ((sample_n4 (ogs_timer_mgr_create 16 2))\<lparr>ns_ctx := c\<rparr>)" "uc_list c = [n]" "upf_sess_remove n c = Ret c'"
    by (rule sample_session)
  let ?e = "UPF_EVT_N4_TIMER UPF_TIMER_NO_HEARTBEAT 7"
  define st where "st = sample_process\<lparr>pr_n4 := (sample_n4 (ogs_timer_mgr_create 16 2))\<lparr>ns_ctx := c\<rparr>,
    pr_peers := (\<lambda>d. sample_peer\<lparr>pe_state := State_will_associate\<rparr>)\<rparr>"
  have run: "upf_state_operational sample_upf_env 0 ?e st = Ret (st, [])"
    by (simp add: ogs_fsm_dispatch_def st_def then_do_def)
  have "n4_reachable 1 (pr_n4 st)" "pe_state (pr_peers st (event_peer ?e)) = State_will_associate" "\<not> pe_restoration_required (pr_peers st 7)"
    using c(1) by (simp_all add: st_def sample_peer_def)
  from unassociated_peer_harmless [OF this(1) _ this(2) run] this(3) have "live (ns_ctx (pr_n4 st)) = live (ns_ctx (pr_n4 st))" by auto
  moreover have "live (ns_ctx (pr_n4 st)) \<noteq> {}" using c(2) by (simp add: st_def live_def)
  ultimately show ?thesis using run by blast
qed

text \<open>
  C11: A heartbeat, be it a request or a response to ours, with a later recovery time stamp than the
  last one that a heartbeat of the peer had means that the peer has restarted.
  If the peer associates by itself, the user plane function removes all sessions of that peer, with
  all their objects and their identifiers, and leaves those of other peers as they are. If it is we
  who associate, nothing is removed yet, and the peer is to be associated again.
\<close>

theorem restart_removes_sessions:
  assumes r: "n4_reachable k (pr_n4 st)" "k < 2 ^ 32"
    and h: "ph_type (ms_h ms) \<in> {OGS_PFCP_HEARTBEAT_REQUEST_TYPE, OGS_PFCP_HEARTBEAT_RESPONSE_TYPE}" "ms_recovery_time_stamp ms = Some t"
      "pe_remote_recovery (pr_peers st d) \<noteq> 0" "pe_remote_recovery (pr_peers st d) < t"
    and run: "upf_pfcp_state_associated env now d (Message ms n) st = Ret (st', os)"
  shows "let c = ns_ctx (pr_n4 st); c' = ns_ctx (pr_n4 st') in
    if pe_t_association (pr_peers st d) = None
    then live c' = {m \<in> live c. pr_sess_node st m \<noteq> Some d} \<and>
      (\<forall>m \<in> live c - live c'. no_objects m (pfcp_of (pr_n4 st')) \<and> (\<forall>i. upf_sess_find_by_upf_n4_seid c' i \<noteq> Some m)) \<and>
      (\<forall>m \<in> live c'. untouched m (pr_n4 st) (pr_n4 st')) \<and> \<not> pe_restoration_required (pr_peers st' d)
    else live c' = live c \<and> (\<forall>m \<in> live c'. untouched m (pr_n4 st) (pr_n4 st')) \<and>
      pe_state (pr_peers st' d) = State_will_associate \<and> pe_restoration_required (pr_peers st' d)"
proof -
  note Q = runs_D [OF restart_runs [OF n4_reachable_ok [OF r] h] run]
  show ?thesis
  proof (cases "pe_t_association (pr_peers st d) = None")
    case True
    then have q: "sessions_removed (sessions_of d st) st st'" "\<not> pe_restoration_required (pr_peers st' d)" using Q by simp_all
    then have i: "ctx_inv (ns_ctx (pr_n4 st'))" by (simp add: sessions_removed_def n4_ok_def)
    have "m \<in> live (ns_ctx (pr_n4 st'))" if "upf_sess_find_by_upf_n4_seid (ns_ctx (pr_n4 st')) j = Some m" for j m
      using that found_upf_seid [OF i] by blast
    moreover have "live (ns_ctx (pr_n4 st)) - sessions_of d st = {m \<in> live (ns_ctx (pr_n4 st)). pr_sess_node st m \<noteq> Some d}"
      by (auto simp: sessions_of_def)
    ultimately show ?thesis using q True by (auto simp: sessions_removed_def Let_def sessions_of_def)
  next
    case False
    then have "sessions_removed {} st st'" "pe_state (pr_peers st' d) = State_will_associate" "pe_restoration_required (pr_peers st' d)"
      using Q by simp_all
    then show ?thesis using False by (auto simp: sessions_removed_def Let_def)
  qed
qed

theorem restart_removes_sessions_witness:
  "\<exists>st st' os n. upf_pfcp_state_associated sample_upf_env 0 7 (Message (sample_message 1 4 (Some 6)) 0) st = Ret (st' :: unit upf_process, os) \<and>
    live (ns_ctx (pr_n4 st)) = {n} \<and> live (ns_ctx (pr_n4 st')) = {}"
proof -
  obtain c :: "unit upf_call timer_call upf_context" and n c' where
    c: "n4_reachable 1 ((sample_n4 (ogs_timer_mgr_create 16 2))\<lparr>ns_ctx := c\<rparr>)" "uc_list c = [n]" "upf_sess_remove n c = Ret c'"
    by (rule sample_session)
  define st where "st = sample_process\<lparr>pr_n4 := (sample_n4 (ogs_timer_mgr_create 16 2))\<lparr>ns_ctx := c\<rparr>,
    pr_peers := (\<lambda>d. sample_peer), pr_sess_node := (\<lambda>n. Some 7)\<rparr>"
  let ?ms = "sample_message 1 4 (Some 6)"
  obtain st' os where run: "upf_pfcp_state_associated sample_upf_env 0 7 (Message ?ms 0) st = Ret (st', os)"
    using c(2,3) by (simp add: st_def sample_message_def sample_upf_env_def ogs_pfcp_handle_heartbeat_request_def message_types then_do_def
        ignoring_def on_xacts_def ogs_pfcp_send_heartbeat_response_def after_heartbeat_def update_peer_def note_recovery_def sample_peer_def
        restored_def pfcp_restoration_def xacts_of_def put_xacts_def put_timers_def timers_of_def Let_def)
  have h: "n4_reachable 1 (pr_n4 st)" "ph_type (ms_h ?ms) \<in> {OGS_PFCP_HEARTBEAT_REQUEST_TYPE, OGS_PFCP_HEARTBEAT_RESPONSE_TYPE}" "ms_recovery_time_stamp ?ms = Some 6"
    "pe_remote_recovery (pr_peers st 7) \<noteq> 0" "pe_remote_recovery (pr_peers st 7) < 6" "pe_t_association (pr_peers st 7) = None"
    using c(1) by (simp_all add: st_def sample_message_def sample_peer_def message_types)
  from restart_removes_sessions [OF h(1) _ h(2-5) run] h(6)
  have "live (ns_ctx (pr_n4 st')) = {m \<in> live (ns_ctx (pr_n4 st)). pr_sess_node st m \<noteq> Some 7}" by (simp add: Let_def)
  moreover have "live (ns_ctx (pr_n4 st)) = {n}" "pr_sess_node st = (\<lambda>n. Some 7)" using c(2) by (simp_all add: st_def live_def)
  ultimately show ?thesis using run by auto
qed

text \<open>
  C12: A peer that falls silent is noticed: when the last repetition of a heartbeat is not answered in
  time, the transaction is given up, and the event that follows takes the peer out of the associated
  state. Its sessions are kept, with all their objects.
\<close>

theorem silent_peer_deassociated:
  assumes r: "xact_reachable (ve_conf env) (xacts_of st)" "conf_ok (ve_conf env)"
    and w: "waiting (xacts_of st) n d xid OGS_PFCP_HEARTBEAT_REQUEST_TYPE packet (Some (Peer_data d))"
      "x_response_rcount (xs_xact (xacts_of st) n) = 1"
    and p: "pe_state (pr_peers st d) = State_associated"
  shows "\<exists>st1. xact_timer_due env now n Response_timer st = Ret (st1, [Push (UPF_EVT_N4_NO_HEARTBEAT d)]) \<and>
    open_xacts (xacts_of st1) = open_xacts (xacts_of st) - {n} \<and>
    (\<forall>st2 os. upf_state_operational env later (UPF_EVT_N4_NO_HEARTBEAT d) st1 = Ret (st2, os) \<longrightarrow>
       pe_state (pr_peers st2 d) = State_will_associate \<and> same_sessions st st2)"
proof -
  have ok: "xacts_ok (xacts_of st)" by (rule xact_reachable_ok [OF r])
  obtain x where x: "xact_expire (ve_conf env) now n Response_timer (xacts_of st) =
      Ret (x, [Given_up OGS_PFCP_HEARTBEAT_REQUEST_TYPE (Peer_data d)])" "open_xacts x = open_xacts (xacts_of st) - {n}"
    using response_expires [OF ok r(2) w(1), of now] w(2) by auto
  let ?st1 = "put_xacts x st"
  have due: "xact_timer_due env now n Response_timer st = Ret (?st1, [Push (UPF_EVT_N4_NO_HEARTBEAT d)])"
    using xact_timer_expires [OF x(1)] by simp
  have s: "same_sessions st ?st1" using quiet.J_xacts [of st st d] by simp
  have "pe_state (pr_peers st2 d) = State_will_associate \<and> same_sessions st st2"
    if "upf_state_operational env later (UPF_EVT_N4_NO_HEARTBEAT d) ?st1 = Ret (st2, os)" for st2 os
  proof -
    have "same_sessions ?st1 st2 \<and> pe_state (pr_peers st2 d) = State_will_associate"
      using runs_D [OF no_heartbeat_runs that] p by simp
    then show ?thesis using s by (auto simp: same_sessions_def)
  qed
  then show ?thesis using due x(2) by auto
qed

lemma sample_heartbeat:
  assumes c: "conf_ok conf"
  obtains st :: "unit upf_process" and n packet where "xact_reachable conf (xacts_of st)" "pr_peers st = (\<lambda>d. sample_peer)"
    "waiting (xacts_of st) n 7 1 OGS_PFCP_HEARTBEAT_REQUEST_TYPE packet (Some (Peer_data 7))"
    "x_response_rcount (xs_xact (xacts_of st) n) = n1_response_rcount conf"
    "xact_lookup Local_originator 7 1 (xacts_of st) = Some (Some n)" "open_xacts (xacts_of st) = {n}"
proof -
  let ?x = "start_xacts 16 :: (unit upf_call, upf_data) xact_state"
  have room: "open_xacts ?x = {}" "xact_room ?x" "timer_room ?x" "xs_g_xact_id ?x = 0" 
    using start_room [where st = ?x and t = 16] by simp_all
  have ok: "xacts_ok ?x" by (rule xact_reachable_ok [OF start_xacts_reachable c])
  have i: "ogs_pfcp_xact_get_stage OGS_PFCP_HEARTBEAT_REQUEST_TYPE = Initial_stage" "next_xid 0 = 1"
    by (simp_all add: ogs_pfcp_xact_get_stage_def message_types next_xid_def PFCP_MAX_XACT_ID_def)
  obtain x n where x: "send_request conf 0 7 (Some (Peer_data 7)) OGS_PFCP_HEARTBEAT_REQUEST_TYPE 0 (Some []) ?x =
      Ret (x, [Sent 7 (ogs_pfcp_header OGS_PFCP_HEARTBEAT_REQUEST_TYPE 0 1 [])], True)" "xacts_ok x" "open_xacts x = {n}"
    "waiting x n 7 1 OGS_PFCP_HEARTBEAT_REQUEST_TYPE (ogs_pfcp_header OGS_PFCP_HEARTBEAT_REQUEST_TYPE 0 1 []) (Some (Peer_data 7))"
    "x_response_rcount (xs_xact x n) = n1_response_rcount conf"
    using send_request_ok [OF ok room(2,3) c i(1), of 0 7 "Some (Peer_data 7)" 0 "[]"] by (auto simp: room i(2))
  have "enabled 0 ?x (Request 7 (Some (Peer_data 7)) OGS_PFCP_HEARTBEAT_REQUEST_TYPE 0 (Some []))" using room(2,3) i(1) by simp
  then have r: "xact_reachable conf x" by (rule xact_reachable.event [OF start_xacts_reachable enabled_admitted]) (simp add: x(1))
  have "n \<in> members x Local_originator 7" "x_xid (xs_xact x n) = 1" "members x Local_originator 7 \<subseteq> {n}"
    using x(3,4) by (auto simp: waiting_def members_def Let_def)
  then have l: "xact_lookup Local_originator 7 1 x = Some (Some n)"
    by (cases rule: xact_lookup_cases [OF xacts_okD(1) [OF x(2)], of Local_originator 7 1]) auto
  show thesis
    by (rule that [of "put_xacts x (sample_process\<lparr>pr_peers := (\<lambda>d. sample_peer)\<rparr>)"]) (use r x l in simp_all)
qed

theorem silent_peer_deassociated_witness:
  "\<exists>st st1 :: unit upf_process. \<exists>env n. pe_state (pr_peers st 7) = State_associated \<and>
    xact_timer_due env 3000 n Response_timer st = Ret (st1, [Push (UPF_EVT_N4_NO_HEARTBEAT 7)])"
proof -
  let ?conf = "sample_conf\<lparr>n1_response_rcount := 1\<rparr>"
  have c: "conf_ok ?conf" by (simp add: conf_ok_def sample_conf_def)
  obtain st :: "unit upf_process" and n packet where s: "xact_reachable ?conf (xacts_of st)" "pr_peers st = (\<lambda>d. sample_peer)"
    "waiting (xacts_of st) n 7 1 OGS_PFCP_HEARTBEAT_REQUEST_TYPE packet (Some (Peer_data 7))"
    "x_response_rcount (xs_xact (xacts_of st) n) = n1_response_rcount ?conf"
    by (rule sample_heartbeat [OF c]) (rule that)
  let ?env = "sample_upf_env\<lparr>ve_conf := ?conf\<rparr>"
  have e: "ve_conf ?env = ?conf" by simp
  have a: "x_response_rcount (xs_xact (xacts_of st) n) = 1" "pe_state (pr_peers st 7) = State_associated"
    using s(2,4) by (simp_all add: sample_peer_def)
  from silent_peer_deassociated [of ?env st, unfolded e, OF s(1) c s(3) a, of 3000 0]
  obtain st1 where "xact_timer_due ?env 3000 n Response_timer st = Ret (st1, [Push (UPF_EVT_N4_NO_HEARTBEAT 7)])"
    by (elim exE conjE) (rule that)
  with a(2) show ?thesis by (intro exI conjI)
qed

text \<open>
  C28: A peer can end its own supervision. If it answers a heartbeat with another response under the
  same number, as "version not supported", the response ends the repetitions of the heartbeat and
  nothing handles it. When the timer of the next heartbeat does not run, as it does not after it has
  expired and led to this heartbeat, the peer is not supervised any more: neither that timer runs
  nor does a heartbeat wait for its response, and no other timer was started. The peer stays
  associated, and the transaction stays open without a timer. (With the heartbeat that is sent when
  the peer becomes associated the timer is started too, so that one is not concerned.)
\<close>

theorem unhandled_answer_ends_supervision:
  assumes r: "xact_reachable (ve_conf env) (xacts_of st)" "conf_ok (ve_conf env)"
    and w: "heartbeats d (xacts_of st) = {n}" "waiting (xacts_of st) n d (ph_xid (ms_h ms)) OGS_PFCP_HEARTBEAT_REQUEST_TYPE packet cb"
      "xact_lookup Local_originator d (ph_xid (ms_h ms)) (xacts_of st) = Some (Some n)"
    and t: "\<not> next_heartbeat_due d st"
    and p: "pe_state (pr_peers st d) = State_associated" and v: "ph_type (ms_h ms) = OGS_PFCP_VERSION_NOT_SUPPORTED_RESPONSE_TYPE"
  shows "\<exists>st'. upf_state_operational env now (UPF_EVT_N4_MESSAGE d ms) st = Ret (st', []) \<and>
    pe_state (pr_peers st' d) = State_associated \<and> n \<in> open_xacts (xacts_of st') \<and> (\<forall>k. alarm_of (xacts_of st') n k = None) \<and>
    \<not> next_heartbeat_due d st' \<and> heartbeats d (xacts_of st') = {} \<and>
    (\<forall>t. armed (timers_of st') t = None \<or> armed (timers_of st') t = armed (timers_of st) t)"
proof -
  have ok: "xacts_ok (xacts_of st)" by (rule xact_reachable_ok [OF r])
  obtain st' where s: "upf_state_operational env now (UPF_EVT_N4_MESSAGE d ms) st = Ret (st', [])" "pr_peers st' = pr_peers st"
    "xacts_ok (xacts_of st')" "stranded (xacts_of st') n" "others_kept n (xacts_of st) (xacts_of st')"
    "\<forall>t. armed (timers_of st') t = None \<or> armed (timers_of st') t = armed (timers_of st) t"
    using unhandled_answer [OF ok w(3,2) p v, where now = now and env = env] by (elim exE conjE) (rule that)
  have "m \<notin> heartbeats d (xacts_of st')" for m
  proof (cases "m = n")
    case True
    then show ?thesis using s(4) by (simp add: heartbeats_def stranded_def)
  next
    case False
    have "m \<in> heartbeats d (xacts_of st)" if "m \<in> heartbeats d (xacts_of st')"
      using that s(5) False by (auto simp: heartbeats_def others_kept_def)
    with False w(1) show ?thesis by blast
  qed
  moreover have "\<not> next_heartbeat_due d st'" using t s(2,6) by (metis next_heartbeat_due_def)
  ultimately show ?thesis using s p stranded_alarms [OF s(3,4)] by (intro exI [of _ st']) (auto simp: stranded_def)
qed

theorem unhandled_answer_ends_supervision_witness:
  "\<exists>st st' :: unit upf_process. \<exists>n. upf_state_operational sample_upf_env 0 (UPF_EVT_N4_MESSAGE 7 (sample_message 11 1 None)) st = Ret (st', []) \<and>
    heartbeats 7 (xacts_of st) = {n} \<and> pe_state (pr_peers st' 7) = State_associated \<and> heartbeats 7 (xacts_of st') = {}"
proof -
  obtain s0 :: "unit upf_process" and n packet where s: "xact_reachable sample_conf (xacts_of s0)"
    "waiting (xacts_of s0) n 7 1 OGS_PFCP_HEARTBEAT_REQUEST_TYPE packet (Some (Peer_data 7))"
    "xact_lookup Local_originator 7 1 (xacts_of s0) = Some (Some n)" "open_xacts (xacts_of s0) = {n}"
    by (rule sample_heartbeat [OF sample_conf_ok]) (rule that)
  have m: "timers_ok (timers_of s0)" using base_okD(4) [OF xacts_okD(1) [OF xact_reachable_ok [OF s(1) sample_conf_ok]]] by (simp add: xacts_of_def)
  obtain t where t: "t \<notin> allocated (tm_pool (timers_of s0))" using ex_new_if_finite [of "allocated (tm_pool (timers_of s0))"] by auto
  define st where "st = s0\<lparr>pr_peers := (\<lambda>d. sample_peer\<lparr>pe_t_no_heartbeat := Some t\<rparr>)\<rparr>"
  have x: "xacts_of st = xacts_of s0" "timers_of st = timers_of s0" by (simp_all add: st_def xacts_of_def timers_of_def)
  let ?ms = "sample_message 11 1 None"
  have e: "ve_conf sample_upf_env = sample_conf" "ph_xid (ms_h ?ms) = 1" "ph_type (ms_h ?ms) = OGS_PFCP_VERSION_NOT_SUPPORTED_RESPONSE_TYPE"
    by (simp_all add: sample_upf_env_def sample_message_def message_types)
  have a: "pe_state (pr_peers st 7) = State_associated" by (simp add: st_def sample_peer_def)
  have "armed (timers_of st) t = None" using t m by (auto simp: x armed_def timers_ok_def)
  then have d: "\<not> next_heartbeat_due 7 st" by (simp add: next_heartbeat_due_def st_def)
  have h: "heartbeats 7 (xacts_of st) = {n}" using s(2,4) by (auto simp: x heartbeats_def waiting_def Let_def)
  have y: "xact_reachable sample_conf (xacts_of st)" "waiting (xacts_of st) n 7 1 OGS_PFCP_HEARTBEAT_REQUEST_TYPE packet (Some (Peer_data 7))"
    "xact_lookup Local_originator 7 1 (xacts_of st) = Some (Some n)" using s by (simp_all only: x)
  note u = unhandled_answer_ends_supervision [where env = sample_upf_env and st = st and d = 7 and n = n and ms = ?ms and now = 0, unfolded e(1,2),
    OF y(1) sample_conf_ok h y(2,3) d a e(3)]
  from u obtain st' where "upf_state_operational sample_upf_env 0 (UPF_EVT_N4_MESSAGE 7 ?ms) st = Ret (st', [])"
    "pe_state (pr_peers st' 7) = State_associated" "heartbeats 7 (xacts_of st') = {}" by (elim exE conjE) (rule that)
  with h show ?thesis by (intro exI conjI)
qed

end
