(* ===== verification/Spec2Isabelle.thy ===== *)
theory Spec2Isabelle
  imports Ogs_Hash Ogs_Pool Ogs_List Ogs_Rbtree Ogs_Timer Ogs_Queue Upf_Urr Quic_Server Route_Trie Rule_Match Pfcp_Sess
    Ogs_Ipsubnet Upf_Context Upf_Sessions Gtp_Header Pfcp_Forward Gtp_Path Pfcp_Types Pfcp_Handler Pfcp_Invariant
    Pfcp_Steps Pfcp_Kept N4_Handler N4_Requests N4_Establish Pfcp_Codec Pfcp_Report
    Pfcp_Xact Xact_Invariant Xact_Steps Xact_Events Xact_Run Xact_Delivery Upf_Sm Sm_Steps Sm_Run Sm_Peers
begin

text \<open>
  \<^bold>\<open>The program.\<close> The repository evaluates QUIC as the transport of the N3 interface of a 5G core.
  Its subject is the user plane function of Open5GS (\<^verbatim>\<open>src/open5gs/src/upf\<close>), which was given a
  QUIC server beside GTP-U, with the libraries it stands on (\<^verbatim>\<open>src/open5gs/lib/core\<close>,
  \<^verbatim>\<open>lib/pfcp\<close>, \<^verbatim>\<open>lib/gtp\<close>). The session management function creates sessions over PFCP: a session
  has packet detection rules (PDR), forwarding action rules (FAR) and usage reporting rules
  (URR). A packet from the data network is read from a tunnel device, its session is found by
  the address of the UE, a PDR of the session is selected, the packet is counted and sent to the
  gNB under the tunnel identifier of the FAR, over GTP-U or in a QUIC datagram. A packet from a
  gNB names a session by its tunnel identifier, is checked for its source address, counted and
  written to the tunnel device.

  \<^bold>\<open>Theories and code.\<close>
  \<^item> \<open>Prelude\<close>: machine integers, network byte order, lists updated by position, circular
    arrays, and \<open>exec\<close>, the result of code that an assertion may end.
  \<^item> \<open>Ogs_Hash\<close> (\<^verbatim>\<open>lib/core/ogs-hash.c\<close>): the chained hash table with its growth and iteration;
    it refines a finite map (locale \<open>key_store\<close>, interpreted on the table).
  \<^item> \<open>Ogs_Pool\<close> (\<^verbatim>\<open>lib/core/ogs-pool.h\<close>): the fixed-size allocator with its circular free list
    and identifiers (locale \<open>allocator\<close>).
  \<^item> \<open>Ogs_List\<close> (\<^verbatim>\<open>lib/core/ogs-list.h\<close>): the doubly linked lists on a store of links; they refine
    sequences.
  \<^item> \<open>Ogs_Rbtree\<close>, \<open>Ogs_Timer\<close> (\<^verbatim>\<open>lib/core/ogs-rbtree.c\<close>, \<^verbatim>\<open>ogs-timer.c\<close>): the red-black tree on
    a store of nodes with parent pointers, and the timers kept in it.
  \<^item> \<open>Ogs_Queue\<close> (\<^verbatim>\<open>lib/core/ogs-queue.c\<close>): the bounded queue between threads as a step relation
    over the states of its callers.
  \<^item> \<open>Ogs_Ipsubnet\<close> (\<^verbatim>\<open>lib/core/ogs-sockaddr.c\<close>): subnet strings and framed routes.
  \<^item> \<open>Route_Trie\<close> (\<^verbatim>\<open>src/upf/context.c\<close>): the tries of framed routes; they refine longest prefix
    match on a map of prefixes.
  \<^item> \<open>Rule_Match\<close> (\<^verbatim>\<open>lib/pfcp/rule-match.c\<close>): the packet filter of a PDR, with the walk over IPv6
    extension headers.
  \<^item> \<open>Upf_Urr\<close> (\<^verbatim>\<open>src/upf/context.c\<close>, \<^verbatim>\<open>n4-build.c\<close>, \<^verbatim>\<open>n4-handler.c\<close>): usage accounting, its
    timers and reports.
  \<^item> \<open>Pfcp_Sess\<close> (\<^verbatim>\<open>lib/pfcp/context.c\<close>): the objects of a PFCP session, their pools and the
    tables that find them by TEID.
  \<^item> \<open>Upf_Context\<close>, \<open>Upf_Sessions\<close> (\<^verbatim>\<open>src/upf/context.c\<close>): sessions, their five tables, UE
    addresses and framed routes, and the invariant of the contexts that are reachable.
  \<^item> \<open>Gtp_Header\<close> (\<^verbatim>\<open>lib/gtp/util.c\<close>, \<^verbatim>\<open>v2/build.c\<close>, \<^verbatim>\<open>v2/path.c\<close>, \<^verbatim>\<open>lib/core/ogs-pkbuf.h\<close>): packet
    buffers and the GTP-U header.
  \<^item> \<open>Pfcp_Forward\<close> (\<^verbatim>\<open>lib/pfcp/handler.c\<close>, \<^verbatim>\<open>path.c\<close>, \<^verbatim>\<open>conv.c\<close>): what a FAR does with a packet.
  \<^item> \<open>Quic_Server\<close> (\<^verbatim>\<open>src/upf/quic-server.c\<close>): the QUIC server, its clients and datagrams.
  \<^item> \<open>Gtp_Path\<close> (\<^verbatim>\<open>src/upf/gtp-path.c\<close>): the packet handlers, which compose all of the above.

  \<^item> \<open>Pfcp_Types\<close> (\<^verbatim>\<open>lib/pfcp/types.c\<close>, \<^verbatim>\<open>lib/core/ogs-conv.c\<close>): the coding of information elements.
  \<^item> \<open>Pfcp_Codec\<close>: what the parsers of information elements read back of what the builders wrote.
  \<^item> \<open>Pfcp_Report\<close> (\<^verbatim>\<open>lib/pfcp/build.c\<close>, \<^verbatim>\<open>src/upf/n4-build.c\<close>): the messages that carry usage
    reports, with the static buffer of their volume measurements.
  \<^item> \<open>Pfcp_Handler\<close> (\<^verbatim>\<open>lib/pfcp/handler.c\<close>): the handlers that create, update and remove the rules of
    a session.
  \<^item> \<open>N4_Handler\<close> (\<^verbatim>\<open>src/upf/n4-handler.c\<close>, \<^verbatim>\<open>n4-build.c\<close>): the session requests of the control
    plane, with the GTP-U peers of FARs.
  \<^item> \<open>Pfcp_Invariant\<close>, \<open>Pfcp_Steps\<close>, \<open>Pfcp_Kept\<close>: the invariant of the PFCP state, that every step
    and every rule handler keeps it and leaves the other sessions alone.
  \<^item> \<open>N4_Requests\<close>, \<open>N4_Establish\<close>: whole requests and the states they reach; what an accepted
    establishment has set up.
  \<^item> \<open>Pfcp_Xact\<close> (\<^verbatim>\<open>lib/pfcp/xact.c\<close>, and the message header of \<^verbatim>\<open>lib/pfcp/build.c\<close> and
    \<^verbatim>\<open>path.c\<close>): transactions, their three timers and the lists of each peer.
  \<^item> \<open>Xact_Invariant\<close>, \<open>Xact_Steps\<close>, \<open>Xact_Events\<close>, \<open>Xact_Run\<close>, \<open>Xact_Delivery\<close>: the invariant of the
    transactions, what each operation and each event does to it, the states they reach, and what
    both sides can rely on in them.
  \<^item> \<open>Upf_Sm\<close> (\<^verbatim>\<open>src/upf/upf-sm.c\<close>, \<^verbatim>\<open>pfcp-sm.c\<close>, \<^verbatim>\<open>pfcp-path.c\<close>, \<^verbatim>\<open>lib/pfcp/path.c\<close>,
    \<^verbatim>\<open>lib/pfcp/handler.c\<close>): the events of the process, the state machine of a PFCP peer with
    association, heartbeats and restoration, and the senders of messages.
  \<^item> \<open>Sm_Steps\<close>, \<open>Sm_Run\<close>, \<open>Sm_Peers\<close>: what a step of the process keeps (locales over the parts of the
    process that a step may change), the states it reaches, and what becomes of the sessions of a peer
    that restarts, falls silent or is not associated.

  \<^bold>\<open>State.\<close> A C object in a pool is named by its position, as a pointer names it; the contents of
  a pool are a function of the position, and an object that was freed keeps its contents, so that
  a stale name can be seen to be used. \<open>upf_context\<close> is the state of \<^verbatim>\<open>src/upf/context.c\<close> and has
  in it the PFCP state \<open>pfcp_ctx\<close> and the timer manager; \<open>upf_plane\<close> adds the QUIC server.
  \<open>upf_process\<close> is the state of the control path: the context with the GTP-U peers (\<open>n4_state\<close>), the
  transactions (\<open>xact_state\<close>), the peers with their timers, and the peer of each session. A C
  function with a failing assertion or a use of a null or dangling pointer returns \<open>Abort\<close>. What a
  handler sends or writes is a list in its result. Clocks, random numbers, the results of system
  calls and of the MsQuic, Tins and YAML libraries are arguments.

  \<^bold>\<open>What is proved.\<close>
  \<^item> Paths: a packet reaches the data network over GTP-U only with a source of its session; the
    GTP-U handler returns on every datagram but for the causes listed; a downlink packet in QUIC mode is sent in
    one datagram the gNB reads back; held packets are replayed once and in order; GTP-U headers
    are read back as they were written.
  \<^item> Sessions: every look-up of a reachable context returns live sessions, the right ones; adding
    and removing a session are inverse; the capacity is that of the pool; framed routes are those
    last set; clearing a PFCP session releases all its objects.
  \<^item> Requests: in every state the control plane can reach, each object in use is in the list of one
    live session; a refused request leaves its session without objects; a request changes nothing
    of other sessions; an accepted establishment sets up the rules, FARs and TEIDs of the message.
  \<^item> Transactions: a request of a peer is handed on once and its repetitions get the same answer; an
    unanswered request is repeated as configured and then given up with everything released; the
    process ends only on an arrival for which there is no room. Two events are left out of the states that
    are reached: a request that finds a transaction but not its three timers, which breaks the list of
    the peer (a theorem of its own), and a clash of identifiers after their counter has come round.
  \<^item> Peers: a peer that is not associated touches no session, but for the restoration that was due; a heartbeat with a later recovery time
    stamp removes the sessions of its peer and no others; a silent peer is no longer associated and
    keeps its sessions.
  \<^item> Accounting: reported plus unreported volume is the traffic; reports come exactly at the
    thresholds; timers are those asked for and are deleted with the session.
  \<^item> Data structures: the hash table is a map, the tries do longest prefix match without leaks, the
    tree stays a balanced search tree in its pointers, timers expire in order, the queue is first
    in first out under every interleaving, the pool never gives an object twice.
  \<^item> Failures of the code that are theorems: see the findings; among them the unchecked source of
    packets that come over QUIC, the client table keyed by address, a dangling UE address, the
    uninitialised padding of a hash key, and the endless loop over jumbo options.

  \<^bold>\<open>Bounds and fuel.\<close> Loops are structural or have a measure, except the loop over jumbo options,
  which may not end: it runs on fuel, and fuel for the length of the packet decides it
  (\<open>find_rule_fuel\<close>). The timers of a transaction that is given up run once per repetition, which is
  the bound of \<open>unanswered\<close>. Reachable contexts assume fewer than \<open>2 ^ 32\<close> sessions, the width of an
  identifier. The header loop of GTP-U is bounded by the eight headers of the code.

  \<^bold>\<open>Not modelled.\<close> The generated message codec (a request is the record of its decoded elements); the
  identification of a peer by its node identifier or address when a datagram arrives (a peer is named by
  its node); the octets of a hash key that change after they were entered (an entry has its key by
  value); opening of sockets and devices; logging, memory management and metrics; the control plane functions, generated code and third party libraries; UERANSIM. Threads are modelled
  in \<open>Ogs_Queue\<close>; the handlers are taken to run one at a time, although QUIC events arrive on
  threads of the MsQuic library.
\<close>

end
